(* ===== verification/Prelude.thy ===== *)
theory Prelude
  imports Main "HOL-Library.Word" "HOL-Library.Sublist"
begin

text \<open>
  The vocabulary every component of the development shares.

  \<^item> Return codes.  The C functions return 0 or a negative errno
    (\<^verbatim>\<open>include/hwrun.h\<close>); they stay integers here, under the names of the header.
  \<^item> C strings are \<^typ>\<open>string\<close>, the characters before the NUL; a pointer that may be NULL is an
    option.  A character array of size \<open>N\<close> filled by \<^verbatim>\<open>snprintf(buf, N, "%s", s)\<close> holds \<open>cstr N s\<close>.
  \<^item> The parts of the C library the sources use on strings: \<^verbatim>\<open>strchr\<close>, \<^verbatim>\<open>strtok\<close>, \<^verbatim>\<open>strtol\<close>,
    \<^verbatim>\<open>strtoull\<close>, \<^verbatim>\<open>fgets\<close>, the decimal conversions of \<^verbatim>\<open>printf\<close>, trimming loops.
  \<^item> An allocation oracle: a list of outcomes, one per \<^verbatim>\<open>calloc\<close>, where the empty list means success.
  \<^item> Lemmas on first-match search, update and removal in lists, the shape of every linked list
    of the program.
\<close>

section \<open>Return codes\<close>

type_synonym rc = int
type_synonym byte = "8 word"

abbreviation HWRUN_OK :: rc where "HWRUN_OK \<equiv> 0"
abbreviation EPERM :: rc where "EPERM \<equiv> - 1"
abbreviation ENOENT :: rc where "ENOENT \<equiv> - 2"
abbreviation EIO :: rc where "EIO \<equiv> - 5"
abbreviation EAGAIN :: rc where "EAGAIN \<equiv> - 11"
abbreviation ENOMEM :: rc where "ENOMEM \<equiv> - 12"
abbreviation EACCES :: rc where "EACCES \<equiv> - 13"
abbreviation EFAULT :: rc where "EFAULT \<equiv> - 14"
abbreviation EEXIST :: rc where "EEXIST \<equiv> - 17"
abbreviation EINVAL :: rc where "EINVAL \<equiv> - 22"
abbreviation ENOTTY :: rc where "ENOTTY \<equiv> - 25"
abbreviation ENOSPC :: rc where "ENOSPC \<equiv> - 28"
abbreviation ENAMETOOLONG :: rc where "ENAMETOOLONG \<equiv> - 36"
abbreviation EILSEQ :: rc where "EILSEQ \<equiv> - 84"
abbreviation ENOTSUP :: rc where "ENOTSUP \<equiv> - 95"
abbreviation ENOBUFS :: rc where "ENOBUFS \<equiv> - 105"
abbreviation ECONFLICT :: rc where "ECONFLICT \<equiv> - 4097"
abbreviation ENOTREADY :: rc where "ENOTREADY \<equiv> - 4098"

section \<open>Rewriting collections\<close>

named_theorems cstr_simps \<open>facts on bounded C strings\<close>
named_theorems wf_intros \<open>preservation of component invariants\<close>

section \<open>C strings\<close>

abbreviation NL :: char where "NL \<equiv> CHR 0x0A"
abbreviation CR :: char where "CR \<equiv> CHR 0x0D"
abbreviation TAB :: char where "TAB \<equiv> CHR 0x09"

definition cstr :: "nat \<Rightarrow> string \<Rightarrow> string" where
  "cstr cap s = take (cap - 1) s"

lemma length_cstr [cstr_simps]: "length (cstr cap s) = min (length s) (cap - 1)"
  by (simp add: cstr_def min.commute)

lemma length_cstr_less: "0 < cap \<Longrightarrow> length (cstr cap s) < cap"
  by (simp add: cstr_def)

lemma cstr_id [cstr_simps]: "length s < cap \<Longrightarrow> cstr cap s = s"
  by (simp add: cstr_def)

lemma cstr_cstr [cstr_simps]: "cstr cap (cstr cap s) = cstr cap s"
  by (simp add: cstr_def)

lemma cstr_Nil [cstr_simps]: "cstr cap [] = []"
  by (simp add: cstr_def)

lemma set_cstr: "c \<in> set (cstr cap s) \<Longrightarrow> c \<in> set s"
  by (auto simp: cstr_def dest: in_set_takeD)

text \<open>\<^verbatim>\<open>isspace\<close> and \<^verbatim>\<open>isdigit\<close> of the C locale.\<close>

definition isspace :: "char \<Rightarrow> bool" where
  "isspace c \<longleftrightarrow> c \<in> {CHR '' '', TAB, NL, CHR 0x0B, CHR 0x0C, CR}"

definition isdigit :: "char \<Rightarrow> bool" where
  "isdigit c \<longleftrightarrow> 48 \<le> (of_char c :: nat) \<and> (of_char c :: nat) \<le> 57"

definition isblank :: "char \<Rightarrow> bool" where
  "isblank c \<longleftrightarrow> c = CHR '' '' \<or> c = TAB"

text \<open>The loops that move a pointer over leading characters and cut trailing ones.\<close>

definition rtrim :: "(char \<Rightarrow> bool) \<Rightarrow> string \<Rightarrow> string" where
  "rtrim P s = rev (dropWhile P (rev s))"

definition trim_by :: "(char \<Rightarrow> bool) \<Rightarrow> string \<Rightarrow> string" where
  "trim_by P s = rtrim P (dropWhile P s)"

lemma rtrim_Nil [simp]: "rtrim P [] = []"
  by (simp add: rtrim_def)

lemma rtrim_snoc [simp]: "rtrim P (s @ [c]) = (if P c then rtrim P s else s @ [c])"
  by (simp add: rtrim_def)

lemma rtrim_id: "s = [] \<or> \<not> P (last s) \<Longrightarrow> rtrim P s = s"
  by (cases s rule: rev_cases) auto

lemma dropWhile_id: "s = [] \<or> \<not> P (hd s) \<Longrightarrow> dropWhile P s = s"
  by (cases s) auto

lemma trim_by_id:
  "s = [] \<or> \<not> P (hd s) \<and> \<not> P (last s) \<Longrightarrow> trim_by P s = s"
  unfolding trim_by_def by (cases s) (auto simp: rtrim_id)

lemma trim_by_Nil [simp]: "trim_by P [] = []"
  by (simp add: trim_by_def)

lemma set_rtrim: "c \<in> set (rtrim P s) \<Longrightarrow> c \<in> set s"
  by (auto simp: rtrim_def dest: set_dropWhileD)

lemma set_trim_by: "c \<in> set (trim_by P s) \<Longrightarrow> c \<in> set s"
  unfolding trim_by_def by (blast dest: set_rtrim set_dropWhileD)

lemma rtrim_last: "rtrim P s \<noteq> [] \<Longrightarrow> \<not> P (last (rtrim P s))"
proof (induction s rule: rev_induct)
  case (snoc c s)
  then show ?case by (auto split: if_splits)
qed simp

lemma length_rtrim: "length (rtrim P s) \<le> length s"
  using length_dropWhile_le [of P "rev s"] by (simp add: rtrim_def)

lemma length_trim_by: "length (trim_by P s) \<le> length s"
  unfolding trim_by_def by (meson length_dropWhile_le length_rtrim le_trans)

text \<open>\<^verbatim>\<open>strchr\<close>: the text before the first \<open>c\<close>, and the text after it when there is one.\<close>

fun split_first :: "char \<Rightarrow> string \<Rightarrow> string \<times> string option" where
  "split_first c [] = ([], None)"
| "split_first c (x # s) =
     (if x = c then ([], Some s)
      else (case split_first c s of (h, r) \<Rightarrow> (x # h, r)))"

lemma split_first_append [simp]:
  "c \<notin> set h \<Longrightarrow> split_first c (h @ c # s) = (h, Some s)"
  by (induction h) auto

lemma split_first_notin [simp]: "c \<notin> set h \<Longrightarrow> split_first c h = (h, None)"
  by (induction h) auto

lemma split_first_cases:
  "split_first c s = (h, r) \<Longrightarrow>
     c \<notin> set h \<and> (case r of None \<Rightarrow> s = h | Some t \<Rightarrow> s = h @ c # t)"
  by (induction s arbitrary: h r) (auto split: if_splits prod.splits option.splits)

lemma split_first_length:
  "split_first c s = (h, Some t) \<Longrightarrow> length t < length s"
  by (drule split_first_cases) auto

text \<open>\<^verbatim>\<open>strtok\<close>: the maximal runs of characters that are not separators.\<close>

function tokens :: "(char \<Rightarrow> bool) \<Rightarrow> string \<Rightarrow> string list" where
  "tokens P s =
     (let t = dropWhile P s in
      if t = [] then []
      else takeWhile (\<lambda>c. \<not> P c) t # tokens P (dropWhile (\<lambda>c. \<not> P c) t))"
  by pat_completeness auto
termination
proof (relation "measure (\<lambda>(P, s). length s)", goal_cases)
  case (2 P s t)
  then have nt: "t \<noteq> []" and "\<not> P (hd t)"
    by (auto simp: hd_dropWhile)
  then have "length (dropWhile (\<lambda>c. \<not> P c) t) < length t"
    by (cases t) (auto simp: length_dropWhile_le less_Suc_eq_le)
  moreover have "length t \<le> length s"
    using 2 by (simp add: length_dropWhile_le)
  ultimately show ?case by simp
qed simp

declare tokens.simps [simp del]

lemma tokens_Nil [simp]: "tokens P [] = []"
  by (simp add: tokens.simps)

lemma tokens_sep [simp]: "P c \<Longrightarrow> tokens P (c # s) = tokens P s"
  by (simp add: tokens.simps [of P "c # s"] tokens.simps [of P s])

lemma tokens_word:
  assumes "w \<noteq> []" and "\<forall>c \<in> set w. \<not> P c" and "r = [] \<or> P (hd r)"
  shows "tokens P (w @ r) = w # tokens P r"
proof -
  have "dropWhile P (w @ r) = w @ r"
    using assms(1,2) by (cases w) auto
  moreover have "takeWhile (\<lambda>c. \<not> P c) (w @ r) = w"
    using assms(2,3) by (cases r) (auto simp: takeWhile_append2)
  moreover have "dropWhile (\<lambda>c. \<not> P c) (w @ r) = r"
    using assms(2,3) by (cases r) (auto simp: dropWhile_append2)
  ultimately show ?thesis
    using assms(1) by (subst tokens.simps) (simp add: Let_def)
qed

lemma tokens_append_sep:
  assumes "P c"
  shows "tokens P (s @ c # t) = tokens P s @ tokens P t"
proof (induction s rule: length_induct)
  case (1 s)
  show ?case
  proof (cases s)
    case Nil
    with assms show ?thesis by simp
  next
    case (Cons d s')
    show ?thesis
    proof (cases "P d")
      case True
      with 1 Cons show ?thesis by simp
    next
      case False
      let ?w = "takeWhile (\<lambda>c. \<not> P c) s" and ?r = "dropWhile (\<lambda>c. \<not> P c) s"
      have s: "s = ?w @ ?r" by simp
      have w: "?w \<noteq> []" "\<forall>c \<in> set ?w. \<not> P c" using False Cons by (auto dest: set_takeWhileD)
      have r: "?r = [] \<or> P (hd ?r)" using hd_dropWhile [of "\<lambda>c. \<not> P c" s] by auto
      have "length ?w > 0" using w(1) by simp
      moreover have "length s = length ?w + length ?r" using s by (metis length_append)
      ultimately have l: "length ?r < length s" by linarith
      have "tokens P (?w @ ?r @ c # t) = ?w # tokens P (?r @ c # t)"
        by (rule tokens_word [OF w]) (use r assms in \<open>auto simp: hd_append\<close>)
      also have "\<dots> = (?w # tokens P ?r) @ tokens P t" using 1 l by simp
      also have "?w # tokens P ?r = tokens P (?w @ ?r)" using tokens_word [OF w r] by simp
      finally show ?thesis using s by (metis append.assoc)
    qed
  qed
qed

lemma tokens_Cons:
  "dropWhile P s \<noteq> [] \<Longrightarrow> tokens P s =
     takeWhile (\<lambda>c. \<not> P c) (dropWhile P s) # tokens P (dropWhile (\<lambda>c. \<not> P c) (dropWhile P s))"
  by (subst tokens.simps) (simp only: Let_def if_False)

lemma tokens_nonempty: "t \<in> set (tokens P s) \<Longrightarrow> t \<noteq> [] \<and> (\<forall>c \<in> set t. \<not> P c)"
proof (induction P s rule: tokens.induct)
  case (1 P s)
  let ?t = "dropWhile P s"
  show ?case
  proof (cases "?t = []")
    case True
    with "1.prems" show ?thesis by (simp add: tokens.simps [of P s])
  next
    case False
    then have ne: "takeWhile (\<lambda>c. \<not> P c) ?t \<noteq> []"
      using hd_dropWhile [of P s] by (cases ?t) auto
    from "1.prems" consider "t = takeWhile (\<lambda>c. \<not> P c) ?t"
      | "t \<in> set (tokens P (dropWhile (\<lambda>c. \<not> P c) ?t))"
      unfolding tokens_Cons [OF False] list.set by blast
    then show ?thesis
    proof cases
      case 1
      show ?thesis unfolding 1 using ne by (blast dest: set_takeWhileD)
    next
      case 2
      then show ?thesis using "1.IH" False by blast
    qed
  qed
qed

section \<open>Reading a file line by line\<close>

text \<open>
  One \<^verbatim>\<open>fgets(buf, n + 1, f)\<close>: at most \<open>n\<close> characters, up to and including a newline; then the
  loop \<^verbatim>\<open>while (fgets(line, sizeof(line), f))\<close> over the whole content.
\<close>

fun fgets :: "nat \<Rightarrow> string \<Rightarrow> string \<times> string" where
  "fgets 0 s = ([], s)"
| "fgets (Suc n) [] = ([], [])"
| "fgets (Suc n) (c # s) =
     (if c = NL then ([c], s) else (case fgets n s of (l, r) \<Rightarrow> (c # l, r)))"

lemma fgets_split: "fgets n s = (l, r) \<Longrightarrow> s = l @ r"
  by (induction n s arbitrary: l r rule: fgets.induct) (auto split: if_splits prod.splits)

lemma fgets_shorter: "fgets (Suc n) (c # s) = (l, r) \<Longrightarrow> length r < Suc (length s)"
  by (auto split: if_splits prod.splits dest: fgets_split)

function fgets_all :: "nat \<Rightarrow> string \<Rightarrow> string list" where
  "fgets_all cap s =
     (if cap < 2 \<or> s = [] then []
      else (case fgets (cap - 1) s of (l, r) \<Rightarrow> l # fgets_all cap r))"
  by pat_completeness auto
termination
proof (relation "measure (\<lambda>(cap, s). length s)", goal_cases)
  case (2 cap s l r)
  then obtain c s' n where "s = c # s'" and "cap - 1 = Suc n"
    by (cases s; cases "cap - 1") auto
  with 2 show ?case using fgets_shorter [of n c s' l r] by simp
qed simp

declare fgets_all.simps [simp del]

lemma fgets_all_Nil [simp]: "fgets_all cap [] = []"
  by (simp add: fgets_all.simps)

lemma fgets_line: "NL \<notin> set l \<Longrightarrow> length l < n \<Longrightarrow> fgets n (l @ NL # s) = (l @ [NL], s)"
  by (induction l arbitrary: n) (auto simp: gr0_conv_Suc less_Suc_eq_0_disj Suc_less_eq2)

text \<open>Lines that fit the buffer are read back one by one.\<close>

lemma fgets_all_line:
  "NL \<notin> set l \<Longrightarrow> length l + 1 < cap \<Longrightarrow> fgets_all cap (l @ NL # s) = (l @ [NL]) # fgets_all cap s"
  by (subst fgets_all.simps) (auto simp: fgets_line)

lemma fgets_all_lines:
  "\<forall>l \<in> set ls. NL \<notin> set l \<and> length l + 1 < cap \<Longrightarrow>
     fgets_all cap (concat (map (\<lambda>l. l @ [NL]) ls) @ s)
       = map (\<lambda>l. l @ [NL]) ls @ fgets_all cap s"
  by (induction ls) (auto simp: fgets_all_line)

text \<open>Text that ends with a newline is read line by line before whatever follows it.\<close>

lemma fgets_append_nl:
  "s \<noteq> [] \<Longrightarrow> last s = NL \<Longrightarrow> fgets n s = (l, r) \<Longrightarrow>
     fgets n (s @ t) = (l, r @ t) \<and> (r = [] \<or> last r = NL)"
proof (induction n s arbitrary: l r rule: fgets.induct)
  case (3 n c s)
  then show ?case by (cases "s = []") (auto split: if_splits prod.splits)
qed auto

lemma fgets_all_append_nl:
  "s = [] \<or> last s = NL \<Longrightarrow> fgets_all cap (s @ t) = fgets_all cap s @ fgets_all cap t"
proof (induction cap s rule: fgets_all.induct)
  case (1 cap s)
  show ?case
  proof (cases "cap < 2 \<or> s = []")
    case True
    then show ?thesis by (auto simp: fgets_all.simps [of cap])
  next
    case False
    obtain l r where lr: "fgets (cap - 1) s = (l, r)" by force
    have s: "s \<noteq> []" "last s = NL" using False "1.prems" by auto
    from fgets_append_nl [OF s lr, of t]
    have a: "fgets (cap - 1) (s @ t) = (l, r @ t)" and r: "r = [] \<or> last r = NL" by blast+
    have "fgets_all cap (s @ t) = l # fgets_all cap (r @ t)"
      using False a by (subst fgets_all.simps) simp
    also have "\<dots> = l # fgets_all cap r @ fgets_all cap t"
      using "1.IH" [OF False] lr r by simp
    also have "\<dots> = fgets_all cap s @ fgets_all cap t"
      using False lr by (subst (3) fgets_all.simps) simp
    finally show ?thesis .
  qed
qed

section \<open>Numbers\<close>

definition digit :: "nat \<Rightarrow> char" where
  "digit d = char_of (48 + d)"

definition digit_val :: "char \<Rightarrow> nat" where
  "digit_val c = of_char c - 48"

lemma isdigit_digit [simp]: "d < 10 \<Longrightarrow> isdigit (digit d)"
  by (simp add: isdigit_def digit_def)

lemma digit_val_digit [simp]: "d < 10 \<Longrightarrow> digit_val (digit d) = d"
  by (simp add: digit_val_def digit_def)

text \<open>The conversions \<^verbatim>\<open>%llu\<close> and \<^verbatim>\<open>%lld\<close>.\<close>

fun show_nat :: "nat \<Rightarrow> string" where
  "show_nat n = (if n < 10 then [digit n] else show_nat (n div 10) @ [digit (n mod 10)])"

declare show_nat.simps [simp del]

definition show_int :: "int \<Rightarrow> string" where
  "show_int i = (if i < 0 then CHR ''-'' # show_nat (nat (- i)) else show_nat (nat i))"

definition digits_nat :: "string \<Rightarrow> nat" where
  "digits_nat s = foldl (\<lambda>a c. 10 * a + digit_val c) 0 s"

lemma show_nat_digits: "c \<in> set (show_nat n) \<Longrightarrow> isdigit c"
proof (induction n rule: show_nat.induct)
  case (1 n)
  then show ?case by (auto simp: show_nat.simps [of n] split: if_splits)
qed

lemma show_nat_nonempty [simp]: "show_nat n \<noteq> []"
  by (subst show_nat.simps) simp

lemma digits_nat_show_nat [simp]: "digits_nat (show_nat n) = n"
proof (induction n rule: show_nat.induct)
  case (1 n)
  then show ?case
    by (cases "n < 10") (auto simp: show_nat.simps [of n] digits_nat_def)
qed

lemma length_show_nat: "n < 10 ^ k \<Longrightarrow> 0 < k \<Longrightarrow> length (show_nat n) \<le> k"
proof (induction n arbitrary: k rule: show_nat.induct)
  case (1 n)
  show ?case
  proof (cases "n < 10")
    case True
    with "1.prems" show ?thesis by (simp add: show_nat.simps [of n])
  next
    case False
    with "1.prems" obtain j where k: "k = Suc j" and j: "0 < j"
      by (cases k; cases "k - 1") auto
    have "n div 10 < 10 ^ j" using "1.prems" k by (simp add: less_mult_imp_div_less mult.commute)
    from "1.IH" [OF False this j] False k show ?thesis by (simp add: show_nat.simps [of n])
  qed
qed

text \<open>
  The common part of \<^verbatim>\<open>strtol\<close> and its kin in base 10: skip white space, one optional sign, the
  digits.  The result is the sign, the digits and the rest; \<^const>\<open>None\<close> when there is no digit (the
  value is then 0 and the end pointer the start).
\<close>

definition scan_number :: "string \<Rightarrow> (bool \<times> nat \<times> string) option" where
  "scan_number s =
     (let t = dropWhile isspace s;
          neg = (t \<noteq> [] \<and> hd t = CHR ''-'');
          u = (if t \<noteq> [] \<and> (hd t = CHR ''-'' \<or> hd t = CHR ''+'') then tl t else t);
          ds = takeWhile isdigit u
      in if ds = [] then None else Some (neg, digits_nat ds, dropWhile isdigit u))"

definition strtol :: "string \<Rightarrow> int \<times> string" where
  "strtol s =
     (case scan_number s of
        None \<Rightarrow> (0, s)
      | Some (neg, n, r) \<Rightarrow>
          ((if neg then max (- (2 ^ 63)) (- int n) else min (2 ^ 63 - 1) (int n)), r))"

definition strtoull :: "string \<Rightarrow> nat \<times> string" where
  "strtoull s =
     (case scan_number s of
        None \<Rightarrow> (0, s)
      | Some (neg, n, r) \<Rightarrow>
          ((if 2 ^ 64 \<le> n then 2 ^ 64 - 1
            else if neg then (2 ^ 64 - n) mod 2 ^ 64 else n), r))"

text \<open>\<^verbatim>\<open>errno\<close> is \<^verbatim>\<open>ERANGE\<close> after a conversion whose value does not fit.\<close>

definition strtoull_erange :: "string \<Rightarrow> bool" where
  "strtoull_erange s = (case scan_number s of None \<Rightarrow> False | Some (_, n, _) \<Rightarrow> 2 ^ 64 \<le> n)"

definition strtol_erange :: "string \<Rightarrow> bool" where
  "strtol_erange s =
     (case scan_number s of None \<Rightarrow> False
      | Some (neg, n, _) \<Rightarrow> (if neg then 2 ^ 63 < n else 2 ^ 63 \<le> n))"

text \<open>\<^verbatim>\<open>(int)\<close> and \<^verbatim>\<open>(int32_t)\<close> of a wider integer.\<close>

definition to_int32 :: "int \<Rightarrow> int" where
  "to_int32 i = (i + 2 ^ 31) mod 2 ^ 32 - 2 ^ 31"

lemma to_int32_id: "- (2 ^ 31) \<le> i \<Longrightarrow> i < 2 ^ 31 \<Longrightarrow> to_int32 i = i"
  by (simp add: to_int32_def)

lemma isdigit_not: "isdigit c \<Longrightarrow> \<not> isspace c \<and> c \<noteq> CHR ''-'' \<and> c \<noteq> CHR ''+''"
  by (auto simp: isdigit_def isspace_def)

lemma scan_number_digits:
  assumes "ds \<noteq> []" and ds: "\<forall>c \<in> set ds. isdigit c" and r: "r = [] \<or> \<not> isdigit (hd r)"
  shows "scan_number (ds @ r) = Some (False, digits_nat ds, r)"
proof -
  have "takeWhile isdigit (ds @ r) = ds" "dropWhile isdigit (ds @ r) = r"
    using ds r by (cases r; auto simp: takeWhile_append2 dropWhile_append2)+
  moreover obtain c cs where "ds = c # cs" using \<open>ds \<noteq> []\<close> by (cases ds) auto
  ultimately show ?thesis
    using ds isdigit_not [of c] by (auto simp: scan_number_def Let_def)
qed

lemma scan_number_minus:
  assumes "ds \<noteq> []" and ds: "\<forall>c \<in> set ds. isdigit c" and r: "r = [] \<or> \<not> isdigit (hd r)"
  shows "scan_number (CHR ''-'' # ds @ r) = Some (True, digits_nat ds, r)"
proof -
  have "takeWhile isdigit (ds @ r) = ds" "dropWhile isdigit (ds @ r) = r"
    using ds r by (cases r; auto simp: takeWhile_append2 dropWhile_append2)+
  then show ?thesis
    using \<open>ds \<noteq> []\<close> by (auto simp: scan_number_def Let_def isspace_def)
qed

lemma scan_number_show_nat [simp]: "scan_number (show_nat n) = Some (False, n, [])"
  using scan_number_digits [of "show_nat n" "[]"] by (auto dest: show_nat_digits)

lemma strtoull_show_nat: "n < 2 ^ 64 \<Longrightarrow> strtoull (show_nat n) = (n, [])"
  by (simp add: strtoull_def)

lemma strtol_show_int:
  assumes "- (2 ^ 63) \<le> i" "i < 2 ^ 63"
  shows "strtol (show_int i) = (i, [])"
proof (cases "i < 0")
  case True
  have "scan_number (show_int i) = Some (True, nat (- i), [])"
    using True scan_number_minus [of "show_nat (nat (- i))" "[]"]
    by (auto simp: show_int_def dest: show_nat_digits)
  with True assms show ?thesis by (simp add: strtol_def)
next
  case False
  with assms show ?thesis by (simp add: strtol_def show_int_def)
qed

section \<open>Allocation\<close>

text \<open>
  The outcomes of the successive \<^verbatim>\<open>calloc\<close> calls of an operation; the empty list stands for an
  allocator that never fails.
\<close>

type_synonym allocs = "bool list"

fun alloc :: "allocs \<Rightarrow> bool \<times> allocs" where
  "alloc [] = (True, [])"
| "alloc (b # bs) = (b, bs)"

text \<open>Code that can run into undefined behaviour of C either returns or is a fault.\<close>

datatype 'a outcome = Fault | Ret 'a

section \<open>Linked lists\<close>

text \<open>
  A chain of nodes is the list of their contents, head first.  Walking it to the first match,
  changing that node in place and unlinking it are these three functions.
\<close>

fun update_first :: "('a \<Rightarrow> bool) \<Rightarrow> ('a \<Rightarrow> 'a) \<Rightarrow> 'a list \<Rightarrow> 'a list" where
  "update_first P f [] = []"
| "update_first P f (x # xs) = (if P x then f x # xs else x # update_first P f xs)"

fun remove_first :: "('a \<Rightarrow> bool) \<Rightarrow> 'a list \<Rightarrow> 'a list" where
  "remove_first P [] = []"
| "remove_first P (x # xs) = (if P x then xs else x # remove_first P xs)"

lemma find_None: "find P xs = None \<longleftrightarrow> (\<forall>x \<in> set xs. \<not> P x)"
  by (induction xs) auto

lemma find_SomeD: "find P xs = Some x \<Longrightarrow> x \<in> set xs \<and> P x"
  by (induction xs) (auto split: if_splits)

lemma find_cong_set: "(\<And>x. x \<in> set xs \<Longrightarrow> P x = Q x) \<Longrightarrow> find P xs = find Q xs"
  by (induction xs) auto

lemma find_append: "find P (xs @ ys) = (case find P xs of None \<Rightarrow> find P ys | Some x \<Rightarrow> Some x)"
  by (induction xs) auto

lemma length_update_first [simp]: "length (update_first P f xs) = length xs"
  by (induction xs) auto

lemma map_update_first:
  "(\<And>x. P x \<Longrightarrow> g (f x) = g x) \<Longrightarrow> map g (update_first P f xs) = map g xs"
  by (induction xs) auto

lemma set_update_first: "x \<in> set (update_first P f xs) \<Longrightarrow> x \<in> set xs \<or> (\<exists>y \<in> set xs. P y \<and> x = f y)"
  by (induction xs) (auto split: if_splits)

lemma set_update_first_find:
  "x \<in> set (update_first P f xs) \<Longrightarrow> x \<in> set xs \<or> (\<exists>y. find P xs = Some y \<and> x = f y)"
  by (induction xs) (auto split: if_splits)

lemma find_update_first:
  "(\<And>x. P x \<Longrightarrow> P (f x)) \<Longrightarrow> find P (update_first P f xs) = map_option f (find P xs)"
  by (induction xs) auto

lemma find_update_first_other:
  "(\<And>x. P x \<Longrightarrow> \<not> Q x \<and> \<not> Q (f x)) \<Longrightarrow> find Q (update_first P f xs) = find Q xs"
  by (induction xs) auto

lemma set_remove_first: "set (remove_first P xs) \<subseteq> set xs"
  by (induction xs) auto

lemma remove_first_none: "\<forall>x \<in> set xs. \<not> P x \<Longrightarrow> remove_first P xs = xs"
  by (induction xs) auto

lemma distinct_map_remove_first: "distinct (map g xs) \<Longrightarrow> distinct (map g (remove_first P xs))"
  by (induction xs) (auto dest: set_remove_first [THEN subsetD])

lemma find_remove_first_other: "(\<And>x. P x \<Longrightarrow> \<not> Q x) \<Longrightarrow> find Q (remove_first P xs) = find Q xs"
  by (induction xs) auto

text \<open>With distinct keys, removing the first match removes every match.\<close>

lemma remove_first_distinct:
  "distinct (map g xs) \<Longrightarrow> (\<And>x. P x \<longleftrightarrow> g x = k) \<Longrightarrow> remove_first P xs = filter (\<lambda>x. g x \<noteq> k) xs"
proof (induction xs)
  case (Cons x xs)
  then show ?case by (auto simp: image_iff intro!: filter_True [symmetric])
qed simp

end
