(* ===== verification/Interfaces.thy ===== *)
theory Interfaces
  imports Prelude
begin

text \<open>
  The contracts several components share, as locales, with the facts a client may use proved once.

  \<^item> \<open>kv_store\<close>: a table written key by key (the parameter tree, the alias table, the connection
    table).  Keys and values may be normalised on the way in (truncated to their buffers).
  \<^item> \<open>bounded_log\<close>: a log that appends at the end and may drop its oldest entries (the shell
    history ring, the rotating audit log).
  \<^item> \<open>persistent\<close>: a state that is written out and read back by a restart (policies, users, volumes).
  \<^item> \<open>role_policy\<close>: a default-deny decision through the roles of a subject (PERMISSION and SP).
\<close>

section \<open>Tables\<close>

locale kv_store =
  fixes wf :: "'s \<Rightarrow> bool"
    and adm :: "'s \<Rightarrow> 'key \<Rightarrow> 'val \<Rightarrow> bool"
    and norm :: "'key \<Rightarrow> 'k"
    and enc :: "'val \<Rightarrow> 'v"
    and look :: "'s \<Rightarrow> 'k \<Rightarrow> 'v"
    and put :: "'s \<Rightarrow> 'key \<Rightarrow> 'val \<Rightarrow> 's"
  assumes put_wf: "wf s \<Longrightarrow> adm s k v \<Longrightarrow> wf (put s k v)"
    and look_put: "wf s \<Longrightarrow> adm s k v \<Longrightarrow> look (put s k v) = (look s)(norm k := enc v)"
begin

lemmas put_laws = put_wf look_put

lemma look_put_same: "wf s \<Longrightarrow> adm s k v \<Longrightarrow> look (put s k v) (norm k) = enc v"
  by (simp add: look_put)

lemma look_put_other:
  "wf s \<Longrightarrow> adm s k v \<Longrightarrow> norm k \<noteq> k' \<Longrightarrow> look (put s k v) k' = look s k'"
  by (simp add: look_put)

text \<open>Two writes commute as far as a reader can tell, unless they hit the same entry.\<close>

lemma look_put_commute:
  assumes "wf s" "norm k \<noteq> norm k'"
    and "adm s k v" "adm (put s k v) k' v'" "adm s k' v'" "adm (put s k' v') k v"
  shows "look (put (put s k v) k' v') = look (put (put s k' v') k v)"
  using assms by (simp add: put_laws fun_upd_twist)

fun puts :: "'s \<Rightarrow> ('key \<times> 'val) list \<Rightarrow> 's" where
  "puts s [] = s"
| "puts s ((k, v) # kvs) = puts (put s k v) kvs"

fun adms :: "'s \<Rightarrow> ('key \<times> 'val) list \<Rightarrow> bool" where
  "adms s [] = True"
| "adms s ((k, v) # kvs) = (adm s k v \<and> adms (put s k v) kvs)"

definition overlay :: "('k \<Rightarrow> 'v) \<Rightarrow> ('key \<times> 'val) list \<Rightarrow> 'k \<Rightarrow> 'v" where
  "overlay m kvs = foldl (\<lambda>m (k, v). m(norm k := enc v)) m kvs"

lemma overlay_simps [simp]:
  "overlay m [] = m"
  "overlay m ((k, v) # kvs) = overlay (m(norm k := enc v)) kvs"
  by (simp_all add: overlay_def)

lemma puts_wf: "wf s \<Longrightarrow> adms s kvs \<Longrightarrow> wf (puts s kvs)"
  by (induction s kvs rule: puts.induct) (auto simp: put_wf)

lemma look_puts: "wf s \<Longrightarrow> adms s kvs \<Longrightarrow> look (puts s kvs) = overlay (look s) kvs"
  by (induction s kvs rule: puts.induct) (auto simp: put_laws)

text \<open>The last write to an entry wins; an entry that is not written keeps its value.\<close>

lemma overlay_value:
  "overlay m kvs k =
     (case find (\<lambda>p. norm (fst p) = k) (rev kvs) of None \<Rightarrow> m k | Some p \<Rightarrow> enc (snd p))"
proof (induction kvs arbitrary: m)
  case (Cons p kvs)
  then show ?case
    by (cases p) (auto simp: find_append split: option.splits)
qed simp

end

section \<open>Bounded logs\<close>

locale bounded_log =
  fixes wf :: "'s \<Rightarrow> bool"
    and ok :: "'s \<Rightarrow> 'e \<Rightarrow> bool"
    and enc :: "'s \<Rightarrow> 'e \<Rightarrow> 'x"
    and entries :: "'s \<Rightarrow> 'x list"
    and append :: "'s \<Rightarrow> 'e \<Rightarrow> 's"
  assumes append_wf: "wf s \<Longrightarrow> ok s e \<Longrightarrow> wf (append s e)"
    and append_entries:
      "wf s \<Longrightarrow> ok s e \<Longrightarrow> \<exists>n. entries (append s e) = drop n (entries s) @ [enc s e]"
begin

lemma last_entry: "wf s \<Longrightarrow> ok s e \<Longrightarrow> entries (append s e) \<noteq> [] \<and> last (entries (append s e)) = enc s e"
  using append_entries by fastforce

lemma entries_sorted:
  assumes "wf s" "ok s e" "sorted_wrt R (entries s)" "\<And>x. x \<in> set (entries s) \<Longrightarrow> R x (enc s e)"
  shows "sorted_wrt R (entries (append s e))"
proof -
  obtain n where "entries (append s e) = drop n (entries s) @ [enc s e]"
    using append_entries assms(1,2) by blast
  with assms(3,4) show ?thesis
    by (auto simp: sorted_wrt_append sorted_wrt_drop dest: in_set_dropD)
qed

text \<open>A run of appends: what is kept is a suffix of everything that was ever appended.\<close>

fun run :: "'s \<Rightarrow> 'e list \<Rightarrow> 's" where
  "run s [] = s"
| "run s (e # es) = run (append s e) es"

fun oks :: "'s \<Rightarrow> 'e list \<Rightarrow> bool" where
  "oks s [] = True"
| "oks s (e # es) = (ok s e \<and> oks (append s e) es)"

fun encs :: "'s \<Rightarrow> 'e list \<Rightarrow> 'x list" where
  "encs s [] = []"
| "encs s (e # es) = enc s e # encs (append s e) es"

lemma run_wf: "wf s \<Longrightarrow> oks s es \<Longrightarrow> wf (run s es)"
  by (induction es arbitrary: s) (auto simp: append_wf)

lemma run_suffix: "wf s \<Longrightarrow> oks s es \<Longrightarrow> suffix (entries (run s es)) (entries s @ encs s es)"
proof (induction es arbitrary: s)
  case (Cons e es)
  then have w: "wf (append s e)" and o: "oks (append s e) es" by (auto simp: append_wf)
  obtain n where n: "entries (append s e) = drop n (entries s) @ [enc s e]"
    using Cons.prems append_entries by auto
  have "suffix (entries (run s (e # es))) (entries (append s e) @ encs (append s e) es)"
    using Cons.IH [OF w o] by simp
  moreover have "suffix (entries (append s e) @ encs (append s e) es) (entries s @ encs s (e # es))"
    by (simp add: n suffix_drop)
  ultimately show ?case by (rule suffix_order.trans)
qed simp

end

section \<open>Role policies\<close>

locale role_policy =
  fixes roles_of :: "'s \<Rightarrow> 'u \<Rightarrow> 'r list"
    and allows :: "'s \<Rightarrow> 'r \<Rightarrow> 'a \<Rightarrow> bool"
    and decide :: "'s \<Rightarrow> 'u \<Rightarrow> 'a \<Rightarrow> bool"
  assumes decide_iff: "decide s u a \<longleftrightarrow> (\<exists>r \<in> set (roles_of s u). allows s r a)"
begin

lemma default_deny: "roles_of s u = [] \<Longrightarrow> \<not> decide s u a"
  by (simp add: decide_iff)

lemma decide_mono:
  assumes "decide s u a" "set (roles_of s u) \<subseteq> set (roles_of t u)"
    and "\<And>r. r \<in> set (roles_of s u) \<Longrightarrow> allows s r a \<Longrightarrow> allows t r a"
  shows "decide t u a"
  using assms by (auto simp: decide_iff)

lemma decide_cong:
  "set (roles_of s u) = set (roles_of t u) \<Longrightarrow>
   (\<And>r. r \<in> set (roles_of t u) \<Longrightarrow> allows s r a = allows t r a) \<Longrightarrow> decide s u a = decide t u a"
  by (simp add: decide_iff)

end

section \<open>State that survives a restart\<close>

text \<open>
  Reading what was written gives the state back up to \<open>norm\<close> (an order of entries, say).  Whatever does
  not depend on that is the same after any number of restarts.
\<close>

locale persistent =
  fixes ok :: "'s \<Rightarrow> bool"
    and save :: "'s \<Rightarrow> 'd"
    and load :: "'d \<Rightarrow> 's"
    and norm :: "'s \<Rightarrow> 's"
  assumes load_save: "ok s \<Longrightarrow> load (save s) = norm s"
    and norm_ok: "ok s \<Longrightarrow> ok (norm s)"
begin

definition restarted :: "nat \<Rightarrow> 's \<Rightarrow> 's" where
  "restarted n s = ((\<lambda>s. load (save s)) ^^ n) s"

lemma restarted_norm: "ok s \<Longrightarrow> restarted n s = (norm ^^ n) s \<and> ok ((norm ^^ n) s)"
  by (induction n) (simp_all add: restarted_def load_save norm_ok)

lemma restarted_view:
  assumes "ok s" "\<And>s. ok s \<Longrightarrow> view (norm s) = view s"
  shows "view (restarted n s) = view s"
proof -
  have "ok ((norm ^^ n) s) \<and> view ((norm ^^ n) s) = view s"
    by (induction n) (simp_all add: assms norm_ok)
  then show ?thesis using restarted_norm [OF assms(1)] by simp
qed

lemma restarted_idem:
  assumes "ok s" "\<And>s. ok s \<Longrightarrow> norm s = s"
  shows "restarted n s = s"
  using restarted_view [OF assms(1), of "\<lambda>s. s"] assms(2) by blast

end

end
