(* ===== verification/HwRun.thy ===== *)
theory HwRun
  imports Interfaces
begin

text \<open>
  The core library, \<^verbatim>\<open>bus/src/hwrun.c\<close>: string helpers, path formatting, error texts and the
  parameter tree.

  A \<^verbatim>\<open>struct hw_param\<close> is a \<open>param\<close>: key, value, type, description and the list of its children (the
  \<open>child\<close>/\<open>sibling\<close> chain, oldest first).  The tree is changed in place in C; here an operation
  returns the new tree, together with the rest of the allocation oracle.  The abstract view of a tree
  is \<open>pval t\<close>, the function from a key path to a value, where the empty string means "no value".
\<close>

section \<open>Strings\<close>

fun hw_str_eq :: "string option \<Rightarrow> string option \<Rightarrow> bool" where
  "hw_str_eq (Some a) (Some b) = (a = b)"
| "hw_str_eq None None = True"
| "hw_str_eq _ _ = False"

lemma hw_str_eq_iff [simp]: "hw_str_eq a b \<longleftrightarrow> a = b"
  by (cases "(a, b)" rule: hw_str_eq.cases) auto

text \<open>
  \<open>hw_str_split\<close>: the tokens and their count; the list pointer is NULL when there is no token or the
  array cannot be allocated (\<open>ok\<close>).
\<close>

definition hw_str_split :: "bool \<Rightarrow> string option \<Rightarrow> string option \<Rightarrow> string list option \<times> nat" where
  "hw_str_split ok s sep =
     (case (s, sep) of
        (Some s, Some sep) \<Rightarrow>
          (let toks = tokens (\<lambda>c. c \<in> set sep) s in
           if length toks = 0 then (None, 0)
           else if \<not> ok then (None, 0)
           else (Some toks, length toks))
      | _ \<Rightarrow> (None, 0))"

text \<open>
  \<open>hw_fmt_path\<close>: return code and output buffer; \<^const>\<open>None\<close> when the code reads before the start of
  an empty \<open>dir\<close> (\<^verbatim>\<open>dir[strlen(dir) - 1]\<close>).
\<close>

definition hw_fmt_path :: "nat \<Rightarrow> string option \<Rightarrow> string option \<Rightarrow> (rc \<times> string option) option" where
  "hw_fmt_path cap dir name =
     (case (dir, name) of
        (Some d, Some n) \<Rightarrow>
          if cap = 0 then Some (EINVAL, None)
          else if d = [] then None
          else (let s = (if last d = CHR ''/'' then d @ n else d @ ''/'' @ n)
                in Some (if int (length s) < to_int32 (int cap) then HWRUN_OK else ENOMEM,
                         Some (cstr cap s)))
      | _ \<Rightarrow> Some (EINVAL, None))"

definition hw_strerror :: "(int \<Rightarrow> string) \<Rightarrow> rc \<Rightarrow> string" where
  "hw_strerror strerror rc =
     (if rc = 0 then ''ok''
      else let code = (if rc < 0 then - rc else rc) in
        if code \<ge> 4096 then
          (if code - 4096 = 1 then ''conflict (dependency or registration)''
           else if code - 4096 = 2 then ''not ready''
           else ''unknown error'')
        else strerror code)"

section \<open>The parameter tree\<close>

datatype param =
  Param (pkey: string) (pvalue: string) (ptype: int) (pdesc: string) (pchildren: "param list")

definition with_children :: "param \<Rightarrow> param list \<Rightarrow> param" where
  "with_children p cs = Param (pkey p) (pvalue p) (ptype p) (pdesc p) cs"

lemma with_children_sels [simp]:
  "pkey (with_children p cs) = pkey p" "pvalue (with_children p cs) = pvalue p"
  "ptype (with_children p cs) = ptype p" "pdesc (with_children p cs) = pdesc p"
  "pchildren (with_children p cs) = cs"
  by (simp_all add: with_children_def)

definition param_alloc :: "allocs \<Rightarrow> string \<Rightarrow> string option \<Rightarrow> int \<Rightarrow> string option \<Rightarrow> param option \<times> allocs" where
  "param_alloc al key val ty desc =
     (case alloc al of
        (False, al') \<Rightarrow> (None, al')
      | (True, al') \<Rightarrow>
          (Some (Param (cstr 128 key)
                       (case val of None \<Rightarrow> [] | Some v \<Rightarrow> cstr 256 v)
                       ty
                       (case desc of None \<Rightarrow> [] | Some d \<Rightarrow> cstr 256 d)
                       []), al'))"

text \<open>The head is copied to a buffer of \<open>hcap\<close> bytes; the rest of the key starts after the dot.\<close>

definition param_split_key :: "string \<Rightarrow> nat \<Rightarrow> string \<times> string option" where
  "param_split_key key hcap =
     (case split_first (CHR ''.'') key of
        (h, None) \<Rightarrow> (cstr hcap key, None)
      | (h, Some rest) \<Rightarrow> (take (if length h \<ge> hcap then hcap - 1 else length h) h, Some rest))"

lemma param_split_key_cstr:
  "param_split_key key hcap =
     (cstr hcap (fst (split_first (CHR ''.'') key)), snd (split_first (CHR ''.'') key))"
  by (auto simp: param_split_key_def cstr_def split: prod.splits option.splits
      dest: split_first_cases)

lemma param_split_key_shorter [termination_simp]:
  "param_split_key key hcap = (h, Some r) \<Longrightarrow> length r < length key"
  by (cases "split_first (CHR ''.'') key") (auto simp: param_split_key_cstr dest: split_first_length)

definition hw_param_get_child :: "param \<Rightarrow> string \<Rightarrow> param option" where
  "hw_param_get_child p key = find (\<lambda>c. hw_str_eq (Some (pkey c)) (Some key)) (pchildren p)"

text \<open>The new node is appended after the last sibling; the result is the parent and the node.\<close>

definition hw_param_add_child ::
    "allocs \<Rightarrow> param \<Rightarrow> string \<Rightarrow> string option \<Rightarrow> int \<Rightarrow> string option
      \<Rightarrow> (param \<times> param) option \<times> allocs" where
  "hw_param_add_child al parent key val ty desc =
     (case param_alloc al key val ty desc of
        (None, al') \<Rightarrow> (None, al')
      | (Some p, al') \<Rightarrow> (Some (with_children parent (pchildren parent @ [p]), p), al'))"

text \<open>\<open>hw_param_find\<close>, for arguments that are not NULL.\<close>

function param_find :: "param \<Rightarrow> string \<Rightarrow> param option" where
  "param_find root key =
     (case param_split_key key 128 of (head, rest) \<Rightarrow>
        (case hw_param_get_child root head of
           None \<Rightarrow> None
         | Some node \<Rightarrow> (case rest of None \<Rightarrow> Some node | Some r \<Rightarrow> param_find node r)))"
  by pat_completeness auto
termination
  by (relation "measure (\<lambda>(_, k). length k)") (auto dest: param_split_key_shorter [OF sym])

declare param_find.simps [simp del]

fun hw_param_find :: "param option \<Rightarrow> string option \<Rightarrow> param option" where
  "hw_param_find (Some root) (Some key) = param_find root key"
| "hw_param_find _ _ = None"

definition hw_param_value :: "param option \<Rightarrow> string option \<Rightarrow> string option \<Rightarrow> string option" where
  "hw_param_value root key dflt =
     (case hw_param_find root key of
        None \<Rightarrow> dflt
      | Some p \<Rightarrow> if pvalue p = [] then dflt else Some (pvalue p))"

text \<open>Writing through the pointer to the child found before: that child is the first with its key.\<close>

definition put_child :: "param \<Rightarrow> param \<Rightarrow> param" where
  "put_child root node =
     with_children root (update_first (\<lambda>c. pkey c = pkey node) (\<lambda>_. node) (pchildren root))"

function param_set ::
    "allocs \<Rightarrow> param \<Rightarrow> string \<Rightarrow> string \<Rightarrow> int \<Rightarrow> string option \<Rightarrow> rc \<times> param \<times> allocs" where
  "param_set al root key val ty desc =
     (case param_split_key key 128 of (head, rest) \<Rightarrow>
        (case (case hw_param_get_child root head of
                 Some node \<Rightarrow> (Some (root, node), al)
               | None \<Rightarrow> hw_param_add_child al root head None ty desc) of
           (None, al') \<Rightarrow> (ENOMEM, root, al')
         | (Some (root', node), al') \<Rightarrow>
             (case rest of
                None \<Rightarrow>
                  (HWRUN_OK,
                   put_child root' (Param (pkey node) (cstr 256 val) ty (pdesc node) (pchildren node)),
                   al')
              | Some r \<Rightarrow>
                  (case param_set al' node r val ty desc of
                     (rc, node', al'') \<Rightarrow> (rc, put_child root' node', al'')))))"
  by pat_completeness auto
termination
  by (relation "measure (\<lambda>(_, _, k, _). length k)") (auto dest: param_split_key_shorter [OF sym])

declare param_set.simps [simp del]

fun hw_param_set ::
    "allocs \<Rightarrow> param option \<Rightarrow> string option \<Rightarrow> string option \<Rightarrow> int \<Rightarrow> string option
      \<Rightarrow> rc \<times> param option \<times> allocs" where
  "hw_param_set al (Some root) (Some key) (Some v) ty desc =
     (case param_set al root key v ty desc of (rc, root', al') \<Rightarrow> (rc, Some root', al'))"
| "hw_param_set al root _ _ _ _ = (EINVAL, root, al)"

text \<open>The text \<open>hw_param_dump\<close> prints.\<close>

fun hw_param_dump :: "param \<Rightarrow> nat \<Rightarrow> string" where
  "hw_param_dump (Param k v ty d cs) indent =
     concat (replicate indent ''  '') @
     (if cs \<noteq> [] \<and> v \<noteq> [] then ''['' @ k @ ''] = '' @ v @ [NL]
      else if cs \<noteq> [] then ''['' @ k @ '']'' @ [NL]
      else k @ '' = '' @ (if v \<noteq> [] then v else ''<nil>'') @ [NL]) @
     concat (map (\<lambda>c. hw_param_dump c (indent + 1)) cs)"

section \<open>The tree as a function from paths to values\<close>

fun pnode :: "param \<Rightarrow> string list \<Rightarrow> param option" where
  "pnode t [] = Some t"
| "pnode t (k # ks) = (case hw_param_get_child t k of None \<Rightarrow> None | Some c \<Rightarrow> pnode c ks)"

definition pval :: "param \<Rightarrow> string list \<Rightarrow> string" where
  "pval t ks = (case pnode t ks of None \<Rightarrow> [] | Some p \<Rightarrow> pvalue p)"

text \<open>The path a dotted key names: its segments, each cut to the node's key buffer.\<close>

function param_segs :: "string \<Rightarrow> string list" where
  "param_segs key =
     (case param_split_key key 128 of
        (h, None) \<Rightarrow> [h]
      | (h, Some r) \<Rightarrow> h # param_segs r)"
  by pat_completeness auto
termination
  by (relation "measure length") (auto dest: param_split_key_shorter [OF sym])

declare param_segs.simps [simp del]

lemma param_segs_nonempty [simp]: "param_segs key \<noteq> []"
  by (subst param_segs.simps) (auto split: prod.splits option.splits)

lemma param_segs_single:
  "CHR ''.'' \<notin> set k \<Longrightarrow> length k < 128 \<Longrightarrow> param_segs k = [k]"
  by (subst param_segs.simps) (simp add: param_split_key_cstr cstr_simps)

lemma param_segs_dot:
  "CHR ''.'' \<notin> set k \<Longrightarrow> length k < 128 \<Longrightarrow> param_segs (k @ CHR ''.'' # r) = k # param_segs r"
  by (subst param_segs.simps) (simp add: param_split_key_cstr cstr_simps)

lemma pval_Nil [simp]: "pval t [] = pvalue t"
  by (simp add: pval_def)

lemma pval_Cons: "pval t (k # ks) = (case hw_param_get_child t k of None \<Rightarrow> [] | Some c \<Rightarrow> pval c ks)"
  by (simp add: pval_def split: option.splits)

lemma param_find_pnode: "param_find t key = pnode t (param_segs key)"
proof (induction t key rule: param_find.induct)
  case (1 root key)
  obtain h r where hr: "param_split_key key 128 = (h, r)" by force
  show ?case
  proof (cases r)
    case None
    with hr show ?thesis
      by (simp add: param_find.simps [of root key] param_segs.simps [of key] split: option.splits)
  next
    case (Some s)
    with hr "1.IH" show ?thesis
      by (auto simp: param_find.simps [of root key] param_segs.simps [of key] split: option.splits)
  qed
qed

text \<open>Looking a child up after a child was rewritten or appended.\<close>

lemma get_child_key: "hw_param_get_child t k = Some c \<Longrightarrow> pkey c = k \<and> c \<in> set (pchildren t)"
  by (auto simp: hw_param_get_child_def dest: find_SomeD)

lemma get_child_with_children:
  "hw_param_get_child (with_children t cs) k = find (\<lambda>c. pkey c = k) cs"
  by (simp add: hw_param_get_child_def)

lemma get_child_put_child:
  assumes "hw_param_get_child t k = Some c" and "pkey n = k"
  shows "hw_param_get_child (put_child t n) k' = (if k' = k then Some n else hw_param_get_child t k')"
proof (cases "k' = k")
  case True
  have "find (\<lambda>c. pkey c = k) (update_first (\<lambda>c. pkey c = k) (\<lambda>_. n) (pchildren t))
          = map_option (\<lambda>_. n) (find (\<lambda>c. pkey c = k) (pchildren t))"
    using assms(2) by (intro find_update_first) auto
  with assms True show ?thesis
    by (simp add: put_child_def get_child_with_children hw_param_get_child_def)
next
  case False
  with assms(2) show ?thesis
    by (auto simp: put_child_def get_child_with_children hw_param_get_child_def
        intro!: find_update_first_other)
qed

lemma put_child_sels [simp]: "pkey (put_child t n) = pkey t" "pvalue (put_child t n) = pvalue t"
  by (simp_all add: put_child_def)

lemma add_child_Some:
  assumes "hw_param_add_child al t k val ty d = (Some (t', c), al')"
  shows "t' = with_children t (pchildren t @ [c])" and "pkey c = cstr 128 k" and "pchildren c = []"
    and "pvalue c = (case val of None \<Rightarrow> [] | Some v \<Rightarrow> cstr 256 v)"
  using assms by (auto simp: hw_param_add_child_def param_alloc_def split: prod.splits bool.splits option.splits)

lemma add_child_None: "hw_param_add_child [] t k val ty d = (r, al') \<Longrightarrow> r \<noteq> None \<and> al' = []"
  by (auto simp: hw_param_add_child_def param_alloc_def)

lemma get_child_append:
  "hw_param_get_child (with_children t (pchildren t @ [c])) k =
     (case hw_param_get_child t k of None \<Rightarrow> if pkey c = k then Some c else None | Some x \<Rightarrow> Some x)"
  by (simp add: hw_param_get_child_def find_append split: option.splits)

text \<open>
  The node a step of \<open>hw_param_set\<close> works on: the child \<open>head\<close>, created empty when it is missing.
  Afterwards it exists, and no value has changed.
\<close>

definition ensure_child :: "allocs \<Rightarrow> param \<Rightarrow> string \<Rightarrow> int \<Rightarrow> string option \<Rightarrow> (param \<times> param) option \<times> allocs" where
  "ensure_child al root head ty desc =
     (case hw_param_get_child root head of
        Some node \<Rightarrow> (Some (root, node), al)
      | None \<Rightarrow> hw_param_add_child al root head None ty desc)"

lemma ensure_child_props:
  assumes "ensure_child al t h ty d = (Some (t', n), al')" and "length h < 128"
  shows "hw_param_get_child t' h = Some n" and "pkey n = h" and "pkey t' = pkey t"
    and "pval t' = pval t" and "pval n ks = pval t (h # ks)"
proof -
  have "hw_param_get_child t' h = Some n \<and> pkey n = h \<and> pkey t' = pkey t \<and> pval t' ks' = pval t ks'
        \<and> pval n ks = pval t (h # ks)" for ks ks'
  proof (cases "hw_param_get_child t h")
    case None
    with assms have a: "hw_param_add_child al t h None ty d = (Some (t', n), al')"
      by (simp add: ensure_child_def)
    note n = add_child_Some [OF a]
    have k: "pkey n = h" using n(2) assms(2) by (simp add: cstr_simps)
    have e: "pval n zs = []" for zs
      using n(3,4) by (cases zs) (simp_all add: pval_Cons hw_param_get_child_def)
    have g: "hw_param_get_child t' j = (if j = h then Some n else hw_param_get_child t j)" for j
      using None k by (auto simp: n(1) get_child_append split: option.splits)
    have "pval t' ks' = pval t ks'"
    proof (cases ks')
      case Nil
      then show ?thesis by (simp add: n(1))
    next
      case (Cons j js)
      show ?thesis using None by (simp add: Cons pval_Cons g e)
    qed
    then show ?thesis using None g k e by (simp add: pval_Cons n(1))
  next
    case (Some c)
    with assms show ?thesis by (auto simp: ensure_child_def pval_Cons dest: get_child_key)
  qed
  then show "hw_param_get_child t' h = Some n" "pkey n = h" "pkey t' = pkey t" "pval t' = pval t"
    "pval n ks = pval t (h # ks)" by (auto simp: fun_eq_iff)
qed

lemma param_set_unfold:
  "param_set al root key val ty desc =
     (case param_split_key key 128 of (head, rest) \<Rightarrow>
        (case ensure_child al root head ty desc of
           (None, al') \<Rightarrow> (ENOMEM, root, al')
         | (Some (root', node), al') \<Rightarrow>
             (case rest of
                None \<Rightarrow>
                  (HWRUN_OK,
                   put_child root' (Param (pkey node) (cstr 256 val) ty (pdesc node) (pchildren node)),
                   al')
              | Some r \<Rightarrow>
                  (case param_set al' node r val ty desc of
                     (rc, node', al'') \<Rightarrow> (rc, put_child root' node', al'')))))"
  by (subst param_set.simps) (simp only: ensure_child_def)

lemma split_key_short: "param_split_key key 128 = (h, r) \<Longrightarrow> length h < 128"
  by (auto simp: param_split_key_cstr length_cstr_less)

lemma pval_put_child:
  assumes "hw_param_get_child t k = Some c" and "pkey n = k"
  shows "pval (put_child t n) ks = (case ks of [] \<Rightarrow> pvalue t | j # js \<Rightarrow> if j = k then pval n js else pval t ks)"
  using assms by (cases ks) (auto simp: pval_Cons get_child_put_child)

text \<open>The write: on success one path changes, on failure none does.\<close>

lemma pval_param_set:
  "param_set al t key v ty d = (rc, t', al') \<Longrightarrow>
     pkey t' = pkey t \<and> (rc = HWRUN_OK \<or> rc = ENOMEM) \<and>
     pval t' = (if rc = HWRUN_OK then (pval t)(param_segs key := cstr 256 v) else pval t)"
proof (induction al t key v ty d arbitrary: rc t' al' rule: param_set.induct)
  case (1 al t key v ty d)
  obtain h r where hr: "param_split_key key 128 = (h, r)" by force
  obtain ec al1 where ec: "ensure_child al t h ty d = (ec, al1)" by force
  show ?case
  proof (cases ec)
    case None
    with "1.prems" hr ec show ?thesis by (auto simp: param_set_unfold [of al t])
  next
    case (Some p)
    then obtain t1 n where p: "ec = Some (t1, n)" by (cases p) auto
    note e = ensure_child_props [OF ec [unfolded p] split_key_short [OF hr]]
    have e0: "pvalue t1 = pvalue t" using fun_cong [OF e(4), of "[]"] by simp
    show ?thesis
    proof (cases r)
      case None
      let ?m = "Param (pkey n) (cstr 256 v) ty (pdesc n) (pchildren n)"
      have q: "rc = 0" "t' = put_child t1 ?m"
        using "1.prems" by (simp_all add: param_set_unfold [of al t] hr ec p None)
      have m: "pval ?m js = (if js = [] then cstr 256 v else pval n js)" for js
        by (cases js) (simp_all add: pval_Cons hw_param_get_child_def)
      show ?thesis
        using q None hr e0 e(2-5)
        by (auto simp: fun_eq_iff pval_put_child [OF e(1)] m param_segs.simps [of key] split: list.splits)
    next
      case (Some s)
      obtain n' al2 where rec: "param_set al1 n s v ty d = (rc, n', al2)" and t': "t' = put_child t1 n'"
        using "1.prems" by (auto simp: param_set_unfold [of al t] hr ec p Some split: prod.splits)
      have IH: "pkey n' = pkey n" "rc = 0 \<or> rc = ENOMEM"
          "pval n' = (if rc = 0 then (pval n)(param_segs s := cstr 256 v) else pval n)"
        using "1.IH" [OF hr [symmetric] ec [unfolded ensure_child_def, symmetric] p refl Some rec] by auto
      have segs: "param_segs key = h # param_segs s"
        by (simp add: param_segs.simps [of key] hr Some)
      show ?thesis
        using IH e0 e(2-5) by (auto simp: t' fun_eq_iff pval_put_child [OF e(1)] segs split: list.splits)
    qed
  qed
qed

lemma param_set_ok: "param_set [] t key v ty d = (rc, t', al') \<Longrightarrow> rc = HWRUN_OK \<and> al' = []"
proof (induction key arbitrary: t rc t' al' rule: param_segs.induct)
  case (1 key)
  obtain h r where hr: "param_split_key key 128 = (h, r)" by force
  obtain ec al1 where ec: "ensure_child [] t h ty d = (ec, al1)" by force
  then have a: "al1 = []" "ec \<noteq> None"
    by (auto simp: ensure_child_def split: option.splits dest: add_child_None)
  then obtain t1 n where p: "ec = Some (t1, n)" by auto
  show ?case
  proof (cases r)
    case None
    with "1.prems" show ?thesis by (simp add: param_set_unfold [of "[]" t] hr ec p a)
  next
    case (Some s)
    with "1.prems" "1.IH" [OF hr [symmetric] Some] show ?thesis
      by (auto simp: param_set_unfold [of "[]" t] hr ec p a split: prod.splits)
  qed
qed

section \<open>Well-formed trees\<close>

fun param_wf :: "param \<Rightarrow> bool" where
  "param_wf (Param k v ty d cs) \<longleftrightarrow>
     length v < 256 \<and> length d < 256 \<and> distinct (map pkey cs) \<and>
     (\<forall>c \<in> set cs. CHR ''.'' \<notin> set (pkey c) \<and> length (pkey c) < 128 \<and> param_wf c)"

lemma param_wf_iff:
  "param_wf p \<longleftrightarrow>
     length (pvalue p) < 256 \<and> length (pdesc p) < 256 \<and> distinct (map pkey (pchildren p)) \<and>
     (\<forall>c \<in> set (pchildren p). CHR ''.'' \<notin> set (pkey c) \<and> length (pkey c) < 128 \<and> param_wf c)"
  by (cases p) simp

lemma get_child_wf: "param_wf t \<Longrightarrow> hw_param_get_child t k = Some c \<Longrightarrow> param_wf c"
  using param_wf_iff [of t] by (blast dest: get_child_key)

lemma pnode_wf: "param_wf t \<Longrightarrow> pnode t ks = Some p \<Longrightarrow> param_wf p"
  by (induction ks arbitrary: t) (auto split: option.splits dest: get_child_wf)

lemma pvalue_short: "param_wf t \<Longrightarrow> length (pvalue t) < 256"
  using param_wf_iff [of t] by blast

lemma put_child_wf:
  assumes "param_wf t" "param_wf n" "CHR ''.'' \<notin> set (pkey n)" "length (pkey n) < 128"
  shows "param_wf (put_child t n)"
proof -
  let ?cs = "update_first (\<lambda>c. pkey c = pkey n) (\<lambda>_. n) (pchildren t)"
  have "map pkey ?cs = map pkey (pchildren t)" by (rule map_update_first) simp
  moreover have "c \<in> set ?cs \<Longrightarrow> c \<in> set (pchildren t) \<or> c = n" for c
    using set_update_first by fastforce
  ultimately show ?thesis
    using assms unfolding put_child_def param_wf_iff [of t] param_wf_iff [of "with_children _ _"]
    by (metis with_children_sels(2,4,5))
qed

lemma split_key_no_dot:
  "param_split_key key 128 = (h, r) \<Longrightarrow> CHR ''.'' \<notin> set h"
  by (cases "split_first (CHR ''.'') key")
     (auto simp: param_split_key_cstr dest: split_first_cases set_cstr)

lemma ensure_child_wf:
  assumes "ensure_child al t h ty d = (Some (t', n), al')" "param_wf t"
    and "length h < 128" "CHR ''.'' \<notin> set h"
  shows "param_wf t' \<and> param_wf n"
proof (cases "hw_param_get_child t h")
  case None
  with assms have a: "hw_param_add_child al t h None ty d = (Some (t', n), al')"
    by (simp add: ensure_child_def)
  have "param_wf n"
    using a by (auto simp: hw_param_add_child_def param_alloc_def cstr_simps split: prod.splits bool.splits option.splits)
  moreover have "\<forall>c \<in> set (pchildren t). pkey c \<noteq> h"
    using None by (auto simp: hw_param_get_child_def find_None)
  ultimately show ?thesis
    using assms(2-4) add_child_Some [OF a] cstr_id [OF assms(3)]
    by (auto simp: param_wf_iff [of t] param_wf_iff [of "with_children _ _"])
next
  case (Some c)
  then have "param_wf c" using assms(2) param_wf_iff [of t] by (blast dest: get_child_key)
  with Some assms(1,2) show ?thesis by (auto simp: ensure_child_def)
qed

lemma param_set_wf:
  "param_set al t key v ty d = (rc, t', al') \<Longrightarrow> param_wf t \<Longrightarrow> param_wf t'"
proof (induction key arbitrary: al t rc t' al' rule: param_segs.induct)
  case (1 key)
  obtain h r where hr: "param_split_key key 128 = (h, r)" by force
  obtain ec al1 where ec: "ensure_child al t h ty d = (ec, al1)" by force
  note h = split_key_short [OF hr] split_key_no_dot [OF hr]
  show ?case
  proof (cases ec)
    case None
    with "1.prems" show ?thesis by (simp add: param_set_unfold [of al t] hr ec)
  next
    case (Some q)
    then obtain t1 n where p: "ec = Some (t1, n)" by (cases q) auto
    note w = ensure_child_wf [OF ec [unfolded p] "1.prems"(2) h]
    note n = ensure_child_props [OF ec [unfolded p] h(1)]
    show ?thesis
    proof (cases r)
      case None
      let ?m = "Param (pkey n) (cstr 256 v) ty (pdesc n) (pchildren n)"
      have "param_wf ?m" using w by (simp add: param_wf_iff [of n] length_cstr_less)
      with None "1.prems" w n h show ?thesis
        by (auto simp: param_set_unfold [of al t] hr ec p intro!: put_child_wf)
    next
      case (Some s)
      obtain n' al2 where rec: "param_set al1 n s v ty d = (rc, n', al2)" and t': "t' = put_child t1 n'"
        using "1.prems" by (auto simp: param_set_unfold [of al t] hr ec p Some split: prod.splits)
      have "param_wf n'" using "1.IH" [OF hr [symmetric] Some rec] w by simp
      with w n h show ?thesis
        using pval_param_set [OF rec] by (auto simp: t' intro!: put_child_wf)
    qed
  qed
qed

section \<open>The tree as a table\<close>

text \<open>A write whose allocations succeed, of a value with type \<open>ty\<close> and description \<open>d\<close>.\<close>

definition param_write :: "int \<Rightarrow> string option \<Rightarrow> param \<Rightarrow> string \<Rightarrow> string \<Rightarrow> param" where
  "param_write ty d t key v = fst (snd (param_set [] t key v ty d))"

lemma param_write_eq: "param_set [] t key v ty d = (HWRUN_OK, param_write ty d t key v, [])"
  by (cases "param_set [] t key v ty d") (auto simp: param_write_def dest: param_set_ok)

interpretation ptree: kv_store param_wf "\<lambda>_ _ _. True" param_segs "cstr 256" pval "param_write ty d"
  for ty d
  using param_write_eq [THEN param_set_wf] param_write_eq [THEN pval_param_set]
  by unfold_locales auto

section \<open>Properties\<close>

lemma hw_param_value_pval:
  "hw_param_value (Some t) (Some key) dflt =
     (if pval t (param_segs key) = [] then dflt else Some (pval t (param_segs key)))"
  by (simp add: hw_param_value_def param_find_pnode pval_def split: option.splits)

text \<open>
  C21. A write to the parameter tree either succeeds, and then exactly the key it names reads back as
  the value (cut to the value buffer), or runs out of memory, and then every key reads as before,
  whatever nodes were already created.  Keys that truncate to the same path are the same key.  The
  tree stays well formed either way.
\<close>

theorem hw_param_set_correct:
  assumes "hw_param_set al (Some t) (Some key) (Some v) ty d = (rc, t', al')" and "param_wf t"
  shows "(rc = HWRUN_OK \<or> rc = ENOMEM) \<and> param_wf (the t') \<and>
    (\<forall>key' dflt. hw_param_value t' (Some key') dflt =
       (if rc = HWRUN_OK \<and> param_segs key' = param_segs key
        then (if cstr 256 v = [] then dflt else Some (cstr 256 v))
        else hw_param_value (Some t) (Some key') dflt))"
proof -
  obtain u where u: "param_set al t key v ty d = (rc, u, al')" "t' = Some u"
    using assms(1) by (auto split: prod.splits)
  show ?thesis
    using pval_param_set [OF u(1)] param_set_wf [OF u(1) assms(2)]
    by (auto simp: u(2) hw_param_value_pval)
qed

theorem hw_param_set_correct_witness:
  "hw_param_value
     (Some (Param ''.'' [] 0 [] [Param ''a'' [] 1 [] [Param ''b'' ''7'' 1 [] []]])) (Some ''a.b'') None
   = Some ''7''"
proof -
  have "hw_param_set [] (Some (Param ''.'' [] 0 [] [])) (Some ''a.b'') (Some ''7'') 1 None =
      (HWRUN_OK, Some (Param ''.'' [] 0 [] [Param ''a'' [] 1 [] [Param ''b'' ''7'' 1 [] []]]), [])"
    by code_simp
  from hw_param_set_correct [OF this] show ?thesis by (simp add: cstr_simps)
qed

end
