(* ===== verification/Param.thy ===== *)
theory Param
  imports HwRun
begin

text \<open>
  The PARAM subsystem, \<^verbatim>\<open>bus/src/param.c\<close>: the context around a parameter tree, typed reads, writes
  with change notification, watchers, and the flat file format.

  A watcher's callback is an identifier; calling the watchers and the revision hook, which the code
  does after it has released the lock, is the list of \<open>param_event\<close>s an operation returns.  The
  pattern test \<^verbatim>\<open>fnmatch\<close> of the POSIX library is an argument.  A file is its content; \<^const>\<open>None\<close> is a
  file that cannot be opened.
\<close>

record watcher =
  w_plugin_id :: string
  w_pattern :: string
  w_on_change :: nat
  w_userdata :: nat

record param_ctx =
  p_root :: "param option"
  p_watchers :: "watcher list"
  p_dirs :: "string list"
  p_initialized :: bool
  p_on_revision :: "nat option"
  p_revision_userdata :: nat

datatype param_event =
    Watch nat string "string option" string nat
  | Revision nat nat string

section \<open>Start and stop\<close>

definition hw_param_init :: "bool \<Rightarrow> string option \<Rightarrow> (rc \<times> param_ctx) option" where
  "hw_param_init ok root_dir =
     (let ctx0 = \<lparr>p_root = None, p_watchers = [], p_dirs = replicate 7 [], p_initialized = False,
                  p_on_revision = None, p_revision_userdata = 0\<rparr> in
      if \<not> ok then Some (ENOMEM, ctx0)
      else
        let ctx1 = ctx0\<lparr>p_root := Some (Param ''.'' [] 0 [] []), p_initialized := True\<rparr> in
        (case root_dir of
           None \<Rightarrow> Some (HWRUN_OK, ctx1)
         | Some d \<Rightarrow>
             (case (hw_fmt_path 256 (Some d) (Some ''params''),
                    hw_fmt_path 256 (Some d) (Some ''hardware''),
                    hw_fmt_path 256 (Some d) (Some ''git'')) of
                (Some (_, Some p), Some (_, Some h), Some (_, Some g)) \<Rightarrow>
                  Some (HWRUN_OK, ctx1\<lparr>p_dirs := (p_dirs ctx1)[2 := p, 0 := h, 4 := g]\<rparr>)
              | _ \<Rightarrow> None)))"

definition hw_param_shutdown :: "param_ctx \<Rightarrow> param_ctx" where
  "hw_param_shutdown ctx = ctx\<lparr>p_watchers := [], p_root := None, p_initialized := False\<rparr>"

section \<open>Reading\<close>

definition hw_param_get :: "param_ctx \<Rightarrow> string option \<Rightarrow> string option" where
  "hw_param_get ctx key =
     (case hw_param_find (p_root ctx) key of
        None \<Rightarrow> None
      | Some p \<Rightarrow> if pvalue p \<noteq> [] then Some (pvalue p) else None)"

definition hw_param_get_int :: "param_ctx \<Rightarrow> string option \<Rightarrow> int \<Rightarrow> int" where
  "hw_param_get_int ctx key dflt =
     (let buf = (case hw_param_find (p_root ctx) key of
                   Some p \<Rightarrow> if pvalue p \<noteq> [] then cstr 256 (pvalue p) else []
                 | None \<Rightarrow> []) in
      if buf = [] then dflt else to_int32 (fst (strtol buf)))"

definition hw_param_get_bool :: "param_ctx \<Rightarrow> string option \<Rightarrow> bool \<Rightarrow> bool" where
  "hw_param_get_bool ctx key dflt =
     (let buf = (case hw_param_find (p_root ctx) key of
                   Some p \<Rightarrow> if pvalue p \<noteq> [] then cstr 256 (pvalue p) else []
                 | None \<Rightarrow> []) in
      if buf = [] then dflt
      else if buf = ''true'' \<or> buf = ''1'' \<or> buf = ''yes'' then True
      else if buf = ''false'' \<or> buf = ''0'' \<or> buf = ''no'' then False
      else dflt)"

section \<open>Watchers\<close>

definition hw_param_watch ::
    "bool \<Rightarrow> param_ctx \<Rightarrow> string option \<Rightarrow> string option \<Rightarrow> nat option \<Rightarrow> nat \<Rightarrow> rc \<times> param_ctx" where
  "hw_param_watch ok ctx plugin_id pattern cb ud =
     (case (plugin_id, cb) of
        (Some pid, Some f) \<Rightarrow>
          if \<not> ok then (ENOMEM, ctx)
          else (HWRUN_OK,
                ctx\<lparr>p_watchers :=
                  \<lparr>w_plugin_id = cstr 64 pid,
                   w_pattern = (case pattern of None \<Rightarrow> [] | Some p \<Rightarrow> cstr 128 p),
                   w_on_change = f, w_userdata = ud\<rparr> # p_watchers ctx\<rparr>)
      | _ \<Rightarrow> (EINVAL, ctx))"

text \<open>The snapshot holds 64 callbacks; the calls happen after the lock is released.\<close>

definition hw_param_notify ::
    "(string \<Rightarrow> string \<Rightarrow> bool) \<Rightarrow> param_ctx \<Rightarrow> string \<Rightarrow> string option \<Rightarrow> string \<Rightarrow> param_event list" where
  "hw_param_notify fnmatch ctx key old_v new_v =
     map (\<lambda>w. Watch (w_on_change w) key old_v new_v (w_userdata w))
       (take 64 (filter (\<lambda>w. \<not> (w_pattern w \<noteq> [] \<and> \<not> fnmatch (w_pattern w) key)) (p_watchers ctx)))"

definition hw_param_mark_revision :: "param_ctx \<Rightarrow> string \<Rightarrow> param_event list" where
  "hw_param_mark_revision ctx reason =
     (if \<not> p_initialized ctx then []
      else case p_on_revision ctx of
             None \<Rightarrow> []
           | Some f \<Rightarrow> [Revision f (p_revision_userdata ctx) reason])"

section \<open>Writing\<close>

definition hw_param_set_value ::
    "(string \<Rightarrow> string \<Rightarrow> bool) \<Rightarrow> allocs \<Rightarrow> param_ctx \<Rightarrow> string option \<Rightarrow> string option \<Rightarrow> int
      \<Rightarrow> string option \<Rightarrow> rc \<times> param_ctx \<times> param_event list" where
  "hw_param_set_value fnmatch al ctx key val ty desc =
     (case p_root ctx of
        None \<Rightarrow> (EINVAL, ctx, [])
      | Some t \<Rightarrow>
          (let old = (case hw_param_find (Some t) key of
                        Some p \<Rightarrow> if pvalue p \<noteq> [] then Some (cstr 256 (pvalue p)) else None
                      | None \<Rightarrow> None) in
           case hw_param_set al (Some t) key val ty desc of
             (rc, t', _) \<Rightarrow>
               (let ctx' = ctx\<lparr>p_root := t'\<rparr> in
                (rc, ctx',
                 if rc = HWRUN_OK
                 then hw_param_notify fnmatch ctx' (the key) old (the val) @
                      hw_param_mark_revision ctx' (the key)
                 else []))))"

section \<open>Files\<close>

text \<open>
  One line of \<open>hw_param_load_file\<close>.  The separator is the first colon, or the first equals sign when
  there is no colon.
\<close>

definition strip_value :: "string \<Rightarrow> string" where
  "strip_value v =
     rtrim (\<lambda>c. isspace c \<or> c = CHR 0x22 \<or> c = CR \<or> c = NL)
       (dropWhile (\<lambda>c. c = CHR '' '' \<or> c = TAB \<or> c = CHR 0x22) v)"

definition param_parse_line :: "string \<Rightarrow> (string \<times> string) option" where
  "param_parse_line line =
     (let p = dropWhile isblank line in
      if p = [] \<or> hd p = CHR ''#'' \<or> hd p = NL \<or> hd p = CR then None
      else if hd p = CHR '' '' then None
      else
        (case (case split_first (CHR '':'') p of
                 (k, Some v) \<Rightarrow> Some (k, v)
               | (_, None) \<Rightarrow>
                   (case split_first (CHR ''='') p of (k, Some v) \<Rightarrow> Some (k, v) | (_, None) \<Rightarrow> None)) of
           None \<Rightarrow> None
         | Some (k, v) \<Rightarrow>
             (let key = rtrim isspace k; val = strip_value v
              in if key = [] then None else Some (key, val))))"

text \<open>The loop over the lines: the result of each \<open>hw_param_set\<close> is ignored by the code.\<close>

fun param_load_lines :: "allocs \<Rightarrow> param \<Rightarrow> string list \<Rightarrow> param \<times> allocs" where
  "param_load_lines al t [] = (t, al)"
| "param_load_lines al t (l # ls) =
     (case param_parse_line l of
        None \<Rightarrow> param_load_lines al t ls
      | Some (k, v) \<Rightarrow> (case param_set al t k v 0 None of (_, t', al') \<Rightarrow> param_load_lines al' t' ls))"

definition hw_param_load_file :: "allocs \<Rightarrow> param_ctx \<Rightarrow> string option \<Rightarrow> rc \<times> param_ctx" where
  "hw_param_load_file al ctx file =
     (case file of
        None \<Rightarrow> (ENOENT, ctx)
      | Some content \<Rightarrow>
          (HWRUN_OK,
           (case p_root ctx of
              None \<Rightarrow> ctx
            | Some t \<Rightarrow> ctx\<lparr>p_root := Some (fst (param_load_lines al t (fgets_all 1024 content)))\<rparr>)))"

text \<open>The text \<open>hw_param_tree_save\<close> writes below \<open>prefix\<close>.\<close>

definition save_key :: "string \<Rightarrow> string \<Rightarrow> string" where
  "save_key pre k = (if pre \<noteq> [] then cstr 512 (pre @ ''.'' @ k) else cstr 512 k)"

fun hw_param_tree_save :: "param \<Rightarrow> string \<Rightarrow> string" where
  "hw_param_tree_save (Param k v ty d cs) pre =
     concat (map (\<lambda>c. let kk = save_key pre (pkey c) in
       (if pvalue c \<noteq> [] then kk @ '': '' @ pvalue c @ [NL] else []) @ hw_param_tree_save c kk) cs)"

definition hw_param_save_file :: "bool \<Rightarrow> param_ctx \<Rightarrow> rc \<times> string option" where
  "hw_param_save_file can_open ctx =
     (case p_root ctx of
        None \<Rightarrow> (EINVAL, None)
      | Some t \<Rightarrow> if \<not> can_open then (ENOENT, None) else (HWRUN_OK, Some (hw_param_tree_save t [])))"

text \<open>Only the first child of the root and what is below it is printed.\<close>

definition hw_param_dump_all :: "param_ctx \<Rightarrow> string" where
  "hw_param_dump_all ctx =
     (case p_root ctx of
        None \<Rightarrow> []
      | Some t \<Rightarrow> (case pchildren t of [] \<Rightarrow> [] | c # _ \<Rightarrow> hw_param_dump c 0))"

section \<open>Reads and writes through the abstract tree\<close>

definition ctx_val :: "param_ctx \<Rightarrow> string list \<Rightarrow> string" where
  "ctx_val ctx ks = (case p_root ctx of None \<Rightarrow> [] | Some t \<Rightarrow> pval t ks)"

lemma hw_param_get_val:
  "hw_param_get ctx (Some key) =
     (let v = ctx_val ctx (param_segs key) in if v = [] then None else Some v)"
  by (cases "p_root ctx")
     (auto simp: hw_param_get_def ctx_val_def pval_def param_find_pnode Let_def split: option.splits)

lemma set_value_val:
  assumes "p_root ctx = Some t" and "hw_param_set_value fnm al ctx (Some key) (Some v) ty d = (rc, ctx', evs)"
  shows "(rc = HWRUN_OK \<or> rc = ENOMEM) \<and>
     ctx_val ctx' = (if rc = HWRUN_OK then (ctx_val ctx)(param_segs key := cstr 256 v) else ctx_val ctx)"
proof -
  obtain t' al' where st: "param_set al t key v ty d = (rc, t', al')"
      and ctx': "ctx' = ctx\<lparr>p_root := Some t'\<rparr>"
    using assms by (auto simp: hw_param_set_value_def Let_def split: prod.splits)
  have "ctx_val ctx' = pval t'" "ctx_val ctx = pval t"
    by (auto simp: ctx_val_def ctx' assms(1))
  with pval_param_set [OF st] show ?thesis by simp
qed

section \<open>The flat file\<close>

fun param_entries :: "string \<Rightarrow> param \<Rightarrow> (string \<times> string) list" where
  "param_entries pre (Param k v ty d cs) =
     concat (map (\<lambda>c. let kk = save_key pre (pkey c) in
       (if pvalue c \<noteq> [] then [(kk, pvalue c)] else []) @ param_entries kk c) cs)"

definition entry_line :: "string \<times> string \<Rightarrow> string" where
  "entry_line e = fst e @ '': '' @ snd e"

lemma entry_line_pair: "entry_line (k, v) = k @ '': '' @ v"
  by (simp add: entry_line_def)

lemma concat_lines_append:
  "concat (map f (map g (concat xss))) = concat (map (\<lambda>xs. concat (map f (map g xs))) xss)"
  by (induction xss) auto

lemma tree_save_entries:
  "hw_param_tree_save t pre = concat (map (\<lambda>l. l @ [NL]) (map entry_line (param_entries pre t)))"
proof (induction t pre rule: hw_param_tree_save.induct)
  case (1 k v ty d cs pre)
    have "(if pvalue c \<noteq> [] then kk @ '': '' @ pvalue c @ [NL] else []) @ hw_param_tree_save c kk =
     concat (map (\<lambda>l. l @ [NL]) (map entry_line
       ((if pvalue c \<noteq> [] then [(kk, pvalue c)] else []) @ param_entries kk c)))"
    if "c \<in> set cs" "kk = save_key pre (pkey c)" for c kk
    using "1.IH" [OF that] by (simp add: entry_line_pair)
  then show ?case
    unfolding hw_param_tree_save.simps param_entries.simps concat_lines_append
    unfolding map_map o_def Let_def
    by (intro arg_cong [where f = concat] map_cong refl) (simp only: o_def map_map)
qed

text \<open>Keys and values the flat format carries: no separator, blank or comment sign in a key, no
  newline in a value and no blank or quote at its ends, and dotted keys that fit the buffer.\<close>

definition key_clean :: "string \<Rightarrow> bool" where
  "key_clean k \<longleftrightarrow> k \<noteq> [] \<and> (\<forall>x \<in> set k. \<not> isspace x \<and> x \<noteq> CHR '':'' \<and> x \<noteq> CHR ''#'')"

definition value_clean :: "string \<Rightarrow> bool" where
  "value_clean v \<longleftrightarrow> NL \<notin> set v \<and>
     (v = [] \<or> \<not> isspace (hd v) \<and> hd v \<noteq> CHR 0x22 \<and> \<not> isspace (last v) \<and> last v \<noteq> CHR 0x22)"

fun param_clean :: "nat \<Rightarrow> param \<Rightarrow> bool" where
  "param_clean n (Param k v ty d cs) \<longleftrightarrow>
     (\<forall>c \<in> set cs.
        key_clean (pkey c) \<and> value_clean (pvalue c) \<and>
        (let m = (if n = 0 then 0 else n + 1) + length (pkey c) in m < 512 \<and> param_clean m c))"

lemma parse_entry_line:
  assumes "key_clean k" and "value_clean v" and "v \<noteq> []"
  shows "param_parse_line (entry_line (k, v) @ [NL]) = Some (k, v)"
proof -
  obtain c k' where k: "k = c # k'" using assms(1) by (cases k) (auto simp: key_clean_def)
  have c: "\<not> isspace c" "c \<noteq> CHR ''#''" and colon: "CHR '':'' \<notin> set k"
    using assms(1) k by (auto simp: key_clean_def)
  have kt: "rtrim isspace k = k"
    using assms(1) by (intro rtrim_id) (auto simp: key_clean_def)
  have "strip_value (CHR '' '' # v @ [NL]) = v"
  proof -
    have "dropWhile (\<lambda>c. c = CHR '' '' \<or> c = TAB \<or> c = CHR 0x22) (v @ [NL]) = v @ [NL]"
      using assms(2,3) by (intro dropWhile_id) (auto simp: value_clean_def isspace_def)
    moreover have "rtrim (\<lambda>c. isspace c \<or> c = CHR 0x22 \<or> c = CR \<or> c = NL) v = v"
      using assms(2,3) by (intro rtrim_id) (auto simp: value_clean_def isspace_def)
    ultimately show ?thesis by (simp add: strip_value_def)
  qed
  moreover have "split_first (CHR '':'') (entry_line (k, v) @ [NL]) = (k, Some (CHR '' '' # v @ [NL]))"
    using colon by (simp add: entry_line_def)
  moreover have "dropWhile isblank (entry_line (k, v) @ [NL]) = entry_line (k, v) @ [NL]"
    using c by (auto simp: k entry_line_def isblank_def isspace_def)
  moreover have "hd (entry_line (k, v) @ [NL]) = c" by (simp add: k entry_line_def)
  ultimately show ?thesis
    using c kt k by (auto simp: param_parse_line_def Let_def isspace_def)
qed

text \<open>The dotted key of a path, and the paths of the entries of a tree.\<close>

fun dotted :: "string list \<Rightarrow> string" where
  "dotted [] = []"
| "dotted [k] = k"
| "dotted (k # ks) = k @ ''.'' @ dotted ks"

lemma dotted_Cons: "ks \<noteq> [] \<Longrightarrow> dotted (k # ks) = k @ ''.'' @ dotted ks"
  by (cases ks) auto

lemma dotted_snoc: "dotted (ks @ [k]) = (if ks = [] then k else dotted ks @ ''.'' @ k)"
  by (induction ks) (auto simp: dotted_Cons)

lemma segs_dotted:
  "ks \<noteq> [] \<Longrightarrow> \<forall>k \<in> set ks. CHR ''.'' \<notin> set k \<and> length k < 128 \<Longrightarrow> param_segs (dotted ks) = ks"
proof (induction ks)
  case (Cons k ks)
  then show ?case
    by (cases "ks = []") (auto simp: param_segs_single dotted_Cons param_segs_dot)
qed simp

fun flat :: "string list \<Rightarrow> param \<Rightarrow> (string list \<times> string) list" where
  "flat ps (Param k v ty d cs) =
     concat (map (\<lambda>c. (if pvalue c \<noteq> [] then [(ps @ [pkey c], pvalue c)] else []) @
                     flat (ps @ [pkey c]) c) cs)"

lemma get_child_distinct:
  assumes "distinct (map pkey cs)" "c \<in> set cs"
  shows "hw_param_get_child (Param k v ty d cs) (pkey c) = Some c"
  using assms by (induction cs) (auto simp: hw_param_get_child_def image_iff)

text \<open>On a well-formed tree the entries are exactly the non-empty values below the root.\<close>

lemma flat_iff:
  "param_wf t \<Longrightarrow> (p, v) \<in> set (flat ps t) \<longleftrightarrow> (\<exists>ks. ks \<noteq> [] \<and> p = ps @ ks \<and> v = pval t ks \<and> v \<noteq> [])"
proof (induction t arbitrary: p v ps)
  case (Param k w ty d cs)
  let ?t = "Param k w ty d cs"
  have cs: "distinct (map pkey cs)" and wf: "c \<in> set cs \<Longrightarrow> param_wf c" for c
    using Param.prems by auto
  have IH: "(p, v) \<in> set (flat (ps @ [pkey c]) c) \<longleftrightarrow>
      (\<exists>ks. ks \<noteq> [] \<and> p = (ps @ [pkey c]) @ ks \<and> v = pval c ks \<and> v \<noteq> [])" if "c \<in> set cs" for c
    using Param.IH that wf by blast
  have child: "c \<in> set cs \<Longrightarrow> pval ?t (pkey c # ks) = pval c ks" for c ks
    using get_child_distinct [OF cs] by (simp add: pval_Cons)
  show ?case
  proof
    assume "(p, v) \<in> set (flat ps ?t)"
    then obtain c where c: "c \<in> set cs"
      and "(p, v) \<in> set (if pvalue c \<noteq> [] then [(ps @ [pkey c], pvalue c)] else []) \<or>
           (p, v) \<in> set (flat (ps @ [pkey c]) c)"
      by auto
    then obtain ks where "p = ps @ pkey c # ks" "v = pval c ks" "v \<noteq> []"
      using IH [OF c] by (auto split: if_splits)
    with child [OF c] show "\<exists>ks. ks \<noteq> [] \<and> p = ps @ ks \<and> v = pval ?t ks \<and> v \<noteq> []"
      by (intro exI [of _ "pkey c # ks"]) simp
  next
    assume "\<exists>ks. ks \<noteq> [] \<and> p = ps @ ks \<and> v = pval ?t ks \<and> v \<noteq> []"
    then obtain j js where p: "p = ps @ j # js" and v: "v = pval ?t (j # js)" "v \<noteq> []"
      by (metis list.exhaust)
    then obtain c where "hw_param_get_child ?t j = Some c"
      by (cases "hw_param_get_child ?t j") (auto simp: pval_Cons)
    then have c: "c \<in> set cs" "j = pkey c" using get_child_key by fastforce+
    have vc: "v = pval c js" using v child [OF c(1)] c(2) by simp
    have "(p, v) \<in> set (if pvalue c \<noteq> [] then [(ps @ [pkey c], pvalue c)] else [])
        \<or> (p, v) \<in> set (flat (ps @ [pkey c]) c)"
    proof (cases "js = []")
      case True
      with vc v(2) p c(2) show ?thesis by simp
    next
      case False
      then have "(p, v) \<in> set (flat (ps @ [pkey c]) c)"
        using IH [OF c(1)] vc v(2) p c(2) by auto
      then show ?thesis ..
    qed
    then have "(p, v) \<in> set ((if pvalue c \<noteq> [] then [(ps @ [pkey c], pvalue c)] else []) @
        flat (ps @ [pkey c]) c)" by (simp only: set_append Un_iff)
    with c(1) show "(p, v) \<in> set (flat ps ?t)" unfolding flat.simps set_concat set_map by blast
  qed
qed

lemma map_concat_ball:
  "(\<And>c. c \<in> set cs \<Longrightarrow> map g (e c) = f c \<and> (\<forall>x \<in> set (e c). P x)) \<Longrightarrow>
   map g (concat (map e cs)) = concat (map f cs) \<and> (\<forall>x \<in> set (concat (map e cs)). P x)"
  by (induction cs) auto

text \<open>The keys written are the dotted paths, and the lines carry the entries.\<close>

definition entry_ok :: "string \<times> string \<Rightarrow> bool" where
  "entry_ok e \<longleftrightarrow>
     (\<exists>ks. ks \<noteq> [] \<and> fst e = dotted ks \<and> (\<forall>j \<in> set ks. key_clean j)) \<and> length (fst e) < 512 \<and>
     value_clean (snd e) \<and> snd e \<noteq> [] \<and> length (snd e) < 256"

lemma param_entries_flat:
  "param_wf t \<Longrightarrow> param_clean (length (dotted ps)) t \<Longrightarrow>
   (\<forall>k \<in> set ps. key_clean k \<and> CHR ''.'' \<notin> set k \<and> length k < 128) \<Longrightarrow>
   map (\<lambda>(k, v). (param_segs k, v)) (param_entries (dotted ps) t) = flat ps t \<and>
   (\<forall>e \<in> set (param_entries (dotted ps) t). entry_ok e)"
proof (induction t arbitrary: ps)
  case (Param k w ty d cs)
  let ?e = "\<lambda>c. (if pvalue c \<noteq> [] then [(save_key (dotted ps) (pkey c), pvalue c)] else []) @
       param_entries (save_key (dotted ps) (pkey c)) c"
  let ?f = "\<lambda>c. (if pvalue c \<noteq> [] then [(ps @ [pkey c], pvalue c)] else []) @ flat (ps @ [pkey c]) c"
  have dp: "dotted ps = [] \<longleftrightarrow> ps = []"
    using Param.prems(3) by (cases ps rule: rev_cases) (auto simp: dotted_snoc key_clean_def)
  have "map (\<lambda>(k, v). (param_segs k, v)) (?e c) = ?f c \<and> (\<forall>x \<in> set (?e c). entry_ok x)" if c: "c \<in> set cs" for c
  proof -
    let ?ps = "ps @ [pkey c]"
    have wf: "param_wf c" "CHR ''.'' \<notin> set (pkey c)" "length (pkey c) < 128"
      and cl: "key_clean (pkey c)" "value_clean (pvalue c)"
      using Param.prems c by auto
    have len: "length (dotted ?ps) = (if length (dotted ps) = 0 then 0 else length (dotted ps) + 1) + length (pkey c)"
      using dp by (auto simp: dotted_snoc)
    have cl': "length (dotted ?ps) < 512" "param_clean (length (dotted ?ps)) c"
      using Param.prems(2) c unfolding len by (auto simp: Let_def)
    have sk: "save_key (dotted ps) (pkey c) = dotted ?ps"
      using cl'(1) dp by (auto simp: save_key_def dotted_snoc cstr_simps)
    have ok: "\<forall>k \<in> set ?ps. key_clean k \<and> CHR ''.'' \<notin> set k \<and> length k < 128"
      using Param.prems(3) wf cl by auto
    have vl: "length (pvalue c) < 256" using wf(1) param_wf_iff by blast
    have "entry_ok (dotted ?ps, pvalue c)" if "pvalue c \<noteq> []"
      unfolding entry_ok_def fst_conv snd_conv using that ok vl cl cl' by blast
    moreover have "param_segs (dotted ?ps) = ?ps" using ok by (intro segs_dotted) auto
    ultimately show ?thesis
      using Param.IH [OF c wf(1) cl'(2) ok] unfolding sk by auto
  qed
  then have "map (\<lambda>(k, v). (param_segs k, v)) (concat (map ?e cs)) = concat (map ?f cs) \<and>
      (\<forall>x \<in> set (concat (map ?e cs)). entry_ok x)"
    by (rule map_concat_ball)
  then show ?case unfolding param_entries.simps flat.simps Let_def .
qed

lemma key_clean_dot: "key_clean k \<Longrightarrow> key_clean r \<Longrightarrow> key_clean (k @ ''.'' @ r)"
  by (auto simp: key_clean_def isspace_def)

lemma dotted_clean: "ks \<noteq> [] \<Longrightarrow> \<forall>k \<in> set ks. key_clean k \<Longrightarrow> key_clean (dotted ks)"
proof (induction ks)
  case (Cons k ks)
  show ?case
  proof (cases "ks = []")
    case True
    with Cons.prems show ?thesis by simp
  next
    case False
    with Cons have "key_clean k" "key_clean (dotted ks)" by simp_all
    then show ?thesis unfolding dotted_Cons [OF False] by (rule key_clean_dot)
  qed
qed simp

lemma entry_ok_line:
  assumes "entry_ok e"
  shows "param_parse_line (entry_line e @ [NL]) = Some e" and "NL \<notin> set (entry_line e)"
    and "length (entry_line e) + 1 < 1024"
proof -
  obtain k v where e: "e = (k, v)" by force
  have k: "key_clean k" and v: "value_clean v" "v \<noteq> []" and len: "length k < 512" "length v < 256"
    using assms dotted_clean by (auto simp: entry_ok_def e)
  show "param_parse_line (entry_line e @ [NL]) = Some e" using parse_entry_line [OF k v] e by simp
  show "NL \<notin> set (entry_line e)"
    using k v by (auto simp: e entry_line_def key_clean_def value_clean_def isspace_def)
  show "length (entry_line e) + 1 < 1024" using len by (simp add: e entry_line_def)
qed

lemma load_entry_lines:
  "\<forall>e \<in> set es. entry_ok e \<Longrightarrow>
   param_load_lines [] t (map (\<lambda>l. l @ [NL]) (map entry_line es)) = (ptree.puts 0 None t es, [])"
proof (induction es arbitrary: t)
  case (Cons e es)
  obtain k v where e: "e = (k, v)" by force
  show ?case
    using Cons entry_ok_line(1) [of e] by (simp add: e param_write_eq)
qed simp

lemma adms_True: "ptree.adms ty d t kvs"
  by (induction kvs arbitrary: t) auto

lemma flat_root:
  assumes "param_wf t"
  shows "(ks, v) \<in> set (flat [] t) \<longleftrightarrow> ks \<noteq> [] \<and> v = pval t ks \<and> v \<noteq> []"
  using flat_iff [OF assms, of ks v "[]"] by (simp only: append_Nil) blast

text \<open>The content written for a tree, loaded over another tree: every entry is set.\<close>

lemma load_saved:
  assumes "param_wf t" "param_clean 0 t" "param_wf t0"
  shows "pval (fst (param_load_lines [] t0 (fgets_all 1024 (hw_param_tree_save t [])))) ks =
           (if ks \<noteq> [] \<and> pval t ks \<noteq> [] then pval t ks else pval t0 ks)"
proof -
  let ?es = "param_entries [] t"
  have ok: "\<forall>e \<in> set ?es. entry_ok e" and fl: "map (\<lambda>(k, v). (param_segs k, v)) ?es = flat [] t"
    using param_entries_flat [of t "[]"] assms by auto
  have lines: "fgets_all 1024 (hw_param_tree_save t []) = map (\<lambda>l. l @ [NL]) (map entry_line ?es)"
    using fgets_all_lines [of "map entry_line ?es" 1024 "[]"] entry_ok_line(2,3) ok
    by (simp add: tree_save_entries)
  have "pval (ptree.puts 0 None t0 ?es) ks = ptree.overlay (pval t0) ?es ks"
    using ptree.look_puts [OF assms(3) adms_True] by simp
  also have "\<dots> = (if ks \<noteq> [] \<and> pval t ks \<noteq> [] then pval t ks else pval t0 ks)"
  proof (cases "find (\<lambda>p. param_segs (fst p) = ks) (rev ?es)")
    case None
    have "(ks, v) \<notin> set (flat [] t)" for v
      using None unfolding fl [symmetric] find_None by auto
    then have "ks = [] \<or> pval t ks = []" using flat_root [OF assms(1)] by blast
    then show ?thesis unfolding ptree.overlay_value None by auto
  next
    case (Some e)
    then have e: "e \<in> set ?es" "param_segs (fst e) = ks" by (auto dest: find_SomeD)
    then have "(ks, snd e) \<in> set (flat [] t)" unfolding fl [symmetric] by force
    then have v: "ks \<noteq> []" "snd e = pval t ks" "snd e \<noteq> []"
      using flat_root [OF assms(1)] by blast+
    have "entry_ok e" using ok e(1) by blast
    then have "cstr 256 (snd e) = snd e" by (simp add: entry_ok_def cstr_id)
    then show ?thesis
      unfolding ptree.overlay_value Some option.case using v by simp
  qed
  finally show ?thesis unfolding lines load_entry_lines [OF ok] fst_conv .
qed

section \<open>Properties\<close>

text \<open>
  A successful write calls, in list order, at most 64 of the watchers whose pattern is empty or
  matches, each with the key, the value the key had before (none when it had no value) and the new
  value, and then the revision hook.  Only that key reads differently afterwards.  A write that fails
  calls nobody and changes no value.
\<close>

theorem hw_param_set_value_notifies:
  assumes "p_root ctx = Some t" and "param_wf t"
    and "hw_param_set_value fnm al ctx (Some key) (Some v) ty d = (rc, ctx', evs)"
  shows "if rc = HWRUN_OK
    then evs = map (\<lambda>w. Watch (w_on_change w) key (hw_param_get ctx (Some key)) v (w_userdata w))
                 (take 64 (filter (\<lambda>w. w_pattern w = [] \<or> fnm (w_pattern w) key) (p_watchers ctx)))
               @ (if p_initialized ctx then
                    (case p_on_revision ctx of None \<Rightarrow> []
                     | Some f \<Rightarrow> [Revision f (p_revision_userdata ctx) key])
                  else []) \<and>
         (\<forall>key'. hw_param_get ctx' (Some key') =
            (if param_segs key' = param_segs key then (if cstr 256 v = [] then None else Some (cstr 256 v))
             else hw_param_get ctx (Some key')))
    else rc = ENOMEM \<and> evs = [] \<and> (\<forall>key'. hw_param_get ctx' (Some key') = hw_param_get ctx (Some key'))"
proof -
  obtain t' al' where st: "param_set al t key v ty d = (rc, t', al')"
      and ctx': "ctx' = ctx\<lparr>p_root := Some t'\<rparr>"
    using assms(1,3) by (auto simp: hw_param_set_value_def Let_def split: prod.splits)
  have old: "(case hw_param_find (Some t) (Some key) of
      Some p \<Rightarrow> if pvalue p \<noteq> [] then Some (cstr 256 (pvalue p)) else None | None \<Rightarrow> None)
      = hw_param_get ctx (Some key)"
  proof -
    have "pnode t ks = Some q \<Longrightarrow> cstr 256 (pvalue q) = pvalue q" for ks q
      using assms(2) by (blast intro: cstr_id pvalue_short pnode_wf)
    then show ?thesis
      using assms(1,2) by (auto simp: hw_param_get_def param_find_pnode split: option.splits)
  qed
  have evs: "evs = (if rc = HWRUN_OK
      then hw_param_notify fnm ctx' key (hw_param_get ctx (Some key)) v @ hw_param_mark_revision ctx' key
      else [])"
    using assms(1,3) st unfolding hw_param_set_value_def ctx' old [symmetric]
    by (auto simp: Let_def)
  note vals = set_value_val [OF assms(1,3)]
  show ?thesis
    using vals
    by (auto simp: evs ctx' hw_param_notify_def hw_param_mark_revision_def hw_param_get_val Let_def
        split: option.splits)
qed

theorem hw_param_set_value_notifies_witness:
  "hw_param_get
     (fst (snd (hw_param_set_value (\<lambda>p k. p = k) []
        (snd (hw_param_watch True (snd (the (hw_param_init True None))) (Some ''p'') None (Some 3) 4))
        (Some ''x'') (Some ''1'') 0 None))) (Some ''x'') = Some ''1''"
proof -
  let ?ctx = "snd (hw_param_watch True (snd (the (hw_param_init True None))) (Some ''p'') None (Some 3) 4)"
  have s: "hw_param_set_value (\<lambda>p k. p = k) [] ?ctx (Some ''x'') (Some ''1'') 0 None =
      (HWRUN_OK, ?ctx\<lparr>p_root := Some (Param ''.'' [] 0 [] [Param ''x'' ''1'' 0 [] []])\<rparr>,
       [Watch 3 ''x'' None ''1'' 4])"
    by code_simp
  have r: "p_root ?ctx = Some (Param ''.'' [] 0 [] [])" by code_simp
  from hw_param_set_value_notifies [OF r _ s] show ?thesis
    unfolding s by (simp add: cstr_simps)
qed

text \<open>
  Saving a parameter tree and loading the file into a fresh context loses no value: every key
  reads the same, when keys and values hold no character the flat format gives a meaning to and the
  dotted keys fit their buffer.
\<close>

theorem param_save_load_roundtrip:
  assumes "p_root ctx = Some t" and "param_wf t" and "param_clean 0 t"
    and "hw_param_save_file True ctx = (rc, content)" and "hw_param_init True None = Some (rc0, ctx0)"
  shows "hw_param_get (snd (hw_param_load_file [] ctx0 content)) (Some key) = hw_param_get ctx (Some key)"
proof -
  have content: "content = Some (hw_param_tree_save t [])"
    using assms(1,4) by (simp add: hw_param_save_file_def)
  have ctx0: "p_root ctx0 = Some (Param ''.'' [] 0 [] [])"
    using assms(5) by (auto simp: hw_param_init_def)
  have "pval (Param ''.'' [] 0 [] []) ks = []" for ks
    by (cases ks) (simp_all add: pval_Cons hw_param_get_child_def)
  then have "ctx_val (snd (hw_param_load_file [] ctx0 content)) (param_segs key) = ctx_val ctx (param_segs key)"
    using load_saved [OF assms(2,3), of "Param ''.'' [] 0 [] []" "param_segs key"]
    by (simp add: hw_param_load_file_def content ctx0 ctx_val_def assms(1))
  then show ?thesis by (simp add: hw_param_get_val)
qed

theorem param_save_load_roundtrip_witness:
  "hw_param_get (snd (hw_param_load_file [] (snd (the (hw_param_init True None)))
     (Some (''a.b: x y'' @ [NL])))) (Some ''a.b'') = Some ''x y''"
proof -
  let ?c0 = "snd (the (hw_param_init True None))"
  let ?t = "Param ''.'' [] 0 [] [Param ''a'' [] 0 [] [Param ''b'' ''x y'' 0 [] []]]"
  have i: "hw_param_init True None = Some (HWRUN_OK, ?c0)" by code_simp
  have s: "hw_param_save_file True (?c0\<lparr>p_root := Some ?t\<rparr>) = (HWRUN_OK, Some (''a.b: x y'' @ [NL]))"
    by code_simp
  have c: "param_wf ?t" "param_clean 0 ?t" by code_simp+
  have g: "hw_param_get (?c0\<lparr>p_root := Some ?t\<rparr>) (Some ''a.b'') = Some ''x y''" by code_simp
  show ?thesis
    using param_save_load_roundtrip [OF _ c s i, of "''a.b''"] unfolding g by simp
qed

end
