(* ===== verification/MetaProto.thy ===== *)
theory MetaProto
  imports HwRun
begin

text \<open>
  METAPROTO, \<^verbatim>\<open>bus/src/metaproto.c\<close>: protocol versions, the registry of protocol providers,
  subscriptions and dependency checks.

  Implementation and callback pointers are identifiers; 0 is NULL for an implementation.  The calls
  \<open>hw_metaproto_notify\<close> makes after releasing the lock are the \<open>proto_event\<close>s an operation returns.
\<close>

section \<open>Versions\<close>

lemma strtol_shorter:
  assumes "s \<noteq> []" "isdigit (hd s)"
  shows "length (snd (strtol s)) < length s"
proof -
  obtain c r where s: "s = c # r" and c: "isdigit c" using assms by (cases s) auto
  have "scan_number s = Some (False, digits_nat (takeWhile isdigit s), dropWhile isdigit r)"
    using isdigit_not [OF c] c by (simp add: scan_number_def s Let_def)
  then show ?thesis by (simp add: strtol_def s length_dropWhile_le less_Suc_eq_le)
qed

text \<open>The loop of \<open>hw_proto_version_cmp\<close>: skip to the next number in both, compare, go on.\<close>

function version_cmp_loop :: "string \<Rightarrow> string \<Rightarrow> int" where
  "version_cmp_loop pa pb =
     (if pa = [] \<or> pb = [] then 0
      else
        let qa = dropWhile (\<lambda>c. \<not> isdigit c) pa;
            qb = dropWhile (\<lambda>c. \<not> isdigit c) pb in
        if qa = [] \<or> qb = [] then 0
        else
          let ma = fst (strtol qa); mb = fst (strtol qb) in
          if ma \<noteq> mb then (if ma < mb then - 1 else 1)
          else version_cmp_loop (snd (strtol qa)) (snd (strtol qb)))"
  by pat_completeness auto
termination
proof (relation "measure (\<lambda>(pa, _). length pa)", goal_cases)
  case (2 pa pb qa qb ma mb)
  then have "length (snd (strtol qa)) < length qa"
    using hd_dropWhile [of "\<lambda>c. \<not> isdigit c" pa] by (intro strtol_shorter) auto
  also have "length qa \<le> length pa" using 2 by (simp add: length_dropWhile_le)
  finally show ?case by simp
qed simp

declare version_cmp_loop.simps [simp del]

definition hw_proto_version_cmp :: "string option \<Rightarrow> string option \<Rightarrow> int" where
  "hw_proto_version_cmp a b =
     (case (a, b) of (Some a, Some b) \<Rightarrow> version_cmp_loop a b | _ \<Rightarrow> 0)"

text \<open>\<open>version_segments\<close>: the number of segments recognised, then major, minor and patch.\<close>

definition version_segments :: "string option \<Rightarrow> nat \<times> int \<times> int \<times> int" where
  "version_segments v =
     (case v of
        None \<Rightarrow> (0, 0, 0, 0)
      | Some s \<Rightarrow>
          if s = [] then (0, 0, 0, 0)
          else
            (let (major, e) = strtol s in
             if e = s then (0, major, 0, 0)
             else if e \<noteq> [] \<and> hd e = CHR ''.'' then
               (let (minor, e2) = strtol (tl e) in
                if e2 \<noteq> [] \<and> hd e2 = CHR ''.'' then (3, major, minor, fst (strtol (tl e2)))
                else (2, major, minor, 0))
             else (1, major, 0, 0)))"

definition hw_proto_version_compat :: "string option \<Rightarrow> string option \<Rightarrow> bool" where
  "hw_proto_version_compat have_v req =
     (case (have_v, req) of
        (Some h, Some r) \<Rightarrow>
          (case (version_segments (Some h), version_segments (Some r)) of
             ((hn, hma, hmi, hpa), (rn, rma, rmi, rpa)) \<Rightarrow>
               if hn = 0 \<or> rn = 0 then False
               else if hma \<noteq> rma then False
               else if hmi < rmi then False
               else if hmi = rmi \<and> hpa < rpa then False
               else True)
      | _ \<Rightarrow> False)"

section \<open>The registry\<close>

record route =
  r_protocol :: string
  r_version :: string
  r_plugin_id :: string
  r_implementation :: nat
  r_provider_state :: nat
  r_kernel_backed :: bool

record sub =
  s_plugin_id :: string
  s_protocol :: string
  s_callback :: nat

record registry =
  routes :: "route list"
  subscribers :: "sub list"
  m_initialized :: bool
  state_file :: string

text \<open>A call of a subscriber: callback, protocol, version, plugin, state.\<close>

datatype proto_event = Notified nat string string string nat

abbreviation STATE_REGISTERED :: nat where "STATE_REGISTERED \<equiv> 1"
abbreviation STATE_REMOVED :: nat where "STATE_REMOVED \<equiv> 2"
abbreviation STATE_CHANGED :: nat where "STATE_CHANGED \<equiv> 3"
abbreviation PLUGIN_STARTED :: nat where "PLUGIN_STARTED \<equiv> 3"

definition hw_metaproto_init :: "string option \<Rightarrow> rc \<times> registry" where
  "hw_metaproto_init state_dir =
     (HWRUN_OK,
      \<lparr>routes = [], subscribers = [], m_initialized = True,
       state_file = (case state_dir of None \<Rightarrow> [] | Some d \<Rightarrow> cstr 256 (d @ ''/metaproto.state''))\<rparr>)"

definition hw_metaproto_shutdown :: "registry \<Rightarrow> registry" where
  "hw_metaproto_shutdown reg = reg\<lparr>routes := [], subscribers := [], m_initialized := False\<rparr>"

definition hw_metaproto_notify :: "registry \<Rightarrow> string \<Rightarrow> string \<Rightarrow> string \<Rightarrow> nat \<Rightarrow> proto_event list" where
  "hw_metaproto_notify reg protocol version plugin_id state =
     map (\<lambda>s. Notified (s_callback s) protocol version plugin_id state)
       (take 64 (filter (\<lambda>s. \<not> (s_protocol s \<noteq> [] \<and> s_protocol s \<noteq> protocol)) (subscribers reg)))"

definition same_provider :: "string \<Rightarrow> string \<Rightarrow> route \<Rightarrow> bool" where
  "same_provider protocol plugin_id r \<longleftrightarrow> r_protocol r = protocol \<and> r_plugin_id r = plugin_id"

definition update_route :: "string option \<Rightarrow> nat \<Rightarrow> route \<Rightarrow> route" where
  "update_route version implementation r =
     r\<lparr>r_implementation := implementation,
       r_version := (case version of None \<Rightarrow> r_version r | Some v \<Rightarrow> cstr 16 v)\<rparr>"

definition new_route :: "string \<Rightarrow> string option \<Rightarrow> string \<Rightarrow> nat \<Rightarrow> route" where
  "new_route protocol version plugin_id implementation =
     \<lparr>r_protocol = cstr 64 protocol,
      r_version = (case version of None \<Rightarrow> ''1.0'' | Some v \<Rightarrow> cstr 16 v),
      r_plugin_id = cstr 64 plugin_id,
      r_implementation = implementation, r_provider_state = PLUGIN_STARTED, r_kernel_backed = False\<rparr>"

definition hw_metaproto_register ::
    "bool \<Rightarrow> registry \<Rightarrow> string option \<Rightarrow> string option \<Rightarrow> string option \<Rightarrow> nat
      \<Rightarrow> rc \<times> registry \<times> proto_event list" where
  "hw_metaproto_register ok reg protocol version plugin_id implementation =
     (case (m_initialized reg, protocol, plugin_id) of
        (True, Some proto, Some pid) \<Rightarrow>
          (case find (same_provider proto pid) (routes reg) of
             Some r \<Rightarrow>
               (let r' = update_route version implementation r;
                    reg' = reg\<lparr>routes :=
                      update_first (same_provider proto pid) (update_route version implementation) (routes reg)\<rparr>
                in (HWRUN_OK, reg',
                    hw_metaproto_notify reg' (cstr 64 (r_protocol r')) (cstr 16 (r_version r')) pid STATE_CHANGED))
           | None \<Rightarrow>
               if \<not> ok then (ENOMEM, reg, [])
               else
                 (let r = new_route proto version pid implementation;
                      reg' = reg\<lparr>routes := r # routes reg\<rparr>
                  in (HWRUN_OK, reg',
                      hw_metaproto_notify reg' (cstr 64 proto) (cstr 16 (r_version r)) pid STATE_REGISTERED)))
      | _ \<Rightarrow> (EINVAL, reg, []))"

definition hw_metaproto_unregister ::
    "registry \<Rightarrow> string option \<Rightarrow> string option \<Rightarrow> rc \<times> registry \<times> proto_event list" where
  "hw_metaproto_unregister reg protocol plugin_id =
     (case protocol of
        None \<Rightarrow> (EINVAL, reg, [])
      | Some proto \<Rightarrow>
          (let hit = (\<lambda>r. r_protocol r = proto \<and>
                          (case plugin_id of None \<Rightarrow> True | Some pid \<Rightarrow> r_plugin_id r = pid)) in
           case find hit (routes reg) of
             None \<Rightarrow> (ENOENT, reg, [])
           | Some r \<Rightarrow>
               (let reg' = reg\<lparr>routes := remove_first hit (routes reg)\<rparr> in
                (HWRUN_OK, reg',
                 hw_metaproto_notify reg' (cstr 64 (r_protocol r)) (cstr 16 (r_version r))
                   (cstr 64 (r_plugin_id r)) STATE_REMOVED))))"

definition hw_metaproto_resolve :: "registry \<Rightarrow> string option \<Rightarrow> string option \<Rightarrow> rc \<times> route option" where
  "hw_metaproto_resolve reg protocol version_req =
     (case protocol of
        None \<Rightarrow> (EINVAL, None)
      | Some proto \<Rightarrow>
          (case find (\<lambda>r. r_protocol r = proto \<and>
                  (case version_req of
                     None \<Rightarrow> True
                   | Some v \<Rightarrow> v = [] \<or> hw_proto_version_compat (Some (r_version r)) (Some v))) (routes reg) of
             None \<Rightarrow> (ENOENT, None)
           | Some r \<Rightarrow> (HWRUN_OK, Some r)))"

definition hw_metaproto_list :: "bool \<Rightarrow> registry \<Rightarrow> rc \<times> nat \<times> route list option" where
  "hw_metaproto_list ok reg =
     (let n = length (routes reg) in
      if n = 0 then (HWRUN_OK, n, None)
      else if \<not> ok then (ENOMEM, n, None)
      else (HWRUN_OK, n, Some (routes reg)))"

text \<open>
  The test that finds an earlier subscription of the plugin: without a protocol, the first one of the
  plugin, whatever it is for.
\<close>

definition hw_metaproto_subscribe ::
    "bool \<Rightarrow> registry \<Rightarrow> string option \<Rightarrow> string option \<Rightarrow> nat option \<Rightarrow> rc \<times> registry" where
  "hw_metaproto_subscribe ok reg plugin_id protocol cb =
     (case (plugin_id, cb) of
        (Some pid, Some f) \<Rightarrow>
          (let hit = (\<lambda>s. s_plugin_id s = pid \<and>
                          (case protocol of None \<Rightarrow> True | Some p \<Rightarrow> s_protocol s = p)) in
           if find hit (subscribers reg) \<noteq> None
           then (HWRUN_OK, reg\<lparr>subscribers := update_first hit (\<lambda>s. s\<lparr>s_callback := f\<rparr>) (subscribers reg)\<rparr>)
           else if \<not> ok then (ENOMEM, reg)
           else (HWRUN_OK,
                 reg\<lparr>subscribers :=
                   \<lparr>s_plugin_id = cstr 64 pid,
                    s_protocol = (case protocol of None \<Rightarrow> [] | Some p \<Rightarrow> cstr 64 p),
                    s_callback = f\<rparr> # subscribers reg\<rparr>))
      | _ \<Rightarrow> (EINVAL, reg))"

text \<open>
  \<open>missing\<close> is the capacity of the output buffer when there is one; the result holds its content.
\<close>

fun check_deps_loop :: "registry \<Rightarrow> nat option \<Rightarrow> string list \<Rightarrow> string option \<Rightarrow> rc \<times> string option" where
  "check_deps_loop reg missing [] out = (HWRUN_OK, out)"
| "check_deps_loop reg missing (q # qs) out =
     (if find (\<lambda>r. r_protocol r = q) (routes reg) \<noteq> None then check_deps_loop reg missing qs out
      else (ENOENT, (case missing of None \<Rightarrow> out | Some cap \<Rightarrow> if cap = 0 then out else Some (cstr cap q))))"

definition hw_metaproto_check_deps ::
    "registry \<Rightarrow> string list option \<Rightarrow> int \<Rightarrow> nat option \<Rightarrow> rc \<times> string option" where
  "hw_metaproto_check_deps reg requires count missing =
     (case requires of
        None \<Rightarrow> (EINVAL, None)
      | Some qs \<Rightarrow>
          if count < 0 then (EINVAL, None)
          else check_deps_loop reg missing (take (nat count) qs)
                 (case missing of None \<Rightarrow> None | Some cap \<Rightarrow> if cap = 0 then None else Some []))"

section \<open>Versions: laws\<close>

lemma version_cmp_loop_swap: "version_cmp_loop pb pa = - version_cmp_loop pa pb"
proof (induction pa pb rule: version_cmp_loop.induct)
  case (1 pa pb)
  show ?case
    using 1 by (subst (1 2) version_cmp_loop.simps) (auto simp: Let_def)
qed

lemma compat_iff:
  "hw_proto_version_compat (Some h) (Some r) \<longleftrightarrow>
     (case (version_segments (Some h), version_segments (Some r)) of
        ((hn, hma, hmi, hpa), (rn, rma, rmi, rpa)) \<Rightarrow>
          hn \<noteq> 0 \<and> rn \<noteq> 0 \<and> hma = rma \<and> (rmi < hmi \<or> rmi = hmi \<and> rpa \<le> hpa))"
  by (auto simp: hw_proto_version_compat_def split: prod.splits)

text \<open>A version written with three decimal segments.\<close>

definition version3 :: "nat \<Rightarrow> nat \<Rightarrow> nat \<Rightarrow> string" where
  "version3 a b c = show_nat a @ ''.'' @ show_nat b @ ''.'' @ show_nat c"

lemma strtol_show_nat:
  assumes "n < 2 ^ 63" and "r = [] \<or> \<not> isdigit (hd r)"
  shows "strtol (show_nat n @ r) = (int n, r)"
proof -
  have "\<forall>c \<in> set (show_nat n). isdigit c" by (blast dest: show_nat_digits)
  from scan_number_digits [OF _ this assms(2)] assms(1) show ?thesis
    by (simp add: strtol_def)
qed

lemma not_digit_dot: "\<not> isdigit (CHR ''.'')"
  by (simp add: isdigit_def)

lemma version_segments_version3:
  assumes "a < 2 ^ 63" "b < 2 ^ 63" "c < 2 ^ 63"
  shows "version_segments (Some (version3 a b c)) = (3, int a, int b, int c)"
  using assms strtol_show_nat [of a "''.'' @ show_nat b @ ''.'' @ show_nat c"]
    strtol_show_nat [of b "''.'' @ show_nat c"] strtol_show_nat [of c "[]"]
  by (simp add: version_segments_def version3_def not_digit_dot Let_def)

section \<open>The registry as a table of providers\<close>

definition route_key :: "route \<Rightarrow> string \<times> string" where
  "route_key r = (r_protocol r, r_plugin_id r)"

definition reg_wf :: "registry \<Rightarrow> bool" where
  "reg_wf reg \<longleftrightarrow> distinct (map route_key (routes reg)) \<and>
     (\<forall>r \<in> set (routes reg). length (r_protocol r) < 64 \<and> length (r_plugin_id r) < 64 \<and>
        length (r_version r) < 16)"

definition provider :: "registry \<Rightarrow> string \<times> string \<Rightarrow> (string \<times> nat) option" where
  "provider reg k =
     map_option (\<lambda>r. (r_version r, r_implementation r)) (find (same_provider (fst k) (snd k)) (routes reg))"

lemma same_provider_key: "same_provider p q r \<longleftrightarrow> route_key r = (p, q)"
  by (simp add: same_provider_def route_key_def)

lemma update_route_sels [simp]:
  "r_protocol (update_route v i r) = r_protocol r" "r_plugin_id (update_route v i r) = r_plugin_id r"
  "r_implementation (update_route v i r) = i" "route_key (update_route v i r) = route_key r"
  by (simp_all add: update_route_def route_key_def)

lemma r_version_update: "r_version (update_route v i r) = (case v of None \<Rightarrow> r_version r | Some w \<Rightarrow> cstr 16 w)"
  by (simp add: update_route_def)

text \<open>A registration of names that fit their buffers is one of two steps.\<close>

lemma register_cases:
  assumes "m_initialized reg" and "hw_metaproto_register ok reg (Some p) v (Some q) i = (rc, reg', evs)"
  obtains (update) r where "find (same_provider p q) (routes reg) = Some r" "rc = HWRUN_OK"
      "reg' = reg\<lparr>routes := update_first (same_provider p q) (update_route v i) (routes reg)\<rparr>"
      "evs = hw_metaproto_notify reg' (cstr 64 (r_protocol r)) (cstr 16 (r_version (update_route v i r))) q
         STATE_CHANGED"
  | (add) "find (same_provider p q) (routes reg) = None" "ok" "rc = HWRUN_OK"
      "reg' = reg\<lparr>routes := new_route p v q i # routes reg\<rparr>"
      "evs = hw_metaproto_notify reg' (cstr 64 p) (cstr 16 (r_version (new_route p v q i))) q STATE_REGISTERED"
  | (nomem) "find (same_provider p q) (routes reg) = None" "\<not> ok" "rc = ENOMEM" "reg' = reg" "evs = []"
  using assms by (auto simp: hw_metaproto_register_def Let_def split: option.splits if_splits)

lemma new_route_key: "length p < 64 \<Longrightarrow> length q < 64 \<Longrightarrow> route_key (new_route p v q i) = (p, q)"
  by (simp add: new_route_def route_key_def cstr_simps)

lemma new_route_version_short: "length (r_version (new_route p v q i)) < 16"
  by (auto simp: new_route_def length_cstr_less split: option.splits)

lemma register_wf:
  assumes "reg_wf reg" "m_initialized reg" "length p < 64" "length q < 64"
    and "hw_metaproto_register ok reg (Some p) v (Some q) i = (rc, reg', evs)"
  shows "reg_wf reg'"
  using assms(2,5)
proof (cases rule: register_cases)
  case (update r)
  have "map route_key (routes reg') = map route_key (routes reg)"
    unfolding update by (simp add: map_update_first)
  moreover have "length (r_version (update_route v i x)) < 16" if "x \<in> set (routes reg)" for x
    using assms(1) that by (auto simp: r_version_update reg_wf_def length_cstr_less split: option.splits)
  ultimately show ?thesis
    using assms(1) unfolding reg_wf_def update(3)
    by (auto dest!: set_update_first)
next
  case add
  have "(p, q) \<notin> route_key ` set (routes reg)"
    using add(1) by (auto simp: find_None same_provider_key)
  with assms(1,3,4) show ?thesis
    using new_route_version_short [of p v q i]
    by (auto simp: reg_wf_def add new_route_key) (auto simp: new_route_def length_cstr_less)
qed (use assms(1) in simp)

lemma register_provider:
  assumes "reg_wf reg" "m_initialized reg" "length p < 64" "length q < 64"
    and "hw_metaproto_register ok reg (Some p) v (Some q) i = (HWRUN_OK, reg', evs)"
  shows "provider reg' = (provider reg)((p, q) \<mapsto>
           (case v of Some w \<Rightarrow> cstr 16 w
            | None \<Rightarrow> (case provider reg (p, q) of Some (w, _) \<Rightarrow> w | None \<Rightarrow> ''1.0''), i))"
  using assms(2,5)
proof (cases rule: register_cases)
  case (update r)
  have "find (same_provider a b) (routes reg') =
      (if (a, b) = (p, q) then Some (update_route v i r) else find (same_provider a b) (routes reg))" for a b
  proof (cases "(a, b) = (p, q)")
    case True
    have "find (same_provider p q) (update_first (same_provider p q) (update_route v i) (routes reg))
        = map_option (update_route v i) (find (same_provider p q) (routes reg))"
      by (rule find_update_first) (simp add: same_provider_key)
    with True show ?thesis by (simp add: update(1,3))
  next
    case False
    then show ?thesis by (auto simp: update(3) same_provider_key intro!: find_update_first_other)
  qed
  then show ?thesis
    using update(1) by (auto simp: provider_def fun_eq_iff r_version_update split: option.splits)
next
  case add
  have "find (same_provider a b) (routes reg') =
      (if (a, b) = (p, q) then Some (new_route p v q i) else find (same_provider a b) (routes reg))" for a b
    using assms(3,4) by (auto simp: add(4) same_provider_key new_route_key)
  then show ?thesis
    using add(1) by (auto simp: provider_def fun_eq_iff new_route_def split: option.splits)
qed simp

definition reg_put :: "registry \<Rightarrow> string \<times> string \<Rightarrow> string \<times> nat \<Rightarrow> registry" where
  "reg_put reg k e = fst (snd (hw_metaproto_register True reg (Some (fst k)) (Some (fst e)) (Some (snd k)) (snd e)))"

lemma reg_put_register:
  "m_initialized reg \<Longrightarrow>
   \<exists>evs. hw_metaproto_register True reg (Some p) (Some v) (Some q) i = (HWRUN_OK, reg_put reg (p, q) (v, i), evs)
     \<and> m_initialized (reg_put reg (p, q) (v, i))"
  by (auto simp: reg_put_def hw_metaproto_register_def Let_def split: option.splits)

interpretation registry: kv_store "\<lambda>reg. reg_wf reg \<and> m_initialized reg"
    "\<lambda>_ k _. length (fst k) < 64 \<and> length (snd k) < 64" "\<lambda>k. k"
    "\<lambda>e. Some (cstr 16 (fst e), snd e)" provider reg_put
proof (unfold_locales, goal_cases)
  case (1 reg k e)
  then show ?case
    using reg_put_register [of reg "fst k" "fst e" "snd k" "snd e"] register_wf by fastforce
next
  case (2 reg k e)
  then show ?case
    using reg_put_register [of reg "fst k" "fst e" "snd k" "snd e"] register_provider by fastforce
qed

text \<open>Unregistering one provider by name and plugin.\<close>

lemma unregister_eq:
  "hw_metaproto_unregister reg (Some p) (Some q) =
     (case find (same_provider p q) (routes reg) of
        None \<Rightarrow> (ENOENT, reg, [])
      | Some r \<Rightarrow>
          (let reg' = reg\<lparr>routes := remove_first (same_provider p q) (routes reg)\<rparr> in
           (HWRUN_OK, reg',
            hw_metaproto_notify reg' (cstr 64 (r_protocol r)) (cstr 16 (r_version r))
              (cstr 64 (r_plugin_id r)) STATE_REMOVED)))"
  by (simp add: hw_metaproto_unregister_def Let_def same_provider_def [abs_def] split: option.splits)

lemma unregister_provider:
  assumes "reg_wf reg" and "hw_metaproto_unregister reg (Some p) (Some q) = (rc, reg', evs)"
  shows "reg_wf reg'" and "provider reg' = (provider reg)((p, q) := None)"
    and "m_initialized reg' = m_initialized reg" and "subscribers reg' = subscribers reg"
    and "rc = (if provider reg (p, q) = None then ENOENT else HWRUN_OK)"
proof -
  have d: "distinct (map route_key (routes reg))" using assms(1) by (simp add: reg_wf_def)
  have rm: "remove_first (same_provider p q) (routes reg) = filter (\<lambda>r. route_key r \<noteq> (p, q)) (routes reg)"
    by (rule remove_first_distinct [OF d]) (simp add: same_provider_key)
  have rts: "routes reg' = filter (\<lambda>r. route_key r \<noteq> (p, q)) (routes reg)"
  proof (cases "find (same_provider p q) (routes reg)")
    case None
    then have "filter (\<lambda>r. route_key r \<noteq> (p, q)) (routes reg) = routes reg"
      by (auto simp: find_None same_provider_key intro: filter_True)
    with None assms(2) show ?thesis by (simp add: unregister_eq)
  next
    case (Some r)
    with assms(2) show ?thesis by (auto simp: unregister_eq Let_def rm)
  qed
  have fnd: "find (same_provider a b) (filter (\<lambda>r. route_key r \<noteq> (p, q)) xs) =
      (if (a, b) = (p, q) then None else find (same_provider a b) xs)" for a b xs
    by (induction xs) (auto simp: same_provider_key)
  show "reg_wf reg'" using assms(1) by (simp add: reg_wf_def rts distinct_map_filter)
  show "provider reg' = (provider reg)((p, q) := None)"
    by (auto simp: provider_def rts fnd)
  show "m_initialized reg' = m_initialized reg" "subscribers reg' = subscribers reg"
    using assms(2) by (auto simp: unregister_eq Let_def split: option.splits)
  show "rc = (if provider reg (p, q) = None then ENOENT else HWRUN_OK)"
    using assms(2) by (auto simp: unregister_eq provider_def Let_def split: option.splits)
qed

lemma register_keeps:
  assumes "hw_metaproto_register ok reg p v q i = (rc, reg', evs)"
  shows "m_initialized reg' = m_initialized reg" and "subscribers reg' = subscribers reg"
  using assms by (auto simp: hw_metaproto_register_def Let_def split: option.splits bool.splits if_splits)

lemma register_fails:
  assumes "m_initialized reg" "hw_metaproto_register ok reg (Some p) v (Some q) i = (rc, reg', evs)" "rc \<noteq> HWRUN_OK"
  shows "rc = ENOMEM" and "\<not> ok" and "reg' = reg" and "evs = []" and "provider reg (p, q) = None"
  using assms(1,2) by (cases rule: register_cases; use assms(3) in \<open>simp add: provider_def\<close>)+

section \<open>Properties\<close>

text \<open>
  A provider of version x.y.z serves a request for x'.y'.z' exactly when the majors agree and
  (y, z) is lexicographically at least (y', z').
\<close>

theorem version_compat_semver:
  assumes "a < 2 ^ 63" "b < 2 ^ 63" "c < 2 ^ 63" "a' < 2 ^ 63" "b' < 2 ^ 63" "c' < 2 ^ 63"
  shows "hw_proto_version_compat (Some (version3 a b c)) (Some (version3 a' b' c')) \<longleftrightarrow>
           a = a' \<and> (b' < b \<or> b' = b \<and> c' \<le> c)"
  using assms by (auto simp: compat_iff version_segments_version3)

theorem version_compat_semver_witness:
  "hw_proto_version_compat (Some (version3 1 3 0)) (Some (version3 1 2 9)) \<and>
   \<not> hw_proto_version_compat (Some (version3 2 0 0)) (Some (version3 1 9 0))"
  using version_compat_semver [of 1 3 0 1 2 9] version_compat_semver [of 2 0 0 1 9 0] by simp

text \<open>
  Compatibility of arbitrary version strings is transitive, a version is compatible with itself
  exactly when its first segment is a number, and the comparison of two versions is antisymmetric.
\<close>

theorem version_order_laws:
  "(hw_proto_version_compat (Some u) (Some v) \<and> hw_proto_version_compat (Some v) (Some w) \<longrightarrow>
      hw_proto_version_compat (Some u) (Some w)) \<and>
   (hw_proto_version_compat (Some u) (Some u) \<longleftrightarrow> fst (version_segments (Some u)) \<noteq> 0) \<and>
   hw_proto_version_cmp (Some v) (Some u) = - hw_proto_version_cmp (Some u) (Some v)"
  by (auto simp: compat_iff hw_proto_version_cmp_def version_cmp_loop_swap [of u v] split: prod.splits)

theorem version_order_laws_witness:
  "hw_proto_version_compat (Some ''1.5'') (Some ''1.0'') \<and>
   hw_proto_version_cmp (Some ''1.0'') (Some ''1.5'') = - 1"
proof -
  have "hw_proto_version_compat (Some ''1.5'') (Some ''1.3'')"
    "hw_proto_version_compat (Some ''1.3'') (Some ''1.0'')"
    "hw_proto_version_cmp (Some ''1.5'') (Some ''1.0'') = 1" by code_simp+
  then show ?thesis using version_order_laws [of "''1.5''" "''1.3''" "''1.0''"]
      version_order_laws [of "''1.5''" "''1.0''" "''1.0''"] by simp
qed

text \<open>
  C22. Registering a provider whose names fit their buffers keeps the registry well formed (no two
  routes for the same protocol and plugin).  It either fails for lack of memory and changes nothing,
  or changes exactly that provider's entry and tells the matching subscribers: a hot swap as CHANGED,
  a new provider as REGISTERED.
\<close>

theorem metaproto_register_correct:
  assumes "reg_wf reg" "m_initialized reg" "length p < 64" "length q < 64"
    and "hw_metaproto_register ok reg (Some p) v (Some q) i = (rc, reg', evs)"
  shows "reg_wf reg' \<and>
    (if provider reg (p, q) = None \<and> \<not> ok then rc = ENOMEM \<and> reg' = reg \<and> evs = []
     else rc = HWRUN_OK \<and>
       (let ver = (case v of Some w \<Rightarrow> cstr 16 w
                   | None \<Rightarrow> (case provider reg (p, q) of Some (w, _) \<Rightarrow> w | None \<Rightarrow> ''1.0'')) in
        provider reg' = (provider reg)((p, q) \<mapsto> (ver, i)) \<and>
        evs = map (\<lambda>s. Notified (s_callback s) p ver q
                    (if provider reg (p, q) = None then STATE_REGISTERED else STATE_CHANGED))
                (take 64 (filter (\<lambda>s. s_protocol s = [] \<or> s_protocol s = p) (subscribers reg)))))"
proof -
  note wf = register_wf [OF assms] and pr = register_provider [OF assms(1-4)]
  have fnd: "find (same_provider p q) (routes reg) = None \<longleftrightarrow> provider reg (p, q) = None"
    by (simp add: provider_def)
  from assms(2,5) show ?thesis
  proof (cases rule: register_cases)
    case (update r)
    have "r \<in> set (routes reg)" "r_protocol r = p"
      using find_SomeD [OF update(1)] by (auto simp: same_provider_def)
    then have "length (r_version r) < 16" using assms(1) by (auto simp: reg_wf_def)
    moreover have "provider reg (p, q) = Some (r_version r, r_implementation r)"
      using update(1) by (simp add: provider_def)
    ultimately show ?thesis
      using wf pr assms(3,5) update \<open>r_protocol r = p\<close>
      by (auto simp: hw_metaproto_notify_def cstr_simps r_version_update Let_def split: option.splits)
  next
    case add
    have "provider reg (p, q) = None" using add(1) fnd by simp
    then show ?thesis
      using wf pr assms(3,5) add
      by (auto simp: hw_metaproto_notify_def cstr_simps new_route_def Let_def split: option.splits)
  next
    case nomem
    then show ?thesis using wf fnd by simp
  qed
qed

theorem metaproto_register_correct_witness:
  "provider (reg_put (snd (hw_metaproto_init None)) (''NP'', ''np'') (''1.2'', 5)) (''NP'', ''np'') = Some (''1.2'', 5)"
proof -
  let ?r0 = "snd (hw_metaproto_init None)"
  have w: "reg_wf ?r0" "m_initialized ?r0" by code_simp+
  obtain evs where "hw_metaproto_register True ?r0 (Some ''NP'') (Some ''1.2'') (Some ''np'') 5 =
      (HWRUN_OK, reg_put ?r0 (''NP'', ''np'') (''1.2'', 5), evs)"
    using reg_put_register [OF w(2)] by blast
  from metaproto_register_correct [OF w _ _ this] show ?thesis
    by (simp add: cstr_simps Let_def)
qed

text \<open>
  A new provider is found first: resolving the protocol with any requirement its version meets
  returns it, and unregistering it restores the registry it was added to.
\<close>

theorem metaproto_register_resolve_unregister:
  assumes "m_initialized reg" "length p < 64" "length q < 64" "provider reg (p, q) = None"
    and "hw_metaproto_register True reg (Some p) (Some v) (Some q) i = (rc, reg', evs)"
    and "req = None \<or> req = Some [] \<or> hw_proto_version_compat (Some (cstr 16 v)) req"
  shows "rc = HWRUN_OK \<and>
    hw_metaproto_resolve reg' (Some p) req = (HWRUN_OK, Some (new_route p (Some v) q i)) \<and>
    (\<exists>evs'. hw_metaproto_unregister reg' (Some p) (Some q) = (HWRUN_OK, reg, evs'))"
  using assms(1,5)
proof (cases rule: register_cases)
  case (update r)
  with assms(4) show ?thesis by (simp add: provider_def)
next
  case add
  have "r_protocol (new_route p (Some v) q i) = p" "r_plugin_id (new_route p (Some v) q i) = q"
    "r_version (new_route p (Some v) q i) = cstr 16 v"
    using assms(2,3) by (simp_all add: new_route_def cstr_simps)
  then show ?thesis
    using add assms(6)
    by (auto simp: hw_metaproto_resolve_def hw_metaproto_unregister_def Let_def split: option.splits)
qed simp

theorem metaproto_register_resolve_unregister_witness:
  "fst (hw_metaproto_resolve (reg_put (snd (hw_metaproto_init None)) (''NP'', ''np'') (''1.2'', 5))
     (Some ''NP'') (Some ''1.1'')) = HWRUN_OK"
proof -
  let ?r0 = "snd (hw_metaproto_init None)"
  have w: "m_initialized ?r0" "provider ?r0 (''NP'', ''np'') = None" by code_simp+
  obtain evs where r: "hw_metaproto_register True ?r0 (Some ''NP'') (Some ''1.2'') (Some ''np'') 5 =
      (HWRUN_OK, reg_put ?r0 (''NP'', ''np'') (''1.2'', 5), evs)"
    using reg_put_register [OF w(1)] by blast
  have "hw_proto_version_compat (Some (cstr 16 ''1.2'')) (Some ''1.1'')" by code_simp
  with metaproto_register_resolve_unregister [OF w(1) _ _ w(2) r, of "Some ''1.1''"] show ?thesis by simp
qed

text \<open>
  The dependency check succeeds exactly when every required protocol resolves; otherwise it
  reports the first one that does not.
\<close>

lemma check_deps_loop_cases:
  "check_deps_loop reg (Some cap) qs out = (rc, out') \<Longrightarrow> 0 < cap \<Longrightarrow>
   (rc = HWRUN_OK \<and> out' = out \<and> (\<forall>q \<in> set qs. \<exists>r \<in> set (routes reg). r_protocol r = q)) \<or>
   (rc = ENOENT \<and> (\<exists>as q bs. qs = as @ q # bs \<and> out' = Some (cstr cap q) \<and>
      (\<forall>r \<in> set (routes reg). r_protocol r \<noteq> q) \<and>
      (\<forall>a \<in> set as. \<exists>r \<in> set (routes reg). r_protocol r = a)))"
proof (induction qs arbitrary: out)
  case (Cons q qs)
  show ?case
  proof (cases "find (\<lambda>r. r_protocol r = q) (routes reg)")
    case None
    with Cons.prems show ?thesis
      by (intro disjI2 conjI exI [of _ "[]"] exI [of _ q] exI [of _ qs]) (auto simp: find_None)
  next
    case (Some r)
    then have r: "\<exists>r \<in> set (routes reg). r_protocol r = q" by (auto dest: find_SomeD)
    from Cons.IH [of out] Cons.prems Some consider
      "rc = HWRUN_OK" "out' = out" "\<forall>q \<in> set qs. \<exists>r \<in> set (routes reg). r_protocol r = q"
      | as p bs where "rc = ENOENT" "qs = as @ p # bs" "out' = Some (cstr cap p)"
        "\<forall>r \<in> set (routes reg). r_protocol r \<noteq> p" "\<forall>a \<in> set as. \<exists>r \<in> set (routes reg). r_protocol r = a"
      by auto
    then show ?thesis
    proof cases
      case 1
      with r show ?thesis by simp
    next
      case 2
      with r show ?thesis by (intro disjI2 conjI exI [of _ "q # as"] exI [of _ p] exI [of _ bs]) auto
    qed
  qed
qed simp

theorem metaproto_check_deps_correct:
  assumes "hw_metaproto_check_deps reg (Some qs) (int (length qs)) (Some cap) = (rc, out)" and "0 < cap"
  shows "(rc = HWRUN_OK \<and> out = Some [] \<and> (\<forall>q \<in> set qs. fst (hw_metaproto_resolve reg (Some q) None) = HWRUN_OK)) \<or>
    (rc = ENOENT \<and> (\<exists>as q bs. qs = as @ q # bs \<and> out = Some (cstr cap q) \<and>
       fst (hw_metaproto_resolve reg (Some q) None) = ENOENT \<and>
       (\<forall>a \<in> set as. fst (hw_metaproto_resolve reg (Some a) None) = HWRUN_OK)))"
proof -
  have res: "fst (hw_metaproto_resolve reg (Some q) None) =
      (if \<exists>r \<in> set (routes reg). r_protocol r = q then HWRUN_OK else ENOENT)" for q
    by (auto simp: hw_metaproto_resolve_def find_None split: option.splits dest: find_SomeD)
  have "check_deps_loop reg (Some cap) qs (Some []) = (rc, out)"
    using assms by (simp add: hw_metaproto_check_deps_def)
  from check_deps_loop_cases [OF this assms(2)] show ?thesis
    unfolding res by (elim disjE conjE exE) auto
qed

theorem metaproto_check_deps_correct_witness:
  "hw_metaproto_check_deps (snd (hw_metaproto_init None)) (Some [''BUS'']) 1 (Some 64) = (ENOENT, Some ''BUS'')"
proof -
  have e: "hw_metaproto_check_deps (snd (hw_metaproto_init None)) (Some [''BUS'']) (int (length [''BUS'']))
      (Some 64) = (ENOENT, Some ''BUS'')" by code_simp
  from metaproto_check_deps_correct [OF e] e show ?thesis by simp
qed

text \<open>
  A protocol name of 64 characters or more is stored truncated but looked up whole: registering it
  succeeds every time, adds one more route each time, and the protocol still does not resolve.
\<close>

theorem metaproto_long_name_unreachable:
  assumes "reg_wf reg" "m_initialized reg" "64 \<le> length p"
    and "hw_metaproto_register True reg (Some p) v (Some q) i = (rc, reg', evs)"
  shows "rc = HWRUN_OK \<and> length (routes reg') = Suc (length (routes reg)) \<and>
    hw_metaproto_resolve reg' (Some p) req = (ENOENT, None)"
proof -
  have short: "r_protocol r \<noteq> p" if "r \<in> set (routes reg)" for r
    using assms(1,3) that by (auto simp: reg_wf_def)
  have new: "r_protocol (new_route p v q i) \<noteq> p"
    using assms(3) length_cstr_less [of 64 p] by (auto simp: new_route_def dest!: arg_cong [where f = length])
  have "find (same_provider p q) (routes reg) = None"
    using short by (auto simp: find_None same_provider_def)
  with assms(2,4) have "rc = HWRUN_OK" "routes reg' = new_route p v q i # routes reg"
    by (auto simp: hw_metaproto_register_def Let_def)
  with short new show ?thesis
    by (auto simp: hw_metaproto_resolve_def find_None split: option.splits dest!: find_SomeD)
qed

theorem metaproto_long_name_unreachable_witness:
  "fst (hw_metaproto_resolve (reg_put (snd (hw_metaproto_init None)) (replicate 64 (CHR ''x''), ''np'') (''1.0'', 5))
     (Some (replicate 64 (CHR ''x''))) None) = ENOENT"
proof -
  let ?r0 = "snd (hw_metaproto_init None)"
  have w: "reg_wf ?r0" "m_initialized ?r0" by code_simp+
  obtain evs where r: "hw_metaproto_register True ?r0 (Some (replicate 64 (CHR ''x''))) (Some ''1.0'') (Some ''np'') 5 =
      (HWRUN_OK, reg_put ?r0 (replicate 64 (CHR ''x''), ''np'') (''1.0'', 5), evs)"
    using reg_put_register [OF w(2)] by blast
  from metaproto_long_name_unreachable [OF w _ r] show ?thesis by simp
qed

text \<open>
  A plugin that already listens to one protocol cannot subscribe to all of them: the call succeeds
  but only replaces the callback of the earlier subscription, so changes of other protocols are not
  delivered to it.
\<close>

theorem metaproto_wildcard_replaces:
  assumes "find (\<lambda>s. s_plugin_id s = pid) (subscribers reg) = Some s" and "s_protocol s \<noteq> []"
    and "s_protocol s \<noteq> other" and "\<forall>s \<in> set (subscribers reg). s_callback s \<noteq> f"
  shows "\<exists>reg'. hw_metaproto_subscribe ok reg (Some pid) None (Some f) = (HWRUN_OK, reg') \<and>
    (\<forall>ver q st. Notified f other ver q st \<notin> set (hw_metaproto_notify reg' other ver q st))"
proof -
  let ?hit = "\<lambda>s. s_plugin_id s = pid" and ?f = "\<lambda>s. s\<lparr>s_callback := f\<rparr>"
  let ?reg' = "reg\<lparr>subscribers := update_first ?hit ?f (subscribers reg)\<rparr>"
  have sub: "hw_metaproto_subscribe ok reg (Some pid) None (Some f) = (HWRUN_OK, ?reg')"
    using assms(1) by (simp add: hw_metaproto_subscribe_def Let_def)
  have "s_protocol x = s_protocol s" if "x \<in> set (subscribers ?reg')" "s_callback x = f" for x
  proof -
    have "x \<in> set (subscribers reg) \<or> x = ?f s"
      using set_update_first_find [of x ?hit ?f "subscribers reg"] that(1) assms(1) by auto
    moreover have "x \<notin> set (subscribers reg)" using that(2) assms(4) by blast
    ultimately have "s_protocol x = s_protocol (?f s)" by blast
    then show ?thesis by simp
  qed
  with assms(2,3) have "Notified f other ver q st \<notin> set (hw_metaproto_notify ?reg' other ver q st)" for ver q st
    by (auto simp: hw_metaproto_notify_def dest!: in_set_takeD)
  with sub show ?thesis by blast
qed

theorem metaproto_wildcard_replaces_witness:
  "\<exists>reg'. hw_metaproto_subscribe True
     (snd (hw_metaproto_subscribe True (snd (hw_metaproto_init None)) (Some ''p'') (Some ''NP'') (Some 1)))
     (Some ''p'') None (Some 2) = (HWRUN_OK, reg') \<and>
   (\<forall>ver q st. Notified 2 ''BUS'' ver q st \<notin> set (hw_metaproto_notify reg' ''BUS'' ver q st))"
proof -
  let ?reg = "snd (hw_metaproto_subscribe True (snd (hw_metaproto_init None)) (Some ''p'') (Some ''NP'') (Some 1))"
  have "find (\<lambda>s. s_plugin_id s = ''p'') (subscribers ?reg) =
      Some \<lparr>s_plugin_id = ''p'', s_protocol = ''NP'', s_callback = 1\<rparr>"
    "\<forall>s \<in> set (subscribers ?reg). s_callback s \<noteq> 2" by code_simp+
  from metaproto_wildcard_replaces [OF this(1) _ _ this(2)] show ?thesis by simp
qed

end
