(* ===== verification/Yml.thy ===== *)
theory Yml
  imports HwRun
begin

text \<open>
  The \<^verbatim>\<open>plugin.yml\<close> parser, \<^verbatim>\<open>bus/src/yml.c\<close>: the names of the plugin types and the indentation-aware
  state machine that fills a plugin description line by line.

  The strings the parser duplicates are assumed to be allocated.
\<close>

section \<open>Plugin types\<close>

datatype hwplugin_type =
    TYPE_KERNEL
  | TYPE_LIBC
  | TYPE_INIT
  | TYPE_FS
  | TYPE_NETWORK
  | TYPE_SECURITY
  | TYPE_STORAGE
  | TYPE_LOGGING
  | TYPE_SCHEDULER
  | TYPE_GIT
  | TYPE_LOADER
  | TYPE_UI
  | TYPE_TOOLS
  | TYPE_MANAGEMENT
  | TYPE_DRIVER
  | TYPE_CONTAINER
  | TYPE_CRYPTO
  | TYPE_SERVICE
  | TYPE_UNKNOWN

definition hw_type_from_str :: "string option \<Rightarrow> hwplugin_type" where
  "hw_type_from_str s =
     (if s = None then TYPE_UNKNOWN
      else if hw_str_eq s (Some ''kernel'') then TYPE_KERNEL
      else if hw_str_eq s (Some ''libc'') then TYPE_LIBC
      else if hw_str_eq s (Some ''init'') then TYPE_INIT
      else if hw_str_eq s (Some ''fs'') then TYPE_FS
      else if hw_str_eq s (Some ''network'') then TYPE_NETWORK
      else if hw_str_eq s (Some ''security'') then TYPE_SECURITY
      else if hw_str_eq s (Some ''storage'') then TYPE_STORAGE
      else if hw_str_eq s (Some ''logging'') then TYPE_LOGGING
      else if hw_str_eq s (Some ''scheduler'') then TYPE_SCHEDULER
      else if hw_str_eq s (Some ''git'') then TYPE_GIT
      else if hw_str_eq s (Some ''loader'') then TYPE_LOADER
      else if hw_str_eq s (Some ''ui'') then TYPE_UI
      else if hw_str_eq s (Some ''tools'') then TYPE_TOOLS
      else if hw_str_eq s (Some ''management'') then TYPE_MANAGEMENT
      else if hw_str_eq s (Some ''driver'') then TYPE_DRIVER
      else if hw_str_eq s (Some ''container'') then TYPE_CONTAINER
      else if hw_str_eq s (Some ''crypto'') then TYPE_CRYPTO
      else if hw_str_eq s (Some ''application'') then TYPE_MANAGEMENT
      else TYPE_UNKNOWN)"

fun hw_type_to_str :: "hwplugin_type \<Rightarrow> string" where
  "hw_type_to_str TYPE_KERNEL = ''kernel''"
| "hw_type_to_str TYPE_LIBC = ''libc''"
| "hw_type_to_str TYPE_INIT = ''init''"
| "hw_type_to_str TYPE_FS = ''fs''"
| "hw_type_to_str TYPE_NETWORK = ''network''"
| "hw_type_to_str TYPE_SECURITY = ''security''"
| "hw_type_to_str TYPE_STORAGE = ''storage''"
| "hw_type_to_str TYPE_LOGGING = ''logging''"
| "hw_type_to_str TYPE_SCHEDULER = ''scheduler''"
| "hw_type_to_str TYPE_GIT = ''git''"
| "hw_type_to_str TYPE_LOADER = ''loader''"
| "hw_type_to_str TYPE_UI = ''ui''"
| "hw_type_to_str TYPE_TOOLS = ''tools''"
| "hw_type_to_str TYPE_MANAGEMENT = ''management''"
| "hw_type_to_str TYPE_DRIVER = ''driver''"
| "hw_type_to_str TYPE_CONTAINER = ''container''"
| "hw_type_to_str TYPE_CRYPTO = ''crypto''"
| "hw_type_to_str _ = ''unknown''"

section \<open>The description of a plugin\<close>

record discovery =
  y_id :: string
  y_name :: string
  y_version :: string
  y_type :: string
  y_description :: string
  y_repo :: string
  y_branch :: string
  y_tag :: string
  y_license :: string
  y_author :: string
  y_url :: string
  y_pre_install :: string
  y_post_install :: string
  y_pre_uninstall :: string
  y_post_uninstall :: string
  y_provides :: "string list"
  y_requires :: "string list"
  y_conflicts :: "string list"
  y_files :: "string list"
  y_size :: nat

definition discovery0 :: discovery where
  "discovery0 =
     \<lparr>y_id = [], y_name = [], y_version = [], y_type = [], y_description = [],
      y_repo = [], y_branch = [], y_tag = [], y_license = [], y_author = [],
      y_url = [], y_pre_install = [], y_post_install = [], y_pre_uninstall = [], y_post_uninstall = [],
      y_provides = [], y_requires = [], y_conflicts = [], y_files = [], y_size = 0\<rparr>"

definition trim :: "string \<Rightarrow> string" where
  "trim s = trim_by isspace s"

definition unquote :: "string \<Rightarrow> string" where
  "unquote s =
     (let n = length s in
      if 2 \<le> n \<and> ((s ! 0 = CHR 0x22 \<and> s ! (n - 1) = CHR 0x22) \<or> (s ! 0 = CHR 0x27 \<and> s ! (n - 1) = CHR 0x27))
      then tl (take (n - 1) s) else s)"

definition set_str :: "nat \<Rightarrow> string \<Rightarrow> string" where
  "set_str cap val = cstr cap (unquote (trim val))"

definition add_str :: "nat \<Rightarrow> string list \<Rightarrow> string \<Rightarrow> rc \<times> string list" where
  "add_str arr_max arr val =
     (if length arr \<ge> arr_max then (ENOMEM, arr)
      else let v = unquote (trim val) in
        if v = [] then (HWRUN_OK, arr) else (HWRUN_OK, arr @ [v]))"

definition set_top_field :: "discovery \<Rightarrow> string \<Rightarrow> string \<Rightarrow> discovery" where
  "set_top_field d key val =
     (if key = ''id'' then d\<lparr>y_id := set_str 64 val\<rparr>
      else if key = ''name'' then d\<lparr>y_name := set_str 128 val\<rparr>
      else if key = ''version'' then d\<lparr>y_version := set_str 32 val\<rparr>
      else if key = ''type'' then d\<lparr>y_type := set_str 32 val\<rparr>
      else if key = ''description'' then d\<lparr>y_description := set_str 256 val\<rparr>
      else if key = ''repo'' then d\<lparr>y_repo := set_str 256 val\<rparr>
      else if key = ''branch'' then d\<lparr>y_branch := set_str 64 val\<rparr>
      else if key = ''tag'' then d\<lparr>y_tag := set_str 64 val\<rparr>
      else if key = ''license'' then d\<lparr>y_license := set_str 32 val\<rparr>
      else if key = ''author'' then d\<lparr>y_author := set_str 128 val\<rparr>
      else if key = ''url'' then d\<lparr>y_url := set_str 256 val\<rparr>
      else if key = ''pre_install'' then d\<lparr>y_pre_install := set_str 128 val\<rparr>
      else if key = ''post_install'' then d\<lparr>y_post_install := set_str 128 val\<rparr>
      else if key = ''pre_uninstall'' then d\<lparr>y_pre_uninstall := set_str 128 val\<rparr>
      else if key = ''post_uninstall'' then d\<lparr>y_post_uninstall := set_str 128 val\<rparr>
      else if key = ''size'' then d\<lparr>y_size := fst (strtoull val)\<rparr>
      else d)"

definition is_proto_section :: "string \<Rightarrow> bool" where
  "is_proto_section s \<longleftrightarrow> s = ''provides'' \<or> s = ''requires'' \<or> s = ''conflicts'' \<or> s = ''files''"

section \<open>The parser\<close>

record yml_state =
  section_name :: string
  sec_indent :: int
  disc :: discovery

definition yml_init :: yml_state where
  "yml_init = \<lparr>section_name = [], sec_indent = - 1, disc = discovery0\<rparr>"

text \<open>The item of a list section goes to the array of that section.\<close>

definition add_to_section :: "string \<Rightarrow> string \<Rightarrow> discovery \<Rightarrow> discovery" where
  "add_to_section s val d =
     (if s = ''provides'' then d\<lparr>y_provides := snd (add_str 32 (y_provides d) val)\<rparr>
      else if s = ''requires'' then d\<lparr>y_requires := snd (add_str 32 (y_requires d) val)\<rparr>
      else if s = ''conflicts'' then d\<lparr>y_conflicts := snd (add_str 16 (y_conflicts d) val)\<rparr>
      else if s = ''files'' then d\<lparr>y_files := snd (add_str 64 (y_files d) val)\<rparr>
      else d)"

definition yml_list_item :: "yml_state \<Rightarrow> string \<Rightarrow> yml_state" where
  "yml_list_item st p =
     (if section_name st = [] then st
      else
        let v = tl p;
            v1 = (if v \<noteq> [] \<and> hd v = CHR '' '' then tl v else v);
            val = trim v1 in
        if val = [] then st
        else if is_proto_section (section_name st) then
          (case split_first (CHR '':'') val of
             (_, Some r) \<Rightarrow>
               (let proto = trim r in
                if proto = [] then st
                else st\<lparr>disc := add_to_section (section_name st) proto (disc st)\<rparr>)
           | (_, None) \<Rightarrow> st\<lparr>disc := add_to_section (section_name st) val (disc st)\<rparr>)
        else st)"

definition yml_key_line :: "yml_state \<Rightarrow> nat \<Rightarrow> bool \<Rightarrow> string \<Rightarrow> yml_state" where
  "yml_key_line st indent inside_child p =
     (case split_first (CHR '':'') p of
        (_, None) \<Rightarrow> st
      | (k, Some r) \<Rightarrow>
          (let key = trim k; val = trim r in
           if key = [] then st
           else if val = [] then
             (if key = ''plugin'' then st\<lparr>section_name := [], sec_indent := - 1\<rparr>
              else st\<lparr>section_name := cstr 64 key, sec_indent := int indent\<rparr>)
           else if key = ''conflicts'' \<and> val = ''[]'' then st\<lparr>section_name := [], sec_indent := - 1\<rparr>
           else if \<not> inside_child then st\<lparr>disc := set_top_field (disc st) key val\<rparr>
           else st))"

definition yml_line :: "yml_state \<Rightarrow> string \<Rightarrow> yml_state" where
  "yml_line st line =
     (let indent = length (takeWhile isblank line);
          p = rtrim (\<lambda>c. c = NL \<or> c = CR) (dropWhile isblank line);
          q = dropWhile isblank p in
      if q = [] \<or> hd q = CHR ''#'' then st
      else
        let inside_child = (section_name st \<noteq> [] \<and> int indent > sec_indent st) in
        if hd q = CHR ''-'' then yml_list_item st q
        else yml_key_line st indent inside_child q)"

definition hw_yml_parse_plugin :: "string option \<Rightarrow> rc \<times> discovery" where
  "hw_yml_parse_plugin content =
     (case content of
        None \<Rightarrow> (ENOENT, discovery0)
      | Some c \<Rightarrow> (HWRUN_OK, disc (foldl yml_line yml_init (fgets_all 1024 c))))"

section \<open>Invariant\<close>

definition item_ok :: "string \<Rightarrow> bool" where
  "item_ok s \<longleftrightarrow> s \<noteq> []"

definition discovery_wf :: "discovery \<Rightarrow> bool" where
  "discovery_wf d \<longleftrightarrow>
     length (y_id d) < 64 \<and> length (y_name d) < 128 \<and> length (y_version d) < 32 \<and> length (y_type d) < 32 \<and>
     length (y_description d) < 256 \<and> length (y_repo d) < 256 \<and> length (y_branch d) < 64 \<and> length (y_tag d) < 64 \<and>
     length (y_license d) < 32 \<and> length (y_author d) < 128 \<and> length (y_url d) < 256 \<and>
     length (y_pre_install d) < 128 \<and> length (y_post_install d) < 128 \<and>
     length (y_pre_uninstall d) < 128 \<and> length (y_post_uninstall d) < 128 \<and>
     length (y_provides d) \<le> 32 \<and> length (y_requires d) \<le> 32 \<and> length (y_conflicts d) \<le> 16 \<and> length (y_files d) \<le> 64 \<and>
     list_all item_ok (y_provides d) \<and> list_all item_ok (y_requires d) \<and>
     list_all item_ok (y_conflicts d) \<and> list_all item_ok (y_files d)"

lemma set_str_short: "0 < cap \<Longrightarrow> length (set_str cap v) < cap"
  by (simp add: set_str_def length_cstr_less)

lemma if_wf: "discovery_wf x \<Longrightarrow> discovery_wf y \<Longrightarrow> discovery_wf (if b then x else y)"
  by simp

lemma set_top_field_wf: "discovery_wf d \<Longrightarrow> discovery_wf (set_top_field d key val)"
  unfolding set_top_field_def
  by (intro if_wf) (simp_all add: discovery_wf_def set_str_short)

lemma add_str_wf:
  "length arr \<le> n \<Longrightarrow> list_all item_ok arr \<Longrightarrow>
     length (snd (add_str n arr v)) \<le> n \<and> list_all item_ok (snd (add_str n arr v))"
  by (simp add: add_str_def Let_def item_ok_def)

lemma add_to_section_wf: "discovery_wf d \<Longrightarrow> discovery_wf (add_to_section s val d)"
  unfolding add_to_section_def
  by (intro if_wf) (simp_all add: discovery_wf_def add_str_wf)

lemma yml_list_item_wf: "discovery_wf (disc st) \<Longrightarrow> discovery_wf (disc (yml_list_item st p))"
  unfolding yml_list_item_def Let_def
  by (simp add: add_to_section_wf split: prod.split option.split)

lemma yml_key_line_wf: "discovery_wf (disc st) \<Longrightarrow> discovery_wf (disc (yml_key_line st n b p))"
  unfolding yml_key_line_def Let_def
  by (simp add: set_top_field_wf split: prod.split option.split)

lemma yml_line_wf: "discovery_wf (disc st) \<Longrightarrow> discovery_wf (disc (yml_line st line))"
  unfolding yml_line_def Let_def
  by (simp only: yml_list_item_wf yml_key_line_wf if_True if_False split: if_split) simp

lemma yml_lines_wf: "discovery_wf (disc st) \<Longrightarrow> discovery_wf (disc (foldl yml_line st ls))"
  by (induction ls arbitrary: st) (auto simp: yml_line_wf)

text \<open>The scalar part of a description: what list items and their child keys must not touch.\<close>

definition scalars :: "discovery \<Rightarrow> discovery" where
  "scalars d = d\<lparr>y_provides := [], y_requires := [], y_conflicts := [], y_files := []\<rparr>"

lemma scalars_add_to_section [simp]: "scalars (add_to_section s v d) = scalars d"
  by (simp add: scalars_def add_to_section_def)

lemma scalars_list_item: "scalars (disc (yml_list_item st p)) = scalars (disc st)"
  by (auto simp: yml_list_item_def Let_def split: prod.splits option.splits)

lemma yml_list_item_section [simp]:
  "section_name (yml_list_item st p) = section_name st" "sec_indent (yml_list_item st p) = sec_indent st"
  by (auto simp: yml_list_item_def Let_def split: prod.splits option.splits)

section \<open>Properties\<close>

lemma yml_parse_wf: "discovery_wf (snd (hw_yml_parse_plugin content))"
proof -
  have d0: "discovery_wf discovery0" by (simp add: discovery_wf_def discovery0_def)
  show ?thesis
  proof (cases content)
    case None
    with d0 show ?thesis by (simp add: hw_yml_parse_plugin_def)
  next
    case (Some c)
    have "discovery_wf (disc yml_init)" using d0 by (simp add: yml_init_def)
    with Some show ?thesis by (simp add: hw_yml_parse_plugin_def yml_lines_wf)
  qed
qed

lemma yml_parse_bounded_id: "length (y_id (snd (hw_yml_parse_plugin content))) < 64"
  using yml_parse_wf [of content] by (simp add: discovery_wf_def)

text \<open>
  Whatever a plugin.yml contains, the description parsed from it respects every buffer and array
  bound, and no empty string enters one of its lists.
\<close>

theorem yml_parse_bounded: "discovery_wf (snd (hw_yml_parse_plugin content))"
  by (rule yml_parse_wf)

text \<open>A line inside a list section: an item, or a key with a value that is indented deeper than the
  section's header.\<close>

definition child_line :: "int \<Rightarrow> string \<Rightarrow> bool" where
  "child_line n line \<longleftrightarrow>
     (let q = dropWhile isblank (rtrim (\<lambda>c. c = NL \<or> c = CR) (dropWhile isblank line)) in
      q = [] \<or> hd q = CHR ''#'' \<or> hd q = CHR ''-'' \<or>
      n < int (length (takeWhile isblank line)) \<and>
        (case split_first (CHR '':'') q of
           (_, None) \<Rightarrow> True
         | (k, Some r) \<Rightarrow> trim k = [] \<or>
             trim r \<noteq> [] \<and> \<not> (trim k = ''conflicts'' \<and> trim r = ''[]'')))"

lemma child_line_step:
  assumes "section_name st \<noteq> []" "child_line (sec_indent st) line"
  shows "scalars (disc (yml_line st line)) = scalars (disc st) \<and>
    section_name (yml_line st line) = section_name st \<and> sec_indent (yml_line st line) = sec_indent st"
proof -
  let ?q = "dropWhile isblank (rtrim (\<lambda>c. c = NL \<or> c = CR) (dropWhile isblank line))"
  consider (skip) "?q = [] \<or> hd ?q = CHR ''#''" | (item) "?q \<noteq> []" "hd ?q \<noteq> CHR ''#''" "hd ?q = CHR ''-''"
    | (key) "?q \<noteq> []" "hd ?q \<noteq> CHR ''#''" "hd ?q \<noteq> CHR ''-''" by blast
  then show ?thesis
  proof cases
    case skip
    then show ?thesis unfolding yml_line_def Let_def by (simp only: if_True simp_thms)
  next
    case item
    then have "yml_line st line = yml_list_item st ?q"
      unfolding yml_line_def Let_def by (simp only: if_False if_True simp_thms)
    then show ?thesis by (simp only: scalars_list_item yml_list_item_section simp_thms)
  next
    case key
    obtain k r where kr: "split_first (CHR '':'') ?q = (k, r)" by force
    from key have "yml_line st line =
        yml_key_line st (length (takeWhile isblank line))
          (section_name st \<noteq> [] \<and> sec_indent st < int (length (takeWhile isblank line))) ?q"
      unfolding yml_line_def Let_def by (simp only: if_False simp_thms)
    moreover have "r = None \<or> trim k = [] \<or> (\<exists>s. r = Some s \<and> trim s \<noteq> [] \<and>
        \<not> (trim k = ''conflicts'' \<and> trim s = ''[]''))"
      and "sec_indent st < int (length (takeWhile isblank line))"
      using assms(2) key kr unfolding child_line_def Let_def by (auto split: option.splits)
    ultimately show ?thesis
      using assms(1) kr by (auto simp: yml_key_line_def Let_def split: option.splits)
  qed
qed

text \<open>
  The items of a list section, and the keys with a value below them, never change a scalar field of
  the description (its version, type, description and so on), and the parser stays in the section.
\<close>

theorem yml_children_keep_scalars:
  assumes "section_name st \<noteq> []" and "\<forall>l \<in> set ls. child_line (sec_indent st) l"
  shows "scalars (disc (foldl yml_line st ls)) = scalars (disc st) \<and>
    section_name (foldl yml_line st ls) = section_name st"
  using assms
proof (induction ls arbitrary: st)
  case (Cons l ls)
  then show ?case using child_line_step [of st l] by simp
qed simp

theorem yml_children_keep_scalars_witness:
  "scalars (disc (foldl yml_line
      \<lparr>section_name = ''provides'', sec_indent = 2, disc = discovery0\<lparr>y_version := ''2.0''\<rparr>\<rparr>
      [''    - protocol: NP'', ''      version: 1.0''])) = discovery0\<lparr>y_version := ''2.0''\<rparr>"
proof -
  let ?st = "\<lparr>section_name = ''provides'', sec_indent = 2, disc = discovery0\<lparr>y_version := ''2.0''\<rparr>\<rparr>"
  have "child_line 2 ''    - protocol: NP''" "child_line 2 ''      version: 1.0''" by code_simp+
  with yml_children_keep_scalars [of ?st "[''    - protocol: NP'', ''      version: 1.0'']"]
  show ?thesis by (simp add: scalars_def discovery0_def)
qed

text \<open>
  A child key without a value is taken for a section header of its own, and the next child key at
  the same depth is then taken for a top-level field: inside a list item, \<^verbatim>\<open>default:\<close> followed by
  \<^verbatim>\<open>type: v\<close> overwrites the type of the plugin.
\<close>

theorem yml_empty_child_key_overwrites:
  assumes "v \<noteq> []" and "\<forall>c \<in> set v. \<not> isspace c"
  shows "y_type (disc (yml_line (yml_line st (replicate i (CHR '' '') @ ''default:'' @ [NL]))
      (replicate i (CHR '' '') @ ''type: '' @ v @ [NL]))) = cstr 32 (unquote v)"
proof -
  have tw: "takeWhile isblank (replicate i (CHR '' '') @ c # s) = replicate i (CHR '' '')"
    and dw: "dropWhile isblank (replicate i (CHR '' '') @ c # s) = c # s" if "\<not> isblank c" for c s
    using that by (induction i) (auto simp: isblank_def)
  have last: "\<not> isspace (last v)" "last v \<noteq> NL" "last v \<noteq> CR"
    using assms by (auto simp: isspace_def)
  let ?st1 = "st\<lparr>section_name := ''default'', sec_indent := int i\<rparr>"
  have 1: "yml_line st (replicate i (CHR '' '') @ ''default:'' @ [NL]) = ?st1"
  proof -
    have "rtrim (\<lambda>c. c = NL \<or> c = CR) (''default:'' @ [NL]) = ''default:''" by code_simp
    moreover have "trim ''default'' = ''default''" by code_simp
    ultimately show ?thesis
      using tw [of "CHR ''d''" "''efault:'' @ [NL]"] dw [of "CHR ''d''" "''efault:'' @ [NL]"]
      by (simp add: yml_line_def Let_def isblank_def yml_key_line_def trim_def cstr_simps)
  qed
  have "rtrim (\<lambda>c. c = NL \<or> c = CR) (''type: '' @ v) = ''type: '' @ v"
    using assms(1) last by (intro rtrim_id) auto
  then have r: "rtrim (\<lambda>c. c = NL \<or> c = CR) ((''type: '' @ v) @ [NL]) = ''type: '' @ v"
    by (simp only: rtrim_snoc simp_thms if_True)
  have "trim ''type'' = ''type''" by code_simp
  moreover have tv: "trim v = v"
    using assms last unfolding trim_def by (intro trim_by_id) (cases v; auto)
  moreover have "trim (CHR '' '' # v) = v"
    using tv by (simp add: trim_def trim_by_def isspace_def)
  ultimately have "yml_line ?st1 (replicate i (CHR '' '') @ ''type: '' @ v @ [NL]) =
      ?st1\<lparr>disc := set_top_field (disc st) ''type'' v\<rparr>"
    using assms(1) r tw [of "CHR ''t''" "''ype: '' @ v @ [NL]"] dw [of "CHR ''t''" "''ype: '' @ v @ [NL]"]
    by (simp add: yml_line_def Let_def isblank_def yml_key_line_def)
  then show ?thesis
    using tv unfolding 1 by (simp add: set_top_field_def set_str_def)
qed

theorem yml_empty_child_key_overwrites_witness:
  "y_type (disc (yml_line (yml_line \<lparr>section_name = ''params'', sec_indent = 2, disc = discovery0\<lparr>y_type := ''fs''\<rparr>\<rparr>
      (''      default:'' @ [NL])) (''      type: bool'' @ [NL]))) = ''bool''"
proof -
  have "unquote ''bool'' = ''bool''" by code_simp
  moreover have "\<forall>c \<in> set ''bool''. \<not> isspace c" by code_simp
  moreover have "replicate 6 (CHR '' '') = ''      ''" by code_simp
  ultimately show ?thesis
    using yml_empty_child_key_overwrites [of "''bool''" _ 6] by (simp add: cstr_simps)
qed

text \<open>
  Naming a plugin type and parsing the name gives the type back, except for the type SERVICE, which
  has no name and is read back as UNKNOWN.
\<close>

theorem type_name_roundtrip:
  "hw_type_from_str (Some (hw_type_to_str t)) = (if t = TYPE_SERVICE then TYPE_UNKNOWN else t)"
  by (cases t) (simp_all add: hw_type_from_str_def)

end
