(* ===== verification/Kctl.thy ===== *)
theory Kctl
  imports Prelude
begin

text \<open>
  The kernel boundary: the module \<^verbatim>\<open>kernel/modules/hwrun_core.c\<close> behind \<^verbatim>\<open>/dev/hwrun\<close> and its client
  \<^verbatim>\<open>bus/src/kctl.c\<close>.

  What crosses the boundary are bytes: a descriptor is the 152 bytes of
  \<^verbatim>\<open>struct hwrun_protocol_desc\<close>, and the kernel reads a name as the bytes from the field's offset up
  to the first NUL, wherever that is.  \<^verbatim>\<open>linux/ioctl.h\<close> is not in the repository: the function that
  packs a request number is the argument \<open>ioc\<close> of the kernel side, and \<open>ioc = KCTL_IOC\<close> is the layout
  documented for it.
\<close>

unbundle bit_operations_syntax

section \<open>Bytes\<close>

abbreviation NUL :: char where "NUL \<equiv> CHR 0x00"

definition pad :: "nat \<Rightarrow> string \<Rightarrow> string" where
  "pad n s = take n (s @ replicate n NUL)"

definition le_bytes :: "nat \<Rightarrow> nat \<Rightarrow> string" where
  "le_bytes k n = map (\<lambda>i. char_of (n div 256 ^ i)) [0..<k]"

definition of_le :: "string \<Rightarrow> nat" where
  "of_le bs = foldr (\<lambda>c a. of_char c + 256 * a) bs 0"

text \<open>A C string that starts at an offset; \<^const>\<open>None\<close> when no NUL follows.\<close>

definition cstr_at :: "nat \<Rightarrow> string \<Rightarrow> string option" where
  "cstr_at off bs =
     (if NUL \<in> set (drop off bs) then Some (takeWhile (\<lambda>c. c \<noteq> NUL) (drop off bs)) else None)"

lemma length_pad [simp]: "length (pad n s) = n"
  by (simp add: pad_def)

lemma pad_short: "length s \<le> n \<Longrightarrow> pad n s = s @ replicate (n - length s) NUL"
  by (simp add: pad_def)

lemma length_le_bytes [simp]: "length (le_bytes k n) = k"
  by (simp add: le_bytes_def)

lemma of_le_le_bytes: "of_le (le_bytes k n) = n mod 256 ^ k"
proof -
  have "of_le (map (\<lambda>i. char_of (n div 256 ^ i)) [j..<j + k]) = n div 256 ^ j mod 256 ^ k" for j
  proof (induction k arbitrary: j)
    case 0
    then show ?case by (simp add: of_le_def)
  next
    case (Suc k)
    have "[j..<j + Suc k] = j # [Suc j..<Suc j + k]" by (simp add: upt_rec)
    then have "of_le (map (\<lambda>i. char_of (n div 256 ^ i)) [j..<j + Suc k])
        = n div 256 ^ j mod 256 + 256 * (n div 256 ^ Suc j mod 256 ^ k)"
      using Suc [of "Suc j"] by (simp add: of_le_def)
    also have "\<dots> = n div 256 ^ j mod 256 ^ Suc k"
      by (simp add: mod_mult2_eq [of _ 256 "256 ^ k"] div_mult2_eq [symmetric] mult.commute)
    finally show ?case .
  qed
  from this [of 0] show ?thesis by (simp add: le_bytes_def)
qed

text \<open>A padded field read back.\<close>

lemma cstr_at_field:
  assumes "length pre = off" "length s < n" "NUL \<notin> set s"
  shows "cstr_at off (pre @ pad n s @ post) = Some s"
proof -
  obtain m where m: "n - length s = Suc m" using assms(2) by (cases "n - length s") auto
  have "drop off (pre @ pad n s @ post) = s @ NUL # replicate m NUL @ post"
    using assms(1,2) by (simp add: pad_short m)
  moreover have "takeWhile (\<lambda>c. c \<noteq> NUL) (s @ NUL # replicate m NUL @ post) = s"
    using assms(3) by (auto simp: takeWhile_append2 takeWhile_tail)
  ultimately show ?thesis by (simp add: cstr_at_def)
qed

section \<open>Request numbers\<close>

type_synonym ioc = "32 word \<Rightarrow> 32 word \<Rightarrow> 32 word \<Rightarrow> 32 word \<Rightarrow> 32 word"

definition KCTL_IOC :: ioc where
  "KCTL_IOC dir type nr sz =
     (push_bit 30 dir OR push_bit 8 type) OR push_bit 0 nr OR push_bit 16 sz"

definition KCTL_IOC_GET_ABI :: "32 word" where "KCTL_IOC_GET_ABI = KCTL_IOC 2 0x48 0x00 4"
definition KCTL_IOC_PING :: "32 word" where "KCTL_IOC_PING = KCTL_IOC (2 OR 1) 0x48 0x01 4"
definition KCTL_IOC_PROTOCOL_REGISTER :: "32 word" where
  "KCTL_IOC_PROTOCOL_REGISTER = KCTL_IOC 1 0x48 0x10 (64 + 16 + 64 + 8)"
definition KCTL_IOC_PROTOCOL_UNREGISTER :: "32 word" where
  "KCTL_IOC_PROTOCOL_UNREGISTER = KCTL_IOC 1 0x48 0x11 (64 + 16 + 64 + 8)"
definition KCTL_IOC_PROTOCOL_RESOLVE :: "32 word" where
  "KCTL_IOC_PROTOCOL_RESOLVE = KCTL_IOC (2 OR 1) 0x48 0x12 (64 + 16 + 64 + 8)"

text \<open>The kernel's numbers: \<^verbatim>\<open>_IOR\<close>, \<^verbatim>\<open>_IOW\<close> and \<^verbatim>\<open>_IOWR\<close> are direction 2, 1 and 3.\<close>

definition HWRUN_IOC_GET_ABI :: "ioc \<Rightarrow> 32 word" where "HWRUN_IOC_GET_ABI ioc = ioc 2 0x48 0x00 4"
definition HWRUN_IOC_PING :: "ioc \<Rightarrow> 32 word" where "HWRUN_IOC_PING ioc = ioc 3 0x48 0x01 4"
definition HWRUN_IOC_PROTOCOL_REGISTER :: "ioc \<Rightarrow> 32 word" where
  "HWRUN_IOC_PROTOCOL_REGISTER ioc = ioc 1 0x48 0x10 152"
definition HWRUN_IOC_PROTOCOL_UNREGISTER :: "ioc \<Rightarrow> 32 word" where
  "HWRUN_IOC_PROTOCOL_UNREGISTER ioc = ioc 1 0x48 0x11 152"
definition HWRUN_IOC_PROTOCOL_RESOLVE :: "ioc \<Rightarrow> 32 word" where
  "HWRUN_IOC_PROTOCOL_RESOLVE ioc = ioc 3 0x48 0x12 152"

section \<open>The kernel's registry\<close>

record kproto =
  k_protocol :: string
  k_version :: string
  k_provider :: string
  k_implementation :: nat

definition hwrun_protocol_register ::
    "bool \<Rightarrow> kproto list \<Rightarrow> string option \<Rightarrow> string option \<Rightarrow> string option \<Rightarrow> nat \<Rightarrow> rc \<times> kproto list" where
  "hwrun_protocol_register ok ks protocol version provider implementation =
     (case (protocol, version, provider) of
        (Some p, Some v, Some q) \<Rightarrow>
          if p = [] \<or> q = [] then (EINVAL, ks)
          else if find (\<lambda>e. k_protocol e = p) ks \<noteq> None then (EEXIST, ks)
          else if \<not> ok then (ENOMEM, ks)
          else (0, ks @ [\<lparr>k_protocol = cstr 64 p, k_version = cstr 16 v, k_provider = cstr 64 q,
                          k_implementation = implementation\<rparr>])
      | _ \<Rightarrow> (EINVAL, ks))"

definition hwrun_protocol_unregister ::
    "kproto list \<Rightarrow> string option \<Rightarrow> string option \<Rightarrow> rc \<times> kproto list" where
  "hwrun_protocol_unregister ks protocol provider =
     (case (protocol, provider) of
        (Some p, Some q) \<Rightarrow>
          (let hit = (\<lambda>e. k_protocol e = p \<and> k_provider e = q) in
           if find hit ks = None then (ENOENT, ks) else (0, remove_first hit ks))
      | _ \<Rightarrow> (EINVAL, ks))"

text \<open>The version and provider buffers of the caller have the given sizes.\<close>

definition hwrun_protocol_resolve ::
    "kproto list \<Rightarrow> string option \<Rightarrow> nat \<Rightarrow> nat \<Rightarrow> rc \<times> (string \<times> string \<times> nat) option" where
  "hwrun_protocol_resolve ks protocol version_size provider_size =
     (case protocol of
        None \<Rightarrow> (EINVAL, None)
      | Some p \<Rightarrow>
          (case find (\<lambda>e. k_protocol e = p) ks of
             None \<Rightarrow> (ENOENT, None)
           | Some e \<Rightarrow>
               (0, Some (cstr version_size (k_version e), cstr provider_size (k_provider e),
                         k_implementation e))))"

section \<open>The device\<close>

text \<open>
  \<open>hwrun_ioctl\<close>: \<open>rd\<close> and \<open>wr\<close> say whether the user memory at the argument can be read and written,
  \<open>buf\<close> is its content.  The result is \<^const>\<open>None\<close> when the kernel reads a name past the end of the
  descriptor it copied.
\<close>

definition hwrun_ioctl ::
    "ioc \<Rightarrow> bool \<Rightarrow> bool \<Rightarrow> bool \<Rightarrow> kproto list \<Rightarrow> 32 word \<Rightarrow> string \<Rightarrow> (rc \<times> kproto list \<times> string) option" where
  "hwrun_ioctl ioc ok rd wr ks command buf =
     (if command = HWRUN_IOC_GET_ABI ioc then
        (if \<not> wr then Some (EFAULT, ks, buf) else Some (0, ks, le_bytes 4 1))
      else if command = HWRUN_IOC_PING ioc then
        (if \<not> rd then Some (EFAULT, ks, buf)
         else
           (let v = NOT (of_nat (of_le (take 4 buf)) :: 32 word) in
            if \<not> wr then Some (EFAULT, ks, buf) else Some (0, ks, le_bytes 4 (unat v))))
      else if command = HWRUN_IOC_PROTOCOL_REGISTER ioc then
        (if \<not> rd then Some (EFAULT, ks, buf)
         else
           (case (cstr_at 0 (take 152 buf), cstr_at 64 (take 152 buf), cstr_at 80 (take 152 buf)) of
              (Some p, Some v, Some q) \<Rightarrow>
                (case hwrun_protocol_register ok ks (Some p) (Some v) (Some q) 0 of
                   (rc, ks') \<Rightarrow> Some (rc, ks', buf))
            | _ \<Rightarrow> None))
      else if command = HWRUN_IOC_PROTOCOL_UNREGISTER ioc then
        (if \<not> rd then Some (EFAULT, ks, buf)
         else
           (case (cstr_at 0 (take 152 buf), cstr_at 80 (take 152 buf)) of
              (Some p, Some q) \<Rightarrow>
                (case hwrun_protocol_unregister ks (Some p) (Some q) of
                   (rc, ks') \<Rightarrow> Some (rc, ks', buf))
            | _ \<Rightarrow> None))
      else if command = HWRUN_IOC_PROTOCOL_RESOLVE ioc then
        (if \<not> rd then Some (EFAULT, ks, buf)
         else
           (case cstr_at 0 (take 152 buf) of
              None \<Rightarrow> None
            | Some p \<Rightarrow>
                (case hwrun_protocol_resolve ks (Some p) 16 64 of
                   (_, None) \<Rightarrow> Some (ENOENT, ks, buf)
                 | (_, Some (v, q, i)) \<Rightarrow>
                     if \<not> wr then Some (EFAULT, ks, buf)
                     else Some (0, ks,
                       replicate 64 NUL @ pad 16 (cstr 16 v) @ pad 64 (cstr 64 q) @ le_bytes 8 i))))
      else Some (ENOTTY, ks, buf))"

section \<open>The client\<close>

record kctl =
  fd :: int
  connected :: bool
  device :: string

record kctl_desc =
  d_protocol :: string
  d_version :: string
  d_provider :: string
  d_implementation :: nat

text \<open>\<open>dev\<close> is what the opened device does with a request: \<^verbatim>\<open>ioctl\<close> fails with \<^verbatim>\<open>errno\<close> set to the
  negated code the driver returns.\<close>

type_synonym 's dev = "'s \<Rightarrow> 32 word \<Rightarrow> string \<Rightarrow> (rc \<times> 's \<times> string) option"

definition hwrun_kctl_open_path :: "string option \<Rightarrow> int \<Rightarrow> rc \<times> kctl" where
  "hwrun_kctl_open_path path open_fd =
     (let p = (case path of None \<Rightarrow> ''/dev/hwrun'' | Some p \<Rightarrow> p);
          c = \<lparr>fd = - 1, connected = False, device = cstr 128 p\<rparr> in
      if open_fd < 0 then (ENOTREADY, c) else (HWRUN_OK, c\<lparr>fd := open_fd, connected := True\<rparr>))"

definition hwrun_kctl_open :: "int \<Rightarrow> rc \<times> kctl" where
  "hwrun_kctl_open open_fd = hwrun_kctl_open_path (Some ''/dev/hwrun'') open_fd"

definition hwrun_kctl_close :: "kctl \<Rightarrow> kctl" where
  "hwrun_kctl_close c = c\<lparr>fd := - 1, connected := False\<rparr>"

definition kctl_io :: "'s dev \<Rightarrow> kctl \<Rightarrow> 's \<Rightarrow> 32 word \<Rightarrow> string \<Rightarrow> (rc \<times> 's \<times> string) option" where
  "kctl_io dev c s req arg =
     (if fd c < 0 then Some (ENOTREADY, s, arg)
      else case dev s req arg of
        None \<Rightarrow> None
      | Some (rc, s', arg') \<Rightarrow> if rc \<noteq> 0 then Some (rc, s', arg') else Some (HWRUN_OK, s', arg'))"

definition hwrun_kctl_get_abi :: "'s dev \<Rightarrow> kctl \<Rightarrow> 's \<Rightarrow> (rc \<times> 's \<times> nat option) option" where
  "hwrun_kctl_get_abi dev c s =
     (case kctl_io dev c s KCTL_IOC_GET_ABI (le_bytes 4 0) of
        None \<Rightarrow> None
      | Some (rc, s', v) \<Rightarrow> Some (rc, s', if rc \<noteq> HWRUN_OK then None else Some (of_le v)))"

definition hwrun_kctl_ping :: "'s dev \<Rightarrow> kctl \<Rightarrow> 's \<Rightarrow> 32 word \<Rightarrow> (rc \<times> 's \<times> 32 word) option" where
  "hwrun_kctl_ping dev c s value =
     (case kctl_io dev c s KCTL_IOC_PING (le_bytes 4 (unat value)) of
        None \<Rightarrow> None
      | Some (rc, s', v) \<Rightarrow> Some (rc, s', if rc \<noteq> HWRUN_OK then value else of_nat (of_le v)))"

definition desc_bytes :: "string \<Rightarrow> string \<Rightarrow> string \<Rightarrow> nat \<Rightarrow> string" where
  "desc_bytes p v q i = pad 64 (cstr 64 p) @ pad 16 (cstr 16 v) @ pad 64 (cstr 64 q) @ le_bytes 8 i"

definition hwrun_kctl_protocol_register ::
    "'s dev \<Rightarrow> kctl \<Rightarrow> 's \<Rightarrow> string option \<Rightarrow> string option \<Rightarrow> string option \<Rightarrow> (rc \<times> 's) option" where
  "hwrun_kctl_protocol_register dev c s protocol version provider =
     (case (protocol, version, provider) of
        (Some p, Some v, Some q) \<Rightarrow>
          map_option (\<lambda>(rc, s', _). (rc, s'))
            (kctl_io dev c s KCTL_IOC_PROTOCOL_REGISTER (desc_bytes p v q 0))
      | _ \<Rightarrow> Some (EINVAL, s))"

definition hwrun_kctl_protocol_unregister ::
    "'s dev \<Rightarrow> kctl \<Rightarrow> 's \<Rightarrow> string option \<Rightarrow> string option \<Rightarrow> (rc \<times> 's) option" where
  "hwrun_kctl_protocol_unregister dev c s protocol provider =
     (case (protocol, provider) of
        (Some p, Some q) \<Rightarrow>
          map_option (\<lambda>(rc, s', _). (rc, s'))
            (kctl_io dev c s KCTL_IOC_PROTOCOL_UNREGISTER (desc_bytes p [] q 0))
      | _ \<Rightarrow> Some (EINVAL, s))"

text \<open>The fields of the descriptor the device wrote, each a C string in its own array.\<close>

definition desc_of :: "string \<Rightarrow> kctl_desc" where
  "desc_of bs =
     \<lparr>d_protocol = takeWhile (\<lambda>c. c \<noteq> NUL) (take 64 bs),
      d_version = takeWhile (\<lambda>c. c \<noteq> NUL) (take 16 (drop 64 bs)),
      d_provider = takeWhile (\<lambda>c. c \<noteq> NUL) (take 64 (drop 80 bs)),
      d_implementation = of_le (take 8 (drop 144 bs))\<rparr>"

definition hwrun_kctl_protocol_resolve ::
    "'s dev \<Rightarrow> kctl \<Rightarrow> 's \<Rightarrow> string option \<Rightarrow> (rc \<times> 's \<times> kctl_desc option) option" where
  "hwrun_kctl_protocol_resolve dev c s protocol =
     (case protocol of
        None \<Rightarrow> Some (EINVAL, s, None)
      | Some p \<Rightarrow>
          (case kctl_io dev c s KCTL_IOC_PROTOCOL_RESOLVE (desc_bytes p [] [] 0) of
             None \<Rightarrow> None
           | Some (rc, s', d) \<Rightarrow>
               if rc \<noteq> HWRUN_OK then Some (rc, s', None) else Some (HWRUN_OK, s', Some (desc_of d))))"

section \<open>Properties\<close>

lemma ioc_match:
  "HWRUN_IOC_GET_ABI KCTL_IOC = KCTL_IOC_GET_ABI" "HWRUN_IOC_PING KCTL_IOC = KCTL_IOC_PING"
  "HWRUN_IOC_PROTOCOL_REGISTER KCTL_IOC = KCTL_IOC_PROTOCOL_REGISTER"
  "HWRUN_IOC_PROTOCOL_UNREGISTER KCTL_IOC = KCTL_IOC_PROTOCOL_UNREGISTER"
  "HWRUN_IOC_PROTOCOL_RESOLVE KCTL_IOC = KCTL_IOC_PROTOCOL_RESOLVE"
  by (code_simp)+

lemma ioc_values:
  "KCTL_IOC_GET_ABI = 0x80044800" "KCTL_IOC_PING = 0xC0044801"
  "KCTL_IOC_PROTOCOL_REGISTER = 0x40984810" "KCTL_IOC_PROTOCOL_UNREGISTER = 0x40984811"
  "KCTL_IOC_PROTOCOL_RESOLVE = 0xC0984812"
  by (code_simp)+

lemma desc_fields:
  assumes "NUL \<notin> set p" "NUL \<notin> set v" "NUL \<notin> set q"
  shows "cstr_at 0 (desc_bytes p v q i) = Some (cstr 64 p)"
    and "cstr_at 64 (desc_bytes p v q i) = Some (cstr 16 v)"
    and "cstr_at 80 (desc_bytes p v q i) = Some (cstr 64 q)"
    and "take 152 (desc_bytes p v q i) = desc_bytes p v q i"
proof -
  have n: "NUL \<notin> set (cstr 64 p)" "NUL \<notin> set (cstr 16 v)" "NUL \<notin> set (cstr 64 q)"
    using assms by (auto dest: set_cstr)
  show "cstr_at 0 (desc_bytes p v q i) = Some (cstr 64 p)"
    using cstr_at_field [of "[]" 0 "cstr 64 p" 64] n by (simp add: desc_bytes_def length_cstr_less)
  show "cstr_at 64 (desc_bytes p v q i) = Some (cstr 16 v)"
    using cstr_at_field [of "pad 64 (cstr 64 p)" 64 "cstr 16 v" 16] n
    by (simp add: desc_bytes_def length_cstr_less)
  show "cstr_at 80 (desc_bytes p v q i) = Some (cstr 64 q)"
    using cstr_at_field [of "pad 64 (cstr 64 p) @ pad 16 (cstr 16 v)" 80 "cstr 64 q" 64] n
    by (simp add: desc_bytes_def length_cstr_less)
  show "take 152 (desc_bytes p v q i) = desc_bytes p v q i"
    by (simp add: desc_bytes_def)
qed

lemma takeWhile_pad:
  assumes "length s < n" "NUL \<notin> set s"
  shows "takeWhile (\<lambda>c. c \<noteq> NUL) (pad n s) = s"
  using cstr_at_field [of "[]" 0 s n "[]"] assms by (simp add: cstr_at_def split: if_splits)

lemma desc_of_reply:
  assumes "NUL \<notin> set v" "NUL \<notin> set q" "i < 2 ^ 64" "length v < 16" "length q < 64"
  shows "desc_of (replicate 64 NUL @ pad 16 v @ pad 64 q @ le_bytes 8 i) =
     \<lparr>d_protocol = [], d_version = v, d_provider = q, d_implementation = i\<rparr>"
  using assms takeWhile_pad [of v 16] takeWhile_pad [of q 64]
  by (simp add: desc_of_def of_le_le_bytes)

text \<open>The device: the kernel module behind the request numbers both sides agree on.\<close>

definition hwrun_device :: "ioc \<Rightarrow> bool \<Rightarrow> kproto list dev" where
  "hwrun_device ioc ok ks req arg = hwrun_ioctl ioc ok True True ks req arg"

lemmas device_simps = hwrun_device_def hwrun_ioctl_def kctl_io_def ioc_match ioc_values

lemma client_calls:
  assumes "0 \<le> fd c" "NUL \<notin> set p" "NUL \<notin> set v" "NUL \<notin> set q"
  shows "hwrun_kctl_protocol_register (hwrun_device KCTL_IOC ok) c ks (Some p) (Some v) (Some q) =
      Some (hwrun_protocol_register ok ks (Some (cstr 64 p)) (Some (cstr 16 v)) (Some (cstr 64 q)) 0)"
    and "hwrun_kctl_protocol_unregister (hwrun_device KCTL_IOC ok) c ks (Some p) (Some q) =
      Some (hwrun_protocol_unregister ks (Some (cstr 64 p)) (Some (cstr 64 q)))"
    and "hwrun_kctl_protocol_resolve (hwrun_device KCTL_IOC ok) c ks (Some p) =
      (case hwrun_protocol_resolve ks (Some (cstr 64 p)) 16 64 of
         (_, None) \<Rightarrow> Some (ENOENT, ks, None)
       | (_, Some (w, r, i)) \<Rightarrow>
           Some (HWRUN_OK, ks, Some (desc_of
             (replicate 64 NUL @ pad 16 (cstr 16 w) @ pad 64 (cstr 64 r) @ le_bytes 8 i))))"
  using assms
  by (simp_all add: hwrun_kctl_protocol_register_def hwrun_kctl_protocol_unregister_def
      hwrun_kctl_protocol_resolve_def device_simps desc_fields split: prod.splits option.splits)

text \<open>
  C29. Through the device, a registered protocol resolves to the version and provider it was registered
  with, and unregistering restores the kernel's table.  The descriptor that comes back has lost the
  protocol's own name.
\<close>

theorem kctl_register_resolve_unregister:
  assumes "ioc = KCTL_IOC" "0 \<le> fd c" "NUL \<notin> set p" "NUL \<notin> set v" "NUL \<notin> set q"
    and "p \<noteq> []" "q \<noteq> []" "\<forall>e \<in> set ks. k_protocol e \<noteq> cstr 64 p"
  shows "\<exists>ks'. hwrun_kctl_protocol_register (hwrun_device ioc True) c ks (Some p) (Some v) (Some q) = Some (0, ks') \<and>
    hwrun_kctl_protocol_resolve (hwrun_device ioc True) c ks' (Some p) =
      Some (HWRUN_OK, ks', Some \<lparr>d_protocol = [], d_version = cstr 16 v, d_provider = cstr 64 q,
                                 d_implementation = 0\<rparr>) \<and>
    hwrun_kctl_protocol_unregister (hwrun_device ioc True) c ks' (Some p) (Some q) = Some (0, ks)"
proof -
  let ?e = "\<lparr>k_protocol = cstr 64 p, k_version = cstr 16 v, k_provider = cstr 64 q, k_implementation = 0\<rparr>"
  have ne: "cstr 64 p \<noteq> []" "cstr 64 q \<noteq> []" using assms(6,7) by (simp_all add: cstr_def)
  have new: "find (\<lambda>e. k_protocol e = cstr 64 p) ks = None" using assms(8) by (simp add: find_None)
  have rm: "remove_first P (xs @ [x]) = xs" if "P x" "\<forall>y \<in> set xs. \<not> P y" for P and x :: kproto and xs
    using that by (induction xs) auto
  have reg: "hwrun_protocol_register True ks (Some (cstr 64 p)) (Some (cstr 16 v)) (Some (cstr 64 q)) 0 = (0, ks @ [?e])"
    using ne new by (simp add: hwrun_protocol_register_def cstr_simps)
  have res: "hwrun_protocol_resolve (ks @ [?e]) (Some (cstr 64 p)) 16 64 = (0, Some (cstr 16 v, cstr 64 q, 0))"
    using new by (simp add: hwrun_protocol_resolve_def find_append cstr_simps)
  have un: "hwrun_protocol_unregister (ks @ [?e]) (Some (cstr 64 p)) (Some (cstr 64 q)) = (0, ks)"
    using assms(8) by (auto simp: hwrun_protocol_unregister_def Let_def find_append rm split: option.splits)
  have "NUL \<notin> set (cstr 16 v)" "NUL \<notin> set (cstr 64 q)" using assms(4,5) by (auto dest: set_cstr)
  then show ?thesis
    using client_calls [OF assms(2-5)] reg res un
    by (intro exI [of _ "ks @ [?e]"]) (simp add: assms(1) cstr_simps desc_of_reply length_cstr_less)
qed

theorem kctl_register_resolve_unregister_witness:
  "\<exists>ks'. hwrun_kctl_protocol_register (hwrun_device KCTL_IOC True) \<lparr>fd = 3, connected = True, device = []\<rparr> []
     (Some ''NP'') (Some ''1.0'') (Some ''np'') = Some (0, ks')"
  using kctl_register_resolve_unregister [of KCTL_IOC "\<lparr>fd = 3, connected = True, device = []\<rparr>"
      "''NP''" "''1.0''" "''np''" "[]"] by fastforce

lemma register_distinct:
  assumes "hwrun_protocol_register ok ks (Some (cstr 64 p)) (Some v) (Some q) i = (rc, ks')"
    and "distinct (map k_protocol ks)"
  shows "distinct (map k_protocol ks')"
proof (cases "rc = 0")
  case True
  then have "\<forall>e \<in> set ks. k_protocol e \<noteq> cstr 64 p"
    and "map k_protocol ks' = map k_protocol ks @ [cstr 64 p]"
    using assms(1) by (auto simp: hwrun_protocol_register_def cstr_simps find_None split: if_splits)
  with assms(2) show ?thesis by auto
next
  case False
  with assms show ?thesis by (auto simp: hwrun_protocol_register_def split: if_splits)
qed

text \<open>
  Requests of the client keep the kernel's protocol names distinct, and the liveness request
  returns the complement of its argument.
\<close>

theorem kctl_keeps_names_distinct:
  assumes "ioc = KCTL_IOC" "0 \<le> fd c" "NUL \<notin> set p" "NUL \<notin> set v" "NUL \<notin> set q"
    and "distinct (map k_protocol ks)"
  shows "(\<forall>rc ks'. hwrun_kctl_protocol_register (hwrun_device ioc ok) c ks (Some p) (Some v) (Some q) = Some (rc, ks')
            \<longrightarrow> distinct (map k_protocol ks')) \<and>
    (\<forall>rc ks'. hwrun_kctl_protocol_unregister (hwrun_device ioc ok) c ks (Some p) (Some q) = Some (rc, ks')
            \<longrightarrow> distinct (map k_protocol ks')) \<and>
    hwrun_kctl_ping (hwrun_device ioc ok) c ks w = Some (HWRUN_OK, ks, NOT w)"
proof (intro conjI allI impI)
  fix rc ks'
  assume "hwrun_kctl_protocol_register (hwrun_device ioc ok) c ks (Some p) (Some v) (Some q) = Some (rc, ks')"
  then show "distinct (map k_protocol ks')"
    using assms(6) client_calls(1) [OF assms(2-5), of ok ks]
    by (auto simp: assms(1) intro: register_distinct)
next
  fix rc ks'
  assume "hwrun_kctl_protocol_unregister (hwrun_device ioc ok) c ks (Some p) (Some q) = Some (rc, ks')"
  then show "distinct (map k_protocol ks')"
    using assms(6) client_calls(2) [OF assms(2-5), of ok ks]
    by (auto simp: assms(1) hwrun_protocol_unregister_def Let_def split: if_splits
        intro: distinct_map_remove_first)
next
  have w: "unat u mod 4294967296 = unat u" for u :: "32 word"
  proof -
    have "unat u < 2 ^ LENGTH(32)" by (rule unsigned_less)
    then show ?thesis by simp
  qed
  show "hwrun_kctl_ping (hwrun_device ioc ok) c ks w = Some (HWRUN_OK, ks, NOT w)"
    using assms(2)
    by (simp add: assms(1) hwrun_kctl_ping_def device_simps of_le_le_bytes w)
qed

theorem kctl_keeps_names_distinct_witness:
  "hwrun_kctl_ping (hwrun_device KCTL_IOC True) \<lparr>fd = 3, connected = True, device = []\<rparr> [] 0xFF = Some (HWRUN_OK, [], 0xFFFFFF00)"
proof -
  have "NOT (0xFF :: 32 word) = 0xFFFFFF00" by code_simp
  then show ?thesis
    using kctl_keeps_names_distinct [of KCTL_IOC "\<lparr>fd = 3, connected = True, device = []\<rparr>" "[]" "[]" "[]" "[]" True "0xFF"]
    by simp
qed

text \<open>
  A process that passes a descriptor whose protocol field holds 64 characters and no NUL registers
  the same name again and again: the kernel compares the longer text that runs into the version field
  with the truncated names it stores.
\<close>

theorem kernel_unterminated_name_duplicates:
  assumes "ioc = KCTL_IOC"
    and "length p = 64" "NUL \<notin> set p" "length v < 16" "NUL \<notin> set v" "length q < 64" "NUL \<notin> set q" "q \<noteq> []"
    and "buf = p @ pad 16 v @ pad 64 q @ le_bytes 8 0" and "\<forall>e \<in> set ks. length (k_protocol e) < 64"
  shows "\<exists>e. hwrun_ioctl ioc True True True ks (HWRUN_IOC_PROTOCOL_REGISTER ioc) buf = Some (0, ks @ [e], buf)
    \<and> hwrun_ioctl ioc True True True (ks @ [e]) (HWRUN_IOC_PROTOCOL_REGISTER ioc) buf = Some (0, ks @ [e, e], buf)"
proof -
  let ?e = "\<lparr>k_protocol = cstr 64 (p @ v), k_version = v, k_provider = q, k_implementation = 0\<rparr>"
  have t: "take 152 buf = buf" using assms(2) by (simp add: assms(9))
  have "cstr_at 0 buf = Some (p @ v)"
    using cstr_at_field [of "[]" 0 "p @ v" 80 "pad 64 q @ le_bytes 8 0"] assms(2-5)
    by (simp add: assms(9) pad_short cstr_simps)
  moreover have "cstr_at 64 buf = Some v"
    using cstr_at_field [of p 64 v 16] assms(2,4,5) by (simp add: assms(9))
  moreover have "cstr_at 80 buf = Some q"
    using cstr_at_field [of "p @ pad 16 v" 80 q 64] assms(2,6,7) by (simp add: assms(9))
  moreover have "find (\<lambda>e. k_protocol e = p @ v) xs = None" if "\<forall>e \<in> set xs. length (k_protocol e) < 64" for xs
    using that assms(2) by (auto simp: find_None)
  moreover have "length (k_protocol ?e) < 64" by (simp add: length_cstr_less)
  moreover have "p \<noteq> []" using assms(2) by auto
  ultimately have reg: "hwrun_ioctl ioc True True True xs (HWRUN_IOC_PROTOCOL_REGISTER ioc) buf = Some (0, xs @ [?e], buf)"
    if "\<forall>e \<in> set xs. length (k_protocol e) < 64" for xs
    using that assms(4,6,8) by (simp add: assms(1) ioc_match ioc_values hwrun_ioctl_def t hwrun_protocol_register_def cstr_simps)
  have "length (k_protocol ?e) < 64" by (simp add: length_cstr_less)
  with assms(10) have "\<forall>e \<in> set (ks @ [?e]). length (k_protocol e) < 64" by simp
  from reg [OF assms(10)] reg [OF this] show ?thesis by (intro exI [of _ ?e]) simp
qed

theorem kernel_unterminated_name_duplicates_witness:
  "\<exists>e. hwrun_ioctl KCTL_IOC True True True [e] (HWRUN_IOC_PROTOCOL_REGISTER KCTL_IOC)
      (replicate 64 (CHR ''x'') @ pad 16 ''1'' @ pad 64 ''q'' @ le_bytes 8 0) =
    Some (0, [e, e], replicate 64 (CHR ''x'') @ pad 16 ''1'' @ pad 64 ''q'' @ le_bytes 8 0)"
  using kernel_unterminated_name_duplicates [OF refl, of "replicate 64 (CHR ''x'')" "''1''" "''q''" _ "[]"]
  by fastforce

end
