(* ===== verification/Bus.thy ===== *)
theory Bus
  imports Param MetaProto Yml Kctl
begin

text \<open>
  The component bus: \<^verbatim>\<open>bus/src/bus.c\<close>, the plugin loader \<^verbatim>\<open>bus/src/loader.c\<close> and the runtime handed to
  plugins, \<^verbatim>\<open>bus/src/runtime.c\<close>.

  The code of a plugin is not part of the bus: its lifecycle callbacks are functions on a world \<open>'w\<close>,
  the state of everything outside, and they do not call back into the bus.  \<^verbatim>\<open>dlopen\<close>, the file system
  and the operations of the GIT plugin are arguments (\<open>env\<close>, \<open>fs\<close>).  Log output is left out.  A plugin
  in the list is found by its id, as the C code finds the node; the loader's functions work on one
  plugin and the registry, and the bus writes the plugin back.
\<close>

section \<open>Plugins\<close>

datatype hwplugin_state = UNINSTALLED | INSTALLED | LOADED | STARTED | STOPPED | ERROR

record 'w plugin_ops =
  op_init :: "('w \<Rightarrow> int \<times> 'w) option"
  op_start :: "('w \<Rightarrow> int \<times> 'w) option"
  op_stop :: "('w \<Rightarrow> int \<times> 'w) option"
  op_destroy :: "('w \<Rightarrow> int \<times> 'w) option"
  op_configure :: "(string \<Rightarrow> string \<Rightarrow> 'w \<Rightarrow> int \<times> 'w) option"
  op_get_interface :: "(string \<Rightarrow> nat) option"

definition null_ops :: "'w plugin_ops" where
  "null_ops = \<lparr>op_init = None, op_start = None, op_stop = None, op_destroy = None,
     op_configure = None, op_get_interface = None\<rparr>"

text \<open>
  An array of strings that is NULL when it is empty; only \<open>pl_requires\<close> is ever tested against NULL.
  \<open>pl_addr\<close> is the address of the node, the implementation pointer of last resort.
\<close>

record 'w plugin =
  pl_id :: string
  pl_name :: string
  pl_version :: string
  pl_type :: hwplugin_type
  pl_state :: hwplugin_state
  pl_description :: string
  pl_repo_url :: string
  pl_branch :: string
  pl_tag :: string
  pl_hooks :: "string list"
  pl_provides :: "string list"
  pl_requires :: "string list option"
  pl_conflicts :: "string list"
  pl_files :: "string option list"
  pl_size :: nat
  pl_ops :: "'w plugin_ops"
  pl_handle :: nat
  pl_runtime_bind :: "(nat \<Rightarrow> 'w \<Rightarrow> 'w) option"
  pl_addr :: nat

section \<open>The loader\<close>

fun strstr :: "string \<Rightarrow> string \<Rightarrow> bool" where
  "strstr hay needle \<longleftrightarrow> take (length needle) hay = needle \<or> (case hay of [] \<Rightarrow> False | _ # t \<Rightarrow> strstr t needle)"

declare strstr.simps [simp del]

text \<open>\<open>dl path\<close>: the handle \<^verbatim>\<open>dlopen\<close> returns, and what the entry symbol returns when there is one.\<close>

definition hw_plugin_load_so ::
    "(string \<Rightarrow> (nat \<times> 'w plugin option option) option) \<Rightarrow> 'w plugin \<Rightarrow> rc \<times> 'w plugin" where
  "hw_plugin_load_so dl p =
     (if pl_handle p \<noteq> 0 then (HWRUN_OK, p)
      else if pl_files p = [] then (ENOENT, p)
      else
        (case find (\<lambda>f. case f of None \<Rightarrow> False | Some s \<Rightarrow> strstr s ''.so'') (pl_files p) of
           Some (Some path) \<Rightarrow>
             (case dl path of
                None \<Rightarrow> (ENOENT, p)
              | Some (h, None) \<Rightarrow> (EILSEQ, p)
              | Some (h, Some None) \<Rightarrow> (EILSEQ, p)
              | Some (h, Some (Some self)) \<Rightarrow> (HWRUN_OK, p\<lparr>pl_handle := h, pl_ops := pl_ops self\<rparr>))
         | _ \<Rightarrow> (ENOENT, p)))"

text \<open>The GIT operations put into the runtime: the implementation registered for GIT, or NULL.\<close>

definition hw_plugin_inject_runtime :: "registry \<Rightarrow> 'w plugin \<Rightarrow> 'w \<Rightarrow> 'w" where
  "hw_plugin_inject_runtime reg p w =
     (if pl_handle p = 0 then w
      else
        let git = (case hw_metaproto_resolve reg (Some ''GIT'') None of
                     (rc, Some r) \<Rightarrow> if rc = HWRUN_OK \<and> r_implementation r \<noteq> 0 then r_implementation r else 0
                   | (_, None) \<Rightarrow> 0) in
        (case pl_runtime_bind p of None \<Rightarrow> w | Some bind \<Rightarrow> bind git w))"

text \<open>\<open>count\<close> is the number of protocols registered so far; a failure returns its negation.\<close>

fun plugin_register_provides ::
    "allocs \<Rightarrow> registry \<Rightarrow> 'w plugin \<Rightarrow> string list \<Rightarrow> int \<Rightarrow> int \<times> registry \<times> allocs \<times> proto_event list" where
  "plugin_register_provides al reg p [] count = (count, reg, al, [])"
| "plugin_register_provides al reg p (q # qs) count =
     (let impl = (case op_get_interface (pl_ops p) of None \<Rightarrow> 0 | Some f \<Rightarrow> f q) in
      case alloc al of (ok, al1) \<Rightarrow>
      case hw_metaproto_register ok reg (Some q) (Some ''1.0'') (Some (pl_id p))
             (if impl \<noteq> 0 then impl else pl_addr p) of
        (rc, reg1, evs) \<Rightarrow>
          if rc \<noteq> HWRUN_OK then (- count, reg1, al1, evs)
          else
            (case plugin_register_provides al1 reg1 p qs (count + 1) of
               (n, reg2, al2, evs2) \<Rightarrow> (n, reg2, al2, evs @ evs2)))"

fun plugin_unregister_all :: "registry \<Rightarrow> string \<Rightarrow> string list \<Rightarrow> registry \<times> proto_event list" where
  "plugin_unregister_all reg pid [] = (reg, [])"
| "plugin_unregister_all reg pid (q # qs) =
     (case hw_metaproto_unregister reg (Some q) (Some pid) of
        (_, reg1, evs) \<Rightarrow>
          (case plugin_unregister_all reg1 pid qs of (reg2, evs2) \<Rightarrow> (reg2, evs @ evs2)))"

definition plugin_unregister_provides :: "registry \<Rightarrow> 'w plugin \<Rightarrow> int \<Rightarrow> registry \<times> proto_event list" where
  "plugin_unregister_provides reg p n = plugin_unregister_all reg (pl_id p) (take (nat n) (pl_provides p))"

definition run_op :: "('w \<Rightarrow> int \<times> 'w) option \<Rightarrow> 'w \<Rightarrow> int \<times> 'w" where
  "run_op f w = (case f of None \<Rightarrow> (HWRUN_OK, w) | Some g \<Rightarrow> g w)"

definition conflicting :: "registry \<Rightarrow> 'w plugin \<Rightarrow> bool" where
  "conflicting reg p \<longleftrightarrow>
     find (\<lambda>q. fst (hw_metaproto_resolve reg (Some q) None) = HWRUN_OK) (pl_conflicts p) \<noteq> None"

definition hw_plugin_start ::
    "allocs \<Rightarrow> registry \<Rightarrow> 'w plugin \<Rightarrow> 'w \<Rightarrow> rc \<times> registry \<times> 'w plugin \<times> 'w \<times> proto_event list" where
  "hw_plugin_start al reg p w =
     (case hw_metaproto_check_deps reg (pl_requires p)
             (int (case pl_requires p of None \<Rightarrow> 0 | Some qs \<Rightarrow> length qs)) None of
        (rc, _) \<Rightarrow>
          if rc \<noteq> HWRUN_OK then (EILSEQ, reg, p\<lparr>pl_state := ERROR\<rparr>, w, [])
          else if conflicting reg p then (ECONFLICT, reg, p\<lparr>pl_state := ERROR\<rparr>, w, [])
          else
            let w1 = hw_plugin_inject_runtime reg p w in
            (case run_op (op_init (pl_ops p)) w1 of
               (rc, w2) \<Rightarrow>
                 if rc \<noteq> HWRUN_OK then (rc, reg, p\<lparr>pl_state := ERROR\<rparr>, w2, [])
                 else
                   (case plugin_register_provides al reg p (pl_provides p) 0 of
                      (nreg, reg1, _, evs1) \<Rightarrow>
                        if nreg < 0 then
                          (case plugin_unregister_provides reg1 p (- nreg) of
                             (reg2, evs2) \<Rightarrow> (ECONFLICT, reg2, p\<lparr>pl_state := ERROR\<rparr>, w2, evs1 @ evs2))
                        else
                          (case run_op (op_start (pl_ops p)) w2 of
                             (rc, w3) \<Rightarrow>
                               if rc \<noteq> HWRUN_OK then
                                 (case plugin_unregister_provides reg1 p (int (length (pl_provides p))) of
                                    (reg2, evs2) \<Rightarrow> (rc, reg2, p\<lparr>pl_state := ERROR\<rparr>, w3, evs1 @ evs2))
                               else (HWRUN_OK, reg1, p\<lparr>pl_state := STARTED\<rparr>, w3, evs1)))))"

definition hw_plugin_stop :: "registry \<Rightarrow> 'w plugin \<Rightarrow> 'w \<Rightarrow> rc \<times> registry \<times> 'w plugin \<times> 'w \<times> proto_event list" where
  "hw_plugin_stop reg p w =
     (let w1 = snd (run_op (op_stop (pl_ops p)) w) in
      case plugin_unregister_all reg (pl_id p) (pl_provides p) of
        (reg1, evs) \<Rightarrow> (HWRUN_OK, reg1, p\<lparr>pl_state := STOPPED\<rparr>, w1, evs))"

definition hw_plugin_unload :: "registry \<Rightarrow> 'w plugin \<Rightarrow> 'w \<Rightarrow> rc \<times> registry \<times> 'w plugin \<times> 'w \<times> proto_event list" where
  "hw_plugin_unload reg p w =
     (case (if pl_state p = STARTED \<or> pl_state p = LOADED then hw_plugin_stop reg p w
            else (HWRUN_OK, reg, p, w, [])) of
        (_, reg1, p1, w1, evs) \<Rightarrow>
          let w2 = snd (run_op (op_destroy (pl_ops p1)) w1);
              p2 = (if pl_handle p1 \<noteq> 0 then p1\<lparr>pl_handle := 0\<rparr> else p1)
          in (HWRUN_OK, reg1, p2\<lparr>pl_state := UNINSTALLED\<rparr>, w2, evs))"

section \<open>The bus\<close>

record 'w bus =
  plugins :: "'w plugin list"
  meta :: registry
  params :: param_ctx
  scan_paths :: "string list"
  auto_install_deps :: bool
  state_dir :: string
  b_initialized :: bool
  running :: bool
  param_git_committing :: bool

abbreviation HOOK_REVISION :: nat where "HOOK_REVISION \<equiv> 1"
abbreviation CB_CONFIG_ROUTE :: nat where "CB_CONFIG_ROUTE \<equiv> 1"
abbreviation BUS_PTR :: nat where "BUS_PTR \<equiv> 1"

definition check_add_path :: "'w bus \<Rightarrow> string \<Rightarrow> rc \<times> 'w bus" where
  "check_add_path bus path =
     (if length (scan_paths bus) \<ge> 8 then (HWRUN_OK, bus)
      else (HWRUN_OK, bus\<lparr>scan_paths := scan_paths bus @ [cstr 256 path]\<rparr>))"

fun register_builtins :: "allocs \<Rightarrow> registry \<Rightarrow> string list \<Rightarrow> registry" where
  "register_builtins al reg [] = reg"
| "register_builtins al reg (q # qs) =
     (case alloc al of (ok, al1) \<Rightarrow>
        register_builtins al1 (fst (snd (hw_metaproto_register ok reg (Some q) (Some ''1.0'') (Some ''bus'') 0))) qs)"

text \<open>\<open>root_ok\<close> is the allocation of the parameter root, whose failure \<open>hw_bus_init\<close> ignores.\<close>

definition hw_bus_init :: "bool \<Rightarrow> allocs \<Rightarrow> string option \<Rightarrow> string option \<Rightarrow> (rc \<times> 'w bus) option" where
  "hw_bus_init root_ok al sdir scan_path =
     (let sd = (case sdir of Some s \<Rightarrow> cstr 256 s | None \<Rightarrow> ''/var/lib/hwrun'') in
      case hw_param_init root_ok (Some sd) of
        None \<Rightarrow> None
      | Some (_, ctx) \<Rightarrow>
          let bus0 = \<lparr>plugins = [], meta = snd (hw_metaproto_init (Some sd)), params = ctx, scan_paths = [],
                      auto_install_deps = False, state_dir = sd, b_initialized = False, running = False,
                      param_git_committing = False\<rparr>;
              bus1 = (case scan_path of
                        Some s \<Rightarrow> snd (check_add_path bus0 s)
                      | None \<Rightarrow> snd (check_add_path (snd (check_add_path bus0 ''/usr/lib/hwrun/plugins''))
                                    ''/etc/hwrun/plugins''))
          in Some (HWRUN_OK,
               bus1\<lparr>auto_install_deps := True, b_initialized := True,
                    meta := register_builtins al (meta bus1) [''METAPROTO'', ''BUS'', ''PARAM'', ''LOG'', ''GIT''],
                    params := (params bus1)\<lparr>p_on_revision := Some HOOK_REVISION, p_revision_userdata := BUS_PTR\<rparr>,
                    running := True\<rparr>))"

definition hw_bus_find :: "'w bus \<Rightarrow> string option \<Rightarrow> 'w plugin option" where
  "hw_bus_find bus pid = (case pid of None \<Rightarrow> None | Some i \<Rightarrow> find (\<lambda>p. pl_id p = i) (plugins bus))"

definition hw_bus_plugin_count :: "'w bus \<Rightarrow> nat" where
  "hw_bus_plugin_count bus = length (plugins bus)"

text \<open>Writing back the plugin that was found by its id.\<close>

definition put_plugin :: "'w bus \<Rightarrow> 'w plugin \<Rightarrow> 'w bus" where
  "put_plugin bus p = bus\<lparr>plugins := update_first (\<lambda>x. pl_id x = pl_id p) (\<lambda>_. p) (plugins bus)\<rparr>"

definition hw_bus_load :: "allocs \<Rightarrow> 'w bus \<Rightarrow> string option \<Rightarrow> 'w \<Rightarrow> rc \<times> 'w bus \<times> 'w \<times> proto_event list" where
  "hw_bus_load al bus pid w =
     (case hw_bus_find bus pid of
        None \<Rightarrow> (ENOENT, bus, w, [])
      | Some p \<Rightarrow>
          if pl_state p = STARTED then (HWRUN_OK, bus, w, [])
          else
            (case hw_plugin_start al (meta bus) p w of
               (rc, reg, p', w', evs) \<Rightarrow> (rc, put_plugin (bus\<lparr>meta := reg\<rparr>) p', w', evs)))"

definition hw_bus_stop :: "'w bus \<Rightarrow> string option \<Rightarrow> 'w \<Rightarrow> rc \<times> 'w bus \<times> 'w \<times> proto_event list" where
  "hw_bus_stop bus pid w =
     (case hw_bus_find bus pid of
        None \<Rightarrow> (ENOENT, bus, w, [])
      | Some p \<Rightarrow>
          (case hw_plugin_stop (meta bus) p w of
             (rc, reg, p', w', evs) \<Rightarrow> (rc, put_plugin (bus\<lparr>meta := reg\<rparr>) p', w', evs)))"

definition hw_bus_unload :: "'w bus \<Rightarrow> string option \<Rightarrow> 'w \<Rightarrow> rc \<times> 'w bus \<times> 'w \<times> proto_event list" where
  "hw_bus_unload bus pid w =
     (case hw_bus_find bus pid of
        None \<Rightarrow> (ENOENT, bus, w, [])
      | Some p \<Rightarrow>
          (case hw_plugin_unload (meta bus) p w of
             (rc, reg, p', w', evs) \<Rightarrow> (rc, put_plugin (bus\<lparr>meta := reg\<rparr>) p', w', evs)))"

text \<open>The list is unhooked before its plugins are unloaded, head first.\<close>

fun unload_all :: "registry \<Rightarrow> 'w plugin list \<Rightarrow> 'w \<Rightarrow> registry \<times> 'w \<times> proto_event list" where
  "unload_all reg [] w = (reg, w, [])"
| "unload_all reg (p # ps) w =
     (case (if pl_state p = STARTED \<or> pl_state p = LOADED
            then (case hw_plugin_unload reg p w of (_, reg1, _, w1, evs) \<Rightarrow> (reg1, w1, evs))
            else (reg, w, [])) of
        (reg1, w1, evs) \<Rightarrow> (case unload_all reg1 ps w1 of (reg2, w2, evs2) \<Rightarrow> (reg2, w2, evs @ evs2)))"

definition hw_bus_shutdown :: "'w bus \<Rightarrow> 'w \<Rightarrow> 'w bus \<times> 'w \<times> proto_event list" where
  "hw_bus_shutdown bus w =
     (if \<not> b_initialized bus then (bus, w, [])
      else
        (case unload_all (meta bus) (plugins bus) w of
           (reg, w', evs) \<Rightarrow>
             (bus\<lparr>plugins := [], meta := hw_metaproto_shutdown reg, params := hw_param_shutdown (params bus),
                  b_initialized := False, running := False\<rparr>, w', evs)))"

section \<open>Discovery\<close>

text \<open>
  The file system as the scan sees it: the names in a directory (\<^const>\<open>None\<close> when it cannot be opened),
  whether a path is a directory, and the content of a file that exists and can be read.
\<close>

record fs =
  fs_list :: "string \<Rightarrow> string list option"
  fs_is_dir :: "string \<Rightarrow> bool"
  fs_read :: "string \<Rightarrow> string option"

text \<open>The buffer after \<^verbatim>\<open>hw_fmt_path\<close>; a directory that could be listed has a non-empty name.\<close>

definition fmt_out :: "nat \<Rightarrow> string \<Rightarrow> string \<Rightarrow> string" where
  "fmt_out cap dir name =
     (case hw_fmt_path cap (Some dir) (Some name) of Some (_, Some s) \<Rightarrow> s | _ \<Rightarrow> [])"

definition absolute_file :: "string \<Rightarrow> string option \<Rightarrow> string option" where
  "absolute_file plug_dir f =
     (case f of
        None \<Rightarrow> None
      | Some s \<Rightarrow>
          if s \<noteq> [] \<and> hd s = CHR ''/'' then Some s
          else (case hw_fmt_path 512 (Some plug_dir) (Some s) of
                  Some (rc, Some full) \<Rightarrow> if rc \<noteq> HWRUN_OK then None else Some full
                | _ \<Rightarrow> None))"

definition plugin_of_discovery :: "string \<Rightarrow> discovery \<Rightarrow> nat \<Rightarrow> 'w plugin" where
  "plugin_of_discovery plug_dir d addr =
     \<lparr>pl_id = cstr 64 (y_id d),
      pl_name = cstr 128 (if y_name d \<noteq> [] then y_name d else y_id d),
      pl_version = cstr 32 (if y_version d \<noteq> [] then y_version d else ''7.0.0''),
      pl_type = hw_type_from_str (Some (y_type d)),
      pl_state = INSTALLED,
      pl_description = cstr 256 (y_description d),
      pl_repo_url = cstr 256 (y_repo d), pl_branch = cstr 64 (y_branch d), pl_tag = cstr 64 (y_tag d),
      pl_hooks = [cstr 128 (y_pre_install d), cstr 128 (y_post_install d),
                  cstr 128 (y_pre_uninstall d), cstr 128 (y_post_uninstall d)],
      pl_provides = y_provides d,
      pl_requires = (if y_requires d = [] then None else Some (y_requires d)),
      pl_conflicts = y_conflicts d,
      pl_files = map (\<lambda>f. absolute_file plug_dir (Some f)) (y_files d),
      pl_size = y_size d, pl_ops = null_ops, pl_handle = 0, pl_runtime_bind = None, pl_addr = addr\<rparr>"

text \<open>\<open>node\<close> is the address of the new node, \<^const>\<open>None\<close> when it cannot be allocated.\<close>

definition scan_dir_rec :: "fs \<Rightarrow> nat option \<Rightarrow> 'w bus \<Rightarrow> string \<Rightarrow> string \<Rightarrow> rc \<times> 'w bus" where
  "scan_dir_rec fs node bus base sub =
     (let plug_dir = fmt_out 512 base sub;
          yml_path = fmt_out 512 plug_dir ''plugin.yml'' in
      case fs_read fs yml_path of
        None \<Rightarrow> (ENOENT, bus)
      | Some content \<Rightarrow>
          (case hw_yml_parse_plugin (Some content) of
             (rc, d) \<Rightarrow>
               if rc \<noteq> HWRUN_OK then (rc, bus)
               else if y_id d = [] then (EILSEQ, bus)
               else if hw_bus_find bus (Some (y_id d)) \<noteq> None then (EEXIST, bus)
               else
                 (case node of
                    None \<Rightarrow> (ENOMEM, bus)
                  | Some addr \<Rightarrow>
                      (HWRUN_OK, bus\<lparr>plugins := plugin_of_discovery plug_dir d addr # plugins bus\<rparr>))))"

text \<open>\<open>alloc_node\<close> gives the address of the next node from the plugins there are.\<close>

fun scan_entries :: "fs \<Rightarrow> ('w bus \<Rightarrow> nat option) \<Rightarrow> 'w bus \<Rightarrow> string \<Rightarrow> string list \<Rightarrow> 'w bus" where
  "scan_entries fs an bus dir [] = bus"
| "scan_entries fs an bus dir (e # es) =
     (if e \<noteq> [] \<and> hd e = CHR ''.'' then scan_entries fs an bus dir es
      else if \<not> fs_is_dir fs (fmt_out 512 dir e) then scan_entries fs an bus dir es
      else scan_entries fs an (snd (scan_dir_rec fs (an bus) bus dir e)) dir es)"

definition scan_dir :: "fs \<Rightarrow> ('w bus \<Rightarrow> nat option) \<Rightarrow> 'w bus \<Rightarrow> string \<Rightarrow> rc \<times> 'w bus" where
  "scan_dir fs an bus dir =
     (case fs_list fs dir of
        None \<Rightarrow> (HWRUN_OK, bus)
      | Some es \<Rightarrow> (HWRUN_OK, scan_entries fs an bus dir es))"

definition hw_bus_scan :: "fs \<Rightarrow> ('w bus \<Rightarrow> nat option) \<Rightarrow> 'w bus \<Rightarrow> rc \<times> 'w bus" where
  "hw_bus_scan fs an bus =
     (if \<not> b_initialized bus then (EINVAL, bus)
      else (HWRUN_OK, foldl (\<lambda>b dir. snd (scan_dir fs an b dir)) bus (scan_paths bus)))"

section \<open>Boot\<close>

definition boot_order :: "string list" where
  "boot_order =
     [''metaproto'', ''bus'', ''param'', ''log'', ''git'',
      ''hap'', ''pmp'', ''fsp'', ''np'', ''sp'',
      ''crypto'', ''loader'', ''compress'', ''cluster'', ''instance'',
      ''sandbox'', ''input'', ''display'', ''audio'', ''power'',
      ''storage'', ''permission'', ''consensus'', ''fs_transfer'', ''node_discovery'',
      ''driver'', ''hotplug'', ''terminal'', ''audit'', ''packages'',
      ''monitor'', ''ui'', ''console'', ''desktop'', ''shell'']"

definition in_boot_order :: "string \<Rightarrow> bool" where
  "in_boot_order i \<longleftrightarrow> find (\<lambda>x. x = i) boot_order \<noteq> None"

definition hw_bus_config_route :: "bool \<Rightarrow> 'w bus \<Rightarrow> rc \<times> 'w bus" where
  "hw_bus_config_route ok bus =
     (if \<not> b_initialized bus then (EINVAL, bus)
      else (case hw_param_watch ok (params bus) (Some ''bus'') (Some []) (Some CB_CONFIG_ROUTE) BUS_PTR of
              (rc, ctx) \<Rightarrow> (rc, bus\<lparr>params := ctx\<rparr>)))"

text \<open>The loop over the boot order; \<open>alf\<close> gives the allocations of each start.\<close>

fun boot_loop :: "(string \<Rightarrow> allocs) \<Rightarrow> 'w bus \<Rightarrow> 'w \<Rightarrow> string list \<Rightarrow> 'w bus \<times> 'w \<times> proto_event list" where
  "boot_loop alf bus w [] = (bus, w, [])"
| "boot_loop alf bus w (i # is) =
     (case hw_bus_find bus (Some i) of
        None \<Rightarrow> boot_loop alf bus w is
      | Some p \<Rightarrow>
          if pl_state p = STARTED then boot_loop alf bus w is
          else
            (case hw_plugin_start (alf i) (meta bus) p w of
               (_, reg, p', w', evs) \<Rightarrow>
                 (case boot_loop alf (put_plugin (bus\<lparr>meta := reg\<rparr>) p') w' is of
                    (b, w'', evs2) \<Rightarrow> (b, w'', evs @ evs2))))"

definition hw_bus_boot_chain ::
    "fs \<Rightarrow> ('w bus \<Rightarrow> nat option) \<Rightarrow> (string \<Rightarrow> allocs) \<Rightarrow> bool \<Rightarrow> 'w bus \<Rightarrow> 'w
      \<Rightarrow> rc \<times> 'w bus \<times> 'w \<times> proto_event list" where
  "hw_bus_boot_chain fs an alf watch_ok bus w =
     (if \<not> b_initialized bus then (EINVAL, bus, w, [])
      else
        (case boot_loop alf (snd (hw_bus_scan fs an bus)) w boot_order of
           (bus1, w1, evs) \<Rightarrow> (HWRUN_OK, snd (hw_bus_config_route watch_ok bus1), w1, evs)))"

section \<open>Resolution\<close>

definition hw_bus_resolve :: "'w bus \<Rightarrow> string option \<Rightarrow> rc \<times> route option" where
  "hw_bus_resolve bus protocol = hw_metaproto_resolve (meta bus) protocol None"

text \<open>
  The fallback to the kernel: \<open>open_fd\<close> is the result of opening \<^verbatim>\<open>/dev/hwrun\<close>, \<open>dev\<close> the device and \<open>s\<close>
  its state.  \<^const>\<open>None\<close> is the kernel reading past a descriptor.
\<close>

definition hw_bus_resolve_ex ::
    "'s dev \<Rightarrow> int \<Rightarrow> 's \<Rightarrow> 'w bus \<Rightarrow> string option \<Rightarrow> (rc \<times> route option) option" where
  "hw_bus_resolve_ex dev open_fd s bus protocol =
     (if protocol = None then Some (EINVAL, None)
      else case hw_bus_resolve bus protocol of
        (rc, out) \<Rightarrow>
          if rc = HWRUN_OK then Some (HWRUN_OK, out)
          else
            (case hwrun_kctl_open_path (Some ''/dev/hwrun'') open_fd of
               (rc, kc) \<Rightarrow>
                 if rc \<noteq> HWRUN_OK then Some (ENOENT, None)
                 else
                   (case hwrun_kctl_protocol_resolve dev kc s protocol of
                      None \<Rightarrow> None
                    | Some (rc, _, d) \<Rightarrow>
                        (case d of
                           Some d \<Rightarrow>
                             if rc \<noteq> HWRUN_OK then Some (ENOENT, None)
                             else Some (HWRUN_OK, Some
                               \<lparr>r_protocol = cstr 64 (d_protocol d), r_version = cstr 16 (d_version d),
                                r_plugin_id = cstr 64 (if d_provider d \<noteq> [] then d_provider d else ''kernel''),
                                r_implementation = 0, r_provider_state = PLUGIN_STARTED,
                                r_kernel_backed = True\<rparr>)
                         | None \<Rightarrow> Some (ENOENT, None)))))"

section \<open>Parameter changes\<close>

text \<open>
  What the bus does when a parameter changes.  \<open>env\<close> holds what it calls: \<^verbatim>\<open>fnmatch\<close>, the callbacks of
  other watchers, the GIT operations behind an implementation pointer, and the file it writes.
\<close>

record 'w git_ops =
  g_add :: "(string \<Rightarrow> 'w \<Rightarrow> int \<times> 'w) option"
  g_commit :: "(string \<Rightarrow> 'w \<Rightarrow> int \<times> 'w) option"
  g_get_auto_commit :: "('w \<Rightarrow> bool option) option"

record 'w env =
  e_fnmatch :: "string \<Rightarrow> string \<Rightarrow> bool"
  e_watcher :: "nat \<Rightarrow> string \<Rightarrow> string option \<Rightarrow> string \<Rightarrow> nat \<Rightarrow> 'w \<Rightarrow> 'w"
  e_git :: "nat \<Rightarrow> 'w git_ops"
  e_can_write :: "string \<Rightarrow> 'w \<Rightarrow> bool"
  e_write :: "string \<Rightarrow> string \<Rightarrow> 'w \<Rightarrow> 'w"

definition config_route_cb :: "'w bus \<Rightarrow> string \<Rightarrow> string \<Rightarrow> 'w \<Rightarrow> 'w" where
  "config_route_cb bus key new_value w =
     (let i = fst (split_first (CHR ''.'') key) in
      if length i = 0 \<or> length i \<ge> 64 then w
      else
        (case hw_bus_find bus (Some i) of
           None \<Rightarrow> w
         | Some p \<Rightarrow>
             if pl_state p \<noteq> STARTED then w
             else (case op_configure (pl_ops p) of None \<Rightarrow> w | Some f \<Rightarrow> snd (f key new_value w))))"

text \<open>The part that writes the parameter file and commits it, once GIT is known to be there.\<close>

definition commit_params :: "'w env \<Rightarrow> 'w bus \<Rightarrow> 'w git_ops \<Rightarrow> string \<Rightarrow> 'w \<Rightarrow> 'w" where
  "commit_params env bus g reason w =
     (case (g_add g, g_commit g) of
        (Some add, Some commit) \<Rightarrow>
          if (case g_get_auto_commit g of None \<Rightarrow> False | Some f \<Rightarrow> f w = Some False) then w
          else
            let dir = p_dirs (params bus) ! 4;
                state_file = (if dir \<noteq> [] then cstr 512 (dir @ ''/params.state'') else []) in
            if state_file = [] then w
            else
              (case hw_param_save_file (e_can_write env state_file w) (params bus) of
                 (rc, content) \<Rightarrow>
                   if rc \<noteq> HWRUN_OK then w
                   else
                     let w1 = e_write env state_file (the content) w;
                         msg = cstr 192 (''param: '' @ (if reason \<noteq> [] then reason else ''tree changed'')) in
                     (case add state_file w1 of
                        (rc, w2) \<Rightarrow> if rc \<noteq> HWRUN_OK then w2 else snd (commit msg w2)))
      | _ \<Rightarrow> w)"

definition bus_on_param_revision :: "'w env \<Rightarrow> 'w bus \<Rightarrow> string \<Rightarrow> 'w \<Rightarrow> 'w bus \<times> 'w" where
  "bus_on_param_revision env bus reason w =
     (if \<not> b_initialized bus \<or> \<not> running bus then (bus, w)
      else if param_git_committing bus then (bus, w)
      else
        (bus\<lparr>param_git_committing := False\<rparr>,
         (case hw_bus_resolve bus (Some ''GIT'') of
            (_, None) \<Rightarrow> w
          | (rc, Some r) \<Rightarrow>
              if rc \<noteq> HWRUN_OK \<or> r_implementation r = 0 then w
              else commit_params env bus (e_git env (r_implementation r)) reason w)))"

definition dispatch_event :: "'w env \<Rightarrow> 'w bus \<times> 'w \<Rightarrow> param_event \<Rightarrow> 'w bus \<times> 'w" where
  "dispatch_event env s ev =
     (case s of (bus, w) \<Rightarrow>
        (case ev of
           Watch cb key old new ud \<Rightarrow>
             if cb = CB_CONFIG_ROUTE then (bus, config_route_cb bus key new w)
             else (bus, e_watcher env cb key old new ud w)
         | Revision h ud reason \<Rightarrow>
             if h = HOOK_REVISION then bus_on_param_revision env bus reason w else (bus, w)))"

text \<open>The runtime's \<open>param_set\<close>: the write, and the callbacks it triggers.\<close>

definition rt_param_set ::
    "'w env \<Rightarrow> allocs \<Rightarrow> 'w bus option \<Rightarrow> string option \<Rightarrow> string option \<Rightarrow> int \<Rightarrow> string option \<Rightarrow> 'w
      \<Rightarrow> rc \<times> 'w bus option \<times> 'w" where
  "rt_param_set env al g_bus key val ty desc w =
     (case g_bus of
        None \<Rightarrow> (EINVAL, None, w)
      | Some bus \<Rightarrow>
          (case hw_param_set_value (e_fnmatch env) al (params bus) key val ty desc of
             (rc, ctx, evs) \<Rightarrow>
               (case foldl (dispatch_event env) (bus\<lparr>params := ctx\<rparr>, w) evs of
                  (bus', w') \<Rightarrow> (rc, Some bus', w'))))"

definition rt_param_get :: "'w bus option \<Rightarrow> string option \<Rightarrow> string option" where
  "rt_param_get g_bus key = (case g_bus of None \<Rightarrow> None | Some bus \<Rightarrow> hw_param_get (params bus) key)"

definition rt_param_get_int :: "'w bus option \<Rightarrow> string option \<Rightarrow> int \<Rightarrow> int" where
  "rt_param_get_int g_bus key d = (case g_bus of None \<Rightarrow> d | Some bus \<Rightarrow> hw_param_get_int (params bus) key d)"

definition rt_param_get_bool :: "'w bus option \<Rightarrow> string option \<Rightarrow> bool \<Rightarrow> bool" where
  "rt_param_get_bool g_bus key d = (case g_bus of None \<Rightarrow> d | Some bus \<Rightarrow> hw_param_get_bool (params bus) key d)"

definition rt_param_watch ::
    "bool \<Rightarrow> 'w bus option \<Rightarrow> string option \<Rightarrow> string option \<Rightarrow> nat option \<Rightarrow> nat \<Rightarrow> rc \<times> 'w bus option" where
  "rt_param_watch ok g_bus pid pattern cb ud =
     (case g_bus of
        None \<Rightarrow> (EINVAL, None)
      | Some bus \<Rightarrow>
          (case hw_param_watch ok (params bus) pid pattern cb ud of (rc, ctx) \<Rightarrow> (rc, Some (bus\<lparr>params := ctx\<rparr>))))"

section \<open>Starting and stopping one plugin\<close>

text \<open>The entries of the provider table a plugin owns through its list of protocols.\<close>

definition own_keys :: "'w plugin \<Rightarrow> (string \<times> string) set" where
  "own_keys p = (\<lambda>q. (q, pl_id p)) ` set (pl_provides p)"

definition short_names :: "'w plugin \<Rightarrow> bool" where
  "short_names p \<longleftrightarrow> length (pl_id p) < 64 \<and> (\<forall>q \<in> set (pl_provides p). length q < 64)"

lemma run_op_None [simp]: "run_op None w = (HWRUN_OK, w)"
  by (simp add: run_op_def)

lemma unregister_all_provider:
  assumes "reg_wf reg" and "plugin_unregister_all reg pid qs = (reg', evs)"
  shows "reg_wf reg' \<and> m_initialized reg' = m_initialized reg \<and>
    provider reg' = (\<lambda>k. if snd k = pid \<and> fst k \<in> set qs then None else provider reg k)"
  using assms
proof (induction qs arbitrary: reg evs)
  case Nil
  then show ?case by (simp add: fun_eq_iff)
next
  case (Cons q qs)
  obtain rc reg1 e1 where u: "hw_metaproto_unregister reg (Some q) (Some pid) = (rc, reg1, e1)"
    by (cases "hw_metaproto_unregister reg (Some q) (Some pid)") auto
  obtain e2 where r: "plugin_unregister_all reg1 pid qs = (reg', e2)"
    using Cons.prems(2) u by (auto split: prod.splits)
  note u1 = unregister_provider [OF Cons.prems(1) u]
  show ?case
    using Cons.IH [OF u1(1) r] u1 by (auto simp: fun_eq_iff)
qed

text \<open>
  The registration loop: all protocols, or the ones before the first failure; the result tells how
  many.
\<close>

lemma register_provides_loop:
  assumes "reg_wf reg" "m_initialized reg" "length (pl_id p) < 64" "\<forall>q \<in> set qs. length q < 64"
    and "plugin_register_provides al reg p qs n = (m, reg', al', evs)" and "0 \<le> n"
  shows "reg_wf reg' \<and> m_initialized reg' \<and>
    (\<exists>k \<le> length qs. m = (if k = length qs then n + int k else - (n + int k)) \<and>
       (al = [] \<longrightarrow> k = length qs) \<and>
       (\<forall>q \<in> set (take k qs). provider reg' (q, pl_id p) \<noteq> None) \<and>
       (\<forall>x. x \<notin> (\<lambda>q. (q, pl_id p)) ` set (take k qs) \<longrightarrow> provider reg' x = provider reg x))"
  using assms
proof (induction al reg p qs n arbitrary: m reg' al' evs rule: plugin_register_provides.induct)
  case (1 al reg p n)
  then show ?case by auto
next
  case (2 al reg p q qs n)
  let ?impl = "case op_get_interface (pl_ops p) of None \<Rightarrow> 0 | Some f \<Rightarrow> f q"
  let ?i = "if ?impl \<noteq> 0 then ?impl else pl_addr p"
  obtain ok al1 where al: "alloc al = (ok, al1)" by force
  obtain rc reg1 e1 where r: "hw_metaproto_register ok reg (Some q) (Some ''1.0'') (Some (pl_id p)) ?i = (rc, reg1, e1)"
    by (cases "hw_metaproto_register ok reg (Some q) (Some ''1.0'') (Some (pl_id p)) ?i") auto
  have q: "length q < 64" and qs: "\<forall>q \<in> set qs. length q < 64" using "2.prems"(4) by auto
  show ?case
  proof (cases "rc = HWRUN_OK")
    case False
    have "m = - n" "reg' = reg1" using "2.prems"(5) al r False by (simp_all add: Let_def)
    moreover have "reg1 = reg" "\<not> ok" using register_fails [OF "2.prems"(2) r False] by auto
    moreover have "al \<noteq> []" using calculation(4) al by (cases al) auto
    ultimately show ?thesis using "2.prems"(1,2) by (auto intro!: exI [of _ 0])
  next
    case True
    obtain e2 where rest: "plugin_register_provides al1 reg1 p qs (n + 1) = (m, reg', al', e2)"
      using "2.prems"(5) al r True by (auto simp: Let_def split: prod.splits)
    have wf1: "reg_wf reg1" using register_wf [OF "2.prems"(1,2) q "2.prems"(3) r] .
    have in1: "m_initialized reg1" using register_keeps(1) [OF r] "2.prems"(2) by simp
    have p1: "provider reg1 = (provider reg)((q, pl_id p) \<mapsto> (''1.0'', ?i))"
      using register_provider [OF "2.prems"(1,2) q "2.prems"(3) r [unfolded True]] by (simp add: cstr_simps)
    have IH: "reg_wf reg' \<and> m_initialized reg' \<and>
      (\<exists>k \<le> length qs. m = (if k = length qs then n + 1 + int k else - (n + 1 + int k)) \<and>
       (al1 = [] \<longrightarrow> k = length qs) \<and>
       (\<forall>q \<in> set (take k qs). provider reg' (q, pl_id p) \<noteq> None) \<and>
       (\<forall>x. x \<notin> (\<lambda>q. (q, pl_id p)) ` set (take k qs) \<longrightarrow> provider reg' x = provider reg1 x))"
      using "2.IH" [OF refl al [symmetric] r [symmetric] refl, of m reg' al' e2]
        wf1 in1 "2.prems"(3,6) qs rest True by auto
    then obtain k where k: "k \<le> length qs" "m = (if k = length qs then n + 1 + int k else - (n + 1 + int k))"
        "al1 = [] \<longrightarrow> k = length qs"
        "\<forall>q \<in> set (take k qs). provider reg' (q, pl_id p) \<noteq> None"
        "\<forall>x. x \<notin> (\<lambda>q. (q, pl_id p)) ` set (take k qs) \<longrightarrow> provider reg' x = provider reg1 x"
      by blast
    have "provider reg' (q, pl_id p) \<noteq> None"
      using k(4,5) p1 by (cases "(q, pl_id p) \<in> (\<lambda>q. (q, pl_id p)) ` set (take k qs)") auto
    moreover have "al = [] \<longrightarrow> al1 = []" using al by auto
    ultimately show ?thesis
      using IH k p1 by (intro conjI exI [of _ "Suc k"]) auto
  qed
qed

definition resolvable :: "registry \<Rightarrow> string \<Rightarrow> bool" where
  "resolvable reg q \<longleftrightarrow> fst (hw_metaproto_resolve reg (Some q) None) = HWRUN_OK"

lemma resolvable_iff: "resolvable reg q \<longleftrightarrow> (\<exists>r \<in> set (routes reg). r_protocol r = q)"
  by (auto simp: resolvable_def hw_metaproto_resolve_def find_None split: option.splits dest: find_SomeD)

lemma check_deps_loop_None:
  "fst (check_deps_loop reg None qs out) = HWRUN_OK \<longleftrightarrow> (\<forall>q \<in> set qs. resolvable reg q)"
proof (induction qs)
  case (Cons q qs)
  have "find (\<lambda>r. r_protocol r = q) (routes reg) \<noteq> None \<longleftrightarrow> resolvable reg q"
    by (auto simp: find_None resolvable_iff simp del: not_None_eq)
  with Cons show ?case by simp
qed simp

definition deps_met :: "registry \<Rightarrow> 'w plugin \<Rightarrow> bool" where
  "deps_met reg p \<longleftrightarrow> (\<exists>qs. pl_requires p = Some qs \<and> (\<forall>q \<in> set qs. resolvable reg q))"

lemma deps_met_iff:
  "fst (hw_metaproto_check_deps reg (pl_requires p)
      (int (case pl_requires p of None \<Rightarrow> 0 | Some qs \<Rightarrow> length qs)) None) = HWRUN_OK \<longleftrightarrow> deps_met reg p"
  by (cases "pl_requires p")
     (simp_all add: hw_metaproto_check_deps_def deps_met_def check_deps_loop_None)

lemma conflicting_iff: "conflicting reg p \<longleftrightarrow> (\<exists>q \<in> set (pl_conflicts p). resolvable reg q)"
  by (auto simp: conflicting_def resolvable_def find_None simp del: not_None_eq)

lemma hw_plugin_start_eq:
  "hw_plugin_start al reg p w =
     (if \<not> deps_met reg p then (EILSEQ, reg, p\<lparr>pl_state := ERROR\<rparr>, w, [])
      else if conflicting reg p then (ECONFLICT, reg, p\<lparr>pl_state := ERROR\<rparr>, w, [])
      else
        (case run_op (op_init (pl_ops p)) (hw_plugin_inject_runtime reg p w) of
           (rc, w2) \<Rightarrow>
             if rc \<noteq> HWRUN_OK then (rc, reg, p\<lparr>pl_state := ERROR\<rparr>, w2, [])
             else
               (case plugin_register_provides al reg p (pl_provides p) 0 of
                  (nreg, reg1, _, evs1) \<Rightarrow>
                    if nreg < 0 then
                      (case plugin_unregister_provides reg1 p (- nreg) of
                         (reg2, evs2) \<Rightarrow> (ECONFLICT, reg2, p\<lparr>pl_state := ERROR\<rparr>, w2, evs1 @ evs2))
                    else
                      (case run_op (op_start (pl_ops p)) w2 of
                         (rc, w3) \<Rightarrow>
                           if rc \<noteq> HWRUN_OK then
                             (case plugin_unregister_provides reg1 p (int (length (pl_provides p))) of
                                (reg2, evs2) \<Rightarrow> (rc, reg2, p\<lparr>pl_state := ERROR\<rparr>, w3, evs1 @ evs2))
                           else (HWRUN_OK, reg1, p\<lparr>pl_state := STARTED\<rparr>, w3, evs1)))))"
proof -
  obtain rc out where d: "hw_metaproto_check_deps reg (pl_requires p)
      (int (case pl_requires p of None \<Rightarrow> 0 | Some qs \<Rightarrow> length qs)) None = (rc, out)" by force
  then have "rc = HWRUN_OK \<longleftrightarrow> deps_met reg p" using deps_met_iff [of reg p] by simp
  then show ?thesis unfolding hw_plugin_start_def d Let_def prod.case by (cases "deps_met reg p") (simp_all only: simp_thms if_True if_False)
qed

lemma start_cases:
  assumes "hw_plugin_start al reg p w = (rc, reg', p', w', evs)"
  obtains (refused) "\<not> deps_met reg p \<or> conflicting reg p" "rc \<noteq> HWRUN_OK" "reg' = reg"
      "p' = p\<lparr>pl_state := ERROR\<rparr>" "w' = w"
  | (init) "deps_met reg p" "\<not> conflicting reg p" "rc \<noteq> HWRUN_OK" "reg' = reg" "p' = p\<lparr>pl_state := ERROR\<rparr>"
  | (partial) n reg1 al1 e1 e2 where "deps_met reg p" "\<not> conflicting reg p"
      "plugin_register_provides al reg p (pl_provides p) 0 = (n, reg1, al1, e1)" "n < 0" "rc = ECONFLICT"
      "plugin_unregister_all reg1 (pl_id p) (take (nat (- n)) (pl_provides p)) = (reg', e2)"
      "p' = p\<lparr>pl_state := ERROR\<rparr>"
  | (start) n reg1 al1 e1 e2 where "deps_met reg p" "\<not> conflicting reg p"
      "plugin_register_provides al reg p (pl_provides p) 0 = (n, reg1, al1, e1)" "0 \<le> n" "rc \<noteq> HWRUN_OK"
      "plugin_unregister_all reg1 (pl_id p) (pl_provides p) = (reg', e2)" "p' = p\<lparr>pl_state := ERROR\<rparr>"
  | (ok) n al1 where "deps_met reg p" "\<not> conflicting reg p"
      "plugin_register_provides al reg p (pl_provides p) 0 = (n, reg', al1, evs)" "0 \<le> n" "rc = HWRUN_OK"
      "p' = p\<lparr>pl_state := STARTED\<rparr>"
proof -
  obtain r1 w2 where i: "run_op (op_init (pl_ops p)) (hw_plugin_inject_runtime reg p w) = (r1, w2)" by force
  obtain n reg1 al1 e1 where r: "plugin_register_provides al reg p (pl_provides p) 0 = (n, reg1, al1, e1)"
    by (cases "plugin_register_provides al reg p (pl_provides p) 0") auto
  obtain r3 w3 where s: "run_op (op_start (pl_ops p)) w2 = (r3, w3)" by force
  note eq = assms [unfolded hw_plugin_start_eq i r s prod.case]
  show ?thesis
  proof (cases "deps_met reg p \<and> \<not> conflicting reg p")
    case False
    with eq show ?thesis by (intro refused) (auto split: if_splits)
  next
    case True
    note met = True
    show ?thesis
    proof (cases "r1 = HWRUN_OK")
      case False
      with eq met show ?thesis by (intro init) auto
    next
      case True
      show ?thesis
      proof (cases "n < 0")
        case neg: True
        obtain g e where u: "plugin_unregister_all reg1 (pl_id p) (take (nat (- n)) (pl_provides p)) = (g, e)" by force
        show ?thesis
          by (rule partial [OF _ _ r neg, of e]) (use eq met True neg u in \<open>simp_all add: plugin_unregister_provides_def\<close>)
      next
        case pos: False
        show ?thesis
        proof (cases "r3 = HWRUN_OK")
          case True
          show ?thesis
            by (rule ok [of n al1]) (use eq met \<open>r1 = HWRUN_OK\<close> pos True r in simp_all)
        next
          case False
          obtain g e where u: "plugin_unregister_all reg1 (pl_id p) (pl_provides p) = (g, e)" by force
          show ?thesis
            by (rule start [OF _ _ r, of e])
               (use eq met \<open>r1 = HWRUN_OK\<close> pos False u in \<open>simp_all add: plugin_unregister_provides_def\<close>)
        qed
      qed
    qed
  qed
qed

lemma start_keeps_plugin:
  assumes "hw_plugin_start al reg p w = (rc, reg', p', w', evs)"
  shows "pl_id p' = pl_id p" and "pl_state p' = (if rc = HWRUN_OK then STARTED else ERROR)"
    and "p' = p\<lparr>pl_state := pl_state p'\<rparr>"
  using assms by (cases rule: start_cases; simp)+

lemma register_provides_loop0:
  assumes "reg_wf reg" "m_initialized reg" "short_names p"
    and "plugin_register_provides al reg p (pl_provides p) 0 = (m, reg', al', evs)"
  obtains k where "reg_wf reg'" "m_initialized reg'" "k \<le> length (pl_provides p)"
    "m = (if k = length (pl_provides p) then int k else - int k)"
    "al = [] \<longrightarrow> k = length (pl_provides p)"
    "\<forall>q \<in> set (take k (pl_provides p)). provider reg' (q, pl_id p) \<noteq> None"
    "\<forall>x. x \<notin> (\<lambda>q. (q, pl_id p)) ` set (take k (pl_provides p)) \<longrightarrow> provider reg' x = provider reg x"
proof -
  have s: "length (pl_id p) < 64" "\<forall>q \<in> set (pl_provides p). length q < 64"
    using assms(3) by (auto simp: short_names_def)
  from register_provides_loop [OF assms(1,2) s assms(4) order.refl, unfolded add_0_left] that
  show thesis by blast
qed

text \<open>
  C5. Starting a plugin whose names fit and whose protocols it does not already provide either succeeds
  or leaves the table of providers as it was.  Success means: its dependencies resolved, none of its
  conflicts did, it is STARTED, and all its protocols are registered -- or none, when the first
  registration failed; nobody else's entry changes.  Failure leaves the plugin in ERROR.  The registry
  stays well formed.
\<close>

theorem hw_plugin_start_atomic:
  assumes "reg_wf reg" "m_initialized reg" "short_names p" "\<forall>q \<in> set (pl_provides p). provider reg (q, pl_id p) = None"
    and "hw_plugin_start al reg p w = (rc, reg', p', w', evs)"
  shows "reg_wf reg' \<and>
    (if rc = HWRUN_OK then
       pl_state p' = STARTED \<and> deps_met reg p \<and> \<not> conflicting reg p \<and>
       ((\<forall>q \<in> set (pl_provides p). provider reg' (q, pl_id p) \<noteq> None) \<or> al \<noteq> [] \<and> provider reg' = provider reg) \<and>
       (\<forall>k. k \<notin> own_keys p \<longrightarrow> provider reg' k = provider reg k)
     else pl_state p' = ERROR \<and> provider reg' = provider reg)"
proof -
  note loop = register_provides_loop0 [OF assms(1-3)]
  from assms(5) show ?thesis
  proof (cases rule: start_cases)
    case refused
    with assms(1) show ?thesis by simp
  next
    case init
    with assms(1) show ?thesis by simp
  next
    case (partial n reg1 al1 e1 e2)
    obtain k where wf1: "reg_wf reg1" and k: "n = (if k = length (pl_provides p) then int k else - int k)"
        "\<forall>x. x \<notin> (\<lambda>q. (q, pl_id p)) ` set (take k (pl_provides p)) \<longrightarrow> provider reg1 x = provider reg x"
      by (rule loop [OF partial(3)]) blast
    from k(1) partial(4) have kn: "nat (- n) = k" by (auto split: if_splits)
    note u = unregister_all_provider [OF wf1 partial(6) [unfolded kn]]
    have "provider reg' x = provider reg x" for x
      using u k(2) assms(4) by (cases x) (auto dest: in_set_takeD)
    with u partial(5,7) show ?thesis by (simp add: fun_eq_iff)
  next
    case (start n reg1 al1 e1 e2)
    obtain k where wf1: "reg_wf reg1"
        and k: "\<forall>x. x \<notin> (\<lambda>q. (q, pl_id p)) ` set (take k (pl_provides p)) \<longrightarrow> provider reg1 x = provider reg x"
      by (rule loop [OF start(3)]) blast
    note u = unregister_all_provider [OF wf1 start(6)]
    have "provider reg' x = provider reg x" for x
      using u k assms(4) by (cases x) (auto dest: in_set_takeD)
    with u start(5,7) show ?thesis by (simp add: fun_eq_iff)
  next
    case (ok n al1)
    obtain k where wf1: "reg_wf reg'" and k: "k \<le> length (pl_provides p)"
        "n = (if k = length (pl_provides p) then int k else - int k)"
        "al = [] \<longrightarrow> k = length (pl_provides p)"
        "\<forall>q \<in> set (take k (pl_provides p)). provider reg' (q, pl_id p) \<noteq> None"
        "\<forall>x. x \<notin> (\<lambda>q. (q, pl_id p)) ` set (take k (pl_provides p)) \<longrightarrow> provider reg' x = provider reg x"
      by (rule loop [OF ok(3)]) blast
    from k(2) ok(4) have "k = length (pl_provides p) \<or> k = 0" by (auto split: if_splits)
    then show ?thesis
    proof
      assume "k = length (pl_provides p)"
      with k(4,5) wf1 ok show ?thesis by (simp add: own_keys_def)
    next
      assume "k = 0"
      with k(5) have "provider reg' = provider reg" by (auto simp: \<open>k = 0\<close> fun_eq_iff)
      moreover have "al \<noteq> [] \<or> pl_provides p = []" using k(3) \<open>k = 0\<close> by auto
      ultimately show ?thesis using wf1 ok(1,2,5,6) by (elim disjE) simp_all
    qed
  qed
qed

definition np_plugin :: "nat plugin" where
  "np_plugin = \<lparr>pl_id = ''np'', pl_name = ''np'', pl_version = ''1.0'', pl_type = TYPE_NETWORK,
     pl_state = INSTALLED, pl_description = [], pl_repo_url = [], pl_branch = [], pl_tag = [], pl_hooks = [],
     pl_provides = [''NP''], pl_requires = Some [], pl_conflicts = [''CLUSTER''], pl_files = [], pl_size = 0,
     pl_ops = null_ops\<lparr>op_start := Some (\<lambda>w. (0, w + 1))\<rparr>, pl_handle = 0, pl_runtime_bind = None,
     pl_addr = 9\<rparr>"

theorem hw_plugin_start_atomic_witness:
  "let r = hw_plugin_start [] (snd (hw_metaproto_init None)) np_plugin 0 in
     fst r = HWRUN_OK \<and> provider (fst (snd r)) (''NP'', ''np'') \<noteq> None"
proof -
  let ?r0 = "snd (hw_metaproto_init None)"
  obtain rc reg' p' w' evs where s: "hw_plugin_start [] ?r0 np_plugin 0 = (rc, reg', p', w', evs)"
    by (cases "hw_plugin_start [] ?r0 np_plugin 0") auto
  have rc: "rc = HWRUN_OK"
  proof -
    have "fst (hw_plugin_start [] ?r0 np_plugin 0) = HWRUN_OK" by code_simp
    with s show ?thesis by simp
  qed
  have w: "reg_wf ?r0" "m_initialized ?r0" "short_names np_plugin"
    "\<forall>q \<in> set (pl_provides np_plugin). provider ?r0 (q, pl_id np_plugin) = None" by code_simp+
  have "set (pl_provides np_plugin) = {''NP''}" "pl_id np_plugin = ''np''" by (simp_all add: np_plugin_def)
  with hw_plugin_start_atomic [OF w s] rc s show ?thesis by simp
qed

text \<open>
  When memory runs out at the very first protocol, the failure is taken for success: the plugin is
  STARTED and provides nothing.
\<close>

theorem hw_plugin_start_first_failure_hidden:
  assumes "m_initialized reg" "deps_met reg p" "\<not> conflicting reg p" "pl_provides p \<noteq> []"
    and "provider reg (hd (pl_provides p), pl_id p) = None"
    and "run_op (op_init (pl_ops p)) (hw_plugin_inject_runtime reg p w) = (HWRUN_OK, w2)"
    and "run_op (op_start (pl_ops p)) w2 = (HWRUN_OK, w3)"
  shows "hw_plugin_start (False # al) reg p w = (HWRUN_OK, reg, p\<lparr>pl_state := STARTED\<rparr>, w3, [])"
proof -
  obtain q qs where q: "pl_provides p = q # qs" using assms(4) by (cases "pl_provides p") auto
  have "find (same_provider q (pl_id p)) (routes reg) = None"
    using assms(5) by (simp add: q provider_def)
  then have r: "hw_metaproto_register False reg (Some q) v (Some (pl_id p)) i = (ENOMEM, reg, [])" for v i
    using assms(1) by (simp add: hw_metaproto_register_def)
  have "plugin_register_provides (False # al) reg p (pl_provides p) 0 = (0, reg, al, [])"
    unfolding q by (simp only: plugin_register_provides.simps alloc.simps prod.case Let_def r) simp
  then show ?thesis
    using assms(2,3,6,7) by (simp add: hw_plugin_start_eq)
qed

theorem hw_plugin_start_first_failure_hidden_witness:
  "hw_plugin_start [False] (snd (hw_metaproto_init None)) np_plugin 0 =
     (HWRUN_OK, snd (hw_metaproto_init None), np_plugin\<lparr>pl_state := STARTED\<rparr>, 1, [])"
proof -
  let ?r0 = "snd (hw_metaproto_init None)"
  have a: "m_initialized ?r0" "\<not> conflicting ?r0 np_plugin" "pl_provides np_plugin \<noteq> []"
    "provider ?r0 (hd (pl_provides np_plugin), pl_id np_plugin) = None"
    "run_op (op_init (pl_ops np_plugin)) (hw_plugin_inject_runtime ?r0 np_plugin 0) = (HWRUN_OK, 0)"
    "run_op (op_start (pl_ops np_plugin)) 0 = (HWRUN_OK, 1)" by code_simp+
  have "deps_met ?r0 np_plugin" by (simp add: deps_met_def np_plugin_def)
  from hw_plugin_start_first_failure_hidden [OF a(1) this a(2-6), of "[]"] show ?thesis .
qed

text \<open>
  A plugin whose description requires nothing can never be started: its dependency array is NULL,
  which the dependency check rejects, and the start reports a missing dependency.  A plugin that does
  start after a scan has had none of its code run: the scan leaves its callbacks unset, the world is
  untouched, and what is registered for its protocols is the address of its node.
\<close>

theorem scanned_plugin_start:
  assumes "hw_plugin_start al reg (plugin_of_discovery dir d addr) w = (rc, reg', p', w', evs)"
  shows "w' = w \<and> (y_requires d = [] \<longrightarrow> rc = EILSEQ \<and> reg' = reg \<and> pl_state p' = ERROR) \<and>
    (rc = HWRUN_OK \<longrightarrow> (\<forall>r \<in> set (routes reg'). r \<in> set (routes reg) \<or> r_implementation r = addr))"
proof (intro conjI impI)
  let ?p = "plugin_of_discovery dir d addr :: 'a plugin"
  have ops: "pl_ops ?p = null_ops" "pl_handle ?p = 0" "pl_addr ?p = addr"
    and req: "pl_requires ?p = (if y_requires d = [] then None else Some (y_requires d))"
    by (simp_all add: plugin_of_discovery_def)
  show "w' = w"
    using assms
    by (auto simp: hw_plugin_start_eq ops null_ops_def hw_plugin_inject_runtime_def split: if_splits prod.splits)
  { assume "y_requires d = []"
    then have "\<not> deps_met reg ?p" by (simp add: deps_met_def req)
    with assms have "rc = EILSEQ \<and> reg' = reg \<and> pl_state p' = ERROR"
      by (auto simp: hw_plugin_start_eq) }
  then show "y_requires d = [] \<Longrightarrow> rc = EILSEQ" "y_requires d = [] \<Longrightarrow> reg' = reg"
    "y_requires d = [] \<Longrightarrow> pl_state p' = ERROR" by auto
  have reg1: "\<forall>r \<in> set (routes reg1). r \<in> set (routes reg0) \<or> r_implementation r = addr"
    if "plugin_register_provides al0 reg0 ?p qs n = (m, reg1, al1, evs1)" for al0 reg0 qs n m reg1 al1 evs1
    using that
  proof (induction al0 reg0 ?p qs n arbitrary: m reg1 al1 evs1 rule: plugin_register_provides.induct)
    case 1
    then show ?case by simp
  next
    case (2 al0 reg0 q qs n)
    obtain ok al1' where al: "alloc al0 = (ok, al1')" by force
    obtain rc1 reg2 e1 where r: "hw_metaproto_register ok reg0 (Some q) (Some ''1.0'') (Some (pl_id ?p)) addr = (rc1, reg2, e1)"
      by (cases "hw_metaproto_register ok reg0 (Some q) (Some ''1.0'') (Some (pl_id ?p)) addr") auto
    have impl: "(if (case op_get_interface (pl_ops ?p) of None \<Rightarrow> 0 | Some f \<Rightarrow> f q) \<noteq> 0
        then (case op_get_interface (pl_ops ?p) of None \<Rightarrow> 0 | Some f \<Rightarrow> f q) else pl_addr ?p) = addr"
      by (simp add: ops null_ops_def)
    have step: "\<forall>r \<in> set (routes reg2). r \<in> set (routes reg0) \<or> r_implementation r = addr"
      using r by (auto simp: hw_metaproto_register_def Let_def new_route_def split: bool.splits option.splits if_splits
          dest!: set_update_first)
    show ?case
    proof (cases "rc1 = HWRUN_OK")
      case False
      with "2.prems" al r step impl show ?thesis by (simp add: Let_def)
    next
      case True
      obtain e2 where rest: "plugin_register_provides al1' reg2 ?p qs (n + 1) = (m, reg1, al1, e2)"
        using "2.prems" al r True impl by (auto simp: Let_def split: prod.splits)
      have "\<forall>r \<in> set (routes reg1). r \<in> set (routes reg2) \<or> r_implementation r = addr"
        by (rule "2.hyps" [OF refl al [symmetric] _ refl _ rest]) (use r True impl in simp_all)
      with step show ?thesis by blast
    qed
  qed
  assume "rc = HWRUN_OK"
  with assms show "\<forall>r \<in> set (routes reg'). r \<in> set (routes reg) \<or> r_implementation r = addr"
    by (cases rule: start_cases) (auto dest: reg1)
qed

theorem scanned_plugin_start_witness:
  "fst (hw_plugin_start [] (snd (hw_metaproto_init None))
     (plugin_of_discovery ''/p'' (discovery0\<lparr>y_id := ''np'', y_provides := [''NP'']\<rparr>) 8) (0 :: nat)) = EILSEQ"
proof -
  let ?s = "hw_plugin_start [] (snd (hw_metaproto_init None))
     (plugin_of_discovery ''/p'' (discovery0\<lparr>y_id := ''np'', y_provides := [''NP'']\<rparr>) 8) (0 :: nat)"
  obtain rc reg' p' w' evs where s: "?s = (rc, reg', p', w', evs)" by (cases ?s) auto
  from scanned_plugin_start [OF s] s show ?thesis by (simp add: discovery0_def)
qed

text \<open>
  Stopping a plugin always succeeds, marks it STOPPED and removes exactly the entries it owns from
  the table of providers.
\<close>

theorem hw_plugin_stop_correct:
  assumes "reg_wf reg" and "hw_plugin_stop reg p w = (rc, reg', p', w', evs)"
  shows "rc = HWRUN_OK \<and> pl_state p' = STOPPED \<and> reg_wf reg' \<and>
    (\<forall>k. provider reg' k = (if k \<in> own_keys p then None else provider reg k))"
proof -
  obtain e where u: "plugin_unregister_all reg (pl_id p) (pl_provides p) = (reg', e)"
      and "rc = HWRUN_OK" "pl_state p' = STOPPED"
    using assms(2) by (auto simp: hw_plugin_stop_def Let_def split: prod.splits)
  moreover have "k \<in> own_keys p \<longleftrightarrow> snd k = pl_id p \<and> fst k \<in> set (pl_provides p)" for k
    by (cases k) (auto simp: own_keys_def)
  ultimately show ?thesis using unregister_all_provider [OF assms(1) u] by simp
qed

theorem hw_plugin_stop_correct_witness:
  "\<forall>k. provider (fst (snd (hw_plugin_stop (fst (snd (hw_plugin_start [] (snd (hw_metaproto_init None)) np_plugin 0)))
     np_plugin 1))) k = None"
proof -
  let ?reg = "fst (snd (hw_plugin_start [] (snd (hw_metaproto_init None)) np_plugin 0))"
  have w: "reg_wf ?reg" by code_simp
  have r: "routes ?reg = [new_route ''NP'' (Some ''1.0'') ''np'' 9]" by code_simp
  obtain rc reg' p' w' evs where s: "hw_plugin_stop ?reg np_plugin 1 = (rc, reg', p', w', evs)"
    by (cases "hw_plugin_stop ?reg np_plugin 1") auto
  have "own_keys np_plugin = {(''NP'', ''np'')}" by (simp add: own_keys_def np_plugin_def)
  moreover have "provider ?reg k = None" if "k \<noteq> (''NP'', ''np'')" for k
    using that by (cases k) (auto simp: provider_def r same_provider_key new_route_key)
  ultimately show ?thesis using hw_plugin_stop_correct [OF w s] s by auto
qed

section \<open>The bus as a whole\<close>

lemma find_put_plugin:
  assumes "hw_bus_find bus (Some (pl_id p)) \<noteq> None"
  shows "hw_bus_find (put_plugin bus p) (Some j) = (if j = pl_id p then Some p else hw_bus_find bus (Some j))"
proof (cases "j = pl_id p")
  case True
  have "find (\<lambda>x. pl_id x = pl_id p) (update_first (\<lambda>x. pl_id x = pl_id p) (\<lambda>_. p) (plugins bus)) =
      map_option (\<lambda>_. p) (find (\<lambda>x. pl_id x = pl_id p) (plugins bus))"
    by (rule find_update_first) simp
  with True assms show ?thesis by (auto simp: hw_bus_find_def put_plugin_def)
next
  case False
  have "find (\<lambda>x. pl_id x = j) (update_first (\<lambda>x. pl_id x = pl_id p) (\<lambda>_. p) (plugins bus)) =
      find (\<lambda>x. pl_id x = j) (plugins bus)"
    using False by (intro find_update_first_other) auto
  with False show ?thesis by (simp add: hw_bus_find_def put_plugin_def)
qed

lemma find_id: "hw_bus_find bus (Some i) = Some p \<Longrightarrow> pl_id p = i"
  by (auto simp: hw_bus_find_def dest: find_SomeD)

lemma find_meta [simp]: "hw_bus_find (bus\<lparr>meta := m\<rparr>) x = hw_bus_find bus x"
  "hw_bus_find (bus\<lparr>params := c\<rparr>) x = hw_bus_find bus x"
  by (cases x; simp add: hw_bus_find_def)+

definition settled :: "'w bus \<Rightarrow> string \<Rightarrow> bool" where
  "settled bus i \<longleftrightarrow> (case hw_bus_find bus (Some i) of None \<Rightarrow> True | Some p \<Rightarrow> pl_state p \<in> {STARTED, ERROR})"

text \<open>One round of the boot loop: start the plugin unless it is missing or running.\<close>

definition boot_one :: "allocs \<Rightarrow> 'w bus \<Rightarrow> 'w \<Rightarrow> string \<Rightarrow> 'w bus \<times> 'w \<times> proto_event list" where
  "boot_one al bus w i =
     (case hw_bus_find bus (Some i) of
        None \<Rightarrow> (bus, w, [])
      | Some p \<Rightarrow>
          if pl_state p = STARTED then (bus, w, [])
          else (case hw_plugin_start al (meta bus) p w of
                  (_, reg, p', w', evs) \<Rightarrow> (put_plugin (bus\<lparr>meta := reg\<rparr>) p', w', evs)))"

lemma boot_loop_one:
  "boot_loop alf bus w (i # is) =
     (case boot_one (alf i) bus w i of (b, w', evs) \<Rightarrow>
        (case boot_loop alf b w' is of (b', w'', evs2) \<Rightarrow> (b', w'', evs @ evs2)))"
  by (simp add: boot_one_def split: option.splits prod.splits)

lemma boot_one_find:
  assumes "boot_one al bus w i = (b, w', evs)"
  shows "settled b i" and "j \<noteq> i \<Longrightarrow> hw_bus_find b (Some j) = hw_bus_find bus (Some j)"
proof -
  have "settled b i \<and> (j \<noteq> i \<longrightarrow> hw_bus_find b (Some j) = hw_bus_find bus (Some j))"
  proof (cases "hw_bus_find bus (Some i)")
    case None
    with assms show ?thesis by (simp add: boot_one_def settled_def)
  next
    case (Some p)
    show ?thesis
    proof (cases "pl_state p = STARTED")
      case True
      with Some assms show ?thesis by (simp add: boot_one_def settled_def)
    next
      case False
      obtain rc reg p' where st: "hw_plugin_start al (meta bus) p w = (rc, reg, p', w', evs)"
          and b: "b = put_plugin (bus\<lparr>meta := reg\<rparr>) p'"
        using Some False assms by (auto simp: boot_one_def split: prod.splits)
      note kp = start_keeps_plugin [OF st]
      have fnd: "hw_bus_find (bus\<lparr>meta := reg\<rparr>) (Some (pl_id p')) \<noteq> None"
        using Some find_id [OF Some] by (simp add: kp(1))
      show ?thesis
        using find_put_plugin [OF fnd] kp find_id [OF Some] by (simp add: b settled_def)
    qed
  qed
  then show "settled b i" "j \<noteq> i \<Longrightarrow> hw_bus_find b (Some j) = hw_bus_find bus (Some j)" by auto
qed

lemma settled_cong: "hw_bus_find b (Some j) = hw_bus_find b' (Some j) \<Longrightarrow> settled b j = settled b' j"
  by (simp add: settled_def)

lemma boot_loop_find:
  assumes "boot_loop alf bus w is = (b, w', evs)"
  shows "(\<forall>i \<in> set is. settled b i) \<and> (\<forall>i. i \<notin> set is \<longrightarrow> hw_bus_find b (Some i) = hw_bus_find bus (Some i)) \<and>
    (\<forall>i. settled bus i \<longrightarrow> settled b i)"
  using assms
proof (induction "is" arbitrary: bus w evs)
  case Nil
  then show ?case by simp
next
  case (Cons i "is")
  obtain b1 w1 e1 where one: "boot_one (alf i) bus w i = (b1, w1, e1)" by (cases "boot_one (alf i) bus w i") auto
  obtain e2 where rest: "boot_loop alf b1 w1 is = (b, w', e2)"
    using Cons.prems one unfolding boot_loop_one by (auto split: prod.splits)
  note o = boot_one_find [OF one] and IH = Cons.IH [OF rest]
  have s1: "settled bus j \<Longrightarrow> settled b1 j" for j
    using o(1) settled_cong [of b1 j bus] o(2) [of j] by (cases "j = i") auto
  show ?case using IH o s1 by auto
qed

text \<open>
  After the boot chain every plugin of the boot order that was found is STARTED or in ERROR, and no
  other plugin has been touched.
\<close>

theorem boot_chain_settles:
  assumes "b_initialized bus" and "hw_bus_boot_chain fs an alf ok bus w = (rc, bus', w', evs)"
  shows "rc = HWRUN_OK \<and>
    (\<forall>i \<in> set boot_order. \<forall>p. hw_bus_find bus' (Some i) = Some p \<longrightarrow> pl_state p = STARTED \<or> pl_state p = ERROR) \<and>
    (\<forall>i. \<not> in_boot_order i \<longrightarrow> hw_bus_find bus' (Some i) = hw_bus_find (snd (hw_bus_scan fs an bus)) (Some i))"
proof -
  obtain b1 e1 where l: "boot_loop alf (snd (hw_bus_scan fs an bus)) w boot_order = (b1, w', e1)"
      and bus': "bus' = snd (hw_bus_config_route ok b1)" and rc: "rc = HWRUN_OK"
    using assms by (auto simp: hw_bus_boot_chain_def split: prod.splits)
  have cr: "hw_bus_find bus' x = hw_bus_find b1 x" for x
    by (auto simp: bus' hw_bus_config_route_def split: prod.splits)
  have ib: "in_boot_order i \<longleftrightarrow> i \<in> set boot_order" for i
    by (auto simp: in_boot_order_def find_None simp del: not_None_eq)
  have "\<forall>i \<in> set boot_order. settled b1 i" "\<forall>i. i \<notin> set boot_order \<longrightarrow>
      hw_bus_find b1 (Some i) = hw_bus_find (snd (hw_bus_scan fs an bus)) (Some i)"
    using boot_loop_find [OF l] by blast+
  then show ?thesis
    by (simp add: rc cr ib settled_def split: option.splits)
qed

definition no_fs :: fs where
  "no_fs = \<lparr>fs_list = (\<lambda>_. None), fs_is_dir = (\<lambda>_. False), fs_read = (\<lambda>_. None)\<rparr>"

definition np_bus :: "nat bus" where
  "np_bus = (snd (the (hw_bus_init True [] None None)))\<lparr>plugins := [np_plugin]\<rparr>"

theorem boot_chain_settles_witness:
  "map_option pl_state (hw_bus_find (fst (snd (hw_bus_boot_chain no_fs (\<lambda>_. None) (\<lambda>_. []) True np_bus 0))) (Some ''np''))
     \<in> {None, Some STARTED, Some ERROR}"
proof -
  obtain rc bus' w' evs where b: "hw_bus_boot_chain no_fs (\<lambda>_. None) (\<lambda>_. []) True np_bus 0 = (rc, bus', w', evs)"
    by (cases "hw_bus_boot_chain no_fs (\<lambda>_. None) (\<lambda>_. []) True np_bus 0") auto
  have i: "b_initialized np_bus" by code_simp
  have "''np'' \<in> set boot_order" by (simp add: boot_order_def)
  with boot_chain_settles [OF i b] b show ?thesis by (cases "hw_bus_find bus' (Some ''np'')") auto
qed

definition bus_wf :: "'w bus \<Rightarrow> bool" where
  "bus_wf bus \<longleftrightarrow> distinct (map pl_id (plugins bus)) \<and> (\<forall>p \<in> set (plugins bus). length (pl_id p) < 64)"

text \<open>What a scan may do to the plugin list: put new plugins in front.\<close>

definition scan_extends :: "'w bus \<Rightarrow> 'w bus \<Rightarrow> bool" where
  "scan_extends bus bus' \<longleftrightarrow>
     (bus_wf bus \<longrightarrow> bus_wf bus') \<and>
     (\<exists>new. plugins bus' = new @ plugins bus \<and> (\<forall>p \<in> set new. pl_state p = INSTALLED \<and> pl_id p \<noteq> []))"

lemma scan_extends_refl: "scan_extends bus bus"
  by (auto simp: scan_extends_def)

lemma scan_extends_trans: "scan_extends a b \<Longrightarrow> scan_extends b c \<Longrightarrow> scan_extends a c"
  unfolding scan_extends_def by (elim conjE exE, intro conjI) (auto intro!: exI)

lemma scan_dir_rec_extends: "scan_extends bus (snd (scan_dir_rec fs node bus base sub))"
proof (cases "fs_read fs (fmt_out 512 (fmt_out 512 base sub) ''plugin.yml'')")
  case None
  then show ?thesis by (simp add: scan_dir_rec_def Let_def scan_extends_refl)
next
  case (Some content)
  obtain rc d where d: "hw_yml_parse_plugin (Some content) = (rc, d)" by force
  have id64: "length (y_id d) < 64"
    using yml_parse_bounded_id [of "Some content"] d by simp
  show ?thesis
  proof (cases "rc \<noteq> HWRUN_OK \<or> y_id d = [] \<or> hw_bus_find bus (Some (y_id d)) \<noteq> None \<or> node = None")
    case True
    then show ?thesis using Some d by (auto simp: scan_dir_rec_def Let_def scan_extends_refl)
  next
    case False
    then obtain addr where n: "node = Some addr" by auto
    let ?p = "plugin_of_discovery (fmt_out 512 base sub) d addr :: 'a plugin"
    have p: "pl_id ?p = y_id d" "pl_state ?p = INSTALLED"
      using id64 by (simp_all add: plugin_of_discovery_def cstr_simps)
    have "snd (scan_dir_rec fs node bus base sub) = bus\<lparr>plugins := ?p # plugins bus\<rparr>"
      using Some d False n by (simp add: scan_dir_rec_def Let_def)
    moreover have "y_id d \<notin> pl_id ` set (plugins bus)"
      using False by (auto simp: hw_bus_find_def find_None simp del: not_None_eq)
    ultimately show ?thesis
      using False id64 p by (simp add: scan_extends_def bus_wf_def)
  qed
qed

lemma scan_entries_extends: "scan_extends bus (scan_entries fs an bus dir es)"
proof (induction es arbitrary: bus)
  case (Cons e es)
  have "scan_extends bus (scan_entries fs an (snd (scan_dir_rec fs (an bus) bus dir e)) dir es)"
    by (rule scan_extends_trans [OF scan_dir_rec_extends Cons.IH])
  with Cons.IH [of bus] show ?case by (simp only: scan_entries.simps split: if_split) simp
qed (simp add: scan_extends_refl)

text \<open>
  A scan adds plugins only: the ids in the list stay distinct, no plugin that was known is changed
  or removed, and every new one is INSTALLED and has an id.
\<close>

theorem scan_adds_distinct_plugins:
  assumes "bus_wf bus"
  shows "bus_wf (snd (hw_bus_scan fs an bus)) \<and>
    (\<exists>new. plugins (snd (hw_bus_scan fs an bus)) = new @ plugins bus \<and>
       (\<forall>p \<in> set new. pl_state p = INSTALLED \<and> pl_id p \<noteq> []))"
proof -
  have d: "scan_extends b (snd (scan_dir fs an b dir))" for b dir
    by (cases "fs_list fs dir") (simp_all add: scan_dir_def scan_extends_refl scan_entries_extends)
  have "scan_extends b (foldl (\<lambda>b dir. snd (scan_dir fs an b dir)) b dirs)" for b dirs
  proof (induction dirs arbitrary: b)
    case (Cons x dirs)
    show ?case using scan_extends_trans [OF d Cons.IH] by simp
  qed (simp add: scan_extends_refl)
  then have "scan_extends bus (snd (hw_bus_scan fs an bus))"
    by (simp add: hw_bus_scan_def scan_extends_refl)
  with assms show ?thesis by (simp add: scan_extends_def)
qed

definition one_fs :: fs where
  "one_fs = \<lparr>fs_list = (\<lambda>d. if d = ''/etc/hwrun/plugins'' then Some [''np''] else None), fs_is_dir = (\<lambda>_. True),
     fs_read = (\<lambda>_. Some (''id: np'' @ [NL] @ ''type: network'' @ [NL]))\<rparr>"

theorem scan_adds_distinct_plugins_witness:
  "bus_wf (snd (hw_bus_scan one_fs (\<lambda>_. Some 5) np_bus)) \<and> bus_wf np_bus"
proof -
  have "bus_wf np_bus" by code_simp
  with scan_adds_distinct_plugins [OF this, of one_fs "\<lambda>_. Some 5"] show ?thesis by blast
qed

lemma revision_without_git:
  assumes "hw_bus_resolve bus (Some ''GIT'') = (rc, r)"
    and "\<forall>x. r = Some x \<longrightarrow> rc \<noteq> HWRUN_OK \<or> r_implementation x = 0"
  shows "snd (bus_on_param_revision env bus reason w) = w"
proof (cases r)
  case None
  with assms(1) show ?thesis by (simp add: bus_on_param_revision_def Let_def)
next
  case (Some x)
  have "rc \<noteq> HWRUN_OK \<or> r_implementation x = 0" using assms(2) [rule_format, OF Some] .
  then show ?thesis
    by (elim disjE) (simp_all add: bus_on_param_revision_def assms(1) Some Let_def)
qed

text \<open>
  With the configuration route installed and no other watcher, changing a parameter
  \<^verbatim>\<open><id>.<rest>\<close> through the runtime runs the \<open>configure\<close> callback of the plugin \<open>id\<close>, with the full
  key and the new value, exactly when the write succeeded, that plugin is STARTED and its id fits;
  nothing else happens, as long as GIT has no implementation.
\<close>

theorem param_change_configures_plugin:
  assumes "b_initialized bus" "p_watchers (params bus) = []" "p_root (params bus) = Some t"
    and "\<forall>r. hw_bus_resolve bus (Some ''GIT'') = (HWRUN_OK, Some r) \<longrightarrow> r_implementation r = 0"
    and "p_on_revision (params bus) \<in> {None, Some HOOK_REVISION}"
    and "hw_bus_config_route True bus = (rc0, bus1)"
    and "rt_param_set env al (Some bus1) (Some key) (Some v) ty d w = (rc, bus2, w')"
  shows "rc0 = HWRUN_OK \<and>
    w' = (let i = fst (split_first (CHR ''.'') key) in
          if rc = HWRUN_OK \<and> 0 < length i \<and> length i < 64 then
            (case hw_bus_find bus (Some i) of
               None \<Rightarrow> w
             | Some p \<Rightarrow> if pl_state p = STARTED
                         then (case op_configure (pl_ops p) of None \<Rightarrow> w | Some f \<Rightarrow> snd (f key v w)) else w)
          else w)"
proof -
  let ?watch = "\<lparr>w_plugin_id = ''bus'', w_pattern = [], w_on_change = CB_CONFIG_ROUTE, w_userdata = BUS_PTR\<rparr>"
  let ?ctx1 = "(params bus)\<lparr>p_watchers := [?watch]\<rparr>"
  have bus1: "bus1 = bus\<lparr>params := ?ctx1\<rparr>" and rc0: "rc0 = HWRUN_OK"
    using assms(1,2,6) by (auto simp: hw_bus_config_route_def hw_param_watch_def cstr_simps)
  obtain u al' where st: "param_set al t key v ty d = (rc, u, al')"
    and set: "hw_param_set_value (e_fnmatch env) al ?ctx1 (Some key) (Some v) ty d =
      (rc, ?ctx1\<lparr>p_root := Some u\<rparr>,
       if rc = HWRUN_OK then
         hw_param_notify (e_fnmatch env) (?ctx1\<lparr>p_root := Some u\<rparr>) key
           (case hw_param_find (Some t) (Some key) of
              Some p \<Rightarrow> if pvalue p \<noteq> [] then Some (cstr 256 (pvalue p)) else None | None \<Rightarrow> None) v @
         hw_param_mark_revision (?ctx1\<lparr>p_root := Some u\<rparr>) key
       else [])"
    using assms(3,7) by (auto simp: rt_param_set_def bus1 hw_param_set_value_def Let_def split: prod.splits)
  let ?bus2 = "bus\<lparr>params := ?ctx1\<lparr>p_root := Some u\<rparr>\<rparr>"
  have rev: "snd (bus_on_param_revision env ?bus2 key x) = x" for x
  proof -
    obtain rc1 r1 where res: "hw_bus_resolve bus (Some ''GIT'') = (rc1, r1)" by force
    then have "hw_bus_resolve ?bus2 (Some ''GIT'') = (rc1, r1)" by (simp add: hw_bus_resolve_def)
    then show ?thesis by (rule revision_without_git) (use assms(4) res in auto)
  qed
  have cfg: "config_route_cb ?bus2 key v x =
      (let i = fst (split_first (CHR ''.'') key) in
       if 0 < length i \<and> length i < 64 then
         (case hw_bus_find bus (Some i) of
            None \<Rightarrow> x
          | Some p \<Rightarrow> if pl_state p = STARTED
                      then (case op_configure (pl_ops p) of None \<Rightarrow> x | Some f \<Rightarrow> snd (f key v x)) else x)
       else x)" for x
    by (auto simp: config_route_cb_def Let_def split: option.splits)
  have disp: "snd (foldl (dispatch_event env) (?bus2, x) (hw_param_mark_revision (?ctx1\<lparr>p_root := Some u\<rparr>) key)) = x" for x
    using assms(5) rev [of x] by (auto simp: hw_param_mark_revision_def dispatch_event_def split: prod.splits)
  have "w' = (if rc = HWRUN_OK then config_route_cb ?bus2 key v w else w)"
  proof (cases "rc = HWRUN_OK")
    case True
    then have "w' = snd (foldl (dispatch_event env) (?bus2, config_route_cb ?bus2 key v w)
        (hw_param_mark_revision (?ctx1\<lparr>p_root := Some u\<rparr>) key))"
      using assms(7) set by (simp add: rt_param_set_def bus1 hw_param_notify_def dispatch_event_def split: prod.splits)
    with disp True show ?thesis by simp
  next
    case False
    with assms(7) set show ?thesis by (simp add: rt_param_set_def bus1)
  qed
  with rc0 cfg [of w] show ?thesis by (simp add: Let_def)
qed

definition cfg_bus :: "nat bus" where
  "cfg_bus = (snd (the (hw_bus_init True [] None None)))\<lparr>plugins :=
     [np_plugin\<lparr>pl_state := STARTED, pl_ops := null_ops\<lparr>op_configure := Some (\<lambda>k v w. (0, w + length v))\<rparr>\<rparr>]\<rparr>"

definition cfg_env :: "nat env" where
  "cfg_env = \<lparr>e_fnmatch = (\<lambda>_ _. False), e_watcher = (\<lambda>_ _ _ _ _ w. w),
     e_git = (\<lambda>_. \<lparr>g_add = None, g_commit = None, g_get_auto_commit = None\<rparr>),
     e_can_write = (\<lambda>_ _. True), e_write = (\<lambda>_ _ w. w)\<rparr>"

theorem param_change_configures_plugin_witness:
  "snd (snd (rt_param_set cfg_env [] (Some (snd (hw_bus_config_route True cfg_bus)))
     (Some ''np.port'') (Some ''8080'') 0 None 3)) = 7"
proof -
  obtain bus1 rc0 where c: "hw_bus_config_route True cfg_bus = (rc0, bus1)"
    by (cases "hw_bus_config_route True cfg_bus") auto
  obtain rc bus2 w' where s: "rt_param_set cfg_env [] (Some bus1) (Some ''np.port'') (Some ''8080'') 0 None 3 = (rc, bus2, w')"
    by (cases "rt_param_set cfg_env [] (Some bus1) (Some ''np.port'') (Some ''8080'') 0 None 3") auto
  have a: "b_initialized cfg_bus" "p_watchers (params cfg_bus) = []"
    "p_root (params cfg_bus) = Some (Param ''.'' [] 0 [] [])"
    "p_on_revision (params cfg_bus) \<in> {None, Some HOOK_REVISION}" by code_simp+
  have "map_option r_implementation (snd (hw_bus_resolve cfg_bus (Some ''GIT''))) = Some 0" by code_simp
  then have g: "\<forall>r. hw_bus_resolve cfg_bus (Some ''GIT'') = (HWRUN_OK, Some r) \<longrightarrow> r_implementation r = 0" by auto
  have rc: "rc = HWRUN_OK"
  proof -
    have "fst (rt_param_set cfg_env [] (Some (snd (hw_bus_config_route True cfg_bus)))
        (Some ''np.port'') (Some ''8080'') 0 None 3) = HWRUN_OK" by code_simp
    with c s show ?thesis by simp
  qed
  have f: "hw_bus_find cfg_bus (Some ''np'') = Some (np_plugin\<lparr>pl_state := STARTED,
      pl_ops := null_ops\<lparr>op_configure := Some (\<lambda>k v w. (0, w + length v))\<rparr>\<rparr>)"
    by (simp add: hw_bus_find_def cfg_bus_def np_plugin_def)
  show ?thesis
    using param_change_configures_plugin [OF a(1-3) g a(4) c s] rc c s f by simp
qed

text \<open>
  When the user-space registry does not know a protocol but the kernel does, the fallback answers
  with a kernel-backed route that carries the kernel's version and provider, and an empty protocol name.
\<close>

theorem resolve_falls_back_to_kernel:
  assumes "ioc = KCTL_IOC" "0 \<le> f" "NUL \<notin> set p"
    and "fst (hw_bus_resolve bus (Some p)) \<noteq> HWRUN_OK"
    and "find (\<lambda>e. k_protocol e = cstr 64 p) ks = Some e"
    and "NUL \<notin> set (k_version e)" "NUL \<notin> set (k_provider e)" "k_provider e \<noteq> []"
    and "length (k_version e) < 16" "length (k_provider e) < 64" "k_implementation e < 2 ^ 64"
  shows "hw_bus_resolve_ex (hwrun_device ioc True) f ks bus (Some p) =
    Some (HWRUN_OK, Some \<lparr>r_protocol = [], r_version = k_version e, r_plugin_id = k_provider e,
      r_implementation = 0, r_provider_state = PLUGIN_STARTED, r_kernel_backed = True\<rparr>)"
proof -
  obtain rc out where r: "hw_bus_resolve bus (Some p) = (rc, out)" "rc \<noteq> HWRUN_OK"
    using assms(4) by (cases "hw_bus_resolve bus (Some p)") auto
  obtain kc where c: "hwrun_kctl_open_path (Some ''/dev/hwrun'') f = (HWRUN_OK, kc)" "0 \<le> fd kc"
    using assms(2) by (simp add: hwrun_kctl_open_path_def Let_def)
  have k: "hwrun_protocol_resolve ks (Some (cstr 64 p)) 16 64 = (0, Some (k_version e, k_provider e, k_implementation e))"
    using assms(5,9,10) by (simp add: hwrun_protocol_resolve_def cstr_simps)
  have "hwrun_kctl_protocol_resolve (hwrun_device ioc True) kc ks (Some p) =
      Some (HWRUN_OK, ks, Some \<lparr>d_protocol = [], d_version = k_version e, d_provider = k_provider e,
        d_implementation = k_implementation e\<rparr>)"
    using client_calls(3) [OF c(2) assms(3), of "[]" "[]" True ks] k assms(6-11)
    by (simp add: assms(1) cstr_simps desc_of_reply)
  then show ?thesis
    using r c(1) assms(8-10) by (simp add: hw_bus_resolve_ex_def cstr_simps)
qed

theorem resolve_falls_back_to_kernel_witness:
  "map_option (\<lambda>x. map_option r_protocol (snd x)) (hw_bus_resolve_ex (hwrun_device KCTL_IOC True) 3
     [\<lparr>k_protocol = ''NP'', k_version = ''1.0'', k_provider = ''knp'', k_implementation = 0\<rparr>] np_bus (Some ''NP''))
   = Some (Some [])"
proof -
  have "fst (hw_bus_resolve np_bus (Some ''NP'')) \<noteq> HWRUN_OK" by code_simp
  from resolve_falls_back_to_kernel [OF refl _ _ this,
      of 3 "[\<lparr>k_protocol = ''NP'', k_version = ''1.0'', k_provider = ''knp'', k_implementation = 0\<rparr>]"]
  show ?thesis by (simp add: cstr_simps)
qed

end
