(* ===== verification/Boot.thy ===== *)
theory Boot
  imports Bus
begin

text \<open>
  Booting as a whole: when every plugin finds its protocols among those of the bus and of the plugins started before
  it, and its callbacks succeed, the boot loop of \<^verbatim>\<open>bus/src/bus.c\<close> starts them all.
\<close>

section \<open>Plugins that can start\<close>

definition runs :: "'w plugin \<Rightarrow> bool" where
  "runs p \<longleftrightarrow> (\<forall>w. fst (run_op (op_init (pl_ops p)) w) = HWRUN_OK \<and>
     fst (run_op (op_start (pl_ops p)) (snd (run_op (op_init (pl_ops p)) w))) = HWRUN_OK)"

definition startable :: "'w plugin \<Rightarrow> bool" where
  "startable p \<longleftrightarrow> short_names p \<and> pl_requires p \<noteq> None \<and> pl_conflicts p = [] \<and> pl_state p \<noteq> STARTED \<and> runs p"

lemma runs_null: "pl_ops p = null_ops \<Longrightarrow> runs p"
  by (simp add: runs_def null_ops_def)

text \<open>Every requirement is there when its turn comes; \<open>look\<close> gives what a plugin provides and requires.\<close>

fun order_ok :: "(string \<Rightarrow> (string list \<times> string list) option) \<Rightarrow> string list \<Rightarrow> string list \<Rightarrow> bool" where
  "order_ok look av [] \<longleftrightarrow> True"
| "order_ok look av (i # is) \<longleftrightarrow>
     (case look i of
        None \<Rightarrow> order_ok look av is
      | Some (prov, req) \<Rightarrow> (\<forall>q \<in> set req. q \<in> set av) \<and> order_ok look (prov @ av) is)"

definition needs :: "'w plugin \<Rightarrow> string list \<times> string list" where
  "needs p = (pl_provides p, case pl_requires p of None \<Rightarrow> [] | Some qs \<Rightarrow> qs)"

text \<open>What the callbacks of a start make of the world.\<close>

definition called :: "'w plugin \<Rightarrow> 'w \<Rightarrow> 'w" where
  "called p w = snd (run_op (op_start (pl_ops p)) (snd (run_op (op_init (pl_ops p)) w)))"

section \<open>One start\<close>

lemma resolvable_provider: "provider reg (q, i) \<noteq> None \<Longrightarrow> resolvable reg q"
  by (auto simp: provider_def resolvable_iff same_provider_def dest!: find_SomeD)

lemma resolvable_has_provider:
  assumes "resolvable reg q"
  obtains i where "provider reg (q, i) \<noteq> None"
proof -
  from assms obtain r where "r \<in> set (routes reg)" "r_protocol r = q" by (auto simp: resolvable_iff)
  then have "find (same_provider q (r_plugin_id r)) (routes reg) \<noteq> None"
    by (auto simp: find_None same_provider_def simp del: not_None_eq)
  then show thesis using that by (simp add: provider_def)
qed

lemma start_succeeds:
  assumes "startable p" "reg_wf reg" "m_initialized reg" "\<forall>q \<in> set (snd (needs p)). resolvable reg q"
    and "hw_plugin_start [] reg p w = (rc, reg', p', w', evs)"
  shows "rc = HWRUN_OK \<and> p' = p\<lparr>pl_state := STARTED\<rparr> \<and> reg_wf reg' \<and> m_initialized reg' \<and>
    (\<forall>q \<in> set (pl_provides p). provider reg' (q, pl_id p) \<noteq> None) \<and>
    (\<forall>k. provider reg k \<noteq> None \<longrightarrow> provider reg' k \<noteq> None) \<and> (pl_runtime_bind p = None \<longrightarrow> w' = called p w)"
proof -
  have met: "deps_met reg p" "\<not> conflicting reg p"
    using assms(1,4) by (auto simp: startable_def deps_met_def conflicting_def needs_def)
  obtain n reg1 al1 e1 where r: "plugin_register_provides [] reg p (pl_provides p) 0 = (n, reg1, al1, e1)"
    by (cases "plugin_register_provides [] reg p (pl_provides p) 0") auto
  have short: "short_names p" using assms(1) by (simp add: startable_def)
  obtain k where k: "reg_wf reg1" "m_initialized reg1" "k = length (pl_provides p)" "n = int k"
      "\<forall>q \<in> set (pl_provides p). provider reg1 (q, pl_id p) \<noteq> None"
      "\<forall>x. x \<notin> (\<lambda>q. (q, pl_id p)) ` set (pl_provides p) \<longrightarrow> provider reg1 x = provider reg x"
    by (rule register_provides_loop0 [OF assms(2,3) short r]) auto
  obtain rc1 w2 where i: "run_op (op_init (pl_ops p)) (hw_plugin_inject_runtime reg p w) = (rc1, w2)" by force
  obtain rc2 w3 where s: "run_op (op_start (pl_ops p)) w2 = (rc2, w3)" by force
  have "rc1 = HWRUN_OK" "rc2 = HWRUN_OK"
    using assms(1) i s by (auto simp: startable_def runs_def dest!: spec [of _ "hw_plugin_inject_runtime reg p w"])
  then have "rc = HWRUN_OK" "reg' = reg1" "p' = p\<lparr>pl_state := STARTED\<rparr>" "w' = w3"
    using assms(5) met r k(4) i s by (simp_all add: hw_plugin_start_eq)
  moreover have "w3 = called p w" if "pl_runtime_bind p = None"
  proof -
    have "hw_plugin_inject_runtime reg p w = w" using that by (simp add: hw_plugin_inject_runtime_def)
    with i s show ?thesis by (simp add: called_def)
  qed
  moreover have "provider reg1 x \<noteq> None" if "provider reg x \<noteq> None" for x
  proof (cases "x \<in> (\<lambda>q. (q, pl_id p)) ` set (pl_provides p)")
    case True
    with k(5) show ?thesis by blast
  next
    case False
    with k(6) have "provider reg1 x = provider reg x" by blast
    with that show ?thesis by simp
  qed
  ultimately show ?thesis using k by blast
qed

section \<open>The loop\<close>

definition described :: "(string \<Rightarrow> (string list \<times> string list) option) \<Rightarrow> 'w bus \<Rightarrow> string \<Rightarrow> bool" where
  "described look bus i \<longleftrightarrow>
     (case hw_bus_find bus (Some i) of None \<Rightarrow> look i = None | Some p \<Rightarrow> look i = Some (needs p) \<and> startable p)"

lemma boot_loop_starts:
  assumes "boot_loop (\<lambda>_. []) bus w is = (b, w', evs)" "distinct is" "reg_wf (meta bus)" "m_initialized (meta bus)"
    and "\<forall>i \<in> set is. described look bus i" "\<forall>q \<in> set av. resolvable (meta bus) q" "order_ok look av is"
  shows "reg_wf (meta b) \<and> (\<forall>k. provider (meta bus) k \<noteq> None \<longrightarrow> provider (meta b) k \<noteq> None) \<and>
    (\<forall>i \<in> set is. \<forall>p. hw_bus_find bus (Some i) = Some p \<longrightarrow>
       hw_bus_find b (Some i) = Some (p\<lparr>pl_state := STARTED\<rparr>) \<and> (\<forall>q \<in> set (pl_provides p). provider (meta b) (q, i) \<noteq> None)) \<and>
    ((\<forall>i \<in> set is. \<forall>p. hw_bus_find bus (Some i) = Some p \<longrightarrow> pl_runtime_bind p = None) \<longrightarrow>
     w' = foldl (\<lambda>w i. case hw_bus_find bus (Some i) of None \<Rightarrow> w | Some p \<Rightarrow> called p w) w is)"
  using assms
proof (induction "is" arbitrary: bus w evs av)
  case Nil
  then show ?case by simp
next
  case (Cons i "is")
  obtain b1 w1 e1 where one: "boot_one [] bus w i = (b1, w1, e1)" by (cases "boot_one [] bus w i") auto
  obtain e2 where rest: "boot_loop (\<lambda>_. []) b1 w1 is = (b, w', e2)"
    using Cons.prems(1) one unfolding boot_loop_one by (auto split: prod.splits)
  have other: "j \<noteq> i \<Longrightarrow> hw_bus_find b1 (Some j) = hw_bus_find bus (Some j)" for j by (rule boot_one_find(2) [OF one])
  have d: "\<forall>j \<in> set is. described look b1 j"
  proof
    fix j assume j: "j \<in> set is"
    then have "j \<noteq> i" using Cons.prems(2) by auto
    with j Cons.prems(5) show "described look b1 j" by (simp add: described_def other)
  qed
  show ?case
  proof (cases "hw_bus_find bus (Some i)")
    case None
    then have "b1 = bus" "look i = None" "w1 = w" using one Cons.prems(5) by (simp_all add: boot_one_def described_def)
    then show ?thesis using Cons.IH [OF rest] Cons.prems(2-4,6,7) d None by auto
  next
    case (Some p)
    have look: "look i = Some (needs p)" and p: "startable p" using Cons.prems(5) Some by (simp_all add: described_def)
    obtain rc reg p' where st: "hw_plugin_start [] (meta bus) p w = (rc, reg, p', w1, e1)" and b1: "b1 = put_plugin (bus\<lparr>meta := reg\<rparr>) p'"
      using one Some p by (auto simp: boot_one_def startable_def split: prod.splits)
    have req: "\<forall>q \<in> set (snd (needs p)). resolvable (meta bus) q"
      using Cons.prems(6,7) look by (auto split: prod.splits)
    note s = start_succeeds [OF p Cons.prems(3,4) req st]
    have i: "pl_id p = i" using find_id [OF Some] .
    have m1: "meta b1 = reg" by (simp add: b1 put_plugin_def)
    have "hw_bus_find (bus\<lparr>meta := reg\<rparr>) (Some (pl_id p')) \<noteq> None" using Some s i by simp
    from find_put_plugin [OF this, of i] have f1: "hw_bus_find b1 (Some i) = Some (p\<lparr>pl_state := STARTED\<rparr>)"
      using s i by (simp add: b1)
    have keep: "resolvable reg q" if "resolvable (meta bus) q" for q
      using that s by (metis resolvable_has_provider resolvable_provider)
    have av: "\<forall>q \<in> set (pl_provides p @ av). resolvable (meta b1) q"
      using s m1 Cons.prems(6) keep resolvable_provider by fastforce
    have "order_ok look (pl_provides p @ av) is" using Cons.prems(7) look by (simp add: needs_def)
    from Cons.IH [OF rest _ _ _ d av this] have IH: "reg_wf (meta b) \<and> (\<forall>k. provider reg k \<noteq> None \<longrightarrow> provider (meta b) k \<noteq> None) \<and>
      (\<forall>i \<in> set is. \<forall>p. hw_bus_find b1 (Some i) = Some p \<longrightarrow>
         hw_bus_find b (Some i) = Some (p\<lparr>pl_state := STARTED\<rparr>) \<and> (\<forall>q \<in> set (pl_provides p). provider (meta b) (q, i) \<noteq> None)) \<and>
      ((\<forall>i \<in> set is. \<forall>p. hw_bus_find b1 (Some i) = Some p \<longrightarrow> pl_runtime_bind p = None) \<longrightarrow>
       w' = foldl (\<lambda>w i. case hw_bus_find b1 (Some i) of None \<Rightarrow> w | Some p \<Rightarrow> called p w) w1 is)"
      using Cons.prems(2) s m1 by simp
    have ni: "j \<noteq> i" if "j \<in> set is" for j using that Cons.prems(2) by auto
    then have fold: "foldl (\<lambda>w i. case hw_bus_find b1 (Some i) of None \<Rightarrow> w | Some p \<Rightarrow> called p w) w1 is =
        foldl (\<lambda>w i. case hw_bus_find bus (Some i) of None \<Rightarrow> w | Some p \<Rightarrow> called p w) w1 is"
      using other by (intro foldl_cong) simp_all
    have world: "w' = foldl (\<lambda>w i. case hw_bus_find bus (Some i) of None \<Rightarrow> w | Some p \<Rightarrow> called p w) w (i # is)"
      if nb: "\<forall>j \<in> set (i # is). \<forall>p. hw_bus_find bus (Some j) = Some p \<longrightarrow> pl_runtime_bind p = None"
    proof -
      have "w1 = called p w" using s nb Some by simp
      moreover have "\<forall>j \<in> set is. \<forall>p. hw_bus_find b1 (Some j) = Some p \<longrightarrow> pl_runtime_bind p = None"
        using nb other ni by simp
      ultimately show ?thesis using IH fold Some by simp
    qed
    have "hw_bus_find b (Some i) = hw_bus_find b1 (Some i)"
      using boot_loop_find [OF rest] Cons.prems(2) by simp
    then have here: "hw_bus_find b (Some i) = Some (p\<lparr>pl_state := STARTED\<rparr>)" using f1 by simp
    have prov: "provider (meta b) (q, i) \<noteq> None" if "q \<in> set (pl_provides p)" for q
    proof -
      have "provider reg (q, i) \<noteq> None" using s that i by blast
      then show ?thesis using IH by blast
    qed
    have "hw_bus_find b (Some j) = Some (r\<lparr>pl_state := STARTED\<rparr>) \<and> (\<forall>q \<in> set (pl_provides r). provider (meta b) (q, j) \<noteq> None)"
      if j: "j \<in> set (i # is)" "hw_bus_find bus (Some j) = Some r" for j r
    proof (cases "j = i")
      case True
      then show ?thesis using j(2) Some here prov by simp
    next
      case False
      then have "j \<in> set is" "hw_bus_find b1 (Some j) = Some r" using j other by simp_all
      then show ?thesis using IH by blast
    qed
    moreover have "\<forall>k. provider (meta bus) k \<noteq> None \<longrightarrow> provider (meta b) k \<noteq> None" using s IH by blast
    ultimately show ?thesis using IH world by blast
  qed
qed

lemma called_null: "pl_ops p = null_ops \<Longrightarrow> called p w = w"
  by (simp add: called_def null_ops_def)

end
