(* ===== verification/YmlFile.thy ===== *)
theory YmlFile
  imports Yml
begin

text \<open>
  The form in which the \<^verbatim>\<open>plugin.yml\<close> of the repository's plugins are written, and that \<^verbatim>\<open>bus/src/yml.c\<close> reads it: comments,
  the quoted scalars under \<^verbatim>\<open>plugin:\<close>, the protocols with their versions, the file.
\<close>

section \<open>The form of a file\<close>

record yml_file =
  yf_comments :: "string list"
  yf_head :: "(string \<times> string) list"
  yf_description :: string
  yf_provides :: "string list"
  yf_requires :: "string list"
  yf_no_conflicts :: bool
  yf_file :: string
  yf_newline :: bool

definition dq :: "string \<Rightarrow> string" where
  "dq v = CHR 0x22 # v @ [CHR 0x22]"

definition indented :: "nat \<Rightarrow> string \<Rightarrow> string" where
  "indented n s = replicate n (CHR '' '') @ s"

definition scalar_line :: "string \<times> string \<Rightarrow> string" where
  "scalar_line kv = indented 2 (fst kv @ '': '' @ dq (snd kv))"

definition proto_lines :: "string \<Rightarrow> string list" where
  "proto_lines q = [indented 4 (''- protocol: '' @ dq q), indented 6 (''version: '' @ dq ''1.0'')]"

definition yml_lines :: "yml_file \<Rightarrow> string list" where
  "yml_lines f =
     map (Cons (CHR ''#'')) (yf_comments f) @ [''plugin:''] @ map scalar_line (yf_head f) @
     [[], scalar_line (''description'', yf_description f), [], indented 2 ''provides:''] @ concat (map proto_lines (yf_provides f)) @
     [[], indented 2 ''requires:''] @ concat (map proto_lines (yf_requires f)) @
     (if yf_no_conflicts f then [[], indented 2 ''conflicts: []''] else []) @ [[], indented 2 ''files:'']"

definition yml_text :: "yml_file \<Rightarrow> string" where
  "yml_text f = concat (map (\<lambda>l. l @ [NL]) (yml_lines f)) @ indented 4 (''- '' @ dq (yf_file f)) @ (if yf_newline f then [NL] else [])"

section \<open>Reading a line\<close>

definition ends :: "string \<Rightarrow> bool" where
  "ends e \<longleftrightarrow> e = [] \<or> e = [NL]"

lemma yml_line_indented:
  assumes "body \<noteq> []" "\<not> isblank (hd body)" "last body \<noteq> NL" "last body \<noteq> CR" "ends e"
  shows "yml_line st (indented n body @ e) =
    (if hd body = CHR ''#'' then st
     else if hd body = CHR ''-'' then yml_list_item st body
     else yml_key_line st n (section_name st \<noteq> [] \<and> int n > sec_indent st) body)"
proof -
  let ?nl = "\<lambda>c. c = NL \<or> c = CR"
  have t: "takeWhile isblank (indented n body @ e) = replicate n (CHR '' '')"
    and d: "dropWhile isblank (indented n body @ e) = body @ e"
    using assms(1,2) by (cases body; simp add: indented_def takeWhile_append dropWhile_append isblank_def)+
  have "rtrim ?nl body = body" using assms(1,3,4) by (intro rtrim_id) auto
  then have r: "rtrim ?nl (body @ e) = body" using assms(5) by (auto simp: ends_def)
  have "dropWhile isblank body = body" using assms(1,2) by (cases body) auto
  then have q: "dropWhile isblank (rtrim ?nl (dropWhile isblank (indented n body @ e))) = body" unfolding d r .
  show ?thesis unfolding yml_line_def Let_def q t using assms(1) by simp
qed

lemma yml_line_comment: "yml_line st ((CHR ''#'' # c) @ [NL]) = st"
proof -
  let ?nl = "\<lambda>c. c = NL \<or> c = CR"
  have "\<exists>t. rtrim ?nl (CHR ''#'' # c) = CHR ''#'' # t"
  proof (induction c rule: rev_induct)
    case Nil
    then show ?case using rtrim_id [of "''#''" ?nl] by simp
  next
    case (snoc x c)
    then show ?case using rtrim_snoc [of ?nl "CHR ''#'' # c" x] by (cases "?nl x") auto
  qed
  then obtain t where t: "rtrim ?nl (CHR ''#'' # c) = CHR ''#'' # t" by blast
  have "rtrim ?nl (CHR ''#'' # c @ [NL]) = CHR ''#'' # t" using t rtrim_snoc [of ?nl "CHR ''#'' # c" NL] by simp
  then show ?thesis by (simp add: yml_line_def isblank_def)
qed

lemma yml_line_blank: "yml_line st ([] @ [NL]) = st"
  using rtrim_snoc [of "\<lambda>c. c = NL \<or> c = CR" "[]" NL] by (simp add: yml_line_def isblank_def)

definition key_ok :: "string \<Rightarrow> bool" where
  "key_ok k \<longleftrightarrow> k \<noteq> [] \<and> CHR '':'' \<notin> set k \<and> \<not> isspace (hd k) \<and> \<not> isspace (last k) \<and> hd k \<noteq> CHR ''#'' \<and> hd k \<noteq> CHR ''-''"

lemma trim_dq [simp]: "trim (dq v) = dq v" "trim (CHR '' '' # dq v) = dq v"
proof -
  show "trim (dq v) = dq v" by (simp add: trim_def dq_def trim_by_id isspace_def)
  then show "trim (CHR '' '' # dq v) = dq v" by (simp add: trim_def trim_by_def isspace_def)
qed

lemma unquote_dq [simp]: "unquote (dq v) = v"
  by (simp add: unquote_def dq_def Let_def nth_append)

lemma dq_not [simp]: "dq v \<noteq> []" "dq v \<noteq> ''[]''"
  by (simp_all add: dq_def)

lemma set_str_dq [simp]: "set_str n (dq v) = cstr n v"
  by (simp add: set_str_def)

lemma key_trim: "key_ok k \<Longrightarrow> trim k = k"
  by (simp add: key_ok_def trim_def trim_by_id)

lemma last_dq [simp]: "last (x @ dq v) = CHR 0x22"
  by (simp add: dq_def)

lemma yml_line_scalar:
  assumes "key_ok k"
  shows "yml_line st (indented n (k @ '': '' @ dq v) @ [NL]) =
    (if section_name st = [] \<or> int n \<le> sec_indent st then st\<lparr>disc := set_top_field (disc st) k (dq v)\<rparr> else st)"
proof -
  have h: "hd (k @ '': '' @ dq v) = hd k" using assms by (simp add: key_ok_def)
  have b: "\<not> isblank (hd k)" using assms by (auto simp: key_ok_def isspace_def isblank_def)
  have l: "last (k @ '': '' @ dq v) = CHR 0x22" using last_dq [of "k @ '': ''" v] by simp
  have k: "k \<noteq> []" "hd k \<noteq> CHR ''#''" "hd k \<noteq> CHR ''-''" "CHR '':'' \<notin> set k" using assms by (auto simp: key_ok_def)
  have s: "split_first (CHR '':'') (k @ '': '' @ dq v) = (k, Some (CHR '' '' # dq v))" using k(4) by simp
  show ?thesis
    using yml_line_indented [of "k @ '': '' @ dq v" "[NL]" st n] h b l k s assms
    by (simp add: ends_def yml_key_line_def key_trim not_less)
qed

lemma yml_line_section:
  assumes "key_ok k" "length k < 64" "k \<noteq> ''plugin''"
  shows "yml_line st (indented n (k @ '':'') @ [NL]) = st\<lparr>section_name := k, sec_indent := int n\<rparr>"
proof -
  have b: "\<not> isblank (hd k)" using assms by (auto simp: key_ok_def isspace_def isblank_def)
  have k: "k \<noteq> []" "hd k \<noteq> CHR ''#''" "hd k \<noteq> CHR ''-''" "CHR '':'' \<notin> set k" using assms by (auto simp: key_ok_def)
  have "split_first (CHR '':'') (k @ '':'') = (k, Some [])" using split_first_append [OF k(4), of "[]"] by simp
  then show ?thesis
    using yml_line_indented [of "k @ '':''" "[NL]" st n] b k assms
    by (simp add: ends_def yml_key_line_def key_trim trim_def [of "[]"] cstr_simps)
qed

lemma yml_line_plugin: "yml_line st (''plugin:'' @ [NL]) = st\<lparr>section_name := [], sec_indent := - 1\<rparr>"
proof -
  have s: "split_first (CHR '':'') ''plugin:'' = (''plugin'', Some [])" by simp
  show ?thesis
    using yml_line_indented [of "''plugin:''" "[NL]" st 0]
    by (simp add: indented_def ends_def yml_key_line_def isblank_def s trim_def trim_by_id isspace_def)
qed

lemma yml_line_no_conflicts: "yml_line st (indented 2 ''conflicts: []'' @ [NL]) = st\<lparr>section_name := [], sec_indent := - 1\<rparr>"
proof -
  have t: "trim ''conflicts'' = ''conflicts''" "trim '' []'' = ''[]''"
    by (simp_all add: trim_def trim_by_id trim_by_def [of _ "CHR '' '' # _"] isspace_def rtrim_id)
  have s: "split_first (CHR '':'') ''conflicts: []'' = (''conflicts'', Some '' []'')" by simp
  show ?thesis
    using yml_line_indented [of "''conflicts: []''" "[NL]" st 2]
    by (simp add: ends_def yml_key_line_def isblank_def s t)
qed

lemma yml_line_proto:
  assumes "is_proto_section (section_name st)"
  shows "yml_line st (indented 4 (''- protocol: '' @ dq q) @ [NL]) = st\<lparr>disc := add_to_section (section_name st) (dq q) (disc st)\<rparr>"
proof -
  have l: "last (''- protocol: '' @ dq q) = CHR 0x22" by (rule last_dq)
  have t: "trim (''protocol: '' @ dq q) = ''protocol: '' @ dq q"
    unfolding trim_def by (rule trim_by_id) (simp add: dq_def isspace_def)
  have s: "split_first (CHR '':'') (''protocol: '' @ dq q) = (''protocol'', Some (CHR '' '' # dq q))"
    using split_first_append [of "CHR '':''" "''protocol''" "CHR '' '' # dq q"] by simp
  have "section_name st \<noteq> []" using assms by (auto simp: is_proto_section_def)
  then show ?thesis
    using yml_line_indented [of "''- protocol: '' @ dq q" "[NL]" st 4] l t s assms
    by (simp add: ends_def yml_list_item_def isblank_def)
qed

lemma yml_line_file:
  assumes "is_proto_section (section_name st)" "CHR '':'' \<notin> set q" "ends e"
  shows "yml_line st (indented 4 (''- '' @ dq q) @ e) = st\<lparr>disc := add_to_section (section_name st) (dq q) (disc st)\<rparr>"
proof -
  have l: "last (''- '' @ dq q) = CHR 0x22" by (rule last_dq)
  have s: "split_first (CHR '':'') (dq q) = (dq q, None)" using assms(2) by (simp add: dq_def)
  have "section_name st \<noteq> []" using assms(1) by (auto simp: is_proto_section_def)
  then show ?thesis
    using yml_line_indented [of "''- '' @ dq q" e st 4] l s assms
    by (simp add: ends_def yml_list_item_def isblank_def)
qed

section \<open>Reading a file\<close>

abbreviation run_lines :: "yml_state \<Rightarrow> string list \<Rightarrow> yml_state" where
  "run_lines st ls \<equiv> foldl yml_line st (map (\<lambda>l. l @ [NL]) ls)"

lemma run_comments: "run_lines st (map (Cons (CHR ''#'')) cs) = st"
  by (induction cs) (use yml_line_comment in simp_all)

lemma run_scalars:
  assumes "section_name st = []" "\<forall>kv \<in> set kvs. key_ok (fst kv)"
  shows "run_lines st (map scalar_line kvs) = st\<lparr>disc := foldl (\<lambda>d kv. set_top_field d (fst kv) (dq (snd kv))) (disc st) kvs\<rparr>"
  using assms
  by (induction kvs arbitrary: st) (auto simp: scalar_line_def yml_line_scalar [simplified])

lemma version_key: "key_ok ''version''" "key_ok ''description''" "key_ok ''provides''" "key_ok ''requires''" "key_ok ''files''"
  by (simp_all add: key_ok_def isspace_def)

lemma run_protos:
  assumes "is_proto_section (section_name st)" "sec_indent st = 2"
  shows "run_lines st (concat (map proto_lines qs)) =
    st\<lparr>disc := foldl (\<lambda>d q. add_to_section (section_name st) (dq q) d) (disc st) qs\<rparr>"
  using assms
proof (induction qs arbitrary: st)
  case (Cons q qs)
  have ne: "section_name st \<noteq> []" using Cons.prems(1) by (auto simp: is_proto_section_def)
  let ?st = "st\<lparr>disc := add_to_section (section_name st) (dq q) (disc st)\<rparr>"
  have "run_lines st (proto_lines q) = ?st"
    using yml_line_proto [OF Cons.prems(1), of q] yml_line_scalar [OF version_key(1), of ?st 6 "''1.0''"] Cons.prems ne
    by (simp add: proto_lines_def)
  then show ?case using Cons.IH [of ?st] Cons.prems by simp
qed simp

lemma add_provides:
  "length (y_provides d) + length qs \<le> 32 \<Longrightarrow> \<forall>q \<in> set qs. q \<noteq> [] \<Longrightarrow>
   foldl (\<lambda>d q. add_to_section ''provides'' (dq q) d) d qs = d\<lparr>y_provides := y_provides d @ qs\<rparr>"
  by (induction qs arbitrary: d) (simp_all add: add_to_section_def add_str_def)

lemma add_requires:
  "length (y_requires d) + length qs \<le> 32 \<Longrightarrow> \<forall>q \<in> set qs. q \<noteq> [] \<Longrightarrow>
   foldl (\<lambda>d q. add_to_section ''requires'' (dq q) d) d qs = d\<lparr>y_requires := y_requires d @ qs\<rparr>"
  by (induction qs arbitrary: d) (simp_all add: add_to_section_def add_str_def)

lemma scalars_keep_lists:
  "y_provides (foldl (\<lambda>d kv. set_top_field d (fst kv) (dq (snd kv))) d kvs) = y_provides d"
  "y_requires (foldl (\<lambda>d kv. set_top_field d (fst kv) (dq (snd kv))) d kvs) = y_requires d"
  "y_files (foldl (\<lambda>d kv. set_top_field d (fst kv) (dq (snd kv))) d kvs) = y_files d"
  by (induction kvs arbitrary: d) (simp_all add: set_top_field_def)

definition yml_file_ok :: "yml_file \<Rightarrow> bool" where
  "yml_file_ok f \<longleftrightarrow>
     (\<forall>l \<in> set (yml_lines f). NL \<notin> set l \<and> length l < 1023) \<and> (\<forall>kv \<in> set (yf_head f). key_ok (fst kv)) \<and>
     length (yf_provides f) \<le> 32 \<and> length (yf_requires f) \<le> 32 \<and> [] \<notin> set (yf_provides f) \<and> [] \<notin> set (yf_requires f) \<and>
     yf_file f \<noteq> [] \<and> NL \<notin> set (yf_file f) \<and> CHR '':'' \<notin> set (yf_file f) \<and> length (yf_file f) < 1000"

definition yml_meaning :: "yml_file \<Rightarrow> discovery" where
  "yml_meaning f =
     (foldl (\<lambda>d kv. set_top_field d (fst kv) (dq (snd kv))) discovery0 (yf_head f @ [(''description'', yf_description f)]))
       \<lparr>y_provides := yf_provides f, y_requires := yf_requires f, y_files := [yf_file f]\<rparr>"

lemma fgets_rest: "NL \<notin> set l \<Longrightarrow> length l \<le> n \<Longrightarrow> fgets n l = (l, [])"
  by (induction n l rule: fgets.induct) auto

lemma fgets_all_rest: "NL \<notin> set l \<Longrightarrow> l \<noteq> [] \<Longrightarrow> length l + 1 < cap \<Longrightarrow> fgets_all cap l = [l]"
  by (subst fgets_all.simps) (simp add: fgets_rest)

lemma yml_text_lines:
  assumes "yml_file_ok f"
  shows "fgets_all 1024 (yml_text f) = map (\<lambda>l. l @ [NL]) (yml_lines f) @ [indented 4 (''- '' @ dq (yf_file f)) @ (if yf_newline f then [NL] else [])]"
proof -
  let ?l = "indented 4 (''- '' @ dq (yf_file f))"
  have l: "NL \<notin> set ?l" "length ?l + 1 < 1024" "?l \<noteq> []"
    using assms by (simp_all add: yml_file_ok_def indented_def dq_def)
  have "fgets_all 1024 (?l @ (if yf_newline f then [NL] else [])) = [?l @ (if yf_newline f then [NL] else [])]"
    using l fgets_all_line [OF l(1,2), of "[]"] fgets_all_rest [of ?l 1024] by simp
  then show ?thesis
    using assms fgets_all_lines [of "yml_lines f" 1024] by (simp add: yml_text_def yml_file_ok_def)
qed

lemma yml_file_reads:
  assumes "yml_file_ok f"
  shows "hw_yml_parse_plugin (Some (yml_text f)) = (HWRUN_OK, yml_meaning f)"
proof -
  let ?kvs = "yf_head f @ [(''description'', yf_description f)]"
  let ?d = "foldl (\<lambda>d kv. set_top_field d (fst kv) (dq (snd kv))) discovery0 ?kvs"
  have k: "\<forall>kv \<in> set (yf_head f). key_ok (fst kv)" using assms by (simp add: yml_file_ok_def)
  have e: "y_provides ?d = []" "y_requires ?d = []" "y_files ?d = []"
    using scalars_keep_lists [of discovery0 ?kvs] by (simp_all add: discovery0_def)
  have protos: "length (yf_provides f) \<le> 32" "length (yf_requires f) \<le> 32" "\<forall>q \<in> set (yf_provides f). q \<noteq> []" "\<forall>q \<in> set (yf_requires f). q \<noteq> []"
    using assms by (auto simp: yml_file_ok_def)
  note sec = yml_line_section [OF version_key(3)] yml_line_section [OF version_key(4)] yml_line_section [OF version_key(5)]
  let ?st1 = "\<lparr>section_name = [], sec_indent = - 1, disc = foldl (\<lambda>d kv. set_top_field d (fst kv) (dq (snd kv))) discovery0 (yf_head f)\<rparr>"
  let ?st2 = "\<lparr>section_name = ''provides'', sec_indent = 2, disc = ?d\<rparr>"
  let ?st3 = "\<lparr>section_name = ''requires'', sec_indent = 2, disc = ?d\<lparr>y_provides := yf_provides f\<rparr>\<rparr>"
  let ?st4 = "\<lparr>section_name = ''files'', sec_indent = 2, disc = ?d\<lparr>y_provides := yf_provides f, y_requires := yf_requires f\<rparr>\<rparr>"
  have head: "run_lines yml_init (map (Cons (CHR ''#'')) (yf_comments f) @ [''plugin:''] @ map scalar_line (yf_head f)) = ?st1"
    using run_comments [of yml_init] yml_line_plugin [of yml_init] run_scalars [of "\<lparr>section_name = [], sec_indent = - 1, disc = discovery0\<rparr>" "yf_head f"] k
    by (simp add: yml_init_def)
  have prov: "run_lines ?st1 [[], scalar_line (''description'', yf_description f), [], indented 2 ''provides:''] = ?st2"
    using yml_line_blank yml_line_scalar [OF version_key(2), of ?st1 2 "yf_description f"] sec(1) [of _ 2] by (simp add: scalar_line_def)
  have "run_lines ?st2 (concat (map proto_lines (yf_provides f))) = ?st2\<lparr>disc := ?d\<lparr>y_provides := yf_provides f\<rparr>\<rparr>"
    using run_protos [of ?st2 "yf_provides f"] add_provides [of ?d "yf_provides f"] protos e by (simp add: is_proto_section_def)
  then have req: "run_lines ?st2 (concat (map proto_lines (yf_provides f)) @ [[], indented 2 ''requires:'']) = ?st3"
    using yml_line_blank sec(2) [of _ 2] by simp
  let ?st3' = "?st3\<lparr>disc := ?d\<lparr>y_provides := yf_provides f, y_requires := yf_requires f\<rparr>\<rparr>"
  have r: "run_lines ?st3 (concat (map proto_lines (yf_requires f))) = ?st3'"
    using run_protos [of ?st3 "yf_requires f"] add_requires [of "?d\<lparr>y_provides := yf_provides f\<rparr>" "yf_requires f"] protos e
    by (simp add: is_proto_section_def)
  have fin: "run_lines ?st3' ((if yf_no_conflicts f then [[], indented 2 ''conflicts: []''] else []) @ [[], indented 2 ''files:'']) = ?st4"
    using yml_line_blank yml_line_no_conflicts sec(3) [of _ 2] by simp
  have lines: "run_lines yml_init (yml_lines f) = ?st4"
    using head prov req r fin by (simp only: yml_lines_def foldl_append map_append append_assoc)
  have "yml_line ?st4 (indented 4 (''- '' @ dq (yf_file f)) @ (if yf_newline f then [NL] else [])) =
      ?st4\<lparr>disc := add_to_section ''files'' (dq (yf_file f)) (disc ?st4)\<rparr>"
    using yml_line_file [of ?st4 "yf_file f" "if yf_newline f then [NL] else []"] assms
    by (simp add: is_proto_section_def ends_def yml_file_ok_def)
  then show ?thesis
    using yml_text_lines [OF assms] lines assms e
    by (simp add: hw_yml_parse_plugin_def yml_meaning_def add_to_section_def add_str_def yml_file_ok_def)
qed

text \<open>
  C25. A \<^verbatim>\<open>plugin.yml\<close> in the form of the repository is read completely: the scalars of its head, each cut to its
  buffer, the description, the protocols in their order without their versions, and the file, whatever the comments
  say, with or without a line feed at the end.
\<close>

theorem yml_file_read:
  assumes "yml_file_ok f"
  shows "hw_yml_parse_plugin (Some (yml_text f)) = (HWRUN_OK, yml_meaning f)"
  using assms by (rule yml_file_reads)

definition demo_yml :: yml_file where
  "demo_yml = \<lparr>yf_comments = ['' a file''], yf_head = [(''id'', ''a b''), (''version'', ''2'')], yf_description = ''say: hello'', yf_provides = [''P'', ''Q''],
     yf_requires = [''LOG''], yf_no_conflicts = True, yf_file = ''a.so'', yf_newline = False\<rparr>"

theorem yml_file_read_witness:
  "y_id (snd (hw_yml_parse_plugin (Some (yml_text demo_yml)))) = ''a b'' \<and> y_provides (snd (hw_yml_parse_plugin (Some (yml_text demo_yml)))) = [''P'', ''Q'']"
proof -
  have "yml_file_ok demo_yml" by code_simp
  from yml_file_read [OF this] show ?thesis
    by (simp add: yml_meaning_def demo_yml_def set_top_field_def discovery0_def cstr_simps)
qed

end
