(* ===== verification/ShippedYml.thy ===== *)
theory ShippedYml
  imports YmlFile
begin

text \<open>
  The \<^verbatim>\<open>plugin.yml\<close> of the fifteen plugins of the repository, in the form of \<open>YmlFile\<close>.  The comments at the top of the
  file of plugin \<open>i\<close> are left open as \<open>cm i\<close>.
\<close>

definition utf8 :: "nat list \<Rightarrow> string" where
  "utf8 ns = map char_of ns"

definition git_yml :: "(string \<Rightarrow> string list) \<Rightarrow> yml_file" where
  "git_yml cm =
     \<lparr>yf_comments = cm ''git'', yf_head = [(''id'', ''git''), (''name'', (''Git '' @
       utf8 [0xE7, 0x89, 0x88, 0xE6, 0x9C, 0xAC, 0xE6, 0x8E, 0xA7, 0xE5, 0x88, 0xB6])), (''version'', ''1.0.0''), (''type'', ''git'')],
      yf_description =
       (utf8 [0xE7, 0xB3, 0xBB, 0xE7, 0xBB, 0x9F] @
       '' Git '' @
       utf8 [0xE5, 0x91, 0xBD, 0xE4, 0xBB, 0xA4, 0xE7, 0x9A, 0x84, 0xE5, 0xB0, 0x81, 0xE8, 0xA3, 0x85, 0xE5, 0xB1, 0x82] @
       '' + '' @
       utf8 [0xE5, 0xAE, 0xA1, 0xE8, 0xAE, 0xA1, 0xE6, 0x97, 0xA5, 0xE5, 0xBF, 0x97] @
       '' + '' @
       utf8 [0xE8, 0x87, 0xAA, 0xE5, 0x8A, 0xA8, 0xE5, 0x8E, 0x86, 0xE5, 0x8F, 0xB2, 0xE7, 0xAE, 0xA1, 0xE7, 0x90, 0x86]),
      yf_provides = [''GIT''], yf_requires = [''LOG'', ''PARAM'', ''METAPROTO''],
      yf_no_conflicts = False, yf_file = ''build/git.so'', yf_newline = True\<rparr>"

definition hap_yml :: "(string \<Rightarrow> string list) \<Rightarrow> yml_file" where
  "hap_yml cm =
     \<lparr>yf_comments = cm ''hap'', yf_head = [(''id'', ''hap''), (''name'', ''Hardware Abstraction Protocol''), (''version'', ''1.0.0''), (''type'', ''kernel'')],
      yf_description =
       (''HWRun OS '' @
       utf8 [0xE7, 0xA1, 0xAC, 0xE4, 0xBB, 0xB6, 0xE6, 0x8A, 0xBD, 0xE8, 0xB1, 0xA1, 0xE5, 0x8D, 0x8F, 0xE8, 0xAE, 0xAE, 0xEF, 0xBC, 0x9A, 0xE7, 0xBB, 0x9F, 0xE4, 0xB8, 0x80, 0xE8, 0xAE, 0xBF, 0xE9, 0x97, 0xAE] @
       '' CPU'' @
       utf8 [0xE3, 0x80, 0x81, 0xE5, 0x86, 0x85, 0xE5, 0xAD, 0x98, 0xE3, 0x80, 0x81, 0xE7, 0xA3, 0x81, 0xE7, 0x9B, 0x98, 0xE3, 0x80, 0x81, 0xE7, 0xBD, 0x91, 0xE7, 0xBB, 0x9C, 0xE4, 0xB8, 0x8E, 0xE7, 0xB3, 0xBB, 0xE7, 0xBB, 0x9F, 0xE4, 0xBF, 0xA1, 0xE6, 0x81, 0xAF]),
      yf_provides = [''HAP''], yf_requires = [''LOG'', ''PARAM'', ''METAPROTO''],
      yf_no_conflicts = False, yf_file = ''build/hap.so'', yf_newline = True\<rparr>"

definition pmp_yml :: "(string \<Rightarrow> string list) \<Rightarrow> yml_file" where
  "pmp_yml cm =
     \<lparr>yf_comments = cm ''pmp'', yf_head = [(''id'', ''pmp''), (''name'', ''Process Management Protocol''), (''version'', ''1.0.0''), (''type'', ''kernel''), (''author'', ''HWRun OS''), (''license'', ''GPL'')],
      yf_description =
       (''HWRun OS '' @
       utf8 [0xE8, 0xBF, 0x9B, 0xE7, 0xA8, 0x8B, 0xE7, 0xAE, 0xA1, 0xE7, 0x90, 0x86, 0xE5, 0x8D, 0x8F, 0xE8, 0xAE, 0xAE, 0xEF, 0xBC, 0x8C, 0xE6, 0x8F, 0x90, 0xE4, 0xBE, 0x9B, 0xE8, 0xBF, 0x9B, 0xE7, 0xA8, 0x8B, 0xE5, 0x88, 0x9B, 0xE5, 0xBB, 0xBA, 0xE3, 0x80, 0x81, 0xE6, 0x8E, 0xA7, 0xE5, 0x88, 0xB6, 0xE3, 0x80, 0x81, 0xE7, 0xAD, 0x89, 0xE5, 0xBE, 0x85, 0xE3, 0x80, 0x81, 0xE4, 0xBF, 0xA1, 0xE5, 0x8F, 0xB7, 0xE3, 0x80, 0x81, 0xE8, 0xB0, 0x83, 0xE5, 0xBA, 0xA6, 0xE3, 0x80, 0x81, 0xE4, 0xBA, 0xB2, 0xE5, 0x92, 0x8C, 0xE6, 0x80, 0xA7, 0xE4, 0xB8, 0x8E, 0xE4, 0xBB, 0xBB, 0xE5, 0x8A, 0xA1, 0xE7, 0xAE, 0xA1, 0xE7, 0x90, 0x86]),
      yf_provides = [''PMP''], yf_requires = [''HAP'', ''LOG'', ''PARAM'', ''METAPROTO''],
      yf_no_conflicts = False, yf_file = ''build/pmp.so'', yf_newline = True\<rparr>"

definition fsp_yml :: "(string \<Rightarrow> string list) \<Rightarrow> yml_file" where
  "fsp_yml cm =
     \<lparr>yf_comments = cm ''fsp'', yf_head = [(''id'', ''fsp''), (''name'', ''FileSystem Protocol''), (''version'', ''1.0.0''), (''type'', ''fs'')],
      yf_description =
       (''HWRun OS '' @
       utf8 [0xE6, 0x96, 0x87, 0xE4, 0xBB, 0xB6, 0xE7, 0xB3, 0xBB, 0xE7, 0xBB, 0x9F, 0xE5, 0x8D, 0x8F, 0xE8, 0xAE, 0xAE, 0xEF, 0xBC, 0x9A, 0xE6, 0x96, 0x87, 0xE4, 0xBB, 0xB6, 0xE3, 0x80, 0x81, 0xE7, 0x9B, 0xAE, 0xE5, 0xBD, 0x95, 0xE3, 0x80, 0x81, 0xE6, 0x9D, 0x83, 0xE9, 0x99, 0x90, 0xE3, 0x80, 0x81, 0xE8, 0xB7, 0xAF, 0xE5, 0xBE, 0x84, 0xE3, 0x80, 0x81, 0xE6, 0x8C, 0x82, 0xE8, 0xBD, 0xBD, 0xE6, 0x93, 0x8D, 0xE4, 0xBD, 0x9C]),
      yf_provides = [''FSP''], yf_requires = [''HAP'', ''PMP'', ''LOG'', ''PARAM'', ''METAPROTO''],
      yf_no_conflicts = False, yf_file = ''build/fsp.so'', yf_newline = True\<rparr>"

definition np_yml :: "(string \<Rightarrow> string list) \<Rightarrow> yml_file" where
  "np_yml cm =
     \<lparr>yf_comments = cm ''np'', yf_head = [(''id'', ''np''), (''name'', ''Network Protocol''), (''version'', ''1.0.0''), (''type'', ''network'')],
      yf_description =
       (''HWRun OS '' @
       utf8 [0xE7, 0xBD, 0x91, 0xE7, 0xBB, 0x9C, 0xE5, 0x8D, 0x8F, 0xE8, 0xAE, 0xAE, 0xEF, 0xBC, 0x9A, 0xE6, 0x8F, 0x90, 0xE4, 0xBE, 0x9B] @
       '' socket'' @
       utf8 [0xE3, 0x80, 0x81] @
       ''TCP/UDP/UNIX'' @
       utf8 [0xE3, 0x80, 0x81, 0xE5, 0x90, 0x8D, 0xE7, 0xA7, 0xB0, 0xE8, 0xA7, 0xA3, 0xE6, 0x9E, 0x90, 0xE3, 0x80, 0x81, 0xE7, 0xBD, 0x91, 0xE7, 0xBB, 0x9C, 0xE6, 0x8E, 0xA5, 0xE5, 0x8F, 0xA3, 0xE6, 0x9E, 0x9A, 0xE4, 0xB8, 0xBE, 0xE7, 0xAD, 0x89, 0xE7, 0xBD, 0x91, 0xE7, 0xBB, 0x9C, 0xE5, 0x8A, 0x9F, 0xE8, 0x83, 0xBD, 0xE7, 0x9A, 0x84, 0xE7, 0xBB, 0x9F, 0xE4, 0xB8, 0x80, 0xE6, 0x8A, 0xBD, 0xE8, 0xB1, 0xA1]),
      yf_provides = [''NP''], yf_requires = [''HAP'', ''LOG'', ''PARAM'', ''METAPROTO''],
      yf_no_conflicts = True, yf_file = ''build/np.so'', yf_newline = True\<rparr>"

definition sp_yml :: "(string \<Rightarrow> string list) \<Rightarrow> yml_file" where
  "sp_yml cm =
     \<lparr>yf_comments = cm ''sp'', yf_head = [(''id'', ''sp''), (''name'', ''Security Protocol''), (''version'', ''1.0.0''), (''type'', ''security'')],
      yf_description =
       (''HWRun OS '' @
       utf8 [0xE5, 0xAE, 0x89, 0xE5, 0x85, 0xA8, 0xE5, 0x8D, 0x8F, 0xE8, 0xAE, 0xAE, 0xEF, 0xBC, 0x9A, 0xE8, 0xAE, 0xA4, 0xE8, 0xAF, 0x81, 0xE3, 0x80, 0x81, 0xE6, 0x8E, 0x88, 0xE6, 0x9D, 0x83, 0xE3, 0x80, 0x81, 0xE5, 0xAF, 0xB9, 0xE7, 0xA7, 0xB0, 0xE5, 0x8A, 0xA0, 0xE5, 0xAF, 0x86, 0xEF, 0xBC, 0x88] @
       ''AES-256-CBC+HMAC'' @
       utf8 [0xEF, 0xBC, 0x89, 0xE3, 0x80, 0x81, 0xE5, 0x93, 0x88, 0xE5, 0xB8, 0x8C, 0xE3, 0x80, 0x81, 0xE7, 0xAD, 0xBE, 0xE5, 0x90, 0x8D, 0xE3, 0x80, 0x81, 0xE5, 0xAF, 0x86, 0xE9, 0x92, 0xA5, 0xE7, 0xAE, 0xA1, 0xE7, 0x90, 0x86, 0xE4, 0xB8, 0x8E, 0xE5, 0xAE, 0x8C, 0xE6, 0x95, 0xB4, 0xE6, 0x80, 0xA7, 0xE6, 0xA0, 0xA1, 0xE9, 0xAA, 0x8C]),
      yf_provides = [''SP''], yf_requires = [''PMP'', ''FSP'', ''HAP'', ''LOG'', ''PARAM'', ''METAPROTO''],
      yf_no_conflicts = False, yf_file = ''build/sp.so'', yf_newline = True\<rparr>"

definition crypto_yml :: "(string \<Rightarrow> string list) \<Rightarrow> yml_file" where
  "crypto_yml cm =
     \<lparr>yf_comments = cm ''crypto'', yf_head = [(''id'', ''crypto''), (''name'', ''Cryptographic Protocol (SP submodule)''), (''version'', ''1.0.0''), (''type'', ''crypto'')],
      yf_description =
       (''HWRun OS '' @
       utf8 [0xE5, 0x8A, 0xA0, 0xE5, 0xAF, 0x86, 0xE5, 0x8D, 0x8F, 0xE8, 0xAE, 0xAE, 0xEF, 0xBC, 0x8C, 0xE6, 0x8F, 0x90, 0xE4, 0xBE, 0x9B, 0xE5, 0xAF, 0xB9, 0xE7, 0xA7, 0xB0] @
       ''/'' @
       utf8 [0xE9, 0x9D, 0x9E, 0xE5, 0xAF, 0xB9, 0xE7, 0xA7, 0xB0, 0xE5, 0x8A, 0xA0, 0xE5, 0xAF, 0x86, 0xE3, 0x80, 0x81, 0xE5, 0x93, 0x88, 0xE5, 0xB8, 0x8C, 0xE3, 0x80, 0x81] @
       ''HMAC'' @
       utf8 [0xE3, 0x80, 0x81, 0xE7, 0xAD, 0xBE, 0xE5, 0x90, 0x8D, 0xE3, 0x80, 0x81, 0xE5, 0xAF, 0x86, 0xE9, 0x92, 0xA5, 0xE7, 0xAE, 0xA1, 0xE7, 0x90, 0x86, 0xE4, 0xB8, 0x8E, 0xE5, 0xAE, 0x89, 0xE5, 0x85, 0xA8, 0xE9, 0x9A, 0x8F, 0xE6, 0x9C, 0xBA, 0xE6, 0x95, 0xB0]),
      yf_provides = [''CRYPTO''], yf_requires = [''SP'', ''PARAM'', ''LOG'', ''METAPROTO''],
      yf_no_conflicts = True, yf_file = ''build/crypto.so'', yf_newline = True\<rparr>"

definition loader_yml :: "(string \<Rightarrow> string list) \<Rightarrow> yml_file" where
  "loader_yml cm =
     \<lparr>yf_comments = cm ''loader'', yf_head = [(''id'', ''loader''), (''name'', ''Executable Loader Protocol''), (''version'', ''1.0.0''), (''type'', ''loader'')],
      yf_description =
       (''HWRun OS '' @
       utf8 [0xE5, 0x8F, 0xAF, 0xE6, 0x89, 0xA7, 0xE8, 0xA1, 0x8C, 0xE6, 0x96, 0x87, 0xE4, 0xBB, 0xB6, 0xE5, 0x8A, 0xA0, 0xE8, 0xBD, 0xBD, 0xE5, 0x8D, 0x8F, 0xE8, 0xAE, 0xAE, 0xEF, 0xBC, 0x9A, 0xE6, 0xA3, 0x80, 0xE6, 0xB5, 0x8B] @
       '' / '' @
       utf8 [0xE5, 0x8A, 0xA0, 0xE8, 0xBD, 0xBD] @
       '' / '' @
       utf8 [0xE8, 0xBF, 0x90, 0xE8, 0xA1, 0x8C, 0xE5, 0x90, 0x84, 0xE7, 0xB1, 0xBB, 0xE5, 0x8F, 0xAF, 0xE6, 0x89, 0xA7, 0xE8, 0xA1, 0x8C, 0xE6, 0xA0, 0xBC, 0xE5, 0xBC, 0x8F]),
      yf_provides = [''LOADER''], yf_requires = [''HAP'', ''PMP'', ''FSP'', ''LOG'', ''PARAM'', ''METAPROTO''],
      yf_no_conflicts = False, yf_file = ''build/loader.so'', yf_newline = True\<rparr>"

definition compress_yml :: "(string \<Rightarrow> string list) \<Rightarrow> yml_file" where
  "compress_yml cm =
     \<lparr>yf_comments = cm ''compress'', yf_head = [(''id'', ''compress''), (''name'', ''Compression Protocol''), (''version'', ''1.0.0''), (''type'', ''service'')],
      yf_description =
       (''HWRun OS '' @
       utf8 [0xE5, 0x8E, 0x8B, 0xE7, 0xBC, 0xA9, 0xE5, 0x8D, 0x8F, 0xE8, 0xAE, 0xAE, 0xEF, 0xBC, 0x8C, 0xE6, 0x8F, 0x90, 0xE4, 0xBE, 0x9B, 0xE7, 0xBC, 0x93, 0xE5, 0x86, 0xB2] @
       ''/'' @
       utf8 [0xE6, 0x96, 0x87, 0xE4, 0xBB, 0xB6, 0xE5, 0x8E, 0x8B, 0xE7, 0xBC, 0xA9, 0xE3, 0x80, 0x81, 0xE8, 0xA7, 0xA3, 0xE5, 0x8E, 0x8B, 0xE4, 0xB8, 0x8E, 0xE6, 0xA0, 0xBC, 0xE5, 0xBC, 0x8F, 0xE8, 0xAF, 0x86, 0xE5, 0x88, 0xAB, 0xE7, 0x9A, 0x84, 0xE7, 0xBB, 0x9F, 0xE4, 0xB8, 0x80, 0xE6, 0x8A, 0xBD, 0xE8, 0xB1, 0xA1, 0xEF, 0xBC, 0x88] @
       ''zlib+zstd'' @
       utf8 [0xEF, 0xBC, 0x89]),
      yf_provides = [''COMPRESS''], yf_requires = [''LOG'', ''PARAM'', ''METAPROTO''],
      yf_no_conflicts = True, yf_file = ''build/compress.so'', yf_newline = True\<rparr>"

definition storage_yml :: "(string \<Rightarrow> string list) \<Rightarrow> yml_file" where
  "storage_yml cm =
     \<lparr>yf_comments = cm ''storage'', yf_head = [(''id'', ''storage''), (''name'', ''Storage Backend Protocol''), (''version'', ''1.0.0''), (''type'', ''storage'')],
      yf_description =
       (''HWRun OS '' @
       utf8 [0xE5, 0xAD, 0x98, 0xE5, 0x82, 0xA8, 0xE5, 0x90, 0x8E, 0xE7, 0xAB, 0xAF, 0xE5, 0x8D, 0x8F, 0xE8, 0xAE, 0xAE, 0xEF, 0xBC, 0x8C, 0xE6, 0x8F, 0x90, 0xE4, 0xBE, 0x9B, 0xE7, 0x94, 0xA8, 0xE6, 0x88, 0xB7, 0xE6, 0x80, 0x81, 0xE5, 0x8D, 0xB7, 0xE7, 0xAE, 0xA1, 0xE7, 0x90, 0x86, 0xEF, 0xBC, 0x9A, 0xE7, 0x9B, 0xAE, 0xE5, 0xBD, 0x95, 0xE5, 0x8D, 0xB7, 0xE6, 0xB3, 0xA8, 0xE5, 0x86, 0x8C, 0xE8, 0xA1, 0xA8] @
       ''/'' @
       utf8 [0xE7, 0x94, 0x9F, 0xE5, 0x91, 0xBD, 0xE5, 0x91, 0xA8, 0xE6, 0x9C, 0x9F] @
       ''/'' @
       utf8 [0xE7, 0xBB, 0x9F, 0xE8, 0xAE, 0xA1, 0xE4, 0xB8, 0x8E, 0xE5, 0xBF, 0xAB, 0xE7, 0x85, 0xA7]),
      yf_provides = [''STORAGE''], yf_requires = [''LOG'', ''PARAM'', ''METAPROTO''],
      yf_no_conflicts = True, yf_file = ''build/storage.so'', yf_newline = True\<rparr>"

definition permission_yml :: "(string \<Rightarrow> string list) \<Rightarrow> yml_file" where
  "permission_yml cm =
     \<lparr>yf_comments = cm ''permission'', yf_head = [(''id'', ''permission''), (''name'', ''Permission Management Protocol''), (''version'', ''1.0.0''), (''type'', ''security'')],
      yf_description =
       (''HWRun OS '' @
       utf8 [0xE6, 0x9D, 0x83, 0xE9, 0x99, 0x90, 0xE7, 0xAE, 0xA1, 0xE7, 0x90, 0x86, 0xE5, 0x8D, 0x8F, 0xE8, 0xAE, 0xAE, 0xEF, 0xBC, 0x8C, 0xE7, 0x94, 0xA8, 0xE6, 0x88, 0xB7, 0xE6, 0x80, 0x81] @
       '' RBAC'' @
       utf8 [0xEF, 0xBC, 0x9A, 0xE8, 0xA7, 0x92, 0xE8, 0x89, 0xB2] @
       ''/'' @
       utf8 [0xE4, 0xB8, 0xBB, 0xE4, 0xBD, 0x93, 0xE7, 0xBB, 0x91, 0xE5, 0xAE, 0x9A] @
       ''/('' @
       utf8 [0xE5, 0x8A, 0xA8, 0xE4, 0xBD, 0x9C] @
       '','' @
       utf8 [0xE8, 0xB5, 0x84, 0xE6, 0xBA, 0x90] @
       '')'' @
       utf8 [0xE5, 0x88, 0xA4, 0xE6, 0x9D, 0x83, 0xEF, 0xBC, 0x8C, 0xE9, 0xBB, 0x98, 0xE8, 0xAE, 0xA4, 0xE6, 0x8B, 0x92, 0xE7, 0xBB, 0x9D, 0xEF, 0xBC, 0x8C, 0xE7, 0xAD, 0x96, 0xE7, 0x95, 0xA5, 0xE8, 0x90, 0xBD, 0xE7, 0x9B, 0x98, 0xE5, 0x8F, 0xAF, 0xE6, 0x81, 0xA2, 0xE5, 0xA4, 0x8D]),
      yf_provides = [''PERMISSION''], yf_requires = [''LOG'', ''PARAM'', ''METAPROTO''],
      yf_no_conflicts = True, yf_file = ''build/permission.so'', yf_newline = True\<rparr>"

definition terminal_yml :: "(string \<Rightarrow> string list) \<Rightarrow> yml_file" where
  "terminal_yml cm =
     \<lparr>yf_comments = cm ''terminal'', yf_head = [(''id'', ''terminal''), (''name'', ''Terminal Protocol''), (''version'', ''1.0.0''), (''type'', ''tools'')],
      yf_description =
       (''HWRun OS '' @
       utf8 [0xE7, 0xBB, 0x88, 0xE7, 0xAB, 0xAF, 0xE5, 0x8D, 0x8F, 0xE8, 0xAE, 0xAE, 0xEF, 0xBC, 0x8C, 0xE6, 0x8F, 0x90, 0xE4, 0xBE, 0x9B] @
       '' PTY '' @
       utf8 [0xE4, 0xBC, 0x9A, 0xE8, 0xAF, 0x9D, 0xE7, 0xAE, 0xA1, 0xE7, 0x90, 0x86, 0xE3, 0x80, 0x81, 0xE7, 0xBB, 0x88, 0xE7, 0xAB, 0xAF, 0xE6, 0x8E, 0xA7, 0xE5, 0x88, 0xB6, 0xE4, 0xB8, 0x8E, 0xE7, 0xBB, 0x88, 0xE7, 0xAB, 0xAF] @
       '' I/O'' @
       utf8 [0xEF, 0xBC, 0x88, 0xE4, 0xBC, 0xAA, 0xE7, 0xBB, 0x88, 0xE7, 0xAB, 0xAF, 0xEF, 0xBC, 0x8C, 0xE7, 0x94, 0xA8, 0xE6, 0x88, 0xB7, 0xE6, 0x80, 0x81, 0xE7, 0xBA, 0xAF] @
       '' POSIX'' @
       utf8 [0xEF, 0xBC, 0x89]),
      yf_provides = [''TERMINAL''], yf_requires = [''LOG'', ''PARAM'', ''METAPROTO''],
      yf_no_conflicts = True, yf_file = ''build/terminal.so'', yf_newline = False\<rparr>"

definition audit_yml :: "(string \<Rightarrow> string list) \<Rightarrow> yml_file" where
  "audit_yml cm =
     \<lparr>yf_comments = cm ''audit'', yf_head = [(''id'', ''audit''), (''name'', ''Audit Protocol''), (''version'', ''1.0.0''), (''type'', ''security'')],
      yf_description =
       (''HWRun OS '' @
       utf8 [0xE5, 0xAE, 0xA1, 0xE8, 0xAE, 0xA1, 0xE5, 0x8D, 0x8F, 0xE8, 0xAE, 0xAE, 0xEF, 0xBC, 0x88, 0xE7, 0x94, 0xA8, 0xE6, 0x88, 0xB7, 0xE6, 0x80, 0x81, 0xE4, 0xBA, 0x8B, 0xE4, 0xBB, 0xB6, 0xE5, 0xAE, 0xA1, 0xE8, 0xAE, 0xA1, 0xEF, 0xBC, 0x89, 0xEF, 0xBC, 0x9A, 0xE4, 0xBA, 0x8B, 0xE4, 0xBB, 0xB6, 0xE8, 0xAE, 0xB0, 0xE5, 0xBD, 0x95, 0xE3, 0x80, 0x81, 0xE6, 0x9D, 0xA1, 0xE4, 0xBB, 0xB6, 0xE6, 0x9F, 0xA5, 0xE8, 0xAF, 0xA2, 0xE3, 0x80, 0x81, 0xE5, 0xAF, 0xBC, 0xE5, 0x87, 0xBA, 0xE4, 0xB8, 0x8E, 0xE5, 0xAE, 0xB9, 0xE9, 0x87, 0x8F, 0xE6, 0xBB, 0x9A, 0xE5, 0x8A, 0xA8]),
      yf_provides = [''AUDIT''], yf_requires = [''LOG'', ''PARAM'', ''METAPROTO''],
      yf_no_conflicts = True, yf_file = ''build/audit.so'', yf_newline = True\<rparr>"

definition console_yml :: "(string \<Rightarrow> string list) \<Rightarrow> yml_file" where
  "console_yml cm =
     \<lparr>yf_comments = cm ''console'', yf_head = [(''id'', ''console''), (''name'', ''System Console''), (''version'', ''1.0.0''), (''type'', ''tools'')],
      yf_description =
       (''HWRun OS '' @
       utf8 [0xE7, 0xB3, 0xBB, 0xE7, 0xBB, 0x9F, 0xE6, 0x8E, 0xA7, 0xE5, 0x88, 0xB6, 0xE5, 0x8F, 0xB0, 0xEF, 0xBC, 0x8C, 0xE6, 0x8F, 0x90, 0xE4, 0xBE, 0x9B, 0xE4, 0xBC, 0x9A, 0xE8, 0xAF, 0x9D, 0xE7, 0xAE, 0xA1, 0xE7, 0x90, 0x86, 0xE3, 0x80, 0x81] @
       ''banner'' @
       utf8 [0xE3, 0x80, 0x81, 0xE9, 0x80, 0x90, 0xE8, 0xA1, 0x8C] @
       ''/'' @
       utf8 [0xE5, 0x8E, 0x9F, 0xE5, 0xA7, 0x8B] @
       '' I/O'' @
       utf8 [0xE3, 0x80, 0x81, 0xE7, 0x8A, 0xB6, 0xE6, 0x80, 0x81, 0xE4, 0xB8, 0x8A, 0xE6, 0x8A, 0xA5, 0xE4, 0xB8, 0x8E, 0xE5, 0x8F, 0xAF, 0xE6, 0x8C, 0x82, 0xE6, 0x8E, 0xA5, 0xE7, 0xBB, 0x88, 0xE7, 0xAB, 0xAF, 0xE8, 0xBE, 0x93, 0xE5, 0x87, 0xBA, 0xEF, 0xBC, 0x88, 0xE8, 0xAF, 0xBB, 0xE7, 0xBB, 0x88, 0xE7, 0xAB, 0xAF, 0xE6, 0x8A, 0xBD, 0xE8, 0xB1, 0xA1, 0xEF, 0xBC, 0x8C, 0xE9, 0x9B, 0xB6, 0xE5, 0x86, 0x85, 0xE6, 0xA0, 0xB8, 0xE4, 0xBE, 0x9D, 0xE8, 0xB5, 0x96, 0xEF, 0xBC, 0x89]),
      yf_provides = [''CONSOLE''], yf_requires = [''LOG'', ''PARAM'', ''METAPROTO''],
      yf_no_conflicts = True, yf_file = ''build/console.so'', yf_newline = False\<rparr>"

definition shell_yml :: "(string \<Rightarrow> string list) \<Rightarrow> yml_file" where
  "shell_yml cm =
     \<lparr>yf_comments = cm ''shell'', yf_head = [(''id'', ''shell''), (''name'', ''Shell Interpreter''), (''version'', ''1.0.0''), (''type'', ''tools'')],
      yf_description =
       (''HWRun OS '' @
       utf8 [0xE5, 0x91, 0xBD, 0xE4, 0xBB, 0xA4, 0xE8, 0xA1, 0x8C, 0xE8, 0xA7, 0xA3, 0xE9, 0x87, 0x8A, 0xE5, 0x99, 0xA8] @
       '' SHELL '' @
       utf8 [0xE5, 0x8D, 0x8F, 0xE8, 0xAE, 0xAE, 0xEF, 0xBC, 0x8C, 0xE6, 0x8F, 0x90, 0xE4, 0xBE, 0x9B, 0xE5, 0x91, 0xBD, 0xE4, 0xBB, 0xA4, 0xE8, 0xA7, 0xA3, 0xE6, 0x9E, 0x90, 0xE3, 0x80, 0x81, 0xE5, 0x86, 0x85, 0xE7, 0xBD, 0xAE, 0xE5, 0x91, 0xBD, 0xE4, 0xBB, 0xA4, 0xE3, 0x80, 0x81, 0xE5, 0x8E, 0x86, 0xE5, 0x8F, 0xB2, 0xE3, 0x80, 0x81, 0xE5, 0x88, 0xAB, 0xE5, 0x90, 0x8D, 0xE4, 0xB8, 0x8E, 0xE5, 0xA4, 0x96, 0xE9, 0x83, 0xA8, 0xE5, 0x91, 0xBD, 0xE4, 0xBB, 0xA4, 0xE6, 0x89, 0xA7, 0xE8, 0xA1, 0x8C]),
      yf_provides = [''SHELL''], yf_requires = [''LOG'', ''PARAM'', ''METAPROTO''],
      yf_no_conflicts = True, yf_file = ''build/shell.so'', yf_newline = False\<rparr>"

definition shipped_ymls :: "(string \<Rightarrow> string list) \<Rightarrow> yml_file list" where
  "shipped_ymls cm = map (\<lambda>f. f cm)
     [git_yml, hap_yml, pmp_yml, fsp_yml, np_yml, sp_yml, crypto_yml, loader_yml, compress_yml, storage_yml, permission_yml, terminal_yml, audit_yml, console_yml, shell_yml]"

lemmas yml_defs = git_yml_def hap_yml_def pmp_yml_def fsp_yml_def np_yml_def sp_yml_def crypto_yml_def loader_yml_def compress_yml_def
  storage_yml_def permission_yml_def terminal_yml_def audit_yml_def console_yml_def shell_yml_def

lemma length_utf8 [simp]: "length (utf8 ns) = length ns"
  by (simp add: utf8_def)

lemma NL_utf8 [simp]: "NL \<notin> set (utf8 ns)" if "\<forall>n \<in> set ns. 128 \<le> n \<and> n < 256"
proof
  assume "NL \<in> set (utf8 ns)"
  then obtain n where n: "n \<in> set ns" "NL = char_of n" by (auto simp: utf8_def)
  then have "(of_char NL :: nat) = of_char (char_of n :: char)" by simp
  then show False using that n(1) by auto
qed

definition comments_ok :: "(string \<Rightarrow> string list) \<Rightarrow> bool" where
  "comments_ok cm \<longleftrightarrow> (\<forall>i. \<forall>c \<in> set (cm i). NL \<notin> set c \<and> length c < 1000)"

text \<open>Every file is in the form that is read, and what it says of the plugin.\<close>

lemma yml_line_lengths:
  "length (scalar_line kv) = length (fst kv) + length (snd kv) + 6" "NL \<in> set (scalar_line kv) \<longleftrightarrow> NL \<in> set (fst kv) \<or> NL \<in> set (snd kv)"
  "l \<in> set (proto_lines q) \<Longrightarrow> length l \<le> length q + 22 \<and> (NL \<in> set l \<longrightarrow> NL \<in> set q)"
  by (auto simp: scalar_line_def proto_lines_def indented_def dq_def)

definition short_text :: "string \<Rightarrow> bool" where
  "short_text s \<longleftrightarrow> NL \<notin> set s \<and> length s < 900"

lemma yml_file_okI:
  assumes "comments_ok cm" "yf_comments f = cm i"
    and "\<forall>kv \<in> set (yf_head f). key_ok (fst kv) \<and> NL \<notin> set (fst kv) \<and> length (fst kv) < 20 \<and> short_text (snd kv)" "short_text (yf_description f)"
    and "\<forall>q \<in> set (yf_provides f @ yf_requires f). q \<noteq> [] \<and> short_text q" "length (yf_provides f) \<le> 32" "length (yf_requires f) \<le> 32"
    and "yf_file f \<noteq> []" "CHR '':'' \<notin> set (yf_file f)" "short_text (yf_file f)"
  shows "yml_file_ok f"
proof -
  have "NL \<notin> set l \<and> length l < 1023" if l: "l \<in> set (yml_lines f)" for l
  proof -
    consider (comment) c where "c \<in> set (cm i)" "l = CHR ''#'' # c" | (head) kv where "kv \<in> set (yf_head f)" "l = scalar_line kv"
      | (desc) "l = scalar_line (''description'', yf_description f)" | (proto) q where "q \<in> set (yf_provides f @ yf_requires f)" "l \<in> set (proto_lines q)"
      | (fixed) "l \<in> {''plugin:'', [], indented 2 ''provides:'', indented 2 ''requires:'', indented 2 ''conflicts: []'', indented 2 ''files:''}"
      using l assms(2) by (auto simp: yml_lines_def split: if_splits)
    then show ?thesis
    proof cases
      case comment
      with assms(1) show ?thesis by (force simp: comments_ok_def)
    next
      case head
      with assms(3) show ?thesis by (fastforce simp: yml_line_lengths short_text_def)
    next
      case desc
      with assms(4) show ?thesis by (simp add: yml_line_lengths short_text_def)
    next
      case proto
      with assms(5) yml_line_lengths(3) [OF proto(2)] show ?thesis by (fastforce simp: short_text_def)
    next
      case fixed
      then show ?thesis by (auto simp: indented_def)
    qed
  qed
  then show ?thesis using assms by (auto simp: yml_file_ok_def short_text_def)
qed

lemma shipped_ymls_ok:
  assumes "comments_ok cm"
  shows "\<forall>f \<in> set (shipped_ymls cm). yml_file_ok f"
proof -
  note ok = yml_file_okI [OF assms]
  have "yml_file_ok (git_yml cm)" "yml_file_ok (hap_yml cm)" "yml_file_ok (pmp_yml cm)" "yml_file_ok (fsp_yml cm)" "yml_file_ok (np_yml cm)"
    by (rule ok, simp add: yml_defs, simp_all add: yml_defs key_ok_def isspace_def short_text_def)+
  moreover have "yml_file_ok (sp_yml cm)" "yml_file_ok (crypto_yml cm)" "yml_file_ok (loader_yml cm)" "yml_file_ok (compress_yml cm)" "yml_file_ok (storage_yml cm)"
    by (rule ok, simp add: yml_defs, simp_all add: yml_defs key_ok_def isspace_def short_text_def)+
  moreover have "yml_file_ok (permission_yml cm)" "yml_file_ok (terminal_yml cm)" "yml_file_ok (audit_yml cm)" "yml_file_ok (console_yml cm)" "yml_file_ok (shell_yml cm)"
    by (rule ok, simp add: yml_defs, simp_all add: yml_defs key_ok_def isspace_def short_text_def)+
  ultimately show ?thesis by (simp add: shipped_ymls_def)
qed

definition summary :: "yml_file \<Rightarrow> string \<times> string \<times> hwplugin_type \<times> string list \<times> string list \<times> string list" where
  "summary f =
     (let d = yml_meaning f in (y_id d, y_version d, hw_type_from_str (Some (y_type d)), y_provides d, y_requires d, y_conflicts d))"

lemma shipped_summaries:
  "map summary (shipped_ymls cm) =
     [(''git'', ''1.0.0'', TYPE_GIT, [''GIT''], [''LOG'', ''PARAM'', ''METAPROTO''], []),
      (''hap'', ''1.0.0'', TYPE_KERNEL, [''HAP''], [''LOG'', ''PARAM'', ''METAPROTO''], []),
      (''pmp'', ''1.0.0'', TYPE_KERNEL, [''PMP''], [''HAP'', ''LOG'', ''PARAM'', ''METAPROTO''], []),
      (''fsp'', ''1.0.0'', TYPE_FS, [''FSP''], [''HAP'', ''PMP'', ''LOG'', ''PARAM'', ''METAPROTO''], []),
      (''np'', ''1.0.0'', TYPE_NETWORK, [''NP''], [''HAP'', ''LOG'', ''PARAM'', ''METAPROTO''], []),
      (''sp'', ''1.0.0'', TYPE_SECURITY, [''SP''], [''PMP'', ''FSP'', ''HAP'', ''LOG'', ''PARAM'', ''METAPROTO''], []),
      (''crypto'', ''1.0.0'', TYPE_CRYPTO, [''CRYPTO''], [''SP'', ''PARAM'', ''LOG'', ''METAPROTO''], []),
      (''loader'', ''1.0.0'', TYPE_LOADER, [''LOADER''], [''HAP'', ''PMP'', ''FSP'', ''LOG'', ''PARAM'', ''METAPROTO''], []),
      (''compress'', ''1.0.0'', TYPE_UNKNOWN, [''COMPRESS''], [''LOG'', ''PARAM'', ''METAPROTO''], []),
      (''storage'', ''1.0.0'', TYPE_STORAGE, [''STORAGE''], [''LOG'', ''PARAM'', ''METAPROTO''], []),
      (''permission'', ''1.0.0'', TYPE_SECURITY, [''PERMISSION''], [''LOG'', ''PARAM'', ''METAPROTO''], []),
      (''terminal'', ''1.0.0'', TYPE_TOOLS, [''TERMINAL''], [''LOG'', ''PARAM'', ''METAPROTO''], []),
      (''audit'', ''1.0.0'', TYPE_SECURITY, [''AUDIT''], [''LOG'', ''PARAM'', ''METAPROTO''], []),
      (''console'', ''1.0.0'', TYPE_TOOLS, [''CONSOLE''], [''LOG'', ''PARAM'', ''METAPROTO''], []),
      (''shell'', ''1.0.0'', TYPE_TOOLS, [''SHELL''], [''LOG'', ''PARAM'', ''METAPROTO''], [])]"
  by (simp add: shipped_ymls_def yml_defs summary_def Let_def yml_meaning_def set_top_field_def cstr_simps discovery0_def hw_type_from_str_def)

end
