(* ===== verification/AuditLog.thy ===== *)
theory AuditLog
  imports Interfaces
begin

text \<open>
  The AUDIT plugin, \<^verbatim>\<open>audit/src/audit_impl.c\<close>: an append-only event log in text lines, rotated through
  numbered segment files, with queries, export and status.

  The record \<open>store\<close> is the plugin's context together with the files of the file system, a map from
  paths to contents (a file that cannot be opened for reading is not in the map).  The outcomes of the
  operating system's calls in one append are the record \<open>aio\<close>; the current time is an argument.
  Sizes and sequence numbers are below \<open>2 ^ 64\<close>, with the wrap-around written out.
\<close>

section \<open>Event lines\<close>

record event =
  ev_seq :: nat
  ev_ts :: int
  ev_result :: int
  ev_subject :: string
  ev_action :: string
  ev_target :: string
  ev_detail :: string

abbreviation BSL :: char where "BSL \<equiv> CHR 0x5C"
abbreviation BAR :: char where "BAR \<equiv> CHR 0x7C"

definition esc_pair :: "char \<Rightarrow> string option" where
  "esc_pair c =
     (if c = BSL then Some [BSL, BSL]
      else if c = BAR then Some [BSL, BAR]
      else if c = NL then Some [BSL, CHR ''n'']
      else if c = CR then Some [BSL, CHR ''r'']
      else None)"

text \<open>\<open>room\<close> is \<open>cap - o\<close>, the bytes left in the output.\<close>

fun fmt_esc :: "nat \<Rightarrow> string \<Rightarrow> string" where
  "fmt_esc room [] = []"
| "fmt_esc room (c # s) =
     (case esc_pair c of
        Some two \<Rightarrow> if room \<le> 2 then [] else two @ fmt_esc (room - 2) s
      | None \<Rightarrow> if room \<le> 1 then [] else c # fmt_esc (room - 1) s)"

text \<open>The line, or \<^const>\<open>None\<close> (length 0) when it does not fit.\<close>

definition fmt_line :: "event \<Rightarrow> nat \<Rightarrow> string option" where
  "fmt_line ev cap =
     (let subj = fmt_esc (64 * 2 + 1) (ev_subject ev);
          act = fmt_esc (64 * 2 + 1) (ev_action ev);
          tgt = fmt_esc (256 * 2 + 1) (ev_target ev);
          det = fmt_esc (512 * 2 + 1) (ev_detail ev);
          s = show_nat (ev_seq ev) @ [BAR] @ show_int (ev_ts ev) @ [BAR] @ subj @ [BAR] @ act @ [BAR] @
              tgt @ [BAR] @ show_int (ev_result ev) @ [BAR] @ det @ [NL]
      in if length s \<ge> cap then None else Some s)"

definition unesc :: "char \<Rightarrow> char option" where
  "unesc e =
     (if e = BSL then Some BSL
      else if e = BAR then Some BAR
      else if e = CHR ''n'' then Some NL
      else if e = CHR ''r'' then Some CR
      else None)"

text \<open>
  The field and what follows its separator; \<^const>\<open>None\<close> is \<^verbatim>\<open>-EILSEQ\<close>.  \<open>room\<close> is \<open>cap - o\<close> again and
  the string is the line from \<^verbatim>\<open>*pos\<close> on.
\<close>

fun esc_field :: "nat \<Rightarrow> string \<Rightarrow> (string \<times> string) option" where
  "esc_field room [] = Some ([], [])"
| "esc_field room (c # s) =
     (if c = BAR then Some ([], s)
      else if c = BSL then
        (case s of
           [] \<Rightarrow> None
         | e # t \<Rightarrow>
             (case unesc e of
                None \<Rightarrow> None
              | Some d \<Rightarrow>
                  if room \<le> 1 then None
                  else map_option (\<lambda>(f, r). (d # f, r)) (esc_field (room - 1) t)))
      else if room \<le> 1 then None
      else map_option (\<lambda>(f, r). (c # f, r)) (esc_field (room - 1) s))"

definition parse_event :: "string \<Rightarrow> event option" where
  "parse_event line =
     (let l = rtrim (\<lambda>c. c = NL \<or> c = CR) line in
      if l = [] then None
      else
        (case esc_field 32 l of None \<Rightarrow> None | Some (n1, l1) \<Rightarrow>
         case strtoull n1 of (sq, e1) \<Rightarrow>
         if e1 \<noteq> [] \<or> sq = 0 then None
         else
        (case esc_field 32 l1 of None \<Rightarrow> None | Some (n2, l2) \<Rightarrow>
         case strtol n2 of (ts, e2) \<Rightarrow>
         if e2 = n2 \<or> e2 \<noteq> [] then None
         else
        (case esc_field 64 l2 of None \<Rightarrow> None | Some (subj, l3) \<Rightarrow>
        (case esc_field 64 l3 of None \<Rightarrow> None | Some (act, l4) \<Rightarrow>
        (case esc_field 256 l4 of None \<Rightarrow> None | Some (tgt, l5) \<Rightarrow>
        (case esc_field 32 l5 of None \<Rightarrow> None | Some (n3, l6) \<Rightarrow>
         case strtol n3 of (r, e3) \<Rightarrow>
         if e3 = n3 \<or> e3 \<noteq> [] \<or> r < - (2 ^ 31) \<or> r > 2 ^ 31 - 1 then None
         else
        (case esc_field 512 l6 of None \<Rightarrow> None | Some (det, l7) \<Rightarrow>
         if l7 \<noteq> [] then None
         else Some \<lparr>ev_seq = sq, ev_ts = ts, ev_result = r, ev_subject = subj, ev_action = act,
                    ev_target = tgt, ev_detail = det\<rparr>))))))))"

record query =
  q_start_ts :: int
  q_end_ts :: int
  q_subject :: string
  q_action :: string
  q_result :: int
  q_result_set :: int
  q_order :: int
  q_limit :: int

definition event_matches :: "event \<Rightarrow> query option \<Rightarrow> bool" where
  "event_matches ev q =
     (case q of
        None \<Rightarrow> True
      | Some q \<Rightarrow>
          \<not> (q_start_ts q > 0 \<and> ev_ts ev < q_start_ts q) \<and>
          \<not> (q_end_ts q > 0 \<and> ev_ts ev > q_end_ts q) \<and>
          \<not> (q_subject q \<noteq> [] \<and> ev_subject ev \<noteq> q_subject q) \<and>
          \<not> (q_action q \<noteq> [] \<and> ev_action ev \<noteq> q_action q) \<and>
          \<not> (q_result_set q \<noteq> 0 \<and> ev_result ev \<noteq> q_result q))"

section \<open>The store\<close>

record store =
  au_dir :: string
  max_bytes :: nat
  max_files :: nat
  next_seq :: nat
  files :: "string \<rightharpoonup> string"

definition audit_init :: "(string \<rightharpoonup> string) \<Rightarrow> store" where
  "audit_init fs =
     \<lparr>au_dir = [], max_bytes = 1024 * 1024, max_files = 3, next_seq = 0, files = fs\<rparr>"

abbreviation SEG_MAX :: nat where "SEG_MAX \<equiv> 16"
abbreviation LINE_MAX :: nat where "LINE_MAX \<equiv> 4096"

definition seg_path :: "store \<Rightarrow> nat \<Rightarrow> string" where
  "seg_path g idx =
     cstr (512 + 128)
       (if idx = 0 then au_dir g @ ''/audit.log'' else au_dir g @ ''/audit.log.'' @ show_nat idx)"

definition seg :: "store \<Rightarrow> nat \<Rightarrow> string option" where
  "seg g idx = files g (seg_path g idx)"

definition set_default_dir_locked :: "store \<Rightarrow> store" where
  "set_default_dir_locked g = (if au_dir g = [] then g\<lparr>au_dir := ''/var/lib/hwrun/audit''\<rparr> else g)"

definition ensure_dir_locked :: "rc \<Rightarrow> store \<Rightarrow> rc \<times> store" where
  "ensure_dir_locked mkdir g =
     (if mkdir \<noteq> 0 \<and> mkdir \<noteq> EEXIST then (mkdir, set_default_dir_locked g)
      else (0, set_default_dir_locked g))"

text \<open>The events of one segment, in order; lines that do not parse are skipped.\<close>

definition seg_events :: "string option \<Rightarrow> event list" where
  "seg_events content =
     (case content of None \<Rightarrow> [] | Some c \<Rightarrow> List.map_filter parse_event (fgets_all LINE_MAX c))"

fun last_seq :: "nat \<Rightarrow> event list \<Rightarrow> nat" where
  "last_seq m [] = m"
| "last_seq m (e # es) = last_seq (if ev_seq e > m then ev_seq e else m) es"

fun seed_from :: "store \<Rightarrow> nat list \<Rightarrow> nat" where
  "seed_from g [] = 1"
| "seed_from g (idx # is) =
     (case seg g idx of
        None \<Rightarrow> seed_from g is
      | Some c \<Rightarrow>
          if c = [] then seed_from g is
          else
            let m = last_seq 0 (seg_events (Some c)) in
            if m > 0 then (m + 1) mod 2 ^ 64 else 1)"

definition seed_seq_locked :: "store \<Rightarrow> store" where
  "seed_seq_locked g =
     (if next_seq g \<noteq> 0 then g else g\<lparr>next_seq := seed_from g [0..<max_files g]\<rparr>)"

section \<open>Appending\<close>

text \<open>
  The outcomes of one append: errors of \<^verbatim>\<open>mkdir\<close>, \<^verbatim>\<open>fopen\<close>, \<^verbatim>\<open>fstat\<close>, of the renaming into (or
  unlinking of, or truncating) a segment, of the second \<^verbatim>\<open>fopen\<close>; how many bytes \<^verbatim>\<open>fwrite\<close> accepts and
  how many of those reach the file when it is closed (\<^const>\<open>None\<close>: all).
\<close>

record aio =
  io_mkdir :: rc
  io_fopen :: rc
  io_fstat :: rc
  io_seg :: "nat \<Rightarrow> rc"
  io_reopen :: rc
  io_accept :: "nat option"
  io_flush :: "nat option"

definition no_error :: aio where
  "no_error = \<lparr>io_mkdir = 0, io_fopen = 0, io_fstat = 0, io_seg = (\<lambda>_. 0), io_reopen = 0,
     io_accept = None, io_flush = None\<rparr>"

fun rotate_up :: "(nat \<Rightarrow> rc) \<Rightarrow> store \<Rightarrow> nat \<Rightarrow> rc \<times> store" where
  "rotate_up err g 0 = (0, g)"
| "rotate_up err g (Suc i) =
     (case seg g i of
        None \<Rightarrow> rotate_up err g i
      | Some c \<Rightarrow>
          if err (Suc i) = ENOENT then rotate_up err g i
          else if err (Suc i) \<noteq> 0 then (err (Suc i), g)
          else rotate_up err
            (g\<lparr>files := (files g)(seg_path g i := None, seg_path g (Suc i) \<mapsto> c)\<rparr>) i)"

fun remove_segs :: "(nat \<Rightarrow> rc) \<Rightarrow> store \<Rightarrow> nat list \<Rightarrow> rc \<times> store" where
  "remove_segs err g [] = (0, g)"
| "remove_segs err g (i # is) =
     (if seg g i = None \<or> err i = ENOENT then remove_segs err g is
      else if err i \<noteq> 0 then (err i, g)
      else remove_segs err (g\<lparr>files := (files g)(seg_path g i := None)\<rparr>) is)"

definition rotate_locked :: "(nat \<Rightarrow> rc) \<Rightarrow> store \<Rightarrow> rc \<times> store" where
  "rotate_locked err g =
     (if max_files g \<le> 1 then
        (if seg g 0 = None \<or> err 0 = ENOENT then (0, g)
         else if err 0 \<noteq> 0 then (err 0, g)
         else (0, g\<lparr>files := (files g)(seg_path g 0 \<mapsto> [])\<rparr>))
      else
        (case rotate_up err g (max_files g - 1) of
           (rc, g1) \<Rightarrow> if rc \<noteq> 0 then (rc, g1) else remove_segs err g1 [max_files g..<SEG_MAX]))"

definition open_append :: "store \<Rightarrow> store" where
  "open_append g =
     (case seg g 0 of None \<Rightarrow> g\<lparr>files := (files g)(seg_path g 0 \<mapsto> [])\<rparr> | Some _ \<Rightarrow> g)"

definition upto :: "nat option \<Rightarrow> 'a list \<Rightarrow> 'a list" where
  "upto n xs = (case n of None \<Rightarrow> xs | Some k \<Rightarrow> take k xs)"

definition write_line :: "aio \<Rightarrow> store \<Rightarrow> string \<Rightarrow> rc \<times> store" where
  "write_line io g line =
     (let acc = upto (io_accept io) line;
          g' = g\<lparr>files := (files g)(seg_path g 0 \<mapsto> the (seg g 0) @ upto (io_flush io) acc)\<rparr>
      in if length acc \<noteq> length line then (EIO, g')
         else (0, g'\<lparr>next_seq := (next_seq g + 1) mod 2 ^ 64\<rparr>))"

definition append_line :: "aio \<Rightarrow> store \<Rightarrow> string \<Rightarrow> rc \<times> store" where
  "append_line io g line =
     (if io_fopen io \<noteq> 0 then (io_fopen io, g)
      else
        let g1 = open_append g; sz = length (the (seg g1 0)) in
        if io_fstat io \<noteq> 0 then (io_fstat io, g1)
        else if sz > 0 \<and> sz + length line > max_bytes g then
          (case rotate_locked (io_seg io) g1 of
             (rc, g2) \<Rightarrow>
               if rc \<noteq> 0 then (rc, g2)
               else if io_reopen io \<noteq> 0 then (io_reopen io, g2)
               else write_line io (open_append g2) line)
        else write_line io g1 line)"

definition local_event :: "int \<Rightarrow> event \<Rightarrow> event" where
  "local_event now ev =
     \<lparr>ev_seq = 0, ev_ts = (if ev_ts ev > 0 then ev_ts ev else now), ev_result = ev_result ev,
      ev_subject = cstr 64 (ev_subject ev), ev_action = cstr 64 (ev_action ev),
      ev_target = cstr 256 (ev_target ev), ev_detail = cstr 512 (ev_detail ev)\<rparr>"

definition ops_append :: "aio \<Rightarrow> int \<Rightarrow> store \<Rightarrow> event option \<Rightarrow> rc \<times> nat option \<times> store" where
  "ops_append io now g ev =
     (case ev of
        None \<Rightarrow> (EINVAL, None, g)
      | Some ev \<Rightarrow>
          if ev_subject ev = [] \<or> ev_action ev = [] then (EINVAL, None, g)
          else
            (case ensure_dir_locked (io_mkdir io) g of
               (rc, g1) \<Rightarrow>
                 if rc \<noteq> 0 then (rc, None, g1)
                 else
                   let g2 = seed_seq_locked g1;
                       e = (local_event now ev)\<lparr>ev_seq := next_seq g2\<rparr>
                   in
                   (case fmt_line e LINE_MAX of
                      None \<Rightarrow> (EILSEQ, None, g2)
                    | Some line \<Rightarrow>
                        (case append_line io g2 line of
                           (rc, g3) \<Rightarrow> (rc, if rc = 0 then Some (ev_seq e) else None, g3)))))"

section \<open>Reading\<close>

text \<open>All events of the kept segments, oldest segment first.\<close>

definition all_events :: "store \<Rightarrow> event list" where
  "all_events g = concat (map (\<lambda>i. seg_events (seg g i)) (rev [0..<max_files g]))"

definition collect_locked :: "bool \<Rightarrow> query option \<Rightarrow> store \<Rightarrow> rc \<times> event list" where
  "collect_locked mem q g =
     (let arr = filter (\<lambda>ev. event_matches ev q) (all_events g) in
      if \<not> mem \<and> arr \<noteq> [] then (ENOMEM, [])
      else
        let arr1 = (case q of None \<Rightarrow> arr | Some q \<Rightarrow> if q_order q = 1 then rev arr else arr)
        in (0, case q of None \<Rightarrow> arr1
               | Some q \<Rightarrow> if q_limit q > 0 then take (nat (q_limit q)) arr1 else arr1))"

definition ops_query :: "bool \<Rightarrow> store \<Rightarrow> query option \<Rightarrow> rc \<times> event list \<times> store" where
  "ops_query mem g q =
     (let g1 = set_default_dir_locked g in
      case collect_locked mem q g1 of (rc, evs) \<Rightarrow> (rc, evs, g1))"

fun export_lines :: "(nat \<Rightarrow> bool) \<Rightarrow> event list \<Rightarrow> rc \<times> string list" where
  "export_lines wr [] = (0, [])"
| "export_lines wr (ev # evs) =
     (case fmt_line ev LINE_MAX of
        None \<Rightarrow> (EILSEQ, [])
      | Some line \<Rightarrow>
          if \<not> wr (length evs) then (EIO, [])
          else (case export_lines wr evs of (rc, ls) \<Rightarrow> (rc, line # ls)))"

text \<open>
  \<open>fo\<close> is the error of opening the output, \<open>wr k\<close> says whether the write with \<open>k\<close> events left succeeds,
  \<open>cl\<close> whether closing does.  A failed export removes its file.
\<close>

definition ops_export_events ::
  "bool \<Rightarrow> rc \<Rightarrow> (nat \<Rightarrow> bool) \<Rightarrow> bool \<Rightarrow> store \<Rightarrow> query option \<Rightarrow> string option \<Rightarrow> rc \<times> nat \<times> store" where
  "ops_export_events mem fo wr cl g q path =
     (case path of
        None \<Rightarrow> (EINVAL, 0, g)
      | Some path \<Rightarrow>
          let g1 = set_default_dir_locked g in
          (case collect_locked mem q g1 of
             (rc, arr) \<Rightarrow>
               if rc \<noteq> 0 then (rc, 0, g1)
               else if fo \<noteq> 0 then (fo, 0, g1)
               else
                 (case export_lines wr arr of
                    (rc, ls) \<Rightarrow>
                      let rc' = (if \<not> cl \<and> rc = 0 then EIO else rc) in
                      (rc', length ls,
                       g1\<lparr>files := (files g1)(path := (if rc' \<noteq> 0 then None else Some (concat ls)))\<rparr>))))"

record status =
  st_total_events :: nat
  st_total_bytes :: nat
  st_seq_next :: nat
  st_segments :: nat
  st_dir :: string

definition ops_status :: "store \<Rightarrow> rc \<times> status \<times> store" where
  "ops_status g =
     (let g1 = seed_seq_locked (set_default_dir_locked g);
          sizes = List.map_filter (\<lambda>i. map_option length (seg g1 i)) [0..<max_files g1]
      in (0, \<lparr>st_total_events = (if next_seq g1 > 0 then next_seq g1 - 1 else 0),
              st_total_bytes = sum_list sizes mod 2 ^ 64, st_seq_next = next_seq g1,
              st_segments = length sizes, st_dir = cstr 512 (au_dir g1)\<rparr>, g1))"

section \<open>Configuration\<close>

definition size_unit :: "char \<Rightarrow> nat option" where
  "size_unit u =
     (if u = CHR ''k'' \<or> u = CHR ''K'' then Some 1024
      else if u = CHR ''m'' \<or> u = CHR ''M'' then Some (1024 * 1024)
      else if u = CHR ''g'' \<or> u = CHR ''G'' then Some (1024 * 1024 * 1024)
      else None)"

text \<open>The multiplier and what is left after the unit and an optional \<open>b\<close>.\<close>

definition size_suffix :: "string \<Rightarrow> (nat \<times> string) option" where
  "size_suffix s =
     (case s of
        [] \<Rightarrow> Some (1, [])
      | u # t \<Rightarrow>
          (case size_unit u of
             None \<Rightarrow> None
           | Some m \<Rightarrow>
               Some (m, if t \<noteq> [] \<and> (hd t = CHR ''b'' \<or> hd t = CHR ''B'') then tl t else t)))"

definition parse_size :: "string option \<Rightarrow> rc \<times> nat option" where
  "parse_size s =
     (case s of
        None \<Rightarrow> (EINVAL, None)
      | Some s \<Rightarrow>
          if s = [] then (EINVAL, None)
          else
            (case strtoull s of
               (v, r) \<Rightarrow>
                 if strtoull_erange s \<or> r = s \<or> v = 0 then (EINVAL, None)
                 else
                   (case size_suffix r of
                      None \<Rightarrow> (EINVAL, None)
                    | Some (mult, r') \<Rightarrow>
                        if r' \<noteq> [] then (EINVAL, None)
                        else if v > (2 ^ 64 - 1) div mult then (EINVAL, None)
                        else (0, Some (v * mult)))))"

definition parse_int_range :: "string option \<Rightarrow> int \<Rightarrow> int \<Rightarrow> rc \<times> int option" where
  "parse_int_range s lo hi =
     (case s of
        None \<Rightarrow> (EINVAL, None)
      | Some s \<Rightarrow>
          if s = [] then (EINVAL, None)
          else
            (case strtol s of
               (v, r) \<Rightarrow>
                 if strtol_erange s \<or> r = s \<or> r \<noteq> [] \<or> v < lo \<or> v > hi then (EINVAL, None)
                 else (0, Some (to_int32 v))))"

fun strip_slashes :: "string \<Rightarrow> string" where
  "strip_slashes rs = (case rs of c # d # t \<Rightarrow> if c = CHR ''/'' then strip_slashes (d # t) else rs | _ \<Rightarrow> rs)"

declare strip_slashes.simps [simp del]

definition hw_audit_configure :: "store \<Rightarrow> string option \<Rightarrow> string option \<Rightarrow> rc \<times> store" where
  "hw_audit_configure g key value =
     (case key of
        None \<Rightarrow> (EINVAL, g)
      | Some key \<Rightarrow>
          (case value of
             None \<Rightarrow> (0, g)
           | Some value \<Rightarrow>
               if key = ''audit.log.path'' then
                 (if value = [] then (0, g)
                  else
                    let norm = rev (strip_slashes (rev (cstr 512 value))) in
                    if norm = au_dir g then (0, g)
                    else (0, g\<lparr>au_dir := cstr 512 norm, next_seq := 0\<rparr>))
               else if key = ''audit.log.max_bytes'' then
                 (case parse_size (Some value) of
                    (rc, b) \<Rightarrow> (rc, if rc = 0 then g\<lparr>max_bytes := the b\<rparr> else g))
               else if key = ''audit.log.max_files'' then
                 (case parse_int_range (Some value) 1 (int SEG_MAX) of
                    (rc, n) \<Rightarrow> (rc, if rc = 0 then g\<lparr>max_files := nat (the n)\<rparr> else g))
               else (0, g)))"

section \<open>Lines and their fields\<close>

definition escaped :: "string \<Rightarrow> string" where
  "escaped s = concat (map (\<lambda>c. case esc_pair c of Some two \<Rightarrow> two | None \<Rightarrow> [c]) s)"

lemma escaped_Nil [simp]: "escaped [] = []"
  by (simp add: escaped_def)

lemma escaped_Cons: "escaped (c # s) = (case esc_pair c of Some two \<Rightarrow> two | None \<Rightarrow> [c]) @ escaped s"
  by (simp add: escaped_def)

lemma fmt_esc_full: "2 * length s < room \<Longrightarrow> fmt_esc room s = escaped s"
  by (induction s arbitrary: room) (auto simp: escaped_Cons split: option.splits)

lemma length_escaped: "length (escaped s) \<le> 2 * length s"
  by (induction s) (auto simp: escaped_Cons esc_pair_def)

lemma escaped_no_newline: "NL \<notin> set (escaped s) \<and> CR \<notin> set (escaped s)"
  by (induction s) (auto simp: escaped_Cons esc_pair_def)

lemma escaped_plain: "\<forall>c \<in> set s. esc_pair c = None \<Longrightarrow> escaped s = s"
  by (induction s) (auto simp: escaped_Cons)

lemma esc_field_step:
  assumes "1 < room"
  shows "esc_field room ((case esc_pair c of Some two \<Rightarrow> two | None \<Rightarrow> [c]) @ t) =
    map_option (\<lambda>(f, r). (c # f, r)) (esc_field (room - 1) t)"
proof -
  consider "c = BSL" | "c = BAR" | "c = NL" | "c = CR" | "esc_pair c = None" "c \<noteq> BSL" "c \<noteq> BAR"
    by (cases "esc_pair c = None") (auto simp: esc_pair_def [of c] split: if_splits)
  then show ?thesis
    by cases (use assms in \<open>simp_all add: esc_pair_def [of BSL] esc_pair_def [of BAR] esc_pair_def [of NL]
        esc_pair_def [of CR] unesc_def\<close>)
qed

lemma esc_field_escaped:
  "length s < room \<Longrightarrow> esc_field room (escaped s @ BAR # r) = Some (s, r)"
  "length s < room \<Longrightarrow> esc_field room (escaped s) = Some (s, [])"
  by (induction s arbitrary: room) (simp_all add: escaped_Cons esc_field_step less_diff_conv)

lemma esc_pair_number: "isdigit c \<or> c = CHR ''-'' \<Longrightarrow> esc_pair c = None"
  by (auto simp: esc_pair_def isdigit_def)

lemma show_int_chars: "c \<in> set (show_int i) \<Longrightarrow> isdigit c \<or> c = CHR ''-''"
  by (auto simp: show_int_def dest: show_nat_digits split: if_splits)

lemma escaped_number [simp]: "escaped (show_nat n) = show_nat n" "escaped (show_int i) = show_int i"
  by (rule escaped_plain, metis esc_pair_number show_nat_digits)
    (rule escaped_plain, metis esc_pair_number show_int_chars)

lemmas esc_field_number =
  esc_field_escaped(1) [of "show_nat n" for n, simplified]
  esc_field_escaped(1) [of "show_int i" for i, simplified]

lemma length_show_int: "- (2 ^ 63) \<le> i \<Longrightarrow> i < 2 ^ 63 \<Longrightarrow> length (show_int i) \<le> 20"
proof -
  assume i: "- (2 ^ 63) \<le> i" "i < 2 ^ 63"
  have "nat (- i) < 10 ^ 19" "nat i < 10 ^ 19" using i by (auto simp: nat_less_iff)
  then have "length (show_nat (nat (- i))) \<le> 19" "length (show_nat (nat i)) \<le> 19"
    by (intro length_show_nat; simp)+
  then show ?thesis by (auto simp: show_int_def)
qed

lemma show_int_nonempty [simp]: "show_int i \<noteq> []" "[] \<noteq> show_int i"
  by (auto simp: show_int_def eq_commute [of "[]"])

definition event_ok :: "event \<Rightarrow> bool" where
  "event_ok ev \<longleftrightarrow>
     0 < ev_seq ev \<and> ev_seq ev < 2 ^ 64 \<and> - (2 ^ 63) \<le> ev_ts ev \<and> ev_ts ev < 2 ^ 63 \<and>
     - (2 ^ 31) \<le> ev_result ev \<and> ev_result ev < 2 ^ 31 \<and>
     length (ev_subject ev) < 64 \<and> length (ev_action ev) < 64 \<and>
     length (ev_target ev) < 256 \<and> length (ev_detail ev) < 512"

definition line_head :: "event \<Rightarrow> string" where
  "line_head ev =
     show_nat (ev_seq ev) @ BAR # show_int (ev_ts ev) @ BAR # escaped (ev_subject ev) @ BAR #
     escaped (ev_action ev) @ BAR # escaped (ev_target ev) @ BAR # show_int (ev_result ev) @ [BAR]"

definition line_body :: "event \<Rightarrow> string" where
  "line_body ev = line_head ev @ escaped (ev_detail ev)"

lemma length_line_body:
  assumes "event_ok ev"
  shows "length (line_body ev) \<le> 1850"
proof -
  have "length (show_nat (ev_seq ev)) \<le> 20"
    using assms by (intro length_show_nat) (auto simp: event_ok_def)
  moreover have "length (show_int (ev_ts ev)) \<le> 20" "length (show_int (ev_result ev)) \<le> 20"
    using assms by (auto simp: event_ok_def intro!: length_show_int)
  ultimately show ?thesis
    using length_escaped [of "ev_subject ev"] length_escaped [of "ev_action ev"]
      length_escaped [of "ev_target ev"] length_escaped [of "ev_detail ev"] assms
    by (simp add: line_body_def line_head_def event_ok_def)
qed

lemma fmt_line_ok:
  assumes "event_ok ev"
  shows "fmt_line ev LINE_MAX = Some (line_body ev @ [NL])"
proof -
  have "fmt_esc (64 * 2 + 1) (ev_subject ev) = escaped (ev_subject ev)"
    "fmt_esc (64 * 2 + 1) (ev_action ev) = escaped (ev_action ev)"
    "fmt_esc (256 * 2 + 1) (ev_target ev) = escaped (ev_target ev)"
    "fmt_esc (512 * 2 + 1) (ev_detail ev) = escaped (ev_detail ev)"
    by (rule fmt_esc_full; use assms in \<open>simp add: event_ok_def\<close>)+
  then show ?thesis
    using length_line_body [OF assms]
    unfolding fmt_line_def Let_def by (simp add: line_body_def line_head_def)
qed

lemma line_body_last: "line_body ev \<noteq> [] \<and> last (line_body ev) \<noteq> NL \<and> last (line_body ev) \<noteq> CR"
proof (cases "escaped (ev_detail ev) = []")
  case True
  then show ?thesis by (simp add: line_body_def line_head_def)
next
  case False
  have "last (escaped (ev_detail ev)) \<noteq> NL" "last (escaped (ev_detail ev)) \<noteq> CR"
    using last_in_set [OF False] escaped_no_newline [of "ev_detail ev"] by metis+
  with False show ?thesis by (simp add: line_body_def)
qed

lemma line_body_no_newline: "NL \<notin> set (line_body ev)"
proof -
  have nl: "\<not> (isdigit NL \<or> NL = CHR ''-'')" by (simp add: isdigit_def)
  have "NL \<notin> set (show_nat n)" "NL \<notin> set (show_int i)" for n i
    using nl show_nat_digits [of NL n] show_int_chars [of NL i] by metis+
  then show ?thesis
    using escaped_no_newline by (simp add: line_body_def line_head_def)
qed

lemma strtol_fields: "event_ok ev \<Longrightarrow> strtol (show_int (ev_ts ev)) = (ev_ts ev, []) \<and>
    strtol (show_int (ev_result ev)) = (ev_result ev, []) \<and>
    strtoull (show_nat (ev_seq ev)) = (ev_seq ev, [])"
  by (auto simp: event_ok_def strtoull_show_nat intro!: strtol_show_int)

lemma parse_line_body:
  assumes "event_ok ev"
  shows "parse_event (line_body ev @ [NL]) = Some ev"
proof -
  let ?P = "\<lambda>c. c = NL \<or> c = CR"
  have t: "rtrim ?P (line_body ev @ [NL]) = line_body ev"
    using line_body_last [of ev] by (simp add: rtrim_id)
  have n: "length (show_nat (ev_seq ev)) < 32" "length (show_int (ev_ts ev)) < 32" "length (show_int (ev_result ev)) < 32"
    using assms length_show_int [of "ev_ts ev"] length_show_int [of "ev_result ev"]
      length_show_nat [of "ev_seq ev" 20] by (auto simp: event_ok_def)
  have f: "length (ev_subject ev) < 64" "length (ev_action ev) < 64" "length (ev_target ev) < 256"
    "length (ev_detail ev) < 512" "ev_seq ev \<noteq> 0" "- (2 ^ 31) \<le> ev_result ev" "ev_result ev \<le> 2 ^ 31 - 1"
    using assms by (auto simp: event_ok_def)
  show ?thesis
    unfolding parse_event_def Let_def t
    by (simp add: line_body_last line_body_def line_head_def esc_field_number esc_field_escaped n f strtol_fields assms
        del: esc_field.simps) (use f(6,7) in auto)
qed

section \<open>Segments\<close>

definition dir_ok :: "store \<Rightarrow> bool" where
  "dir_ok g \<longleftrightarrow> au_dir g \<noteq> [] \<and> length (au_dir g) < 512"

lemma seg_path_update [simp]:
  "seg_path (g\<lparr>files := f\<rparr>) i = seg_path g i" "seg_path (g\<lparr>next_seq := n\<rparr>) i = seg_path g i"
  by (simp_all add: seg_path_def)

lemma seg_next_seq [simp]: "seg (g\<lparr>next_seq := n\<rparr>) i = seg g i"
  by (simp add: seg_def)

lemma dir_ok_update [simp]:
  "dir_ok (g\<lparr>files := f\<rparr>) = dir_ok g" "dir_ok (g\<lparr>next_seq := n\<rparr>) = dir_ok g"
  by (simp_all add: dir_ok_def)

lemma show_nat_inj: "show_nat m = show_nat n \<Longrightarrow> m = n"
  by (metis digits_nat_show_nat)

lemma seg_path_inj:
  assumes "dir_ok g" "i < SEG_MAX" "j < SEG_MAX"
  shows "seg_path g i = seg_path g j \<longleftrightarrow> i = j"
proof -
  have "length (show_nat k) \<le> 2" if "k < SEG_MAX" for k
    using that by (intro length_show_nat) auto
  then have "seg_path g k =
      (if k = 0 then au_dir g @ ''/audit.log'' else au_dir g @ ''/audit.log.'' @ show_nat k)"
    if "k < SEG_MAX" for k
    using that assms(1) unfolding seg_path_def by (intro cstr_id) (fastforce simp: dir_ok_def)
  then show ?thesis using assms by (auto dest: show_nat_inj)
qed

lemma seg_put:
  "dir_ok g \<Longrightarrow> i < SEG_MAX \<Longrightarrow> j < SEG_MAX \<Longrightarrow>
     seg (g\<lparr>files := (files g)(seg_path g i := v)\<rparr>) j = (if j = i then v else seg g j)"
  by (auto simp: seg_def seg_path_inj)

lemma seg_move:
  "dir_ok g \<Longrightarrow> Suc i < SEG_MAX \<Longrightarrow> j < SEG_MAX \<Longrightarrow>
     seg (g\<lparr>files := (files g)(seg_path g i := None, seg_path g (Suc i) \<mapsto> c)\<rparr>) j
       = (if j = Suc i then Some c else if j = i then None else seg g j)"
  by (auto simp: seg_def seg_path_inj)

text \<open>What every operation on the files leaves alone.\<close>

definition same_conf :: "store \<Rightarrow> store \<Rightarrow> bool" where
  "same_conf g g' \<longleftrightarrow> au_dir g' = au_dir g \<and> max_bytes g' = max_bytes g \<and> max_files g' = max_files g"

lemma same_conf_refl [simp]: "same_conf g g" "same_conf g (g\<lparr>files := f\<rparr>)" "same_conf g (g\<lparr>next_seq := n\<rparr>)"
  by (simp_all add: same_conf_def)

lemma same_conf_trans: "same_conf g h \<Longrightarrow> same_conf h k \<Longrightarrow> same_conf g k"
  by (simp add: same_conf_def)

lemma same_conf_dir: "same_conf g g' \<Longrightarrow> dir_ok g' = dir_ok g"
  by (simp add: same_conf_def dir_ok_def)

text \<open>A property of single segments that holds of missing and empty ones survives rotation.\<close>

definition all_segs :: "(string option \<Rightarrow> bool) \<Rightarrow> store \<Rightarrow> bool" where
  "all_segs Q g \<longleftrightarrow> (\<forall>i < SEG_MAX. Q (seg g i))"

lemma rotate_up_keeps:
  assumes "rotate_up err g n = (rc, g')" "dir_ok g" "n < SEG_MAX" "all_segs Q g" "Q None"
  shows "all_segs Q g' \<and> same_conf g g' \<and> next_seq g' = next_seq g"
  using assms
proof (induction err g n rule: rotate_up.induct)
  case (2 err g i)
  show ?case
  proof (cases "seg g i = None \<or> err (Suc i) = ENOENT")
    case True
    with 2 show ?thesis by (auto split: option.splits if_splits)
  next
    case False
    then obtain c where c: "seg g i = Some c" by auto
    let ?h = "g\<lparr>files := (files g)(seg_path g i := None, seg_path g (Suc i) \<mapsto> c)\<rparr>"
    have "Q (Some c)" using "2.prems"(3,4) c by (metis all_segs_def Suc_lessD)
    then have q: "all_segs Q ?h"
      using "2.prems"(2-5) by (simp add: all_segs_def seg_move)
    show ?thesis
    proof (cases "err (Suc i) = 0")
      case True
      with False "2.prems"(1) c have "rotate_up err ?h i = (rc, g')" by simp
      from "2.IH"(3) [OF c _ _ this] False True q "2.prems"(2,3,5) c show ?thesis
        by (auto intro: same_conf_trans [of g ?h])
    next
      case err: False
      with False "2.prems" c show ?thesis by auto
    qed
  qed
qed auto

lemma remove_segs_keeps:
  assumes "remove_segs err g is = (rc, g')" "dir_ok g" "\<forall>i \<in> set is. i < SEG_MAX" "all_segs Q g" "Q None"
  shows "all_segs Q g' \<and> same_conf g g' \<and> next_seq g' = next_seq g \<and>
    (\<forall>i < SEG_MAX. i \<notin> set is \<longrightarrow> seg g' i = seg g i)"
  using assms
proof (induction err g "is" rule: remove_segs.induct)
  case (2 err g i "is")
  show ?case
  proof (cases "seg g i = None \<or> err i = ENOENT")
    case True
    with 2 show ?thesis by auto
  next
    case False
    let ?h = "g\<lparr>files := (files g)(seg_path g i := None)\<rparr>"
    have "all_segs Q ?h" using "2.prems" by (auto simp: all_segs_def seg_put)
    with False 2 show ?thesis
      by (cases "err i = 0") (auto simp: seg_put intro: same_conf_trans [of g ?h])
  qed
qed auto

lemma rotate_keeps:
  assumes "rotate_locked err g = (rc, g')" "dir_ok g" "1 \<le> max_files g" "max_files g \<le> SEG_MAX"
    "all_segs Q g" "Q None" "Q (Some [])"
  shows "all_segs Q g' \<and> same_conf g g' \<and> next_seq g' = next_seq g"
proof (cases "max_files g \<le> 1")
  case True
  then show ?thesis
    using assms by (auto simp: rotate_locked_def all_segs_def seg_put split: if_splits)
next
  case False
  obtain r1 g1 where g1: "rotate_up err g (max_files g - 1) = (r1, g1)" by force
  have 1: "all_segs Q g1 \<and> same_conf g g1 \<and> next_seq g1 = next_seq g"
    by (rule rotate_up_keeps [OF g1]) (use assms in auto)
  show ?thesis
  proof (cases "r1 = 0")
    case True
    with False g1 assms(1) have "remove_segs err g1 [max_files g..<SEG_MAX] = (rc, g')"
      by (simp add: rotate_locked_def)
    from remove_segs_keeps [OF this] 1 assms(2,6) show ?thesis
      by (auto simp: same_conf_dir intro: same_conf_trans)
  next
    case r: False
    with False g1 1 assms(1) show ?thesis by (auto simp: rotate_locked_def)
  qed
qed

section \<open>Rotation without errors\<close>

definition rot_seg :: "store \<Rightarrow> nat \<Rightarrow> nat \<Rightarrow> string option" where
  "rot_seg g n j =
     (if n = 0 \<or> n < j then seg g j
      else if j = 0 then None
      else if j = n \<and> seg g (n - 1) = None then seg g n
      else seg g (j - 1))"

lemma rotate_up_ok:
  "dir_ok g \<Longrightarrow> n < SEG_MAX \<Longrightarrow>
     \<exists>g'. rotate_up (\<lambda>_. 0) g n = (0, g') \<and> (\<forall>j < SEG_MAX. seg g' j = rot_seg g n j)"
proof (induction n arbitrary: g)
  case (Suc n)
  show ?case
  proof (cases "seg g n")
    case None
    with Suc.IH [of g] Suc.prems obtain g' where g': "rotate_up (\<lambda>_. 0) g n = (0, g')"
      and s: "\<forall>j < SEG_MAX. seg g' j = rot_seg g n j" by auto
    have "rot_seg g n j = rot_seg g (Suc n) j" for j
      using None by (cases "j = Suc n"; cases n; cases j) (auto simp: rot_seg_def)
    with g' s None show ?thesis by auto
  next
    case (Some c)
    let ?h = "g\<lparr>files := (files g)(seg_path g n := None, seg_path g (Suc n) \<mapsto> c)\<rparr>"
    from Suc.IH [of ?h] Suc.prems obtain g' where g': "rotate_up (\<lambda>_. 0) ?h n = (0, g')"
      and s: "\<forall>j < SEG_MAX. seg g' j = rot_seg ?h n j" by auto
    have h: "seg ?h j = (if j = Suc n then Some c else if j = n then None else seg g j)"
      if "j < SEG_MAX" for j using Suc.prems that by (simp add: seg_move)
    have "rot_seg ?h n j = rot_seg g (Suc n) j" if "j < SEG_MAX" for j
      using that Some Suc.prems h by (cases n) (auto simp: rot_seg_def less_Suc_eq)
    with g' s Some show ?thesis by auto
  qed
qed (simp add: rot_seg_def)

lemma remove_segs_ok: "\<exists>g'. remove_segs (\<lambda>_. 0) g is = (0, g')"
  by (induction "\<lambda>_ :: nat. 0 :: rc" g "is" rule: remove_segs.induct) auto

definition older :: "store \<Rightarrow> event list" where
  "older g = concat (map (\<lambda>i. seg_events (seg g i)) (rev [1..<max_files g]))"

lemma all_events_split: "1 \<le> max_files g \<Longrightarrow> all_events g = older g @ seg_events (seg g 0)"
  by (simp add: all_events_def older_def upt_conv_Cons)

lemma older_cong:
  "max_files g' = max_files g \<Longrightarrow> (\<And>i. 1 \<le> i \<Longrightarrow> i < max_files g \<Longrightarrow> seg g' i = seg g i) \<Longrightarrow> older g' = older g"
  unfolding older_def by (intro arg_cong [of _ _ concat]) auto

lemma seg_events_simps [simp]: "seg_events None = []" "seg_events (Some []) = []"
  by (simp_all add: seg_events_def List.map_filter_def)

text \<open>Rotation keeps a suffix of the events and leaves an empty or missing main file.\<close>

lemma rotate_events:
  assumes "dir_ok g" "1 \<le> max_files g" "max_files g \<le> SEG_MAX"
  shows "\<exists>g' n. rotate_locked (\<lambda>_. 0) g = (0, g') \<and> seg_events (seg g' 0) = [] \<and>
    seg g' 0 \<in> {None, Some []} \<and> older g' = drop n (all_events g)"
proof (cases "max_files g \<le> 1")
  case True
  then have "older g = []" "max_files g = 1" using assms(2) by (auto simp: older_def)
  moreover have "older (g\<lparr>files := f\<rparr>) = []" for f using True by (auto simp: older_def)
  ultimately show ?thesis
    using assms by (cases "seg g 0") (auto simp: rotate_locked_def seg_put intro: exI [of _ "length (all_events g)"])
next
  case False
  then obtain k where k: "max_files g = Suc (Suc k)" by (auto simp: not_le less_iff_Suc_add)
  obtain g1 where g1: "rotate_up (\<lambda>_. 0) g (Suc k) = (0, g1)" and s1: "\<forall>j < SEG_MAX. seg g1 j = rot_seg g (Suc k) j"
    using rotate_up_ok [of g "Suc k"] assms k by auto
  have c1: "same_conf g g1" using rotate_up_keeps [OF g1, of "\<lambda>_. True"] assms k by (simp add: all_segs_def)
  obtain g' where g': "remove_segs (\<lambda>_. 0) g1 [max_files g..<SEG_MAX] = (0, g')" using remove_segs_ok by blast
  have d1: "dir_ok g1" using same_conf_dir [OF c1] assms(1) by simp
  have K: "same_conf g1 g' \<and> (\<forall>i < SEG_MAX. i \<notin> set [max_files g..<SEG_MAX] \<longrightarrow> seg g' i = seg g1 i)"
    using remove_segs_keeps [OF g' d1, of "\<lambda>_. True"] by (simp only: all_segs_def) simp
  then have keep: "max_files g' = max_files g" "\<forall>j < SEG_MAX. j < max_files g \<longrightarrow> seg g' j = seg g1 j"
    using c1 by (simp_all add: same_conf_def)
  have s: "seg g' j = rot_seg g (Suc k) j" if "j \<le> Suc k" for j
    using that keep(2) s1 assms(3) k by auto
  let ?f = "\<lambda>i. seg_events (seg g i)"
  have u: "rev [1..<max_files g'] = Suc k # map Suc (rev [0..<k])"
    unfolding keep(1) k by (simp add: rev_map map_Suc_upt del: upt_Suc) (simp add: rev_map [symmetric] map_Suc_upt)
  have m: "map (\<lambda>i. seg_events (seg g' (Suc i))) (rev [0..<k]) = map ?f (rev [0..<k])"
    using s by (intro map_cong refl) (auto simp: rot_seg_def)
  have o: "older g' = seg_events (seg g' (Suc k)) @ concat (map ?f (rev [0..<k]))"
    unfolding older_def u list.map concat.simps map_map comp_def m ..
  have a: "all_events g = ?f (Suc k) @ ?f k @ concat (map ?f (rev [0..<k]))"
    by (simp add: all_events_def k)
  have "\<exists>n. older g' = drop n (all_events g)"
  proof (cases "seg g k")
    case None
    then have "older g' = drop 0 (all_events g)" using o a s [of "Suc k"] by (simp add: rot_seg_def)
    then show ?thesis by blast
  next
    case (Some c)
    then have "older g' = drop (length (?f (Suc k))) (all_events g)"
      using o a s [of "Suc k"] by (simp add: rot_seg_def)
    then show ?thesis by blast
  qed
  moreover have "rotate_locked (\<lambda>_. 0) g = (0, g')"
    using False k g1 g' by (simp add: rotate_locked_def)
  ultimately show ?thesis using s [of 0] by (auto simp: rot_seg_def)
qed

section \<open>Appending without errors\<close>

definition line_terminated :: "string option \<Rightarrow> bool" where
  "line_terminated content = (case content of None \<Rightarrow> True | Some c \<Rightarrow> c = [] \<or> last c = NL)"

lemma line_terminated_simps [simp]:
  "line_terminated None" "line_terminated (Some [])" "line_terminated (Some (c @ [NL]))"
  by (simp_all add: line_terminated_def)

definition store_wf :: "store \<Rightarrow> bool" where
  "store_wf g \<longleftrightarrow> dir_ok g \<and> 1 \<le> max_files g \<and> max_files g \<le> SEG_MAX \<and>
     0 < next_seq g \<and> next_seq g < 2 ^ 64 \<and> all_segs line_terminated g"

lemma seg_events_append:
  "line_terminated (Some c) \<Longrightarrow> seg_events (Some (c @ l)) = seg_events (Some c) @ seg_events (Some l)"
  by (simp add: seg_events_def line_terminated_def fgets_all_append_nl List.map_filter_def)

lemma seg_events_line:
  "event_ok e \<Longrightarrow> seg_events (Some (line_body e @ [NL])) = [e]"
  using length_line_body [of e]
  by (simp add: seg_events_def fgets_all_line line_body_no_newline parse_line_body List.map_filter_def)

lemma open_append_seg:
  "dir_ok g \<Longrightarrow> i < SEG_MAX \<Longrightarrow> seg (open_append g) i = (if i = 0 then Some (case seg g 0 of None \<Rightarrow> [] | Some c \<Rightarrow> c) else seg g i)"
  by (auto simp: open_append_def seg_put split: option.splits)

lemma open_append_conf [simp]:
  "same_conf g (open_append g)" "next_seq (open_append g) = next_seq g" "dir_ok (open_append g) = dir_ok g"
  by (auto simp: open_append_def split: option.splits)

definition with_line :: "store \<Rightarrow> string \<Rightarrow> store" where
  "with_line g line =
     (open_append g)\<lparr>files := (files (open_append g))(seg_path g 0 \<mapsto> the (seg (open_append g) 0) @ line),
       next_seq := (next_seq g + 1) mod 2 ^ 64\<rparr>"

lemma seg_path_open_append [simp]: "seg_path (open_append g) i = seg_path g i"
  by (auto simp: open_append_def split: option.splits)

lemma no_error_simps [simp]:
  "io_mkdir no_error = 0" "io_fopen no_error = 0" "io_fstat no_error = 0" "io_seg no_error = (\<lambda>_. 0)"
  "io_reopen no_error = 0" "io_accept no_error = None" "io_flush no_error = None"
  by (simp_all add: no_error_def)

lemma write_line_ok: "write_line no_error (open_append g) line = (0, with_line g line)"
  by (simp add: write_line_def upto_def with_line_def Let_def)

lemma with_line_seg:
  assumes "dir_ok g" "i < SEG_MAX"
  shows "seg (with_line g line) i =
    (if i = 0 then Some ((case seg g 0 of None \<Rightarrow> [] | Some c \<Rightarrow> c) @ line) else seg g i)"
proof -
  let ?o = "open_append g"
  have "seg (with_line g line) i =
      seg (?o\<lparr>files := (files ?o)(seg_path ?o 0 := Some (the (seg ?o 0) @ line))\<rparr>) i"
    by (simp add: with_line_def seg_def)
  also have "\<dots> = (if i = 0 then Some (the (seg ?o 0) @ line) else seg ?o i)"
    by (rule seg_put) (use assms in auto)
  finally show ?thesis using assms by (simp add: open_append_seg)
qed

lemma with_line_conf: "same_conf g (with_line g line)" "next_seq (with_line g line) = (next_seq g + 1) mod 2 ^ 64"
  using open_append_conf(1) [of g] by (simp_all add: with_line_def same_conf_def)

text \<open>Either the line goes to the main file, or the files are rotated first.\<close>

lemma append_line_cases:
  assumes "dir_ok g" "1 \<le> max_files g" "max_files g \<le> SEG_MAX"
  shows "append_line no_error g line = (0, with_line g line) \<or>
    (\<exists>h. rotate_locked (\<lambda>_. 0) (open_append g) = (0, h) \<and> append_line no_error g line = (0, with_line h line))"
proof -
  have "dir_ok (open_append g)" "max_files (open_append g) = max_files g"
    using assms open_append_conf(1) [of g] by (auto simp: same_conf_def)
  then obtain h where "rotate_locked (\<lambda>_. 0) (open_append g) = (0, h)"
    using rotate_events [of "open_append g"] assms by auto
  then show ?thesis
    by (simp add: append_line_def Let_def write_line_ok)
qed

lemma with_line_events:
  assumes "dir_ok g" "1 \<le> max_files g" "max_files g \<le> SEG_MAX" "line_terminated (seg g 0)" "event_ok e"
  shows "all_events (with_line g (line_body e @ [NL])) = all_events g @ [e]"
proof -
  let ?g = "with_line g (line_body e @ [NL])"
  have m: "max_files ?g = max_files g" using with_line_conf(1) by (simp add: same_conf_def)
  have "older ?g = older g"
    using assms(3) by (intro older_cong) (auto simp: m with_line_seg [OF assms(1)])
  then show ?thesis
    using assms(2-5) seg_events_append [of "[]"]
    by (auto simp: all_events_split m with_line_seg [OF assms(1)] seg_events_line seg_events_append
        line_terminated_def split: option.splits)
qed

lemma append_line_events:
  assumes "store_wf g" "event_ok e"
  shows "\<exists>g' n. append_line no_error g (line_body e @ [NL]) = (0, g') \<and> same_conf g g' \<and>
    next_seq g' = (next_seq g + 1) mod 2 ^ 64 \<and> all_segs line_terminated g' \<and>
    all_events g' = drop n (all_events g) @ [e] \<and> (\<exists>c. seg g' 0 = Some c \<and> c \<noteq> [] \<and> seg_events (Some c) \<noteq> [] \<and> last (seg_events (Some c)) = e)"
proof -
  let ?l = "line_body e @ [NL]" and ?o = "open_append g"
  have wf: "dir_ok g" "1 \<le> max_files g" "max_files g \<le> SEG_MAX" "all_segs line_terminated g"
    using assms(1) by (auto simp: store_wf_def)
  have w: "all_segs line_terminated (with_line h ?l) \<and>
      (\<exists>c. seg (with_line h ?l) 0 = Some c \<and> c \<noteq> [] \<and> seg_events (Some c) \<noteq> [] \<and> last (seg_events (Some c)) = e)"
    if h: "dir_ok h" "all_segs line_terminated h" for h
  proof -
    let ?c = "case seg h 0 of None \<Rightarrow> [] | Some c \<Rightarrow> c"
    have c: "line_terminated (Some ?c)"
      using h(2) [unfolded all_segs_def, rule_format, of 0] by (auto split: option.splits)
    have "seg_events (Some (?c @ ?l)) = seg_events (Some ?c) @ [e]"
      using seg_events_append [OF c, of ?l] seg_events_line [OF assms(2)] by simp
    moreover have "line_terminated (Some (?c @ ?l))" using line_terminated_simps(3) [of "?c @ line_body e"] by simp
    ultimately show ?thesis
      using h unfolding all_segs_def by (simp add: with_line_seg [OF h(1)])
  qed
  from append_line_cases [OF wf(1-3), of ?l] show ?thesis
  proof (elim disjE exE conjE)
    assume a: "append_line no_error g ?l = (0, with_line g ?l)"
    have "all_events (with_line g ?l) = drop 0 (all_events g) @ [e]"
      using with_line_events [OF wf(1-3) _ assms(2)] wf(4) by (simp add: all_segs_def)
    with a w [OF wf(1,4)] with_line_conf [of g ?l] show ?thesis by blast
  next
    fix h assume r: "rotate_locked (\<lambda>_. 0) ?o = (0, h)" and a: "append_line no_error g ?l = (0, with_line h ?l)"
    have o: "dir_ok ?o" "1 \<le> max_files ?o" "max_files ?o \<le> SEG_MAX"
      using wf open_append_conf(1) [of g] by (auto simp: same_conf_def)
    have "line_terminated (seg g 0)" using wf(4) by (simp add: all_segs_def)
    then have "line_terminated (Some (case seg g 0 of None \<Rightarrow> [] | Some c \<Rightarrow> c))"
      by (cases "seg g 0") auto
    then have to: "all_segs line_terminated ?o"
      using wf(4) by (simp add: all_segs_def open_append_seg [OF wf(1)])
    have eo: "all_events ?o = all_events g"
    proof -
      have "older ?o = older g"
        using wf(3) o(2) open_append_conf(1) [of g]
        by (intro older_cong) (auto simp: open_append_seg [OF wf(1)] same_conf_def)
      then show ?thesis
        using wf(1,2) o(2) by (auto simp: all_events_split open_append_seg split: option.splits)
    qed
    from rotate_keeps [OF r o to] have h: "all_segs line_terminated h" "same_conf ?o h" "next_seq h = next_seq g"
      by auto
    have dh: "dir_ok h" "1 \<le> max_files h" "max_files h \<le> SEG_MAX"
      using h(2) o same_conf_dir [OF h(2)] by (auto simp: same_conf_def)
    from rotate_events [OF o] r obtain n where n: "seg_events (seg h 0) = []" "older h = drop n (all_events g)"
      using eo by auto
    have "all_events (with_line h ?l) = drop n (all_events g) @ [e]"
      using with_line_events [OF dh _ assms(2)] h(1) n dh(2) by (simp add: all_segs_def all_events_split)
    moreover have "same_conf g (with_line h ?l)"
      using same_conf_trans [OF open_append_conf(1) h(2)] with_line_conf(1) by (rule same_conf_trans)
    ultimately show ?thesis
      using a w [OF dh(1) h(1)] with_line_conf(2) [of h ?l] h(3) by auto
  qed
qed

text \<open>The input of an append: the current time and the event of the caller.\<close>

definition valid_input :: "int \<times> event \<Rightarrow> bool" where
  "valid_input i \<longleftrightarrow> ev_subject (snd i) \<noteq> [] \<and> ev_action (snd i) \<noteq> [] \<and>
     0 < fst i \<and> fst i < 2 ^ 63 \<and> ev_ts (snd i) < 2 ^ 63 \<and>
     - (2 ^ 31) \<le> ev_result (snd i) \<and> ev_result (snd i) < 2 ^ 31"

definition input_ok :: "store \<Rightarrow> int \<times> event \<Rightarrow> bool" where
  "input_ok g i \<longleftrightarrow> next_seq g < 2 ^ 64 - 1 \<and> valid_input i"

definition stored :: "store \<Rightarrow> int \<times> event \<Rightarrow> event" where
  "stored g i = (local_event (fst i) (snd i))\<lparr>ev_seq := next_seq g\<rparr>"

definition appended :: "store \<Rightarrow> int \<times> event \<Rightarrow> store" where
  "appended g i = snd (snd (ops_append no_error (fst i) g (Some (snd i))))"

lemma stored_ok: "store_wf g \<Longrightarrow> input_ok g i \<Longrightarrow> event_ok (stored g i)"
  by (simp add: event_ok_def stored_def local_event_def store_wf_def input_ok_def valid_input_def cstr_simps min_less_iff_disj)

lemma ops_append_ok:
  assumes "store_wf g" "input_ok g i"
  shows "\<exists>g' n. ops_append no_error (fst i) g (Some (snd i)) = (0, Some (next_seq g), g') \<and>
    store_wf g' \<and> next_seq g' = next_seq g + 1 \<and> same_conf g g' \<and>
    all_events g' = drop n (all_events g) @ [stored g i] \<and>
    (\<exists>c. seg g' 0 = Some c \<and> c \<noteq> [] \<and> seg_events (Some c) \<noteq> [] \<and> last (seg_events (Some c)) = stored g i)"
proof -
  have wf: "au_dir g \<noteq> []" "next_seq g \<noteq> 0" using assms(1) by (auto simp: store_wf_def dir_ok_def)
  obtain g' n where g': "append_line no_error g (line_body (stored g i) @ [NL]) = (0, g')"
    and h: "same_conf g g'" "next_seq g' = (next_seq g + 1) mod 2 ^ 64" "all_segs line_terminated g'"
      "all_events g' = drop n (all_events g) @ [stored g i]"
      "\<exists>c. seg g' 0 = Some c \<and> c \<noteq> [] \<and> seg_events (Some c) \<noteq> [] \<and> last (seg_events (Some c)) = stored g i"
    using append_line_events [OF assms(1) stored_ok [OF assms]] by blast
  have "ops_append no_error (fst i) g (Some (snd i)) = (0, Some (next_seq g), g')"
    using assms(2) wf fmt_line_ok [OF stored_ok [OF assms]] g'
    by (simp add: ops_append_def input_ok_def valid_input_def ensure_dir_locked_def set_default_dir_locked_def
        seed_seq_locked_def stored_def Let_def)
  moreover have "next_seq g' = next_seq g + 1" using h(2) assms(2) by (simp add: input_ok_def)
  moreover from this have "store_wf g'"
    using assms h(1,3) same_conf_dir [OF h(1)] by (auto simp: store_wf_def same_conf_def input_ok_def)
  ultimately show ?thesis using h(1,4,5) by blast
qed

interpretation audit_log: bounded_log store_wf input_ok stored all_events appended
proof
  fix g i
  assume "store_wf g" "input_ok g i"
  from ops_append_ok [OF this] show "store_wf (appended g i)"
    and "\<exists>n. all_events (appended g i) = drop n (all_events g) @ [stored g i]"
    by (auto simp: appended_def)
qed

text \<open>Sequence numbers increase along the log and stay below the next one.\<close>

definition seq_ok :: "store \<Rightarrow> bool" where
  "seq_ok g \<longleftrightarrow> sorted_wrt (\<lambda>a b. ev_seq a < ev_seq b) (all_events g) \<and>
     (\<forall>e \<in> set (all_events g). ev_seq e < next_seq g)"

lemma appended_seq_ok:
  assumes "store_wf g" "input_ok g i" "seq_ok g"
  shows "seq_ok (appended g i)"
proof -
  have st: "ev_seq (stored g i) = next_seq g" by (simp add: stored_def)
  have n: "next_seq (appended g i) = next_seq g + 1"
    using ops_append_ok [OF assms(1,2)] by (auto simp: appended_def)
  have "sorted_wrt (\<lambda>a b. ev_seq a < ev_seq b) (all_events (appended g i))"
    using audit_log.entries_sorted [OF assms(1,2)] assms(3) st by (simp add: seq_ok_def)
  moreover obtain k where "all_events (appended g i) = drop k (all_events g) @ [stored g i]"
    using audit_log.append_entries [OF assms(1,2)] by blast
  then have "\<forall>e \<in> set (all_events (appended g i)). ev_seq e < next_seq (appended g i)"
    using assms(3) st n by (auto simp: seq_ok_def dest!: in_set_dropD)
  ultimately show ?thesis by (simp add: seq_ok_def)
qed

lemma run_seq_ok: "store_wf g \<Longrightarrow> seq_ok g \<Longrightarrow> audit_log.oks g is \<Longrightarrow> seq_ok (audit_log.run g is)"
  by (induction "is" arbitrary: g) (auto simp: appended_seq_ok audit_log.append_wf)

text \<open>A new process that finds the files of a store.\<close>

definition restarted :: "store \<Rightarrow> store" where
  "restarted g = seed_seq_locked (g\<lparr>next_seq := 0\<rparr>)"

lemma last_seq_max: "m \<le> last_seq m es \<and> (\<forall>e \<in> set es. ev_seq e \<le> last_seq m es) \<and>
    (last_seq m es = m \<or> last_seq m es \<in> ev_seq ` set es)"
  by (induction m es rule: last_seq.induct) (auto split: if_splits)

lemma appended_restart:
  assumes "store_wf g" "input_ok g i" "seq_ok g"
  shows "restarted (appended g i) = appended g i"
proof -
  let ?g = "appended g i"
  obtain c where c: "seg ?g 0 = Some c" "c \<noteq> []" "seg_events (Some c) \<noteq> []" "last (seg_events (Some c)) = stored g i"
    and n: "next_seq ?g = next_seq g + 1" and m: "1 \<le> max_files ?g"
    using ops_append_ok [OF assms(1,2)] by (auto simp: appended_def store_wf_def)
  have sub: "set (seg_events (Some c)) \<subseteq> set (all_events ?g)"
    using all_events_split [OF m] c(1) by simp
  have "last_seq 0 (seg_events (Some c)) = next_seq g"
  proof (rule antisym)
    have "ev_seq e \<le> next_seq g" if "e \<in> set (seg_events (Some c))" for e
      using appended_seq_ok [OF assms] that sub n by (fastforce simp: seq_ok_def)
    then show "last_seq 0 (seg_events (Some c)) \<le> next_seq g"
      using last_seq_max [of 0 "seg_events (Some c)"] by auto
    show "next_seq g \<le> last_seq 0 (seg_events (Some c))"
      using last_seq_max [of 0 "seg_events (Some c)"] last_in_set [OF c(3)] c(4) by (auto simp: stored_def)
  qed
  moreover have "[0..<max_files ?g] = 0 # [1..<max_files ?g]" using m by (simp add: upt_conv_Cons)
  ultimately have "seed_from (?g\<lparr>next_seq := 0\<rparr>) [0..<max_files ?g] = next_seq ?g"
    using assms(1,2) c n by (simp add: store_wf_def input_ok_def)
  then show ?thesis by (simp add: restarted_def seed_seq_locked_def)
qed

section \<open>Capacity\<close>

definition within :: "nat \<Rightarrow> string option \<Rightarrow> bool" where
  "within b content = (case content of None \<Rightarrow> True | Some c \<Rightarrow> length c \<le> b)"

lemma within_simps [simp]: "within b None" "within b (Some [])" "within b (Some c) = (length c \<le> b)"
  by (simp_all add: within_def)

lemma rotate_up_base:
  "rotate_up err g n = (0, g') \<Longrightarrow> dir_ok g \<Longrightarrow> 0 < n \<Longrightarrow> n < SEG_MAX \<Longrightarrow> \<forall>i. err i \<noteq> ENOENT \<Longrightarrow> seg g' 0 = None"
proof (induction err g n rule: rotate_up.induct)
  case (2 err g i)
  show ?case
  proof (cases i)
    case 0
    with 2 show ?thesis by (auto simp: seg_move split: option.splits if_splits)
  next
    case (Suc j)
    with 2 show ?thesis by (auto split: option.splits if_splits)
  qed
qed simp

lemma rotate_base:
  assumes "rotate_locked err g = (0, g')" "dir_ok g" "1 \<le> max_files g" "max_files g \<le> SEG_MAX" "\<forall>i. err i \<noteq> ENOENT"
  shows "within 0 (seg g' 0)"
proof (cases "max_files g \<le> 1")
  case True
  with assms show ?thesis by (auto simp: rotate_locked_def seg_put split: if_splits)
next
  case False
  obtain r1 g1 where g1: "rotate_up err g (max_files g - 1) = (r1, g1)" by force
  with False assms(1) have r: "r1 = 0" "remove_segs err g1 [max_files g..<SEG_MAX] = (0, g')"
    by (auto simp: rotate_locked_def split: if_splits)
  have "same_conf g g1" using rotate_up_keeps [OF g1, of "\<lambda>_. True"] assms False by (simp add: all_segs_def)
  then have d: "dir_ok g1" using same_conf_dir assms(2) by blast
  have "seg g1 0 = None" using rotate_up_base [of err g _ g1] g1 r(1) assms False by auto
  moreover have "seg g' 0 = seg g1 0"
    using remove_segs_keeps [OF r(2) d, of "\<lambda>_. True"] False by (simp only: all_segs_def) simp
  ultimately show ?thesis by simp
qed

lemma length_upto: "length (upto n xs) \<le> length xs"
  by (auto simp: upto_def split: option.splits)

lemma write_line_within:
  assumes "write_line io g line = (rc, g')" "dir_ok g" "all_segs (within b) g"
    "length (the (seg g 0)) + length line \<le> b"
  shows "all_segs (within b) g'"
proof -
  let ?c = "the (seg g 0) @ upto (io_flush io) (upto (io_accept io) line)"
  have "length ?c \<le> b"
    using assms(4) length_upto [of "io_flush io" "upto (io_accept io) line"] length_upto [of "io_accept io" line]
    by simp
  then have "all_segs (within b) (g\<lparr>files := (files g)(seg_path g 0 := Some ?c)\<rparr>)"
    using assms(2,3) by (auto simp: all_segs_def seg_put)
  with assms(1) show ?thesis by (auto simp: write_line_def Let_def all_segs_def split: if_splits)
qed

lemma open_append_within: "dir_ok g \<Longrightarrow> all_segs (within b) g \<Longrightarrow> all_segs (within b) (open_append g)"
  by (auto simp: open_append_def all_segs_def seg_put split: option.splits)

lemma append_line_within:
  assumes "append_line io g line = (rc, g')" "dir_ok g" "1 \<le> max_files g" "max_files g \<le> SEG_MAX"
    and b: "all_segs (within b) g" "max_bytes g \<le> b" "length line \<le> b" and io: "\<forall>i. io_seg io i \<noteq> ENOENT"
  shows "all_segs (within b) g'"
proof -
  let ?o = "open_append g" and ?sz = "length (the (seg (open_append g) 0))"
  have o: "all_segs (within b) ?o" "dir_ok ?o" "max_bytes ?o = max_bytes g" "max_files ?o = max_files g"
    using open_append_within [OF assms(2) b(1)] assms(2) open_append_conf(1) [of g] by (auto simp: same_conf_def)
  consider "io_fopen io \<noteq> 0 \<or> io_fstat io \<noteq> 0" | "io_fopen io = 0" "io_fstat io = 0" "?sz > 0 \<and> ?sz + length line > max_bytes g"
    | "io_fopen io = 0" "io_fstat io = 0" "\<not> (?sz > 0 \<and> ?sz + length line > max_bytes g)" by blast
  then show ?thesis
  proof cases
    case 1
    with assms(1) b(1) o(1) show ?thesis by (auto simp: append_line_def Let_def split: if_splits)
  next
    case 2
    obtain r h where h: "rotate_locked (io_seg io) ?o = (r, h)" by force
    then have k: "all_segs (within b) h" "same_conf ?o h"
      using rotate_keeps [OF h o(2), of "within b"] o assms(3,4) by auto
    have dh: "dir_ok h" using same_conf_dir [OF k(2)] o(2) by simp
    show ?thesis
    proof (cases "r = 0 \<and> io_reopen io = 0")
      case True
      then have "within 0 (seg h 0)" using rotate_base h o assms(3,4) io by metis
      then have "length (the (seg (open_append h) 0)) + length line \<le> b"
        using b(3) by (auto simp: open_append_seg [OF dh] split: option.splits)
      moreover have "write_line io (open_append h) line = (rc, g')"
        using assms(1) 2 h True by (simp add: append_line_def Let_def)
      ultimately show ?thesis
        using write_line_within [of io "open_append h"] open_append_within [OF dh k(1)] dh by simp
    next
      case False
      with 2 h assms(1) k(1) show ?thesis by (auto simp: append_line_def Let_def split: if_splits)
    qed
  next
    case 3
    then have "write_line io ?o line = (rc, g')"
      using assms(1) by (cases "the (seg ?o 0) = []") (simp_all add: append_line_def Let_def)
    moreover have "?sz + length line \<le> b" using 3(3) b(2,3) by auto
    ultimately show ?thesis using write_line_within o by blast
  qed
qed

section \<open>Sizes\<close>

text \<open>A plain number is taken as it is; a negative one wraps around to almost \<open>2 ^ 64\<close>.\<close>

lemma parse_size_number: "0 < n \<Longrightarrow> n < 2 ^ 64 \<Longrightarrow> parse_size (Some (show_nat n)) = (0, Some n)"
  by (simp add: parse_size_def strtoull_def strtoull_erange_def size_suffix_def eq_commute [of "[]"])

lemma parse_size_negative:
  "0 < n \<Longrightarrow> n < 2 ^ 64 \<Longrightarrow> parse_size (Some (CHR ''-'' # show_nat n)) = (0, Some (2 ^ 64 - n))"
proof -
  assume n: "0 < n" "n < 2 ^ 64"
  have "scan_number (CHR ''-'' # show_nat n) = Some (True, n, [])"
    using scan_number_minus [of "show_nat n" "[]"] show_nat_digits by auto
  with n show ?thesis by (simp add: parse_size_def strtoull_def strtoull_erange_def size_suffix_def)
qed

section \<open>Properties\<close>

text \<open>
  C14. Every event within the bounds of its fields, whatever characters they hold, is written as one line
  that fits the line buffer, has its only newline at the end and parses back to the event.
\<close>

theorem audit_line_roundtrip:
  assumes "event_ok ev"
  shows "\<exists>body. fmt_line ev LINE_MAX = Some (body @ [NL]) \<and> NL \<notin> set body \<and>
    parse_event (body @ [NL]) = Some ev \<and> length body < LINE_MAX div 2"
proof (intro exI conjI)
  show "fmt_line ev LINE_MAX = Some (line_body ev @ [NL])" using assms by (rule fmt_line_ok)
  show "NL \<notin> set (line_body ev)" by (rule line_body_no_newline)
  show "parse_event (line_body ev @ [NL]) = Some ev" using assms by (rule parse_line_body)
  show "length (line_body ev) < LINE_MAX div 2" using length_line_body [OF assms] by simp
qed

definition odd_event :: event where
  "odd_event = \<lparr>ev_seq = 7, ev_ts = 5, ev_result = - 13, ev_subject = ''a|b'', ev_action = [BSL, NL],
     ev_target = [], ev_detail = [CR, BAR, BSL]\<rparr>"

theorem audit_line_roundtrip_witness:
  "\<exists>body. fmt_line odd_event LINE_MAX = Some (body @ [NL]) \<and> NL \<notin> set body \<and>
     parse_event (body @ [NL]) = Some odd_event \<and> length body < LINE_MAX div 2"
  by (rule audit_line_roundtrip) (simp add: event_ok_def odd_event_def)

fun append_all :: "store \<Rightarrow> (int \<times> event) list \<Rightarrow> (rc \<times> nat option) list \<times> store" where
  "append_all g [] = ([], g)"
| "append_all g ((now, ev) # is) =
     (case ops_append no_error now g (Some ev) of
        (rc, sq, g') \<Rightarrow> (case append_all g' is of (out, h) \<Rightarrow> ((rc, sq) # out, h)))"

fun stored_all :: "nat \<Rightarrow> (int \<times> event) list \<Rightarrow> event list" where
  "stored_all k [] = []"
| "stored_all k ((now, ev) # is) = (local_event now ev)\<lparr>ev_seq := k\<rparr> # stored_all (Suc k) is"

lemma stored_pair: "stored g (now, ev) = (local_event now ev)\<lparr>ev_seq := next_seq g\<rparr>"
  by (simp add: stored_def)

lemma append_all_run:
  "store_wf g \<Longrightarrow> \<forall>i \<in> set is. valid_input i \<Longrightarrow> next_seq g + length is < 2 ^ 64 \<Longrightarrow>
     append_all g is = (map (\<lambda>k. (0, Some k)) [next_seq g..<next_seq g + length is], audit_log.run g is) \<and>
     audit_log.oks g is \<and> audit_log.encs g is = stored_all (next_seq g) is"
proof (induction g "is" rule: append_all.induct)
  case (2 g now ev "is")
  have i: "input_ok g (now, ev)" using 2(3,4) by (simp add: input_ok_def)
  obtain g' where g': "ops_append no_error now g (Some ev) = (0, Some (next_seq g), g')"
    and wf: "store_wf g'" "next_seq g' = next_seq g + 1" "g' = appended g (now, ev)"
    using ops_append_ok [OF 2(2) i] by (auto simp: appended_def)
  have "next_seq g' + length is < 2 ^ 64" using 2(4) wf(2) by simp
  from "2.IH" [OF g' [symmetric] refl wf(1) _ this] 2(3)
  show ?case using g' wf i by (simp add: upt_conv_Cons stored_pair del: upt_Suc)
qed simp

text \<open>
  C13. Appending any list of valid events to a log whose system calls succeed returns consecutive
  sequence numbers; a query then returns, in strictly increasing order, a suffix of the old events
  followed by the new ones, truncated to their fields, the last of which is always there; and a new
  process that reads the files continues with the same next number.
\<close>

theorem audit_append_history:
  assumes "store_wf g" "seq_ok g" "\<forall>i \<in> set is. valid_input i" "next_seq g + length is < 2 ^ 64" "is \<noteq> []"
    and "append_all g is = (out, h)"
  shows "out = map (\<lambda>k. (0, Some k)) [next_seq g..<next_seq g + length is] \<and>
    suffix (all_events h) (all_events g @ stored_all (next_seq g) is) \<and> all_events h \<noteq> [] \<and>
    sorted_wrt (\<lambda>a b. ev_seq a < ev_seq b) (all_events h) \<and>
    ops_query True h None = (0, all_events h, h) \<and> restarted h = h"
proof -
  from append_all_run [OF assms(1,3,4)] assms(6)
  have out: "out = map (\<lambda>k. (0, Some k)) [next_seq g..<next_seq g + length is]" and h: "h = audit_log.run g is"
    and oks: "audit_log.oks g is" and encs: "audit_log.encs g is = stored_all (next_seq g) is" by auto
  have wf: "store_wf h" unfolding h using audit_log.run_wf [OF assms(1) oks] .
  obtain is' i where "is = is' @ [i]" using assms(5) by (cases "is" rule: rev_cases) auto
  have "\<exists>g0. store_wf g0 \<and> seq_ok g0 \<and> input_ok g0 i \<and> h = appended g0 i" if "is = is' @ [i]" for is' i
    using assms(1,2) oks that unfolding h
    by (induction is' arbitrary: g "is") (fastforce simp: audit_log.append_wf appended_seq_ok)+
  then obtain g0 j where g0: "store_wf g0" "seq_ok g0" "input_ok g0 j" "h = appended g0 j"
    using \<open>is = is' @ [i]\<close> by blast
  have "au_dir h \<noteq> []" using wf by (auto simp: store_wf_def dir_ok_def)
  then have "ops_query True h None = (0, all_events h, h)"
    by (simp add: ops_query_def set_default_dir_locked_def collect_locked_def event_matches_def Let_def)
  moreover have "seq_ok h" unfolding h using run_seq_ok assms(1,2) oks by blast
  moreover have "all_events h \<noteq> []" using audit_log.last_entry [OF g0(1,3)] g0(4) by simp
  ultimately show ?thesis
    using out audit_log.run_suffix [OF assms(1) oks] appended_restart [OF g0(1,3,2)] g0(4)
    unfolding encs h [symmetric] by (simp add: seq_ok_def)
qed

definition fresh_store :: store where
  "fresh_store = seed_seq_locked (set_default_dir_locked (audit_init Map.empty))"

theorem audit_append_history_witness:
  "fst (append_all fresh_store [(9, odd_event), (9, odd_event)]) = [(0, Some 1), (0, Some 2)]"
proof -
  have f: "fresh_store = \<lparr>au_dir = ''/var/lib/hwrun/audit'', max_bytes = 1048576, max_files = 3, next_seq = 1,
      files = Map.empty\<rparr>"
    by (simp add: fresh_store_def seed_seq_locked_def set_default_dir_locked_def audit_init_def seg_def upt_rec)
  have e: "all_events fresh_store = []" by (simp add: f all_events_def seg_def)
  have 1: "store_wf fresh_store" by (simp add: f store_wf_def dir_ok_def all_segs_def seg_def)
  have 2: "seq_ok fresh_store" by (simp add: seq_ok_def e)
  have 3: "valid_input (9, odd_event)" by code_simp
  obtain out h where a: "append_all fresh_store [(9, odd_event), (9, odd_event)] = (out, h)" by force
  have "out = map (\<lambda>k. (0, Some k)) [next_seq fresh_store..<next_seq fresh_store + 2]"
    using audit_append_history [OF 1 2 _ _ _ a] 3 by (simp add: f)
  then show ?thesis using a by (simp add: f upt_rec)
qed

text \<open>
  No append, whatever its system calls do, makes a segment longer than the configured limit or one
  line, whichever is more: the log never exceeds \<open>max_files\<close> segments of that size.
\<close>

theorem audit_capacity:
  assumes "length (au_dir g) < 512" "1 \<le> max_files g" "max_files g \<le> SEG_MAX" "max_bytes g \<le> b" "LINE_MAX \<le> b"
    and "\<forall>i. io_seg io i \<noteq> ENOENT" "all_segs (within b) (set_default_dir_locked g)"
  shows "all_segs (within b) (snd (snd (ops_append io now (set_default_dir_locked g) ev)))"
proof -
  let ?d = "set_default_dir_locked g"
  have d: "dir_ok ?d" "max_bytes ?d = max_bytes g" "max_files ?d = max_files g" "set_default_dir_locked ?d = ?d"
    using assms(1) by (auto simp: set_default_dir_locked_def dir_ok_def)
  have s: "all_segs (within b) (seed_seq_locked ?d)" "dir_ok (seed_seq_locked ?d)"
      "max_bytes (seed_seq_locked ?d) = max_bytes g" "max_files (seed_seq_locked ?d) = max_files g"
    using assms(7) d by (auto simp: seed_seq_locked_def all_segs_def)
  have l: "length line \<le> b" if "fmt_line e LINE_MAX = Some line" for e line
    using that assms(5) by (auto simp: fmt_line_def Let_def split: if_splits)
  show ?thesis
    using append_line_within [OF _ s(2), of io _ _ _ b] s l assms d(4)
    by (auto simp: ops_append_def ensure_dir_locked_def Let_def split: option.splits prod.splits if_splits)
qed

theorem audit_capacity_witness:
  "all_segs (within 4096) (snd (snd (ops_append no_error 9
     (set_default_dir_locked ((audit_init Map.empty)\<lparr>max_bytes := 100\<rparr>)) (Some odd_event))))"
  by (rule audit_capacity) (simp_all add: audit_init_def set_default_dir_locked_def all_segs_def seg_def)

text \<open>
  The result of closing the log is ignored: when the bytes that \<^verbatim>\<open>fwrite\<close> took do not reach the file,
  the append still reports success and a sequence number, although no event was added.
\<close>

theorem audit_append_lost:
  assumes "store_wf g" "input_ok g (now, ev)"
    and "length (the (seg (open_append g) 0)) + 2000 \<le> max_bytes g"
  shows "\<exists>h. ops_append (no_error\<lparr>io_flush := Some 0\<rparr>) now g (Some ev) = (0, Some (next_seq g), h) \<and>
    all_events h = all_events g"
proof -
  let ?io = "no_error\<lparr>io_flush := Some 0\<rparr>" and ?e = "stored g (now, ev)"
  let ?l = "line_body ?e @ [NL]"
  have e: "event_ok ?e" using stored_ok assms(1,2) by blast
  have wf: "dir_ok g" "1 \<le> max_files g" "max_files g \<le> SEG_MAX" "au_dir g \<noteq> []" "next_seq g \<noteq> 0"
    using assms(1) by (auto simp: store_wf_def dir_ok_def)
  have "length ?l \<le> 2000" using length_line_body [OF e] by simp
  then have big: "\<not> (length (the (seg (open_append g) 0)) + length ?l > max_bytes g)" using assms(3) by linarith
  let ?h = "(with_line g [])"
  have "append_line ?io g ?l = (0, ?h)"
    using big by (simp add: append_line_def write_line_def Let_def upto_def with_line_def)
  then have "ops_append ?io now g (Some ev) = (0, Some (next_seq g), ?h)"
    using assms(2) wf(4,5) fmt_line_ok [OF e]
    by (simp add: ops_append_def input_ok_def valid_input_def ensure_dir_locked_def set_default_dir_locked_def
        seed_seq_locked_def stored_def Let_def)
  moreover have "all_events ?h = all_events g"
  proof -
    have m: "max_files ?h = max_files g" using with_line_conf(1) by (simp add: same_conf_def)
    have "older ?h = older g" using wf(3) by (intro older_cong) (auto simp: m with_line_seg [OF wf(1)])
    then show ?thesis
      using wf(2) by (auto simp: all_events_split m with_line_seg [OF wf(1)] split: option.splits)
  qed
  ultimately show ?thesis by blast
qed

theorem audit_append_lost_witness:
  "\<exists>h. ops_append (no_error\<lparr>io_flush := Some 0\<rparr>) 9 (fresh_store\<lparr>max_bytes := 4096\<rparr>) (Some odd_event) = (0, Some 1, h) \<and>
     all_events h = []"
proof -
  let ?g = "fresh_store\<lparr>max_bytes := 4096\<rparr>"
  have f: "?g = \<lparr>au_dir = ''/var/lib/hwrun/audit'', max_bytes = 4096, max_files = 3, next_seq = 1,
      files = Map.empty\<rparr>"
    by (simp add: fresh_store_def seed_seq_locked_def set_default_dir_locked_def audit_init_def seg_def upt_rec)
  have e: "all_events ?g = []" unfolding f by (simp add: all_events_def seg_def)
  have 1: "store_wf ?g" unfolding f by (simp add: store_wf_def dir_ok_def all_segs_def seg_def)
  have "valid_input (9, odd_event)" by code_simp
  then have 2: "input_ok ?g (9, odd_event)" unfolding f by (simp add: input_ok_def)
  have 3: "length (the (seg (open_append ?g) 0)) + 2000 \<le> max_bytes ?g"
    unfolding f by (subst open_append_seg) (simp_all add: dir_ok_def seg_def)
  from audit_append_lost [OF 1 2 3] e show ?thesis unfolding f by simp
qed

end
