(* ===== verification/Permission.thy ===== *)
theory Permission
  imports Interfaces
begin

text \<open>
  The PERMISSION plugin, \<^verbatim>\<open>permission/src/permission_impl.c\<close>: roles with permission patterns, bindings
  of subjects to roles, the default-deny check, and the state file.

  The plugin's context is the record \<open>pstate\<close>.  Every operation runs under one mutex, which is left
  out; the write-through of a successful change is the \<open>autosave\<close> of the new state, which writes
  \<open>state_text\<close> to the state file when one is set.  A name that C passes by pointer and reads without a
  NULL test is a string here.
\<close>

section \<open>Text helpers\<close>

abbreviation is_ws :: "char \<Rightarrow> bool" where
  "is_ws c \<equiv> c = CHR '' '' \<or> c = TAB \<or> c = CR \<or> c = NL"

definition trim_ws :: "string \<Rightarrow> string" where
  "trim_ws s = rtrim (\<lambda>c. is_ws c) (dropWhile isblank s)"

text \<open>The result code, the token (empty when it is too long) and the rest of the line.\<close>

definition take_tok :: "string \<Rightarrow> nat \<Rightarrow> int \<times> string \<times> string" where
  "take_tok s cap =
     (let p = dropWhile isblank s in
      if p = [] then (0, [], p)
      else
        let w = takeWhile (\<lambda>c. \<not> isblank c) p; rest = dropWhile (\<lambda>c. \<not> isblank c) p in
        if length w \<ge> cap then (- 1, [], rest) else (1, w, rest))"

definition token_ok :: "string option \<Rightarrow> nat \<Rightarrow> bool" where
  "token_ok s mx =
     (case s of
        None \<Rightarrow> False
      | Some t \<Rightarrow> t \<noteq> [] \<and> length t < mx \<and> list_all (\<lambda>c. \<not> is_ws c \<and> c \<noteq> CHR ''#'') t)"

definition free_text_ok :: "string \<Rightarrow> nat \<Rightarrow> bool" where
  "free_text_ok s mx \<longleftrightarrow> length s < mx \<and> list_all (\<lambda>c. c \<noteq> NL \<and> c \<noteq> CR) s"

fun glob_match :: "string \<Rightarrow> string \<Rightarrow> bool" where
  "glob_match [] s = (s = [])"
| "glob_match (p # pat) s =
     (if p = CHR ''*'' then
        glob_match pat s \<or> (case s of [] \<Rightarrow> False | _ # t \<Rightarrow> glob_match (p # pat) t)
      else
        (case s of
           [] \<Rightarrow> False
         | c # t \<Rightarrow> (p = CHR ''?'' \<or> p = c) \<and> glob_match pat t))"

declare glob_match.simps(2) [simp del]

lemma glob_match_Cons [simp]:
  "glob_match (p # pat) [] = (p = CHR ''*'' \<and> glob_match pat [])"
  "glob_match (p # pat) (c # t) =
     (if p = CHR ''*'' then glob_match pat (c # t) \<or> glob_match (p # pat) t
      else (p = CHR ''?'' \<or> p = c) \<and> glob_match pat t)"
  by (subst glob_match.simps; simp)+

section \<open>State\<close>

record perm =
  pm_action :: string
  pm_resource :: string

record role =
  rl_name :: string
  rl_description :: string
  rl_perms :: "perm list"

record binding =
  bd_subject :: string
  bd_role :: string

record pstate =
  roles :: "role list"
  bindings :: "binding list"
  state_file :: string

definition find_role_locked :: "pstate \<Rightarrow> string \<Rightarrow> role option" where
  "find_role_locked g name = find (\<lambda>r. rl_name r = name) (roles g)"

definition find_binding_locked :: "pstate \<Rightarrow> string \<Rightarrow> string \<Rightarrow> binding option" where
  "find_binding_locked g subject role = find (\<lambda>b. bd_subject b = subject \<and> bd_role b = role) (bindings g)"

definition clear_state_locked :: "pstate \<Rightarrow> pstate" where
  "clear_state_locked g = g\<lparr>roles := [], bindings := []\<rparr>"

definition append_role_locked :: "bool \<Rightarrow> pstate \<Rightarrow> string \<Rightarrow> string option \<Rightarrow> bool \<times> pstate" where
  "append_role_locked ok g name description =
     (if \<not> ok then (False, g)
      else (True, g\<lparr>roles := roles g @
        [\<lparr>rl_name = cstr 64 name,
          rl_description = cstr 256 (case description of None \<Rightarrow> [] | Some d \<Rightarrow> d),
          rl_perms = []\<rparr>]\<rparr>))"

definition append_binding_locked :: "bool \<Rightarrow> pstate \<Rightarrow> string \<Rightarrow> string \<Rightarrow> bool \<times> pstate" where
  "append_binding_locked ok g subject role =
     (if \<not> ok then (False, g)
      else (True, g\<lparr>bindings := bindings g @ [\<lparr>bd_subject = cstr 128 subject, bd_role = cstr 64 role\<rparr>]\<rparr>))"

section \<open>Changes of the policy\<close>

definition role_add_locked :: "bool \<Rightarrow> pstate \<Rightarrow> string option \<Rightarrow> string option \<Rightarrow> rc \<times> pstate" where
  "role_add_locked ok g name description =
     (if \<not> token_ok name 64 then (EINVAL, g)
      else if \<not> free_text_ok (case description of None \<Rightarrow> [] | Some d \<Rightarrow> d) 256 then (EINVAL, g)
      else if find_role_locked g (the name) \<noteq> None then (EEXIST, g)
      else (case append_role_locked ok g (the name) description of
              (False, g') \<Rightarrow> (ENOMEM, g') | (True, g') \<Rightarrow> (0, g')))"

definition role_remove_locked :: "pstate \<Rightarrow> string \<Rightarrow> rc \<times> pstate" where
  "role_remove_locked g name =
     (if find (\<lambda>r. rl_name r = name) (roles g) = None then (ENOENT, g)
      else (0, g\<lparr>roles := remove_first (\<lambda>r. rl_name r = name) (roles g),
                 bindings := filter (\<lambda>b. bd_role b \<noteq> name) (bindings g)\<rparr>))"

definition same_perm :: "string \<Rightarrow> string \<Rightarrow> perm \<Rightarrow> bool" where
  "same_perm action res p \<longleftrightarrow> pm_action p = action \<and> pm_resource p = res"

definition role_add_perm_locked :: "pstate \<Rightarrow> string \<Rightarrow> string option \<Rightarrow> string option \<Rightarrow> rc \<times> pstate" where
  "role_add_perm_locked g role action resource =
     (case find_role_locked g role of
        None \<Rightarrow> (ENOENT, g)
      | Some r \<Rightarrow>
          if \<not> token_ok action 64 then (EINVAL, g)
          else
            let res = (case resource of None \<Rightarrow> [] | Some x \<Rightarrow> x) in
            if \<not> free_text_ok res 256 then (EINVAL, g)
            else if find (same_perm (the action) res) (rl_perms r) \<noteq> None then (EEXIST, g)
            else if length (rl_perms r) \<ge> 64 then (ENOSPC, g)
            else (0, g\<lparr>roles := update_first (\<lambda>x. rl_name x = role)
                        (\<lambda>x. x\<lparr>rl_perms := rl_perms x @
                            [\<lparr>pm_action = cstr 64 (the action), pm_resource = cstr 256 res\<rparr>]\<rparr>) (roles g)\<rparr>))"

definition role_remove_perm_locked :: "pstate \<Rightarrow> string \<Rightarrow> string option \<Rightarrow> string option \<Rightarrow> rc \<times> pstate" where
  "role_remove_perm_locked g role action resource =
     (case find_role_locked g role of
        None \<Rightarrow> (ENOENT, g)
      | Some r \<Rightarrow>
          if \<not> token_ok action 64 then (EINVAL, g)
          else
            let res = (case resource of None \<Rightarrow> [] | Some x \<Rightarrow> x) in
            if \<not> free_text_ok res 256 then (EINVAL, g)
            else if find (same_perm (the action) res) (rl_perms r) = None then (ENOENT, g)
            else (0, g\<lparr>roles := update_first (\<lambda>x. rl_name x = role)
                        (\<lambda>x. x\<lparr>rl_perms := remove_first (same_perm (the action) res) (rl_perms x)\<rparr>) (roles g)\<rparr>))"

definition grant_locked :: "bool \<Rightarrow> pstate \<Rightarrow> string option \<Rightarrow> string option \<Rightarrow> rc \<times> pstate" where
  "grant_locked ok g subject role =
     (if \<not> token_ok subject 128 then (EINVAL, g)
      else if \<not> token_ok role 64 then (EINVAL, g)
      else if find_role_locked g (the role) = None then (ENOENT, g)
      else if find_binding_locked g (the subject) (the role) \<noteq> None then (EEXIST, g)
      else (case append_binding_locked ok g (the subject) (the role) of
              (False, g') \<Rightarrow> (ENOMEM, g') | (True, g') \<Rightarrow> (0, g')))"

definition revoke_locked :: "pstate \<Rightarrow> string option \<Rightarrow> string option \<Rightarrow> rc \<times> pstate" where
  "revoke_locked g subject role =
     (if \<not> token_ok subject 128 then (EINVAL, g)
      else if \<not> token_ok role 64 then (EINVAL, g)
      else if find_binding_locked g (the subject) (the role) = None then (ENOENT, g)
      else (0, g\<lparr>bindings :=
          remove_first (\<lambda>b. bd_subject b = the subject \<and> bd_role b = the role) (bindings g)\<rparr>))"

section \<open>The state file\<close>

definition default_state_path :: "string option \<Rightarrow> string option \<Rightarrow> nat \<Rightarrow> string" where
  "default_state_path permission_state hwrun_state cap =
     (case permission_state of
        Some (c # p) \<Rightarrow> cstr cap (c # p)
      | _ \<Rightarrow>
          (case hwrun_state of
             Some (c # d) \<Rightarrow> cstr cap ((c # d) @ ''/permission.state'')
           | _ \<Rightarrow> cstr cap ''/var/lib/hwrun/permission.state''))"

text \<open>The two comment lines of the header, in UTF-8.\<close>

definition state_header1 :: string where
  "state_header1 =
     ''# HWRun OS PERMISSION '' @
     [CHR 0xE7, CHR 0x94, CHR 0xA8, CHR 0xE6, CHR 0x88, CHR 0xB7, CHR 0xE6, CHR 0x80, CHR 0x81] @
     '' RBAC '' @
     [CHR 0xE7, CHR 0x8A, CHR 0xB6, CHR 0xE6, CHR 0x80, CHR 0x81, CHR 0xE6, CHR 0x96, CHR 0x87, CHR 0xE4, CHR 0xBB, CHR 0xB6] @
     '' v1''"

definition state_header2 :: string where
  "state_header2 =
     ''# '' @
     [CHR 0xE8, CHR 0xA1, CHR 0x8C, CHR 0xE6, CHR 0xA0, CHR 0xBC, CHR 0xE5, CHR 0xBC, CHR 0x8F] @
     '': role <'' @
     [CHR 0xE8, CHR 0xA7, CHR 0x92, CHR 0xE8, CHR 0x89, CHR 0xB2] @
     ''> ['' @
     [CHR 0xE6, CHR 0x8F, CHR 0x8F, CHR 0xE8, CHR 0xBF, CHR 0xB0] @
     ''] | perm <'' @
     [CHR 0xE8, CHR 0xA7, CHR 0x92, CHR 0xE8, CHR 0x89, CHR 0xB2] @
     ''> <'' @
     [CHR 0xE5, CHR 0x8A, CHR 0xA8, CHR 0xE4, CHR 0xBD, CHR 0x9C, CHR 0xE6, CHR 0xA8, CHR 0xA1, CHR 0xE5, CHR 0xBC, CHR 0x8F] @
     ''> ['' @
     [CHR 0xE8, CHR 0xB5, CHR 0x84, CHR 0xE6, CHR 0xBA, CHR 0x90, CHR 0xE6, CHR 0xA8, CHR 0xA1, CHR 0xE5, CHR 0xBC, CHR 0x8F] @
     ''] | grant <'' @
     [CHR 0xE4, CHR 0xB8, CHR 0xBB, CHR 0xE4, CHR 0xBD, CHR 0x93] @
     ''> <'' @
     [CHR 0xE8, CHR 0xA7, CHR 0x92, CHR 0xE8, CHR 0x89, CHR 0xB2] @
     ''>''"

definition perm_line :: "string \<Rightarrow> perm \<Rightarrow> string" where
  "perm_line name p =
     ''perm '' @ name @ '' '' @ pm_action p @ (if pm_resource p \<noteq> [] then '' '' @ pm_resource p else [])"

definition role_lines :: "role \<Rightarrow> string list" where
  "role_lines r =
     (''role '' @ rl_name r @ (if rl_description r \<noteq> [] then '' '' @ rl_description r else []))
     # map (perm_line (rl_name r)) (rl_perms r)"

definition grant_line :: "binding \<Rightarrow> string" where
  "grant_line b = ''grant '' @ bd_subject b @ '' '' @ bd_role b"

definition state_text :: "pstate \<Rightarrow> string" where
  "state_text g =
     concat (map (\<lambda>l. l @ [NL])
       ([state_header1, state_header2] @ concat (map role_lines (roles g)) @ map grant_line (bindings g)))"

text \<open>
  \<open>state_write_locked\<close>: the text goes to a temporary file that is renamed over \<open>path\<close>; \<open>io\<close> is 0 or the
  error of the step that failed.  The result holds the file that now has new content.
\<close>

definition state_write_locked :: "rc \<Rightarrow> pstate \<Rightarrow> string \<Rightarrow> rc \<times> (string \<times> string) option" where
  "state_write_locked io g path = (if io \<noteq> 0 then (io, None) else (0, Some (path, state_text g)))"

definition state_apply_line :: "allocs \<Rightarrow> pstate \<Rightarrow> string \<Rightarrow> rc \<times> pstate \<times> allocs" where
  "state_apply_line al g line =
     (case take_tok line 16 of
        (k, kind, p) \<Rightarrow>
          if k \<noteq> 1 then (EINVAL, g, al)
          else if kind = ''role'' then
            (case take_tok p 64 of
               (t, name, p2) \<Rightarrow>
                 if t \<noteq> 1 then (EINVAL, g, al)
                 else
                   let desc = cstr 256 (trim_ws p2) in
                   if \<not> token_ok (Some name) 64 then (EINVAL, g, al)
                   else if \<not> free_text_ok desc 256 then (EINVAL, g, al)
                   else if find_role_locked g name \<noteq> None then (0, g, al)
                   else
                     (case alloc al of
                        (ok, al') \<Rightarrow>
                          (case append_role_locked ok g name (Some desc) of
                             (False, g') \<Rightarrow> (ENOMEM, g', al') | (True, g') \<Rightarrow> (0, g', al'))))
          else if kind = ''perm'' then
            (case take_tok p 64 of
               (t, role, p2) \<Rightarrow>
                 if t \<noteq> 1 then (EINVAL, g, al)
                 else
                   (case take_tok p2 64 of
                      (t2, action, p3) \<Rightarrow>
                        if t2 \<noteq> 1 then (EINVAL, g, al)
                        else
                          let resource = cstr 256 (trim_ws p3) in
                          if find_role_locked g role = None then (ENOENT, g, al)
                          else
                            (case role_add_perm_locked g role (Some action) (Some resource) of
                               (e, g') \<Rightarrow> (if e = EEXIST then 0 else e, g', al))))
          else if kind = ''grant'' then
            (case take_tok p 128 of
               (t, subject, p2) \<Rightarrow>
                 if t \<noteq> 1 then (EINVAL, g, al)
                 else
                   (case take_tok p2 64 of
                      (t2, role, _) \<Rightarrow>
                        if t2 \<noteq> 1 then (EINVAL, g, al)
                        else if find_role_locked g role = None then (ENOENT, g, al)
                        else if find_binding_locked g subject role \<noteq> None then (0, g, al)
                        else
                          (case alloc al of
                             (ok, al') \<Rightarrow>
                               (case append_binding_locked ok g subject role of
                                  (False, g') \<Rightarrow> (ENOMEM, g', al') | (True, g') \<Rightarrow> (0, g', al')))))
          else (EINVAL, g, al))"

text \<open>The lines that are kept: trimmed, not empty, no comment.\<close>

definition state_lines :: "string \<Rightarrow> string list" where
  "state_lines content =
     filter (\<lambda>t. t \<noteq> [] \<and> hd t \<noteq> CHR ''#'') (map trim_ws (fgets_all 4096 content))"

fun apply_roles :: "allocs \<Rightarrow> rc \<Rightarrow> pstate \<Rightarrow> string list \<Rightarrow> rc \<times> pstate \<times> allocs" where
  "apply_roles al rc g [] = (rc, g, al)"
| "apply_roles al rc g (l # ls) =
     (if take 4 l = ''role'' then
        (case state_apply_line al g l of
           (e, g', al') \<Rightarrow> apply_roles al' (if e < 0 \<and> e \<noteq> EINVAL then e else rc) g' ls)
      else apply_roles al rc g ls)"

fun apply_rest :: "allocs \<Rightarrow> pstate \<Rightarrow> string list \<Rightarrow> pstate \<times> allocs" where
  "apply_rest al g [] = (g, al)"
| "apply_rest al g (l # ls) =
     (if take 4 l = ''perm'' \<or> take 5 l = ''grant'' then
        (case state_apply_line al g l of (_, g', al') \<Rightarrow> apply_rest al' g' ls)
      else apply_rest al g ls)"

text \<open>
  \<open>content\<close> is the file, or the negative \<^verbatim>\<open>errno\<close> of opening it; \<open>mem\<close> says whether the lines could be
  copied.
\<close>

definition state_read_locked :: "rc + string \<Rightarrow> bool \<Rightarrow> allocs \<Rightarrow> pstate \<Rightarrow> bool \<Rightarrow> rc \<times> pstate" where
  "state_read_locked content mem al g missing_ok =
     (case content of
        Inl e \<Rightarrow> if e = ENOENT \<and> missing_ok then (0, g) else (e, g)
      | Inr c \<Rightarrow>
          if \<not> mem then (ENOMEM, g)
          else
            let ls = state_lines c in
            (case apply_roles al 0 (clear_state_locked g) ls of
               (rc, g1, al1) \<Rightarrow> (rc, fst (apply_rest al1 g1 ls))))"

text \<open>Writing through after a change: the file written, when a path is set and the write succeeds.\<close>

definition autosave_state :: "rc \<Rightarrow> pstate \<Rightarrow> (string \<times> string) option" where
  "autosave_state io g = (if state_file g = [] then None else snd (state_write_locked io g (state_file g)))"

section \<open>Operations\<close>

type_synonym written = "(string \<times> string) option"

definition saved :: "rc \<Rightarrow> rc \<times> pstate \<Rightarrow> rc \<times> pstate \<times> written" where
  "saved io res = (case res of (rc, g) \<Rightarrow> (rc, g, if rc = 0 then autosave_state io g else None))"

definition ops_role_add :: "rc \<Rightarrow> bool \<Rightarrow> pstate \<Rightarrow> string option \<Rightarrow> string option \<Rightarrow> rc \<times> pstate \<times> written" where
  "ops_role_add io ok g name description = saved io (role_add_locked ok g name description)"

definition ops_role_remove :: "rc \<Rightarrow> pstate \<Rightarrow> string \<Rightarrow> rc \<times> pstate \<times> written" where
  "ops_role_remove io g name = saved io (role_remove_locked g name)"

definition ops_role_add_perm :: "rc \<Rightarrow> pstate \<Rightarrow> string \<Rightarrow> string option \<Rightarrow> string option \<Rightarrow> rc \<times> pstate \<times> written" where
  "ops_role_add_perm io g role action resource = saved io (role_add_perm_locked g role action resource)"

definition ops_role_remove_perm :: "rc \<Rightarrow> pstate \<Rightarrow> string \<Rightarrow> string option \<Rightarrow> string option \<Rightarrow> rc \<times> pstate \<times> written" where
  "ops_role_remove_perm io g role action resource = saved io (role_remove_perm_locked g role action resource)"

definition ops_grant :: "rc \<Rightarrow> bool \<Rightarrow> pstate \<Rightarrow> string option \<Rightarrow> string option \<Rightarrow> rc \<times> pstate \<times> written" where
  "ops_grant io ok g subject role = saved io (grant_locked ok g subject role)"

definition ops_revoke :: "rc \<Rightarrow> pstate \<Rightarrow> string option \<Rightarrow> string option \<Rightarrow> rc \<times> pstate \<times> written" where
  "ops_revoke io g subject role = saved io (revoke_locked g subject role)"

definition ops_role_get :: "pstate \<Rightarrow> string option \<Rightarrow> rc \<times> role option" where
  "ops_role_get g name =
     (case name of
        None \<Rightarrow> (EINVAL, None)
      | Some n \<Rightarrow>
          (case find_role_locked g n of
             None \<Rightarrow> (ENOENT, None)
           | Some r \<Rightarrow> (0, Some (r\<lparr>rl_name := cstr 64 (rl_name r), rl_description := cstr 256 (rl_description r)\<rparr>))))"

text \<open>The entries copied out and the total number.\<close>

definition ops_role_list :: "pstate \<Rightarrow> int \<Rightarrow> rc \<times> role list \<times> nat" where
  "ops_role_list g cap =
     (if cap \<le> 0 then (EINVAL, [], 0) else (0, take (nat cap) (roles g), length (roles g)))"

definition ops_binding_list :: "pstate \<Rightarrow> int \<Rightarrow> rc \<times> binding list \<times> nat" where
  "ops_binding_list g cap =
     (if cap \<le> 0 then (EINVAL, [], 0) else (0, take (nat cap) (bindings g), length (bindings g)))"

fun perms_allow :: "perm list \<Rightarrow> string \<Rightarrow> string \<Rightarrow> bool" where
  "perms_allow [] action res = False"
| "perms_allow (p # ps) action res =
     (if \<not> glob_match (pm_action p) action then perms_allow ps action res
      else if pm_resource p \<noteq> [] \<and> \<not> glob_match (pm_resource p) res then perms_allow ps action res
      else True)"

fun bindings_allow :: "pstate \<Rightarrow> binding list \<Rightarrow> string \<Rightarrow> string \<Rightarrow> string \<Rightarrow> bool" where
  "bindings_allow g [] subject action res = False"
| "bindings_allow g (b # bs) subject action res =
     (if bd_subject b \<noteq> subject then bindings_allow g bs subject action res
      else
        (case find_role_locked g (bd_role b) of
           None \<Rightarrow> bindings_allow g bs subject action res
         | Some r \<Rightarrow>
             if perms_allow (rl_perms r) action res then True
             else bindings_allow g bs subject action res))"

definition ops_check :: "pstate \<Rightarrow> string option \<Rightarrow> string option \<Rightarrow> string option \<Rightarrow> rc" where
  "ops_check g subject action resource =
     (case (subject, action) of
        (Some s, Some a) \<Rightarrow>
          if s = [] \<or> a = [] then EINVAL
          else
            let res = (case resource of None \<Rightarrow> [] | Some r \<Rightarrow> r) in
            if bindings_allow g (bindings g) s a res then 0 else EACCES
      | _ \<Rightarrow> EINVAL)"

definition ops_set_state_file :: "string option \<Rightarrow> string option \<Rightarrow> pstate \<Rightarrow> string option \<Rightarrow> rc \<times> pstate" where
  "ops_set_state_file e1 e2 g path =
     (case path of
        None \<Rightarrow> (0, g\<lparr>state_file := default_state_path e1 e2 512\<rparr>)
      | Some p \<Rightarrow> if length p \<ge> 512 then (ENAMETOOLONG, g) else (0, g\<lparr>state_file := cstr 512 p\<rparr>))"

text \<open>The path an explicit save or load works on, and the context with the default path filled in.\<close>

definition effective_path :: "string option \<Rightarrow> string option \<Rightarrow> pstate \<Rightarrow> string option \<Rightarrow> string \<times> pstate" where
  "effective_path e1 e2 g path =
     (case path of
        Some p \<Rightarrow> (cstr 600 p, g)
      | None \<Rightarrow>
          (let g' = (if state_file g = [] then g\<lparr>state_file := default_state_path e1 e2 512\<rparr> else g)
           in (cstr 600 (state_file g'), g')))"

definition ops_save :: "rc \<Rightarrow> string option \<Rightarrow> string option \<Rightarrow> pstate \<Rightarrow> string option \<Rightarrow> rc \<times> pstate \<times> written" where
  "ops_save io e1 e2 g path =
     (case effective_path e1 e2 g path of
        (eff, g') \<Rightarrow> (case state_write_locked io g' eff of (rc, w) \<Rightarrow> (rc, g', w)))"

definition ops_load ::
    "(string \<Rightarrow> rc + string) \<Rightarrow> bool \<Rightarrow> allocs \<Rightarrow> string option \<Rightarrow> string option \<Rightarrow> pstate \<Rightarrow> string option \<Rightarrow> rc \<times> pstate" where
  "ops_load fopen mem al e1 e2 g path =
     (case effective_path e1 e2 g path of
        (eff, g') \<Rightarrow> state_read_locked (fopen eff) mem al g' False)"

definition hw_permission_state_open ::
    "(string \<Rightarrow> rc + string) \<Rightarrow> bool \<Rightarrow> allocs \<Rightarrow> string option \<Rightarrow> string option \<Rightarrow> pstate \<Rightarrow> rc \<times> pstate" where
  "hw_permission_state_open fopen mem al e1 e2 g =
     (let g' = g\<lparr>state_file := default_state_path e1 e2 512\<rparr>
      in (0, snd (state_read_locked (fopen (state_file g')) mem al g' True)))"

definition hw_permission_state_close :: "pstate \<Rightarrow> pstate" where
  "hw_permission_state_close g = (clear_state_locked g)\<lparr>state_file := []\<rparr>"

section \<open>Matching\<close>

text \<open>What a pattern means: \<^verbatim>\<open>*\<close> any text, \<^verbatim>\<open>?\<close> one character, anything else itself.\<close>

inductive matches :: "string \<Rightarrow> string \<Rightarrow> bool" where
  m_nil: "matches [] []"
| m_star: "matches pat t \<Longrightarrow> matches (CHR ''*'' # pat) (u @ t)"
| m_any: "matches pat t \<Longrightarrow> matches (CHR ''?'' # pat) (c # t)"
| m_lit: "matches pat t \<Longrightarrow> c \<noteq> CHR ''*'' \<Longrightarrow> matches (c # pat) (c # t)"

inductive_cases matches_starE: "matches (CHR ''*'' # pat) s"
inductive_simps matches_Nil [simp]: "matches [] s"

lemma glob_match_star: "glob_match pat t \<Longrightarrow> glob_match (CHR ''*'' # pat) (u @ t)"
  by (induction u) (cases t; auto)+

lemma matches_star_Cons: "matches (CHR ''*'' # pat) t \<Longrightarrow> matches (CHR ''*'' # pat) (c # t)"
proof -
  assume "matches (CHR ''*'' # pat) t"
  then obtain u v where "t = u @ v" "matches pat v" by (rule matches_starE) auto
  then show ?thesis using m_star [of pat v "c # u"] by simp
qed

theorem glob_match_iff: "glob_match pat s \<longleftrightarrow> matches pat s"
proof
  show "glob_match pat s \<Longrightarrow> matches pat s"
  proof (induction pat s rule: glob_match.induct)
    case (2 p pat s)
    show ?case
    proof (cases "p = CHR ''*''")
      case True
      then show ?thesis
        using 2 m_star [of pat s "[]"] by (cases s) (auto intro: matches_star_Cons)
    next
      case False
      with 2 show ?thesis by (cases s) (auto intro: matches.intros)
    qed
  qed simp
next
  show "matches pat s \<Longrightarrow> glob_match pat s"
  proof (induction rule: matches.induct)
    case (m_star pat t u)
    then show ?case by (intro glob_match_star)
  qed auto
qed

section \<open>The decision\<close>

definition perm_matches :: "perm \<Rightarrow> string \<Rightarrow> string \<Rightarrow> bool" where
  "perm_matches p action res \<longleftrightarrow>
     matches (pm_action p) action \<and> (pm_resource p = [] \<or> matches (pm_resource p) res)"

definition role_allows :: "pstate \<Rightarrow> string \<Rightarrow> string \<times> string \<Rightarrow> bool" where
  "role_allows g name a \<longleftrightarrow>
     (\<exists>r. find_role_locked g name = Some r \<and> (\<exists>p \<in> set (rl_perms r). perm_matches p (fst a) (snd a)))"

definition roles_of :: "pstate \<Rightarrow> string \<Rightarrow> string list" where
  "roles_of g subject = map bd_role (filter (\<lambda>b. bd_subject b = subject) (bindings g))"

definition allowed :: "pstate \<Rightarrow> string \<Rightarrow> string \<times> string \<Rightarrow> bool" where
  "allowed g subject a = bindings_allow g (bindings g) subject (fst a) (snd a)"

lemma perms_allow_iff: "perms_allow ps a r \<longleftrightarrow> (\<exists>p \<in> set ps. perm_matches p a r)"
  by (induction ps) (auto simp: perm_matches_def glob_match_iff)

lemma bindings_allow_iff:
  "bindings_allow g bs s a r \<longleftrightarrow> (\<exists>b \<in> set bs. bd_subject b = s \<and> role_allows g (bd_role b) (a, r))"
  by (induction bs) (auto simp: role_allows_def perms_allow_iff split: option.splits)

interpretation rbac: role_policy roles_of role_allows allowed
  by unfold_locales (auto simp: allowed_def roles_of_def bindings_allow_iff)

lemma ops_check_allowed:
  "s \<noteq> [] \<Longrightarrow> a \<noteq> [] \<Longrightarrow>
     ops_check g (Some s) (Some a) res =
       (if allowed g s (a, case res of None \<Rightarrow> [] | Some r \<Rightarrow> r) then 0 else EACCES)"
  by (simp add: ops_check_def allowed_def Let_def)

section \<open>Invariant\<close>

definition role_ok :: "role \<Rightarrow> bool" where
  "role_ok r \<longleftrightarrow>
     token_ok (Some (rl_name r)) 64 \<and> free_text_ok (rl_description r) 256 \<and>
     length (rl_perms r) \<le> 64 \<and> distinct (rl_perms r) \<and>
     (\<forall>p \<in> set (rl_perms r). token_ok (Some (pm_action p)) 64 \<and> free_text_ok (pm_resource p) 256)"

definition policy_wf :: "pstate \<Rightarrow> bool" where
  "policy_wf g \<longleftrightarrow>
     distinct (map rl_name (roles g)) \<and> (\<forall>r \<in> set (roles g). role_ok r) \<and>
     distinct (bindings g) \<and>
     (\<forall>b \<in> set (bindings g). bd_role b \<in> rl_name ` set (roles g) \<and> bd_subject b \<noteq> [] \<and> length (bd_subject b) < 128)"

lemma free_text_cstr: "free_text_ok s n \<Longrightarrow> cstr n s = s"
  by (simp add: free_text_ok_def cstr_simps)

lemma token_cstr: "token_ok (Some s) n \<Longrightarrow> cstr n s = s"
  by (simp add: token_ok_def cstr_simps)

lemma token_okE: "token_ok s n \<Longrightarrow> \<exists>t. s = Some t \<and> token_ok (Some t) n"
  by (cases s) (auto simp: token_ok_def)

lemma find_role_None: "find_role_locked g n = None \<longleftrightarrow> n \<notin> rl_name ` set (roles g)"
  by (auto simp: find_role_locked_def find_None)

lemma find_role_Some: "find_role_locked g n = Some r \<Longrightarrow> r \<in> set (roles g) \<and> rl_name r = n"
  by (auto simp: find_role_locked_def dest: find_SomeD)

lemma append_role_wf:
  assumes "policy_wf g" "token_ok (Some n) 64" "free_text_ok (case d of None \<Rightarrow> [] | Some x \<Rightarrow> x) 256"
    and "find_role_locked g n = None"
  shows "policy_wf (snd (append_role_locked ok g n d))"
  using assms
  by (auto simp: append_role_locked_def policy_wf_def role_ok_def find_role_None token_cstr free_text_cstr
      split: option.splits)

lemma append_binding_wf:
  assumes "policy_wf g" "s \<noteq> []" "length s < 128" "find_role_locked g r \<noteq> None" "find_binding_locked g s r = None"
  shows "policy_wf (snd (append_binding_locked ok g s r))"
proof -
  obtain x where x: "x \<in> set (roles g)" "rl_name x = r"
    using assms(4) by (auto dest: find_role_Some)
  then have "cstr 64 r = r" using assms(1) by (auto simp: policy_wf_def role_ok_def token_cstr)
  moreover have "cstr 128 s = s" using assms(3) by (simp add: cstr_simps)
  moreover have "\<lparr>bd_subject = s, bd_role = r\<rparr> \<notin> set (bindings g)"
    using assms(5) by (auto simp: find_binding_locked_def find_None)
  moreover have "r \<in> rl_name ` set (roles g)" using x by blast
  ultimately show ?thesis
    using assms(1-3) by (simp add: append_binding_locked_def policy_wf_def)
qed

lemma role_add_wf:
  assumes "policy_wf g"
  shows "policy_wf (snd (role_add_locked ok g n d))"
proof (cases "token_ok n 64 \<and> free_text_ok (case d of None \<Rightarrow> [] | Some x \<Rightarrow> x) 256 \<and> find_role_locked g (the n) = None")
  case True
  then obtain t where t: "n = Some t" "token_ok (Some t) 64" using token_okE by blast
  then have "policy_wf (snd (append_role_locked ok g t d))"
    using True assms by (intro append_role_wf) auto
  with True t show ?thesis by (auto simp: role_add_locked_def split: prod.splits bool.splits)
next
  case False
  with assms show ?thesis by (auto simp: role_add_locked_def)
qed

lemma role_remove_wf: "policy_wf g \<Longrightarrow> policy_wf (snd (role_remove_locked g n))"
proof -
  assume wf: "policy_wf g"
  then have d: "distinct (map rl_name (roles g))" by (simp add: policy_wf_def)
  have "remove_first (\<lambda>r. rl_name r = n) (roles g) = filter (\<lambda>r. rl_name r \<noteq> n) (roles g)"
    by (rule remove_first_distinct [OF d]) simp
  with wf show ?thesis by (auto simp: role_remove_locked_def policy_wf_def distinct_map_filter)
qed

text \<open>Changing the permissions of one role.\<close>

lemma update_role_wf:
  assumes "policy_wf g" "find_role_locked g n = Some r" "role_ok (f r)" "\<And>x. rl_name (f x) = rl_name x"
  shows "policy_wf (g\<lparr>roles := update_first (\<lambda>x. rl_name x = n) f (roles g)\<rparr>)"
proof -
  have names: "map rl_name (update_first (\<lambda>x. rl_name x = n) f (roles g)) = map rl_name (roles g)"
    by (rule map_update_first) (rule assms(4))
  then have "rl_name ` set (update_first (\<lambda>x. rl_name x = n) f (roles g)) = rl_name ` set (roles g)"
    by (metis set_map)
  moreover have "role_ok x" if "x \<in> set (update_first (\<lambda>x. rl_name x = n) f (roles g))" for x
  proof -
    have "x \<in> set (roles g) \<or> x = f r"
      using set_update_first_find [OF that] assms(2) by (auto simp: find_role_locked_def)
    then show ?thesis using assms(1,3) by (auto simp: policy_wf_def)
  qed
  ultimately show ?thesis using assms(1) names by (simp add: policy_wf_def)
qed

lemma role_add_perm_wf: "policy_wf g \<Longrightarrow> policy_wf (snd (role_add_perm_locked g n a res))"
proof (cases "find_role_locked g n")
  case (Some r)
  assume wf: "policy_wf g"
  let ?res = "case res of None \<Rightarrow> [] | Some x \<Rightarrow> x"
  show ?thesis
  proof (cases "token_ok a 64 \<and> free_text_ok ?res 256 \<and> find (same_perm (the a) ?res) (rl_perms r) = None
      \<and> length (rl_perms r) < 64")
    case True
    then obtain t where t: "a = Some t" "token_ok (Some t) 64" using token_okE by blast
    have "role_ok r" using wf Some by (auto simp: policy_wf_def dest: find_role_Some)
    then have "role_ok (r\<lparr>rl_perms := rl_perms r @ [\<lparr>pm_action = cstr 64 t, pm_resource = cstr 256 ?res\<rparr>]\<rparr>)"
      using True t by (auto simp: role_ok_def token_cstr free_text_cstr find_None same_perm_def)
    then have "policy_wf (g\<lparr>roles := update_first (\<lambda>x. rl_name x = n)
        (\<lambda>x. x\<lparr>rl_perms := rl_perms x @ [\<lparr>pm_action = cstr 64 t, pm_resource = cstr 256 ?res\<rparr>]\<rparr>) (roles g)\<rparr>)"
      by (intro update_role_wf [OF wf Some]) auto
    with True Some t show ?thesis by (simp add: role_add_perm_locked_def Let_def)
  next
    case False
    then have "snd (role_add_perm_locked g n a res) = g"
      using Some by (auto simp: role_add_perm_locked_def Let_def)
    with wf show ?thesis by simp
  qed
qed (simp add: role_add_perm_locked_def)

lemma role_remove_perm_wf: "policy_wf g \<Longrightarrow> policy_wf (snd (role_remove_perm_locked g n a res))"
proof (cases "find_role_locked g n")
  case (Some r)
  assume wf: "policy_wf g"
  let ?res = "case res of None \<Rightarrow> [] | Some x \<Rightarrow> x"
  have len: "length (remove_first P xs) \<le> length xs" for P and xs :: "perm list"
    by (induction xs) auto
  have "role_ok r" using wf Some by (auto simp: policy_wf_def dest: find_role_Some)
  then have "role_ok (r\<lparr>rl_perms := remove_first (same_perm (the a) ?res) (rl_perms r)\<rparr>)"
    using distinct_map_remove_first [of "\<lambda>x. x" "rl_perms r"] set_remove_first [of "same_perm (the a) ?res" "rl_perms r"]
      len [of "same_perm (the a) ?res" "rl_perms r"]
    by (auto simp: role_ok_def)
  then have "policy_wf (g\<lparr>roles := update_first (\<lambda>x. rl_name x = n)
      (\<lambda>x. x\<lparr>rl_perms := remove_first (same_perm (the a) ?res) (rl_perms x)\<rparr>) (roles g)\<rparr>)"
    by (intro update_role_wf [OF wf Some]) auto
  with Some wf show ?thesis by (simp add: role_remove_perm_locked_def Let_def)
qed (simp add: role_remove_perm_locked_def)

lemma grant_wf: "policy_wf g \<Longrightarrow> policy_wf (snd (grant_locked ok g s r))"
proof (cases "token_ok s 128 \<and> token_ok r 64 \<and> find_role_locked g (the r) \<noteq> None \<and> find_binding_locked g (the s) (the r) = None")
  case True
  assume wf: "policy_wf g"
  from True have "the s \<noteq> []" "length (the s) < 128" by (auto simp: token_ok_def split: option.splits)
  then have "policy_wf (snd (append_binding_locked ok g (the s) (the r)))"
    using True wf by (blast intro: append_binding_wf)
  with True show ?thesis by (auto simp: grant_locked_def split: prod.splits bool.splits)
next
  case False
  then show "policy_wf g \<Longrightarrow> ?thesis" by (auto simp: grant_locked_def)
qed

lemma revoke_wf: "policy_wf g \<Longrightarrow> policy_wf (snd (revoke_locked g s r))"
  using distinct_map_remove_first [of "\<lambda>x. x" "bindings g"]
    set_remove_first [of "\<lambda>b. bd_subject b = the s \<and> bd_role b = the r" "bindings g"]
  by (auto simp: revoke_locked_def policy_wf_def)

lemma clear_wf [simp]: "policy_wf (clear_state_locked g)"
  by (simp add: clear_state_locked_def policy_wf_def)

lemma take_tok_ok: "take_tok s cap = (1, w, r) \<Longrightarrow> w \<noteq> [] \<and> length w < cap"
  using hd_dropWhile [of isblank s]
  by (cases "dropWhile isblank s") (auto simp: take_tok_def Let_def split: if_splits)

lemma apply_line_wf: "policy_wf g \<Longrightarrow> state_apply_line al g line = (e, g', al') \<Longrightarrow> policy_wf g'"
proof -
  assume wf: "policy_wf g" and app: "state_apply_line al g line = (e, g', al')"
  obtain k kind p where k: "take_tok line 16 = (k, kind, p)" by (cases "take_tok line 16") auto
  consider (role) "kind = ''role''" | (perm) "kind = ''perm''" | (grant) "kind = ''grant''"
    | (other) "kind \<notin> {''role'', ''perm'', ''grant''}" by blast
  then show ?thesis
  proof cases
    case role
    obtain t name p2 where t: "take_tok p 64 = (t, name, p2)" by (cases "take_tok p 64") auto
    have "free_text_ok (cstr 256 (trim_ws p2)) 256 \<Longrightarrow> token_ok (Some name) 64 \<Longrightarrow> find_role_locked g name = None \<Longrightarrow>
        policy_wf (snd (append_role_locked (fst (alloc al)) g name (Some (cstr 256 (trim_ws p2)))))"
      by (rule append_role_wf [OF wf]) auto
    with app k role t wf show ?thesis
      by (auto simp: state_apply_line_def Let_def split: if_splits prod.splits bool.splits)
  next
    case perm
    then show ?thesis
      using app k wf role_add_perm_wf [OF wf]
      by (auto simp: state_apply_line_def Let_def split: if_splits prod.splits) (metis snd_conv)+
  next
    case grant
    obtain t s p2 where t: "take_tok p 128 = (t, s, p2)" by (cases "take_tok p 128") auto
    obtain u r p3 where u: "take_tok p2 64 = (u, r, p3)" by (cases "take_tok p2 64") auto
    show ?thesis
    proof (cases "t = 1 \<and> find_role_locked g r \<noteq> None \<and> find_binding_locked g s r = None")
      case True
      then have "policy_wf (snd (append_binding_locked (fst (alloc al)) g s r))"
        using take_tok_ok [of p 128 s p2] t by (intro append_binding_wf [OF wf]) auto
      with True app k grant t u wf show ?thesis
        by (auto simp: state_apply_line_def Let_def split: if_splits prod.splits bool.splits)
    next
      case False
      with app k grant t u wf show ?thesis
        by (auto simp: state_apply_line_def Let_def split: if_splits prod.splits bool.splits)
    qed
  next
    case other
    with app k wf show ?thesis by (auto simp: state_apply_line_def split: if_splits)
  qed
qed

lemma apply_roles_wf: "policy_wf g \<Longrightarrow> apply_roles al rc g ls = (rc', g', al') \<Longrightarrow> policy_wf g'"
  by (induction al rc g ls rule: apply_roles.induct) (auto split: if_splits prod.splits dest: apply_line_wf)

lemma apply_rest_wf: "policy_wf g \<Longrightarrow> apply_rest al g ls = (g', al') \<Longrightarrow> policy_wf g'"
  by (induction al g ls rule: apply_rest.induct) (auto split: if_splits prod.splits dest: apply_line_wf)

lemma state_read_wf: "policy_wf g \<Longrightarrow> policy_wf (snd (state_read_locked content mem al g mo))"
proof (cases content)
  case (Inr c)
  assume wf: "policy_wf g"
  obtain rc g1 al1 where 1: "apply_roles al 0 (clear_state_locked g) (state_lines c) = (rc, g1, al1)"
    by (cases "apply_roles al 0 (clear_state_locked g) (state_lines c)") auto
  obtain g2 al2 where 2: "apply_rest al1 g1 (state_lines c) = (g2, al2)" by force
  have "policy_wf g2" using apply_rest_wf [OF apply_roles_wf [OF clear_wf 1] 2] .
  with wf 1 2 Inr show ?thesis by (simp add: state_read_locked_def Let_def)
qed (simp add: state_read_locked_def)

section \<open>Reading back the state file\<close>

text \<open>Text that trimming leaves alone.\<close>

definition text_clean :: "string \<Rightarrow> bool" where
  "text_clean s \<longleftrightarrow> s = [] \<or> \<not> isblank (hd s) \<and> \<not> is_ws (last s)"

definition policy_clean :: "pstate \<Rightarrow> bool" where
  "policy_clean g \<longleftrightarrow>
     (\<forall>r \<in> set (roles g). text_clean (rl_description r) \<and> (\<forall>p \<in> set (rl_perms r). text_clean (pm_resource p))) \<and>
     (\<forall>b \<in> set (bindings g). \<forall>c \<in> set (bd_subject b). \<not> is_ws c)"

definition word :: "string \<Rightarrow> bool" where
  "word w \<longleftrightarrow> w \<noteq> [] \<and> (\<forall>c \<in> set w. \<not> is_ws c)"

lemma token_word: "token_ok (Some t) n \<Longrightarrow> word t \<and> length t < n"
  by (auto simp: token_ok_def word_def list_all_iff)

lemma take_tok_word:
  assumes "word w" "length w < cap" "r = [] \<or> isblank (hd r)"
  shows "take_tok (w @ r) cap = (1, w, r)"
proof -
  have nb: "\<forall>c \<in> set w. \<not> isblank c" "w \<noteq> []" using assms(1) by (auto simp: word_def isblank_def)
  have "dropWhile isblank (w @ r) = w @ r" using nb by (cases w) auto
  moreover have "takeWhile (\<lambda>c. \<not> isblank c) (w @ r) = w" "dropWhile (\<lambda>c. \<not> isblank c) (w @ r) = r"
    using nb(1) assms(3) by (cases r; auto simp: takeWhile_append2 dropWhile_append2)+
  ultimately show ?thesis using nb(2) assms(2) by (simp add: take_tok_def Let_def)
qed

lemma take_tok_blank: "take_tok (CHR '' '' # s) cap = take_tok s cap"
  by (simp add: take_tok_def isblank_def)

lemma trim_ws_clean: "text_clean s \<Longrightarrow> trim_ws s = s"
  unfolding trim_ws_def text_clean_def by (cases s) (auto intro!: rtrim_id)

lemma trim_ws_blank: "trim_ws (CHR '' '' # s) = trim_ws s"
  by (simp add: trim_ws_def isblank_def)

text \<open>An optional text after a word, as the writer prints it.\<close>

definition opt_text :: "string \<Rightarrow> string" where
  "opt_text s = (if s \<noteq> [] then '' '' @ s else [])"

lemma opt_text_props:
  "opt_text s = [] \<or> isblank (hd (opt_text s))"
  "text_clean s \<Longrightarrow> trim_ws (opt_text s) = s"
  by (auto simp: opt_text_def isblank_def trim_ws_blank trim_ws_clean)

lemma last_append_opt: "word w \<Longrightarrow> text_clean s \<Longrightarrow> \<not> is_ws (last (w @ opt_text s))"
  by (auto simp: opt_text_def word_def text_clean_def)

lemma trim_line: "l \<noteq> [] \<Longrightarrow> \<not> isblank (hd l) \<Longrightarrow> \<not> is_ws (last l) \<Longrightarrow> trim_ws (l @ [NL]) = l"
proof -
  assume "l \<noteq> []" "\<not> isblank (hd l)" "\<not> is_ws (last l)"
  then have "dropWhile isblank (l @ [NL]) = l @ [NL]" "rtrim is_ws l = l"
    by (auto intro: dropWhile_id rtrim_id)
  then show ?thesis by (simp add: trim_ws_def)
qed

lemma role_lines_opt:
  "role_lines r = (''role '' @ rl_name r @ opt_text (rl_description r)) # map (perm_line (rl_name r)) (rl_perms r)"
  "perm_line n p = ''perm '' @ n @ '' '' @ pm_action p @ opt_text (pm_resource p)"
  by (simp_all add: role_lines_def perm_line_def opt_text_def)

text \<open>A line the writer prints comes back from the file as it is.\<close>

definition kept_line :: "string \<Rightarrow> bool" where
  "kept_line l \<longleftrightarrow> NL \<notin> set l \<and> length l + 1 < 4096 \<and> l \<noteq> [] \<and> hd l \<noteq> CHR ''#'' \<and> trim_ws (l @ [NL]) = l"

lemma kept_lineI:
  assumes "NL \<notin> set l" "length l + 1 < 4096" "l \<noteq> []" "hd l \<noteq> CHR ''#''" "\<not> isblank (hd l)" "\<not> is_ws (last l)"
  shows "kept_line l"
  using assms trim_line [OF assms(3,5,6)] by (simp add: kept_line_def)

lemma last_word_opt: "word w \<Longrightarrow> text_clean s \<Longrightarrow> \<not> is_ws (last (pre @ w @ opt_text s))"
  using last_append_opt [of w s] by (auto simp: word_def)

lemma opt_text_size: "length (opt_text s) \<le> length s + 1" "NL \<notin> set s \<Longrightarrow> NL \<notin> set (opt_text s)"
  by (auto simp: opt_text_def)

lemma no_NL: "token_ok (Some t) n \<Longrightarrow> NL \<notin> set t" "free_text_ok s n \<Longrightarrow> NL \<notin> set s" "word w \<Longrightarrow> NL \<notin> set w"
  by (auto simp: token_ok_def free_text_ok_def list_all_iff word_def)

lemma role_lines_kept:
  assumes "role_ok r" "text_clean (rl_description r)" "\<forall>p \<in> set (rl_perms r). text_clean (pm_resource p)"
  shows "\<forall>l \<in> set (role_lines r). kept_line l"
proof -
  have n: "word (rl_name r)" "length (rl_name r) < 64" and d: "length (rl_description r) < 256" "NL \<notin> set (rl_description r)"
    using assms(1) token_word by (auto simp: role_ok_def free_text_ok_def list_all_iff)
  have "kept_line (''role '' @ rl_name r @ opt_text (rl_description r))"
  proof (rule kept_lineI)
    show "\<not> is_ws (last (''role '' @ rl_name r @ opt_text (rl_description r)))"
      by (rule last_word_opt [OF n(1) assms(2)])
    show "length (''role '' @ rl_name r @ opt_text (rl_description r)) + 1 < 4096"
      using n(2) d(1) opt_text_size(1) [of "rl_description r"] by simp
    show "NL \<notin> set (''role '' @ rl_name r @ opt_text (rl_description r))"
      using no_NL(3) [OF n(1)] opt_text_size(2) [OF d(2)] by simp
  qed (simp_all add: isblank_def)
  moreover have "kept_line (perm_line (rl_name r) p)" if p: "p \<in> set (rl_perms r)" for p
  proof -
    have a: "word (pm_action p)" "length (pm_action p) < 64" and q: "length (pm_resource p) < 256" "NL \<notin> set (pm_resource p)"
      using assms(1) p token_word by (auto simp: role_ok_def free_text_ok_def list_all_iff)
    have c: "text_clean (pm_resource p)" using assms(3) p by blast
    show ?thesis unfolding role_lines_opt(2)
    proof (rule kept_lineI)
      show "\<not> is_ws (last (''perm '' @ rl_name r @ '' '' @ pm_action p @ opt_text (pm_resource p)))"
        using last_word_opt [OF a(1) c, of "''perm '' @ rl_name r @ '' ''"] by simp
      show "length (''perm '' @ rl_name r @ '' '' @ pm_action p @ opt_text (pm_resource p)) + 1 < 4096"
        using n(2) a(2) q(1) opt_text_size(1) [of "pm_resource p"] by simp
      show "NL \<notin> set (''perm '' @ rl_name r @ '' '' @ pm_action p @ opt_text (pm_resource p))"
        using no_NL(3) [OF n(1)] no_NL(3) [OF a(1)] opt_text_size(2) [OF q(2)] by simp
    qed (simp_all add: isblank_def)
  qed
  ultimately show ?thesis by (auto simp: role_lines_opt(1))
qed

lemma grant_line_kept:
  assumes "word (bd_subject b)" "length (bd_subject b) < 128" "word (bd_role b)" "length (bd_role b) < 64"
  shows "kept_line (grant_line b)"
  unfolding grant_line_def
proof (rule kept_lineI)
  show "\<not> is_ws (last (''grant '' @ bd_subject b @ '' '' @ bd_role b))"
    using assms(3) by (auto simp: word_def)
qed (use assms no_NL(3) [OF assms(1)] no_NL(3) [OF assms(3)] in \<open>simp_all add: isblank_def\<close>)

lemma header_lines:
  "NL \<notin> set state_header1" "length state_header1 + 1 < 4096" "hd (trim_ws (state_header1 @ [NL])) = CHR ''#''"
  "NL \<notin> set state_header2" "length state_header2 + 1 < 4096" "hd (trim_ws (state_header2 @ [NL])) = CHR ''#''"
  by code_simp+

lemma state_lines_text:
  assumes "policy_wf g" "policy_clean g"
  shows "state_lines (state_text g) = concat (map role_lines (roles g)) @ map grant_line (bindings g)"
proof -
  let ?body = "concat (map role_lines (roles g)) @ map grant_line (bindings g)"
  have "kept_line l" if l: "l \<in> set ?body" for l
  proof -
    from l consider r where "r \<in> set (roles g)" "l \<in> set (role_lines r)" | b where "b \<in> set (bindings g)" "l = grant_line b"
      by auto
    then show ?thesis
    proof cases
      case 1
      then show ?thesis using assms role_lines_kept [of r] by (auto simp: policy_wf_def policy_clean_def)
    next
      case 2
      then obtain r where "r \<in> set (roles g)" "rl_name r = bd_role b"
        using assms(1) by (auto simp: policy_wf_def)
      then have "word (bd_role b)" "length (bd_role b) < 64"
        using assms(1) token_word by (auto simp: policy_wf_def role_ok_def)
      with 2 assms show ?thesis
        by (auto simp: policy_wf_def policy_clean_def word_def intro!: grant_line_kept)
    qed
  qed
  then have body: "\<forall>l \<in> set ?body. kept_line l" by blast
  have "\<forall>l \<in> set ([state_header1, state_header2] @ ?body). NL \<notin> set l \<and> length l + 1 < 4096"
    using body header_lines by (auto simp: kept_line_def)
  from fgets_all_lines [OF this, of "[]"]
  have fg: "fgets_all 4096 (state_text g) =
      (state_header1 @ [NL]) # (state_header2 @ [NL]) # map (\<lambda>l. l @ [NL]) ?body"
    unfolding state_text_def by simp
  have keep: "filter (\<lambda>t. t \<noteq> [] \<and> hd t \<noteq> CHR ''#'') (map trim_ws (map (\<lambda>l. l @ [NL]) ls)) = ls"
    if "\<forall>l \<in> set ls. kept_line l" for ls
    using that by (induction ls) (auto simp: kept_line_def)
  show ?thesis
    unfolding state_lines_def fg list.map filter.simps keep [OF body]
    by (simp only: header_lines simp_thms if_False)
qed

lemma same_perm_eq: "same_perm (pm_action p) (pm_resource p) y \<longleftrightarrow> y = p"
  by (cases y; cases p) (auto simp: same_perm_def)

lemma same_binding_eq: "bd_subject y = bd_subject b \<and> bd_role y = bd_role b \<longleftrightarrow> y = b" for y b :: binding
  by (cases y; cases b) auto

lemma apply_role_line:
  assumes "role_ok r" "text_clean (rl_description r)" "find_role_locked g (rl_name r) = None"
  shows "state_apply_line [] g (''role '' @ rl_name r @ opt_text (rl_description r)) =
    (0, g\<lparr>roles := roles g @ [r\<lparr>rl_perms := []\<rparr>]\<rparr>, [])"
proof -
  have n: "token_ok (Some (rl_name r)) 64" and d: "free_text_ok (rl_description r) 256"
    using assms(1) by (auto simp: role_ok_def)
  have w: "word ''role''" by (simp add: word_def)
  have 1: "take_tok (''role'' @ '' '' @ rl_name r @ opt_text (rl_description r)) 16 =
      (1, ''role'', '' '' @ rl_name r @ opt_text (rl_description r))"
    by (rule take_tok_word [OF w]) (simp_all add: isblank_def)
  have 2: "take_tok ('' '' @ rl_name r @ opt_text (rl_description r)) 64 =
      (1, rl_name r, opt_text (rl_description r))"
    using take_tok_word [of "rl_name r" 64] token_word [OF n] opt_text_props(1)
    by (simp add: take_tok_blank)
  show ?thesis
    using 1 2 n d assms opt_text_props(2) [OF assms(2)]
    by (cases r) (simp add: state_apply_line_def append_role_locked_def Let_def free_text_cstr token_cstr)
qed

lemma apply_perm_line:
  assumes "role_ok r" "find_role_locked g (rl_name r) = Some x" "p \<in> set (rl_perms r)" "text_clean (pm_resource p)"
    and "p \<notin> set (rl_perms x)" "length (rl_perms x) < 64"
  shows "state_apply_line al g (perm_line (rl_name r) p) =
    (0, g\<lparr>roles := update_first (\<lambda>y. rl_name y = rl_name r) (\<lambda>y. y\<lparr>rl_perms := rl_perms y @ [p]\<rparr>) (roles g)\<rparr>, al)"
proof -
  have n: "token_ok (Some (rl_name r)) 64" and a: "token_ok (Some (pm_action p)) 64" and q: "free_text_ok (pm_resource p) 256"
    using assms(1,3) by (auto simp: role_ok_def)
  have w: "word ''perm''" by (simp add: word_def)
  have 1: "take_tok (''perm'' @ '' '' @ rl_name r @ '' '' @ pm_action p @ opt_text (pm_resource p)) 16 =
      (1, ''perm'', '' '' @ rl_name r @ '' '' @ pm_action p @ opt_text (pm_resource p))"
    by (rule take_tok_word [OF w]) (simp_all add: isblank_def)
  have 2: "take_tok ('' '' @ rl_name r @ '' '' @ pm_action p @ opt_text (pm_resource p)) 64 =
      (1, rl_name r, '' '' @ pm_action p @ opt_text (pm_resource p))"
    using take_tok_word [of "rl_name r" 64 "'' '' @ pm_action p @ opt_text (pm_resource p)"] token_word [OF n]
    by (simp add: take_tok_blank isblank_def)
  have 3: "take_tok ('' '' @ pm_action p @ opt_text (pm_resource p)) 64 = (1, pm_action p, opt_text (pm_resource p))"
    using take_tok_word [of "pm_action p" 64] token_word [OF a] opt_text_props(1)
    by (simp add: take_tok_blank)
  have "find (same_perm (pm_action p) (pm_resource p)) (rl_perms x) = None"
    using assms(5) by (auto simp: find_None same_perm_eq)
  then have "role_add_perm_locked g (rl_name r) (Some (pm_action p)) (Some (pm_resource p)) =
      (0, g\<lparr>roles := update_first (\<lambda>y. rl_name y = rl_name r) (\<lambda>y. y\<lparr>rl_perms := rl_perms y @ [p]\<rparr>) (roles g)\<rparr>)"
    using assms(2,6) a q by (cases p) (simp add: role_add_perm_locked_def Let_def token_cstr free_text_cstr)
  then show ?thesis
    using 1 2 3 q assms(2) opt_text_props(2) [OF assms(4)]
    by (simp add: state_apply_line_def role_lines_opt(2) Let_def free_text_cstr)
qed

lemma apply_grant_line:
  assumes "word (bd_subject b)" "length (bd_subject b) < 128" "token_ok (Some (bd_role b)) 64"
    and "find_role_locked g (bd_role b) \<noteq> None" "b \<notin> set (bindings g)"
  shows "state_apply_line [] g (grant_line b) = (0, g\<lparr>bindings := bindings g @ [b]\<rparr>, [])"
proof -
  have w: "word ''grant''" by (simp add: word_def)
  have 1: "take_tok (''grant'' @ '' '' @ bd_subject b @ '' '' @ bd_role b) 16 =
      (1, ''grant'', '' '' @ bd_subject b @ '' '' @ bd_role b)"
    by (rule take_tok_word [OF w]) (simp_all add: isblank_def)
  have 2: "take_tok ('' '' @ bd_subject b @ '' '' @ bd_role b) 128 = (1, bd_subject b, '' '' @ bd_role b)"
    using take_tok_word [of "bd_subject b" 128 "'' '' @ bd_role b"] assms(1,2)
    by (simp add: take_tok_blank isblank_def)
  have 3: "take_tok ('' '' @ bd_role b) 64 = (1, bd_role b, [])"
    using take_tok_word [of "bd_role b" 64 "[]"] token_word [OF assms(3)] by (simp add: take_tok_blank)
  have "find_binding_locked g (bd_subject b) (bd_role b) = None"
    using assms(5) by (auto simp: find_binding_locked_def find_None same_binding_eq)
  then show ?thesis
    using 1 2 3 assms(2-4)
    by (cases b) (auto simp: state_apply_line_def grant_line_def append_binding_locked_def cstr_simps token_cstr)
qed

text \<open>The two passes over the lines of a saved policy.\<close>

definition strip_perms :: "role \<Rightarrow> role" where
  "strip_perms r = r\<lparr>rl_perms := []\<rparr>"

lemma strip_perms_name [simp]: "rl_name (strip_perms r) = rl_name r"
  by (simp add: strip_perms_def)

lemma line_heads:
  "take 4 (perm_line n p) = ''perm''" "take 4 (grant_line b) = ''gran''" "take 5 (grant_line b) = ''grant''"
  "take 4 (''role '' @ s) = ''role''"
  by (simp_all add: perm_line_def grant_line_def)

lemma apply_roles_skip: "\<forall>l \<in> set ls. take 4 l \<noteq> ''role'' \<Longrightarrow> apply_roles al rc g (ls @ ms) = apply_roles al rc g ms"
  by (induction ls) auto

lemma apply_roles_saved:
  assumes "\<forall>r \<in> set rs. role_ok r \<and> text_clean (rl_description r)" "distinct (map rl_name rs)"
    and "\<forall>r \<in> set rs. rl_name r \<notin> rl_name ` set (roles g)"
  shows "apply_roles [] rc g (concat (map role_lines rs) @ map grant_line bs) =
    (rc, g\<lparr>roles := roles g @ map strip_perms rs\<rparr>, [])"
  using assms
proof (induction rs arbitrary: g)
  case Nil
  have "apply_roles [] rc g (map grant_line bs @ []) = apply_roles [] rc g []"
    by (rule apply_roles_skip) (auto simp: line_heads)
  then show ?case by simp
next
  case (Cons r rs)
  let ?g1 = "g\<lparr>roles := roles g @ [strip_perms r]\<rparr>"
  have new: "find_role_locked g (rl_name r) = None" using Cons.prems(3) by (simp add: find_role_None)
  have line: "state_apply_line [] g (''role '' @ rl_name r @ opt_text (rl_description r)) = (0, ?g1, [])"
    using apply_role_line [OF _ _ new] Cons.prems(1) by (simp add: strip_perms_def)
  let ?rest = "map (perm_line (rl_name r)) (rl_perms r) @ concat (map role_lines rs) @ map grant_line bs"
  have "apply_roles [] rc g (concat (map role_lines (r # rs)) @ map grant_line bs) =
      apply_roles [] rc g ((''role '' @ rl_name r @ opt_text (rl_description r)) # ?rest)"
    by (simp add: role_lines_opt(1))
  also have "\<dots> = apply_roles [] rc ?g1 ?rest"
    unfolding apply_roles.simps line by (simp only: line_heads if_True prod.case) simp
  also have "\<dots> = apply_roles [] rc ?g1 (concat (map role_lines rs) @ map grant_line bs)"
    by (rule apply_roles_skip) (auto simp: line_heads)
  also have "\<dots> = (rc, ?g1\<lparr>roles := roles ?g1 @ map strip_perms rs\<rparr>, [])"
  proof (rule Cons.IH)
    have "rl_name x \<noteq> rl_name r" if "x \<in> set rs" for x
    proof
      assume "rl_name x = rl_name r"
      then have "rl_name r \<in> rl_name ` set rs" using that by (metis imageI)
      with Cons.prems(2) show False by simp
    qed
    with Cons.prems(3) show "\<forall>x \<in> set rs. rl_name x \<notin> rl_name ` set (roles ?g1)" by auto
  qed (use Cons.prems in auto)
  finally show ?case by simp
qed

lemma find_middle:
  assumes "n \<notin> rl_name ` set as" "rl_name x = n"
  shows "find (\<lambda>r. rl_name r = n) (as @ x # bs) = Some x"
    and "update_first (\<lambda>r. rl_name r = n) f (as @ x # bs) = as @ f x # bs"
  using assms by (induction as) auto

lemma apply_perms_saved:
  assumes "role_ok r" "\<forall>p \<in> set (rl_perms r). text_clean (pm_resource p)"
    and "rl_name r \<notin> rl_name ` set as" "rl_perms r = ps @ qs" "roles g = as @ r\<lparr>rl_perms := ps\<rparr> # bs"
  shows "apply_rest [] g (map (perm_line (rl_name r)) qs @ ls) = apply_rest [] (g\<lparr>roles := as @ r # bs\<rparr>) ls"
  using assms(4,5)
proof (induction qs arbitrary: ps g)
  case Nil
  then have "r\<lparr>rl_perms := ps\<rparr> = r" by (cases r) simp
  with Nil have "roles g = as @ r # bs" by simp
  then have "g\<lparr>roles := as @ r # bs\<rparr> = g" by (cases g) simp
  then show ?case by simp
next
  case (Cons p qs)
  let ?x = "r\<lparr>rl_perms := ps\<rparr>" and ?y = "r\<lparr>rl_perms := ps @ [p]\<rparr>"
  have d: "distinct (ps @ p # qs)" "length (ps @ p # qs) \<le> 64" using assms(1) Cons.prems(1) by (auto simp: role_ok_def)
  have fnd: "find_role_locked g (rl_name r) = Some ?x"
    using find_middle(1) [OF assms(3), of ?x bs] Cons.prems(2) by (simp add: find_role_locked_def)
  have line: "state_apply_line [] g (perm_line (rl_name r) p) = (0, g\<lparr>roles := as @ ?y # bs\<rparr>, [])"
    using apply_perm_line [OF assms(1) fnd, of p "[]"] assms(2) Cons.prems d find_middle(2) [OF assms(3), of ?x]
    by simp
  have "apply_rest [] g (map (perm_line (rl_name r)) (p # qs) @ ls) =
      apply_rest [] (g\<lparr>roles := as @ ?y # bs\<rparr>) (map (perm_line (rl_name r)) qs @ ls)"
    by (simp add: line_heads line)
  also have "\<dots> = apply_rest [] (g\<lparr>roles := as @ ?y # bs, roles := as @ r # bs\<rparr>) ls"
    using Cons.prems(1) by (intro Cons.IH [of "ps @ [p]"]) auto
  finally show ?case by simp
qed

lemma apply_rest_roles:
  assumes "\<forall>r \<in> set rs. role_ok r \<and> (\<forall>p \<in> set (rl_perms r). text_clean (pm_resource p))"
    and "distinct (map rl_name (as @ rs))" "roles g = as @ map strip_perms rs"
  shows "apply_rest [] g (concat (map role_lines rs) @ ls) = apply_rest [] (g\<lparr>roles := as @ rs\<rparr>) ls"
  using assms
proof (induction rs arbitrary: as g)
  case Nil
  then show ?case by (cases g) simp
next
  case (Cons r rs)
  let ?rest = "concat (map role_lines rs) @ ls"
  have "apply_rest [] g (concat (map role_lines (r # rs)) @ ls) =
      apply_rest [] g (map (perm_line (rl_name r)) (rl_perms r) @ ?rest)"
    by (simp add: role_lines_opt(1))
  also have "\<dots> = apply_rest [] (g\<lparr>roles := as @ r # map strip_perms rs\<rparr>) ?rest"
    using Cons.prems by (intro apply_perms_saved [where ps = "[]"]) (auto simp: strip_perms_def)
  also have "\<dots> = apply_rest [] (g\<lparr>roles := as @ r # map strip_perms rs, roles := (as @ [r]) @ rs\<rparr>) ls"
    using Cons.prems by (intro Cons.IH) auto
  finally show ?case by simp
qed

lemma apply_rest_grants:
  assumes "\<forall>b \<in> set bs. word (bd_subject b) \<and> length (bd_subject b) < 128 \<and> token_ok (Some (bd_role b)) 64 \<and>
      find_role_locked g (bd_role b) \<noteq> None" "distinct (bindings g @ bs)"
  shows "apply_rest [] g (map grant_line bs) = (g\<lparr>bindings := bindings g @ bs\<rparr>, [])"
  using assms
proof (induction bs arbitrary: g)
  case Nil
  then show ?case by simp
next
  case (Cons b bs)
  let ?g = "g\<lparr>bindings := bindings g @ [b]\<rparr>"
  have line: "state_apply_line [] g (grant_line b) = (0, ?g, [])"
    using Cons.prems by (intro apply_grant_line) auto
  have "apply_rest [] g (map grant_line (b # bs)) = apply_rest [] ?g (map grant_line bs)"
    by (simp add: line_heads line)
  also have "\<dots> = (?g\<lparr>bindings := bindings ?g @ bs\<rparr>, [])"
    using Cons.prems by (intro Cons.IH) (auto simp: find_role_locked_def)
  finally show ?case by simp
qed

section \<open>The plugin as a transition system\<close>

inductive pstep :: "pstate \<Rightarrow> pstate \<Rightarrow> bool" where
  "ops_role_add io ok g n d = (rc, g', w) \<Longrightarrow> pstep g g'"
| "ops_role_remove io g n' = (rc, g', w) \<Longrightarrow> pstep g g'"
| "ops_role_add_perm io g n' a r = (rc, g', w) \<Longrightarrow> pstep g g'"
| "ops_role_remove_perm io g n' a r = (rc, g', w) \<Longrightarrow> pstep g g'"
| "ops_grant io ok g s r = (rc, g', w) \<Longrightarrow> pstep g g'"
| "ops_revoke io g s r = (rc, g', w) \<Longrightarrow> pstep g g'"
| "ops_set_state_file e1 e2 g p = (rc, g') \<Longrightarrow> pstep g g'"
| "ops_save io e1 e2 g p = (rc, g', w) \<Longrightarrow> pstep g g'"
| "ops_load fopen mem al e1 e2 g p = (rc, g') \<Longrightarrow> pstep g g'"
| "hw_permission_state_open fopen mem al e1 e2 g = (rc, g') \<Longrightarrow> pstep g g'"
| "hw_permission_state_close g = g' \<Longrightarrow> pstep g g'"

definition pstate0 :: pstate where
  "pstate0 = \<lparr>roles = [], bindings = [], state_file = []\<rparr>"

inductive preach :: "pstate \<Rightarrow> bool" where
  start: "preach pstate0"
| step: "preach g \<Longrightarrow> pstep g g' \<Longrightarrow> preach g'"

lemma policy_wf_file [simp]: "policy_wf (g\<lparr>state_file := p\<rparr>) = policy_wf g"
  by (simp add: policy_wf_def)

lemma saved_wf: "saved io x = (rc, g', w) \<Longrightarrow> policy_wf (snd x) \<Longrightarrow> policy_wf g'"
  by (auto simp: saved_def split: prod.splits)

lemma effective_path_wf: "effective_path e1 e2 g p = (eff, g') \<Longrightarrow> policy_wf g \<Longrightarrow> policy_wf g'"
  by (auto simp: effective_path_def Let_def split: option.splits if_splits)

lemma pstep_wf: "pstep g g' \<Longrightarrow> policy_wf g \<Longrightarrow> policy_wf g'"
proof (induction rule: pstep.induct)
  case (7 e1 e2 g p rc g')
  then show ?case by (auto simp: ops_set_state_file_def split: option.splits if_splits)
next
  case (8 io e1 e2 g p rc g' w)
  then show ?case by (auto simp: ops_save_def split: prod.splits dest: effective_path_wf)
next
  case (9 fopen mem al e1 e2 g p rc g')
  then obtain eff g1 where e: "effective_path e1 e2 g p = (eff, g1)" by (cases "effective_path e1 e2 g p") auto
  then have "policy_wf g1" using 9 effective_path_wf by blast
  from state_read_wf [OF this, of "fopen eff" mem al False] 9 e show ?case by (simp add: ops_load_def)
next
  case (10 fopen mem al e1 e2 g rc g')
  then have "policy_wf (g\<lparr>state_file := default_state_path e1 e2 512\<rparr>)" by simp
  from state_read_wf [OF this, of "fopen (default_state_path e1 e2 512)" mem al True] 10
  show ?case by (auto simp: hw_permission_state_open_def Let_def)
next
  case (11 g g')
  then show ?case by (auto simp: hw_permission_state_close_def)
qed (auto simp: ops_role_add_def ops_role_remove_def ops_role_add_perm_def ops_role_remove_perm_def
    ops_grant_def ops_revoke_def elim!: saved_wf
    intro: role_add_wf role_remove_wf role_add_perm_wf role_remove_perm_wf grant_wf revoke_wf)

section \<open>Properties\<close>

text \<open>
  C6. A check for a named subject and action succeeds exactly when some role bound to the subject has a
  permission whose action pattern matches and whose resource pattern is empty or matches; everything
  else is refused with EACCES.  A pattern matches by its declarative meaning.
\<close>

theorem ops_check_correct:
  assumes "s \<noteq> []" and "a \<noteq> []"
  shows "ops_check g (Some s) (Some a) res =
    (if \<exists>b \<in> set (bindings g). bd_subject b = s \<and>
          (\<exists>r. find_role_locked g (bd_role b) = Some r \<and>
             (\<exists>p \<in> set (rl_perms r). matches (pm_action p) a \<and>
                (pm_resource p = [] \<or> matches (pm_resource p) (case res of None \<Rightarrow> [] | Some x \<Rightarrow> x))))
     then 0 else EACCES)"
  unfolding ops_check_allowed [OF assms] rbac.decide_iff
  by (auto simp: roles_of_def role_allows_def perm_matches_def)

definition demo_policy :: pstate where
  "demo_policy =
     \<lparr>roles = [\<lparr>rl_name = ''op'', rl_description = [],
                rl_perms = [\<lparr>pm_action = ''fs.*'', pm_resource = ''/home/?''\<rparr>]\<rparr>],
      bindings = [\<lparr>bd_subject = ''bob'', bd_role = ''op''\<rparr>], state_file = []\<rparr>"

theorem ops_check_correct_witness:
  "ops_check demo_policy (Some ''bob'') (Some ''fs.read'') (Some ''/home/b'') = 0 \<and>
   ops_check demo_policy (Some ''eve'') (Some ''fs.read'') (Some ''/home/b'') = EACCES"
proof -
  have "matches ''fs.*'' ''fs.read'' \<and> matches ''/home/?'' ''/home/b''"
    unfolding glob_match_iff [symmetric] by code_simp
  then show ?thesis
    using ops_check_correct [of "''bob''" "''fs.read''" demo_policy "Some ''/home/b''"]
      ops_check_correct [of "''eve''" "''fs.read''" demo_policy "Some ''/home/b''"]
    by (simp add: demo_policy_def find_role_locked_def)
qed

text \<open>
  C7. In every state the plugin can reach, by any sequence of operations and loads of any files, role
  names are distinct, no role has more than 64 permissions or one twice, every stored name and pattern
  is within its bounds, and no binding is duplicated or names a role that does not exist.
\<close>

theorem reachable_policy_wf:
  assumes "preach g"
  shows "distinct (map rl_name (roles g)) \<and> distinct (bindings g) \<and>
    (\<forall>r \<in> set (roles g). role_ok r) \<and> (\<forall>b \<in> set (bindings g). find_role_locked g (bd_role b) \<noteq> None)"
proof -
  have "policy_wf g"
    using assms by induction (auto simp: pstate0_def policy_wf_def [of "\<lparr>roles = _, bindings = _, state_file = _\<rparr>"] dest: pstep_wf)
  then show ?thesis by (auto simp: policy_wf_def find_role_None simp del: not_None_eq)
qed

theorem reachable_policy_wf_witness:
  "list_all role_ok (roles (fst (snd (ops_role_add 0 True pstate0 (Some ''op'') None))))"
proof -
  let ?x = "ops_role_add 0 True pstate0 (Some ''op'') None"
  have "pstep pstate0 (fst (snd ?x))" 
    by (rule pstep.intros(1) [where io = 0 and ok = True and n = "Some ''op''" and d = None]) (rule prod_eqI; simp)+
  then have "preach (fst (snd ?x))" by (blast intro: preach.intros)
  from reachable_policy_wf [OF this] show ?thesis by (simp add: list_all_iff)
qed

text \<open>
  A permission for the resource \<open>" "\<close>, a single blank, allows no other resource while the plugin
  runs; after the state file the plugin wrote is read back, it allows every resource.
\<close>

definition blank_policy :: pstate where
  "blank_policy =
     fst (snd (ops_grant 0 True
       (fst (snd (ops_role_add_perm 0 (fst (snd (ops_role_add 0 True pstate0 (Some ''op'') None))) ''op''
          (Some ''fs.read'') (Some '' '')))) (Some ''bob'') (Some ''op'')))"

theorem blank_resource_escalates:
  assumes "res \<noteq> '' ''"
  shows "ops_check blank_policy (Some ''bob'') (Some ''fs.read'') (Some res) = EACCES \<and>
    ops_check (snd (state_read_locked (Inr (state_text blank_policy)) True [] pstate0 True))
      (Some ''bob'') (Some ''fs.read'') (Some res) = 0"
proof -
  have b: "blank_policy =
     \<lparr>roles = [\<lparr>rl_name = ''op'', rl_description = [],
                rl_perms = [\<lparr>pm_action = ''fs.read'', pm_resource = '' ''\<rparr>]\<rparr>],
      bindings = [\<lparr>bd_subject = ''bob'', bd_role = ''op''\<rparr>], state_file = []\<rparr>" by code_simp
  have l: "snd (state_read_locked (Inr (state_text blank_policy)) True [] pstate0 True) =
     \<lparr>roles = [\<lparr>rl_name = ''op'', rl_description = [],
                rl_perms = [\<lparr>pm_action = ''fs.read'', pm_resource = []\<rparr>]\<rparr>],
      bindings = [\<lparr>bd_subject = ''bob'', bd_role = ''op''\<rparr>], state_file = []\<rparr>" by code_simp
  have "\<not> glob_match '' '' res" using assms by (cases res; cases "tl res") auto
  then show ?thesis
    unfolding l unfolding b by (simp add: ops_check_def find_role_locked_def Let_def)
qed

theorem blank_resource_escalates_witness:
  "ops_check (snd (state_read_locked (Inr (state_text blank_policy)) True [] pstate0 True))
     (Some ''bob'') (Some ''fs.read'') (Some ''/etc/shadow'') = 0"
  using blank_resource_escalates [of "''/etc/shadow''"] by simp

text \<open>
  Saving a policy and loading the file restores its roles, permissions and bindings exactly, in
  order, when no description or resource pattern begins or ends with white space and no subject
  contains any.
\<close>

theorem permission_save_load:
  assumes "policy_wf g" "policy_clean g"
  shows "state_read_locked (Inr (state_text g)) True [] g0 missing_ok =
    (0, g0\<lparr>roles := roles g, bindings := bindings g\<rparr>)"
proof -
  let ?c = "clear_state_locked g0" and ?ls = "concat (map role_lines (roles g)) @ map grant_line (bindings g)"
  let ?g1 = "?c\<lparr>roles := roles ?c @ map strip_perms (roles g)\<rparr>" and ?g2 = "?c\<lparr>roles := roles g\<rparr>"
  have rs: "\<forall>r \<in> set (roles g). role_ok r \<and> text_clean (rl_description r)" "distinct (map rl_name (roles g))"
      "\<forall>r \<in> set (roles g). role_ok r \<and> (\<forall>p \<in> set (rl_perms r). text_clean (pm_resource p))"
    using assms by (auto simp: policy_wf_def policy_clean_def)
  have 1: "apply_roles [] 0 ?c ?ls = (0, ?g1, [])"
    by (rule apply_roles_saved [OF rs(1,2)]) (simp add: clear_state_locked_def)
  have "apply_rest [] ?g1 ?ls = apply_rest [] ?g2 (map grant_line (bindings g))"
    using apply_rest_roles [OF rs(3), of "[]" ?g1] rs(2) by (simp add: clear_state_locked_def)
  also have "\<dots> = (?g2\<lparr>bindings := bindings ?g2 @ bindings g\<rparr>, [])"
  proof (rule apply_rest_grants)
    show "\<forall>b \<in> set (bindings g). word (bd_subject b) \<and> length (bd_subject b) < 128 \<and>
        token_ok (Some (bd_role b)) 64 \<and> find_role_locked ?g2 (bd_role b) \<noteq> None"
    proof
      fix b assume b: "b \<in> set (bindings g)"
      then obtain r where r: "r \<in> set (roles g)" "rl_name r = bd_role b"
        using assms(1) by (auto simp: policy_wf_def)
      then have "bd_role b \<in> rl_name ` set (roles g)" by (metis imageI)
      then have "find_role_locked ?g2 (bd_role b) \<noteq> None" by (simp add: find_role_None del: not_None_eq)
      moreover have "token_ok (Some (bd_role b)) 64" using r rs(1) by (auto simp: role_ok_def)
      ultimately show "word (bd_subject b) \<and> length (bd_subject b) < 128 \<and>
          token_ok (Some (bd_role b)) 64 \<and> find_role_locked ?g2 (bd_role b) \<noteq> None"
        using assms b by (auto simp: policy_wf_def policy_clean_def word_def)
    qed
  qed (use assms(1) in \<open>simp add: policy_wf_def clear_state_locked_def\<close>)
  finally show ?thesis
    using 1 by (simp add: state_read_locked_def state_lines_text [OF assms] Let_def clear_state_locked_def)
qed

theorem permission_save_load_witness:
  "snd (state_read_locked (Inr (state_text demo_policy)) True [] pstate0 True) = demo_policy"
proof -
  have "policy_wf demo_policy" "policy_clean demo_policy" by code_simp+
  from permission_save_load [OF this, of pstate0 True] show ?thesis by (simp add: demo_policy_def pstate0_def)
qed

lemma bindings_allow_cong: "roles h = roles g \<Longrightarrow> bindings_allow h bs s a r = bindings_allow g bs s a r"
  by (induction bs) (simp_all add: find_role_locked_def split: option.splits)

text \<open>
  C27. A policy survives saving and loading.  Take a policy of the shape every operation keeps, in which no
  description and no resource pattern begins with a blank or a tab or ends with white space, and no subject
  contains white space.  When saving it succeeds and its text is in the file, then loading that file with memory
  enough succeeds, whatever policy the process had before and whether the file is named or found by the
  environment: the roles, their descriptions and permissions, and the bindings are the saved ones, in the same
  order, and every check of a subject, an action and a resource is decided as before.
\<close>

theorem permission_survives_reload:
  assumes "policy_wf g" "policy_clean g"
    and "ops_save io e1 e2 g path = (0, g1, Some (file, content))"
    and "fopen file = Inr content" "fst (effective_path e1' e2' g0 path') = file"
  shows "\<exists>h. ops_load fopen True [] e1' e2' g0 path' = (0, h) \<and> roles h = roles g \<and> bindings h = bindings g \<and>
    (\<forall>subject action resource. ops_check h subject action resource = ops_check g subject action resource)"
proof -
  obtain eff g2 where e: "effective_path e1 e2 g path = (eff, g2)" by force
  then have "roles g2 = roles g" "bindings g2 = bindings g"
    by (auto simp: effective_path_def Let_def split: option.splits if_splits)
  then have "content = state_text g"
    using assms(3) e by (auto simp: ops_save_def state_write_locked_def state_text_def split: if_splits)
  moreover obtain g3 where "effective_path e1' e2' g0 path' = (file, g3)" using assms(5) by (metis prod.collapse)
  ultimately have "ops_load fopen True [] e1' e2' g0 path' = (0, g3\<lparr>roles := roles g, bindings := bindings g\<rparr>)"
    using assms(4) permission_save_load [OF assms(1,2), of g3 False] by (simp add: ops_load_def)
  then show ?thesis
    using bindings_allow_cong [of "g3\<lparr>roles := roles g, bindings := bindings g\<rparr>" g]
    by (simp add: ops_check_def Let_def split: option.splits)
qed

theorem permission_survives_reload_witness:
  "\<exists>file content h. ops_save 0 None None demo_policy (Some ''/tmp/p'') = (0, demo_policy, Some (file, content)) \<and>
     ops_load (\<lambda>_. Inr content) True [] None None pstate0 (Some ''/tmp/p'') = (0, h) \<and>
     ops_check h (Some ''bob'') (Some ''fs.read'') (Some ''/home/b'') = 0 \<and>
     ops_check h (Some ''bob'') (Some ''fs.read'') (Some ''/etc'') = EACCES"
proof -
  have p: "policy_wf demo_policy" "policy_clean demo_policy" by code_simp+
  have s: "ops_save 0 None None demo_policy (Some ''/tmp/p'') = (0, demo_policy, Some (''/tmp/p'', state_text demo_policy))"
    by (simp add: ops_save_def effective_path_def state_write_locked_def cstr_simps)
  have f: "fst (effective_path None None pstate0 (Some ''/tmp/p'')) = ''/tmp/p''" by (simp add: effective_path_def cstr_simps)
  have c: "ops_check demo_policy (Some ''bob'') (Some ''fs.read'') (Some ''/home/b'') = 0"
    "ops_check demo_policy (Some ''bob'') (Some ''fs.read'') (Some ''/etc'') = EACCES" by code_simp+
  show ?thesis
    using s permission_survives_reload [OF p s, of "\<lambda>_. Inr (state_text demo_policy)", OF refl f] c by auto
qed

end
