(* ===== verification/Shell.thy ===== *)
theory Shell
  imports Interfaces
begin

text \<open>
  The SHELL plugin, \<^verbatim>\<open>shell/src/shell_impl.c\<close>: the history ring, the alias table, the built-in commands
  and the evaluation of a line.

  The record \<open>shell\<close> holds the static variables of the file.  An output buffer is the text written so
  far together with its capacity.  What lies outside the process is the record \<open>outside\<close>: the current
  directory, or the error of \<^verbatim>\<open>getcwd\<close>, and for each command line the output of \<^verbatim>\<open>/bin/sh -c\<close>, or the error
  of starting it.  \<open>Fault\<close> is an access outside an array or to one of its elements that was never set.
\<close>

abbreviation SHELL_LINE_MAX :: nat where "SHELL_LINE_MAX \<equiv> 255"
abbreviation SHELL_ARGS_MAX :: nat where "SHELL_ARGS_MAX \<equiv> 64"
abbreviation SHELL_HISTORY_MAX :: nat where "SHELL_HISTORY_MAX \<equiv> 100"
abbreviation SHELL_ALIAS_MAX :: nat where "SHELL_ALIAS_MAX \<equiv> 64"

section \<open>State\<close>

record shell =
  sh_history :: "string list"
  history_cnt :: nat
  history_write :: nat
  aliases :: "(string \<times> string) list"

definition shell0 :: shell where
  "shell0 = \<lparr>sh_history = replicate SHELL_HISTORY_MAX [], history_cnt = 0, history_write = 0, aliases = []\<rparr>"

record outside =
  getcwd :: "rc + string"
  sh_c :: "string \<Rightarrow> rc + string"

section \<open>Buffers and words\<close>

definition buf_append :: "nat \<Rightarrow> string \<Rightarrow> string \<Rightarrow> string" where
  "buf_append cap out src = out @ take (cap - length out) src"

text \<open>Formatted text goes through a buffer of 512 bytes.\<close>

definition buf_append_fmt :: "nat \<Rightarrow> string \<Rightarrow> string \<Rightarrow> string" where
  "buf_append_fmt cap out txt = buf_append cap out (cstr 512 txt)"

abbreviation sh_blank :: "char \<Rightarrow> bool" where
  "sh_blank c \<equiv> c = CHR '' '' \<or> c = TAB \<or> c = NL"

definition trim_copy :: "string \<Rightarrow> nat \<Rightarrow> string" where
  "trim_copy src cap = trim_by (\<lambda>c. sh_blank c) (cstr cap src)"

text \<open>
  At most \<open>mx\<close> words are stored and a NULL after them: the array of \<open>mx\<close> pointers has no room for it
  when there are \<open>mx\<close> words or more.
\<close>

definition split_tokens :: "string \<Rightarrow> nat \<Rightarrow> string list outcome" where
  "split_tokens buf mx =
     (let argv = take mx (tokens (\<lambda>c. sh_blank c) buf) in if length argv < mx then Ret argv else Fault)"

text \<open>\<open>join_go\<close> is the loop from its second word on, \<open>pos\<close> the text so far.\<close>

fun join_go :: "nat \<Rightarrow> string \<Rightarrow> string list \<Rightarrow> string" where
  "join_go cap pos [] = pos"
| "join_go cap pos (a # as) =
     (if length pos + (1 + length a) \<ge> cap then pos else join_go cap (pos @ CHR '' '' # a) as)"

definition join_line :: "string list \<Rightarrow> nat \<Rightarrow> string" where
  "join_line argv cap =
     (case argv of
        [] \<Rightarrow> []
      | a # as \<Rightarrow> if length a \<ge> cap then [] else join_go cap a as)"

section \<open>History\<close>

definition history_append :: "shell \<Rightarrow> string option \<Rightarrow> rc \<times> shell" where
  "history_append s line =
     (case line of
        None \<Rightarrow> (EINVAL, s)
      | Some l \<Rightarrow>
          if l = [] then (EINVAL, s)
          else (0, s\<lparr>sh_history := (sh_history s)[history_write s := cstr SHELL_LINE_MAX l],
                     history_write := (history_write s + 1) mod SHELL_HISTORY_MAX,
                     history_cnt := (if history_cnt s < SHELL_HISTORY_MAX then history_cnt s + 1 else history_cnt s)\<rparr>))"

text \<open>The remainder of C, which has the sign of the dividend.\<close>

definition c_rem :: "int \<Rightarrow> int \<Rightarrow> int" where
  "c_rem a b = (if a < 0 then - ((- a) mod b) else a mod b)"

definition history_slot :: "shell \<Rightarrow> int \<Rightarrow> int" where
  "history_slot s idx =
     (let r = c_rem (int (history_write s) - int (history_cnt s) + idx) (int SHELL_HISTORY_MAX)
      in if r < 0 then r + int SHELL_HISTORY_MAX else r)"

definition history_get :: "shell \<Rightarrow> int \<Rightarrow> nat \<Rightarrow> rc \<times> string option" where
  "history_get s idx cap =
     (if cap = 0 then (EINVAL, None)
      else if idx < 0 \<or> idx \<ge> int (history_cnt s) then (ENOENT, None)
      else (0, Some (cstr cap (sh_history s ! nat (history_slot s idx)))))"

text \<open>The conversion \<^verbatim>\<open>%4d\<close>.\<close>

definition show_nat4 :: "nat \<Rightarrow> string" where
  "show_nat4 n = replicate (4 - length (show_nat n)) (CHR '' '') @ show_nat n"

fun history_lines :: "shell \<Rightarrow> nat \<Rightarrow> string \<Rightarrow> nat list \<Rightarrow> string" where
  "history_lines s cap out [] = out"
| "history_lines s cap out (i # is) =
     (let line = (case snd (history_get s (int i) SHELL_LINE_MAX) of Some l \<Rightarrow> l | None \<Rightarrow> [])
      in history_lines s cap (buf_append_fmt cap out (show_nat4 (i + 1) @ ''  '' @ line @ [NL])) is)"

definition history_list :: "shell \<Rightarrow> nat \<Rightarrow> rc \<times> string" where
  "history_list s cap =
     (if cap = 0 then (EINVAL, []) else (0, history_lines s cap [] [0..<history_cnt s]))"

definition history_clear :: "shell \<Rightarrow> rc \<times> shell" where
  "history_clear s = (0, s\<lparr>history_cnt := 0, history_write := 0\<rparr>)"

definition history_count :: "shell \<Rightarrow> nat" where
  "history_count s = history_cnt s"

section \<open>Aliases\<close>

definition alias_set :: "shell \<Rightarrow> string option \<Rightarrow> string option \<Rightarrow> rc \<times> shell" where
  "alias_set s name value =
     (case (name, value) of
        (Some n, Some v) \<Rightarrow>
          if n = [] then (EINVAL, s)
          else if CHR ''='' \<in> set n \<or> CHR '' '' \<in> set n then (EINVAL, s)
          else if find (\<lambda>p. fst p = n) (aliases s) \<noteq> None then
            (0, s\<lparr>aliases := update_first (\<lambda>p. fst p = n) (\<lambda>p. (fst p, cstr 256 v)) (aliases s)\<rparr>)
          else if length (aliases s) \<ge> SHELL_ALIAS_MAX then (ENOSPC, s)
          else (0, s\<lparr>aliases := aliases s @ [(cstr 64 n, cstr 256 v)]\<rparr>)
      | _ \<Rightarrow> (EINVAL, s))"

definition alias_get :: "shell \<Rightarrow> string option \<Rightarrow> nat \<Rightarrow> rc \<times> string option" where
  "alias_get s name cap =
     (case name of
        None \<Rightarrow> (EINVAL, None)
      | Some n \<Rightarrow>
          if cap = 0 then (EINVAL, None)
          else (case find (\<lambda>p. fst p = n) (aliases s) of
                  None \<Rightarrow> (ENOENT, None)
                | Some p \<Rightarrow> (0, Some (cstr cap (snd p)))))"

definition alias_clear :: "shell \<Rightarrow> rc \<times> shell" where
  "alias_clear s = (0, s\<lparr>aliases := []\<rparr>)"

definition alias_count :: "shell \<Rightarrow> nat" where
  "alias_count s = length (aliases s)"

section \<open>Built-in commands\<close>

definition help_text :: string where
  "help_text =
     ''HWRun OS SHELL builtins: help echo pwd history alias exit quit'' @ [NL] @
     ''  help            show this help'' @ [NL] @
     ''  echo <text>     print arguments joined by spaces'' @ [NL] @
     ''  pwd             print current working directory'' @ [NL] @
     ''  history         list command history'' @ [NL] @
     ''  alias           list / set / show aliases'' @ [NL] @
     ''  exit|quit       leave the shell'' @ [NL] @
     ''  other lines run via /bin/sh -c with stdout+stderr captured'' @ [NL]"

fun echo_args :: "nat \<Rightarrow> string \<Rightarrow> bool \<Rightarrow> string list \<Rightarrow> string" where
  "echo_args cap out first [] = out"
| "echo_args cap out first (a # as) =
     echo_args cap (buf_append cap (if first then out else buf_append cap out '' '') a) False as"

definition cmd_echo :: "nat \<Rightarrow> string list \<Rightarrow> string \<Rightarrow> string" where
  "cmd_echo cap argv out = buf_append cap (echo_args cap out True (tl argv)) [NL]"

definition cmd_pwd :: "outside \<Rightarrow> nat \<Rightarrow> string \<Rightarrow> rc \<times> string" where
  "cmd_pwd w cap out =
     (case getcwd w of
        Inl e \<Rightarrow> (e, out)
      | Inr cwd \<Rightarrow> (0, buf_append cap (buf_append cap out cwd) [NL]))"

definition alias_line :: "string \<Rightarrow> string \<Rightarrow> string" where
  "alias_line n v = n @ ''='' @ [CHR 0x27] @ v @ [CHR 0x27, NL]"

definition cmd_alias :: "shell \<Rightarrow> nat \<Rightarrow> string list \<Rightarrow> string \<Rightarrow> rc \<times> string \<times> shell" where
  "cmd_alias s cap argv out =
     (case argv of
        _ # arg # _ \<Rightarrow>
          (case split_first (CHR ''='') arg of
             (name, Some value) \<Rightarrow> (case alias_set s (Some name) (Some value) of (rc, s') \<Rightarrow> (rc, out, s'))
           | (name, None) \<Rightarrow>
               (case alias_get s (Some arg) 256 of
                  (_, Some val) \<Rightarrow> (0, buf_append_fmt cap out (alias_line arg val), s)
                | (_, None) \<Rightarrow> (ENOENT, out, s)))
      | _ \<Rightarrow> (0, foldl (\<lambda>out (n, v). buf_append_fmt cap out (alias_line n v)) out (aliases s), s))"

datatype builtin = Help | Echo | Pwd | History | Alias | Exit

definition builtin_find :: "string \<Rightarrow> builtin option" where
  "builtin_find name =
     map_of [(''help'', Help), (''echo'', Echo), (''pwd'', Pwd), (''history'', History),
             (''alias'', Alias), (''exit'', Exit), (''quit'', Exit)] name"

definition builtin_count :: nat where
  "builtin_count = 7"

definition run_builtin :: "outside \<Rightarrow> builtin \<Rightarrow> shell \<Rightarrow> nat \<Rightarrow> string list \<Rightarrow> rc \<times> string \<times> shell" where
  "run_builtin w b s cap argv =
     (case b of
        Help \<Rightarrow> (0, buf_append cap [] help_text, s)
      | Echo \<Rightarrow> (0, cmd_echo cap argv [], s)
      | Pwd \<Rightarrow> (case cmd_pwd w cap [] of (rc, out) \<Rightarrow> (rc, out, s))
      | History \<Rightarrow> (case history_list s cap of (rc, out) \<Rightarrow> (rc, out, s))
      | Alias \<Rightarrow> cmd_alias s cap argv []
      | Exit \<Rightarrow> (0, buf_append cap [] (''bye'' @ [NL]), s))"

section \<open>Evaluation\<close>

definition run_external :: "outside \<Rightarrow> string \<Rightarrow> nat \<Rightarrow> rc \<times> string" where
  "run_external w line cap =
     (case sh_c w line of Inl e \<Rightarrow> (e, []) | Inr output \<Rightarrow> (0, take cap output))"

definition exec_tokens :: "outside \<Rightarrow> shell \<Rightarrow> string list \<Rightarrow> nat \<Rightarrow> (rc \<times> string \<times> shell) outcome" where
  "exec_tokens w s argv cap =
     (case argv of
        [] \<Rightarrow> Fault
      | a # _ \<Rightarrow>
          (case builtin_find a of
             Some b \<Rightarrow> Ret (run_builtin w b s cap argv)
           | None \<Rightarrow>
               (case run_external w (join_line argv (SHELL_LINE_MAX * 4)) cap of
                  (rc, out) \<Rightarrow> Ret (rc, out, s))))"

fun expand_args :: "nat \<Rightarrow> string \<Rightarrow> string list \<Rightarrow> string" where
  "expand_args cap pos [] = pos"
| "expand_args cap pos (a # as) =
     (if length pos + length a + 2 \<ge> cap then pos else expand_args cap (pos @ CHR '' '' # a) as)"

definition ops_eval :: "outside \<Rightarrow> shell \<Rightarrow> string option \<Rightarrow> nat \<Rightarrow> (rc \<times> string \<times> shell) outcome" where
  "ops_eval w s line cap =
     (case line of
        None \<Rightarrow> Ret (EINVAL, [], s)
      | Some l \<Rightarrow>
          if cap = 0 then Ret (EINVAL, [], s)
          else
            let buf = trim_copy l (SHELL_LINE_MAX * 4) in
            if buf = [] then Ret (EINVAL, [], s)
            else
              let s1 = snd (history_append s (Some buf)) in
              (case split_tokens buf SHELL_ARGS_MAX of
                 Fault \<Rightarrow> Fault
               | Ret argv \<Rightarrow>
                   if argv = [] then Ret (EINVAL, [], s1)
                   else
                     (case alias_get s1 (Some (hd argv)) 256 of
                        (_, Some (v # vs)) \<Rightarrow>
                          (case split_tokens (expand_args (SHELL_LINE_MAX * 4) (v # vs) (tl argv)) SHELL_ARGS_MAX of
                             Fault \<Rightarrow> Fault
                           | Ret exp_argv \<Rightarrow>
                               if exp_argv \<noteq> [] then exec_tokens w s1 exp_argv cap
                               else exec_tokens w s1 argv cap)
                      | _ \<Rightarrow> exec_tokens w s1 argv cap)))"

text \<open>\<open>run\<close> returns no output.\<close>

definition ops_run :: "outside \<Rightarrow> shell \<Rightarrow> string list option \<Rightarrow> (rc \<times> shell) outcome" where
  "ops_run w s argv =
     (case argv of
        None \<Rightarrow> Ret (EINVAL, s)
      | Some as \<Rightarrow>
          if as = [] then Ret (EINVAL, s)
          else if [] \<in> set as then Ret (EINVAL, s)
          else
            let av = take SHELL_ARGS_MAX as;
                go = (\<lambda>ws. case exec_tokens w s ws 1024 of Fault \<Rightarrow> Fault | Ret (rc, _, s') \<Rightarrow> Ret (rc, s'))
            in
            (case alias_get s (Some (hd av)) 256 of
               (_, Some (v # vs)) \<Rightarrow>
                 (case split_tokens (cstr (SHELL_LINE_MAX * 4) (v # vs)) SHELL_ARGS_MAX of
                    Fault \<Rightarrow> Fault
                  | Ret vtok \<Rightarrow> go (take SHELL_ARGS_MAX (vtok @ tl av)))
             | _ \<Rightarrow> go av))"

definition ops_status_shell :: "outside \<Rightarrow> shell \<Rightarrow> nat \<Rightarrow> rc \<times> string" where
  "ops_status_shell w s cap =
     (if cap = 0 then (EINVAL, [])
      else
        (case getcwd w of
           Inl e \<Rightarrow> (e, [])
         | Inr cwd \<Rightarrow>
             (0, buf_append_fmt cap []
                (''shell: SHELL1.0 builtins='' @ show_nat builtin_count @ '' aliases='' @
                 show_nat (length (aliases s)) @ '' history='' @ show_nat (history_cnt s) @ '' cwd='' @ cwd @ [NL]))))"

section \<open>The history ring\<close>

definition ring_wf :: "shell \<Rightarrow> bool" where
  "ring_wf s \<longleftrightarrow> length (sh_history s) = SHELL_HISTORY_MAX \<and> history_write s < SHELL_HISTORY_MAX \<and>
     history_cnt s \<le> SHELL_HISTORY_MAX \<and> (history_cnt s < SHELL_HISTORY_MAX \<longrightarrow> history_write s = history_cnt s)"

definition ring :: "shell \<Rightarrow> string list" where
  "ring s = map (\<lambda>i. sh_history s ! nat (history_slot s (int i))) [0..<history_cnt s]"

abbreviation remember :: "shell \<Rightarrow> string \<Rightarrow> shell" where
  "remember s l \<equiv> snd (history_append s (Some l))"

lemma length_ring [simp]: "length (ring s) = history_cnt s"
  by (simp add: ring_def)

lemma ring_slot:
  assumes "ring_wf s" "i < history_cnt s"
  shows "nat (history_slot s (int i)) = (history_write s + i + (SHELL_HISTORY_MAX - history_cnt s)) mod SHELL_HISTORY_MAX"
proof (cases "history_cnt s = SHELL_HISTORY_MAX")
  case True
  with assms have w: "history_write s < SHELL_HISTORY_MAX" "i < SHELL_HISTORY_MAX" by (auto simp: ring_wf_def)
  show ?thesis
  proof (cases "history_write s + i < SHELL_HISTORY_MAX")
    case lt: True
    show ?thesis
    proof (cases "history_write s = 0 \<and> i = 0")
      case False
      then have "- (int (history_write s) - 100 + int i) mod 100 = 100 - int (history_write s) - int i"
        using lt by auto
      with lt True False show ?thesis by (auto simp: history_slot_def c_rem_def Let_def)
    qed (use True in \<open>simp add: history_slot_def c_rem_def Let_def\<close>)
  next
    case False
    then have "(history_write s + i) mod 100 = history_write s + i - 100"
      using w by (simp add: mod_if)
    with False True w show ?thesis by (simp add: history_slot_def c_rem_def Let_def)
  qed
next
  case False
  with assms have "history_write s = history_cnt s" "history_cnt s < SHELL_HISTORY_MAX" by (auto simp: ring_wf_def)
  with assms(2) show ?thesis by (simp add: history_slot_def c_rem_def Let_def)
qed

lemma ring_nth:
  "ring_wf s \<Longrightarrow> i < history_cnt s \<Longrightarrow>
     ring s ! i = sh_history s ! ((history_write s + i + (SHELL_HISTORY_MAX - history_cnt s)) mod SHELL_HISTORY_MAX)"
  by (simp add: ring_def ring_slot)

lemma remember_wf: "ring_wf s \<Longrightarrow> l \<noteq> [] \<Longrightarrow> ring_wf (remember s l)"
  by (auto simp: ring_wf_def history_append_def)

text \<open>The new line goes to the end; the oldest leaves a full ring.\<close>

lemma ring_append:
  assumes "ring_wf s" "l \<noteq> []"
  shows "ring (remember s l) =
    (if history_cnt s = SHELL_HISTORY_MAX then tl (ring s) else ring s) @ [cstr SHELL_LINE_MAX l]" (is "ring ?s = ?r")
proof (rule nth_equalityI)
  have c: "history_cnt ?s = min SHELL_HISTORY_MAX (history_cnt s + 1)" and w: "history_write ?s = (history_write s + 1) mod SHELL_HISTORY_MAX"
    and h: "sh_history ?s = (sh_history s)[history_write s := cstr SHELL_LINE_MAX l]"
    using assms by (auto simp: history_append_def ring_wf_def min_def)
  have b: "history_write s < SHELL_HISTORY_MAX" "length (sh_history s) = SHELL_HISTORY_MAX" "history_cnt s \<le> SHELL_HISTORY_MAX"
      "history_cnt s < SHELL_HISTORY_MAX \<longrightarrow> history_write s = history_cnt s"
    using assms(1) by (auto simp: ring_wf_def)
  show l: "length (ring ?s) = length ?r" using b(3) c by auto
  fix i assume "i < length (ring ?s)"
  then have i: "i < history_cnt ?s" by simp
  show "ring ?s ! i = ?r ! i"
  proof (cases "history_cnt s = SHELL_HISTORY_MAX")
    case True
    then have slot: "ring ?s ! i = sh_history ?s ! ((history_write s + 1 + i) mod SHELL_HISTORY_MAX)"
      using ring_nth [OF remember_wf [OF assms] i] c w by (simp add: mod_simps)
    show ?thesis
    proof (cases "i = 99")
      case i99: True
      have "(history_write s + 100) mod 100 = history_write s" using b(1) by simp
      then show ?thesis using slot i99 True b h by (simp add: nth_append ac_simps)
    next
      case False
      then have i': "i < 99" using i c by simp
      have "(history_write s + 1 + i) mod 100 \<noteq> history_write s"
      proof
        assume eq: "(history_write s + 1 + i) mod 100 = history_write s"
        show False
        proof (cases "history_write s + 1 + i < 100")
          case True with eq show False by simp
        next
          case False
          then have "(history_write s + 1 + i) mod 100 = history_write s + 1 + i - 100"
            using b(1) i' by (simp add: mod_if)
          with eq i' show False by simp
        qed
      qed
      then have "ring ?s ! i = sh_history s ! ((history_write s + Suc i) mod 100)"
        using slot h by simp
      also have "\<dots> = ring s ! Suc i" using ring_nth [OF assms(1), of "Suc i"] True i' by simp
      finally show ?thesis using True i' by (simp add: nth_append nth_tl)
    qed
  next
    case False
    then have n: "history_cnt s < SHELL_HISTORY_MAX" "history_write s = history_cnt s" using b by auto
    have slot: "ring ?s ! i = sh_history ?s ! i"
    proof (cases "history_cnt s = 99")
      case True
      then show ?thesis using ring_nth [OF remember_wf [OF assms] i] n i c w by simp
    next
      case f: False
      then have "(Suc (history_cnt s) + i + (100 - Suc (history_cnt s))) mod 100 = i"
        using n i c by simp
      then show ?thesis using ring_nth [OF remember_wf [OF assms] i] n f c w by simp
    qed
    show ?thesis
    proof (cases "i = history_cnt s")
      case True
      then show ?thesis using slot h n b False by (simp add: nth_append)
    next
      case i2: False
      then have "i < history_cnt s" using i c by simp
      moreover from this have "ring s ! i = sh_history s ! i" using ring_nth [OF assms(1)] n by simp
      ultimately show ?thesis using slot h n False by (simp add: nth_append)
    qed
  qed
qed

interpretation history_log: bounded_log ring_wf "\<lambda>_ l. l \<noteq> []" "\<lambda>_ l. cstr SHELL_LINE_MAX l" ring remember
proof
  fix s l assume "ring_wf s" "l \<noteq> ([] :: string)"
  then show "ring_wf (remember s l)" by (rule remember_wf)
  from \<open>ring_wf s\<close> \<open>l \<noteq> []\<close> show "\<exists>n. ring (remember s l) = drop n (ring s) @ [cstr SHELL_LINE_MAX l]"
    unfolding ring_append [OF \<open>ring_wf s\<close> \<open>l \<noteq> []\<close>]
    by (intro exI [of _ "if history_cnt s = SHELL_HISTORY_MAX then 1 else 0"]) (simp add: drop_Suc)
qed

lemma shell0_wf: "ring_wf shell0"
  by (simp add: ring_wf_def shell0_def)

section \<open>The alias table\<close>

definition alias_look :: "shell \<Rightarrow> string \<Rightarrow> string option" where
  "alias_look s n = snd (alias_get s (Some n) 256)"

definition alias_wf :: "shell \<Rightarrow> bool" where
  "alias_wf s \<longleftrightarrow> length (aliases s) \<le> SHELL_ALIAS_MAX \<and> distinct (map fst (aliases s)) \<and>
     (\<forall>p \<in> set (aliases s). length (fst p) < 64 \<and> length (snd p) < 256)"

definition alias_ok :: "shell \<Rightarrow> string \<Rightarrow> string \<Rightarrow> bool" where
  "alias_ok s n v \<longleftrightarrow> n \<noteq> [] \<and> length n < 64 \<and> CHR ''='' \<notin> set n \<and> CHR '' '' \<notin> set n \<and>
     (alias_look s n \<noteq> None \<or> length (aliases s) < SHELL_ALIAS_MAX)"

abbreviation alias_put :: "shell \<Rightarrow> string \<Rightarrow> string \<Rightarrow> shell" where
  "alias_put s n v \<equiv> snd (alias_set s (Some n) (Some v))"

lemma alias_look_find:
  "alias_wf s \<Longrightarrow> alias_look s n = map_option snd (find (\<lambda>p. fst p = n) (aliases s))"
  by (auto simp: alias_look_def alias_get_def alias_wf_def cstr_simps split: option.splits dest!: find_SomeD)

lemma alias_set_cases:
  assumes "alias_ok s n v"
  shows "alias_set s (Some n) (Some v) =
    (0, s\<lparr>aliases := (if find (\<lambda>p. fst p = n) (aliases s) \<noteq> None
           then update_first (\<lambda>p. fst p = n) (\<lambda>p. (fst p, cstr 256 v)) (aliases s)
           else aliases s @ [(n, cstr 256 v)])\<rparr>)"
  using assms by (auto simp: alias_set_def alias_ok_def alias_look_def alias_get_def cstr_simps split: option.splits)

lemma alias_put_wf:
  assumes "alias_wf s" "alias_ok s n v"
  shows "alias_wf (alias_put s n v)"
proof (cases "find (\<lambda>p. fst p = n) (aliases s)")
  case None
  then have "length (aliases s) < SHELL_ALIAS_MAX"
    using assms by (simp add: alias_ok_def alias_look_find)
  with None assms show ?thesis
    unfolding alias_set_cases [OF assms(2)] by (auto simp: alias_wf_def alias_ok_def find_None cstr_simps)
next
  case (Some p)
  then show ?thesis
    using assms(1) unfolding alias_set_cases [OF assms(2)]
    by (auto simp: alias_wf_def map_update_first cstr_simps dest!: set_update_first)
qed

lemma alias_look_put:
  assumes "alias_wf s" "alias_ok s n v"
  shows "alias_look (alias_put s n v) = (alias_look s)(n \<mapsto> cstr 256 v)"
proof
  fix m
  have wf: "alias_wf (alias_put s n v)" using alias_put_wf [OF assms] .
  show "alias_look (alias_put s n v) m = ((alias_look s)(n \<mapsto> cstr 256 v)) m"
  proof (cases "m = n")
    case True
    then show ?thesis
      unfolding alias_look_find [OF wf] unfolding alias_set_cases [OF assms(2)]
      by (cases "find (\<lambda>p. fst p = n) (aliases s)") (simp_all add: find_update_first find_append)
  next
    case False
    then show ?thesis
      unfolding alias_look_find [OF wf] unfolding alias_set_cases [OF assms(2)]
      by (auto simp: find_update_first_other find_append alias_look_find [OF assms(1)] split: option.splits)
  qed
qed

interpretation alias_table: kv_store alias_wf alias_ok "\<lambda>n. n" "\<lambda>v. Some (cstr 256 v)" alias_look alias_put
  by unfold_locales (auto simp: alias_put_wf alias_look_put)

section \<open>Lines of words\<close>

fun words_line :: "string list \<Rightarrow> string" where
  "words_line [] = []"
| "words_line (w # ws) = w @ concat (map (\<lambda>a. CHR '' '' # a) ws)"

abbreviation sh_words :: "string \<Rightarrow> string list" where
  "sh_words s \<equiv> tokens (\<lambda>c. sh_blank c) s"

definition is_word :: "string \<Rightarrow> bool" where
  "is_word w \<longleftrightarrow> w \<noteq> [] \<and> (\<forall>c \<in> set w. \<not> sh_blank c)"

lemma words_append: "\<forall>w \<in> set ws. is_word w \<Longrightarrow> sh_words (s @ concat (map (\<lambda>a. CHR '' '' # a) ws)) = sh_words s @ ws"
proof (induction ws arbitrary: s)
  case (Cons w ws)
  have "sh_words ((s @ CHR '' '' # w) @ concat (map (\<lambda>a. CHR '' '' # a) ws)) = sh_words (s @ CHR '' '' # w) @ ws"
    using Cons.prems by (intro Cons.IH) simp
  moreover have "sh_words (s @ CHR '' '' # w) = sh_words s @ sh_words w"
    by (rule tokens_append_sep) simp
  moreover have "sh_words w = [w]"
    using Cons.prems tokens_word [of w "\<lambda>c. sh_blank c" "[]"] by (simp add: is_word_def)
  ultimately show ?case by simp
qed simp

lemma words_of_line: "ws \<noteq> [] \<Longrightarrow> \<forall>w \<in> set ws. is_word w \<Longrightarrow> sh_words (words_line ws) = ws"
  using words_append [of "tl ws" "hd ws"] tokens_word [of "hd ws" "\<lambda>c. sh_blank c" "[]"]
  by (cases ws) (auto simp: is_word_def)

lemma last_words: "\<forall>w \<in> set ws. is_word w \<Longrightarrow> is_word v \<Longrightarrow> \<not> sh_blank (last (v @ concat (map (\<lambda>a. CHR '' '' # a) ws)))"
  by (induction ws rule: rev_induct) (auto simp: is_word_def)

lemma trim_words:
  assumes "ws \<noteq> []" "\<forall>w \<in> set ws. is_word w" "length (words_line ws) < cap"
  shows "trim_copy (words_line ws) cap = words_line ws"
proof -
  obtain v vs where ws: "ws = v # vs" using assms(1) by (cases ws) auto
  have "\<not> sh_blank (last (words_line ws))" using last_words [of vs v] assms(2) ws by simp
  moreover have "v \<noteq> []" "\<not> sh_blank (hd v)" using assms(2) ws by (auto simp: is_word_def)
  ultimately show ?thesis
    unfolding trim_copy_def cstr_id [OF assms(3)] by (intro trim_by_id) (simp add: ws hd_append)
qed

lemma expand_args_full:
  "length pos + length (concat (map (\<lambda>a. CHR '' '' # a) ws)) + 1 < cap \<Longrightarrow>
     expand_args cap pos ws = pos @ concat (map (\<lambda>a. CHR '' '' # a) ws)"
  by (induction ws arbitrary: pos) auto

definition expansion :: "shell \<Rightarrow> string list \<Rightarrow> string list" where
  "expansion s ws =
     (case alias_look s (hd ws) of
        Some (v # vs) \<Rightarrow> (let e = sh_words (v # vs) @ tl ws in if e = [] then ws else e)
      | _ \<Rightarrow> ws)"

lemma remember_cnt: "l \<noteq> [] \<Longrightarrow> history_cnt (remember s l) = min SHELL_HISTORY_MAX (history_cnt s + 1) \<or>
    history_cnt (remember s l) = history_cnt s \<and> history_cnt s \<ge> SHELL_HISTORY_MAX"
  by (auto simp: history_append_def)

lemma remember_aliases [simp]: "aliases (remember s l) = aliases s"
  by (simp add: history_append_def)

lemma alias_get_remember: "alias_get (remember s l) n cap = alias_get s n cap"
  by (cases n) (simp_all add: alias_get_def)

lemma alias_get_length: "alias_get s n 256 = (rc, Some v) \<Longrightarrow> length v < 256"
  by (auto simp: alias_get_def cstr_simps split: option.splits)

lemma run_suffix_length: "suffix xs ys \<Longrightarrow> xs = drop (length ys - length xs) ys"
  by (auto simp: suffix_def)

lemma eval_words:
  assumes "ws \<noteq> []" "\<forall>w \<in> set ws. is_word w" "length (words_line ws) < 764" "0 < cap"
  shows "ops_eval w s (Some (words_line ws)) cap =
    (if length ws \<ge> SHELL_ARGS_MAX \<or> length (expansion s ws) \<ge> SHELL_ARGS_MAX then Fault
     else exec_tokens w (snd (history_append s (Some (words_line ws)))) (expansion s ws) cap)"
proof -
  let ?s = "remember s (words_line ws)"
  have t: "trim_copy (words_line ws) (SHELL_LINE_MAX * 4) = words_line ws"
    using assms(3) by (intro trim_words [OF assms(1,2)]) simp
  have ne: "words_line ws \<noteq> []" using assms(1,2) by (cases ws) (auto simp: is_word_def)
  have sp: "split_tokens (words_line ws) SHELL_ARGS_MAX =
      (if length ws < SHELL_ARGS_MAX then Ret ws else Fault)"
    by (simp add: split_tokens_def words_of_line [OF assms(1,2)] Let_def)
  show ?thesis
  proof (cases "length ws < SHELL_ARGS_MAX \<and> (\<exists>c cs rc. alias_get s (Some (hd ws)) 256 = (rc, Some (c # cs)))")
    case False
    then have "length ws < SHELL_ARGS_MAX \<Longrightarrow> expansion s ws = ws"
      by (cases "alias_get s (Some (hd ws)) 256") (auto simp: expansion_def alias_look_def split: option.splits list.splits)
    with False assms(1,4) t ne sp show ?thesis
      by (auto simp: ops_eval_def Let_def alias_get_remember split: prod.splits option.splits list.splits)
  next
    case True
    then obtain c cs rc where v: "alias_get s (Some (hd ws)) 256 = (rc, Some (c # cs))" by blast
    have l: "length (c # cs) < 256" using v by (rule alias_get_length)
    have "length (concat (map (\<lambda>a. CHR '' '' # a) (tl ws))) \<le> length (words_line ws)" by (cases ws) auto
    then have "expand_args (SHELL_LINE_MAX * 4) (c # cs) (tl ws) = (c # cs) @ concat (map (\<lambda>a. CHR '' '' # a) (tl ws))"
      using l assms(3) by (intro expand_args_full) simp
    then have "sh_words (expand_args (SHELL_LINE_MAX * 4) (c # cs) (tl ws)) = sh_words (c # cs) @ tl ws"
      using words_append [of "tl ws" "c # cs"] assms(2) by (cases ws) auto
    moreover define ts where "ts = sh_words (c # cs) @ tl ws"
    ultimately have "sh_words (expand_args (SHELL_LINE_MAX * 4) (c # cs) (tl ws)) = ts" by simp
    then have x: "split_tokens (expand_args (SHELL_LINE_MAX * 4) (c # cs) (tl ws)) SHELL_ARGS_MAX =
        (if length ts < SHELL_ARGS_MAX then Ret ts else Fault)"
      by (simp add: split_tokens_def Let_def)
    have e: "expansion s ws = (if ts = [] then ws else ts)"
      using v unfolding ts_def by (simp only: expansion_def alias_look_def Let_def snd_conv option.case list.case)
    show ?thesis
      using True assms(1,4) t ne sp v x by (simp add: ops_eval_def Let_def alias_get_remember e)
  qed
qed

text \<open>An alias of blanks leaves \<open>run\<close> without a command word.\<close>

lemma run_blank_alias_faults:
  assumes "alias_get s (Some n) 256 = (rc, Some v)" "n \<noteq> []" "v \<noteq> []" "sh_words v = []"
  shows "ops_run w s (Some [n]) = Fault"
proof -
  have "cstr (SHELL_LINE_MAX * 4) v = v" using alias_get_length [OF assms(1)] by (intro cstr_id) simp
  then have "split_tokens (cstr (SHELL_LINE_MAX * 4) v) SHELL_ARGS_MAX = Ret []"
    using assms(4) by (simp add: split_tokens_def)
  then show ?thesis using assms by (cases v) (auto simp: ops_run_def exec_tokens_def Let_def)
qed

section \<open>Properties\<close>

text \<open>
  C30. After any sequence of lines, the history holds the last hundred of them, each cut to 254
  characters, numbered from the oldest.
\<close>

theorem shell_history_keeps_last:
  assumes "\<forall>l \<in> set ls. l \<noteq> []" and "s = foldl (\<lambda>s l. snd (history_append s (Some l))) shell0 ls"
  shows "history_count s = min SHELL_HISTORY_MAX (length ls) \<and>
    (\<forall>i < history_count s. history_get s (int i) SHELL_LINE_MAX =
       (0, Some (cstr SHELL_LINE_MAX (drop (length ls - SHELL_HISTORY_MAX) ls ! i))))"
proof -
  have run: "foldl (\<lambda>s l. snd (history_append s (Some l))) t ls = history_log.run t ls" for t
    by (induction ls arbitrary: t) auto
  have oks: "history_log.oks t ls" and encs: "history_log.encs t ls = map (cstr SHELL_LINE_MAX) ls" for t
    using assms(1) by (induction ls arbitrary: t) auto
  have cnt: "ring_wf t \<Longrightarrow> history_cnt (history_log.run t ls) = min SHELL_HISTORY_MAX (history_cnt t + length ls)" for t
    using assms(1)
  proof (induction ls arbitrary: t)
    case (Cons l ls)
    have l: "l \<noteq> []" and ls: "\<forall>l \<in> set ls. l \<noteq> []" using Cons.prems(2) by auto
    have "history_log.run t (l # ls) = history_log.run (remember t l) ls" by simp
    with Cons.IH [OF remember_wf [OF Cons.prems(1) l] ls] remember_cnt [OF l, of t] show ?case by auto
  qed (simp add: ring_wf_def)
  have s: "s = history_log.run shell0 ls" using assms(2) run by simp
  have wf: "ring_wf s" unfolding s using history_log.run_wf [OF shell0_wf oks] .
  have n: "history_cnt s = min SHELL_HISTORY_MAX (length ls)" using cnt [OF shell0_wf] s by (simp add: shell0_def)
  have "ring shell0 = []" by (simp add: ring_def shell0_def)
  then have "suffix (ring s) (map (cstr SHELL_LINE_MAX) ls)"
    using history_log.run_suffix [OF shell0_wf oks] encs s by simp
  from run_suffix_length [OF this] n
  have r: "ring s = map (cstr SHELL_LINE_MAX) (drop (length ls - SHELL_HISTORY_MAX) ls)"
    by (simp add: drop_map min_def split: if_splits)
  have "history_get s (int i) SHELL_LINE_MAX =
      (0, Some (cstr SHELL_LINE_MAX (drop (length ls - SHELL_HISTORY_MAX) ls ! i)))"
    if i: "i < history_cnt s" for i
  proof -
    have "sh_history s ! nat (history_slot s (int i)) = ring s ! i" using i by (simp add: ring_def)
    also have "\<dots> = cstr SHELL_LINE_MAX (drop (length ls - SHELL_HISTORY_MAX) ls ! i)"
      using i n unfolding r by (intro nth_map) auto
    finally show ?thesis using i by (simp add: history_get_def cstr_cstr)
  qed
  then show ?thesis using n by (simp add: history_count_def)
qed

theorem shell_history_keeps_last_witness:
  "history_get (foldl (\<lambda>s l. snd (history_append s (Some l))) shell0 (replicate 120 ''ls'')) 99 SHELL_LINE_MAX = (0, Some ''ls'')"
  using shell_history_keeps_last [OF _ refl, of "replicate 120 ''ls''", THEN conjunct2, rule_format, of 99]
    shell_history_keeps_last [OF _ refl, of "replicate 120 ''ls''", THEN conjunct1]
  by (simp add: cstr_simps)

text \<open>
  Evaluating a line of words that fits its buffers first remembers the line and then runs the
  words, with the first one replaced by the words of its alias; with 64 words or more, before or after
  the replacement, the list of words is written beyond the end of its array.
\<close>

theorem shell_eval_words:
  assumes "ws \<noteq> []" "\<forall>w \<in> set ws. is_word w" "length (words_line ws) < 764" "0 < cap"
  shows "ops_eval w s (Some (words_line ws)) cap =
    (if length ws \<ge> SHELL_ARGS_MAX \<or> length (expansion s ws) \<ge> SHELL_ARGS_MAX then Fault
     else exec_tokens w (snd (history_append s (Some (words_line ws)))) (expansion s ws) cap)"
  using assms by (rule eval_words)

theorem shell_eval_words_witness:
  "\<forall>w. ops_eval w shell0 (Some (words_line (replicate 64 ''a''))) 80 = Fault"
proof
  fix w
  have "length (words_line (replicate 64 ''a'')) < 764" by (simp add: numeral_eq_Suc)
  then show "ops_eval w shell0 (Some (words_line (replicate 64 ''a''))) 80 = Fault"
    using shell_eval_words [of "replicate 64 ''a''" 80 w shell0] by (simp add: is_word_def)
qed

text \<open>
  After an alias is set, evaluating its name with arguments runs the words of its value followed
  by the arguments.
\<close>

theorem shell_alias_expands:
  assumes "alias_wf s" "alias_ok s n v" "is_word n" "length v < 256" "sh_words v \<noteq> []"
    and "\<forall>a \<in> set args. is_word a" "length (words_line (n # args)) < 764" "0 < cap"
    and "length (sh_words v @ args) < SHELL_ARGS_MAX"
  shows "\<exists>s'. alias_set s (Some n) (Some v) = (0, s') \<and>
    ops_eval w s' (Some (words_line (n # args))) cap =
      exec_tokens w (snd (history_append s' (Some (words_line (n # args))))) (sh_words v @ args) cap"
proof -
  obtain s' where s': "alias_set s (Some n) (Some v) = (0, s')" using alias_set_cases [OF assms(2)] by blast
  have "alias_look s' n = Some (cstr 256 v)"
    using alias_table.look_put_same [OF assms(1,2)] s' by simp
  moreover have "v \<noteq> []" using assms(5) by auto
  ultimately have e: "expansion s' (n # args) = sh_words v @ args"
    using assms(4,5) by (cases v) (auto simp: expansion_def cstr_simps Let_def)
  have "length (sh_words v) \<ge> 1" using assms(5) by (cases "sh_words v") auto
  then have "length (n # args) < SHELL_ARGS_MAX" using assms(9) by simp
  then show ?thesis
    using s' e eval_words [of "n # args" cap w s'] assms(3,6-9) by auto
qed

theorem shell_alias_expands_witness:
  "\<forall>w. \<exists>s'. alias_set shell0 (Some ''ll'') (Some ''ls -l'') = (0, s') \<and>
     ops_eval w s' (Some (words_line [''ll'', ''/''])) 80 =
       exec_tokens w (snd (history_append s' (Some (words_line [''ll'', ''/''])))) [''ls'', ''-l'', ''/''] 80"
proof -
  have t: "sh_words ''ls -l'' = [''ls'', ''-l'']"
    using words_of_line [of "[''ls'', ''-l'']"] by (simp add: is_word_def)
  show ?thesis
    using shell_alias_expands [of shell0 "''ll''" "''ls -l''" "[''/'']" 80]
    unfolding t by (simp add: shell0_def alias_wf_def alias_ok_def is_word_def)
qed

end
