(* ===== verification/Console.thy ===== *)
theory Console
  imports Prelude
begin

text \<open>
  The CONSOLE plugin, \<^verbatim>\<open>console/src/console_impl.c\<close>: sessions in memory with a buffer of lines, written at
  one end and read line by line at the other.

  A session is known by its address; addresses are never used twice here, so an access through one that
  was released by \<^verbatim>\<open>hw_console_cleanup\<close> is seen as the fault it is.  The sizes of the buffers are kept in 64 bits.
  The output callback of a session is a number, and what is handed to it is part of the result.
\<close>

text \<open>A call returns, or touches memory that is gone, or never ends.\<close>

datatype 'a run = Loops | Crash | Done 'a

section \<open>Sessions\<close>

record hw_console_session =
  cs_name :: string
  cs_id :: "64 word"
  cs_active :: bool
  cs_buf :: string
  cs_cap :: "64 word"
  cs_written :: "64 word"
  cs_out :: "nat option"

record console =
  c_sessions :: "(nat \<times> hw_console_session) list"
  c_seq :: "64 word"
  c_next :: nat

definition console0 :: console where
  "console0 = \<lparr>c_sessions = [], c_seq = 0, c_next = 0\<rparr>"

abbreviation HW_CONSOLE_NAME_MAX :: nat where "HW_CONSOLE_NAME_MAX \<equiv> 32"

definition session_at :: "console \<Rightarrow> nat \<Rightarrow> hw_console_session option" where
  "session_at g a = map_of (c_sessions g) a"

definition put_session :: "nat \<Rightarrow> hw_console_session \<Rightarrow> console \<Rightarrow> console" where
  "put_session a s g = g\<lparr>c_sessions := map (\<lambda>p. if fst p = a then (a, s) else p) (c_sessions g)\<rparr>"

text \<open>The capacity is doubled until it is enough; in 64 bits it may come round to 0.\<close>

partial_function (option) grow_cap :: "64 word \<Rightarrow> 64 word \<Rightarrow> 64 word option" where
  "grow_cap need ncap = (if ncap < need then grow_cap need (ncap * 2) else Some ncap)"

definition appended :: "string \<Rightarrow> 64 word \<Rightarrow> hw_console_session \<Rightarrow> hw_console_session" where
  "appended data cap s = s\<lparr>cs_buf := cs_buf s @ data, cs_cap := cap, cs_written := cs_written s + of_nat (length data)\<rparr>"

definition sess_append :: "bool \<Rightarrow> hw_console_session \<Rightarrow> string \<Rightarrow> (rc \<times> hw_console_session) option" where
  "sess_append memory s data =
     (let need = of_nat (length (cs_buf s)) + of_nat (length data) + 1 in
      if cs_cap s < need
      then (case grow_cap need (if cs_cap s \<noteq> 0 then cs_cap s else 64) of
              None \<Rightarrow> None
            | Some ncap \<Rightarrow> if memory then Some (0, appended data ncap s) else Some (ENOMEM, s))
      else Some (0, appended data (cs_cap s) s))"

definition sess_count_lines :: "hw_console_session \<Rightarrow> nat" where
  "sess_count_lines s = length (filter (\<lambda>c. c = NL) (cs_buf s))"

definition hw_console_cleanup :: "console \<Rightarrow> console" where
  "hw_console_cleanup g = g\<lparr>c_sessions := [], c_seq := 0\<rparr>"

section \<open>Operations\<close>

definition console_version :: int where
  "console_version = 1"

definition new_console_session :: "string \<Rightarrow> 64 word \<Rightarrow> hw_console_session" where
  "new_console_session name i =
     \<lparr>cs_name = cstr HW_CONSOLE_NAME_MAX name, cs_id = i, cs_active = True, cs_buf = [], cs_cap = 0, cs_written = 0, cs_out = None\<rparr>"

definition console_open :: "bool \<Rightarrow> string option \<Rightarrow> console \<Rightarrow> (rc + nat) \<times> console" where
  "console_open memory name g =
     (case name of
        None \<Rightarrow> (Inl EINVAL, g)
      | Some name \<Rightarrow>
          if name = [] \<or> HW_CONSOLE_NAME_MAX \<le> length name then (Inl EINVAL, g)
          else if list_ex (\<lambda>p. cs_active (snd p) \<and> cs_name (snd p) = name) (c_sessions g) then (Inl EEXIST, g)
          else if \<not> memory then (Inl ENOMEM, g)
          else (Inr (c_next g), g\<lparr>c_sessions := (c_next g, new_console_session name (c_seq g + 1)) # c_sessions g, c_seq := c_seq g + 1,
                                  c_next := c_next g + 1\<rparr>))"

text \<open>The guard of the operations on an open session: no handle, a stale one, a closed session.\<close>

definition on_active :: "console \<Rightarrow> nat option \<Rightarrow> 'a \<Rightarrow> (nat \<Rightarrow> hw_console_session \<Rightarrow> 'a run) \<Rightarrow> 'a run" where
  "on_active g h bad f =
     (case h of
        None \<Rightarrow> Done bad
      | Some a \<Rightarrow>
          (case session_at g a of
             None \<Rightarrow> Crash
           | Some s \<Rightarrow> if cs_active s then f a s else Done bad))"

definition console_close :: "nat option \<Rightarrow> console \<Rightarrow> (rc \<times> console) run" where
  "console_close h g = on_active g h (EINVAL, g) (\<lambda>a s. Done (0, put_session a (s\<lparr>cs_active := False\<rparr>) g))"

type_synonym out_calls = "(nat \<times> string) list"

definition emit :: "hw_console_session \<Rightarrow> string \<Rightarrow> out_calls" where
  "emit s data = (case cs_out s of None \<Rightarrow> [] | Some cb \<Rightarrow> [(cb, data)])"

definition console_write :: "bool \<Rightarrow> nat option \<Rightarrow> string option \<Rightarrow> console \<Rightarrow> (rc \<times> out_calls \<times> console) run" where
  "console_write memory h buf g =
     on_active g h (EINVAL, [], g) (\<lambda>a s.
       case buf of
         None \<Rightarrow> Done (EINVAL, [], g)
       | Some data \<Rightarrow>
           (case sess_append memory s data of
              None \<Rightarrow> Loops
            | Some (rc, s') \<Rightarrow>
                if rc \<noteq> 0 then Done (rc, [], put_session a s' g)
                else Done (0, emit s' data, put_session a s' g)))"

definition consumed :: "string \<Rightarrow> hw_console_session \<Rightarrow> hw_console_session" where
  "consumed rest s = (if rest \<noteq> [] then s\<lparr>cs_buf := rest\<rparr> else s\<lparr>cs_buf := [], cs_cap := 0\<rparr>)"

text \<open>The buffer of the caller, where it has one, and whether it wants the length; a line where one is read.\<close>

definition console_read_line ::
  "nat option \<Rightarrow> nat option \<Rightarrow> bool \<Rightarrow> console \<Rightarrow> (rc \<times> string option \<times> console) run" where
  "console_read_line h cap has_n g =
     on_active g h (EINVAL, None, g) (\<lambda>a s.
       case cap of
         None \<Rightarrow> Done (EINVAL, None, g)
       | Some cap \<Rightarrow>
           if cap = 0 \<or> \<not> has_n then Done (EINVAL, None, g)
           else (case split_first NL (cs_buf s) of
                   (_, None) \<Rightarrow> Done (EAGAIN, None, g)
                 | (line, Some rest) \<Rightarrow>
                     if cap \<le> length line then Done (ENOBUFS, None, g)
                     else Done (0, Some line, put_session a (consumed rest s) g)))"

definition escaped :: "string \<Rightarrow> string" where
  "escaped text = concat (map (\<lambda>c. if c = NL then [CHR 0x5C, CHR ''n''] else [c]) text)"

definition emptied :: "hw_console_session \<Rightarrow> hw_console_session" where
  "emptied s = s\<lparr>cs_buf := [], cs_cap := 0\<rparr>"

text \<open>\<open>m1\<close>, \<open>m2\<close> and \<open>m3\<close> say whether the escaped copy and the two appends get their memory.\<close>

definition console_banner ::
  "bool \<Rightarrow> bool \<Rightarrow> bool \<Rightarrow> nat option \<Rightarrow> string option \<Rightarrow> console \<Rightarrow> (rc \<times> out_calls \<times> console) run" where
  "console_banner m1 m2 m3 h text g =
     on_active g h (EINVAL, [], g) (\<lambda>a s.
       case text of
         None \<Rightarrow> Done (EINVAL, [], g)
       | Some text \<Rightarrow>
           let s0 = (emptied s)\<lparr>cs_written := 0\<rparr> in
           if \<not> m1 then Done (ENOMEM, [], put_session a s0 g)
           else (case sess_append m2 s0 (escaped text) of
                   None \<Rightarrow> Loops
                 | Some (rc1, s1) \<Rightarrow>
                     if rc1 \<noteq> 0 then Done (rc1, [], put_session a s1 g)
                     else (case sess_append m3 s1 [NL] of
                             None \<Rightarrow> Loops
                           | Some (rc2, s2) \<Rightarrow>
                               if rc2 \<noteq> 0 then Done (rc2, [], put_session a s2 g)
                               else Done (0, emit s2 text, put_session a s2 g))))"

definition console_clear :: "nat option \<Rightarrow> console \<Rightarrow> (rc \<times> console) run" where
  "console_clear h g = on_active g h (EINVAL, g) (\<lambda>a s. Done (0, put_session a (emptied s) g))"

record hw_console_info =
  ci_name :: string
  ci_id :: "64 word"
  ci_active :: bool
  ci_lines :: nat
  ci_written :: "64 word"
  ci_buffered :: nat

definition session_info :: "hw_console_session \<Rightarrow> hw_console_info" where
  "session_info s =
     \<lparr>ci_name = cstr HW_CONSOLE_NAME_MAX (cs_name s), ci_id = cs_id s, ci_active = cs_active s, ci_lines = sess_count_lines s,
      ci_written = cs_written s, ci_buffered = length (cs_buf s)\<rparr>"

definition console_status :: "nat option \<Rightarrow> bool \<Rightarrow> console \<Rightarrow> (rc \<times> hw_console_info option) run" where
  "console_status h has_out g =
     on_active g h (EINVAL, None) (\<lambda>a s. if has_out then Done (0, Some (session_info s)) else Done (EINVAL, None))"

text \<open>\<open>has_bufs\<close>: neither the array nor the count is NULL.\<close>

definition console_list :: "bool \<Rightarrow> int \<Rightarrow> console \<Rightarrow> rc + hw_console_info list" where
  "console_list has_bufs cap g =
     (if \<not> has_bufs \<or> cap \<le> 0 then Inl EINVAL
      else Inr (take (nat cap) (map session_info (filter cs_active (map snd (c_sessions g))))))"

definition console_bind :: "nat option \<Rightarrow> nat option \<Rightarrow> console \<Rightarrow> (rc \<times> console) run" where
  "console_bind h cb g =
     (case h of
        None \<Rightarrow> Done (EINVAL, g)
      | Some a \<Rightarrow>
          (case session_at g a of
             None \<Rightarrow> Crash
           | Some s \<Rightarrow> Done (0, put_session a (s\<lparr>cs_out := cb\<rparr>) g)))"

end
