(* ===== verification/FileTree.thy ===== *)
theory FileTree
  imports Prelude
begin

text \<open>
  The directory tree the STORAGE plugin works on, and its own tree walks,
  \<^verbatim>\<open>storage/src/storage_impl.c\<close>: \<^verbatim>\<open>mkdir -p\<close>, recursive removal, clearing a directory, copying a
  file and copying a tree.

  A file system is one tree of named nodes; the system calls look a path up by its components.  Modes
  are permission bits, a directory lists its entries in the order \<^verbatim>\<open>readdir\<close> gives them, without
  \<open>.\<close> and \<open>..\<close>.  A path that runs through a symbolic link is not followed: it is an error here.
  The environment decides by an oracle which calls fail for other reasons (permissions, space, I/O).
\<close>

section \<open>Trees\<close>

abbreviation SLASH :: char where "SLASH \<equiv> CHR 0x2F"
abbreviation ENOTDIR :: rc where "ENOTDIR \<equiv> - 20"
abbreviation EISDIR :: rc where "EISDIR \<equiv> - 21"
abbreviation EBUSY :: rc where "EBUSY \<equiv> - 16"
abbreviation ENOTEMPTY :: rc where "ENOTEMPTY \<equiv> - 39"

datatype node =
    Reg nat string
  | Dir nat "(string \<times> node) list"
  | Lnk string
  | Special

type_synonym entries = "(string \<times> node) list"

datatype syscall = LSTAT | MKDIR | REMOVE | OPENDIR | OPEN | READ | WRITE | SYMLINK | RENAME

type_synonym osenv = "syscall \<Rightarrow> string list \<Rightarrow> rc"

definition no_faults :: osenv where
  "no_faults = (\<lambda>_ _. 0)"

text \<open>The components of a path; \<open>.\<close> and \<open>..\<close> are resolved on the way.\<close>

definition comp_step :: "string list \<Rightarrow> string \<Rightarrow> string list" where
  "comp_step st x = (if x = ''.'' then st else if x = ''..'' then butlast st else st @ [x])"

definition comps :: "string \<Rightarrow> string list" where
  "comps s = foldl comp_step [] (tokens (\<lambda>c. c = SLASH) s)"

fun walk :: "string list \<Rightarrow> node \<Rightarrow> rc + node" where
  "walk [] t = Inr t"
| "walk (n # ns) (Dir m es) = (case map_of es n of None \<Rightarrow> Inl ENOENT | Some c \<Rightarrow> walk ns c)"
| "walk (n # ns) t = Inl ENOTDIR"

fun set_entry :: "string \<Rightarrow> node option \<Rightarrow> entries \<Rightarrow> entries" where
  "set_entry n v [] = (case v of None \<Rightarrow> [] | Some c \<Rightarrow> [(n, c)])"
| "set_entry n v ((k, c) # es) =
     (if k = n then (case v of None \<Rightarrow> es | Some d \<Rightarrow> (k, d) # es) else (k, c) # set_entry n v es)"

fun put :: "string list \<Rightarrow> node option \<Rightarrow> node \<Rightarrow> node" where
  "put [] v t = (case v of None \<Rightarrow> t | Some x \<Rightarrow> x)"
| "put (n # ns) v (Dir m es) =
     (if ns = [] then Dir m (set_entry n v es)
      else (case map_of es n of None \<Rightarrow> Dir m es
            | Some c \<Rightarrow> Dir m (set_entry n (Some (put ns v c)) es)))"
| "put (n # ns) v t = t"

section \<open>System calls\<close>

definition lstat :: "osenv \<Rightarrow> node \<Rightarrow> string \<Rightarrow> rc + node" where
  "lstat os fs path =
     (if os LSTAT (comps path) \<noteq> 0 then Inl (os LSTAT (comps path)) else walk (comps path) fs)"

text \<open>The entry \<open>cs\<close> can be created: its directory is there and it is not.\<close>

definition vacant :: "string list \<Rightarrow> node \<Rightarrow> rc" where
  "vacant cs fs =
     (if cs = [] then EEXIST
      else
        (case walk (butlast cs) fs of
           Inl e \<Rightarrow> e
         | Inr (Dir m es) \<Rightarrow>
             (if map_of es (last cs) \<noteq> None then EEXIST
              else if 255 < length (last cs) then ENAMETOOLONG else 0)
         | Inr _ \<Rightarrow> ENOTDIR))"

definition create :: "osenv \<Rightarrow> syscall \<Rightarrow> string \<Rightarrow> node \<Rightarrow> node \<Rightarrow> rc \<times> node" where
  "create os call path new fs =
     (let cs = comps path in
      if vacant cs fs \<noteq> 0 then (vacant cs fs, fs)
      else if os call cs \<noteq> 0 then (os call cs, fs)
      else (0, put cs (Some new) fs))"

definition opendir :: "osenv \<Rightarrow> node \<Rightarrow> string \<Rightarrow> rc + string list" where
  "opendir os fs path =
     (if os OPENDIR (comps path) \<noteq> 0 then Inl (os OPENDIR (comps path))
      else (case walk (comps path) fs of
              Inl e \<Rightarrow> Inl e | Inr (Dir m es) \<Rightarrow> Inr (map fst es) | Inr _ \<Rightarrow> Inl ENOTDIR))"

definition chmod :: "string \<Rightarrow> nat \<Rightarrow> node \<Rightarrow> node" where
  "chmod path m fs =
     (case walk (comps path) fs of
        Inr (Dir _ es) \<Rightarrow> put (comps path) (Some (Dir m es)) fs
      | Inr (Reg _ s) \<Rightarrow> put (comps path) (Some (Reg m s)) fs
      | _ \<Rightarrow> fs)"

text \<open>\<^verbatim>\<open>remove\<close>: \<^verbatim>\<open>unlink\<close>, or \<^verbatim>\<open>rmdir\<close> of an empty directory.\<close>

definition remove :: "osenv \<Rightarrow> string \<Rightarrow> node \<Rightarrow> rc \<times> node" where
  "remove os path fs =
     (case walk (comps path) fs of
        Inl e \<Rightarrow> (e, fs)
      | Inr t \<Rightarrow>
          if comps path = [] then (EBUSY, fs)
          else if (case t of Dir _ es \<Rightarrow> es \<noteq> [] | _ \<Rightarrow> False) then (ENOTEMPTY, fs)
          else if os REMOVE (comps path) \<noteq> 0 then (os REMOVE (comps path), fs)
          else (0, put (comps path) None fs))"

section \<open>Walks\<close>

text \<open>A loop that stops at the first call that fails.\<close>

fun each :: "('a \<Rightarrow> 'w \<Rightarrow> rc \<times> 'w) \<Rightarrow> 'a list \<Rightarrow> 'w \<Rightarrow> rc \<times> 'w" where
  "each f [] w = (0, w)"
| "each f (x # xs) w = (case f x w of (rc, w') \<Rightarrow> if rc \<noteq> 0 then (rc, w') else each f xs w')"

lemma each_cong [fundef_cong]:
  "xs = ys \<Longrightarrow> w = w' \<Longrightarrow> (\<And>x w. x \<in> set ys \<Longrightarrow> f x w = g x w) \<Longrightarrow> each f xs w = each g ys w'"
proof -
  assume "xs = ys" "w = w'" and fg: "\<And>x w. x \<in> set ys \<Longrightarrow> f x w = g x w"
  have "(\<And>x w. x \<in> set ys \<Longrightarrow> f x w = g x w) \<Longrightarrow> each f ys w' = each g ys w'" for w'
    by (induction ys arbitrary: w') (auto split: prod.splits)
  then show ?thesis using \<open>xs = ys\<close> \<open>w = w'\<close> fg by blast
qed

definition path_prefixes :: "string \<Rightarrow> string list" where
  "path_prefixes path = map (\<lambda>i. take i path) (filter (\<lambda>i. path ! i = SLASH) [1..<length path])"

definition mkdir_one :: "osenv \<Rightarrow> nat \<Rightarrow> string \<Rightarrow> node \<Rightarrow> rc \<times> node" where
  "mkdir_one os mode q fs =
     (case create os MKDIR q (Dir mode []) fs of (e, fs') \<Rightarrow> (if e = EEXIST then 0 else e, fs'))"

definition storage_mkdir_p :: "osenv \<Rightarrow> string \<Rightarrow> nat \<Rightarrow> node \<Rightarrow> rc \<times> node" where
  "storage_mkdir_p os path mode fs =
     (if length path \<ge> 512 then (ENAMETOOLONG, fs)
      else
        (case each (mkdir_one os mode) (path_prefixes path @ [path]) fs of
           (rc, fs1) \<Rightarrow>
             if rc \<noteq> 0 then (rc, fs1)
             else
               (case lstat os fs1 path of
                  Inl e \<Rightarrow> (e, fs1)
                | Inr (Dir _ _) \<Rightarrow> (0, fs1)
                | Inr _ \<Rightarrow> (ENOTDIR, fs1))))"

text \<open>Depth-first removal; a failure leaves the rest in place.\<close>

fun rm_node :: "osenv \<Rightarrow> string list \<Rightarrow> node \<Rightarrow> rc \<times> node option"
and rm_entries :: "osenv \<Rightarrow> string list \<Rightarrow> entries \<Rightarrow> rc \<times> entries" where
  "rm_node os p (Dir m es) =
     (case rm_entries os p es of
        (rc, es') \<Rightarrow>
          if rc \<noteq> 0 then (rc, Some (Dir m es'))
          else if os REMOVE p \<noteq> 0 then (os REMOVE p, Some (Dir m es')) else (0, None))"
| "rm_node os p t = (if os REMOVE p \<noteq> 0 then (os REMOVE p, Some t) else (0, None))"
| "rm_entries os p [] = (0, [])"
| "rm_entries os p ((n, c) # es) =
     (case rm_node os (p @ [n]) c of
        (rc, c') \<Rightarrow>
          if rc \<noteq> 0 then (rc, (case c' of None \<Rightarrow> es | Some d \<Rightarrow> (n, d) # es)) else rm_entries os p es)"

definition storage_rm_rf :: "osenv \<Rightarrow> string \<Rightarrow> node \<Rightarrow> rc \<times> node" where
  "storage_rm_rf os path fs =
     (case walk (comps path) fs of
        Inl _ \<Rightarrow> (- 1, fs)
      | Inr t \<Rightarrow>
          (case rm_node os (comps path) t of
             (rc, t') \<Rightarrow>
               if t' = None \<and> comps path = [] then (EBUSY, (case t of Dir m _ \<Rightarrow> Dir m [] | _ \<Rightarrow> t))
               else (rc, put (comps path) t' fs)))"

definition join :: "string \<Rightarrow> string \<Rightarrow> string" where
  "join d n = cstr 1024 (d @ SLASH # n)"

definition clear_one :: "osenv \<Rightarrow> string \<Rightarrow> string \<Rightarrow> node \<Rightarrow> rc \<times> node" where
  "clear_one os path n fs =
     (let child = join path n in
      case lstat os fs child of
        Inl e \<Rightarrow> (e, fs)
      | Inr (Dir _ _) \<Rightarrow> storage_rm_rf os child fs
      | Inr _ \<Rightarrow> remove os child fs)"

definition storage_dir_clear :: "osenv \<Rightarrow> string \<Rightarrow> node \<Rightarrow> rc \<times> node" where
  "storage_dir_clear os path fs =
     (case opendir os fs path of Inl e \<Rightarrow> (e, fs) | Inr ns \<Rightarrow> each (clear_one os path) ns fs)"

text \<open>
  One regular file.  A destination that is a link or a special file would be written through, outside
  the tree: \<open>copy_data\<close> leaves the tree as it is; the walks below only copy to new names.
\<close>

definition copy_data :: "osenv \<Rightarrow> string \<Rightarrow> string \<Rightarrow> nat \<Rightarrow> string \<Rightarrow> node \<Rightarrow> rc \<times> node" where
  "copy_data os src dst m s fs =
     (let ds = comps dst in
      case walk ds fs of
        Inr (Dir _ _) \<Rightarrow> (EISDIR, fs)
      | Inr (Lnk _) \<Rightarrow> (0, fs)
      | Inr Special \<Rightarrow> (0, fs)
      | _ \<Rightarrow>
          if vacant ds fs \<noteq> 0 \<and> vacant ds fs \<noteq> EEXIST then (vacant ds fs, fs)
          else if os OPEN ds \<noteq> 0 then (os OPEN ds, fs)
          else if os READ (comps src) \<noteq> 0 \<or> os WRITE ds \<noteq> 0
          then (EIO, snd (remove os dst (put ds (Some (Reg 420 [])) fs)))
          else (0, put ds (Some (Reg m s)) fs))"

definition storage_copy_file :: "osenv \<Rightarrow> string \<Rightarrow> string \<Rightarrow> node \<Rightarrow> rc \<times> node" where
  "storage_copy_file os src dst fs =
     (case lstat os fs src of
        Inl e \<Rightarrow> (e, fs)
      | Inr (Reg m s) \<Rightarrow>
          if os OPEN (comps src) \<noteq> 0 then (os OPEN (comps src), fs) else copy_data os src dst m s fs
      | Inr _ \<Rightarrow> (EIO, fs))"

text \<open>
  Every level of directories makes the destination longer, and \<open>storage_mkdir_p\<close> refuses a path of 512
  characters: the recursion ends even when the destination lies inside the source.
\<close>

lemma mkdir_p_short: "storage_mkdir_p os path mode fs = (0, fs') \<Longrightarrow> length path < 512"
  by (auto simp: storage_mkdir_p_def split: if_splits)

lemma length_join: "length d < 1023 \<Longrightarrow> length d < length (join d n)"
  by (simp add: join_def cstr_def)

function (sequential) storage_copy_tree :: "osenv \<Rightarrow> string \<Rightarrow> string \<Rightarrow> node \<Rightarrow> rc \<times> node" where
  "storage_copy_tree os src dst fs =
     (case lstat os fs src of
        Inl e \<Rightarrow> (e, fs)
      | Inr (Dir m _) \<Rightarrow>
          (case storage_mkdir_p os dst 448 fs of
             (rc, fs1) \<Rightarrow>
               if rc \<noteq> 0 then (rc, fs1)
               else
                 (case opendir os fs1 src of
                    Inl e \<Rightarrow> (e, fs1)
                  | Inr ns \<Rightarrow>
                      (case each (\<lambda>n. storage_copy_tree os (join src n) (join dst n)) ns fs1 of
                         (rc, fs2) \<Rightarrow> if rc = 0 then (0, chmod dst m fs2) else (rc, fs2))))
      | Inr (Reg _ _) \<Rightarrow> storage_copy_file os src dst fs
      | Inr (Lnk t) \<Rightarrow> create os SYMLINK dst (Lnk (cstr 1024 t)) fs
      | Inr Special \<Rightarrow> (0, fs))"
  by pat_completeness auto
termination
proof (relation "measure (\<lambda>(os, src, dst, fs). 1024 - length dst)", goal_cases)
  case (2 os src dst fs)
  then have "length dst < 512" by (metis mkdir_p_short)
  then show ?case using length_join [of dst] by (auto intro!: diff_less_mono2)
qed simp

declare storage_copy_tree.simps [simp del]

fun du :: "node \<Rightarrow> nat \<times> nat"
and du_entries :: "entries \<Rightarrow> nat \<times> nat" where
  "du (Dir m es) = du_entries es"
| "du (Reg m s) = (length s, 1)"
| "du Special = (0, 1)"
| "du (Lnk t) = (0, 0)"
| "du_entries [] = (0, 0)"
| "du_entries ((n, c) # es) = (fst (du c) + fst (du_entries es), snd (du c) + snd (du_entries es))"

section \<open>Looking up and changing entries\<close>

lemma map_of_set_entry:
  "distinct (map fst es) \<Longrightarrow> map_of (set_entry n v es) k = (if k = n then v else map_of es k)"
  by (induction es) (auto split: option.splits simp: map_of_eq_None_iff)

lemma set_set_entry: "fst ` set (set_entry n v es) \<subseteq> insert n (fst ` set es)"
  by (induction n v es rule: set_entry.induct) (auto split: option.splits)

lemma distinct_set_entry: "distinct (map fst es) \<Longrightarrow> distinct (map fst (set_entry n v es))"
proof (induction n v es rule: set_entry.induct)
  case (2 n v k c es)
  then show ?case using set_set_entry [of n v es] by (auto split: option.splits)
qed (auto split: option.splits)

lemma set_entry_again: "set_entry n (Some d) (set_entry n (Some c) es) = set_entry n (Some d) es"
  by (induction es) auto

lemma set_entry_new: "n \<notin> fst ` set es \<Longrightarrow> set_entry n (Some c) es = es @ [(n, c)]"
  by (induction es) auto

lemma set_entry_in: "(k, c) \<in> set (set_entry n v es) \<Longrightarrow> (k, c) \<in> set es \<or> k = n \<and> v = Some c"
  by (induction n v es rule: set_entry.induct) (auto split: option.splits if_splits)

text \<open>A proper file name, and a tree whose directories have distinct proper names.\<close>

definition name_ok :: "string \<Rightarrow> bool" where
  "name_ok n \<longleftrightarrow> n \<noteq> [] \<and> SLASH \<notin> set n \<and> n \<noteq> ''.'' \<and> n \<noteq> ''..'' \<and> length n \<le> 255"

fun tree_ok :: "node \<Rightarrow> bool"
and entries_ok :: "entries \<Rightarrow> bool" where
  "tree_ok (Dir m es) = (distinct (map fst es) \<and> entries_ok es)"
| "tree_ok t = True"
| "entries_ok [] = True"
| "entries_ok ((n, c) # es) = (name_ok n \<and> tree_ok c \<and> entries_ok es)"

lemma entries_ok_iff: "entries_ok es \<longleftrightarrow> (\<forall>(n, c) \<in> set es. name_ok n \<and> tree_ok c)"
  by (induction es) auto

lemma walk_append:
  "walk (p @ q) t = (case walk p t of Inl e \<Rightarrow> Inl e | Inr c \<Rightarrow> walk q c)"
  by (induction p t rule: walk.induct) (auto split: option.splits)

lemma walk_tree_ok: "tree_ok t \<Longrightarrow> walk p t = Inr c \<Longrightarrow> tree_ok c"
proof (induction p t rule: walk.induct)
  case (2 n ns m es)
  then show ?case by (auto simp: entries_ok_iff split: option.splits dest: map_of_SomeD)
qed auto

lemma put_tree_ok:
  "tree_ok t \<Longrightarrow> pred_option tree_ok v \<Longrightarrow> \<forall>n \<in> set p. name_ok n \<Longrightarrow> tree_ok (put p v t)"
proof (induction p v t rule: put.induct)
  case (2 n ns v m es)
  show ?case
  proof (cases "ns = []")
    case True
    with 2 show ?thesis
      by (cases v) (auto simp: distinct_set_entry entries_ok_iff dest!: set_entry_in)
  next
    case False
    show ?thesis
    proof (cases "map_of es n")
      case None
      with False 2 show ?thesis by simp
    next
      case (Some c)
      have "tree_ok c" using 2(2) Some by (auto simp: entries_ok_iff dest: map_of_SomeD)
      with 2 False Some have "tree_ok (put ns v c)" by simp
      with 2 False Some show ?thesis by (auto simp: distinct_set_entry entries_ok_iff dest!: set_entry_in)
    qed
  qed
qed (auto split: option.splits)

text \<open>The laws of \<open>put\<close>: what a path gives after the node at another one changed.\<close>

lemma walk_last:
  assumes "walk (butlast p) t = Inr (Dir m es)" "p \<noteq> []"
  shows "walk p t = (case map_of es (last p) of None \<Rightarrow> Inl ENOENT | Some c \<Rightarrow> Inr c)"
proof -
  have "walk (butlast p @ [last p]) t = (case map_of es (last p) of None \<Rightarrow> Inl ENOENT | Some c \<Rightarrow> Inr c)"
    unfolding walk_append using assms by (simp split: option.splits)
  then show ?thesis using assms(2) by simp
qed

lemma entries_okD: "map_of es n = Some c \<Longrightarrow> entries_ok es \<Longrightarrow> name_ok n \<and> tree_ok c"
  by (auto simp: entries_ok_iff dest: map_of_SomeD)

lemma walk_put_same:
  "tree_ok t \<Longrightarrow> walk (butlast p) t = Inr (Dir m es) \<Longrightarrow> p \<noteq> [] \<Longrightarrow>
     walk p (put p v t) = (case v of None \<Rightarrow> Inl ENOENT | Some c \<Rightarrow> Inr c)"
proof (induction p v t rule: put.induct)
  case (2 n ns v m' es')
  show ?case
  proof (cases "map_of es' n")
    case None
    with 2 show ?thesis by (auto simp: map_of_set_entry split: option.splits if_splits)
  next
    case (Some c)
    with 2 entries_okD [OF Some] show ?thesis by (auto simp: map_of_set_entry split: option.splits if_splits)
  qed
qed (auto split: if_splits)

lemma walk_put_parallel:
  "tree_ok t \<Longrightarrow> p \<parallel> q \<Longrightarrow> walk q (put p v t) = walk q t"
proof (induction p v t arbitrary: q rule: put.induct)
  case (2 n ns v m es)
  from 2(3) obtain k ks where q: "q = k # ks" by (cases q) auto
  show ?case
  proof (cases "k = n")
    case False
    with 2 q show ?thesis by (auto simp: map_of_set_entry split: option.splits)
  next
    case True
    with 2(3) q have par: "ns \<parallel> ks" by (auto simp: parallel_def)
    then have ns: "ns \<noteq> []" by auto
    show ?thesis
    proof (cases "map_of es n")
      case (Some c)
      with 2(1) [OF ns Some _ par] 2(2) q True ns entries_okD [OF Some] show ?thesis
        by (simp add: map_of_set_entry)
    qed (use q True ns in simp)
  qed
qed (auto split: option.splits)

lemma put_below:
  "tree_ok t \<Longrightarrow> walk (butlast p) t = Inr (Dir m es) \<Longrightarrow> p \<noteq> [] \<Longrightarrow> q \<noteq> [] \<Longrightarrow>
     put (p @ q) v (put p (Some x) t) = put p (Some (put q v x)) t"
proof (induction p "Some x" t rule: put.induct)
  case (2 n ns m' es')
  show ?case
  proof (cases "map_of es' n")
    case None
    with 2 show ?thesis
      by (auto simp: map_of_set_entry set_entry_again split: if_splits)
  next
    case (Some c)
    with 2 entries_okD [OF Some] show ?thesis
      by (auto simp: map_of_set_entry set_entry_again split: if_splits)
  qed
qed (auto split: if_splits)

lemma put_put:
  "tree_ok t \<Longrightarrow> walk (butlast p) t = Inr (Dir m es) \<Longrightarrow> p \<noteq> [] \<Longrightarrow>
     put p (Some y) (put p (Some x) t) = put p (Some y) t"
proof (induction p "Some x" t rule: put.induct)
  case (2 n ns m' es')
  show ?case
  proof (cases "map_of es' n")
    case None
    with 2 show ?thesis
      by (auto simp: map_of_set_entry set_entry_again split: if_splits)
  next
    case (Some c)
    with 2 entries_okD [OF Some] show ?thesis
      by (auto simp: map_of_set_entry set_entry_again split: if_splits)
  qed
qed (auto split: if_splits)

lemma walk_put_above:
  "tree_ok t \<Longrightarrow> walk q t = Inr c \<Longrightarrow> r \<noteq> [] \<Longrightarrow> walk q (put (q @ r) v t) = Inr (put r v c)"
proof (induction q t arbitrary: c rule: walk.induct)
  case (2 n ns m es)
  show ?case
  proof (cases "map_of es n")
    case (Some d)
    with 2 entries_okD [OF Some] show ?thesis by (auto simp: map_of_set_entry)
  qed (use 2 in simp)
qed auto

lemma set_entry_same: "map_of es n = Some c \<Longrightarrow> set_entry n (Some c) es = es"
  by (induction es) (auto split: if_splits)

lemma put_id: "tree_ok t \<Longrightarrow> walk p t = Inr c \<Longrightarrow> put p (Some c) t = t"
proof (induction p t rule: walk.induct)
  case (2 n ns m es)
  show ?case
  proof (cases "map_of es n")
    case (Some d)
    with 2 entries_okD [OF Some] show ?thesis by (auto simp: set_entry_same)
  qed (use 2 in simp)
qed auto

section \<open>Paths\<close>

text \<open>A path without \<open>..\<close>: its prefixes name the directories on the way.\<close>

definition plain :: "string \<Rightarrow> bool" where
  "plain p \<longleftrightarrow> ''..'' \<notin> set (tokens (\<lambda>c. c = SLASH) p)"

lemma comps_fold: "''..'' \<notin> set xs \<Longrightarrow> foldl comp_step st xs = st @ filter (\<lambda>x. x \<noteq> ''.'') xs"
  by (induction xs arbitrary: st) (auto simp: comp_step_def)

lemma comps_plain: "plain p \<Longrightarrow> comps p = filter (\<lambda>x. x \<noteq> ''.'') (tokens (\<lambda>c. c = SLASH) p)"
  by (simp add: plain_def comps_def comps_fold)

lemma plain_slash: "plain (d @ SLASH # r) \<longleftrightarrow> plain d \<and> plain r"
  by (simp add: plain_def tokens_append_sep)

lemma comps_slash: "plain (d @ SLASH # r) \<Longrightarrow> comps (d @ SLASH # r) = comps d @ comps r"
  using comps_plain [of "d @ SLASH # r"] comps_plain [of d] comps_plain [of r]
  by (simp add: plain_slash tokens_append_sep)

lemma tokens_noslash: "n \<noteq> [] \<Longrightarrow> SLASH \<notin> set n \<Longrightarrow> tokens (\<lambda>c. c = SLASH) n = [n]"
  using tokens_word [of n "\<lambda>c. c = SLASH" "[]"] by auto

lemma comps_name: "SLASH \<notin> set n \<Longrightarrow> comps n = (if n \<in> {[], ''.'', ''..''} then [] else [n])"
  by (cases "n = []") (auto simp: comps_def comp_step_def tokens_noslash)

lemma comps_child: "name_ok n \<Longrightarrow> comps (d @ SLASH # n) = comps d @ [n]"
  by (simp add: comps_def tokens_append_sep tokens_noslash name_ok_def comp_step_def)

lemma comps_join: "name_ok n \<Longrightarrow> length d + length n < 1023 \<Longrightarrow> comps (join d n) = comps d @ [n]"
  by (simp add: join_def cstr_simps comps_child)

lemma join_id: "length d + length n < 1023 \<Longrightarrow> join d n = d @ SLASH # n"
  by (simp add: join_def cstr_simps)

lemma plain_name: "name_ok n \<Longrightarrow> plain n"
  by (auto simp: plain_def name_ok_def tokens_noslash)

lemma comps_good: "n \<in> set (comps p) \<Longrightarrow> n \<noteq> [] \<and> SLASH \<notin> set n \<and> n \<noteq> ''.'' \<and> n \<noteq> ''..''"
proof -
  have "n \<in> set (foldl comp_step st xs) \<Longrightarrow> n \<in> set st \<or> n \<in> set xs \<and> n \<noteq> ''.'' \<and> n \<noteq> ''..''" for st xs
    by (induction xs arbitrary: st) (force simp: comp_step_def dest: in_set_butlastD split: if_splits)+
  moreover assume "n \<in> set (comps p)"
  ultimately show ?thesis
    unfolding comps_def using tokens_nonempty [of n "\<lambda>c. c = SLASH" p] by fastforce
qed

lemma path_prefixes_noslash: "SLASH \<notin> set n \<Longrightarrow> path_prefixes n = []"
  by (auto simp: path_prefixes_def filter_empty_conv in_set_conv_nth)

lemma path_prefixes_slash:
  assumes "SLASH \<notin> set n"
  shows "path_prefixes (d @ SLASH # n) = path_prefixes d @ (if d = [] then [] else [d])"
proof -
  let ?p = "d @ SLASH # n"
  let ?P = "\<lambda>i. ?p ! i = SLASH"
  have r: "[1..<length ?p] = [1..<length d] @ (if d = [] then [] else [length d]) @ [Suc (length d)..<length ?p]"
  proof (cases "d = []")
    case False
    then have "[1..<length ?p] = [1..<length d] @ [length d..<length ?p]"
      using upt_add_eq_append [of 1 "length d" "length ?p - length d"] by (simp add: Suc_le_eq)
    also have "[length d..<length ?p] = length d # [Suc (length d)..<length ?p]"
      by (rule upt_conv_Cons) simp
    finally show ?thesis using False by simp
  qed simp
  have "?p ! i \<noteq> SLASH" if i: "Suc (length d) \<le> i" "i < length ?p" for i
  proof -
    obtain k where k: "i = Suc (length d + k)" using i(1) by (auto simp: le_iff_add)
    then have "?p ! i = n ! k" by (simp add: nth_append)
    moreover have "n ! k \<in> set n" using i k by (intro nth_mem) simp
    ultimately show ?thesis using assms by auto
  qed
  then have t: "filter ?P [Suc (length d)..<length ?p] = []"
    by (simp add: filter_empty_conv del: upt_Suc)
  have h: "map (\<lambda>i. take i ?p) (filter ?P [1..<length d]) = path_prefixes d"
    by (auto simp: path_prefixes_def nth_append intro!: map_cong filter_cong)
  show ?thesis
    unfolding path_prefixes_def r
    using h t by (simp add: path_prefixes_def nth_append)
qed

lemma path_cases:
  obtains (name) "SLASH \<notin> set p" | (child) d n where "p = d @ SLASH # n" "SLASH \<notin> set n"
  by (cases "SLASH \<in> set p") (auto dest: split_list_last)

lemma path_prefixes_prefix: "plain p \<Longrightarrow> q \<in> set (path_prefixes p) \<Longrightarrow> prefix (comps q) (comps p)"
proof (induction "length p" arbitrary: p rule: less_induct)
  case less
  show ?case
  proof (cases p rule: path_cases)
    case name
    with less show ?thesis by (simp add: path_prefixes_noslash)
  next
    case (child d n)
    with less have "plain d" "q = d \<or> q \<in> set (path_prefixes d)" "comps p = comps d @ comps n"
      by (auto simp: path_prefixes_slash plain_slash comps_slash split: if_splits)
    with less(1) [of d] child show ?thesis by auto
  qed
qed

section \<open>Making directories\<close>

definition exists_in :: "node \<Rightarrow> string list \<Rightarrow> bool" where
  "exists_in fs p \<longleftrightarrow> (case walk p fs of Inl _ \<Rightarrow> False | Inr _ \<Rightarrow> True)"

definition dir_in :: "node \<Rightarrow> string list \<Rightarrow> bool" where
  "dir_in fs p \<longleftrightarrow> (case walk p fs of Inr (Dir _ _) \<Rightarrow> True | _ \<Rightarrow> False)"

lemma dir_inE: "dir_in fs p \<Longrightarrow> (\<And>m es. walk p fs = Inr (Dir m es) \<Longrightarrow> R) \<Longrightarrow> R"
  by (auto simp: dir_in_def split: sum.splits node.splits)

lemma dir_inI: "walk p fs = Inr (Dir m es) \<Longrightarrow> dir_in fs p"
  by (simp add: dir_in_def)

lemma exists_inE: "exists_in fs p \<Longrightarrow> (\<And>t. walk p fs = Inr t \<Longrightarrow> R) \<Longrightarrow> R"
  by (auto simp: exists_in_def split: sum.splits)

lemma exists_inI: "walk p fs = Inr t \<Longrightarrow> exists_in fs p"
  by (simp add: exists_in_def)

lemma vacant_exists: "exists_in fs p \<Longrightarrow> vacant p fs = EEXIST"
proof (cases "p = []")
  case False
  assume "exists_in fs p"
  then obtain t where t: "walk (butlast p @ [last p]) fs = Inr t" using False by (auto elim: exists_inE)
  then obtain c where c: "walk (butlast p) fs = Inr c" "walk [last p] c = Inr t"
    unfolding walk_append by (auto split: sum.splits)
  then obtain m es where "c = Dir m es" by (cases c) auto
  with c False show ?thesis by (auto simp: vacant_def split: option.splits)
qed (simp add: vacant_def)

lemma walk_error: "walk p t = Inl e \<Longrightarrow> e = ENOENT \<or> e = ENOTDIR"
  by (induction p t rule: walk.induct) (auto split: option.splits)

lemma vacant_0:
  "vacant p fs = 0 \<longleftrightarrow> p \<noteq> [] \<and> dir_in fs (butlast p) \<and> \<not> exists_in fs p \<and> length (last p) \<le> 255"
proof (cases "p \<noteq> [] \<and> dir_in fs (butlast p)")
  case True
  then obtain m es where d: "walk (butlast p) fs = Inr (Dir m es)" by (auto elim: dir_inE)
  from walk_last [OF d] True show ?thesis
    using d by (auto simp: vacant_def exists_in_def dir_in_def split: option.splits)
next
  case False
  show ?thesis
  proof (cases "walk (butlast p) fs")
    case (Inl e)
    with False walk_error [OF Inl] show ?thesis by (auto simp: vacant_def dir_in_def)
  next
    case (Inr c)
    with False show ?thesis by (cases c) (auto simp: vacant_def dir_in_def)
  qed
qed

lemma walk_names: "walk p t = Inr c \<Longrightarrow> tree_ok t \<Longrightarrow> \<forall>x \<in> set p. name_ok x"
proof (induction p t rule: walk.induct)
  case (2 n ns m es)
  show ?case
  proof (cases "map_of es n")
    case (Some d)
    with 2 entries_okD [OF Some] show ?thesis by simp
  qed (use 2 in simp)
qed auto

lemma mkdir_one_exists: "exists_in fs (comps q) \<Longrightarrow> mkdir_one os mode q fs = (0, fs)"
  by (simp add: mkdir_one_def create_def vacant_exists Let_def)

lemma each_mkdir_exists:
  "\<forall>q \<in> set qs. exists_in fs (comps q) \<Longrightarrow> each (mkdir_one os mode) qs fs = (0, fs)"
  by (induction qs) (auto simp: mkdir_one_exists)

lemma mkdir_one_vacant:
  "vacant (comps q) fs = 0 \<Longrightarrow> mkdir_one no_faults mode q fs = (0, put (comps q) (Some (Dir mode [])) fs)"
  by (simp add: mkdir_one_def create_def Let_def no_faults_def)

lemma each_append:
  "each f (xs @ ys) w = (case each f xs w of (rc, w') \<Rightarrow> if rc \<noteq> 0 then (rc, w') else each f ys w')"
  by (induction xs arbitrary: w) (auto split: prod.splits)

text \<open>A new empty directory is all that changes.\<close>

lemma walk_put_new:
  assumes "tree_ok fs" "vacant p fs = 0" "\<not> prefix q p"
  shows "walk q (put p (Some (Dir m [])) fs) = walk q fs"
proof (cases "prefix p q")
  case True
  then obtain r where r: "q = p @ r" "r \<noteq> []" using assms(3) by (auto simp: prefix_def)
  have p: "p \<noteq> []" "dir_in fs (butlast p)" "\<not> exists_in fs p" using assms(2) by (auto simp: vacant_0)
  from p(2) obtain m' es where d: "walk (butlast p) fs = Inr (Dir m' es)" by (auto elim: dir_inE)
  from walk_last [OF d p(1)] p(3) have "walk p fs = Inl ENOENT"
    by (auto simp: exists_in_def split: option.splits)
  then show ?thesis
    using walk_put_same [OF assms(1) d p(1), of "Some (Dir m [])"] r
    by (cases r) (simp_all add: walk_append)
next
  case False
  with assms show ?thesis by (intro walk_put_parallel) (auto simp: parallel_def)
qed

text \<open>The way to \<open>p\<close> is free: what exists on it is a directory.\<close>

definition way_free :: "node \<Rightarrow> string list \<Rightarrow> bool" where
  "way_free fs p \<longleftrightarrow> (\<forall>q. prefix q p \<longrightarrow> dir_in fs q \<or> \<not> exists_in fs q) \<and> (\<forall>n \<in> set p. length n \<le> 255)"

definition dirs_made :: "nat \<Rightarrow> string list \<Rightarrow> node \<Rightarrow> node \<Rightarrow> bool" where
  "dirs_made mode p fs fs' \<longleftrightarrow>
     tree_ok fs' \<and> (\<forall>q. prefix q p \<longrightarrow> dir_in fs' q) \<and> (\<forall>q. \<not> prefix q p \<longrightarrow> walk q fs' = walk q fs) \<and>
     walk p fs' = (if exists_in fs p then walk p fs' else Inr (Dir mode []))"

lemma dir_exists: "dir_in fs p \<Longrightarrow> exists_in fs p"
  by (auto simp: dir_in_def exists_in_def split: sum.splits)

lemma mkdir_step:
  assumes ok: "tree_ok fs" and up: "\<forall>q. strict_prefix q (comps p) \<longrightarrow> dir_in fs q"
    and free: "dir_in fs (comps p) \<or> \<not> exists_in fs (comps p)" "\<forall>n \<in> set (comps p). length n \<le> 255"
  shows "\<exists>fs'. mkdir_one no_faults mode p fs = (0, fs') \<and> dirs_made mode (comps p) fs fs'"
proof (cases "exists_in fs (comps p)")
  case True
  then have "dir_in fs q" if "prefix q (comps p)" for q
    using that up free(1) by (cases "q = comps p") (auto simp: strict_prefix_def)
  with True ok show ?thesis by (simp add: mkdir_one_exists dirs_made_def)
next
  case False
  let ?p = "comps p"
  have ne: "?p \<noteq> []" using False by (auto simp: exists_in_def)
  then have "strict_prefix (butlast ?p) ?p" by (metis append_butlast_last_id not_Cons_self2 strict_prefixI')
  with up have d: "dir_in fs (butlast ?p)" by blast
  then obtain m es where dw: "walk (butlast ?p) fs = Inr (Dir m es)" by (auto elim: dir_inE)
  have v: "vacant ?p fs = 0" using False ne d free(2) by (simp add: vacant_0)
  let ?fs = "put ?p (Some (Dir mode [])) fs"
  have "\<forall>n \<in> set ?p. name_ok n" using free(2) comps_good by (auto simp: name_ok_def)
  then have ok': "tree_ok ?fs" using put_tree_ok [OF ok, of "Some (Dir mode [])" ?p] by simp
  have at: "walk ?p ?fs = Inr (Dir mode [])" using walk_put_same [OF ok dw ne] by simp
  have "dir_in ?fs q" if q: "prefix q ?p" for q
  proof (cases "q = ?p")
    case True
    with at show ?thesis by (auto intro: dir_inI)
  next
    case False
    with q up have "dir_in fs q" by (auto simp: strict_prefix_def)
    then obtain m' es' where w: "walk q fs = Inr (Dir m' es')" by (auto elim: dir_inE)
    from q False obtain r where r: "?p = q @ r" "r \<noteq> []" by (auto simp: prefix_def)
    from walk_put_above [OF ok w r(2)] r obtain n ns where
      "walk q ?fs = Inr (put (n # ns) (Some (Dir mode [])) (Dir m' es'))" by (cases r) auto
    then show ?thesis by (auto simp: dir_in_def split: option.splits)
  qed
  with ok' at walk_put_new [OF ok v] False show ?thesis
    by (auto simp: mkdir_one_vacant [OF v] dirs_made_def)
qed

lemma mkdirs_ok:
  assumes "plain p" "tree_ok fs" "way_free fs (comps p)" "p \<noteq> []"
  shows "\<exists>fs'. each (mkdir_one no_faults mode) (path_prefixes p @ [p]) fs = (0, fs') \<and>
    dirs_made mode (comps p) fs fs'"
  using assms
proof (induction "length p" arbitrary: p rule: less_induct)
  case less
  have single: ?case if c: "path_prefixes p = []" "length (comps p) \<le> 1"
  proof -
    have "dir_in fs q" if "strict_prefix q (comps p)" for q
    proof -
      have "q = []" using that c(2) prefix_length_less [OF that] by (cases q) auto
      moreover have "dir_in fs [] \<or> \<not> exists_in fs []"
        using less.prems(3) unfolding way_free_def by (meson Nil_prefix)
      ultimately show ?thesis by (simp add: exists_in_def)
    qed
    with mkdir_step [of fs p mode] less.prems show ?thesis
      using c(1) by (auto simp: way_free_def)
  qed
  show ?case
  proof (cases p rule: path_cases)
    case name
    then show ?thesis by (intro single) (auto simp: path_prefixes_noslash comps_name)
  next
    case (child d n)
    have pl: "plain d" "plain n" using less.prems(1) child by (auto simp: plain_slash)
    have cp: "comps p = comps d @ comps n" using less.prems(1) child by (simp add: comps_slash)
    have cn: "length (comps n) \<le> 1" using child(2) by (simp add: comps_name)
    show ?thesis
    proof (cases "d = []")
      case True
      with child have "path_prefixes p = []"
        using path_prefixes_slash [OF child(2), of "[]"] by (simp add: path_prefixes_noslash)
      moreover have "comps d = []" using True by (simp add: comps_def)
      ultimately show ?thesis using cp cn by (intro single) simp_all
    next
      case False
      have wd: "way_free fs (comps d)" using less.prems(3) unfolding way_free_def cp by auto
      from less.hyps [of d] child pl(1) less.prems(2) wd False obtain fs1 where
        f1: "each (mkdir_one no_faults mode) (path_prefixes d @ [d]) fs = (0, fs1)" "dirs_made mode (comps d) fs fs1"
        by auto
      have up: "dir_in fs1 q" if "strict_prefix q (comps p)" for q
      proof -
        have "length q \<le> length (comps d)" using prefix_length_less [OF that] cn by (simp add: cp)
        with that have "prefix q (comps d)" unfolding cp by (metis prefix_length_prefix prefix_order.less_imp_le prefixI)
        with f1(2) show ?thesis by (simp add: dirs_made_def)
      qed
      have same: "walk (comps p) fs1 = walk (comps p) fs" if "comps n \<noteq> []"
      proof -
        have "\<not> prefix (comps p) (comps d)" using that prefix_length_le [of "comps p" "comps d"] by (auto simp: cp)
        with f1(2) show ?thesis by (simp add: dirs_made_def)
      qed
      have at: "dir_in fs1 (comps p) \<or> \<not> exists_in fs1 (comps p)"
      proof (cases "comps n = []")
        case True
        with f1(2) show ?thesis by (simp add: cp dirs_made_def)
      next
        case False
        from same [OF False] less.prems(3) show ?thesis
          by (simp add: way_free_def dir_in_def exists_in_def)
      qed
      have ok1: "tree_ok fs1" using f1(2) by (simp add: dirs_made_def)
      obtain fs2 where f2: "mkdir_one no_faults mode p fs1 = (0, fs2)" "dirs_made mode (comps p) fs1 fs2"
        using mkdir_step [OF ok1 _ at, of mode] up less.prems(3) by (auto simp: way_free_def)
      have pre: "path_prefixes p @ [p] = (path_prefixes d @ [d]) @ [p]"
        using child False by (simp add: path_prefixes_slash)
      have "each (mkdir_one no_faults mode) (path_prefixes p @ [p]) fs = (0, fs2)"
        unfolding pre using f1(1) f2(1) by (subst each_append) simp
      moreover have "dirs_made mode (comps p) fs fs2"
      proof -
        have "walk q fs2 = walk q fs" if "\<not> prefix q (comps p)" for q
        proof -
          have "\<not> prefix q (comps d)" using that by (auto simp: cp)
          then show ?thesis using f1(2) f2(2) that by (simp add: dirs_made_def)
        qed
        moreover have "walk (comps p) fs2 = Inr (Dir mode [])" if "\<not> exists_in fs (comps p)"
        proof (cases "comps n = []")
          case True
          with f1(2) that have "walk (comps p) fs1 = Inr (Dir mode [])" by (simp add: dirs_made_def cp)
          moreover from this have "mkdir_one no_faults mode p fs1 = (0, fs1)"
            by (intro mkdir_one_exists) (rule exists_inI)
          ultimately show ?thesis using f2(1) by simp
        next
          case False
          from same [OF this] that f2(2) show ?thesis by (simp add: dirs_made_def exists_in_def)
        qed
        ultimately show ?thesis using f2(2) by (simp add: dirs_made_def)
      qed
      ultimately show ?thesis by blast
    qed
  qed
qed

section \<open>Copies\<close>

text \<open>What a copy of a tree holds: everything but special files.\<close>

fun pruned :: "node \<Rightarrow> node option"
and pruned_entries :: "entries \<Rightarrow> entries" where
  "pruned (Dir m es) = Some (Dir m (pruned_entries es))"
| "pruned (Reg m s) = Some (Reg m s)"
| "pruned (Lnk t) = Some (Lnk (cstr 1024 t))"
| "pruned Special = None"
| "pruned_entries [] = []"
| "pruned_entries ((n, c) # es) =
     (case pruned c of None \<Rightarrow> pruned_entries es | Some d \<Rightarrow> (n, d) # pruned_entries es)"

text \<open>The length of the longest path below a node.\<close>

fun span :: "node \<Rightarrow> nat"
and span_entries :: "entries \<Rightarrow> nat" where
  "span (Dir m es) = span_entries es"
| "span t = 0"
| "span_entries [] = 0"
| "span_entries ((n, c) # es) = max (1 + length n + span c) (span_entries es)"

lemma span_entries_le: "(n, c) \<in> set es \<Longrightarrow> 1 + length n + span c \<le> span_entries es"
  by (induction es) auto

lemma pruned_entries_append: "pruned_entries (es @ fs) = pruned_entries es @ pruned_entries fs"
  by (induction es) (auto split: option.splits)

lemma pruned_entries_names: "fst ` set (pruned_entries es) \<subseteq> fst ` set es"
proof (induction es)
  case (Cons e es)
  show ?case
  proof (cases "pruned (snd e)")
    case None
    with Cons show ?thesis by (cases e) (simp add: subset_insertI2)
  next
    case (Some d)
    with Cons show ?thesis by (cases e) (simp add: subset_insertI2)
  qed
qed simp

lemma distinct_pruned: "distinct (map fst es) \<Longrightarrow> distinct (map fst (pruned_entries es))"
proof (induction es)
  case (Cons e es)
  then have "fst e \<notin> fst ` set (pruned_entries es)"
    using pruned_entries_names [of es] by (simp add: subset_iff) blast
  with Cons show ?case by (cases e) (simp split: option.splits)
qed simp

lemma pruned_ok: "tree_ok t \<Longrightarrow> pred_option tree_ok (pruned t)"
  and pruned_entries_ok: "entries_ok es \<Longrightarrow> entries_ok (pruned_entries es)"
proof (induction t and es rule: pruned_pruned_entries.induct)
  case (6 n c es)
  then show ?case by (cases "pruned c") simp_all
qed (simp_all add: distinct_pruned)

text \<open>The state in which a new entry is copied to \<open>dst\<close>.\<close>

definition ready :: "string \<Rightarrow> node \<Rightarrow> bool" where
  "ready dst fs \<longleftrightarrow> plain dst \<and> vacant (comps dst) fs = 0 \<and> (\<forall>q \<in> set (path_prefixes dst). exists_in fs (comps q))"

definition copied :: "string \<Rightarrow> node \<Rightarrow> node \<Rightarrow> node" where
  "copied dst t fs = (case pruned t of None \<Rightarrow> fs | Some d \<Rightarrow> put (comps dst) (Some d) fs)"

definition copies :: "node \<Rightarrow> bool" where
  "copies t \<longleftrightarrow>
     (\<forall>src dst fs. tree_ok fs \<longrightarrow> walk (comps src) fs = Inr t \<longrightarrow> comps src \<parallel> comps dst \<longrightarrow> ready dst fs \<longrightarrow>
        length src + span t < 1023 \<longrightarrow> length dst + span t < 512 \<longrightarrow>
        storage_copy_tree no_faults src dst fs = (0, copied dst t fs))"

lemma copies_leaf: "(\<And>m es. t \<noteq> Dir m es) \<Longrightarrow> copies t"
  unfolding copies_def
proof (intro allI impI)
  fix src dst fs
  assume t: "\<And>m es. t \<noteq> Dir m es" and w: "walk (comps src) fs = Inr t" and r: "ready dst fs"
  have v: "vacant (comps dst) fs = 0" and n: "\<not> exists_in fs (comps dst)"
    using r by (auto simp: ready_def vacant_0)
  then obtain e where e: "walk (comps dst) fs = Inl e" by (auto simp: exists_in_def split: sum.splits)
  show "storage_copy_tree no_faults src dst fs = (0, copied dst t fs)"
    using w v e
    by (cases t) (simp_all add: t storage_copy_tree.simps lstat_def no_faults_def copied_def storage_copy_file_def
        copy_data_def create_def Let_def)
qed

lemma exists_put:
  assumes "tree_ok fs" "walk (butlast (comps dst)) fs = Inr (Dir m es)" "comps dst \<noteq> []" "plain dst"
    and "q \<in> set (path_prefixes dst @ [dst])" and old: "comps q \<noteq> comps dst \<Longrightarrow> exists_in fs (comps q)"
  shows "exists_in (put (comps dst) (Some x) fs) (comps q)"
proof (cases "comps q = comps dst")
  case True
  with walk_put_same [OF assms(1-3), of "Some x"] show ?thesis by (simp add: exists_in_def)
next
  case False
  have "prefix (comps q) (comps dst)" using assms(5) path_prefixes_prefix [OF assms(4)] by auto
  with False obtain r where r: "comps dst = comps q @ r" "r \<noteq> []" by (auto simp: prefix_def)
  from old [OF False] obtain t where "walk (comps q) fs = Inr t" by (auto elim: exists_inE)
  from walk_put_above [OF assms(1) this r(2)] r(1) show ?thesis by (metis exists_inI)
qed

lemma copy_loop:
  assumes "\<forall>(n, c) \<in> set es. copies c"
    and "tree_ok fs" "walk (butlast (comps dst)) fs = Inr (Dir m1 es1)" "comps dst \<noteq> []" "plain dst"
    and "\<forall>q \<in> set (path_prefixes dst @ [dst]). exists_in fs (comps q)"
    and "\<forall>(n, c) \<in> set es. walk (comps src @ [n]) fs = Inr c \<and> name_ok n \<and> n \<notin> fst ` set d"
    and "comps src \<parallel> comps dst" "distinct (map fst es)" "entries_ok d" "distinct (map fst d)"
    and "length src + span_entries es < 1023" "length dst + span_entries es < 512"
    and "entries_ok es"
  shows "each (\<lambda>n. storage_copy_tree no_faults (join src n) (join dst n)) (map fst es)
      (put (comps dst) (Some (Dir m0 d)) fs) = (0, put (comps dst) (Some (Dir m0 (d @ pruned_entries es))) fs)"
  using assms
proof (induction es arbitrary: d)
  case Nil
  then show ?case by simp
next
  case (Cons e es)
  obtain n c where e: "e = (n, c)" by (cases e)
  let ?D = "comps dst"
  let ?fs = "put ?D (Some (Dir m0 d)) fs"
  have nc: "walk (comps src @ [n]) fs = Inr c" "name_ok n" "n \<notin> fst ` set d" "tree_ok c" "copies c"
    using Cons.prems(1,7,14) e by auto
  have ln: "1 + length n + span c \<le> span_entries (e # es)" by (simp add: e)
  have gd: "\<forall>x \<in> set ?D. name_ok x"
    using Cons.prems(2,6) walk_names by (fastforce elim: exists_inE)
  have okd: "tree_ok (Dir m0 d)" using Cons.prems(10,11) by simp
  have okf: "tree_ok ?fs" using put_tree_ok [OF Cons.prems(2) _ gd, of "Some (Dir m0 d)"] okd by simp
  have D: "walk ?D ?fs = Inr (Dir m0 d)" using walk_put_same [OF Cons.prems(2-4)] by simp
  have lens: "length src + length n < 1022" "length dst + length n < 511"
    using Cons.prems(12,13) ln by auto
  have cs: "comps (join src n) = comps src @ [n]" and cd: "comps (join dst n) = ?D @ [n]"
    and jd: "join dst n = dst @ SLASH # n"
    using lens nc(2) by (auto simp: comps_child join_id)
  have "(comps src @ [n]) \<parallel> ?D" using parallel_append [OF Cons.prems(8), of "[n]" "[]"] by simp
  then have src: "walk (comps (join src n)) ?fs = Inr c"
    using walk_put_parallel [OF Cons.prems(2)] nc(1) parallel_commute by (metis cs)
  have ex: "exists_in ?fs (comps q)" if "q \<in> set (path_prefixes dst @ [dst])" for q
    using exists_put [OF Cons.prems(2-5) that] Cons.prems(6) that by blast
  have sl: "SLASH \<notin> set n" and n255: "length n \<le> 255" using nc(2) by (auto simp: name_ok_def)
  have none: "map_of d n = None" using nc(3) by (auto simp: map_of_eq_None_iff)
  have rd: "ready (join dst n) ?fs"
    unfolding ready_def
  proof (intro conjI)
    show "plain (join dst n)" using Cons.prems(5) nc(2) by (simp add: jd plain_slash plain_name)
    show "vacant (comps (join dst n)) ?fs = 0"
      unfolding cd vacant_0 using D none n255 walk_last [of "?D @ [n]" ?fs m0 d]
      by (simp add: dir_in_def exists_in_def)
    show "\<forall>q \<in> set (path_prefixes (join dst n)). exists_in ?fs (comps q)"
      unfolding jd path_prefixes_slash [OF sl] using ex by auto
  qed
  have par: "comps (join src n) \<parallel> comps (join dst n)"
    unfolding cs cd by (rule parallel_append [OF Cons.prems(8)])
  have step: "storage_copy_tree no_faults (join src n) (join dst n) ?fs = (0, copied (join dst n) c ?fs)"
    using nc(5) okf src par rd ln Cons.prems(12,13) lens unfolding copies_def
    by (simp add: join_id)
  let ?d = "d @ pruned_entries [(n, c)]"
  have nx: "copied (join dst n) c ?fs = put ?D (Some (Dir m0 ?d)) fs"
    using nc(3) put_below [OF Cons.prems(2-4), of "[n]"]
    by (auto simp: copied_def cd set_entry_new split: option.splits)
  have nd: "fst ` set ?d \<subseteq> insert n (fst ` set d)" by (auto split: option.splits)
  have "each (\<lambda>n. storage_copy_tree no_faults (join src n) (join dst n)) (map fst es) (put ?D (Some (Dir m0 ?d)) fs)
    = (0, put ?D (Some (Dir m0 (?d @ pruned_entries es))) fs)"
  proof (rule Cons.IH)
    show "\<forall>(k, x) \<in> set es. walk (comps src @ [k]) fs = Inr x \<and> name_ok k \<and> k \<notin> fst ` set ?d"
    proof (intro ballI, clarify)
      fix k x
      assume kx: "(k, x) \<in> set es"
      then have "k \<noteq> n" using Cons.prems(9) e by (force simp: image_iff)
      moreover have "walk (comps src @ [k]) fs = Inr x" "name_ok k" "k \<notin> fst ` set d"
        using Cons.prems(7) kx e by auto
      ultimately show "walk (comps src @ [k]) fs = Inr x \<and> name_ok k \<and> k \<notin> fst ` set ?d"
        using nd by blast
    qed
    show "entries_ok ?d" using Cons.prems(10) nc(2) pruned_entries_ok [of "[(n, c)]"] nc(4)
      by (auto simp: entries_ok_iff)
    show "distinct (map fst ?d)" using Cons.prems(11) nc(3) by (auto split: option.splits)
  qed (use Cons.prems e in auto)
  then show ?case
    using step by (simp add: e nx pruned_entries_append [of "[(n, c)]", simplified, symmetric])
qed

lemma walk_up:
  assumes "walk p t = Inr c" "p \<noteq> []"
  shows "dir_in t (butlast p)"
proof -
  have "walk (butlast p @ [last p]) t = Inr c" using assms by simp
  then obtain d where "walk (butlast p) t = Inr d" "walk [last p] d = Inr c"
    unfolding walk_append by (auto split: sum.splits)
  then show ?thesis by (cases d) (auto simp: dir_in_def)
qed

lemma copy_dir:
  assumes "\<forall>(n, c) \<in> set es. copies c"
    and mk: "storage_mkdir_p no_faults dst 448 fs = (0, fs1)"
    and src: "walk (comps src) fs = Inr (Dir m es')" "walk (comps src) fs1 = Inr (Dir m es)"
    and ok: "tree_ok fs1" and dst: "walk (comps dst) fs1 = Inr (Dir m1 [])" "comps dst \<noteq> []" "plain dst"
    and ex: "\<forall>q \<in> set (path_prefixes dst @ [dst]). exists_in fs1 (comps q)"
    and par: "comps src \<parallel> comps dst"
    and len: "length src + span_entries es < 1023" "length dst + span_entries es < 512"
  shows "storage_copy_tree no_faults src dst fs = (0, put (comps dst) (Some (Dir m (pruned_entries es))) fs1)"
proof -
  let ?D = "comps dst"
  obtain m2 es2 where up: "walk (butlast ?D) fs1 = Inr (Dir m2 es2)"
    using walk_up [OF dst(1,2)] by (auto elim: dir_inE)
  have es: "entries_ok es" "distinct (map fst es)" using walk_tree_ok [OF ok src(2)] by auto
  have kids: "\<forall>(n, c) \<in> set es. walk (comps src @ [n]) fs1 = Inr c \<and> name_ok n \<and> n \<notin> fst ` set []"
    using src(2) es by (auto simp: walk_append entries_ok_iff)
  have "each (\<lambda>n. storage_copy_tree no_faults (join src n) (join dst n)) (map fst es) (put ?D (Some (Dir m1 [])) fs1)
      = (0, put ?D (Some (Dir m1 ([] @ pruned_entries es))) fs1)"
    by (rule copy_loop [OF assms(1) ok up dst(2,3) ex kids par es(2) _ _ len es(1)]) simp_all
  then have loop: "each (\<lambda>n. storage_copy_tree no_faults (join src n) (join dst n)) (map fst es) fs1
      = (0, put ?D (Some (Dir m1 (pruned_entries es))) fs1)"
    by (simp add: put_id [OF ok dst(1)])
  have ch: "chmod dst m (put ?D (Some (Dir m1 (pruned_entries es))) fs1) = put ?D (Some (Dir m (pruned_entries es))) fs1"
    using walk_put_same [OF ok up dst(2)] put_put [OF ok up dst(2)] by (simp add: chmod_def)
  show ?thesis
    using src mk loop ch
    by (subst storage_copy_tree.simps) (simp add: lstat_def opendir_def no_faults_def)
qed

lemma mkdir_p_intro:
  assumes "length p < 512" "each (mkdir_one no_faults mode) (path_prefixes p @ [p]) fs = (0, fs')" "dir_in fs' (comps p)"
  shows "storage_mkdir_p no_faults p mode fs = (0, fs')"
  using assms by (auto simp: storage_mkdir_p_def lstat_def no_faults_def elim: dir_inE)

lemma all_copies: "copies t"
proof (induction t)
  case (Dir m es)
  have kids: "\<forall>(n, c) \<in> set es. copies c" using Dir by (auto simp: snds.simps)
  show ?case
    unfolding copies_def
  proof (intro allI impI)
    fix src dst fs
    assume ok: "tree_ok fs" and w: "walk (comps src) fs = Inr (Dir m es)" and par: "comps src \<parallel> comps dst"
      and rd: "ready dst fs" and len: "length src + span (Dir m es) < 1023" "length dst + span (Dir m es) < 512"
    let ?D = "comps dst" and ?fs = "put (comps dst) (Some (Dir 448 [])) fs"
    have v: "vacant ?D fs = 0" and pl: "plain dst" and pre: "\<forall>q \<in> set (path_prefixes dst). exists_in fs (comps q)"
      using rd by (auto simp: ready_def)
    then have D: "?D \<noteq> []" "dir_in fs (butlast ?D)" "length (last ?D) \<le> 255" by (auto simp: vacant_0)
    from D(2) obtain m2 es2 where up: "walk (butlast ?D) fs = Inr (Dir m2 es2)" by (auto elim: dir_inE)
    have at: "walk ?D ?fs = Inr (Dir 448 [])" using walk_put_same [OF ok up D(1)] by simp
    have mk: "storage_mkdir_p no_faults dst 448 fs = (0, ?fs)"
      using len each_mkdir_exists [OF pre] mkdir_one_vacant [OF v] at
      by (intro mkdir_p_intro) (auto simp: each_append dir_in_def)
    have names: "\<forall>x \<in> set ?D. name_ok x"
    proof -
      have "\<forall>x \<in> set (butlast ?D). name_ok x" using walk_names [OF up ok] .
      moreover have "name_ok (last ?D)" using comps_good [of "last ?D" dst] D(1,3) by (simp add: name_ok_def)
      ultimately show ?thesis using D(1) by (metis append_butlast_last_id in_set_conv_decomp_first rotate1.simps(2) set_ConsD set_rotate1)
    qed
    have ok1: "tree_ok ?fs" using put_tree_ok [OF ok _ names, of "Some (Dir 448 [])"] by simp
    have src1: "walk (comps src) ?fs = Inr (Dir m es)"
      using w walk_put_new [OF ok v] par by (auto simp: parallel_def)
    have ex: "\<forall>q \<in> set (path_prefixes dst @ [dst]). exists_in ?fs (comps q)"
      using exists_put [OF ok up D(1) pl] pre by auto
    have "put ?D (Some (Dir m (pruned_entries es))) ?fs = copied dst (Dir m es) fs"
      using put_put [OF ok up D(1)] by (simp add: copied_def)
    with copy_dir [OF kids mk w src1 ok1 at D(1) pl ex par] len
    show "storage_copy_tree no_faults src dst fs = (0, copied dst (Dir m es) fs)" by simp
  qed
qed (simp_all add: copies_leaf)

section \<open>Removing and clearing\<close>

lemma rm_no_faults:
  "(\<forall>q. os REMOVE q = 0) \<Longrightarrow> rm_node os p t = (0, None)"
  "(\<forall>q. os REMOVE q = 0) \<Longrightarrow> rm_entries os p es = (0, [])"
  by (induction os p t and os p es rule: rm_node_rm_entries.induct) auto

lemma rm_node_no_faults: "rm_node no_faults p t = (0, None)"
  by (rule rm_no_faults) (simp add: no_faults_def)

lemma rm_rf_no_faults:
  "walk (comps p) fs = Inr t \<Longrightarrow> comps p \<noteq> [] \<Longrightarrow> storage_rm_rf no_faults p fs = (0, put (comps p) None fs)"
  by (simp add: storage_rm_rf_def rm_node_no_faults)

lemma clear_one_ok:
  assumes "walk (comps path) fs = Inr (Dir m ((n, c) # es))" "name_ok n" "length path + length n < 1023"
  shows "clear_one no_faults path n fs = (0, put (comps path @ [n]) None fs)"
proof -
  have w: "walk (comps path @ [n]) fs = Inr c" using assms(1) by (simp add: walk_append)
  show ?thesis
    using w comps_join [OF assms(2), of path] assms(3)
    by (cases c) (auto simp: clear_one_def Let_def lstat_def no_faults_def rm_rf_no_faults [unfolded no_faults_def] remove_def)
qed

lemma clear_loop:
  assumes "tree_ok fs" "walk (butlast (comps path)) fs = Inr (Dir m1 es1)" "comps path \<noteq> []"
    and "tree_ok (Dir m es)" "\<forall>n \<in> fst ` set es. length path + length n < 1023"
  shows "each (clear_one no_faults path) (map fst es) (put (comps path) (Some (Dir m es)) fs)
    = (0, put (comps path) (Some (Dir m [])) fs)"
  using assms(4,5)
proof (induction es)
  case (Cons e es)
  obtain n c where e: "e = (n, c)" by (cases e)
  let ?fs = "\<lambda>es. put (comps path) (Some (Dir m es)) fs"
  have "walk (comps path) (?fs (e # es)) = Inr (Dir m ((n, c) # es))"
    using walk_put_same [OF assms(1-3)] e by simp
  then have "clear_one no_faults path n (?fs (e # es)) = (0, put (comps path @ [n]) None (?fs (e # es)))"
    by (rule clear_one_ok) (use Cons.prems e in auto)
  also have "put (comps path @ [n]) None (?fs (e # es)) = ?fs es"
    using put_below [OF assms(1-3), of "[n]"] by (simp add: e)
  finally show ?case using Cons e by simp
qed simp

lemma dir_clear_ok:
  assumes "tree_ok fs" "walk (comps path) fs = Inr (Dir m es)" "comps path \<noteq> []" "length path < 512"
  shows "storage_dir_clear no_faults path fs = (0, put (comps path) (Some (Dir m [])) fs)"
proof -
  obtain m1 es1 where up: "walk (butlast (comps path)) fs = Inr (Dir m1 es1)"
    using walk_up [OF assms(2,3)] by (auto elim: dir_inE)
  have ok: "tree_ok (Dir m es)" by (rule walk_tree_ok [OF assms(1,2)])
  then have "\<forall>n \<in> fst ` set es. length path + length n < 1023"
    using assms(4) by (fastforce simp: entries_ok_iff name_ok_def)
  from clear_loop [OF assms(1) up assms(3) ok this] show ?thesis
    using assms(2) by (simp add: storage_dir_clear_def opendir_def no_faults_def put_id [OF assms(1,2)])
qed

end
