(* ===== verification/SpUtil.thy ===== *)
theory SpUtil
  imports Interfaces
begin

text \<open>
  The text helpers of the SP plugin, \<^verbatim>\<open>sp/src/sp_util.c\<close>: quoting an argument for the shell, hexadecimal
  encoding, and the comparison in constant time.

  Bytes are \<^typ>\<open>8 word\<close>.  The section on the shell states what a POSIX shell makes of single quotes and
  backslashes; it is the specification \<open>sp_q\<close> is checked against.
\<close>

abbreviation SP_OK :: int where "SP_OK \<equiv> 0"
abbreviation SP_EBADCRED :: int where "SP_EBADCRED \<equiv> - 1"
abbreviation SP_ENOTFOUND :: int where "SP_ENOTFOUND \<equiv> - 2"
abbreviation SP_ENOMEM :: int where "SP_ENOMEM \<equiv> - 3"
abbreviation SP_EEXIST :: int where "SP_EEXIST \<equiv> - 4"
abbreviation SP_EINVAL :: int where "SP_EINVAL \<equiv> - 5"
abbreviation SP_EACCES :: int where "SP_EACCES \<equiv> - 7"
abbreviation SP_EIO :: int where "SP_EIO \<equiv> - 9"

abbreviation SQ :: char where "SQ \<equiv> CHR 0x27"
abbreviation BSLASH :: char where "BSLASH \<equiv> CHR 0x5C"

section \<open>Quoting for the shell\<close>

fun q_loop :: "nat \<Rightarrow> string \<Rightarrow> string \<Rightarrow> string" where
  "q_loop cap buf [] = buf"
| "q_loop cap buf (c # s) =
     (if length buf + 6 < cap
      then q_loop cap (buf @ (if c = SQ then [SQ, BSLASH, SQ, SQ] else [c])) s
      else buf)"

definition sp_q :: "string option \<Rightarrow> nat \<Rightarrow> string option" where
  "sp_q s cap =
     (case s of
        None \<Rightarrow> None
      | Some s \<Rightarrow>
          if cap = 0 then None
          else
            let b = q_loop cap [SQ] s in
            if length b + 2 > cap then None else Some (b @ [SQ]))"

subsection \<open>What the shell reads\<close>

text \<open>
  The value of a word made of single-quoted parts and escaped characters only; \<^const>\<open>None\<close> for anything
  else: a quote left open, or a character outside quotes, where the shell would expand, split or end the
  word.
\<close>

fun sh_bare :: "string \<Rightarrow> string option" and sh_quoted :: "string \<Rightarrow> string option" where
  "sh_bare [] = Some []"
| "sh_bare (c # t) =
     (if c = SQ then sh_quoted t
      else if c = BSLASH then
        (case t of [] \<Rightarrow> None | d # u \<Rightarrow> if d = NL then None else map_option (\<lambda>r. d # r) (sh_bare u))
      else None)"
| "sh_quoted [] = None"
| "sh_quoted (c # t) = (if c = SQ then sh_bare t else map_option (\<lambda>r. c # r) (sh_quoted t))"

text \<open>A part of a single-quoted word: reading on from it gives \<open>s\<close> before the rest.\<close>

definition quotes :: "string \<Rightarrow> string \<Rightarrow> bool" where
  "quotes b s \<longleftrightarrow> (\<forall>t. sh_bare (b @ t) = map_option (\<lambda>r. s @ r) (sh_quoted t))"

lemma quotes_start: "quotes [SQ] []"
  by (simp add: quotes_def option.map_id0 flip: id_def)

lemma quotes_step:
  "quotes b s \<Longrightarrow> quotes (b @ (if c = SQ then [SQ, BSLASH, SQ, SQ] else [c])) (s @ [c])"
  by (simp add: quotes_def option.map_comp comp_def)

lemma q_loop_quotes:
  "quotes b p \<Longrightarrow> length b + 2 \<le> cap \<Longrightarrow>
     \<exists>k. quotes (q_loop cap b s) (p @ take k s) \<and> length (q_loop cap b s) + 2 \<le> cap \<and>
       (length b + 4 * length s + 2 < cap \<longrightarrow> k = length s)"
proof (induction s arbitrary: b p)
  case Nil
  then show ?case by (intro exI [of _ 0]) simp
next
  case (Cons c s)
  show ?case
  proof (cases "length b + 6 < cap")
    case True
    let ?b = "b @ (if c = SQ then [SQ, BSLASH, SQ, SQ] else [c])"
    have "length ?b + 2 \<le> cap" using True by simp
    from Cons.IH [OF quotes_step [OF Cons.prems(1)] this] obtain k where
      k: "quotes (q_loop cap ?b s) ((p @ [c]) @ take k s)" "length (q_loop cap ?b s) + 2 \<le> cap"
        "length ?b + 4 * length s + 2 < cap \<longrightarrow> k = length s" by blast
    have "length b + 4 * length (c # s) + 2 < cap \<longrightarrow> Suc k = length (c # s)"
      using k(3) by (auto split: if_splits)
    with k(1,2) True show ?thesis by (intro exI [of _ "Suc k"]) simp
  next
    case False
    with Cons.prems show ?thesis by (intro exI [of _ 0]) simp
  qed
qed

lemma sp_q_reads:
  assumes "sp_q (Some s) cap = Some q"
  shows "\<exists>k. sh_bare q = Some (take k s) \<and> length q < cap \<and> (4 * length s + 3 < cap \<longrightarrow> k = length s)"
proof -
  let ?b = "q_loop cap [SQ] s"
  have q: "q = ?b @ [SQ]" "length ?b + 2 \<le> cap"
    using assms by (auto simp: sp_q_def Let_def split: if_splits)
  have "length ?b \<ge> 1"
  proof -
    have "length b \<le> length (q_loop cap b s)" for b
    proof (induction s arbitrary: b)
      case (Cons c s)
      from Cons.IH [of "b @ (if c = SQ then [SQ, BSLASH, SQ, SQ] else [c])"] show ?case by auto
    qed simp
    from this [of "[SQ]"] show ?thesis by simp
  qed
  then have "length [SQ] + 2 \<le> cap" using q(2) by simp
  from q_loop_quotes [OF quotes_start this, of s] obtain k where
    k: "quotes ?b (take k s)" "length [SQ] + 4 * length s + 2 < cap \<longrightarrow> k = length s" by auto
  have "sh_bare q = Some (take k s)" using k(1) unfolding q(1) quotes_def by simp
  moreover have "length q < cap" using q by simp
  ultimately show ?thesis using k(2) by auto
qed

section \<open>Hexadecimal text\<close>

definition hex_digit :: "byte \<Rightarrow> char" where
  "hex_digit w = ''0123456789abcdef'' ! unat w"

definition sp_to_hex :: "byte list \<Rightarrow> string" where
  "sp_to_hex bs = concat (map (\<lambda>b. [hex_digit (drop_bit 4 b), hex_digit (and b 15)]) bs)"

definition hex_val :: "char \<Rightarrow> byte option" where
  "hex_val c =
     (let n = of_char c :: nat in
      if 48 \<le> n \<and> n \<le> 57 then Some (of_nat (n - 48))
      else if 97 \<le> n \<and> n \<le> 102 then Some (of_nat (n - 97 + 10))
      else if 65 \<le> n \<and> n \<le> 70 then Some (of_nat (n - 65 + 10))
      else None)"

fun hex_bytes :: "string \<Rightarrow> byte list option" where
  "hex_bytes (a # b # s) =
     (case hex_val a of
        None \<Rightarrow> None
      | Some hi \<Rightarrow>
          (case hex_val b of
             None \<Rightarrow> None
           | Some lo \<Rightarrow> map_option (\<lambda>bs. or (push_bit 4 hi) lo # bs) (hex_bytes s)))"
| "hex_bytes _ = Some []"

definition sp_from_hex :: "string \<Rightarrow> nat \<Rightarrow> int + byte list" where
  "sp_from_hex hex out_cap =
     (if length hex mod 2 \<noteq> 0 then Inl SP_EINVAL
      else if length hex div 2 > out_cap then Inl SP_ENOMEM
      else (case hex_bytes hex of None \<Rightarrow> Inl SP_EINVAL | Some bs \<Rightarrow> Inr bs))"

lemma hex_val_digit:
  assumes "unat w < 16"
  shows "hex_val (hex_digit w) = Some w"
proof -
  have "\<forall>n \<in> set [0..<16]. hex_val (''0123456789abcdef'' ! n) = Some (of_nat n)" by code_simp
  then have "hex_val (hex_digit w) = Some (of_nat (unat w))" using assms unfolding hex_digit_def by simp
  then show ?thesis by simp
qed

lemma nibbles: "or (push_bit 4 (drop_bit 4 b)) (and b 15) = (b :: byte)"
proof -
  have m: "and b 15 = take_bit 4 b" by (simp add: take_bit_eq_mask mask_eq_exp_minus_1)
  show ?thesis
  proof (rule bit_eqI)
    fix n
    show "bit (or (push_bit 4 (drop_bit 4 b)) (and b 15)) n = bit b n"
      unfolding m by (cases "n < 4") (auto simp: bit_simps dest: bit_imp_le_length)
  qed
qed

lemma nibble_bounds: "unat (drop_bit 4 (b :: byte)) < 16" "unat (and (b :: byte) 15) < 16"
proof -
  have "unat b < 2 ^ 8" using unsigned_less [of b] by simp
  moreover have "unat (drop_bit 4 b) = unat b div 2 ^ 4" by (simp only: unat_drop_bit_eq) (simp only: drop_bit_eq_div)
  ultimately show "unat (drop_bit 4 b) < 16" by simp
  have "and b 15 = take_bit 4 b" by (simp add: take_bit_eq_mask mask_eq_exp_minus_1)
  then have "unat (and b 15) = take_bit 4 (unat b)" by (simp only: unsigned_take_bit_eq)
  then show "unat (and b 15) < 16" by (simp add: take_bit_eq_mod)
qed

lemma hex_bytes_to_hex: "hex_bytes (sp_to_hex bs) = Some bs"
  by (induction bs) (simp_all add: sp_to_hex_def hex_val_digit nibble_bounds nibbles)

lemma length_to_hex [simp]: "length (sp_to_hex bs) = 2 * length bs"
  by (induction bs) (simp_all add: sp_to_hex_def)

lemma sp_hex_roundtrip: "length bs \<le> cap \<Longrightarrow> sp_from_hex (sp_to_hex bs) cap = Inr bs"
  by (simp add: sp_from_hex_def hex_bytes_to_hex)

definition is_hex :: "char \<Rightarrow> bool" where
  "is_hex c \<longleftrightarrow> c \<in> set ''0123456789abcdef''"

lemma set_to_hex: "c \<in> set (sp_to_hex bs) \<Longrightarrow> is_hex c"
proof (induction bs)
  case (Cons b bs)
  have "is_hex (hex_digit w)" if "unat w < 16" for w :: byte
    unfolding is_hex_def hex_digit_def by (rule nth_mem) (use that in simp)
  with Cons show ?case by (auto simp: sp_to_hex_def nibble_bounds)
qed (simp add: sp_to_hex_def)

lemma to_hex_inj: "sp_to_hex a = sp_to_hex b \<Longrightarrow> a = b"
  by (metis hex_bytes_to_hex option.inject)

section \<open>Comparison in constant time\<close>

text \<open>The bytes of a text.\<close>

definition chars_bytes :: "string \<Rightarrow> byte list" where
  "chars_bytes s = map of_char s"

lemma unat_of_char: "unat (of_char c :: byte) = of_char c"
proof -
  have "unat (of_nat (of_char c) :: byte) = of_char c" by (simp add: unat_of_nat)
  then show ?thesis by (simp only: of_nat_of_char)
qed

lemma chars_bytes_inj: "chars_bytes a = chars_bytes b \<Longrightarrow> a = b"
proof -
  have "inj (of_char :: char \<Rightarrow> byte)" by (rule injI) (metis of_char_eqI unat_of_char)
  then show "chars_bytes a = chars_bytes b \<Longrightarrow> a = b" by (simp add: chars_bytes_def)
qed

definition sp_ct_eq :: "byte list \<Rightarrow> byte list \<Rightarrow> nat \<Rightarrow> int" where
  "sp_ct_eq a b n = (if foldl (\<lambda>d i. or d (xor (a ! i) (b ! i))) 0 [0..<n] = 0 then 0 else 1)"

lemma or_eq_0: "or x y = 0 \<longleftrightarrow> x = 0 \<and> y = (0 :: byte)"
  by (auto simp: bit_eq_iff bit_simps)

lemma xor_eq_0: "xor x y = 0 \<longleftrightarrow> x = (y :: byte)"
  by (auto simp: bit_eq_iff bit_simps)

lemma ct_diff_0: "foldl (\<lambda>d i. or d (xor (a ! i) (b ! i))) 0 [0..<n] = (0 :: byte) \<longleftrightarrow> (\<forall>i < n. a ! i = b ! i)"
  by (induction n) (auto simp: or_eq_0 xor_eq_0 less_Suc_eq)

lemma sp_ct_eq_iff: "n \<le> length a \<Longrightarrow> n \<le> length b \<Longrightarrow> sp_ct_eq a b n = 0 \<longleftrightarrow> take n a = take n b"
  by (auto simp: sp_ct_eq_def ct_diff_0 list_eq_iff_nth_eq)

section \<open>Properties\<close>

text \<open>
  C31. Whatever the argument is, a quoted argument fits its buffer and is read by the shell as one
  literal word, a prefix of the argument; it is the whole argument when the buffer has four bytes for
  each character and three more.
\<close>

theorem sp_q_safe:
  assumes "sp_q (Some s) cap = Some q"
  shows "length q < cap \<and> (\<exists>w. sh_bare q = Some w \<and> prefix w s \<and> (4 * length s + 3 < cap \<longrightarrow> w = s))"
  using sp_q_reads [OF assms] by (auto simp: take_is_prefix)

theorem sp_q_safe_witness:
  "\<exists>q. sp_q (Some (''a'' @ [SQ] @ ''; rm -rf /'')) 80 = Some q \<and> sh_bare q = Some (''a'' @ [SQ] @ ''; rm -rf /'')"
proof -
  obtain q where q: "sp_q (Some (''a'' @ [SQ] @ ''; rm -rf /'')) 80 = Some q"
    by (simp add: sp_q_def Let_def)
  from sp_q_safe [OF q] q show ?thesis by auto
qed

end
