(* ===== verification/Storage.thy ===== *)
theory Storage
  imports FileTree SpUtil
begin

text \<open>
  The STORAGE plugin, \<^verbatim>\<open>storage/src/storage_impl.c\<close>: volumes are directories, snapshots are copies of
  them; both are registered in linked lists that a state file keeps across restarts.

  The state of the plugin is the record \<open>storage\<close>: the registry (\<^verbatim>\<open>g_ctx\<close>) with the tree of files and
  the content of the state file, which is kept apart from the tree.  Every operation returns its code,
  what it writes to the caller and the new state.  The failures of system calls come from the oracle
  \<open>os\<close>, those of \<^verbatim>\<open>calloc\<close> from a flag, random bytes and the clock are arguments.  The lock is left out,
  except that a snapshot is taken outside of it: what other threads do meanwhile is the argument
  \<open>others\<close> of \<open>storage_snapshot_create\<close>.
\<close>

section \<open>The registry\<close>

record volume =
  v_id :: string
  v_name :: string
  v_path :: string
  v_desc :: string
  v_limit :: nat
  v_created :: nat
  v_readonly :: int

record snapshot =
  s_id :: string
  s_name :: string
  s_volume :: string
  s_path :: string
  s_created :: nat
  s_active :: int

record storage =
  st_initialized :: bool
  st_dir :: string
  st_file :: string
  st_volumes :: "volume list"
  st_snapshots :: "snapshot list"
  st_fs :: node
  st_state :: "string option"

definition blank_char :: "char \<Rightarrow> bool" where
  "blank_char c \<longleftrightarrow> c \<in> {CHR '' '', TAB, CR, NL}"

definition storage_strtrim :: "string \<Rightarrow> string" where
  "storage_strtrim s = trim_by blank_char s"

text \<open>Missing random bytes are filled from the clock and the process id by a linear congruence.\<close>

fun fill_bytes :: "nat \<Rightarrow> 64 word \<Rightarrow> byte list" where
  "fill_bytes 0 x = []"
| "fill_bytes (Suc k) x =
     (let x' = x * 6364136223846793005 + 1442695040888963407
      in ucast (drop_bit 40 x') # fill_bytes k x')"

definition storage_gen_id :: "byte list \<Rightarrow> 64 word \<Rightarrow> 64 word \<Rightarrow> string" where
  "storage_gen_id rnd now pid =
     (let b = take 16 rnd;
          x = xor now (push_bit 32 pid) + of_nat (length b)
      in sp_to_hex (b @ fill_bytes (16 - length b) x))"

definition storage_valid_label :: "string option \<Rightarrow> nat \<Rightarrow> rc" where
  "storage_valid_label s max_len =
     (case s of
        None \<Rightarrow> EINVAL
      | Some t \<Rightarrow>
          if t = [] then EINVAL
          else if length t \<ge> max_len then ENAMETOOLONG
          else if \<exists>c \<in> set t. c = SLASH \<or> c = NL \<or> c = CR \<or> of_char c < (0x20 :: nat) then EINVAL
          else if t = ''.'' \<or> t = ''..'' then EINVAL
          else 0)"

definition storage_valid_path :: "string option \<Rightarrow> rc" where
  "storage_valid_path s =
     (case s of
        None \<Rightarrow> EINVAL
      | Some t \<Rightarrow>
          if t = [] then EINVAL
          else if length t \<ge> 512 then ENAMETOOLONG
          else if hd t \<noteq> SLASH then EINVAL
          else if NL \<in> set t \<or> CR \<in> set t then EINVAL
          else 0)"

definition storage_sanitize_desc :: "nat \<Rightarrow> string option \<Rightarrow> string" where
  "storage_sanitize_desc cap s =
     (case s of None \<Rightarrow> [] | Some t \<Rightarrow> take (cap - 1) (filter (\<lambda>c. c \<noteq> NL \<and> c \<noteq> CR) t))"

definition is_volume :: "string \<Rightarrow> volume \<Rightarrow> bool" where
  "is_volume x v \<longleftrightarrow> v_id v = x \<or> v_name v = x"

definition is_snapshot :: "string \<Rightarrow> snapshot \<Rightarrow> bool" where
  "is_snapshot x s \<longleftrightarrow> s_id s = x \<or> s_name s = x"

definition storage_find_volume :: "storage \<Rightarrow> string \<Rightarrow> volume option" where
  "storage_find_volume g x = find (is_volume x) (st_volumes g)"

definition storage_find_snapshot :: "storage \<Rightarrow> string \<Rightarrow> snapshot option" where
  "storage_find_snapshot g x = find (is_snapshot x) (st_snapshots g)"

definition storage_find_snapshot_in :: "storage \<Rightarrow> string \<Rightarrow> string \<Rightarrow> snapshot option" where
  "storage_find_snapshot_in g vol name = find (\<lambda>s. s_volume s = vol \<and> s_name s = name) (st_snapshots g)"

definition is_dir :: "rc + node \<Rightarrow> bool" where
  "is_dir r = (case r of Inr (Dir _ _) \<Rightarrow> True | _ \<Rightarrow> False)"

text \<open>What the caller gets of a volume: its record and whether its directory exists.\<close>

definition storage_vol_fill :: "osenv \<Rightarrow> storage \<Rightarrow> volume \<Rightarrow> volume \<times> bool" where
  "storage_vol_fill os g v = (v, is_dir (lstat os (st_fs g) (v_path v)))"

section \<open>The state file\<close>

text \<open>The two comment lines of the file, in UTF-8.\<close>

definition storage_header1 :: string where
  "storage_header1 =
   ''# HWRun OS STORAGE '' @
   [CHR 0xE6, CHR 0xB3, CHR 0xA8, CHR 0xE5, CHR 0x86, CHR 0x8C, CHR 0xE8, CHR 0xA1, CHR 0xA8,
      CHR 0xE7, CHR 0x8A, CHR 0xB6, CHR 0xE6, CHR 0x80, CHR 0x81, CHR 0xE6, CHR 0x96, CHR 0x87,
      CHR 0xE4, CHR 0xBB, CHR 0xB6, CHR 0xEF, CHR 0xBC, CHR 0x88, CHR 0xE5, CHR 0x8F, CHR 0xAF,
      CHR 0xE8, CHR 0xAF, CHR 0xBB, CHR 0xE6, CHR 0xA0, CHR 0xBC, CHR 0xE5, CHR 0xBC, CHR 0x8F,
      CHR 0xEF, CHR 0xBC, CHR 0x8C] @
   ''v1'' @
   [CHR 0xEF, CHR 0xBC, CHR 0x89]"

definition storage_header2 :: string where
  "storage_header2 =
   ''# '' @
   [CHR 0xE8, CHR 0x87, CHR 0xAA, CHR 0xE5, CHR 0x8A, CHR 0xA8, CHR 0xE7, CHR 0x94, CHR 0x9F,
      CHR 0xE6, CHR 0x88, CHR 0x90, CHR 0xEF, CHR 0xBC, CHR 0x8C, CHR 0xE5, CHR 0x8B, CHR 0xBF,
      CHR 0xE6, CHR 0x89, CHR 0x8B, CHR 0xE6, CHR 0x94, CHR 0xB9, CHR 0xEF, CHR 0xBC, CHR 0x9B,
      CHR 0xE5, CHR 0x9D, CHR 0x97, CHR 0xE9, CHR 0x97, CHR 0xB4, CHR 0xE4, CHR 0xBB, CHR 0xA5,
      CHR 0xE7, CHR 0xA9, CHR 0xBA, CHR 0xE8, CHR 0xA1, CHR 0x8C, CHR 0xE5, CHR 0x88, CHR 0x86,
      CHR 0xE9, CHR 0x9A, CHR 0x94]"

definition vol_lines :: "volume \<Rightarrow> string list" where
  "vol_lines v =
     [''volume'', ''id='' @ v_id v, ''name='' @ v_name v, ''path='' @ v_path v,
      ''size_limit='' @ show_nat (v_limit v), ''readonly='' @ show_int (v_readonly v),
      ''created_at='' @ show_nat (v_created v), ''description='' @ v_desc v, []]"

definition snap_lines :: "snapshot \<Rightarrow> string list" where
  "snap_lines s =
     [''snapshot'', ''id='' @ s_id s, ''name='' @ s_name s, ''volume='' @ s_volume s, ''path='' @ s_path s,
      ''created_at='' @ show_nat (s_created s), ''active='' @ show_int (s_active s), []]"

definition registry_text :: "volume list \<Rightarrow> snapshot list \<Rightarrow> string" where
  "registry_text vs ss =
     concat (map (\<lambda>l. l @ [NL])
       ([storage_header1, storage_header2, []] @ concat (map vol_lines vs) @ concat (map snap_lines ss)))"

definition storage_persist :: "osenv \<Rightarrow> storage \<Rightarrow> rc \<times> storage" where
  "storage_persist os g =
     (if st_dir g = [] then (EINVAL, g)
      else
        (case storage_mkdir_p os (st_dir g) 493 (st_fs g) of
           (rc, fs) \<Rightarrow>
             let g1 = g\<lparr>st_fs := fs\<rparr>; tmp = comps (cstr 512 (st_dir g @ ''/storage.state.tmp'')) in
             if rc \<noteq> 0 then (rc, g1)
             else if os OPEN tmp \<noteq> 0 then (os OPEN tmp, g1)
             else if os WRITE tmp \<noteq> 0 then (EIO, g1)
             else if os RENAME (comps (st_file g)) \<noteq> 0 then (os RENAME (comps (st_file g)), g1)
             else (0, g1\<lparr>st_state := Some (registry_text (st_volumes g) (st_snapshots g))\<rparr>)))"

datatype rec_kind = REC_NONE | REC_VOL | REC_SNAP

record loading =
  ld_cur :: rec_kind
  ld_have :: bool
  ld_vol :: volume
  ld_snap :: snapshot
  ld_volumes :: "volume list"
  ld_snapshots :: "snapshot list"
  ld_allocs :: allocs

definition volume0 :: volume where
  "volume0 = \<lparr>v_id = [], v_name = [], v_path = [], v_desc = [], v_limit = 0, v_created = 0, v_readonly = 0\<rparr>"

definition snapshot0 :: snapshot where
  "snapshot0 = \<lparr>s_id = [], s_name = [], s_volume = [], s_path = [], s_created = 0, s_active = 0\<rparr>"

text \<open>A record that is complete goes to the front of its list.\<close>

definition commit_record :: "loading \<Rightarrow> loading" where
  "commit_record l =
     (if \<not> ld_have l \<or> ld_cur l = REC_NONE then l
      else
        (case alloc (ld_allocs l) of
           (ok, al) \<Rightarrow>
             let l1 = l\<lparr>ld_allocs := al\<rparr> in
             if \<not> ok then l1
             else
               (case ld_cur l of
                  REC_VOL \<Rightarrow> l1\<lparr>ld_volumes := ld_vol l # ld_volumes l\<rparr>
                | _ \<Rightarrow> l1\<lparr>ld_snapshots := ld_snap l # ld_snapshots l\<rparr>)))"

definition set_volume_field :: "string \<Rightarrow> string \<Rightarrow> volume \<Rightarrow> volume" where
  "set_volume_field key val v =
     (if key = ''id'' then v\<lparr>v_id := cstr 40 val\<rparr>
      else if key = ''name'' then v\<lparr>v_name := cstr 128 val\<rparr>
      else if key = ''path'' then v\<lparr>v_path := cstr 512 val\<rparr>
      else if key = ''description'' then v\<lparr>v_desc := cstr 256 val\<rparr>
      else if key = ''size_limit'' then v\<lparr>v_limit := fst (strtoull val)\<rparr>
      else if key = ''readonly'' then v\<lparr>v_readonly := to_int32 (fst (strtol val))\<rparr>
      else if key = ''created_at'' then v\<lparr>v_created := fst (strtoull val)\<rparr>
      else v)"

definition set_snapshot_field :: "string \<Rightarrow> string \<Rightarrow> snapshot \<Rightarrow> snapshot" where
  "set_snapshot_field key val s =
     (if key = ''id'' then s\<lparr>s_id := cstr 40 val\<rparr>
      else if key = ''name'' then s\<lparr>s_name := cstr 128 val\<rparr>
      else if key = ''volume'' then s\<lparr>s_volume := cstr 128 val\<rparr>
      else if key = ''path'' then s\<lparr>s_path := cstr 512 val\<rparr>
      else if key = ''created_at'' then s\<lparr>s_created := fst (strtoull val)\<rparr>
      else if key = ''active'' then s\<lparr>s_active := to_int32 (fst (strtol val))\<rparr>
      else s)"

definition load_line :: "loading \<Rightarrow> string \<Rightarrow> loading" where
  "load_line l line =
     (let p = storage_strtrim line in
      if p = [] \<or> hd p = CHR ''#'' then l
      else if p = ''volume'' then (commit_record l)\<lparr>ld_cur := REC_VOL, ld_vol := volume0, ld_have := False\<rparr>
      else if p = ''snapshot'' then (commit_record l)\<lparr>ld_cur := REC_SNAP, ld_snap := snapshot0, ld_have := False\<rparr>
      else
        (case split_first (CHR ''='') p of
           (_, None) \<Rightarrow> l
         | (key, Some val) \<Rightarrow>
             (case ld_cur l of
                REC_NONE \<Rightarrow> l
              | REC_VOL \<Rightarrow>
                  let v = set_volume_field key val (ld_vol l) in
                  l\<lparr>ld_vol := v, ld_have := (ld_have l \<or> v_id v \<noteq> [] \<and> v_name v \<noteq> [] \<and> v_path v \<noteq> [])\<rparr>
              | REC_SNAP \<Rightarrow>
                  let s = set_snapshot_field key val (ld_snap l) in
                  l\<lparr>ld_snap := s,
                    ld_have := (ld_have l \<or> s_id s \<noteq> [] \<and> s_name s \<noteq> [] \<and> s_volume s \<noteq> [] \<and> s_path s \<noteq> [])\<rparr>)))"

definition load_start :: "allocs \<Rightarrow> volume list \<Rightarrow> snapshot list \<Rightarrow> loading" where
  "load_start al vs ss =
     \<lparr>ld_cur = REC_NONE, ld_have = False, ld_vol = volume0, ld_snap = snapshot0,
      ld_volumes = vs, ld_snapshots = ss, ld_allocs = al\<rparr>"

definition storage_load :: "osenv \<Rightarrow> allocs \<Rightarrow> storage \<Rightarrow> rc \<times> storage" where
  "storage_load os al g =
     (if os OPEN (comps (st_file g)) \<notin> {0, ENOENT} then (os OPEN (comps (st_file g)), g)
      else if os OPEN (comps (st_file g)) = ENOENT then (0, g)
      else
        (case st_state g of
           None \<Rightarrow> (0, g)
         | Some text \<Rightarrow>
             let l = commit_record (foldl load_line (load_start al (st_volumes g) (st_snapshots g)) (fgets_all 2048 text))
             in (0, g\<lparr>st_volumes := ld_volumes l, st_snapshots := ld_snapshots l\<rparr>)))"

section \<open>Volumes\<close>

record vol_def =
  vd_name :: "string option"
  vd_path :: "string option"
  vd_limit :: nat
  vd_readonly :: int
  vd_desc :: "string option"

type_synonym stamp = "byte list \<times> 64 word \<times> 64 word"

definition gen_id :: "stamp \<Rightarrow> string" where
  "gen_id e = (case e of (rnd, now, pid) \<Rightarrow> storage_gen_id rnd now pid)"

definition stamp_time :: "stamp \<Rightarrow> nat" where
  "stamp_time e = unat (fst (snd e))"

text \<open>The directory of a new volume: found, or made on the way.\<close>

definition volume_dir :: "osenv \<Rightarrow> node \<Rightarrow> string \<Rightarrow> rc \<times> bool \<times> node" where
  "volume_dir os fs path =
     (case lstat os fs path of
        Inl e \<Rightarrow>
          if e \<noteq> ENOENT then (e, False, fs)
          else (case storage_mkdir_p os path 493 fs of (rc, fs') \<Rightarrow> (rc, rc = 0, fs'))
      | Inr (Dir _ _) \<Rightarrow> (0, False, fs)
      | Inr _ \<Rightarrow> (ENOTDIR, False, fs))"

definition new_volume :: "stamp \<Rightarrow> string \<Rightarrow> string \<Rightarrow> vol_def \<Rightarrow> volume" where
  "new_volume e name path d =
     \<lparr>v_id = gen_id e, v_name = cstr 128 name, v_path = cstr 512 path,
      v_desc = storage_sanitize_desc 256 (vd_desc d), v_limit = vd_limit d,
      v_created = stamp_time e, v_readonly = (if vd_readonly d \<noteq> 0 then 1 else 0)\<rparr>"

definition storage_create_volume ::
  "osenv \<Rightarrow> bool \<Rightarrow> stamp \<Rightarrow> storage \<Rightarrow> vol_def option \<Rightarrow> rc \<times> (volume \<times> bool) option \<times> storage" where
  "storage_create_volume os ok e g d =
     (case d of
        None \<Rightarrow> (EINVAL, None, g)
      | Some def \<Rightarrow>
          if vd_name def = None \<or> vd_path def = None then (EINVAL, None, g)
          else if \<not> st_initialized g then (ENOTREADY, None, g)
          else if storage_valid_label (vd_name def) 128 \<noteq> 0 then (storage_valid_label (vd_name def) 128, None, g)
          else if storage_valid_path (vd_path def) \<noteq> 0 then (storage_valid_path (vd_path def), None, g)
          else
            (let name = the (vd_name def); path = the (vd_path def) in
             if storage_find_volume g name \<noteq> None then (EEXIST, None, g)
             else if \<exists>x \<in> set (st_volumes g). v_path x = path then (EEXIST, None, g)
             else
               (case volume_dir os (st_fs g) path of
                  (rc, created, fs1) \<Rightarrow>
                    if rc \<noteq> 0 then (rc, None, g\<lparr>st_fs := fs1\<rparr>)
                    else if \<not> ok then
                      (ENOMEM, None, g\<lparr>st_fs := (if created then snd (remove os path fs1) else fs1)\<rparr>)
                    else
                      (let v = new_volume e name path def in
                       (case storage_persist os (g\<lparr>st_fs := fs1, st_volumes := v # st_volumes g\<rparr>) of
                          (rc, g1) \<Rightarrow>
                            if rc \<noteq> 0 then
                              (rc, None,
                               g1\<lparr>st_volumes := st_volumes g,
                                  st_fs := (if created then snd (storage_rm_rf os path (st_fs g1)) else st_fs g1)\<rparr>)
                            else (0, Some (storage_vol_fill os g1 v), g1))))))"

definition storage_delete_volume :: "osenv \<Rightarrow> storage \<Rightarrow> string option \<Rightarrow> rc \<times> storage" where
  "storage_delete_volume os g name_or_id =
     (case name_or_id of
        None \<Rightarrow> (EINVAL, g)
      | Some x \<Rightarrow>
          if x = [] then (EINVAL, g)
          else if \<not> st_initialized g then (ENOTREADY, g)
          else
            (case find (is_volume x) (st_volumes g) of
               None \<Rightarrow> (ENOENT, g)
             | Some v \<Rightarrow>
                 if v_readonly v \<noteq> 0 then (EPERM, g)
                 else if v_path v = [SLASH] then (EINVAL, g)
                 else
                   (case (case lstat os (st_fs g) (v_path v) of
                            Inl _ \<Rightarrow> (0, st_fs g)
                          | Inr (Dir _ _) \<Rightarrow>
                              (case storage_rm_rf os (v_path v) (st_fs g) of
                                 (rc, fs) \<Rightarrow> (if rc = - 1 then EIO else rc, fs))
                          | Inr _ \<Rightarrow> (ENOTDIR, st_fs g)) of
                      (rc, fs1) \<Rightarrow>
                        if rc \<noteq> 0 then (rc, g\<lparr>st_fs := fs1\<rparr>)
                        else storage_persist os
                          (g\<lparr>st_fs := fs1, st_volumes := remove_first (is_volume x) (st_volumes g)\<rparr>))))"

definition storage_unregister_volume :: "osenv \<Rightarrow> storage \<Rightarrow> string option \<Rightarrow> rc \<times> storage" where
  "storage_unregister_volume os g name_or_id =
     (case name_or_id of
        None \<Rightarrow> (EINVAL, g)
      | Some x \<Rightarrow>
          if x = [] then (EINVAL, g)
          else if \<not> st_initialized g then (ENOTREADY, g)
          else if find (is_volume x) (st_volumes g) = None then (ENOENT, g)
          else storage_persist os (g\<lparr>st_volumes := remove_first (is_volume x) (st_volumes g)\<rparr>))"

text \<open>A list operation returns its code, the filled entries and the total.\<close>

definition storage_list_volumes ::
  "osenv \<Rightarrow> storage \<Rightarrow> int \<Rightarrow> rc \<times> (volume \<times> bool) list \<times> int" where
  "storage_list_volumes os g cap =
     (if cap \<le> 0 then (EINVAL, [], 0)
      else if \<not> st_initialized g then (ENOTREADY, [], 0)
      else (0, map (storage_vol_fill os g) (take (nat cap) (st_volumes g)), int (length (st_volumes g))))"

definition storage_get_volume :: "osenv \<Rightarrow> storage \<Rightarrow> string option \<Rightarrow> rc \<times> (volume \<times> bool) option" where
  "storage_get_volume os g name_or_id =
     (case name_or_id of
        None \<Rightarrow> (EINVAL, None)
      | Some x \<Rightarrow>
          if x = [] then (EINVAL, None)
          else if \<not> st_initialized g then (ENOTREADY, None)
          else
            (case storage_find_volume g x of
               None \<Rightarrow> (ENOENT, None)
             | Some v \<Rightarrow> (0, Some (storage_vol_fill os g v))))"

section \<open>Usage\<close>

record statvfs =
  f_bsize :: "64 word"
  f_frsize :: "64 word"
  f_blocks :: "64 word"
  f_bfree :: "64 word"
  f_bavail :: "64 word"
  f_files :: "64 word"
  f_ffree :: "64 word"

record df =
  df_size_limit :: "64 word"
  df_used_bytes :: "64 word"
  df_file_count :: "64 word"
  df_block_size :: "64 word"
  df_total :: "64 word"
  df_used :: "64 word"
  df_avail :: "64 word"
  df_files :: "64 word"
  df_files_free :: "64 word"

definition storage_volume_df :: "osenv \<Rightarrow> rc + statvfs \<Rightarrow> storage \<Rightarrow> string option \<Rightarrow> rc + df" where
  "storage_volume_df os sv g name_or_id =
     (case name_or_id of
        None \<Rightarrow> Inl EINVAL
      | Some x \<Rightarrow>
          if x = [] then Inl EINVAL
          else if \<not> st_initialized g then Inl ENOTREADY
          else
            (case storage_find_volume g x of
               None \<Rightarrow> Inl ENOENT
             | Some v \<Rightarrow>
                 (case lstat os (st_fs g) (v_path v) of
                    Inr (Dir m es) \<Rightarrow>
                      (case sv of
                         Inl e \<Rightarrow> Inl e
                       | Inr s \<Rightarrow>
                           (let fr = (if f_frsize s \<noteq> 0 then f_frsize s else f_bsize s);
                                u = du (Dir m es)
                            in Inr \<lparr>df_size_limit = of_nat (v_limit v),
                                    df_used_bytes = of_nat (fst u), df_file_count = of_nat (snd u),
                                    df_block_size = f_bsize s, df_total = f_blocks s * fr,
                                    df_used = (f_blocks s - f_bfree s) * fr, df_avail = f_bavail s * fr,
                                    df_files = f_files s, df_files_free = f_ffree s\<rparr>))
                  | _ \<Rightarrow> Inl ENOENT)))"

section \<open>Snapshots\<close>

definition snapshot_path :: "storage \<Rightarrow> string \<Rightarrow> string \<Rightarrow> string" where
  "snapshot_path g vol name = st_dir g @ ''/snapshots/'' @ vol @ SLASH # name"

text \<open>
  The first section under the lock gives the name and path of the volume and the path of the copy; the
  second one registers the copy.
\<close>

definition snapshot_begin :: "osenv \<Rightarrow> storage \<Rightarrow> string \<Rightarrow> string \<Rightarrow> rc + string \<times> string \<times> string" where
  "snapshot_begin os g x name =
     (case storage_find_volume g x of
        None \<Rightarrow> Inl ENOENT
      | Some v \<Rightarrow>
          if \<not> is_dir (lstat os (st_fs g) (v_path v)) then Inl ENOENT
          else if storage_find_snapshot_in g (v_name v) name \<noteq> None then Inl EEXIST
          else
            (let sp = cstr 512 (snapshot_path g (v_name v) name) in
             case lstat os (st_fs g) sp of
               Inr _ \<Rightarrow> Inl EEXIST
             | Inl _ \<Rightarrow> Inr (v_name v, v_path v, sp)))"

definition new_snapshot :: "stamp \<Rightarrow> string \<Rightarrow> string \<Rightarrow> string \<Rightarrow> snapshot" where
  "new_snapshot e name vol path =
     \<lparr>s_id = gen_id e, s_name = cstr 128 name, s_volume = cstr 128 vol, s_path = cstr 512 path,
      s_created = stamp_time e, s_active = 1\<rparr>"

definition drop_copy :: "osenv \<Rightarrow> string \<Rightarrow> storage \<Rightarrow> storage" where
  "drop_copy os path g = g\<lparr>st_fs := snd (storage_rm_rf os path (st_fs g))\<rparr>"

definition snapshot_register ::
  "osenv \<Rightarrow> storage \<Rightarrow> snapshot \<Rightarrow> string \<Rightarrow> string \<Rightarrow> string \<Rightarrow> rc \<times> snapshot option \<times> storage" where
  "snapshot_register os g s vol name sp =
     (if storage_find_volume g vol = None then (ENOENT, None, drop_copy os sp g)
      else if storage_find_snapshot_in g vol name \<noteq> None then (EEXIST, None, drop_copy os sp g)
      else
        (case storage_persist os (g\<lparr>st_snapshots := s # st_snapshots g\<rparr>) of
           (rc, g1) \<Rightarrow>
             if rc \<noteq> 0 then (rc, None, drop_copy os sp (g1\<lparr>st_snapshots := st_snapshots g\<rparr>))
             else (0, Some s, g1)))"

definition storage_snapshot_create ::
  "osenv \<Rightarrow> (storage \<Rightarrow> storage) \<Rightarrow> bool \<Rightarrow> stamp \<Rightarrow> storage \<Rightarrow> string option \<Rightarrow> string option
    \<Rightarrow> rc \<times> snapshot option \<times> storage" where
  "storage_snapshot_create os others ok e g name_or_id snapshot_name =
     (if name_or_id = None \<or> name_or_id = Some [] \<or> snapshot_name = None then (EINVAL, None, g)
      else if \<not> st_initialized g then (ENOTREADY, None, g)
      else if storage_valid_label snapshot_name 128 \<noteq> 0 then (storage_valid_label snapshot_name 128, None, g)
      else
        (case snapshot_begin os g (the name_or_id) (the snapshot_name) of
           Inl rc \<Rightarrow> (rc, None, g)
         | Inr (vol, vp, sp) \<Rightarrow>
             let g1 = others g in
             (case storage_copy_tree os vp sp (st_fs g1) of
                (rc, fs) \<Rightarrow>
                  let g2 = g1\<lparr>st_fs := fs\<rparr> in
                  if rc \<noteq> 0 then (rc, None, drop_copy os sp g2)
                  else if \<not> ok then (ENOMEM, None, drop_copy os sp g2)
                  else snapshot_register os g2 (new_snapshot e (the snapshot_name) vol sp) vol (the snapshot_name) sp)))"

definition storage_snapshot_restore :: "osenv \<Rightarrow> storage \<Rightarrow> string option \<Rightarrow> string option \<Rightarrow> rc \<times> storage" where
  "storage_snapshot_restore os g snapshot_name target =
     (case snapshot_name of
        None \<Rightarrow> (EINVAL, g)
      | Some x \<Rightarrow>
          if x = [] then (EINVAL, g)
          else if \<not> st_initialized g then (ENOTREADY, g)
          else
            (case storage_find_snapshot g x of
               None \<Rightarrow> (ENOENT, g)
             | Some s \<Rightarrow>
                 (case storage_find_volume g
                         (case target of Some t \<Rightarrow> (if t \<noteq> [] then t else s_volume s) | None \<Rightarrow> s_volume s) of
                    None \<Rightarrow> (ENOENT, g)
                  | Some v \<Rightarrow>
                      if v_readonly v \<noteq> 0 then (EPERM, g)
                      else if \<not> is_dir (lstat os (st_fs g) (s_path s)) then (ENOENT, g)
                      else if \<not> is_dir (lstat os (st_fs g) (v_path v)) then (ENOENT, g)
                      else
                        (case storage_dir_clear os (v_path v) (st_fs g) of
                           (rc, fs) \<Rightarrow>
                             if rc \<noteq> 0 then (rc, g\<lparr>st_fs := fs\<rparr>)
                             else
                               (case storage_copy_tree os (s_path s) (v_path v) fs of
                                  (rc, fs') \<Rightarrow> (rc, g\<lparr>st_fs := fs'\<rparr>))))))"

definition storage_snapshot_delete :: "osenv \<Rightarrow> storage \<Rightarrow> string option \<Rightarrow> rc \<times> storage" where
  "storage_snapshot_delete os g snapshot_name =
     (case snapshot_name of
        None \<Rightarrow> (EINVAL, g)
      | Some x \<Rightarrow>
          if x = [] then (EINVAL, g)
          else if \<not> st_initialized g then (ENOTREADY, g)
          else
            (case find (is_snapshot x) (st_snapshots g) of
               None \<Rightarrow> (ENOENT, g)
             | Some s \<Rightarrow>
                 (case storage_persist os (g\<lparr>st_snapshots := remove_first (is_snapshot x) (st_snapshots g)\<rparr>) of
                    (rc, g1) \<Rightarrow>
                      if rc = 0 \<and> is_dir (lstat os (st_fs g1) (s_path s)) then
                        (case storage_rm_rf os (s_path s) (st_fs g1) of
                           (drc, fs) \<Rightarrow>
                             (if drc = 0 then rc else if drc = - 1 then EIO else drc, g1\<lparr>st_fs := fs\<rparr>))
                      else (rc, g1))))"

definition storage_list_snapshots ::
  "storage \<Rightarrow> string option \<Rightarrow> int \<Rightarrow> rc \<times> snapshot list \<times> int" where
  "storage_list_snapshots g vol cap =
     (if cap \<le> 0 then (EINVAL, [], 0)
      else if \<not> st_initialized g then (ENOTREADY, [], 0)
      else
        (let xs = filter (\<lambda>s. vol = None \<or> vol = Some [] \<or> vol = Some (s_volume s)) (st_snapshots g)
         in (0, take (nat cap) xs, int (length xs))))"

section \<open>Life cycle\<close>

text \<open>
  A start reads \<^verbatim>\<open>HWRUN_STATE\<close>, empties the registry and loads it; the tree and the state file are
  what the last process left.
\<close>

definition storage_impl_init :: "osenv \<Rightarrow> allocs \<Rightarrow> string option \<Rightarrow> storage \<Rightarrow> rc \<times> storage" where
  "storage_impl_init os al env g =
     (let g0 = g\<lparr>st_initialized := False, st_volumes := [], st_snapshots := []\<rparr> in
      if env \<noteq> None \<and> env \<noteq> Some [] \<and> length (the env) \<ge> 240
      then (ENAMETOOLONG, g0\<lparr>st_dir := [], st_file := []\<rparr>)
      else
        (let dir = (if env \<noteq> None \<and> env \<noteq> Some [] then the env else ''/var/lib/hwrun'');
             g1 = g0\<lparr>st_dir := dir, st_file := cstr 512 (dir @ ''/storage.state'')\<rparr>
         in (case storage_load os al g1 of
               (rc, g2) \<Rightarrow> if rc \<noteq> 0 then (rc, g2) else (0, g2\<lparr>st_initialized := True\<rparr>))))"

definition storage_impl_shutdown :: "storage \<Rightarrow> storage" where
  "storage_impl_shutdown g =
     (if \<not> st_initialized g \<and> st_volumes g = [] \<and> st_snapshots g = [] then g
      else g\<lparr>st_volumes := [], st_snapshots := [], st_initialized := False\<rparr>)"

end
