(* ===== verification/TreeCopy.thy ===== *)
theory TreeCopy
  imports FileTree
begin

text \<open>
  The tree walks of STORAGE in use: a copy to a new place, a copy over a cleared directory, and what
  holds of every walk whatever fails: trees stay well formed, a successful copy keeps directories,
  and a copy of a directory into itself ends with an error.
\<close>

section \<open>Well-formed trees stay well formed\<close>

lemma vacant_names:
  assumes "vacant (comps p) fs = 0" "tree_ok fs"
  shows "\<forall>x \<in> set (comps p). name_ok x"
proof -
  have p: "comps p \<noteq> []" "dir_in fs (butlast (comps p))" "length (last (comps p)) \<le> 255"
    using assms(1) by (auto simp: vacant_0)
  from p(2) obtain m es where "walk (butlast (comps p)) fs = Inr (Dir m es)" by (auto elim: dir_inE)
  from walk_names [OF this assms(2)] have "\<forall>x \<in> set (butlast (comps p)). name_ok x" .
  moreover have "name_ok (last (comps p))" using comps_good [of "last (comps p)" p] p(1,3) by (simp add: name_ok_def)
  ultimately have "\<forall>x \<in> set (butlast (comps p) @ [last (comps p)]). name_ok x" by simp
  then show ?thesis using p(1) by simp
qed

lemma create_ok: "tree_ok fs \<Longrightarrow> tree_ok new \<Longrightarrow> tree_ok (snd (create os call p new fs))"
  using put_tree_ok [of fs "Some new" "comps p"] vacant_names [of p fs] by (simp add: create_def Let_def)

lemma mkdir_one_ok: "tree_ok fs \<Longrightarrow> tree_ok (snd (mkdir_one os mode q fs))"
  using create_ok [of fs "Dir mode []" os MKDIR q]
  by (cases "create os MKDIR q (Dir mode []) fs") (simp add: mkdir_one_def)

lemma each_inv:
  assumes "\<And>x w. x \<in> set xs \<Longrightarrow> I w \<Longrightarrow> I (snd (f x w))" "I w"
  shows "I (snd (each f xs w))"
  using assms
proof (induction xs arbitrary: w)
  case (Cons x xs)
  obtain rc w' where f: "f x w = (rc, w')" by force
  have "I w'" using Cons.prems(1) [of x w] Cons.prems(2) f by simp
  then show ?case using Cons f by simp
qed simp

lemma mkdir_p_fs:
  "snd (storage_mkdir_p os p mode fs) = fs \<or>
   snd (storage_mkdir_p os p mode fs) = snd (each (mkdir_one os mode) (path_prefixes p @ [p]) fs)"
  by (auto simp: storage_mkdir_p_def split: prod.splits sum.splits node.splits)

lemma mkdir_p_ok: "tree_ok fs \<Longrightarrow> tree_ok (snd (storage_mkdir_p os p mode fs))"
  using mkdir_p_fs [of os p mode fs] each_inv [of "path_prefixes p @ [p]" tree_ok "mkdir_one os mode" fs]
  by (auto simp: mkdir_one_ok)

lemma put_at_ok:
  assumes "tree_ok fs" "walk p fs = Inr c" "pred_option tree_ok v"
  shows "tree_ok (put p v fs)"
  using put_tree_ok [OF assms(1,3)] walk_names [OF assms(2,1)] by simp

lemma remove_ok: "tree_ok fs \<Longrightarrow> tree_ok (snd (remove os p fs))"
  using put_at_ok [of fs "comps p" _ None] by (simp add: remove_def split: sum.splits)

lemma chmod_ok: "tree_ok fs \<Longrightarrow> tree_ok (chmod p m fs)"
proof -
  assume ok: "tree_ok fs"
  show ?thesis
  proof (cases "walk (comps p) fs")
    case (Inr c)
    with walk_tree_ok [OF ok Inr] put_at_ok [OF ok Inr] show ?thesis
      by (cases c) (simp_all add: chmod_def ok)
  qed (simp add: chmod_def ok)
qed

lemma vacant_EEXIST: "vacant p fs = EEXIST \<Longrightarrow> exists_in fs p"
proof (cases "p = []")
  case False
  assume v: "vacant p fs = EEXIST"
  obtain m es where d: "walk (butlast p) fs = Inr (Dir m es)" "map_of es (last p) \<noteq> None"
    using v False walk_error [of "butlast p" fs]
    by (auto simp: vacant_def split: sum.splits node.splits if_splits)
  with walk_last [OF d(1) False] show ?thesis by (auto simp: exists_in_def)
qed (simp add: exists_in_def)

lemma copy_data_ok:
  assumes ok: "tree_ok fs"
  shows "tree_ok (snd (copy_data os src dst m s fs))"
proof -
  have "tree_ok (put (comps dst) (Some (Reg k t)) fs)"
    if "vacant (comps dst) fs = 0 \<or> vacant (comps dst) fs = EEXIST" for k t
  proof (cases "exists_in fs (comps dst)")
    case True
    then obtain c where "walk (comps dst) fs = Inr c" by (auto elim: exists_inE)
    then show ?thesis by (rule put_at_ok [OF ok]) simp
  next
    case False
    then have "vacant (comps dst) fs \<noteq> EEXIST" using vacant_EEXIST by blast
    with that have "vacant (comps dst) fs = 0" by simp
    from vacant_names [OF this ok] show ?thesis using put_tree_ok [OF ok, of "Some (Reg k t)"] by simp
  qed
  with ok show ?thesis
    by (auto simp: copy_data_def Let_def remove_ok split: sum.splits node.splits)
qed

lemma copy_file_ok: "tree_ok fs \<Longrightarrow> tree_ok (snd (storage_copy_file os src dst fs))"
  by (auto simp: storage_copy_file_def copy_data_ok split: sum.splits node.splits)

lemma copy_tree_ok: "tree_ok fs \<Longrightarrow> tree_ok (snd (storage_copy_tree os src dst fs))"
proof (induction os src dst fs rule: storage_copy_tree.induct)
  case (1 os src dst fs)
  obtain rc fs1 where mk: "storage_mkdir_p os dst 448 fs = (rc, fs1)" by force
  have ok1: "tree_ok fs1" using mkdir_p_ok [OF "1.prems", of os dst 448] mk by simp
  have loop: "tree_ok (snd (each (\<lambda>n. storage_copy_tree os (join src n) (join dst n)) ns fs1))"
    if "lstat os fs src = Inr (Dir m es)" "rc = 0" "opendir os fs1 src = Inr ns" for m es ns
    by (rule each_inv [where I = tree_ok, OF _ ok1]) (use "1.IH" mk that in auto)
  show ?case
  proof (cases "lstat os fs src")
    case (Inl e)
    with "1.prems" show ?thesis by (simp add: storage_copy_tree.simps)
  next
    case (Inr t)
    then show ?thesis
    proof (cases t)
      case (Dir m es)
      show ?thesis
      proof (cases "rc = 0 \<and> (\<exists>ns. opendir os fs1 src = Inr ns)")
        case True
        then obtain ns where ns: "rc = 0" "opendir os fs1 src = Inr ns" by blast
        obtain rc2 fs2 where l: "each (\<lambda>n. storage_copy_tree os (join src n) (join dst n)) ns fs1 = (rc2, fs2)" by force
        have "tree_ok fs2" using loop [OF Inr [unfolded Dir] ns] l by simp
        then show ?thesis
          using mk ns l by (simp add: storage_copy_tree.simps [of os src] Inr Dir chmod_ok)
      next
        case False
        then show ?thesis
          using mk ok1 by (auto simp: storage_copy_tree.simps [of os src] Inr Dir split: sum.splits)
      qed
    qed (use "1.prems" Inr in \<open>simp_all add: storage_copy_tree.simps copy_file_ok create_ok\<close>)
  qed
qed

section \<open>Removal\<close>

text \<open>After a removal in which no call fails the path is gone, whatever it was.\<close>

lemma rm_rf_gone:
  assumes "tree_ok fs" "comps p \<noteq> []"
  shows "\<not> exists_in (snd (storage_rm_rf no_faults p fs)) (comps p)"
proof (cases "walk (comps p) fs")
  case (Inl e)
  then show ?thesis by (simp add: storage_rm_rf_def exists_in_def)
next
  case (Inr t)
  obtain m es where "walk (butlast (comps p)) fs = Inr (Dir m es)"
    using walk_up [OF Inr assms(2)] by (auto elim: dir_inE)
  from walk_put_same [OF assms(1) this assms(2), of None] show ?thesis
    by (simp add: rm_rf_no_faults [OF Inr assms(2)] exists_in_def)
qed

section \<open>Copies keep directories\<close>

lemma dir_in_prefix:
  assumes "dir_in fs (p @ q)"
  shows "dir_in fs p"
proof (cases "q = []")
  case False
  from assms obtain m es c where "walk p fs = Inr c" "walk q c = Inr (Dir m es)"
    by (auto simp: walk_append split: sum.splits elim: dir_inE)
  with False show ?thesis by (cases q; cases c) (auto simp: dir_in_def)
qed (use assms in simp)

lemma put_keeps_dirs:
  assumes ok: "tree_ok fs" and d: "dir_in fs p" and cs: "\<not> dir_in fs cs"
  shows "dir_in (put cs (Some x) fs) p"
proof -
  obtain m es where w: "walk p fs = Inr (Dir m es)" using d by (auto elim: dir_inE)
  have "\<not> prefix cs p" using cs d dir_in_prefix by (auto simp: prefix_def)
  then consider "cs \<parallel> p" | r where "cs = p @ r" "r \<noteq> []"
    by (cases "prefix p cs") (auto simp: prefix_def parallel_def)
  then show ?thesis
  proof cases
    case 1
    from walk_put_parallel [OF ok this] w show ?thesis by (simp add: dir_in_def)
  next
    case 2
    from walk_put_above [OF ok w 2(2)] 2 obtain n ns where
      "walk p (put cs (Some x) fs) = Inr (put (n # ns) (Some x) (Dir m es))" by (cases r) auto
    then show ?thesis by (auto simp: dir_in_def split: option.splits)
  qed
qed

lemma put_dir_keeps_dirs:
  assumes ok: "tree_ok fs" and w: "walk cs fs = Inr (Dir m es)" and d: "dir_in fs p"
  shows "dir_in (put cs (Some (Dir m' es)) fs) p"
proof (cases "cs = []")
  case True
  with w d show ?thesis by (cases p) (auto simp: dir_in_def)
next
  case False
  obtain m1 es1 where up: "walk (butlast cs) fs = Inr (Dir m1 es1)"
    using walk_up [OF w False] by (auto elim: dir_inE)
  consider "cs \<parallel> p" | r where "p = cs @ r" | r where "cs = p @ r" "r \<noteq> []"
    by (cases "prefix cs p"; cases "prefix p cs") (auto simp: prefix_def parallel_def)
  then show ?thesis
  proof cases
    case 1
    from walk_put_parallel [OF ok this] d show ?thesis by (simp add: dir_in_def)
  next
    case 2
    with walk_put_same [OF ok up False, of "Some (Dir m' es)"] w d show ?thesis
      by (cases r) (auto simp: dir_in_def walk_append)
  next
    case 3
    obtain m2 es2 where w2: "walk p fs = Inr (Dir m2 es2)" using d by (auto elim: dir_inE)
    from walk_put_above [OF ok w2 3(2)] 3 obtain n ns where
      "walk p (put cs (Some (Dir m' es)) fs) = Inr (put (n # ns) (Some (Dir m' es)) (Dir m2 es2))" by (cases r) auto
    then show ?thesis by (auto simp: dir_in_def split: option.splits)
  qed
qed

text \<open>\<open>grown fs fs'\<close>: well formed still, and no directory is lost.\<close>

definition grown :: "node \<Rightarrow> node \<Rightarrow> bool" where
  "grown fs fs' \<longleftrightarrow> tree_ok fs' \<and> (\<forall>p. dir_in fs p \<longrightarrow> dir_in fs' p)"

lemma grown_refl: "tree_ok fs \<Longrightarrow> grown fs fs"
  by (simp add: grown_def)

lemma grown_trans: "grown a b \<Longrightarrow> grown b c \<Longrightarrow> grown a c"
  by (simp add: grown_def)

lemma create_grown: "tree_ok fs \<Longrightarrow> tree_ok new \<Longrightarrow> grown fs (snd (create os call p new fs))"
proof -
  assume ok: "tree_ok fs" "tree_ok new"
  have "\<not> dir_in fs (comps p)" if "vacant (comps p) fs = 0"
    using that dir_exists by (auto simp: vacant_0)
  with ok create_ok [OF ok, of os call p] show ?thesis
    by (auto simp: grown_def create_def Let_def intro: put_keeps_dirs)
qed

lemma mkdir_one_grown: "tree_ok fs \<Longrightarrow> grown fs (snd (mkdir_one os mode q fs))"
  using create_grown [of fs "Dir mode []" os MKDIR q]
  by (cases "create os MKDIR q (Dir mode []) fs") (simp add: mkdir_one_def)

lemma mkdir_p_grown: "tree_ok fs \<Longrightarrow> grown fs (snd (storage_mkdir_p os p mode fs))"
proof -
  assume ok: "tree_ok fs"
  have "grown fs (snd (each (mkdir_one os mode) (path_prefixes p @ [p]) fs))"
  proof (rule each_inv [where I = "grown fs"])
    fix x w
    assume g: "grown fs w"
    then have "tree_ok w" by (simp add: grown_def)
    from grown_trans [OF g mkdir_one_grown [OF this]] show "grown fs (snd (mkdir_one os mode x w))" .
  qed (rule grown_refl [OF ok])
  then show ?thesis using mkdir_p_fs [of os p mode fs] grown_refl [OF ok] by metis
qed

lemma chmod_grown: "tree_ok fs \<Longrightarrow> grown fs (chmod p m fs)"
proof -
  assume ok: "tree_ok fs"
  have "dir_in (chmod p m fs) q" if d: "dir_in fs q" for q
  proof (cases "walk (comps p) fs")
    case (Inr c)
    then show ?thesis
      using d put_dir_keeps_dirs [OF ok _ d] put_keeps_dirs [OF ok d, of "comps p"]
      by (cases c) (simp_all add: chmod_def dir_in_def [of fs "comps p"])
  qed (simp add: chmod_def d)
  with chmod_ok [OF ok] show ?thesis by (simp add: grown_def)
qed

lemma copy_file_grown:
  assumes ok: "tree_ok fs" and c: "storage_copy_file os src dst fs = (0, fs')"
  shows "grown fs fs'"
proof -
  have "fs' = fs \<or> (\<exists>m s. fs' = put (comps dst) (Some (Reg m s)) fs) \<and> \<not> dir_in fs (comps dst)"
    using c by (auto simp: storage_copy_file_def copy_data_def Let_def dir_in_def
        split: sum.splits node.splits if_splits)
  then show ?thesis
    using copy_file_ok [OF ok, of os src dst] c by (auto simp: grown_def intro: put_keeps_dirs [OF ok])
qed

lemma each_success:
  assumes "each f xs w = (0, w')" "I w" "\<And>x u v. x \<in> set xs \<Longrightarrow> I u \<Longrightarrow> f x u = (0, v) \<Longrightarrow> I v"
  shows "I w' \<and> (\<forall>x \<in> set xs. \<exists>u v. I u \<and> f x u = (0, v))"
  using assms
proof (induction xs arbitrary: w)
  case (Cons x xs)
  obtain u where f: "f x w = (0, u)" using Cons.prems(1) by (auto split: prod.splits if_splits)
  have u: "I u" using Cons.prems(3) [of x w u] Cons.prems(2) f by simp
  have "each f xs u = (0, w')" using Cons.prems(1) f by simp
  have "I w' \<and> (\<forall>x \<in> set xs. \<exists>u v. I u \<and> f x u = (0, v))"
    by (rule Cons.IH [OF \<open>each f xs u = (0, w')\<close> u]) (metis Cons.prems(3) list.set_intros(2))
  with f Cons.prems(2) show ?case by auto
qed simp

lemma opendir_error: "opendir os fs p = Inl e \<Longrightarrow> e \<noteq> 0"
  using walk_error [of "comps p" fs] by (auto simp: opendir_def split: if_splits sum.splits node.splits)

lemma lstat_error: "lstat os fs p = Inl e \<Longrightarrow> e \<noteq> 0"
  using walk_error [of "comps p" fs] by (auto simp: lstat_def split: if_splits)

text \<open>The steps of a successful copy of a directory.\<close>

lemma copy_tree_dirE:
  assumes "storage_copy_tree os src dst fs = (0, fs')" "dir_in fs (comps src)"
  obtains m es fs1 ns fs2 where "walk (comps src) fs = Inr (Dir m es)" "storage_mkdir_p os dst 448 fs = (0, fs1)"
    "opendir os fs1 src = Inr ns"
    "each (\<lambda>n. storage_copy_tree os (join src n) (join dst n)) ns fs1 = (0, fs2)" "fs' = chmod dst m fs2"
proof -
  obtain m es where w: "walk (comps src) fs = Inr (Dir m es)" using assms(2) by (auto elim: dir_inE)
  with assms(1) have l: "lstat os fs src = Inr (Dir m es)"
    by (auto simp: storage_copy_tree.simps [of os src] lstat_def split: if_splits)
  show ?thesis
    using assms(1) that [OF w]
    by (auto simp: storage_copy_tree.simps [of os src] l split: prod.splits sum.splits if_splits dest: opendir_error)
qed

lemma copy_tree_grown:
  "tree_ok fs \<Longrightarrow> storage_copy_tree os src dst fs = (0, fs') \<Longrightarrow> grown fs fs'"
proof (induction os src dst fs arbitrary: fs' rule: storage_copy_tree.induct)
  case (1 os src dst fs)
  show ?case
  proof (cases "dir_in fs (comps src)")
    case True
    from copy_tree_dirE [OF "1.prems"(2) True] obtain m es fs1 ns fs2 where
      w: "walk (comps src) fs = Inr (Dir m es)" "storage_mkdir_p os dst 448 fs = (0, fs1)"
        "opendir os fs1 src = Inr ns"
        "each (\<lambda>n. storage_copy_tree os (join src n) (join dst n)) ns fs1 = (0, fs2)" "fs' = chmod dst m fs2"
      by metis
    have l: "lstat os fs src = Inr (Dir m es)"
      using "1.prems"(2) w(1) by (auto simp: storage_copy_tree.simps [of os src] lstat_def split: if_splits)
    have g1: "grown fs fs1" using mkdir_p_grown [OF "1.prems"(1), of os dst 448] w(2) by simp
    have "grown fs fs2 \<and> (\<forall>n \<in> set ns. \<exists>u v. grown fs u \<and> storage_copy_tree os (join src n) (join dst n) u = (0, v))"
    proof (rule each_success [where I = "grown fs", OF w(4) g1])
      fix n u v
      assume n: "n \<in> set ns" and u: "grown fs u" and c: "storage_copy_tree os (join src n) (join dst n) u = (0, v)"
      have "tree_ok u" using u by (simp add: grown_def)
      from "1.IH" [OF l refl w(2) [symmetric] _ w(3) n this c] show "grown fs v"
        using grown_trans [OF u] by simp
    qed
    then have "grown fs fs2" by blast
    moreover have "grown fs2 fs'" using calculation chmod_grown [of fs2 dst m] w(5) by (simp add: grown_def)
    ultimately show ?thesis by (rule grown_trans)
  next
    case False
    obtain t where l: "lstat os fs src = Inr t"
    proof (cases "lstat os fs src")
      case (Inl e)
      with lstat_error [OF Inl] "1.prems"(2) show ?thesis by (simp add: storage_copy_tree.simps [of os src])
    qed (rule that)
    then have "walk (comps src) fs = Inr t" by (simp add: lstat_def split: if_splits)
    with False have "t \<noteq> Dir m es" for m es by (auto simp: dir_in_def)
    show ?thesis
    proof (cases t)
      case (Lnk x)
      with "1.prems"(2) l have "create os SYMLINK dst (Lnk (cstr 1024 x)) fs = (0, fs')"
        by (simp add: storage_copy_tree.simps [of os src])
      with create_grown [OF "1.prems"(1), of "Lnk (cstr 1024 x)" os SYMLINK dst] show ?thesis by simp
    qed (use "1.prems" l \<open>\<And>m es. t \<noteq> Dir m es\<close> in
      \<open>auto simp: storage_copy_tree.simps [of os src] copy_file_grown grown_refl\<close>)
  qed
qed

section \<open>A copy of a directory into itself\<close>

lemma mkdir_p_dir:
  assumes "storage_mkdir_p os p mode fs = (0, fs1)"
  shows "dir_in fs1 (comps p)"
proof -
  obtain rc fs' where e: "each (mkdir_one os mode) (path_prefixes p @ [p]) fs = (rc, fs')" by force
  with assms have rc: "rc = 0" by (auto simp: storage_mkdir_p_def split: if_splits)
  show ?thesis
  proof (cases "lstat os fs' p")
    case (Inl x)
    with lstat_error [OF Inl] assms e rc show ?thesis by (simp add: storage_mkdir_p_def split: if_splits)
  next
    case (Inr t)
    then have "walk (comps p) fs' = Inr t" by (simp add: lstat_def split: if_splits)
    with assms e rc Inr show ?thesis
      by (cases t) (simp_all add: storage_mkdir_p_def dir_in_def split: if_splits)
  qed
qed

lemma map_of_name: "map_of es x = Some c \<Longrightarrow> x \<in> fst ` set es"
  by (force dest: map_of_SomeD)

lemma opendir_names:
  "opendir os fs p = Inr ns \<Longrightarrow> dir_in fs (comps p @ x # r) \<Longrightarrow> x \<in> set ns"
  by (auto simp: opendir_def dir_in_def walk_append split: sum.splits node.splits if_splits option.splits
      intro: map_of_name)

text \<open>
  Going down, the destination stays strictly inside the source: the copy can only stop where a path
  gets too long.
\<close>

lemma copy_into_itself:
  "tree_ok fs \<Longrightarrow> dir_in fs (comps src) \<Longrightarrow> comps dst = comps src @ r \<Longrightarrow> r \<noteq> [] \<Longrightarrow>
     length src \<le> length dst \<Longrightarrow> storage_copy_tree os src dst fs \<noteq> (0, fs')"
proof (induction "1024 - length dst" arbitrary: src dst r fs fs' rule: less_induct)
  case less
  show ?case
  proof
    assume c: "storage_copy_tree os src dst fs = (0, fs')"
    from copy_tree_dirE [OF c less.prems(2)] obtain m es fs1 ns fs2 where
      st: "storage_mkdir_p os dst 448 fs = (0, fs1)" "opendir os fs1 src = Inr ns"
        "each (\<lambda>n. storage_copy_tree os (join src n) (join dst n)) ns fs1 = (0, fs2)"
      by metis
    obtain x r' where r: "r = x # r'" using less.prems(4) by (cases r) auto
    have g1: "grown fs fs1" using mkdir_p_grown [OF less.prems(1), of os dst 448] st(1) by simp
    have d1: "dir_in fs1 (comps src @ x # r')" using mkdir_p_dir [OF st(1)] less.prems(3) r by simp
    have x: "x \<in> set ns" by (rule opendir_names [OF st(2) d1])
    have ok1: "tree_ok fs1" using g1 by (simp add: grown_def)
    obtain t where "walk (comps src @ x # r') fs1 = Inr t" using d1 by (auto elim: dir_inE)
    from walk_names [OF this ok1] have nx: "name_ok x" by simp
    have sx: "dir_in fs1 (comps src @ [x])" using d1 dir_in_prefix [of fs1 "comps src @ [x]" r'] by simp
    have "grown fs1 fs2 \<and> (\<forall>n \<in> set ns. \<exists>u v. grown fs1 u \<and> storage_copy_tree os (join src n) (join dst n) u = (0, v))"
    proof (rule each_success [where I = "grown fs1", OF st(3) grown_refl [OF ok1]])
      fix n u v
      assume u: "grown fs1 u" and c: "storage_copy_tree os (join src n) (join dst n) u = (0, v)"
      then have "tree_ok u" by (simp add: grown_def)
      from grown_trans [OF u copy_tree_grown [OF this c]] show "grown fs1 v" .
    qed
    with x obtain u v where u: "grown fs1 u" "storage_copy_tree os (join src x) (join dst x) u = (0, v)" by blast
    have len: "length dst < 512" "length src < 512" using mkdir_p_short [OF st(1)] less.prems(5) by auto
    have lx: "length x \<le> 255" using nx by (simp add: name_ok_def)
    have j: "join src x = src @ SLASH # x" "join dst x = dst @ SLASH # x" using len lx by (simp_all add: join_id)
    have "storage_copy_tree os (join src x) (join dst x) u \<noteq> (0, v)"
    proof (rule less.hyps)
      show "1024 - length (join dst x) < 1024 - length dst" using len by (simp add: j)
      show "tree_ok u" using u(1) by (simp add: grown_def)
      show "dir_in u (comps (join src x))" using u(1) sx by (simp add: grown_def j comps_child [OF nx])
      show "comps (join dst x) = comps (join src x) @ r' @ [x]"
        using less.prems(3) r by (simp add: j comps_child [OF nx])
      show "length (join src x) \<le> length (join dst x)" using less.prems(5) by (simp add: j)
    qed simp
    with u(2) show False by simp
  qed
qed

section \<open>Copies to a new place and over a cleared directory\<close>

lemma prefixes_exist:
  assumes "plain p" "exists_in fs (comps p)"
  shows "\<forall>q \<in> set (path_prefixes p @ [p]). exists_in fs (comps q)"
proof
  fix q
  assume "q \<in> set (path_prefixes p @ [p])"
  then have "prefix (comps q) (comps p)" using path_prefixes_prefix [OF assms(1)] by auto
  then obtain r where "comps p = comps q @ r" by (auto simp: prefix_def)
  with assms(2) show "exists_in fs (comps q)"
    by (auto simp: exists_in_def walk_append split: sum.splits)
qed

lemma mkdir_p_exists:
  assumes "plain p" "dir_in fs (comps p)" "length p < 512"
  shows "storage_mkdir_p no_faults p mode fs = (0, fs)"
  using assms(2,3) each_mkdir_exists [OF prefixes_exist [OF assms(1) dir_exists [OF assms(2)]]]
  by (intro mkdir_p_intro)

text \<open>The copy a snapshot makes: the way to it may still have to be made.\<close>

lemma copy_to_new:
  assumes ok: "tree_ok fs" and src: "walk (comps src) fs = Inr (Dir m es)"
    and dst: "plain dst" "way_free fs (comps dst)" "\<not> exists_in fs (comps dst)" "dst \<noteq> []"
    and par: "comps src \<parallel> comps dst"
    and len: "length src + span_entries es < 1023" "length dst + span_entries es < 512"
  obtains fs' where "storage_copy_tree no_faults src dst fs = (0, fs')" "tree_ok fs'"
    "walk (comps dst) fs' = Inr (Dir m (pruned_entries es))"
    "\<And>q. q \<parallel> comps dst \<Longrightarrow> walk q fs' = walk q fs" "\<And>p. dir_in fs p \<Longrightarrow> dir_in fs' p"
    "\<And>q. prefix q (comps dst) \<Longrightarrow> dir_in fs' q"
proof -
  let ?D = "comps dst"
  obtain fs1 where mk: "each (mkdir_one no_faults 448) (path_prefixes dst @ [dst]) fs = (0, fs1)"
    and made: "dirs_made 448 ?D fs fs1"
    using mkdirs_ok [OF dst(1) ok dst(2,4)] by blast
  have ok1: "tree_ok fs1" and dirs: "\<And>q. prefix q ?D \<Longrightarrow> dir_in fs1 q"
    and same: "\<And>q. \<not> prefix q ?D \<Longrightarrow> walk q fs1 = walk q fs" and at: "walk ?D fs1 = Inr (Dir 448 [])"
    using made dst(3) by (simp_all add: dirs_made_def)
  have mp: "storage_mkdir_p no_faults dst 448 fs = (0, fs1)"
    using len(2) mk dirs by (intro mkdir_p_intro) auto
  have ne: "?D \<noteq> []" using dst(3) by (auto simp: exists_in_def)
  have s1: "walk (comps src) fs1 = Inr (Dir m es)" using same src par by (auto simp: parallel_def)
  have ex: "\<forall>q \<in> set (path_prefixes dst @ [dst]). exists_in fs1 (comps q)"
    using prefixes_exist [OF dst(1) exists_inI [OF at]] .
  have kids: "\<forall>(n, c) \<in> set es. copies c" using all_copies by auto
  let ?fs = "put ?D (Some (Dir m (pruned_entries es))) fs1"
  have c: "storage_copy_tree no_faults src dst fs = (0, ?fs)"
    by (rule copy_dir [OF kids mp src s1 ok1 at ne dst(1) ex par len])
  obtain m1 es1 where up: "walk (butlast ?D) fs1 = Inr (Dir m1 es1)"
    using walk_up [OF at ne] by (auto elim: dir_inE)
  have g: "grown fs ?fs" by (rule copy_tree_grown [OF ok c])
  have w: "walk ?D ?fs = Inr (Dir m (pruned_entries es))" using walk_put_same [OF ok1 up ne] by simp
  have "walk q ?fs = walk q fs" if "q \<parallel> ?D" for q
  proof -
    from that have q: "?D \<parallel> q" "\<not> prefix q ?D" by (auto simp: parallel_def)
    from walk_put_parallel [OF ok1 q(1)] same [OF q(2)] show ?thesis by metis
  qed
  moreover have "dir_in ?fs q" if "prefix q ?D" for q
  proof -
    from that obtain r where "?D = q @ r" by (auto simp: prefix_def)
    with w show ?thesis using dir_in_prefix [of ?fs q r] dir_inI by metis
  qed
  ultimately show ?thesis using that c g w by (auto simp: grown_def)
qed

text \<open>The copy a restore makes: over a directory that has just been cleared.\<close>

lemma copy_over_cleared:
  assumes ok: "tree_ok fs" and src: "walk (comps src) fs = Inr (Dir m es)"
    and dst: "plain dst" "walk (comps dst) fs = Inr (Dir m1 es1)" "comps dst \<noteq> []"
    and par: "comps src \<parallel> comps dst"
    and len: "length src + span_entries es < 1023" "length dst + span_entries es < 512"
  obtains fs1 fs' where "storage_dir_clear no_faults dst fs = (0, fs1)" "storage_copy_tree no_faults src dst fs1 = (0, fs')"
    "tree_ok fs'" "walk (comps dst) fs' = Inr (Dir m (pruned_entries es))"
    "\<And>q. q \<parallel> comps dst \<Longrightarrow> walk q fs' = walk q fs"
proof -
  let ?D = "comps dst" and ?fs1 = "put (comps dst) (Some (Dir m1 [])) fs"
  obtain m2 es2 where up: "walk (butlast ?D) fs = Inr (Dir m2 es2)"
    using walk_up [OF dst(2,3)] by (auto elim: dir_inE)
  have cl: "storage_dir_clear no_faults dst fs = (0, ?fs1)"
    using len(2) by (intro dir_clear_ok [OF ok dst(2,3)]) simp
  have ok1: "tree_ok ?fs1" by (rule put_at_ok [OF ok dst(2)]) simp
  have at: "walk ?D ?fs1 = Inr (Dir m1 [])" using walk_put_same [OF ok up dst(3)] by simp
  have s1: "walk (comps src) ?fs1 = Inr (Dir m es)"
    using walk_put_parallel [OF ok] par src parallel_commute by metis
  have mp: "storage_mkdir_p no_faults dst 448 ?fs1 = (0, ?fs1)"
    using len(2) at by (intro mkdir_p_exists [OF dst(1)]) (auto intro: dir_inI)
  have ex: "\<forall>q \<in> set (path_prefixes dst @ [dst]). exists_in ?fs1 (comps q)"
    using prefixes_exist [OF dst(1) exists_inI [OF at]] .
  have kids: "\<forall>(n, c) \<in> set es. copies c" using all_copies by auto
  let ?fs = "put ?D (Some (Dir m (pruned_entries es))) ?fs1"
  have c: "storage_copy_tree no_faults src dst ?fs1 = (0, ?fs)"
    by (rule copy_dir [OF kids mp s1 s1 ok1 at dst(3) dst(1) ex par len])
  have fs: "?fs = put ?D (Some (Dir m (pruned_entries es))) fs" by (rule put_put [OF ok up dst(3)])
  have "walk ?D ?fs = Inr (Dir m (pruned_entries es))" unfolding fs using walk_put_same [OF ok up dst(3)] by simp
  moreover have "walk q ?fs = walk q fs" if "q \<parallel> ?D" for q
    unfolding fs using walk_put_parallel [OF ok] that parallel_commute by metis
  moreover have "tree_ok ?fs" using copy_tree_grown [OF ok1 c] by (simp add: grown_def)
  ultimately show ?thesis using that cl c by blast
qed

text \<open>Copying a copy changes nothing.\<close>

lemma pruned_again: "(case pruned t of None \<Rightarrow> True | Some d \<Rightarrow> pruned d = Some d \<and> span d \<le> span t)"
  and pruned_entries_again:
    "pruned_entries (pruned_entries es) = pruned_entries es \<and> span_entries (pruned_entries es) \<le> span_entries es"
  by (induction t and es rule: pruned_pruned_entries.induct) (auto simp: cstr_simps split: option.splits)

end
