(* ===== verification/StorageSnapshots.thy ===== *)
theory StorageSnapshots
  imports Storage TreeCopy
begin

text \<open>
  Snapshots of STORAGE: a snapshot followed by a restore gives the volume back as it was, two threads
  that take the same snapshot lose its data, a volume that holds the state directory cannot be
  snapshot, and the root directory is not safe from the removal of a volume.
\<close>

section \<open>The state file in a tree that has its directory\<close>

lemma persist_ok:
  assumes "st_dir g \<noteq> []" "plain (st_dir g)" "dir_in (st_fs g) (comps (st_dir g))" "length (st_dir g) < 512"
  shows "storage_persist no_faults g = (0, g\<lparr>st_state := Some (registry_text (st_volumes g) (st_snapshots g))\<rparr>)"
  using mkdir_p_exists [OF assms(2,3,4)] assms(1)
  by (simp add: storage_persist_def Let_def no_faults_def)

lemma persist_registry:
  "storage_persist os g = (rc, g') \<Longrightarrow>
     st_volumes g' = st_volumes g \<and> st_snapshots g' = st_snapshots g \<and> st_initialized g' = st_initialized g \<and>
     st_dir g' = st_dir g \<and> st_file g' = st_file g"
  by (auto simp: storage_persist_def Let_def split: prod.splits if_splits)

lemma persist_ok_tree: "tree_ok (st_fs g) \<Longrightarrow> tree_ok (st_fs (snd (storage_persist os g)))"
  using mkdir_p_ok [of "st_fs g" os "st_dir g" 493]
  by (auto simp: storage_persist_def Let_def split: prod.splits)

section \<open>Taking a snapshot\<close>

text \<open>
  The registry and the tree allow the snapshot \<open>name\<close> of \<open>v\<close>: both have proper names, the volume and
  the snapshot directory lie apart, and nothing is in the way of the latter.
\<close>

definition snapshot_room :: "storage \<Rightarrow> volume \<Rightarrow> string \<Rightarrow> bool" where
  "snapshot_room g v name \<longleftrightarrow>
     st_initialized g \<and> tree_ok (st_fs g) \<and> st_dir g \<noteq> [] \<and> plain (st_dir g) \<and>
     storage_find_volume g (v_name v) = Some v \<and> v_name v \<noteq> [] \<and> storage_find_snapshot_in g (v_name v) name = None \<and>
     storage_valid_label (Some (v_name v)) 128 = 0 \<and> storage_valid_label (Some name) 128 = 0 \<and>
     plain (v_path v) \<and> comps (v_path v) \<noteq> [] \<and>
     (let sp = snapshot_path g (v_name v) name in
        way_free (st_fs g) (comps sp) \<and> \<not> exists_in (st_fs g) (comps sp) \<and> comps (v_path v) \<parallel> comps sp)"

lemma label_ok:
  "storage_valid_label (Some n) 128 = 0 \<Longrightarrow> n \<noteq> [] \<and> length n < 128 \<and> SLASH \<notin> set n \<and> n \<noteq> ''.'' \<and> n \<noteq> ''..'' \<and>
     NL \<notin> set n \<and> CR \<notin> set n \<and> TAB \<notin> set n"
proof -
  assume a: "storage_valid_label (Some n) 128 = 0"
  then have c: "\<forall>c \<in> set n. \<not> (c = SLASH \<or> c = NL \<or> c = CR \<or> of_char c < (0x20 :: nat))"
    by (simp add: storage_valid_label_def split: if_splits)
  have "n \<noteq> []" "length n < 128" "n \<noteq> ''.''" "n \<noteq> ''..''"
    using a by (simp_all add: storage_valid_label_def split: if_splits)
  moreover have "TAB \<notin> set n"
  proof
    assume "TAB \<in> set n"
    with c have "\<not> of_char TAB < (0x20 :: nat)" by blast
    then show False by simp
  qed
  ultimately show ?thesis using c by blast
qed

lemma label_name: "storage_valid_label (Some n) 128 = 0 \<Longrightarrow> name_ok n"
  using label_ok [of n] by (simp add: name_ok_def)

lemma snapshot_path_plain:
  assumes "snapshot_room g v name"
  shows "plain (snapshot_path g (v_name v) name)" "prefix (comps (st_dir g)) (comps (snapshot_path g (v_name v) name))"
proof -
  have n: "name_ok (v_name v)" "name_ok name" and d: "plain (st_dir g)"
    using assms by (auto simp: snapshot_room_def label_name)
  have sp: "snapshot_path g (v_name v) name = st_dir g @ SLASH # ''snapshots'' @ SLASH # v_name v @ SLASH # name"
    by (simp add: snapshot_path_def)
  show "plain (snapshot_path g (v_name v) name)"
    unfolding sp plain_slash using plain_name [OF n(1)] plain_name [OF n(2)] d plain_name [of "''snapshots''"]
    by (simp add: name_ok_def)
  then show "prefix (comps (st_dir g)) (comps (snapshot_path g (v_name v) name))"
    unfolding sp by (subst comps_slash) simp_all
qed

lemma create_unfold:
  assumes "st_initialized g" "x \<noteq> []" "storage_valid_label (Some name) 128 = 0"
  shows "storage_snapshot_create os others ok e g (Some x) (Some name) =
    (case snapshot_begin os g x name of
       Inl rc \<Rightarrow> (rc, None, g)
     | Inr (vol, vp, sp) \<Rightarrow>
         (case storage_copy_tree os vp sp (st_fs (others g)) of
            (rc, fs) \<Rightarrow>
              if rc \<noteq> 0 then (rc, None, drop_copy os sp ((others g)\<lparr>st_fs := fs\<rparr>))
              else if \<not> ok then (ENOMEM, None, drop_copy os sp ((others g)\<lparr>st_fs := fs\<rparr>))
              else snapshot_register os ((others g)\<lparr>st_fs := fs\<rparr>) (new_snapshot e name vol sp) vol name sp))"
  unfolding storage_snapshot_create_def Let_def option.sel using assms by simp

lemma snapshot_created:
  assumes room: "snapshot_room g v name" and src: "walk (comps (v_path v)) (st_fs g) = Inr (Dir m es)"
    and len: "length (v_path v) + span_entries es < 512" "length (snapshot_path g (v_name v) name) + span_entries es < 512"
  obtains s g1 where "storage_snapshot_create no_faults (\<lambda>g. g) True e g (Some (v_name v)) (Some name) = (0, Some s, g1)"
    "s_name s = name" "s_volume s = v_name v" "s_path s = snapshot_path g (v_name v) name"
    "st_snapshots g1 = s # st_snapshots g" "st_volumes g1 = st_volumes g" "st_initialized g1"
    "tree_ok (st_fs g1)" "walk (comps (s_path s)) (st_fs g1) = Inr (Dir m (pruned_entries es))"
    "\<And>q. q \<parallel> comps (s_path s) \<Longrightarrow> walk q (st_fs g1) = walk q (st_fs g)"
proof -
  let ?sp = "snapshot_path g (v_name v) name"
  have r: "st_initialized g" "tree_ok (st_fs g)" "st_dir g \<noteq> []" "plain (st_dir g)"
    "storage_find_volume g (v_name v) = Some v" "storage_find_snapshot_in g (v_name v) name = None"
    "storage_valid_label (Some (v_name v)) 128 = 0" "storage_valid_label (Some name) 128 = 0"
    "way_free (st_fs g) (comps ?sp)" "\<not> exists_in (st_fs g) (comps ?sp)" "comps (v_path v) \<parallel> comps ?sp"
    using room by (auto simp: snapshot_room_def Let_def)
  note lv = label_ok [OF r(7)] and ln = label_ok [OF r(8)]
  have sp: "?sp \<noteq> []" by (simp add: snapshot_path_def)
  obtain fs' where c: "storage_copy_tree no_faults (v_path v) ?sp (st_fs g) = (0, fs')" "tree_ok fs'"
      "walk (comps ?sp) fs' = Inr (Dir m (pruned_entries es))"
      "\<And>q. q \<parallel> comps ?sp \<Longrightarrow> walk q fs' = walk q (st_fs g)" "\<And>p. dir_in (st_fs g) p \<Longrightarrow> dir_in fs' p"
      "\<And>q. prefix q (comps ?sp) \<Longrightarrow> dir_in fs' q"
    using copy_to_new [OF r(2) src snapshot_path_plain(1) [OF room] r(9,10) sp r(11) _ len(2)] len(1) by auto
  have b: "snapshot_begin no_faults g (v_name v) name = Inr (v_name v, v_path v, ?sp)"
    using r(5,6,10) src len(2)
    by (auto simp: snapshot_begin_def Let_def lstat_def no_faults_def is_dir_def exists_in_def
        cstr_simps split: sum.splits)
  let ?s = "new_snapshot e name (v_name v) ?sp"
  let ?g = "g\<lparr>st_fs := fs', st_snapshots := ?s # st_snapshots g\<rparr>"
  have sl: "length (st_dir g) < 512" using len(2) by (simp add: snapshot_path_def)
  have p: "storage_persist no_faults ?g = (0, ?g\<lparr>st_state := Some (registry_text (st_volumes g) (?s # st_snapshots g))\<rparr>)"
    using persist_ok [of ?g] r(3,4) sl c(6) [OF snapshot_path_plain(2) [OF room]] by simp
  have "storage_snapshot_create no_faults (\<lambda>g. g) True e g (Some (v_name v)) (Some name) =
      (0, Some ?s, ?g\<lparr>st_state := Some (registry_text (st_volumes g) (?s # st_snapshots g))\<rparr>)"
    using r(5,6) p lv
    by (simp add: create_unfold [OF r(1) _ r(8)] b c(1) snapshot_register_def storage_find_volume_def
        storage_find_snapshot_in_def)
  then show ?thesis
    using that r(1) c ln lv len(2) by (simp add: new_snapshot_def cstr_simps)
qed

section \<open>Restoring\<close>

lemma snapshot_restored:
  assumes g: "st_initialized g" "tree_ok (st_fs g)" "st_snapshots g = s # ss" "s_name s \<noteq> []"
    and v: "storage_find_volume g (s_volume s) = Some v" "v_readonly v = 0" "plain (v_path v)" "comps (v_path v) \<noteq> []"
    and src: "walk (comps (s_path s)) (st_fs g) = Inr (Dir m es)"
    and dst: "walk (comps (v_path v)) (st_fs g) = Inr (Dir m' es')"
    and par: "comps (s_path s) \<parallel> comps (v_path v)"
    and len: "length (s_path s) + span_entries es < 512" "length (v_path v) + span_entries es < 512"
  obtains fs' where "storage_snapshot_restore no_faults g (Some (s_name s)) None = (0, g\<lparr>st_fs := fs'\<rparr>)"
    "walk (comps (v_path v)) fs' = Inr (Dir m (pruned_entries es))"
    "\<And>q. q \<parallel> comps (v_path v) \<Longrightarrow> walk q fs' = walk q (st_fs g)"
proof -
  have l1: "length (s_path s) + span_entries es < 1023" using len(1) by simp
  from copy_over_cleared [OF g(2) src v(3) dst v(4) par l1 len(2)]
  obtain fs1 fs' where c: "storage_dir_clear no_faults (v_path v) (st_fs g) = (0, fs1)"
      "storage_copy_tree no_faults (s_path s) (v_path v) fs1 = (0, fs')"
      "walk (comps (v_path v)) fs' = Inr (Dir m (pruned_entries es))"
      "\<And>q. q \<parallel> comps (v_path v) \<Longrightarrow> walk q fs' = walk q (st_fs g)"
    by blast
  have "storage_find_snapshot g (s_name s) = Some s"
    by (simp add: storage_find_snapshot_def g(3) is_snapshot_def)
  then have "storage_snapshot_restore no_faults g (Some (s_name s)) None = (0, g\<lparr>st_fs := fs'\<rparr>)"
    using g(1,4) v(1,2) src dst c(1,2)
    by (simp add: storage_snapshot_restore_def is_dir_def lstat_def no_faults_def)
  with that c(3,4) show ?thesis by blast
qed

section \<open>Properties\<close>

text \<open>
  C3. When nothing fails, a snapshot of a volume is a copy of its directory, without special files and
  with link targets cut to 1023 characters, and nothing beside the snapshot directory changes.
  Whatever the volume holds later, restoring the snapshot gives it the directory it had when the
  snapshot was taken, and nothing beside the volume changes.
\<close>

theorem storage_snapshot_restore_refines_copy:
  assumes "snapshot_room g v name" "walk (comps (v_path v)) (st_fs g) = Inr (Dir m es)" "v_readonly v = 0"
    and "length (v_path v) + span_entries es < 512" "length (snapshot_path g (v_name v) name) + span_entries es < 512"
  shows "\<exists>s g1. storage_snapshot_create no_faults (\<lambda>g. g) True e g (Some (v_name v)) (Some name) = (0, Some s, g1) \<and>
    walk (comps (s_path s)) (st_fs g1) = Inr (Dir m (pruned_entries es)) \<and>
    (\<forall>q. q \<parallel> comps (s_path s) \<longrightarrow> walk q (st_fs g1) = walk q (st_fs g)) \<and>
    (\<forall>m' es' fs2. tree_ok (Dir m' es') \<longrightarrow> fs2 = put (comps (v_path v)) (Some (Dir m' es')) (st_fs g1) \<longrightarrow>
       (\<exists>fs3. storage_snapshot_restore no_faults (g1\<lparr>st_fs := fs2\<rparr>) (Some name) None = (0, g1\<lparr>st_fs := fs3\<rparr>) \<and>
          walk (comps (v_path v)) fs3 = Inr (Dir m (pruned_entries es)) \<and>
          (\<forall>q. q \<parallel> comps (v_path v) \<longrightarrow> walk q fs3 = walk q fs2)))"
proof -
  have r: "storage_find_volume g (v_name v) = Some v" "plain (v_path v)" "comps (v_path v) \<noteq> []" "v_name v \<noteq> []"
    "comps (v_path v) \<parallel> comps (snapshot_path g (v_name v) name)" "storage_valid_label (Some name) 128 = 0"
    using assms(1) by (auto simp: snapshot_room_def Let_def)
  let ?v = "comps (v_path v)"
  from snapshot_created [OF assms(1,2,4,5), of e] obtain s g1 where
    c: "storage_snapshot_create no_faults (\<lambda>g. g) True e g (Some (v_name v)) (Some name) = (0, Some s, g1)"
      "s_name s = name" "s_volume s = v_name v" "s_path s = snapshot_path g (v_name v) name"
      "st_snapshots g1 = s # st_snapshots g" "st_volumes g1 = st_volumes g" "st_initialized g1"
      "tree_ok (st_fs g1)" "walk (comps (s_path s)) (st_fs g1) = Inr (Dir m (pruned_entries es))"
      "\<And>q. q \<parallel> comps (s_path s) \<Longrightarrow> walk q (st_fs g1) = walk q (st_fs g)" by blast
  have "\<exists>fs3. storage_snapshot_restore no_faults (g1\<lparr>st_fs := fs2\<rparr>) (Some name) None = (0, g1\<lparr>st_fs := fs3\<rparr>) \<and>
      walk ?v fs3 = Inr (Dir m (pruned_entries es)) \<and> (\<forall>q. q \<parallel> ?v \<longrightarrow> walk q fs3 = walk q fs2)"
    if t: "tree_ok (Dir m' es')" and fs2: "fs2 = put ?v (Some (Dir m' es')) (st_fs g1)" for m' es' fs2
  proof -
    have vd: "walk ?v (st_fs g1) = Inr (Dir m es)" using c(4,10) assms(2) r(5) by simp
    obtain m1 es1 where up: "walk (butlast ?v) (st_fs g1) = Inr (Dir m1 es1)"
      using walk_up [OF vd r(3)] by (auto elim: dir_inE)
    have ok2: "tree_ok fs2" unfolding fs2 by (rule put_at_ok [OF c(8) vd]) (use t in simp)
    have w2: "walk ?v fs2 = Inr (Dir m' es')" unfolding fs2 using walk_put_same [OF c(8) up r(3)] by simp
    have s2: "walk (comps (s_path s)) fs2 = Inr (Dir m (pruned_entries es))"
      unfolding fs2 using walk_put_parallel [OF c(8)] c(4,9) r(5) by simp
    have par: "comps (s_path s) \<parallel> ?v" using r(5) c(4) parallel_commute by metis
    have sp: "span_entries (pruned_entries es) \<le> span_entries es" and
      pp: "pruned_entries (pruned_entries es) = pruned_entries es" using pruned_entries_again by auto
    have fv: "storage_find_volume (g1\<lparr>st_fs := fs2\<rparr>) (s_volume s) = Some v"
      using r(1) c(3,6) by (simp add: storage_find_volume_def)
    show ?thesis
    proof (rule snapshot_restored [of "g1\<lparr>st_fs := fs2\<rparr>" s "st_snapshots g" v])
      fix fs'
      assume "storage_snapshot_restore no_faults (g1\<lparr>st_fs := fs2\<rparr>) (Some (s_name s)) None = (0, g1\<lparr>st_fs := fs2, st_fs := fs'\<rparr>)"
        "walk ?v fs' = Inr (Dir m (pruned_entries (pruned_entries es)))"
        "\<And>q. q \<parallel> ?v \<Longrightarrow> walk q fs' = walk q (st_fs (g1\<lparr>st_fs := fs2\<rparr>))"
      then show ?thesis using c(2) pp by auto
    qed (use c ok2 fv r assms(3,4,5) s2 w2 par sp label_ok [OF r(6)] in auto)
  qed
  with c show ?thesis by blast
qed

definition demo_store :: storage where
  "demo_store =
     \<lparr>st_initialized = True, st_dir = ''/s'', st_file = ''/s/storage.state'',
      st_volumes = [\<lparr>v_id = ''1'', v_name = ''v'', v_path = ''/d'', v_desc = [], v_limit = 0, v_created = 0, v_readonly = 0\<rparr>],
      st_snapshots = [], st_fs = Dir 493 [(''d'', Dir 448 [(''f'', Reg 420 ''x'')])], st_state = None\<rparr>"

lemma demo_comps: "comps ''/d'' = [''d'']" "comps ''/s/snapshots/v/n'' = [''s'', ''snapshots'', ''v'', ''n'']" "comps ''/s'' = [''s'']"
  "plain ''/d''" "plain ''/s''"
  by (simp_all add: comps_def comp_step_def tokens.simps plain_def)

lemma demo_room: "snapshot_room demo_store (hd (st_volumes demo_store)) ''n''"
proof -
  have "way_free (st_fs demo_store) (comps ''/s/snapshots/v/n'')"
    unfolding demo_comps by (auto simp: way_free_def prefix_Cons demo_store_def dir_in_def exists_in_def)
  then show ?thesis
    by (simp add: snapshot_room_def Let_def snapshot_path_def demo_comps exists_in_def storage_find_volume_def
        is_volume_def storage_find_snapshot_in_def storage_valid_label_def name_ok_def demo_store_def Cons_parallelI1)
qed

theorem storage_snapshot_restore_refines_copy_witness:
  "\<exists>s g1 fs3. storage_snapshot_create no_faults (\<lambda>g. g) True ([], 0, 0) demo_store (Some ''v'') (Some ''n'') = (0, Some s, g1) \<and>
     storage_snapshot_restore no_faults (g1\<lparr>st_fs := put [''d''] (Some (Dir 493 [])) (st_fs g1)\<rparr>) (Some ''n'') None
       = (0, g1\<lparr>st_fs := fs3\<rparr>) \<and>
     walk [''d''] fs3 = Inr (Dir 448 [(''f'', Reg 420 ''x'')])"
proof -
  let ?v = "hd (st_volumes demo_store)"
  have v: "v_name ?v = ''v''" "v_path ?v = ''/d''" "v_readonly ?v = 0" by (simp_all add: demo_store_def)
  have w: "walk (comps (v_path ?v)) (st_fs demo_store) = Inr (Dir 448 [(''f'', Reg 420 ''x'')])"
    unfolding v demo_comps by (simp add: demo_store_def)
  have p: "length (snapshot_path demo_store (v_name ?v) ''n'') = 16" by (simp add: snapshot_path_def demo_store_def)
  have l: "length (v_path ?v) + span_entries [(''f'', Reg 420 ''x'')] < 512"
    "length (snapshot_path demo_store (v_name ?v) ''n'') + span_entries [(''f'', Reg 420 ''x'')] < 512"
    using p v by simp_all
  from storage_snapshot_restore_refines_copy [OF demo_room w v(3) l, of "([], 0, 0)"] obtain s g1 where
    c: "storage_snapshot_create no_faults (\<lambda>g. g) True ([], 0, 0) demo_store (Some ''v'') (Some ''n'') = (0, Some s, g1)"
    and r: "\<forall>m' es' fs2. tree_ok (Dir m' es') \<longrightarrow> fs2 = put [''d''] (Some (Dir m' es')) (st_fs g1) \<longrightarrow>
      (\<exists>fs3. storage_snapshot_restore no_faults (g1\<lparr>st_fs := fs2\<rparr>) (Some ''n'') None = (0, g1\<lparr>st_fs := fs3\<rparr>) \<and>
        walk [''d''] fs3 = Inr (Dir 448 (pruned_entries [(''f'', Reg 420 ''x'')])) \<and>
        (\<forall>q. q \<parallel> [''d''] \<longrightarrow> walk q fs3 = walk q fs2))"
    unfolding v demo_comps by blast
  from r [rule_format, of 493 "[]"] c show ?thesis by auto
qed

text \<open>
  Two threads take the same snapshot: both pass the first check, the first one copies and
  registers.  The second one then fails and removes the directory it thinks is its own, so the
  registered snapshot has lost its data.
\<close>

theorem storage_snapshot_race_loses_data:
  assumes ok: "tree_ok (st_fs g)" and v: "storage_find_volume g x = Some v" "length (v_name v) < 128"
    and first: "storage_snapshot_create no_faults (\<lambda>g. g) True e g (Some x) (Some name) = (0, Some s, g1)"
  shows "\<exists>rc g2. storage_snapshot_create no_faults (\<lambda>_. g1) ok' e' g (Some x) (Some name) = (rc, None, g2) \<and> rc \<noteq> 0 \<and>
    s \<in> set (st_snapshots g2) \<and> \<not> exists_in (st_fs g2) (comps (s_path s))"
proof -
  have pre: "st_initialized g" "x \<noteq> []" "storage_valid_label (Some name) 128 = 0"
    using first by (auto simp: storage_snapshot_create_def split: if_splits)
  note ln = label_ok [OF pre(3)]
  let ?sp = "cstr 512 (snapshot_path g (v_name v) name)"
  have b: "snapshot_begin no_faults g x name = Inr (v_name v, v_path v, ?sp)" and vac: "\<not> exists_in (st_fs g) (comps ?sp)"
    using first v
    by (auto simp: create_unfold [OF pre] snapshot_begin_def Let_def exists_in_def lstat_def no_faults_def
        split: sum.splits if_splits option.splits)
  have ne: "comps ?sp \<noteq> []" using vac by (auto simp: exists_in_def)
  obtain fs where c: "storage_copy_tree no_faults (v_path v) ?sp (st_fs g) = (0, fs)"
      and reg: "snapshot_register no_faults (g\<lparr>st_fs := fs\<rparr>) (new_snapshot e name (v_name v) ?sp) (v_name v) name ?sp = (0, Some s, g1)"
    using first unfolding create_unfold [OF pre] b by (auto split: prod.splits if_splits)
  have s: "s = new_snapshot e name (v_name v) ?sp" and snaps: "s \<in> set (st_snapshots g1)"
    and p: "storage_persist no_faults (g\<lparr>st_fs := fs, st_snapshots := s # st_snapshots g\<rparr>) = (0, g1)"
    using reg by (auto simp: snapshot_register_def dest: persist_registry split: if_splits prod.splits)
  have okf: "tree_ok fs" using copy_tree_ok [OF ok, of no_faults "v_path v" ?sp] c by simp
  then have ok1: "tree_ok (st_fs g1)"
    using persist_ok_tree [of "g\<lparr>st_fs := fs, st_snapshots := s # st_snapshots g\<rparr>" no_faults] p by simp
  have sp: "s_path s = ?sp" "s_name s = name" "s_volume s = v_name v"
    using s ln v(2) by (simp_all add: new_snapshot_def cstr_simps)
  obtain rc fs2 where c2: "storage_copy_tree no_faults (v_path v) ?sp (st_fs g1) = (rc, fs2)" by force
  let ?g = "g1\<lparr>st_fs := fs2\<rparr>"
  have ok2: "tree_ok fs2" using copy_tree_ok [OF ok1, of no_faults "v_path v" ?sp] c2 by simp
  have found: "storage_find_snapshot_in ?g (v_name v) name \<noteq> None"
    using snaps sp by (auto simp: storage_find_snapshot_in_def find_None)
  have gone: "\<not> exists_in (st_fs (drop_copy no_faults ?sp ?g)) (comps ?sp)"
    using rm_rf_gone [OF ok2 ne] by (simp add: drop_copy_def)
  have kept: "s \<in> set (st_snapshots (drop_copy no_faults ?sp ?g))" using snaps by (simp add: drop_copy_def)
  have "\<exists>rc2. storage_snapshot_create no_faults (\<lambda>_. g1) ok' e' g (Some x) (Some name) =
      (rc2, None, drop_copy no_faults ?sp ?g) \<and> rc2 \<noteq> 0"
    unfolding create_unfold [OF pre] b using c2 found
    by (cases "rc = 0"; cases ok'; cases "storage_find_volume ?g (v_name v)") (auto simp: snapshot_register_def)
  with gone kept sp(1) show ?thesis by auto
qed

theorem storage_snapshot_race_loses_data_witness:
  "\<exists>s g1 rc g2. storage_snapshot_create no_faults (\<lambda>g. g) True ([], 0, 0) demo_store (Some ''v'') (Some ''n'') = (0, Some s, g1) \<and>
     storage_snapshot_create no_faults (\<lambda>_. g1) True ([], 1, 0) demo_store (Some ''v'') (Some ''n'') = (rc, None, g2) \<and>
     rc \<noteq> 0 \<and> s \<in> set (st_snapshots g2) \<and> \<not> exists_in (st_fs g2) (comps (s_path s))"
proof -
  let ?v = "hd (st_volumes demo_store)"
  have v: "v_name ?v = ''v''" "v_path ?v = ''/d''" by (simp_all add: demo_store_def)
  have w: "walk (comps (v_path ?v)) (st_fs demo_store) = Inr (Dir 448 [(''f'', Reg 420 ''x'')])"
    unfolding v demo_comps by (simp add: demo_store_def)
  have p: "length (snapshot_path demo_store (v_name ?v) ''n'') = 16" by (simp add: snapshot_path_def demo_store_def)
  have l: "length (v_path ?v) + span_entries [(''f'', Reg 420 ''x'')] < 512"
    "length (snapshot_path demo_store (v_name ?v) ''n'') + span_entries [(''f'', Reg 420 ''x'')] < 512"
    using p v by simp_all
  from snapshot_created [OF demo_room w l, of "([], 0, 0)"] obtain s g1 where
    c: "storage_snapshot_create no_faults (\<lambda>g. g) True ([], 0, 0) demo_store (Some ''v'') (Some ''n'') = (0, Some s, g1)"
    unfolding v by metis
  have ok: "tree_ok (st_fs demo_store)" by (simp add: demo_store_def name_ok_def)
  have f: "storage_find_volume demo_store ''v'' = Some ?v"
    by (simp add: storage_find_volume_def demo_store_def is_volume_def)
  have n: "length (v_name ?v) < 128" by (simp add: v)
  from storage_snapshot_race_loses_data [OF ok f n c, of True "([], 1, 0)"] c show ?thesis by blast
qed

text \<open>
  A volume that holds the state directory cannot be snapshot: the copy of a directory into itself
  always ends, and it ends with an error, whatever else fails.  No snapshot is registered.
\<close>

theorem storage_snapshot_of_state_dir_ends:
  assumes "tree_ok (st_fs g)" "storage_find_volume g x = Some v"
    and "comps (snapshot_path g (v_name v) name) = comps (v_path v) @ r" "r \<noteq> []"
    and "length (v_path v) \<le> length (snapshot_path g (v_name v) name)"
    and "length (snapshot_path g (v_name v) name) < 512"
  shows "\<exists>rc g'. storage_snapshot_create os (\<lambda>g. g) ok e g (Some x) (Some name) = (rc, None, g') \<and> rc \<noteq> 0 \<and>
    st_snapshots g' = st_snapshots g"
proof (cases "st_initialized g \<and> x \<noteq> [] \<and> storage_valid_label (Some name) 128 = 0")
  case False
  then show ?thesis by (auto simp: storage_snapshot_create_def)
next
  case True
  then have pre: "st_initialized g" "x \<noteq> []" "storage_valid_label (Some name) 128 = 0" by auto
  let ?sp = "snapshot_path g (v_name v) name"
  show ?thesis
  proof (cases "snapshot_begin os g x name")
    case (Inl rc)
    then have "rc \<noteq> 0"
      using assms(2) by (auto simp: snapshot_begin_def Let_def split: if_splits sum.splits)
    then show ?thesis unfolding create_unfold [OF pre] Inl by simp
  next
    case (Inr y)
    with assms(2,6) have b: "snapshot_begin os g x name = Inr (v_name v, v_path v, ?sp)"
      and d: "is_dir (lstat os (st_fs g) (v_path v))"
      by (auto simp: snapshot_begin_def Let_def cstr_simps split: if_splits sum.splits)
    from d have "dir_in (st_fs g) (comps (v_path v))"
      by (auto simp: is_dir_def lstat_def dir_in_def split: if_splits)
    from copy_into_itself [OF assms(1) this assms(3-5)]
    have "storage_copy_tree os (v_path v) ?sp (st_fs g) \<noteq> (0, fs)" for fs .
    moreover obtain rc fs where c: "storage_copy_tree os (v_path v) ?sp (st_fs g) = (rc, fs)" by force
    ultimately have "rc \<noteq> 0" by auto
    then show ?thesis unfolding create_unfold [OF pre] b using c by (simp add: drop_copy_def)
  qed
qed

definition self_store :: storage where
  "self_store = demo_store\<lparr>st_dir := ''/d'', st_file := ''/d/storage.state''\<rparr>"

theorem storage_snapshot_of_state_dir_ends_witness:
  "\<exists>rc g'. storage_snapshot_create no_faults (\<lambda>g. g) True ([], 0, 0) self_store (Some ''v'') (Some ''n'') = (rc, None, g') \<and>
     rc \<noteq> 0 \<and> st_snapshots g' = []"
proof -
  let ?v = "hd (st_volumes demo_store)"
  have ok: "tree_ok (st_fs self_store)" by (simp add: self_store_def demo_store_def name_ok_def)
  have f: "storage_find_volume self_store ''v'' = Some ?v"
    by (simp add: storage_find_volume_def self_store_def demo_store_def is_volume_def)
  have p: "snapshot_path self_store (v_name ?v) ''n'' = ''/d/snapshots/v/n''" "v_path ?v = ''/d''"
    by (simp_all add: snapshot_path_def self_store_def demo_store_def)
  have c: "comps (snapshot_path self_store (v_name ?v) ''n'') = comps (v_path ?v) @ [''snapshots'', ''v'', ''n'']"
    unfolding p by (simp add: comps_def comp_step_def tokens.simps)
  have l: "length (v_path ?v) \<le> length (snapshot_path self_store (v_name ?v) ''n'')"
    "length (snapshot_path self_store (v_name ?v) ''n'') < 512" unfolding p by simp_all
  have "st_snapshots self_store = []" by (simp add: self_store_def demo_store_def)
  with storage_snapshot_of_state_dir_ends [OF ok f c _ l, of no_faults True "([], 0, 0)"] show ?thesis by simp
qed

text \<open>
  A volume whose path names the root in another way than \<open>/\<close> (\<open>//\<close>, \<open>/.\<close>, \<open>/..\<close>) is accepted and
  gets past the check of \<open>storage_delete_volume\<close>: removing the volume removes everything.
\<close>

theorem storage_delete_volume_wipes_root:
  assumes "p \<in> {''//'', ''/.'', ''/..''}" "st_initialized g" "x \<noteq> []" "storage_find_volume g x = Some v" "v_path v = p"
    and "v_readonly v = 0" "st_fs g = Dir m es"
  shows "storage_valid_path (Some p) = 0 \<and> storage_delete_volume no_faults g (Some x) = (EBUSY, g\<lparr>st_fs := Dir m []\<rparr>)"
proof
  show "storage_valid_path (Some p) = 0" using assms(1) by (auto simp: storage_valid_path_def)
  have c: "comps p = []" "p \<noteq> [SLASH]" using assms(1) by (auto simp: comps_def comp_step_def tokens.simps)
  then have "storage_rm_rf no_faults p (Dir m es) = (EBUSY, Dir m [])"
    by (simp add: storage_rm_rf_def rm_node_no_faults del: rm_node.simps)
  then show "storage_delete_volume no_faults g (Some x) = (EBUSY, g\<lparr>st_fs := Dir m []\<rparr>)"
    using assms c by (simp add: storage_delete_volume_def storage_find_volume_def lstat_def no_faults_def)
qed

definition root_store :: storage where
  "root_store = demo_store\<lparr>st_volumes := map (\<lambda>v. v\<lparr>v_path := ''//''\<rparr>) (st_volumes demo_store)\<rparr>"

theorem storage_delete_volume_wipes_root_witness:
  "storage_delete_volume no_faults root_store (Some ''v'') = (EBUSY, root_store\<lparr>st_fs := Dir 493 []\<rparr>)"
  using storage_delete_volume_wipes_root [of "''//''" root_store "''v''" "hd (st_volumes root_store)" 493]
  by (simp add: root_store_def demo_store_def storage_find_volume_def is_volume_def)

end
