(* ===== verification/StorageRegistry.thy ===== *)
theory StorageRegistry
  imports StorageSnapshots
begin

text \<open>
  The volume and snapshot registry of STORAGE: what a restart makes of it, the invariant its operations
  keep, and how snapshots are found by name.
\<close>

section \<open>Reading the state file back\<close>

definition line_end_ok :: "string \<Rightarrow> bool" where
  "line_end_ok s \<longleftrightarrow> NL \<notin> set s \<and> (s = [] \<or> \<not> blank_char (last s))"

definition volume_clean :: "volume \<Rightarrow> bool" where
  "volume_clean v \<longleftrightarrow>
     v_id v \<noteq> [] \<and> length (v_id v) < 40 \<and> line_end_ok (v_id v) \<and>
     v_name v \<noteq> [] \<and> length (v_name v) < 128 \<and> line_end_ok (v_name v) \<and>
     v_path v \<noteq> [] \<and> length (v_path v) < 512 \<and> line_end_ok (v_path v) \<and>
     length (v_desc v) < 256 \<and> line_end_ok (v_desc v) \<and>
     v_limit v < 2 ^ 64 \<and> v_created v < 2 ^ 64 \<and> - (2 ^ 31) \<le> v_readonly v \<and> v_readonly v < 2 ^ 31"

definition snapshot_clean :: "snapshot \<Rightarrow> bool" where
  "snapshot_clean s \<longleftrightarrow>
     s_id s \<noteq> [] \<and> length (s_id s) < 40 \<and> line_end_ok (s_id s) \<and>
     s_name s \<noteq> [] \<and> length (s_name s) < 128 \<and> line_end_ok (s_name s) \<and>
     s_volume s \<noteq> [] \<and> length (s_volume s) < 128 \<and> line_end_ok (s_volume s) \<and>
     s_path s \<noteq> [] \<and> length (s_path s) < 512 \<and> line_end_ok (s_path s) \<and>
     s_created s < 2 ^ 64 \<and> - (2 ^ 31) \<le> s_active s \<and> s_active s < 2 ^ 31"

lemma strtrim_line:
  assumes "x = [] \<or> \<not> blank_char (hd x) \<and> \<not> blank_char (last x)"
  shows "storage_strtrim (x @ [NL]) = x"
proof (cases "x = []")
  case True
  then show ?thesis by (simp add: storage_strtrim_def trim_by_def blank_char_def)
next
  case False
  have "dropWhile blank_char (x @ [NL]) = x @ [NL]" using False assms by (intro dropWhile_id) auto
  moreover have "blank_char NL" by (simp add: blank_char_def)
  ultimately show ?thesis using False assms by (simp add: storage_strtrim_def trim_by_def rtrim_id)
qed

lemma not_blank_digit: "isdigit c \<Longrightarrow> \<not> blank_char c \<and> c \<noteq> NL"
  by (auto simp: blank_char_def isdigit_def)

lemma digits_end: "\<forall>c \<in> set s. isdigit c \<Longrightarrow> line_end_ok s"
  unfolding line_end_ok_def by (meson last_in_set not_blank_digit)

lemma show_nat_end: "line_end_ok (show_nat n)"
  by (rule digits_end) (auto dest: show_nat_digits)

lemma show_int_end: "line_end_ok (show_int i)"
  using show_nat_end [of "nat (- i)"] show_nat_end [of "nat i"]
  by (auto simp: line_end_ok_def show_int_def)

text \<open>A line with a key and a value sets the field.\<close>

definition key_ok :: "string \<Rightarrow> bool" where
  "key_ok k \<longleftrightarrow> k \<noteq> [] \<and> CHR ''='' \<notin> set k \<and> \<not> blank_char (hd k) \<and> hd k \<noteq> CHR ''#''"

lemma load_field:
  assumes "key_ok k" "line_end_ok val"
  shows "load_line l ((k @ ''='' @ val) @ [NL]) =
    (case ld_cur l of
       REC_NONE \<Rightarrow> l
     | REC_VOL \<Rightarrow>
         let v = set_volume_field k val (ld_vol l) in
         l\<lparr>ld_vol := v, ld_have := (ld_have l \<or> v_id v \<noteq> [] \<and> v_name v \<noteq> [] \<and> v_path v \<noteq> [])\<rparr>
     | REC_SNAP \<Rightarrow>
         let s = set_snapshot_field k val (ld_snap l) in
         l\<lparr>ld_snap := s,
           ld_have := (ld_have l \<or> s_id s \<noteq> [] \<and> s_name s \<noteq> [] \<and> s_volume s \<noteq> [] \<and> s_path s \<noteq> [])\<rparr>)"
proof -
  let ?p = "k @ ''='' @ val"
  have k: "k \<noteq> []" "CHR ''='' \<notin> set k" "\<not> blank_char (hd k)" "hd k \<noteq> CHR ''#''"
    using assms(1) by (auto simp: key_ok_def)
  have "\<not> blank_char (last ?p)" using assms(2) by (auto simp: line_end_ok_def blank_char_def)
  then have t: "storage_strtrim (?p @ [NL]) = ?p" using k by (intro strtrim_line) auto
  have "CHR ''='' \<in> set ?p" by simp
  moreover have "CHR ''='' \<notin> set ''volume''" "CHR ''='' \<notin> set ''snapshot''" by simp_all
  ultimately have "?p \<noteq> ''volume''" "?p \<noteq> ''snapshot''" by metis+
  moreover have "split_first (CHR ''='') ?p = (k, Some val)" using k(2) by simp
  ultimately show ?thesis
    unfolding load_line_def t using k by (simp add: Let_def)
qed

definition finished :: "loading \<Rightarrow> volume list \<times> snapshot list" where
  "finished l = (ld_volumes (commit_record l), ld_snapshots (commit_record l))"

lemma load_head:
  "load_line l (''volume'' @ [NL]) = (commit_record l)\<lparr>ld_cur := REC_VOL, ld_vol := volume0, ld_have := False\<rparr>"
  "load_line l (''snapshot'' @ [NL]) = (commit_record l)\<lparr>ld_cur := REC_SNAP, ld_snap := snapshot0, ld_have := False\<rparr>"
  "load_line l ([] @ [NL]) = l"
  using strtrim_line [of "''volume''"] strtrim_line [of "''snapshot''"] strtrim_line [of "[]"]
  by (simp_all add: load_line_def blank_char_def)

lemma keys_ok:
  "key_ok ''id''" "key_ok ''name''" "key_ok ''path''" "key_ok ''size_limit''" "key_ok ''readonly''"
  "key_ok ''created_at''" "key_ok ''description''" "key_ok ''volume''" "key_ok ''active''"
  by (simp_all add: key_ok_def blank_char_def)

lemma int32_field: "- (2 ^ 31) \<le> i \<Longrightarrow> i < 2 ^ 31 \<Longrightarrow> to_int32 (fst (strtol (show_int i))) = i"
  by (subst strtol_show_int) (auto simp: to_int32_id)

lemma load_volume:
  assumes "volume_clean v"
  shows "foldl load_line l (map (\<lambda>x. x @ [NL]) (vol_lines v)) =
    (commit_record l)\<lparr>ld_cur := REC_VOL, ld_vol := v, ld_have := True\<rparr>"
proof -
  note c = assms [unfolded volume_clean_def]
  have lines: "map (\<lambda>x. x @ [NL]) (vol_lines v) =
      [''volume'' @ [NL], (''id'' @ ''='' @ v_id v) @ [NL], (''name'' @ ''='' @ v_name v) @ [NL],
       (''path'' @ ''='' @ v_path v) @ [NL], (''size_limit'' @ ''='' @ show_nat (v_limit v)) @ [NL],
       (''readonly'' @ ''='' @ show_int (v_readonly v)) @ [NL],
       (''created_at'' @ ''='' @ show_nat (v_created v)) @ [NL],
       (''description'' @ ''='' @ v_desc v) @ [NL], [] @ [NL]]"
    by (simp add: vol_lines_def)
  show ?thesis
    unfolding lines foldl.simps load_head
    using c
    by (simp add: load_field keys_ok show_nat_end show_int_end set_volume_field_def volume0_def cstr_simps Let_def
        strtoull_show_nat int32_field del: append.simps append_assoc)
qed

lemma load_snapshot:
  assumes "snapshot_clean s"
  shows "foldl load_line l (map (\<lambda>x. x @ [NL]) (snap_lines s)) =
    (commit_record l)\<lparr>ld_cur := REC_SNAP, ld_snap := s, ld_have := True\<rparr>"
proof -
  note c = assms [unfolded snapshot_clean_def]
  have lines: "map (\<lambda>x. x @ [NL]) (snap_lines s) =
      [''snapshot'' @ [NL], (''id'' @ ''='' @ s_id s) @ [NL], (''name'' @ ''='' @ s_name s) @ [NL],
       (''volume'' @ ''='' @ s_volume s) @ [NL], (''path'' @ ''='' @ s_path s) @ [NL],
       (''created_at'' @ ''='' @ show_nat (s_created s)) @ [NL],
       (''active'' @ ''='' @ show_int (s_active s)) @ [NL], [] @ [NL]]"
    by (simp add: snap_lines_def)
  show ?thesis
    unfolding lines foldl.simps load_head
    using c
    by (simp add: load_field keys_ok show_nat_end show_int_end set_snapshot_field_def snapshot0_def cstr_simps Let_def
        strtoull_show_nat int32_field del: append.simps append_assoc)
qed

text \<open>Each block adds one record, as long as memory lasts.\<close>

lemma commit_allocs: "ld_allocs l = [] \<Longrightarrow> ld_allocs (commit_record l) = []"
  by (cases "ld_cur l") (simp_all add: commit_record_def Let_def)

lemma finished_block:
  assumes "ld_allocs l = []"
  shows "volume_clean v \<Longrightarrow> finished (foldl load_line l (map (\<lambda>x. x @ [NL]) (vol_lines v)))
      = (v # fst (finished l), snd (finished l))"
    and "snapshot_clean s \<Longrightarrow> finished (foldl load_line l (map (\<lambda>x. x @ [NL]) (snap_lines s)))
      = (fst (finished l), s # snd (finished l))"
  using commit_allocs [OF assms]
  by (simp_all add: load_volume load_snapshot finished_def commit_record_def [of "_\<lparr>ld_have := True\<rparr>"] Let_def)

lemma block_allocs:
  "ld_allocs l = [] \<Longrightarrow> volume_clean v \<Longrightarrow> ld_allocs (foldl load_line l (map (\<lambda>x. x @ [NL]) (vol_lines v))) = []"
  "ld_allocs l = [] \<Longrightarrow> snapshot_clean s \<Longrightarrow> ld_allocs (foldl load_line l (map (\<lambda>x. x @ [NL]) (snap_lines s))) = []"
  by (simp_all add: load_volume load_snapshot commit_allocs)

abbreviation in_lines :: "string list \<Rightarrow> string list" where
  "in_lines ls \<equiv> map (\<lambda>x. x @ [NL]) ls"

lemma finished_volumes:
  "ld_allocs l = [] \<Longrightarrow> \<forall>v \<in> set vs. volume_clean v \<Longrightarrow>
     finished (foldl load_line l (in_lines (concat (map vol_lines vs)))) = (rev vs @ fst (finished l), snd (finished l)) \<and>
     ld_allocs (foldl load_line l (in_lines (concat (map vol_lines vs)))) = []"
  by (induction vs arbitrary: l) (simp_all add: finished_block block_allocs)

lemma finished_snapshots:
  "ld_allocs l = [] \<Longrightarrow> \<forall>s \<in> set ss. snapshot_clean s \<Longrightarrow>
     finished (foldl load_line l (in_lines (concat (map snap_lines ss)))) = (fst (finished l), rev ss @ snd (finished l))"
  by (induction ss arbitrary: l) (simp_all add: finished_block block_allocs)

lemma header_line:
  "load_line l (storage_header1 @ [NL]) = l" "load_line l (storage_header2 @ [NL]) = l"
proof -
  have "storage_strtrim (storage_header1 @ [NL]) = storage_header1" "storage_header1 \<noteq> []" "hd storage_header1 = CHR ''#''"
    "storage_strtrim (storage_header2 @ [NL]) = storage_header2" "storage_header2 \<noteq> []" "hd storage_header2 = CHR ''#''"
    by code_simp+
  then show "load_line l (storage_header1 @ [NL]) = l" "load_line l (storage_header2 @ [NL]) = l"
    by (simp_all add: load_line_def)
qed

lemma header_plain:
  "NL \<notin> set storage_header1" "NL \<notin> set storage_header2"
  "length storage_header1 < 200" "length storage_header2 < 200"
  by code_simp+

text \<open>Every line fits the buffer of the loader.\<close>

lemma length_show_int32: "- (2 ^ 31) \<le> i \<Longrightarrow> i < 2 ^ 31 \<Longrightarrow> length (show_int i) \<le> 21"
proof -
  assume i: "- (2 ^ 31) \<le> i" "i < 2 ^ 31"
  then have "nat (- i) < 10 ^ 20" "nat i < 10 ^ 20" by simp_all
  then have "length (show_nat (nat (- i))) \<le> 20" "length (show_nat (nat i)) \<le> 20"
    by (intro length_show_nat; simp)+
  then show ?thesis by (simp add: show_int_def)
qed

lemma length_show_64: "n < 2 ^ 64 \<Longrightarrow> length (show_nat n) \<le> 20"
  by (rule length_show_nat) simp_all

lemma line_end_no_newline: "line_end_ok s \<Longrightarrow> NL \<notin> set s"
  by (simp add: line_end_ok_def)

lemma vol_lines_fit:
  assumes "volume_clean v"
  shows "\<forall>l \<in> set (vol_lines v). NL \<notin> set l \<and> length l + 1 < 2048"
proof -
  note c = assms [unfolded volume_clean_def]
  have "length (show_nat (v_limit v)) \<le> 20" "length (show_nat (v_created v)) \<le> 20"
    "length (show_int (v_readonly v)) \<le> 21"
    using c by (auto intro!: length_show_64 length_show_int32)
  then show ?thesis
    using c by (simp add: vol_lines_def line_end_no_newline show_nat_end show_int_end)
qed

lemma snap_lines_fit:
  assumes "snapshot_clean s"
  shows "\<forall>l \<in> set (snap_lines s). NL \<notin> set l \<and> length l + 1 < 2048"
proof -
  note c = assms [unfolded snapshot_clean_def]
  have "length (show_nat (s_created s)) \<le> 20" "length (show_int (s_active s)) \<le> 21"
    using c by (auto intro!: length_show_64 length_show_int32)
  then show ?thesis
    using c by (simp add: snap_lines_def line_end_no_newline show_nat_end show_int_end)
qed

definition registry_clean :: "volume list \<times> snapshot list \<Rightarrow> bool" where
  "registry_clean r \<longleftrightarrow> (\<forall>v \<in> set (fst r). volume_clean v) \<and> (\<forall>s \<in> set (snd r). snapshot_clean s)"

definition load_text :: "string \<Rightarrow> volume list \<times> snapshot list" where
  "load_text text = finished (foldl load_line (load_start [] [] []) (fgets_all 2048 text))"

lemma load_registry_text:
  assumes "registry_clean (vs, ss)"
  shows "load_text (registry_text vs ss) = (rev vs, rev ss)"
proof -
  let ?ls = "[storage_header1, storage_header2, []] @ concat (map vol_lines vs) @ concat (map snap_lines ss)"
  have "\<forall>l \<in> set ?ls. NL \<notin> set l \<and> length l + 1 < 2048"
    using assms vol_lines_fit snap_lines_fit header_plain by (auto simp: registry_clean_def)
  from fgets_all_lines [OF this, of "[]"]
  have f: "fgets_all 2048 (registry_text vs ss) = in_lines ?ls" by (simp add: registry_text_def)
  have "foldl load_line (load_start [] [] []) (in_lines [storage_header1, storage_header2, []]) = load_start [] [] []"
    using header_line load_head(3) by simp
  then have "foldl load_line (load_start [] [] []) (in_lines ?ls) =
      foldl load_line (foldl load_line (load_start [] [] []) (in_lines (concat (map vol_lines vs))))
        (in_lines (concat (map snap_lines ss)))"
    by (simp only: map_append foldl_append)
  moreover have "finished (load_start [] [] []) = ([], [])" "ld_allocs (load_start [] [] []) = []"
    by (simp_all add: finished_def commit_record_def load_start_def)
  ultimately show ?thesis
    using assms finished_volumes [of "load_start [] [] []" vs] finished_snapshots
    unfolding load_text_def f by (simp add: registry_clean_def)
qed

definition rev_registry :: "volume list \<times> snapshot list \<Rightarrow> volume list \<times> snapshot list" where
  "rev_registry r = (rev (fst r), rev (snd r))"

interpretation state_file: persistent registry_clean "\<lambda>r. registry_text (fst r) (snd r)" load_text rev_registry
  by unfold_locales (auto simp: load_registry_text rev_registry_def registry_clean_def)

text \<open>A blank at the end of a line is lost.\<close>

lemma load_line_blank: "blank_char c \<Longrightarrow> load_line l ((x @ [c]) @ [NL]) = load_line l (x @ [NL])"
proof -
  assume c: "blank_char c"
  have "storage_strtrim ((x @ [c]) @ [NL]) = storage_strtrim (x @ [NL])"
  proof (cases "dropWhile blank_char x = []")
    case True
    then have "\<forall>c \<in> set x. blank_char c" by simp
    then have "dropWhile blank_char ((x @ [c]) @ [NL]) = []" "dropWhile blank_char (x @ [NL]) = []"
      using c by (simp_all add: blank_char_def)
    then show ?thesis by (simp add: storage_strtrim_def trim_by_def)
  next
    case False
    then obtain y where "y \<in> set x" "\<not> blank_char y" by auto
    then have d: "dropWhile blank_char (x @ ys) = dropWhile blank_char x @ ys" for ys by (rule dropWhile_append1)
    have b: "blank_char NL" by (simp add: blank_char_def)
    let ?d = "dropWhile blank_char x"
    have "rtrim blank_char (?d @ [c] @ [NL]) = rtrim blank_char ?d" "rtrim blank_char (?d @ [NL]) = rtrim blank_char ?d"
      using rtrim_snoc [of blank_char "?d @ [c]" NL] rtrim_snoc [of blank_char ?d] b c by simp_all
    then show ?thesis by (simp add: storage_strtrim_def trim_by_def d)
  qed
  then show ?thesis by (simp add: load_line_def)
qed

lemma load_line_trim: "load_line l (rtrim blank_char x @ [NL]) = load_line l (x @ [NL])"
proof (induction x rule: rev_induct)
  case (snoc c x)
  then show ?case using load_line_blank [of c l x] by (cases "blank_char c") simp_all
qed simp

lemma load_blank_path:
  assumes "volume_clean v" "length (v_path v) < 511"
  shows "load_text (registry_text [v\<lparr>v_path := v_path v @ '' ''\<rparr>] []) = ([v], [])"
proof -
  let ?w = "v\<lparr>v_path := v_path v @ '' ''\<rparr>"
  let ?ls = "\<lambda>v. [storage_header1, storage_header2, []] @ concat (map vol_lines [v]) @ concat (map snap_lines [])"
  have fit: "\<forall>l \<in> set (?ls v). NL \<notin> set l \<and> length l + 1 < 2048" "\<forall>l \<in> set (?ls ?w). NL \<notin> set l \<and> length l + 1 < 2048"
    using vol_lines_fit [OF assms(1)] header_plain assms(2) by (auto simp: vol_lines_def)
  have t: "fgets_all 2048 (registry_text [v] []) = in_lines (?ls v)"
    if "\<forall>l \<in> set (?ls v). NL \<notin> set l \<and> length l + 1 < 2048" for v
    using fgets_all_lines [OF that, of "[]"] by (simp add: registry_text_def)
  have "foldl load_line l (in_lines (vol_lines ?w)) = foldl load_line l (in_lines (vol_lines v))" for l
    using load_line_blank [of "CHR '' ''" _ "''path='' @ v_path v"] by (simp add: vol_lines_def blank_char_def)
  then have "load_text (registry_text [?w] []) = load_text (registry_text [v] [])"
    unfolding load_text_def t [OF fit(1)] t [OF fit(2)] by simp
  also have "\<dots> = ([v], [])" using load_registry_text [of "[v]" "[]"] assms(1) by (simp add: registry_clean_def)
  finally show ?thesis .
qed

text \<open>Two volumes whose names differ in a blank at the end have the same name after a restart.\<close>

lemma blank_names_collide:
  assumes v: "volume_clean v" "length (v_name v) < 127" and w: "volume_clean w" "v_name w = v_name v"
  shows "load_text (registry_text [w\<lparr>v_name := v_name w @ '' ''\<rparr>, v] []) = ([v, w], [])"
proof -
  let ?w = "w\<lparr>v_name := v_name w @ '' ''\<rparr>"
  let ?ls = "\<lambda>w. [storage_header1, storage_header2, []] @ concat (map vol_lines [w, v]) @ concat (map snap_lines [])"
  have fit: "\<forall>l \<in> set (?ls w). NL \<notin> set l \<and> length l + 1 < 2048" "\<forall>l \<in> set (?ls ?w). NL \<notin> set l \<and> length l + 1 < 2048"
    using vol_lines_fit [OF v(1)] vol_lines_fit [OF w(1)] header_plain v(2) w(2) by (auto simp: vol_lines_def)
  have t: "fgets_all 2048 (registry_text [w, v] []) = in_lines (?ls w)"
    if "\<forall>l \<in> set (?ls w). NL \<notin> set l \<and> length l + 1 < 2048" for w
    using fgets_all_lines [OF that, of "[]"] by (simp add: registry_text_def)
  have "foldl load_line l (in_lines (vol_lines ?w)) = foldl load_line l (in_lines (vol_lines w))" for l
    using load_line_blank [of "CHR '' ''" _ "''name='' @ v_name w"] by (simp add: vol_lines_def blank_char_def)
  then have "load_text (registry_text [?w, v] []) = load_text (registry_text [w, v] [])"
    unfolding load_text_def t [OF fit(1)] t [OF fit(2)] by simp
  also have "\<dots> = ([v, w], [])" using load_registry_text [of "[w, v]" "[]"] v(1) w(1) by (simp add: registry_clean_def)
  finally show ?thesis .
qed

section \<open>What a restart makes of a registry\<close>

text \<open>
  A volume that the state file can hold: its texts have no newline, and none of them but the description ends in a
  blank.  It comes back with the blanks at the end of its description lost.
\<close>

definition trim_desc :: "volume \<Rightarrow> volume" where
  "trim_desc v = v\<lparr>v_desc := rtrim blank_char (v_desc v)\<rparr>"

definition storable :: "volume \<Rightarrow> bool" where
  "storable v \<longleftrightarrow> volume_clean (trim_desc v) \<and> length (v_desc v) < 256 \<and> NL \<notin> set (v_desc v)"

lemma trim_desc_simps [simp]:
  "v_name (trim_desc v) = v_name v" "v_path (trim_desc v) = v_path v" "trim_desc (trim_desc v) = trim_desc v"
proof -
  have "rtrim blank_char (rtrim blank_char x) = rtrim blank_char x" for x
    by (rule rtrim_id) (use rtrim_last in blast)
  then show "trim_desc (trim_desc v) = trim_desc v" by (simp add: trim_desc_def)
qed (simp_all add: trim_desc_def)

lemma storable_trim_desc: "storable v \<Longrightarrow> storable (trim_desc v)"
proof -
  assume "storable v"
  then have c: "volume_clean (trim_desc v)" by (simp add: storable_def)
  then have "length (v_desc (trim_desc v)) < 256 \<and> NL \<notin> set (v_desc (trim_desc v))"
    by (simp add: volume_clean_def line_end_ok_def)
  with c show "storable (trim_desc v)" by (simp add: storable_def)
qed

lemma storable_lines_fit: "storable v \<Longrightarrow> \<forall>l \<in> set (vol_lines v). NL \<notin> set l \<and> length l + 1 < 2048"
  using vol_lines_fit [of "trim_desc v"] by (auto simp: storable_def vol_lines_def trim_desc_def)

lemma rtrim_append: "a \<noteq> [] \<Longrightarrow> \<not> P (last a) \<Longrightarrow> rtrim P (a @ d) = a @ rtrim P d"
proof (induction d rule: rev_induct)
  case (snoc c d)
  then show ?case using rtrim_snoc [of P "a @ d" c] by simp
qed (simp add: rtrim_id)

lemma load_trimmed:
  "foldl load_line l (in_lines (vol_lines v)) = foldl load_line l (in_lines (vol_lines (trim_desc v)))"
proof -
  have "rtrim blank_char (''description='' @ d) = ''description='' @ rtrim blank_char d" for d
    by (rule rtrim_append) (simp_all add: blank_char_def)
  then have "load_line m ((''description='' @ rtrim blank_char d) @ [NL]) = load_line m ((''description='' @ d) @ [NL])" for m d
    using load_line_trim by metis
  then show ?thesis by (simp add: vol_lines_def trim_desc_def)
qed

text \<open>Records are dropped where memory fails; the others come back, the last one of the file first.\<close>

lemma finished_block_any:
  "storable v \<Longrightarrow> finished (foldl load_line l (in_lines (vol_lines v)))
      \<in> {(trim_desc v # fst (finished l), snd (finished l)), finished l}"
  "snapshot_clean s \<Longrightarrow> finished (foldl load_line l (in_lines (snap_lines s)))
      \<in> {(fst (finished l), s # snd (finished l)), finished l}"
  by (auto simp: load_trimmed [of l v] storable_def load_volume load_snapshot finished_def
      commit_record_def [of "_\<lparr>ld_have := True\<rparr>"] Let_def split: prod.split)

lemma loaded_volumes:
  "\<forall>v \<in> set vs. storable v \<Longrightarrow> \<exists>us. subseq us (rev (map trim_desc vs)) \<and>
     finished (foldl load_line l (in_lines (concat (map vol_lines vs)))) = (us @ fst (finished l), snd (finished l))"
proof (induction vs arbitrary: l)
  case (Cons v vs)
  let ?m = "foldl load_line l (in_lines (vol_lines v))"
  from Cons obtain us where us: "subseq us (rev (map trim_desc vs))"
    "finished (foldl load_line ?m (in_lines (concat (map vol_lines vs)))) = (us @ fst (finished ?m), snd (finished ?m))"
    by (metis list.set_intros(2))
  from finished_block_any(1) [of v l] Cons.prems consider
    "finished ?m = (trim_desc v # fst (finished l), snd (finished l))" | "finished ?m = finished l" by auto
  then show ?case
  proof cases
    case 1
    then show ?thesis using us by (intro exI [of _ "us @ [trim_desc v]"]) simp
  next
    case 2
    then show ?thesis using us by (intro exI [of _ us]) (simp add: subseq_rev_drop_many)
  qed
qed (intro exI [of _ "[]"], simp)

lemma loaded_snapshots:
  "\<forall>s \<in> set ss. snapshot_clean s \<Longrightarrow> \<exists>ts. subseq ts (rev ss) \<and>
     finished (foldl load_line l (in_lines (concat (map snap_lines ss)))) = (fst (finished l), ts @ snd (finished l))"
proof (induction ss arbitrary: l)
  case (Cons s ss)
  let ?m = "foldl load_line l (in_lines (snap_lines s))"
  from Cons obtain ts where ts: "subseq ts (rev ss)"
    "finished (foldl load_line ?m (in_lines (concat (map snap_lines ss)))) = (fst (finished ?m), ts @ snd (finished ?m))"
    by (metis list.set_intros(2))
  from finished_block_any(2) [of s l] Cons.prems consider
    "finished ?m = (fst (finished l), s # snd (finished l))" | "finished ?m = finished l" by auto
  then show ?case
  proof cases
    case 1
    then show ?thesis using ts by (intro exI [of _ "ts @ [s]"]) simp
  next
    case 2
    then show ?thesis using ts by (intro exI [of _ ts]) (simp add: subseq_rev_drop_many)
  qed
qed (intro exI [of _ "[]"], simp)

lemma loaded_registry:
  assumes "\<forall>v \<in> set vs. storable v" "\<forall>s \<in> set ss. snapshot_clean s"
  shows "\<exists>us ts. subseq us (rev (map trim_desc vs)) \<and> subseq ts (rev ss) \<and>
    finished (foldl load_line (load_start al [] []) (fgets_all 2048 (registry_text vs ss))) = (us, ts)"
proof -
  let ?ls = "[storage_header1, storage_header2, []] @ concat (map vol_lines vs) @ concat (map snap_lines ss)"
  have "\<forall>l \<in> set ?ls. NL \<notin> set l \<and> length l + 1 < 2048"
    using assms storable_lines_fit snap_lines_fit header_plain by auto
  from fgets_all_lines [OF this, of "[]"]
  have f: "fgets_all 2048 (registry_text vs ss) = in_lines ?ls" by (simp add: registry_text_def)
  let ?l0 = "load_start al [] []"
  let ?l1 = "foldl load_line ?l0 (in_lines (concat (map vol_lines vs)))"
  have "foldl load_line ?l0 (in_lines [storage_header1, storage_header2, []]) = ?l0"
    using header_line load_head(3) by simp
  then have run: "foldl load_line ?l0 (in_lines ?ls) = foldl load_line ?l1 (in_lines (concat (map snap_lines ss)))"
    by (simp only: map_append foldl_append)
  have "finished ?l0 = ([], [])" by (simp add: finished_def commit_record_def load_start_def)
  then obtain us where us: "subseq us (rev (map trim_desc vs))" "finished ?l1 = (us, [])"
    using loaded_volumes [OF assms(1), of ?l0] by auto
  obtain ts where "subseq ts (rev ss)"
    "finished (foldl load_line ?l1 (in_lines (concat (map snap_lines ss)))) = (us, ts)"
    using loaded_snapshots [OF assms(2), of ?l1] us(2) by auto
  then show ?thesis unfolding f run using us(1) by blast
qed

section \<open>The invariant of the registry\<close>

definition registry :: "storage \<Rightarrow> volume list \<times> snapshot list" where
  "registry g = (st_volumes g, st_snapshots g)"

definition registry_wf :: "volume list \<times> snapshot list \<Rightarrow> bool" where
  "registry_wf r \<longleftrightarrow>
     distinct (map v_name (fst r)) \<and> distinct (map v_path (fst r)) \<and>
     distinct (map (\<lambda>s. (s_volume s, s_name s)) (snd r)) \<and>
     (\<forall>v \<in> set (fst r). storage_valid_label (Some (v_name v)) 128 = 0 \<and> storage_valid_path (Some (v_path v)) = 0 \<and> storable v) \<and>
     (\<forall>s \<in> set (snd r). snapshot_clean s)"

text \<open>
  The invariant of a state: the registry is well-formed, and so is the one in the state file, which may be an older
  one where writing it has failed.
\<close>

definition storage_inv :: "storage \<Rightarrow> bool" where
  "storage_inv g \<longleftrightarrow> registry_wf (registry g) \<and>
     (\<forall>text. st_state g = Some text \<longrightarrow> (\<exists>r. registry_wf r \<and> text = registry_text (fst r) (snd r))) \<and>
     length (st_dir g) < 240 \<and> NL \<notin> set (st_dir g)"

lemma subseq_distinct: "subseq xs ys \<Longrightarrow> distinct ys \<Longrightarrow> distinct xs"
  by (metis distinct_nthsI subseq_conv_nths)

lemma set_subseq: "subseq xs ys \<Longrightarrow> set xs \<subseteq> set ys"
  by (induction rule: list_emb.induct) auto

lemma registry_wf_subseq:
  assumes "registry_wf (vs, ss)" "subseq us (rev (map trim_desc vs))" "subseq ts (rev ss)"
  shows "registry_wf (us, ts)"
proof -
  have "distinct (map f us)" if "distinct (map f vs)" "\<And>v. f (trim_desc v) = f v" for f :: "volume \<Rightarrow> 'b"
  proof -
    have "map f (rev (map trim_desc vs)) = rev (map f vs)" using that(2) by (simp add: rev_map comp_def)
    then show ?thesis using subseq_distinct [OF subseq_map [OF assms(2), of f]] that(1) by simp
  qed
  moreover have "distinct (map f ts)" if "distinct (map f ss)" for f :: "snapshot \<Rightarrow> 'b"
    using subseq_distinct [OF subseq_map [OF assms(3), of f]] that by (simp flip: rev_map)
  moreover have "set us \<subseteq> trim_desc ` set vs" "set ts \<subseteq> set ss"
    using set_subseq [OF assms(2)] set_subseq [OF assms(3)] by simp_all
  ultimately show ?thesis
    using assms(1) by (auto simp: registry_wf_def storable_trim_desc)
qed

lemma storage_inv_fs [simp]: "storage_inv (g\<lparr>st_fs := fs\<rparr>) = storage_inv g"
  by (simp add: storage_inv_def registry_def)

lemma persist_inv: "storage_inv g \<Longrightarrow> storage_inv (snd (storage_persist os g))"
  by (auto simp: storage_persist_def storage_inv_def registry_def Let_def split: prod.split)

lemma remove_volume_inv: "storage_inv g \<Longrightarrow> storage_inv (g\<lparr>st_volumes := remove_first P (st_volumes g)\<rparr>)"
  using set_remove_first [of P "st_volumes g"]
  by (auto simp: storage_inv_def registry_def registry_wf_def distinct_map_remove_first)

lemma remove_snapshot_inv: "storage_inv g \<Longrightarrow> storage_inv (g\<lparr>st_snapshots := remove_first P (st_snapshots g)\<rparr>)"
  using set_remove_first [of P "st_snapshots g"]
  by (auto simp: storage_inv_def registry_def registry_wf_def distinct_map_remove_first)

text \<open>A registry taken back after the state file could not be written.\<close>

lemma revert_inv:
  assumes "storage_inv g" "storage_inv h" "st_volumes h' = st_volumes g" "st_snapshots h' = st_snapshots g"
    "st_state h' = st_state h" "st_dir h' = st_dir h"
  shows "storage_inv h'"
  using assms by (simp add: storage_inv_def registry_def)

lemma path_ok: "storage_valid_path (Some p) = 0 \<Longrightarrow> length p < 512 \<and> p \<noteq> [] \<and> NL \<notin> set p"
  by (simp add: storage_valid_path_def split: if_splits)

lemma gen_id_clean: "gen_id e \<noteq> [] \<and> length (gen_id e) < 40 \<and> line_end_ok (gen_id e)"
proof -
  obtain rnd now pid where e: "e = (rnd, now, pid)" by (cases e)
  have fill: "length (fill_bytes n x) = n" for n x by (induction n x rule: fill_bytes.induct) (simp_all add: Let_def)
  have len: "length (gen_id e) = 32" by (simp add: gen_id_def e storage_gen_id_def Let_def fill)
  moreover have "is_hex c" if "c \<in> set (gen_id e)" for c
    using that set_to_hex by (auto simp: gen_id_def e storage_gen_id_def Let_def)
  moreover have "\<not> blank_char c \<and> c \<noteq> NL" if "is_hex c" for c
    using that by (auto simp: is_hex_def blank_char_def)
  ultimately show ?thesis using last_in_set [of "gen_id e"] by (force simp: line_end_ok_def)
qed

text \<open>The texts of a new volume: none but the description ends in a blank, and numbers are those of C.\<close>

definition ends_clean :: "string \<Rightarrow> bool" where
  "ends_clean x \<longleftrightarrow> x = [] \<or> \<not> blank_char (last x)"

definition def_clean :: "vol_def \<Rightarrow> bool" where
  "def_clean d \<longleftrightarrow> pred_option ends_clean (vd_name d) \<and> pred_option ends_clean (vd_path d) \<and> vd_limit d < 2 ^ 64"

lemma new_volume_storable:
  assumes "storage_valid_label (Some name) 128 = 0" "storage_valid_path (Some path) = 0" "ends_clean name" "ends_clean path"
    "vd_limit d < 2 ^ 64"
  shows "storable (new_volume e name path d)"
proof -
  have desc: "length (storage_sanitize_desc 256 x) < 256" "NL \<notin> set (storage_sanitize_desc 256 x)" for x
    by (auto simp: storage_sanitize_desc_def split: option.split dest: in_set_takeD)
  have len: "length (rtrim blank_char (storage_sanitize_desc 256 x)) < 256" for x
    using desc(1) [of x] length_rtrim [of blank_char "storage_sanitize_desc 256 x"] by simp
  have "line_end_ok (rtrim blank_char (storage_sanitize_desc 256 x))" for x
    using desc(2) [of x] rtrim_last [of blank_char "storage_sanitize_desc 256 x"] set_rtrim
    by (auto simp: line_end_ok_def)
  moreover have "stamp_time e < 2 ^ 64" using unsigned_less [of "fst (snd e)"] by (simp add: stamp_time_def)
  ultimately show ?thesis
    using desc len assms label_ok [OF assms(1)] path_ok [OF assms(2)] gen_id_clean [of e]
    by (auto simp: storable_def volume_clean_def trim_desc_def new_volume_def cstr_simps ends_clean_def line_end_ok_def)
qed

text \<open>A volume is added in front, or nothing changes in the registry.\<close>

definition addable :: "storage \<Rightarrow> string \<Rightarrow> string \<Rightarrow> bool" where
  "addable g name path \<longleftrightarrow>
     st_initialized g \<and> storage_valid_label (Some name) 128 = 0 \<and> storage_valid_path (Some path) = 0 \<and>
     storage_find_volume g name = None \<and> \<not> (\<exists>x \<in> set (st_volumes g). v_path x = path)"

lemma add_volume_inv:
  assumes "storage_inv g" "addable g name path" "ends_clean name" "ends_clean path" "vd_limit def < 2 ^ 64"
  shows "storage_inv (g\<lparr>st_fs := fs, st_volumes := new_volume e name path def # st_volumes g\<rparr>)"
proof -
  have ad: "storage_valid_label (Some name) 128 = 0" "storage_valid_path (Some path) = 0" "storage_find_volume g name = None"
    "\<forall>x \<in> set (st_volumes g). v_path x \<noteq> path"
    using assms(2) by (auto simp: addable_def)
  have new: "v_name (new_volume e name path def) = name" "v_path (new_volume e name path def) = path"
    using label_ok [OF ad(1)] path_ok [OF ad(2)] by (simp_all add: new_volume_def cstr_simps)
  have "\<forall>x \<in> set (st_volumes g). v_name x \<noteq> name"
    using ad(3) by (auto simp: storage_find_volume_def find_None is_volume_def)
  with assms(1) ad new new_volume_storable [OF ad(1,2) assms(3-5)] show ?thesis
    by (auto simp: storage_inv_def registry_def registry_wf_def)
qed

lemma create_volume_inv:
  assumes inv: "storage_inv g" and c: "storage_create_volume os ok e g d = (rc, out, g')" and d: "pred_option def_clean d"
  shows "storage_inv g'"
proof (cases "\<exists>def name path. d = Some def \<and> vd_name def = Some name \<and> vd_path def = Some path \<and> addable g name path")
  case False
  have "g' = g"
  proof (cases d)
    case None
    with c show ?thesis by (simp add: storage_create_volume_def)
  next
    case (Some def)
    show ?thesis
    proof (cases "vd_name def = None \<or> vd_path def = None")
      case True
      with c Some show ?thesis by (auto simp: storage_create_volume_def)
    next
      case no: False
      then obtain name path where n: "vd_name def = Some name" "vd_path def = Some path" by auto
      with False Some have "\<not> addable g name path" by blast
      with c show ?thesis
        unfolding storage_create_volume_def Some option.case n addable_def
        by (simp split: if_splits)
    qed
  qed
  then show ?thesis using inv by simp
next
  case True
  then obtain def name path where d': "d = Some def" "vd_name def = Some name" "vd_path def = Some path"
    and ad: "addable g name path" by blast
  obtain rc1 made fs1 where vd: "volume_dir os (st_fs g) path = (rc1, made, fs1)" by (metis prod.exhaust)
  let ?g = "g\<lparr>st_fs := fs1, st_volumes := new_volume e name path def # st_volumes g\<rparr>"
  obtain rc2 g1 where p: "storage_persist os ?g = (rc2, g1)" by force
  have "storage_inv ?g" by (rule add_volume_inv [OF inv ad]) (use d d' in \<open>simp_all add: def_clean_def\<close>)
  from persist_inv [OF this, of os] p have g1: "storage_inv g1" by simp
  have "st_snapshots g1 = st_snapshots g" using persist_registry [OF p] by simp
  then have "storage_inv (g1\<lparr>st_volumes := st_volumes g, st_fs := fs\<rparr>)" for fs
    by (intro revert_inv [OF inv g1]) simp_all
  with inv g1 c ad show ?thesis
    unfolding storage_create_volume_def d' option.case addable_def
    by (auto simp: vd p Let_def split: if_splits)
qed

lemma delete_volume_inv:
  assumes "storage_inv g" "storage_delete_volume os g x = (rc, g')"
  shows "storage_inv g'"
proof -
  have "storage_inv (g\<lparr>st_fs := fs, st_volumes := remove_first P (st_volumes g)\<rparr>)" for fs P
    using remove_volume_inv [OF assms(1), of P] by (simp add: storage_inv_def registry_def)
  then have "storage_inv (snd (storage_persist os (g\<lparr>st_fs := fs, st_volumes := remove_first P (st_volumes g)\<rparr>)))" for fs P
    by (rule persist_inv)
  then have "storage_inv (snd (storage_delete_volume os g x))"
    using assms(1) by (auto simp: storage_delete_volume_def split: option.splits prod.splits)
  with assms(2) show ?thesis by simp
qed

lemma unregister_volume_inv:
  assumes "storage_inv g" "storage_unregister_volume os g x = (rc, g')"
  shows "storage_inv g'"
proof -
  have "storage_inv (snd (storage_unregister_volume os g x))"
    using assms(1) persist_inv [OF remove_volume_inv [OF assms(1)]]
    by (auto simp: storage_unregister_volume_def split: option.splits)
  with assms(2) show ?thesis by simp
qed

lemma snapshot_delete_inv:
  assumes "storage_inv g" "storage_snapshot_delete os g x = (rc, g')"
  shows "storage_inv g'"
proof -
  have "storage_inv (snd (storage_persist os (g\<lparr>st_snapshots := remove_first P (st_snapshots g)\<rparr>)))" for P
    by (rule persist_inv [OF remove_snapshot_inv [OF assms(1)]])
  then have w: "storage_inv g1" if "storage_persist os (g\<lparr>st_snapshots := remove_first P (st_snapshots g)\<rparr>) = (rc, g1)" for P rc g1
    using that by (metis snd_conv)
  have "storage_inv (snd (storage_snapshot_delete os g x))"
    using assms(1) by (auto simp: storage_snapshot_delete_def dest: w split: option.splits prod.splits)
  with assms(2) show ?thesis by simp
qed

lemma snapshot_restore_inv:
  assumes "storage_inv g" "storage_snapshot_restore os g x t = (rc, g')"
  shows "storage_inv g'"
proof -
  have "storage_inv (snd (storage_snapshot_restore os g x t))"
    using assms(1) unfolding storage_snapshot_restore_def
    by (auto split: option.splits prod.splits)
  with assms(2) show ?thesis by simp
qed

lemma drop_copy_inv: "storage_inv g \<Longrightarrow> storage_inv (drop_copy os sp g)"
  by (simp add: drop_copy_def)

lemma new_snapshot_clean:
  assumes "storage_valid_label (Some name) 128 = 0" "ends_clean name" and vol: "vol \<noteq> []" "length vol < 128" "line_end_ok vol"
    and dir: "length (st_dir g) < 240" "NL \<notin> set (st_dir g)"
  shows "snapshot_clean (new_snapshot e name vol (cstr 512 (snapshot_path g vol name)))"
proof -
  note n = label_ok [OF assms(1)]
  have sp: "cstr 512 (snapshot_path g vol name) = snapshot_path g vol name" "length (snapshot_path g vol name) < 512"
    using n vol(2) dir(1) by (simp_all add: snapshot_path_def cstr_id)
  have "line_end_ok (snapshot_path g vol name)" "snapshot_path g vol name \<noteq> []"
    using n assms(2) vol(3) dir(2) by (auto simp: snapshot_path_def line_end_ok_def ends_clean_def)
  moreover have "stamp_time e < 2 ^ 64" using unsigned_less [of "fst (snd e)"] by (simp add: stamp_time_def)
  ultimately show ?thesis
    using sp n assms(2) vol gen_id_clean [of e]
    by (auto simp: snapshot_clean_def new_snapshot_def cstr_simps line_end_ok_def ends_clean_def)
qed

lemma snapshot_register_inv:
  assumes inv: "storage_inv g" and s: "snapshot_clean s" "s_volume s = vol" "s_name s = name"
  shows "storage_inv (snd (snd (snapshot_register os g s vol name sp)))"
proof (cases "storage_find_volume g vol = None \<or> storage_find_snapshot_in g vol name \<noteq> None")
  case True
  with drop_copy_inv [OF inv] show ?thesis by (auto simp: snapshot_register_def)
next
  case False
  obtain rc g1 where p: "storage_persist os (g\<lparr>st_snapshots := s # st_snapshots g\<rparr>) = (rc, g1)" by force
  have "storage_inv (g\<lparr>st_snapshots := s # st_snapshots g\<rparr>)"
    using False inv s
    by (auto simp: storage_inv_def registry_def registry_wf_def storage_find_snapshot_in_def find_None)
  from persist_inv [OF this, of os] p have g1: "storage_inv g1" by simp
  have "storage_inv (g1\<lparr>st_snapshots := st_snapshots g\<rparr>)"
    using persist_registry [OF p] by (intro revert_inv [OF inv g1]) simp_all
  with g1 drop_copy_inv False p show ?thesis by (auto simp: snapshot_register_def)
qed

lemma snapshot_create_inv:
  assumes "storage_inv g" "storage_inv (others g)"
    and c: "storage_snapshot_create os others ok e g x n = (rc, out, g')" and n: "pred_option ends_clean n"
  shows "storage_inv g'"
proof (cases "\<exists>y m. x = Some y \<and> n = Some m \<and> st_initialized g \<and> y \<noteq> [] \<and> storage_valid_label (Some m) 128 = 0")
  case False
  then have "g' = g" using c by (auto simp: storage_snapshot_create_def split: if_splits)
  with assms(1) show ?thesis by simp
next
  case True
  then obtain y m where x: "x = Some y" "n = Some m" and pre: "st_initialized g" "y \<noteq> []" "storage_valid_label (Some m) 128 = 0"
    by blast
  show ?thesis
  proof (cases "snapshot_begin os g y m")
    case (Inl e)
    with c assms(1) show ?thesis unfolding x create_unfold [OF pre] by simp
  next
    case (Inr t)
    obtain vol vp sp where t: "t = (vol, vp, sp)" by (cases t)
    from Inr t obtain v where "storage_find_volume g y = Some v" and vol: "vol = v_name v" and sp: "sp = cstr 512 (snapshot_path g vol m)"
      by (auto simp: snapshot_begin_def Let_def split: option.splits if_splits sum.splits)
    then have "v \<in> set (st_volumes g)" by (auto simp: storage_find_volume_def dest: find_SomeD)
    with assms(1) have v: "vol \<noteq> []" "length vol < 128" "line_end_ok vol"
      by (auto simp: storage_inv_def registry_def registry_wf_def storable_def volume_clean_def vol)
    have "snapshot_clean (new_snapshot e m vol sp)"
      unfolding sp by (rule new_snapshot_clean [OF pre(3) _ v]) (use n x assms(1) in \<open>simp_all add: storage_inv_def\<close>)
    moreover have "s_volume (new_snapshot e m vol sp) = vol" "s_name (new_snapshot e m vol sp) = m"
      using v(2) label_ok [OF pre(3)] by (simp_all add: new_snapshot_def cstr_simps)
    ultimately have reg: "storage_inv (snd (snd (snapshot_register os ((others g)\<lparr>st_fs := fs\<rparr>) (new_snapshot e m vol sp) vol m sp)))" for fs
      using assms(2) by (intro snapshot_register_inv) simp_all
    have "storage_inv (drop_copy os sp ((others g)\<lparr>st_fs := fs\<rparr>))" for fs
      using assms(2) by (intro drop_copy_inv) simp
    with c reg show ?thesis
      unfolding x create_unfold [OF pre] Inr t by (auto split: prod.splits if_splits dest: arg_cong [where f = "\<lambda>r. storage_inv (snd (snd r))"])
  qed
qed

lemma init_cases:
  assumes "storage_impl_init os al (Some (st_dir g)) g = (rc, g')"
  shows "st_state g' = st_state g" and "st_dir g' \<in> {[], st_dir g, ''/var/lib/hwrun''}"
    and "registry g' = ([], []) \<or> (\<exists>tx. st_state g = Some tx \<and>
      registry g' = finished (foldl load_line (load_start al [] []) (fgets_all 2048 tx)))"
  using assms
  by (auto simp: storage_impl_init_def storage_load_def Let_def registry_def finished_def split: if_splits option.splits)

lemma init_inv:
  assumes inv: "storage_inv g" and i: "storage_impl_init os al (Some (st_dir g)) g = (rc, g')"
  shows "storage_inv g'"
proof -
  have "registry_wf (registry g')"
  proof (cases "registry g' = ([], [])")
    case True
    then show ?thesis by (simp add: registry_wf_def)
  next
    case False
    then obtain tx where tx: "st_state g = Some tx"
      "registry g' = finished (foldl load_line (load_start al [] []) (fgets_all 2048 tx))"
      using init_cases(3) [OF i] by blast
    then obtain r where r: "registry_wf r" "tx = registry_text (fst r) (snd r)" using inv by (auto simp: storage_inv_def)
    have "\<forall>v \<in> set (fst r). storable v" "\<forall>s \<in> set (snd r). snapshot_clean s" using r(1) by (simp_all add: registry_wf_def)
    from loaded_registry [OF this, of al] obtain us ts where
      sub: "subseq us (rev (map trim_desc (fst r)))" "subseq ts (rev (snd r))" and l: "registry g' = (us, ts)"
      unfolding tx(2) r(2) by metis
    show ?thesis unfolding l by (rule registry_wf_subseq [OF _ sub]) (use r(1) in simp)
  qed
  moreover have "length (st_dir g') < 240 \<and> NL \<notin> set (st_dir g')"
    using init_cases(2) [OF i] inv by (auto simp: storage_inv_def)
  ultimately show ?thesis using inv by (simp add: storage_inv_def init_cases(1) [OF i])
qed

lemma shutdown_inv: "storage_inv g \<Longrightarrow> storage_inv (storage_impl_shutdown g)"
  by (simp add: storage_impl_shutdown_def storage_inv_def registry_def registry_wf_def)

text \<open>
  What a process and its successors can reach: any operation with any outcome of its system calls and of memory,
  where no name or path that is given ends in a blank; a snapshot during whose copy other threads went on; a
  shutdown; and a start, after a shutdown or a crash, from the state file as it is then.
\<close>

inductive sreach :: "storage \<Rightarrow> storage \<Rightarrow> bool" where
  fresh: "sreach g g"
| create: "sreach g h \<Longrightarrow> pred_option def_clean d \<Longrightarrow> storage_create_volume os ok e h d = (rc, out, h') \<Longrightarrow> sreach g h'"
| delete: "sreach g h \<Longrightarrow> storage_delete_volume os h x = (rc, h') \<Longrightarrow> sreach g h'"
| unregister: "sreach g h \<Longrightarrow> storage_unregister_volume os h x = (rc, h') \<Longrightarrow> sreach g h'"
| snapshot: "sreach g h \<Longrightarrow> sreach h k \<Longrightarrow> pred_option ends_clean n \<Longrightarrow>
    storage_snapshot_create os (\<lambda>_. k) ok e h x n = (rc, s, h') \<Longrightarrow> sreach g h'"
| restore: "sreach g h \<Longrightarrow> storage_snapshot_restore os h x t = (rc, h') \<Longrightarrow> sreach g h'"
| snapshot_delete: "sreach g h \<Longrightarrow> storage_snapshot_delete os h x = (rc, h') \<Longrightarrow> sreach g h'"
| shutdown: "sreach g h \<Longrightarrow> sreach g (storage_impl_shutdown h)"
| start: "sreach g h \<Longrightarrow> storage_impl_init os al (Some (st_dir h)) h = (rc, h') \<Longrightarrow> sreach g h'"

text \<open>The registry and the state file agree, and nothing in them is changed by reading it back.\<close>

definition in_sync :: "storage \<Rightarrow> bool" where
  "in_sync g \<longleftrightarrow> registry_clean (registry g) \<and> st_state g = Some (registry_text (st_volumes g) (st_snapshots g))"

lemma restart_registry:
  assumes "in_sync g" "storage_impl_init os [] env (storage_impl_shutdown g) = (rc, g')"
  shows "registry g' = rev_registry (registry g) \<or> registry g' = ([], [])"
    and "rc = 0 \<Longrightarrow> os OPEN (comps (st_file g')) = 0 \<Longrightarrow> registry g' = rev_registry (registry g)"
proof -
  have fs: "st_state (storage_impl_shutdown g) = Some (registry_text (st_volumes g) (st_snapshots g))"
    using assms(1) by (simp add: in_sync_def storage_impl_shutdown_def)
  have t: "finished (foldl load_line (load_start [] [] []) (fgets_all 2048 (registry_text (st_volumes g) (st_snapshots g))))
      = (rev (st_volumes g), rev (st_snapshots g))"
    using load_registry_text [of "st_volumes g" "st_snapshots g"] assms(1)
    by (simp add: in_sync_def registry_def load_text_def)
  show "registry g' = rev_registry (registry g) \<or> registry g' = ([], [])"
    using assms(2) t fs
    by (auto simp: storage_impl_init_def storage_load_def Let_def registry_def rev_registry_def finished_def split: if_splits)
  show "rc = 0 \<Longrightarrow> os OPEN (comps (st_file g')) = 0 \<Longrightarrow> registry g' = rev_registry (registry g)"
    using assms(2) t fs
    by (auto simp: storage_impl_init_def storage_load_def Let_def registry_def rev_registry_def finished_def split: if_splits)
qed

lemma sreach_inv: "sreach g h \<Longrightarrow> storage_inv g \<Longrightarrow> storage_inv h"
proof (induction rule: sreach.induct)
  case (create g h d os ok e rc out h')
  from create_volume_inv [OF create.IH [OF create.prems] create.hyps(3,2)] show ?case .
next
  case (delete g h os x rc h')
  from delete_volume_inv [OF delete.IH [OF delete.prems] delete.hyps(2)] show ?case .
next
  case (unregister g h os x rc h')
  from unregister_volume_inv [OF unregister.IH [OF unregister.prems] unregister.hyps(2)] show ?case .
next
  case (snapshot g h k n os ok e x rc s h')
  have h: "storage_inv h" by (rule snapshot.IH(1) [OF snapshot.prems])
  from snapshot_create_inv [OF h snapshot.IH(2) [OF h] snapshot.hyps(4,3)] show ?case .
next
  case (restore g h os x t rc h')
  from snapshot_restore_inv [OF restore.IH [OF restore.prems] restore.hyps(2)] show ?case .
next
  case (snapshot_delete g h os x rc h')
  from snapshot_delete_inv [OF snapshot_delete.IH [OF snapshot_delete.prems] snapshot_delete.hyps(2)] show ?case .
next
  case (shutdown g h)
  then show ?case by (simp add: shutdown_inv)
next
  case (start g h os al rc h')
  from init_inv [OF start.IH [OF start.prems] start.hyps(2)] show ?case .
qed

lemma init_loads:
  assumes "st_state g = Some text" "d \<noteq> []" "length d < 240"
  obtains g1 where "storage_impl_init no_faults [] (Some d) (storage_impl_shutdown g) = (0, g1)"
    "registry g1 = load_text text" "st_initialized g1" "st_fs g1 = st_fs g" "st_dir g1 = d"
proof -
  define h where "h = storage_impl_shutdown g"
  have h: "st_state h = Some text" "st_fs h = st_fs g" using assms(1) by (simp_all add: h_def storage_impl_shutdown_def)
  have "\<exists>g1. storage_impl_init no_faults [] (Some d) h = (0, g1) \<and> registry g1 = load_text text \<and>
      st_initialized g1 \<and> st_fs g1 = st_fs g \<and> st_dir g1 = d"
    using assms(2,3) h
    by (simp add: storage_impl_init_def storage_load_def no_faults_def Let_def registry_def load_text_def finished_def)
  with that show ?thesis unfolding h_def by blast
qed

lemma create_keeps_dir: "storage_create_volume os ok e g d = (rc, out, h) \<Longrightarrow> st_dir h = st_dir g"
  by (auto simp: storage_create_volume_def Let_def split: option.splits if_splits prod.splits dest: persist_registry)

section \<open>Properties\<close>

text \<open>
  C4. As long as no name and no path that is given ends in a blank: in every state STORAGE reaches from a fresh
  state directory, with a path of less than 240 bytes and no newline, whatever system calls and allocations fail, whatever other threads do during a copy, and across
  shutdowns, crashes and starts from the state file as it is then, also an outdated one, volume names and paths are
  distinct and proper, and a volume has at most one snapshot of each name.
\<close>

theorem storage_registry_invariant:
  assumes "st_volumes g = []" "st_snapshots g = []" "st_state g = None" "length (st_dir g) < 240" "NL \<notin> set (st_dir g)"
    and "sreach g h"
  shows "distinct (map v_name (st_volumes h)) \<and> distinct (map v_path (st_volumes h)) \<and>
    distinct (map (\<lambda>s. (s_volume s, s_name s)) (st_snapshots h)) \<and>
    (\<forall>v \<in> set (st_volumes h). storage_valid_label (Some (v_name v)) 128 = 0 \<and> storage_valid_path (Some (v_path v)) = 0)"
proof -
  have "storage_inv g" using assms(1-5) by (simp add: storage_inv_def registry_def registry_wf_def)
  from sreach_inv [OF assms(6) this] have "registry_wf (registry h)" by (simp only: storage_inv_def)
  then show ?thesis by (simp add: registry_def registry_wf_def)
qed

definition fresh_store :: storage where
  "fresh_store = demo_store\<lparr>st_volumes := []\<rparr>"

definition demo_def :: "string \<Rightarrow> string \<Rightarrow> vol_def" where
  "demo_def n p = \<lparr>vd_name = Some n, vd_path = Some p, vd_limit = 0, vd_readonly = 0, vd_desc = Some ''blank ''\<rparr>"

theorem storage_registry_invariant_witness:
  "distinct (map v_path (st_volumes (snd (storage_impl_init no_faults [True, False] (Some ''/s'') (storage_impl_shutdown
     (snd (snd (storage_create_volume no_faults True ([], 0, 0) fresh_store (Some (demo_def ''w'' ''/e'')))))))))) "
proof -
  let ?r = "storage_create_volume no_faults True ([], 0, 0) fresh_store (Some (demo_def ''w'' ''/e''))"
  obtain rc out h where r: "?r = (rc, out, h)" by (metis prod.exhaust)
  have "pred_option def_clean (Some (demo_def ''w'' ''/e''))"
    by (simp add: def_clean_def demo_def_def ends_clean_def blank_char_def)
  from sreach.create [OF sreach.fresh this r] have h: "sreach fresh_store h" .
  have "st_dir h = ''/s''" using create_keeps_dir [OF r] by (simp add: fresh_store_def demo_store_def)
  then have d: "st_dir (storage_impl_shutdown h) = ''/s''" by (simp add: storage_impl_shutdown_def)
  obtain rc' k where k: "storage_impl_init no_faults [True, False] (Some ''/s'') (storage_impl_shutdown h) = (rc', k)" by force
  have "sreach fresh_store k" by (rule sreach.start [OF sreach.shutdown [OF h], unfolded d, OF k])
  from storage_registry_invariant [OF _ _ _ _ _ this] have "distinct (map v_path (st_volumes k))"
    by (simp add: fresh_store_def demo_store_def)
  then show ?thesis by (simp only: r k snd_conv)
qed

text \<open>
  A registry whose texts have no trailing blanks survives a restart up to the order of its
  entries: the lists come back reversed, so a second restart gives exactly the first registry back.
\<close>

theorem storage_restart_reverses:
  assumes "in_sync g" "storage_impl_init no_faults [] (Some (st_dir g)) (storage_impl_shutdown g) = (0, g')"
  shows "st_volumes g' = rev (st_volumes g) \<and> st_snapshots g' = rev (st_snapshots g) \<and>
    st_fs g' = st_fs g \<and> state_file.restarted (2 * n) (registry g) = registry g"
proof -
  have r: "registry g' = rev_registry (registry g)"
    using restart_registry(2) [OF assms] by (simp add: no_faults_def)
  have "(rev_registry ^^ (2 * n)) x = x" for x
    by (induction n) (simp_all add: rev_registry_def)
  with state_file.restarted_norm [of "registry g" "2 * n"] assms(1)
  have "state_file.restarted (2 * n) (registry g) = registry g" by (simp add: in_sync_def)
  moreover have "st_fs g' = st_fs g"
    using assms(2) by (auto simp: storage_impl_init_def storage_load_def Let_def storage_impl_shutdown_def
        split: if_splits option.splits)
  ultimately show ?thesis using r by (simp add: registry_def rev_registry_def)
qed

definition pair_store :: storage where
  "pair_store =
     (let vs = [\<lparr>v_id = ''1'', v_name = ''a'', v_path = ''/a'', v_desc = ''x'', v_limit = 5, v_created = 7, v_readonly = 0\<rparr>,
                \<lparr>v_id = ''2'', v_name = ''b'', v_path = ''/b'', v_desc = [], v_limit = 0, v_created = 8, v_readonly = 1\<rparr>]
      in demo_store\<lparr>st_volumes := vs, st_state := Some (registry_text vs [])\<rparr>)"

theorem storage_restart_reverses_witness:
  "map v_name (st_volumes (snd (storage_impl_init no_faults [] (Some ''/s'') (storage_impl_shutdown pair_store)))) = [''b'', ''a'']"
proof -
  have d: "st_dir pair_store = ''/s''" by (simp add: pair_store_def demo_store_def Let_def)
  have s: "in_sync pair_store"
    by (simp add: in_sync_def pair_store_def demo_store_def registry_def registry_clean_def volume_clean_def
        line_end_ok_def blank_char_def Let_def)
  obtain g' where g': "storage_impl_init no_faults [] (Some ''/s'') (storage_impl_shutdown pair_store) = (0, g')"
    using init_loads [of pair_store _ "''/s''"] s by (force simp: in_sync_def)
  have n: "map v_name (st_volumes pair_store) = [''a'', ''b'']" by (simp add: pair_store_def Let_def)
  from storage_restart_reverses [OF s, unfolded d, OF g'] have "st_volumes g' = rev (st_volumes pair_store)" by blast
  then have "map v_name (st_volumes g') = rev (map v_name (st_volumes pair_store))" by (simp only: rev_map)
  then show ?thesis by (simp add: g' n)
qed

text \<open>
  A volume whose path ends in a blank is accepted, and the blank is lost when the registry is read
  back: after a restart the volume is the directory without the blank, and deleting the volume
  deletes that directory.
\<close>

theorem storage_trailing_blank_redirects:
  assumes v: "volume_clean v" "v_readonly v = 0" "v_path v \<noteq> [SLASH]" "comps (v_path v) \<noteq> []"
    and p: "storage_valid_path (Some (v_path v @ '' '')) = 0"
    and g: "registry g = ([v\<lparr>v_path := v_path v @ '' ''\<rparr>], [])" "st_state g = Some (registry_text (st_volumes g) (st_snapshots g))"
    and fs: "tree_ok (st_fs g)" "dir_in (st_fs g) (comps (v_path v))"
      "st_dir g \<noteq> []" "length (st_dir g) < 240" "plain (st_dir g)" "dir_in (st_fs g) (comps (st_dir g))"
      "comps (v_path v) \<parallel> comps (st_dir g)"
  shows "\<exists>g1 g2. storage_impl_init no_faults [] (Some (st_dir g)) (storage_impl_shutdown g) = (0, g1) \<and>
    st_volumes g1 = [v] \<and> storage_delete_volume no_faults g1 (Some (v_name v)) = (0, g2) \<and>
    \<not> exists_in (st_fs g2) (comps (v_path v))"
proof -
  have lp: "length (v_path v) < 511" using path_ok [OF p] by simp
  obtain g1 where i: "storage_impl_init no_faults [] (Some (st_dir g)) (storage_impl_shutdown g) = (0, g1)"
    "st_volumes g1 = [v]" "st_initialized g1" "st_fs g1 = st_fs g" "st_dir g1 = st_dir g"
    using init_loads [OF g(2) fs(3,4)] load_blank_path [OF v(1) lp] g(1) by (auto simp: registry_def)
  let ?fs = "put (comps (v_path v)) None (st_fs g)"
  obtain m es where w: "walk (comps (v_path v)) (st_fs g) = Inr (Dir m es)" using fs(2) by (auto elim: dir_inE)
  have rm: "storage_rm_rf no_faults (v_path v) (st_fs g) = (0, ?fs)" by (rule rm_rf_no_faults [OF w v(4)])
  have gone: "\<not> exists_in ?fs (comps (v_path v))"
    using rm_rf_gone [OF fs(1) v(4)] rm by simp
  have d: "dir_in ?fs (comps (st_dir g))"
    using walk_put_parallel [OF fs(1,7)] fs(6) by (simp add: dir_in_def)
  obtain g2 where "storage_persist no_faults (g1\<lparr>st_fs := ?fs, st_volumes := []\<rparr>) = (0, g2)" "st_fs g2 = ?fs"
    using persist_ok [of "g1\<lparr>st_fs := ?fs, st_volumes := []\<rparr>"] fs(3,4,5) d i(5) by auto
  moreover have "v_name v \<noteq> []" using v(1) by (simp add: volume_clean_def)
  ultimately have "storage_delete_volume no_faults g1 (Some (v_name v)) = (0, g2)"
    using i v(2,3) w rm by (simp add: storage_delete_volume_def is_volume_def lstat_def no_faults_def)
  with i gone \<open>st_fs g2 = ?fs\<close> show ?thesis by (intro exI [of _ g1] exI [of _ g2]) simp
qed

definition blank_store :: storage where
  "blank_store =
     (let vs = map (\<lambda>v. v\<lparr>v_path := ''/d ''\<rparr>) (st_volumes demo_store)
      in demo_store\<lparr>st_volumes := vs, st_state := Some (registry_text vs []),
           st_fs := Dir 493 [(''d'', Dir 493 []), (''d '', Dir 493 []), (''s'', Dir 493 [])]\<rparr>)"

theorem storage_trailing_blank_redirects_witness:
  "\<exists>g1 g2. storage_impl_init no_faults [] (Some ''/s'') (storage_impl_shutdown blank_store) = (0, g1) \<and>
     storage_delete_volume no_faults g1 (Some ''v'') = (0, g2) \<and> \<not> exists_in (st_fs g2) [''d'']"
proof -
  let ?v = "hd (st_volumes demo_store)"
  have v: "v_name ?v = ''v''" "v_path ?v = ''/d''" "v_readonly ?v = 0" by (simp_all add: demo_store_def)
  have c: "volume_clean ?v"
    by (simp add: demo_store_def volume_clean_def line_end_ok_def blank_char_def)
  have p: "storage_valid_path (Some (v_path ?v @ '' '')) = 0" by (simp add: v storage_valid_path_def)
  have g: "registry blank_store = ([?v\<lparr>v_path := v_path ?v @ '' ''\<rparr>], [])"
    "st_state blank_store = Some (registry_text (st_volumes blank_store) (st_snapshots blank_store))"
    "st_dir blank_store = ''/s''"
    by (simp_all add: registry_def blank_store_def demo_store_def Let_def)
  have fs: "st_fs blank_store = Dir 493 [(''d'', Dir 493 []), (''d '', Dir 493 []), (''s'', Dir 493 [])]"
    by (simp add: blank_store_def Let_def)
  show ?thesis
    using storage_trailing_blank_redirects [OF c v(3) _ _ p g(1,2)]
    unfolding v fs g(3) demo_comps
    by (simp add: demo_comps name_ok_def dir_in_def Cons_parallelI1) blast
qed

end
