(* ===== verification/Pmp.thy ===== *)
theory Pmp
  imports Prelude
begin

text \<open>
  The PMP plugin, \<^verbatim>\<open>pmp/src\<close>: processes, scheduling and affinity (\<^verbatim>\<open>pmp_proc.c\<close>), the reader of \<^verbatim>\<open>/proc\<close>
  (\<^verbatim>\<open>pmp_list.c\<close>) and the table of tasks (\<^verbatim>\<open>pmp_task.c\<close>).

  What the system calls answer is an argument, an error being a negative number; the signals that are sent are
  part of the result.  The variant for Windows is left out.
\<close>

section \<open>Scheduling and affinity\<close>

datatype pmp_sched_policy = OTHER | FIFO | RR | BATCH | IDLE | DEADLINE

text \<open>The numbers of the kernel.\<close>

fun pmp_to_linux_policy :: "pmp_sched_policy \<Rightarrow> int" where
  "pmp_to_linux_policy OTHER = 0"
| "pmp_to_linux_policy FIFO = 1"
| "pmp_to_linux_policy RR = 2"
| "pmp_to_linux_policy BATCH = 3"
| "pmp_to_linux_policy IDLE = 5"
| "pmp_to_linux_policy DEADLINE = 6"

definition linux_to_pmp_policy :: "int \<Rightarrow> pmp_sched_policy" where
  "linux_to_pmp_policy lp =
     (if lp = 0 then OTHER else if lp = 1 then FIFO else if lp = 2 then RR else if lp = 3 then BATCH
      else if lp = 5 then IDLE else if lp = 6 then DEADLINE else OTHER)"

text \<open>The policy and priority of a process, and its nice value, as the kernel keeps them.\<close>

record sched =
  sd_policy :: int
  sd_priority :: int
  sd_nice :: int

text \<open>\<open>deny\<close> is the error of \<^verbatim>\<open>sched_setscheduler\<close>, where it fails; \<^verbatim>\<open>setpriority\<close> may fail unseen.\<close>

definition pmp_sched_set :: "rc option \<Rightarrow> bool \<Rightarrow> pmp_sched_policy \<Rightarrow> int \<Rightarrow> int \<Rightarrow> sched \<Rightarrow> rc \<times> sched" where
  "pmp_sched_set deny nice_ok policy priority nice s =
     (case deny of
        Some e \<Rightarrow> (e, s)
      | None \<Rightarrow>
          let s1 = s\<lparr>sd_policy := pmp_to_linux_policy policy, sd_priority := priority\<rparr> in
          (0, if - 20 \<le> nice \<and> nice \<le> 19 \<and> nice_ok then s1\<lparr>sd_nice := nice\<rparr> else s1))"

text \<open>What is not told after the first query stays as the caller had it.\<close>

definition pmp_sched_get :: "rc + int \<Rightarrow> int option \<Rightarrow> int option \<Rightarrow> rc + pmp_sched_policy \<times> int option \<times> int option" where
  "pmp_sched_get getscheduler getparam getpriority =
     map_sum id (\<lambda>lp. (linux_to_pmp_policy lp, getparam, getpriority)) getscheduler"

definition pmp_set_affinity :: "(nat list \<Rightarrow> rc) \<Rightarrow> 32 word \<Rightarrow> rc \<times> nat list" where
  "pmp_set_affinity setaffinity cpu_mask =
     (let cpus = filter (bit cpu_mask) [0..<32] in
      if setaffinity cpus < 0 then (setaffinity cpus, cpus) else (0, cpus))"

definition pmp_get_affinity :: "rc + nat list \<Rightarrow> rc + 32 word" where
  "pmp_get_affinity q =
     map_sum id (\<lambda>cpus. foldl (\<lambda>m cpu. if cpu \<in> set cpus then or m (push_bit cpu 1) else m) 0 [0..<32]) q"

section \<open>Processes\<close>

text \<open>\<open>fork\<close> is the process id of the child or an error; the child is not followed.\<close>

definition pmp_spawn :: "rc + int \<Rightarrow> string option \<Rightarrow> bool \<Rightarrow> rc \<times> int option" where
  "pmp_spawn fork path has_out =
     (if path = None \<or> \<not> has_out then (EINVAL, None)
      else (case fork of Inl e \<Rightarrow> (e, Some (- 1)) | Inr pid \<Rightarrow> (0, Some pid)))"

text \<open>\<^verbatim>\<open>fork\<close> hands its -1 on, whatever the error.\<close>

definition pmp_fork :: "rc + int \<Rightarrow> int" where
  "pmp_fork fork = (case fork of Inl _ \<Rightarrow> - 1 | Inr pid \<Rightarrow> pid)"

text \<open>The error of an \<^verbatim>\<open>exec\<close> that failed; one that succeeds does not come back.\<close>

definition pmp_exec :: "rc option \<Rightarrow> string option \<Rightarrow> rc option" where
  "pmp_exec execv path = (if path = None then Some EINVAL else execv)"

definition pmp_execve_full :: "rc option \<Rightarrow> string option \<Rightarrow> rc option" where
  "pmp_execve_full execve path = (if path = None then Some EINVAL else execve)"

definition pmp_wait :: "rc + int \<times> 'st \<Rightarrow> rc \<times> 'st option" where
  "pmp_wait q = (case q of Inl e \<Rightarrow> (e, None) | Inr (pid, st) \<Rightarrow> (pid, Some st))"

abbreviation SIGTERM :: int where "SIGTERM \<equiv> 15"
abbreviation SIGCONT :: int where "SIGCONT \<equiv> 18"
abbreviation SIGSTOP :: int where "SIGSTOP \<equiv> 19"

type_synonym kill = "int \<Rightarrow> int \<Rightarrow> rc"

definition pmp_signal :: "kill \<Rightarrow> int \<Rightarrow> int \<Rightarrow> rc" where
  "pmp_signal k pid sig = (if k pid sig < 0 then k pid sig else 0)"

definition pmp_kill :: "kill \<Rightarrow> int \<Rightarrow> int \<Rightarrow> rc" where "pmp_kill k pid sig = pmp_signal k pid sig"
definition pmp_start :: "kill \<Rightarrow> int \<Rightarrow> rc" where "pmp_start k pid = pmp_signal k pid SIGCONT"
definition pmp_stop :: "kill \<Rightarrow> int \<Rightarrow> rc" where "pmp_stop k pid = pmp_signal k pid SIGSTOP"
definition pmp_pause_process :: "kill \<Rightarrow> int \<Rightarrow> rc" where "pmp_pause_process k pid = pmp_signal k pid SIGSTOP"
definition pmp_resume :: "kill \<Rightarrow> int \<Rightarrow> rc" where "pmp_resume k pid = pmp_signal k pid SIGCONT"

section \<open>What the kernel reports\<close>

datatype pmp_task_state =
  RUNNING | INTERRUPTIBLE | UNINTERRUPTIBLE | ZOMBIE | STOPPED | TRACING | DEAD | WAKEKILL | UNKNOWN

definition map_state :: "char \<Rightarrow> pmp_task_state" where
  "map_state c =
     (if c = CHR ''R'' then RUNNING else if c = CHR ''S'' then INTERRUPTIBLE else if c = CHR ''D'' then UNINTERRUPTIBLE
      else if c = CHR ''Z'' then ZOMBIE else if c = CHR ''T'' then STOPPED else if c = CHR ''t'' then TRACING
      else if c = CHR ''X'' \<or> c = CHR ''x'' then DEAD
      else if c = CHR ''K'' \<or> c = CHR ''W'' \<or> c = CHR ''P'' \<or> c = CHR ''I'' then WAKEKILL else UNKNOWN)"

record pmp_process_info =
  pi_pid :: "32 word"
  pi_ppid :: "32 word"
  pi_tgid :: "32 word"
  pi_comm :: string
  pi_state :: pmp_task_state
  pi_priority :: int
  pi_nice :: int
  pi_policy :: pmp_sched_policy
  pi_cpu_time_user :: "64 word"
  pi_cpu_time_system :: "64 word"
  pi_cpu_affinity :: "32 word"
  pi_memory_rss :: "64 word"
  pi_memory_virtual :: "64 word"
  pi_start_time :: "64 word"

definition info0 :: pmp_process_info where
  "info0 = \<lparr>pi_pid = 0, pi_ppid = 0, pi_tgid = 0, pi_comm = [], pi_state = RUNNING, pi_priority = 0, pi_nice = 0, pi_policy = OTHER,
     pi_cpu_time_user = 0, pi_cpu_time_system = 0, pi_cpu_affinity = 0, pi_memory_rss = 0, pi_memory_virtual = 0, pi_start_time = 0\<rparr>"

definition atoi :: "string \<Rightarrow> int" where
  "atoi s = to_int32 (fst (strtol s))"

text \<open>What lies between the first opening and the last closing parenthesis, and what follows the latter.\<close>

definition comm_text :: "string \<Rightarrow> string" where
  "comm_text buf =
     (case split_first (CHR ''('') buf of
        (_, None) \<Rightarrow> []
      | (_, Some t) \<Rightarrow>
          (case split_first (CHR '')'') (rev t) of
             (_, None) \<Rightarrow> []
           | (_, Some r) \<Rightarrow> take 63 (rev r)))"

definition after_comm :: "string \<Rightarrow> string" where
  "after_comm buf =
     (if CHR ''('' \<notin> set buf then buf
      else case split_first (CHR '')'') (rev buf) of (_, None) \<Rightarrow> buf | (r, Some _) \<Rightarrow> rev r)"

definition parse_stat :: "string \<Rightarrow> pmp_process_info \<Rightarrow> pmp_process_info" where
  "parse_stat buf info =
     (let i1 = info\<lparr>pi_comm := comm_text buf\<rparr>;
          i2 = (if CHR ''('' \<in> set buf then i1\<lparr>pi_pid := of_int (atoi buf)\<rparr> else i1) in
      case dropWhile isspace (after_comm buf) of
        [] \<Rightarrow> i2
      | c # p \<Rightarrow>
          let i3 = i2\<lparr>pi_state := map_state c\<rparr>;
              q = dropWhile isspace (dropWhile (\<lambda>x. \<not> isspace x) (c # p)) in
          if q \<noteq> [] then i3\<lparr>pi_ppid := of_int (atoi q)\<rparr> else i3)"

text \<open>The files of a process: what opening them gives.\<close>

record proc_files =
  pf_stat :: "rc + string"
  pf_statm :: "string option"
  pf_sched :: "string option"
  pf_status :: "string option"

text \<open>\<^verbatim>\<open>fscanf\<close> with two numbers.\<close>

definition scan_two :: "string \<Rightarrow> (nat \<times> nat) option" where
  "scan_two s =
     (case scan_number s of
        None \<Rightarrow> None
      | Some (_, _, r) \<Rightarrow> (case scan_number r of None \<Rightarrow> None | Some _ \<Rightarrow> Some (fst (strtoull s), fst (strtoull r))))"

definition parse_statm :: "int \<Rightarrow> string option \<Rightarrow> pmp_process_info \<Rightarrow> pmp_process_info" where
  "parse_statm page f info =
     (case Option.bind f scan_two of
        None \<Rightarrow> info
      | Some (vsz, rss) \<Rightarrow>
          let pg = of_int (if page \<le> 0 then 4096 else page) :: 64 word in
          info\<lparr>pi_memory_virtual := of_nat vsz * pg div 1024, pi_memory_rss := of_nat rss * pg div 1024\<rparr>)"

definition read_policy :: "string option \<Rightarrow> pmp_sched_policy" where
  "read_policy f =
     (case f of
        None \<Rightarrow> OTHER
      | Some s \<Rightarrow>
          (case fgets_all 128 s of
             _ # line # _ \<Rightarrow>
               (if sublist ''SCHED_FIFO'' line then FIFO else if sublist ''SCHED_RR'' line then RR
                else if sublist ''SCHED_BATCH'' line then BATCH else if sublist ''SCHED_IDLE'' line then IDLE
                else if sublist ''SCHED_DEADLINE'' line then DEADLINE else OTHER)
           | _ \<Rightarrow> OTHER))"

definition first_cpu :: "string option \<Rightarrow> 32 word" where
  "first_cpu f =
     (case f of
        None \<Rightarrow> 0
      | Some s \<Rightarrow>
          (case find (\<lambda>l. prefix ''Cpus_allowed_list:'' l) (fgets_all 256 s) of
             None \<Rightarrow> 0
           | Some l \<Rightarrow>
               let v = dropWhile (\<lambda>c. \<not> isdigit c) (drop 18 l) in
               if v \<noteq> [] then of_int (atoi v) else 0))"

text \<open>\<open>errno\<close> is what it was when the file turns out to be empty; the code and what is filled in.\<close>

definition fill_info :: "int \<Rightarrow> int \<Rightarrow> int \<Rightarrow> proc_files \<Rightarrow> rc \<times> pmp_process_info" where
  "fill_info errno page pid f =
     (case pf_stat f of
        Inl e \<Rightarrow> (e, info0)
      | Inr s \<Rightarrow>
          if s = [] then (- errno, info0)
          else
            let i1 = parse_stat (fst (fgets 1023 s)) (info0\<lparr>pi_pid := of_int pid, pi_tgid := of_int pid\<rparr>);
                i2 = parse_statm page (pf_statm f) i1 in
            (0, i2\<lparr>pi_policy := read_policy (pf_sched f), pi_cpu_affinity := first_cpu (pf_status f), pi_priority := 0, pi_nice := 0\<rparr>))"

definition pmp_get_process_info :: "int \<Rightarrow> int \<Rightarrow> (int \<Rightarrow> proc_files) \<Rightarrow> int \<Rightarrow> bool \<Rightarrow> rc \<times> pmp_process_info option" where
  "pmp_get_process_info errno page files pid has_out =
     (if \<not> has_out \<or> pid \<le> 0 then (- 1, None) else map_prod id Some (fill_info errno page pid (files pid)))"

text \<open>The entries of \<^verbatim>\<open>/proc\<close>; the array grows when it is full, where the memory is there.\<close>

fun list_procs ::
  "(int \<Rightarrow> rc \<times> pmp_process_info) \<Rightarrow> allocs \<Rightarrow> string list \<Rightarrow> nat \<Rightarrow> nat \<Rightarrow> pmp_process_info list" where
  "list_procs fill mem [] count cap = []"
| "list_procs fill mem (name # names) count cap =
     (if name = [] \<or> \<not> isdigit (hd name) \<or> atoi name \<le> 0 then list_procs fill mem names count cap
      else
        let (ok, mem1) = (if cap \<le> count then alloc mem else (True, mem));
            cap1 = (if cap \<le> count then cap * 2 else cap) in
        if \<not> ok then []
        else (case fill (atoi name) of
                (rc, info) \<Rightarrow>
                  if rc = 0 then info # list_procs fill mem1 names (count + 1) cap1
                  else list_procs fill mem1 names count cap1))"

definition pmp_get_process_list ::
  "bool \<Rightarrow> allocs \<Rightarrow> rc + string list \<Rightarrow> (int \<Rightarrow> rc \<times> pmp_process_info) \<Rightarrow> rc + pmp_process_info list" where
  "pmp_get_process_list has_out mem dir fill =
     (if \<not> has_out then Inl (- 1)
      else (case dir of
              Inl e \<Rightarrow> Inl e
            | Inr names \<Rightarrow> (case alloc mem of (ok, mem1) \<Rightarrow> if \<not> ok then Inl (- 3) else Inr (list_procs fill mem1 names 0 64))))"

section \<open>Tasks\<close>

datatype pmp_task_status = PENDING | TASK_RUNNING | FINISHED | FAILED | CANCELLED | TASK_UNKNOWN

datatype wait_status = Exited nat | Signaled nat | Stopped

record pmp_task =
  tk_id :: "64 word"
  tk_name :: string
  tk_path :: string
  tk_pid :: int
  tk_state :: pmp_task_status
  tk_exit :: int

record tasks =
  g_task_table :: "pmp_task list"
  g_task_seq :: "64 word"

definition tasks0 :: tasks where
  "tasks0 = \<lparr>g_task_table = [], g_task_seq = 0\<rparr>"

definition pmp_task_deinit :: "tasks \<Rightarrow> tasks" where
  "pmp_task_deinit g = g\<lparr>g_task_table := []\<rparr>"

definition task_find :: "64 word \<Rightarrow> tasks \<Rightarrow> pmp_task option" where
  "task_find i g = find (\<lambda>t. tk_id t = i) (g_task_table g)"

definition reaped :: "wait_status \<Rightarrow> pmp_task \<Rightarrow> pmp_task" where
  "reaped st t = t\<lparr>
     tk_state := (if st = Exited 0 then FINISHED else FAILED),
     tk_exit := (case st of Exited n \<Rightarrow> int n | Signaled s \<Rightarrow> int s | Stopped \<Rightarrow> - 1)\<rparr>"

text \<open>\<open>q\<close> is the child that \<^verbatim>\<open>waitpid\<close> found to have ended, where there is one.\<close>

definition task_reap :: "(int \<times> wait_status) option \<Rightarrow> tasks \<Rightarrow> tasks" where
  "task_reap q g =
     (case q of
        None \<Rightarrow> g
      | Some (pid, st) \<Rightarrow> g\<lparr>g_task_table := update_first (\<lambda>t. tk_pid t = pid) (reaped st) (g_task_table g)\<rparr>)"

definition new_task :: "64 word \<Rightarrow> string option \<Rightarrow> string \<Rightarrow> int \<Rightarrow> pmp_task" where
  "new_task i name path pid =
     \<lparr>tk_id = i, tk_name = cstr 64 (case name of None \<Rightarrow> path | Some n \<Rightarrow> n), tk_path = cstr 256 path, tk_pid = pid,
      tk_state = TASK_RUNNING, tk_exit = 0\<rparr>"

text \<open>The number of the task (0 for none) and what is stored in \<^verbatim>\<open>out_err\<close>.\<close>

definition pmp_task_submit ::
  "rc + int \<Rightarrow> bool \<Rightarrow> string option \<Rightarrow> string option \<Rightarrow> tasks \<Rightarrow> 64 word \<times> rc \<times> tasks" where
  "pmp_task_submit fork memory name path g =
     (case path of
        None \<Rightarrow> (0, - 1, g)
      | Some p \<Rightarrow>
          (case pmp_spawn fork path True of
             (rc, pid) \<Rightarrow>
               if rc \<noteq> 0 \<or> the pid < 0 then (0, rc, g)
               else if \<not> memory then (0, - 3, g)
               else
                 let i = g_task_seq g + 1 in
                 (i, 0, \<lparr>g_task_table = new_task i name p (the pid) # g_task_table g, g_task_seq = i\<rparr>)))"

text \<open>The code, the signals that are sent, and the table.\<close>

definition pmp_task_cancel :: "64 word \<Rightarrow> tasks \<Rightarrow> rc \<times> (int \<times> int) list \<times> tasks" where
  "pmp_task_cancel i g =
     (case task_find i g of
        None \<Rightarrow> (- 2, [], g)
      | Some t \<Rightarrow>
          if tk_state t \<noteq> TASK_RUNNING \<and> tk_state t \<noteq> PENDING then (- 1, [], g)
          else
            (0, (if 0 < tk_pid t then [(tk_pid t, SIGTERM)] else []),
             g\<lparr>g_task_table := update_first (\<lambda>t. tk_id t = i) (\<lambda>t. t\<lparr>tk_state := CANCELLED\<rparr>) (g_task_table g)\<rparr>))"

text \<open>The report on a task: for an unknown number everything is 0.\<close>

definition no_task :: pmp_task where
  "no_task = \<lparr>tk_id = 0, tk_name = [], tk_path = [], tk_pid = 0, tk_state = PENDING, tk_exit = 0\<rparr>"

definition pmp_task_status :: "(int \<times> wait_status) option \<Rightarrow> 64 word \<Rightarrow> tasks \<Rightarrow> rc \<times> pmp_task \<times> tasks" where
  "pmp_task_status q i g =
     (case task_find i g of
        None \<Rightarrow> (ENOENT, no_task, g)
      | Some _ \<Rightarrow>
          let g1 = task_reap q g in
          (0, (case task_find i g1 of None \<Rightarrow> no_task | Some t \<Rightarrow> t\<lparr>tk_name := cstr 64 (tk_name t), tk_path := cstr 256 (tk_path t)\<rparr>), g1))"

end
