(* ===== verification/Loader.thy ===== *)
theory Loader
  imports Prelude
begin

text \<open>
  The LOADER plugin, \<^verbatim>\<open>loader/src\<close>: recognising a file by its first bytes (\<^verbatim>\<open>loader_detect.c\<close>), reading
  the headers of an ELF file (\<^verbatim>\<open>loader_elf.c\<close>), and deciding how it is loaded or run (\<^verbatim>\<open>loader_run.c\<close>).

  A file is the bytes it holds, or the error of opening it.  The copy of an ELF file in memory has an
  address; offsets from the file are added to it in 64 bits, as the code does, and reading outside the
  copy is a fault.  What \<^verbatim>\<open>fork\<close>, \<^verbatim>\<open>execvp\<close>, \<^verbatim>\<open>waitpid\<close> and \<^verbatim>\<open>dlopen\<close> answer are parameters.
\<close>

abbreviation ENOEXEC :: rc where "ENOEXEC \<equiv> - 8"
abbreviation EFBIG :: rc where "EFBIG \<equiv> - 27"

section \<open>Formats\<close>

datatype loader_format = UNKNOWN | ELF | PE | MACHO | APK | WASM | SCRIPT | JAVA

record magic_entry =
  me_format :: loader_format
  me_name :: string
  me_magic :: "byte list"
  me_ext :: string

definition magic_table :: "magic_entry list" where
  "magic_table =
     [\<lparr>me_format = ELF, me_name = ''ELF'', me_magic = [0x7f, 0x45, 0x4c, 0x46], me_ext = []\<rparr>,
      \<lparr>me_format = PE, me_name = ''PE/COFF'', me_magic = [0x4d, 0x5a], me_ext = ''.exe''\<rparr>,
      \<lparr>me_format = MACHO, me_name = ''Mach-O'', me_magic = [0xfe, 0xed, 0xfa, 0xcf], me_ext = []\<rparr>,
      \<lparr>me_format = WASM, me_name = ''WASM'', me_magic = [0x00, 0x61, 0x73, 0x6d], me_ext = ''.wasm''\<rparr>,
      \<lparr>me_format = APK, me_name = ''APK'', me_magic = [0x50, 0x4b, 0x03, 0x04], me_ext = ''.apk''\<rparr>,
      \<lparr>me_format = JAVA, me_name = ''Java'', me_magic = [0xca, 0xfe, 0xba, 0xbe], me_ext = ''.class''\<rparr>]"

definition MAGIC_MACHOBE :: "byte list" where
  "MAGIC_MACHOBE = [0xce, 0xfa, 0xed, 0xfe]"

type_synonym file_read = "rc + byte list"

definition loader_read_head :: "file_read \<Rightarrow> nat \<Rightarrow> rc + byte list" where
  "loader_read_head f cap = map_sum id (take cap) f"

definition interp_end :: "byte \<Rightarrow> bool" where
  "interp_end b \<longleftrightarrow> b = 0 \<or> b = 0x0A \<or> b = 0x20 \<or> b = 0x09"

definition text_of :: "byte list \<Rightarrow> string" where
  "text_of bs = map (\<lambda>b. char_of (unat b)) bs"

text \<open>The code, the format, its name, and the interpreter where it is written, in a buffer of this size.\<close>

record detection =
  de_rc :: rc
  de_format :: loader_format
  de_name :: string
  de_interp :: "string option"

definition detect_interp :: "nat \<Rightarrow> byte list \<Rightarrow> string option" where
  "detect_interp interp_size hdr =
     (if interp_size = 0 then None
      else
        let s = takeWhile (\<lambda>b. \<not> interp_end b) (drop 2 hdr) in
        if s \<noteq> [] \<and> length s < interp_size - 1 then Some (text_of s) else Some [])"

definition detected :: "loader_format \<Rightarrow> string \<Rightarrow> nat \<Rightarrow> detection" where
  "detected fmt name interp_size =
     \<lparr>de_rc = 0, de_format = fmt, de_name = name, de_interp = (if interp_size = 0 then None else Some [])\<rparr>"

definition loader_detect_impl :: "file_read \<Rightarrow> nat \<Rightarrow> detection" where
  "loader_detect_impl f interp_size =
     (case loader_read_head f 64 of
        Inl e \<Rightarrow> \<lparr>de_rc = e, de_format = UNKNOWN, de_name = [], de_interp = None\<rparr>
      | Inr hdr \<Rightarrow>
          if hdr = [] then \<lparr>de_rc = ENOEXEC, de_format = UNKNOWN, de_name = [], de_interp = None\<rparr>
          else if take 2 hdr = [0x23, 0x21]
          then \<lparr>de_rc = 0, de_format = SCRIPT, de_name = ''Script'', de_interp = detect_interp interp_size hdr\<rparr>
          else if take 4 hdr = MAGIC_MACHOBE then detected MACHO ''Mach-O'' interp_size
          else (case find (\<lambda>e. take (length (me_magic e)) hdr = me_magic e) magic_table of
                  Some e \<Rightarrow> detected (me_format e) (me_name e) interp_size
                | None \<Rightarrow> \<lparr>de_rc = ENOEXEC, de_format = UNKNOWN, de_name = ''Unknown'', de_interp = None\<rparr>))"

record format_info =
  fi_format :: loader_format
  fi_name :: string
  fi_magic :: string
  fi_magic_len :: nat
  fi_extension :: string
  fi_supported :: bool

text \<open>The magic numbers are copied as C strings.\<close>

definition magic_text :: "byte list \<Rightarrow> string" where
  "magic_text bs = cstr 24 (text_of (takeWhile (\<lambda>b. b \<noteq> 0) bs))"

definition loader_formats_impl :: "int option \<Rightarrow> rc + format_info list" where
  "loader_formats_impl cap =
     (case cap of
        None \<Rightarrow> Inl EINVAL
      | Some cap \<Rightarrow>
          if cap \<le> 0 then Inl EINVAL
          else Inr (take (nat cap)
            (\<lparr>fi_format = SCRIPT, fi_name = ''Script'', fi_magic = ''#!'', fi_magic_len = 2, fi_extension = [], fi_supported = True\<rparr> #
             map (\<lambda>e. \<lparr>fi_format = me_format e, fi_name = cstr 32 (me_name e), fi_magic = magic_text (me_magic e),
               fi_magic_len = length (me_magic e), fi_extension = cstr 16 (me_ext e), fi_supported = True\<rparr>) magic_table @
             [\<lparr>fi_format = MACHO, fi_name = ''Mach-O(big-endian)'', fi_magic = magic_text MAGIC_MACHOBE, fi_magic_len = 4,
               fi_extension = [], fi_supported = True\<rparr>])))"

section \<open>ELF headers\<close>

abbreviation ELFCLASS32 :: byte where "ELFCLASS32 \<equiv> 1"
abbreviation ELFCLASS64 :: byte where "ELFCLASS64 \<equiv> 2"
abbreviation ELFDATA2MSB :: byte where "ELFDATA2MSB \<equiv> 2"
abbreviation PT_INTERP :: "32 word" where "PT_INTERP \<equiv> 3"

definition rd16 :: "bool \<Rightarrow> byte list \<Rightarrow> 16 word" where
  "rd16 be p =
     (if be then or (push_bit 8 (ucast (p ! 0))) (ucast (p ! 1)) else or (ucast (p ! 0)) (push_bit 8 (ucast (p ! 1))))"

definition rd32 :: "bool \<Rightarrow> byte list \<Rightarrow> 32 word" where
  "rd32 be p =
     (if be
      then or (or (or (push_bit 24 (ucast (p ! 0))) (push_bit 16 (ucast (p ! 1)))) (push_bit 8 (ucast (p ! 2)))) (ucast (p ! 3))
      else or (or (or (ucast (p ! 0)) (push_bit 8 (ucast (p ! 1)))) (push_bit 16 (ucast (p ! 2)))) (push_bit 24 (ucast (p ! 3))))"

definition rd64 :: "bool \<Rightarrow> byte list \<Rightarrow> 64 word" where
  "rd64 be p = foldl (\<lambda>v b. or (push_bit 8 v) (ucast b)) 0 (if be then take 8 p else rev (take 8 p))"

text \<open>The file in memory; \<open>n\<close> bytes at an address, where they belong to it.\<close>

record mem =
  m_base :: "64 word"
  m_bytes :: "byte list"

definition m_end :: "mem \<Rightarrow> 64 word" where
  "m_end m = m_base m + of_nat (length (m_bytes m))"

definition peek :: "mem \<Rightarrow> 64 word \<Rightarrow> nat \<Rightarrow> byte list option" where
  "peek m p n =
     (let i = unat (p - m_base m) in
      if i + n \<le> length (m_bytes m) then Some (take n (drop i (m_bytes m))) else None)"

text \<open>The parts of the header that are used later.\<close>

record ehdr_view =
  eh_phoff :: "64 word"
  eh_shoff :: "64 word"
  eh_phnum :: "16 word"
  eh_shnum :: "16 word"
  eh_shstrndx :: "16 word"

record loader_ph_info =
  p_type :: "32 word"
  p_flags :: "32 word"
  p_offset :: "64 word"
  p_vaddr :: "64 word"
  p_paddr :: "64 word"
  p_filesz :: "64 word"
  p_memsz :: "64 word"

record loader_elf_info =
  ei_class :: byte
  ei_data :: byte
  e_type :: "16 word"
  e_machine :: "16 word"
  e_flags :: "32 word"
  e_entry :: "64 word"
  e_shstrndx :: "16 word"
  e_phnum :: "32 word"
  e_shnum :: "32 word"
  has_interp :: bool
  ph_infos :: "loader_ph_info list"
  section_names :: string

definition want_be :: "byte list \<Rightarrow> bool" where
  "want_be i = (i ! 5 = ELFDATA2MSB)"

definition read_all :: "file_read \<Rightarrow> bool \<Rightarrow> rc + byte list" where
  "read_all f memory =
     (case f of
        Inl e \<Rightarrow> Inl e
      | Inr d \<Rightarrow> if 64 * 1024 * 1024 < length d then Inl EFBIG else if \<not> memory then Inl ENOMEM else Inr d)"

text \<open>One program header at an address.\<close>

definition ph32_at :: "mem \<Rightarrow> bool \<Rightarrow> 64 word \<Rightarrow> loader_ph_info option" where
  "ph32_at m be p = map_option (\<lambda>b.
     \<lparr>p_type = rd32 be b, p_flags = rd32 be (drop 24 b), p_offset = ucast (rd32 be (drop 4 b)), p_vaddr = ucast (rd32 be (drop 8 b)),
      p_paddr = ucast (rd32 be (drop 12 b)), p_filesz = ucast (rd32 be (drop 16 b)), p_memsz = ucast (rd32 be (drop 20 b))\<rparr>) (peek m p 28)"

definition ph64_at :: "mem \<Rightarrow> bool \<Rightarrow> 64 word \<Rightarrow> loader_ph_info option" where
  "ph64_at m be p = map_option (\<lambda>b.
     \<lparr>p_type = rd32 be b, p_flags = rd32 be (drop 4 b), p_offset = rd64 be (drop 8 b), p_vaddr = rd64 be (drop 16 b),
      p_paddr = rd64 be (drop 24 b), p_filesz = rd64 be (drop 32 b), p_memsz = rd64 be (drop 40 b)\<rparr>) (peek m p 48)"

fun ph_loop :: "(64 word \<Rightarrow> loader_ph_info option) \<Rightarrow> 64 word \<Rightarrow> mem \<Rightarrow> 64 word \<Rightarrow> nat \<Rightarrow> loader_ph_info list option" where
  "ph_loop ph_at sz m p 0 = Some []"
| "ph_loop ph_at sz m p (Suc n) =
     (if m_end m < p + sz then Some []
      else Option.bind (ph_at p) (\<lambda>x. map_option (\<lambda>xs. x # xs) (ph_loop ph_at sz m (p + sz) n)))"

definition parse_ph32 :: "mem \<Rightarrow> bool \<Rightarrow> ehdr_view \<Rightarrow> loader_ph_info list option" where
  "parse_ph32 m be eh =
     (if eh_phnum eh = 0 \<or> eh_phoff eh = 0 then Some []
      else ph_loop (ph32_at m be) 32 m (m_base m + eh_phoff eh) (min 8 (unat (eh_phnum eh))))"

definition parse_ph64 :: "mem \<Rightarrow> bool \<Rightarrow> ehdr_view \<Rightarrow> loader_ph_info list option" where
  "parse_ph64 m be eh =
     (if eh_phnum eh = 0 \<or> eh_phoff eh = 0 then Some []
      else ph_loop (ph64_at m be) 56 m (m_base m + eh_phoff eh) (min 8 (unat (eh_phnum eh))))"

section \<open>Section names\<close>

text \<open>The text at an address, of at most \<open>n\<close> bytes; the bound is looked at last.\<close>

fun name_at :: "mem \<Rightarrow> 64 word \<Rightarrow> nat \<Rightarrow> byte list option" where
  "name_at m p n =
     (if m_end m \<le> p then Some []
      else Option.bind (peek m p 1) (\<lambda>b.
        if b = [0] then Some []
        else case n of 0 \<Rightarrow> Some [] | Suc k \<Rightarrow> map_option (\<lambda>bs. b @ bs) (name_at m (p + 1) k)))"

declare name_at.simps [simp del]

definition sh_size :: "byte \<Rightarrow> 64 word" where
  "sh_size cls = (if cls = ELFCLASS64 then 64 else 40)"

text \<open>Offset and size of the string table.\<close>

definition string_table :: "mem \<Rightarrow> bool \<Rightarrow> byte \<Rightarrow> ehdr_view \<Rightarrow> (64 word \<times> 64 word) option" where
  "string_table m be cls eh =
     (if eh_shstrndx eh \<noteq> 0 \<and> eh_shoff eh \<noteq> 0 \<and> eh_shstrndx eh < eh_shnum eh then
        let sh = m_base m + eh_shoff eh + ucast (eh_shstrndx eh) * sh_size cls in
        if m_end m < sh + sh_size cls then Some (0, 0)
        else if cls = ELFCLASS64
        then map_option (\<lambda>b. (rd64 be b, rd64 be (drop 8 b))) (peek m (sh + 24) 16)
        else map_option (\<lambda>b. (ucast (rd32 be b), ucast (rd32 be (drop 4 b)))) (peek m (sh + 16) 8)
      else Some (0, 0))"

definition add_name :: "string \<Rightarrow> string \<Rightarrow> string" where
  "add_name names name =
     (if name = [] then names
      else if names = [] then cstr 512 name
      else if length names + length name + 2 < 512 then names @ CHR '','' # name
      else names)"

fun section_loop :: "mem \<Rightarrow> bool \<Rightarrow> byte \<Rightarrow> 64 word \<Rightarrow> 64 word \<Rightarrow> 64 word \<Rightarrow> string \<Rightarrow> nat \<Rightarrow> string option" where
  "section_loop m be cls stroff strsz sh names 0 = Some names"
| "section_loop m be cls stroff strsz sh names (Suc n) =
     (if m_end m < sh + sh_size cls then Some names
      else Option.bind (peek m sh 4) (\<lambda>b.
        let nameoff = ucast (rd32 be b) in
        Option.bind
          (if stroff \<noteq> 0 \<and> strsz \<noteq> 0 \<and> nameoff < strsz then name_at m (m_base m + stroff + nameoff) 63 else Some [])
          (\<lambda>name. section_loop m be cls stroff strsz (sh + sh_size cls) (add_name names (text_of name)) n)))"

definition parse_sections :: "mem \<Rightarrow> bool \<Rightarrow> byte \<Rightarrow> ehdr_view \<Rightarrow> string option" where
  "parse_sections m be cls eh =
     Option.bind (string_table m be cls eh) (\<lambda>(stroff, strsz).
       section_loop m be cls stroff strsz (m_base m + eh_shoff eh) [] (min 40 (unat (eh_shnum eh))))"

section \<open>The whole header\<close>

text \<open>The fields of the header, of which the last lie at the offsets of the 64-bit layout for both classes.\<close>

definition ehdr_at :: "mem \<Rightarrow> bool \<Rightarrow> (loader_elf_info \<times> ehdr_view) option" where
  "ehdr_at m be =
     map_option (\<lambda>b.
       let cls = b ! 4;
           entry = (if cls = ELFCLASS32 then ucast (rd32 be (drop 24 b)) else rd64 be (drop 24 b));
           phoff = (if cls = ELFCLASS32 then ucast (rd32 be (drop 28 b)) else rd64 be (drop 32 b));
           shoff = (if cls = ELFCLASS32 then ucast (rd32 be (drop 32 b)) else rd64 be (drop 40 b));
           phnum = rd16 be (drop 56 b); shnum = rd16 be (drop 60 b); shstrndx = rd16 be (drop 62 b) in
       (\<lparr>ei_class = cls, ei_data = b ! 5, e_type = rd16 be (drop 16 b), e_machine = rd16 be (drop 18 b),
         e_flags = rd32 be (drop 48 b), e_entry = entry, e_shstrndx = shstrndx, e_phnum = ucast phnum, e_shnum = ucast shnum,
         has_interp = False, ph_infos = [], section_names = []\<rparr>,
        \<lparr>eh_phoff = phoff, eh_shoff = shoff, eh_phnum = phnum, eh_shnum = shnum, eh_shstrndx = shstrndx\<rparr>)) (peek m (m_base m) 64)"

definition parse_elf :: "mem \<Rightarrow> loader_elf_info option" where
  "parse_elf m =
     (let be = want_be (drop 1 (m_bytes m)) in
      Option.bind (ehdr_at m be) (\<lambda>(info, eh).
      Option.bind
        (if eh_phnum eh \<noteq> 0 \<and> eh_phoff eh \<noteq> 0
         then (if ei_class info = ELFCLASS64 then parse_ph64 m be eh else parse_ph32 m be eh) else Some []) (\<lambda>phs.
      map_option (\<lambda>names. info\<lparr>has_interp := list_ex (\<lambda>x. p_type x = PT_INTERP) phs, ph_infos := phs, section_names := names\<rparr>)
        (if eh_shnum eh \<noteq> 0 \<and> eh_shoff eh \<noteq> 0 then parse_sections m be (ei_class info) eh else Some []))))"

definition loader_elf_impl :: "file_read \<Rightarrow> bool \<Rightarrow> 64 word \<Rightarrow> (rc + loader_elf_info) outcome" where
  "loader_elf_impl f memory base =
     (case read_all f memory of
        Inl e \<Rightarrow> Ret (Inl e)
      | Inr d \<Rightarrow>
          if length d < 52 \<or> take 4 d \<noteq> [0x7f, 0x45, 0x4c, 0x46] then Ret (Inl ENOEXEC)
          else (case parse_elf \<lparr>m_base = base, m_bytes = d\<rparr> of None \<Rightarrow> Fault | Some info \<Rightarrow> Ret (Inr info)))"

section \<open>Loading and running\<close>

abbreviation ET_EXEC :: "16 word" where "ET_EXEC \<equiv> 2"
abbreviation ET_DYN :: "16 word" where "ET_DYN \<equiv> 3"

definition loader_is_library :: "loader_elf_info \<Rightarrow> bool" where
  "loader_is_library info \<longleftrightarrow> e_type info = ET_DYN \<and> \<not> has_interp info"

datatype wait_status = Exited nat | Signaled nat | Stopped

text \<open>
  What the system answers: \<^verbatim>\<open>calloc\<close>, the error of \<^verbatim>\<open>execvp\<close> in this process if it fails, \<^verbatim>\<open>fork\<close>, and
  \<^verbatim>\<open>waitpid\<close> for the child.
\<close>

record proc_env =
  pe_memory :: bool
  pe_exec :: "rc option"
  pe_fork :: rc
  pe_wait :: "rc + wait_status"

text \<open>Running ends with a value and the exit code where it is set, or this process has become another program.\<close>

datatype run_result = Returned rc "int option" | Became string "string list"

definition run_script :: "proc_env \<Rightarrow> file_read \<Rightarrow> string \<Rightarrow> string list \<Rightarrow> run_result" where
  "run_script env f path argv =
     (let d = loader_detect_impl f 256 in
      case de_interp d of
        None \<Rightarrow> Returned ENOEXEC (Some 0)
      | Some interp \<Rightarrow>
          if de_rc d < 0 \<or> de_format d \<noteq> SCRIPT \<or> interp = [] then Returned ENOEXEC (Some 0)
          else if \<not> pe_memory env then Returned ENOMEM (Some 0)
          else (case pe_exec env of None \<Rightarrow> Became interp (interp # path # argv) | Some e \<Rightarrow> Returned e (Some 0)))"

definition run_exec :: "proc_env \<Rightarrow> bool \<Rightarrow> run_result" where
  "run_exec env wait =
     (if pe_fork env < 0 then Returned (pe_fork env) (Some 0)
      else if \<not> wait then Returned (pe_fork env) (Some 0)
      else (case pe_wait env of
              Inl e \<Rightarrow> Returned e (Some 0)
            | Inr st \<Rightarrow>
                let n = (case st of Exited n \<Rightarrow> int n | Signaled s \<Rightarrow> 128 + int s | Stopped \<Rightarrow> 0) in
                Returned n (Some n)))"

definition loader_run_impl ::
  "proc_env \<Rightarrow> file_read \<Rightarrow> 64 word \<Rightarrow> string option \<Rightarrow> string list \<Rightarrow> bool \<Rightarrow> run_result outcome" where
  "loader_run_impl env f base path argv wait =
     (case path of
        None \<Rightarrow> Ret (Returned EINVAL None)
      | Some path \<Rightarrow>
          let d = loader_detect_impl f 0 in
          if de_rc d < 0 then Ret (Returned ENOEXEC (Some 0))
          else (case de_format d of
                  SCRIPT \<Rightarrow> Ret (run_script env f path argv)
                | ELF \<Rightarrow>
                    (case loader_elf_impl f (pe_memory env) base of
                       Fault \<Rightarrow> Fault
                     | Ret (Inl _) \<Rightarrow> Ret (Returned ENOEXEC (Some 0))
                     | Ret (Inr info) \<Rightarrow>
                         if loader_is_library info then Ret (Returned ENOTSUP (Some 0)) else Ret (run_exec env wait))
                | _ \<Rightarrow> Ret (Returned ENOTSUP (Some 0))))"

datatype loader_mode = MODE_NONE | MODE_INFO | MODE_DLOPEN

record loader_handle =
  lh_id :: "64 word"
  lh_format :: loader_format
  lh_path :: string
  lh_interpreter :: string
  lh_dl :: "nat option"
  lh_mode :: loader_mode
  lh_pid :: int
  lh_loaded_at :: nat

definition handle0 :: loader_handle where
  "handle0 = \<lparr>lh_id = 0, lh_format = UNKNOWN, lh_path = [], lh_interpreter = [], lh_dl = None, lh_mode = MODE_NONE, lh_pid = 0, lh_loaded_at = 0\<rparr>"

text \<open>The code, the handle and the next number; \<open>dlopen\<close> gives a library or nothing.\<close>

definition loader_load_impl ::
  "bool \<Rightarrow> nat option \<Rightarrow> nat \<Rightarrow> file_read \<Rightarrow> 64 word \<Rightarrow> string option \<Rightarrow> 64 word \<Rightarrow> (rc \<times> loader_handle \<times> 64 word) outcome" where
  "loader_load_impl memory dlopen now f base path next_id =
     (case path of
        None \<Rightarrow> Ret (EINVAL, handle0, next_id)
      | Some path \<Rightarrow>
          let d = loader_detect_impl f 256;
              h0 = handle0\<lparr>lh_interpreter := (case de_interp d of None \<Rightarrow> [] | Some i \<Rightarrow> i)\<rparr> in
          if de_rc d < 0 then Ret (ENOEXEC, h0, next_id)
          else
            let h = h0\<lparr>lh_id := next_id, lh_path := cstr 256 path, lh_format := de_format d, lh_loaded_at := now\<rparr> in
            (case de_format d of
               ELF \<Rightarrow>
                 (case loader_elf_impl f memory base of
                    Fault \<Rightarrow> Fault
                  | Ret (Inl _) \<Rightarrow> Ret (ENOEXEC, h, next_id + 1)
                  | Ret (Inr info) \<Rightarrow>
                      if loader_is_library info
                      then (case dlopen of
                              None \<Rightarrow> Ret (ENOENT, h, next_id + 1)
                            | Some l \<Rightarrow> Ret (0, h\<lparr>lh_dl := Some l, lh_mode := MODE_DLOPEN\<rparr>, next_id + 1))
                      else Ret (0, h\<lparr>lh_mode := MODE_INFO\<rparr>, next_id + 1))
             | _ \<Rightarrow> Ret (0, h\<lparr>lh_mode := MODE_INFO\<rparr>, next_id + 1)))"

text \<open>The libraries that are closed, and the handle afterwards.\<close>

definition loader_unload_impl :: "loader_handle option \<Rightarrow> rc \<times> nat list \<times> loader_handle option" where
  "loader_unload_impl h =
     (case h of
        None \<Rightarrow> (EINVAL, [], None)
      | Some h \<Rightarrow>
          (case (lh_mode h, lh_dl h) of
             (MODE_DLOPEN, Some l) \<Rightarrow> (0, [l], Some (h\<lparr>lh_dl := None, lh_mode := MODE_NONE\<rparr>))
           | _ \<Rightarrow> (0, [], Some (h\<lparr>lh_mode := MODE_NONE\<rparr>))))"

end
