(* ===== verification/Hap.thy ===== *)
theory Hap
  imports Prelude
begin

text \<open>
  The HAP plugin, \<^verbatim>\<open>hap/src\<close>: what the kernel says of the processors (\<^verbatim>\<open>hap_cpu.c\<close>), the memory (\<^verbatim>\<open>hap_memory.c\<close>),
  the disks (\<^verbatim>\<open>hap_disk.c\<close>), the network (\<^verbatim>\<open>hap_net.c\<close>) and the system (\<^verbatim>\<open>hap_system.c\<close>), read from text files.

  The files are a function from paths to contents, without NULs; directories, \<^verbatim>\<open>statvfs\<close> and the addresses of the
  interfaces are parameters, and so are the two functions that make floating-point numbers.  Then the calls of the
  plugin's life cycle, \<^verbatim>\<open>hap.c\<close>.
\<close>

abbreviation HAP_OK :: rc where "HAP_OK \<equiv> 0"
abbreviation HAP_USERES :: rc where "HAP_USERES \<equiv> 1"

section \<open>Reading a file\<close>

type_synonym files = "string \<Rightarrow> string option"

text \<open>An empty text stands for a file that cannot be read, too.\<close>

definition hap_read_file :: "files \<Rightarrow> string \<Rightarrow> nat \<Rightarrow> string" where
  "hap_read_file fs path cap = (case fs path of None \<Rightarrow> [] | Some s \<Rightarrow> take (cap - 1) s)"

definition after_key :: "string \<Rightarrow> string \<Rightarrow> bool" where
  "after_key key line \<longleftrightarrow> length key < length line \<and> prefix key line
     \<and> (let c = line ! length key in c = CHR '':'' \<or> c = CHR ''='' \<or> isspace c)"

text \<open>The value goes to the end of the line it starts in, which need not be the line of the key.\<close>

definition value_at :: "string \<Rightarrow> nat \<Rightarrow> string" where
  "value_at rest cap =
     rtrim isspace (take (cap - 1) (takeWhile (\<lambda>c. c \<noteq> NL) (dropWhile (\<lambda>c. c = CHR '':'' \<or> c = CHR ''='' \<or> isspace c) rest)))"

function hap_line_value :: "string \<Rightarrow> string \<Rightarrow> nat \<Rightarrow> string option" where
  "hap_line_value cfg key cap =
     (if cfg = [] \<or> cap = 0 then None
      else (case split_first NL cfg of
              (line, r) \<Rightarrow>
                if after_key key line then Some (value_at (drop (length key) cfg) cap)
                else (case r of None \<Rightarrow> None | Some t \<Rightarrow> hap_line_value t key cap)))"
  by pat_completeness auto
termination
  by (relation "measure (\<lambda>(cfg, key, cap). length cfg)") (auto dest!: split_first_length [OF sym])

declare hap_line_value.simps [simp del]

section \<open>Processors\<close>

record 'd hap_cpu_info =
  hc_vendor :: string
  hc_model :: string
  hc_cores :: "32 word"
  hc_sockets :: "32 word"
  hc_freq_current_mhz :: "64 word"
  hc_freq_min_mhz :: "64 word"
  hc_freq_max_mhz :: "64 word"
  hc_load :: "('d \<times> 'd \<times> 'd) option"
  hc_ident :: string

text \<open>A word of at most 15 characters, and what follows it.\<close>

definition scan_word :: "string \<Rightarrow> (string \<times> string) option" where
  "scan_word s =
     (let t = dropWhile isspace s; w = take 15 (takeWhile (\<lambda>c. \<not> isspace c) t) in
      if w = [] then None else Some (w, drop (length w) t))"

definition hap_cpu_loadavg :: "(string \<Rightarrow> 'd) \<Rightarrow> files \<Rightarrow> ('d \<times> 'd \<times> 'd) option" where
  "hap_cpu_loadavg atof fs =
     (case scan_word (hap_read_file fs ''/proc/loadavg'' 128) of
        None \<Rightarrow> None
      | Some (a, r) \<Rightarrow>
          (case scan_word r of
             None \<Rightarrow> None
           | Some (b, r) \<Rightarrow> (case scan_word r of None \<Rightarrow> None | Some (c, _) \<Rightarrow> Some (atof a, atof b, atof c))))"

text \<open>How often a text occurs, counting on behind each occurrence.\<close>

function occurrences :: "string \<Rightarrow> string \<Rightarrow> nat" where
  "occurrences pat s =
     (if s = [] \<or> pat = [] then 0
      else if prefix pat s then Suc (occurrences pat (drop (length pat) s))
      else occurrences pat (tl s))"
  by pat_completeness auto
termination
proof (relation "measure (\<lambda>(pat, s). length s)", goal_cases)
  case (2 pat s)
  then show ?case by (cases pat; cases s) auto
qed auto

declare occurrences.simps [simp del]

definition cpu_cores :: "string \<Rightarrow> 32 word" where
  "cpu_cores cfg = (let n = occurrences (NL # ''processor'') cfg in if n = 0 then 1 else of_nat n)"

definition freq_path :: "string \<Rightarrow> string" where
  "freq_path name = ''/sys/devices/system/cpu/cpu0/cpufreq/'' @ name"

definition freq_mhz :: "files \<Rightarrow> string \<Rightarrow> 64 word" where
  "freq_mhz fs name = of_nat (fst (strtoull (hap_read_file fs (freq_path name) 256)) div 1000)"

definition or_empty :: "string option \<Rightarrow> string" where
  "or_empty x = (case x of None \<Rightarrow> [] | Some s \<Rightarrow> s)"

definition cpu_model :: "string \<Rightarrow> string" where
  "cpu_model cfg =
     (let m = (case hap_line_value cfg ''model name'' 128 of Some m \<Rightarrow> m | None \<Rightarrow> or_empty (hap_line_value cfg ''Hardware'' 128)) in
      if m = [] then or_empty (hap_line_value cfg ''Hardware'' 128) else m)"

definition hap_cpu_probe :: "(string \<Rightarrow> 'd) \<Rightarrow> files \<Rightarrow> 'd hap_cpu_info" where
  "hap_cpu_probe atof fs =
     (let cfg = hap_read_file fs ''/proc/cpuinfo'' 4096;
          model = (if cfg = [] then [] else cpu_model cfg);
          cores = (if cfg = [] then 0 else cpu_cores cfg);
          freq = (\<lambda>name. if 0 < cores then freq_mhz fs name else 0);
          ident = show_nat (unat cores) @ '' CPU'' @ (if model \<noteq> [] then '' / '' @ model else []) in
      \<lparr>hc_vendor = (if cfg = [] then [] else cstr 64 (or_empty (hap_line_value cfg ''vendor_id'' 256))), hc_model = model, hc_cores = cores,
       hc_sockets = 1, hc_freq_current_mhz = freq ''scaling_cur_freq'', hc_freq_min_mhz = freq ''scaling_min_freq'',
       hc_freq_max_mhz = freq ''scaling_max_freq'', hc_load = hap_cpu_loadavg atof fs, hc_ident = cstr 256 ident\<rparr>)"

section \<open>Memory\<close>

record hap_memory_info =
  hm_total_kb :: "64 word"
  hm_free_kb :: "64 word"
  hm_available_kb :: "64 word"
  hm_used_kb :: "64 word"
  hm_swap_total_kb :: "64 word"
  hm_swap_free_kb :: "64 word"
  hm_memory_type :: string

definition hap_mem_key_kb :: "string \<Rightarrow> string \<Rightarrow> 64 word" where
  "hap_mem_key_kb meminfo key =
     (case hap_line_value meminfo key 256 of None \<Rightarrow> 0 | Some buf \<Rightarrow> of_nat (fst (strtoull buf)))"

definition hap_memory_probe :: "files \<Rightarrow> hap_memory_info" where
  "hap_memory_probe fs =
     (let m = hap_read_file fs ''/proc/meminfo'' 8192 in
      if m = []
      then \<lparr>hm_total_kb = 0, hm_free_kb = 0, hm_available_kb = 0, hm_used_kb = 0, hm_swap_total_kb = 0, hm_swap_free_kb = 0, hm_memory_type = []\<rparr>
      else
        let total_kb = hap_mem_key_kb m ''MemTotal'';
            free = hap_mem_key_kb m ''MemFree'';
            av0 = hap_mem_key_kb m ''MemAvailable'';
            av = (if av0 = 0 \<and> 0 < total_kb then free else av0) in
        \<lparr>hm_total_kb = total_kb, hm_free_kb = free, hm_available_kb = av, hm_used_kb = (if av < total_kb then total_kb - av else 0),
         hm_swap_total_kb = hap_mem_key_kb m ''SwapTotal'', hm_swap_free_kb = hap_mem_key_kb m ''SwapFree'', hm_memory_type = []\<rparr>)"

section \<open>System\<close>

record hap_system_info =
  hs_hostname :: string
  hs_kernel_release :: string
  hs_kernel_version :: string
  hs_machine :: string
  hs_os_name :: string
  hs_uptime_seconds :: "64 word"

text \<open>What follows the first blank, and the word behind the third.\<close>

definition past_blank :: "string \<Rightarrow> string option" where
  "past_blank s = snd (split_first (CHR '' '') s)"

definition release_word :: "string \<Rightarrow> string option" where
  "release_word s =
     map_option (takeWhile (\<lambda>c. \<not> isspace c)) (Option.bind (Option.bind (past_blank s) past_blank) past_blank)"

definition unquote_value :: "string \<Rightarrow> string" where
  "unquote_value v =
     (if 2 \<le> length v \<and> hd v = CHR 0x22 \<and> last v = CHR 0x22 then butlast (tl v) else v)"

text \<open>The environment has the variables \<^verbatim>\<open>COMPUTERNAME\<close> and \<^verbatim>\<open>HOSTNAME\<close>.\<close>

definition hap_system_probe :: "files \<Rightarrow> string option \<Rightarrow> string option \<Rightarrow> hap_system_info" where
  "hap_system_probe fs computername hostname =
     (let h = rtrim isspace (hap_read_file fs ''/etc/hostname'' 128);
          h = (if h \<noteq> [] then h else cstr 128 (or_empty (if computername \<noteq> None then computername else hostname)));
          up = hap_read_file fs ''/proc/uptime'' 1024;
          ver = hap_read_file fs ''/proc/version'' 1024;
          os = hap_read_file fs ''/etc/os-release'' 1024 in
      \<lparr>hs_hostname = h, hs_kernel_release = cstr 256 (or_empty (release_word ver)), hs_kernel_version = cstr 256 ver, hs_machine = [],
       hs_os_name = cstr 256 (case hap_line_value os ''PRETTY_NAME'' 256 of None \<Rightarrow> [] | Some v \<Rightarrow> unquote_value v),
       hs_uptime_seconds = of_nat (fst (strtoull up))\<rparr>)"

section \<open>Disks\<close>

record 'd hap_disk_device =
  hd_name :: string
  hd_model :: string
  hd_capacity_mb :: "64 word"
  hd_used_mb :: "64 word"
  hd_free_mb :: "64 word"
  hd_use_pct :: "'d option"
  hd_mount_point :: string
  hd_fs_type :: string
  hd_available :: bool

definition hap_mount_matches :: "string \<Rightarrow> string \<Rightarrow> bool" where
  "hap_mount_matches fsdev diskname \<longleftrightarrow> prefix ''/dev/'' fsdev \<and> prefix diskname (drop 5 fsdev)"

text \<open>The answer of \<^verbatim>\<open>statvfs\<close>: blocks, the size of a fragment and of a block, and the blocks that can be used.\<close>

record vfs =
  vf_blocks :: "64 word"
  vf_frsize :: "64 word"
  vf_bsize :: "64 word"
  vf_bavail :: "64 word"

definition hap_stat_mount ::
  "(64 word \<Rightarrow> 64 word \<Rightarrow> 'd) \<Rightarrow> vfs option \<Rightarrow> (64 word \<times> 64 word \<times> 'd option) option" where
  "hap_stat_mount percent st =
     (case st of
        None \<Rightarrow> None
      | Some st \<Rightarrow>
          if vf_blocks st = 0 then None
          else
            let blksize = (if vf_frsize st \<noteq> 0 then vf_frsize st else vf_bsize st);
                total_b = vf_blocks st * blksize;
                avail = vf_bavail st * blksize;
                used = (if avail < total_b then total_b - avail else 0) in
            Some (used div (1024 * 1024), avail div (1024 * 1024), if total_b \<noteq> 0 then Some (percent used total_b) else None))"

definition sys_block :: "string \<Rightarrow> string \<Rightarrow> string" where
  "sys_block dev name = cstr 512 (''/sys/block/'' @ dev @ ''/'' @ name)"

definition new_device :: "files \<Rightarrow> string \<Rightarrow> 'd hap_disk_device" where
  "new_device fs dev =
     \<lparr>hd_name = cstr 64 dev, hd_model = cstr 128 (rtrim isspace (hap_read_file fs (sys_block dev ''device/model'') 256)),
      hd_capacity_mb = of_nat (fst (strtoull (hap_read_file fs (sys_block dev ''size'') 256))) * 512 div (1024 * 1024),
      hd_used_mb = 0, hd_free_mb = 0, hd_use_pct = None, hd_mount_point = [], hd_fs_type = [], hd_available = True\<rparr>"

definition disk_devices :: "files \<Rightarrow> string list \<Rightarrow> 'd hap_disk_device list" where
  "disk_devices fs names =
     take 32 (map (new_device fs)
       (filter (\<lambda>d. \<not> prefix ''.'' d \<and> hap_read_file fs (sys_block d ''size'') 256 \<noteq> []) names))"

text \<open>Device, mount point and type of a line; a field that no blank ends is missing.\<close>

definition mount_fields :: "string \<Rightarrow> string \<times> string \<times> string" where
  "mount_fields line =
     (case split_first (CHR '' '') line of
        (_, None) \<Rightarrow> ([], [], [])
      | (d, Some r1) \<Rightarrow>
          (case split_first (CHR '' '') r1 of
             (_, None) \<Rightarrow> (cstr 256 d, [], [])
           | (m, Some r2) \<Rightarrow>
               (case split_first (CHR '' '') r2 of
                  (_, None) \<Rightarrow> (cstr 256 d, cstr 256 m, [])
                | (t, Some _) \<Rightarrow> (cstr 256 d, cstr 256 m, cstr 64 t))))"

definition mounted :: "string \<Rightarrow> string \<Rightarrow> 64 word \<times> 64 word \<times> 'd option \<Rightarrow> 'd hap_disk_device \<Rightarrow> 'd hap_disk_device" where
  "mounted mp fstype q dev =
     (case q of (used, free, pct) \<Rightarrow>
        dev\<lparr>hd_mount_point := cstr 256 mp, hd_fs_type := cstr 32 fstype, hd_used_mb := used, hd_free_mb := free, hd_use_pct := pct\<rparr>)"

definition disk_mount_line ::
  "(64 word \<Rightarrow> 64 word \<Rightarrow> 'd) \<Rightarrow> (string \<Rightarrow> vfs option) \<Rightarrow> string \<Rightarrow> 'd hap_disk_device list \<Rightarrow> 'd hap_disk_device list" where
  "disk_mount_line percent statvfs line devs =
     (case mount_fields line of (fsdev, mp, fstype) \<Rightarrow>
        if mp = [] then devs
        else (case hap_stat_mount percent (statvfs mp) of
                None \<Rightarrow> devs
              | Some q \<Rightarrow>
                  update_first (\<lambda>d. hap_mount_matches fsdev (hd_name d) \<and> hd_mount_point d = []) (mounted mp fstype q) devs))"

text \<open>The lines of a text, without an empty one at its end.\<close>

function text_lines :: "string \<Rightarrow> string list" where
  "text_lines s =
     (if s = [] then []
      else (case split_first NL s of (l, r) \<Rightarrow> l # (case r of None \<Rightarrow> [] | Some t \<Rightarrow> text_lines t)))"
  by pat_completeness auto
termination
  by (relation "measure length") (auto dest!: split_first_length [OF sym])

declare text_lines.simps [simp del]

definition hap_disk_probe ::
  "(64 word \<Rightarrow> 64 word \<Rightarrow> 'd) \<Rightarrow> files \<Rightarrow> (string \<Rightarrow> vfs option) \<Rightarrow> string list option \<Rightarrow> 'd hap_disk_device list" where
  "hap_disk_probe percent fs statvfs dir =
     (case dir of
        None \<Rightarrow> []
      | Some names \<Rightarrow>
          fold (disk_mount_line percent statvfs) (text_lines (hap_read_file fs ''/proc/mounts'' 8192)) (disk_devices fs names))"

section \<open>Network\<close>

record hap_net_iface =
  hn_name :: string
  hn_is_up :: bool
  hn_is_running :: bool
  hn_mtu :: "32 word"
  hn_mac :: string
  hn_ip :: string
  hn_rx_bytes :: "64 word"
  hn_tx_bytes :: "64 word"
  hn_flags :: "32 word"

text \<open>The numbers a text begins with, at most \<open>n\<close> of them.\<close>

fun scan_numbers :: "nat \<Rightarrow> string \<Rightarrow> nat list" where
  "scan_numbers 0 s = []"
| "scan_numbers (Suc n) s =
     (case scan_number s of None \<Rightarrow> [] | Some (_, _, r) \<Rightarrow> fst (strtoull s) # scan_numbers n r)"

text \<open>
  The first number and the tenth: eight are passed over between the two that are kept.  The numbers are read from
  where the line goes on, and do not stop at its end.
\<close>

definition net_numbers :: "string \<Rightarrow> (64 word \<times> 64 word) option" where
  "net_numbers v =
     (case scan_numbers 10 v of [] \<Rightarrow> None | a # ns \<Rightarrow> Some (of_nat a, if length ns = 9 then of_nat (ns ! 8) else 0))"

definition names_iface :: "string \<Rightarrow> string \<Rightarrow> bool" where
  "names_iface ifname line \<longleftrightarrow> length ifname < length line \<and> prefix ifname line \<and> line ! length ifname = CHR '':''"

function net_line :: "string \<Rightarrow> string \<Rightarrow> (64 word \<times> 64 word) option" where
  "net_line ifname s =
     (if s = [] then None
      else (case split_first NL s of
              (line, r) \<Rightarrow>
                if names_iface ifname line \<and> net_numbers (drop (length ifname + 1) s) \<noteq> None
                then net_numbers (drop (length ifname + 1) s)
                else (case r of None \<Rightarrow> None | Some t \<Rightarrow> net_line ifname t)))"
  by pat_completeness auto
termination
  by (relation "measure (\<lambda>(ifname, s). length s)") (auto dest!: split_first_length [OF sym])

declare net_line.simps [simp del]

definition hap_net_octets :: "files \<Rightarrow> string \<Rightarrow> 64 word \<times> 64 word" where
  "hap_net_octets fs ifname =
     (case net_line ifname (hap_read_file fs ''/proc/net/dev'' 8192) of None \<Rightarrow> (0, 0) | Some p \<Rightarrow> p)"

definition sys_net :: "string \<Rightarrow> string \<Rightarrow> string" where
  "sys_net dev name = cstr 512 (''/sys/class/net/'' @ dev @ ''/'' @ name)"

text \<open>The addresses of the interfaces are a list in their order, those that are IPv4 as text; the first of the name counts.\<close>

definition hap_net_ip :: "(string \<times> string option) list option \<Rightarrow> string \<Rightarrow> string" where
  "hap_net_ip addrs ifname =
     (case addrs of
        None \<Rightarrow> []
      | Some as \<Rightarrow> or_empty (Option.bind (find (\<lambda>(n, ip). ip \<noteq> None \<and> n = ifname) as) snd))"

text \<open>The newlines at the end of the state are removed; a text of nothing else runs over its start.\<close>

definition net_running :: "string \<Rightarrow> bool outcome" where
  "net_running val =
     (if val = [] then Ret False
      else let v = rtrim (\<lambda>c. c = NL) val in if v = [] then Fault else Ret (sublist ''up'' v \<or> sublist ''unknown'' v))"

definition net_iface :: "files \<Rightarrow> (string \<times> string option) list option \<Rightarrow> string \<Rightarrow> hap_net_iface outcome" where
  "net_iface fs addrs dev =
     (case net_running (hap_read_file fs (sys_net dev ''operstate'') 128) of
        Fault \<Rightarrow> Fault
      | Ret running \<Rightarrow>
          Ret \<lparr>hn_name = cstr 64 dev, hn_is_up = True, hn_is_running = running,
               hn_mtu = of_nat (fst (strtoull (hap_read_file fs (sys_net dev ''mtu'') 128))),
               hn_mac = cstr 32 (rtrim isspace (hap_read_file fs (sys_net dev ''address'') 128)), hn_ip = cstr 64 (hap_net_ip addrs dev),
               hn_rx_bytes = fst (hap_net_octets fs dev), hn_tx_bytes = snd (hap_net_octets fs dev), hn_flags = 0\<rparr>)"

fun collect :: "(string \<Rightarrow> 'a outcome) \<Rightarrow> string list \<Rightarrow> 'a list outcome" where
  "collect f [] = Ret []"
| "collect f (d # ds) =
     (case f d of Fault \<Rightarrow> Fault | Ret x \<Rightarrow> (case collect f ds of Fault \<Rightarrow> Fault | Ret xs \<Rightarrow> Ret (x # xs)))"

definition hap_net_probe :: "files \<Rightarrow> (string \<times> string option) list option \<Rightarrow> string list option \<Rightarrow> hap_net_iface list outcome" where
  "hap_net_probe fs addrs dir =
     (case dir of None \<Rightarrow> Ret [] | Some names \<Rightarrow> collect (net_iface fs addrs) (take 64 (filter (\<lambda>d. \<not> prefix ''.'' d) names)))"

section \<open>The plugin\<close>

text \<open>The private data hold whether it was started; the state of the plugin is only ever set to started.\<close>

record hap_self =
  hap_pdata :: "bool option"
  hap_state_started :: bool

definition hap_init :: "hap_self option \<Rightarrow> bool \<Rightarrow> rc \<times> hap_self option" where
  "hap_init self mem =
     (case self of
        None \<Rightarrow> (EINVAL, None)
      | Some p \<Rightarrow> if \<not> mem then (ENOMEM, Some p) else (HWRUN_OK, Some (p\<lparr>hap_pdata := Some False\<rparr>)))"

definition hap_start :: "hap_self option \<Rightarrow> rc \<times> hap_self option" where
  "hap_start self =
     (case self of
        None \<Rightarrow> (ENOTREADY, None)
      | Some p \<Rightarrow>
          (case hap_pdata p of
             None \<Rightarrow> (ENOTREADY, Some p)
           | Some True \<Rightarrow> (HWRUN_OK, Some p)
           | Some False \<Rightarrow> (HWRUN_OK, Some (p\<lparr>hap_pdata := Some True, hap_state_started := True\<rparr>))))"

definition hap_stop :: "hap_self option \<Rightarrow> rc \<times> hap_self option" where
  "hap_stop self = (HWRUN_OK, map_option (\<lambda>p. if hap_pdata p = None then p else p\<lparr>hap_pdata := Some False\<rparr>) self)"

definition hap_destroy :: "hap_self option \<Rightarrow> rc \<times> hap_self option" where
  "hap_destroy self = (HWRUN_OK, map_option (\<lambda>p. p\<lparr>hap_pdata := None\<rparr>) self)"

end
