(* ===== verification/NpConn.thy ===== *)
theory NpConn
  imports Interfaces
begin

text \<open>
  The NP plugin: its connection table, \<^verbatim>\<open>np/src/np_conn.c\<close>, the socket operations that keep it,
  \<^verbatim>\<open>np/src/np_socket.c\<close>, and the statistics of \<^verbatim>\<open>np/src/np.c\<close>.

  The table is the list of its used entries; the mutex is left out.  What the kernel answers is an
  argument of each operation: a file descriptor or a negative \<^verbatim>\<open>errno\<close>, and for \<^verbatim>\<open>getsockname\<close> and
  \<^verbatim>\<open>getpeername\<close> the address family with the address in text and the port.
\<close>

section \<open>The connection table\<close>

datatype sock_state = UNCONNECTED | CONNECTING | CONNECTED | DISCONNECTING | LISTENING

record sock =
  sk_fd :: int
  sk_domain :: int
  sk_type :: int
  sk_protocol :: int
  sk_state :: sock_state
  local_ip :: string
  local_port :: nat
  remote_ip :: string
  remote_port :: nat

type_synonym conns = "sock list"

abbreviation NP_CONN_CAP :: nat where "NP_CONN_CAP \<equiv> 512"

fun find_index :: "conns \<Rightarrow> int \<Rightarrow> nat option" where
  "find_index [] fd = None"
| "find_index (c # cs) fd = (if sk_fd c = fd then Some 0 else map_option Suc (find_index cs fd))"

definition np_conn_register :: "conns \<Rightarrow> sock option \<Rightarrow> rc \<times> conns" where
  "np_conn_register t c =
     (case c of
        None \<Rightarrow> (EINVAL, t)
      | Some c \<Rightarrow>
          (case find_index t (sk_fd c) of
             Some i \<Rightarrow> (0, t[i := c])
           | None \<Rightarrow> if length t \<ge> NP_CONN_CAP then (ENOMEM, t) else (0, t @ [c])))"

definition np_conn_update_state :: "conns \<Rightarrow> int \<Rightarrow> sock_state \<Rightarrow> rc \<times> conns" where
  "np_conn_update_state t fd st =
     (case find_index t fd of
        None \<Rightarrow> (ENOENT, t)
      | Some i \<Rightarrow> (0, t[i := (t ! i)\<lparr>sk_state := st\<rparr>]))"

definition set_remote :: "string option \<Rightarrow> nat \<Rightarrow> sock \<Rightarrow> sock" where
  "set_remote ip port c =
     (case ip of None \<Rightarrow> c | Some a \<Rightarrow> c\<lparr>remote_ip := cstr 64 a, remote_port := port\<rparr>)"

definition set_local :: "string option \<Rightarrow> nat \<Rightarrow> sock \<Rightarrow> sock" where
  "set_local ip port c =
     (case ip of None \<Rightarrow> c | Some a \<Rightarrow> c\<lparr>local_ip := cstr 64 a, local_port := port\<rparr>)"

definition np_conn_set_addresses ::
  "conns \<Rightarrow> int \<Rightarrow> string option \<Rightarrow> nat \<Rightarrow> string option \<Rightarrow> nat \<Rightarrow> rc \<times> conns" where
  "np_conn_set_addresses t fd rip rport lip lport =
     (case find_index t fd of
        None \<Rightarrow> (ENOENT, t)
      | Some i \<Rightarrow> (0, t[i := set_local lip lport (set_remote rip rport (t ! i))]))"

definition np_conn_set_local :: "conns \<Rightarrow> int \<Rightarrow> string option \<Rightarrow> nat \<Rightarrow> rc \<times> conns" where
  "np_conn_set_local t fd ip port = np_conn_set_addresses t fd None 0 ip port"

text \<open>The last entry takes the place of the removed one.\<close>

definition np_conn_unregister :: "conns \<Rightarrow> int \<Rightarrow> rc \<times> conns" where
  "np_conn_unregister t fd =
     (case find_index t fd of
        None \<Rightarrow> (ENOENT, t)
      | Some i \<Rightarrow> (0, take (length t - 1) (t[i := t ! (length t - 1)])))"

definition np_conn_clear :: "conns \<Rightarrow> conns" where
  "np_conn_clear t = []"

definition np_conn_get :: "conns \<Rightarrow> int \<Rightarrow> rc \<times> sock option" where
  "np_conn_get t fd =
     (case find_index t fd of None \<Rightarrow> (ENOENT, None) | Some i \<Rightarrow> (0, Some (t ! i)))"

text \<open>The entries copied out and their number.\<close>

definition np_conn_list :: "conns \<Rightarrow> int \<Rightarrow> rc \<times> sock list \<times> int" where
  "np_conn_list t cap =
     (let n = min (int (length t)) cap in (0, take (nat n) t, n))"

section \<open>Socket operations\<close>

datatype family = Inet | Inet6 | OtherFamily

text \<open>An address the kernel reports: the family, and for the internet families text and port.\<close>

type_synonym sockname = "(family \<times> string \<times> nat) option"

definition shown_ip :: "family \<times> string \<times> nat \<Rightarrow> string" where
  "shown_ip a = (case a of (OtherFamily, _, _) \<Rightarrow> [] | (_, ip, _) \<Rightarrow> ip)"

definition shown_port :: "nat \<Rightarrow> family \<times> string \<times> nat \<Rightarrow> nat" where
  "shown_port old a = (case a of (OtherFamily, _, _) \<Rightarrow> old | (_, _, p) \<Rightarrow> p)"

text \<open>The port of the first answer is kept when the second has none.\<close>

definition conn_refresh_from_fd :: "sockname \<Rightarrow> sockname \<Rightarrow> conns \<Rightarrow> int \<Rightarrow> conns" where
  "conn_refresh_from_fd sname pname t fd =
     (let (t1, port) = (case sname of
            None \<Rightarrow> (t, 0)
          | Some a \<Rightarrow> (snd (np_conn_set_local t fd (Some (shown_ip a)) (shown_port 0 a)), shown_port 0 a))
      in (case pname of
            None \<Rightarrow> t1
          | Some a \<Rightarrow> snd (np_conn_set_addresses t1 fd (Some (shown_ip a)) (shown_port port a) None 0)))"

definition new_sock :: "int \<Rightarrow> sock" where
  "new_sock fd =
     \<lparr>sk_fd = fd, sk_domain = 0, sk_type = 0, sk_protocol = 0, sk_state = UNCONNECTED,
      local_ip = [], local_port = 0, remote_ip = [], remote_port = 0\<rparr>"

text \<open>Each operation returns its code, the descriptor it hands out, if any, and the table.\<close>

definition np_socket_impl :: "rc + int \<Rightarrow> conns \<Rightarrow> int \<Rightarrow> int \<Rightarrow> int \<Rightarrow> rc \<times> int option \<times> conns" where
  "np_socket_impl k t domain type protocol =
     (case k of
        Inl e \<Rightarrow> (e, None, t)
      | Inr fd \<Rightarrow>
          (0, Some fd, snd (np_conn_register t (Some ((new_sock fd)
             \<lparr>sk_domain := domain, sk_type := type, sk_protocol := protocol, sk_state := UNCONNECTED\<rparr>)))))"

definition np_bind_addr_impl :: "rc \<Rightarrow> sockname \<Rightarrow> conns \<Rightarrow> int \<Rightarrow> bool \<Rightarrow> rc \<times> conns" where
  "np_bind_addr_impl k sname t fd addr_given =
     (if \<not> addr_given then (EINVAL, t)
      else if k \<noteq> 0 then (k, t)
      else (0, case sname of
                 None \<Rightarrow> t
               | Some a \<Rightarrow> snd (np_conn_set_local t fd (Some (shown_ip a)) (shown_port 0 a))))"

definition np_listen_impl :: "rc \<Rightarrow> conns \<Rightarrow> int \<Rightarrow> rc \<times> conns" where
  "np_listen_impl k t fd = (if k \<noteq> 0 then (k, t) else (0, snd (np_conn_update_state t fd LISTENING)))"

text \<open>
  \<open>peer\<close> is the address \<^verbatim>\<open>accept\<close> fills in (empty text and port 0 when it is not IPv4), \<open>sodom\<close> the answer of
  \<^verbatim>\<open>SO_DOMAIN\<close>, \<open>fam\<close> the family in the address, \<open>want\<close> whether the caller asked for the peer.
\<close>

definition np_accept_impl ::
  "rc + int \<Rightarrow> int option \<Rightarrow> int \<Rightarrow> string \<times> nat \<Rightarrow> sockname \<Rightarrow> sockname \<Rightarrow> conns \<Rightarrow> bool \<Rightarrow> rc \<times> int option \<times> conns" where
  "np_accept_impl k sodom fam peer sname pname t want =
     (case k of
        Inl e \<Rightarrow> (e, None, t)
      | Inr newfd \<Rightarrow>
          let c = (new_sock newfd)\<lparr>sk_state := CONNECTED,
                    sk_domain := (case sodom of Some d \<Rightarrow> (if d \<ge> 0 then d else fam) | None \<Rightarrow> fam)\<rparr>;
              t1 = snd (np_conn_register t (Some c));
              t2 = (if want then snd (np_conn_set_addresses t1 newfd (Some (fst peer)) (snd peer) None 0) else t1)
          in (0, Some newfd, conn_refresh_from_fd sname pname t2 newfd))"

text \<open>\<open>peer\<close> is the address connected to when it is IPv4.\<close>

definition np_connect_addr_impl ::
  "rc \<Rightarrow> (string \<times> nat) option \<Rightarrow> sockname \<Rightarrow> sockname \<Rightarrow> conns \<Rightarrow> int \<Rightarrow> bool \<Rightarrow> rc \<times> conns" where
  "np_connect_addr_impl k peer sname pname t fd addr_given =
     (if \<not> addr_given then (EINVAL, t)
      else if k = 0 then
        let t1 = snd (np_conn_update_state t fd CONNECTED);
            t2 = (case peer of None \<Rightarrow> t1 | Some (ip, p) \<Rightarrow> snd (np_conn_set_addresses t1 fd (Some ip) p None 0))
        in (0, case np_conn_get t2 fd of (_, Some c) \<Rightarrow> conn_refresh_from_fd sname pname t2 fd | _ \<Rightarrow> t2)
      else (k, if k = - 115 \<or> k = - 114 \<or> k = EAGAIN then snd (np_conn_update_state t fd CONNECTING) else t))"

definition np_close_impl :: "rc \<Rightarrow> conns \<Rightarrow> int \<Rightarrow> rc \<times> conns" where
  "np_close_impl k t fd = (k, snd (np_conn_unregister t fd))"

abbreviation SHUT_RD :: int where "SHUT_RD \<equiv> 0"
abbreviation SHUT_RDWR :: int where "SHUT_RDWR \<equiv> 2"

definition np_shutdown_impl :: "rc \<Rightarrow> conns \<Rightarrow> int \<Rightarrow> int \<Rightarrow> rc \<times> conns" where
  "np_shutdown_impl k t fd how =
     (if k \<noteq> 0 then (k, t)
      else (0, if how = SHUT_RDWR \<or> how = SHUT_RD then snd (np_conn_update_state t fd DISCONNECTING) else t))"

section \<open>Statistics\<close>

record np_stats =
  tcp_sockets :: nat
  udp_sockets :: nat
  unix_sockets :: nat
  total_sockets :: nat

abbreviation AF_UNIX :: int where "AF_UNIX \<equiv> 1"
abbreviation AF_INET :: int where "AF_INET \<equiv> 2"
abbreviation SOCK_STREAM :: int where "SOCK_STREAM \<equiv> 1"
abbreviation SOCK_DGRAM :: int where "SOCK_DGRAM \<equiv> 2"

fun count_conns :: "np_stats \<Rightarrow> sock list \<Rightarrow> np_stats" where
  "count_conns st [] = st"
| "count_conns st (c # cs) =
     count_conns
       (if sk_domain c = AF_UNIX then st\<lparr>unix_sockets := unix_sockets st + 1\<rparr>
        else if sk_type c = SOCK_STREAM then st\<lparr>tcp_sockets := tcp_sockets st + 1\<rparr>
        else if sk_type c = SOCK_DGRAM then st\<lparr>udp_sockets := udp_sockets st + 1\<rparr>
        else st) cs"

text \<open>The counters of the sockets; those of the network interfaces are left out.\<close>

definition np_stats_impl :: "conns \<Rightarrow> np_stats" where
  "np_stats_impl t =
     (let st = count_conns \<lparr>tcp_sockets = 0, udp_sockets = 0, unix_sockets = 0, total_sockets = 0\<rparr>
                 (fst (snd (np_conn_list t 256)))
      in st\<lparr>total_sockets := tcp_sockets st + udp_sockets st + unix_sockets st\<rparr>)"

section \<open>The table as a map from descriptors\<close>

abbreviation fds :: "conns \<Rightarrow> int list" where
  "fds t \<equiv> map sk_fd t"

lemma find_index_None: "find_index t fd = None \<longleftrightarrow> fd \<notin> set (fds t)"
  by (induction t) auto

lemma find_index_Some: "find_index t fd = Some i \<Longrightarrow> i < length t \<and> sk_fd (t ! i) = fd"
  by (induction t arbitrary: i) (auto split: if_splits)

lemma find_index_nth: "distinct (fds t) \<Longrightarrow> i < length t \<Longrightarrow> find_index t (sk_fd (t ! i)) = Some i"
proof (induction t arbitrary: i)
  case (Cons c t)
  show ?case
  proof (cases i)
    case (Suc j)
    then have j: "j < length t" using Cons.prems by simp
    then have "sk_fd (t ! j) \<in> set (fds t)" by simp
    then have "sk_fd c \<noteq> sk_fd (t ! j)" using Cons.prems(1) by auto
    then show ?thesis using Cons.IH [of j] Cons.prems(1) j Suc by simp
  qed simp
qed simp

lemma find_index_fds: "fds t = fds u \<Longrightarrow> find_index t fd = find_index u fd"
proof (induction t arbitrary: u)
  case (Cons c t)
  then obtain d v where "u = d # v" by (cases u) auto
  with Cons show ?case by auto
qed simp

lemma find_index_append: "find_index (t @ u) fd =
    (case find_index t fd of Some i \<Rightarrow> Some i | None \<Rightarrow> map_option (\<lambda>i. length t + i) (find_index u fd))"
  by (induction t; cases "find_index u fd") (auto split: option.splits)

lemma fds_update: "i < length t \<Longrightarrow> sk_fd c = sk_fd (t ! i) \<Longrightarrow> fds (t[i := c]) = fds t"
  by (simp add: map_update list_update_same_conv)

definition conns_wf :: "conns \<Rightarrow> bool" where
  "conns_wf t \<longleftrightarrow> distinct (fds t) \<and> length t \<le> NP_CONN_CAP"

definition conn_look :: "conns \<Rightarrow> int \<Rightarrow> sock option" where
  "conn_look t fd = snd (np_conn_get t fd)"

definition conn_ok :: "conns \<Rightarrow> int \<Rightarrow> sock \<Rightarrow> bool" where
  "conn_ok t fd c \<longleftrightarrow> sk_fd c = fd \<and> (fd \<in> set (fds t) \<or> length t < NP_CONN_CAP)"

abbreviation conn_put :: "conns \<Rightarrow> int \<Rightarrow> sock \<Rightarrow> conns" where
  "conn_put t fd c \<equiv> snd (np_conn_register t (Some c))"

lemma np_register_cases:
  "np_conn_register t (Some c) =
     (if sk_fd c \<in> set (fds t) then (0, t[the (find_index t (sk_fd c)) := c])
      else if length t \<ge> NP_CONN_CAP then (ENOMEM, t) else (0, t @ [c]))"
  using find_index_None [of t "sk_fd c"] by (auto simp: np_conn_register_def split: option.splits)

lemma register_fds:
  "fds (conn_put t fd c) = (if sk_fd c \<in> set (fds t) \<or> length t \<ge> NP_CONN_CAP then fds t else fds t @ [sk_fd c])"
proof (cases "sk_fd c \<in> set (fds t)")
  case True
  then obtain i where "find_index t (sk_fd c) = Some i"
    using find_index_None [of t "sk_fd c"] by auto
  then show ?thesis using True find_index_Some [of t "sk_fd c" i] by (simp add: np_register_cases fds_update)
qed (simp add: np_register_cases)

interpretation conn_table: kv_store conns_wf conn_ok "\<lambda>fd. fd" Some conn_look conn_put
proof
  fix t fd c assume wf: "conns_wf t" and ok: "conn_ok t fd c"
  have l: "length (conn_put t fd c) = length (fds (conn_put t fd c))" by simp
  show "conns_wf (conn_put t fd c)"
    using wf ok unfolding conns_wf_def l register_fds by (auto simp: conn_ok_def)
  show "conn_look (conn_put t fd c) = (conn_look t)(fd \<mapsto> c)"
  proof
    fix x
    show "conn_look (conn_put t fd c) x = ((conn_look t)(fd \<mapsto> c)) x"
    proof (cases "fd \<in> set (fds t)")
      case True
      then obtain i where i: "find_index t fd = Some i" using find_index_None [of t fd] by auto
      then have f: "i < length t" "sk_fd (t ! i) = fd" using find_index_Some by auto
      have p: "conn_put t fd c = t[i := c]" using ok i by (simp add: np_conn_register_def conn_ok_def)
      have e: "find_index (t[i := c]) x = find_index t x"
        by (rule find_index_fds) (use f ok in \<open>simp add: fds_update conn_ok_def\<close>)
      show ?thesis
      proof (cases "x = fd \<or> find_index t x = None")
        case True
        then show ?thesis
          using i f(1) e unfolding p conn_look_def np_conn_get_def by auto
      next
        case False
        then obtain j where j: "find_index t x = Some j" by auto
        then have "sk_fd (t ! j) = x" using find_index_Some by blast
        then have "j \<noteq> i" using False f(2) by auto
        then show ?thesis
          using False e j unfolding p conn_look_def np_conn_get_def by simp
      qed
    next
      case False
      then have n: "find_index t fd = None" by (simp add: find_index_None)
      then have p: "conn_put t fd c = t @ [c]"
        using ok False by (auto simp: np_register_cases conn_ok_def)
      have c: "sk_fd c = fd" using ok by (simp add: conn_ok_def)
      show ?thesis
      proof (cases "find_index t x")
        case None
        then show ?thesis
          unfolding p using n c by (simp add: conn_look_def np_conn_get_def find_index_append)
      next
        case (Some j)
        then have "j < length t" "x \<noteq> fd" using find_index_Some n by auto
        with Some show ?thesis
          unfolding p by (simp add: conn_look_def np_conn_get_def find_index_append nth_append)
      qed
    qed
  qed
qed

section \<open>Operations that keep the descriptors\<close>

lemma update_state_fds [simp]: "fds (snd (np_conn_update_state t fd st)) = fds t"
  by (auto simp: np_conn_update_state_def fds_update split: option.splits dest!: find_index_Some)

lemma set_ip_fd [simp]: "sk_fd (set_local a b c) = sk_fd c" "sk_fd (set_remote a b c) = sk_fd c"
  by (simp_all add: set_local_def set_remote_def split: option.splits)

lemma set_addresses_fds [simp]: "fds (snd (np_conn_set_addresses t fd a b c d)) = fds t"
  by (auto simp: np_conn_set_addresses_def fds_update split: option.splits dest!: find_index_Some)

lemma set_local_fds [simp]: "fds (snd (np_conn_set_local t fd a b)) = fds t"
  by (simp add: np_conn_set_local_def)

lemma refresh_fds [simp]: "fds (conn_refresh_from_fd a b t fd) = fds t"
  by (simp add: conn_refresh_from_fd_def Let_def split: option.splits)

lemma bind_fds [simp]: "fds (snd (np_bind_addr_impl k a t fd g)) = fds t"
  by (simp add: np_bind_addr_impl_def split: option.splits)

lemma listen_fds [simp]: "fds (snd (np_listen_impl k t fd)) = fds t"
  by (simp add: np_listen_impl_def)

lemma connect_fds [simp]: "fds (snd (np_connect_addr_impl k p a b t fd g)) = fds t"
  by (simp add: np_connect_addr_impl_def Let_def split: option.splits prod.splits)

lemma shutdown_fds [simp]: "fds (snd (np_shutdown_impl k t fd h)) = fds t"
  by (simp add: np_shutdown_impl_def)

lemma butlast_replaced:
  assumes "distinct xs" "i < length xs"
  shows "distinct (butlast (xs[i := last xs])) \<and> set (butlast (xs[i := last xs])) = set xs - {xs ! i}"
proof -
  from assms(2) obtain ys z where xs: "xs = ys @ [z]" by (cases xs rule: rev_cases) auto
  show ?thesis
  proof (cases "i = length ys")
    case True
    with xs assms(1) show ?thesis by auto
  next
    case False
    then have "i < length ys" using assms(2) xs by simp
    with xs assms(1) show ?thesis
      by (auto simp: list_update_append nth_append set_update_distinct distinct_list_update)
  qed
qed

lemma unregister_fds:
  assumes "distinct (fds t)"
  shows "distinct (fds (snd (np_conn_unregister t fd))) \<and> set (fds (snd (np_conn_unregister t fd))) = set (fds t) - {fd}"
proof (cases "find_index t fd")
  case None
  then show ?thesis using assms find_index_None [of t fd] by (simp add: np_conn_unregister_def)
next
  case (Some i)
  then have i: "i < length t" "sk_fd (t ! i) = fd" using find_index_Some by auto
  then have "t \<noteq> []" by auto
  then have "fds (snd (np_conn_unregister t fd)) = butlast ((fds t)[i := last (fds t)])"
    using Some i by (simp add: np_conn_unregister_def butlast_conv_take take_map [symmetric] map_update last_conv_nth)
  then show ?thesis using butlast_replaced [OF assms, of i] i by simp
qed

section \<open>Open sockets\<close>

text \<open>
  What a process can do through the plugin, with the set of its open descriptors: the kernel hands out
  descriptors that are not open, and closing an open one succeeds.
\<close>

inductive np_reach :: "int set \<Rightarrow> conns \<Rightarrow> bool" where
  start: "np_reach {} []"
| socket: "np_reach os t \<Longrightarrow> fd \<notin> os \<Longrightarrow> card os < NP_CONN_CAP \<Longrightarrow>
    np_socket_impl (Inr fd) t d ty p = (rc, r, t') \<Longrightarrow> np_reach (insert fd os) t'"
| accept: "np_reach os t \<Longrightarrow> fd \<notin> os \<Longrightarrow> card os < NP_CONN_CAP \<Longrightarrow>
    np_accept_impl (Inr fd) sd fam peer sn pn t want = (rc, r, t') \<Longrightarrow> np_reach (insert fd os) t'"
| failed_socket: "np_reach os t \<Longrightarrow> np_socket_impl (Inl e) t d ty p = (rc, r, t') \<Longrightarrow> np_reach os t'"
| failed_accept: "np_reach os t \<Longrightarrow> np_accept_impl (Inl e) sd fam peer sn pn t want = (rc, r, t') \<Longrightarrow> np_reach os t'"
| bind: "np_reach os t \<Longrightarrow> np_bind_addr_impl k sn t fd g = (rc, t') \<Longrightarrow> np_reach os t'"
| listen: "np_reach os t \<Longrightarrow> np_listen_impl k t fd = (rc, t') \<Longrightarrow> np_reach os t'"
| connect: "np_reach os t \<Longrightarrow> np_connect_addr_impl k pr sn pn t fd g = (rc, t') \<Longrightarrow> np_reach os t'"
| shutdown: "np_reach os t \<Longrightarrow> np_shutdown_impl k t fd h = (rc, t') \<Longrightarrow> np_reach os t'"
| close: "np_reach os t \<Longrightarrow> fd \<in> os \<Longrightarrow> np_close_impl 0 t fd = (rc, t') \<Longrightarrow> np_reach (os - {fd}) t'"
| failed_close: "np_reach os t \<Longrightarrow> fd \<notin> os \<Longrightarrow> np_close_impl k t fd = (rc, t') \<Longrightarrow> np_reach os t'"

lemma socket_fds:
  "np_socket_impl (Inr fd) t d ty p = (rc, r, t') \<Longrightarrow> fd \<notin> set (fds t) \<Longrightarrow> length t < NP_CONN_CAP \<Longrightarrow> fds t' = fds t @ [fd]"
  using register_fds [of t "(new_sock fd)\<lparr>sk_domain := d, sk_type := ty, sk_protocol := p, sk_state := UNCONNECTED\<rparr>"]
  by (auto simp: np_socket_impl_def new_sock_def)

lemma accept_fds:
  assumes "np_accept_impl (Inr fd) sd fam peer sn pn t want = (rc, r, t')" "fd \<notin> set (fds t)" "length t < NP_CONN_CAP"
  shows "fds t' = fds t @ [fd]"
proof -
  let ?c = "(new_sock fd)\<lparr>sk_state := CONNECTED,
                    sk_domain := (case sd of Some d \<Rightarrow> (if d \<ge> 0 then d else fam) | None \<Rightarrow> fam)\<rparr>"
  have "fds (conn_put t fd ?c) = fds t @ [fd]" using assms(2,3) unfolding register_fds by (simp add: new_sock_def)
  with assms(1) show ?thesis by (auto simp: np_accept_impl_def Let_def)
qed

lemma reach_fds: "np_reach os t \<Longrightarrow> distinct (fds t) \<and> set (fds t) = os"
proof (induction rule: np_reach.induct)
  case (socket os t fd d ty p rc r t')
  then have "length t < NP_CONN_CAP" using distinct_card [of "fds t"] by simp
  then have "fds t' = fds t @ [fd]" using socket by (intro socket_fds [OF socket(4)]) auto
  with socket show ?case by auto
next
  case (accept os t fd sd fam peer sn pn want rc r t')
  then have "length t < NP_CONN_CAP" using distinct_card [of "fds t"] by simp
  then have "fds t' = fds t @ [fd]" using accept by (intro accept_fds [OF accept(4)]) auto
  with accept show ?case by auto
next
  case (bind os t k sn fd g rc t')
  then show ?case by (metis bind_fds snd_conv)
next
  case (listen os t k fd rc t')
  then show ?case by (metis listen_fds snd_conv)
next
  case (connect os t k pr sn pn fd g rc t')
  then show ?case by (metis connect_fds snd_conv)
next
  case (shutdown os t k fd h rc t')
  then show ?case by (metis shutdown_fds snd_conv)
next
  case (close os t fd rc t')
  then have "t' = snd (np_conn_unregister t fd)" by (simp add: np_close_impl_def)
  with unregister_fds [of t fd] close show ?case by auto
next
  case (failed_close os t fd k rc t')
  then have "t' = snd (np_conn_unregister t fd)" by (simp add: np_close_impl_def)
  with unregister_fds [of t fd] failed_close show ?case by auto
qed (auto simp: np_socket_impl_def np_accept_impl_def)

section \<open>Properties\<close>

text \<open>
  C24. As long as a process has at most 512 sockets open, the table tracks exactly the open ones, one
  entry each: looking up an open descriptor returns its entry, any other descriptor is not found.
\<close>

theorem np_table_tracks_open_sockets:
  assumes "np_reach os t"
  shows "distinct (map sk_fd t) \<and> length t = card os \<and>
    (\<forall>fd. if fd \<in> os then \<exists>c. np_conn_get t fd = (0, Some c) \<and> sk_fd c = fd
          else np_conn_get t fd = (ENOENT, None))"
proof -
  have d: "distinct (fds t)" and s: "set (fds t) = os" using reach_fds [OF assms] by auto
  then have "length t = card os" using distinct_card [of "fds t"] by simp
  moreover have "\<exists>c. np_conn_get t fd = (0, Some c) \<and> sk_fd c = fd" if "fd \<in> os" for fd
  proof -
    from that s obtain i where "find_index t fd = Some i" using find_index_None [of t fd] by auto
    then show ?thesis using find_index_Some [of t fd i] by (simp add: np_conn_get_def)
  qed
  moreover have "np_conn_get t fd = (ENOENT, None)" if "fd \<notin> os" for fd
    using that s find_index_None [of t fd] by (simp add: np_conn_get_def)
  ultimately show ?thesis using d by simp
qed

theorem np_table_tracks_open_sockets_witness:
  "\<exists>t. np_reach {4} t \<and> length t = 1 \<and> np_conn_get t 3 = (ENOENT, None)"
proof -
  obtain r1 a1 t1 where t1: "np_socket_impl (Inr 3) [] AF_INET SOCK_STREAM 0 = (r1, a1, t1)" by (metis prod_cases3)
  have 1: "np_reach {3} t1" by (rule np_reach.socket [OF np_reach.start _ _ t1]) auto
  obtain r2 a2 t2 where t2: "np_accept_impl (Inr 4) None AF_INET ([], 0) None None t1 True = (r2, a2, t2)"
    by (metis prod_cases3)
  have 2: "np_reach {4, 3} t2" by (rule np_reach.accept [OF 1 _ _ t2]) auto
  obtain r3 t3 where t3: "np_close_impl 0 t2 3 = (r3, t3)" by force
  have "np_reach ({4, 3} - {3}) t3" by (rule np_reach.close [OF 2 _ t3]) auto
  then have 3: "np_reach {4} t3" by (simp add: insert_Diff_if)
  from np_table_tracks_open_sockets [OF 3] 3 show ?thesis by (intro exI [of _ t3]) auto
qed

end
