(* ===== verification/NpIface.thy ===== *)
theory NpIface
  imports NpConn Hap
begin

text \<open>
  The NP plugin, second part: the interfaces of the network, \<^verbatim>\<open>np/src/np_interface.c\<close>, names and addresses,
  \<^verbatim>\<open>np/src/np_resolve.c\<close>, and the statistics and the life cycle of \<^verbatim>\<open>np/src/np.c\<close>.

  The files, the list of \<^verbatim>\<open>getifaddrs\<close>, the answers of \<^verbatim>\<open>getaddrinfo\<close> and the text of an IPv6 address are parameters.
  The machine is little-endian: the first byte of an IPv4 address is the lowest of its word.
\<close>

section \<open>Addresses\<close>

definition addr_byte :: "nat \<Rightarrow> 32 word \<Rightarrow> nat" where
  "addr_byte i w = unat w div 256 ^ i mod 256"

definition addr_bytes :: "32 word \<Rightarrow> nat list" where
  "addr_bytes w = map (\<lambda>i. addr_byte i w) [0, 1, 2, 3]"

fun dotted :: "nat list \<Rightarrow> string" where
  "dotted [] = []"
| "dotted [b] = show_nat b"
| "dotted (b # bs) = show_nat b @ CHR ''.'' # dotted bs"

definition inet_ntop4 :: "32 word \<Rightarrow> string" where
  "inet_ntop4 w = dotted (addr_bytes w)"

definition ntohl :: "32 word \<Rightarrow> 32 word" where
  "ntohl w = of_nat (addr_byte 0 w * 256 ^ 3 + addr_byte 1 w * 256 ^ 2 + addr_byte 2 w * 256 + addr_byte 3 w)"

section \<open>One interface\<close>

record np_interface =
  np_name :: string
  np_mac :: string
  np_ipv4 :: string
  np_netmask :: string
  np_gateway :: string
  np_ipv6 :: string
  np_mtu :: "32 word"
  np_up :: bool
  np_rx_bytes :: "64 word"
  np_tx_bytes :: "64 word"
  np_rx_packets :: "64 word"
  np_tx_packets :: "64 word"

definition read_txt :: "files \<Rightarrow> string \<Rightarrow> nat \<Rightarrow> string" where
  "read_txt fs path cap =
     (case fs path of None \<Rightarrow> [] | Some s \<Rightarrow> rtrim (\<lambda>c. c = NL \<or> c = CHR 0x0D \<or> c = CHR '' '') (take (cap - 1) s))"

definition find_name :: "np_interface list \<Rightarrow> string \<Rightarrow> bool" where
  "find_name arr name \<longleftrightarrow> (\<exists>i \<in> set arr. np_name i = name)"

text \<open>The name of a line of \<^verbatim>\<open>/proc/net/dev\<close>: blanks behind it are removed, those in front are not.\<close>

definition dev_name :: "string \<Rightarrow> string option" where
  "dev_name line =
     (case split_first (CHR '':'') line of
        (_, None) \<Rightarrow> None
      | (n, Some _) \<Rightarrow> Some (rtrim (\<lambda>c. c = CHR '' '') (take 16 n)))"

fun dev_nums :: "nat \<Rightarrow> string \<Rightarrow> nat list" where
  "dev_nums 0 p = []"
| "dev_nums (Suc k) p =
     (let q = dropWhile (\<lambda>c. c = CHR '' '') p in
      if q = [] \<or> scan_number q = None then []
      else fst (strtoull q) # dev_nums k (dropWhile (\<lambda>c. c \<noteq> CHR '' '') q))"

definition dev_stats :: "nat list \<Rightarrow> np_interface \<Rightarrow> np_interface" where
  "dev_stats ns i =
     i\<lparr>np_rx_bytes := (if 1 \<le> length ns then of_nat (ns ! 0) else np_rx_bytes i),
       np_rx_packets := (if 2 \<le> length ns then of_nat (ns ! 1) else np_rx_packets i),
       np_tx_bytes := (if 9 \<le> length ns then of_nat (ns ! 8) else np_tx_bytes i),
       np_tx_packets := (if 10 \<le> length ns then of_nat (ns ! 9) else np_tx_packets i)\<rparr>"

definition proc_dev_stats :: "files \<Rightarrow> string \<Rightarrow> np_interface \<Rightarrow> np_interface" where
  "proc_dev_stats fs name i =
     (case fs ''/proc/net/dev'' of
        None \<Rightarrow> i
      | Some s \<Rightarrow>
          (case find (\<lambda>l. dev_name l = Some name) (drop 2 (fgets_all 640 s)) of
             None \<Rightarrow> i
           | Some l \<Rightarrow> dev_stats (dev_nums 16 (tl (dropWhile (\<lambda>c. c \<noteq> CHR '':'') l))) i))"

section \<open>The default gateway\<close>

definition isxdigit :: "char \<Rightarrow> bool" where
  "isxdigit c \<longleftrightarrow> isdigit c \<or> (97 \<le> (of_char c :: nat) \<and> (of_char c :: nat) \<le> 102) \<or> (65 \<le> (of_char c :: nat) \<and> (of_char c :: nat) \<le> 70)"

definition xdigit_val :: "char \<Rightarrow> nat" where
  "xdigit_val c = (if isdigit c then digit_val c else if 97 \<le> (of_char c :: nat) then of_char c - 87 else of_char c - 55)"

text \<open>The conversion \<^verbatim>\<open>%lx\<close>: blanks, a sign, \<^verbatim>\<open>0x\<close> before a digit, the digits; a value too large is the largest.\<close>

definition scan_hex :: "string \<Rightarrow> (nat \<times> string) option" where
  "scan_hex s =
     (let t = dropWhile isspace s;
          neg = (t \<noteq> [] \<and> hd t = CHR ''-'');
          u = (if t \<noteq> [] \<and> (hd t = CHR ''-'' \<or> hd t = CHR ''+'') then tl t else t);
          v = (if 2 < length u \<and> hd u = CHR ''0'' \<and> (u ! 1 = CHR ''x'' \<or> u ! 1 = CHR ''X'') \<and> isxdigit (u ! 2) then drop 2 u else u);
          n = foldl (\<lambda>a c. 16 * a + xdigit_val c) 0 (takeWhile isxdigit v) in
      if takeWhile isxdigit v = [] then None
      else Some (if 2 ^ 64 \<le> n then 2 ^ 64 - 1 else if neg then (2 ^ 64 - n) mod 2 ^ 64 else n, dropWhile isxdigit v))"

definition skip_number :: "string \<Rightarrow> string option" where
  "skip_number s = map_option (snd \<circ> snd) (scan_number s)"

text \<open>Destination and gateway of a line that has all of its first eight fields.\<close>

definition route_fields :: "string \<Rightarrow> (nat \<times> nat) option" where
  "route_fields line =
     (case scan_word line of
        None \<Rightarrow> None
      | Some (_, r) \<Rightarrow>
          (case scan_hex r of
             None \<Rightarrow> None
           | Some (dest, r) \<Rightarrow>
               (case scan_hex r of
                  None \<Rightarrow> None
                | Some (gateway, r) \<Rightarrow>
                    (case Option.bind (Option.bind (Option.bind (Option.bind (map_option snd (scan_hex r)) skip_number) skip_number) skip_number) scan_hex of
                       None \<Rightarrow> None | Some _ \<Rightarrow> Some (dest, gateway)))))"

definition default_route :: "string \<Rightarrow> nat option" where
  "default_route line =
     (case route_fields line of None \<Rightarrow> None | Some (dest, gateway) \<Rightarrow> if dest = 0 \<and> gateway \<noteq> 0 then Some gateway else None)"

definition proc_default_gateway :: "files \<Rightarrow> string" where
  "proc_default_gateway fs =
     (case fs ''/proc/net/route'' of
        None \<Rightarrow> []
      | Some s \<Rightarrow>
          (case List.map_filter default_route (drop 1 (fgets_all 512 s)) of
             [] \<Rightarrow> [] | g # _ \<Rightarrow> inet_ntop4 (ntohl (of_nat g))))"

section \<open>All interfaces\<close>

datatype inet = Inet "32 word" | Inet6 "128 word" | OtherFamily

record ifaddr =
  ia_name :: "string option"
  ia_up :: bool
  ia_addr :: "inet option"
  ia_netmask :: "32 word option"

definition new_iface :: "string \<Rightarrow> bool \<Rightarrow> np_interface" where
  "new_iface name up =
     \<lparr>np_name = cstr 64 name, np_mac = [], np_ipv4 = [], np_netmask = [], np_gateway = [], np_ipv6 = [], np_mtu = 0, np_up = up,
      np_rx_bytes = 0, np_tx_bytes = 0, np_rx_packets = 0, np_tx_packets = 0\<rparr>"

definition set_addr :: "(128 word \<Rightarrow> string) \<Rightarrow> inet \<Rightarrow> 32 word option \<Rightarrow> np_interface \<Rightarrow> np_interface" where
  "set_addr ntop6 a nm i =
     (case a of
        Inet w \<Rightarrow> i\<lparr>np_ipv4 := inet_ntop4 w, np_netmask := (case nm of None \<Rightarrow> np_netmask i | Some m \<Rightarrow> inet_ntop4 m)\<rparr>
      | Inet6 w \<Rightarrow> i\<lparr>np_ipv6 := takeWhile (\<lambda>c. c \<noteq> CHR ''%'') (ntop6 w)\<rparr>
      | OtherFamily \<Rightarrow> i)"

text \<open>An interface that is new goes to the end of the list; the address goes to the entry it was found at or put.\<close>

definition gather :: "(128 word \<Rightarrow> string) \<Rightarrow> nat \<Rightarrow> ifaddr \<Rightarrow> np_interface list \<Rightarrow> np_interface list" where
  "gather ntop6 cap e arr =
     (case (ia_name e, ia_addr e) of
        (Some name, Some a) \<Rightarrow>
          if find_name arr name then update_first (\<lambda>i. np_name i = name) (set_addr ntop6 a (ia_netmask e)) arr
          else if cap \<le> length arr then arr
          else arr @ [set_addr ntop6 a (ia_netmask e) (new_iface name (ia_up e))]
      | _ \<Rightarrow> arr)"

definition gather_all :: "(128 word \<Rightarrow> string) \<Rightarrow> nat \<Rightarrow> ifaddr list \<Rightarrow> np_interface list" where
  "gather_all ntop6 cap es = fold (gather ntop6 cap) es []"

definition np_sys :: "string \<Rightarrow> string \<Rightarrow> string" where
  "np_sys name item = cstr 256 (''/sys/class/net/'' @ name @ ''/'' @ item)"

definition fill_iface :: "files \<Rightarrow> np_interface \<Rightarrow> np_interface" where
  "fill_iface fs i =
     (let mtu = read_txt fs (np_sys (np_name i) ''mtu'') 256;
          st = read_txt fs (np_sys (np_name i) ''operstate'') 256 in
      proc_dev_stats fs (np_name i)
        (i\<lparr>np_mac := read_txt fs (np_sys (np_name i) ''address'') 32,
           np_mtu := (if mtu \<noteq> [] then of_nat (fst (strtoull mtu)) else np_mtu i),
           np_up := (prefix ''up'' st \<or> np_up i)\<rparr>))"

definition set_gateway :: "string \<Rightarrow> np_interface list \<Rightarrow> np_interface list" where
  "set_gateway gw arr =
     (if gw = [] then arr else update_first (\<lambda>i. np_ipv4 i \<noteq> []) (\<lambda>i. i\<lparr>np_gateway := cstr 64 gw\<rparr>) arr)"

text \<open>\<open>args\<close> says that both pointers are there; the addresses are a list or an \<^verbatim>\<open>errno\<close>.\<close>

definition np_get_interfaces_impl ::
  "(128 word \<Rightarrow> string) \<Rightarrow> files \<Rightarrow> int + ifaddr list \<Rightarrow> bool \<Rightarrow> int \<Rightarrow> rc \<times> np_interface list" where
  "np_get_interfaces_impl ntop6 fs addrs args cap =
     (if \<not> args \<or> cap \<le> 0 then (EINVAL, [])
      else (case addrs of
              Inl errno \<Rightarrow> (- errno, [])
            | Inr es \<Rightarrow> (0, set_gateway (proc_default_gateway fs) (map (fill_iface fs) (gather_all ntop6 (nat cap) es)))))"

section \<open>Names\<close>

text \<open>\<open>getaddrinfo\<close> answers a host and a port in text with addresses of some length.  The port may be missing.\<close>

definition np_resolve_impl ::
  "(string \<Rightarrow> string option \<Rightarrow> (nat \<times> 'a) list option) \<Rightarrow> string option \<Rightarrow> 32 word \<Rightarrow> bool \<Rightarrow> int \<Rightarrow> rc \<times> 'a list option" where
  "np_resolve_impl getaddrinfo host port out mx =
     (case host of
        None \<Rightarrow> (EINVAL, None)
      | Some h \<Rightarrow>
          if \<not> out \<or> mx \<le> 0 then (EINVAL, None)
          else (case getaddrinfo h (Some (show_nat (unat port))) of
                  None \<Rightarrow> (EINVAL, None)
                | Some as \<Rightarrow> (0, Some (take (nat mx) (map snd (filter (\<lambda>(len, _). len \<le> 128) as))))))"

definition np_host_to_ip_impl ::
  "(string \<Rightarrow> string option \<Rightarrow> (nat \<times> inet) list option) \<Rightarrow> string option \<Rightarrow> bool \<Rightarrow> nat \<Rightarrow> rc \<times> string" where
  "np_host_to_ip_impl getaddrinfo host ip cap =
     (case host of
        None \<Rightarrow> (EINVAL, [])
      | Some h \<Rightarrow>
          if \<not> ip \<or> cap = 0 then (EINVAL, [])
          else (case getaddrinfo h None of
                  None \<Rightarrow> (EINVAL, [])
                | Some as \<Rightarrow>
                    (case filter (\<lambda>t. length t < cap) (List.map_filter (\<lambda>(_, a). case a of Inet w \<Rightarrow> Some (inet_ntop4 w) | _ \<Rightarrow> None) as) of
                       [] \<Rightarrow> (ENOENT, []) | t # _ \<Rightarrow> (0, t))))"

definition np_gethostname_impl :: "int + string \<Rightarrow> bool \<Rightarrow> nat \<Rightarrow> rc \<times> string" where
  "np_gethostname_impl answer out cap =
     (if \<not> out \<or> cap = 0 then (EINVAL, [])
      else (case answer of Inl errno \<Rightarrow> (- errno, []) | Inr name \<Rightarrow> (0, cstr cap name)))"

section \<open>Statistics and life cycle\<close>

record np_all_stats = np_stats +
  st_iface_count :: nat
  st_rx_bytes :: "64 word"
  st_tx_bytes :: "64 word"
  st_rx_packets :: "64 word"
  st_tx_packets :: "64 word"

definition add_iface :: "np_interface \<Rightarrow> np_all_stats \<Rightarrow> np_all_stats" where
  "add_iface i st =
     st\<lparr>st_rx_bytes := st_rx_bytes st + np_rx_bytes i, st_tx_bytes := st_tx_bytes st + np_tx_bytes i,
        st_rx_packets := st_rx_packets st + np_rx_packets i, st_tx_packets := st_tx_packets st + np_tx_packets i\<rparr>"

definition np_get_stats :: "(128 word \<Rightarrow> string) \<Rightarrow> files \<Rightarrow> int + ifaddr list \<Rightarrow> conns \<Rightarrow> np_all_stats" where
  "np_get_stats ntop6 fs addrs t =
     (let none = np_stats.extend (np_stats_impl t)
                   \<lparr>st_iface_count = 0, st_rx_bytes = 0, st_tx_bytes = 0, st_rx_packets = 0, st_tx_packets = 0\<rparr> in
      case np_get_interfaces_impl ntop6 fs addrs True 128 of
        (rc, ifs) \<Rightarrow> if rc = 0 then fold add_iface ifs (none\<lparr>st_iface_count := length ifs\<rparr>) else none)"

text \<open>The private data of the plugin hold whether it was started.\<close>

record np_plugin =
  np_pdata :: "bool option"
  np_state_started :: bool

definition np_init :: "np_plugin \<Rightarrow> bool \<Rightarrow> conns \<Rightarrow> rc \<times> np_plugin \<times> conns" where
  "np_init p mem t = (if \<not> mem then (ENOMEM, p, t) else (HWRUN_OK, p\<lparr>np_pdata := Some False\<rparr>, np_conn_clear t))"

definition np_start :: "np_plugin \<Rightarrow> rc \<times> np_plugin" where
  "np_start p =
     (case np_pdata p of
        None \<Rightarrow> (ENOTREADY, p)
      | Some True \<Rightarrow> (HWRUN_OK, p)
      | Some False \<Rightarrow> (HWRUN_OK, p\<lparr>np_pdata := Some True, np_state_started := True\<rparr>))"

definition np_stop :: "np_plugin \<Rightarrow> rc \<times> np_plugin" where
  "np_stop p = (HWRUN_OK, if np_pdata p = None then p else p\<lparr>np_pdata := Some False\<rparr>)"

definition np_destroy :: "np_plugin \<Rightarrow> conns \<Rightarrow> rc \<times> np_plugin \<times> conns" where
  "np_destroy p t = (HWRUN_OK, p\<lparr>np_pdata := None\<rparr>, np_conn_clear t)"

end
