(* ===== verification/Git.thy ===== *)
theory Git
  imports Prelude
begin

text \<open>
  The GIT plugin, \<^verbatim>\<open>git/src\<close>: commands given to the system's \<^verbatim>\<open>git\<close> through a shell, an audit log of them, and
  the readers of what \<^verbatim>\<open>git\<close> and the log say.

  The shell, the files and the clock are a record of functions over a state of their own.  What a command
  prints is what was read of it.  The messages for the system log are left out.
\<close>

section \<open>The system\<close>

record 'w git_os =
  os_exists :: "string \<Rightarrow> 'w \<Rightarrow> bool"
  os_system :: "string \<Rightarrow> 'w \<Rightarrow> 'w"
  os_popen :: "string \<Rightarrow> 'w \<Rightarrow> (string \<times> int) option \<times> 'w"
  os_append :: "string \<Rightarrow> string \<Rightarrow> 'w \<Rightarrow> 'w"
  os_read :: "string \<Rightarrow> 'w \<Rightarrow> string option"
  os_time :: "'w \<Rightarrow> int"

record git_config =
  gc_repo_path :: string
  gc_audit_path :: string
  gc_remote_url :: string
  gc_branch :: string
  gc_auto_commit :: bool
  gc_auto_push :: bool
  gc_max_size :: "64 word"
  gc_auto_compact :: bool

record git_context =
  cx_config :: git_config
  cx_repo_path :: string
  cx_audit_path :: string
  cx_initialized :: bool

text \<open>The error text of a result, which nothing reads, is left out.\<close>

record git_result =
  gr_success :: bool
  gr_exit_code :: int
  gr_stdout :: "string option"

abbreviation QUOTE :: char where "QUOTE \<equiv> CHR 0x22"
abbreviation BACKSLASH :: char where "BACKSLASH \<equiv> CHR 0x5C"

definition quoted :: "string \<Rightarrow> string" where
  "quoted s = QUOTE # s @ [QUOTE]"

section \<open>Audit log\<close>

definition audit_line :: "int \<Rightarrow> string \<Rightarrow> string \<Rightarrow> string \<Rightarrow> string \<Rightarrow> bool \<Rightarrow> string" where
  "audit_line now user op target msg success =
     cstr 1024 (''{'' @ quoted ''ts'' @ '':'' @ show_int now @ '','' @ quoted ''user'' @ '':'' @ quoted user @ '','' @
       quoted ''op'' @ '':'' @ quoted op @ '','' @ quoted ''target'' @ '':'' @ quoted target @ '','' @
       quoted ''msg'' @ '':'' @ quoted msg @ '','' @ quoted ''result'' @ '':'' @
       quoted (if success then ''success'' else ''failed'') @ ''}'' @ [NL])"

definition mkdir_cmd :: "string \<Rightarrow> string" where
  "mkdir_cmd path = cstr 512 (''mkdir -p '' @ quoted path)"

definition ensure_dir :: "'w git_os \<Rightarrow> string \<Rightarrow> 'w \<Rightarrow> 'w" where
  "ensure_dir os path w = (if os_exists os path w then w else os_system os (mkdir_cmd path) w)"

definition audit_file :: "git_context \<Rightarrow> string" where
  "audit_file cx = cstr 512 (cx_audit_path cx @ ''/audit.log'')"

definition or_else :: "string \<Rightarrow> string option \<Rightarrow> string" where
  "or_else d s = (case s of None \<Rightarrow> d | Some x \<Rightarrow> x)"

definition git_audit_write ::
  "'w git_os \<Rightarrow> git_context \<Rightarrow> string option \<Rightarrow> string option \<Rightarrow> string option \<Rightarrow> string option \<Rightarrow> bool \<Rightarrow> 'w \<Rightarrow> 'w" where
  "git_audit_write os cx user op target msg success w =
     (let w1 = ensure_dir os (cx_audit_path cx) w in
      os_append os (audit_file cx)
        (audit_line (os_time os w1) (or_else ''system'' user) (or_else ''unknown'' op) (or_else [] target) (or_else [] msg) success) w1)"

section \<open>Running a command\<close>

definition full_command :: "string \<Rightarrow> string \<Rightarrow> string" where
  "full_command work cmd = cstr 4096 (''cd '' @ quoted work @ '' 2>/dev/null && git '' @ cmd @ '' 2>&1'')"

text \<open>\<open>m1\<close> and \<open>m2\<close>: the memory of the result and of the output.\<close>

definition git_exec ::
  "'w git_os \<Rightarrow> git_context \<Rightarrow> bool \<Rightarrow> bool \<Rightarrow> string option \<Rightarrow> string option \<Rightarrow> 'w \<Rightarrow> git_result option \<times> 'w" where
  "git_exec os cx m1 m2 cwd cmd w =
     (case cmd of
        None \<Rightarrow> (None, w)
      | Some cmd \<Rightarrow>
          if \<not> m1 then (None, w)
          else (case os_popen os (full_command (or_else (cx_repo_path cx) cwd) cmd) w of
                  (None, w1) \<Rightarrow> (Some \<lparr>gr_success = False, gr_exit_code = 0, gr_stdout = None\<rparr>, w1)
                | (Some (out, code), w1) \<Rightarrow>
                    (Some \<lparr>gr_success = (code = 0), gr_exit_code = code, gr_stdout = (if m2 then Some out else None)\<rparr>, w1)))"

definition git_exec_audit ::
  "'w git_os \<Rightarrow> git_context \<Rightarrow> bool \<Rightarrow> bool \<Rightarrow> string option \<Rightarrow> string \<Rightarrow> string \<Rightarrow> string \<Rightarrow> string option \<Rightarrow> 'w \<Rightarrow>
     git_result option \<times> 'w" where
  "git_exec_audit os cx m1 m2 cwd cmd user op target w =
     (let w1 = git_audit_write os cx (Some user) (Some op) target (Some cmd) False w in
      case git_exec os cx m1 m2 cwd (Some cmd) w1 of
        (r, w2) \<Rightarrow>
          (r, git_audit_write os cx (Some user) (Some op) target (Some cmd) (case r of None \<Rightarrow> False | Some r \<Rightarrow> gr_success r) w2))"

text \<open>The end all operations share: -1 unless the command succeeded.\<close>

definition git_op ::
  "'w git_os \<Rightarrow> git_context \<Rightarrow> bool \<Rightarrow> string option \<Rightarrow> string \<Rightarrow> string \<Rightarrow> string option \<Rightarrow> 'w \<Rightarrow> rc \<times> 'w" where
  "git_op os cx m cwd cmd op target w =
     (case git_exec_audit os cx m True cwd cmd ''system'' op target w of
        (None, w1) \<Rightarrow> (- 1, w1)
      | (Some r, w1) \<Rightarrow> (if gr_success r then 0 else - 1, w1))"

section \<open>Storage\<close>

text \<open>A \<open>char *\<close> that is neither NULL nor empty.\<close>

definition given :: "string option \<Rightarrow> bool" where
  "given s \<longleftrightarrow> s \<noteq> None \<and> s \<noteq> Some []"

definition git_ops_init :: "'w git_os \<Rightarrow> git_context \<Rightarrow> bool \<Rightarrow> string option \<Rightarrow> 'w \<Rightarrow> rc \<times> 'w" where
  "git_ops_init os cx m path w =
     (let dir = (if given path then the path else cx_repo_path cx);
          cwd = (if given path then cstr 512 dir else dir) in
      git_op os cx m (Some cwd) ''init'' ''init'' (Some (or_else (cx_repo_path cx) path)) (ensure_dir os dir w))"

definition git_ops_clone :: "'w git_os \<Rightarrow> git_context \<Rightarrow> bool \<Rightarrow> string option \<Rightarrow> string option \<Rightarrow> 'w \<Rightarrow> rc \<times> 'w" where
  "git_ops_clone os cx m remote local_path w =
     (case (remote, local_path) of
        (Some r, Some l) \<Rightarrow> git_op os cx m None (cstr 1024 (''clone '' @ r @ '' '' @ quoted l)) ''clone'' (Some r) w
      | _ \<Rightarrow> (EINVAL, w))"

definition git_ops_add :: "'w git_os \<Rightarrow> git_context \<Rightarrow> bool \<Rightarrow> string option \<Rightarrow> 'w \<Rightarrow> rc \<times> 'w" where
  "git_ops_add os cx m path w =
     (case path of
        None \<Rightarrow> (EINVAL, w)
      | Some p \<Rightarrow> git_op os cx m None (cstr 1024 (''add -- '' @ p)) ''add'' (Some p) w)"

text \<open>Quotes and backslashes of a message, in a buffer of 512; \<open>j\<close> is how far it is filled.\<close>

fun escape_msg :: "nat \<Rightarrow> string \<Rightarrow> string" where
  "escape_msg j [] = []"
| "escape_msg j (c # cs) =
     (if j < 510
      then (if c = QUOTE \<or> c = BACKSLASH then BACKSLASH # c # escape_msg (j + 2) cs else c # escape_msg (j + 1) cs)
      else [])"

definition commit_cmd :: "string \<Rightarrow> string" where
  "commit_cmd message = cstr 1200 (''commit -m '' @ quoted (escape_msg 0 message))"

text \<open>The number of the commit is cut at the first newline and at the capacity of the buffer of the caller.\<close>

definition git_ops_commit ::
  "'w git_os \<Rightarrow> git_context \<Rightarrow> bool \<Rightarrow> bool \<Rightarrow> bool \<Rightarrow> string option \<Rightarrow> nat option \<Rightarrow> 'w \<Rightarrow> rc \<times> string option \<times> 'w" where
  "git_ops_commit os cx m m1 m2 message cap w =
     (case message of
        None \<Rightarrow> (EINVAL, None, w)
      | Some msg \<Rightarrow>
          (case git_op os cx m None (commit_cmd msg) ''commit'' (Some msg) w of
             (rc, w1) \<Rightarrow>
               if rc = 0 \<and> cap \<noteq> None \<and> cap \<noteq> Some 0
               then (case git_exec os cx m1 m2 None (Some ''rev-parse HEAD'') w1 of
                       (Some r, w2) \<Rightarrow>
                         (rc, (if gr_success r then map_option (\<lambda>out. cstr (the cap) (fst (split_first NL out))) (gr_stdout r) else None), w2)
                     | (None, w2) \<Rightarrow> (rc, None, w2))
               else (rc, None, w1)))"

definition remote_cmd :: "string \<Rightarrow> string option \<Rightarrow> string option \<Rightarrow> string" where
  "remote_cmd verb remote branch =
     (if given remote
      then let c = cstr 512 (verb @ '' '' @ the remote) in if given branch then cstr 512 (c @ '' '' @ the branch) else c
      else verb)"

definition git_ops_push :: "'w git_os \<Rightarrow> git_context \<Rightarrow> bool \<Rightarrow> string option \<Rightarrow> string option \<Rightarrow> 'w \<Rightarrow> rc \<times> 'w" where
  "git_ops_push os cx m remote branch w =
     git_op os cx m None (remote_cmd ''push'' remote branch) ''push'' (Some (or_else (gc_remote_url (cx_config cx)) remote)) w"

definition git_ops_pull :: "'w git_os \<Rightarrow> git_context \<Rightarrow> bool \<Rightarrow> string option \<Rightarrow> string option \<Rightarrow> 'w \<Rightarrow> rc \<times> 'w" where
  "git_ops_pull os cx m remote branch w =
     git_op os cx m None (remote_cmd ''pull'' remote branch) ''pull'' (Some (or_else (gc_remote_url (cx_config cx)) remote)) w"

section \<open>Versions and branches\<close>

text \<open>The operations whose argument is the target: NULL is refused.\<close>

definition on_target :: "string option \<Rightarrow> (string \<Rightarrow> rc \<times> 'w) \<Rightarrow> 'w \<Rightarrow> rc \<times> 'w" where
  "on_target t f w = (case t of None \<Rightarrow> (EINVAL, w) | Some t \<Rightarrow> f t)"

definition two_words :: "string \<Rightarrow> string \<Rightarrow> string option \<Rightarrow> string" where
  "two_words verb a b = cstr 512 (if given b then verb @ a @ '' '' @ the b else verb @ a)"

definition git_ops_tag :: "'w git_os \<Rightarrow> git_context \<Rightarrow> bool \<Rightarrow> string option \<Rightarrow> string option \<Rightarrow> 'w \<Rightarrow> rc \<times> 'w" where
  "git_ops_tag os cx m name commit w =
     on_target name (\<lambda>n. git_op os cx m None (two_words ''tag '' n commit) ''tag'' (Some n) w) w"

definition git_ops_checkout :: "'w git_os \<Rightarrow> git_context \<Rightarrow> bool \<Rightarrow> string option \<Rightarrow> 'w \<Rightarrow> rc \<times> 'w" where
  "git_ops_checkout os cx m ref w =
     on_target ref (\<lambda>r. git_op os cx m None (cstr 512 (''checkout '' @ r)) ''checkout'' (Some r) w) w"

definition git_ops_reset :: "'w git_os \<Rightarrow> git_context \<Rightarrow> bool \<Rightarrow> string option \<Rightarrow> bool \<Rightarrow> 'w \<Rightarrow> rc \<times> 'w" where
  "git_ops_reset os cx m ref hard w =
     on_target ref (\<lambda>r. git_op os cx m None (cstr 512 (''reset '' @ (if hard then ''--hard'' else ''--soft'') @ '' '' @ r)) ''reset'' (Some r) w) w"

definition git_ops_revert :: "'w git_os \<Rightarrow> git_context \<Rightarrow> bool \<Rightarrow> string option \<Rightarrow> 'w \<Rightarrow> rc \<times> 'w" where
  "git_ops_revert os cx m commit w =
     on_target commit (\<lambda>c. git_op os cx m None (cstr 512 (''revert '' @ c @ '' --no-edit'')) ''revert'' (Some c) w) w"

definition git_ops_branch :: "'w git_os \<Rightarrow> git_context \<Rightarrow> bool \<Rightarrow> string option \<Rightarrow> string option \<Rightarrow> 'w \<Rightarrow> rc \<times> 'w" where
  "git_ops_branch os cx m name base w =
     on_target name (\<lambda>n. git_op os cx m None (two_words ''branch '' n base) ''branch'' (Some n) w) w"

definition git_ops_merge :: "'w git_os \<Rightarrow> git_context \<Rightarrow> bool \<Rightarrow> string option \<Rightarrow> string option \<Rightarrow> 'w \<Rightarrow> rc \<times> 'w" where
  "git_ops_merge os cx m branch message w =
     on_target branch (\<lambda>b. git_op os cx m None
       (cstr 512 (if given message then ''merge '' @ b @ '' -m '' @ quoted (the message) else ''merge '' @ b @ '' --no-edit''))
       ''merge'' (Some b) w) w"

end
