(* ===== verification/GitQuery.thy ===== *)
theory GitQuery
  imports Git
begin

text \<open>
  The readers of the GIT plugin: the history and the annotated file (\<^verbatim>\<open>git/src/history.c\<close>), the audit log
  (\<^verbatim>\<open>audit.c\<close>), the configuration (\<^verbatim>\<open>executor.c\<close>), and the operations that follow from them
  (\<^verbatim>\<open>compact.c\<close>, \<^verbatim>\<open>git.c\<close>).
\<close>

section \<open>History\<close>

text \<open>The loop over the output: lines end at a newline, the last one at the end of the text.\<close>

function out_lines :: "string \<Rightarrow> string list" where
  "out_lines s =
     (if s = [] then []
      else (case split_first NL s of
              (l, r) \<Rightarrow> l # (case r of None \<Rightarrow> [] | Some t \<Rightarrow> out_lines t)))"
  by pat_completeness auto
termination
  by (relation "measure length") (auto dest!: split_first_length [OF sym])

declare out_lines.simps [simp del]

record git_commit =
  gm_hash :: string
  gm_author :: string
  gm_date :: string
  gm_message :: string

definition parse_commit :: "string \<Rightarrow> git_commit" where
  "parse_commit line =
     (let c0 = \<lparr>gm_hash = [], gm_author = [], gm_date = [], gm_message = []\<rparr>; bar = CHR ''|'' in
      case split_first bar line of
        (_, None) \<Rightarrow> c0
      | (h, Some l1) \<Rightarrow>
          let c1 = c0\<lparr>gm_hash := cstr 64 h\<rparr> in
          (case split_first bar l1 of
             (_, None) \<Rightarrow> c1
           | (a, Some l2) \<Rightarrow>
               let c2 = c1\<lparr>gm_author := cstr 128 a\<rparr> in
               (case split_first bar l2 of
                  (d, None) \<Rightarrow> c2\<lparr>gm_date := cstr 32 d\<rparr>
                | (d, Some msg) \<Rightarrow> c2\<lparr>gm_date := cstr 32 d, gm_message := cstr 256 msg\<rparr>)))"

definition log_cmd :: "int \<Rightarrow> string option \<Rightarrow> string" where
  "log_cmd limit since =
     (let c0 = ''log --pretty=format:'' @ [CHR 0x27] @ ''%h|%an|%ai|%s'' @ [CHR 0x27];
          c1 = (if 0 < limit then cstr 640 (c0 @ '' -n '' @ show_int limit) else c0) in
      if given since then cstr 640 (c1 @ '' --since='' @ the since) else c1)"

text \<open>What a command printed, where it succeeded.\<close>

definition output_of :: "'w git_os \<Rightarrow> git_context \<Rightarrow> bool \<Rightarrow> bool \<Rightarrow> string \<Rightarrow> 'w \<Rightarrow> string option \<times> 'w" where
  "output_of os cx m1 m2 cmd w =
     (case git_exec os cx m1 m2 None (Some cmd) w of
        (None, w1) \<Rightarrow> (None, w1)
      | (Some r, w1) \<Rightarrow> (if gr_success r then gr_stdout r else None, w1))"

text \<open>The nodes for which there is memory.\<close>

fun with_memory :: "allocs \<Rightarrow> 'a list \<Rightarrow> 'a list" where
  "with_memory mem [] = []"
| "with_memory mem (x # xs) = (case alloc mem of (ok, mem1) \<Rightarrow> if ok then x # with_memory mem1 xs else with_memory mem1 xs)"

definition git_ops_log ::
  "'w git_os \<Rightarrow> git_context \<Rightarrow> bool \<Rightarrow> bool \<Rightarrow> allocs \<Rightarrow> int \<Rightarrow> string option \<Rightarrow> 'w \<Rightarrow> git_commit list \<times> 'w" where
  "git_ops_log os cx m1 m2 mem limit since w =
     (case output_of os cx m1 m2 (log_cmd limit since) w of
        (out, w1) \<Rightarrow> ((case out of None \<Rightarrow> [] | Some s \<Rightarrow> with_memory mem (map parse_commit (out_lines s))), w1))"

definition git_ops_diff ::
  "'w git_os \<Rightarrow> git_context \<Rightarrow> bool \<Rightarrow> bool \<Rightarrow> string option \<Rightarrow> string option \<Rightarrow> 'w \<Rightarrow> string option \<times> 'w" where
  "git_ops_diff os cx m1 m2 c1 c2 w =
     output_of os cx m1 m2
       (cstr 640 (if given c1 \<and> given c2 then ''diff '' @ the c1 @ '' '' @ the c2 else if given c1 then ''diff '' @ the c1 else ''diff'')) w"

definition git_ops_status :: "'w git_os \<Rightarrow> git_context \<Rightarrow> bool \<Rightarrow> bool \<Rightarrow> 'w \<Rightarrow> string option \<times> 'w" where
  "git_ops_status os cx m1 m2 w = output_of os cx m1 m2 ''status --short'' w"

section \<open>Annotated files\<close>

record git_blame =
  gb_line_no :: "32 word"
  gb_commit_id :: string
  gb_author :: string
  gb_date :: string
  gb_content :: string

text \<open>The four variables of the loop.\<close>

record blame_cur =
  bc_line_no :: "32 word"
  bc_hash :: string
  bc_author :: string
  bc_date :: string

definition starts_hash :: "string \<Rightarrow> bool" where
  "starts_hash line \<longleftrightarrow> line \<noteq> [] \<and> hd line \<in> set ''0123456789abcdef''"

text \<open>\<open>ctime\<close> is the text of a time with its newline, where it has one.\<close>

definition blame_line :: "(int \<Rightarrow> string option) \<Rightarrow> string \<Rightarrow> blame_cur \<Rightarrow> git_blame option \<times> blame_cur" where
  "blame_line ctime line c =
     (if starts_hash line
      then (case split_first (CHR '' '') line of
              (_, None) \<Rightarrow> (None, c)
            | (h, Some _) \<Rightarrow> (None, c\<lparr>bc_hash := take 63 h, bc_line_no := bc_line_no c + 1\<rparr>))
      else if prefix ''author '' line then (None, c\<lparr>bc_author := cstr 128 (drop 7 line)\<rparr>)
      else if prefix ''author-time '' line
      then (case ctime (fst (strtol (drop 12 line))) of
              None \<Rightarrow> (None, c)
            | Some d \<Rightarrow> (None, c\<lparr>bc_date := cstr 32 (if d \<noteq> [] \<and> last d = NL then butlast d else d)\<rparr>))
      else if prefix [TAB] line
      then (Some \<lparr>gb_line_no = bc_line_no c, gb_commit_id = cstr 64 (bc_hash c), gb_author = cstr 128 (bc_author c),
                 gb_date = cstr 32 (bc_date c), gb_content = cstr 512 (tl line)\<rparr>,
            c\<lparr>bc_hash := [], bc_author := [], bc_date := []\<rparr>)
      else (None, c))"

fun blame_loop :: "(int \<Rightarrow> string option) \<Rightarrow> allocs \<Rightarrow> string list \<Rightarrow> blame_cur \<Rightarrow> git_blame list" where
  "blame_loop ctime mem [] c = []"
| "blame_loop ctime mem (line # ls) c =
     (case blame_line ctime line c of
        (None, c1) \<Rightarrow> blame_loop ctime mem ls c1
      | (Some b, c1) \<Rightarrow>
          (case alloc mem of
             (ok, mem1) \<Rightarrow> if ok then b # blame_loop ctime mem1 ls c1 else blame_loop ctime mem1 ls c1))"

definition parse_blame :: "(int \<Rightarrow> string option) \<Rightarrow> allocs \<Rightarrow> string \<Rightarrow> git_blame list" where
  "parse_blame ctime mem out =
     blame_loop ctime mem (out_lines out) \<lparr>bc_line_no = 0, bc_hash = [], bc_author = [], bc_date = []\<rparr>"

definition git_ops_blame ::
  "'w git_os \<Rightarrow> git_context \<Rightarrow> bool \<Rightarrow> bool \<Rightarrow> (int \<Rightarrow> string option) \<Rightarrow> allocs \<Rightarrow> string option \<Rightarrow> 'w \<Rightarrow> git_blame list \<times> 'w" where
  "git_ops_blame os cx m1 m2 ctime mem path w =
     (case path of
        None \<Rightarrow> ([], w)
      | Some f \<Rightarrow>
          (case output_of os cx m1 m2 (cstr 512 (''blame --line-porcelain -c -- '' @ f)) w of
             (out, w1) \<Rightarrow> ((case out of None \<Rightarrow> [] | Some s \<Rightarrow> parse_blame ctime mem s), w1)))"

section \<open>Reading the audit log\<close>

text \<open>
  The value behind a key: the key is looked for where \<open>prev\<close>, the character before it, is missing or opens a
  list of fields, and the value ends at the next quote.
\<close>

definition field_here :: "char option \<Rightarrow> string \<Rightarrow> bool" where
  "field_here prev after \<longleftrightarrow>
     (case prev of None \<Rightarrow> True | Some c \<Rightarrow> c = CHR ''{'' \<or> c = CHR '','' \<or> c = CHR ''['') \<and> prefix [QUOTE, CHR '':''] after"

function find_field :: "string \<Rightarrow> char option \<Rightarrow> string \<Rightarrow> string option" where
  "find_field key prev s =
     (if s = [] \<or> key = [] then None
      else if prefix key s
      then (if field_here prev (drop (length key) s)
            then Some (takeWhile (\<lambda>c. c \<noteq> QUOTE) (drop (length key + 2) s))
            else find_field key (Some (last key)) (drop (length key) s))
      else find_field key (Some (hd s)) (tl s))"
  by pat_completeness auto
termination
proof (relation "measure (\<lambda>(key, prev, s). length s)", goal_cases)
  case (2 key prev s)
  then show ?case by (cases key; cases s) auto
qed auto

declare find_field.simps [simp del]

definition extract_field :: "string \<Rightarrow> string \<Rightarrow> nat \<Rightarrow> string" where
  "extract_field line key cap = (case find_field key None line of None \<Rightarrow> [] | Some v \<Rightarrow> take (cap - 1) v)"

record git_audit_entry =
  ga_timestamp :: nat
  ga_user :: string
  ga_operation :: string
  ga_target :: string
  ga_message :: string
  ga_result :: string

definition parse_entry :: "string \<Rightarrow> git_audit_entry" where
  "parse_entry line =
     \<lparr>ga_timestamp = fst (strtoull (extract_field line ''ts'' 256)), ga_user = extract_field line ''user'' 64,
      ga_operation = extract_field line ''op'' 32, ga_target = extract_field line ''target'' 256,
      ga_message = extract_field line ''msg'' 256, ga_result = extract_field line ''result'' 16\<rparr>"

text \<open>The lines are counted in a \<open>char\<close>, where the byte 255 looks like the end of the file.\<close>

definition count_lines :: "string \<Rightarrow> nat" where
  "count_lines s =
     (let t = takeWhile (\<lambda>c. c \<noteq> CHR 0xFF) s in
      length (filter (\<lambda>c. c = NL) t) + (if t \<noteq> [] \<and> last t \<noteq> NL then 1 else 0))"

fun skip_lines :: "nat \<Rightarrow> string \<Rightarrow> string" where
  "skip_lines n [] = []"
| "skip_lines n (c # s) =
     (if c = NL then (case n of 0 \<Rightarrow> s | Suc 0 \<Rightarrow> s | Suc k \<Rightarrow> skip_lines k s) else skip_lines n s)"

definition wanted :: "string option \<Rightarrow> nat \<Rightarrow> git_audit_entry \<Rightarrow> bool" where
  "wanted user since e \<longleftrightarrow> \<not> (given user \<and> ga_user e \<noteq> the user) \<and> \<not> (since \<noteq> 0 \<and> ga_timestamp e < since)"

text \<open>\<^verbatim>\<open>calloc\<close> failing ends the loop.\<close>

fun read_entries :: "allocs \<Rightarrow> string option \<Rightarrow> nat \<Rightarrow> string list \<Rightarrow> git_audit_entry list" where
  "read_entries mem user since [] = []"
| "read_entries mem user since (l # ls) =
     (case alloc mem of
        (ok, mem1) \<Rightarrow>
          if \<not> ok then []
          else
            let e = parse_entry (fst (split_first NL l)) in
            if wanted user since e then e # read_entries mem1 user since ls else read_entries mem1 user since ls)"

definition git_ops_audit ::
  "'w git_os \<Rightarrow> git_context \<Rightarrow> allocs \<Rightarrow> int \<Rightarrow> string option \<Rightarrow> nat \<Rightarrow> 'w \<Rightarrow> git_audit_entry list" where
  "git_ops_audit os cx mem limit user since w =
     (case os_read os (audit_file cx) w of
        None \<Rightarrow> []
      | Some s \<Rightarrow>
          let n = int (count_lines s) in
          read_entries mem user since
            (fgets_all 1024 (if 0 < limit \<and> limit < n then skip_lines (nat (n - limit)) s else s)))"

section \<open>Configuration\<close>

definition is_trim :: "char \<Rightarrow> bool" where
  "is_trim c \<longleftrightarrow> c = CHR '' '' \<or> c = TAB \<or> c = CR \<or> c = NL"

definition git_strtrim :: "string \<Rightarrow> string" where
  "git_strtrim s = trim_by is_trim s"

definition default_config :: git_config where
  "default_config =
     \<lparr>gc_repo_path = ''/var/lib/hwrun/git'', gc_audit_path = ''/var/lib/hwrun/git-audit'', gc_remote_url = [], gc_branch = ''main'',
      gc_auto_commit = True, gc_auto_push = False, gc_max_size = 1024 * 1024 * 1024, gc_auto_compact = True\<rparr>"

definition git_flag :: "string \<Rightarrow> bool" where
  "git_flag val \<longleftrightarrow> val = ''1'' \<or> val = ''true''"

definition git_size :: "string \<Rightarrow> 64 word" where
  "git_size val =
     (case strtoull val of
        (v, rest) \<Rightarrow>
          if rest \<noteq> [] \<and> (hd rest = CHR ''G'' \<or> hd rest = CHR ''g'') then of_nat v * (1024 * 1024 * 1024)
          else if rest \<noteq> [] \<and> (hd rest = CHR ''M'' \<or> hd rest = CHR ''m'') then of_nat v * (1024 * 1024) else of_nat v)"

text \<open>The key is trimmed in place, so blanks before it stay.\<close>

definition config_line :: "string \<Rightarrow> git_config \<Rightarrow> git_config" where
  "config_line line cfg =
     (case split_first (CHR ''='') line of
        (_, None) \<Rightarrow> cfg
      | (k, Some v) \<Rightarrow>
          let val = git_strtrim v;
              key = takeWhile is_trim k @ git_strtrim k in
          if key = ''repo_path'' then cfg\<lparr>gc_repo_path := cstr 256 val\<rparr>
          else if key = ''audit_path'' then cfg\<lparr>gc_audit_path := cstr 256 val\<rparr>
          else if key = ''remote'' then cfg\<lparr>gc_remote_url := cstr 256 val\<rparr>
          else if key = ''branch'' then cfg\<lparr>gc_branch := cstr 64 val\<rparr>
          else if key = ''auto_commit'' then cfg\<lparr>gc_auto_commit := git_flag val\<rparr>
          else if key = ''auto_push'' then cfg\<lparr>gc_auto_push := git_flag val\<rparr>
          else if key = ''auto_compact'' then cfg\<lparr>gc_auto_compact := git_flag val\<rparr>
          else if key = ''max_size'' then cfg\<lparr>gc_max_size := git_size val\<rparr>
          else cfg)"

text \<open>\<open>state\<close> is the environment variable \<^verbatim>\<open>HWRUN_STATE\<close>.\<close>

definition git_config_load :: "'w git_os \<Rightarrow> string option \<Rightarrow> 'w \<Rightarrow> git_context \<Rightarrow> git_context" where
  "git_config_load os state w cx =
     (let text = (case state of None \<Rightarrow> None | Some s \<Rightarrow> os_read os (cstr 512 (s @ ''/git.conf'')) w);
          cfg = (case text of None \<Rightarrow> default_config | Some t \<Rightarrow> fold config_line (fgets_all 4096 t) default_config) in
      cx\<lparr>cx_config := cfg, cx_repo_path := cstr 256 (gc_repo_path cfg), cx_audit_path := cstr 256 (gc_audit_path cfg)\<rparr>)"

section \<open>Size and compaction\<close>

definition pack_size :: "string \<Rightarrow> 64 word" where
  "pack_size out =
     foldl (\<lambda>size line. if prefix ''size-pack:'' line then of_nat (fst (strtoull (drop 10 line))) * 1024 else size) 0 (out_lines out)"

definition git_ops_size :: "'w git_os \<Rightarrow> git_context \<Rightarrow> bool \<Rightarrow> bool \<Rightarrow> 'w \<Rightarrow> 64 word \<times> 'w" where
  "git_ops_size os cx m1 m2 w =
     (case output_of os cx m1 m2 ''count-objects -v'' w of (out, w1) \<Rightarrow> ((case out of None \<Rightarrow> 0 | Some s \<Rightarrow> pack_size s), w1))"

definition filter_repo_available :: "'w git_os \<Rightarrow> git_context \<Rightarrow> bool \<Rightarrow> 'w \<Rightarrow> bool \<times> 'w" where
  "filter_repo_available os cx m w =
     (case git_exec os cx m True None (Some ''filter-repo --version'') w of
        (None, w1) \<Rightarrow> (False, w1)
      | (Some r, w1) \<Rightarrow> (gr_success r, w1))"

text \<open>The outcome of a command of the compaction, which counts only where there is a result.\<close>

definition failed :: "git_result option \<Rightarrow> bool" where
  "failed r = (case r of None \<Rightarrow> False | Some r \<Rightarrow> \<not> gr_success r)"

definition git_ops_compact :: "'w git_os \<Rightarrow> git_context \<Rightarrow> bool \<Rightarrow> int \<Rightarrow> 'w \<Rightarrow> rc \<times> 64 word \<times> 64 word \<times> 'w" where
  "git_ops_compact os cx m level w =
     (let level = (if level < 0 then 0 else if 7 < level then 7 else level);
          (old_sz, w1) = git_ops_size os cx m m w;
          (avail, w2) = (if 0 < level then filter_repo_available os cx m w1 else (False, w1));
          w3 = (if avail then snd (git_exec os cx m m None (Some ''filter-repo --force --refs HEAD --replace-refs delete-no-add'') w2) else w2);
          (gp, w4) = git_exec os cx m m None (Some ''repack -a -d -f'') w3;
          (gg, w5) = git_exec os cx m m None (Some ''gc --prune=now'') w4;
          ret = (if failed gp \<or> failed gg then - 1 else 0);
          (new_sz, w6) = git_ops_size os cx m m w5;
          msg = cstr 256 (''Compacted: '' @ show_nat (unat old_sz) @ '' -> '' @ show_nat (unat new_sz) @ '' bytes, level='' @ show_int level) in
      (ret, old_sz, new_sz, git_audit_write os cx (Some ''system'') (Some ''compact'') (Some msg) (Some []) (ret = 0) w6))"

section \<open>Life cycle\<close>

definition ensure_repo :: "'w git_os \<Rightarrow> git_context \<Rightarrow> bool \<Rightarrow> 'w \<Rightarrow> 'w" where
  "ensure_repo os cx m w =
     (if os_exists os (cstr 512 (cx_repo_path cx @ ''/.git'')) w then w else snd (git_ops_init os cx m (Some (cx_repo_path cx)) w))"

definition context0 :: git_context where
  "context0 = \<lparr>cx_config = \<lparr>gc_repo_path = [], gc_audit_path = [], gc_remote_url = [], gc_branch = [], gc_auto_commit = False,
     gc_auto_push = False, gc_max_size = 0, gc_auto_compact = False\<rparr>, cx_repo_path = [], cx_audit_path = [], cx_initialized = False\<rparr>"

text \<open>The message of the record is a parameter: it is not ASCII.\<close>

definition git_plugin_init :: "'w git_os \<Rightarrow> string option \<Rightarrow> string \<Rightarrow> bool \<Rightarrow> 'w \<Rightarrow> git_context \<times> 'w" where
  "git_plugin_init os state msg m w =
     (let cx = git_config_load os state w context0;
          w1 = ensure_repo os cx m w in
      (cx\<lparr>cx_initialized := True\<rparr>,
       git_audit_write os cx (Some ''system'') (Some ''init'') (Some (cx_repo_path cx)) (Some msg) True w1))"

definition git_plugin_stop :: "'w git_os \<Rightarrow> string \<Rightarrow> git_context \<Rightarrow> 'w \<Rightarrow> git_context \<times> 'w" where
  "git_plugin_stop os msg cx w =
     (if cx_initialized cx
      then (cx\<lparr>cx_initialized := False\<rparr>,
            git_audit_write os cx (Some ''system'') (Some ''stop'') (Some (cx_repo_path cx)) (Some msg) True w)
      else (cx, w))"

end
