(* ===== verification/ShWords.thy ===== *)
theory ShWords
  imports SpUtil
begin

text \<open>
  How a POSIX shell splits the command lines that the SP plugin writes: words of plain characters, of
  single-quoted parts and of escaped characters, separated by blanks, the redirection of the output and of the
  error output, and the conjunction of commands.
  A line with any other construct has no reading here.  What the plugin relies on is then stated of the
  words of a command, not of its spelling.
\<close>

datatype token = Word string | Into | ErrInto | And_then

definition plain_char :: "char \<Rightarrow> bool" where
  "plain_char c \<longleftrightarrow> c \<notin> set [CHR 0x00, TAB, NL, CHR '' '', SQ, BSLASH, CHR 0x22, CHR 0x60, CHR ''|'', CHR ''&'', CHR '';'',
     CHR ''<'', CHR ''>'', CHR ''('', CHR '')'', CHR ''$'', CHR ''*'', CHR ''?'', CHR ''['', CHR ''#'', CHR ''~'', CHR ''=''  ,
     CHR ''%'', CHR ''{'', CHR ''}'', CHR ''!'']"

text \<open>The word read so far, if one has begun, and the rest of the line.\<close>

fun lex :: "string option \<Rightarrow> string \<Rightarrow> token list option" and lexq :: "string \<Rightarrow> string \<Rightarrow> token list option" where
  "lex cur [] = Some (case cur of None \<Rightarrow> [] | Some w \<Rightarrow> [Word w])"
| "lex cur (c # t) =
     (if c = SQ then lexq (case cur of None \<Rightarrow> [] | Some w \<Rightarrow> w) t
      else if c = BSLASH then
        (case t of [] \<Rightarrow> None
         | d # u \<Rightarrow> if d = NL then None else lex (Some ((case cur of None \<Rightarrow> [] | Some w \<Rightarrow> w) @ [d])) u)
      else if c = CHR '' '' then map_option (\<lambda>ts. (case cur of None \<Rightarrow> [] | Some w \<Rightarrow> [Word w]) @ ts) (lex None t)
      else if c = CHR ''>'' then (if cur = None then map_option (\<lambda>ts. Into # ts) (lex None t) else None)
      else if c = CHR ''&'' \<and> cur = None then
        (case t of [] \<Rightarrow> None | d # u \<Rightarrow> if d = CHR ''&'' then map_option (\<lambda>ts. And_then # ts) (lex None u) else None)
      else if c = CHR ''2'' \<and> cur = None then
        (case t of [] \<Rightarrow> lex (Some [c]) t
         | d # u \<Rightarrow> if d = CHR ''>'' then map_option (\<lambda>ts. ErrInto # ts) (lex None u) else lex (Some [c]) t)
      else if plain_char c then lex (Some ((case cur of None \<Rightarrow> [] | Some w \<Rightarrow> w) @ [c])) t
      else None)"
| "lexq w [] = None"
| "lexq w (c # t) = (if c = SQ then lex (Some w) t else lexq (w @ [c]) t)"

definition sh_tokens :: "string \<Rightarrow> token list option" where
  "sh_tokens cmd = lex None cmd"

section \<open>Reading the pieces of a command\<close>

lemma append_fun [simp]: "(@) [] = (\<lambda>xs. xs)" "(@) [x] = (#) x"
  by (simp_all add: fun_eq_iff)

lemma lex_blank [simp]: "lex None (CHR '' '' # t) = lex None t"
  by (simp add: option.map_ident)

lemma lex_into [simp]: "lex None (CHR ''>'' # t) = map_option (\<lambda>ts. Into # ts) (lex None t)"
  by simp

lemma lex_err_into [simp]: "lex None (CHR ''2'' # CHR ''>'' # t) = map_option (\<lambda>ts. ErrInto # ts) (lex None t)"
  by (simp add: plain_char_def)

lemma lex_and [simp]: "lex None (CHR ''&'' # CHR ''&'' # t) = map_option (\<lambda>ts. And_then # ts) (lex None t)"
  by simp

text \<open>A word begins with a plain character that no redirection follows.\<close>

lemma lex_plain_first: "plain_char c \<Longrightarrow> (case t of [] \<Rightarrow> True | d # _ \<Rightarrow> d \<noteq> CHR ''>'') \<Longrightarrow> lex None (c # t) = lex (Some [c]) t"
  by (auto simp: plain_char_def split: list.splits)

lemma lex_plain_some: "list_all plain_char s \<Longrightarrow> lex (Some w) (s @ t) = lex (Some (w @ s)) t"
proof (induction s arbitrary: w)
  case (Cons c s)
  then have "c \<noteq> SQ \<and> c \<noteq> BSLASH \<and> c \<noteq> CHR '' '' \<and> c \<noteq> CHR ''>''" by (auto simp: plain_char_def)
  with Cons show ?case by simp
qed simp

lemma lex_word:
  assumes "list_all plain_char s" and "s \<noteq> []"
  shows "lex None (s @ CHR '' '' # t) = map_option (\<lambda>ts. Word s # ts) (lex None t)"
proof -
  obtain c s' where s: "s = c # s'" using assms(2) by (cases s) auto
  have "case s' @ CHR '' '' # t of [] \<Rightarrow> True | d # _ \<Rightarrow> d \<noteq> CHR ''>''"
    using assms(1) s by (cases s') (auto simp: plain_char_def)
  then have "lex None (s @ CHR '' '' # t) = lex (Some [c]) (s' @ CHR '' '' # t)"
    using lex_plain_first [of c "s' @ CHR '' '' # t"] assms(1) s by (simp del: lex.simps)
  also have "\<dots> = lex (Some s) (CHR '' '' # t)" using assms(1) s by (simp add: lex_plain_some del: lex.simps)
  finally show ?thesis by simp
qed

lemma lex_word_end: "list_all plain_char s \<Longrightarrow> s \<noteq> [] \<Longrightarrow> lex None s = Some [Word s]"
proof -
  assume s: "list_all plain_char s" "s \<noteq> []"
  then obtain c s' where c: "s = c # s'" by (cases s) auto
  have "case s' of [] \<Rightarrow> True | d # _ \<Rightarrow> d \<noteq> CHR ''>''" using s(1) c by (cases s') (auto simp: plain_char_def)
  then have "lex None s = lex (Some [c]) (s' @ [])" using lex_plain_first [of c s'] s(1) c by (simp del: lex.simps)
  also have "\<dots> = lex (Some s) []" using lex_plain_some [of s' "[c]" "[]"] s(1) c by (simp del: lex.simps)
  finally show ?thesis by simp
qed

lemma lex_bare:
  "sh_bare q = Some p \<Longrightarrow> lex (Some w) (q @ CHR '' '' # t) = map_option (\<lambda>ts. Word (w @ p) # ts) (lex None t)"
  "sh_quoted q = Some p \<Longrightarrow> lexq w (q @ CHR '' '' # t) = map_option (\<lambda>ts. Word (w @ p) # ts) (lex None t)"
proof (induction q and q arbitrary: w p and w p rule: sh_bare_sh_quoted.induct)
  case (2 c t')
  then show ?case by (auto split: if_splits list.splits)
qed (auto split: if_splits)

lemma lex_bare_end:
  "sh_bare q = Some p \<Longrightarrow> lex (Some w) q = Some [Word (w @ p)]"
  "sh_quoted q = Some p \<Longrightarrow> lexq w q = Some [Word (w @ p)]"
proof (induction q and q arbitrary: w p and w p rule: sh_bare_sh_quoted.induct)
  case (2 c t')
  then show ?case by (auto split: if_splits list.splits)
qed (auto split: if_splits)

lemma lex_start: "sh_bare q = Some p \<Longrightarrow> p \<noteq> [] \<Longrightarrow> lex None (q @ t) = lex (Some []) (q @ t)"
  by (cases q) (auto split: if_splits list.splits)

lemma lex_quoted:
  assumes "sh_bare q = Some p" and "p \<noteq> []"
  shows "lex None (q @ CHR '' '' # t) = map_option (\<lambda>ts. Word p # ts) (lex None t)"
    and "lex None q = Some [Word p]"
  using lex_start [OF assms, of "CHR '' '' # t"] lex_start [OF assms, of "[]"] lex_bare(1) [OF assms(1), of "[]" t]
    lex_bare_end(1) [OF assms(1), of "[]"] by simp_all

lemma hex_plain: "list_all plain_char (sp_to_hex bs)"
  using set_to_hex [of _ bs] by (fastforce simp: list_all_iff is_hex_def plain_char_def)

end
