(* ===== verification/SpShell.thy ===== *)
theory SpShell
  imports ShWords
begin

text \<open>
  How the SP plugin runs the \<^verbatim>\<open>openssl\<close> program, \<^verbatim>\<open>sp/src/sp_util.c\<close>: temporary files, command lines and
  their output; and the digests made this way, \<^verbatim>\<open>sp/src/sp_hash.c\<close>.

  The shell with everything it can run is a function of the command line and the files; it gives the exit
  code (-1 when nothing could be started) and the files afterwards.  A world holds the files, the
  answers of the successive \<^verbatim>\<open>sp_tmp_path\<close> calls and those of allocations and of writes.  An operation
  maps a world to a result, an error code or a value, unless it runs into a fault, and the next world.
\<close>

abbreviation SP_ENOTSUP :: int where "SP_ENOTSUP \<equiv> - 6"
abbreviation SP_EAUTH :: int where "SP_EAUTH \<equiv> - 8"
abbreviation NULC :: char where "NULC \<equiv> CHR 0x00"

section \<open>Worlds and operations\<close>

type_synonym sp_files = "string \<Rightarrow> byte list option"
type_synonym shell_fun = "string \<Rightarrow> sp_files \<Rightarrow> int \<times> sp_files"

record spw =
  sw_files :: sp_files
  sw_tmp :: "string option list"
  sw_faults :: allocs

type_synonym 'a io = "spw \<Rightarrow> (int + 'a) outcome \<times> spw"

definition ret :: "'a \<Rightarrow> 'a io" where
  "ret x = (\<lambda>w. (Ret (Inr x), w))"

definition fail :: "int \<Rightarrow> 'a io" where
  "fail e = (\<lambda>w. (Ret (Inl e), w))"

definition andthen :: "'a io \<Rightarrow> ('a \<Rightarrow> 'b io) \<Rightarrow> 'b io" where
  "andthen m f = (\<lambda>w. case m w of
     (Fault, w1) \<Rightarrow> (Fault, w1)
   | (Ret (Inl e), w1) \<Rightarrow> (Ret (Inl e), w1)
   | (Ret (Inr x), w1) \<Rightarrow> f x w1)"

text \<open>Leaving through a label that removes files.\<close>

definition unlink1 :: "string option \<Rightarrow> spw \<Rightarrow> spw" where
  "unlink1 p w = (case p of None \<Rightarrow> w | Some p \<Rightarrow> w\<lparr>sw_files := (sw_files w)(p := None)\<rparr>)"

definition unlinks :: "string option list \<Rightarrow> unit io" where
  "unlinks ps = (\<lambda>w. (Ret (Inr ()), fold unlink1 ps w))"

definition cleaning :: "string option list \<Rightarrow> 'a io \<Rightarrow> 'a io" where
  "cleaning ps m = (\<lambda>w. case m w of (Fault, w1) \<Rightarrow> (Fault, w1) | (Ret r, w1) \<Rightarrow> (Ret r, fold unlink1 ps w1))"

definition sp_tmp_path :: "string option io" where
  "sp_tmp_path = (\<lambda>w. case sw_tmp w of
     [] \<Rightarrow> (Ret (Inr None), w)
   | p # ps \<Rightarrow> (Ret (Inr p), unlink1 p (w\<lparr>sw_tmp := ps\<rparr>)))"

definition may_fail :: "bool io" where
  "may_fail = (\<lambda>w. case alloc (sw_faults w) of (ok, al) \<Rightarrow> (Ret (Inr ok), w\<lparr>sw_faults := al\<rparr>))"

text \<open>A malloc, with the error its failure gives.\<close>

definition malloc_or :: "int \<Rightarrow> unit io" where
  "malloc_or e = andthen may_fail (\<lambda>ok. if ok then ret () else fail e)"

definition sp_write_all :: "string option \<Rightarrow> byte list \<Rightarrow> int io" where
  "sp_write_all path data =
     (case path of
        None \<Rightarrow> ret SP_EINVAL
      | Some p \<Rightarrow>
          andthen may_fail (\<lambda>ok.
            if ok then (\<lambda>w. (Ret (Inr SP_OK), w\<lparr>sw_files := (sw_files w)(p \<mapsto> data)\<rparr>)) else ret SP_EIO))"

text \<open>A negative number, or the bytes read.\<close>

definition sp_read_text :: "string option \<Rightarrow> nat \<Rightarrow> (int + byte list) io" where
  "sp_read_text path cap = (\<lambda>w.
     (case path of
        None \<Rightarrow> (Ret (Inr (Inl SP_EINVAL)), w)
      | Some p \<Rightarrow>
          if cap = 0 then (Ret (Inr (Inl SP_EINVAL)), w)
          else (case sw_files w p of
                  None \<Rightarrow> (Ret (Inr (Inl (- 1))), w)
                | Some d \<Rightarrow> (Ret (Inr (Inr (take (cap - 1) d))), w))))"

text \<open>
  The command line is put together in a buffer of 8192 bytes; the running length is what the text would
  need, so a redirection after an overlong command is written behind the buffer.
\<close>

definition redirect :: "string \<Rightarrow> string option \<Rightarrow> nat \<times> string \<Rightarrow> (nat \<times> string) outcome" where
  "redirect op path st =
     (case path of
        None \<Rightarrow> Ret st
      | Some p \<Rightarrow>
          if p = [] then Ret st
          else
            let q = (case sp_q (Some p) 1024 of None \<Rightarrow> ''(null)'' | Some q \<Rightarrow> q);
                (n, text) = st in
            if 8192 < n then Fault else Ret (n + length (op @ q), cstr 8192 (text @ op @ q)))"

definition sp_sh :: "shell_fun \<Rightarrow> string \<Rightarrow> string option \<Rightarrow> string option \<Rightarrow> int io" where
  "sp_sh sh cmd stdout_file stderr_file = (\<lambda>w.
     (case redirect '' > '' stdout_file (length cmd, cstr 8192 cmd) of
        Fault \<Rightarrow> (Fault, w)
      | Ret st \<Rightarrow>
          (case redirect '' 2> '' stderr_file st of
             Fault \<Rightarrow> (Fault, w)
           | Ret (n, text) \<Rightarrow> (case sh text (sw_files w) of (rc, fs) \<Rightarrow> (Ret (Inr rc), w\<lparr>sw_files := fs\<rparr>)))))"

text \<open>A path in a command line.\<close>

definition quoted :: "string option \<Rightarrow> string" where
  "quoted p = (case sp_q p 8192 of None \<Rightarrow> ''(null)'' | Some q \<Rightarrow> q)"

definition bytes_chars :: "byte list \<Rightarrow> string" where
  "bytes_chars bs = map (\<lambda>b. char_of (unat b)) bs"

text \<open>The text of a buffer read as a C string, and its first word.\<close>

definition c_text :: "byte list \<Rightarrow> string" where
  "c_text bs = takeWhile (\<lambda>c. c \<noteq> NULC) (bytes_chars bs)"

definition first_word :: "string \<Rightarrow> string" where
  "first_word s = takeWhile (\<lambda>c. c \<noteq> CHR '' '' \<and> c \<noteq> TAB \<and> c \<noteq> NL) s"

section \<open>Base64\<close>

definition b64_blank :: "char \<Rightarrow> bool" where
  "b64_blank c \<longleftrightarrow> c = NL \<or> c = CR \<or> c = CHR '' ''"

definition sp_b64_encode :: "shell_fun \<Rightarrow> byte list \<Rightarrow> nat \<Rightarrow> string io" where
  "sp_b64_encode sh inp cap =
     (if cap = 0 then fail SP_EINVAL
      else if 8191 < length inp then fail SP_ENOMEM
      else
        andthen sp_tmp_path (\<lambda>inpath.
          if inpath = None then fail SP_EIO
          else andthen (sp_write_all inpath inp) (\<lambda>rc.
            if rc \<noteq> SP_OK then fail SP_EIO
            else andthen sp_tmp_path (\<lambda>outpath.
              andthen (sp_sh sh (''openssl base64 -A -in '' @ quoted inpath) outpath None) (\<lambda>rc.
                if rc \<noteq> 0 then andthen (unlinks [inpath]) (\<lambda>_. fail SP_EIO)
                else andthen (sp_read_text outpath 8192) (\<lambda>n.
                  andthen (unlinks [inpath, outpath]) (\<lambda>_.
                    case n of
                      Inl _ \<Rightarrow> fail SP_EIO
                    | Inr bs \<Rightarrow>
                        if bs = [] then fail SP_EIO
                        else
                          let enc = rtrim b64_blank (bytes_chars bs) in
                          if cap \<le> length enc + 1 then fail SP_ENOMEM else ret enc)))))))"

definition sp_b64_decode :: "shell_fun \<Rightarrow> string \<Rightarrow> nat \<Rightarrow> byte list io" where
  "sp_b64_decode sh b64 cap =
     (if 0x3ffff < length b64 then fail SP_ENOMEM
      else
        andthen sp_tmp_path (\<lambda>inpath.
          if inpath = None then fail SP_EIO
          else andthen (sp_write_all inpath (chars_bytes b64)) (\<lambda>rc.
            if rc \<noteq> SP_OK then fail SP_EIO
            else andthen sp_tmp_path (\<lambda>outpath.
              andthen (sp_sh sh (''openssl base64 -d -A -in '' @ quoted inpath) outpath None) (\<lambda>rc.
                if rc \<noteq> 0 then andthen (unlinks [inpath]) (\<lambda>_. fail SP_EIO)
                else andthen (sp_read_text outpath cap) (\<lambda>n.
                  andthen (unlinks [inpath, outpath]) (\<lambda>_.
                    case n of Inl _ \<Rightarrow> fail SP_EIO | Inr bs \<Rightarrow> ret bs)))))))"

section \<open>Digests\<close>

definition sp_hash_flag :: "int \<Rightarrow> string option" where
  "sp_hash_flag algo =
     (if algo = 0 then Some ''sha1'' else if algo = 1 then Some ''sha256'' else if algo = 2 then Some ''sha512''
      else if algo = 3 then Some ''sha3-256'' else if algo = 4 then Some ''sha3-512'' else None)"

definition sp_hash_outlen :: "int \<Rightarrow> nat" where
  "sp_hash_outlen algo =
     (if algo = 0 then 20 else if algo = 1 then 32 else if algo = 2 then 64
      else if algo = 3 then 32 else if algo = 4 then 64 else 0)"

definition sp_hash_bin_file :: "shell_fun \<Rightarrow> int \<Rightarrow> string option \<Rightarrow> nat \<Rightarrow> byte list io" where
  "sp_hash_bin_file sh algo path cap =
     (case sp_hash_flag algo of
        None \<Rightarrow> fail SP_EINVAL
      | Some flag \<Rightarrow>
          if path = None then fail SP_EINVAL
          else if cap < sp_hash_outlen algo then fail SP_ENOMEM
          else andthen sp_tmp_path (\<lambda>outpath.
            if outpath = None then fail SP_EIO
            else andthen (sp_sh sh (''openssl dgst -'' @ flag @ '' -r '' @ quoted path) outpath None) (\<lambda>rc.
              if rc \<noteq> 0 then andthen (unlinks [outpath]) (\<lambda>_. fail SP_EIO)
              else andthen (sp_read_text outpath 256) (\<lambda>n.
                andthen (unlinks [outpath]) (\<lambda>_.
                  case n of
                    Inl _ \<Rightarrow> fail SP_EIO
                  | Inr bs \<Rightarrow>
                      if bs = [] then fail SP_EIO
                      else
                        let tok = first_word (c_text bs) in
                        if length tok \<noteq> sp_hash_outlen algo * 2 then fail SP_EIO
                        else (case sp_from_hex tok cap of Inl e \<Rightarrow> fail e | Inr d \<Rightarrow> ret d))))))"

definition sp_hash_compute :: "shell_fun \<Rightarrow> int \<Rightarrow> byte list option \<Rightarrow> nat \<Rightarrow> byte list io" where
  "sp_hash_compute sh algo data cap =
     (case data of
        None \<Rightarrow> fail SP_EINVAL
      | Some d \<Rightarrow>
          if d = [] then fail SP_EINVAL
          else andthen sp_tmp_path (\<lambda>inpath.
            if inpath = None then fail SP_EIO
            else andthen (sp_write_all inpath d) (\<lambda>rc.
              if rc \<noteq> SP_OK then fail SP_EIO
              else cleaning [inpath] (sp_hash_bin_file sh algo inpath cap))))"

definition ops_hash_hex :: "shell_fun \<Rightarrow> int \<Rightarrow> byte list option \<Rightarrow> nat \<Rightarrow> string io" where
  "ops_hash_hex sh algo data hex_cap =
     andthen (sp_hash_compute sh algo data 64) (\<lambda>d.
       if hex_cap < length d * 2 + 1 then fail SP_ENOMEM else ret (sp_to_hex d))"

definition ops_hash_file_hex :: "shell_fun \<Rightarrow> int \<Rightarrow> string option \<Rightarrow> nat \<Rightarrow> string io" where
  "ops_hash_file_hex sh algo path hex_cap =
     andthen (sp_hash_bin_file sh algo path 64) (\<lambda>d.
       if hex_cap < length d * 2 + 1 then fail SP_ENOMEM else ret (sp_to_hex d))"

definition ops_verify_hash :: "shell_fun \<Rightarrow> int \<Rightarrow> byte list option \<Rightarrow> byte list \<Rightarrow> unit io" where
  "ops_verify_hash sh algo data expect =
     andthen (sp_hash_compute sh algo data 64) (\<lambda>d.
       if length expect \<noteq> length d then fail SP_EAUTH
       else if sp_ct_eq d expect (length d) = 0 then ret () else fail SP_EAUTH)"

definition ops_verify_file_hash :: "shell_fun \<Rightarrow> int \<Rightarrow> string option \<Rightarrow> string option \<Rightarrow> unit io" where
  "ops_verify_file_hash sh algo path expected_hex =
     (case expected_hex of
        None \<Rightarrow> fail SP_EINVAL
      | Some hex \<Rightarrow>
          if path = None then fail SP_EINVAL
          else andthen (sp_hash_bin_file sh algo path 64) (\<lambda>d.
            case sp_from_hex hex 64 of
              Inl _ \<Rightarrow> fail SP_EINVAL
            | Inr expect \<Rightarrow>
                if length expect \<noteq> length d then fail SP_EAUTH
                else if sp_ct_eq d expect (length d) = 0 then ret () else fail SP_EAUTH))"


section \<open>Running one command\<close>

lemma ret_simps [simp]:
  "ret x w = (Ret (Inr x), w)" "fail e w = (Ret (Inl e), w)"
  by (simp_all add: ret_def fail_def)

text \<open>The same definitions on a given world, so that only the next step is unfolded.\<close>

lemma andthen_app: "andthen m f w = (case m w of
    (Fault, w1) \<Rightarrow> (Fault, w1) | (Ret (Inl e), w1) \<Rightarrow> (Ret (Inl e), w1) | (Ret (Inr x), w1) \<Rightarrow> f x w1)"
  by (simp add: andthen_def)

lemma cleaning_app: "cleaning ps m w = (case m w of (Fault, w1) \<Rightarrow> (Fault, w1) | (Ret r, w1) \<Rightarrow> (Ret r, fold unlink1 ps w1))"
  by (simp add: cleaning_def)

lemma unlinks_simp [simp]: "unlinks ps w = (Ret (Inr ()), fold unlink1 ps w)"
  by (simp add: unlinks_def)

lemma unlink1_simps [simp]:
  "sw_tmp (unlink1 p w) = sw_tmp w" "sw_faults (unlink1 p w) = sw_faults w"
  "sw_files (unlink1 (Some x) w) = (sw_files w)(x := None)"
  by (simp_all add: unlink1_def split: option.split)

text \<open>Names for temporary files that fit every buffer; a world that has these ready and fails nowhere.\<close>

definition path_ok :: "string \<Rightarrow> bool" where
  "path_ok p \<longleftrightarrow> p \<noteq> [] \<and> length p \<le> 200"

definition ready :: "string list \<Rightarrow> spw \<Rightarrow> bool" where
  "ready ps w \<longleftrightarrow> (\<exists>rest. sw_tmp w = map Some ps @ rest) \<and> distinct ps \<and> list_all path_ok ps \<and> sw_faults w = []"

lemma ready_cong: "sw_tmp w' = sw_tmp w \<Longrightarrow> sw_faults w' = sw_faults w \<Longrightarrow> ready ps w' = ready ps w"
  by (simp add: ready_def)

lemma ready_simps [simp]:
  "ready ps (w\<lparr>sw_files := fs\<rparr>) = ready ps w" "ready ps (unlink1 p w) = ready ps w"
  by (simp_all add: ready_def)

lemma readyD: "ready (p # ps) w \<Longrightarrow> path_ok p \<and> p \<notin> set ps"
  by (simp add: ready_def)

lemma tmp_ready:
  assumes "ready (p # ps) w"
  obtains w1 where "sp_tmp_path w = (Ret (Inr (Some p)), w1)" and "ready ps w1"
    and "sw_files w1 = (sw_files w)(p := None)"
proof -
  obtain rest where "sw_tmp w = Some p # map Some ps @ rest"
    using assms by (auto simp: ready_def)
  then have "sp_tmp_path w = (Ret (Inr (Some p)), unlink1 (Some p) (w\<lparr>sw_tmp := map Some ps @ rest\<rparr>))"
    by (simp add: sp_tmp_path_def)
  moreover have "ready ps (w\<lparr>sw_tmp := map Some ps @ rest\<rparr>)"
    using assms by (auto simp: ready_def)
  ultimately show thesis using that by simp
qed

lemma write_ready:
  assumes "ready ps w"
  obtains w1 where "sp_write_all (Some p) d w = (Ret (Inr SP_OK), w1)" and "ready ps w1"
    and "sw_files w1 = (sw_files w)(p \<mapsto> d)"
proof -
  have "sp_write_all (Some p) d w = (Ret (Inr SP_OK), w\<lparr>sw_faults := [], sw_files := (sw_files w)(p \<mapsto> d)\<rparr>)"
    using assms by (simp add: sp_write_all_def may_fail_def andthen_def ready_def)
  moreover have "ready ps (w\<lparr>sw_faults := []\<rparr>)" using assms by (auto simp: ready_def)
  ultimately show thesis using that by simp
qed

lemma malloc_ready:
  assumes "ready ps w"
  obtains w1 where "malloc_or e w = (Ret (Inr ()), w1)" and "ready ps w1" and "sw_files w1 = sw_files w"
proof -
  have "malloc_or e w = (Ret (Inr ()), w\<lparr>sw_faults := []\<rparr>)"
    using assms by (simp add: malloc_or_def may_fail_def andthen_def ready_def)
  moreover have "ready ps (w\<lparr>sw_faults := []\<rparr>)" using assms by (auto simp: ready_def)
  ultimately show thesis using that by simp
qed

text \<open>Quoted paths are short and read back.\<close>

lemma length_q_loop: "length (q_loop cap b s) \<le> length b + 4 * length s"
  by (induction cap b s rule: q_loop.induct) (auto split: if_splits)

lemma sp_q_path:
  assumes "path_ok p" and "1024 \<le> cap"
  obtains q where "sp_q (Some p) cap = Some q" and "sh_bare q = Some p" and "length q \<le> 802"
proof -
  let ?b = "q_loop cap [SQ] p"
  have len: "length ?b \<le> 1 + 4 * length p" using length_q_loop [of cap "[SQ]" p] by simp
  then have q: "sp_q (Some p) cap = Some (?b @ [SQ])"
    using assms by (simp add: sp_q_def Let_def path_ok_def)
  obtain k where k: "sh_bare (?b @ [SQ]) = Some (take k p)" "4 * length p + 3 < cap \<longrightarrow> k = length p"
    using sp_q_reads [OF q] by blast
  have "k = length p" using k(2) assms by (simp add: path_ok_def)
  then have "sh_bare (?b @ [SQ]) = Some p" using k(1) by simp
  moreover have "length (?b @ [SQ]) \<le> 802" using len assms(1) by (simp add: path_ok_def)
  ultimately show thesis using that q by blast
qed

lemma quoted_path:
  assumes "path_ok p"
  shows "sh_bare (quoted (Some p)) = Some p" and "length (quoted (Some p)) \<le> 802"
proof -
  obtain q where "sp_q (Some p) 8192 = Some q" "sh_bare q = Some p" "length q \<le> 802"
    using sp_q_path [OF assms, of 8192] by auto
  then show "sh_bare (quoted (Some p)) = Some p" and "length (quoted (Some p)) \<le> 802"
    by (simp_all add: quoted_def)
qed

lemma sp_sh_to_file:
  assumes "path_ok p" and "length cmd \<le> 4000"
  obtains q where "sh_bare q = Some p"
    and "sp_sh sh cmd (Some p) None w = (case sh (cmd @ '' > '' @ q) (sw_files w) of (rc, fs) \<Rightarrow> (Ret (Inr rc), w\<lparr>sw_files := fs\<rparr>))"
proof -
  obtain q where q: "sp_q (Some p) 1024 = Some q" "sh_bare q = Some p" "length q \<le> 802"
    using sp_q_path [OF assms(1), of 1024] by auto
  have p: "p \<noteq> []" using assms(1) by (simp add: path_ok_def)
  have "sp_sh sh cmd (Some p) None w = (case sh (cmd @ '' > '' @ q) (sw_files w) of (rc, fs) \<Rightarrow> (Ret (Inr rc), w\<lparr>sw_files := fs\<rparr>))"
    using p q(1,3) assms(2) by (simp add: sp_sh_def redirect_def Let_def cstr_id)
  with q(2) that show thesis by blast
qed

lemma sp_sh_plain:
  "length cmd \<le> 4000 \<Longrightarrow> sp_sh sh cmd None None w = (case sh cmd (sw_files w) of (rc, fs) \<Rightarrow> (Ret (Inr rc), w\<lparr>sw_files := fs\<rparr>))"
  by (simp add: sp_sh_def redirect_def cstr_id)

text \<open>Data is written to a file, and a program turns the file into another one.\<close>

lemma filter_run:
  assumes r: "ready (p # t # ps) w" and len: "length cmd \<le> 4000"
    and law: "\<And>q fs. sh_bare q = Some t \<Longrightarrow> t \<noteq> [] \<Longrightarrow> t \<noteq> p \<Longrightarrow> fs p = Some d \<Longrightarrow> sh (cmd @ '' > '' @ q) fs = (0, fs(t \<mapsto> x))"
  obtains w1 w2 w3 w4 where "sp_tmp_path w = (Ret (Inr (Some p)), w1)" and "sp_write_all (Some p) d w1 = (Ret (Inr SP_OK), w2)"
    and "sp_tmp_path w2 = (Ret (Inr (Some t)), w3)" and "sp_sh sh cmd (Some t) None w3 = (Ret (Inr SP_OK), w4)"
    and "\<forall>cap. 0 < cap \<longrightarrow> sp_read_text (Some t) cap w4 = (Ret (Inr (Inr (take (cap - 1) x))), w4)" and "ready ps w4"
    and "sw_files (unlink1 (Some t) (unlink1 (Some p) w4)) = (sw_files w)(p := None, t := None)"
proof -
  obtain w1 where t1: "sp_tmp_path w = (Ret (Inr (Some p)), w1)" "ready (t # ps) w1" "sw_files w1 = (sw_files w)(p := None)"
    using tmp_ready [OF r] .
  obtain w2 where wr: "sp_write_all (Some p) d w1 = (Ret (Inr SP_OK), w2)" "ready (t # ps) w2" "sw_files w2 = (sw_files w1)(p \<mapsto> d)"
    using write_ready [OF t1(2)] .
  obtain w3 where t2: "sp_tmp_path w2 = (Ret (Inr (Some t)), w3)" "ready ps w3" "sw_files w3 = (sw_files w2)(t := None)"
    using tmp_ready [OF wr(2)] .
  have pp: "t \<noteq> p" and pt: "path_ok t" using readyD [OF r] readyD [OF wr(2)] by auto
  obtain q where q: "sh_bare q = Some t" and run: "sp_sh sh cmd (Some t) None w3 =
      (case sh (cmd @ '' > '' @ q) (sw_files w3) of (rc, fs) \<Rightarrow> (Ret (Inr rc), w3\<lparr>sw_files := fs\<rparr>))"
    using sp_sh_to_file [OF pt len] by blast
  have "sw_files w3 p = Some d" using t2(3) wr(3) pp by simp
  then have law: "sh (cmd @ '' > '' @ q) (sw_files w3) = (0, (sw_files w3)(t \<mapsto> x))"
    using law q pt pp by (simp add: path_ok_def)
  let ?w4 = "w3\<lparr>sw_files := (sw_files w3)(t \<mapsto> x)\<rparr>"
  have "sp_sh sh cmd (Some t) None w3 = (Ret (Inr SP_OK), ?w4)" unfolding run law by simp
  moreover have "\<forall>cap. 0 < cap \<longrightarrow> sp_read_text (Some t) cap ?w4 = (Ret (Inr (Inr (take (cap - 1) x))), ?w4)"
    by (simp add: sp_read_text_def)
  moreover have "sw_files (unlink1 (Some t) (unlink1 (Some p) ?w4)) = (sw_files w)(p := None, t := None)"
    using t2(3) wr(3) t1(3) pp by (auto simp: fun_eq_iff)
  moreover have "ready ps ?w4" using t2(2) by simp
  ultimately show thesis using t1(1) wr(1) t2(1) that by blast
qed

section \<open>Reading a digest back\<close>

lemma bytes_chars_bytes [simp]: "bytes_chars (chars_bytes s) = s"
  by (simp add: bytes_chars_def chars_bytes_def unat_of_char comp_def)

lemma first_word_hex:
  assumes "\<forall>c \<in> set h. is_hex c"
  shows "first_word (takeWhile (\<lambda>c. c \<noteq> NULC) (h @ CHR '' '' # r)) = h"
proof -
  have h: "c \<noteq> NULC" "c \<noteq> CHR '' '' \<and> c \<noteq> TAB \<and> c \<noteq> NL" if "c \<in> set h" for c
  proof -
    have "is_hex c" using assms that by blast
    then show "c \<noteq> NULC" and "c \<noteq> CHR '' '' \<and> c \<noteq> TAB \<and> c \<noteq> NL" by (auto simp: is_hex_def)
  qed
  have "takeWhile (\<lambda>c. c \<noteq> NULC) (h @ CHR '' '' # r) = h @ takeWhile (\<lambda>c. c \<noteq> NULC) (CHR '' '' # r)"
    by (rule takeWhile_append2) (rule h(1))
  moreover have "first_word (h @ CHR '' '' # s) = h @ first_word (CHR '' '' # s)" for s
    unfolding first_word_def by (rule takeWhile_append2) (rule h(2))
  ultimately show ?thesis by (simp add: first_word_def)
qed

lemma read_hex:
  assumes "length (sp_to_hex d) < cap - 1"
  shows "first_word (c_text (take (cap - 1) (chars_bytes (sp_to_hex d @ CHR '' '' # r)))) = sp_to_hex d"
proof -
  have "take (cap - 1) (chars_bytes (sp_to_hex d @ CHR '' '' # r)) =
      chars_bytes (sp_to_hex d @ CHR '' '' # take (cap - 1 - Suc (length (sp_to_hex d))) r)"
    using assms by (simp add: chars_bytes_def take_map take_Cons' Suc_diff_Suc flip: map_append)
  then show ?thesis
    unfolding c_text_def using first_word_hex [of "sp_to_hex d"] set_to_hex by simp
qed

text \<open>What \<^verbatim>\<open>openssl dgst -r\<close> prints: the digest in hexadecimal, a blank, a star and the file.\<close>

definition dgst_text :: "byte list \<Rightarrow> string \<Rightarrow> byte list" where
  "dgst_text h p = chars_bytes (sp_to_hex h @ '' *'' @ p @ [NL])"

definition dgst_ok :: "shell_fun \<Rightarrow> (string \<Rightarrow> byte list \<Rightarrow> byte list) \<Rightarrow> bool" where
  "dgst_ok sh H \<longleftrightarrow>
     (\<forall>cmd algo flag p op fs d. sp_hash_flag algo = Some flag \<longrightarrow> fs p = Some d \<longrightarrow> op \<noteq> p \<longrightarrow>
        sh_tokens cmd = Some (map Word [''openssl'', ''dgst'', CHR ''-'' # flag, ''-r'', p] @ [Into, Word op]) \<longrightarrow>
        sh cmd fs = (0, fs(op \<mapsto> dgst_text (H flag d) p))) \<and>
     (\<forall>algo flag d. sp_hash_flag algo = Some flag \<longrightarrow> length (H flag d) = sp_hash_outlen algo)"

lemma dgst_tokens:
  assumes "sp_hash_flag algo = Some flag" and "path_ok p" and "sh_bare q = Some t" and "t \<noteq> []"
  shows "sh_tokens (''openssl dgst -'' @ flag @ '' -r '' @ quoted (Some p) @ '' > '' @ q) =
    Some (map Word [''openssl'', ''dgst'', CHR ''-'' # flag, ''-r'', p] @ [Into, Word t])"
proof -
  have flag: "list_all plain_char flag"
    using assms(1) by (auto simp: sp_hash_flag_def plain_char_def split: if_splits)
  have "sh_bare (quoted (Some p)) = Some p" and "p \<noteq> []"
    using quoted_path(1) [OF assms(2)] assms(2) by (simp_all add: path_ok_def)
  then show ?thesis
    by (simp add: sh_tokens_def plain_char_def lex_plain_some [OF flag] lex_quoted(1) lex_quoted(2) [OF assms(3,4)])
qed

lemma outlen_bound: "sp_hash_outlen algo \<le> 64"
  by (simp add: sp_hash_outlen_def)

lemma flag_short: "sp_hash_flag algo = Some flag \<Longrightarrow> length flag \<le> 8 \<and> 0 < sp_hash_outlen algo"
  by (auto simp: sp_hash_flag_def sp_hash_outlen_def split: if_splits)

lemma hash_file_result:
  assumes ok: "dgst_ok sh H" and "sp_hash_flag algo = Some flag" and "sw_files w p = Some d" and p: "path_ok p"
    and r: "ready (t # ps) w" and "t \<noteq> p" and cap: "sp_hash_outlen algo \<le> cap"
  obtains w1 where "sp_hash_bin_file sh algo (Some p) cap w = (Ret (Inr (H flag d)), w1)" and "ready ps w1"
    and "sw_files w1 = (sw_files w)(t := None)"
proof -
  let ?cmd = "''openssl dgst -'' @ flag @ '' -r '' @ quoted (Some p)"
  obtain w1 where t: "sp_tmp_path w = (Ret (Inr (Some t)), w1)" "ready ps w1" "sw_files w1 = (sw_files w)(t := None)"
    using tmp_ready [OF r] .
  have pt: "path_ok t" using readyD [OF r] by simp
  have len: "length ?cmd \<le> 4000"
    using quoted_path(2) [OF p] flag_short [OF assms(2)] by simp
  obtain q where q: "sh_bare q = Some t" and run: "sp_sh sh ?cmd (Some t) None w1 =
      (case sh (?cmd @ '' > '' @ q) (sw_files w1) of (rc, fs) \<Rightarrow> (Ret (Inr rc), w1\<lparr>sw_files := fs\<rparr>))"
    using sp_sh_to_file [OF pt len] by blast
  have "sw_files w1 p = Some d" using t(3) assms(3,6) by simp
  moreover have "sh_tokens (?cmd @ '' > '' @ q) = Some (map Word [''openssl'', ''dgst'', CHR ''-'' # flag, ''-r'', p] @ [Into, Word t])"
    using dgst_tokens [OF assms(2) p q] pt by (simp add: path_ok_def)
  ultimately have law: "length (H flag d) = sp_hash_outlen algo"
    "sh (?cmd @ '' > '' @ q) (sw_files w1) = (0, (sw_files w1)(t \<mapsto> dgst_text (H flag d) p))"
    using ok assms(2,6) unfolding dgst_ok_def by blast+
  let ?w2 = "w1\<lparr>sw_files := (sw_files w1)(t \<mapsto> dgst_text (H flag d) p)\<rparr>"
  have run2: "sp_sh sh ?cmd (Some t) None w1 = (Ret (Inr 0), ?w2)"
    unfolding run law(2) by simp
  let ?bs = "take 255 (dgst_text (H flag d) p)"
  have word: "first_word (c_text ?bs) = sp_to_hex (H flag d)"
    using read_hex [of "H flag d" 256 "''*'' @ p @ [NL]"] law(1) outlen_bound [of algo] by (simp add: dgst_text_def)
  have ne: "?bs \<noteq> []" unfolding take_eq_Nil by (simp add: dgst_text_def chars_bytes_def)
  have read: "sp_read_text (Some t) 256 ?w2 = (Ret (Inr (Inr ?bs)), ?w2)"
    by (simp add: sp_read_text_def)
  have "sp_hash_bin_file sh algo (Some p) cap w = (Ret (Inr (H flag d)), unlink1 (Some t) ?w2)"
    using assms(2) cap word ne law(1) sp_hex_roundtrip [of "H flag d" cap]
    by (simp add: sp_hash_bin_file_def Let_def andthen_def t(1) run2 [simplified] read)
  then show thesis
    by (rule that) (use t in \<open>simp_all add: fun_eq_iff\<close>)
qed

lemma hash_compute_result:
  assumes ok: "dgst_ok sh H" and "sp_hash_flag algo = Some flag" and d: "d \<noteq> []"
    and r: "ready (p # t # ps) w" and cap: "sp_hash_outlen algo \<le> cap"
  obtains w1 where "sp_hash_compute sh algo (Some d) cap w = (Ret (Inr (H flag d)), w1)" and "ready ps w1"
    and "sw_files w1 = (sw_files w)(p := None, t := None)"
proof -
  obtain w1 where t: "sp_tmp_path w = (Ret (Inr (Some p)), w1)" "ready (t # ps) w1" "sw_files w1 = (sw_files w)(p := None)"
    using tmp_ready [OF r] .
  obtain w2 where wr: "sp_write_all (Some p) d w1 = (Ret (Inr SP_OK), w2)" "ready (t # ps) w2" "sw_files w2 = (sw_files w1)(p \<mapsto> d)"
    using write_ready [OF t(2)] .
  have "path_ok p" and "t \<noteq> p" using readyD [OF r] by auto
  then obtain w3 where h: "sp_hash_bin_file sh algo (Some p) cap w2 = (Ret (Inr (H flag d)), w3)" "ready ps w3"
    "sw_files w3 = (sw_files w2)(t := None)"
    using hash_file_result [OF ok assms(2) _ _ wr(2) _ cap, of p d] wr(3) by auto
  have "sp_hash_compute sh algo (Some d) cap w = (Ret (Inr (H flag d)), unlink1 (Some p) w3)"
    using d by (simp add: sp_hash_compute_def andthen_def t(1) wr(1) cleaning_def h(1))
  then show thesis
    by (rule that) (use h t wr \<open>t \<noteq> p\<close> in \<open>auto simp: fun_eq_iff\<close>)
qed

end
