(* ===== verification/SpKey.thy ===== *)
theory SpKey
  imports SpShell
begin

text \<open>
  Keys and signatures of the SP plugin, \<^verbatim>\<open>sp/src/sp_key.c\<close>: the key ring, and the operations that run
  \<^verbatim>\<open>openssl\<close> over the worlds of \<^verbatim>\<open>SpShell\<close>.  The ring is only touched under the lock of the plugin; an
  operation that makes a key runs the programs first and enters the key afterwards, with whatever ring it
  finds then.
\<close>

abbreviation SP_ASYM_RSA_2048 :: int where "SP_ASYM_RSA_2048 \<equiv> 0"
abbreviation SP_ASYM_RSA_4096 :: int where "SP_ASYM_RSA_4096 \<equiv> 1"
abbreviation SP_ASYM_ECDSA_P256 :: int where "SP_ASYM_ECDSA_P256 \<equiv> 2"

section \<open>The key ring\<close>

record key_entry =
  ke_id :: "32 word"
  ke_algo :: int
  ke_desc :: string
  ke_priv :: string
  ke_pub :: string
  ke_revoked :: bool
  ke_created :: nat

record key_ring =
  kr_keys :: "key_entry list"
  kr_next :: "32 word"

text \<open>The entry with its number, also when it is revoked and this matters.\<close>

definition sp_key_find :: "32 word \<Rightarrow> bool \<Rightarrow> key_ring \<Rightarrow> int \<times> key_entry option" where
  "sp_key_find i check_revoked r =
     (case find (\<lambda>e. ke_id e = i) (kr_keys r) of
        None \<Rightarrow> (SP_ENOTFOUND, None)
      | Some e \<Rightarrow> if check_revoked \<and> ke_revoked e then (SP_EACCES, Some e) else (SP_OK, Some e))"

text \<open>A new entry: three allocations, of which the first comes before the number is taken.\<close>

definition sp_key_new_entry ::
  "int \<Rightarrow> string option \<Rightarrow> string \<Rightarrow> string \<Rightarrow> nat \<Rightarrow> key_ring \<Rightarrow> allocs \<Rightarrow> key_entry option \<times> key_ring \<times> allocs" where
  "sp_key_new_entry algo desc priv pub now r al =
     (case alloc al of (ok, al1) \<Rightarrow>
        if \<not> ok then (None, r, al1)
        else
          let e = \<lparr>ke_id = kr_next r, ke_algo = algo, ke_desc = cstr 128 (case desc of None \<Rightarrow> [] | Some d \<Rightarrow> d),
                   ke_priv = priv, ke_pub = pub, ke_revoked = False, ke_created = now\<rparr>;
              r1 = r\<lparr>kr_next := kr_next r + 1\<rparr> in
          (case alloc al1 of (ok1, al2) \<Rightarrow>
            (case alloc al2 of (ok2, al3) \<Rightarrow>
               if ok1 \<and> ok2 then (Some e, r1\<lparr>kr_keys := e # kr_keys r1\<rparr>, al3) else (None, r1, al3))))"

definition enter_key ::
  "int \<Rightarrow> string option \<Rightarrow> string \<Rightarrow> string \<Rightarrow> nat \<Rightarrow> key_ring \<Rightarrow> spw \<Rightarrow> (int + 32 word) outcome \<times> key_ring \<times> spw" where
  "enter_key algo desc priv pub now r w =
     (case sp_key_new_entry algo desc priv pub now r (sw_faults w) of (e, r1, al) \<Rightarrow>
        (Ret (case e of None \<Rightarrow> Inl SP_ENOMEM | Some e \<Rightarrow> Inr (ke_id e)), r1, w\<lparr>sw_faults := al\<rparr>))"

definition supported :: "int \<Rightarrow> bool" where
  "supported algo \<longleftrightarrow> algo = SP_ASYM_RSA_2048 \<or> algo = SP_ASYM_RSA_4096 \<or> algo = SP_ASYM_ECDSA_P256"

section \<open>Making keys\<close>

definition sp_key_gen_cmd :: "int \<Rightarrow> string option \<Rightarrow> string option \<Rightarrow> string option" where
  "sp_key_gen_cmd algo priv pub =
     (let pkey = '' -out '' @ quoted priv @ '' && openssl pkey -in '' @ quoted priv @ '' -pubout -out '' @ quoted pub in
      if algo = SP_ASYM_RSA_2048
      then Some (cstr 16384 (''openssl genpkey -quiet -algorithm RSA -pkeyopt rsa_keygen_bits:2048'' @ pkey))
      else if algo = SP_ASYM_RSA_4096
      then Some (cstr 16384 (''openssl genpkey -quiet -algorithm RSA -pkeyopt rsa_keygen_bits:4096'' @ pkey))
      else if algo = SP_ASYM_ECDSA_P256
      then Some (cstr 16384 (''openssl genpkey -quiet -algorithm EC -pkeyopt ec_paramgen_curve:P-256'' @ pkey))
      else None)"

text \<open>Run a command with its output taken away, when there are names for it.\<close>

definition run_quiet :: "shell_fun \<Rightarrow> string \<Rightarrow> string option \<Rightarrow> string option \<Rightarrow> int io" where
  "run_quiet sh cmd gout gerr =
     (if gout \<noteq> None \<and> gerr \<noteq> None
      then andthen (sp_sh sh cmd gout gerr) (\<lambda>rc. andthen (unlinks [gout, gerr]) (\<lambda>_. ret rc))
      else sp_sh sh cmd None None)"

definition read_pem :: "string option \<Rightarrow> string option io" where
  "read_pem p = andthen (sp_read_text p 16384) (\<lambda>n.
     ret (case n of Inl _ \<Rightarrow> None | Inr bs \<Rightarrow> if bs = [] then None else Some (c_text bs)))"

text \<open>The private and the public key, before the ring is entered.\<close>

definition gen_pems :: "shell_fun \<Rightarrow> int \<Rightarrow> (string \<times> string) io" where
  "gen_pems sh algo =
     (if \<not> supported algo then fail SP_ENOTSUP
      else andthen sp_tmp_path (\<lambda>priv. andthen sp_tmp_path (\<lambda>pub.
        if priv = None \<or> pub = None then fail SP_EIO
        else (case sp_key_gen_cmd algo priv pub of
                None \<Rightarrow> fail SP_ENOTSUP
              | Some cmd \<Rightarrow>
                  andthen sp_tmp_path (\<lambda>gout. andthen sp_tmp_path (\<lambda>gerr.
                  andthen (run_quiet sh cmd gout gerr) (\<lambda>rc.
                    cleaning [priv, pub]
                      (if rc \<noteq> 0 then fail SP_EIO
                       else andthen may_fail (\<lambda>ok1. andthen may_fail (\<lambda>ok2.
                         if \<not> ok1 \<or> \<not> ok2 then fail SP_ENOMEM
                         else andthen (read_pem priv) (\<lambda>a. andthen (read_pem pub) (\<lambda>b.
                           case (a, b) of (Some a, Some b) \<Rightarrow> ret (a, b) | _ \<Rightarrow> fail SP_EIO))))))))))))"

definition sp_gen_key_pair ::
  "shell_fun \<Rightarrow> int \<Rightarrow> string option \<Rightarrow> nat \<Rightarrow> key_ring \<Rightarrow> spw \<Rightarrow> (int + 32 word) outcome \<times> key_ring \<times> spw" where
  "sp_gen_key_pair sh algo desc now r w =
     (case gen_pems sh algo w of
        (Fault, w1) \<Rightarrow> (Fault, r, w1)
      | (Ret (Inl e), w1) \<Rightarrow> (Ret (Inl e), r, w1)
      | (Ret (Inr (priv, pub)), w1) \<Rightarrow> enter_key algo desc priv pub now r w1)"

text \<open>The public key of a private key that is given.\<close>

definition derive_pub :: "shell_fun \<Rightarrow> int \<Rightarrow> string \<Rightarrow> string io" where
  "derive_pub sh algo priv_pem =
     (if \<not> supported algo then fail SP_ENOTSUP
      else andthen sp_tmp_path (\<lambda>priv. andthen sp_tmp_path (\<lambda>pub.
        if priv = None \<or> pub = None then fail SP_EIO
        else cleaning [priv, pub]
          (andthen (sp_write_all priv (chars_bytes priv_pem)) (\<lambda>rc.
             if rc \<noteq> SP_OK then fail SP_EIO
             else andthen (sp_sh sh (cstr 16384 (''openssl pkey -in '' @ quoted priv @ '' -pubout -out '' @ quoted pub)) None None) (\<lambda>rc.
               if rc \<noteq> 0 then fail SP_EINVAL
               else andthen (malloc_or SP_ENOMEM) (\<lambda>_.
                 andthen (read_pem pub) (\<lambda>b. case b of None \<Rightarrow> fail SP_EIO | Some b \<Rightarrow> ret b))))))))"

definition sp_import_key_pair ::
  "shell_fun \<Rightarrow> int \<Rightarrow> string option \<Rightarrow> string option \<Rightarrow> nat \<Rightarrow> key_ring \<Rightarrow> spw \<Rightarrow> (int + 32 word) outcome \<times> key_ring \<times> spw" where
  "sp_import_key_pair sh algo desc priv_pem now r w =
     (case priv_pem of
        None \<Rightarrow> (Ret (Inl SP_EINVAL), r, w)
      | Some priv \<Rightarrow>
          (case derive_pub sh algo priv w of
             (Fault, w1) \<Rightarrow> (Fault, r, w1)
           | (Ret (Inl e), w1) \<Rightarrow> (Ret (Inl e), r, w1)
           | (Ret (Inr pub), w1) \<Rightarrow> enter_key algo desc priv pub now r w1))"

section \<open>Using the ring\<close>

definition sp_get_public_key :: "32 word \<Rightarrow> nat option \<Rightarrow> key_ring \<Rightarrow> int + string" where
  "sp_get_public_key i cap r =
     (case cap of
        None \<Rightarrow> Inl SP_EINVAL
      | Some cap \<Rightarrow>
          (case sp_key_find i True r of
             (rc, Some e) \<Rightarrow>
               if rc \<noteq> SP_OK then Inl rc else if cap < length (ke_pub e) + 1 then Inl SP_ENOMEM else Inr (ke_pub e)
           | (rc, None) \<Rightarrow> Inl rc))"

definition sp_export_private_key :: "32 word \<Rightarrow> nat option \<Rightarrow> key_ring \<Rightarrow> int + string" where
  "sp_export_private_key i cap r =
     (case cap of
        None \<Rightarrow> Inl SP_EINVAL
      | Some cap \<Rightarrow>
          (case sp_key_find i False r of
             (rc, Some e) \<Rightarrow>
               if rc \<noteq> SP_OK then Inl rc else if cap < length (ke_priv e) + 1 then Inl SP_ENOMEM else Inr (ke_priv e)
           | (rc, None) \<Rightarrow> Inl rc))"

definition sp_revoke_key :: "32 word \<Rightarrow> key_ring \<Rightarrow> int \<times> key_ring" where
  "sp_revoke_key i r =
     (case sp_key_find i False r of
        (rc, None) \<Rightarrow> (rc, r)
      | (rc, Some e) \<Rightarrow> (rc, r\<lparr>kr_keys := update_first (\<lambda>e. ke_id e = i) (\<lambda>e. e\<lparr>ke_revoked := True\<rparr>) (kr_keys r)\<rparr>))"

definition sp_destroy_key :: "32 word \<Rightarrow> key_ring \<Rightarrow> int \<times> key_ring" where
  "sp_destroy_key i r =
     (if \<exists>e \<in> set (kr_keys r). ke_id e = i then (SP_OK, r\<lparr>kr_keys := remove_first (\<lambda>e. ke_id e = i) (kr_keys r)\<rparr>)
      else (SP_ENOTFOUND, r))"

definition sp_keys_cleanup :: "key_ring \<Rightarrow> key_ring" where
  "sp_keys_cleanup r = r\<lparr>kr_keys := []\<rparr>"

definition key_line :: "key_entry \<Rightarrow> string" where
  "key_line e =
     show_nat (unat (ke_id e)) @ [TAB] @
     (if ke_algo e = SP_ASYM_RSA_2048 then ''RSA-2048'' else if ke_algo e = SP_ASYM_RSA_4096 then ''RSA-4096'' else ''ECDSA-P256'') @
     [TAB] @ (if ke_revoked e then ''REVOKED'' else ''ACTIVE'') @ [TAB] @ ke_desc e @ [NL]"

text \<open>The code and what is in the buffer then: a line that does not fit is cut.\<close>

fun list_loop :: "nat \<Rightarrow> string \<Rightarrow> key_entry list \<Rightarrow> int \<times> string" where
  "list_loop cap text [] = (SP_OK, text)"
| "list_loop cap text (e # es) =
     (if cap - length text \<le> length (key_line e) then (SP_ENOMEM, text @ cstr (cap - length text) (key_line e))
      else list_loop cap (text @ key_line e) es)"

definition sp_list_keys :: "nat option \<Rightarrow> key_ring \<Rightarrow> (int \<times> string) outcome" where
  "sp_list_keys cap r =
     (case cap of
        None \<Rightarrow> Ret (SP_EINVAL, [])
      | Some cap \<Rightarrow> if cap = 0 then Fault else Ret (list_loop cap [] (kr_keys r)))"

section \<open>Signatures\<close>

definition sp_sign :: "shell_fun \<Rightarrow> 32 word \<Rightarrow> byte list option \<Rightarrow> nat option \<Rightarrow> key_ring \<Rightarrow> string io" where
  "sp_sign sh i data cap r =
     (case (data, cap) of
        (Some data, Some cap) \<Rightarrow>
          (case sp_key_find i True r of
             (rc, None) \<Rightarrow> fail rc
           | (rc, Some e) \<Rightarrow>
               if rc \<noteq> SP_OK then fail rc
               else andthen (malloc_or SP_ENOMEM) (\<lambda>_.
                 andthen sp_tmp_path (\<lambda>inpath. andthen sp_tmp_path (\<lambda>keypath. andthen sp_tmp_path (\<lambda>sigpath.
                   if inpath = None \<or> keypath = None \<or> sigpath = None then fail SP_EIO
                   else andthen (sp_write_all inpath data) (\<lambda>rc.
                     if rc \<noteq> SP_OK then fail SP_EIO
                     else andthen (sp_write_all keypath (chars_bytes (ke_priv e))) (\<lambda>rc.
                       if rc \<noteq> SP_OK then fail SP_EIO
                       else andthen (cleaning [inpath, keypath, sigpath]
                         (andthen (sp_sh sh (cstr 16384 (''openssl dgst -sha256 -sign '' @ quoted keypath @ '' -out '' @
                             quoted sigpath @ CHR '' '' # quoted inpath)) None None) (\<lambda>rc.
                            if rc \<noteq> 0 then fail SP_EIO
                            else andthen (sp_read_text sigpath 8192) (\<lambda>n.
                              case n of Inl _ \<Rightarrow> fail SP_EIO | Inr bs \<Rightarrow> if bs = [] then fail SP_EIO else ret bs))))
                         (\<lambda>sg. sp_b64_encode sh sg cap))))))))
      | _ \<Rightarrow> fail SP_EINVAL)"

text \<open>Whether the signature is valid.\<close>

definition sp_verify :: "shell_fun \<Rightarrow> 32 word \<Rightarrow> byte list option \<Rightarrow> string option \<Rightarrow> key_ring \<Rightarrow> bool io" where
  "sp_verify sh i data sig_b64 r =
     (case (data, sig_b64) of
        (Some data, Some sig_b64) \<Rightarrow>
          (case sp_key_find i True r of
             (rc, None) \<Rightarrow> fail rc
           | (rc, Some e) \<Rightarrow>
               if rc \<noteq> SP_OK then fail rc
               else andthen (malloc_or SP_ENOMEM) (\<lambda>_.
                 andthen sp_tmp_path (\<lambda>inpath. andthen sp_tmp_path (\<lambda>keypath. andthen sp_tmp_path (\<lambda>sigpath.
                 andthen sp_tmp_path (\<lambda>outpath. andthen sp_tmp_path (\<lambda>errpath.
                   if inpath = None \<or> keypath = None \<or> sigpath = None \<or> outpath = None \<or> errpath = None then fail SP_EIO
                   else andthen (sp_write_all inpath data) (\<lambda>rc.
                     if rc \<noteq> SP_OK then fail SP_EIO
                     else andthen (sp_write_all keypath (chars_bytes (ke_pub e))) (\<lambda>rc.
                       if rc \<noteq> SP_OK then fail SP_EIO
                       else cleaning [inpath, keypath, sigpath, outpath, errpath]
                         (andthen (sp_b64_decode sh sig_b64 8192) (\<lambda>sg.
                            andthen (sp_write_all sigpath sg) (\<lambda>rc.
                              if rc \<noteq> SP_OK then fail SP_EIO
                              else andthen (sp_sh sh (cstr 16384 (''openssl dgst -sha256 -verify '' @ quoted keypath @ '' -signature '' @
                                  quoted sigpath @ CHR '' '' # quoted inpath)) outpath errpath) (\<lambda>vrc. ret (vrc = 0))))))))))))))
      | _ \<Rightarrow> fail SP_EINVAL)"

end
