(* ===== verification/SpCrypto.thy ===== *)
theory SpCrypto
  imports SpShell
begin

text \<open>
  The authenticated encryption and the random numbers of the SP plugin, \<^verbatim>\<open>sp/src/sp_crypto.c\<close>: AES-256-CBC
  and HMAC-SHA-256, both by the \<^verbatim>\<open>openssl\<close> program, over worlds and operations of \<^verbatim>\<open>SpShell\<close>.  The lengths
  of buffers are those of their contents, except for the capacities of output buffers.
\<close>

abbreviation SP_CBC_IV_LEN :: nat where "SP_CBC_IV_LEN \<equiv> 16"
abbreviation SP_HMAC_LEN :: nat where "SP_HMAC_LEN \<equiv> 32"

section \<open>Operations\<close>

definition sp_derive_sub :: "shell_fun \<Rightarrow> byte list \<Rightarrow> byte \<Rightarrow> byte list io" where
  "sp_derive_sub sh key tag =
     (if 2000 < length key then fail SP_EINVAL else sp_hash_compute sh 1 (Some (key @ [tag])) 32)"

text \<open>The hexadecimal key goes to a buffer of 8192 bytes, one too few for 4096 bytes and a NUL.\<close>

definition sp_hmac_sha256 :: "shell_fun \<Rightarrow> byte list \<Rightarrow> byte list \<Rightarrow> byte list io" where
  "sp_hmac_sha256 sh key data =
     (if key = [] \<or> 4096 < length key then fail SP_EINVAL
      else if 8192 < 2 * length key + 1 then (\<lambda>w. (Fault, w))
      else
        andthen sp_tmp_path (\<lambda>inpath.
          if inpath = None then fail SP_EIO
          else andthen (sp_write_all inpath data) (\<lambda>rc.
            if rc \<noteq> SP_OK then fail SP_EIO
            else andthen sp_tmp_path (\<lambda>outpath.
              andthen (sp_sh sh (cstr 16384 (''openssl dgst -sha256 -mac HMAC -macopt hexkey:'' @ sp_to_hex key @ '' -r '' @
                  quoted inpath)) outpath None) (\<lambda>rc.
                if rc \<noteq> 0 then andthen (unlinks [inpath, outpath]) (\<lambda>_. fail SP_EIO)
                else andthen (sp_read_text outpath 512) (\<lambda>n.
                  andthen (unlinks [inpath, outpath]) (\<lambda>_.
                    case n of
                      Inl _ \<Rightarrow> fail SP_EIO
                    | Inr bs \<Rightarrow>
                        if bs = [] then fail SP_EIO
                        else
                          let tok = first_word (c_text bs) in
                          if length tok \<noteq> 64 then fail SP_EIO
                          else (case sp_from_hex tok 32 of
                                  Inl _ \<Rightarrow> fail SP_EIO
                                | Inr d \<Rightarrow> if length d \<noteq> 32 then fail SP_EIO else ret d))))))))"

definition rand_blank :: "char \<Rightarrow> bool" where
  "rand_blank c \<longleftrightarrow> c = NL \<or> c = CR \<or> c = CHR '' '' \<or> c = TAB"

definition sp_random :: "shell_fun \<Rightarrow> nat \<Rightarrow> byte list io" where
  "sp_random sh len =
     andthen sp_tmp_path (\<lambda>outpath.
       if outpath = None then fail SP_EIO
       else andthen (sp_sh sh (cstr 128 (''openssl rand -hex '' @ show_nat len)) outpath None) (\<lambda>rc.
         if rc \<noteq> 0 then andthen (unlinks [outpath]) (\<lambda>_. fail SP_EIO)
         else andthen (sp_read_text outpath 8192) (\<lambda>n.
           andthen (unlinks [outpath]) (\<lambda>_.
             case n of
               Inl _ \<Rightarrow> fail SP_EIO
             | Inr bs \<Rightarrow>
                 if bs = [] then fail SP_EIO
                 else (case sp_from_hex (takeWhile (\<lambda>c. c \<noteq> NULC) (rtrim rand_blank (bytes_chars bs))) len of
                         Inl _ \<Rightarrow> fail SP_EIO
                       | Inr d \<Rightarrow> if length d \<noteq> len then fail SP_EIO else ret d)))))"

definition or_eio :: "'a io \<Rightarrow> 'a io" where
  "or_eio m = (\<lambda>w. case m w of (Ret (Inl _), w1) \<Rightarrow> (Ret (Inl SP_EIO), w1) | r \<Rightarrow> r)"

definition aad_bytes :: "byte list option \<Rightarrow> byte list" where
  "aad_bytes aad = (case aad of None \<Rightarrow> [] | Some a \<Rightarrow> a)"

definition mac_input :: "byte list option \<Rightarrow> byte list \<Rightarrow> byte list \<Rightarrow> byte list" where
  "mac_input aad iv ct = aad_bytes aad @ iv @ ct"

definition read_file :: "string option \<Rightarrow> byte list option io" where
  "read_file p = (\<lambda>w. (Ret (Inr (Option.bind p (sw_files w))), w))"

definition enc_cmd :: "string \<Rightarrow> byte list \<Rightarrow> byte list \<Rightarrow> string option \<Rightarrow> string option \<Rightarrow> string" where
  "enc_cmd mode key iv inpath outpath =
     cstr 16384 (''openssl enc '' @ mode @ ''-aes-256-cbc -K '' @ sp_to_hex key @ '' -iv '' @ sp_to_hex iv @ '' -in '' @
       quoted inpath @ '' -out '' @ quoted outpath)"

text \<open>The part of encryption between the temporary files and their removal; the size of a file is compared in 32 bits.\<close>

definition encrypt_files ::
  "shell_fun \<Rightarrow> byte list \<Rightarrow> byte list \<Rightarrow> byte list \<Rightarrow> byte list option \<Rightarrow> byte list \<Rightarrow> nat \<Rightarrow> nat
     \<Rightarrow> string option \<Rightarrow> string option \<Rightarrow> (byte list \<times> byte list) io" where
  "encrypt_files sh enc_key mac_key iv aad pt ct_cap tag_cap inpath ctpath =
     andthen (sp_write_all inpath pt) (\<lambda>rc.
       if rc \<noteq> SP_OK then fail SP_EIO
       else andthen (sp_sh sh (enc_cmd [] enc_key iv inpath ctpath) None None) (\<lambda>rc.
         if rc \<noteq> 0 then fail SP_EIO
         else andthen (read_file ctpath) (\<lambda>ct.
           case ct of
             None \<Rightarrow> fail SP_EIO
           | Some ct \<Rightarrow>
               if ct = [] \<or> ct_cap < length ct mod 2 ^ 32 then fail SP_ENOMEM
               else if ct_cap < length ct then (\<lambda>w. (Fault, w))
               else if 0x100000 < length (mac_input aad iv ct) then fail SP_ENOMEM
               else andthen (malloc_or SP_ENOMEM) (\<lambda>_.
                 andthen (sp_hmac_sha256 sh mac_key (mac_input aad iv ct)) (\<lambda>mac.
                   if tag_cap < SP_HMAC_LEN then fail SP_ENOMEM else ret (ct, mac))))))"

definition sp_encrypt ::
  "shell_fun \<Rightarrow> byte list option \<Rightarrow> byte list option \<Rightarrow> byte list option \<Rightarrow> byte list option \<Rightarrow> nat option \<Rightarrow> nat option
     \<Rightarrow> (byte list \<times> byte list) io" where
  "sp_encrypt sh key iv aad pt ct_cap tag_cap =
     (case (key, pt, ct_cap, tag_cap) of
        (Some key, Some pt, Some ct_cap, Some tag_cap) \<Rightarrow>
          if key = [] \<or> pt = [] then fail SP_EINVAL
          else
            andthen (or_eio (sp_derive_sub sh key 0)) (\<lambda>enc_key.
            andthen (or_eio (sp_derive_sub sh key 1)) (\<lambda>mac_key.
            andthen (case iv of
                       Some iv \<Rightarrow> if length iv \<noteq> SP_CBC_IV_LEN then fail SP_EINVAL else ret iv
                     | None \<Rightarrow> or_eio (sp_random sh SP_CBC_IV_LEN)) (\<lambda>iv.
            andthen sp_tmp_path (\<lambda>inpath.
            andthen sp_tmp_path (\<lambda>ctpath.
              if inpath = None \<or> ctpath = None then fail SP_EIO
              else cleaning [inpath, ctpath]
                (encrypt_files sh enc_key mac_key iv aad pt ct_cap tag_cap inpath ctpath))))))
      | _ \<Rightarrow> fail SP_EINVAL)"

definition decrypt_files ::
  "shell_fun \<Rightarrow> byte list \<Rightarrow> byte list \<Rightarrow> byte list \<Rightarrow> nat \<Rightarrow> string option \<Rightarrow> string option \<Rightarrow> byte list io" where
  "decrypt_files sh enc_key iv ct pt_cap inpath ptpath =
     andthen (sp_write_all inpath ct) (\<lambda>rc.
       if rc \<noteq> SP_OK then fail SP_EIO
       else andthen (sp_sh sh (enc_cmd ''-d '' enc_key iv inpath ptpath) None None) (\<lambda>rc.
         if rc \<noteq> 0 then fail SP_EIO
         else andthen (read_file ptpath) (\<lambda>pt.
           case pt of
             None \<Rightarrow> fail SP_EIO
           | Some pt \<Rightarrow>
               if pt_cap < length pt mod 2 ^ 32 then fail SP_ENOMEM
               else if pt_cap < length pt then (\<lambda>w. (Fault, w))
               else ret pt)))"

definition sp_decrypt ::
  "shell_fun \<Rightarrow> byte list option \<Rightarrow> byte list option \<Rightarrow> byte list option \<Rightarrow> byte list option \<Rightarrow> byte list option \<Rightarrow> nat option
     \<Rightarrow> byte list io" where
  "sp_decrypt sh key iv aad ct tag pt_cap =
     (case (key, ct, tag, pt_cap) of
        (Some key, Some ct, Some tag, Some pt_cap) \<Rightarrow>
          if key = [] \<or> ct = [] \<or> tag = [] then fail SP_EINVAL
          else (case iv of
                  None \<Rightarrow> fail SP_EINVAL
                | Some iv \<Rightarrow>
                    if length iv \<noteq> SP_CBC_IV_LEN then fail SP_EINVAL
                    else
                      andthen (or_eio (sp_derive_sub sh key 0)) (\<lambda>enc_key.
                      andthen (or_eio (sp_derive_sub sh key 1)) (\<lambda>mac_key.
                        if 0x100000 < length (mac_input aad iv ct) then fail SP_ENOMEM
                        else
                          andthen (malloc_or SP_ENOMEM) (\<lambda>_.
                          andthen (sp_hmac_sha256 sh mac_key (mac_input aad iv ct)) (\<lambda>mac.
                            if length tag < SP_HMAC_LEN then fail SP_EAUTH
                            else if sp_ct_eq mac tag SP_HMAC_LEN \<noteq> 0 then fail SP_EAUTH
                            else
                              andthen sp_tmp_path (\<lambda>inpath.
                              andthen sp_tmp_path (\<lambda>ctpath.
                              andthen sp_tmp_path (\<lambda>ptpath.
                                if inpath = None \<or> ctpath = None \<or> ptpath = None then fail SP_EIO
                                else cleaning [inpath, ctpath, ptpath]
                                  (decrypt_files sh enc_key iv ct pt_cap inpath ptpath)))))))))
      | _ \<Rightarrow> fail SP_EINVAL)"

end
