(* ===== verification/SpCryptoCorrect.thy ===== *)
theory SpCryptoCorrect
  imports SpCrypto
begin

text \<open>
  What the encryption of the SP plugin computes when the programs it runs keep their contracts: the
  operations of \<^verbatim>\<open>sp/src/sp_crypto.c\<close> as functions of the digest \<open>H\<close>, the keyed digest \<open>M\<close> and the
  cipher \<open>E\<close>, \<open>D\<close>; round trip, authentication, and what the authentication does not cover.
\<close>

section \<open>The programs they run\<close>

definition hmac_ok :: "shell_fun \<Rightarrow> (byte list \<Rightarrow> byte list \<Rightarrow> byte list) \<Rightarrow> bool" where
  "hmac_ok sh M \<longleftrightarrow>
     (\<forall>cmd k p op fs d. length k = 32 \<longrightarrow> fs p = Some d \<longrightarrow> op \<noteq> p \<longrightarrow>
        sh_tokens cmd = Some (map Word [''openssl'', ''dgst'', ''-sha256'', ''-mac'', ''HMAC'', ''-macopt'',
          ''hexkey:'' @ sp_to_hex k, ''-r'', p] @ [Into, Word op]) \<longrightarrow>
        sh cmd fs = (0, fs(op \<mapsto> dgst_text (M k d) p))) \<and>
     (\<forall>k d. length (M k d) = 32)"

definition enc_words :: "string list \<Rightarrow> byte list \<Rightarrow> byte list \<Rightarrow> string \<Rightarrow> string \<Rightarrow> token list" where
  "enc_words mode k iv p op = map Word ([''openssl'', ''enc''] @ mode @ [''-aes-256-cbc'', ''-K'', sp_to_hex k, ''-iv'',
     sp_to_hex iv, ''-in'', p, ''-out'', op])"

definition cipher_ok ::
  "shell_fun \<Rightarrow> (byte list \<Rightarrow> byte list \<Rightarrow> byte list \<Rightarrow> byte list) \<Rightarrow> (byte list \<Rightarrow> byte list \<Rightarrow> byte list \<Rightarrow> byte list option) \<Rightarrow> bool" where
  "cipher_ok sh E D \<longleftrightarrow>
     (\<forall>cmd k iv p op fs d. length k = 32 \<longrightarrow> length iv = 16 \<longrightarrow> fs p = Some d \<longrightarrow> op \<noteq> p \<longrightarrow>
        (sh_tokens cmd = Some (enc_words [] k iv p op) \<longrightarrow> sh cmd fs = (0, fs(op \<mapsto> E k iv d))) \<and>
        (sh_tokens cmd = Some (enc_words [''-d''] k iv p op) \<longrightarrow>
           (case D k iv d of None \<Rightarrow> fst (sh cmd fs) \<noteq> 0 | Some x \<Rightarrow> sh cmd fs = (0, fs(op \<mapsto> x)))))"

lemma cipher_okD:
  assumes "cipher_ok sh E D" and "length k = 32" and "length iv = 16" and "fs p = Some d" and "op \<noteq> p"
  shows "sh_tokens cmd = Some (enc_words [] k iv p op) \<Longrightarrow> sh cmd fs = (0, fs(op \<mapsto> E k iv d))"
    and "sh_tokens cmd = Some (enc_words [''-d''] k iv p op) \<Longrightarrow> D k iv d = None \<Longrightarrow> fst (sh cmd fs) \<noteq> 0"
    and "sh_tokens cmd = Some (enc_words [''-d''] k iv p op) \<Longrightarrow> D k iv d = Some x \<Longrightarrow> sh cmd fs = (0, fs(op \<mapsto> x))"
  using assms(1) [unfolded cipher_ok_def, rule_format, of k iv fs p d op cmd] assms(2-5) by simp_all

text \<open>
  Cipher block chaining with padding: decryption inverts encryption, and without its first block a
  ciphertext decrypts, with that block as the IV, to the plaintext without its first block.
\<close>

definition cbc_ok ::
  "(byte list \<Rightarrow> byte list \<Rightarrow> byte list \<Rightarrow> byte list) \<Rightarrow> (byte list \<Rightarrow> byte list \<Rightarrow> byte list \<Rightarrow> byte list option) \<Rightarrow> bool" where
  "cbc_ok E D \<longleftrightarrow>
     (\<forall>k iv x. length iv = 16 \<longrightarrow> E k iv x \<noteq> [] \<and> length (E k iv x) \<le> length x + 16 \<and> D k iv (E k iv x) = Some x) \<and>
     (\<forall>k iv b c x. length iv = 16 \<longrightarrow> length b = 16 \<longrightarrow> c \<noteq> [] \<longrightarrow> D k iv (b @ c) = Some x \<longrightarrow> D k b c = Some (drop 16 x))"

section \<open>What they compute\<close>

definition subkey :: "(string \<Rightarrow> byte list \<Rightarrow> byte list) \<Rightarrow> byte list \<Rightarrow> byte \<Rightarrow> byte list" where
  "subkey H key tag = H ''sha256'' (key @ [tag])"

lemma length_subkey:
  assumes "dgst_ok sh H"
  shows "length (subkey H key tag) = 32"
proof -
  have "sp_hash_flag 1 = Some ''sha256''" by (simp add: sp_hash_flag_def)
  with assms have "length (H ''sha256'' (key @ [tag])) = sp_hash_outlen 1" unfolding dgst_ok_def by blast
  then show ?thesis by (simp add: subkey_def sp_hash_outlen_def)
qed

lemma derive_result:
  assumes "dgst_ok sh H" and "length key \<le> 2000" and "ready (p # t # ps) w"
  obtains w1 where "sp_derive_sub sh key tag w = (Ret (Inr (subkey H key tag)), w1)" and "ready ps w1"
    and "sw_files w1 = (sw_files w)(p := None, t := None)"
proof -
  have "sp_hash_flag 1 = Some ''sha256''" and "sp_hash_outlen 1 \<le> 32"
    by (simp_all add: sp_hash_flag_def sp_hash_outlen_def)
  from hash_compute_result [OF assms(1) this(1) _ assms(3) this(2), of "key @ [tag]"]
  show thesis
    using that assms(2) by (auto simp: sp_derive_sub_def subkey_def)
qed

lemma hmac_tokens:
  assumes "path_ok p" and "sh_bare q = Some t" and "t \<noteq> []"
  shows "sh_tokens (''openssl dgst -sha256 -mac HMAC -macopt hexkey:'' @ sp_to_hex k @ '' -r '' @ quoted (Some p) @ '' > '' @ q) =
    Some (map Word [''openssl'', ''dgst'', ''-sha256'', ''-mac'', ''HMAC'', ''-macopt'', ''hexkey:'' @ sp_to_hex k, ''-r'', p] @
      [Into, Word t])"
proof -
  have "sh_bare (quoted (Some p)) = Some p" and "p \<noteq> []"
    using quoted_path(1) [OF assms(1)] assms(1) by (simp_all add: path_ok_def)
  then show ?thesis
    by (simp add: sh_tokens_def plain_char_def lex_plain_some [OF hex_plain] lex_quoted(1) lex_quoted(2) [OF assms(2,3)])
qed

lemma enc_tokens:
  assumes "path_ok p" and "path_ok t" and "length k = 32" and "length iv = 16"
  shows "sh_tokens (enc_cmd [] k iv (Some p) (Some t)) = Some (enc_words [] k iv p t)"
    and "sh_tokens (enc_cmd ''-d '' k iv (Some p) (Some t)) = Some (enc_words [''-d''] k iv p t)"
    and "length (enc_cmd [] k iv (Some p) (Some t)) \<le> 4000"
    and "length (enc_cmd ''-d '' k iv (Some p) (Some t)) \<le> 4000"
proof -
  have p: "sh_bare (quoted (Some p)) = Some p" "p \<noteq> []" "length (quoted (Some p)) \<le> 802"
    and t: "sh_bare (quoted (Some t)) = Some t" "t \<noteq> []" "length (quoted (Some t)) \<le> 802"
    using quoted_path [OF assms(1)] quoted_path [OF assms(2)] assms(1,2) by (simp_all add: path_ok_def)
  have ne: "sp_to_hex k \<noteq> []" "sp_to_hex iv \<noteq> []"
    using assms(3,4) by (auto simp flip: length_greater_0_conv)
  note hex = lex_word [OF hex_plain ne(1)] lex_word [OF hex_plain ne(2)]
  show "sh_tokens (enc_cmd [] k iv (Some p) (Some t)) = Some (enc_words [] k iv p t)"
    and "sh_tokens (enc_cmd ''-d '' k iv (Some p) (Some t)) = Some (enc_words [''-d''] k iv p t)"
    and "length (enc_cmd [] k iv (Some p) (Some t)) \<le> 4000"
    and "length (enc_cmd ''-d '' k iv (Some p) (Some t)) \<le> 4000"
    using p t assms(3,4)
    by (simp_all add: enc_cmd_def enc_words_def cstr_id sh_tokens_def plain_char_def hex lex_quoted)
qed

lemma hmac_result:
  assumes ok: "hmac_ok sh M" and key: "length key = 32" and r: "ready (p # t # ps) w"
  obtains w1 where "sp_hmac_sha256 sh key d w = (Ret (Inr (M key d)), w1)" and "ready ps w1"
    and "sw_files w1 = (sw_files w)(p := None, t := None)"
proof -
  let ?cmd = "''openssl dgst -sha256 -mac HMAC -macopt hexkey:'' @ sp_to_hex key @ '' -r '' @ quoted (Some p)"
  have pp: "path_ok p" using readyD [OF r] by simp
  have len: "length ?cmd \<le> 4000"
    using quoted_path(2) [OF pp] key by simp
  have law: "sh (?cmd @ '' > '' @ q) fs = (0, fs(t \<mapsto> dgst_text (M key d) p))"
    if "sh_bare q = Some t" "t \<noteq> []" "t \<noteq> p" "fs p = Some d" for q fs
    using ok key that(3,4) hmac_tokens [OF pp that(1,2), of key] unfolding hmac_ok_def by simp
  obtain w1 w2 w3 w4 where run: "sp_tmp_path w = (Ret (Inr (Some p)), w1)" "sp_write_all (Some p) d w1 = (Ret (Inr SP_OK), w2)"
    "sp_tmp_path w2 = (Ret (Inr (Some t)), w3)" "sp_sh sh ?cmd (Some t) None w3 = (Ret (Inr SP_OK), w4)"
    "\<forall>cap. 0 < cap \<longrightarrow> sp_read_text (Some t) cap w4 = (Ret (Inr (Inr (take (cap - 1) (dgst_text (M key d) p)))), w4)" "ready ps w4"
    "sw_files (unlink1 (Some t) (unlink1 (Some p) w4)) = (sw_files w)(p := None, t := None)"
    using filter_run [where sh = sh and d = d and x = "dgst_text (M key d) p", OF r len law] .
  have "cstr 16384 ?cmd = ?cmd" using len by (intro cstr_id) linarith
  with run(4) have run2: "sp_sh sh (cstr 16384 ?cmd) (Some t) None w3 = (Ret (Inr SP_OK), w4)" by (simp only:)
  have l: "length (M key d) = 32" using ok unfolding hmac_ok_def by blast
  let ?bs = "take 511 (dgst_text (M key d) p)"
  have word: "first_word (c_text ?bs) = sp_to_hex (M key d)"
    using read_hex [of "M key d" 512 "''*'' @ p @ [NL]"] l by (simp add: dgst_text_def)
  have ne: "?bs \<noteq> []" unfolding take_eq_Nil by (simp add: dgst_text_def chars_bytes_def)
  have "sp_hmac_sha256 sh key d w = (Ret (Inr (M key d)), unlink1 (Some t) (unlink1 (Some p) w4))"
    using word ne l sp_hex_roundtrip [of "M key d" 32] key
    by (auto simp: sp_hmac_sha256_def Let_def andthen_app run(1-3) run2 [simplified] run(5) [rule_format, of 512])
  then show thesis by (rule that) (use run(6,7) in simp_all)
qed

lemma encrypt_files_result:
  assumes mac: "hmac_ok sh M" and enc: "cipher_ok sh E D"
    and len: "length ek = 32" "length mk = 32" "length iv = 16"
    and paths: "path_ok p" "path_ok c" "c \<noteq> p" and r: "ready (a # b # ps) w"
    and fits: "E ek iv pt \<noteq> []" "length (E ek iv pt) \<le> ct_cap" "length (mac_input aad iv (E ek iv pt)) \<le> 0x100000" "32 \<le> tag_cap"
  obtains w1 where "encrypt_files sh ek mk iv aad pt ct_cap tag_cap (Some p) (Some c) w =
      (Ret (Inr (E ek iv pt, M mk (mac_input aad iv (E ek iv pt)))), w1)" and "ready ps w1"
    and "sw_files w1 = (sw_files w)(p \<mapsto> pt, c \<mapsto> E ek iv pt, a := None, b := None)"
proof -
  obtain w1 where wr: "sp_write_all (Some p) pt w = (Ret (Inr SP_OK), w1)" "ready (a # b # ps) w1" "sw_files w1 = (sw_files w)(p \<mapsto> pt)"
    using write_ready [OF r] .
  note tk = enc_tokens [OF paths(1,2) len(1,3)]
  let ?cmd = "enc_cmd [] ek iv (Some p) (Some c)"
  have "sh ?cmd (sw_files w1) = (0, (sw_files w1)(c \<mapsto> E ek iv pt))"
    by (rule cipher_okD(1) [OF enc len(1,3) _ paths(3) tk(1)]) (simp add: wr(3))
  then have run: "sp_sh sh ?cmd None None w1 = (Ret (Inr 0), w1\<lparr>sw_files := (sw_files w1)(c \<mapsto> E ek iv pt)\<rparr>)"
    by (simp add: sp_sh_plain [OF tk(3)])
  let ?w2 = "w1\<lparr>sw_files := (sw_files w1)(c \<mapsto> E ek iv pt)\<rparr>"
  have "ready (a # b # ps) ?w2" using wr(2) by simp
  from malloc_ready [OF this] obtain w3 where ma: "malloc_or SP_ENOMEM ?w2 = (Ret (Inr ()), w3)"
    "ready (a # b # ps) w3" "sw_files w3 = sw_files ?w2" .
  obtain w4 where h: "sp_hmac_sha256 sh mk (mac_input aad iv (E ek iv pt)) w3 = (Ret (Inr (M mk (mac_input aad iv (E ek iv pt)))), w4)"
    "ready ps w4" "sw_files w4 = (sw_files w3)(a := None, b := None)"
    using hmac_result [OF mac len(2) ma(2)] .
  have "encrypt_files sh ek mk iv aad pt ct_cap tag_cap (Some p) (Some c) w =
      (Ret (Inr (E ek iv pt, M mk (mac_input aad iv (E ek iv pt)))), w4)"
    using fits le_trans [OF mod_less_eq_dividend fits(2), of "2 ^ 32"]
    by (simp add: encrypt_files_def andthen_app wr(1) run read_file_def ma(1) h(1) not_less)
  then show thesis by (rule that) (use h ma wr in simp_all)
qed

lemma or_eio_app: "or_eio m w = (case m w of (Ret (Inl _), w1) \<Rightarrow> (Ret (Inl SP_EIO), w1) | r \<Rightarrow> r)"
  by (simp add: or_eio_def)

text \<open>Files that were written and removed again.\<close>

lemma unset_all: "m |` (- set ps) = fold (\<lambda>p m. m(p := None)) ps m"
proof (rule sym)
  show "fold (\<lambda>p m. m(p := None)) ps m = m |` (- set ps)"
    by (induction ps arbitrary: m) (auto simp: restrict_map_def fun_eq_iff)
qed

lemma sp_encrypt_result:
  assumes dg: "dgst_ok sh H" and mac: "hmac_ok sh M" and enc: "cipher_ok sh E D"
    and key: "key \<noteq> []" "length key \<le> 2000" and iv: "length iv = 16" and pt: "pt \<noteq> []"
    and r: "ready ps w" and ps: "ps = [a, b, c, d, p, q, h, i]"
    and ct: "ct = E (subkey H key 0) iv pt"
    and fits: "ct \<noteq> []" "length ct \<le> ct_cap" "length (mac_input aad iv ct) \<le> 0x100000" "32 \<le> tag_cap"
  obtains w1 where "sp_encrypt sh (Some key) (Some iv) aad (Some pt) (Some ct_cap) (Some tag_cap) w =
      (Ret (Inr (ct, M (subkey H key 1) (mac_input aad iv ct))), w1)"
    and "sw_files w1 = sw_files w |` (- set ps)"
proof -
  obtain w1 where d0: "sp_derive_sub sh key 0 w = (Ret (Inr (subkey H key 0)), w1)" "ready [c, d, p, q, h, i] w1"
    "sw_files w1 = (sw_files w)(a := None, b := None)"
    using derive_result [OF dg key(2) r [unfolded ps]] .
  obtain w2 where d1: "sp_derive_sub sh key 1 w1 = (Ret (Inr (subkey H key 1)), w2)" "ready [p, q, h, i] w2"
    "sw_files w2 = (sw_files w1)(c := None, d := None)"
    using derive_result [OF dg key(2) d0(2)] .
  obtain w3 where t1: "sp_tmp_path w2 = (Ret (Inr (Some p)), w3)" "ready [q, h, i] w3" "sw_files w3 = (sw_files w2)(p := None)"
    using tmp_ready [OF d1(2)] .
  obtain w4 where t2: "sp_tmp_path w3 = (Ret (Inr (Some q)), w4)" "ready [h, i] w4" "sw_files w4 = (sw_files w3)(q := None)"
    using tmp_ready [OF t1(2)] .
  have paths: "path_ok p" "path_ok q" "q \<noteq> p" using readyD [OF d1(2)] readyD [OF t1(2)] by auto
  obtain w5 where e: "encrypt_files sh (subkey H key 0) (subkey H key 1) iv aad pt ct_cap tag_cap (Some p) (Some q) w4 =
      (Ret (Inr (ct, M (subkey H key 1) (mac_input aad iv ct))), w5)"
    "sw_files w5 = (sw_files w4)(p \<mapsto> pt, q \<mapsto> ct, h := None, i := None)"
    using encrypt_files_result [OF mac enc length_subkey [OF dg] length_subkey [OF dg] iv paths t2(2) fits [unfolded ct]]
    unfolding ct .
  have "sp_encrypt sh (Some key) (Some iv) aad (Some pt) (Some ct_cap) (Some tag_cap) w =
      (Ret (Inr (ct, M (subkey H key 1) (mac_input aad iv ct))), unlink1 (Some q) (unlink1 (Some p) w5))"
    using key(1) pt iv
    by (simp add: sp_encrypt_def andthen_app or_eio_app d0(1) d1(1) t1(1) t2(1) cleaning_app e(1))
  then show thesis
  proof (rule that)
    have "set ps = set [a, b, c, d, h, i, p, q]" by (auto simp: ps)
    then show "sw_files (unlink1 (Some q) (unlink1 (Some p) w5)) = sw_files w |` (- set ps)"
      by (simp only: unset_all) (simp add: e(2) t2(3) t1(3) d1(3) d0(3))
  qed
qed

lemma decrypt_files_result:
  assumes enc: "cipher_ok sh E D" and len: "length ek = 32" "length iv = 16"
    and paths: "path_ok p" "path_ok t" "t \<noteq> p" and r: "ready [] w" and dec: "D ek iv ct = Some pt" and fits: "length pt \<le> cap"
  obtains w1 where "decrypt_files sh ek iv ct cap (Some p) (Some t) w = (Ret (Inr pt), w1)"
    and "sw_files w1 = (sw_files w)(p \<mapsto> ct, t \<mapsto> pt)"
proof -
  obtain w1 where wr: "sp_write_all (Some p) ct w = (Ret (Inr SP_OK), w1)" "ready [] w1" "sw_files w1 = (sw_files w)(p \<mapsto> ct)"
    using write_ready [OF r] .
  note tk = enc_tokens [OF paths(1,2) len]
  let ?cmd = "enc_cmd ''-d '' ek iv (Some p) (Some t)"
  have "sh ?cmd (sw_files w1) = (0, (sw_files w1)(t \<mapsto> pt))"
    by (rule cipher_okD(3) [OF enc len _ paths(3) tk(2) dec]) (simp add: wr(3))
  then have run: "sp_sh sh ?cmd None None w1 = (Ret (Inr 0), w1\<lparr>sw_files := (sw_files w1)(t \<mapsto> pt)\<rparr>)"
    by (simp add: sp_sh_plain [OF tk(4)])
  have "decrypt_files sh ek iv ct cap (Some p) (Some t) w = (Ret (Inr pt), w1\<lparr>sw_files := (sw_files w1)(t \<mapsto> pt)\<rparr>)"
    using fits le_trans [OF mod_less_eq_dividend fits, of "2 ^ 32"]
    by (simp add: decrypt_files_def andthen_app wr(1) run read_file_def not_less)
  then show thesis by (rule that) (use wr in simp)
qed

lemma tag_check:
  assumes "length mac = 32"
  shows "length tag < 32 \<or> sp_ct_eq mac tag 32 \<noteq> 0 \<longleftrightarrow> take 32 tag \<noteq> mac"
  using sp_ct_eq_iff [of 32 mac tag] assms by (cases "length tag < 32") auto

text \<open>Up to the check of the tag.\<close>

definition decrypt_checked ::
  "shell_fun \<Rightarrow> byte list \<Rightarrow> byte list \<Rightarrow> byte list \<Rightarrow> byte list \<Rightarrow> nat \<Rightarrow> byte list \<Rightarrow> byte list io" where
  "decrypt_checked sh ek iv ct tag cap mac =
     (if take 32 tag \<noteq> mac then fail SP_EAUTH
      else
        andthen sp_tmp_path (\<lambda>inpath. andthen sp_tmp_path (\<lambda>ctpath. andthen sp_tmp_path (\<lambda>ptpath.
          if inpath = None \<or> ctpath = None \<or> ptpath = None then fail SP_EIO
          else cleaning [inpath, ctpath, ptpath] (decrypt_files sh ek iv ct cap inpath ptpath)))))"

lemma sp_decrypt_result:
  assumes dg: "dgst_ok sh H" and mac: "hmac_ok sh M"
    and key: "key \<noteq> []" "length key \<le> 2000" and iv: "length iv = 16" and ne: "ct \<noteq> []" "tag \<noteq> []"
    and r: "ready ([a, b, c, d, h, i] @ ps) w" and fits: "length (mac_input aad iv ct) \<le> 0x100000"
  obtains w1 where "sp_decrypt sh (Some key) (Some iv) aad (Some ct) (Some tag) (Some cap) w =
      decrypt_checked sh (subkey H key 0) iv ct tag cap (M (subkey H key 1) (mac_input aad iv ct)) w1"
    and "ready ps w1" and "sw_files w1 = sw_files w |` (- set [a, b, c, d, h, i])"
proof -
  obtain w1 where d0: "sp_derive_sub sh key 0 w = (Ret (Inr (subkey H key 0)), w1)" "ready (c # d # h # i # ps) w1"
    "sw_files w1 = (sw_files w)(a := None, b := None)"
    using derive_result [OF dg key(2) r [simplified]] .
  obtain w2 where d1: "sp_derive_sub sh key 1 w1 = (Ret (Inr (subkey H key 1)), w2)" "ready (h # i # ps) w2"
    "sw_files w2 = (sw_files w1)(c := None, d := None)"
    using derive_result [OF dg key(2) d0(2)] .
  obtain w3 where ma: "malloc_or SP_ENOMEM w2 = (Ret (Inr ()), w3)" "ready (h # i # ps) w3" "sw_files w3 = sw_files w2"
    using malloc_ready [OF d1(2)] .
  let ?mac = "M (subkey H key 1) (mac_input aad iv ct)"
  obtain w4 where h: "sp_hmac_sha256 sh (subkey H key 1) (mac_input aad iv ct) w3 = (Ret (Inr ?mac), w4)"
    "ready ps w4" "sw_files w4 = (sw_files w3)(h := None, i := None)"
    using hmac_result [OF mac length_subkey [OF dg] ma(2)] .
  have "length ?mac = 32" using mac by (simp add: hmac_ok_def)
  note check = tag_check [OF this, of tag]
  have "sp_decrypt sh (Some key) (Some iv) aad (Some ct) (Some tag) (Some cap) w =
      decrypt_checked sh (subkey H key 0) iv ct tag cap ?mac w4"
  proof (cases "take 32 tag = ?mac")
    case True
    then have "\<not> length tag < 32" and "sp_ct_eq ?mac tag 32 = 0" using check by auto
    then show ?thesis using key(1) iv ne fits True
      by (simp add: sp_decrypt_def decrypt_checked_def andthen_app or_eio_app d0(1) d1(1) ma(1) h(1))
  next
    case False
    then have "length tag < 32 \<or> sp_ct_eq ?mac tag 32 \<noteq> 0" using check by simp
    then show ?thesis using key(1) iv ne fits False
      by (elim disjE) (simp_all add: sp_decrypt_def decrypt_checked_def andthen_app or_eio_app d0(1) d1(1) ma(1) h(1))
  qed
  then show thesis
    by (rule that) (use h d1 d0 ma in \<open>simp_all add: unset_all del: set_simps\<close>)
qed

lemma decrypt_checked_result:
  assumes enc: "cipher_ok sh E D" and len: "length ek = 32" "length iv = 16"
    and r: "ready [p, q, t] w" and tag: "take 32 tag = mac" and dec: "D ek iv ct = Some pt" and fits: "length pt \<le> cap"
  obtains w1 where "decrypt_checked sh ek iv ct tag cap mac w = (Ret (Inr pt), w1)"
    and "sw_files w1 = sw_files w |` (- set [p, q, t])"
proof -
  obtain w1 where t1: "sp_tmp_path w = (Ret (Inr (Some p)), w1)" "ready [q, t] w1" "sw_files w1 = (sw_files w)(p := None)"
    using tmp_ready [OF r] .
  obtain w2 where t2: "sp_tmp_path w1 = (Ret (Inr (Some q)), w2)" "ready [t] w2" "sw_files w2 = (sw_files w1)(q := None)"
    using tmp_ready [OF t1(2)] .
  obtain w3 where t3: "sp_tmp_path w2 = (Ret (Inr (Some t)), w3)" "ready [] w3" "sw_files w3 = (sw_files w2)(t := None)"
    using tmp_ready [OF t2(2)] .
  have paths: "path_ok p" "path_ok t" "t \<noteq> p" using readyD [OF r] readyD [OF t2(2)] by auto
  obtain w4 where d: "decrypt_files sh ek iv ct cap (Some p) (Some t) w3 = (Ret (Inr pt), w4)"
    "sw_files w4 = (sw_files w3)(p \<mapsto> ct, t \<mapsto> pt)"
    using decrypt_files_result [OF enc len paths t3(2) dec fits] .
  have "decrypt_checked sh ek iv ct tag cap mac w = (Ret (Inr pt), unlink1 (Some t) (unlink1 (Some q) (unlink1 (Some p) w4)))"
    using tag by (simp add: decrypt_checked_def andthen_app t1(1) t2(1) t3(1) cleaning_app d(1))
  then show thesis
  proof (rule that)
    show "sw_files (unlink1 (Some t) (unlink1 (Some q) (unlink1 (Some p) w4))) = sw_files w |` (- set [p, q, t])"
      by (simp only: unset_all) (simp add: d(2) t1(3) t2(3) t3(3))
  qed
qed

definition openssl_ok ::
  "shell_fun \<Rightarrow> (string \<Rightarrow> byte list \<Rightarrow> byte list) \<Rightarrow> (byte list \<Rightarrow> byte list \<Rightarrow> byte list)
     \<Rightarrow> (byte list \<Rightarrow> byte list \<Rightarrow> byte list \<Rightarrow> byte list) \<Rightarrow> (byte list \<Rightarrow> byte list \<Rightarrow> byte list \<Rightarrow> byte list option) \<Rightarrow> bool" where
  "openssl_ok sh H M E D \<longleftrightarrow> dgst_ok sh H \<and> hmac_ok sh M \<and> cipher_ok sh E D \<and> cbc_ok E D"

lemma decrypts:
  assumes ok: "openssl_ok sh H M E D" and key: "key \<noteq> []" "length key \<le> 2000" and iv: "length iv = 16"
    and ne: "ct \<noteq> []" and tag: "tag = M (subkey H key 1) (mac_input aad iv ct)"
    and dec: "D (subkey H key 0) iv ct = Some pt" and fits: "length (mac_input aad iv ct) \<le> 0x100000" "length pt \<le> cap"
    and r: "ready ps w" "length ps = 9"
  obtains w1 where "sp_decrypt sh (Some key) (Some iv) aad (Some ct) (Some tag) (Some cap) w = (Ret (Inr pt), w1)"
    and "sw_files w1 = sw_files w |` (- set ps)"
proof -
  have dg: "dgst_ok sh H" and mac: "hmac_ok sh M" and enc: "cipher_ok sh E D"
    using ok by (simp_all add: openssl_ok_def)
  obtain a b c d h i p q t where ps: "ps = [a, b, c, d, h, i] @ [p, q, t]"
    using r(2) by (auto simp: numeral_eq_Suc length_Suc_conv)
  have lt: "length tag = 32" using mac by (simp add: tag hmac_ok_def)
  then have ne2: "tag \<noteq> []" and take: "take 32 tag = M (subkey H key 1) (mac_input aad iv ct)" using tag by auto
  obtain w1 where w1: "sp_decrypt sh (Some key) (Some iv) aad (Some ct) (Some tag) (Some cap) w =
      decrypt_checked sh (subkey H key 0) iv ct tag cap (M (subkey H key 1) (mac_input aad iv ct)) w1"
    "ready [p, q, t] w1" "sw_files w1 = sw_files w |` (- set [a, b, c, d, h, i])"
    using sp_decrypt_result [OF dg mac key iv ne ne2 r(1) [unfolded ps] fits(1)] .
  obtain w2 where w2: "decrypt_checked sh (subkey H key 0) iv ct tag cap (M (subkey H key 1) (mac_input aad iv ct)) w1 = (Ret (Inr pt), w2)"
    "sw_files w2 = sw_files w1 |` (- set [p, q, t])"
    using decrypt_checked_result [OF enc length_subkey [OF dg] iv w1(2) take dec fits(2)] .
  have "- set [a, b, c, d, h, i] \<inter> - set [p, q, t] = - set ps" unfolding ps set_append by blast
  then have "sw_files w2 = sw_files w |` (- set ps)"
    unfolding w2(2) w1(3) restrict_restrict by (rule arg_cong)
  with w1(1) w2(1) show thesis using that by metis
qed

lemma encrypts:
  assumes ok: "openssl_ok sh H M E D" and key: "key \<noteq> []" "length key \<le> 2000" and iv: "length iv = 16" and pt: "pt \<noteq> []"
    and fits: "length (aad_bytes aad) + length pt + 32 \<le> 0x100000" "length pt + 16 \<le> ct_cap" "32 \<le> tag_cap"
    and r: "ready ps w" "length ps = 8"
  obtains w1 where "sp_encrypt sh (Some key) (Some iv) aad (Some pt) (Some ct_cap) (Some tag_cap) w =
      (Ret (Inr (E (subkey H key 0) iv pt, M (subkey H key 1) (mac_input aad iv (E (subkey H key 0) iv pt)))), w1)"
    and "sw_files w1 = sw_files w |` (- set ps)"
proof -
  have dg: "dgst_ok sh H" and mac: "hmac_ok sh M" and enc: "cipher_ok sh E D"
    using ok by (simp_all add: openssl_ok_def)
  obtain a b c d p q h i where ps: "ps = [a, b, c, d, p, q, h, i]"
    using r(2) by (auto simp: numeral_eq_Suc length_Suc_conv)
  have e: "E (subkey H key 0) iv pt \<noteq> []" "length (E (subkey H key 0) iv pt) \<le> length pt + 16"
    using ok iv by (simp_all add: openssl_ok_def cbc_ok_def)
  then have "length (E (subkey H key 0) iv pt) \<le> ct_cap" "length (mac_input aad iv (E (subkey H key 0) iv pt)) \<le> 0x100000"
    using fits iv by (simp_all add: mac_input_def)
  then show thesis
    using sp_encrypt_result [OF dg mac enc key iv pt r(1) ps refl e(1) _ _ fits(3)] that by metis
qed

section \<open>Moving the boundary of the associated data\<close>

text \<open>
  The keyed digest is taken of associated data, IV and ciphertext one after the other, with nothing to tell
  where one ends.  The first \<open>m\<close> blocks of the ciphertext can therefore be declared part of the associated
  data, the last of them being the IV.
\<close>

definition shifted_aad :: "nat \<Rightarrow> byte list option \<Rightarrow> byte list \<Rightarrow> byte list \<Rightarrow> byte list" where
  "shifted_aad m aad iv ct = aad_bytes aad @ iv @ take (16 * (m - 1)) ct"

definition shifted_iv :: "nat \<Rightarrow> byte list \<Rightarrow> byte list" where
  "shifted_iv m ct = take 16 (drop (16 * (m - 1)) ct)"

definition shifted_ct :: "nat \<Rightarrow> byte list \<Rightarrow> byte list" where
  "shifted_ct m ct = drop (16 * m) ct"

lemma shifted_mac:
  assumes "0 < m"
  shows "mac_input (Some (shifted_aad m aad iv ct)) (shifted_iv m ct) (shifted_ct m ct) = mac_input aad iv ct"
proof -
  obtain n where m: "m = Suc n" using assms by (cases m) auto
  have "take 16 (drop (16 * n) ct) @ drop (16 * Suc n) ct = drop (16 * n) ct"
    using append_take_drop_id [of 16 "drop (16 * n) ct"] by (simp add: add.commute)
  then show ?thesis
    by (simp add: mac_input_def aad_bytes_def shifted_aad_def shifted_iv_def shifted_ct_def m)
qed

lemma cbc_suffix:
  assumes ok: "cbc_ok E D" and "D k iv ct = Some x" and "length iv = 16" and "16 * Suc n < length ct"
  shows "D k (take 16 (drop (16 * n) ct)) (drop (16 * Suc n) ct) = Some (drop (16 * Suc n) x)"
  using assms(2-4)
proof (induction n arbitrary: iv ct x)
  case 0
  have "D k iv (take 16 ct @ drop 16 ct) = Some x" using 0 by simp
  moreover have "length (take 16 ct) = 16" "drop 16 ct \<noteq> []" using "0.prems" by simp_all
  ultimately show ?case using ok "0.prems"(2) unfolding cbc_ok_def by simp
next
  case (Suc n)
  have "D k iv (take 16 ct @ drop 16 ct) = Some x" using Suc.prems by simp
  moreover have l: "length (take 16 ct) = 16" "drop 16 ct \<noteq> []" using Suc.prems by simp_all
  ultimately have d: "D k (take 16 ct) (drop 16 ct) = Some (drop 16 x)"
    using ok Suc.prems(2) unfolding cbc_ok_def by blast
  have "16 * Suc n < length (drop 16 ct)" using Suc.prems by simp
  from Suc.IH [OF d l(1) this] show ?case by (simp add: add.commute add.left_commute)
qed

section \<open>Random numbers\<close>

definition rand_ok :: "shell_fun \<Rightarrow> (sp_files \<Rightarrow> nat \<Rightarrow> byte list) \<Rightarrow> bool" where
  "rand_ok sh R \<longleftrightarrow>
     (\<forall>cmd n op fs. 0 < n \<longrightarrow> sh_tokens cmd = Some (map Word [''openssl'', ''rand'', ''-hex'', show_nat n] @ [Into, Word op]) \<longrightarrow>
        sh cmd fs = (0, fs(op \<mapsto> chars_bytes (sp_to_hex (R fs n) @ [NL])))) \<and>
     (\<forall>fs n. length (R fs n) = n)"

lemma rand_tokens:
  assumes "sh_bare q = Some t" and "t \<noteq> []"
  shows "sh_tokens (''openssl rand -hex '' @ show_nat n @ '' > '' @ q) =
    Some (map Word [''openssl'', ''rand'', ''-hex'', show_nat n] @ [Into, Word t])"
proof -
  have "isdigit c \<Longrightarrow> plain_char c" for c by (auto simp: isdigit_def plain_char_def)
  then have "list_all plain_char (show_nat n)" using show_nat_digits [of _ n] by (auto simp: list_all_iff)
  then show ?thesis
    by (simp add: sh_tokens_def plain_char_def lex_word lex_quoted(2) [OF assms])
qed

lemma rand_text:
  assumes "length d = n"
  shows "sp_from_hex (takeWhile (\<lambda>c. c \<noteq> NULC) (rtrim rand_blank (bytes_chars (take 8191 (chars_bytes (sp_to_hex d @ [NL])))))) n =
    (if n \<le> 4095 then Inr d else Inl SP_EINVAL)"
proof -
  have hex: "\<not> rand_blank c" "c \<noteq> NULC" if "c \<in> set (sp_to_hex d)" for c
    using set_to_hex [OF that] by (auto simp: is_hex_def rand_blank_def)
  have word: "takeWhile (\<lambda>c. c \<noteq> NULC) (rtrim rand_blank u) = u" if "set u \<subseteq> set (sp_to_hex d)" for u
  proof -
    have "rtrim rand_blank u = u" using that hex(1) by (intro rtrim_id) (metis last_in_set subsetD)
    moreover have "takeWhile (\<lambda>c. c \<noteq> NULC) u = u" using that hex(2) by (intro takeWhile_eq_all_conv [THEN iffD2]) blast
    ultimately show ?thesis by simp
  qed
  have "bytes_chars (take 8191 (chars_bytes (sp_to_hex d @ [NL]))) = take 8191 (sp_to_hex d @ [NL])"
    unfolding chars_bytes_def take_map by (simp only: chars_bytes_def [symmetric] bytes_chars_bytes)
  moreover have "sp_from_hex (takeWhile (\<lambda>c. c \<noteq> NULC) (rtrim rand_blank (take 8191 (sp_to_hex d @ [NL])))) n =
      (if n \<le> 4095 then Inr d else Inl SP_EINVAL)"
  proof (cases "n \<le> 4095")
    case True
    then have "take 8191 (sp_to_hex d @ [NL]) = sp_to_hex d @ [NL]" using assms by simp
    moreover have "rtrim rand_blank (sp_to_hex d @ [NL]) = rtrim rand_blank (sp_to_hex d)" by (simp add: rand_blank_def)
    ultimately show ?thesis using word [of "sp_to_hex d"] True sp_hex_roundtrip [of d n] assms by simp
  next
    case False
    then have t: "take 8191 (sp_to_hex d @ [NL]) = take 8191 (sp_to_hex d)" and l: "length (take 8191 (sp_to_hex d)) = 8191"
      using assms by simp_all
    have w: "takeWhile (\<lambda>c. c \<noteq> NULC) (rtrim rand_blank (take 8191 (sp_to_hex d))) = take 8191 (sp_to_hex d)"
      by (rule word) (rule set_take_subset)
    show ?thesis unfolding t w using False l by (simp add: sp_from_hex_def)
  qed
  ultimately show ?thesis by (simp only:)
qed

section \<open>A small shell that keeps the contracts\<close>

definition toy_hash :: "string \<Rightarrow> byte list \<Rightarrow> byte list" where
  "toy_hash flag d = replicate (if flag = ''sha1'' then 20 else if flag = ''sha256'' \<or> flag = ''sha3-256'' then 32 else 64) (of_nat (length d))"

definition toy_mac :: "byte list \<Rightarrow> byte list \<Rightarrow> byte list" where
  "toy_mac k d = replicate 32 (foldr (+) d 0)"

definition toy_enc :: "byte list \<Rightarrow> byte list \<Rightarrow> byte list \<Rightarrow> byte list" where
  "toy_enc k iv x = x @ [0]"

definition toy_dec :: "byte list \<Rightarrow> byte list \<Rightarrow> byte list \<Rightarrow> byte list option" where
  "toy_dec k iv c = (if c = [] then None else Some (butlast c))"

definition word_at :: "token list \<Rightarrow> nat \<Rightarrow> string" where
  "word_at ts i = (case ts ! i of Word s \<Rightarrow> s | Into \<Rightarrow> [])"

definition convert :: "string \<Rightarrow> string \<Rightarrow> (byte list \<Rightarrow> byte list option) \<Rightarrow> sp_files \<Rightarrow> int \<times> sp_files" where
  "convert p op f fs = (case Option.bind (fs p) f of None \<Rightarrow> (1, fs) | Some x \<Rightarrow> (0, fs(op \<mapsto> x)))"

definition toy_run :: "token list \<Rightarrow> sp_files \<Rightarrow> int \<times> sp_files" where
  "toy_run ts fs =
     (if length ts = 6 then (0, fs(word_at ts 5 \<mapsto> chars_bytes (sp_to_hex (replicate (digits_nat (word_at ts 3)) 7) @ [NL])))
      else if length ts = 7 then convert (word_at ts 4) (word_at ts 6) (\<lambda>d. Some (dgst_text (toy_hash (tl (word_at ts 2)) d) (word_at ts 4))) fs
      else if length ts = 12 then convert (word_at ts 9) (word_at ts 11) (toy_dec [] []) fs
      else if word_at ts 1 = ''enc'' then convert (word_at ts 8) (word_at ts 10) (\<lambda>d. Some (toy_enc [] [] d)) fs
      else convert (word_at ts 8) (word_at ts 10) (\<lambda>d. Some (dgst_text (toy_mac [] d) (word_at ts 8))) fs)"

definition toy_shell :: shell_fun where
  "toy_shell cmd fs = (case sh_tokens cmd of None \<Rightarrow> (2, fs) | Some ts \<Rightarrow> toy_run ts fs)"

lemma toy_shell_ok: "openssl_ok toy_shell toy_hash toy_mac toy_enc toy_dec"
  unfolding openssl_ok_def
proof (intro conjI)
  show "dgst_ok toy_shell toy_hash"
    by (auto simp: dgst_ok_def toy_shell_def toy_run_def word_at_def convert_def toy_hash_def sp_hash_flag_def sp_hash_outlen_def
        split: if_splits)
  show "hmac_ok toy_shell toy_mac"
    by (auto simp: hmac_ok_def toy_shell_def toy_run_def word_at_def convert_def toy_mac_def)
  show "cipher_ok toy_shell toy_enc toy_dec"
    by (auto simp: cipher_ok_def enc_words_def toy_shell_def toy_run_def word_at_def convert_def toy_enc_def toy_dec_def split: option.split)
  show "cbc_ok toy_enc toy_dec"
    by (auto simp: cbc_ok_def toy_enc_def toy_dec_def butlast_append)
qed

definition toy_random :: "sp_files \<Rightarrow> nat \<Rightarrow> byte list" where
  "toy_random fs n = replicate n 7"

lemma toy_rand_ok: "rand_ok toy_shell toy_random"
  by (auto simp: rand_ok_def toy_shell_def toy_run_def word_at_def toy_random_def)

text \<open>A world with temporary files \<open>a\<close>, \<open>b\<close>, and so on.\<close>

definition demo_names :: "nat \<Rightarrow> string list" where
  "demo_names n = map (\<lambda>c. [c]) (take n ''abcdefghi'')"

definition demo_world :: "nat \<Rightarrow> spw" where
  "demo_world n = \<lparr>sw_files = Map.empty, sw_tmp = map Some (demo_names n), sw_faults = []\<rparr>"

lemma demo_ready: "n \<le> 9 \<Longrightarrow> ready (demo_names n) (demo_world n)" "n \<le> 9 \<Longrightarrow> length (demo_names n) = n"
proof -
  have "distinct (map (\<lambda>c. [c]) ''abcdefghi'')" and "list_all path_ok (map (\<lambda>c. [c]) ''abcdefghi'')"
    by (simp_all add: path_ok_def)
  then show "ready (demo_names n) (demo_world n)"
    unfolding ready_def demo_names_def demo_world_def take_map [symmetric]
    by (auto simp del: list.map intro: distinct_take simp: list_all_iff dest: in_set_takeD)
  show "n \<le> 9 \<Longrightarrow> length (demo_names n) = n" by (simp add: demo_names_def)
qed

section \<open>Properties\<close>

text \<open>
  C12. What \<^verbatim>\<open>sp_encrypt\<close> makes of a message and its associated data, \<^verbatim>\<open>sp_decrypt\<close> gives back under the same
  key and IV, in another process; and none of the temporary files of either call, which held the plaintext,
  is left.
\<close>

theorem sp_encrypt_decrypt:
  assumes "openssl_ok sh H M E D" and "key \<noteq> []" "length key \<le> 2000" and "length iv = 16" and "pt \<noteq> []"
    and "length (aad_bytes aad) + length pt + 32 \<le> 0x100000" "length pt + 16 \<le> ct_cap" "32 \<le> tag_cap" "length pt \<le> pt_cap"
    and "ready ps w" "length ps = 8" and "ready ps' w'" "length ps' = 9"
  shows "\<exists>ct tag w1 w2.
    sp_encrypt sh (Some key) (Some iv) aad (Some pt) (Some ct_cap) (Some tag_cap) w = (Ret (Inr (ct, tag)), w1) \<and>
    sp_decrypt sh (Some key) (Some iv) aad (Some ct) (Some tag) (Some pt_cap) w' = (Ret (Inr pt), w2) \<and>
    sw_files w1 = sw_files w |` (- set ps) \<and> sw_files w2 = sw_files w' |` (- set ps')"
proof -
  let ?ct = "E (subkey H key 0) iv pt"
  obtain w1 where w1: "sp_encrypt sh (Some key) (Some iv) aad (Some pt) (Some ct_cap) (Some tag_cap) w =
      (Ret (Inr (?ct, M (subkey H key 1) (mac_input aad iv ?ct))), w1)" "sw_files w1 = sw_files w |` (- set ps)"
    using encrypts [OF assms(1-8,10,11)] .
  have law: "?ct \<noteq> []" "length ?ct \<le> length pt + 16" "D (subkey H key 0) iv ?ct = Some pt"
    using assms(1,4) by (simp_all add: openssl_ok_def cbc_ok_def)
  have "length (mac_input aad iv ?ct) \<le> 0x100000" using law(2) assms(4,6) by (simp add: mac_input_def)
  then show ?thesis
    using decrypts [OF assms(1-4) law(1) refl law(3) _ assms(9,12,13)] w1 by metis
qed

theorem sp_encrypt_decrypt_witness:
  "\<exists>ct tag w1 w2.
    sp_encrypt toy_shell (Some [1]) (Some (replicate 16 2)) (Some [5]) (Some [3, 4]) (Some 64) (Some 32) (demo_world 8) =
      (Ret (Inr (ct, tag)), w1) \<and>
    sp_decrypt toy_shell (Some [1]) (Some (replicate 16 2)) (Some [5]) (Some ct) (Some tag) (Some 64) (demo_world 9) =
      (Ret (Inr [3, 4]), w2) \<and> sw_files w1 = Map.empty \<and> sw_files w2 = Map.empty"
  using sp_encrypt_decrypt [OF toy_shell_ok, of "[1]" "replicate 16 2" "[3, 4]" "Some [5]" 64 32 64
      "demo_names 8" "demo_world 8" "demo_names 9" "demo_world 9"]
  by (simp add: demo_ready aad_bytes_def) (simp add: demo_world_def)

text \<open>
  A message is released only under its own tag: with any other tag \<^verbatim>\<open>sp_decrypt\<close> fails with
  \<^verbatim>\<open>SP_EAUTH\<close>, and no file is left.
\<close>

theorem sp_decrypt_checks_tag:
  assumes "openssl_ok sh H M E D" and "key \<noteq> []" "length key \<le> 2000" and "length iv = 16" and "ct \<noteq> []" "tag \<noteq> []"
    and "length (mac_input aad iv ct) \<le> 0x100000" and "ready ps w" "length ps = 6"
    and "take 32 tag \<noteq> M (subkey H key 1) (mac_input aad iv ct)"
  shows "\<exists>w1. sp_decrypt sh (Some key) (Some iv) aad (Some ct) (Some tag) (Some pt_cap) w = (Ret (Inl SP_EAUTH), w1) \<and>
    sw_files w1 = sw_files w |` (- set ps)"
proof -
  have dg: "dgst_ok sh H" and mac: "hmac_ok sh M" using assms(1) by (simp_all add: openssl_ok_def)
  obtain a b c d h i where ps: "ps = [a, b, c, d, h, i] @ []"
    using assms(9) by (auto simp: numeral_eq_Suc length_Suc_conv)
  obtain w1 where "sp_decrypt sh (Some key) (Some iv) aad (Some ct) (Some tag) (Some pt_cap) w =
      decrypt_checked sh (subkey H key 0) iv ct tag pt_cap (M (subkey H key 1) (mac_input aad iv ct)) w1"
    "sw_files w1 = sw_files w |` (- set [a, b, c, d, h, i])"
    using sp_decrypt_result [OF dg mac assms(2-6) assms(8) [unfolded ps] assms(7)] .
  then show ?thesis using assms(10) by (auto simp: decrypt_checked_def ps)
qed

theorem sp_decrypt_checks_tag_witness:
  "\<exists>w1. sp_decrypt toy_shell (Some [1]) (Some (replicate 16 2)) None (Some [9]) (Some [0]) (Some 64) (demo_world 6) =
    (Ret (Inl SP_EAUTH), w1) \<and> sw_files w1 = Map.empty"
proof -
  have "take 32 [0] \<noteq> toy_mac k d" for k d
    by (rule notI, drule arg_cong [where f = length]) (simp add: toy_mac_def)
  with sp_decrypt_checks_tag [OF toy_shell_ok, of "[1]" "replicate 16 2" "[9]" "[0]" None "demo_names 6" "demo_world 6" 64]
  show ?thesis by (simp add: demo_ready mac_input_def aad_bytes_def) (simp add: demo_world_def)
qed

text \<open>
  C33. The tag does not bind the associated data to the message: from what \<^verbatim>\<open>sp_encrypt\<close> produced, without
  the key, follow other associated data, another IV and another ciphertext that \<^verbatim>\<open>sp_decrypt\<close> accepts
  under the same tag, and it gives the message without its first \<open>m\<close> blocks.
\<close>

theorem sp_shifted_message_accepted:
  assumes "openssl_ok sh H M E D" and "key \<noteq> []" "length key \<le> 2000" and "length iv = 16" and "pt \<noteq> []"
    and "length (aad_bytes aad) + length pt + 32 \<le> 0x100000" "length pt + 16 \<le> ct_cap" "32 \<le> tag_cap" "length pt \<le> pt_cap"
    and "ready ps w" "length ps = 8" and "ready ps' w'" "length ps' = 9"
    and sent: "fst (sp_encrypt sh (Some key) (Some iv) aad (Some pt) (Some ct_cap) (Some tag_cap) w) = Ret (Inr (ct, tag))"
    and m: "0 < m" "16 * m < length ct"
  shows "fst (sp_decrypt sh (Some key) (Some (shifted_iv m ct)) (Some (shifted_aad m aad iv ct)) (Some (shifted_ct m ct))
      (Some tag) (Some pt_cap) w') = Ret (Inr (drop (16 * m) pt)) \<and>
    Some (shifted_aad m aad iv ct) \<noteq> aad"
proof -
  let ?ct = "E (subkey H key 0) iv pt"
  have ct: "ct = ?ct" and tag: "tag = M (subkey H key 1) (mac_input aad iv ct)"
    using encrypts [OF assms(1-8,10,11)] sent by (metis Inr_inject fst_conv outcome.inject prod.inject)+
  have cbc: "cbc_ok E D" using assms(1) by (simp add: openssl_ok_def)
  have law: "length ct \<le> length pt + 16" "D (subkey H key 0) iv ct = Some pt"
    using cbc assms(4) unfolding ct by (simp_all add: cbc_ok_def)
  obtain n where n: "m = Suc n" using m by (cases m) auto
  have d: "D (subkey H key 0) (shifted_iv m ct) (shifted_ct m ct) = Some (drop (16 * m) pt)"
    using cbc_suffix [OF cbc law(2) assms(4)] m by (simp add: n shifted_iv_def shifted_ct_def)
  have iv: "length (shifted_iv m ct) = 16" and ne: "shifted_ct m ct \<noteq> []"
    using m by (simp_all add: n shifted_iv_def shifted_ct_def)
  have same: "mac_input (Some (shifted_aad m aad iv ct)) (shifted_iv m ct) (shifted_ct m ct) = mac_input aad iv ct"
    by (rule shifted_mac [OF m(1)])
  have len: "length (mac_input aad iv ct) \<le> 0x100000" using law(1) assms(4,6) by (simp add: mac_input_def)
  have cap: "length (drop (16 * m) pt) \<le> pt_cap" using assms(9) by simp
  obtain w1 where "sp_decrypt sh (Some key) (Some (shifted_iv m ct)) (Some (shifted_aad m aad iv ct)) (Some (shifted_ct m ct))
      (Some tag) (Some pt_cap) w' = (Ret (Inr (drop (16 * m) pt)), w1)"
    using decrypts [OF assms(1-3) iv ne tag [folded same] d len [folded same] cap assms(12,13)] .
  moreover have "Some (shifted_aad m aad iv ct) \<noteq> aad"
    using assms(4) by (cases aad) (auto simp: shifted_aad_def aad_bytes_def)
  ultimately show ?thesis by simp
qed

theorem sp_shifted_message_accepted_witness:
  "fst (sp_decrypt toy_shell (Some [1]) (Some (replicate 16 3)) (Some ([5] @ replicate 16 2)) (Some [4, 0])
    (Some (toy_mac [] ([5] @ replicate 16 2 @ replicate 16 3 @ [4, 0]))) (Some 64) (demo_world 9)) = Ret (Inr [4])"
proof -
  let ?pt = "replicate 16 3 @ [4] :: byte list"
  have "fst (sp_encrypt toy_shell (Some [1]) (Some (replicate 16 2)) (Some [5]) (Some ?pt) (Some 64) (Some 32) (demo_world 8)) =
      Ret (Inr (toy_enc (subkey toy_hash [1] 0) (replicate 16 2) ?pt,
        toy_mac (subkey toy_hash [1] 1) (mac_input (Some [5]) (replicate 16 2) (toy_enc (subkey toy_hash [1] 0) (replicate 16 2) ?pt))))"
    (is "_ = Ret (Inr (?ct, ?tag))")
    by (rule encrypts [OF toy_shell_ok, of "[1]" "replicate 16 2" ?pt "Some [5]" 64 32 "demo_names 8" "demo_world 8"])
      (simp_all add: demo_ready aad_bytes_def)
  moreover have "?ct = ?pt @ [0]" and "?tag = toy_mac [] ([5] @ replicate 16 2 @ ?pt @ [0])"
    by (simp_all add: toy_enc_def toy_mac_def mac_input_def aad_bytes_def)
  ultimately have this: "fst (sp_encrypt toy_shell (Some [1]) (Some (replicate 16 2)) (Some [5]) (Some ?pt) (Some 64) (Some 32) (demo_world 8)) =
      Ret (Inr (?pt @ [0], toy_mac [] ([5] @ replicate 16 2 @ ?pt @ [0])))"
    by (simp only:)
  from sp_shifted_message_accepted [OF toy_shell_ok _ _ _ _ _ _ _ _ _ _ _ _ this, of 64 "demo_names 8" "demo_names 9" "demo_world 9" 1]
  show ?thesis
    by (simp add: demo_ready aad_bytes_def shifted_aad_def shifted_iv_def shifted_ct_def)
qed

text \<open>
  \<^verbatim>\<open>sp_random\<close> delivers the bytes that \<^verbatim>\<open>openssl rand\<close> made when at most 4095 are asked for; the line
  that holds more does not fit its buffer, and every larger request fails.
\<close>

theorem sp_random_bound:
  assumes ok: "rand_ok sh R" and r: "ready [t] w" and n: "0 < n" "n < 2 ^ 32"
  shows "fst (sp_random sh n w) = Ret (if n \<le> 4095 then Inr (R ((sw_files w)(t := None)) n) else Inl SP_EIO)"
proof -
  let ?cmd = "''openssl rand -hex '' @ show_nat n"
  obtain w1 where t: "sp_tmp_path w = (Ret (Inr (Some t)), w1)" "ready [] w1" "sw_files w1 = (sw_files w)(t := None)"
    using tmp_ready [OF r] .
  have pt: "path_ok t" using readyD [OF r] by simp
  have "n < 10 ^ 10" using n(2) by simp
  then have "length (show_nat n) \<le> 10" by (rule length_show_nat) simp
  then have len: "length ?cmd \<le> 4000" and cut: "cstr 128 ?cmd = ?cmd" by (simp_all add: cstr_id)
  obtain q where q: "sh_bare q = Some t" and run: "sp_sh sh ?cmd (Some t) None w1 =
      (case sh (?cmd @ '' > '' @ q) (sw_files w1) of (rc, fs) \<Rightarrow> (Ret (Inr rc), w1\<lparr>sw_files := fs\<rparr>))"
    using sp_sh_to_file [OF pt len] by blast
  let ?d = "R (sw_files w1) n"
  have "sh_tokens (?cmd @ '' > '' @ q) = Some (map Word [''openssl'', ''rand'', ''-hex'', show_nat n] @ [Into, Word t])"
    using rand_tokens [OF q] pt by (simp add: path_ok_def)
  then have law: "sh (?cmd @ '' > '' @ q) (sw_files w1) = (0, (sw_files w1)(t \<mapsto> chars_bytes (sp_to_hex ?d @ [NL])))"
    using ok n(1) unfolding rand_ok_def by blast
  have ld: "length ?d = n" using ok unfolding rand_ok_def by blast
  let ?w2 = "w1\<lparr>sw_files := (sw_files w1)(t \<mapsto> chars_bytes (sp_to_hex ?d @ [NL]))\<rparr>"
  let ?bs = "take 8191 (chars_bytes (sp_to_hex ?d @ [NL]))"
  have run2: "sp_sh sh ?cmd (Some t) None w1 = (Ret (Inr 0), ?w2)" unfolding run law by simp
  have ne: "?bs \<noteq> []" unfolding take_eq_Nil by (simp add: chars_bytes_def)
  have read: "sp_read_text (Some t) 8192 ?w2 = (Ret (Inr (Inr ?bs)), ?w2)" by (simp add: sp_read_text_def)
  note hex = rand_text [OF ld]
  have "fst (sp_random sh n w) = Ret (if n \<le> 4095 then Inr ?d else Inl SP_EIO)"
    unfolding sp_random_def cut by (simp add: andthen_app t(1) run2 [simplified] read [simplified] ne [simplified] hex [simplified] ld)
  then show ?thesis by (simp only: t(3))
qed

theorem sp_random_bound_witness:
  "fst (sp_random toy_shell 3 (demo_world 1)) = Ret (Inr [7, 7, 7]) \<and> fst (sp_random toy_shell 4096 (demo_world 1)) = Ret (Inl SP_EIO)"
proof -
  have "ready [''a''] (demo_world 1)" using demo_ready(1) [of 1] by (simp add: demo_names_def)
  from sp_random_bound [OF toy_rand_ok this, of 3] sp_random_bound [OF toy_rand_ok this, of 4096]
  show ?thesis by (simp add: toy_random_def numeral_3_eq_3)
qed

end
