(* ===== verification/SpKeyCorrect.thy ===== *)
theory SpKeyCorrect
  imports SpKey SpCryptoCorrect
begin

text \<open>
  Keys and signatures of the SP plugin, \<^verbatim>\<open>sp/src/sp_key.c\<close>, when the programs keep their contracts: what is
  signed verifies, what revoking a key does and does not prevent, and what holds of the key ring in every run.
\<close>

section \<open>The programs they run\<close>

definition pem_ok :: "string \<Rightarrow> bool" where
  "pem_ok s \<longleftrightarrow> s \<noteq> [] \<and> length s < 16384 \<and> NULC \<notin> set s"

definition genpkey_words :: "int \<Rightarrow> string \<Rightarrow> token list" where
  "genpkey_words algo p =
     map Word ([''openssl'', ''genpkey'', ''-quiet'', ''-algorithm'', if algo = SP_ASYM_ECDSA_P256 then ''EC'' else ''RSA'', ''-pkeyopt'',
       if algo = SP_ASYM_RSA_2048 then ''rsa_keygen_bits:2048'' else if algo = SP_ASYM_RSA_4096 then ''rsa_keygen_bits:4096''
       else ''ec_paramgen_curve:P-256'', ''-out'', p])"

definition pkey_words :: "string \<Rightarrow> string \<Rightarrow> token list" where
  "pkey_words p q = map Word [''openssl'', ''pkey'', ''-in'', p, ''-pubout'', ''-out'', q]"

text \<open>Keys: \<open>GEN\<close> makes private ones, \<open>K\<close> are the texts \<^verbatim>\<open>openssl\<close> reads as such, \<open>PUB\<close> their public keys.\<close>

definition keys_ok :: "shell_fun \<Rightarrow> (sp_files \<Rightarrow> int \<Rightarrow> string) \<Rightarrow> (string \<Rightarrow> bool) \<Rightarrow> (string \<Rightarrow> string) \<Rightarrow> bool" where
  "keys_ok sh GEN K PUB \<longleftrightarrow>
     (\<forall>cmd algo p q o' e fs. supported algo \<longrightarrow> distinct [p, q, o', e] \<longrightarrow>
        sh_tokens cmd = Some (genpkey_words algo p @ And_then # pkey_words p q @ [Into, Word o', ErrInto, Word e]) \<longrightarrow>
        (\<exists>x y. sh cmd fs = (0, fs(p \<mapsto> chars_bytes (GEN fs algo), q \<mapsto> chars_bytes (PUB (GEN fs algo)), o' \<mapsto> x, e \<mapsto> y)))) \<and>
     (\<forall>cmd p q fs k. K k \<longrightarrow> fs p = Some (chars_bytes k) \<longrightarrow> p \<noteq> q \<longrightarrow> sh_tokens cmd = Some (pkey_words p q) \<longrightarrow>
        sh cmd fs = (0, fs(q \<mapsto> chars_bytes (PUB k)))) \<and>
     (\<forall>fs algo. K (GEN fs algo)) \<and> (\<forall>k. K k \<longrightarrow> pem_ok k \<and> pem_ok (PUB k))"

text \<open>
  Signatures: \<open>SIG k d\<close> holds of the signatures \<^verbatim>\<open>openssl\<close> may make of the data \<open>d\<close> with the private key \<open>k\<close>, of
  which there are many where the scheme is randomised, as ECDSA is; \<open>V\<close> is what it accepts under a public key.
  A signature made with a private key is accepted under its public key.  Nothing is said of a text that is not a
  private key.
\<close>

definition sign_ok ::
  "shell_fun \<Rightarrow> (string \<Rightarrow> bool) \<Rightarrow> (string \<Rightarrow> string) \<Rightarrow> (string \<Rightarrow> byte list \<Rightarrow> byte list \<Rightarrow> bool) \<Rightarrow>
   (string \<Rightarrow> byte list \<Rightarrow> byte list \<Rightarrow> bool) \<Rightarrow> bool" where
  "sign_ok sh K PUB SIG V \<longleftrightarrow>
     (\<forall>cmd k s p fs key d. K key \<longrightarrow> fs k = Some (chars_bytes key) \<longrightarrow> fs p = Some d \<longrightarrow> s \<noteq> k \<longrightarrow> s \<noteq> p \<longrightarrow>
        sh_tokens cmd = Some (map Word [''openssl'', ''dgst'', ''-sha256'', ''-sign'', k, ''-out'', s, p]) \<longrightarrow>
        (\<exists>sg. SIG key d sg \<and> sh cmd fs = (0, fs(s \<mapsto> sg)))) \<and>
     (\<forall>cmd k s p o' e fs key d sg. fs k = Some (chars_bytes key) \<longrightarrow> fs p = Some d \<longrightarrow> fs s = Some sg \<longrightarrow>
        {o', e} \<inter> {k, p, s} = {} \<longrightarrow>
        sh_tokens cmd = Some (map Word [''openssl'', ''dgst'', ''-sha256'', ''-verify'', k, ''-signature'', s, p] @
          [Into, Word o', ErrInto, Word e]) \<longrightarrow>
        fst (sh cmd fs) = 0 \<longleftrightarrow> V key d sg) \<and>
     (\<forall>key d sg. K key \<longrightarrow> SIG key d sg \<longrightarrow> V (PUB key) d sg \<and> sg \<noteq> [] \<and> length sg \<le> 1024)"

definition b64_ok :: "shell_fun \<Rightarrow> (byte list \<Rightarrow> string) \<Rightarrow> bool" where
  "b64_ok sh B \<longleftrightarrow>
     (\<forall>cmd p op fs d. fs p = Some d \<longrightarrow> op \<noteq> p \<longrightarrow>
        sh_tokens cmd = Some (map Word [''openssl'', ''base64'', ''-A'', ''-in'', p] @ [Into, Word op]) \<longrightarrow>
        sh cmd fs = (0, fs(op \<mapsto> chars_bytes (B d)))) \<and>
     (\<forall>cmd p op fs d. fs p = Some (chars_bytes (B d)) \<longrightarrow> op \<noteq> p \<longrightarrow>
        sh_tokens cmd = Some (map Word [''openssl'', ''base64'', ''-d'', ''-A'', ''-in'', p] @ [Into, Word op]) \<longrightarrow>
        sh cmd fs = (0, fs(op \<mapsto> d))) \<and>
     (\<forall>d. d \<noteq> [] \<longrightarrow> B d \<noteq> [] \<and> \<not> b64_blank (last (B d))) \<and> (\<forall>d. length (B d) \<le> 2 * length d + 2)"

lemma sign_okD:
  assumes "sign_ok sh K PUB SIG V"
  shows "K key \<Longrightarrow> fs k = Some (chars_bytes key) \<Longrightarrow> fs p = Some d \<Longrightarrow> s \<noteq> k \<Longrightarrow> s \<noteq> p \<Longrightarrow>
      sh_tokens cmd = Some (map Word [''openssl'', ''dgst'', ''-sha256'', ''-sign'', k, ''-out'', s, p]) \<Longrightarrow>
      \<exists>sg. SIG key d sg \<and> sh cmd fs = (0, fs(s \<mapsto> sg))"
    and "fs k = Some (chars_bytes key) \<Longrightarrow> fs p = Some d \<Longrightarrow> fs s = Some sg \<Longrightarrow> {o', e} \<inter> {k, p, s} = {} \<Longrightarrow>
      sh_tokens cmd = Some (map Word [''openssl'', ''dgst'', ''-sha256'', ''-verify'', k, ''-signature'', s, p] @ [Into, Word o', ErrInto, Word e]) \<Longrightarrow>
      fst (sh cmd fs) = 0 \<longleftrightarrow> V key d sg"
    and "K key \<Longrightarrow> SIG key d sg \<Longrightarrow> V (PUB key) d sg \<and> sg \<noteq> [] \<and> length sg \<le> 1024"
  using assms [unfolded sign_ok_def, THEN conjunct1, rule_format, of key fs k p d s cmd]
    assms [unfolded sign_ok_def, THEN conjunct2, THEN conjunct1, rule_format, of fs k key p d s sg o' e cmd]
    assms [unfolded sign_ok_def, THEN conjunct2, THEN conjunct2, rule_format, of key d sg]
  by blast+

section \<open>Running commands\<close>

lemma quoted_props:
  assumes "path_ok p"
  shows "sh_bare (quoted (Some p)) = Some p" "p \<noteq> []" "length (quoted (Some p)) \<le> 802"
  using quoted_path [OF assms] assms by (simp_all add: path_ok_def)

lemma sp_sh_both:
  assumes "path_ok a" and "path_ok b" and "length cmd \<le> 4000"
  obtains q u where "sh_bare q = Some a" and "sh_bare u = Some b"
    and "sp_sh sh cmd (Some a) (Some b) w =
      (case sh (cmd @ '' > '' @ q @ '' 2> '' @ u) (sw_files w) of (rc, fs) \<Rightarrow> (Ret (Inr rc), w\<lparr>sw_files := fs\<rparr>))"
proof -
  obtain q where q: "sp_q (Some a) 1024 = Some q" "sh_bare q = Some a" "length q \<le> 802"
    using sp_q_path [OF assms(1), of 1024] by auto
  obtain u where u: "sp_q (Some b) 1024 = Some u" "sh_bare u = Some b" "length u \<le> 802"
    using sp_q_path [OF assms(2), of 1024] by auto
  have "a \<noteq> []" "b \<noteq> []" using assms(1,2) by (simp_all add: path_ok_def)
  then have "sp_sh sh cmd (Some a) (Some b) w =
      (case sh (cmd @ '' > '' @ q @ '' 2> '' @ u) (sw_files w) of (rc, fs) \<Rightarrow> (Ret (Inr rc), w\<lparr>sw_files := fs\<rparr>))"
    using q(1,3) u(1,3) assms(3) by (simp add: sp_sh_def redirect_def Let_def cstr_id)
  with q(2) u(2) that show thesis by blast
qed

lemma c_text_pem: "pem_ok s \<Longrightarrow> c_text (take 16383 (chars_bytes s)) = s"
proof -
  assume s: "pem_ok s"
  then have "take 16383 (chars_bytes s) = chars_bytes s" by (simp add: pem_ok_def chars_bytes_def)
  moreover have "takeWhile (\<lambda>c. c \<noteq> NULC) s = s" using s by (auto simp: pem_ok_def takeWhile_eq_all_conv)
  ultimately show ?thesis by (simp add: c_text_def)
qed

lemma read_pem_ok:
  assumes "sw_files w p = Some (chars_bytes s)" and "pem_ok s"
  shows "read_pem (Some p) w = (Ret (Inr (Some s)), w)"
  using assms c_text_pem [OF assms(2)]
  by (simp add: read_pem_def andthen_app sp_read_text_def pem_ok_def chars_bytes_def take_map)

lemma may_fail_ready:
  assumes "ready ps w"
  obtains w1 where "may_fail w = (Ret (Inr True), w1)" and "ready ps w1" and "sw_files w1 = sw_files w"
proof -
  have "may_fail w = (Ret (Inr True), w\<lparr>sw_faults := []\<rparr>)"
    using assms by (simp add: may_fail_def ready_def)
  moreover have "ready ps (w\<lparr>sw_faults := []\<rparr>)" using assms by (auto simp: ready_def)
  ultimately show thesis using that by simp
qed

section \<open>Base64\<close>

lemma b64_tokens:
  assumes "path_ok p" and "sh_bare q = Some t" and "t \<noteq> []"
  shows "sh_tokens (''openssl base64 -A -in '' @ quoted (Some p) @ '' > '' @ q) =
      Some (map Word [''openssl'', ''base64'', ''-A'', ''-in'', p] @ [Into, Word t])"
    and "sh_tokens (''openssl base64 -d -A -in '' @ quoted (Some p) @ '' > '' @ q) =
      Some (map Word [''openssl'', ''base64'', ''-d'', ''-A'', ''-in'', p] @ [Into, Word t])"
  using quoted_props [OF assms(1)]
  by (simp_all add: sh_tokens_def plain_char_def lex_quoted(1) lex_quoted(2) [OF assms(2,3)])

lemma b64_laws:
  assumes ok: "b64_ok sh B" and r: "ready (p # t # ps) w"
  shows "length (''openssl base64 -A -in '' @ quoted (Some p)) \<le> 4000" "length (''openssl base64 -d -A -in '' @ quoted (Some p)) \<le> 4000"
    and "\<And>q fs d. sh_bare q = Some t \<Longrightarrow> t \<noteq> [] \<Longrightarrow> t \<noteq> p \<Longrightarrow> fs p = Some d \<Longrightarrow>
      sh ((''openssl base64 -A -in '' @ quoted (Some p)) @ '' > '' @ q) fs = (0, fs(t \<mapsto> chars_bytes (B d)))"
    and "\<And>q fs d. sh_bare q = Some t \<Longrightarrow> t \<noteq> [] \<Longrightarrow> t \<noteq> p \<Longrightarrow> fs p = Some (chars_bytes (B d)) \<Longrightarrow>
      sh ((''openssl base64 -d -A -in '' @ quoted (Some p)) @ '' > '' @ q) fs = (0, fs(t \<mapsto> d))"
proof -
  have pp: "path_ok p" using readyD [OF r] by simp
  show "length (''openssl base64 -A -in '' @ quoted (Some p)) \<le> 4000" "length (''openssl base64 -d -A -in '' @ quoted (Some p)) \<le> 4000"
    using quoted_props(3) [OF pp] by simp_all
  show "sh ((''openssl base64 -A -in '' @ quoted (Some p)) @ '' > '' @ q) fs = (0, fs(t \<mapsto> chars_bytes (B d)))"
    if "sh_bare q = Some t" "t \<noteq> []" "t \<noteq> p" "fs p = Some d" for q fs d
    using ok that(3,4) b64_tokens(1) [OF pp that(1,2)] unfolding b64_ok_def by simp
  show "sh ((''openssl base64 -d -A -in '' @ quoted (Some p)) @ '' > '' @ q) fs = (0, fs(t \<mapsto> d))"
    if "sh_bare q = Some t" "t \<noteq> []" "t \<noteq> p" "fs p = Some (chars_bytes (B d))" for q fs d
    using ok that(3,4) b64_tokens(2) [OF pp that(1,2)] unfolding b64_ok_def by simp
qed

lemma b64_encode_result:
  assumes ok: "b64_ok sh B" and d: "d \<noteq> []" "length d \<le> 4000" and r: "ready (p # t # ps) w" and cap: "length (B d) + 1 < cap"
  obtains w1 where "sp_b64_encode sh d cap w = (Ret (Inr (B d)), w1)" and "ready ps w1"
    and "sw_files w1 = (sw_files w)(p := None, t := None)"
proof -
  note law = b64_laws [OF ok r]
  obtain w1 w2 w3 w4 where run: "sp_tmp_path w = (Ret (Inr (Some p)), w1)" "sp_write_all (Some p) d w1 = (Ret (Inr SP_OK), w2)"
    "sp_tmp_path w2 = (Ret (Inr (Some t)), w3)" "sp_sh sh (''openssl base64 -A -in '' @ quoted (Some p)) (Some t) None w3 = (Ret (Inr SP_OK), w4)"
    "\<forall>cap. 0 < cap \<longrightarrow> sp_read_text (Some t) cap w4 = (Ret (Inr (Inr (take (cap - 1) (chars_bytes (B d))))), w4)" "ready ps w4"
    "sw_files (unlink1 (Some t) (unlink1 (Some p) w4)) = (sw_files w)(p := None, t := None)"
    using filter_run [where sh = sh and d = d and x = "chars_bytes (B d)", OF r law(1) law(3)] .
  have B: "B d \<noteq> []" "\<not> b64_blank (last (B d))" and l: "length (B d) \<le> 2 * length d + 2"
    using ok d(1) unfolding b64_ok_def by blast+
  then have len: "length (B d) \<le> 8191" using d(2) by linarith
  have trim: "rtrim b64_blank (B d) = B d" using B(2) by (intro rtrim_id) simp
  have bs: "take 8191 (chars_bytes (B d)) = chars_bytes (B d)" "chars_bytes (B d) \<noteq> []"
    using len B(1) by (simp_all add: chars_bytes_def)
  have "sp_b64_encode sh d cap w = (Ret (Inr (B d)), unlink1 (Some t) (unlink1 (Some p) w4))"
    using d cap trim bs
    by (simp add: sp_b64_encode_def Let_def andthen_app run(1-3) run(4) [simplified] run(5) [rule_format, of 8192])
  then show thesis by (rule that) (use run(6,7) in simp_all)
qed

lemma b64_decode_result:
  assumes ok: "b64_ok sh B" and d: "length d \<le> 4096" and r: "ready (p # t # ps) w"
  obtains w1 where "sp_b64_decode sh (B d) 8192 w = (Ret (Inr d), w1)" and "ready ps w1"
    and "sw_files w1 = (sw_files w)(p := None, t := None)"
proof -
  note law = b64_laws [OF ok r]
  obtain w1 w2 w3 w4 where run: "sp_tmp_path w = (Ret (Inr (Some p)), w1)"
    "sp_write_all (Some p) (chars_bytes (B d)) w1 = (Ret (Inr SP_OK), w2)"
    "sp_tmp_path w2 = (Ret (Inr (Some t)), w3)" "sp_sh sh (''openssl base64 -d -A -in '' @ quoted (Some p)) (Some t) None w3 = (Ret (Inr SP_OK), w4)"
    "\<forall>cap. 0 < cap \<longrightarrow> sp_read_text (Some t) cap w4 = (Ret (Inr (Inr (take (cap - 1) d))), w4)" "ready ps w4"
    "sw_files (unlink1 (Some t) (unlink1 (Some p) w4)) = (sw_files w)(p := None, t := None)"
    using filter_run [where sh = sh and d = "chars_bytes (B d)" and x = d, OF r law(2) law(4)] .
  have "length (B d) \<le> 2 * length d + 2" using ok unfolding b64_ok_def by blast
  with d have l: "\<not> 0x3ffff < length (B d)" by linarith
  have bs: "take 8191 d = d" using d by simp
  have "sp_b64_decode sh (B d) 8192 w = (Ret (Inr d), unlink1 (Some t) (unlink1 (Some p) w4))"
    using l bs by (simp add: sp_b64_decode_def andthen_app run(1-3) run(4) [simplified] run(5) [rule_format, of 8192])
  then show thesis by (rule that) (use run(6,7) in simp_all)
qed

section \<open>Signing and verifying\<close>

lemma sign_tokens:
  assumes "path_ok k" "path_ok s" "path_ok p"
  shows "sh_tokens (cstr 16384 (''openssl dgst -sha256 -sign '' @ quoted (Some k) @ '' -out '' @ quoted (Some s) @ CHR '' '' # quoted (Some p))) =
      Some (map Word [''openssl'', ''dgst'', ''-sha256'', ''-sign'', k, ''-out'', s, p])"
    and "length (cstr 16384 (''openssl dgst -sha256 -sign '' @ quoted (Some k) @ '' -out '' @ quoted (Some s) @ CHR '' '' # quoted (Some p))) \<le> 4000"
  using quoted_props [OF assms(1)] quoted_props [OF assms(2)] quoted_props [OF assms(3)]
  by (simp_all add: sh_tokens_def plain_char_def lex_quoted cstr_id)

text \<open>Two files written and a third one named.\<close>

lemma staged:
  assumes r: "ready (p # k # s # ps) w"
  obtains w1 w2 w3 where "sp_tmp_path w = (Ret (Inr (Some p)), w1)" and "sp_tmp_path w1 = (Ret (Inr (Some k)), w2)"
    and "sp_tmp_path w2 = (Ret (Inr (Some s)), w3)" and "ready ps w3"
    and "sw_files w3 = (sw_files w)(p := None, k := None, s := None)"
proof -
  obtain w1 where t1: "sp_tmp_path w = (Ret (Inr (Some p)), w1)" "ready (k # s # ps) w1" "sw_files w1 = (sw_files w)(p := None)"
    using tmp_ready [OF r] .
  obtain w2 where t2: "sp_tmp_path w1 = (Ret (Inr (Some k)), w2)" "ready (s # ps) w2" "sw_files w2 = (sw_files w1)(k := None)"
    using tmp_ready [OF t1(2)] .
  obtain w3 where t3: "sp_tmp_path w2 = (Ret (Inr (Some s)), w3)" "ready ps w3" "sw_files w3 = (sw_files w2)(s := None)"
    using tmp_ready [OF t2(2)] .
  show thesis by (rule that [OF t1(1) t2(1) t3(1,2)]) (simp add: t3(3) t2(3) t1(3))
qed

lemma sign_result:
  assumes ok: "sign_ok sh K PUB SIG V" and b64: "b64_ok sh B" and e: "sp_key_find i True r = (SP_OK, Some e)" and key: "K (ke_priv e)"
    and r: "ready ps w" "length ps = 5" and cap: "2051 < cap"
  shows "\<exists>sg w1. SIG (ke_priv e) d sg \<and> sp_sign sh i (Some d) (Some cap) r w = (Ret (Inr (B sg)), w1) \<and> sw_files w1 = sw_files w |` (- set ps)"
proof -
  obtain p k s a b where ps: "ps = [p, k, s, a, b]"
    using r(2) by (auto simp: numeral_eq_Suc length_Suc_conv)
  obtain w0 where m: "malloc_or SP_ENOMEM w = (Ret (Inr ()), w0)" "ready (p # k # s # [a, b]) w0" "sw_files w0 = sw_files w"
    using malloc_ready [OF r(1) [unfolded ps]] .
  obtain w1 w2 w3 where t: "sp_tmp_path w0 = (Ret (Inr (Some p)), w1)" "sp_tmp_path w1 = (Ret (Inr (Some k)), w2)"
    "sp_tmp_path w2 = (Ret (Inr (Some s)), w3)" "ready [a, b] w3" "sw_files w3 = (sw_files w0)(p := None, k := None, s := None)"
    using staged [OF m(2)] by metis
  have names: "path_ok p" "path_ok k" "path_ok s" "distinct [p, k, s]" using m(2) by (auto simp: ready_def)
  obtain w4 where wi: "sp_write_all (Some p) d w3 = (Ret (Inr SP_OK), w4)" "ready [a, b] w4" "sw_files w4 = (sw_files w3)(p \<mapsto> d)"
    using write_ready [OF t(4)] .
  obtain w5 where wk: "sp_write_all (Some k) (chars_bytes (ke_priv e)) w4 = (Ret (Inr SP_OK), w5)" "ready [a, b] w5"
    "sw_files w5 = (sw_files w4)(k \<mapsto> chars_bytes (ke_priv e))"
    using write_ready [OF wi(2)] .
  let ?cmd = "cstr 16384 (''openssl dgst -sha256 -sign '' @ quoted (Some k) @ '' -out '' @ quoted (Some s) @ CHR '' '' # quoted (Some p))"
  note tk = sign_tokens [OF names(2,3,1)]
  have fs: "sw_files w5 k = Some (chars_bytes (ke_priv e))" "sw_files w5 p = Some d" "s \<noteq> k" "s \<noteq> p"
    using names(4) wk(3) wi(3) by auto
  obtain sg where sg: "SIG (ke_priv e) d sg" and law: "sh ?cmd (sw_files w5) = (0, (sw_files w5)(s \<mapsto> sg))"
    using sign_okD(1) [OF ok key fs tk(1)] by blast
  then have run: "sp_sh sh ?cmd None None w5 = (Ret (Inr SP_OK), w5\<lparr>sw_files := (sw_files w5)(s \<mapsto> sg)\<rparr>)"
    by (simp only: sp_sh_plain [OF tk(2)] prod.case)
  let ?w6 = "w5\<lparr>sw_files := (sw_files w5)(s \<mapsto> sg)\<rparr>"
  let ?w7 = "unlink1 (Some s) (unlink1 (Some k) (unlink1 (Some p) ?w6))"
  have S: "sg \<noteq> []" "length sg \<le> 1024" using sign_okD(3) [OF ok key sg] by simp_all
  have "length (B sg) \<le> 2 * length sg + 2" using b64 unfolding b64_ok_def by blast
  with S(2) cap have cap': "length (B sg) + 1 < cap" by linarith
  have read: "sp_read_text (Some s) 8192 ?w6 = (Ret (Inr (Inr sg)), ?w6)" using S by (simp add: sp_read_text_def)
  have "ready (a # b # []) ?w7" and "length sg \<le> 4000" using wk(2) S(2) by simp_all
  from b64_encode_result [OF b64 S(1) this(2,1) cap']
  obtain w8 where b: "sp_b64_encode sh sg cap ?w7 = (Ret (Inr (B sg)), w8)" "sw_files w8 = (sw_files ?w7)(a := None, b := None)"
    by metis
  have "sp_sign sh i (Some d) (Some cap) r w = (Ret (Inr (B sg)), w8)"
    using S b(1) by (simp add: sp_sign_def e andthen_app m(1) t(1-3) wi(1) wk(1) cleaning_app run [simplified] read)
  moreover have "sw_files w8 = sw_files w |` (- set ps)"
    unfolding ps unset_all by (simp add: b(2) wk(3) wi(3) t(5) m(3))
  ultimately show ?thesis using sg by blast
qed

lemma verify_tokens:
  assumes "path_ok k" "path_ok s" "path_ok p" and "sh_bare q = Some o'" "o' \<noteq> []" and "sh_bare u = Some e" "e \<noteq> []"
  shows "sh_tokens (cstr 16384 (''openssl dgst -sha256 -verify '' @ quoted (Some k) @ '' -signature '' @ quoted (Some s) @ CHR '' '' # quoted (Some p)) @
      '' > '' @ q @ '' 2> '' @ u) =
      Some (map Word [''openssl'', ''dgst'', ''-sha256'', ''-verify'', k, ''-signature'', s, p] @ [Into, Word o', ErrInto, Word e])"
  using quoted_props [OF assms(1)] quoted_props [OF assms(2)] quoted_props [OF assms(3)]
  by (simp add: sh_tokens_def plain_char_def lex_quoted(1) lex_quoted(2) [OF assms(6,7)] lex_quoted(1) [OF assms(4,5)] cstr_id)

lemma verify_length:
  assumes "path_ok k" "path_ok s" "path_ok p"
  shows "length (cstr 16384 (''openssl dgst -sha256 -verify '' @ quoted (Some k) @ '' -signature '' @ quoted (Some s) @ CHR '' '' # quoted (Some p))) \<le> 4000"
  using quoted_props [OF assms(1)] quoted_props [OF assms(2)] quoted_props [OF assms(3)] by (simp add: cstr_id)

lemma verify_result:
  assumes ok: "sign_ok sh K PUB SIG V" and b64: "b64_ok sh B" and e: "sp_key_find i True r = (SP_OK, Some e)"
    and r: "ready ps w" "length ps = 7" and sg: "length sg \<le> 4096"
  shows "fst (sp_verify sh i (Some d) (Some (B sg)) r w) = Ret (Inr (V (ke_pub e) d sg))"
proof -
  obtain p k s o' u a b where ps: "ps = [p, k, s, o', u, a, b]"
    using r(2) by (auto simp: numeral_eq_Suc length_Suc_conv)
  obtain w0 where m: "malloc_or SP_ENOMEM w = (Ret (Inr ()), w0)" "ready (p # k # s # [o', u, a, b]) w0"
    using malloc_ready [OF r(1) [unfolded ps]] by metis
  obtain w1 w2 w3 where t: "sp_tmp_path w0 = (Ret (Inr (Some p)), w1)" "sp_tmp_path w1 = (Ret (Inr (Some k)), w2)"
    "sp_tmp_path w2 = (Ret (Inr (Some s)), w3)" "ready [o', u, a, b] w3"
    using staged [OF m(2)] by metis
  obtain w4 where t4: "sp_tmp_path w3 = (Ret (Inr (Some o')), w4)" "ready [u, a, b] w4"
    using tmp_ready [OF t(4)] by metis
  obtain w5 where t5: "sp_tmp_path w4 = (Ret (Inr (Some u)), w5)" "ready [a, b] w5"
    using tmp_ready [OF t4(2)] by metis
  have names: "path_ok p" "path_ok k" "path_ok s" "path_ok o'" "path_ok u" "distinct [p, k, s, o', u, a, b]"
    using m(2) by (auto simp: ready_def)
  obtain w6 where wi: "sp_write_all (Some p) d w5 = (Ret (Inr SP_OK), w6)" "ready [a, b] w6" "sw_files w6 = (sw_files w5)(p \<mapsto> d)"
    using write_ready [OF t5(2)] .
  obtain w7 where wk: "sp_write_all (Some k) (chars_bytes (ke_pub e)) w6 = (Ret (Inr SP_OK), w7)" "ready [a, b] w7"
    "sw_files w7 = (sw_files w6)(k \<mapsto> chars_bytes (ke_pub e))"
    using write_ready [OF wi(2)] .
  obtain w8 where bd: "sp_b64_decode sh (B sg) 8192 w7 = (Ret (Inr sg), w8)" "ready [] w8" "sw_files w8 = (sw_files w7)(a := None, b := None)"
    using b64_decode_result [OF b64 sg wk(2)] .
  obtain w9 where ws: "sp_write_all (Some s) sg w8 = (Ret (Inr SP_OK), w9)" "sw_files w9 = (sw_files w8)(s \<mapsto> sg)"
    using write_ready [OF bd(2)] by metis
  let ?cmd = "cstr 16384 (''openssl dgst -sha256 -verify '' @ quoted (Some k) @ '' -signature '' @ quoted (Some s) @ CHR '' '' # quoted (Some p))"
  obtain q v where q: "sh_bare q = Some o'" "sh_bare v = Some u" and run: "sp_sh sh ?cmd (Some o') (Some u) w9 =
      (case sh (?cmd @ '' > '' @ q @ '' 2> '' @ v) (sw_files w9) of (rc, fs) \<Rightarrow> (Ret (Inr rc), w9\<lparr>sw_files := fs\<rparr>))"
    using sp_sh_both [OF names(4,5) verify_length [OF names(2,3,1)]] by blast
  have "o' \<noteq> []" "u \<noteq> []" using names(4,5) by (simp_all add: path_ok_def)
  note tk = verify_tokens [OF names(2,3,1) q(1) this(1) q(2) this(2)]
  have "sw_files w9 k = Some (chars_bytes (ke_pub e))" "sw_files w9 p = Some d" "sw_files w9 s = Some sg" "{o', u} \<inter> {k, p, s} = {}"
    using names(6) by (auto simp: ws(2) bd(3) wk(3) wi(3))
  then have law: "fst (sh (?cmd @ '' > '' @ q @ '' 2> '' @ v) (sw_files w9)) = 0 \<longleftrightarrow> V (ke_pub e) d sg"
    using sign_okD(2) [OF ok _ _ _ _ tk] by blast
  obtain rc fs where rc: "sh (?cmd @ '' > '' @ q @ '' 2> '' @ v) (sw_files w9) = (rc, fs)" by force
  have run2: "sp_sh sh ?cmd (Some o') (Some u) w9 = (Ret (Inr rc), w9\<lparr>sw_files := fs\<rparr>)" unfolding run rc by simp
  have "rc = 0 \<longleftrightarrow> V (ke_pub e) d sg" using law unfolding rc by simp
  then show ?thesis
    by (simp add: sp_verify_def e andthen_app m(1) t(1-3) t4(1) t5(1) wi(1) wk(1) cleaning_app bd(1) ws(1) run2 [simplified])
qed

section \<open>Making keys\<close>

lemma gen_tokens:
  assumes "path_ok p" "path_ok q" and "sh_bare u = Some o'" "o' \<noteq> []" and "sh_bare v = Some e" "e \<noteq> []" and algo: "supported algo"
  obtains cmd where "sp_key_gen_cmd algo (Some p) (Some q) = Some cmd" and "length cmd \<le> 4000"
    and "sh_tokens (cmd @ '' > '' @ u @ '' 2> '' @ v) = Some (genpkey_words algo p @ And_then # pkey_words p q @ [Into, Word o', ErrInto, Word e])"
proof -
  note quotes = quoted_props [OF assms(1)] quoted_props [OF assms(2)]
  obtain cmd where cmd: "sp_key_gen_cmd algo (Some p) (Some q) = Some cmd" using algo by (auto simp: sp_key_gen_cmd_def supported_def)
  have "length cmd \<le> 4000 \<and>
      sh_tokens (cmd @ '' > '' @ u @ '' 2> '' @ v) = Some (genpkey_words algo p @ And_then # pkey_words p q @ [Into, Word o', ErrInto, Word e])"
  proof -
    consider "algo = 0" | "algo = 1" | "algo = 2" using algo by (auto simp: supported_def)
    then show ?thesis
    proof cases
      case 1
      then show ?thesis using cmd quotes
        by (auto simp: sp_key_gen_cmd_def sh_tokens_def plain_char_def lex_quoted(1) lex_quoted(2) [OF assms(5,6)] lex_quoted(1) [OF assms(3,4)]
            cstr_id genpkey_words_def pkey_words_def)
    next
      case 2
      then show ?thesis using cmd quotes
        by (auto simp: sp_key_gen_cmd_def sh_tokens_def plain_char_def lex_quoted(1) lex_quoted(2) [OF assms(5,6)] lex_quoted(1) [OF assms(3,4)]
            cstr_id genpkey_words_def pkey_words_def)
    next
      case 3
      then show ?thesis using cmd quotes
        by (auto simp: sp_key_gen_cmd_def sh_tokens_def plain_char_def lex_quoted(1) lex_quoted(2) [OF assms(5,6)] lex_quoted(1) [OF assms(3,4)]
            cstr_id genpkey_words_def pkey_words_def)
    qed
  qed
  with cmd that show thesis by blast
qed

lemma keys_okD:
  assumes "keys_ok sh GEN K PUB"
  shows "supported algo \<Longrightarrow> distinct [p, q, o', e] \<Longrightarrow>
      sh_tokens cmd = Some (genpkey_words algo p @ And_then # pkey_words p q @ [Into, Word o', ErrInto, Word e]) \<Longrightarrow>
      \<exists>x y. sh cmd fs = (0, fs(p \<mapsto> chars_bytes (GEN fs algo), q \<mapsto> chars_bytes (PUB (GEN fs algo)), o' \<mapsto> x, e \<mapsto> y))"
    and "K k \<Longrightarrow> fs p = Some (chars_bytes k) \<Longrightarrow> p \<noteq> q \<Longrightarrow> sh_tokens cmd = Some (pkey_words p q) \<Longrightarrow>
      sh cmd fs = (0, fs(q \<mapsto> chars_bytes (PUB k)))"
    and "K (GEN fs algo)" and "K k \<Longrightarrow> pem_ok k" and "K k \<Longrightarrow> pem_ok (PUB k)"
proof -
  note laws = assms [unfolded keys_ok_def]
  show "\<exists>x y. sh cmd fs = (0, fs(p \<mapsto> chars_bytes (GEN fs algo), q \<mapsto> chars_bytes (PUB (GEN fs algo)), o' \<mapsto> x, e \<mapsto> y))"
    if "supported algo" "distinct [p, q, o', e]"
      "sh_tokens cmd = Some (genpkey_words algo p @ And_then # pkey_words p q @ [Into, Word o', ErrInto, Word e])"
    by (rule laws [THEN conjunct1, rule_format, OF that])
  show "sh cmd fs = (0, fs(q \<mapsto> chars_bytes (PUB k)))"
    if "K k" "fs p = Some (chars_bytes k)" "p \<noteq> q" "sh_tokens cmd = Some (pkey_words p q)"
    by (rule laws [THEN conjunct2, THEN conjunct1, rule_format, OF that(1) _ that(3,4)]) (rule that(2))
  show "K (GEN fs algo)" using laws by blast
  show "K k \<Longrightarrow> pem_ok k" and "K k \<Longrightarrow> pem_ok (PUB k)" using laws by blast+
qed

lemma gen_result:
  assumes ok: "keys_ok sh GEN K PUB" and algo: "supported algo" and r: "ready ps w" "length ps = 4"
  shows "\<exists>k w1. gen_pems sh algo w = (Ret (Inr (k, PUB k)), w1) \<and> K k \<and> ready [] w1 \<and> sw_files w1 = sw_files w |` (- set ps)"
proof -
  obtain p q o' e where ps: "ps = [p, q, o', e]"
    using r(2) by (auto simp: numeral_eq_Suc length_Suc_conv)
  obtain w1 where t1: "sp_tmp_path w = (Ret (Inr (Some p)), w1)" "ready [q, o', e] w1" "sw_files w1 = (sw_files w)(p := None)"
    using tmp_ready [OF r(1) [unfolded ps]] .
  obtain w2 where t2: "sp_tmp_path w1 = (Ret (Inr (Some q)), w2)" "ready [o', e] w2" "sw_files w2 = (sw_files w1)(q := None)"
    using tmp_ready [OF t1(2)] .
  obtain w3 where t3: "sp_tmp_path w2 = (Ret (Inr (Some o')), w3)" "ready [e] w3" "sw_files w3 = (sw_files w2)(o' := None)"
    using tmp_ready [OF t2(2)] .
  obtain w4 where t4: "sp_tmp_path w3 = (Ret (Inr (Some e)), w4)" "ready [] w4" "sw_files w4 = (sw_files w3)(e := None)"
    using tmp_ready [OF t3(2)] .
  have names: "path_ok p" "path_ok q" "path_ok o'" "path_ok e" "distinct [p, q, o', e]"
    using r(1) ps by (auto simp: ready_def)
  obtain cmd where cmd: "sp_key_gen_cmd algo (Some p) (Some q) = Some cmd" "length cmd \<le> 4000"
    and tokens: "\<And>u v. sh_bare u = Some o' \<Longrightarrow> sh_bare v = Some e \<Longrightarrow>
      sh_tokens (cmd @ '' > '' @ u @ '' 2> '' @ v) = Some (genpkey_words algo p @ And_then # pkey_words p q @ [Into, Word o', ErrInto, Word e])"
  proof -
    obtain u v where uv: "sh_bare u = Some o'" "sh_bare v = Some e"
      using quoted_props(1) [OF names(3)] quoted_props(1) [OF names(4)] by blast
    have ne: "o' \<noteq> []" "e \<noteq> []" using names(3,4) by (simp_all add: path_ok_def)
    obtain cmd where cmd: "sp_key_gen_cmd algo (Some p) (Some q) = Some cmd" "length cmd \<le> 4000"
      using gen_tokens [OF names(1,2) uv(1) ne(1) uv(2) ne(2) algo] by metis
    have "sh_tokens (cmd @ '' > '' @ u @ '' 2> '' @ v) = Some (genpkey_words algo p @ And_then # pkey_words p q @ [Into, Word o', ErrInto, Word e])"
      if "sh_bare u = Some o'" "sh_bare v = Some e" for u v
      using gen_tokens [OF names(1,2) that(1) ne(1) that(2) ne(2) algo] cmd(1) by (metis option.inject)
    with cmd show thesis using that by blast
  qed
  obtain u v where uv: "sh_bare u = Some o'" "sh_bare v = Some e" and run: "sp_sh sh cmd (Some o') (Some e) w4 =
      (case sh (cmd @ '' > '' @ u @ '' 2> '' @ v) (sw_files w4) of (rc, fs) \<Rightarrow> (Ret (Inr rc), w4\<lparr>sw_files := fs\<rparr>))"
    using sp_sh_both [OF names(3,4) cmd(2)] by blast
  let ?k = "GEN (sw_files w4) algo"
  obtain x y where law: "sh (cmd @ '' > '' @ u @ '' 2> '' @ v) (sw_files w4) =
      (0, (sw_files w4)(p \<mapsto> chars_bytes ?k, q \<mapsto> chars_bytes (PUB ?k), o' \<mapsto> x, e \<mapsto> y))"
    using keys_okD(1) [OF ok algo names(5) tokens [OF uv]] by blast
  let ?w5 = "w4\<lparr>sw_files := (sw_files w4)(p \<mapsto> chars_bytes ?k, q \<mapsto> chars_bytes (PUB ?k), o' \<mapsto> x, e \<mapsto> y)\<rparr>"
  let ?w6 = "unlink1 (Some e) (unlink1 (Some o') ?w5)"
  have "sp_sh sh cmd (Some o') (Some e) w4 = (Ret (Inr 0), ?w5)" unfolding run law by simp
  then have quiet: "run_quiet sh cmd (Some o') (Some e) w4 = (Ret (Inr 0), ?w6)"
    by (simp add: run_quiet_def andthen_app)
  have "ready [] ?w6" using t4(2) by simp
  then obtain w7 where m1: "may_fail ?w6 = (Ret (Inr True), w7)" "ready [] w7" "sw_files w7 = sw_files ?w6"
    using may_fail_ready by metis
  obtain w8 where m2: "may_fail w7 = (Ret (Inr True), w8)" "ready [] w8" "sw_files w8 = sw_files w7"
    using may_fail_ready [OF m1(2)] by metis
  have k: "K ?k" by (rule keys_okD(3) [OF ok])
  have "sw_files w8 p = Some (chars_bytes ?k)" "sw_files w8 q = Some (chars_bytes (PUB ?k))"
    using names(5) by (auto simp: m2(3) m1(3))
  then have read: "read_pem (Some p) w8 = (Ret (Inr (Some ?k)), w8)" "read_pem (Some q) w8 = (Ret (Inr (Some (PUB ?k))), w8)"
    using keys_okD(4,5) [OF ok k] by (auto intro: read_pem_ok)
  have "gen_pems sh algo w = (Ret (Inr (?k, PUB ?k)), unlink1 (Some q) (unlink1 (Some p) w8))"
    by (simp add: gen_pems_def algo andthen_app t1(1) t2(1) cmd(1) t3(1) t4(1) quiet cleaning_app m1(1) m2(1) read)
  moreover have "ready [] (unlink1 (Some q) (unlink1 (Some p) w8))" using m2(2) by simp
  moreover have "sw_files (unlink1 (Some q) (unlink1 (Some p) w8)) = sw_files w |` (- set ps)"
  proof -
    have "set ps = set [o', e, p, q]" by (auto simp: ps)
    then show ?thesis by (simp only: unset_all) (simp add: m2(3) m1(3) t4(3) t3(3) t2(3) t1(3))
  qed
  ultimately show ?thesis using k by blast
qed

lemma import_result:
  assumes ok: "keys_ok sh GEN K PUB" and algo: "supported algo" and k: "K k" and r: "ready ps w" "length ps = 2"
  shows "\<exists>w1. derive_pub sh algo k w = (Ret (Inr (PUB k)), w1) \<and> ready [] w1"
proof -
  obtain p q where ps: "ps = [p, q]"
    using r(2) by (auto simp: numeral_eq_Suc length_Suc_conv)
  obtain w1 where t1: "sp_tmp_path w = (Ret (Inr (Some p)), w1)" "ready [q] w1"
    using tmp_ready [OF r(1) [unfolded ps]] by metis
  obtain w2 where t2: "sp_tmp_path w1 = (Ret (Inr (Some q)), w2)" "ready [] w2"
    using tmp_ready [OF t1(2)] by metis
  have names: "path_ok p" "path_ok q" "p \<noteq> q" using r(1) ps by (auto simp: ready_def)
  obtain w3 where wr: "sp_write_all (Some p) (chars_bytes k) w2 = (Ret (Inr SP_OK), w3)" "ready [] w3"
    "sw_files w3 = (sw_files w2)(p \<mapsto> chars_bytes k)"
    using write_ready [OF t2(2)] .
  let ?cmd = "cstr 16384 (''openssl pkey -in '' @ quoted (Some p) @ '' -pubout -out '' @ quoted (Some q))"
  have cmd: "sh_tokens ?cmd = Some (pkey_words p q)" "length ?cmd \<le> 4000"
    using quoted_props [OF names(1)] quoted_props [OF names(2)]
    by (simp_all add: sh_tokens_def plain_char_def lex_quoted cstr_id pkey_words_def)
  have "sh ?cmd (sw_files w3) = (0, (sw_files w3)(q \<mapsto> chars_bytes (PUB k)))"
    by (rule keys_okD(2) [OF ok k _ names(3) cmd(1)]) (simp add: wr(3))
  then have run: "sp_sh sh ?cmd None None w3 = (Ret (Inr SP_OK), w3\<lparr>sw_files := (sw_files w3)(q \<mapsto> chars_bytes (PUB k))\<rparr>)"
    by (simp only: sp_sh_plain [OF cmd(2)] prod.case)
  let ?w4 = "w3\<lparr>sw_files := (sw_files w3)(q \<mapsto> chars_bytes (PUB k))\<rparr>"
  have "ready [] ?w4" using wr(2) by simp
  then obtain w5 where m: "malloc_or SP_ENOMEM ?w4 = (Ret (Inr ()), w5)" "ready [] w5" "sw_files w5 = sw_files ?w4"
    using malloc_ready by metis
  have "read_pem (Some q) w5 = (Ret (Inr (Some (PUB k))), w5)"
    by (rule read_pem_ok) (simp_all add: m(3) keys_okD(5) [OF ok k])
  then have "derive_pub sh algo k w = (Ret (Inr (PUB k)), unlink1 (Some q) (unlink1 (Some p) w5))"
    by (simp add: derive_pub_def algo andthen_app t1(1) t2(1) cleaning_app wr(1) run [simplified] m(1))
  moreover have "ready [] (unlink1 (Some q) (unlink1 (Some p) w5))" using m(2) by simp
  ultimately show ?thesis by blast
qed

end
