(* ===== verification/SpKeyRing.thy ===== *)
theory SpKeyRing
  imports SpKeyCorrect
begin

text \<open>
  The key ring of the SP plugin in every run of \<^verbatim>\<open>sp/src/sp_key.c\<close>, whatever the programs and the allocator
  do: what an entry looks like, and that a revoked key stays revoked.  Then, with the contracts of
  \<^verbatim>\<open>SpKeyCorrect\<close>, that a signature verifies and how a revocation is got round.
\<close>

section \<open>Steps of the ring\<close>

text \<open>The ring of \<^verbatim>\<open>sp_init\<close>, and what operations with any arguments and any outcome make of a ring.\<close>

definition ring0 :: key_ring where
  "ring0 = \<lparr>kr_keys = [], kr_next = 1\<rparr>"

inductive key_step :: "shell_fun \<Rightarrow> key_ring \<Rightarrow> key_ring \<Rightarrow> bool" for sh where
  gen: "sp_gen_key_pair sh algo desc now r w = (x, r', w') \<Longrightarrow> key_step sh r r'"
| import_key: "list_all (\<lambda>c. c \<noteq> NULC) priv \<Longrightarrow> sp_import_key_pair sh algo desc (Some priv) now r w = (x, r', w') \<Longrightarrow> key_step sh r r'"
| revoke: "sp_revoke_key i r = (rc, r') \<Longrightarrow> key_step sh r r'"
| destroy: "sp_destroy_key i r = (rc, r') \<Longrightarrow> key_step sh r r'"

inductive key_run :: "shell_fun \<Rightarrow> nat \<Rightarrow> key_ring \<Rightarrow> key_ring \<Rightarrow> bool" for sh where
  start: "key_run sh 0 r r"
| step: "key_run sh n r r' \<Longrightarrow> key_step sh r' r'' \<Longrightarrow> key_run sh (Suc n) r r''"

text \<open>A well-formed entry, and a well-formed ring: numbered in the order of creation, newest first.\<close>

definition entry_wf :: "key_entry \<Rightarrow> bool" where
  "entry_wf e \<longleftrightarrow> supported (ke_algo e) \<and> length (ke_desc e) < 128 \<and> NULC \<notin> set (ke_priv e) \<and> NULC \<notin> set (ke_pub e)"

definition ring_wf :: "key_ring \<Rightarrow> bool" where
  "ring_wf r \<longleftrightarrow> sorted_wrt (\<lambda>e f. unat (ke_id f) < unat (ke_id e)) (kr_keys r) \<and>
     (\<forall>e \<in> set (kr_keys r). entry_wf e \<and> unat (ke_id e) < unat (kr_next r))"

lemma ring_wf_distinct:
  assumes "ring_wf r"
  shows "distinct (map ke_id (kr_keys r))"
proof -
  have "sorted_wrt (\<lambda>e f. unat (ke_id f) < unat (ke_id e)) es \<Longrightarrow> distinct (map ke_id es)" for es
    by (induction es) auto
  then show ?thesis using assms unfolding ring_wf_def by blast
qed

lemma c_text_no_nul: "NULC \<notin> set (c_text bs)"
  unfolding c_text_def by (auto dest: set_takeWhileD)

lemma enter_key_cases:
  assumes "enter_key algo desc priv pub now r w = (x, r', w')" and "supported algo" and "NULC \<notin> set priv" "NULC \<notin> set pub"
  shows "r' = r \<or> r' = r\<lparr>kr_next := kr_next r + 1\<rparr> \<or>
    (\<exists>e. entry_wf e \<and> \<not> ke_revoked e \<and> ke_id e = kr_next r \<and> r' = r\<lparr>kr_next := kr_next r + 1, kr_keys := e # kr_keys r\<rparr>)"
proof -
  let ?e = "\<lparr>ke_id = kr_next r, ke_algo = algo, ke_desc = cstr 128 (case desc of None \<Rightarrow> [] | Some d \<Rightarrow> d),
    ke_priv = priv, ke_pub = pub, ke_revoked = False, ke_created = now\<rparr>"
  have "entry_wf ?e" using assms(2-4) length_cstr_less [of 128] by (simp add: entry_wf_def)
  moreover have "r' = r \<or> r' = r\<lparr>kr_next := kr_next r + 1\<rparr> \<or> r' = r\<lparr>kr_next := kr_next r + 1, kr_keys := ?e # kr_keys r\<rparr>"
    using assms(1) by (auto simp: enter_key_def sp_key_new_entry_def Let_def split: prod.splits if_splits)
  ultimately show ?thesis by fastforce
qed

lemma gen_pems_result:
  assumes "gen_pems sh algo w = (Ret (Inr (a, b)), w')"
  shows "supported algo \<and> NULC \<notin> set a \<and> NULC \<notin> set b"
proof -
  have pem: "NULC \<notin> set s" if "read_pem p v = (Ret (Inr (Some s)), v')" for p v s v'
    using that by (auto simp: read_pem_def andthen_app c_text_no_nul split: prod.splits outcome.splits sum.splits if_splits)
  show ?thesis
    using assms by (auto simp: gen_pems_def andthen_app cleaning_app split: prod.splits outcome.splits sum.splits if_splits option.splits dest!: pem)
qed

lemma derive_pub_result:
  assumes "derive_pub sh algo k w = (Ret (Inr b), w')"
  shows "supported algo \<and> NULC \<notin> set b"
proof -
  have pem: "NULC \<notin> set s" if "read_pem p v = (Ret (Inr (Some s)), v')" for p v s v'
    using that by (auto simp: read_pem_def andthen_app c_text_no_nul split: prod.splits outcome.splits sum.splits if_splits)
  show ?thesis
    using assms by (auto simp: derive_pub_def andthen_app cleaning_app split: prod.splits outcome.splits sum.splits if_splits option.splits dest!: pem)
qed

text \<open>The five things a step can do.\<close>

lemma key_step_cases:
  assumes "key_step sh r r'"
  obtains (same) "r' = r"
    | (number) "r' = r\<lparr>kr_next := kr_next r + 1\<rparr>"
    | (new) e where "entry_wf e" "\<not> ke_revoked e" "ke_id e = kr_next r" "r' = r\<lparr>kr_next := kr_next r + 1, kr_keys := e # kr_keys r\<rparr>"
    | (revoked) i where "r' = r\<lparr>kr_keys := update_first (\<lambda>e. ke_id e = i) (\<lambda>e. e\<lparr>ke_revoked := True\<rparr>) (kr_keys r)\<rparr>"
    | (destroyed) i where "r' = r\<lparr>kr_keys := remove_first (\<lambda>e. ke_id e = i) (kr_keys r)\<rparr>"
  using assms
proof cases
  case (gen algo desc now w x w')
  show thesis
  proof (cases "\<exists>a b w1. gen_pems sh algo w = (Ret (Inr (a, b)), w1)")
    case True
    then obtain a b w1 where g: "gen_pems sh algo w = (Ret (Inr (a, b)), w1)" by blast
    then have "enter_key algo desc a b now r w1 = (x, r', w')" using gen by (simp add: sp_gen_key_pair_def)
    from enter_key_cases [OF this] gen_pems_result [OF g] show thesis using same number new by blast
  next
    case False
    then have "r' = r" using gen by (auto simp: sp_gen_key_pair_def split: prod.splits outcome.splits sum.splits)
    then show thesis by (rule same)
  qed
next
  case (import_key priv algo desc now w x w')
  show thesis
  proof (cases "\<exists>b w1. derive_pub sh algo priv w = (Ret (Inr b), w1)")
    case True
    then obtain b w1 where g: "derive_pub sh algo priv w = (Ret (Inr b), w1)" by blast
    then have "enter_key algo desc priv b now r w1 = (x, r', w')" using import_key by (simp add: sp_import_key_pair_def)
    moreover have "NULC \<notin> set priv" using import_key(1) by (auto simp: list_all_iff)
    ultimately show thesis using enter_key_cases derive_pub_result [OF g] same number new by blast
  next
    case False
    then have "r' = r" using import_key by (auto simp: sp_import_key_pair_def split: prod.splits outcome.splits sum.splits)
    then show thesis by (rule same)
  qed
next
  case (revoke i rc)
  then show thesis using same revoked by (auto simp: sp_revoke_key_def split: prod.splits option.splits)
next
  case (destroy i rc)
  then show thesis using same destroyed by (auto simp: sp_destroy_key_def split: if_splits)
qed

section \<open>Invariants\<close>

lemma unat_next: "unat (x :: 32 word) + 1 < 2 ^ 32 \<Longrightarrow> unat (x + 1) = unat x + 1"
  using unat_add_lem [of x 1] by simp

lemma sorted_update_first:
  "sorted_wrt (\<lambda>e f. unat (ke_id f) < unat (ke_id e)) es \<Longrightarrow>
    sorted_wrt (\<lambda>e f. unat (ke_id f) < unat (ke_id e)) (update_first P (\<lambda>e. e\<lparr>ke_revoked := True\<rparr>) es)"
proof (induction es)
  case (Cons x es)
  have "\<exists>y \<in> set es. ke_id z = ke_id y" if "z \<in> set (update_first P (\<lambda>e. e\<lparr>ke_revoked := True\<rparr>) es)" for z
    using set_update_first [OF that] by auto
  with Cons show ?case by fastforce
qed simp

lemma sorted_remove_first: "sorted_wrt R es \<Longrightarrow> sorted_wrt R (remove_first P es)"
  by (induction es) (auto dest: set_remove_first [THEN subsetD])

lemma key_step_wf:
  assumes "key_step sh r r'" and "ring_wf r" and "unat (kr_next r) + 1 < 2 ^ 32"
  shows "ring_wf r' \<and> unat (kr_next r) \<le> unat (kr_next r') \<and> unat (kr_next r') \<le> unat (kr_next r) + 1"
  using assms(1)
proof (cases rule: key_step_cases)
  case same
  then show ?thesis using assms(2) by simp
next
  case number
  then show ?thesis using assms(2) unat_next [OF assms(3)] by (auto simp: ring_wf_def)
next
  case (new e)
  then show ?thesis using assms(2) unat_next [OF assms(3)] by (auto simp: ring_wf_def)
next
  case (revoked i)
  have "entry_wf e \<and> unat (ke_id e) < unat (kr_next r)" if "e \<in> set (kr_keys r')" for e
    using set_update_first [of e] that revoked assms(2) by (fastforce simp: ring_wf_def entry_wf_def)
  then show ?thesis using revoked assms(2) by (simp add: ring_wf_def sorted_update_first)
next
  case (destroyed i)
  then show ?thesis using assms(2)
    by (auto simp: ring_wf_def sorted_remove_first dest: set_remove_first [THEN subsetD])
qed

lemma key_run_wf:
  "key_run sh n r r' \<Longrightarrow> ring_wf r \<Longrightarrow> unat (kr_next r) + n < 2 ^ 32 \<Longrightarrow>
    ring_wf r' \<and> unat (kr_next r) \<le> unat (kr_next r') \<and> unat (kr_next r') \<le> unat (kr_next r) + n"
proof (induction rule: key_run.induct)
  case (step n r r' r'')
  then have "ring_wf r'" "unat (kr_next r) \<le> unat (kr_next r')" "unat (kr_next r') \<le> unat (kr_next r) + n" by simp_all
  with key_step_wf [OF step.hyps(2) this(1)] step.prems(2) show ?case by simp
qed simp

text \<open>A number that is taken, and whose key is revoked or gone.\<close>

definition dead :: "32 word \<Rightarrow> key_ring \<Rightarrow> bool" where
  "dead i r \<longleftrightarrow> unat i < unat (kr_next r) \<and> (\<forall>e \<in> set (kr_keys r). ke_id e = i \<longrightarrow> ke_revoked e)"

lemma key_step_dead:
  assumes "key_step sh r r'" and "dead i r" and "unat (kr_next r) + 1 < 2 ^ 32"
  shows "dead i r'"
  using assms(1)
proof (cases rule: key_step_cases)
  case (revoked j)
  then show ?thesis using assms(2) set_update_first by (fastforce simp: dead_def)
next
  case (destroyed j)
  then show ?thesis using assms(2) by (auto simp: dead_def dest: set_remove_first [THEN subsetD])
qed (use assms(2) unat_next [OF assms(3)] in \<open>auto simp: dead_def\<close>)

lemma key_run_dead:
  "key_run sh n r r' \<Longrightarrow> ring_wf r \<Longrightarrow> dead i r \<Longrightarrow> unat (kr_next r) + n < 2 ^ 32 \<Longrightarrow> dead i r'"
proof (induction rule: key_run.induct)
  case (step n r r' r'')
  then have "dead i r'" by simp
  moreover have "unat (kr_next r') \<le> unat (kr_next r) + n" using key_run_wf [OF step.hyps(1)] step.prems by simp
  ultimately show ?case using key_step_dead [OF step.hyps(2)] step.prems by simp
qed

lemma update_revokes:
  assumes "f \<in> set (update_first (\<lambda>e. ke_id e = i) (\<lambda>e. e\<lparr>ke_revoked := True\<rparr>) es)" and "ke_id f = i" and "distinct (map ke_id es)"
  shows "ke_revoked f"
  using assms
proof (induction es)
  case (Cons x es)
  show ?case
  proof (cases "ke_id x = i")
    case True
    then have "f = x\<lparr>ke_revoked := True\<rparr> \<or> f \<in> set es" using Cons.prems(1) by simp
    moreover have "f \<notin> set es" using True Cons.prems(2,3) by (metis distinct.simps(2) imageI list.simps(9) set_map)
    ultimately show ?thesis by simp
  next
    case False
    then have "f = x \<or> f \<in> set (update_first (\<lambda>e. ke_id e = i) (\<lambda>e. e\<lparr>ke_revoked := True\<rparr>) es)" using Cons.prems(1) by simp
    then show ?thesis using False Cons by auto
  qed
qed simp

lemma dead_find:
  assumes "dead i r"
  obtains rc e where "sp_key_find i True r = (rc, e)" and "rc = SP_EACCES \<or> rc = SP_ENOTFOUND \<and> e = None"
proof (cases "find (\<lambda>e. ke_id e = i) (kr_keys r)")
  case None
  then show thesis using that by (simp add: sp_key_find_def)
next
  case (Some e)
  then have "ke_revoked e" using assms find_SomeD [OF Some] by (auto simp: dead_def)
  with Some that show thesis by (simp add: sp_key_find_def)
qed

section \<open>Entering keys in a world that does not fail\<close>

lemma enter_ready:
  assumes "ready ps w"
  shows "\<exists>w'. enter_key algo desc priv pub now r w = (Ret (Inr (kr_next r)),
    r\<lparr>kr_next := kr_next r + 1, kr_keys := \<lparr>ke_id = kr_next r, ke_algo = algo, ke_desc = cstr 128 (case desc of None \<Rightarrow> [] | Some d \<Rightarrow> d),
      ke_priv = priv, ke_pub = pub, ke_revoked = False, ke_created = now\<rparr> # kr_keys r\<rparr>, w')"
  using assms by (auto simp: enter_key_def sp_key_new_entry_def ready_def Let_def)

lemma find_entered:
  "\<exists>e. sp_key_find (kr_next r) True (r\<lparr>kr_next := n, kr_keys := \<lparr>ke_id = kr_next r, ke_algo = algo, ke_desc = desc,
      ke_priv = priv, ke_pub = pub, ke_revoked = False, ke_created = now\<rparr> # kr_keys r\<rparr>) = (SP_OK, Some e) \<and>
    ke_priv e = priv \<and> ke_pub e = pub"
  by (simp add: sp_key_find_def)

section \<open>A small shell that keeps the contracts\<close>

definition demo_key :: "string \<Rightarrow> bool" where
  "demo_key k \<longleftrightarrow> k \<noteq> [] \<and> length k \<le> 100 \<and> NULC \<notin> set k"

definition demo_gen :: "sp_files \<Rightarrow> int \<Rightarrow> string" where
  "demo_gen fs algo = ''secret''"

definition demo_pub :: "string \<Rightarrow> string" where
  "demo_pub k = CHR ''P'' # k"

definition demo_sig :: "string \<Rightarrow> byte list \<Rightarrow> byte list" where
  "demo_sig k d = [of_nat (length k), of_nat (length d), foldr (+) d 0]"

definition demo_valid :: "string \<Rightarrow> byte list \<Rightarrow> byte list \<Rightarrow> bool" where
  "demo_valid pub d sg \<longleftrightarrow> sg = demo_sig (tl pub) d"

definition key_shell_run :: "token list \<Rightarrow> sp_files \<Rightarrow> int \<times> sp_files" where
  "key_shell_run ts fs =
     (if length ts = 21 then
        (0, fs(word_at ts 8 \<mapsto> chars_bytes ''secret'', word_at ts 16 \<mapsto> chars_bytes (demo_pub ''secret''), word_at ts 18 \<mapsto> [], word_at ts 20 \<mapsto> []))
      else if word_at ts 1 = ''base64'' then
        (if length ts = 7 then convert (word_at ts 4) (word_at ts 6) (\<lambda>d. Some (chars_bytes (sp_to_hex d))) fs
         else convert (word_at ts 5) (word_at ts 7) (\<lambda>d. hex_bytes (bytes_chars d)) fs)
      else if word_at ts 1 = ''pkey'' then convert (word_at ts 3) (word_at ts 6) (\<lambda>d. Some (chars_bytes (demo_pub (bytes_chars d)))) fs
      else if length ts = 8 then
        convert (word_at ts 7) (word_at ts 6)
          (\<lambda>d. map_option (\<lambda>k. demo_sig (bytes_chars k) d) (fs (word_at ts 4))) fs
      else (case (fs (word_at ts 4), fs (word_at ts 6), fs (word_at ts 7)) of
              (Some k, Some sg, Some d) \<Rightarrow> (if demo_valid (bytes_chars k) d sg then 0 else 1, fs)
            | _ \<Rightarrow> (2, fs)))"

definition key_shell :: shell_fun where
  "key_shell cmd fs = (case sh_tokens cmd of None \<Rightarrow> (2, fs) | Some ts \<Rightarrow> key_shell_run ts fs)"

definition demo_ring :: key_ring where
  "demo_ring = \<lparr>kr_keys = [\<lparr>ke_id = 1, ke_algo = 0, ke_desc = [], ke_priv = ''secret'', ke_pub = ''Psecret'', ke_revoked = False, ke_created = 7\<rparr>],
     kr_next = 2\<rparr>"

lemma key_shell_keys: "keys_ok key_shell demo_gen demo_key demo_pub"
  unfolding keys_ok_def
proof (intro conjI)
  show "\<forall>cmd algo p q o' e fs. supported algo \<longrightarrow> distinct [p, q, o', e] \<longrightarrow>
      sh_tokens cmd = Some (genpkey_words algo p @ And_then # pkey_words p q @ [Into, Word o', ErrInto, Word e]) \<longrightarrow>
      (\<exists>x y. key_shell cmd fs = (0, fs(p \<mapsto> chars_bytes (demo_gen fs algo), q \<mapsto> chars_bytes (demo_pub (demo_gen fs algo)), o' \<mapsto> x, e \<mapsto> y)))"
    by (auto simp: key_shell_def key_shell_run_def genpkey_words_def pkey_words_def word_at_def demo_gen_def)
  show "\<forall>cmd p q fs k. demo_key k \<longrightarrow> fs p = Some (chars_bytes k) \<longrightarrow> p \<noteq> q \<longrightarrow> sh_tokens cmd = Some (pkey_words p q) \<longrightarrow>
      key_shell cmd fs = (0, fs(q \<mapsto> chars_bytes (demo_pub k)))"
    by (simp add: key_shell_def key_shell_run_def pkey_words_def word_at_def convert_def)
qed (auto simp: demo_gen_def demo_key_def demo_pub_def pem_ok_def)

lemma key_shell_sign: "sign_ok key_shell demo_key demo_pub (\<lambda>k d sg. sg = demo_sig k d) demo_valid"
  by (auto simp: sign_ok_def key_shell_def key_shell_run_def word_at_def convert_def demo_sig_def demo_valid_def demo_pub_def)

lemma key_shell_b64: "b64_ok key_shell sp_to_hex"
proof -
  have "\<not> b64_blank (last (sp_to_hex d))" if "d \<noteq> []" for d
  proof -
    have "sp_to_hex d \<noteq> []" using that by (auto simp flip: length_greater_0_conv)
    then show ?thesis using set_to_hex [of "last (sp_to_hex d)" d] by (auto simp: is_hex_def b64_blank_def)
  qed
  then show ?thesis
    by (auto simp: b64_ok_def key_shell_def key_shell_run_def word_at_def convert_def hex_bytes_to_hex simp flip: length_greater_0_conv)
qed

section \<open>Properties\<close>

text \<open>
  C34. In every run with fewer than 2 to the 32 operations, with any arguments and any failures, the key
  ring holds well-formed entries in the order of their creation, newest first, under distinct numbers.
\<close>

theorem sp_key_ring_wf:
  assumes "key_run sh n ring0 r" and "n + 1 < 2 ^ 32"
  shows "ring_wf r \<and> distinct (map ke_id (kr_keys r))"
proof -
  have "ring_wf ring0" by (simp add: ring0_def ring_wf_def)
  then have wf: "ring_wf r" using key_run_wf [OF assms(1)] assms(2) by (simp add: ring0_def)
  from this ring_wf_distinct [OF this] show ?thesis ..
qed

theorem sp_key_ring_wf_witness:
  "ring_wf (snd (sp_revoke_key 1 ring0)) \<and> distinct (map ke_id (kr_keys (snd (sp_revoke_key 1 ring0))))"
proof -
  have "key_run key_shell (Suc 0) ring0 (snd (sp_revoke_key 1 ring0))"
    by (rule key_run.step [OF key_run.start key_step.revoke]) (rule prod.collapse [symmetric])
  from sp_key_ring_wf [OF this] show ?thesis by simp
qed

text \<open>
  C36. Once a key is revoked its number is refused for signing, verifying and reading the public key, with
  \<^verbatim>\<open>SP_EACCES\<close> or, after the key was destroyed, \<^verbatim>\<open>SP_ENOTFOUND\<close>, whatever operations follow, until the
  numbers wrap around.
\<close>

theorem sp_revoked_stays_revoked:
  assumes run: "key_run sh n ring0 r" and rev: "sp_revoke_key i r = (SP_OK, r1)" and later: "key_run sh m r1 r2"
    and small: "n + m + 2 < 2 ^ 32"
  shows "\<exists>rc. (rc = SP_EACCES \<or> rc = SP_ENOTFOUND) \<and> (\<forall>cap. sp_get_public_key i (Some cap) r2 = Inl rc) \<and>
    (\<forall>d cap w. sp_sign sh i (Some d) (Some cap) r2 w = (Ret (Inl rc), w)) \<and>
    (\<forall>d s w. sp_verify sh i (Some d) (Some s) r2 w = (Ret (Inl rc), w))"
proof -
  have "ring_wf ring0" by (simp add: ring0_def ring_wf_def)
  then have wf: "ring_wf r" and num: "unat (kr_next r) \<le> n + 1"
    using key_run_wf [OF run] small by (simp_all add: ring0_def)
  obtain e where e: "find (\<lambda>e. ke_id e = i) (kr_keys r) = Some e"
    and r1: "r1 = r\<lparr>kr_keys := update_first (\<lambda>e. ke_id e = i) (\<lambda>e. e\<lparr>ke_revoked := True\<rparr>) (kr_keys r)\<rparr>"
    using rev by (auto simp: sp_revoke_key_def sp_key_find_def split: option.splits)
  have step: "key_step sh r r1" by (rule key_step.revoke [OF rev])
  have "unat (kr_next r) + 1 < 2 ^ 32" using num small by simp
  then have wf1: "ring_wf r1" and n1: "kr_next r1 = kr_next r" using key_step_wf [OF step wf] r1 by simp_all
  note dist = ring_wf_distinct [OF wf]
  have "unat i < unat (kr_next r)" using wf find_SomeD [OF e] by (auto simp: ring_wf_def)
  then have "dead i r1" using update_revokes dist by (auto simp: dead_def r1)
  then have "dead i r2" using key_run_dead [OF later wf1] n1 num small by simp
  then obtain rc f where f: "sp_key_find i True r2 = (rc, f)" "rc = SP_EACCES \<or> rc = SP_ENOTFOUND \<and> f = None"
    by (rule dead_find)
  have "sp_get_public_key i (Some cap) r2 = Inl rc" "sp_sign sh i (Some d) (Some cap) r2 w = (Ret (Inl rc), w)"
    "sp_verify sh i (Some d) (Some s) r2 w = (Ret (Inl rc), w)" for cap d s w
    using f by (auto simp: sp_get_public_key_def sp_sign_def sp_verify_def split: option.splits)
  with f(2) show ?thesis by blast
qed

theorem sp_revoked_stays_revoked_witness:
  "\<exists>r r1 rc. sp_revoke_key 1 r = (SP_OK, r1) \<and> (rc = SP_EACCES \<or> rc = SP_ENOTFOUND) \<and>
    (\<forall>cap. sp_get_public_key 1 (Some cap) r1 = Inl rc)"
proof -
  have "supported 0" by (simp add: supported_def)
  then obtain k v where g: "gen_pems key_shell 0 (demo_world 4) = (Ret (Inr (k, demo_pub k)), v)" "ready [] v"
    using gen_result [OF key_shell_keys, of 0 "demo_names 4" "demo_world 4"] by (auto simp: demo_ready)
  let ?r = "ring0\<lparr>kr_next := kr_next ring0 + 1, kr_keys := \<lparr>ke_id = kr_next ring0, ke_algo = 0, ke_desc = cstr 128 [],
    ke_priv = k, ke_pub = demo_pub k, ke_revoked = False, ke_created = 7\<rparr> # kr_keys ring0\<rparr>"
  obtain w' where "enter_key 0 None k (demo_pub k) 7 ring0 v = (Ret (Inr (kr_next ring0)), ?r, w')"
    using enter_ready [OF g(2), of 0 None k "demo_pub k" 7 ring0] by auto
  then have "sp_gen_key_pair key_shell 0 None 7 ring0 (demo_world 4) = (Ret (Inr (kr_next ring0)), ?r, w')"
    by (simp add: sp_gen_key_pair_def g(1))
  then have run: "key_run key_shell (Suc 0) ring0 ?r" by (rule key_run.step [OF key_run.start key_step.gen])
  have rev: "sp_revoke_key 1 ?r = (SP_OK, snd (sp_revoke_key 1 ?r))"
    by (simp add: sp_revoke_key_def sp_key_find_def ring0_def)
  show ?thesis using sp_revoked_stays_revoked [OF run rev key_run.start] rev by auto
qed

text \<open>
  C35. When the temporary files can be made, no call of the system fails, and \<^verbatim>\<open>openssl\<close> and \<^verbatim>\<open>base64\<close> behave
  as documented: a new key signs, and the new key verifies what it signed. The signature made of any data is accepted
  for that data, and for any other data the answer is the one \<^verbatim>\<open>openssl dgst -verify\<close> gives under the public key.
  Making the key, signing and verifying each run programs of their own (\<open>sh\<close>, \<open>sh1\<close>, \<open>sh2\<close>), as random keys and
  signatures differ from one run to the next.
\<close>

theorem sp_signature_verifies:
  assumes keys: "keys_ok sh GEN K PUB" and sign: "sign_ok sh1 K PUB SIG V" "b64_ok sh1 B"
    and verify: "sign_ok sh2 K PUB SIG V" "b64_ok sh2 B" and algo: "supported algo"
    and w: "ready ps w" "length ps = 4" and w1: "ready ps1 w1" "length ps1 = 5" and w2: "ready ps2 w2" "length ps2 = 7"
  shows "\<exists>i k r1 w'. sp_gen_key_pair sh algo desc now r w = (Ret (Inr i), r1, w') \<and> K k \<and>
    (\<forall>d. \<exists>sg. SIG k d sg \<and> fst (sp_sign sh1 i (Some d) (Some 8192) r1 w1) = Ret (Inr (B sg)) \<and>
      fst (sp_verify sh2 i (Some d) (Some (B sg)) r1 w2) = Ret (Inr True) \<and>
      (\<forall>d'. fst (sp_verify sh2 i (Some d') (Some (B sg)) r1 w2) = Ret (Inr (V (PUB k) d' sg))))"
proof -
  obtain k v where g: "gen_pems sh algo w = (Ret (Inr (k, PUB k)), v)" "K k" "ready [] v"
    using gen_result [OF keys algo w] by blast
  obtain w' where e: "enter_key algo desc k (PUB k) now r v = (Ret (Inr (kr_next r)),
      r\<lparr>kr_next := kr_next r + 1, kr_keys := \<lparr>ke_id = kr_next r, ke_algo = algo, ke_desc = cstr 128 (case desc of None \<Rightarrow> [] | Some d \<Rightarrow> d),
        ke_priv = k, ke_pub = PUB k, ke_revoked = False, ke_created = now\<rparr> # kr_keys r\<rparr>, w')" (is "_ = (_, ?r1, _)")
    using enter_ready [OF g(3)] by blast
  obtain en where en: "sp_key_find (kr_next r) True ?r1 = (SP_OK, Some en)" "ke_priv en = k" "ke_pub en = PUB k"
    using find_entered by metis
  have priv: "K (ke_priv en)" by (simp add: en(2) g(2))
  have "\<exists>sg. SIG k d sg \<and> fst (sp_sign sh1 (kr_next r) (Some d) (Some 8192) ?r1 w1) = Ret (Inr (B sg))" for d
    using sign_result [OF sign en(1) priv w1, of 8192 d] en(2) by force
  moreover have "fst (sp_verify sh2 (kr_next r) (Some d') (Some (B sg)) ?r1 w2) = Ret (Inr (V (PUB k) d' sg)) \<and> V (PUB k) d sg"
    if "SIG k d sg" for d d' sg
  proof -
    have sg: "V (PUB k) d sg" "length sg \<le> 4096" using sign_okD(3) [OF verify(1) g(2) that] by simp_all
    show ?thesis using verify_result [OF verify en(1) w2 sg(2)] sg(1) en(3) by simp
  qed
  moreover have "sp_gen_key_pair sh algo desc now r w = (Ret (Inr (kr_next r)), ?r1, w')"
    using e by (simp add: sp_gen_key_pair_def g(1))
  ultimately show ?thesis using g(2) by metis
qed

theorem sp_signature_verifies_witness:
  "\<exists>i k r1 w'. sp_gen_key_pair key_shell 0 None 7 ring0 (demo_world 4) = (Ret (Inr i), r1, w') \<and> demo_key k \<and>
    fst (sp_sign key_shell i (Some [5]) (Some 8192) r1 (demo_world 5)) = Ret (Inr (sp_to_hex (demo_sig k [5]))) \<and>
    fst (sp_verify key_shell i (Some [5]) (Some (sp_to_hex (demo_sig k [5]))) r1 (demo_world 7)) = Ret (Inr True) \<and>
    fst (sp_verify key_shell i (Some [6]) (Some (sp_to_hex (demo_sig k [5]))) r1 (demo_world 7)) = Ret (Inr False)"
proof -
  have "supported 0" by (simp add: supported_def)
  from sp_signature_verifies [OF key_shell_keys key_shell_sign key_shell_b64 key_shell_sign key_shell_b64 this,
      of "demo_names 4" "demo_world 4" "demo_names 5" "demo_world 5" "demo_names 7" "demo_world 7" None 7 ring0]
  obtain i k r1 w' where r1: "sp_gen_key_pair key_shell 0 None 7 ring0 (demo_world 4) = (Ret (Inr i), r1, w')" "demo_key k"
    and s: "fst (sp_sign key_shell i (Some [5]) (Some 8192) r1 (demo_world 5)) = Ret (Inr (sp_to_hex (demo_sig k [5])))"
      "fst (sp_verify key_shell i (Some [5]) (Some (sp_to_hex (demo_sig k [5]))) r1 (demo_world 7)) = Ret (Inr True)"
      "fst (sp_verify key_shell i (Some [6]) (Some (sp_to_hex (demo_sig k [5]))) r1 (demo_world 7)) =
        Ret (Inr (demo_valid (demo_pub k) [6] (demo_sig k [5])))"
    by (auto simp: demo_ready)
  have "\<not> demo_valid (demo_pub k) [6] (demo_sig k [5])" by (simp add: demo_valid_def demo_pub_def demo_sig_def)
  with r1 s show ?thesis by auto
qed

text \<open>
  A revocation is got round by two operations: the private key of a revoked number is still exported,
  and importing it again gives a new number, whose signatures the old public key verifies.
\<close>

theorem sp_revocation_undone:
  assumes keys: "keys_ok sh GEN K PUB" and sign: "sign_ok sh K PUB SIG V" and b64: "b64_ok sh B" and algo: "supported algo"
    and e: "sp_key_find i True r = (SP_OK, Some e)" "K (ke_priv e)" and wf: "ring_wf r"
    and w: "ready ps w" "length ps = 2" and w1: "ready ps1 w1" "length ps1 = 5"
  shows "\<exists>r1 j r2 w'. sp_revoke_key i r = (SP_OK, r1) \<and>
    fst (sp_sign sh i (Some d) (Some 8192) r1 w1) = Ret (Inl SP_EACCES) \<and>
    sp_export_private_key i (Some 16384) r1 = Inr (ke_priv e) \<and>
    sp_import_key_pair sh algo desc (Some (ke_priv e)) now r1 w = (Ret (Inr j), r2, w') \<and> j \<noteq> i \<and>
    (\<exists>sg. fst (sp_sign sh j (Some d) (Some 8192) r2 w1) = Ret (Inr (B sg)) \<and> V (PUB (ke_priv e)) d sg)"
proof -
  have find: "find (\<lambda>e. ke_id e = i) (kr_keys r) = Some e" using e(1) by (auto simp: sp_key_find_def split: option.splits if_splits)
  let ?r1 = "r\<lparr>kr_keys := update_first (\<lambda>e. ke_id e = i) (\<lambda>e. e\<lparr>ke_revoked := True\<rparr>) (kr_keys r)\<rparr>"
  have rev: "sp_revoke_key i r = (SP_OK, ?r1)" by (simp add: sp_revoke_key_def sp_key_find_def find)
  have find1: "find (\<lambda>e. ke_id e = i) (kr_keys ?r1) = Some (e\<lparr>ke_revoked := True\<rparr>)"
    using find by (simp add: find_update_first)
  have pem: "length (ke_priv e) + 1 \<le> 16384" using keys_okD(4) [OF keys e(2)] by (simp add: pem_ok_def)
  have refused: "fst (sp_sign sh i (Some d) (Some 8192) ?r1 w1) = Ret (Inl SP_EACCES)"
    by (simp add: sp_sign_def sp_key_find_def find1 [simplified])
  have export: "sp_export_private_key i (Some 16384) ?r1 = Inr (ke_priv e)"
    using pem by (simp add: sp_export_private_key_def sp_key_find_def find1 [simplified])
  obtain v where d: "derive_pub sh algo (ke_priv e) w = (Ret (Inr (PUB (ke_priv e))), v)" "ready [] v"
    using import_result [OF keys algo e(2) w] by blast
  obtain w' where en: "enter_key algo desc (ke_priv e) (PUB (ke_priv e)) now ?r1 v = (Ret (Inr (kr_next ?r1)),
      ?r1\<lparr>kr_next := kr_next ?r1 + 1, kr_keys := \<lparr>ke_id = kr_next ?r1, ke_algo = algo,
        ke_desc = cstr 128 (case desc of None \<Rightarrow> [] | Some d \<Rightarrow> d), ke_priv = ke_priv e, ke_pub = PUB (ke_priv e),
        ke_revoked = False, ke_created = now\<rparr> # kr_keys ?r1\<rparr>, w')" (is "_ = (_, ?r2, _)")
    using enter_ready [OF d(2)] by blast
  have import_ok: "sp_import_key_pair sh algo desc (Some (ke_priv e)) now ?r1 w = (Ret (Inr (kr_next r)), ?r2, w')"
    using en by (simp add: sp_import_key_pair_def d(1))
  obtain e2 where e2: "sp_key_find (kr_next ?r1) True ?r2 = (SP_OK, Some e2)" "ke_priv e2 = ke_priv e"
    using find_entered [of ?r1] by metis
  have "K (ke_priv e2)" using e(2) e2(2) by simp
  from sign_result [OF sign b64 e2(1) this w1, of 8192 d]
  obtain sg where sg: "SIG (ke_priv e) d sg" "fst (sp_sign sh (kr_next r) (Some d) (Some 8192) ?r2 w1) = Ret (Inr (B sg))"
    using e2(2) by auto
  moreover have "V (PUB (ke_priv e)) d sg" using sign_okD(3) [OF sign e(2) sg(1)] by simp
  ultimately have new: "\<exists>sg. fst (sp_sign sh (kr_next r) (Some d) (Some 8192) ?r2 w1) = Ret (Inr (B sg)) \<and> V (PUB (ke_priv e)) d sg" by blast
  have "kr_next r \<noteq> i" using wf find_SomeD [OF find] by (auto simp: ring_wf_def)
  with rev refused export import_ok new show ?thesis by metis
qed

theorem sp_revocation_undone_witness:
  "\<exists>r1 j r2 w'. sp_revoke_key 1 demo_ring = (SP_OK, r1) \<and> sp_export_private_key 1 (Some 16384) r1 = Inr ''secret'' \<and>
    sp_import_key_pair key_shell 0 None (Some ''secret'') 9 r1 (demo_world 2) = (Ret (Inr j), r2, w') \<and> j \<noteq> 1 \<and>
    (\<exists>sg. fst (sp_sign key_shell j (Some [5]) (Some 8192) r2 (demo_world 5)) = Ret (Inr (sp_to_hex sg)) \<and>
      demo_valid ''Psecret'' [5] sg)"
proof -
  have sup: "supported 0" by (simp add: supported_def)
  have e: "sp_key_find 1 True demo_ring = (SP_OK, Some (hd (kr_keys demo_ring)))" "ke_priv (hd (kr_keys demo_ring)) = ''secret''"
    and k: "demo_key (ke_priv (hd (kr_keys demo_ring)))" and wf: "ring_wf demo_ring"
    by (simp_all add: demo_ring_def sp_key_find_def demo_key_def ring_wf_def entry_wf_def supported_def)
  have "demo_pub ''secret'' = ''Psecret''" by (simp add: demo_pub_def)
  with sp_revocation_undone [OF key_shell_keys key_shell_sign key_shell_b64 sup e(1) k wf, of "demo_names 2" "demo_world 2"
      "demo_names 5" "demo_world 5" "[5]" None 9] e(2)
  show ?thesis by (simp add: demo_ready) metis
qed

end
