(* ===== verification/SpAuth.thy ===== *)
theory SpAuth
  imports SpUtil
begin

text \<open>
  Users, passwords and roles of the SP plugin, \<^verbatim>\<open>sp/src/sp_auth.c\<close>.

  The context \<open>sp_ctx\<close> is the user list and the content of the user file.  What the \<^verbatim>\<open>openssl\<close> program does
  is an argument: \<open>H\<close> is SHA-256 of some bytes (\<^const>\<open>None\<close> when the program fails) and \<open>rnd\<close> the random
  bytes it delivers.  The mutex is left out, and so is the pointer that \<open>sp_authenticate\<close> keeps after
  releasing it.
\<close>

section \<open>Roles\<close>

definition sp_role_matrix :: "(string \<times> string list) list" where
  "sp_role_matrix =
     [(''admin'', [''*'']),
      (''operator'', [''fs.write'', ''fs.read'', ''task.submit'', ''task.read'', ''key.sign'', ''net.config'']),
      (''viewer'', [''fs.read'', ''task.read'', ''log.read'']),
      (''security'', [''key.*'', ''user.*'', ''auth.*'', ''fs.read'', ''log.read''])]"

definition sp_perm_match :: "string \<Rightarrow> string \<Rightarrow> bool" where
  "sp_perm_match perm action =
     (if perm = ''*'' then True
      else if perm \<noteq> [] \<and> last perm = CHR ''*'' then
        take (length perm - 1) perm = take (length perm - 1) action
      else perm = action)"

fun role_rows_allow :: "(string \<times> string list) list \<Rightarrow> string \<Rightarrow> string \<Rightarrow> bool" where
  "role_rows_allow [] role action = False"
| "role_rows_allow ((r, perms) # rows) role action =
     (if r \<noteq> role then role_rows_allow rows role action
      else list_ex (\<lambda>p. sp_perm_match p action) perms)"

definition sp_role_allows :: "string \<Rightarrow> string \<Rightarrow> bool" where
  "sp_role_allows role action = role_rows_allow sp_role_matrix role action"

section \<open>Users\<close>

record sp_user =
  su_user :: string
  su_salt :: string
  su_hash :: string
  su_roles :: string
  su_enabled :: int

record sp_ctx =
  sp_users :: "sp_user list"
  sp_conf :: "string option"

definition sp_user_find_locked :: "sp_ctx \<Rightarrow> string \<Rightarrow> sp_user option" where
  "sp_user_find_locked s user = find (\<lambda>u. su_user u = user) (sp_users s)"

abbreviation SALT_LEN :: nat where "SALT_LEN \<equiv> 16"
abbreviation HASH_HEX_LEN :: nat where "HASH_HEX_LEN \<equiv> 64"

definition sp_password_hash ::
  "(byte list \<Rightarrow> byte list option) \<Rightarrow> string \<Rightarrow> string \<Rightarrow> nat \<Rightarrow> int + string" where
  "sp_password_hash H password salt_hex hash_cap =
     (case sp_from_hex salt_hex SALT_LEN of
        Inl _ \<Rightarrow> Inl SP_EINVAL
      | Inr salt \<Rightarrow>
          if length salt + length password > 4096 then Inl SP_EINVAL
          else
            (case H (salt @ chars_bytes password) of
               None \<Rightarrow> Inl SP_EIO
             | Some digest \<Rightarrow>
                 if hash_cap < HASH_HEX_LEN + 1 then Inl SP_ENOMEM else Inr (sp_to_hex (take 32 digest))))"

section \<open>The user file\<close>

definition has_sep :: "string \<Rightarrow> bool" where
  "has_sep s \<longleftrightarrow> list_ex (\<lambda>c. c = CHR '':'' \<or> c = NL) s"

definition user_line :: "sp_user \<Rightarrow> string" where
  "user_line u =
     su_user u @ '':'' @ su_salt u @ '':'' @ su_hash u @ '':'' @
     (if su_roles u \<noteq> [] then su_roles u else ''viewer'') @ '':'' @ show_int (su_enabled u)"

definition users_text :: "sp_user list \<Rightarrow> string" where
  "users_text us =
     concat (map (\<lambda>l. l @ [NL])
       (''# HWRun SP user table (salted sha256)'' #
        map user_line (filter (\<lambda>u. \<not> (has_sep (su_user u) \<or> has_sep (su_roles u) \<or> has_sep (su_salt u) \<or> has_sep (su_hash u))) us)))"

text \<open>\<open>io\<close> is 0, or \<open>SP_EIO\<close> when opening, closing or renaming fails.\<close>

definition sp_users_save :: "int \<Rightarrow> sp_ctx \<Rightarrow> int \<times> sp_ctx" where
  "sp_users_save io s = (if io \<noteq> 0 then (io, s) else (SP_OK, s\<lparr>sp_conf := Some (users_text (sp_users s))\<rparr>))"

definition atoi :: "string \<Rightarrow> int" where
  "atoi s = to_int32 (fst (strtol s))"

definition parse_user :: "string \<Rightarrow> sp_user option" where
  "parse_user line =
     (case tokens (\<lambda>c. c = CHR '':'') line of
        user # salt # hash # rest \<Rightarrow>
          Some \<lparr>su_user = cstr 64 user, su_salt = cstr 80 salt, su_hash = cstr 160 hash,
                su_roles = cstr 128 (case rest of roles # _ \<Rightarrow> roles | [] \<Rightarrow> ''viewer''),
                su_enabled = (case rest of _ # en # _ \<Rightarrow> atoi en | _ \<Rightarrow> 1)\<rparr>
      | _ \<Rightarrow> None)"

fun load_lines :: "allocs \<Rightarrow> sp_user list \<Rightarrow> string list \<Rightarrow> sp_user list" where
  "load_lines al us [] = us"
| "load_lines al us (l # ls) =
     (let line = takeWhile (\<lambda>c. c \<noteq> CR \<and> c \<noteq> NL) l in
      if line = [] \<or> hd line = CHR ''#'' then load_lines al us ls
      else
        (case parse_user line of
           None \<Rightarrow> load_lines al us ls
         | Some u \<Rightarrow> (case alloc al of (ok, al') \<Rightarrow> if \<not> ok then us else load_lines al' (u # us) ls)))"

definition sp_users_load :: "allocs \<Rightarrow> sp_ctx \<Rightarrow> sp_ctx" where
  "sp_users_load al s =
     (case sp_conf s of None \<Rightarrow> s | Some c \<Rightarrow> s\<lparr>sp_users := load_lines al (sp_users s) (fgets_all 1024 c)\<rparr>)"

definition sp_auth_init :: "allocs \<Rightarrow> sp_ctx \<Rightarrow> int \<times> sp_ctx" where
  "sp_auth_init al s = (SP_OK, sp_users_load al s)"

definition sp_auth_cleanup :: "sp_ctx \<Rightarrow> int \<times> sp_ctx" where
  "sp_auth_cleanup s = (SP_OK, s\<lparr>sp_users := []\<rparr>)"

section \<open>Operations\<close>

definition sp_add_user ::
  "(byte list \<Rightarrow> byte list option) \<Rightarrow> byte list option \<Rightarrow> bool \<Rightarrow> int \<Rightarrow> sp_ctx \<Rightarrow>
   string option \<Rightarrow> string option \<Rightarrow> string option \<Rightarrow> int \<Rightarrow> int \<times> sp_ctx" where
  "sp_add_user H rnd ok io s user password roles enabled =
     (case (user, password) of
        (Some user, Some password) \<Rightarrow>
          if user = [] then (SP_EINVAL, s)
          else if has_sep user then (SP_EINVAL, s)
          else
            (case rnd of
               None \<Rightarrow> (SP_EIO, s)
             | Some salt \<Rightarrow>
                 (case sp_password_hash H password (sp_to_hex salt) (HASH_HEX_LEN + 1) of
                    Inl rc \<Rightarrow> (rc, s)
                  | Inr hash_hex \<Rightarrow>
                      if sp_user_find_locked s user \<noteq> None then (SP_EEXIST, s)
                      else if \<not> ok then (SP_ENOMEM, s)
                      else sp_users_save io (s\<lparr>sp_users :=
                        \<lparr>su_user = cstr 64 user, su_salt = cstr 80 (sp_to_hex salt), su_hash = cstr 160 hash_hex,
                         su_roles = cstr 128 (case roles of Some (r # rs) \<Rightarrow> r # rs | _ \<Rightarrow> ''viewer''),
                         su_enabled = (if enabled \<noteq> 0 then 1 else 0)\<rparr> # sp_users s\<rparr>)))
      | _ \<Rightarrow> (SP_EINVAL, s))"

definition sp_del_user :: "int \<Rightarrow> sp_ctx \<Rightarrow> string option \<Rightarrow> int \<times> sp_ctx" where
  "sp_del_user io s user =
     (case user of
        None \<Rightarrow> (SP_EINVAL, s)
      | Some user \<Rightarrow>
          if find (\<lambda>u. su_user u = user) (sp_users s) = None then (SP_ENOTFOUND, s)
          else sp_users_save io (s\<lparr>sp_users := remove_first (\<lambda>u. su_user u = user) (sp_users s)\<rparr>))"

text \<open>The first 64 bytes of a buffer that holds a string and zeros.\<close>

definition buf64 :: "string \<Rightarrow> byte list" where
  "buf64 s = take HASH_HEX_LEN (chars_bytes s @ replicate HASH_HEX_LEN 0)"

text \<open>The code and the session id, when one is asked for (\<open>id_cap > 0\<close>).\<close>

definition sp_authenticate ::
  "(byte list \<Rightarrow> byte list option) \<Rightarrow> byte list option \<Rightarrow> nat \<Rightarrow> sp_ctx \<Rightarrow> string option \<Rightarrow> string option \<Rightarrow> nat
   \<Rightarrow> int \<times> string option" where
  "sp_authenticate H rnd now_ms s user password id_cap =
     (case (user, password) of
        (Some user, Some password) \<Rightarrow>
          (case sp_user_find_locked s user of
             None \<Rightarrow> (SP_EBADCRED, None)
           | Some u \<Rightarrow>
               if su_enabled u = 0 then (SP_EBADCRED, None)
               else
                 (case sp_password_hash H password (su_salt u) (HASH_HEX_LEN + 1) of
                    Inl rc \<Rightarrow> (rc, None)
                  | Inr calc \<Rightarrow>
                      if sp_ct_eq (buf64 calc) (buf64 (su_hash u)) HASH_HEX_LEN \<noteq> 0 then (SP_EBADCRED, None)
                      else (SP_OK,
                        if id_cap = 0 then None
                        else Some (cstr id_cap (''sess-'' @
                          (case rnd of Some r \<Rightarrow> sp_to_hex r | None \<Rightarrow> cstr 40 (show_nat now_ms)) @ ''-'' @ user)))))
      | _ \<Rightarrow> (SP_EINVAL, None))"

fun roles_allow :: "string list \<Rightarrow> string \<Rightarrow> bool" where
  "roles_allow [] action = False"
| "roles_allow (t # ts) action =
     (if sp_role_allows (dropWhile isblank t) action then True else roles_allow ts action)"

definition sp_check_acl :: "sp_ctx \<Rightarrow> string option \<Rightarrow> string option \<Rightarrow> int \<times> bool" where
  "sp_check_acl s user action =
     (case (user, action) of
        (Some user, Some action) \<Rightarrow>
          (SP_OK,
           case sp_user_find_locked s user of
             None \<Rightarrow> False
           | Some u \<Rightarrow> roles_allow (tokens (\<lambda>c. c = CHR '','') (cstr 128 (su_roles u))) action)
      | _ \<Rightarrow> (SP_EINVAL, False))"

definition sp_authorize :: "sp_ctx \<Rightarrow> string option \<Rightarrow> string option \<Rightarrow> int" where
  "sp_authorize s user action =
     (case sp_check_acl s user action of
        (rc, allowed) \<Rightarrow> if rc \<noteq> SP_OK then rc else if allowed then SP_OK else SP_EACCES)"

section \<open>Lookups\<close>

definition users_wf :: "sp_user list \<Rightarrow> bool" where
  "users_wf us \<longleftrightarrow> distinct (map su_user us)"

lemma find_rev_distinct:
  "distinct (map su_user us) \<Longrightarrow> find (\<lambda>u. su_user u = x) (rev us) = find (\<lambda>u. su_user u = x) us"
proof (induction us)
  case (Cons u us)
  then have IH: "find (\<lambda>u. su_user u = x) (rev us) = find (\<lambda>u. su_user u = x) us" by simp
  show ?case
  proof (cases "su_user u = x")
    case True
    then have "x \<notin> su_user ` set us" using Cons.prems by simp
    then have "find (\<lambda>u. su_user u = x) us = None" unfolding find_None by blast
    then show ?thesis using IH True by (simp add: find_append)
  next
    case False
    then show ?thesis using IH by (simp add: find_append split: option.splits)
  qed
qed simp

section \<open>The policy as an instance of the shared contract\<close>

definition user_roles :: "sp_ctx \<Rightarrow> string \<Rightarrow> string list" where
  "user_roles s user =
     (case sp_user_find_locked s user of
        None \<Rightarrow> []
      | Some u \<Rightarrow> map (dropWhile isblank) (tokens (\<lambda>c. c = CHR '','') (cstr 128 (su_roles u))))"

definition authorized :: "sp_ctx \<Rightarrow> string \<Rightarrow> string \<Rightarrow> bool" where
  "authorized s user action \<longleftrightarrow> sp_authorize s (Some user) (Some action) = SP_OK"

lemma roles_allow_iff: "roles_allow ts action \<longleftrightarrow> (\<exists>t \<in> set ts. sp_role_allows (dropWhile isblank t) action)"
  by (induction ts) auto

interpretation sp_policy: role_policy user_roles "\<lambda>_ role action. sp_role_allows role action" authorized
  by unfold_locales
    (auto simp: authorized_def sp_authorize_def sp_check_acl_def user_roles_def roles_allow_iff split: option.splits)

text \<open>What a role grants, read off the table.\<close>

definition grants :: "string \<Rightarrow> string \<Rightarrow> bool" where
  "grants role action \<longleftrightarrow>
     (\<exists>perms p. (role, perms) \<in> set sp_role_matrix \<and> p \<in> set perms \<and>
        (p = action \<or> (\<exists>q. p = q @ ''*'' \<and> prefix q action)))"

lemma perm_match_iff: "sp_perm_match p action \<longleftrightarrow> (if p \<noteq> [] \<and> last p = CHR ''*'' then prefix (butlast p) action else p = action)"
proof (cases p rule: rev_cases)
  case (snoc q c)
  have "q = take (length q) action \<longleftrightarrow> prefix q action"
    by (metis append_eq_conv_conj prefix_def take_is_prefix)
  with snoc show ?thesis by (auto simp: sp_perm_match_def)
qed (simp add: sp_perm_match_def)

lemma perm_match_grants: "sp_perm_match p action \<longleftrightarrow> p = action \<or> (\<exists>q. p = q @ ''*'' \<and> prefix q action)"
proof (cases p rule: rev_cases)
  case (snoc q c)
  then show ?thesis
    unfolding perm_match_iff by (auto simp: butlast_append intro: prefixI)
qed (simp add: perm_match_iff)

lemma role_rows_iff:
  "distinct (map fst rows) \<Longrightarrow>
     role_rows_allow rows role action \<longleftrightarrow> (\<exists>perms p. (role, perms) \<in> set rows \<and> p \<in> set perms \<and> sp_perm_match p action)"
proof (induction rows role action rule: role_rows_allow.induct)
  case (2 r perms rows role action)
  show ?case
  proof (cases "r = role")
    case True
    then have "(role, ps) \<notin> set rows" for ps using "2.prems" by force
    with True show ?thesis by (auto simp: list_ex_iff)
  next
    case False
    with 2 show ?thesis by auto
  qed
qed simp

lemma role_allows_grants: "sp_role_allows role action \<longleftrightarrow> grants role action"
proof -
  have "distinct (map fst sp_role_matrix)" by (simp add: sp_role_matrix_def)
  then show ?thesis
    unfolding sp_role_allows_def grants_def by (simp add: role_rows_iff perm_match_grants)
qed

section \<open>Passwords\<close>

lemma length_buf64 [simp]: "length (buf64 s) = HASH_HEX_LEN"
  by (simp add: buf64_def chars_bytes_def)

lemma buf64_full: "length a = HASH_HEX_LEN \<Longrightarrow> buf64 a = chars_bytes a"
  by (simp add: buf64_def chars_bytes_def)

lemma buf64_inj: "length a = HASH_HEX_LEN \<Longrightarrow> length b = HASH_HEX_LEN \<Longrightarrow> buf64 a = buf64 b \<Longrightarrow> a = b"
  by (simp add: buf64_full chars_bytes_inj)

section \<open>The user file\<close>

text \<open>Entries that can be written and read back.\<close>

definition field_ok :: "nat \<Rightarrow> string \<Rightarrow> bool" where
  "field_ok mx f \<longleftrightarrow> f \<noteq> [] \<and> length f < mx \<and> (\<forall>c \<in> set f. c \<noteq> CHR '':'' \<and> c \<noteq> NL \<and> c \<noteq> CR)"

definition user_clean :: "sp_user \<Rightarrow> bool" where
  "user_clean u \<longleftrightarrow> field_ok 64 (su_user u) \<and> hd (su_user u) \<noteq> CHR ''#'' \<and> field_ok 80 (su_salt u) \<and>
     field_ok 160 (su_hash u) \<and> field_ok 128 (su_roles u) \<and> (su_enabled u = 0 \<or> su_enabled u = 1)"

lemma has_sep_field: "field_ok mx f \<Longrightarrow> \<not> has_sep f"
  by (auto simp: field_ok_def has_sep_def list_ex_iff)

abbreviation colon_words :: "string \<Rightarrow> string list" where
  "colon_words s \<equiv> tokens (\<lambda>c. c = CHR '':'') s"

lemma colon_field: "field_ok mx f \<Longrightarrow> colon_words (f @ CHR '':'' # r) = f # colon_words r"
  using tokens_word [of f "\<lambda>c. c = CHR '':''" "CHR '':'' # r"] by (simp add: field_ok_def)

lemma enabled_text: "e = 0 \<or> e = 1 \<Longrightarrow> show_int e = [digit (nat e)]"
proof -
  have "show_nat n = [digit n]" if "n < 10" for n using that by (subst show_nat.simps) simp
  then show "e = 0 \<or> e = 1 \<Longrightarrow> show_int e = [digit (nat e)]" by (auto simp: show_int_def)
qed

lemma enabled_chars: "e = 0 \<or> e = 1 \<Longrightarrow> c \<in> set (show_int e) \<Longrightarrow> c \<noteq> CHR '':'' \<and> c \<noteq> NL \<and> c \<noteq> CR"
proof -
  assume e: "e = 0 \<or> e = 1" and c: "c \<in> set (show_int e)"
  then have "c \<in> set (show_nat (nat e))" by (auto simp: show_int_def)
  then have "isdigit c" by (rule show_nat_digits)
  then show "c \<noteq> CHR '':'' \<and> c \<noteq> NL \<and> c \<noteq> CR" by (auto simp: isdigit_def)
qed

lemma atoi_enabled: "e = 0 \<or> e = 1 \<Longrightarrow> atoi (show_int e) = e"
  by (auto simp: atoi_def strtol_show_int to_int32_def)

lemma parse_user_line:
  assumes "user_clean u"
  shows "parse_user (user_line u) = Some u"
proof -
  have f: "field_ok 64 (su_user u)" "field_ok 80 (su_salt u)" "field_ok 160 (su_hash u)" "field_ok 128 (su_roles u)"
    and e: "su_enabled u = 0 \<or> su_enabled u = 1" using assms by (auto simp: user_clean_def)
  have "colon_words (show_int (su_enabled u)) = [show_int (su_enabled u)]"
    using tokens_word [of "show_int (su_enabled u)" "\<lambda>c. c = CHR '':''" "[]"] enabled_chars [OF e]
    by (auto simp: enabled_text [OF e])
  moreover have "su_roles u \<noteq> []" using f(4) by (simp add: field_ok_def)
  ultimately have "colon_words (user_line u) =
      [su_user u, su_salt u, su_hash u, su_roles u, show_int (su_enabled u)]"
    by (simp add: user_line_def colon_field [OF f(1)] colon_field [OF f(2)] colon_field [OF f(3)] colon_field [OF f(4)])
  then show ?thesis
    using f by (simp add: parse_user_def cstr_simps field_ok_def atoi_enabled [OF e])
qed

lemma user_line_chars:
  assumes "user_clean u"
  shows "c \<in> set (user_line u) \<Longrightarrow> c \<noteq> NL \<and> c \<noteq> CR" and "length (user_line u) + 1 < 1024"
    and "user_line u \<noteq> [] \<and> hd (user_line u) \<noteq> CHR ''#''"
proof -
  have e: "su_enabled u = 0 \<or> su_enabled u = 1" using assms by (auto simp: user_clean_def)
  let ?ok = "list_all (\<lambda>c. c \<noteq> NL \<and> c \<noteq> CR)"
  have "?ok (su_user u)" "?ok (su_salt u)" "?ok (su_hash u)" "?ok (su_roles u)"
    using assms by (auto simp: user_clean_def field_ok_def list_all_iff)
  moreover have "?ok (show_int (su_enabled u))" using enabled_chars [OF e] by (auto simp: list_all_iff)
  ultimately have "?ok (user_line u)" by (simp add: user_line_def)
  then show "c \<in> set (user_line u) \<Longrightarrow> c \<noteq> NL \<and> c \<noteq> CR" by (simp add: list_all_iff)
  show "length (user_line u) + 1 < 1024"
    using assms by (simp add: user_line_def user_clean_def field_ok_def enabled_text [OF e])
  show "user_line u \<noteq> [] \<and> hd (user_line u) \<noteq> CHR ''#''"
    using assms by (cases "su_user u") (simp_all add: user_line_def user_clean_def field_ok_def)
qed

lemma load_user_line:
  assumes "user_clean u"
  shows "load_lines [] us ((user_line u @ [NL]) # ls) = load_lines [] (u # us) ls"
proof -
  have "takeWhile (\<lambda>c. c \<noteq> CR \<and> c \<noteq> NL) (user_line u @ [NL]) = user_line u"
    using user_line_chars(1) [OF assms] by (simp add: takeWhile_append2)
  then show ?thesis using user_line_chars(3) [OF assms] parse_user_line [OF assms] by simp
qed

lemma load_user_lines:
  "\<forall>u \<in> set us. user_clean u \<Longrightarrow> load_lines [] acc (map (\<lambda>l. l @ [NL]) (map user_line us)) = rev us @ acc"
proof (induction us arbitrary: acc)
  case (Cons u us)
  then show ?case using load_user_line [of u acc] by (simp del: load_lines.simps)
qed simp

lemma load_users_text:
  assumes "\<forall>u \<in> set us. user_clean u"
  shows "load_lines [] [] (fgets_all 1024 (users_text us)) = rev us"
proof -
  let ?h = "''# HWRun SP user table (salted sha256)''"
  have f: "filter (\<lambda>u. \<not> (has_sep (su_user u) \<or> has_sep (su_roles u) \<or> has_sep (su_salt u) \<or> has_sep (su_hash u))) us = us"
    using assms by (intro filter_True) (auto simp: user_clean_def dest: has_sep_field)
  have "\<forall>l \<in> set (?h # map user_line us). NL \<notin> set l \<and> length l + 1 < 1024"
    using assms user_line_chars(1,2) by auto
  from fgets_all_lines [OF this, of "[]"]
  have "fgets_all 1024 (users_text us) = map (\<lambda>l. l @ [NL]) (?h # map user_line us)"
    unfolding users_text_def f by simp
  moreover have "load_lines [] [] ((?h @ [NL]) # ls) = load_lines [] [] ls" for ls by simp
  ultimately show ?thesis using load_user_lines [OF assms, of "[]"] by (simp del: load_lines.simps)
qed

section \<open>Properties\<close>

text \<open>
  A process that starts with the user file another one wrote has the same users: every
  authentication and every authorization has the same result, for any hash function.
\<close>

theorem sp_users_survive_restart:
  assumes "\<forall>u \<in> set (sp_users s). user_clean u" "distinct (map su_user (sp_users s))"
    and "sp_users_save 0 s = (rc, s')"
  shows "rc = SP_OK \<and>
    (let t = snd (sp_auth_init [] (snd (sp_auth_cleanup s'))) in
     set (sp_users t) = set (sp_users s) \<and>
     (\<forall>H rnd now user pw cap. sp_authenticate H rnd now t user pw cap = sp_authenticate H rnd now s user pw cap) \<and>
     (\<forall>user action. sp_authorize t user action = sp_authorize s user action))"
proof -
  let ?t = "snd (sp_auth_init [] (snd (sp_auth_cleanup s')))"
  have s': "rc = SP_OK" "s' = s\<lparr>sp_conf := Some (users_text (sp_users s))\<rparr>"
    using assms(3) by (auto simp: sp_users_save_def)
  then have t: "sp_users ?t = rev (sp_users s)"
    using load_users_text [OF assms(1)]
    by (simp add: sp_auth_init_def sp_auth_cleanup_def sp_users_load_def)
  then have f: "sp_user_find_locked ?t user = sp_user_find_locked s user" for user
    using find_rev_distinct [OF assms(2)] by (simp add: sp_user_find_locked_def)
  have "sp_authenticate H rnd now ?t user pw cap = sp_authenticate H rnd now s user pw cap" for H rnd now user pw cap
    unfolding sp_authenticate_def f by simp
  moreover have "sp_authorize ?t user action = sp_authorize s user action" for user action
    unfolding sp_authorize_def sp_check_acl_def f by simp
  ultimately show ?thesis using s'(1) t by (simp add: Let_def)
qed

definition demo_user :: sp_user where
  "demo_user = \<lparr>su_user = ''bob'', su_salt = ''00'', su_hash = ''ab'', su_roles = ''viewer, operator'', su_enabled = 0\<rparr>"

theorem sp_users_survive_restart_witness:
  "sp_authorize (snd (sp_auth_init [] (snd (sp_auth_cleanup (snd (sp_users_save 0
     \<lparr>sp_users = [demo_user], sp_conf = None\<rparr>)))))) (Some ''bob'') (Some ''fs.write'') = SP_OK"
proof -
  let ?s = "\<lparr>sp_users = [demo_user], sp_conf = None\<rparr>"
  have c: "\<forall>u \<in> set (sp_users ?s). user_clean u" by code_simp
  obtain rc s' where s': "sp_users_save 0 ?s = (rc, s')" by force
  have "sp_authorize ?s (Some ''bob'') (Some ''fs.write'') = SP_OK"
    by (simp add: sp_authorize_def sp_check_acl_def sp_user_find_locked_def demo_user_def cstr_simps
        tokens.simps sp_role_allows_def sp_role_matrix_def sp_perm_match_def isblank_def Let_def)
  with sp_users_survive_restart [OF c _ s'] s' show ?thesis by (simp add: Let_def)
qed

text \<open>
  C23. After a user is added, the password given authenticates it, and any other password is refused
  unless it hashes with the same salt to the same digest; a disabled user is always refused.
\<close>

theorem sp_add_then_authenticate:
  assumes "sp_add_user H (Some salt) ok 0 s (Some user) (Some pw) roles enabled = (SP_OK, s')"
    and "length salt = 16" "length user < 64" "\<And>x d. H x = Some d \<Longrightarrow> length d = 32"
    and "length pw' + 16 \<le> 4096" "H (salt @ chars_bytes pw') \<noteq> None"
  shows "fst (sp_authenticate H rnd now s' (Some user) (Some pw') cap) =
    (if enabled \<noteq> 0 \<and> H (salt @ chars_bytes pw') = H (salt @ chars_bytes pw) then SP_OK else SP_EBADCRED)"
proof -
  have r: "sp_from_hex (sp_to_hex salt) SALT_LEN = Inr salt" using assms(2) by (intro sp_hex_roundtrip) simp
  obtain d where d: "H (salt @ chars_bytes pw) = Some d" "length pw + 16 \<le> 4096"
    using assms(1,2) r
    by (auto simp: sp_add_user_def sp_password_hash_def split: if_splits option.splits)
  obtain d' where d': "H (salt @ chars_bytes pw') = Some d'" using assms(6) by blast
  have l: "length d = 32" "length d' = 32" using assms(4) d d' by auto
  let ?u = "\<lparr>su_user = user, su_salt = sp_to_hex salt, su_hash = sp_to_hex d,
      su_roles = cstr 128 (case roles of Some (r # rs) \<Rightarrow> r # rs | _ \<Rightarrow> ''viewer''), su_enabled = (if enabled \<noteq> 0 then 1 else 0)\<rparr>"
  have "sp_users s' = ?u # sp_users s"
    using assms(1-3) r d l
    by (auto simp: sp_add_user_def sp_password_hash_def sp_users_save_def cstr_simps
        split: if_splits option.splits)
  then have f: "sp_user_find_locked s' user = Some ?u" by (simp add: sp_user_find_locked_def)
  have "sp_ct_eq (buf64 (sp_to_hex d')) (buf64 (sp_to_hex d)) HASH_HEX_LEN = 0 \<longleftrightarrow> d' = d"
    using sp_ct_eq_iff [of HASH_HEX_LEN "buf64 (sp_to_hex d')" "buf64 (sp_to_hex d)"]
      buf64_inj [of "sp_to_hex d'" "sp_to_hex d"] to_hex_inj [of d' d] l by auto
  then show ?thesis
    using r d(1) d' assms(2,5) l by (cases "d' = d") (simp_all add: sp_authenticate_def f sp_password_hash_def)
qed

theorem sp_add_then_authenticate_witness:
  "let H = (\<lambda>x. Some (replicate 32 (of_nat (length x)))) :: byte list \<Rightarrow> byte list option;
       s = snd (sp_add_user H (Some (replicate 16 7)) True 0 \<lparr>sp_users = [], sp_conf = None\<rparr>
             (Some ''bob'') (Some ''secret'') None 1)
   in fst (sp_authenticate H None 0 s (Some ''bob'') (Some ''secret'') 0) = SP_OK \<and>
      fst (sp_authenticate H None 0 s (Some ''bob'') (Some ''guess'') 0) = SP_EBADCRED"
proof -
  let ?H = "(\<lambda>x. Some (replicate 32 (of_nat (length x)))) :: byte list \<Rightarrow> byte list option"
  let ?salt = "replicate 16 7 :: byte list"
  obtain rc s where s: "sp_add_user ?H (Some ?salt) True 0 \<lparr>sp_users = [], sp_conf = None\<rparr>
      (Some ''bob'') (Some ''secret'') None 1 = (rc, s)" by force
  have rc: "rc = SP_OK"
    using s sp_hex_roundtrip [of ?salt SALT_LEN]
    by (simp add: sp_add_user_def sp_password_hash_def has_sep_def sp_user_find_locked_def sp_users_save_def
        split: if_splits)
  have "fst (sp_authenticate ?H None 0 s (Some ''bob'') (Some pw) 0) =
      (if ?H (?salt @ chars_bytes pw) = ?H (?salt @ chars_bytes ''secret'') then SP_OK else SP_EBADCRED)"
    if "length pw \<le> 4080" for pw
    using sp_add_then_authenticate [of ?H ?salt True _ "''bob''" "''secret''" None 1 s pw None 0 0] s rc that by simp
  from this [of "''secret''"] this [of "''guess''"] s show ?thesis
    by (simp add: Let_def chars_bytes_def)
qed

text \<open>
  An action is authorized exactly when the user exists and one of its roles, the parts of its role
  list without leading blanks, grants it: by name or by a pattern ending in a star.  Nothing else
  counts; in particular disabling users changes no decision.
\<close>

theorem sp_authorize_correct:
  "sp_authorize s (Some user) (Some action) =
     (if \<exists>u t. sp_user_find_locked s user = Some u \<and> t \<in> set (tokens (\<lambda>c. c = CHR '','') (cstr 128 (su_roles u))) \<and>
          grants (dropWhile isblank t) action
      then SP_OK else SP_EACCES) \<and>
   sp_authorize (s\<lparr>sp_users := map (\<lambda>u. u\<lparr>su_enabled := 0\<rparr>) (sp_users s)\<rparr>) (Some user) (Some action) =
     sp_authorize s (Some user) (Some action)"
proof -
  have z: "sp_authorize t (Some user) (Some action) = (if authorized t user action then SP_OK else SP_EACCES)" for t
    by (auto simp: authorized_def sp_authorize_def sp_check_acl_def)
  have a: "authorized t user action \<longleftrightarrow> (\<exists>r \<in> set (user_roles t user). grants r action)" for t
    unfolding sp_policy.decide_iff role_allows_grants ..
  let ?d = "s\<lparr>sp_users := map (\<lambda>u. u\<lparr>su_enabled := 0\<rparr>) (sp_users s)\<rparr>"
  have "find (\<lambda>u. su_user u = user) (map (\<lambda>u. u\<lparr>su_enabled := 0\<rparr>) us) =
      map_option (\<lambda>u. u\<lparr>su_enabled := 0\<rparr>) (find (\<lambda>u. su_user u = user) us)" for us :: "sp_user list"
    by (induction us) auto
  then have "user_roles ?d user = user_roles s user"
    by (simp add: user_roles_def sp_user_find_locked_def split: option.splits)
  then show ?thesis
    unfolding z a by (auto simp: user_roles_def split: option.splits)
qed

end
