(* ===== verification/SpLife.thy ===== *)
theory SpLife
  imports SpKeyRing SpAuth
begin

text \<open>
  The SP plugin as a whole, \<^verbatim>\<open>sp/src/sp.c\<close>: its life cycle over the users and the key ring, and the self test, which runs
  the hashes, the encryption, the users and the keys one after the other and counts what fails.

  The users and the files of the other parts have worlds of their own here: hashes of passwords, random bytes and the
  success of saving are arguments of the self test.  \<open>junk\<close> gives the bytes of a buffer that a failed call did not fill.
\<close>

section \<open>Life cycle\<close>

record sp_plugin =
  spl_users :: sp_ctx
  spl_ring :: key_ring
  spl_initialized :: bool
  spl_pdata :: "bool option"
  spl_started :: bool

text \<open>The context is zeroed, whatever it held.\<close>

definition sp_init :: "sp_plugin option \<Rightarrow> bool \<Rightarrow> rc \<times> sp_plugin option" where
  "sp_init self mem =
     (case self of
        None \<Rightarrow> (EINVAL, None)
      | Some p \<Rightarrow>
          if \<not> mem then (ENOMEM, Some p)
          else (HWRUN_OK, Some (p\<lparr>spl_users := (spl_users p)\<lparr>sp_users := []\<rparr>, spl_ring := ring0, spl_initialized := False, spl_pdata := Some False\<rparr>)))"

definition sp_start :: "allocs \<Rightarrow> sp_plugin option \<Rightarrow> rc \<times> sp_plugin option" where
  "sp_start al self =
     (case self of
        None \<Rightarrow> (ENOTREADY, None)
      | Some p \<Rightarrow>
          (case spl_pdata p of
             None \<Rightarrow> (ENOTREADY, Some p)
           | Some True \<Rightarrow> (HWRUN_OK, Some p)
           | Some False \<Rightarrow>
               (HWRUN_OK, Some (p\<lparr>spl_users := snd (sp_auth_init al (spl_users p)), spl_initialized := True, spl_pdata := Some True, spl_started := True\<rparr>))))"

definition sp_stop :: "sp_plugin option \<Rightarrow> rc \<times> sp_plugin option" where
  "sp_stop self = (HWRUN_OK, self)"

definition sp_destroy :: "sp_plugin \<Rightarrow> rc \<times> sp_plugin" where
  "sp_destroy p = (HWRUN_OK, p\<lparr>spl_users := snd (sp_auth_cleanup (spl_users p)), spl_ring := sp_keys_cleanup (spl_ring p), spl_pdata := None\<rparr>)"

definition sp_configure :: "sp_plugin option \<Rightarrow> string \<Rightarrow> string option \<Rightarrow> rc" where
  "sp_configure self key v = HWRUN_OK"

text \<open>Whether the table of operations is handed out.\<close>

definition sp_get_interface :: "string option \<Rightarrow> bool" where
  "sp_get_interface protocol \<longleftrightarrow> protocol = Some ''SP''"

section \<open>The self test\<close>

text \<open>The verdicts of a part, in order, and the state it leaves.\<close>

type_synonym 's checks = "(bool list \<times> 's) outcome"

text \<open>One call: its verdict, and what it gives or the junk in its place.\<close>

definition attempt :: "'a io \<Rightarrow> 'a \<Rightarrow> spw \<Rightarrow> ((int \<times> 'a) \<times> spw) outcome" where
  "attempt m dflt w =
     (case m w of
        (Fault, _) \<Rightarrow> Fault
      | (Ret (Inl e), w1) \<Rightarrow> Ret ((e, dflt), w1)
      | (Ret (Inr x), w1) \<Rightarrow> Ret ((SP_OK, x), w1))"

definition bind_out :: "'a outcome \<Rightarrow> ('a \<Rightarrow> 'b outcome) \<Rightarrow> 'b outcome" where
  "bind_out m f = (case m of Fault \<Rightarrow> Fault | Ret x \<Rightarrow> f x)"

abbreviation SHA256 :: int where "SHA256 \<equiv> 1"

definition selftest_hash :: "shell_fun \<Rightarrow> (nat \<Rightarrow> byte list) \<Rightarrow> spw \<Rightarrow> spw checks" where
  "selftest_hash sh junk w =
     (let msg = Some (chars_bytes ''HWRun SP selftest message'') in
      bind_out (attempt (sp_hash_compute sh SHA256 msg 64) [] w) (\<lambda>((rc1, _), w).
      bind_out (attempt (ops_hash_hex sh SHA256 msg 160) [] w) (\<lambda>((rc2, _), w).
      bind_out (attempt (sp_hash_compute sh SHA256 (Some (chars_bytes ''abc'')) 32) (junk 32) w) (\<lambda>((rc3, v), w).
      bind_out (attempt (sp_hash_compute sh SHA256 (Some (chars_bytes ''original'')) 32) (junk 32) w) (\<lambda>((_, e32), w).
      bind_out (attempt (ops_verify_hash sh SHA256 (Some (chars_bytes ''tampered'')) e32) () w) (\<lambda>((rc5, _), w).
        Ret ([rc1 = SP_OK, rc2 = SP_OK, rc3 = SP_OK,
              sp_to_hex (take 32 v) = ''ba7816bf8f01cfea414140de5dae2223b00361a396177a9cb410ff61f20015ad'', rc5 = SP_EAUTH], w)))))))"

definition selftest_crypto :: "shell_fun \<Rightarrow> (nat \<Rightarrow> byte list) \<Rightarrow> spw \<Rightarrow> spw checks" where
  "selftest_crypto sh junk w =
     (let pt = chars_bytes ''classified payload: transfer 4096 bytes securely''; aad = Some (chars_bytes ''aad'') in
      bind_out (attempt (sp_random sh 32) (junk 32) w) (\<lambda>((_, key), w).
      bind_out (attempt (sp_random sh 16) (junk 16) w) (\<lambda>((_, iv), w).
      bind_out (attempt (sp_encrypt sh (Some key) (Some iv) aad (Some pt) (Some 2048) (Some 64)) (junk 2048, junk 64) w) (\<lambda>((rc1, ct, tag), w).
      bind_out (attempt (sp_decrypt sh (Some key) (Some iv) aad (Some ct) (Some tag) (Some 2048)) (junk 2048) w) (\<lambda>((rc2, out), w).
      bind_out (attempt (sp_decrypt sh (Some key) (Some iv) aad (Some (ct[2 := xor (ct ! 2) 0x40])) (Some tag) (Some 2048)) [] w) (\<lambda>((rc4, _), w).
      bind_out (attempt (sp_decrypt sh (Some key) (Some iv) (Some (chars_bytes ''aaa'')) (Some ct) (Some tag) (Some 2048)) [] w) (\<lambda>((rc5, _), w).
        Ret ([rc1 = SP_OK, rc2 = SP_OK, out = pt, rc4 = SP_EAUTH, rc5 = SP_EAUTH], w))))))))"

definition selftest_auth ::
  "(byte list \<Rightarrow> byte list option) \<Rightarrow> (nat \<Rightarrow> byte list option) \<Rightarrow> nat \<Rightarrow> bool \<Rightarrow> int \<Rightarrow> int \<Rightarrow> sp_ctx \<Rightarrow> bool list \<times> sp_ctx" where
  "selftest_auth H rnd now ok io1 io2 s =
     (let alice = Some ''alice''; pw = Some ''hwrun#2026'';
          c1 = (fst (sp_authenticate H (rnd 0) now s alice (Some ''wrong'') 80) = SP_EBADCRED) in
      case sp_add_user H (rnd 1) ok io1 s alice pw (Some ''operator'') 1 of
        (rc2, s1) \<Rightarrow>
          let a3 = sp_authenticate H (rnd 2) now s1 alice pw 80;
              a4 = sp_authenticate H (rnd 3) now s1 alice pw 80;
              c4 = (fst a4 = SP_OK \<and> (case snd a4 of None \<Rightarrow> False | Some sid \<Rightarrow> prefix ''sess-'' sid));
              c5 = (sp_authorize s1 alice (Some ''fs.read'') = SP_OK);
              c6 = (sp_authorize s1 alice (Some ''config.write'') \<noteq> SP_OK);
              c7 = (sp_authorize s1 (Some ''nobody'') (Some ''fs.read'') \<noteq> SP_OK) in
          (case sp_del_user io2 s1 alice of
             (rc8, s2) \<Rightarrow> ([c1, rc2 = SP_OK, fst a3 = SP_OK, c4, c5, c6, c7, rc8 = SP_OK], s2)))"

definition selftest_keys :: "shell_fun \<Rightarrow> (nat \<Rightarrow> byte list) \<Rightarrow> nat \<Rightarrow> key_ring \<Rightarrow> spw \<Rightarrow> (key_ring \<times> spw) checks" where
  "selftest_keys sh junk now r w =
     (case sp_gen_key_pair sh SP_ASYM_RSA_2048 (Some ''selftest-key'') now r w of
        (Fault, _) \<Rightarrow> Fault
      | (Ret g, r1, w) \<Rightarrow>
          let kid = (case g of Inl _ \<Rightarrow> 0 | Inr i \<Rightarrow> i);
              p = sp_get_public_key kid (Some 8192) r1;
              pub = (case p of Inl _ \<Rightarrow> c_text (junk 8192) | Inr t \<Rightarrow> t);
              data = Some (chars_bytes ''signature test data'') in
          bind_out (attempt (sp_sign sh kid data (Some 8192) r1) (c_text (junk 8192)) w) (\<lambda>((rc4, sg), w).
          bind_out (attempt (sp_verify sh kid data (Some sg) r1) False w) (\<lambda>((rc5, valid), w).
          bind_out (attempt (sp_verify sh kid (Some (chars_bytes ''signature test datX'')) (Some sg) r1) False w) (\<lambda>((_, valid2), w).
            (case sp_revoke_key kid r1 of
               (rc8, r2) \<Rightarrow>
                 (case sp_destroy_key kid r2 of
                    (rc9, r3) \<Rightarrow>
                      Ret ([\<not> isl g, \<not> isl p, sublist ''BEGIN PUBLIC KEY'' pub, rc4 = SP_OK, rc5 = SP_OK, valid, \<not> valid2,
                            rc8 = SP_OK, rc9 = SP_OK], r3, w)))))))"

definition sp_selftest ::
  "shell_fun \<Rightarrow> (byte list \<Rightarrow> byte list option) \<Rightarrow> (nat \<Rightarrow> byte list option) \<Rightarrow> (nat \<Rightarrow> byte list) \<Rightarrow> nat \<Rightarrow> bool \<Rightarrow> int \<Rightarrow> int
   \<Rightarrow> sp_ctx \<Rightarrow> key_ring \<Rightarrow> spw \<Rightarrow> (int \<times> sp_ctx \<times> key_ring \<times> spw) outcome" where
  "sp_selftest sh H rnd junk now ok io1 io2 s r w =
     bind_out (selftest_hash sh junk w) (\<lambda>(c1, w).
     bind_out (selftest_crypto sh junk w) (\<lambda>(c2, w).
       (case selftest_auth H rnd now ok io1 io2 s of
          (c3, s') \<Rightarrow>
            bind_out (selftest_keys sh junk now r w) (\<lambda>(c4, r', w).
              Ret (if list_all id (c1 @ c2 @ c3 @ c4) then SP_OK else SP_EIO, s', r', w)))))"

section \<open>What the self test leaves behind\<close>

lemma bind_out_Ret: "bind_out m f = Ret y \<longleftrightarrow> (\<exists>x. m = Ret x \<and> f x = Ret y)"
  by (cases m) (simp_all add: bind_out_def)

lemma selftest_auth_users:
  "sp_users (snd (selftest_auth H rnd now ok io1 io2 s)) = remove_first (\<lambda>u. su_user u = ''alice'') (sp_users s)"
proof -
  obtain rc2 s1 where a: "sp_add_user H (rnd 1) ok io1 s (Some ''alice'') (Some ''hwrun#2026'') (Some ''operator'') 1 = (rc2, s1)" by force
  have gone: "sp_users (snd (sp_del_user io2 t (Some ''alice''))) = remove_first (\<lambda>u. su_user u = ''alice'') (sp_users t)" for t
    using remove_first_none [of "sp_users t" "\<lambda>u. su_user u = ''alice''"]
    by (auto simp: sp_del_user_def sp_users_save_def find_None)
  have "sp_users s1 = sp_users s \<or>
      (\<exists>u. sp_users s1 = u # sp_users s \<and> su_user u = ''alice'' \<and> find (\<lambda>u. su_user u = ''alice'') (sp_users s) = None)"
    using a by (auto simp: sp_add_user_def sp_users_save_def sp_user_find_locked_def cstr_def split: option.splits sum.splits if_splits)
  then have "remove_first (\<lambda>u. su_user u = ''alice'') (sp_users s1) = remove_first (\<lambda>u. su_user u = ''alice'') (sp_users s)"
    by (auto simp: find_None remove_first_none)
  then show ?thesis by (simp add: selftest_auth_def Let_def a [simplified] gone case_prod_beta)
qed

lemma selftest_keys_ring:
  assumes "selftest_keys sh junk now r w = Ret (cs, r', w')" "\<forall>e \<in> set (kr_keys r). ke_id e \<noteq> 0 \<and> ke_id e \<noteq> kr_next r"
  shows "kr_keys r' = kr_keys r"
proof -
  obtain g r1 w1 where g: "sp_gen_key_pair sh SP_ASYM_RSA_2048 (Some ''selftest-key'') now r w = (Ret g, r1, w1)"
    using assms(1) by (cases "sp_gen_key_pair sh SP_ASYM_RSA_2048 (Some ''selftest-key'') now r w") (auto simp: selftest_keys_def split: outcome.splits)
  let ?kid = "case g of Inl _ \<Rightarrow> 0 | Inr i \<Rightarrow> i"
  have r': "r' = snd (sp_destroy_key ?kid (snd (sp_revoke_key ?kid r1)))"
    using assms(1) unfolding selftest_keys_def g by (auto simp: Let_def bind_out_Ret case_prod_beta)
  have ring: "(\<exists>e. g = Inr (kr_next r) \<and> ke_id e = kr_next r \<and> kr_keys r1 = e # kr_keys r) \<or> (\<exists>x. g = Inl x \<and> kr_keys r1 = kr_keys r)"
    using g by (auto simp: sp_gen_key_pair_def enter_key_def sp_key_new_entry_def Let_def split: outcome.splits prod.splits sum.splits if_splits)
  then show ?thesis
  proof
    assume "\<exists>e. g = Inr (kr_next r) \<and> ke_id e = kr_next r \<and> kr_keys r1 = e # kr_keys r"
    then obtain e where "g = Inr (kr_next r)" "ke_id e = kr_next r" "kr_keys r1 = e # kr_keys r" by blast
    then show ?thesis unfolding r' by (simp add: sp_revoke_key_def sp_destroy_key_def sp_key_find_def)
  next
    assume "\<exists>x. g = Inl x \<and> kr_keys r1 = kr_keys r"
    then obtain x where "g = Inl x" "kr_keys r1 = kr_keys r" by blast
    moreover have "find (\<lambda>e. ke_id e = 0) (kr_keys r) = None" using assms(2) by (auto simp: find_None)
    ultimately show ?thesis unfolding r' using assms(2) by (auto simp: sp_revoke_key_def sp_destroy_key_def sp_key_find_def)
  qed
qed

text \<open>
  C40. The self test is not free of effects: a user called alice is deleted by it.  Whenever it returns, whatever the
  shell, the hashes, the memory and the disk do, the users are those before without the first alice, and the keys
  are those before, as long as the numbers of keys have not wrapped around.
\<close>

theorem sp_selftest_deletes_alice:
  assumes "sp_selftest sh H rnd junk now ok io1 io2 s r w = Ret (rc, s', r', w')"
    and "\<forall>e \<in> set (kr_keys r). ke_id e \<noteq> 0 \<and> ke_id e \<noteq> kr_next r"
  shows "sp_users s' = remove_first (\<lambda>u. su_user u = ''alice'') (sp_users s) \<and> kr_keys r' = kr_keys r"
proof -
  obtain cs w1 where "selftest_keys sh junk now r w1 = Ret (cs, r', w')" and "s' = snd (selftest_auth H rnd now ok io1 io2 s)"
    using assms(1) by (auto simp: sp_selftest_def bind_out_Ret case_prod_beta)
  then show ?thesis using selftest_keys_ring assms(2) selftest_auth_users by blast
qed

definition idle_world :: spw where
  "idle_world = \<lparr>sw_files = Map.empty, sw_tmp = [], sw_faults = []\<rparr>"

definition idle_shell :: shell_fun where
  "idle_shell cmd fs = (1, fs)"

definition demo_users :: sp_ctx where
  "demo_users = \<lparr>sp_users = [demo_user, demo_user\<lparr>su_user := ''alice''\<rparr>], sp_conf = None\<rparr>"

theorem sp_selftest_deletes_alice_witness:
  "\<exists>s' r' w'. sp_selftest idle_shell (\<lambda>_. None) (\<lambda>_. None) (\<lambda>_. []) 0 True 0 0 demo_users ring0 idle_world = Ret (SP_EIO, s', r', w')
     \<and> sp_users s' = [demo_user] \<and> kr_keys r' = []"
proof -
  have "map_outcome fst (sp_selftest idle_shell (\<lambda>_. None) (\<lambda>_. None) (\<lambda>_. []) 0 True 0 0 demo_users ring0 idle_world) = Ret SP_EIO"
    by code_simp
  then obtain s' r' w' where t: "sp_selftest idle_shell (\<lambda>_. None) (\<lambda>_. None) (\<lambda>_. []) 0 True 0 0 demo_users ring0 idle_world = Ret (SP_EIO, s', r', w')"
    by (cases "sp_selftest idle_shell (\<lambda>_. None) (\<lambda>_. None) (\<lambda>_. []) 0 True 0 0 demo_users ring0 idle_world") auto
  from sp_selftest_deletes_alice [OF t] have "sp_users s' = [demo_user] \<and> kr_keys r' = []"
    by (simp add: ring0_def demo_users_def demo_user_def)
  with t show ?thesis by blast
qed

end
