(* ===== verification/FspPath.thy ===== *)
theory FspPath
  imports Interfaces
begin

text \<open>
  The FSP plugin's own logic: lexical paths, \<^verbatim>\<open>fsp/src/fsp_path.c\<close>, the table of mounts,
  \<^verbatim>\<open>fsp/src/fsp_mount.c\<close>, and directory listings, \<^verbatim>\<open>fsp/src/fsp_dir.c\<close>.

  A path function returns the text it writes, or the negative \<^verbatim>\<open>errno\<close>.  The current directory (or the
  error of \<^verbatim>\<open>getcwd\<close>), the text of \<^verbatim>\<open>/proc/mounts\<close> and the entries of a directory are arguments.
\<close>

abbreviation FSP_NAME_MAX :: nat where "FSP_NAME_MAX \<equiv> 256"
abbreviation SLASH :: char where "SLASH \<equiv> CHR 0x2F"

section \<open>Paths\<close>

text \<open>The components, each cut to the size of \<open>seg\<close>.\<close>

definition path_segs :: "string \<Rightarrow> string list" where
  "path_segs s = map (cstr FSP_NAME_MAX) (tokens (\<lambda>c. c = SLASH) s)"

fun norm_segs :: "string list \<Rightarrow> string list \<Rightarrow> string list option" where
  "norm_segs stack [] = Some stack"
| "norm_segs stack (s # ss) =
     (if s = ''.'' then norm_segs stack ss
      else if s = ''..'' then norm_segs (if length stack > 0 then butlast stack else stack) ss
      else if length stack < 64 then norm_segs (stack @ [cstr FSP_NAME_MAX s]) ss
      else None)"

definition path_text :: "string list \<Rightarrow> string" where
  "path_text stack = (case stack of [] \<Rightarrow> [SLASH] | _ \<Rightarrow> concat (map (\<lambda>s. SLASH # s) stack))"

definition fsp_path_normalize :: "rc + string \<Rightarrow> string option \<Rightarrow> nat \<Rightarrow> rc + string" where
  "fsp_path_normalize cwd path cap =
     (case path of
        None \<Rightarrow> Inl EINVAL
      | Some inp \<Rightarrow>
          if cap = 0 then Inl EINVAL
          else
            (case (if inp \<noteq> [] \<and> hd inp = SLASH then Inr inp
                   else
                     (case cwd of
                        Inl e \<Rightarrow> Inl e
                      | Inr c \<Rightarrow>
                          if length c + 1 + length inp + 1 > 4096 then Inl ENAMETOOLONG
                          else Inr (c @ SLASH # inp))) of
               Inl e \<Rightarrow> Inl e
             | Inr src \<Rightarrow>
                 (case norm_segs [] (path_segs src) of
                    None \<Rightarrow> Inl ENAMETOOLONG
                  | Some stack \<Rightarrow>
                      if length (path_text stack) \<ge> cap then Inl ENAMETOOLONG else Inr (path_text stack))))"

definition fsp_path_join :: "rc + string \<Rightarrow> nat \<Rightarrow> string option \<Rightarrow> string option \<Rightarrow> rc + string" where
  "fsp_path_join cwd cap dir name =
     (case (dir, name) of
        (Some d, Some n) \<Rightarrow>
          if cap = 0 then Inl EINVAL
          else
            let sep = (if d \<noteq> [] \<and> last d \<noteq> SLASH then [SLASH] else []) in
            if length d + length sep + length n + 1 > 4096 then Inl ENAMETOOLONG
            else fsp_path_normalize cwd (Some (d @ sep @ n)) cap
      | _ \<Rightarrow> Inl EINVAL)"

text \<open>\<^verbatim>\<open>strrchr\<close>: the text before the last \<open>c\<close>.\<close>

definition before_last :: "char \<Rightarrow> string \<Rightarrow> string option" where
  "before_last c s = (if c \<in> set s then Some (rev (tl (dropWhile (\<lambda>d. d \<noteq> c) (rev s)))) else None)"

fun strip_trailing_slashes :: "string \<Rightarrow> string" where
  "strip_trailing_slashes rs =
     (case rs of c # d # t \<Rightarrow> if c = SLASH then strip_trailing_slashes (d # t) else rs | _ \<Rightarrow> rs)"

declare strip_trailing_slashes.simps [simp del]

definition fsp_path_parent :: "rc + string \<Rightarrow> string option \<Rightarrow> nat \<Rightarrow> rc + string" where
  "fsp_path_parent cwd path cap =
     (if path = None \<or> cap = 0 then Inl EINVAL
      else
        (case fsp_path_normalize cwd path 4096 of
           Inl e \<Rightarrow> Inl e
         | Inr norm \<Rightarrow>
             let norm' = rev (strip_trailing_slashes (rev norm)) in
             (case before_last SLASH norm' of
                None \<Rightarrow> Inl EINVAL
              | Some h \<Rightarrow>
                  if h = [] then (if cap < 2 then Inl ENAMETOOLONG else Inr (cstr cap [SLASH]))
                  else if length h = 1 then Inr (cstr cap [SLASH])
                  else Inr (cstr cap h))))"

definition fsp_path_absolute :: "rc + string \<Rightarrow> string option \<Rightarrow> nat \<Rightarrow> rc + string" where
  "fsp_path_absolute cwd path cap =
     (if path = None \<or> cap = 0 then Inl EINVAL else fsp_path_normalize cwd path cap)"

section \<open>Mounts and directories\<close>

fun unescape :: "string \<Rightarrow> nat \<Rightarrow> string" where
  "unescape s cap =
     (if cap \<le> 1 then []
      else
        (case s of
           [] \<Rightarrow> []
         | c # t \<Rightarrow>
             if c = CHR 0x5C \<and> take 3 t = ''040'' then CHR '' '' # unescape (drop 3 t) (cap - 1)
             else c # unescape t (cap - 1)))"

declare unescape.simps [simp del]

record mountinfo =
  mi_device :: string
  mi_mountpoint :: string
  mi_fstype :: string
  mi_options :: string
  mi_freq :: nat
  mi_passno :: nat

text \<open>\<^verbatim>\<open>(unsigned)strtoul(s, NULL, 10)\<close>.\<close>

definition to_unsigned :: "string \<Rightarrow> nat" where
  "to_unsigned s = fst (strtoull s) mod 2 ^ 32"

definition mount_line :: "string \<Rightarrow> mountinfo option" where
  "mount_line line =
     (case tokens (\<lambda>c. c = CHR '' '' \<or> c = TAB \<or> c = NL) line of
        d # m # f # o' # fr # ps # _ \<Rightarrow>
          Some \<lparr>mi_device = unescape d 256, mi_mountpoint = unescape m 256, mi_fstype = cstr 64 f,
                mi_options = cstr 256 o', mi_freq = to_unsigned fr, mi_passno = to_unsigned ps\<rparr>
      | _ \<Rightarrow> None)"

definition fsp_mount_list :: "rc + string \<Rightarrow> int \<Rightarrow> int \<times> mountinfo list" where
  "fsp_mount_list mounts mx =
     (if mx \<le> 0 then (EINVAL, [])
      else
        (case mounts of
           Inl e \<Rightarrow> (e, [])
         | Inr text \<Rightarrow>
             let infos = take (nat mx) (List.map_filter mount_line (fgets_all 1024 text))
             in (int (length infos), infos)))"

record dirent =
  de_ino :: nat
  de_type :: nat
  de_name :: string

definition fsp_list :: "rc + dirent list \<Rightarrow> bool \<Rightarrow> int \<Rightarrow> int \<times> dirent list" where
  "fsp_list d entries mx =
     (case d of
        Inl e \<Rightarrow> (e, [])
      | Inr es \<Rightarrow>
          let xs = take (nat mx) (filter (\<lambda>e. de_name e \<noteq> ''.'' \<and> de_name e \<noteq> ''..'') es)
          in (int (length xs),
              if entries then map (\<lambda>e. e\<lparr>de_name := cstr FSP_NAME_MAX (de_name e)\<rparr>) xs else []))"

section \<open>Components\<close>

definition comp_ok :: "string \<Rightarrow> bool" where
  "comp_ok s \<longleftrightarrow> s \<noteq> [] \<and> SLASH \<notin> set s \<and> s \<noteq> ''.'' \<and> s \<noteq> ''..'' \<and> length s < FSP_NAME_MAX"

definition stack_ok :: "string list \<Rightarrow> bool" where
  "stack_ok st \<longleftrightarrow> (\<forall>s \<in> set st. comp_ok s) \<and> length st \<le> 64"

abbreviation slash_words :: "string \<Rightarrow> string list" where
  "slash_words s \<equiv> tokens (\<lambda>c. c = SLASH) s"

lemma path_segs_parts: "s \<in> set (path_segs p) \<Longrightarrow> s \<noteq> [] \<and> SLASH \<notin> set s \<and> length s < FSP_NAME_MAX"
proof -
  assume "s \<in> set (path_segs p)"
  then obtain t where t: "t \<in> set (slash_words p)" and s: "s = cstr FSP_NAME_MAX t"
    unfolding path_segs_def by auto
  from tokens_nonempty [OF t] have "t \<noteq> []" "SLASH \<notin> set t" by auto
  then show ?thesis unfolding s by (cases t) (auto simp: cstr_def dest: in_set_takeD)
qed

lemma norm_segs_ok:
  "norm_segs st ss = Some st' \<Longrightarrow> stack_ok st \<Longrightarrow> \<forall>s \<in> set ss. s \<noteq> [] \<and> SLASH \<notin> set s \<and> length s < FSP_NAME_MAX \<Longrightarrow>
     stack_ok st'"
proof (induction st ss rule: norm_segs.induct)
  case (2 st s ss)
  have ss: "\<forall>x \<in> set ss. x \<noteq> [] \<and> SLASH \<notin> set x \<and> length x < FSP_NAME_MAX"
    and s: "s \<noteq> []" "SLASH \<notin> set s" "length s < FSP_NAME_MAX" using "2.prems"(3) by simp_all
  consider "s = ''.''" | "s = ''..''" | "s \<noteq> ''.''" "s \<noteq> ''..''" by blast
  then show ?case
  proof cases
    case 1
    then show ?thesis using "2.IH"(1) "2.prems"(1,2) ss by simp
  next
    case 2
    have "stack_ok (if length st > 0 then butlast st else st)"
      using "2.prems"(2) by (auto simp: stack_ok_def dest: in_set_butlastD)
    then show ?thesis using "2.IH"(2) "2.prems"(1) ss 2 by simp
  next
    case 3
    then have l: "length st < 64" using "2.prems"(1) by (auto split: if_splits)
    have "stack_ok (st @ [cstr FSP_NAME_MAX s])"
      using "2.prems"(2) s 3 l by (simp add: stack_ok_def comp_ok_def cstr_simps)
    then show ?thesis using "2.IH"(3) "2.prems"(1) ss 3 l by simp
  qed
qed simp

lemma norm_segs_append: "norm_segs st (xs @ ys) = (case norm_segs st xs of None \<Rightarrow> None | Some st' \<Rightarrow> norm_segs st' ys)"
  by (induction st xs rule: norm_segs.induct) auto

lemma norm_segs_comps:
  "\<forall>s \<in> set ss. comp_ok s \<Longrightarrow> length st + length ss \<le> 64 \<Longrightarrow> norm_segs st ss = Some (st @ ss)"
  by (induction ss arbitrary: st) (auto simp: comp_ok_def cstr_simps)

lemma words_of_path: "\<forall>s \<in> set st. comp_ok s \<Longrightarrow> slash_words (concat (map (\<lambda>s. SLASH # s) st)) = st"
proof (induction st)
  case (Cons s st)
  let ?r = "concat (map (\<lambda>s. SLASH # s) st)"
  have r: "?r = [] \<or> hd ?r = SLASH" by (cases st) auto
  have "slash_words (s @ ?r) = s # slash_words ?r"
    using Cons.prems r by (intro tokens_word) (auto simp: comp_ok_def)
  then show ?case using Cons by simp
qed simp

lemma segs_of_path_text: "stack_ok st \<Longrightarrow> path_segs (path_text st) = st"
proof -
  assume ok: "stack_ok st"
  have "slash_words (path_text st) = st"
  proof (cases st)
    case (Cons s ss)
    then have "path_text st = concat (map (\<lambda>s. SLASH # s) st)" by (simp add: path_text_def)
    then show ?thesis using words_of_path ok by (simp add: stack_ok_def)
  qed (simp add: path_text_def)
  moreover have "map (cstr FSP_NAME_MAX) st = st"
    using ok by (intro map_idI) (simp add: stack_ok_def comp_ok_def cstr_simps)
  ultimately show "path_segs (path_text st) = st" by (simp add: path_segs_def)
qed

lemma path_text_absolute: "path_text st \<noteq> [] \<and> hd (path_text st) = SLASH"
  by (cases st) (auto simp: path_text_def)

definition source :: "rc + string \<Rightarrow> string \<Rightarrow> rc + string" where
  "source cwd inp =
     (if inp \<noteq> [] \<and> hd inp = SLASH then Inr inp
      else
        (case cwd of
           Inl e \<Rightarrow> Inl e
         | Inr c \<Rightarrow>
             if length c + 1 + length inp + 1 > 4096 then Inl ENAMETOOLONG else Inr (c @ SLASH # inp)))"

lemma normalize_Inr:
  "fsp_path_normalize cwd (Some p) cap = Inr q \<longleftrightarrow>
     (\<exists>src st. source cwd p = Inr src \<and> norm_segs [] (path_segs src) = Some st \<and> q = path_text st \<and> length q < cap)"
  unfolding fsp_path_normalize_def source_def [symmetric]
  by (auto split: sum.splits option.splits if_splits)

lemma normalize_stack:
  assumes "fsp_path_normalize cwd (Some p) cap = Inr q"
  shows "\<exists>src st. source cwd p = Inr src \<and> norm_segs [] (path_segs src) = Some st \<and> stack_ok st \<and> q = path_text st \<and> length q < cap"
proof -
  from assms [unfolded normalize_Inr] obtain src st where
    s: "source cwd p = Inr src" "norm_segs [] (path_segs src) = Some st" "q = path_text st" "length q < cap" by blast
  have "stack_ok st"
    by (rule norm_segs_ok [OF s(2)]) (auto simp: stack_ok_def dest: path_segs_parts)
  with s show ?thesis by blast
qed

lemma normalize_path_text:
  "stack_ok st \<Longrightarrow> length (path_text st) < cap \<Longrightarrow> fsp_path_normalize cwd (Some (path_text st)) cap = Inr (path_text st)"
  unfolding normalize_Inr
  using path_text_absolute [of st] norm_segs_comps [of st "[]"]
  by (intro exI [of _ "path_text st"] exI [of _ st]) (auto simp: source_def segs_of_path_text stack_ok_def)

section \<open>Joining and going up\<close>

lemma segs_snoc:
  assumes "comp_ok n" "x \<noteq> []"
  shows "path_segs (x @ (if last x \<noteq> SLASH then [SLASH] else []) @ n) = path_segs x @ [n]"
proof -
  have n: "slash_words n = [n]" "cstr FSP_NAME_MAX n = n"
    using assms(1) tokens_word [of n "\<lambda>c. c = SLASH" "[]"] by (auto simp: comp_ok_def cstr_simps)
  have w: "slash_words (y @ SLASH # n) = slash_words y @ [n]" for y
    using tokens_append_sep [of "\<lambda>c. c = SLASH" SLASH y n] n(1) by simp
  show ?thesis
  proof (cases "last x = SLASH")
    case True
    then obtain y where x: "x = y @ [SLASH]" using assms(2) by (metis append_butlast_last_id)
    have "slash_words x = slash_words y"
      using tokens_append_sep [of "\<lambda>c. c = SLASH" SLASH y "[]"] x by simp
    then show ?thesis using w [of y] x n by (simp add: path_segs_def)
  next
    case False
    then show ?thesis using w [of x] n by (simp add: path_segs_def)
  qed
qed

lemma source_snoc:
  assumes "source cwd d = Inr x" "source cwd (d @ m) = Inr y" "d \<noteq> []"
  shows "y = x @ m \<and> x \<noteq> [] \<and> last x = last d"
  using assms by (auto simp: source_def split: sum.splits if_splits)

lemma join_text:
  assumes "fsp_path_normalize cwd (Some d) cap = Inr q" "fsp_path_join cwd cap' (Some d) (Some n) = Inr p"
    and "comp_ok n" "d \<noteq> []"
  shows "\<exists>st. stack_ok (st @ [n]) \<and> q = path_text st \<and> p = path_text (st @ [n]) \<and> length q < cap \<and> length p < cap'"
proof -
  let ?m = "(if last d \<noteq> SLASH then [SLASH] else []) @ n"
  from normalize_stack [OF assms(1)] obtain x st where
    x: "source cwd d = Inr x" "norm_segs [] (path_segs x) = Some st" "stack_ok st" "q = path_text st" "length q < cap" by blast
  have "fsp_path_normalize cwd (Some (d @ ?m)) cap' = Inr p"
    using assms(2,4) by (auto simp: fsp_path_join_def Let_def split: if_splits)
  from normalize_stack [OF this] obtain y st' where
    y: "source cwd (d @ ?m) = Inr y" "norm_segs [] (path_segs y) = Some st'" "stack_ok st'" "p = path_text st'" "length p < cap'" by blast
  from source_snoc [OF x(1) y(1) assms(4)] have "path_segs y = path_segs x @ [n]"
    using segs_snoc [OF assms(3), of x] by auto
  then have "norm_segs st [n] = Some st'" using x(2) y(2) by (simp add: norm_segs_append)
  then have "st' = st @ [n]" using assms(3) by (auto simp: comp_ok_def cstr_simps split: if_splits)
  with x y show ?thesis by blast
qed

lemma path_text_snoc: "path_text (st @ [n]) = concat (map (\<lambda>s. SLASH # s) st) @ SLASH # n"
  by (cases st) (simp_all add: path_text_def)

lemma before_last_snoc: "SLASH \<notin> set n \<Longrightarrow> before_last SLASH (h @ SLASH # n) = Some h"
proof -
  assume n: "SLASH \<notin> set n"
  then have "dropWhile (\<lambda>d. d \<noteq> SLASH) (rev n @ SLASH # rev h) = SLASH # rev h"
    by (auto simp: dropWhile_append)
  then show ?thesis by (simp add: before_last_def)
qed

lemma strip_trailing_slashes_keep: "rs \<noteq> [] \<Longrightarrow> hd rs \<noteq> SLASH \<Longrightarrow> strip_trailing_slashes (rs @ ts) = rs @ ts"
  by (cases rs) (auto simp: strip_trailing_slashes.simps split: list.splits)

lemma parent_text:
  assumes "stack_ok (st @ [n])" "length (path_text (st @ [n])) < 4096" "length (path_text st) < cap"
  shows "fsp_path_parent cwd (Some (path_text (st @ [n]))) cap = Inr (path_text st)"
proof -
  let ?h = "concat (map (\<lambda>s. SLASH # s) st)"
  have n: "n \<noteq> []" "SLASH \<notin> set n" using assms(1) by (auto simp: stack_ok_def comp_ok_def)
  have "rev n \<noteq> [] \<and> hd (rev n) \<noteq> SLASH" using n by (metis hd_in_set rev_is_Nil_conv set_rev)
  then have s: "strip_trailing_slashes (rev n @ ts) = rev n @ ts" for ts
    by (intro strip_trailing_slashes_keep) auto
  have h: "path_text st = (if st = [] then [SLASH] else ?h)" by (cases st) (auto simp: path_text_def)
  have hl: "length ?h \<ge> 2" if "st \<noteq> []"
  proof -
    from that obtain c cs where st: "st = c # cs" by (cases st) auto
    then have "c \<noteq> []" using assms(1) by (simp add: stack_ok_def comp_ok_def)
    then have "length c \<ge> 1" by (cases c) auto
    then show ?thesis by (simp add: st)
  qed
  have norm: "fsp_path_normalize cwd (Some (path_text (st @ [n]))) 4096 = Inr (path_text (st @ [n]))"
    by (rule normalize_path_text [OF assms(1,2)])
  show ?thesis
    unfolding fsp_path_parent_def norm
    unfolding path_text_snoc
    using assms(3) hl h by (cases "st = []") (auto simp: Let_def s before_last_snoc [OF n(2)]
        before_last_snoc [OF n(2), of "[]", simplified] cstr_simps)
qed

section \<open>Properties\<close>

text \<open>
  C32. When a directory normalizes and a plain name is joined to it, the result is the normalized
  directory followed by the name, normalizing it again (from any current directory) changes nothing,
  and its parent is the normalized directory.
\<close>

theorem fsp_join_parent:
  assumes "fsp_path_normalize cwd (Some d) cap = Inr q" "fsp_path_join cwd cap (Some d) (Some n) = Inr p"
    and "n \<noteq> []" "SLASH \<notin> set n" "n \<noteq> ''.''" "n \<noteq> ''..''" "length n < FSP_NAME_MAX" "d \<noteq> []" "cap \<le> 4096"
  shows "p = (if q = [SLASH] then q @ n else q @ SLASH # n) \<and>
    fsp_path_normalize cwd' (Some p) cap = Inr p \<and> fsp_path_parent cwd' (Some p) cap = Inr q"
proof -
  have n: "comp_ok n" using assms(3-7) by (simp add: comp_ok_def)
  from join_text [OF assms(1,2) n assms(8)] obtain st where
    st: "stack_ok (st @ [n])" "q = path_text st" "p = path_text (st @ [n])" "length q < cap" "length p < cap" by blast
  have "fsp_path_normalize cwd' (Some p) cap = Inr p"
    unfolding st(3) by (rule normalize_path_text [OF st(1)]) (use st in simp)
  moreover have "fsp_path_parent cwd' (Some p) cap = Inr q"
    unfolding st(2,3) by (rule parent_text [OF st(1)]) (use st assms(9) in auto)
  moreover have "p = (if q = [SLASH] then q @ n else q @ SLASH # n)"
  proof (cases st)
    case Nil
    then show ?thesis using st(2,3) by (simp add: path_text_def)
  next
    case (Cons c cs)
    then have "c \<noteq> []" using st(1) by (simp add: stack_ok_def comp_ok_def)
    then have "q \<noteq> [SLASH]" "q = concat (map (\<lambda>s. SLASH # s) st)" using st(2) Cons by (auto simp: path_text_def)
    then show ?thesis using st(3) by (simp add: path_text_snoc)
  qed
  ultimately show ?thesis by blast
qed

theorem fsp_join_parent_witness:
  "\<exists>p. fsp_path_join (Inr ''/home'') 80 (Some ''a//b/../.'') (Some ''f'') = Inr p \<and>
     p = ''/home/a/f'' \<and> fsp_path_parent (Inr ''/'') (Some p) 80 = Inr ''/home/a''"
proof -
  have t: "slash_words ''/home/a//b/../.'' = [''home'', ''a'', ''b'', ''..'', ''.'']"
    "slash_words ''/home/a//b/.././f'' = [''home'', ''a'', ''b'', ''..'', ''.'', ''f'']"
    by (simp_all add: tokens.simps)
  have 1: "fsp_path_normalize (Inr ''/home'') (Some ''a//b/../.'') 80 = Inr ''/home/a''"
    using t(1) by (simp add: fsp_path_normalize_def path_segs_def path_text_def cstr_simps)
  have 2: "fsp_path_join (Inr ''/home'') 80 (Some ''a//b/../.'') (Some ''f'') = Inr ''/home/a/f''"
    using t(2) by (simp add: fsp_path_join_def fsp_path_normalize_def path_segs_def path_text_def cstr_simps Let_def)
  from fsp_join_parent [OF 1 2] 2 show ?thesis by simp
qed

end
