(* ===== verification/FspFile.thy ===== *)
theory FspFile
  imports FspPath
begin

text \<open>
  The FSP plugin, second part: files, \<^verbatim>\<open>fsp/src/fsp_file.c\<close>, permissions and links, \<^verbatim>\<open>fsp_perm.c\<close>, single directories,
  \<^verbatim>\<open>fsp_dir.c\<close>, and the life cycle, \<^verbatim>\<open>fsp.c\<close>.

  What the kernel answers a call is an argument: the error or the value.  Two conventions meet here: some operations
  return -1 and leave the error in \<^verbatim>\<open>errno\<close> (the second component), others return the error itself.
\<close>

abbreviation EBADF :: rc where "EBADF \<equiv> - 9"

definition posix :: "int + int \<Rightarrow> rc \<times> int option" where
  "posix answer = (case answer of Inl e \<Rightarrow> (- 1, Some e) | Inr v \<Rightarrow> (v, None))"

section \<open>Files\<close>

record kstat =
  st_dev :: "64 word"
  st_ino :: "64 word"
  st_mode :: "32 word"
  st_nlink :: "64 word"
  st_uid :: "32 word"
  st_gid :: "32 word"
  st_size :: "64 word"
  st_atime :: "64 word"
  st_mtime :: "64 word"
  st_ctime :: "64 word"
  st_blocks :: "64 word"
  st_blksize :: "64 word"

record fsp_stat_t =
  fs_dev :: "64 word"
  fs_ino :: "64 word"
  fs_mode :: "32 word"
  fs_nlink :: "32 word"
  fs_uid :: "32 word"
  fs_gid :: "32 word"
  fs_size :: "64 word"
  fs_atime :: "64 word"
  fs_mtime :: "64 word"
  fs_ctime :: "64 word"
  fs_blocks :: "64 word"
  fs_blksize :: "32 word"

definition stat_to_fsp :: "kstat \<Rightarrow> fsp_stat_t" where
  "stat_to_fsp s =
     \<lparr>fs_dev = st_dev s, fs_ino = st_ino s, fs_mode = st_mode s, fs_nlink = ucast (st_nlink s), fs_uid = st_uid s, fs_gid = st_gid s,
      fs_size = st_size s, fs_atime = st_atime s, fs_mtime = st_mtime s, fs_ctime = st_ctime s, fs_blocks = st_blocks s,
      fs_blksize = ucast (st_blksize s)\<rparr>"

text \<open>\<open>sys path flags mode\<close> is \<^verbatim>\<open>open\<close>.\<close>

definition fsp_open :: "(string \<Rightarrow> int \<Rightarrow> int \<Rightarrow> int + int) \<Rightarrow> string \<Rightarrow> int \<Rightarrow> int \<Rightarrow> rc \<times> int option" where
  "fsp_open sys path flags mode = posix (sys path flags mode)"

text \<open>A relative path is put behind the directory.\<close>

definition fsp_openat ::
  "(string \<Rightarrow> int \<Rightarrow> int \<Rightarrow> int + int) \<Rightarrow> string option \<Rightarrow> string option \<Rightarrow> int \<Rightarrow> int \<Rightarrow> rc \<times> int option" where
  "fsp_openat sys dirpath path flags mode =
     (case path of
        None \<Rightarrow> (EINVAL, None)
      | Some p \<Rightarrow>
          if p = [] then (EINVAL, None)
          else (case dirpath of
                  None \<Rightarrow> posix (sys p flags mode)
                | Some d \<Rightarrow>
                    if d = [] \<or> hd p = CHR ''/'' then posix (sys p flags mode)
                    else if 4096 \<le> length (d @ ''/'' @ p) then (ENAMETOOLONG, None)
                    else posix (sys (d @ ''/'' @ p) flags mode)))"

text \<open>The kernel is asked for the whole path or not at all.\<close>

lemma fsp_openat_whole_path:
  assumes "fsp_openat sys dirpath (Some p) flags mode = (rc, err)" "p \<noteq> []" "rc \<noteq> ENAMETOOLONG"
  shows "\<exists>q. (rc, err) = posix (sys q flags mode) \<and> (q = p \<or> q = the dirpath @ ''/'' @ p)"
proof -
  have "posix (sys p flags mode) = (rc, err) \<or> posix (sys (the dirpath @ ''/'' @ p) flags mode) = (rc, err)"
    using assms by (auto simp: fsp_openat_def split: option.splits if_splits)
  then show ?thesis by metis
qed

lemma fsp_openat_too_long:
  "d \<noteq> [] \<Longrightarrow> p \<noteq> [] \<Longrightarrow> hd p \<noteq> CHR ''/'' \<Longrightarrow> 4096 \<le> length d + 1 + length p \<Longrightarrow>
   fsp_openat sys (Some d) (Some p) flags mode = (ENAMETOOLONG, None)"
  by (simp add: fsp_openat_def)

definition fsp_close :: "(int \<Rightarrow> int + int) \<Rightarrow> int \<Rightarrow> rc \<times> int option" where
  "fsp_close sys fd = (if fd < 0 then (EBADF, None) else posix (sys fd))"

definition fsp_read :: "(int \<Rightarrow> nat \<Rightarrow> int + string) \<Rightarrow> int \<Rightarrow> nat \<Rightarrow> int \<times> string" where
  "fsp_read sys fd count = (case sys fd count of Inl _ \<Rightarrow> (- 1, []) | Inr s \<Rightarrow> (int (length s), s))"

definition fsp_write :: "(int \<Rightarrow> string \<Rightarrow> int + int) \<Rightarrow> int \<Rightarrow> string \<Rightarrow> rc \<times> int option" where
  "fsp_write sys fd buf = posix (sys fd buf)"

definition fsp_pread :: "(int \<Rightarrow> nat \<Rightarrow> int \<Rightarrow> int + string) \<Rightarrow> int \<Rightarrow> nat \<Rightarrow> int \<Rightarrow> int \<times> string" where
  "fsp_pread sys fd count off = fsp_read (\<lambda>fd count. sys fd count off) fd count"

definition fsp_pwrite :: "(int \<Rightarrow> string \<Rightarrow> int \<Rightarrow> int + int) \<Rightarrow> int \<Rightarrow> string \<Rightarrow> int \<Rightarrow> rc \<times> int option" where
  "fsp_pwrite sys fd buf off = posix (sys fd buf off)"

definition fsp_seek :: "(int \<Rightarrow> int \<Rightarrow> int \<Rightarrow> int + int) \<Rightarrow> int \<Rightarrow> int \<Rightarrow> int \<Rightarrow> rc \<times> int option" where
  "fsp_seek sys fd off whence = posix (sys fd off whence)"

definition fsp_rename :: "(string \<Rightarrow> string \<Rightarrow> int + int) \<Rightarrow> string \<Rightarrow> string \<Rightarrow> rc \<times> int option" where
  "fsp_rename sys oldpath newpath = posix (sys oldpath newpath)"

definition fsp_remove :: "(string \<Rightarrow> int + int) \<Rightarrow> string \<Rightarrow> rc \<times> int option" where
  "fsp_remove sys path = posix (sys path)"

definition fsp_unlink :: "(string \<Rightarrow> int + int) \<Rightarrow> string \<Rightarrow> rc \<times> int option" where
  "fsp_unlink sys path = posix (sys path)"

definition fsp_stat :: "('a \<Rightarrow> int + kstat) \<Rightarrow> 'a \<Rightarrow> rc \<times> fsp_stat_t option" where
  "fsp_stat sys x = (case sys x of Inl e \<Rightarrow> (- e, None) | Inr s \<Rightarrow> (0, Some (stat_to_fsp s)))"

definition fsp_lstat :: "(string \<Rightarrow> int + kstat) \<Rightarrow> string \<Rightarrow> rc \<times> fsp_stat_t option" where
  "fsp_lstat sys path = fsp_stat sys path"

definition fsp_fstat :: "(int \<Rightarrow> int + kstat) \<Rightarrow> int \<Rightarrow> rc \<times> fsp_stat_t option" where
  "fsp_fstat sys fd = fsp_stat sys fd"

definition fsp_access :: "(string \<Rightarrow> int \<Rightarrow> int + int) \<Rightarrow> string \<Rightarrow> int \<Rightarrow> rc \<times> int option" where
  "fsp_access sys path amode = posix (sys path amode)"

record fsp_statfs_t =
  f_type :: "64 word"
  f_bsize :: "64 word"
  f_blocks :: "64 word"
  f_bfree :: "64 word"
  f_bavail :: "64 word"
  f_files :: "64 word"
  f_ffree :: "64 word"
  f_namelen :: "64 word"

definition fsp_statfs :: "(string \<Rightarrow> int + fsp_statfs_t) \<Rightarrow> string \<Rightarrow> rc \<times> fsp_statfs_t option" where
  "fsp_statfs sys path = (case sys path of Inl e \<Rightarrow> (- e, None) | Inr s \<Rightarrow> (0, Some s))"

section \<open>Directories, permissions, links\<close>

definition fsp_mkdir :: "(string \<Rightarrow> int \<Rightarrow> int + int) \<Rightarrow> string \<Rightarrow> int \<Rightarrow> rc \<times> int option" where
  "fsp_mkdir sys path mode = posix (sys path mode)"

definition fsp_rmdir :: "(string \<Rightarrow> int + int) \<Rightarrow> string \<Rightarrow> rc \<times> int option" where
  "fsp_rmdir sys path = posix (sys path)"

definition fsp_exists :: "(string \<Rightarrow> int + kstat) \<Rightarrow> string \<Rightarrow> rc" where
  "fsp_exists sys path = (case sys path of Inr _ \<Rightarrow> 1 | Inl e \<Rightarrow> if e = 2 \<or> e = 20 then 0 else - e)"

definition fsp_chmod :: "(string \<Rightarrow> int \<Rightarrow> int + int) \<Rightarrow> string \<Rightarrow> int \<Rightarrow> rc \<times> int option" where
  "fsp_chmod sys path mode = posix (sys path mode)"

definition fsp_chown :: "(string \<Rightarrow> int \<Rightarrow> int \<Rightarrow> int + int) \<Rightarrow> string \<Rightarrow> int \<Rightarrow> int \<Rightarrow> rc \<times> int option" where
  "fsp_chown sys path uid gid = posix (sys path uid gid)"

definition fsp_symlink :: "(string \<Rightarrow> string \<Rightarrow> int + int) \<Rightarrow> string \<Rightarrow> string \<Rightarrow> rc \<times> int option" where
  "fsp_symlink sys target linkpath = posix (sys target linkpath)"

text \<open>The kernel is asked for one byte less than the buffer holds, and what it gives is ended with a NUL.\<close>

definition fsp_readlink :: "(string \<Rightarrow> nat \<Rightarrow> int + string) \<Rightarrow> string \<Rightarrow> nat \<Rightarrow> int \<times> string option" where
  "fsp_readlink sys path cap =
     (case sys path (cap - 1) of
        Inl _ \<Rightarrow> (- 1, None)
      | Inr t \<Rightarrow> (int (length t), if 0 < cap then Some t else None))"

text \<open>Errors that the two conventions report: -1 always, or the negated number, which is -1 for \<^verbatim>\<open>EPERM\<close> only.\<close>

lemma fsp_error_conventions:
  "sys x = Inl e \<Longrightarrow> fst (fsp_stat sys x) = - e"
  "0 < e \<Longrightarrow> fsp_exists sys p = - 1 \<and> sys p = Inl e \<Longrightarrow> e = 1"
  "sysm p m = Inl e \<Longrightarrow> fsp_mkdir sysm p m = (- 1, Some e)"
  by (auto simp: fsp_stat_def fsp_exists_def fsp_mkdir_def posix_def split: if_splits)

lemma fsp_readlink_fits:
  assumes "\<And>n t. sys path n = Inr t \<Longrightarrow> length t \<le> n" "fsp_readlink sys path cap = (n, Some t)"
  shows "n = int (length t) \<and> length t < cap"
  using assms(2) assms(1) [of "cap - 1"] by (fastforce simp: fsp_readlink_def split: sum.splits if_splits)

section \<open>The plugin\<close>

datatype fsp_state = FSP_UNINSTALLED | FSP_LOADED | FSP_STARTED | FSP_STOPPED

definition fsp_init :: "fsp_state \<Rightarrow> rc \<times> fsp_state" where
  "fsp_init s = (HWRUN_OK, FSP_LOADED)"

definition fsp_start :: "fsp_state \<Rightarrow> rc \<times> fsp_state" where
  "fsp_start s = (HWRUN_OK, FSP_STARTED)"

definition fsp_stop :: "fsp_state \<Rightarrow> rc \<times> fsp_state" where
  "fsp_stop s = (HWRUN_OK, FSP_STOPPED)"

definition fsp_destroy :: "fsp_state \<Rightarrow> rc \<times> fsp_state" where
  "fsp_destroy s = (HWRUN_OK, FSP_UNINSTALLED)"

text \<open>A change of \<^verbatim>\<open>fsp.root\<close> is only reported in the log.\<close>

definition fsp_configure :: "string \<Rightarrow> string option \<Rightarrow> rc \<times> string option" where
  "fsp_configure key v =
     (HWRUN_OK, if key = ''fsp.root'' then Some (case v of None \<Rightarrow> ''/'' | Some r \<Rightarrow> if r = [] then ''/'' else r) else None)"

end
