(* ===== verification/Plugins.thy ===== *)
theory Plugins
  imports ShippedYml Bus AuditLog Permission Shell Console StorageRegistry Pmp Loader Hap NpIface GitQuery SpLife FspFile
begin

text \<open>
  The entry files of the fifteen plugins of the repository: for each its callbacks over the state the other theories
  model, its table of operations and its descriptor, the one the macro of \<^verbatim>\<open>include/hwrun_plugin.h\<close> builds.

  The world of the bus is here the state of all of them.  What they get from outside when they start (parameters,
  memory, files, the system) is an argument.  Log lines are left out.
\<close>

section \<open>The state of all plugins\<close>

text \<open>A loader plugin keeps what the hardware plugin keeps: its private data and whether it marked itself as started.\<close>

record loader_self =
  ldr_pdata :: "bool option"
  ldr_state_started :: bool

record 'g world =
  wd_git :: "git_context \<times> 'g"
  wd_hap :: hap_self
  wd_pmp :: "bool \<times> tasks"
  wd_fsp :: fsp_state
  wd_np :: "NpIface.np_plugin \<times> conns"
  wd_sp :: sp_plugin
  wd_crypto :: hwplugin_state
  wd_loader :: loader_self
  wd_compress :: hwplugin_state
  wd_storage :: "hwplugin_state \<times> storage"
  wd_permission :: "hwplugin_state \<times> pstate"
  wd_audit :: "hwplugin_state \<times> store"
  wd_console :: "hwplugin_state \<times> console"
  wd_shell :: hwplugin_state
  wd_runtime :: "string \<rightharpoonup> nat"

record 'g surroundings =
  su_param :: "string \<Rightarrow> string option"
  su_mem :: bool
  su_al :: allocs
  su_state :: "string option"
  su_perm_state :: "string option"
  su_open :: "string \<Rightarrow> rc + string"
  su_os :: osenv
  su_git :: "'g git_os"

section \<open>Callbacks\<close>

text \<open>A callback that succeeds and does nothing else, and the selection of the interface, whose table is at \<open>a\<close>.\<close>

definition no_op :: "'g world \<Rightarrow> int \<times> 'g world" where
  "no_op w = (HWRUN_OK, w)"

definition accepts :: "string \<Rightarrow> string \<Rightarrow> 'g world \<Rightarrow> int \<times> 'g world" where
  "accepts key v w = (HWRUN_OK, w)"

definition iface :: "string \<Rightarrow> nat \<Rightarrow> string \<Rightarrow> nat" where
  "iface proto a q = (if q = proto then a else 0)"

text \<open>A callback on a plugin structure that is never NULL on the bus.\<close>

definition with_self :: "(('s \<Rightarrow> 's) \<Rightarrow> 'w \<Rightarrow> 'w) \<Rightarrow> ('w \<Rightarrow> 's) \<Rightarrow> ('s option \<Rightarrow> rc \<times> 's option) \<Rightarrow> 'w \<Rightarrow> int \<times> 'w" where
  "with_self upd sel f w =
     (case f (Some (sel w)) of
        (rc, None) \<Rightarrow> (rc, w)
      | (rc, Some p) \<Rightarrow> (rc, upd (\<lambda>_. p) w))"

definition git_init_msg :: string where
  "git_init_msg = (''GIT '' @
       utf8 [0xE6, 0x8F, 0x92, 0xE4, 0xBB, 0xB6, 0xE5, 0x88, 0x9D, 0xE5, 0xA7, 0x8B, 0xE5, 0x8C, 0x96])"

definition git_stop_msg :: string where
  "git_stop_msg = (''GIT '' @
       utf8 [0xE6, 0x8F, 0x92, 0xE4, 0xBB, 0xB6, 0xE5, 0x81, 0x9C, 0xE6, 0xAD, 0xA2])"

definition git_plugin_ops :: "'g surroundings \<Rightarrow> nat \<Rightarrow> 'g world plugin_ops" where
  "git_plugin_ops su a =
     \<lparr>op_init = Some (\<lambda>w. (HWRUN_OK, w\<lparr>wd_git := git_plugin_init (su_git su) (su_state su) git_init_msg (su_mem su) (snd (wd_git w))\<rparr>)),
      op_start = Some no_op,
      op_stop = Some (\<lambda>w. (HWRUN_OK, w\<lparr>wd_git := git_plugin_stop (su_git su) git_stop_msg (fst (wd_git w)) (snd (wd_git w))\<rparr>)),
      op_destroy = Some no_op, op_configure = None, op_get_interface = Some (iface ''GIT'' a)\<rparr>"

definition hap_ops :: "'g surroundings \<Rightarrow> nat \<Rightarrow> 'g world plugin_ops" where
  "hap_ops su a =
     \<lparr>op_init = Some (with_self wd_hap_update wd_hap (\<lambda>p. hap_init p (su_mem su))),
      op_start = Some (with_self wd_hap_update wd_hap hap_start),
      op_stop = Some (with_self wd_hap_update wd_hap hap_stop),
      op_destroy = Some (with_self wd_hap_update wd_hap hap_destroy),
      op_configure = Some accepts, op_get_interface = Some (iface ''HAP'' a)\<rparr>"

definition pmp_ops :: "nat \<Rightarrow> 'g world plugin_ops" where
  "pmp_ops a =
     \<lparr>op_init = Some (\<lambda>w. (HWRUN_OK, w\<lparr>wd_pmp := (True, snd (wd_pmp w))\<rparr>)),
      op_start = Some (\<lambda>w. (if fst (wd_pmp w) then HWRUN_OK else ENOTREADY, w)),
      op_stop = Some no_op,
      op_destroy = Some (\<lambda>w. (HWRUN_OK, w\<lparr>wd_pmp := (False, pmp_task_deinit (snd (wd_pmp w)))\<rparr>)),
      op_configure = Some accepts, op_get_interface = Some (iface ''PMP'' a)\<rparr>"

definition fsp_ops :: "nat \<Rightarrow> 'g world plugin_ops" where
  "fsp_ops a =
     \<lparr>op_init = Some (\<lambda>w. case fsp_init (wd_fsp w) of (rc, s) \<Rightarrow> (rc, w\<lparr>wd_fsp := s\<rparr>)),
      op_start = Some (\<lambda>w. case fsp_start (wd_fsp w) of (rc, s) \<Rightarrow> (rc, w\<lparr>wd_fsp := s\<rparr>)),
      op_stop = Some (\<lambda>w. case fsp_stop (wd_fsp w) of (rc, s) \<Rightarrow> (rc, w\<lparr>wd_fsp := s\<rparr>)),
      op_destroy = Some (\<lambda>w. case fsp_destroy (wd_fsp w) of (rc, s) \<Rightarrow> (rc, w\<lparr>wd_fsp := s\<rparr>)),
      op_configure = Some (\<lambda>k v w. (fst (fsp_configure k (Some v)), w)), op_get_interface = Some (iface ''FSP'' a)\<rparr>"

definition np_ops :: "'g surroundings \<Rightarrow> nat \<Rightarrow> 'g world plugin_ops" where
  "np_ops su a =
     \<lparr>op_init = Some (\<lambda>w. case np_init (fst (wd_np w)) (su_mem su) (snd (wd_np w)) of (rc, s) \<Rightarrow> (rc, w\<lparr>wd_np := s\<rparr>)),
      op_start = Some (\<lambda>w. case np_start (fst (wd_np w)) of (rc, p) \<Rightarrow> (rc, w\<lparr>wd_np := (p, snd (wd_np w))\<rparr>)),
      op_stop = Some (\<lambda>w. case np_stop (fst (wd_np w)) of (rc, p) \<Rightarrow> (rc, w\<lparr>wd_np := (p, snd (wd_np w))\<rparr>)),
      op_destroy = Some (\<lambda>w. case np_destroy (fst (wd_np w)) (snd (wd_np w)) of (rc, s) \<Rightarrow> (rc, w\<lparr>wd_np := s\<rparr>)),
      op_configure = Some accepts, op_get_interface = Some (iface ''NP'' a)\<rparr>"

definition sp_ops :: "'g surroundings \<Rightarrow> nat \<Rightarrow> 'g world plugin_ops" where
  "sp_ops su a =
     \<lparr>op_init = Some (with_self wd_sp_update wd_sp (\<lambda>p. sp_init p (su_mem su))),
      op_start = Some (with_self wd_sp_update wd_sp (sp_start (su_al su))),
      op_stop = Some (with_self wd_sp_update wd_sp sp_stop),
      op_destroy = Some (\<lambda>w. case sp_destroy (wd_sp w) of (rc, p) \<Rightarrow> (rc, w\<lparr>wd_sp := p\<rparr>)),
      op_configure = Some accepts, op_get_interface = Some (iface ''SP'' a)\<rparr>"

definition crypto_ops :: "nat \<Rightarrow> 'g world plugin_ops" where
  "crypto_ops a =
     \<lparr>op_init = Some (\<lambda>w. (HWRUN_OK, w\<lparr>wd_crypto := hwplugin_state.LOADED\<rparr>)), op_start = Some (\<lambda>w. (HWRUN_OK, w\<lparr>wd_crypto := hwplugin_state.STARTED\<rparr>)),
      op_stop = Some (\<lambda>w. (HWRUN_OK, w\<lparr>wd_crypto := hwplugin_state.STOPPED\<rparr>)), op_destroy = Some (\<lambda>w. (HWRUN_OK, w\<lparr>wd_crypto := hwplugin_state.UNINSTALLED\<rparr>)),
      op_configure = Some accepts, op_get_interface = Some (iface ''CRYPTO'' a)\<rparr>"

definition loader_init :: "loader_self option \<Rightarrow> bool \<Rightarrow> rc \<times> loader_self option" where
  "loader_init self mem =
     (case self of
        None \<Rightarrow> (EINVAL, None)
      | Some p \<Rightarrow> if \<not> mem then (ENOMEM, Some p) else (HWRUN_OK, Some (p\<lparr>ldr_pdata := Some False\<rparr>)))"

text \<open>The list of formats it builds is thrown away.\<close>

definition loader_start :: "loader_self option \<Rightarrow> rc \<times> loader_self option" where
  "loader_start self =
     (case self of
        None \<Rightarrow> (ENOTREADY, None)
      | Some p \<Rightarrow>
          (case ldr_pdata p of
             None \<Rightarrow> (ENOTREADY, Some p)
           | Some True \<Rightarrow> (HWRUN_OK, Some p)
           | Some False \<Rightarrow> (HWRUN_OK, Some (p\<lparr>ldr_pdata := Some True, ldr_state_started := True\<rparr>))))"

definition loader_stop :: "loader_self option \<Rightarrow> rc \<times> loader_self option" where
  "loader_stop self = (HWRUN_OK, map_option (\<lambda>p. if ldr_pdata p = None then p else p\<lparr>ldr_pdata := Some False\<rparr>) self)"

definition loader_destroy :: "loader_self option \<Rightarrow> rc \<times> loader_self option" where
  "loader_destroy self = (HWRUN_OK, map_option (\<lambda>p. p\<lparr>ldr_pdata := None\<rparr>) self)"

definition loader_ops :: "'g surroundings \<Rightarrow> nat \<Rightarrow> 'g world plugin_ops" where
  "loader_ops su a =
     \<lparr>op_init = Some (with_self wd_loader_update wd_loader (\<lambda>p. loader_init p (su_mem su))),
      op_start = Some (with_self wd_loader_update wd_loader loader_start),
      op_stop = Some (with_self wd_loader_update wd_loader loader_stop),
      op_destroy = Some (with_self wd_loader_update wd_loader loader_destroy),
      op_configure = Some accepts, op_get_interface = Some (iface ''LOADER'' a)\<rparr>"

definition compress_ops :: "nat \<Rightarrow> 'g world plugin_ops" where
  "compress_ops a =
     \<lparr>op_init = Some (\<lambda>w. (HWRUN_OK, w\<lparr>wd_compress := hwplugin_state.LOADED\<rparr>)), op_start = Some (\<lambda>w. (HWRUN_OK, w\<lparr>wd_compress := hwplugin_state.STARTED\<rparr>)),
      op_stop = Some (\<lambda>w. (HWRUN_OK, w\<lparr>wd_compress := hwplugin_state.STOPPED\<rparr>)), op_destroy = Some (\<lambda>w. (HWRUN_OK, w\<lparr>wd_compress := hwplugin_state.UNINSTALLED\<rparr>)),
      op_configure = Some accepts, op_get_interface = Some (iface ''COMPRESS'' a)\<rparr>"

definition storage_plugin_init :: "'g surroundings \<Rightarrow> 'g world \<Rightarrow> int \<times> 'g world" where
  "storage_plugin_init su w =
     (case storage_impl_init (su_os su) (su_al su) (su_state su) (snd (wd_storage w)) of
        (rc, g) \<Rightarrow> if rc \<noteq> 0 then (rc, w\<lparr>wd_storage := (fst (wd_storage w), g)\<rparr>) else (HWRUN_OK, w\<lparr>wd_storage := (hwplugin_state.LOADED, g)\<rparr>))"

definition storage_ops :: "'g surroundings \<Rightarrow> nat \<Rightarrow> 'g world plugin_ops" where
  "storage_ops su a =
     \<lparr>op_init = Some (storage_plugin_init su),
      op_start = Some (\<lambda>w. (HWRUN_OK, w\<lparr>wd_storage := (hwplugin_state.STARTED, snd (wd_storage w))\<rparr>)),
      op_stop = Some (\<lambda>w. (HWRUN_OK, w\<lparr>wd_storage := (hwplugin_state.STOPPED, snd (wd_storage w))\<rparr>)),
      op_destroy = Some (\<lambda>w. (HWRUN_OK, w\<lparr>wd_storage := (hwplugin_state.UNINSTALLED, storage_impl_shutdown (snd (wd_storage w)))\<rparr>)),
      op_configure = Some accepts, op_get_interface = Some (iface ''STORAGE'' a)\<rparr>"

text \<open>An unreadable policy is reported in the log only.\<close>

definition permission_plugin_start :: "'g surroundings \<Rightarrow> 'g world \<Rightarrow> int \<times> 'g world" where
  "permission_plugin_start su w =
     (HWRUN_OK, w\<lparr>wd_permission :=
        (hwplugin_state.STARTED, snd (hw_permission_state_open (su_open su) (su_mem su) (su_al su) (su_perm_state su) (su_state su) (snd (wd_permission w))))\<rparr>)"

definition permission_ops :: "'g surroundings \<Rightarrow> nat \<Rightarrow> 'g world plugin_ops" where
  "permission_ops su a =
     \<lparr>op_init = Some (\<lambda>w. (HWRUN_OK, w\<lparr>wd_permission := (hwplugin_state.LOADED, snd (wd_permission w))\<rparr>)),
      op_start = Some (permission_plugin_start su),
      op_stop = Some (\<lambda>w. (HWRUN_OK, w\<lparr>wd_permission := (hwplugin_state.STOPPED, snd (wd_permission w))\<rparr>)),
      op_destroy = Some (\<lambda>w. (HWRUN_OK, w\<lparr>wd_permission := (hwplugin_state.UNINSTALLED, hw_permission_state_close (snd (wd_permission w)))\<rparr>)),
      op_configure = Some accepts, op_get_interface = Some (iface ''PERMISSION'' a)\<rparr>"

definition terminal_ops :: "nat \<Rightarrow> 'g world plugin_ops" where
  "terminal_ops a =
     \<lparr>op_init = Some no_op, op_start = Some no_op, op_stop = Some no_op, op_destroy = Some no_op,
      op_configure = Some accepts, op_get_interface = Some (iface ''TERMINAL'' a)\<rparr>"

text \<open>The parameters that are set are applied one after the other; what the reader says of them is not looked at.\<close>

definition audit_plugin_start :: "'g surroundings \<Rightarrow> 'g world \<Rightarrow> int \<times> 'g world" where
  "audit_plugin_start su w =
     (HWRUN_OK, w\<lparr>wd_audit := (hwplugin_state.STARTED,
        foldl (\<lambda>g k. case su_param su k of
                        None \<Rightarrow> g
                      | Some v \<Rightarrow> if v \<noteq> [] then snd (hw_audit_configure g (Some k) (Some v)) else g)
          (snd (wd_audit w)) [''audit.log.path'', ''audit.log.max_bytes'', ''audit.log.max_files''])\<rparr>)"

definition audit_ops :: "'g surroundings \<Rightarrow> nat \<Rightarrow> 'g world plugin_ops" where
  "audit_ops su a =
     \<lparr>op_init = Some (\<lambda>w. (HWRUN_OK, w\<lparr>wd_audit := (hwplugin_state.LOADED, snd (wd_audit w))\<rparr>)),
      op_start = Some (audit_plugin_start su),
      op_stop = Some (\<lambda>w. (HWRUN_OK, w\<lparr>wd_audit := (hwplugin_state.STOPPED, snd (wd_audit w))\<rparr>)),
      op_destroy = Some (\<lambda>w. (HWRUN_OK, w\<lparr>wd_audit := (hwplugin_state.UNINSTALLED, snd (wd_audit w))\<rparr>)),
      op_configure = Some (\<lambda>k v w. case hw_audit_configure (snd (wd_audit w)) (Some k) (Some v) of
                             (rc, g) \<Rightarrow> (rc, w\<lparr>wd_audit := (fst (wd_audit w), g)\<rparr>)),
      op_get_interface = Some (iface ''AUDIT'' a)\<rparr>"

definition console_ops :: "nat \<Rightarrow> 'g world plugin_ops" where
  "console_ops a =
     \<lparr>op_init = Some (\<lambda>w. (HWRUN_OK, w\<lparr>wd_console := (hwplugin_state.LOADED, snd (wd_console w))\<rparr>)),
      op_start = Some (\<lambda>w. (HWRUN_OK, w\<lparr>wd_console := (hwplugin_state.STARTED, snd (wd_console w))\<rparr>)),
      op_stop = Some (\<lambda>w. (HWRUN_OK, w\<lparr>wd_console := (hwplugin_state.STOPPED, hw_console_cleanup (snd (wd_console w)))\<rparr>)),
      op_destroy = Some (\<lambda>w. (HWRUN_OK, w\<lparr>wd_console := (hwplugin_state.UNINSTALLED, hw_console_cleanup (snd (wd_console w)))\<rparr>)),
      op_configure = Some accepts, op_get_interface = Some (iface ''CONSOLE'' a)\<rparr>"

definition shell_ops :: "nat \<Rightarrow> 'g world plugin_ops" where
  "shell_ops a =
     \<lparr>op_init = Some (\<lambda>w. (HWRUN_OK, w\<lparr>wd_shell := hwplugin_state.LOADED\<rparr>)), op_start = Some (\<lambda>w. (HWRUN_OK, w\<lparr>wd_shell := hwplugin_state.STARTED\<rparr>)),
      op_stop = Some (\<lambda>w. (HWRUN_OK, w\<lparr>wd_shell := hwplugin_state.STOPPED\<rparr>)), op_destroy = Some (\<lambda>w. (HWRUN_OK, w\<lparr>wd_shell := hwplugin_state.UNINSTALLED\<rparr>)),
      op_configure = Some accepts, op_get_interface = Some (iface ''SHELL'' a)\<rparr>"

section \<open>Descriptors\<close>

text \<open>The runtime that is bound is remembered by the implementation of GIT in it.\<close>

definition hw_plugin_runtime_bind :: "string \<Rightarrow> nat \<Rightarrow> 'g world \<Rightarrow> 'g world" where
  "hw_plugin_runtime_bind i git w = w\<lparr>wd_runtime := (wd_runtime w)(i \<mapsto> git)\<rparr>"

definition hw_plugin_entry ::
  "string \<Rightarrow> string \<Rightarrow> string \<Rightarrow> hwplugin_type \<Rightarrow> string \<Rightarrow> 'g world plugin_ops \<Rightarrow> string list \<Rightarrow> string list \<Rightarrow> 'g world plugin" where
  "hw_plugin_entry i name ver ty desc ops prov req =
     \<lparr>pl_id = cstr 64 i, pl_name = cstr 128 name, pl_version = cstr 32 ver, pl_type = ty, pl_state = INSTALLED,
      pl_description = cstr 256 desc, pl_repo_url = [], pl_branch = [], pl_tag = [], pl_hooks = [[], [], [], []],
      pl_provides = prov, pl_requires = Some req, pl_conflicts = [], pl_files = [], pl_size = 0, pl_ops = ops,
      pl_handle = 0, pl_runtime_bind = Some (hw_plugin_runtime_bind (cstr 64 i)), pl_addr = 0\<rparr>"

definition git_entry :: "'g surroundings \<Rightarrow> nat \<Rightarrow> 'g world plugin" where
  "git_entry su a =
     hw_plugin_entry ''git'' (''Git '' @
       utf8 [0xE7, 0x89, 0x88, 0xE6, 0x9C, 0xAC, 0xE6, 0x8E, 0xA7, 0xE5, 0x88, 0xB6]) ''1.0.0'' TYPE_GIT
       (utf8 [0xE7, 0xB3, 0xBB, 0xE7, 0xBB, 0x9F] @
       '' Git '' @
       utf8 [0xE5, 0x91, 0xBD, 0xE4, 0xBB, 0xA4, 0xE7, 0x9A, 0x84, 0xE5, 0xB0, 0x81, 0xE8, 0xA3, 0x85, 0xE5, 0xB1, 0x82] @
       '' + '' @
       utf8 [0xE5, 0xAE, 0xA1, 0xE8, 0xAE, 0xA1, 0xE6, 0x97, 0xA5, 0xE5, 0xBF, 0x97] @
       '' + '' @
       utf8 [0xE8, 0x87, 0xAA, 0xE5, 0x8A, 0xA8, 0xE5, 0x8E, 0x86, 0xE5, 0x8F, 0xB2, 0xE7, 0xAE, 0xA1, 0xE7, 0x90, 0x86])
       (git_plugin_ops su a) [''GIT''] [''LOG'', ''PARAM'', ''METAPROTO'']"

definition hap_entry :: "'g surroundings \<Rightarrow> nat \<Rightarrow> 'g world plugin" where
  "hap_entry su a =
     hw_plugin_entry ''hap'' ''Hardware Abstraction Protocol'' ''1.0.0'' TYPE_KERNEL
       (''HWRun OS '' @
       utf8 [0xE7, 0xA1, 0xAC, 0xE4, 0xBB, 0xB6, 0xE6, 0x8A, 0xBD, 0xE8, 0xB1, 0xA1, 0xE5, 0x8D, 0x8F, 0xE8, 0xAE, 0xAE, 0xEF, 0xBC, 0x8C, 0xE6, 0x8F, 0x90, 0xE4, 0xBE, 0x9B, 0xE5, 0xAF, 0xB9] @
       '' CPU'' @
       utf8 [0xE3, 0x80, 0x81, 0xE5, 0x86, 0x85, 0xE5, 0xAD, 0x98, 0xE3, 0x80, 0x81, 0xE7, 0xA3, 0x81, 0xE7, 0x9B, 0x98, 0xE3, 0x80, 0x81, 0xE7, 0xBD, 0x91, 0xE7, 0xBB, 0x9C, 0xE3, 0x80, 0x81, 0xE7, 0xB3, 0xBB, 0xE7, 0xBB, 0x9F, 0xE4, 0xBF, 0xA1, 0xE6, 0x81, 0xAF, 0xE7, 0x9A, 0x84, 0xE7, 0xBB, 0x9F, 0xE4, 0xB8, 0x80, 0xE8, 0xAE, 0xBF, 0xE9, 0x97, 0xAE])
       (hap_ops su a) [''HAP''] [''LOG'', ''PARAM'', ''METAPROTO'']"

definition pmp_entry :: "nat \<Rightarrow> 'g world plugin" where
  "pmp_entry a =
     hw_plugin_entry ''pmp'' ''Process Management Protocol'' ''1.0.0'' TYPE_KERNEL
       (''HWRun OS '' @
       utf8 [0xE8, 0xBF, 0x9B, 0xE7, 0xA8, 0x8B, 0xE7, 0xAE, 0xA1, 0xE7, 0x90, 0x86, 0xE5, 0x8D, 0x8F, 0xE8, 0xAE, 0xAE, 0xEF, 0xBC, 0x9A, 0xE8, 0xBF, 0x9B, 0xE7, 0xA8, 0x8B, 0xE5, 0x88, 0x9B, 0xE5, 0xBB, 0xBA] @
       ''/'' @
       utf8 [0xE6, 0x8E, 0xA7, 0xE5, 0x88, 0xB6] @
       ''/'' @
       utf8 [0xE8, 0xB0, 0x83, 0xE5, 0xBA, 0xA6] @
       ''/'' @
       utf8 [0xE4, 0xBF, 0xA1, 0xE5, 0x8F, 0xB7] @
       ''/'' @
       utf8 [0xE4, 0xBB, 0xBB, 0xE5, 0x8A, 0xA1, 0xE7, 0xAE, 0xA1, 0xE7, 0x90, 0x86])
       (pmp_ops a) [''PMP''] [''METAPROTO'', ''PARAM'', ''LOG'', ''HAP'']"

definition fsp_entry :: "nat \<Rightarrow> 'g world plugin" where
  "fsp_entry a =
     hw_plugin_entry ''fsp'' ''FileSystem Protocol'' ''1.0.0'' TYPE_FS
       (''HWRun OS '' @
       utf8 [0xE6, 0x96, 0x87, 0xE4, 0xBB, 0xB6, 0xE7, 0xB3, 0xBB, 0xE7, 0xBB, 0x9F, 0xE5, 0x8D, 0x8F, 0xE8, 0xAE, 0xAE, 0xEF, 0xBC, 0x9A, 0xE6, 0x96, 0x87, 0xE4, 0xBB, 0xB6] @
       ''/'' @
       utf8 [0xE7, 0x9B, 0xAE, 0xE5, 0xBD, 0x95] @
       ''/'' @
       utf8 [0xE6, 0x9D, 0x83, 0xE9, 0x99, 0x90] @
       ''/'' @
       utf8 [0xE8, 0xB7, 0xAF, 0xE5, 0xBE, 0x84] @
       ''/'' @
       utf8 [0xE6, 0x8C, 0x82, 0xE8, 0xBD, 0xBD, 0xE6, 0x93, 0x8D, 0xE4, 0xBD, 0x9C])
       (fsp_ops a) [''FSP''] [''HAP'', ''PMP'', ''LOG'', ''PARAM'', ''METAPROTO'']"

definition np_entry :: "'g surroundings \<Rightarrow> nat \<Rightarrow> 'g world plugin" where
  "np_entry su a =
     hw_plugin_entry ''np'' ''Network Protocol'' ''1.0.0'' TYPE_NETWORK
       (''HWRun OS '' @
       utf8 [0xE7, 0xBD, 0x91, 0xE7, 0xBB, 0x9C, 0xE5, 0x8D, 0x8F, 0xE8, 0xAE, 0xAE, 0xEF, 0xBC, 0x9A] @
       ''socket'' @
       utf8 [0xE3, 0x80, 0x81] @
       ''TCP/UDP/UNIX'' @
       utf8 [0xE3, 0x80, 0x81, 0xE5, 0x90, 0x8D, 0xE7, 0xA7, 0xB0, 0xE8, 0xA7, 0xA3, 0xE6, 0x9E, 0x90, 0xE3, 0x80, 0x81, 0xE7, 0xBD, 0x91, 0xE7, 0xBB, 0x9C, 0xE6, 0x8E, 0xA5, 0xE5, 0x8F, 0xA3, 0xE6, 0x9E, 0x9A, 0xE4, 0xB8, 0xBE, 0xE7, 0x9A, 0x84, 0xE7, 0xBB, 0x9F, 0xE4, 0xB8, 0x80, 0xE6, 0x8A, 0xBD, 0xE8, 0xB1, 0xA1])
       (np_ops su a) [''NP''] [''HAP'', ''LOG'', ''PARAM'', ''METAPROTO'']"

definition sp_entry :: "'g surroundings \<Rightarrow> nat \<Rightarrow> 'g world plugin" where
  "sp_entry su a =
     hw_plugin_entry ''sp'' ''Security Protocol'' ''1.0.0'' TYPE_SECURITY
       (''HWRun OS '' @
       utf8 [0xE5, 0xAE, 0x89, 0xE5, 0x85, 0xA8, 0xE5, 0x8D, 0x8F, 0xE8, 0xAE, 0xAE, 0xEF, 0xBC, 0x9A, 0xE8, 0xAE, 0xA4, 0xE8, 0xAF, 0x81, 0xE3, 0x80, 0x81, 0xE6, 0x8E, 0x88, 0xE6, 0x9D, 0x83, 0xE3, 0x80, 0x81, 0xE5, 0x8A, 0xA0, 0xE5, 0xAF, 0x86, 0xE3, 0x80, 0x81, 0xE8, 0xA7, 0xA3, 0xE5, 0xAF, 0x86, 0xE3, 0x80, 0x81, 0xE5, 0x93, 0x88, 0xE5, 0xB8, 0x8C, 0xE3, 0x80, 0x81, 0xE7, 0xAD, 0xBE, 0xE5, 0x90, 0x8D, 0xE3, 0x80, 0x81, 0xE5, 0xAF, 0x86, 0xE9, 0x92, 0xA5, 0xE7, 0xAE, 0xA1, 0xE7, 0x90, 0x86, 0xE4, 0xB8, 0x8E, 0xE5, 0xAE, 0x8C, 0xE6, 0x95, 0xB4, 0xE6, 0x80, 0xA7, 0xE6, 0xA0, 0xA1, 0xE9, 0xAA, 0x8C])
       (sp_ops su a) [''SP''] [''LOG'', ''PARAM'', ''HAP'', ''PMP'', ''FSP'', ''METAPROTO'']"

definition crypto_entry :: "nat \<Rightarrow> 'g world plugin" where
  "crypto_entry a =
     hw_plugin_entry ''crypto'' ''Cryptographic Protocol (SP submodule)'' ''1.0.0'' TYPE_CRYPTO
       ''HWRun OS CRYPTO protocol: symmetric/asymmetric encryption, hash, HMAC, sign, key mgmt, RNG''
       (crypto_ops a) [''CRYPTO''] [''SP'', ''PARAM'', ''LOG'', ''METAPROTO'']"

definition loader_entry :: "'g surroundings \<Rightarrow> nat \<Rightarrow> 'g world plugin" where
  "loader_entry su a =
     hw_plugin_entry ''loader'' ''Executable Loader Protocol'' ''1.0.0'' TYPE_LOADER
       (''HWRun OS '' @
       utf8 [0xE5, 0x8F, 0xAF, 0xE6, 0x89, 0xA7, 0xE8, 0xA1, 0x8C, 0xE6, 0x96, 0x87, 0xE4, 0xBB, 0xB6, 0xE5, 0x8A, 0xA0, 0xE8, 0xBD, 0xBD, 0xE5, 0x8D, 0x8F, 0xE8, 0xAE, 0xAE, 0xEF, 0xBC, 0x9A, 0xE6, 0xA3, 0x80, 0xE6, 0xB5, 0x8B] @
       '' / '' @
       utf8 [0xE5, 0x8A, 0xA0, 0xE8, 0xBD, 0xBD] @
       '' / '' @
       utf8 [0xE8, 0xBF, 0x90, 0xE8, 0xA1, 0x8C, 0xE5, 0x90, 0x84, 0xE7, 0xB1, 0xBB, 0xE5, 0x8F, 0xAF, 0xE6, 0x89, 0xA7, 0xE8, 0xA1, 0x8C, 0xE6, 0xA0, 0xBC, 0xE5, 0xBC, 0x8F])
       (loader_ops su a) [''LOADER''] [''HAP'', ''PMP'', ''FSP'', ''LOG'', ''PARAM'', ''METAPROTO'']"

definition compress_entry :: "nat \<Rightarrow> 'g world plugin" where
  "compress_entry a =
     hw_plugin_entry ''compress'' ''Compression Protocol'' ''1.0.0'' TYPE_SERVICE
       ''HWRun OS COMPRESS protocol: buffer/file compression, decompression, format detect''
       (compress_ops a) [''COMPRESS''] [''LOG'', ''PARAM'', ''METAPROTO'']"

definition storage_entry :: "'g surroundings \<Rightarrow> nat \<Rightarrow> 'g world plugin" where
  "storage_entry su a =
     hw_plugin_entry ''storage'' ''Storage Backend Protocol'' ''1.0.0'' TYPE_STORAGE
       (''HWRun OS STORAGE protocol: '' @
       utf8 [0xE7, 0x94, 0xA8, 0xE6, 0x88, 0xB7, 0xE6, 0x80, 0x81, 0xE5, 0x8D, 0xB7, 0xE7, 0xAE, 0xA1, 0xE7, 0x90, 0x86, 0xEF, 0xBC, 0x88, 0xE7, 0x9B, 0xAE, 0xE5, 0xBD, 0x95, 0xE5, 0x8D, 0xB7, 0xE6, 0xB3, 0xA8, 0xE5, 0x86, 0x8C, 0xE8, 0xA1, 0xA8] @
       ''/'' @
       utf8 [0xE7, 0x94, 0x9F, 0xE5, 0x91, 0xBD, 0xE5, 0x91, 0xA8, 0xE6, 0x9C, 0x9F] @
       ''/'' @
       utf8 [0xE7, 0xBB, 0x9F, 0xE8, 0xAE, 0xA1] @
       ''/'' @
       utf8 [0xE5, 0xBF, 0xAB, 0xE7, 0x85, 0xA7, 0xEF, 0xBC, 0x89])
       (storage_ops su a) [''STORAGE''] [''LOG'', ''PARAM'', ''METAPROTO'']"

definition permission_entry :: "'g surroundings \<Rightarrow> nat \<Rightarrow> 'g world plugin" where
  "permission_entry su a =
     hw_plugin_entry ''permission'' ''Permission Management Protocol'' ''1.0.0'' TYPE_SECURITY
       ''HWRun OS PERMISSION protocol: user-space RBAC (subject-role-permission, default deny)''
       (permission_ops su a) [''PERMISSION''] [''LOG'', ''PARAM'', ''METAPROTO'']"

definition terminal_entry :: "nat \<Rightarrow> 'g world plugin" where
  "terminal_entry a =
     hw_plugin_entry ''terminal'' ''Terminal Protocol'' ''1.0.0'' TYPE_TOOLS
       ''HWRun OS TERMINAL protocol: PTY session mgmt, terminal control, io & resize''
       (terminal_ops a) [''TERMINAL''] [''LOG'', ''PARAM'', ''METAPROTO'']"

definition audit_entry :: "'g surroundings \<Rightarrow> nat \<Rightarrow> 'g world plugin" where
  "audit_entry su a =
     hw_plugin_entry ''audit'' ''Audit Protocol'' ''1.0.0'' TYPE_SECURITY
       ''HWRun OS AUDIT protocol: user-space event audit (append/query/export/rotate)''
       (audit_ops su a) [''AUDIT''] [''LOG'', ''PARAM'', ''METAPROTO'']"

definition console_entry :: "nat \<Rightarrow> 'g world plugin" where
  "console_entry a =
     hw_plugin_entry ''console'' ''System Console'' ''1.0.0'' TYPE_TOOLS
       ''HWRun OS CONSOLE protocol: session mgmt, banner, line/raw I/O, status, output attach''
       (console_ops a) [''CONSOLE''] [''LOG'', ''PARAM'', ''METAPROTO'']"

definition shell_entry :: "nat \<Rightarrow> 'g world plugin" where
  "shell_entry a =
     hw_plugin_entry ''shell'' ''Shell Interpreter'' ''1.0.0'' TYPE_TOOLS
       ''HWRun OS SHELL protocol: command-line interpreter with builtins, history, alias, external exec''
       (shell_ops a) [''SHELL''] [''LOG'', ''PARAM'', ''METAPROTO'']"

text \<open>The plugins of the repository, in the order they are started; \<open>ta i\<close> is the address of the table of \<open>i\<close>.\<close>

definition shipped :: "'g surroundings \<Rightarrow> (string \<Rightarrow> nat) \<Rightarrow> 'g world plugin list" where
  "shipped su ta =
     [git_entry su (ta ''git''), hap_entry su (ta ''hap''), pmp_entry (ta ''pmp''), fsp_entry (ta ''fsp''), np_entry su (ta ''np''),
      sp_entry su (ta ''sp''), crypto_entry (ta ''crypto''), loader_entry su (ta ''loader''), compress_entry (ta ''compress''),
      storage_entry su (ta ''storage''), permission_entry su (ta ''permission''), terminal_entry (ta ''terminal''),
      audit_entry su (ta ''audit''), console_entry (ta ''console''), shell_entry (ta ''shell'')]"

end
