(* ===== verification/System.thy ===== *)
theory System
  imports "HOL-Library.Multiset" Boot ShippedYml Plugins
begin

text \<open>
  The whole system: the plugins of the repository under the bus.  The files that describe them are scanned, their
  dependencies are met in the order of \<open>boot_order\<close>, and the boot starts all of them, in whatever order the directory is
  listed; without the code of any plugin being loaded, because nothing calls \<open>hw_plugin_load_so\<close>.  Were the code loaded,
  the callbacks would all succeed too.
\<close>

section \<open>The scan of a directory of plugins\<close>

definition from_file :: "string \<Rightarrow> yml_file \<Rightarrow> 'w plugin \<Rightarrow> bool" where
  "from_file dir f p \<longleftrightarrow> (\<exists>addr. p = plugin_of_discovery dir (yml_meaning f) addr)"

abbreviation yml_id :: "yml_file \<Rightarrow> string" where
  "yml_id f \<equiv> y_id (yml_meaning f)"

text \<open>Every entry \<open>e\<close> of the directory is the directory of a plugin with the file \<open>g e\<close>.\<close>

definition installed :: "fs \<Rightarrow> string \<Rightarrow> string list \<Rightarrow> (string \<Rightarrow> yml_file) \<Rightarrow> bool" where
  "installed fs dir es g \<longleftrightarrow> fs_list fs dir = Some es \<and> distinct (map (yml_id \<circ> g) es) \<and>
     (\<forall>e \<in> set es. e \<noteq> [] \<and> hd e \<noteq> CHR ''.'' \<and> fs_is_dir fs (fmt_out 512 dir e) \<and>
        fs_read fs (fmt_out 512 (fmt_out 512 dir e) ''plugin.yml'') = Some (yml_text (g e)) \<and> yml_file_ok (g e) \<and> yml_id (g e) \<noteq> [])"

lemma yml_meaning_id_short: "yml_file_ok f \<Longrightarrow> length (yml_id f) < 64"
  using yml_parse_bounded_id [of "Some (yml_text f)"] by (simp add: yml_file_reads)

lemma from_file_id: "yml_file_ok f \<Longrightarrow> from_file d f p \<Longrightarrow> pl_id p = yml_id f"
  using yml_meaning_id_short by (auto simp: from_file_def plugin_of_discovery_def cstr_simps)

lemma scan_one:
  assumes "fs_read fs (fmt_out 512 (fmt_out 512 dir e) ''plugin.yml'') = Some (yml_text f)" "yml_file_ok f" "yml_id f \<noteq> []"
    and "yml_id f \<notin> pl_id ` set (plugins bus)" "node = Some addr"
  shows "\<exists>p. from_file (fmt_out 512 dir e) f p \<and> snd (scan_dir_rec fs node bus dir e) = bus\<lparr>plugins := p # plugins bus\<rparr>"
proof -
  have "hw_bus_find bus (Some (yml_id f)) = None" using assms(4) by (simp add: hw_bus_find_def find_None) (metis imageI)
  then show ?thesis using assms(1-3,5) by (auto simp: scan_dir_rec_def Let_def yml_file_reads from_file_def)
qed

lemma scan_entries_all:
  assumes "\<forall>e \<in> set es. e \<noteq> [] \<and> hd e \<noteq> CHR ''.'' \<and> fs_is_dir fs (fmt_out 512 dir e) \<and>
        fs_read fs (fmt_out 512 (fmt_out 512 dir e) ''plugin.yml'') = Some (yml_text (g e)) \<and> yml_file_ok (g e) \<and> yml_id (g e) \<noteq> []"
    and "distinct (map (yml_id \<circ> g) es)" "\<forall>e \<in> set es. yml_id (g e) \<notin> pl_id ` set (plugins bus)" "\<forall>b. an b \<noteq> None"
  shows "\<exists>new. list_all2 (\<lambda>e p. from_file (fmt_out 512 dir e) (g e) p) es new \<and> scan_entries fs an bus dir es = bus\<lparr>plugins := rev new @ plugins bus\<rparr>"
  using assms(1-3)
proof (induction es arbitrary: bus)
  case Nil
  then show ?case by simp
next
  case (Cons e es)
  obtain addr where a: "an bus = Some addr" using assms(4) by blast
  obtain p where p: "from_file (fmt_out 512 dir e) (g e) p" "snd (scan_dir_rec fs (an bus) bus dir e) = bus\<lparr>plugins := p # plugins bus\<rparr>"
    using scan_one [of fs dir e "g e" bus "an bus" addr] Cons.prems(1,3) a by auto
  have i: "pl_id p = yml_id (g e)" using from_file_id [OF _ p(1)] Cons.prems(1) by simp
  let ?b = "bus\<lparr>plugins := p # plugins bus\<rparr>"
  have "yml_id (g x) \<noteq> yml_id (g e)" if "x \<in> set es" for x
    using that Cons.prems(2) by simp (metis imageI)
  then have "\<forall>x \<in> set es. yml_id (g x) \<notin> pl_id ` set (plugins ?b)"
    using Cons.prems(3) i by simp
  then obtain new where new: "list_all2 (\<lambda>e p. from_file (fmt_out 512 dir e) (g e) p) es new" "scan_entries fs an ?b dir es = ?b\<lparr>plugins := rev new @ plugins ?b\<rparr>"
    using Cons.IH [of ?b] Cons.prems(1,2) by auto
  have "scan_entries fs an bus dir (e # es) = bus\<lparr>plugins := rev (p # new) @ plugins bus\<rparr>"
    using Cons.prems(1) p(2) new(2) by simp
  then show ?case using p(1) new(1) by (intro exI [of _ "p # new"]) simp
qed

lemma scan_installed:
  assumes "installed fs dir es g" "b_initialized bus" "scan_paths bus = [dir]" "plugins bus = []" "\<forall>b. an b \<noteq> None"
  shows "\<exists>new. list_all2 (\<lambda>e p. from_file (fmt_out 512 dir e) (g e) p) es new \<and> snd (hw_bus_scan fs an bus) = bus\<lparr>plugins := rev new\<rparr>"
  using scan_entries_all [of es fs dir g bus an] assms
  by (auto simp: installed_def hw_bus_scan_def scan_dir_def)

section \<open>The bus after its initialisation\<close>

lemma register_builtin:
  assumes "reg_wf reg" "m_initialized reg" "length q < 64" "hw_metaproto_register True reg (Some q) (Some ''1.0'') (Some ''bus'') 0 = (rc, reg', evs)"
  shows "reg_wf reg' \<and> m_initialized reg' \<and> provider reg' (q, ''bus'') \<noteq> None \<and> (\<forall>k. provider reg k \<noteq> None \<longrightarrow> provider reg' k \<noteq> None)"
proof -
  have "rc = HWRUN_OK" using register_fails(2) [OF assms(2,4)] by blast
  with assms(4) have r: "hw_metaproto_register True reg (Some q) (Some ''1.0'') (Some ''bus'') 0 = (HWRUN_OK, reg', evs)" by simp
  show ?thesis
    using register_wf [OF assms(1-3) _ r] register_keeps(1) [OF r] assms(2) register_provider [OF assms(1-3) _ r] by simp
qed

lemma register_builtins_all:
  assumes "reg_wf reg" "m_initialized reg" "\<forall>q \<in> set qs. length q < 64"
  shows "reg_wf (register_builtins [] reg qs) \<and> m_initialized (register_builtins [] reg qs) \<and>
    (\<forall>q \<in> set qs. provider (register_builtins [] reg qs) (q, ''bus'') \<noteq> None) \<and>
    (\<forall>k. provider reg k \<noteq> None \<longrightarrow> provider (register_builtins [] reg qs) k \<noteq> None)"
  using assms
proof (induction qs arbitrary: reg)
  case (Cons q qs)
  obtain rc reg1 e where r: "hw_metaproto_register True reg (Some q) (Some ''1.0'') (Some ''bus'') 0 = (rc, reg1, e)"
    by (cases "hw_metaproto_register True reg (Some q) (Some ''1.0'') (Some ''bus'') 0") auto
  have "length q < 64" "\<forall>q \<in> set qs. length q < 64" using Cons.prems(3) by simp_all
  note b = register_builtin [OF Cons.prems(1,2) this(1) r] and IH = Cons.IH [of reg1, OF _ _ this(2)]
  have eq: "register_builtins [] reg (q # qs) = register_builtins [] reg1 qs" using r by simp
  show ?case unfolding eq using b IH by auto
qed simp

lemma init_bus:
  assumes "hw_bus_init root_ok [] sdir (Some dir) = Some (rc, bus)"
  shows "b_initialized bus \<and> plugins bus = [] \<and> scan_paths bus = [cstr 256 dir] \<and> reg_wf (meta bus) \<and> m_initialized (meta bus) \<and>
    (\<forall>q \<in> {''METAPROTO'', ''BUS'', ''PARAM'', ''LOG'', ''GIT''}. resolvable (meta bus) q)"
proof -
  let ?reg = "snd (hw_metaproto_init (Some (case sdir of Some s \<Rightarrow> cstr 256 s | None \<Rightarrow> ''/var/lib/hwrun'')))"
  have m: "meta bus = register_builtins [] ?reg [''METAPROTO'', ''BUS'', ''PARAM'', ''LOG'', ''GIT'']"
    using assms by (auto simp: hw_bus_init_def check_add_path_def Let_def simp del: register_builtins.simps split: option.splits)
  have "reg_wf ?reg" "m_initialized ?reg" by (simp_all add: hw_metaproto_init_def reg_wf_def)
  from register_builtins_all [OF this, of "[''METAPROTO'', ''BUS'', ''PARAM'', ''LOG'', ''GIT'']"]
  have "reg_wf (meta bus) \<and> m_initialized (meta bus) \<and> (\<forall>q \<in> {''METAPROTO'', ''BUS'', ''PARAM'', ''LOG'', ''GIT''}. resolvable (meta bus) q)"
    unfolding m by (auto intro!: resolvable_provider [of _ _ "''bus''"])
  then show ?thesis
    using assms by (auto simp: hw_bus_init_def check_add_path_def Let_def simp del: register_builtins.simps split: option.splits)
qed

section \<open>The descriptors and the callbacks behind them\<close>

lemmas entry_defs = git_entry_def hap_entry_def pmp_entry_def fsp_entry_def np_entry_def sp_entry_def crypto_entry_def loader_entry_def
  compress_entry_def storage_entry_def permission_entry_def terminal_entry_def audit_entry_def console_entry_def shell_entry_def

lemma shipped_ids_agree: "map pl_id (shipped su ta) = map fst (map summary (shipped_ymls cm))"
  unfolding shipped_summaries by (simp add: shipped_def entry_defs hw_plugin_entry_def cstr_simps)

definition su_ok :: "'g surroundings \<Rightarrow> bool" where
  "su_ok su \<longleftrightarrow> su_mem su \<and> fst (storage_impl_init (su_os su) (su_al su) (su_state su)
     \<lparr>st_initialized = False, st_dir = [], st_file = [], st_volumes = [], st_snapshots = [], st_fs = Dir 0 [], st_state = None\<rparr>) = 0"

lemma storage_init_rc: "fst (storage_impl_init os al env g) = fst (storage_impl_init os al env g')"
  by (simp add: storage_impl_init_def storage_load_def Let_def split: option.split prod.split)

lemmas ops_defs = git_plugin_ops_def hap_ops_def pmp_ops_def fsp_ops_def np_ops_def sp_ops_def crypto_ops_def loader_ops_def
  compress_ops_def storage_ops_def permission_ops_def terminal_ops_def audit_ops_def console_ops_def shell_ops_def

lemma storage_init_ok: "su_ok su \<Longrightarrow> fst (storage_plugin_init su w) = HWRUN_OK"
  using storage_init_rc [of "su_os su" "su_al su" "su_state su" "snd (wd_storage w)"]
  by (auto simp: su_ok_def storage_plugin_init_def split: prod.split)

lemma entries_run:
  assumes "su_ok su"
  shows "\<forall>e \<in> set (shipped su ta). runs e"
proof -
  have "su_mem su" using assms by (simp add: su_ok_def)
  then show ?thesis
    using storage_init_ok [OF assms]
    by (simp add: shipped_def entry_defs hw_plugin_entry_def runs_def run_op_def ops_defs no_op_def with_self_def hap_init_def hap_start_def
        fsp_init_def fsp_start_def np_init_def np_start_def sp_init_def sp_start_def loader_init_def loader_start_def
        permission_plugin_start_def audit_plugin_start_def)
qed

section \<open>Booting the plugins of the repository\<close>

definition shipped_look :: "string \<Rightarrow> (string list \<times> string list) option" where
  "shipped_look = map_of (map (\<lambda>(i, v, t, pr, rq, c). (i, pr, rq)) (map summary (shipped_ymls (\<lambda>_. []))))"

lemma summaries_of_comments: "map summary (shipped_ymls cm) = map summary (shipped_ymls cm')"
  by (simp only: shipped_summaries)

definition plain_summary :: "string \<times> string \<times> hwplugin_type \<times> string list \<times> string list \<times> string list \<Rightarrow> bool" where
  "plain_summary s \<longleftrightarrow>
     (case s of (i, v, t, pr, rq, c) \<Rightarrow>
        shipped_look i = Some (pr, rq) \<and> i \<noteq> [] \<and> length i < 64 \<and> (\<forall>q \<in> set pr. length q < 64) \<and> rq \<noteq> [] \<and> c = [])"

lemma shipped_plain:
  assumes "f \<in> set (shipped_ymls cm)"
  shows "plain_summary (summary f)"
proof -
  have "\<forall>s \<in> set (map summary (shipped_ymls cm)). plain_summary s"
    unfolding shipped_summaries plain_summary_def shipped_look_def by simp
  with assms show ?thesis by simp
qed

lemma shipped_order: "order_ok shipped_look [''METAPROTO'', ''BUS'', ''PARAM'', ''LOG'', ''GIT''] boot_order"
  unfolding shipped_look_def shipped_summaries boot_order_def by simp

lemma shipped_ids: "shipped_look i \<noteq> None \<longleftrightarrow> i \<in> yml_id ` set (shipped_ymls cm)"
proof -
  have "yml_id ` set (shipped_ymls cm) = fst ` set (map summary (shipped_ymls cm))"
    by (force simp: summary_def Let_def)
  also have "\<dots> = fst ` set (map (\<lambda>(i, v, t, pr, rq, c). (i, pr, rq)) (map summary (shipped_ymls (\<lambda>_. []))))"
    unfolding summaries_of_comments [of cm "\<lambda>_. []"] by (simp only: set_map image_image case_prod_unfold fst_conv)
  also have "\<dots> = {i. shipped_look i \<noteq> None}"
    unfolding shipped_look_def by (simp only: map_of_eq_None_iff) simp
  finally show ?thesis by blast
qed

text \<open>A plugin that the bus knows from file \<open>f\<close>, with or without its code.\<close>

definition like :: "yml_file \<Rightarrow> 'w plugin \<Rightarrow> bool" where
  "like f p \<longleftrightarrow> pl_id p = yml_id f \<and> pl_provides p = y_provides (yml_meaning f) \<and> pl_requires p = Some (y_requires (yml_meaning f)) \<and>
     pl_conflicts p = [] \<and> pl_state p = hwplugin_state.INSTALLED \<and> pl_runtime_bind p = None \<and> runs p"

lemma from_file_like:
  assumes "f \<in> set (shipped_ymls cm)" "from_file d f p"
  shows "like f p" "pl_ops p = null_ops"
  using shipped_plain [OF assms(1)] assms(2)
  by (auto simp: from_file_def like_def plugin_of_discovery_def plain_summary_def summary_def Let_def cstr_simps intro: runs_null)

definition fleet :: "(string \<Rightarrow> string list) \<Rightarrow> 'w plugin list \<Rightarrow> bool" where
  "fleet cm ps \<longleftrightarrow> distinct (map pl_id ps) \<and> (\<forall>p \<in> set ps. \<exists>f \<in> set (shipped_ymls cm). like f p) \<and>
     (\<forall>f \<in> set (shipped_ymls cm). \<exists>p \<in> set ps. like f p)"

lemma find_by_id: "distinct (map pl_id ps) \<Longrightarrow> p \<in> set ps \<Longrightarrow> find (\<lambda>q. pl_id q = pl_id p) ps = Some p"
  by (induction ps) auto

lemma fleet_find:
  assumes "fleet cm ps" "p \<in> set ps" "plugins bus = ps"
  shows "hw_bus_find bus (Some (pl_id p)) = Some p"
proof -
  have "find (\<lambda>q. pl_id q = pl_id p) ps = Some p"
    using assms(1,2) by (intro find_by_id) (simp_all add: fleet_def)
  with assms(3) show ?thesis by (simp add: hw_bus_find_def)
qed

lemma fleet_described:
  assumes "fleet cm ps" "plugins bus = ps"
  shows "described shipped_look bus i"
proof (cases "hw_bus_find bus (Some i)")
  case None
  have "i \<notin> yml_id ` set (shipped_ymls cm)"
  proof
    assume "i \<in> yml_id ` set (shipped_ymls cm)"
    then obtain p where "p \<in> set ps" "pl_id p = i" using assms(1) by (auto simp: fleet_def like_def)
    with fleet_find [OF assms(1) _ assms(2)] None show False by auto
  qed
  then have "shipped_look i = None" using shipped_ids [of i cm] by blast
  with None show ?thesis by (simp add: described_def)
next
  case (Some p)
  then have "p \<in> set ps" and i: "pl_id p = i" using assms(2) by (auto simp: hw_bus_find_def dest: find_SomeD)
  then obtain f where f: "f \<in> set (shipped_ymls cm)" "like f p" using assms(1) by (auto simp: fleet_def)
  have "shipped_look i = Some (needs p) \<and> startable p"
    using shipped_plain [OF f(1)] f(2) i
    by (auto simp: plain_summary_def summary_def Let_def like_def needs_def startable_def short_names_def)
  with Some show ?thesis by (simp add: described_def)
qed

lemma boot_order_distinct: "distinct boot_order"
  by (simp add: boot_order_def)

lemma shipped_in_boot_order: "f \<in> set (shipped_ymls cm) \<Longrightarrow> yml_id f \<in> set boot_order"
proof -
  have "\<forall>s \<in> set (map summary (shipped_ymls cm)). fst s \<in> set boot_order"
    unfolding shipped_summaries boot_order_def by simp
  then show "f \<in> set (shipped_ymls cm) \<Longrightarrow> yml_id f \<in> set boot_order" by (auto simp: summary_def Let_def)
qed

lemma fleet_boots:
  assumes "hw_bus_init root_ok [] sdir (Some dir) = Some (rc0, bus)" "fleet cm ps"
    and "boot_loop (\<lambda>_. []) (bus\<lparr>plugins := ps\<rparr>) w boot_order = (b, w', evs)"
  shows "(\<forall>f \<in> set (shipped_ymls cm). \<exists>p. hw_bus_find b (Some (yml_id f)) = Some p \<and> pl_state p = hwplugin_state.STARTED \<and>
      (\<forall>q \<in> set (y_provides (yml_meaning f)). resolvable (meta b) q)) \<and>
    w' = foldl (\<lambda>w i. case hw_bus_find (bus\<lparr>plugins := ps\<rparr>) (Some i) of None \<Rightarrow> w | Some p \<Rightarrow> called p w) w boot_order"
proof -
  let ?b0 = "bus\<lparr>plugins := ps\<rparr>"
  note i = init_bus [OF assms(1)]
  have d: "\<forall>i \<in> set boot_order. described shipped_look ?b0 i" using fleet_described [OF assms(2), of ?b0] by simp
  have nb: "pl_runtime_bind p = None" if "hw_bus_find ?b0 (Some i) = Some p" for i p
  proof -
    have "p \<in> set ps" using that by (auto simp: hw_bus_find_def dest: find_SomeD)
    then show ?thesis using assms(2) by (auto simp: fleet_def like_def)
  qed
  have wf: "reg_wf (meta ?b0)" "m_initialized (meta ?b0)" and av: "\<forall>q \<in> set [''METAPROTO'', ''BUS'', ''PARAM'', ''LOG'', ''GIT'']. resolvable (meta ?b0) q"
    using i by simp_all
  note bl = boot_loop_starts [OF assms(3) boot_order_distinct wf d av shipped_order]
  have "\<exists>p. hw_bus_find b (Some (yml_id f)) = Some p \<and> pl_state p = hwplugin_state.STARTED \<and> (\<forall>q \<in> set (y_provides (yml_meaning f)). resolvable (meta b) q)"
    if f: "f \<in> set (shipped_ymls cm)" for f
  proof -
    obtain p where p: "p \<in> set ps" "like f p" using assms(2) f by (auto simp: fleet_def)
    then have fnd: "hw_bus_find ?b0 (Some (yml_id f)) = Some p" using fleet_find [OF assms(2) p(1), of ?b0] by (simp add: like_def)
    with bl shipped_in_boot_order [OF f] have
      "hw_bus_find b (Some (yml_id f)) = Some (p\<lparr>pl_state := hwplugin_state.STARTED\<rparr>)" "\<forall>q \<in> set (pl_provides p). provider (meta b) (q, yml_id f) \<noteq> None"
      by blast+
    then show ?thesis using p(2) resolvable_provider [of "meta b" _ "yml_id f"] by (simp add: like_def del: not_None_eq)
  qed
  with bl nb show ?thesis by blast
qed

lemma list_all2_left: "list_all2 P xs ys \<Longrightarrow> y \<in> set ys \<Longrightarrow> \<exists>x \<in> set xs. P x y"
  by (induction rule: list_all2_induct) auto

lemma list_all2_right: "list_all2 P xs ys \<Longrightarrow> x \<in> set xs \<Longrightarrow> \<exists>y \<in> set ys. P x y"
  by (induction rule: list_all2_induct) auto

lemma fleet_of_scan:
  assumes "comments_ok cm" "installed fs dir es g" "mset (map g es) = mset (shipped_ymls cm)" "list_all2 (\<lambda>e p. from_file (fmt_out 512 dir e) (g e) p) es new"
    and "\<And>d f p. p \<in> set new \<Longrightarrow> f \<in> set (shipped_ymls cm) \<Longrightarrow> from_file d f p \<Longrightarrow> like f (c p)"
  shows "fleet cm (map c (rev new))"
proof -
  have sh: "set (shipped_ymls cm) = g ` set es" using mset_eq_setD [OF assms(3)] by simp
  have l: "list_all2 (\<lambda>e p. like (g e) (c p)) es new"
    using assms(4) by (rule list.rel_mono_strong) (use assms(5) sh in blast)
  then have "list_all2 (\<lambda>e p. pl_id (c p) = yml_id (g e)) es new"
    by (rule list.rel_mono_strong) (simp add: like_def)
  then have "map (pl_id \<circ> c) new = map (yml_id \<circ> g) es"
    by (induction rule: list_all2_induct) simp_all
  then have "distinct (map pl_id (map c (rev new)))"
    using assms(2) by (simp add: installed_def rev_map [symmetric])
  moreover have "\<forall>p \<in> set new. \<exists>e \<in> set es. like (g e) (c p)" "\<forall>e \<in> set es. \<exists>p \<in> set new. like (g e) (c p)"
    using list_all2_left [OF l] list_all2_right [OF l] by blast+
  ultimately show ?thesis unfolding fleet_def sh by auto
qed

text \<open>The directory \<^verbatim>\<open>/p\<close> with all plugins.\<close>

definition demo_ymls :: "yml_file list" where
  "demo_ymls = shipped_ymls (\<lambda>_. [])"

definition demo_path :: "string \<Rightarrow> string" where
  "demo_path i = fmt_out 512 (fmt_out 512 ''/p'' i) ''plugin.yml''"

definition demo_fs :: fs where
  "demo_fs =
     \<lparr>fs_list = (\<lambda>d. if d = ''/p'' then Some (map yml_id demo_ymls) else None), fs_is_dir = (\<lambda>_. True),
      fs_read = (\<lambda>path. map_option yml_text (find (\<lambda>f. demo_path (yml_id f) = path) demo_ymls))\<rparr>"

definition demo_file :: "string \<Rightarrow> yml_file" where
  "demo_file i = the (find (\<lambda>f. yml_id f = i) demo_ymls)"

lemma demo_ids: "map yml_id demo_ymls =
    [''git'', ''hap'', ''pmp'', ''fsp'', ''np'', ''sp'', ''crypto'', ''loader'', ''compress'', ''storage'', ''permission'', ''terminal'', ''audit'', ''console'', ''shell'']"
proof -
  have "map yml_id demo_ymls = map fst (map summary (shipped_ymls (\<lambda>_. [])))" by (simp add: demo_ymls_def summary_def Let_def)
  then show ?thesis unfolding shipped_summaries by simp
qed

lemma find_distinct: "distinct (map h xs) \<Longrightarrow> x \<in> set xs \<Longrightarrow> find (\<lambda>y. h y = h x) xs = Some x"
  by (induction xs) auto

lemma demo_installed: "installed demo_fs ''/p'' (map yml_id demo_ymls) demo_file" "map demo_file (map yml_id demo_ymls) = demo_ymls"
proof -
  have d: "distinct (map yml_id demo_ymls)" unfolding demo_ids by simp
  have "distinct (map demo_path (map yml_id demo_ymls))" unfolding demo_ids by code_simp
  then have dp: "distinct (map (\<lambda>f. demo_path (yml_id f)) demo_ymls)" by (simp add: comp_def)
  have f: "demo_file (yml_id f) = f" if "f \<in> set demo_ymls" for f
    using find_distinct [OF d that] by (simp add: demo_file_def)
  then show "map demo_file (map yml_id demo_ymls) = demo_ymls" by (simp add: map_idI)
  have r: "fs_read demo_fs (demo_path (yml_id f)) = Some (yml_text f)" if "f \<in> set demo_ymls" for f
    using find_distinct [OF dp that] by (simp add: demo_fs_def)
  have ok: "\<forall>f \<in> set demo_ymls. yml_file_ok f" unfolding demo_ymls_def by (rule shipped_ymls_ok) (simp add: comments_ok_def)
  have "\<forall>i \<in> set (map yml_id demo_ymls). i \<noteq> [] \<and> hd i \<noteq> CHR ''.''" unfolding demo_ids by simp
  then have "\<forall>f \<in> set demo_ymls. yml_id f \<noteq> [] \<and> hd (yml_id f) \<noteq> CHR ''.''" by simp
  moreover have "distinct (map (yml_id \<circ> demo_file) (map yml_id demo_ymls))"
    using d f by (simp add: comp_def cong: map_cong)
  ultimately show "installed demo_fs ''/p'' (map yml_id demo_ymls) demo_file"
    using r ok f by (simp add: installed_def demo_path_def [symmetric]) (simp add: demo_fs_def)
qed

lemma demo_bus: "\<exists>rc bus. hw_bus_init True [] None (Some ''/p'') = Some (rc, bus :: 'w bus)"
proof -
  have "\<not> Option.is_none (hw_bus_init True [] None (Some ''/p'') :: (rc \<times> 'w bus) option)" by code_simp
  then show ?thesis by (auto simp: Option.is_none_def)
qed

text \<open>
  C1. The system boots.  Take a bus that has just been initialised for a directory with the plugins of the repository,
  each in a directory of its own with its \<^verbatim>\<open>plugin.yml\<close>, listed in any order, and memory that suffices.  The boot
  chain starts every one of them, and every protocol of theirs is resolved.  None of their code has run: the world
  is as it was.
\<close>

theorem system_boots:
  assumes "hw_bus_init root_ok [] sdir (Some dir) = Some (rc0, bus)" "comments_ok cm"
    and "installed fs (cstr 256 dir) es g" "mset (map g es) = mset (shipped_ymls cm)" "\<forall>b. an b \<noteq> None"
    and "hw_bus_boot_chain fs an (\<lambda>_. []) ok bus w = (rc, bus', w', evs)"
  shows "rc = HWRUN_OK \<and> w' = w \<and>
    (\<forall>f \<in> set (shipped_ymls cm). \<exists>p. hw_bus_find bus' (Some (yml_id f)) = Some p \<and> pl_state p = hwplugin_state.STARTED \<and>
       (\<forall>q \<in> set (y_provides (yml_meaning f)). fst (hw_bus_resolve bus' (Some q)) = HWRUN_OK))"
proof -
  note i = init_bus [OF assms(1)]
  obtain new where new: "list_all2 (\<lambda>e p. from_file (fmt_out 512 (cstr 256 dir) e) (g e) p) es new" "snd (hw_bus_scan fs an bus) = bus\<lparr>plugins := rev new\<rparr>"
    using scan_installed [OF assms(3) _ _ _ assms(5)] i by blast
  obtain b evs where bl: "boot_loop (\<lambda>_. []) (bus\<lparr>plugins := rev new\<rparr>) w boot_order = (b, w', evs)"
      and b: "bus' = snd (hw_bus_config_route ok b)" and rc: "rc = HWRUN_OK"
    using assms(6) new(2) i by (auto simp: hw_bus_boot_chain_def split: prod.splits)
  have fl: "fleet cm (rev new)"
    using fleet_of_scan [OF assms(2-4) new(1), of "\<lambda>p. p"] from_file_like(1) by fastforce
  have null: "called p w = w" if "hw_bus_find (bus\<lparr>plugins := rev new\<rparr>) (Some j) = Some p" for j p w
  proof -
    have "p \<in> set new" using that by (auto simp: hw_bus_find_def dest: find_SomeD)
    then obtain e where e: "e \<in> set es" "from_file (fmt_out 512 (cstr 256 dir) e) (g e) p"
      using list_all2_left [OF new(1)] by blast
    have "g e \<in> set (shipped_ymls cm)" using mset_eq_setD [OF assms(4)] e(1) by auto
    then show ?thesis by (rule called_null [OF from_file_like(2) [OF _ e(2)]])
  qed
  let ?F = "\<lambda>w i. case hw_bus_find (bus\<lparr>plugins := rev new\<rparr>) (Some i) of None \<Rightarrow> w | Some p \<Rightarrow> called p w"
  have "?F w j = w" for w j by (cases "hw_bus_find (bus\<lparr>plugins := rev new\<rparr>) (Some j)") (simp_all add: null)
  then have "foldl ?F w js = w" for js by (induction js) (simp_all only: foldl.simps)
  then have "w' = w" using fleet_boots [OF assms(1) fl bl] by metis
  moreover have "hw_bus_find bus' x = hw_bus_find b x" "meta bus' = meta b" for x
    by (auto simp: b hw_bus_config_route_def split: prod.splits)
  ultimately show ?thesis
    using fleet_boots [OF assms(1) fl bl] rc unfolding hw_bus_resolve_def resolvable_def by simp
qed

theorem system_boots_witness:
  "\<exists>bus. map_option snd (hw_bus_init True [] None (Some ''/p'')) = Some bus \<and>
     (case hw_bus_boot_chain demo_fs (\<lambda>_. Some 1) (\<lambda>_. []) True bus (5 :: nat) of
        (_, bus', w', _) \<Rightarrow> map_option pl_state (hw_bus_find bus' (Some ''crypto'')) = Some hwplugin_state.STARTED \<and> w' = 5)"
proof -
  obtain rc0 and bus :: "nat bus" where b: "hw_bus_init True [] None (Some ''/p'') = Some (rc0, bus)" using demo_bus by blast
  obtain rc bus' w' evs where c: "hw_bus_boot_chain demo_fs (\<lambda>_. Some 1) (\<lambda>_. []) True bus (5 :: nat) = (rc, bus', w', evs)"
    by (cases "hw_bus_boot_chain demo_fs (\<lambda>_. Some 1) (\<lambda>_. []) True bus (5 :: nat)") auto
  have cm: "comments_ok (\<lambda>_. [])" by (simp add: comments_ok_def)
  have i: "installed demo_fs (cstr 256 ''/p'') (map yml_id demo_ymls) demo_file" using demo_installed(1) by (simp add: cstr_simps)
  have m: "mset (map demo_file (map yml_id demo_ymls)) = mset (shipped_ymls (\<lambda>_. []))"
    unfolding demo_installed(2) by (simp add: demo_ymls_def)
  have s: "\<forall>b :: nat bus. (\<lambda>_. Some 1) b \<noteq> (None :: nat option)" by simp
  note boots = system_boots [OF b cm i m s c]
  have "yml_id (crypto_yml (\<lambda>_. [])) = ''crypto''" "crypto_yml (\<lambda>_. []) \<in> set (shipped_ymls (\<lambda>_. []))"
    by (simp_all add: yml_meaning_def crypto_yml_def set_top_field_def cstr_simps discovery0_def shipped_ymls_def)
  with boots have "map_option pl_state (hw_bus_find bus' (Some ''crypto'')) = Some hwplugin_state.STARTED \<and> w' = 5"
    by (metis option.simps(9))
  with b c show ?thesis by simp
qed

section \<open>With the code loaded\<close>

text \<open>The dynamic linker finds the code of every plugin.\<close>

definition linked :: "(string \<Rightarrow> (nat \<times> 'g world plugin option option) option) \<Rightarrow> 'g surroundings \<Rightarrow> (string \<Rightarrow> nat) \<Rightarrow> 'g world plugin \<Rightarrow> bool" where
  "linked dl su ta p \<longleftrightarrow> (\<exists>e \<in> set (shipped su ta). \<exists>h. pl_id e = pl_id p \<and> hw_plugin_load_so dl p = (HWRUN_OK, p\<lparr>pl_handle := h, pl_ops := pl_ops e\<rparr>))"

definition all_up :: "'g world \<Rightarrow> bool" where
  "all_up w \<longleftrightarrow>
     cx_initialized (fst (wd_git w)) \<and> hap_pdata (wd_hap w) = Some True \<and> fst (wd_pmp w) \<and> wd_fsp w = FSP_STARTED \<and>
     np_pdata (fst (wd_np w)) = Some True \<and> spl_initialized (wd_sp w) \<and> wd_crypto w = hwplugin_state.STARTED \<and> ldr_pdata (wd_loader w) = Some True \<and>
     wd_compress w = hwplugin_state.STARTED \<and> fst (wd_storage w) = hwplugin_state.STARTED \<and> st_initialized (snd (wd_storage w)) \<and>
     fst (wd_permission w) = hwplugin_state.STARTED \<and> fst (wd_audit w) = hwplugin_state.STARTED \<and> fst (wd_console w) = hwplugin_state.STARTED \<and>
     wd_shell w = hwplugin_state.STARTED"

lemma storage_init_done: "fst (storage_impl_init os al env g) = 0 \<Longrightarrow> st_initialized (snd (storage_impl_init os al env g))"
  by (auto simp: storage_impl_init_def Let_def split: if_splits prod.splits)

lemma storage_called:
  assumes "su_ok su"
  shows "snd (storage_plugin_init su w) = w\<lparr>wd_storage := (hwplugin_state.LOADED, snd (storage_impl_init (su_os su) (su_al su) (su_state su) (snd (wd_storage w))))\<rparr>"
    and "st_initialized (snd (storage_impl_init (su_os su) (su_al su) (su_state su) g))"
proof -
  have ok: "fst (storage_impl_init (su_os su) (su_al su) (su_state su) g) = 0" for g
    using assms storage_init_rc unfolding su_ok_def by metis
  show "st_initialized (snd (storage_impl_init (su_os su) (su_al su) (su_state su) g))" by (rule storage_init_done [OF ok])
  show "snd (storage_plugin_init su w) = w\<lparr>wd_storage := (hwplugin_state.LOADED, snd (storage_impl_init (su_os su) (su_al su) (su_state su) (snd (wd_storage w))))\<rparr>"
    using ok [of "snd (wd_storage w)"] by (auto simp: storage_plugin_init_def split: prod.split)
qed

lemma git_init_initialized: "cx_initialized (fst (git_plugin_init os st msg m g))"
  by (simp add: git_plugin_init_def Let_def)

lemma shipped_come_up:
  assumes "su_ok su"
  shows "all_up (foldl (\<lambda>w e. called e w) w (shipped su ta))"
proof -
  have "su_mem su" using assms by (simp add: su_ok_def)
  then show ?thesis
    using storage_called [OF assms]
    by (simp add: all_up_def called_def shipped_def entry_defs hw_plugin_entry_def run_op_def ops_defs no_op_def with_self_def hap_init_def
        hap_start_def fsp_init_def fsp_start_def np_init_def np_start_def sp_init_def sp_start_def loader_init_def loader_start_def
        permission_plugin_start_def audit_plugin_start_def git_init_initialized)
qed

definition run_ops :: "'w plugin_ops \<Rightarrow> 'w \<Rightarrow> 'w" where
  "run_ops ops w = snd (run_op (op_start ops) (snd (run_op (op_init ops) w)))"

lemma called_run_ops: "called p w = run_ops (pl_ops p) w"
  by (simp add: called_def run_ops_def)

lemma boot_order_shipped:
  "foldl (\<lambda>w i. case map_of (map (\<lambda>e. (pl_id e, pl_ops e)) (shipped su ta)) i of None \<Rightarrow> w | Some ops \<Rightarrow> run_ops ops w) w boot_order =
   foldl (\<lambda>w e. called e w) w (shipped su ta)"
  by (simp add: boot_order_def shipped_def entry_defs hw_plugin_entry_def cstr_simps called_run_ops)

lemma fleet_ids: "fleet cm ps \<Longrightarrow> pl_id ` set ps = pl_id ` set (shipped su ta)"
proof -
  assume f: "fleet cm ps"
  have "pl_id ` set (shipped su ta) = set (map fst (map summary (shipped_ymls cm)))"
    unfolding shipped_ids_agree [of su ta cm, symmetric] by simp
  also have "\<dots> = yml_id ` set (shipped_ymls cm)" by (force simp: summary_def Let_def)
  also have "\<dots> = pl_id ` set ps" using f by (force simp: fleet_def like_def)
  finally show ?thesis by simp
qed

lemma shipped_ids_distinct: "distinct (map pl_id (shipped su ta))"
  unfolding shipped_ids_agree [of su ta "\<lambda>_. []"] shipped_summaries by simp

lemma fleet_ops:
  assumes "fleet cm ps" "\<forall>p \<in> set ps. \<exists>e \<in> set (shipped su ta). pl_id e = pl_id p \<and> pl_ops e = pl_ops p" "plugins bus = ps"
  shows "map_option pl_ops (hw_bus_find bus (Some i)) = map_of (map (\<lambda>e. (pl_id e, pl_ops e)) (shipped su ta)) i"
proof (cases "hw_bus_find bus (Some i)")
  case None
  have "i \<notin> pl_id ` set ps" using fleet_find [OF assms(1) _ assms(3)] None by fastforce
  then have "i \<notin> fst ` set (map (\<lambda>e. (pl_id e, pl_ops e)) (shipped su ta))"
    unfolding fleet_ids [OF assms(1), of su ta] by (simp add: image_image)
  then have "map_of (map (\<lambda>e. (pl_id e, pl_ops e)) (shipped su ta)) i = None" unfolding map_of_eq_None_iff .
  with None show ?thesis by simp
next
  case (Some p)
  then have p: "p \<in> set ps" "pl_id p = i" using assms(3) by (auto simp: hw_bus_find_def dest: find_SomeD)
  then obtain e where e: "e \<in> set (shipped su ta)" "pl_id e = i" "pl_ops e = pl_ops p" using assms(2) by auto
  have "distinct (map fst (map (\<lambda>e. (pl_id e, pl_ops e)) (shipped su ta)))"
    using shipped_ids_distinct [of su ta] by (simp add: comp_def)
  moreover have "(i, pl_ops p) \<in> set (map (\<lambda>e. (pl_id e, pl_ops e)) (shipped su ta))" using e by (auto intro!: image_eqI [of _ _ e])
  ultimately have "map_of (map (\<lambda>e. (pl_id e, pl_ops e)) (shipped su ta)) i = Some (pl_ops p)" by (rule map_of_is_SomeI)
  with Some show ?thesis by simp
qed

text \<open>
  C2. With their code the plugins start too.  If the shared object of every plugin that was scanned is loaded before
  the boot, memory suffices and the registry of the volumes can be read, then the boot loop starts all of them, their
  protocols are resolved, and the callbacks have run in the order of the boot: every plugin is up.
\<close>

theorem loaded_system_boots:
  assumes "hw_bus_init root_ok [] sdir (Some dir) = Some (rc0, bus)" "comments_ok cm"
    and "installed fs (cstr 256 dir) es g" "mset (map g es) = mset (shipped_ymls cm)" "\<forall>b. an b \<noteq> None"
    and "su_ok su" "\<forall>p \<in> set (plugins (snd (hw_bus_scan fs an bus))). linked dl su ta p"
    and "boot_loop (\<lambda>_. []) (bus\<lparr>plugins := map (\<lambda>p. snd (hw_plugin_load_so dl p)) (plugins (snd (hw_bus_scan fs an bus)))\<rparr>) w boot_order = (b, w', evs)"
  shows "(\<forall>f \<in> set (shipped_ymls cm). \<exists>p. hw_bus_find b (Some (yml_id f)) = Some p \<and> pl_state p = hwplugin_state.STARTED \<and>
      (\<forall>q \<in> set (y_provides (yml_meaning f)). resolvable (meta b) q)) \<and>
    w' = foldl (\<lambda>w e. called e w) w (shipped su ta) \<and> all_up w'"
proof -
  let ?c = "\<lambda>p. snd (hw_plugin_load_so dl p)"
  note i = init_bus [OF assms(1)]
  obtain new where new: "list_all2 (\<lambda>e p. from_file (fmt_out 512 (cstr 256 dir) e) (g e) p) es new" "snd (hw_bus_scan fs an bus) = bus\<lparr>plugins := rev new\<rparr>"
    using scan_installed [OF assms(3) _ _ _ assms(5)] i by blast
  have c: "\<exists>e \<in> set (shipped su ta). \<exists>h. pl_id e = pl_id p \<and> ?c p = p\<lparr>pl_handle := h, pl_ops := pl_ops e\<rparr>" if "p \<in> set new" for p
    using assms(7) new(2) that by (fastforce simp: linked_def)
  have "like f (?c p)" if p: "p \<in> set new" "f \<in> set (shipped_ymls cm)" "from_file d f p" for d f p
  proof -
    obtain e h where "e \<in> set (shipped su ta)" "?c p = p\<lparr>pl_handle := h, pl_ops := pl_ops e\<rparr>" using c [OF p(1)] by blast
    with from_file_like(1) [OF p(2,3)] entries_run [OF assms(6), of ta] show ?thesis by (auto simp: like_def runs_def)
  qed
  then have fl: "fleet cm (map ?c (rev new))" by (rule fleet_of_scan [OF assms(2-4) new(1)])
  have bl: "boot_loop (\<lambda>_. []) (bus\<lparr>plugins := map ?c (rev new)\<rparr>) w boot_order = (b, w', evs)" using assms(8) new(2) by simp
  have ops: "\<forall>p \<in> set (map ?c (rev new)). \<exists>e \<in> set (shipped su ta). pl_id e = pl_id p \<and> pl_ops e = pl_ops p"
    using c by fastforce
  let ?b0 = "bus\<lparr>plugins := map ?c (rev new)\<rparr>"
  have fo: "map_option pl_ops (hw_bus_find ?b0 (Some i)) = map_of (map (\<lambda>e. (pl_id e, pl_ops e)) (shipped su ta)) i" for i
    by (rule fleet_ops [OF fl ops]) simp
  have "(case hw_bus_find ?b0 (Some i) of None \<Rightarrow> w | Some p \<Rightarrow> called p w) =
      (case map_of (map (\<lambda>e. (pl_id e, pl_ops e)) (shipped su ta)) i of None \<Rightarrow> w | Some ops \<Rightarrow> run_ops ops w)" for i w
    unfolding fo [symmetric] by (cases "hw_bus_find ?b0 (Some i)") (simp_all add: called_run_ops)
  then have "w' = foldl (\<lambda>w e. called e w) w (shipped su ta)"
    using fleet_boots [OF assms(1) fl bl] boot_order_shipped [of su ta w] by simp
  moreover from this have "all_up w'" using shipped_come_up [OF assms(6), of w ta] by simp
  ultimately show ?thesis using conjunct1 [OF fleet_boots [OF assms(1) fl bl]] by simp
qed

definition demo_su :: "unit surroundings" where
  "demo_su =
     \<lparr>su_param = (\<lambda>_. None), su_mem = True, su_al = [], su_state = None, su_perm_state = None, su_open = (\<lambda>_. Inl ENOENT), su_os = (\<lambda>_ _. 0),
      su_git = \<lparr>os_exists = (\<lambda>_ _. True), os_system = (\<lambda>_ w. w), os_popen = (\<lambda>_ w. (None, w)), os_append = (\<lambda>_ _ w. w),
        os_read = (\<lambda>_ _. None), os_time = (\<lambda>_. 0)\<rparr>\<rparr>"

definition so_path :: "string \<Rightarrow> string" where
  "so_path i = ''/p/'' @ i @ ''/build/'' @ i @ ''.so''"

definition demo_dl :: "string \<Rightarrow> (nat \<times> unit world plugin option option) option" where
  "demo_dl path = map_option (\<lambda>e. (7, Some (Some e))) (find (\<lambda>e. so_path (pl_id e) = path) (shipped demo_su (\<lambda>_. 1)))"

lemma demo_files: "\<forall>f \<in> set demo_ymls. y_files (yml_meaning f) = [''build/'' @ yml_id f @ ''.so'']"
  unfolding demo_ymls_def
  by (simp add: shipped_ymls_def yml_defs yml_meaning_def set_top_field_def cstr_simps discovery0_def)

lemma demo_linked:
  assumes "f \<in> set demo_ymls" "from_file (fmt_out 512 ''/p'' (yml_id f)) f p"
  shows "linked demo_dl demo_su (\<lambda>_. 1) p"
proof -
  let ?i = "yml_id f"
  have i: "?i \<in> set (map yml_id demo_ymls)" using assms(1) by simp
  have "\<forall>i \<in> set (map yml_id demo_ymls). absolute_file (fmt_out 512 ''/p'' i) (Some (''build/'' @ i @ ''.so'')) = Some (so_path i) \<and> strstr (so_path i) ''.so''"
    unfolding demo_ids by code_simp
  with i have a: "absolute_file (fmt_out 512 ''/p'' ?i) (Some (''build/'' @ ?i @ ''.so'')) = Some (so_path ?i)" "strstr (so_path ?i) ''.so''" by blast+
  have ids: "map pl_id (shipped demo_su (\<lambda>_. 1)) = map yml_id demo_ymls"
    unfolding shipped_ids_agree [of demo_su "\<lambda>_. 1" "\<lambda>_. []"] by (simp add: demo_ymls_def summary_def Let_def)
  have "distinct (map so_path (map yml_id demo_ymls))" unfolding demo_ids by code_simp
  then have d: "distinct (map (\<lambda>e. so_path (pl_id e)) (shipped demo_su (\<lambda>_. 1)))" unfolding ids [symmetric] by (simp add: comp_def)
  obtain e where e: "e \<in> set (shipped demo_su (\<lambda>_. 1))" "pl_id e = ?i" using i unfolding ids [symmetric] by auto
  have dl: "demo_dl (so_path ?i) = Some (7, Some (Some e))" using find_distinct [OF d e(1)] e(2) by (simp add: demo_dl_def)
  obtain addr where p: "p = plugin_of_discovery (fmt_out 512 ''/p'' ?i) (yml_meaning f) addr" using assms(2) by (auto simp: from_file_def)
  have "pl_id p = ?i" using from_file_like(1) [OF _ assms(2)] assms(1) by (simp add: demo_ymls_def like_def)
  moreover have "pl_handle p = 0" "pl_files p = [Some (so_path ?i)]" using demo_files assms(1) a(1) by (simp_all add: p plugin_of_discovery_def)
  ultimately have "hw_plugin_load_so demo_dl p = (HWRUN_OK, p\<lparr>pl_handle := 7, pl_ops := pl_ops e\<rparr>)" "pl_id e = pl_id p"
    using a(2) dl e(2) by (simp_all add: hw_plugin_load_so_def)
  with e(1) show ?thesis unfolding linked_def by blast
qed

theorem loaded_system_boots_witness:
  "\<exists>bus. map_option snd (hw_bus_init True [] None (Some ''/p'')) = Some bus \<and>
     (\<forall>w. case boot_loop (\<lambda>_. []) (bus\<lparr>plugins := map (\<lambda>p. snd (hw_plugin_load_so demo_dl p)) (plugins (snd (hw_bus_scan demo_fs (\<lambda>_. Some 1) bus)))\<rparr>) w boot_order of
        (_, w', _) \<Rightarrow> all_up w')"
proof -
  obtain rc0 and bus :: "unit world bus" where b: "hw_bus_init True [] None (Some ''/p'') = Some (rc0, bus)" using demo_bus by blast
  have cm: "comments_ok (\<lambda>_. [])" by (simp add: comments_ok_def)
  have i: "installed demo_fs (cstr 256 ''/p'') (map yml_id demo_ymls) demo_file" using demo_installed(1) by (simp add: cstr_simps)
  have m: "mset (map demo_file (map yml_id demo_ymls)) = mset (shipped_ymls (\<lambda>_. []))"
    unfolding demo_installed(2) by (simp add: demo_ymls_def)
  have s: "\<forall>b :: unit world bus. (\<lambda>_. Some 1) b \<noteq> (None :: nat option)" by simp
  have su: "su_ok demo_su" by code_simp
  have f: "demo_file (yml_id f) = f" if "f \<in> set demo_ymls" for f
    using demo_installed(2) that by (metis in_set_conv_nth length_map nth_map)
  obtain new where new: "list_all2 (\<lambda>e p. from_file (fmt_out 512 ''/p'' e) (demo_file e) p) (map yml_id demo_ymls) new"
      "snd (hw_bus_scan demo_fs (\<lambda>_. Some 1) bus) = bus\<lparr>plugins := rev new\<rparr>"
    using scan_installed [OF demo_installed(1), of bus "\<lambda>_. Some 1"] init_bus [OF b] by (auto simp: cstr_simps)
  have "linked demo_dl demo_su (\<lambda>_. 1) p" if "p \<in> set new" for p
    using list_all2_left [OF new(1) that] f demo_linked by fastforce
  then have l: "\<forall>p \<in> set (plugins (snd (hw_bus_scan demo_fs (\<lambda>_. Some 1) bus))). linked demo_dl demo_su (\<lambda>_. 1) p" using new(2) by simp
  have "case boot_loop (\<lambda>_. []) (bus\<lparr>plugins := map (\<lambda>p. snd (hw_plugin_load_so demo_dl p)) (plugins (snd (hw_bus_scan demo_fs (\<lambda>_. Some 1) bus)))\<rparr>) w boot_order of
        (_, w', _) \<Rightarrow> all_up w'" for w
    using loaded_system_boots [OF b cm i m s su l] by (auto split: prod.split)
  with b show ?thesis by auto
qed

text \<open>
  The descriptor compiled into every plugin agrees with its \<^verbatim>\<open>plugin.yml\<close>: id, name, version, what it provides and
  the set of what it requires.  The type agrees as well, but for one: the reader of the bus does not know the type of COMPRESS.
\<close>

theorem descriptors_agree:
  "list_all2 (\<lambda>e f. pl_id e = yml_id f \<and> pl_name e = y_name (yml_meaning f) \<and> pl_version e = y_version (yml_meaning f) \<and>
       pl_provides e = y_provides (yml_meaning f) \<and> set (the (pl_requires e)) = set (y_requires (yml_meaning f)) \<and>
       (pl_type e = hw_type_from_str (Some (y_type (yml_meaning f)))) = (pl_id e \<noteq> ''compress''))
     (shipped su ta) (shipped_ymls cm)"
  by (simp add: shipped_def shipped_ymls_def entry_defs yml_defs hw_plugin_entry_def yml_meaning_def set_top_field_def cstr_simps
      discovery0_def hw_type_from_str_def insert_commute)

end
