(* ===== verification/BusCli.thy ===== *)
theory BusCli
  imports Bus
begin

text \<open>
  The program \<^verbatim>\<open>hwrun-bus\<close>, \<^verbatim>\<open>bus/src/main.c\<close>: the commands that look at the bus, change it and talk to the kernel, and
  the two ways the program runs, one command or the whole system until a signal ends it.

  A run of the program is a process: it starts with a bus of its own and leaves behind the file of the parameters,
  the state of the kernel module and what the plugins did to the world.  What it prints is part of its state.
\<close>

section \<open>The surroundings of a process\<close>

text \<open>
  The environment, the file system the scan sees, the device, whether the parameter file can be written; \<open>y_alloc\<close>
  gives the allocations of each call.
\<close>

record ('s, 'w) sys =
  y_env :: "'w env"
  y_fs :: fs
  y_addr :: "'w bus \<Rightarrow> nat option"
  y_state :: "string option"
  y_plugins :: "string option"
  y_dev :: "'s dev"
  y_open :: int
  y_strerror :: "int \<Rightarrow> string"
  y_can_write :: bool
  y_root_ok :: bool
  y_alloc :: "string \<Rightarrow> allocs"

record ('s, 'w) proc =
  c_bus :: "'w bus"
  c_file :: "string option"
  c_out :: string
  c_kernel :: 's
  c_w :: 'w

definition say :: "string \<Rightarrow> ('s, 'w) proc \<Rightarrow> ('s, 'w) proc" where
  "say s c = c\<lparr>c_out := c_out c @ s\<rparr>"

text \<open>The conversion \<^verbatim>\<open>%-ns\<close>.\<close>

definition padr :: "nat \<Rightarrow> string \<Rightarrow> string" where
  "padr n s = s @ replicate (n - length s) (CHR '' '')"

section \<open>Status, plugins, protocols\<close>

fun state_name :: "hwplugin_state \<Rightarrow> string" where
  "state_name UNINSTALLED = ''uninstalled''"
| "state_name INSTALLED = ''installed''"
| "state_name LOADED = ''loaded''"
| "state_name STARTED = ''started''"
| "state_name STOPPED = ''stopped''"
| "state_name ERROR = ''error''"

definition route_count :: "registry \<Rightarrow> nat" where
  "route_count reg = fst (snd (hw_metaproto_list True reg))"

definition scan :: "('s, 'w) sys \<Rightarrow> ('s, 'w) proc \<Rightarrow> ('s, 'w) proc" where
  "scan y c = c\<lparr>c_bus := snd (hw_bus_scan (y_fs y) (y_addr y) (c_bus c))\<rparr>"

definition status_line :: "'w plugin \<Rightarrow> string" where
  "status_line p =
     ''  '' @ padr 28 (pl_id p) @ '' '' @ padr 6 (pl_version p) @ '' '' @ state_name (pl_state p) @ '' ('' @ hw_type_to_str (pl_type p) @ '')'' @ [NL]
     @ (if pl_provides p = [] then [] else ''      provides: '' @ concat (map (\<lambda>q. q @ '' '') (pl_provides p)) @ [NL])"

definition cmd_status :: "('s, 'w) sys \<Rightarrow> ('s, 'w) proc \<Rightarrow> rc \<times> ('s, 'w) proc" where
  "cmd_status y c =
     (let c = scan y c; b = c_bus c in
      (HWRUN_OK,
       say (''HWRun OS 7.0.0'' @ [NL] @ ''state_dir:     '' @ state_dir b @ [NL]
            @ ''plugins:       '' @ show_nat (hw_bus_plugin_count b) @ [NL] @ ''protocols:     '' @ show_nat (route_count (meta b)) @ [NL]
            @ [NL] @ ''Plugins:'' @ [NL] @ concat (map status_line (plugins b))) c))"

definition usage :: string where
  "usage =
     ''usage: hwrun plugins list|load <id>|stop <id>|remove <id>'' @ [NL]
     @ ''       hwrun params list|get <key>|set <key> <val>'' @ [NL]
     @ ''       hwrun protocols list'' @ [NL]
     @ ''       hwrun kctl [abi|ping <hex>|list|resolve <proto>]'' @ [NL]
     @ ''       hwrun status'' @ [NL]"

definition plugin_line :: "'w plugin \<Rightarrow> string" where
  "plugin_line p =
     padr 24 (pl_id p) @ '' '' @ padr 8 (pl_version p) @ '' ''
     @ padr 10 (if pl_state p = UNINSTALLED then ''uninst'' else state_name (pl_state p)) @ '' '' @ hw_type_to_str (pl_type p) @ [NL]"

definition cmd_plugins :: "('s, 'w) sys \<Rightarrow> string list \<Rightarrow> ('s, 'w) proc \<Rightarrow> rc \<times> ('s, 'w) proc" where
  "cmd_plugins y args c =
     (let c = scan y c in
      case args of
        [] \<Rightarrow> (HWRUN_OK, say usage (scan y c))
      | sub # rest \<Rightarrow>
          if sub = ''list'' then
            (HWRUN_OK, say (padr 24 ''ID'' @ '' '' @ padr 8 ''VERSION'' @ '' '' @ padr 10 ''STATE'' @ '' TYPE'' @ [NL]
                            @ concat (map plugin_line (plugins (c_bus c)))) c)
          else if sub = ''load'' then
            (case rest of
               [] \<Rightarrow> (EINVAL, c)
             | i # _ \<Rightarrow>
                 (case hw_bus_load (y_alloc y i) (c_bus c) (Some i) (c_w c) of
                    (rc, b, w, _) \<Rightarrow>
                      (rc, say (''load '' @ i @ '': '' @ (if rc = HWRUN_OK then ''ok'' else ''failed'') @ [NL]) (c\<lparr>c_bus := b, c_w := w\<rparr>))))
          else if sub = ''stop'' then
            (case rest of
               [] \<Rightarrow> (EINVAL, c)
             | i # _ \<Rightarrow> (case hw_bus_stop (c_bus c) (Some i) (c_w c) of (rc, b, w, _) \<Rightarrow> (rc, c\<lparr>c_bus := b, c_w := w\<rparr>)))
          else if sub = ''remove'' then
            (case rest of
               [] \<Rightarrow> (EINVAL, c)
             | i # _ \<Rightarrow> (case hw_bus_unload (c_bus c) (Some i) (c_w c) of (rc, b, w, _) \<Rightarrow> (rc, c\<lparr>c_bus := b, c_w := w\<rparr>)))
          else (EINVAL, c))"

definition route_row :: "route \<Rightarrow> string" where
  "route_row r = padr 24 (r_protocol r) @ '' '' @ padr 10 (r_version r) @ '' '' @ padr 24 (r_plugin_id r) @ [NL]"

definition cmd_protocols :: "('s, 'w) sys \<Rightarrow> ('s, 'w) proc \<Rightarrow> rc \<times> ('s, 'w) proc" where
  "cmd_protocols y c =
     (case hw_metaproto_list (fst (alloc (y_alloc y ''list''))) (meta (c_bus c)) of
        (rc, _, rs) \<Rightarrow>
          (HWRUN_OK,
           if rc \<noteq> HWRUN_OK then say (''no protocols'' @ [NL]) c
           else say (padr 24 ''PROTOCOL'' @ '' '' @ padr 10 ''VERSION'' @ '' '' @ padr 24 ''PROVIDER'' @ [NL]
                     @ concat (map route_row (case rs of None \<Rightarrow> [] | Some rs \<Rightarrow> rs))) c))"

section \<open>Parameters\<close>

text \<open>The file is the same for every state directory.\<close>

definition params_persist_load :: "('s, 'w) sys \<Rightarrow> ('s, 'w) proc \<Rightarrow> ('s, 'w) proc" where
  "params_persist_load y c =
     c\<lparr>c_bus := (c_bus c)\<lparr>params := snd (hw_param_load_file (y_alloc y ''load'') (params (c_bus c)) (c_file c))\<rparr>\<rparr>"

definition params_persist_save :: "('s, 'w) sys \<Rightarrow> ('s, 'w) proc \<Rightarrow> ('s, 'w) proc" where
  "params_persist_save y c =
     (case hw_param_save_file (y_can_write y) (params (c_bus c)) of
        (_, None) \<Rightarrow> c
      | (_, Some text) \<Rightarrow> c\<lparr>c_file := Some text\<rparr>)"

definition cmd_params :: "('s, 'w) sys \<Rightarrow> string list \<Rightarrow> ('s, 'w) proc \<Rightarrow> rc \<times> ('s, 'w) proc" where
  "cmd_params y args c =
     (if args \<noteq> [] \<and> hd args = ''list'' then
        (let c = params_persist_load y c in (HWRUN_OK, say (hw_param_dump_all (params (c_bus c))) c))
      else if 2 \<le> length args \<and> hd args = ''get'' then
        (let c = params_persist_load y c in
         (HWRUN_OK, say ((case hw_param_get (params (c_bus c)) (Some (args ! 1)) of None \<Rightarrow> ''(nil)'' | Some v \<Rightarrow> v) @ [NL]) c))
      else if 3 \<le> length args \<and> hd args = ''set'' then
        (let c = params_persist_load y c in
         case rt_param_set (y_env y) (y_alloc y ''set'') (Some (c_bus c)) (Some (args ! 1)) (Some (args ! 2)) 0 None (c_w c) of
           (rc, b, w) \<Rightarrow>
             let c = say (''param '' @ args ! 1 @ ''='' @ args ! 2 @ '': '' @ (if rc = HWRUN_OK then ''ok'' else ''failed'') @ [NL])
                       (c\<lparr>c_bus := the b, c_w := w\<rparr>) in
             (rc, if rc = HWRUN_OK then params_persist_save y c else c))
      else (EINVAL, c))"

section \<open>The kernel\<close>

text \<open>\<^verbatim>\<open>strtoul\<close> with base 0: hexadecimal after \<^verbatim>\<open>0x\<close>, octal after \<^verbatim>\<open>0\<close>, else decimal.\<close>

definition digit_of :: "char \<Rightarrow> nat" where
  "digit_of c =
     (let n = of_char c in
      if 48 \<le> n \<and> n \<le> 57 then n - 48 else if 97 \<le> n \<and> n \<le> 122 then n - 87 else if 65 \<le> n \<and> n \<le> 90 then n - 55 else 36)"

definition digits_in :: "nat \<Rightarrow> string \<Rightarrow> nat" where
  "digits_in base s = foldl (\<lambda>a c. base * a + digit_of c) 0 (takeWhile (\<lambda>c. digit_of c < base) s)"

definition strtoul_any :: "string \<Rightarrow> nat" where
  "strtoul_any s =
     (let t = dropWhile isspace s;
          neg = (t \<noteq> [] \<and> hd t = CHR ''-'');
          u = (if t \<noteq> [] \<and> (hd t = CHR ''-'' \<or> hd t = CHR ''+'') then tl t else t);
          n = (if 2 < length u \<and> hd u = CHR ''0'' \<and> (u ! 1 = CHR ''x'' \<or> u ! 1 = CHR ''X'') \<and> digit_of (u ! 2) < 16
               then digits_in 16 (drop 2 u)
               else if u \<noteq> [] \<and> hd u = CHR ''0'' then digits_in 8 u else digits_in 10 u) in
      if 2 ^ 64 \<le> n then 2 ^ 64 - 1 else if neg then (2 ^ 64 - n) mod 2 ^ 64 else n)"

fun hex_text :: "nat \<Rightarrow> nat \<Rightarrow> string" where
  "hex_text 0 n = []"
| "hex_text (Suc k) n = hex_text k (n div 16) @ [''0123456789abcdef'' ! (n mod 16)]"

definition show_hex8 :: "32 word \<Rightarrow> string" where
  "show_hex8 w = ''0x'' @ hex_text 8 (unat w)"

definition kctl_protocols :: "string list" where
  "kctl_protocols = [''METAPROTO'', ''BUS'', ''PARAM'', ''LOG'', ''GIT'', ''HAP'', ''PMP'', ''FSP'', ''NP'', ''SP'', ''CRYPTO'', ''LOADER'']"

fun kctl_list :: "'s dev \<Rightarrow> kctl \<Rightarrow> 's \<Rightarrow> string list \<Rightarrow> (string \<times> 's) option" where
  "kctl_list dev k s [] = Some ([], s)"
| "kctl_list dev k s (q # qs) =
     (case hwrun_kctl_protocol_resolve dev k s (Some q) of
        None \<Rightarrow> None
      | Some (rc, s1, d) \<Rightarrow>
          (case kctl_list dev k s1 qs of
             None \<Rightarrow> None
           | Some (t, s2) \<Rightarrow>
               Some ((case d of
                        Some d \<Rightarrow> if rc = HWRUN_OK then padr 24 (d_protocol d) @ '' '' @ padr 12 (d_version d) @ '' '' @ padr 24 (d_provider d) @ [NL] else []
                      | None \<Rightarrow> []) @ t, s2)))"

definition kctl_default :: "('s, 'w) sys \<Rightarrow> kctl \<Rightarrow> ('s, 'w) proc \<Rightarrow> (rc \<times> ('s, 'w) proc) option" where
  "kctl_default y k c =
     (let p0 = 0x12345678 in
      case hwrun_kctl_get_abi (y_dev y) k (c_kernel c) of
        None \<Rightarrow> None
      | Some (rc, s, abi) \<Rightarrow>
          (case hwrun_kctl_ping (y_dev y) k s p0 of
             None \<Rightarrow> None
           | Some (rc2, s2, v) \<Rightarrow>
               Some (rc,
                 say (''kctl: open '' @ device k @ '': '' @ hw_strerror (y_strerror y) rc @ [NL]
                      @ (case abi of Some a \<Rightarrow> if rc = HWRUN_OK then ''kctl: abi version = '' @ show_nat a @ [NL] else [] | None \<Rightarrow> [])
                      @ (if rc2 = HWRUN_OK then ''kctl: ping '' @ show_hex8 p0 @ '' -> '' @ show_hex8 v @ [NL] else []))
                   (c\<lparr>c_kernel := s2\<rparr>))))"

definition cmd_kctl :: "('s, 'w) sys \<Rightarrow> string list \<Rightarrow> ('s, 'w) proc \<Rightarrow> (rc \<times> ('s, 'w) proc) option" where
  "cmd_kctl y args c =
     (case hwrun_kctl_open (y_open y) of
        (rc, k) \<Rightarrow>
          if rc \<noteq> HWRUN_OK then Some (rc, say (''kctl: no kernel boundary (/dev/hwrun): '' @ show_int rc @ [NL]) c)
          else if args = [] then kctl_default y k c
          else if hd args = ''abi'' then
            map_option (\<lambda>(rc, s, abi).
              (rc, say (''abi: '' @ hw_strerror (y_strerror y) rc @ '' ('' @ show_nat (case abi of None \<Rightarrow> 0 | Some a \<Rightarrow> a) @ '')'' @ [NL]) (c\<lparr>c_kernel := s\<rparr>)))
              (hwrun_kctl_get_abi (y_dev y) k (c_kernel c))
          else if hd args = ''ping'' \<and> 2 \<le> length args then
            map_option (\<lambda>(rc, s, v).
              (rc, say (''ping '' @ show_hex8 (of_nat (strtoul_any (args ! 1))) @ '' -> '' @ show_hex8 v @ '': '' @ hw_strerror (y_strerror y) rc @ [NL])
                     (c\<lparr>c_kernel := s\<rparr>)))
              (hwrun_kctl_ping (y_dev y) k (c_kernel c) (of_nat (strtoul_any (args ! 1))))
          else if hd args = ''list'' then
            map_option (\<lambda>(t, s).
              (HWRUN_OK, say (padr 24 ''PROTOCOL'' @ '' '' @ padr 12 ''VERSION'' @ '' '' @ padr 24 ''PROVIDER'' @ [NL] @ t) (c\<lparr>c_kernel := s\<rparr>)))
              (kctl_list (y_dev y) k (c_kernel c) kctl_protocols)
          else if hd args = ''resolve'' \<and> 2 \<le> length args then
            map_option (\<lambda>(rc, s, d).
              (rc, say (case d of
                          Some d \<Rightarrow> d_protocol d @ '' -> v'' @ d_version d @ '' by '' @ d_provider d @ '' (impl='' @ show_nat (d_implementation d) @ '')'' @ [NL]
                        | None \<Rightarrow> ''resolve '' @ args ! 1 @ '': '' @ (if rc = ENOENT then ''not found'' else ''failed'') @ [NL]) (c\<lparr>c_kernel := s\<rparr>)))
              (hwrun_kctl_protocol_resolve (y_dev y) k (c_kernel c) (Some (args ! 1)))
          else Some (EINVAL, say (''usage: hwrun kctl [abi|ping <hex>|list|resolve <proto>]'' @ [NL]) c))"

section \<open>The program\<close>

definition hw_bus_cli :: "('s, 'w) sys \<Rightarrow> string list \<Rightarrow> ('s, 'w) proc \<Rightarrow> (rc \<times> ('s, 'w) proc) option" where
  "hw_bus_cli y args c =
     (case args of
        [] \<Rightarrow> Some (HWRUN_OK, say usage c)
      | cmd # rest \<Rightarrow>
          if cmd = ''status'' then Some (cmd_status y c)
          else if cmd = ''plugins'' then Some (cmd_plugins y rest c)
          else if cmd = ''params'' \<or> cmd = ''param'' then Some (cmd_params y rest c)
          else if cmd = ''protocols'' then Some (cmd_protocols y c)
          else if cmd = ''kctl'' then cmd_kctl y rest c
          else if cmd = ''scan'' then
            (case hw_bus_scan (y_fs y) (y_addr y) (c_bus c) of (rc, b) \<Rightarrow> Some (rc, c\<lparr>c_bus := b\<rparr>))
          else Some (EINVAL, say usage c))"

definition cli_cmds :: "string list" where
  "cli_cmds = [''plugins'', ''params'', ''param'', ''protocols'', ''status'', ''scan'', ''kctl'']"

definition shut_down :: "('s, 'w) proc \<Rightarrow> ('s, 'w) proc" where
  "shut_down c = (case hw_bus_shutdown (c_bus c) (c_w c) of (b, w, _) \<Rightarrow> c\<lparr>c_bus := b, c_w := w\<rparr>)"

text \<open>
  \<open>main\<close> starts from the file, the kernel and the world as they are.  Without a command it starts the
  plugins, waits for the signal that ends it and stops them; the locks are switched on in between.  \<^const>\<open>None\<close> is a
  path that overflows, or the kernel reading past a descriptor.
\<close>

definition main_prog :: "('s, 'w) sys \<Rightarrow> string list \<Rightarrow> string option \<Rightarrow> 's \<Rightarrow> 'w \<Rightarrow> (int \<times> ('s, 'w) proc) option" where
  "main_prog y args file0 s w =
     (case hw_bus_init (y_root_ok y) (y_alloc y ''init'') (y_state y) (y_plugins y) of
        None \<Rightarrow> None
      | Some (rc, b) \<Rightarrow>
          let c = \<lparr>c_bus = b, c_file = file0, c_out = [], c_kernel = s, c_w = w\<rparr> in
          if rc \<noteq> HWRUN_OK then Some (1, c)
          else if args \<noteq> [] \<and> List.member cli_cmds (hd args) then
            map_option (\<lambda>(rc, c). (rc, shut_down c)) (hw_bus_cli y args c)
          else
            (case hw_bus_boot_chain (y_fs y) (y_addr y) (y_alloc y) (fst (alloc (y_alloc y ''watch''))) b w of
               (_, b, w, _) \<Rightarrow>
                 Some (0, shut_down (say
                   (''HWRun OS booted ('' @ show_nat (hw_bus_plugin_count b) @ '' plugins, '' @ show_nat (route_count (meta b)) @ '' protocols)'' @ [NL]
                    @ ''HWRun OS shutting down...'' @ [NL]) (c\<lparr>c_bus := b\<lparr>running := False\<rparr>, c_w := w\<rparr>)))))"

end
