(* ===== verification/BusCliCorrect.thy ===== *)
theory BusCliCorrect
  imports BusCli
begin

text \<open>
  The parameters across runs of the program: each run loads the file, changes or reads the tree and ends, and the file
  behaves as a table that is written key by key.
\<close>

section \<open>Trees the file carries\<close>

definition child_clean :: "nat \<Rightarrow> param \<Rightarrow> bool" where
  "child_clean n c \<longleftrightarrow> key_clean (pkey c) \<and> value_clean (pvalue c)
     \<and> (if n = 0 then 0 else n + 1) + length (pkey c) < 512 \<and> param_clean ((if n = 0 then 0 else n + 1) + length (pkey c)) c"

lemma param_clean_iff: "param_clean n p \<longleftrightarrow> (\<forall>c \<in> set (pchildren p). child_clean n c)"
  by (cases p) (simp add: Let_def child_clean_def)

declare param_clean.simps [simp del]

lemma put_child_clean: "param_clean n t \<Longrightarrow> child_clean n c \<Longrightarrow> param_clean n (put_child t c)"
  using set_update_first [of _ "\<lambda>x. pkey x = pkey c" "\<lambda>_. c" "pchildren t"]
  by (auto simp: param_clean_iff put_child_def)

lemma ensure_child_clean:
  assumes "ensure_child al t h ty d = (Some (t', c), al')" "param_clean n t"
    and "length h < 128" "key_clean h" "(if n = 0 then 0 else n + 1) + length h < 512"
  shows "param_clean n t' \<and> param_clean ((if n = 0 then 0 else n + 1) + length h) c \<and> value_clean (pvalue c)"
proof (cases "hw_param_get_child t h")
  case None
  with assms(1) have a: "hw_param_add_child al t h None ty d = (Some (t', c), al')" by (simp add: ensure_child_def)
  note c = add_child_Some [OF a]
  have k: "pkey c = h" using c(2) assms(3) by (simp add: cstr_simps)
  have "param_clean m c" for m using c(3) by (simp add: param_clean_iff)
  moreover have "value_clean (pvalue c)" using c(4) by (simp add: value_clean_def)
  ultimately have "child_clean n c" using assms(4,5) k by (simp add: child_clean_def)
  then show ?thesis using assms(2) k c(1) by (auto simp: param_clean_iff [of n] child_clean_def)
next
  case (Some x)
  then have x: "x \<in> set (pchildren t)" "pkey x = h" by (auto dest: get_child_key)
  then have "child_clean n x" using assms(2) by (simp add: param_clean_iff)
  then show ?thesis using Some assms(1,2) x by (auto simp: ensure_child_def child_clean_def)
qed

lemma param_set_clean:
  "param_set al t key v ty d = (rc, t', al') \<Longrightarrow> param_clean n t \<Longrightarrow> value_clean (cstr 256 v) \<Longrightarrow>
   \<forall>k \<in> set (param_segs key). key_clean k \<Longrightarrow> (if n = 0 then 0 else n + 1) + length (dotted (param_segs key)) < 512 \<Longrightarrow>
   param_clean n t'"
proof (induction key arbitrary: al t rc t' al' n rule: param_segs.induct)
  case (1 key)
  obtain h r where hr: "param_split_key key 128 = (h, r)" by force
  obtain ec al1 where ec: "ensure_child al t h ty d = (ec, al1)" by force
  let ?segs = "case r of None \<Rightarrow> [] | Some s \<Rightarrow> param_segs s"
  have segs: "param_segs key = h # ?segs" by (subst param_segs.simps) (simp add: hr split: option.split)
  have h: "length h < 128" "key_clean h" using split_key_short [OF hr] "1.prems"(4) segs by auto
  have len: "length (dotted (param_segs key)) = length h + (if r = None then 0 else 1 + length (dotted ?segs))"
    unfolding segs by (cases r) (simp_all add: dotted_Cons)
  let ?m = "(if n = 0 then 0 else n + 1) + length h"
  have m: "?m < 512" "?m \<noteq> 0" using "1.prems"(5) len h(2) by (auto simp: key_clean_def split: if_splits)
  show ?case
  proof (cases ec)
    case None
    with "1.prems" show ?thesis by (simp add: param_set_unfold [of al t] hr ec)
  next
    case (Some q)
    then obtain t1 c where p: "ec = Some (t1, c)" by (cases q) auto
    note w = ensure_child_clean [OF ec [unfolded p] "1.prems"(2) h m(1)]
    note k = ensure_child_props(2) [OF ec [unfolded p] h(1)]
    show ?thesis
    proof (cases r)
      case None
      let ?c = "Param (pkey c) (cstr 256 v) ty (pdesc c) (pchildren c)"
      have "param_clean ?m c" using w by blast
      then have "param_clean ?m ?c" by (simp only: param_clean_iff [of ?m] param.sel)
      then have "param_clean n (put_child t1 ?c)" using w h m(1) k "1.prems"(3) by (intro put_child_clean) (auto simp: child_clean_def)
      then show ?thesis using "1.prems"(1) by (simp add: param_set_unfold [of al t] hr ec p None)
    next
      case (Some s)
      obtain c' al2 where rec: "param_set al1 c s v ty d = (rc, c', al2)" and t': "t' = put_child t1 c'"
        using "1.prems"(1) by (auto simp: param_set_unfold [of al t] hr ec p Some split: prod.splits)
      have "\<forall>k \<in> set (param_segs s). key_clean k" using "1.prems"(4) segs Some by simp
      moreover have "(if ?m = 0 then 0 else ?m + 1) + length (dotted (param_segs s)) < 512"
        using "1.prems"(5) len m(2) Some by simp
      ultimately have "param_clean ?m c'"
        using "1.IH" [OF hr [symmetric] Some rec _ "1.prems"(3)] w by blast
      moreover have "pkey c' = h \<and> value_clean (pvalue c')"
      proof -
        have "pkey c' = pkey c \<and> pval c' [] = pval c []"
          using pval_param_set [OF rec] param_segs_nonempty [of s, symmetric] by auto
        then show ?thesis using w k by simp
      qed
      ultimately show ?thesis unfolding t' using w h m(1) by (intro put_child_clean) (auto simp: child_clean_def)
    qed
  qed
qed

section \<open>The file as a table\<close>

definition empty_tree :: param where
  "empty_tree = Param ''.'' [] 0 [] []"

definition param_adm :: "string \<Rightarrow> string \<Rightarrow> bool" where
  "param_adm key v \<longleftrightarrow>
     (\<forall>k \<in> set (param_segs key). key_clean k) \<and> length (dotted (param_segs key)) < 512 \<and> value_clean v \<and> length v < 256"

definition file_tree :: "string option \<Rightarrow> param" where
  "file_tree f = (case f of None \<Rightarrow> empty_tree | Some s \<Rightarrow> fst (param_load_lines [] empty_tree (fgets_all 1024 s)))"

definition file_ok :: "string option \<Rightarrow> bool" where
  "file_ok f \<longleftrightarrow> f = None \<or> (\<exists>t. param_wf t \<and> param_clean 0 t \<and> f = Some (hw_param_tree_save t []))"

definition file_put :: "string option \<Rightarrow> string \<Rightarrow> string \<Rightarrow> string option" where
  "file_put f k v = Some (hw_param_tree_save (param_write 0 None (file_tree f) k v) [])"

lemma empty_tree_facts: "param_wf empty_tree" "param_clean n empty_tree" "pval empty_tree ks = []" "pvalue empty_tree = []"
  by (cases ks; simp add: empty_tree_def pval_Cons hw_param_get_child_def param_clean.simps)+

lemma puts_clean:
  "\<forall>e \<in> set es. entry_ok e \<Longrightarrow> \<forall>e \<in> set es. param_adm (fst e) (snd e) \<Longrightarrow> param_wf t \<Longrightarrow> param_clean 0 t \<Longrightarrow>
   param_wf (ptree.puts 0 None t es) \<and> param_clean 0 (ptree.puts 0 None t es)"
proof (induction es arbitrary: t)
  case (Cons e es)
  obtain k v where e: "e = (k, v)" by force
  have w: "param_set [] t k v 0 None = (HWRUN_OK, param_write 0 None t k v, [])" by (rule param_write_eq)
  have "param_wf (param_write 0 None t k v)" using param_set_wf [OF w] Cons.prems by blast
  moreover have "param_clean 0 (param_write 0 None t k v)"
    using Cons.prems e by (intro param_set_clean [OF w]) (auto simp: param_adm_def cstr_simps)
  ultimately show ?case using Cons e by simp
qed simp

text \<open>A path with a value goes through clean keys.\<close>

lemma path_clean:
  "param_clean n t \<Longrightarrow> ks \<noteq> [] \<Longrightarrow> pval t ks \<noteq> [] \<Longrightarrow>
   (\<forall>k \<in> set ks. key_clean k) \<and> (if n = 0 then 0 else n + 1) + length (dotted ks) < 512 \<and> value_clean (pval t ks)"
proof (induction ks arbitrary: n t)
  case (Cons k ks)
  obtain c where c: "hw_param_get_child t k = Some c" "pval t (k # ks) = pval c ks"
    using Cons.prems(3) by (auto simp: pval_Cons split: option.splits)
  then have ck: "c \<in> set (pchildren t)" "pkey c = k" by (auto dest: get_child_key)
  have "child_clean n c" using Cons.prems(1) ck(1) unfolding param_clean_iff by blast
  then have k: "key_clean k" "value_clean (pvalue c)" "(if n = 0 then 0 else n + 1) + length k < 512"
      "param_clean ((if n = 0 then 0 else n + 1) + length k) c"
    using ck(2) by (simp_all add: child_clean_def)
  show ?case
  proof (cases "ks = []")
    case True
    then show ?thesis using k c by simp
  next
    case False
    define m where "m = (if n = 0 then 0 else n + 1) + length k"
    have "m \<noteq> 0" using k(1) by (simp add: key_clean_def m_def)
    moreover have "(\<forall>k \<in> set ks. key_clean k) \<and> (if m = 0 then 0 else m + 1) + length (dotted ks) < 512 \<and> value_clean (pval c ks)"
      using Cons.IH [of m c] k(4) Cons.prems(3) c(2) False unfolding m_def by metis
    ultimately show ?thesis
      using c(2) k(1) False by (cases "n = 0"; cases "k = []") (auto simp: dotted_Cons m_def key_clean_def)
  qed
qed simp

lemma entries_adm:
  assumes "param_wf t" "param_clean 0 t" "e \<in> set (param_entries [] t)"
  shows "entry_ok e \<and> param_adm (fst e) (snd e)"
proof -
  have f: "map (\<lambda>(k, v). (param_segs k, v)) (param_entries [] t) = flat [] t" and ok: "\<forall>e \<in> set (param_entries [] t). entry_ok e"
    using param_entries_flat [of t "[]"] assms(1,2) by auto
  have "(param_segs (fst e), snd e) \<in> set (flat [] t)" unfolding f [symmetric] using assms(3) by (force split: prod.splits)
  then have v: "snd e = pval t (param_segs (fst e))" "snd e \<noteq> []" using flat_root [OF assms(1)] by blast+
  have "length (snd e) < 256" using ok assms(3) by (auto simp: entry_ok_def)
  then show ?thesis
    using path_clean [OF assms(2) param_segs_nonempty, of "fst e"] v ok assms(3) by (simp add: param_adm_def)
qed

lemma file_tree_saved:
  assumes "param_wf t" "param_clean 0 t"
  shows "param_wf (file_tree (Some (hw_param_tree_save t [])))" "param_clean 0 (file_tree (Some (hw_param_tree_save t [])))"
proof -
  let ?es = "param_entries [] t"
  have ok: "\<forall>e \<in> set ?es. entry_ok e" "\<forall>e \<in> set ?es. param_adm (fst e) (snd e)" using entries_adm [OF assms] by blast+
  have "fgets_all 1024 (hw_param_tree_save t []) = map (\<lambda>l. l @ [NL]) (map entry_line ?es)"
    using fgets_all_lines [of "map entry_line ?es" 1024 "[]"] entry_ok_line(2,3) ok(1) by (simp add: tree_save_entries)
  then have "file_tree (Some (hw_param_tree_save t [])) = ptree.puts 0 None empty_tree ?es"
    using load_entry_lines [OF ok(1)] by (simp add: file_tree_def)
  then show "param_wf (file_tree (Some (hw_param_tree_save t [])))" "param_clean 0 (file_tree (Some (hw_param_tree_save t [])))"
    using puts_clean [OF ok empty_tree_facts(1,2)] by simp_all
qed

lemma file_tree_ok: "file_ok f \<Longrightarrow> param_wf (file_tree f) \<and> param_clean 0 (file_tree f) \<and> pval (file_tree f) [] = []"
  using file_tree_saved load_saved [OF _ _ empty_tree_facts(1), of _ "[]"] empty_tree_facts
  by (auto simp: file_ok_def file_tree_def)

interpretation cli: kv_store file_ok "\<lambda>_. param_adm" param_segs "\<lambda>v. v" "\<lambda>f. pval (file_tree f)" file_put
proof
  fix f :: "string option" and k v
  assume f: "file_ok f" and kv: "param_adm k v"
  let ?t = "param_write 0 None (file_tree f) k v"
  have w: "param_set [] (file_tree f) k v 0 None = (HWRUN_OK, ?t, [])" by (rule param_write_eq)
  have t: "param_wf ?t" "param_clean 0 ?t"
    using param_set_wf [OF w] param_set_clean [OF w] file_tree_ok [OF f] kv by (auto simp: param_adm_def cstr_simps)
  then show "file_ok (file_put f k v)" by (auto simp: file_ok_def file_put_def)
  have val: "pval ?t = (pval (file_tree f))(param_segs k := v)"
    using pval_param_set [OF w] kv by (simp add: param_adm_def cstr_simps)
  have "pval (file_tree (file_put f k v)) ks = pval ?t ks" for ks
    using load_saved [OF t empty_tree_facts(1), of ks] empty_tree_facts(3,4) val file_tree_ok [OF f] param_segs_nonempty [of k, symmetric]
    by (cases "ks = []") (auto simp: file_put_def file_tree_def)
  then show "pval (file_tree (file_put f k v)) = (pval (file_tree f))(param_segs k := v)" using val by (simp add: fun_eq_iff)
qed

section \<open>One run\<close>

text \<open>Memory does not run out, the file can be written and the paths fit their buffers.\<close>

definition sys_ok :: "('s, 'w) sys \<Rightarrow> bool" where
  "sys_ok y \<longleftrightarrow> y_root_ok y \<and> y_can_write y \<and> y_alloc y ''load'' = [] \<and> y_alloc y ''set'' = []
     \<and> hw_param_init True (Some (case y_state y of Some s \<Rightarrow> cstr 256 s | None \<Rightarrow> ''/var/lib/hwrun'')) \<noteq> None"

lemma bus_starts_empty:
  fixes y :: "('s, 'w) sys"
  assumes "sys_ok y"
  obtains b :: "'w bus" where "hw_bus_init (y_root_ok y) (y_alloc y ''init'') (y_state y) (y_plugins y) = Some (HWRUN_OK, b)"
    "p_root (params b) = Some empty_tree"
proof -
  let ?sd = "case y_state y of Some s \<Rightarrow> cstr 256 s | None \<Rightarrow> ''/var/lib/hwrun''"
  obtain rc ctx where i: "hw_param_init True (Some ?sd) = Some (rc, ctx)" using assms by (auto simp: sys_ok_def)
  then have r: "p_root ctx = Some empty_tree"
    by (auto simp: hw_param_init_def empty_tree_def Let_def split: option.splits)
  have "\<exists>b :: 'w bus. hw_bus_init (y_root_ok y) (y_alloc y ''init'') (y_state y) (y_plugins y) = Some (HWRUN_OK, b) \<and> params b = ctx\<lparr>p_on_revision := Some HOOK_REVISION, p_revision_userdata := BUS_PTR\<rparr>"
    using assms i by (auto simp: hw_bus_init_def sys_ok_def check_add_path_def Let_def split: option.splits)
  then obtain b :: "'w bus" where "hw_bus_init (y_root_ok y) (y_alloc y ''init'') (y_state y) (y_plugins y) = Some (HWRUN_OK, b)"
      "params b = ctx\<lparr>p_on_revision := Some HOOK_REVISION, p_revision_userdata := BUS_PTR\<rparr>" by blast
  then show thesis using r that by simp
qed

text \<open>The callbacks of a change leave the parameters alone.\<close>

lemma dispatch_params: "params (fst (foldl (dispatch_event env) s evs)) = params (fst s)"
proof (induction evs arbitrary: s)
  case (Cons ev evs)
  have "params (fst (dispatch_event env s ev)) = params (fst s)"
    by (cases s; cases ev) (simp_all add: dispatch_event_def bus_on_param_revision_def Let_def)
  then show ?case using Cons by simp
qed simp

lemma loaded_tree:
  assumes "p_root ctx = Some empty_tree"
  shows "p_root (snd (hw_param_load_file [] ctx f)) = Some (file_tree f)"
  using assms by (cases f) (simp_all add: hw_param_load_file_def file_tree_def)

lemma run_set:
  fixes y :: "('s, 'w) sys"
  assumes "sys_ok y" "file_ok f"
  shows "\<exists>c. main_prog y [''param'', ''set'', k, v] f s w = Some (HWRUN_OK, c) \<and> c_file c = file_put f k v
    \<and> c_out c = ''param '' @ k @ ''='' @ v @ '': ok'' @ [NL]"
proof -
  obtain b :: "'w bus" where b: "hw_bus_init (y_root_ok y) (y_alloc y ''init'') (y_state y) (y_plugins y) = Some (HWRUN_OK, b)"
    "p_root (params b) = Some empty_tree" using bus_starts_empty [OF assms(1)] .
  let ?ctx = "snd (hw_param_load_file [] (params b) f)"
  have ctx: "p_root ?ctx = Some (file_tree f)" by (rule loaded_tree) (rule b)
  obtain evs where set: "hw_param_set_value (e_fnmatch (y_env y)) [] ?ctx (Some k) (Some v) 0 None
      = (HWRUN_OK, ?ctx\<lparr>p_root := Some (param_write 0 None (file_tree f) k v)\<rparr>, evs)"
    using param_write_eq [of "file_tree f" k v 0 None] by (simp add: hw_param_set_value_def ctx Let_def)
  obtain b2 w2 where d: "foldl (dispatch_event (y_env y)) (b\<lparr>params := ?ctx\<lparr>p_root := Some (param_write 0 None (file_tree f) k v)\<rparr>\<rparr>, w) evs = (b2, w2)"
    by fastforce
  then have b2: "p_root (params b2) = Some (param_write 0 None (file_tree f) k v)"
    using dispatch_params [of "y_env y" "(b\<lparr>params := ?ctx\<lparr>p_root := Some (param_write 0 None (file_tree f) k v)\<rparr>\<rparr>, w)" evs] by simp
  have y: "y_alloc y ''load'' = []" "y_alloc y ''set'' = []" "y_can_write y" using assms(1) by (simp_all add: sys_ok_def)
  let ?c = "\<lparr>c_bus = b, c_file = f, c_out = [], c_kernel = s, c_w = w\<rparr>"
  have "cmd_params y [''set'', k, v] ?c = (HWRUN_OK,
      \<lparr>c_bus = b2, c_file = file_put f k v, c_out = ''param '' @ k @ ''='' @ v @ '': ok'' @ [NL], c_kernel = s, c_w = w2\<rparr>)"
    using b2 by (simp add: cmd_params_def params_persist_load_def params_persist_save_def rt_param_set_def y set d say_def
        hw_param_save_file_def file_put_def Let_def)
  then have cli: "hw_bus_cli y [''param'', ''set'', k, v] ?c = Some (HWRUN_OK,
      \<lparr>c_bus = b2, c_file = file_put f k v, c_out = ''param '' @ k @ ''='' @ v @ '': ok'' @ [NL], c_kernel = s, c_w = w2\<rparr>)"
    by (simp add: hw_bus_cli_def)
  have "List.member cli_cmds ''param''" by (simp add: cli_cmds_def)
  then show ?thesis
    by (simp add: main_prog_def b(1) cli shut_down_def Let_def split: prod.split)
qed

lemma run_get:
  fixes y :: "('s, 'w) sys"
  assumes "sys_ok y"
  shows "\<exists>c. main_prog y [''param'', ''get'', k] f s w = Some (HWRUN_OK, c) \<and> c_file c = f
    \<and> c_out c = (let v = pval (file_tree f) (param_segs k) in if v = [] then ''(nil)'' else v) @ [NL]"
proof -
  obtain b :: "'w bus" where b: "hw_bus_init (y_root_ok y) (y_alloc y ''init'') (y_state y) (y_plugins y) = Some (HWRUN_OK, b)"
    "p_root (params b) = Some empty_tree" using bus_starts_empty [OF assms(1)] .
  have ctx: "p_root (snd (hw_param_load_file [] (params b) f)) = Some (file_tree f)" by (rule loaded_tree) (rule b)
  have y: "y_alloc y ''load'' = []" using assms(1) by (simp_all add: sys_ok_def)
  have v: "hw_param_get (snd (hw_param_load_file [] (params b) f)) (Some k) =
      (let v = pval (file_tree f) (param_segs k) in if v = [] then None else Some v)"
    using hw_param_get_val ctx by (simp add: ctx_val_def)
  let ?c = "\<lparr>c_bus = b, c_file = f, c_out = [], c_kernel = s, c_w = w\<rparr>"
  let ?out = "(let v = pval (file_tree f) (param_segs k) in if v = [] then ''(nil)'' else v) @ [NL]"
  have cli: "hw_bus_cli y [''param'', ''get'', k] ?c = Some (HWRUN_OK,
      ?c\<lparr>c_bus := b\<lparr>params := snd (hw_param_load_file [] (params b) f)\<rparr>, c_out := ?out\<rparr>)"
    by (simp add: hw_bus_cli_def cmd_params_def params_persist_load_def y v say_def Let_def)
  have "List.member cli_cmds ''param''" by (simp add: cli_cmds_def)
  then show ?thesis
    by (simp add: main_prog_def b(1) cli shut_down_def Let_def split: prod.split)
qed

section \<open>Properties\<close>

text \<open>What a run leaves behind: the file, the kernel, the world.\<close>

definition after_run :: "('s, 'w) sys \<Rightarrow> string list \<Rightarrow> string option \<times> 's \<times> 'w \<Rightarrow> string option \<times> 's \<times> 'w" where
  "after_run y args x =
     (case x of (f, s, w) \<Rightarrow>
        (case main_prog y args f s w of None \<Rightarrow> x | Some (_, c) \<Rightarrow> (c_file c, c_kernel c, c_w c)))"

lemma after_sets:
  "sys_ok y \<Longrightarrow> file_ok (fst x) \<Longrightarrow> \<forall>kv \<in> set kvs. param_adm (fst kv) (snd kv) \<Longrightarrow>
   fst (foldl (\<lambda>x kv. after_run y [''param'', ''set'', fst kv, snd kv] x) x kvs) = cli.puts (fst x) kvs"
proof (induction kvs arbitrary: x)
  case (Cons kv kvs)
  obtain f s w where x: "x = (f, s, w)" by (cases x)
  obtain k v where kv: "kv = (k, v)" by force
  obtain c where "main_prog y [''param'', ''set'', k, v] f s w = Some (HWRUN_OK, c)" "c_file c = file_put f k v"
    using run_set [of y f k v s w] Cons.prems x by auto
  then have step: "after_run y [''param'', ''set'', k, v] (f, s, w) = (file_put f k v, c_kernel c, c_w c)"
    by (simp add: after_run_def)
  have "file_ok (file_put f k v)" using cli.put_wf [of f k v] Cons.prems x kv by simp
  then show ?case using Cons.IH [of "(file_put f k v, c_kernel c, c_w c)"] Cons.prems x kv by (simp add: step)
qed simp

lemma adms_all: "\<forall>kv \<in> set kvs. param_adm (fst kv) (snd kv) \<Longrightarrow> cli.adms f kvs"
  by (induction kvs arbitrary: f) auto

text \<open>
  C9. The program keeps parameters from run to run.  After any number of runs of \<^verbatim>\<open>hwrun param set\<close>, starting without
  a file, a run of \<^verbatim>\<open>hwrun param get\<close> succeeds and prints the value that was set last under the path of its key, and
  \<^verbatim>\<open>(nil)\<close> if there is none or it was empty; for keys and values the file can carry, whatever the plugins and the
  kernel do in between.
\<close>

theorem params_last_set:
  assumes "sys_ok y" "\<forall>kv \<in> set kvs. param_adm (fst kv) (snd kv)"
    and "foldl (\<lambda>x kv. after_run y [''param'', ''set'', fst kv, snd kv] x) (None, s0, w0) kvs = (f, s, w)"
  shows "\<exists>c. main_prog y [''param'', ''get'', key] f s w = Some (HWRUN_OK, c)
    \<and> c_out c = (case find (\<lambda>kv. param_segs (fst kv) = param_segs key) (rev kvs) of
                   None \<Rightarrow> ''(nil)'' | Some kv \<Rightarrow> if snd kv = [] then ''(nil)'' else snd kv) @ [NL]"
proof -
  have ok: "file_ok None" by (simp add: file_ok_def)
  have f: "f = cli.puts None kvs" using after_sets [OF assms(1) _ assms(2), of "(None, s0, w0)"] ok assms(3) by simp
  have "pval (file_tree f) = cli.overlay (pval (file_tree None)) kvs"
    unfolding f by (rule cli.look_puts [OF ok adms_all [OF assms(2)]])
  then have "pval (file_tree f) (param_segs key) =
      (case find (\<lambda>kv. param_segs (fst kv) = param_segs key) (rev kvs) of None \<Rightarrow> [] | Some kv \<Rightarrow> snd kv)"
    using empty_tree_facts(3) by (simp add: cli.overlay_value file_tree_def split: option.split)
  then show ?thesis using run_get [OF assms(1), of key f s w] by (auto split: option.splits)
qed

definition plain_sys :: "(nat, nat) sys" where
  "plain_sys =
     \<lparr>y_env = cfg_env, y_fs = no_fs, y_addr = (\<lambda>_. None), y_state = None, y_plugins = None, y_dev = (\<lambda>_ _ _. None), y_open = - 1,
      y_strerror = (\<lambda>_. []), y_can_write = True, y_root_ok = True, y_alloc = (\<lambda>_. [])\<rparr>"

lemma params_last_set_witness:
  "\<exists>f s w c. foldl (\<lambda>x kv. after_run plain_sys [''param'', ''set'', fst kv, snd kv] x) (None, 0, 0)
       [(''net.mtu'', ''1500''), (''net.host'', ''a b''), (''net.mtu'', ''9000'')] = (f, s, w)
     \<and> main_prog plain_sys [''param'', ''get'', ''net.mtu''] f s w = Some (HWRUN_OK, c) \<and> c_out c = ''9000'' @ [NL]"
proof -
  let ?kvs = "[(''net.mtu'', ''1500''), (''net.host'', ''a b''), (''net.mtu'', ''9000'')]"
  have ok: "sys_ok plain_sys" by code_simp
  have adm: "\<forall>kv \<in> set ?kvs. param_adm (fst kv) (snd kv)" by code_simp
  obtain f s w where x: "foldl (\<lambda>x kv. after_run plain_sys [''param'', ''set'', fst kv, snd kv] x) (None, 0, 0) ?kvs = (f, s, w)"
    by (rule prod_cases3)
  have "find (\<lambda>kv. param_segs (fst kv) = param_segs ''net.mtu'') (rev ?kvs) = Some (''net.mtu'', ''9000'')" by simp
  then show ?thesis using params_last_set [OF ok adm x, of "''net.mtu''"] x by auto
qed

end
