(* ===== verification/BusLog.thy ===== *)
theory BusLog
  imports Prelude
begin

text \<open>
  The log, \<^verbatim>\<open>bus/src/log.c\<close>: where it writes, from which level on, and the form of a line.  The message is the
  result of \<^verbatim>\<open>vsnprintf\<close> before it is cut, the time stamp what \<^verbatim>\<open>strftime\<close> gives; the stream is the text written so far.
\<close>

record log_ctx =
  lg_level :: int
  lg_open :: bool
  lg_to_file :: bool
  lg_path :: string
  lg_timestamp :: bool
  lg_color :: bool

definition no_log :: log_ctx where
  "no_log = \<lparr>lg_level = 0, lg_open = False, lg_to_file = False, lg_path = [], lg_timestamp = False, lg_color = False\<rparr>"

text \<open>When the file cannot be opened the context is left writing to the terminal.\<close>

definition hw_log_init :: "bool \<Rightarrow> string option \<Rightarrow> int \<Rightarrow> rc \<times> log_ctx" where
  "hw_log_init can_open path level =
     (let ctx = no_log\<lparr>lg_level := level, lg_open := True, lg_timestamp := True, lg_color := True\<rparr> in
      case path of
        None \<Rightarrow> (HWRUN_OK, ctx)
      | Some p \<Rightarrow>
          if p = [] then (HWRUN_OK, ctx)
          else if \<not> can_open then (ENOENT, ctx)
          else (HWRUN_OK, ctx\<lparr>lg_path := cstr 256 p, lg_to_file := True, lg_color := False\<rparr>))"

definition hw_log_shutdown :: "log_ctx \<Rightarrow> log_ctx" where
  "hw_log_shutdown ctx = ctx\<lparr>lg_open := False\<rparr>"

abbreviation ESC :: char where "ESC \<equiv> CHR 0x1B"

definition level_names :: "string list" where
  "level_names = [''DEBUG'', ''INFO'', ''WARN'', ''ERROR'', ''FATAL'']"

definition level_colors :: "string list" where
  "level_colors = map (\<lambda>n. ESC # ''['' @ n @ ''m'') [''90'', ''32'', ''33'', ''31'', ''35'']"

definition level_text :: "nat \<Rightarrow> string" where
  "level_text l = (let n = level_names ! l in n @ replicate (5 - length n) (CHR '' ''))"

definition log_line :: "log_ctx \<Rightarrow> nat \<Rightarrow> string option \<Rightarrow> string \<Rightarrow> string \<Rightarrow> string" where
  "log_line ctx l plugin_id ts msg =
     (let rest = (case plugin_id of None \<Rightarrow> [] | Some i \<Rightarrow> i) @ '' '' @ msg @ [NL] in
      if lg_color ctx then level_colors ! l @ ''['' @ ts @ '']['' @ level_text l @ '']'' @ (ESC # ''[0m'') @ '' '' @ rest
      else if ts \<noteq> [] then ''['' @ ts @ '']['' @ level_text l @ ''] '' @ rest
      else ''['' @ level_text l @ ''] '' @ rest)"

definition hw_log_vwrite :: "log_ctx option \<Rightarrow> int \<Rightarrow> string option \<Rightarrow> string \<Rightarrow> string \<Rightarrow> string \<Rightarrow> string" where
  "hw_log_vwrite ctx level plugin_id now msg stream =
     (case ctx of
        None \<Rightarrow> stream
      | Some c \<Rightarrow>
          if \<not> lg_open c \<or> level < lg_level c then stream
          else
            let l = nat (min 4 (max 0 level));
                ts = (if lg_timestamp c then cstr 32 now else []) in
            stream @ log_line c l plugin_id ts (cstr 2048 msg))"

definition hw_log_write :: "log_ctx option \<Rightarrow> int \<Rightarrow> string option \<Rightarrow> string \<Rightarrow> string \<Rightarrow> string \<Rightarrow> string" where
  "hw_log_write ctx level plugin_id now msg stream = hw_log_vwrite ctx level plugin_id now msg stream"

section \<open>Lines\<close>

text \<open>A write is one line, as long as neither the name, the time nor the message has a line feed.\<close>

lemma level_text_plain: "l < 5 \<Longrightarrow> NL \<notin> set (level_text l) \<and> length (level_text l) = 5"
  by (auto simp: level_text_def level_names_def less_Suc_eq numeral_eq_Suc)

lemma log_line_one_line:
  assumes "l < 5" "NL \<notin> set (case i of None \<Rightarrow> [] | Some s \<Rightarrow> s)" "NL \<notin> set ts" "NL \<notin> set msg"
  shows "filter ((=) NL) (log_line ctx l i ts msg) = [NL]"
proof -
  have none: "filter ((=) NL) s = []" if "NL \<notin> set s" for s :: string
    using that by (auto simp: filter_empty_conv)
  have "NL \<notin> set (level_colors ! l)"
    using assms(1) by (auto simp: level_colors_def less_Suc_eq numeral_eq_Suc)
  then show ?thesis using level_text_plain [OF assms(1)] assms(2-)
    by (simp add: log_line_def Let_def none)
qed

text \<open>
  With one, the rest of the message can be a line of any level from any plugin: nothing in the log tells it from a
  line that was written.
\<close>

lemma log_line_ends: "log_line ctx l i ts msg = butlast (log_line ctx l i ts msg) @ [NL]"
  by (simp add: log_line_def Let_def butlast_append)

lemma hw_log_forged_line:
  assumes "lg_open c" "lg_level c \<le> a" "lg_level c \<le> b" "0 \<le> b" "b \<le> 4"
    and "forged = butlast (log_line c (nat b) j (if lg_timestamp c then cstr 32 now else []) (cstr 2048 n))"
    and "length (m @ NL # forged) < 2048"
  shows "hw_log_write (Some c) a i now (m @ NL # forged) s = hw_log_write (Some c) b j now n (hw_log_write (Some c) a i now m s)"
proof -
  let ?ts = "if lg_timestamp c then cstr 32 now else []"
  have f: "log_line c (nat b) j ?ts (cstr 2048 n) = forged @ [NL]" using log_line_ends assms(6) by simp
  have "log_line c l i ?ts (m @ NL # forged) = log_line c l i ?ts m @ forged @ [NL]" for l
    by (simp add: log_line_def Let_def)
  then show ?thesis
    using assms(1-5,7) f by (simp add: hw_log_write_def hw_log_vwrite_def Let_def cstr_def max_def min_def)
qed

end
