(* ===== verification/HwLock.thy ===== *)
theory HwLock
  imports Prelude
begin

text \<open>
  The lock layer, \<^verbatim>\<open>bus/src/hwlock.c\<close> and the guard macros of \<^verbatim>\<open>bus/src/hwlock.h\<close>.

  Until \<open>hw_locker_enable_parallel\<close> is called every operation is a no-op; afterwards an operation
  goes to the pthread lock, modelled by its holders: the threads that read and the thread that owns
  it.  A call that would block is \<^const>\<open>None\<close>, and so is releasing a lock the thread does not hold,
  which POSIX leaves undefined.  A call may also fail: the pthread function then returns an error code
  and leaves the lock as it is, and the wrapper returns the negated \<^verbatim>\<open>errno\<close> of the thread, which
  nothing sets.  A guard runs its body unless that value is negative.

  \<open>lstep\<close> is the interleaving of threads entering and leaving guarded blocks on one lock, with every
  failure of a lock call; the switch is thrown when no guarded block is open, as the single thread of
  \<^verbatim>\<open>main.c\<close> does.
\<close>

section \<open>The locker\<close>

datatype lock_kind = HWLOCK_RW | HWLOCK_MTX

record locker =
  lk_kind :: lock_kind
  lk_readers :: "nat list"
  lk_owner :: "nat option"

definition hw_locker_init :: "bool \<Rightarrow> lock_kind \<Rightarrow> rc \<times> locker" where
  "hw_locker_init ok kind =
     (if ok then HWRUN_OK else ENOMEM, \<lparr>lk_kind = kind, lk_readers = [], lk_owner = None\<rparr>)"

definition locker_active :: "bool \<Rightarrow> locker option \<Rightarrow> bool" where
  "locker_active armed lk \<longleftrightarrow> armed \<and> lk \<noteq> None"

text \<open>
  The pthread functions: \<open>code\<close> is the error with which the call fails, 0 for a call that goes through,
  and the result is the value returned and the lock after it.
\<close>

definition pthread_acquire :: "int \<Rightarrow> bool \<Rightarrow> locker \<Rightarrow> locker \<Rightarrow> (int \<times> locker) option" where
  "pthread_acquire code free taken lk =
     (if code \<noteq> 0 then Some (code, lk) else if free then Some (0, taken) else None)"

definition pthread_mutex_lock :: "int \<Rightarrow> nat \<Rightarrow> locker \<Rightarrow> (int \<times> locker) option" where
  "pthread_mutex_lock code t lk = pthread_acquire code (lk_owner lk = None) (lk\<lparr>lk_owner := Some t\<rparr>) lk"

definition pthread_rwlock_rdlock :: "int \<Rightarrow> nat \<Rightarrow> locker \<Rightarrow> (int \<times> locker) option" where
  "pthread_rwlock_rdlock code t lk =
     pthread_acquire code (lk_owner lk = None) (lk\<lparr>lk_readers := t # lk_readers lk\<rparr>) lk"

definition pthread_rwlock_wrlock :: "int \<Rightarrow> nat \<Rightarrow> locker \<Rightarrow> (int \<times> locker) option" where
  "pthread_rwlock_wrlock code t lk =
     pthread_acquire code (lk_owner lk = None \<and> lk_readers lk = []) (lk\<lparr>lk_owner := Some t\<rparr>) lk"

text \<open>
  The value the wrappers return: \<open>ret\<close> is the pthread function's result, \<open>errno\<close> the thread's
  \<^verbatim>\<open>errno\<close>, which those functions do not set.
\<close>

definition lock_result :: "int \<Rightarrow> int \<Rightarrow> rc" where
  "lock_result ret errno = (if ret = 0 then 0 else - errno)"

definition hw_locker_rdlock :: "bool \<Rightarrow> int \<Rightarrow> int \<Rightarrow> nat \<Rightarrow> locker \<Rightarrow> (rc \<times> locker) option" where
  "hw_locker_rdlock armed code errno t lk =
     (if \<not> locker_active armed (Some lk) then Some (0, lk)
      else map_option (\<lambda>(ret, l). (lock_result ret errno, l))
        (if lk_kind lk = HWLOCK_RW then pthread_rwlock_rdlock code t lk else pthread_mutex_lock code t lk))"

definition hw_locker_wrlock :: "bool \<Rightarrow> int \<Rightarrow> int \<Rightarrow> nat \<Rightarrow> locker \<Rightarrow> (rc \<times> locker) option" where
  "hw_locker_wrlock armed code errno t lk =
     (if \<not> locker_active armed (Some lk) then Some (0, lk)
      else map_option (\<lambda>(ret, l). (lock_result ret errno, l))
        (if lk_kind lk = HWLOCK_RW then pthread_rwlock_wrlock code t lk else pthread_mutex_lock code t lk))"

text \<open>The guards throw the value of the unlock away.\<close>

definition hw_locker_unlock :: "bool \<Rightarrow> nat \<Rightarrow> locker \<Rightarrow> locker option" where
  "hw_locker_unlock armed t lk =
     (if \<not> locker_active armed (Some lk) then Some lk
      else if lk_owner lk = Some t then Some (lk\<lparr>lk_owner := None\<rparr>)
      else if lk_kind lk = HWLOCK_RW \<and> t \<in> set (lk_readers lk)
      then Some (lk\<lparr>lk_readers := remove1 t (lk_readers lk)\<rparr>)
      else None)"

definition guard_enters :: "rc \<Rightarrow> bool" where
  "guard_enters hwlk \<longleftrightarrow> 0 \<le> hwlk"

section \<open>Threads in guarded blocks\<close>

datatype guard = Rd | Wr

record lsys =
  g_locker_armed :: bool
  lk :: locker
  inside :: "(nat \<times> guard) list"

definition lsys_init :: "lock_kind \<Rightarrow> lsys" where
  "lsys_init kind =
     \<lparr>g_locker_armed = False, lk = snd (hw_locker_init True kind), inside = []\<rparr>"

definition guard_enter :: "int \<Rightarrow> int \<Rightarrow> nat \<Rightarrow> guard \<Rightarrow> lsys \<Rightarrow> lsys option" where
  "guard_enter code errno t g s =
     map_option (\<lambda>(hwlk, l). s\<lparr>lk := l, inside := (if guard_enters hwlk then (t, g) # inside s else inside s)\<rparr>)
       (case g of Rd \<Rightarrow> hw_locker_rdlock (g_locker_armed s) code errno t (lk s)
                | Wr \<Rightarrow> hw_locker_wrlock (g_locker_armed s) code errno t (lk s))"

definition guard_leave :: "nat \<Rightarrow> guard \<Rightarrow> lsys \<Rightarrow> lsys option" where
  "guard_leave t g s =
     map_option (\<lambda>l. s\<lparr>lk := l, inside := remove1 (t, g) (inside s)\<rparr>)
       (hw_locker_unlock (g_locker_armed s) t (lk s))"

text \<open>
  The first argument of the relation says whether a lock call that fails may find \<^verbatim>\<open>errno\<close> at 0.
\<close>

inductive lstep :: "bool \<Rightarrow> lsys \<Rightarrow> lsys \<Rightarrow> bool" for zero where
  arm: "inside s = [] \<Longrightarrow> lstep zero s (s\<lparr>g_locker_armed := True\<rparr>)"
| enter: "zero \<or> code = 0 \<or> 0 < errno \<Longrightarrow> guard_enter code errno t g s = Some s' \<Longrightarrow> lstep zero s s'"
| leave: "(t, g) \<in> set (inside s) \<Longrightarrow> guard_leave t g s = Some s' \<Longrightarrow> lstep zero s s'"

inductive lreach :: "bool \<Rightarrow> lock_kind \<Rightarrow> lsys \<Rightarrow> bool" for zero k where
  start: "lreach zero k (lsys_init k)"
| step: "lreach zero k s \<Longrightarrow> lstep zero s s' \<Longrightarrow> lreach zero k s'"

inductive_cases lstepE: "lstep zero s s'"

lemmas acquire_defs = guard_enter_def hw_locker_rdlock_def hw_locker_wrlock_def pthread_mutex_lock_def
  pthread_rwlock_rdlock_def pthread_rwlock_wrlock_def pthread_acquire_def lock_result_def guard_enters_def
  locker_active_def

text \<open>
  The invariant: before the switch the lock is free; after it, the holders of the lock are the threads
  in guarded blocks.
\<close>

definition readers_of :: "(nat \<times> guard) list \<Rightarrow> nat list" where
  "readers_of xs = map fst (filter (\<lambda>x. snd x = Rd) xs)"

definition lsys_inv :: "lsys \<Rightarrow> bool" where
  "lsys_inv s \<longleftrightarrow>
     (if \<not> g_locker_armed s then lk_readers (lk s) = [] \<and> lk_owner (lk s) = None
      else case lk_kind (lk s) of
        HWLOCK_RW \<Rightarrow>
          (case lk_owner (lk s) of
             Some t \<Rightarrow> inside s = [(t, Wr)] \<and> lk_readers (lk s) = []
           | None \<Rightarrow> lk_readers (lk s) = map fst (inside s) \<and> (\<forall>x \<in> set (inside s). snd x = Rd))
      | HWLOCK_MTX \<Rightarrow>
          lk_readers (lk s) = [] \<and>
          (case lk_owner (lk s) of
             Some t \<Rightarrow> \<exists>g. inside s = [(t, g)]
           | None \<Rightarrow> inside s = []))"

lemma remove1_map_fst:
  "(t, g) \<in> set xs \<Longrightarrow> \<forall>x \<in> set xs. snd x = g \<Longrightarrow> remove1 t (map fst xs) = map fst (remove1 (t, g) xs)"
  by (induction xs) auto

lemma lsys_inv_enter:
  "lsys_inv s \<Longrightarrow> code = 0 \<or> 0 < errno \<Longrightarrow> guard_enter code errno t g s = Some s' \<Longrightarrow> lsys_inv s'"
  by (cases g; cases "lk_kind (lk s)")
     (auto simp: lsys_inv_def acquire_defs split: if_splits option.splits)

lemma lsys_inv_leave:
  "lsys_inv s \<Longrightarrow> (t, g) \<in> set (inside s) \<Longrightarrow> guard_leave t g s = Some s' \<Longrightarrow> lsys_inv s'"
  by (cases "lk_kind (lk s)"; cases g)
     (auto simp: lsys_inv_def guard_leave_def hw_locker_unlock_def locker_active_def remove1_map_fst
       split: if_splits option.splits dest!: set_remove1_subset [THEN subsetD])

lemma lsys_inv_arm: "lsys_inv s \<Longrightarrow> inside s = [] \<Longrightarrow> lsys_inv (s\<lparr>g_locker_armed := True\<rparr>)"
  by (cases "g_locker_armed s")
     (auto simp: lsys_inv_def split: lock_kind.splits option.splits)

lemma lreach_inv: "lreach False k s \<Longrightarrow> lsys_inv s"
proof (induction rule: lreach.induct)
  case start
  show ?case by (simp add: lsys_init_def hw_locker_init_def lsys_inv_def)
next
  case (step s s')
  from step(2) show ?case
    by (cases rule: lstep.cases)
       (auto simp: lsys_inv_arm step(3) intro: lsys_inv_enter [OF step(3)] lsys_inv_leave [OF step(3)])
qed

lemma lsys_inv_can_leave: "lsys_inv s \<Longrightarrow> (t, g) \<in> set (inside s) \<Longrightarrow> guard_leave t g s \<noteq> None"
  by (force simp: lsys_inv_def guard_leave_def hw_locker_unlock_def locker_active_def
      split: lock_kind.splits option.splits if_splits)

lemma lsys_inv_writer:
  "lsys_inv s \<Longrightarrow> g_locker_armed s \<Longrightarrow> (t, Wr) \<in> set (inside s) \<Longrightarrow> inside s = [(t, Wr)]"
  by (auto simp: lsys_inv_def split: lock_kind.splits option.splits)

text \<open>A lock call that fails with a positive \<^verbatim>\<open>errno\<close> changes nothing, and the body is left out.\<close>

lemma failed_enter_skips:
  "g_locker_armed s \<Longrightarrow> code \<noteq> 0 \<Longrightarrow> 0 < errno \<Longrightarrow> guard_enter code errno t g s = Some s"
  by (cases g) (simp_all add: acquire_defs)

text \<open>
  C28. In every interleaving of threads in which locking is switched on while no guarded block is open, and no
  lock call fails while \<^verbatim>\<open>errno\<close> is 0: once locking is switched on, a thread in a write-guarded block of a lock is the only thread in any guarded block of
  it; every thread in a guarded block, reading or writing, holds what it releases, so that leaving never
  fails; and a guard whose lock call fails leaves out its body and changes nothing.
\<close>

theorem write_guard_excludes:
  assumes "lreach False k s"
  shows "(g_locker_armed s \<and> (t, Wr) \<in> set (inside s) \<longrightarrow> inside s = [(t, Wr)]) \<and>
    ((t, g) \<in> set (inside s) \<longrightarrow> guard_leave t g s \<noteq> None) \<and>
    (g_locker_armed s \<and> code \<noteq> 0 \<and> 0 < errno \<longrightarrow> guard_enter code errno t g s = Some s)"
  using lsys_inv_writer [OF lreach_inv [OF assms]] lsys_inv_can_leave [OF lreach_inv [OF assms]]
    failed_enter_skips by blast

lemma lreach_armed: "lreach zero k ((lsys_init k)\<lparr>g_locker_armed := True\<rparr>)"
  by (rule lreach.step [OF lreach.start lstep.arm]) (simp add: lsys_init_def)

theorem write_guard_excludes_witness:
  "\<exists>s. guard_enter 0 0 7 Wr ((lsys_init HWLOCK_RW)\<lparr>g_locker_armed := True\<rparr>) = Some s \<and> inside s = [(7, Wr)] \<and>
     guard_leave 7 Wr s \<noteq> None"
proof -
  obtain s where s: "guard_enter 0 0 7 Wr ((lsys_init HWLOCK_RW)\<lparr>g_locker_armed := True\<rparr>) = Some s"
    "g_locker_armed s" "(7, Wr) \<in> set (inside s)"
    by (simp add: acquire_defs lsys_init_def hw_locker_init_def)
  have "lreach False HWLOCK_RW s" by (rule lreach.step [OF lreach_armed lstep.enter]) (use s in simp_all)
  from write_guard_excludes [OF this, of 7 Wr] s show ?thesis by blast
qed

text \<open>
  A lock call that fails while \<^verbatim>\<open>errno\<close> is 0 counts as taken, and the guard runs its body without the
  lock: two writers are then inside at once.
\<close>

theorem failed_lock_enters_guard:
  fixes code :: int
  assumes "code \<noteq> 0"
  shows "\<exists>s. lreach True HWLOCK_RW s \<and> g_locker_armed s \<and> inside s = [(t, Wr), (u, Wr)]"
proof -
  let ?a = "(lsys_init HWLOCK_RW)\<lparr>g_locker_armed := True\<rparr>"
  obtain s where s: "guard_enter 0 0 u Wr ?a = Some s" "g_locker_armed s" "inside s = [(u, Wr)]"
    by (simp add: acquire_defs lsys_init_def hw_locker_init_def)
  obtain s' where s': "guard_enter code 0 t Wr s = Some s'" "g_locker_armed s'" "inside s' = [(t, Wr), (u, Wr)]"
    using s(2,3) assms by (simp add: acquire_defs)
  have "lreach True HWLOCK_RW s" by (rule lreach.step [OF lreach_armed lstep.enter [OF _ s(1)]]) simp
  then have "lreach True HWLOCK_RW s'" by (rule lreach.step) (rule lstep.enter [OF _ s'(1)], simp)
  with s'(2,3) show ?thesis by blast
qed

end
