(* ===== verification/Compress.thy ===== *)
theory Compress
  imports Prelude
begin

text \<open>
  The COMPRESS plugin, \<^verbatim>\<open>compress/src/compress_impl.c\<close>: recognition of formats, compression and
  decompression of buffers and of files.

  zlib and libzstd are not part of the program: each is a record of functions the definitions take, one
  function per library call.  A streaming call maps its state, the input offered and the room for output
  to the next state, the number of bytes taken, the bytes produced and the return code.  Bytes are
  characters.  A loop that may not end is a partial function, \<open>None\<close> when it does not return.
  \<^verbatim>\<open>realloc\<close> to size 0 and writing behind a buffer are faults.
\<close>

section \<open>Algorithms and levels\<close>

abbreviation HW_COMPRESS_ALGO_AUTO :: int where "HW_COMPRESS_ALGO_AUTO \<equiv> 0"
abbreviation HW_COMPRESS_ALGO_ZLIB :: int where "HW_COMPRESS_ALGO_ZLIB \<equiv> 1"
abbreviation HW_COMPRESS_ALGO_GZIP :: int where "HW_COMPRESS_ALGO_GZIP \<equiv> 2"
abbreviation HW_COMPRESS_ALGO_ZSTD :: int where "HW_COMPRESS_ALGO_ZSTD \<equiv> 3"
abbreviation HW_COMPRESS_ALGO_XZ :: int where "HW_COMPRESS_ALGO_XZ \<equiv> 4"
abbreviation HW_COMPRESS_ALGO_LZ4 :: int where "HW_COMPRESS_ALGO_LZ4 \<equiv> 5"
abbreviation HW_COMPRESS_ALGO_LZ4_RAW :: int where "HW_COMPRESS_ALGO_LZ4_RAW \<equiv> 6"

abbreviation HW_COMPRESS_LEVEL_FASTEST :: int where "HW_COMPRESS_LEVEL_FASTEST \<equiv> 0"
abbreviation HW_COMPRESS_LEVEL_FAST :: int where "HW_COMPRESS_LEVEL_FAST \<equiv> 1"
abbreviation HW_COMPRESS_LEVEL_DEFAULT :: int where "HW_COMPRESS_LEVEL_DEFAULT \<equiv> 2"
abbreviation HW_COMPRESS_LEVEL_MORE :: int where "HW_COMPRESS_LEVEL_MORE \<equiv> 3"
abbreviation HW_COMPRESS_LEVEL_BEST :: int where "HW_COMPRESS_LEVEL_BEST \<equiv> 4"

definition zlib_level :: "int \<Rightarrow> int" where
  "zlib_level lvl =
     (if lvl = HW_COMPRESS_LEVEL_FASTEST then 1
      else if lvl = HW_COMPRESS_LEVEL_FAST then 3
      else if lvl = HW_COMPRESS_LEVEL_MORE then 8
      else if lvl = HW_COMPRESS_LEVEL_BEST then 9
      else 6)"

definition zstd_level :: "int \<Rightarrow> int \<Rightarrow> int" where
  "zstd_level max_level lvl =
     (if lvl = HW_COMPRESS_LEVEL_FASTEST then 1
      else if lvl = HW_COMPRESS_LEVEL_FAST then 3
      else if lvl = HW_COMPRESS_LEVEL_MORE then 15
      else if lvl = HW_COMPRESS_LEVEL_BEST then max_level
      else 5)"

text \<open>The out parameter is the option: NULL, or the cell with its old value.\<close>

definition compress_detect :: "string option \<Rightarrow> int option \<Rightarrow> rc \<times> int option" where
  "compress_detect d algo =
     (case (d, algo) of
        (Some d, Some _) \<Rightarrow>
          if length d < 4 then (0, Some HW_COMPRESS_ALGO_AUTO)
          else if d ! 0 = CHR 0x28 \<and> d ! 1 = CHR 0xB5 \<and> d ! 2 = CHR 0x2F \<and> d ! 3 = CHR 0xFD
          then (0, Some HW_COMPRESS_ALGO_ZSTD)
          else if d ! 0 = CHR 0x1F \<and> d ! 1 = CHR 0x8B then (0, Some HW_COMPRESS_ALGO_GZIP)
          else if d ! 0 = CHR 0xFD \<and> d ! 1 = CHR 0x37 \<and> d ! 2 = CHR 0x7A then (0, Some HW_COMPRESS_ALGO_XZ)
          else if d ! 0 = CHR 0x04 \<and> d ! 1 = CHR 0x22 \<and> d ! 2 = CHR 0x4D \<and> d ! 3 = CHR 0x18
          then (0, Some HW_COMPRESS_ALGO_LZ4)
          else if d ! 0 = CHR 0x78 \<and> (d ! 1 = CHR 0x01 \<or> d ! 1 = CHR 0x9C \<or> d ! 1 = CHR 0xDA \<or> d ! 1 = CHR 0x5E)
          then (0, Some HW_COMPRESS_ALGO_ZLIB)
          else (0, Some HW_COMPRESS_ALGO_AUTO)
      | _ \<Rightarrow> (EINVAL, algo))"

record hw_compress_info =
  ci_algo :: int
  ci_name :: string
  ci_supported :: bool
  ci_can_detect :: bool
  ci_magic :: string

definition algorithm_table :: "hw_compress_info list" where
  "algorithm_table =
     [\<lparr>ci_algo = HW_COMPRESS_ALGO_ZLIB, ci_name = ''zlib'', ci_supported = True, ci_can_detect = True, ci_magic = ''78 01/9C/DA''\<rparr>,
      \<lparr>ci_algo = HW_COMPRESS_ALGO_GZIP, ci_name = ''gzip'', ci_supported = True, ci_can_detect = True, ci_magic = ''1F 8B''\<rparr>,
      \<lparr>ci_algo = HW_COMPRESS_ALGO_ZSTD, ci_name = ''zstd'', ci_supported = True, ci_can_detect = True, ci_magic = ''28 B5 2F FD''\<rparr>,
      \<lparr>ci_algo = HW_COMPRESS_ALGO_XZ, ci_name = ''xz'', ci_supported = False, ci_can_detect = True, ci_magic = ''FD 37 7A 58''\<rparr>,
      \<lparr>ci_algo = HW_COMPRESS_ALGO_LZ4, ci_name = ''lz4'', ci_supported = False, ci_can_detect = True, ci_magic = ''04 22 4D 18''\<rparr>,
      \<lparr>ci_algo = HW_COMPRESS_ALGO_LZ4_RAW, ci_name = ''lz4-raw'', ci_supported = False, ci_can_detect = False, ci_magic = ''-''\<rparr>]"

text \<open>The entries copied and the number of algorithms.\<close>

definition ops_list_algorithms :: "int \<Rightarrow> rc + hw_compress_info list \<times> nat" where
  "ops_list_algorithms cap =
     (if cap \<le> 0 then Inl EINVAL else Inr (take (nat cap) algorithm_table, length algorithm_table))"

section \<open>The libraries\<close>

abbreviation Z_OK :: int where "Z_OK \<equiv> 0"
abbreviation Z_STREAM_END :: int where "Z_STREAM_END \<equiv> 1"
abbreviation Z_BUF_ERROR :: int where "Z_BUF_ERROR \<equiv> - 5"
abbreviation Z_DATA_ERROR :: int where "Z_DATA_ERROR \<equiv> - 3"
abbreviation Z_NO_FLUSH :: int where "Z_NO_FLUSH \<equiv> 0"
abbreviation Z_FINISH :: int where "Z_FINISH \<equiv> 4"

record 'z zlib =
  deflateInit2 :: "int \<Rightarrow> int \<Rightarrow> 'z option"
  deflateBound :: "'z \<Rightarrow> nat \<Rightarrow> nat"
  deflate :: "'z \<Rightarrow> int \<Rightarrow> string \<Rightarrow> nat \<Rightarrow> 'z \<times> nat \<times> string \<times> int"
  inflateInit2 :: "int \<Rightarrow> 'z option"
  inflate :: "'z \<Rightarrow> string \<Rightarrow> nat \<Rightarrow> 'z \<times> nat \<times> string \<times> int"

datatype frame_size = CONTENTSIZE_UNKNOWN | CONTENTSIZE_ERROR | Size nat

text \<open>A \<^verbatim>\<open>size_t\<close> that \<^verbatim>\<open>ZSTD_isError\<close> accepts is \<open>None\<close>.\<close>

record 'c zstd =
  maxCLevel :: int
  compressBound :: "nat \<Rightarrow> nat"
  zstd_compress :: "nat \<Rightarrow> string \<Rightarrow> int \<Rightarrow> string option"
  getFrameContentSize :: "string \<Rightarrow> frame_size"
  createDCtx :: "'c option"
  decompressStream :: "'c \<Rightarrow> string \<Rightarrow> nat \<Rightarrow> 'c \<times> nat \<times> string \<times> nat option"
  createCCtx :: "'c option"
  setCompressionLevel :: "int \<Rightarrow> 'c \<Rightarrow> 'c"
  compressStream2 :: "'c \<Rightarrow> bool \<Rightarrow> string \<Rightarrow> nat \<Rightarrow> 'c \<times> nat \<times> string \<times> nat option"

section \<open>Buffers\<close>

record hw_compress_result =
  res_data :: "string option"
  data_len :: "32 word"
  orig_len :: "32 word"
  res_algo :: int

definition result0 :: hw_compress_result where
  "result0 = \<lparr>res_data = None, data_len = 0, orig_len = 0, res_algo = 0\<rparr>"

definition window_bits :: "bool \<Rightarrow> int" where
  "window_bits is_gzip = (if is_gzip then 15 + 16 else 15)"

definition buf_compress_zlib :: "'z zlib \<Rightarrow> allocs \<Rightarrow> bool \<Rightarrow> int \<Rightarrow> string \<Rightarrow> rc + string" where
  "buf_compress_zlib zl al is_gzip level inp =
     (case deflateInit2 zl (zlib_level level) (window_bits is_gzip) of
        None \<Rightarrow> Inl ENOMEM
      | Some s \<Rightarrow>
          let bound = deflateBound zl s (length inp) in
          if \<not> fst (alloc al) then Inl ENOMEM
          else case deflate zl s Z_FINISH inp (bound mod 2 ^ 32) of (_, _, out, rc) \<Rightarrow>
            if rc \<noteq> Z_STREAM_END then Inl EILSEQ else Inr out)"

definition buf_compress_zstd :: "'c zstd \<Rightarrow> allocs \<Rightarrow> int \<Rightarrow> string \<Rightarrow> rc + string" where
  "buf_compress_zstd zs al level inp =
     (if \<not> fst (alloc al) then Inl ENOMEM
      else case zstd_compress zs (compressBound zs (length inp)) inp (zstd_level (maxCLevel zs) level) of
             None \<Rightarrow> Inl EILSEQ
           | Some out \<Rightarrow> Inr out)"

definition filled :: "int \<Rightarrow> string \<Rightarrow> string \<Rightarrow> hw_compress_result" where
  "filled algo inp out =
     \<lparr>res_data = Some out, data_len = of_nat (length out), orig_len = of_nat (length inp), res_algo = algo\<rparr>"

definition compress_buffer ::
  "'z zlib \<Rightarrow> 'c zstd \<Rightarrow> allocs \<Rightarrow> int \<Rightarrow> int \<Rightarrow> string option \<Rightarrow> hw_compress_result option
     \<Rightarrow> rc \<times> hw_compress_result option" where
  "compress_buffer zl zs al algo level inp res =
     (case (inp, res) of
        (Some inp, Some _) \<Rightarrow>
          let finish = (\<lambda>a r. case r of Inl e \<Rightarrow> (e, Some result0) | Inr out \<Rightarrow> (0, Some (filled a inp out))) in
          if algo = HW_COMPRESS_ALGO_ZLIB then finish algo (buf_compress_zlib zl al False level inp)
          else if algo = HW_COMPRESS_ALGO_GZIP then finish algo (buf_compress_zlib zl al True level inp)
          else if algo = HW_COMPRESS_ALGO_ZSTD \<or> algo = HW_COMPRESS_ALGO_AUTO
          then finish HW_COMPRESS_ALGO_ZSTD (buf_compress_zstd zs al level inp)
          else if algo \<in> {HW_COMPRESS_ALGO_XZ, HW_COMPRESS_ALGO_LZ4, HW_COMPRESS_ALGO_LZ4_RAW}
          then (ENOTSUP, Some result0)
          else (EINVAL, Some result0)
      | _ \<Rightarrow> (EINVAL, res))"

text \<open>
  A full buffer is doubled.  The capacity is a 32-bit number: when it wraps to 0, \<^verbatim>\<open>realloc\<close> frees the
  buffer and the failure branch frees it again; when the new capacity is below what has been written,
  the next write position is behind the buffer.
\<close>

definition grow :: "allocs \<Rightarrow> nat \<Rightarrow> 32 word \<Rightarrow> (rc + allocs \<times> 32 word) outcome" where
  "grow al used cap =
     (let cap' = 2 * cap in
      if cap' = 0 then Fault
      else case alloc al of
             (False, _) \<Rightarrow> Ret (Inl ENOMEM)
           | (True, al') \<Rightarrow> if unat cap' < used then Fault else Ret (Inr (al', cap')))"

partial_function (option) inflate_loop ::
  "'z zlib \<Rightarrow> allocs \<Rightarrow> 'z \<Rightarrow> string \<Rightarrow> string \<Rightarrow> 32 word \<Rightarrow> nat \<Rightarrow> (rc + string) outcome option" where
  "inflate_loop zl al s inp out cap avail =
     (case (if avail = 0 then grow al (length out) cap else Ret (Inr (al, cap))) of
        Fault \<Rightarrow> Some Fault
      | Ret (Inl e) \<Rightarrow> Some (Ret (Inl e))
      | Ret (Inr (al', cap')) \<Rightarrow>
          (case inflate zl s inp (if avail = 0 then unat (cap' - of_nat (length out)) else avail) of (s', n, o', rc) \<Rightarrow>
             if rc = Z_STREAM_END then Some (Ret (Inr (out @ o')))
             else if rc \<noteq> Z_OK \<and> rc \<noteq> Z_BUF_ERROR then Some (Ret (Inl EILSEQ))
             else inflate_loop zl al' s' (drop n inp) (out @ o') cap'
                    ((if avail = 0 then unat (cap' - of_nat (length out)) else avail) - length o')))"

definition buf_decompress_zlib :: "'z zlib \<Rightarrow> allocs \<Rightarrow> string \<Rightarrow> (rc + string) outcome option" where
  "buf_decompress_zlib zl al inp =
     (case inflateInit2 zl (32 + 15) of
        None \<Rightarrow> Some (Ret (Inl ENOMEM))
      | Some s \<Rightarrow>
          let in_len = of_nat (length inp) :: 32 word;
              cap = (if 4096 < in_len then in_len * 2 + 1024 else 4096) in
          case alloc al of
            (False, _) \<Rightarrow> Some (Ret (Inl ENOMEM))
          | (True, al') \<Rightarrow> inflate_loop zl al' s inp [] cap (unat cap))"

partial_function (option) zstd_loop ::
  "'c zstd \<Rightarrow> allocs \<Rightarrow> 'c \<Rightarrow> string \<Rightarrow> string \<Rightarrow> 32 word \<Rightarrow> (rc + string) outcome option" where
  "zstd_loop zs al ctx inp out cap =
     (case decompressStream zs ctx inp (unat (cap - of_nat (length out))) of (ctx', n, o', rc) \<Rightarrow>
        (case rc of
           None \<Rightarrow> Some (Ret (Inl EILSEQ))
         | Some h \<Rightarrow>
             if h = 0 then Some (Ret (Inr (out @ o')))
             else (case (if (of_nat (length (out @ o')) :: 32 word) = cap then grow al (length (out @ o')) cap
                         else Ret (Inr (al, cap))) of
                     Fault \<Rightarrow> Some Fault
                   | Ret (Inl e) \<Rightarrow> Some (Ret (Inl e))
                   | Ret (Inr (al', cap')) \<Rightarrow> zstd_loop zs al' ctx' (drop n inp) (out @ o') cap')))"

definition zstd_capacity :: "'c zstd \<Rightarrow> string \<Rightarrow> 32 word" where
  "zstd_capacity zs inp =
     (let in_len = of_nat (length inp) :: 32 word in
      case getFrameContentSize zs inp of
        Size est \<Rightarrow> if est \<noteq> 0 then of_nat est else if 4096 < in_len then in_len * 4 else 4096
      | _ \<Rightarrow> if 4096 < in_len then in_len * 4 else 4096)"

definition buf_decompress_zstd :: "'c zstd \<Rightarrow> allocs \<Rightarrow> string \<Rightarrow> (rc + string) outcome option" where
  "buf_decompress_zstd zs al inp =
     (case alloc al of
        (False, _) \<Rightarrow> Some (Ret (Inl ENOMEM))
      | (True, al') \<Rightarrow>
          (case createDCtx zs of
             None \<Rightarrow> Some (Ret (Inl ENOMEM))
           | Some ctx \<Rightarrow> zstd_loop zs al' ctx inp [] (zstd_capacity zs inp)))"

definition compress_decompress ::
  "'z zlib \<Rightarrow> 'c zstd \<Rightarrow> allocs \<Rightarrow> int \<Rightarrow> string option \<Rightarrow> hw_compress_result option
     \<Rightarrow> (rc \<times> hw_compress_result option) outcome option" where
  "compress_decompress zl zs al force_algo inp res =
     (case (inp, res) of
        (Some d, Some _) \<Rightarrow>
          let algo = (if force_algo = HW_COMPRESS_ALGO_AUTO then the (snd (compress_detect (Some d) (Some force_algo)))
                      else force_algo);
              finish = map_option (map_outcome
                         (\<lambda>r. case r of Inl e \<Rightarrow> (e, Some result0) | Inr out \<Rightarrow> (0, Some (filled algo d out)))) in
          if algo = HW_COMPRESS_ALGO_ZLIB \<or> algo = HW_COMPRESS_ALGO_GZIP then finish (buf_decompress_zlib zl al d)
          else if algo = HW_COMPRESS_ALGO_ZSTD then finish (buf_decompress_zstd zs al d)
          else if algo \<in> {HW_COMPRESS_ALGO_XZ, HW_COMPRESS_ALGO_LZ4, HW_COMPRESS_ALGO_LZ4_RAW}
          then Some (Ret (ENOTSUP, Some result0))
          else Some (Ret (EILSEQ, Some result0))
      | _ \<Rightarrow> Some (Ret (EINVAL, res)))"

definition ops_free_result :: "hw_compress_result option \<Rightarrow> hw_compress_result option" where
  "ops_free_result res = map_option (\<lambda>_. result0) res"

section \<open>Files\<close>

abbreviation CHUNK :: nat where "CHUNK \<equiv> 65536"

text \<open>
  A streaming loop reads the rest of the input by chunks and appends to the output file, which takes
  \<open>room\<close> bytes.  The rest is what \<^verbatim>\<open>fread\<close> still delivers: the loops stop at a short read and never ask
  \<^verbatim>\<open>ferror\<close>, so a file that cannot be read on looks like one that ends there.  The inner loops offer one chunk until it is used up (\<open>Break\<close>) or the stream ends (\<open>Leave\<close>).
\<close>

datatype 'z inner = Leave "rc + string" | Break 'z string

partial_function (option) deflate_chunk ::
  "'z zlib \<Rightarrow> nat \<Rightarrow> bool \<Rightarrow> 'z \<Rightarrow> string \<Rightarrow> string \<Rightarrow> 'z inner option" where
  "deflate_chunk zl room fin s inp out =
     (case deflate zl s (if fin then Z_FINISH else Z_NO_FLUSH) inp CHUNK of (s', n, o', rc) \<Rightarrow>
        if o' \<noteq> [] \<and> room < length (out @ o') then Some (Leave (Inl EIO))
        else if rc = Z_STREAM_END then Some (Leave (Inr (out @ o')))
        else if rc \<noteq> Z_OK then Some (Leave (Inl EILSEQ))
        else if \<not> fin \<and> drop n inp = [] then Some (Break s' (out @ o'))
        else deflate_chunk zl room fin s' (drop n inp) (out @ o'))"

partial_function (option) deflate_file ::
  "'z zlib \<Rightarrow> nat \<Rightarrow> bool \<Rightarrow> 'z \<Rightarrow> string \<Rightarrow> string \<Rightarrow> (rc + string) option" where
  "deflate_file zl room fin s rest out =
     Option.bind
       (if fin then deflate_chunk zl room True s [] out
        else deflate_chunk zl room (length (take CHUNK rest) < CHUNK) s (take CHUNK rest) out)
       (\<lambda>r. case r of
          Leave x \<Rightarrow> Some x
        | Break s' out' \<Rightarrow>
            deflate_file zl room (fin \<or> length (take CHUNK rest) < CHUNK) s' (drop CHUNK rest) out')"

definition file_compress_zlib :: "'z zlib \<Rightarrow> nat \<Rightarrow> string \<Rightarrow> bool \<Rightarrow> int \<Rightarrow> (rc + string) option" where
  "file_compress_zlib zl room content is_gzip level =
     (case deflateInit2 zl (zlib_level level) (window_bits is_gzip) of
        None \<Rightarrow> Some (Inl ENOMEM)
      | Some s \<Rightarrow> deflate_file zl room False s content [])"

partial_function (option) zstd_chunk ::
  "'c zstd \<Rightarrow> nat \<Rightarrow> bool \<Rightarrow> 'c \<Rightarrow> string \<Rightarrow> string \<Rightarrow> 'c inner option" where
  "zstd_chunk zs room fin ctx inp out =
     (case compressStream2 zs ctx fin inp CHUNK of (ctx', n, o', rc) \<Rightarrow>
        (case rc of
           None \<Rightarrow> Some (Leave (Inl EILSEQ))
         | Some h \<Rightarrow>
             if o' \<noteq> [] \<and> room < length (out @ o') then Some (Leave (Inl EIO))
             else if fin \<and> h = 0 then Some (Leave (Inr (out @ o')))
             else if \<not> fin \<and> drop n inp = [] then Some (Break ctx' (out @ o'))
             else zstd_chunk zs room fin ctx' (drop n inp) (out @ o')))"

partial_function (option) zstd_file ::
  "'c zstd \<Rightarrow> nat \<Rightarrow> 'c \<Rightarrow> string \<Rightarrow> string \<Rightarrow> (rc + string) option" where
  "zstd_file zs room ctx rest out =
     Option.bind (zstd_chunk zs room (length (take CHUNK rest) < CHUNK) ctx (take CHUNK rest) out)
       (\<lambda>r. case r of
          Leave x \<Rightarrow> Some x
        | Break ctx' out' \<Rightarrow> zstd_file zs room ctx' (drop CHUNK rest) out')"

definition file_compress_zstd :: "'c zstd \<Rightarrow> nat \<Rightarrow> string \<Rightarrow> int \<Rightarrow> (rc + string) option" where
  "file_compress_zstd zs room content level =
     (case createCCtx zs of
        None \<Rightarrow> Some (Inl ENOMEM)
      | Some ctx \<Rightarrow> zstd_file zs room (setCompressionLevel zs (zstd_level (maxCLevel zs) level) ctx) content [])"

text \<open>\<open>ibuf\<close> is the part of the chunk not yet consumed.\<close>

partial_function (option) inflate_file ::
  "'z zlib \<Rightarrow> nat \<Rightarrow> 'z \<Rightarrow> string \<Rightarrow> bool \<Rightarrow> string \<Rightarrow> string \<Rightarrow> (rc + string) option" where
  "inflate_file zl room s ibuf eof rest out =
     (if ibuf = [] \<and> eof then Some (Inl EILSEQ)
      else let inp = (if ibuf = [] then take CHUNK rest else ibuf);
               rest' = (if ibuf = [] then drop CHUNK rest else rest);
               eof' = (eof \<or> ibuf = [] \<and> length (take CHUNK rest) < CHUNK) in
        (case inflate zl s inp CHUNK of (s', n, o', rc) \<Rightarrow>
           if o' \<noteq> [] \<and> room < length (out @ o') then Some (Inl EIO)
           else if rc = Z_STREAM_END then Some (Inr (out @ o'))
           else if rc \<noteq> Z_OK \<and> rc \<noteq> Z_BUF_ERROR then Some (Inl EILSEQ)
           else inflate_file zl room s' (drop n inp) eof' rest' (out @ o')))"

definition file_decompress_zlib :: "'z zlib \<Rightarrow> nat \<Rightarrow> string \<Rightarrow> (rc + string) option" where
  "file_decompress_zlib zl room content =
     (case inflateInit2 zl (32 + 15) of
        None \<Rightarrow> Some (Inl ENOMEM)
      | Some s \<Rightarrow> inflate_file zl room s [] False content [])"

partial_function (option) unzstd_file ::
  "'c zstd \<Rightarrow> nat \<Rightarrow> 'c \<Rightarrow> string \<Rightarrow> string \<Rightarrow> string \<Rightarrow> (rc + string) option" where
  "unzstd_file zs room ctx ibuf rest out =
     (if ibuf = [] \<and> rest = [] then Some (Inl EILSEQ)
      else let inp = (if ibuf = [] then take CHUNK rest else ibuf);
               rest' = (if ibuf = [] then drop CHUNK rest else rest) in
        (case decompressStream zs ctx inp CHUNK of (ctx', n, o', rc) \<Rightarrow>
           (case rc of
              None \<Rightarrow> Some (Inl EILSEQ)
            | Some h \<Rightarrow>
                if o' \<noteq> [] \<and> room < length (out @ o') then Some (Inl EIO)
                else if h = 0 then Some (Inr (out @ o'))
                else unzstd_file zs room ctx' (drop n inp) rest' (out @ o'))))"

definition file_decompress_zstd :: "'c zstd \<Rightarrow> nat \<Rightarrow> string \<Rightarrow> (rc + string) option" where
  "file_decompress_zstd zs room content =
     (case createDCtx zs of
        None \<Rightarrow> Some (Inl ENOMEM)
      | Some ctx \<Rightarrow> unzstd_file zs room ctx [] content [])"

record hw_compress_file_req =
  input_path :: string
  output_path :: string
  fr_algo :: int
  fr_level :: int
  keep_original :: bool

record hw_compress_file_resp =
  rs_orig_len :: nat
  rs_result_len :: nat
  rs_algo :: int

text \<open>
  The outcomes of the calls on files: an error of either \<^verbatim>\<open>fopen\<close>, the place from which the input cannot be
  read if there is one, the bytes the output file takes, and whether \<^verbatim>\<open>fclose\<close> succeeds.  Different paths are
  different files.
\<close>

record file_io =
  open_in :: rc
  open_out :: rc
  read_fail :: "nat option"
  out_room :: nat
  close_ok :: bool

type_synonym files = "string \<Rightarrow> string option"

text \<open>What the successive \<^verbatim>\<open>fread\<close> calls deliver of a file, up to the end or to the error.\<close>

definition readable :: "file_io \<Rightarrow> string \<Rightarrow> string" where
  "readable io content = (case read_fail io of None \<Rightarrow> content | Some k \<Rightarrow> take k content)"

definition impl_stream ::
  "'z zlib \<Rightarrow> 'c zstd \<Rightarrow> nat \<Rightarrow> bool \<Rightarrow> int \<Rightarrow> int \<Rightarrow> string \<Rightarrow> (int \<times> (rc + string)) option" where
  "impl_stream zl zs room compress_dir algo0 level content =
     (if compress_dir then
        let algo = (if algo0 = HW_COMPRESS_ALGO_AUTO then HW_COMPRESS_ALGO_ZSTD else algo0) in
        map_option (Pair algo)
          (if algo = HW_COMPRESS_ALGO_ZLIB \<or> algo = HW_COMPRESS_ALGO_GZIP
           then file_compress_zlib zl room content (algo = HW_COMPRESS_ALGO_GZIP) level
           else if algo = HW_COMPRESS_ALGO_ZSTD then file_compress_zstd zs room content level
           else Some (Inl ENOTSUP))
      else
        let algo = (if algo0 = HW_COMPRESS_ALGO_AUTO
                    then the (snd (compress_detect (Some (take 16 content)) (Some algo0))) else algo0) in
        map_option (Pair algo)
          (if algo = HW_COMPRESS_ALGO_ZLIB \<or> algo = HW_COMPRESS_ALGO_GZIP then file_decompress_zlib zl room content
           else if algo = HW_COMPRESS_ALGO_ZSTD then file_decompress_zstd zs room content
           else Some (Inl ENOTSUP)))"

definition impl_file ::
  "'z zlib \<Rightarrow> 'c zstd \<Rightarrow> file_io \<Rightarrow> bool \<Rightarrow> hw_compress_file_req \<Rightarrow> files
     \<Rightarrow> (rc \<times> hw_compress_file_resp option \<times> files) option" where
  "impl_file zl zs io compress_dir req fs =
     (if fs (input_path req) = None then Some (ENOENT, None, fs)
      else if open_in io \<noteq> 0 then Some (open_in io, None, fs)
      else if open_out io \<noteq> 0 then Some (open_out io, None, fs)
      else
        let fs1 = fs(output_path req \<mapsto> []);
            content = the (fs1 (input_path req)) in
        map_option (\<lambda>(algo, r).
          case r of
            Inl e \<Rightarrow> (e, None, fs1(output_path req := None))
          | Inr out \<Rightarrow>
              if \<not> close_ok io then (EIO, None, fs1(output_path req := None))
              else
                let fs2 = fs1(output_path req \<mapsto> out);
                    fs3 = (if keep_original req then fs2 else fs2(input_path req := None)) in
                (0, Some \<lparr>rs_orig_len = (if compress_dir then length content else length out),
                          rs_result_len = (if compress_dir then length out else length content),
                          rs_algo = algo\<rparr>, fs3))
          (impl_stream zl zs (out_room io) compress_dir (fr_algo req) (fr_level req) (readable io content)))"

definition ops_compress_file where
  "ops_compress_file zl zs io req fs = impl_file zl zs io True req fs"

definition ops_decompress_file where
  "ops_decompress_file zl zs io req fs = impl_file zl zs io False req fs"

end
