(* ===== verification/CompressSpec.thy ===== *)
theory CompressSpec
  imports Compress
begin

text \<open>
  What \<^verbatim>\<open>compress_impl.c\<close> relies on of zlib and libzstd, as their manuals state it, and what its loops do
  with any library that keeps to it: buffers and files come back as they were, streams that are cut
  off or damaged are refused by the file operations, and where the buffer operations do not return or
  leave their buffer.
\<close>

section \<open>The contract of a streaming library\<close>

datatype status = More | End | Err

text \<open>
  What a decoder state makes of all the input still to come: a stream that ends and gives these bytes,
  one that gives them and breaks off, one that is damaged after them.
\<close>

datatype stream = Whole string | Cut string | Bad string

type_synonym 'z call = "'z \<times> nat \<times> string \<times> status"

text \<open>
  A call takes input until its output is full or, when the rest \<open>r\<close> of the stream is not yet offered,
  until the input is used up.  A call that can make no progress on a stream cut off may report an error.
\<close>

definition decoder_ok :: "('z \<Rightarrow> string \<Rightarrow> nat \<Rightarrow> 'z call) \<Rightarrow> ('z \<Rightarrow> string \<Rightarrow> stream) \<Rightarrow> bool" where
  "decoder_ok step view \<longleftrightarrow>
     (\<forall>z c r a z' n o' st. step z c a = (z', n, o', st) \<longrightarrow>
        n \<le> length c \<and> length o' \<le> a \<and>
        (case view z (c @ r) of
           Whole d \<Rightarrow>
             st = End \<and> o' = d \<or>
             st = More \<and> (\<exists>d'. d = o' @ d' \<and> view z' (drop n c @ r) = Whole d') \<and>
               (length o' = a \<or> n = length c \<and> r \<noteq> [])
         | Cut d \<Rightarrow>
             st = More \<and> (\<exists>d'. d = o' @ d' \<and> view z' (drop n c @ r) = Cut d') \<and> (length o' = a \<or> n = length c) \<or>
             st = Err \<and> n = 0 \<and> o' = []
         | Bad d \<Rightarrow>
             (\<exists>d'. d = o' @ d' \<and> (st = Err \<or>
               st = More \<and> view z' (drop n c @ r) = Bad d' \<and> (length o' = a \<or> n = length c \<and> r \<noteq> [])))))"

definition ends_with_input :: "('z \<Rightarrow> string \<Rightarrow> stream) \<Rightarrow> bool" where
  "ends_with_input view \<longleftrightarrow> (\<forall>z d. view z [] \<noteq> Whole d)"

text \<open>
  \<open>track z w p e\<close>: the encoder state has taken \<open>p\<close> and given \<open>e\<close>; \<open>w\<close> is \<open>None\<close> until the end is announced,
  from then on the input still to be taken.  \<open>good e x\<close>: \<open>e\<close> is an encoding of \<open>x\<close>.
\<close>

definition offers :: "string option \<Rightarrow> bool \<Rightarrow> string \<Rightarrow> bool" where
  "offers w fin c \<longleftrightarrow> (case w of None \<Rightarrow> fin \<or> c \<noteq> [] | Some c' \<Rightarrow> fin \<and> c = c')"

definition encoder_ok ::
  "('z \<Rightarrow> bool \<Rightarrow> string \<Rightarrow> nat \<Rightarrow> 'z call) \<Rightarrow> ('z \<Rightarrow> string option \<Rightarrow> string \<Rightarrow> string \<Rightarrow> bool)
     \<Rightarrow> ('z \<Rightarrow> bool \<Rightarrow> string \<Rightarrow> nat) \<Rightarrow> (string \<Rightarrow> string \<Rightarrow> bool) \<Rightarrow> bool" where
  "encoder_ok step track left good \<longleftrightarrow>
     (\<forall>z w p e fin c a z' n o' st.
        track z w p e \<longrightarrow> 0 < a \<longrightarrow> offers w fin c \<longrightarrow> step z fin c a = (z', n, o', st) \<longrightarrow>
        n \<le> length c \<and> length o' \<le> a \<and> st \<noteq> Err \<and>
        (st = End \<longrightarrow> fin \<and> good (e @ o') (p @ c)) \<and>
        (st = More \<longrightarrow> track z' (if fin then Some (drop n c) else None) (p @ take n c) (e @ o') \<and>
           (\<not> fin \<and> n = length c \<or> left z' fin (drop n c) < left z fin c)))"

text \<open>The calls of both libraries in these terms.\<close>

definition zstatus :: "int \<Rightarrow> status" where
  "zstatus rc = (if rc = Z_STREAM_END then End else if rc = Z_OK \<or> rc = Z_BUF_ERROR then More else Err)"

definition zstep :: "'z zlib \<Rightarrow> 'z \<Rightarrow> string \<Rightarrow> nat \<Rightarrow> 'z call" where
  "zstep zl z c a = (case inflate zl z c a of (z', n, o', rc) \<Rightarrow> (z', n, o', zstatus rc))"

definition dstep :: "'z zlib \<Rightarrow> 'z \<Rightarrow> bool \<Rightarrow> string \<Rightarrow> nat \<Rightarrow> 'z call" where
  "dstep zl z fin c a =
     (case deflate zl z (if fin then Z_FINISH else Z_NO_FLUSH) c a of (z', n, o', rc) \<Rightarrow>
        (z', n, o', if rc = Z_STREAM_END then End else if rc = Z_OK then More else Err))"

definition sstep :: "'c zstd \<Rightarrow> 'c \<Rightarrow> string \<Rightarrow> nat \<Rightarrow> 'c call" where
  "sstep zs z c a =
     (case decompressStream zs z c a of (z', n, o', rc) \<Rightarrow>
        (z', n, o', case rc of None \<Rightarrow> Err | Some h \<Rightarrow> if h = 0 then End else More))"

definition cstep :: "'c zstd \<Rightarrow> 'c \<Rightarrow> bool \<Rightarrow> string \<Rightarrow> nat \<Rightarrow> 'c call" where
  "cstep zs z fin c a =
     (case compressStream2 zs z fin c a of (z', n, o', rc) \<Rightarrow>
        (z', n, o', case rc of None \<Rightarrow> Err | Some h \<Rightarrow> if fin \<and> h = 0 then End else More))"

text \<open>The headers of the formats.\<close>

definition zlib_header :: "bool \<Rightarrow> string \<Rightarrow> bool" where
  "zlib_header is_gzip e \<longleftrightarrow> 4 \<le> length e \<and>
     (if is_gzip then e ! 0 = CHR 0x1F \<and> e ! 1 = CHR 0x8B
      else e ! 0 = CHR 0x78 \<and> (e ! 1 = CHR 0x01 \<or> e ! 1 = CHR 0x5E \<or> e ! 1 = CHR 0x9C \<or> e ! 1 = CHR 0xDA))"

definition zstd_header :: "string \<Rightarrow> bool" where
  "zstd_header e \<longleftrightarrow> 4 \<le> length e \<and> e ! 0 = CHR 0x28 \<and> e ! 1 = CHR 0xB5 \<and> e ! 2 = CHR 0x2F \<and> e ! 3 = CHR 0xFD"

definition zlib_ok ::
  "'z zlib \<Rightarrow> 'z \<Rightarrow> ('z \<Rightarrow> string \<Rightarrow> stream) \<Rightarrow> (bool \<Rightarrow> 'z \<Rightarrow> string option \<Rightarrow> string \<Rightarrow> string \<Rightarrow> bool)
     \<Rightarrow> ('z \<Rightarrow> bool \<Rightarrow> string \<Rightarrow> nat) \<Rightarrow> bool" where
  "zlib_ok zl s0 view track left \<longleftrightarrow>
     decoder_ok (zstep zl) view \<and> ends_with_input view \<and> inflateInit2 zl 47 = Some s0 \<and>
     (\<forall>gz. encoder_ok (dstep zl) (track gz) left (\<lambda>e x. zlib_header gz e \<and> view s0 e = Whole x)) \<and>
     (\<forall>level gz. \<exists>z0. deflateInit2 zl level (window_bits gz) = Some z0 \<and> track gz z0 None [] [] \<and>
        (\<forall>x. 0 < deflateBound zl z0 (length x) \<and>
             snd (snd (snd (dstep zl z0 True x (deflateBound zl z0 (length x))))) = End))"

definition zstd_ok ::
  "'c zstd \<Rightarrow> 'c \<Rightarrow> ('c \<Rightarrow> string \<Rightarrow> stream) \<Rightarrow> ('c \<Rightarrow> string option \<Rightarrow> string \<Rightarrow> string \<Rightarrow> bool)
     \<Rightarrow> ('c \<Rightarrow> bool \<Rightarrow> string \<Rightarrow> nat) \<Rightarrow> bool" where
  "zstd_ok zs d0 view track left \<longleftrightarrow>
     decoder_ok (sstep zs) view \<and> ends_with_input view \<and> createDCtx zs = Some d0 \<and>
     encoder_ok (cstep zs) track left (\<lambda>e x. zstd_header e \<and> view d0 e = Whole x) \<and>
     (\<exists>c0. createCCtx zs = Some c0 \<and> (\<forall>l. track (setCompressionLevel zs l c0) None [] [])) \<and>
     (\<forall>x l. \<exists>e. zstd_compress zs (compressBound zs (length x)) x l = Some e \<and>
        length e \<le> compressBound zs (length x) \<and> zstd_header e \<and> view d0 e = Whole x \<and>
        getFrameContentSize zs e = Size (length x))"

section \<open>Calls of a decoder\<close>

lemma decoder_room:
  "decoder_ok step view \<Longrightarrow> step z c a = (z', n, o', st) \<Longrightarrow> n \<le> length c \<and> length o' \<le> a"
  unfolding decoder_ok_def by blast

lemma decoder_whole:
  assumes "decoder_ok step view" and "step z c a = (z', n, o', st)" and "view z (c @ r) = Whole d"
  obtains "st = End" and "o' = d"
  | d' where "st = More" and "d = o' @ d'" and "view z' (drop n c @ r) = Whole d'"
      and "length o' = a \<or> n = length c \<and> r \<noteq> []"
using assms(1)[unfolded decoder_ok_def, rule_format, OF assms(2), of r] assms(3) that by auto

lemma decoder_cut:
  assumes "decoder_ok step view" and "step z c a = (z', n, o', st)" and "view z (c @ r) = Cut d"
  obtains "st = Err" and "o' = []"
  | d' where "st = More" and "d = o' @ d'" and "view z' (drop n c @ r) = Cut d'"
      and "length o' = a \<or> n = length c"
using assms(1)[unfolded decoder_ok_def, rule_format, OF assms(2), of r] assms(3) that by auto

lemma decoder_bad:
  assumes "decoder_ok step view" and "step z c a = (z', n, o', st)" and "view z (c @ r) = Bad d"
  obtains d' where "st = Err" and "d = o' @ d'"
  | d' where "st = More" and "d = o' @ d'" and "view z' (drop n c @ r) = Bad d'"
      and "length o' = a \<or> n = length c \<and> r \<noteq> []"
using assms(1)[unfolded decoder_ok_def, rule_format, OF assms(2), of r] assms(3) that by auto

text \<open>All the input is offered.\<close>

lemma decoder_whole_all:
  assumes "decoder_ok step view" and "step z c a = (z', n, o', st)" and "view z c = Whole d"
  obtains "st = End" and "o' = d"
  | d' where "st = More" and "d = o' @ d'" and "view z' (drop n c) = Whole d'" and "length o' = a"
  using decoder_whole [of step view z c a z' n o' st "[]" d] assms that by auto

lemma decoder_cut_all:
  assumes "decoder_ok step view" and "step z c a = (z', n, o', st)" and "view z c = Cut d"
  obtains "st = Err"
  | d' where "st = More" and "d = o' @ d'" and "view z' (drop n c) = Cut d'"
  using decoder_cut [of step view z c a z' n o' st "[]" d] assms that by auto

lemma decoder_bad_all:
  assumes "decoder_ok step view" and "step z c a = (z', n, o', st)" and "view z c = Bad d"
  obtains "st = Err"
  | d' where "st = More" and "d = o' @ d'" and "view z' (drop n c) = Bad d'" and "length o' = a"
  using decoder_bad [of step view z c a z' n o' st "[]" d] assms that by auto

section \<open>Buffer loops\<close>

lemma inflate_loop_call:
  assumes "0 < avail" and "zstep zl s inp avail = (s', n, o', st)"
  shows "inflate_loop zl al s inp out cap avail =
     (case st of End \<Rightarrow> Some (Ret (Inr (out @ o'))) | Err \<Rightarrow> Some (Ret (Inl EILSEQ))
      | More \<Rightarrow> inflate_loop zl al s' (drop n inp) (out @ o') cap (avail - length o'))"
  using assms
  by (subst inflate_loop.simps) (auto simp: zstep_def zstatus_def split: prod.splits if_splits)

lemma inflate_loop_grow:
  assumes "0 < unat (cap' - of_nat (length out))" and "grow al (length out) cap = Ret (Inr (al', cap'))"
  shows "inflate_loop zl al s inp out cap 0 = inflate_loop zl al' s inp out cap' (unat (cap' - of_nat (length out)))"
  by (subst (1 2) inflate_loop.simps) (use assms in simp)

lemma grow_doubles:
  assumes "0 < unat cap" and "unat cap < 2 ^ 31" and "used = unat cap"
  shows "grow [] used cap = Ret (Inr ([], 2 * cap))" and "unat (2 * cap) = 2 * unat cap"
    and "unat (2 * cap - of_nat used) = unat cap"
proof -
  show two: "unat (2 * cap) = 2 * unat cap"
    using assms(2) by (simp add: unat_mult_lem unat_word_ariths)
  then show "grow [] used cap = Ret (Inr ([], 2 * cap))"
    using assms by (auto simp: grow_def Let_def)
  have "2 * cap - of_nat used = cap"
    using assms(3) by simp
  then show "unat (2 * cap - of_nat used) = unat cap" by simp
qed

lemma unat_less_32: "unat (w :: 32 word) < 4294967296"
  using unsigned_less [of w] by simp

lemma grow_wraps:
  assumes "2 ^ 31 \<le> unat cap" and "used = unat cap"
  shows "grow [] used cap = Fault"
proof -
  have "unat (2 * cap) = 2 * unat cap - 2 ^ 32"
    using assms(1) unat_less_32 [of cap] by (simp add: unat_word_ariths mod_if)
  then have "unat (2 * cap) < used"
    using assms unat_less_32 [of cap] by simp
  then show ?thesis by (simp add: grow_def Let_def)
qed


text \<open>A loop invariant: the room is what the capacity leaves.\<close>

lemma inflate_loop_room:
  assumes "unat cap = length out + avail" and "0 < unat cap" and "length out < 2 ^ 31"
  obtains cap' avail' where "unat cap' = length out + avail'" and "0 < avail'"
    and "inflate_loop zl [] s inp out cap avail = inflate_loop zl [] s inp out cap' avail'"
proof (cases "avail = 0")
  case True
  with assms have eq: "length out = unat cap" by simp
  with assms(3) have lt: "unat cap < 2 ^ 31" by simp
  note g = grow_doubles [OF assms(2) lt eq]
  have "inflate_loop zl [] s inp out cap 0 =
      inflate_loop zl [] s inp out (2 * cap) (unat (2 * cap - of_nat (length out)))"
    by (rule inflate_loop_grow [OF _ g(1)]) (simp only: g(3) assms(2))
  then have "inflate_loop zl [] s inp out cap avail = inflate_loop zl [] s inp out (2 * cap) (unat cap)"
    unfolding g(3) True .
  moreover have "unat (2 * cap) = length out + unat cap"
    using g(2) eq by linarith
  ultimately show thesis
    using that assms(2) by blast
next
  case False
  then show thesis using that assms by blast
qed

lemma inflate_loop_whole:
  assumes dec: "decoder_ok (zstep zl) view"
  shows "view s inp = Whole d \<Longrightarrow> unat cap = length out + avail \<Longrightarrow> 0 < unat cap \<Longrightarrow> length (out @ d) < 2 ^ 31 \<Longrightarrow>
     inflate_loop zl [] s inp out cap avail = Some (Ret (Inr (out @ d)))"
proof (induction "length d" arbitrary: s inp out d cap avail rule: less_induct)
  case less
  obtain cap' avail' where c: "unat cap' = length out + avail'" "0 < avail'"
    and eq: "inflate_loop zl [] s inp out cap avail = inflate_loop zl [] s inp out cap' avail'"
    using inflate_loop_room [of cap out avail zl s inp] less.prems by auto
  obtain s' n o' st where call: "zstep zl s inp avail' = (s', n, o', st)"
    by (metis prod_cases4)
  note loop = inflate_loop_call [OF c(2) call, of "[]" out cap']
  from dec call less.prems(1) show ?case
  proof (cases rule: decoder_whole_all)
    case 1
    then show ?thesis using eq loop by simp
  next
    case (2 d')
    then have "inflate_loop zl [] s' (drop n inp) (out @ o') cap' (avail' - length o') = Some (Ret (Inr ((out @ o') @ d')))"
      using c less.prems by (intro less.hyps) auto
    then show ?thesis using eq loop 2 by simp
  qed
qed

lemma inflate_loop_bad:
  assumes dec: "decoder_ok (zstep zl) view"
  shows "view s inp = Bad d \<Longrightarrow> unat cap = length out + avail \<Longrightarrow> 0 < unat cap \<Longrightarrow> length (out @ d) < 2 ^ 31 \<Longrightarrow>
     inflate_loop zl [] s inp out cap avail = Some (Ret (Inl EILSEQ))"
proof (induction "length d" arbitrary: s inp out d cap avail rule: less_induct)
  case less
  obtain cap' avail' where c: "unat cap' = length out + avail'" "0 < avail'"
    and eq: "inflate_loop zl [] s inp out cap avail = inflate_loop zl [] s inp out cap' avail'"
    using inflate_loop_room [of cap out avail zl s inp] less.prems by auto
  obtain s' n o' st where call: "zstep zl s inp avail' = (s', n, o', st)"
    by (metis prod_cases4)
  note loop = inflate_loop_call [OF c(2) call, of "[]" out cap']
  from dec call less.prems(1) show ?case
  proof (cases rule: decoder_bad_all)
    case 1
    then show ?thesis using eq loop by simp
  next
    case (2 d')
    then have "inflate_loop zl [] s' (drop n inp) (out @ o') cap' (avail' - length o') = Some (Ret (Inl EILSEQ))"
      using c less.prems by (intro less.hyps) auto
    then show ?thesis using eq loop 2 by simp
  qed
qed

text \<open>zlib reports a lack of input as \<^verbatim>\<open>Z_BUF_ERROR\<close>, which is not fatal.\<close>

definition patient :: "('z \<Rightarrow> string \<Rightarrow> nat \<Rightarrow> 'z call) \<Rightarrow> ('z \<Rightarrow> string \<Rightarrow> stream) \<Rightarrow> bool" where
  "patient step view \<longleftrightarrow>
     (\<forall>z c a d. view z c = Cut d \<longrightarrow> snd (snd (snd (step z c a))) \<noteq> Err)"

lemma inflate_loop_cut:
  assumes dec: "decoder_ok (zstep zl) view" and pat: "patient (zstep zl) view"
    and start: "view s inp = Cut d" "unat cap = length out + avail" "0 < unat cap" "length (out @ d) < 2 ^ 31"
  shows "inflate_loop zl [] s inp out cap avail = None"
proof -
  define I where "I = (\<lambda>zl' (al :: allocs) s inp out (cap :: 32 word) avail. zl' = zl \<and> al = [] \<and>
    (\<exists>d. view s inp = Cut d \<and> unat cap = length out + avail \<and> 0 < unat cap \<and> length (out @ d) < 2 ^ 31))"
  have "\<not> I zl ([] :: allocs) s inp out cap avail" if ret: "inflate_loop zl [] s inp out cap avail = Some y" for y
  proof (rule inflate_loop.raw_induct [where P = "\<lambda>zl al s inp out cap avail r. \<not> I zl al s inp out cap avail", OF _ ret])
    fix f :: "'a zlib \<Rightarrow> allocs \<Rightarrow> 'a \<Rightarrow> string \<Rightarrow> string \<Rightarrow> 32 word \<Rightarrow> nat \<Rightarrow> (rc + string) outcome option"
      and zl' al s inp out cap avail y
    assume IH: "\<And>zl al s inp out cap avail y. f zl al s inp out cap avail = Some y \<Longrightarrow> \<not> I zl al s inp out cap avail"
      and eq: "(case if avail = 0 then grow al (length out) cap else Ret (Inr (al, cap)) of Fault \<Rightarrow> Some Fault
         | Ret (Inl e) \<Rightarrow> Some (Ret (Inl e))
         | Ret (Inr (al', cap')) \<Rightarrow>
             (case inflate zl' s inp (if avail = 0 then unat (cap' - word_of_nat (length out)) else avail) of
              (s', n, o', rc) \<Rightarrow>
                if rc = Z_STREAM_END then Some (Ret (Inr (out @ o')))
                else if rc \<noteq> Z_OK \<and> rc \<noteq> Z_BUF_ERROR then Some (Ret (Inl EILSEQ))
                else f zl' al' s' (drop n inp) (out @ o') cap'
                      ((if avail = 0 then unat (cap' - word_of_nat (length out)) else avail) - length o'))) = Some y"
    show "\<not> I zl' al s inp out cap avail"
    proof
      assume "I zl' al s inp out cap avail"
      then obtain d where same [simp]: "zl' = zl" "al = []" and v: "view s inp = Cut d"
        and c: "unat cap = length out + avail" "0 < unat cap" "length (out @ d) < 2 ^ 31"
        by (auto simp: I_def)
      obtain cap' avail' where c': "unat cap' = length out + avail'" "0 < avail'"
        and eq': "(case inflate zl s inp avail' of
              (s', n, o', rc) \<Rightarrow>
                if rc = Z_STREAM_END then Some (Ret (Inr (out @ o')))
                else if rc \<noteq> Z_OK \<and> rc \<noteq> Z_BUF_ERROR then Some (Ret (Inl EILSEQ))
                else f zl [] s' (drop n inp) (out @ o') cap' (avail' - length o')) = Some y"
      proof (cases "avail = 0")
        case True
        then have e: "length out = unat cap" using c by simp
        with c have lt: "unat cap < 2 ^ 31" by simp
        note g = grow_doubles [OF c(2) lt e]
        show thesis
        proof (rule that [of "2 * cap" "unat cap"], goal_cases)
          case 1
          show ?case using g(2) e by linarith
        next
          case 2
          show ?case by (rule c(2))
        next
          case 3
          show ?case using eq unfolding True same simp_thms(6) if_True g(1) outcome.case sum.case prod.case g(3) .
        qed
      next
        case False
        then have no: "(avail = 0) = False" by simp
        show thesis
        proof (rule that [of cap avail], goal_cases)
          case 3
          show ?case using eq unfolding no same if_False outcome.case sum.case prod.case .
        qed (use c False in auto)
      qed
      obtain s' n o' rc where call: "inflate zl s inp avail' = (s', n, o', rc)" by (metis prod_cases4)
      then have st: "zstep zl s inp avail' = (s', n, o', zstatus rc)" by (simp add: zstep_def)
      from pat v st have noerr: "zstatus rc \<noteq> Err"
        unfolding patient_def by (metis snd_conv)
      from dec st v show False
      proof (cases rule: decoder_cut_all)
        case 1
        then show ?thesis using noerr by simp
      next
        case (2 d')
        then have "f zl [] s' (drop n inp) (out @ o') cap' (avail' - length o') = Some y"
          using eq' call by (auto simp: zstatus_def split: if_splits)
        moreover have "I zl [] s' (drop n inp) (out @ o') cap' (avail' - length o')"
          using 2 c c' decoder_room [OF dec st] by (auto simp: I_def)
        ultimately show ?thesis using IH by blast
      qed
    qed
  qed
  moreover have "I zl [] s inp out cap avail" using start by (auto simp: I_def)
  ultimately show ?thesis by (cases "inflate_loop zl [] s inp out cap avail") auto
qed


text \<open>A stream longer than any 32-bit capacity leaves the buffer.\<close>

lemma inflate_loop_fault:
  assumes dec: "decoder_ok (zstep zl) view"
  shows "view s inp = Whole d \<Longrightarrow> unat cap = length out + avail \<Longrightarrow> 0 < unat cap \<Longrightarrow> 2 ^ 32 \<le> length (out @ d) \<Longrightarrow>
     inflate_loop zl [] s inp out cap avail = Some Fault"
proof (induction "length d" arbitrary: s inp out d cap avail rule: less_induct)
  case less
  show ?case
  proof (cases "avail = 0 \<and> 2 ^ 31 \<le> unat cap")
    case True
    then show ?thesis
      using less.prems(2) by (subst inflate_loop.simps) (simp add: grow_wraps)
  next
    case False
    then obtain cap' avail' where c: "unat cap' = length out + avail'" "0 < avail'"
      and eq: "inflate_loop zl [] s inp out cap avail = inflate_loop zl [] s inp out cap' avail'"
    proof (cases "avail = 0")
      case True
      with False less.prems(2) have "length out < 2 ^ 31" by linarith
      then show thesis
        using inflate_loop_room [OF less.prems(2,3), of zl s inp] that by metis
    next
      case False
      then show thesis using less.prems(2) that [of cap avail] by simp
    qed
    obtain s' n o' st where call: "zstep zl s inp avail' = (s', n, o', st)"
      by (metis prod_cases4)
    note loop = inflate_loop_call [OF c(2) call, of "[]" out cap']
    from dec call less.prems(1) show ?thesis
    proof (cases rule: decoder_whole_all)
      case 1
      then have "length (out @ d) \<le> unat cap'"
        using c decoder_room [OF dec call] by simp
      then show ?thesis using less.prems(4) unat_less_32 [of cap'] by simp
    next
      case (2 d')
      then have "inflate_loop zl [] s' (drop n inp) (out @ o') cap' (avail' - length o') = Some Fault"
        using c less.prems by (intro less.hyps) auto
      then show ?thesis using eq loop 2 by simp
    qed
  qed
qed

lemma zstd_loop_call:
  assumes "sstep zs s inp (unat (cap - of_nat (length out))) = (s', n, o', st)"
  shows "zstd_loop zs al s inp out cap =
     (case st of End \<Rightarrow> Some (Ret (Inr (out @ o'))) | Err \<Rightarrow> Some (Ret (Inl EILSEQ))
      | More \<Rightarrow> (case (if (of_nat (length (out @ o')) :: 32 word) = cap then grow al (length (out @ o')) cap
                      else Ret (Inr (al, cap))) of
                  Fault \<Rightarrow> Some Fault
                | Ret (Inl e) \<Rightarrow> Some (Ret (Inl e))
                | Ret (Inr (al', cap')) \<Rightarrow> zstd_loop zs al' s' (drop n inp) (out @ o') cap'))"
proof (cases "decompressStream zs s inp (unat (cap - of_nat (length out)))")
  case (fields a b c d)
  then show ?thesis
    using assms by (subst zstd_loop.simps) (cases d; auto simp: sstep_def split: if_splits)
qed

lemma room_left:
  assumes "length out \<le> unat (cap :: 32 word)"
  shows "unat (cap - of_nat (length out)) = unat cap - length out"
  using assms unat_less_32 [of cap] by (simp add: unat_sub word_le_nat_alt unat_of_nat)

lemma full_room:
  assumes "length out = unat (cap :: 32 word)"
  shows "of_nat (length out) = cap"
  using assms by simp

text \<open>A call that is not the last fills the buffer.\<close>

lemma zstd_loop_whole:
  assumes dec: "decoder_ok (sstep zs) view"
  shows "view s inp = Whole d \<Longrightarrow> length out < unat cap \<Longrightarrow> length (out @ d) < 2 ^ 31 \<Longrightarrow>
     zstd_loop zs [] s inp out cap = Some (Ret (Inr (out @ d)))"
proof (induction "length d" arbitrary: s inp out d cap rule: less_induct)
  case less
  define a where "a = unat (cap - of_nat (length out))"
  have a: "a = unat cap - length out"
    using less.prems(2) by (simp add: a_def room_left)
  obtain s' n o' st where call: "sstep zs s inp a = (s', n, o', st)"
    by (metis prod_cases4)
  note loop = zstd_loop_call [OF call [unfolded a_def], of "[]"]
  from dec call less.prems(1) show ?case
  proof (cases rule: decoder_whole_all)
    case 1
    then show ?thesis using loop by simp
  next
    case (2 d')
    then have full: "length (out @ o') = unat cap"
      using a less.prems(2) by simp
    have lt: "unat cap < 2 ^ 31"
      using full 2(2) less.prems(3) by simp
    have pos: "0 < unat cap" using less.prems(2) by simp
    note g = grow_doubles [OF pos lt full]
    have "zstd_loop zs [] s' (drop n inp) (out @ o') (2 * cap) = Some (Ret (Inr ((out @ o') @ d')))"
      using 2 less.prems a g(2) full pos by (intro less.hyps) auto
    then show ?thesis
      unfolding loop using 2 full_room [OF full] g(1) by simp
  qed
qed

lemma zstd_loop_fault:
  assumes dec: "decoder_ok (sstep zs) view"
  shows "view s inp = Whole d \<Longrightarrow> length out \<le> unat cap \<Longrightarrow> unat cap = 0 \<or> length out < unat cap \<Longrightarrow>
     2 ^ 32 \<le> length (out @ d) \<or> unat cap = 0 \<and> d \<noteq> [] \<Longrightarrow>
     zstd_loop zs [] s inp out cap = Some Fault"
proof (induction "length d" arbitrary: s inp out d cap rule: less_induct)
  case less
  define a where "a = unat (cap - of_nat (length out))"
  have a: "a = unat cap - length out"
    using less.prems(2) by (simp add: a_def room_left)
  obtain s' n o' st where call: "sstep zs s inp a = (s', n, o', st)"
    by (metis prod_cases4)
  note loop = zstd_loop_call [OF call [unfolded a_def], of "[]"]
  note room = decoder_room [OF dec call]
  from dec call less.prems(1) show ?case
  proof (cases rule: decoder_whole_all)
    case 1
    then have "length (out @ d) \<le> unat cap" and "unat cap = 0 \<Longrightarrow> d = []"
      using a room less.prems(2) by auto
    then show ?thesis using less.prems(4) unat_less_32 [of cap] by auto
  next
    case (2 d')
    then have full: "length (out @ o') = unat cap"
      using a less.prems(2) by simp
    show ?thesis
    proof (cases "unat cap = 0 \<or> 2 ^ 31 \<le> unat cap")
      case True
      then have "grow [] (length (out @ o')) cap = Fault"
      proof
        assume "unat cap = 0"
        then show ?thesis by (simp add: grow_def Let_def unat_eq_0)
      qed (simp only: full grow_wraps [OF _ refl])
      then show ?thesis
        unfolding loop using 2 full_room [OF full] by simp
    next
      case False
      then have pos: "0 < unat cap" and lt: "unat cap < 2 ^ 31" by auto
      note g = grow_doubles [OF pos lt full]
      have "zstd_loop zs [] s' (drop n inp) (out @ o') (2 * cap) = Some Fault"
        using 2 less.prems a g(2) full pos by (intro less.hyps) auto
      then show ?thesis
        unfolding loop using 2 full_room [OF full] g(1) by simp
    qed
  qed
qed


lemma zlib_capacity:
  assumes "l < 2 ^ 30"
  shows "0 < unat (if 4096 < (of_nat l :: 32 word) then of_nat l * 2 + 1024 else 4096 :: 32 word)"
proof (cases "4096 < (of_nat l :: 32 word)")
  case True
  have "unat (of_nat l :: 32 word) = l"
    using assms by (simp add: unat_of_nat)
  then have eq: "unat (of_nat l * 2 + 1024 :: 32 word) = l * 2 + 1024"
    using assms by (simp add: unat_word_ariths)
  show ?thesis unfolding if_P [OF True] eq by simp
qed simp

lemma zstd_default_capacity:
  assumes "l < 2 ^ 30"
  shows "0 < unat (if 4096 < (of_nat l :: 32 word) then of_nat l * 4 else 4096 :: 32 word)"
proof (cases "4096 < (of_nat l :: 32 word)")
  case True
  have "unat (of_nat l :: 32 word) = l"
    using assms by (simp add: unat_of_nat)
  then have eq: "unat (of_nat l * 4 :: 32 word) = l * 4" and "4096 < l"
    using assms True by (simp_all add: unat_word_ariths word_less_nat_alt)
  then show ?thesis unfolding if_P [OF True] eq by simp
qed simp

lemma buf_decompress_zlib_loop:
  assumes "inflateInit2 zl 47 = Some s" and "length inp < 2 ^ 30"
  obtains cap where "0 < unat cap" and "buf_decompress_zlib zl [] inp = inflate_loop zl [] s inp [] cap (unat cap)"
  by (rule that [OF zlib_capacity [OF assms(2)]]) (simp add: buf_decompress_zlib_def Let_def assms(1))

section \<open>File loops\<close>

lemma inflate_file_call:
  assumes "zstep zl s inp CHUNK = (s', n, o', st)" and "\<not> (ibuf = [] \<and> eof)"
    and "inp = (if ibuf = [] then take CHUNK rest else ibuf)"
    and "length (out @ o') \<le> room"
  shows "inflate_file zl room s ibuf eof rest out =
     (case st of End \<Rightarrow> Some (Inr (out @ o')) | Err \<Rightarrow> Some (Inl EILSEQ)
      | More \<Rightarrow> inflate_file zl room s' (drop n inp) (eof \<or> ibuf = [] \<and> length rest < CHUNK)
                  (if ibuf = [] then drop CHUNK rest else rest) (out @ o'))"
proof -
  obtain rc where i: "inflate zl s inp CHUNK = (s', n, o', rc)" and st: "st = zstatus rc"
    using assms(1) by (auto simp: zstep_def split: prod.splits)
  have room: "\<not> room < length out + length o'"
    using assms(4) by simp
  have eof: "(eof \<or> ibuf = [] \<and> length (take CHUNK rest) < CHUNK) = (eof \<or> ibuf = [] \<and> length rest < CHUNK)"
    by auto
  show ?thesis
    unfolding st by (subst inflate_file.simps, unfold if_not_P [OF assms(2)] Let_def eof)
      (simp add: i room zstatus_def flip: assms(3) del: length_take)
qed

lemma unzstd_file_call:
  assumes "sstep zs s inp CHUNK = (s', n, o', st)" and "\<not> (ibuf = [] \<and> rest = [])"
    and "inp = (if ibuf = [] then take CHUNK rest else ibuf)"
    and "length (out @ o') \<le> room"
  shows "unzstd_file zs room s ibuf rest out =
     (case st of End \<Rightarrow> Some (Inr (out @ o')) | Err \<Rightarrow> Some (Inl EILSEQ)
      | More \<Rightarrow> unzstd_file zs room s' (drop n inp) (if ibuf = [] then drop CHUNK rest else rest) (out @ o'))"
proof (cases "decompressStream zs s inp CHUNK")
  case (fields a b c d)
  then show ?thesis
    using assms by (subst unzstd_file.simps) (cases d; auto simp: sstep_def Let_def split: if_splits)
qed

text \<open>Every call takes input or gives output.\<close>

fun data_of :: "stream \<Rightarrow> string" where
  "data_of (Whole d) = d"
| "data_of (Cut d) = d"
| "data_of (Bad d) = d"

fun verdict :: "string \<Rightarrow> stream \<Rightarrow> rc + string" where
  "verdict out (Whole d) = Inr (out @ d)"
| "verdict out (Cut d) = Inl EILSEQ"
| "verdict out (Bad d) = Inl EILSEQ"

lemma decoder_cases:
  assumes dec: "decoder_ok step view" and fin: "ends_with_input view"
    and call: "step z c a = (z', n, o', st)" and a: "0 < a"
  obtains (End) "st = End" and "view z (c @ r) = Whole o'"
  | (Err) "st = Err" and "\<forall>d. view z (c @ r) \<noteq> Whole d" and "length o' \<le> length (data_of (view z (c @ r)))"
  | (More) "st = More" and "length o' \<le> length (data_of (view z (c @ r)))"
    and "verdict out (view z (c @ r)) = verdict (out @ o') (view z' (drop n c @ r))"
    and "length (data_of (view z (c @ r))) = length o' + length (data_of (view z' (drop n c @ r)))"
    and "o' \<noteq> [] \<or> n = length c" and "n \<le> length c"
    and "\<exists>d. view z (c @ r) = Whole d \<Longrightarrow> drop n c @ r \<noteq> []"
proof (cases "view z (c @ r)")
  case (Whole d)
  from dec call Whole show thesis
  proof (cases rule: decoder_whole)
    case 1
    then show thesis using that(1) Whole by simp
  next
    case (2 d')
    then show thesis
      using that(3) Whole a decoder_room [OF dec call] fin unfolding ends_with_input_def
      by (cases "drop n c @ r = []") auto
  qed
next
  case (Cut d)
  from dec call Cut show thesis
  proof (cases rule: decoder_cut)
    case 1
    then show thesis using that(2) Cut by simp
  next
    case (2 d')
    then show thesis
      using that(3) Cut a decoder_room [OF dec call] by auto
  qed
next
  case (Bad d)
  from dec call Bad show thesis
  proof (cases rule: decoder_bad)
    case (1 d')
    then show thesis using that(2) Bad by simp
  next
    case (2 d')
    then show thesis
      using that(3) Bad a decoder_room [OF dec call] by auto
  qed
qed


lemma verdict_not_whole: "\<forall>d. v \<noteq> Whole d \<Longrightarrow> verdict out v = Inl EILSEQ"
  by (cases v) auto

lemma take_chunk: "take CHUNK xs = [] \<longleftrightarrow> xs = []"
  by (cases xs) auto

lemma inflate_file_verdict:
  assumes dec: "decoder_ok (zstep zl) view" and fin: "ends_with_input view"
  shows "(eof \<Longrightarrow> rest = []) \<Longrightarrow> length out + length (data_of (view s (ibuf @ rest))) \<le> room \<Longrightarrow>
     inflate_file zl room s ibuf eof rest out = Some (verdict out (view s (ibuf @ rest)))"
proof (induction "length ibuf + length rest + length (data_of (view s (ibuf @ rest))) + (if eof then 0 else 1)"
    arbitrary: s ibuf eof rest out rule: less_induct)
  case less
  show ?case
  proof (cases "ibuf = [] \<and> eof")
    case True
    then have "\<forall>d. view s (ibuf @ rest) \<noteq> Whole d"
      using less.prems(1) fin by (auto simp: ends_with_input_def)
    then show ?thesis
      using True by (subst inflate_file.simps) (simp add: verdict_not_whole)
  next
    case False
    define inp where "inp = (if ibuf = [] then take CHUNK rest else ibuf)"
    define rest2 where "rest2 = (if ibuf = [] then drop CHUNK rest else rest)"
    define eof2 where "eof2 = (eof \<or> ibuf = [] \<and> length rest < CHUNK)"
    have all: "inp @ rest2 = ibuf @ rest" by (simp add: inp_def rest2_def)
    obtain s' n o' st where call: "zstep zl s inp CHUNK = (s', n, o', st)"
      by (metis prod_cases4)
    have loop: "length (out @ o') \<le> room \<Longrightarrow> inflate_file zl room s ibuf eof rest out =
       (case st of End \<Rightarrow> Some (Inr (out @ o')) | Err \<Rightarrow> Some (Inl EILSEQ)
        | More \<Rightarrow> inflate_file zl room s' (drop n inp) eof2 rest2 (out @ o'))"
      unfolding eof2_def rest2_def by (rule inflate_file_call [OF call False inp_def])
    from dec fin call zero_less_numeral show ?thesis
    proof (cases rule: decoder_cases [where r = rest2 and out = out])
      case End
      then show ?thesis using loop less.prems(2) all by simp
    next
      case Err
      then show ?thesis using loop less.prems(2) all by (simp add: verdict_not_whole)
    next
      case More
      have eofrest: "eof2 \<Longrightarrow> rest2 = []"
        using less.prems(1) by (auto simp: eof2_def rest2_def)
      have "inflate_file zl room s' (drop n inp) eof2 rest2 (out @ o') =
          Some (verdict (out @ o') (view s' (drop n inp @ rest2)))"
      proof (rule less.hyps)
        have le: "length inp + length rest2 = length ibuf + length rest"
          using arg_cong [OF all, of length] by simp
        have "length inp = 0 \<Longrightarrow> \<not> eof \<and> eof2"
          using False by (auto simp: inp_def eof2_def take_chunk split: if_splits)
        moreover have "eof \<Longrightarrow> eof2" by (simp add: eof2_def)
        moreover have "0 < length o' \<or> n = length inp" using More(5) by simp
        ultimately show "length (drop n inp) + length rest2 + length (data_of (view s' (drop n inp @ rest2))) +
            (if eof2 then 0 else 1)
            < length ibuf + length rest + length (data_of (view s (ibuf @ rest))) + (if eof then 0 else 1)"
          using More(4,6) le unfolding all length_drop by (cases eof; cases eof2; simp; arith)
      qed (use eofrest More(4) less.prems(2) all in auto)
      then show ?thesis
        using loop More less.prems(2) all by simp
    qed
  qed
qed

lemma unzstd_file_verdict:
  assumes dec: "decoder_ok (sstep zs) view" and fin: "ends_with_input view"
  shows "length out + length (data_of (view s (ibuf @ rest))) \<le> room \<Longrightarrow>
     unzstd_file zs room s ibuf rest out = Some (verdict out (view s (ibuf @ rest)))"
proof (induction "length ibuf + length rest + length (data_of (view s (ibuf @ rest)))"
    arbitrary: s ibuf rest out rule: less_induct)
  case less
  show ?case
  proof (cases "ibuf = [] \<and> rest = []")
    case True
    then have "\<forall>d. view s (ibuf @ rest) \<noteq> Whole d"
      using fin by (auto simp: ends_with_input_def)
    then show ?thesis
      using True by (subst unzstd_file.simps) (simp add: verdict_not_whole)
  next
    case False
    define inp where "inp = (if ibuf = [] then take CHUNK rest else ibuf)"
    define rest2 where "rest2 = (if ibuf = [] then drop CHUNK rest else rest)"
    have all: "inp @ rest2 = ibuf @ rest" by (simp add: inp_def rest2_def)
    obtain s' n o' st where call: "sstep zs s inp CHUNK = (s', n, o', st)"
      by (metis prod_cases4)
    have loop: "length (out @ o') \<le> room \<Longrightarrow> unzstd_file zs room s ibuf rest out =
       (case st of End \<Rightarrow> Some (Inr (out @ o')) | Err \<Rightarrow> Some (Inl EILSEQ)
        | More \<Rightarrow> unzstd_file zs room s' (drop n inp) rest2 (out @ o'))"
      unfolding rest2_def by (rule unzstd_file_call [OF call False inp_def])
    from dec fin call zero_less_numeral show ?thesis
    proof (cases rule: decoder_cases [where r = rest2 and out = out])
      case End
      then show ?thesis using loop less.prems all by simp
    next
      case Err
      then show ?thesis using loop less.prems all by (simp add: verdict_not_whole)
    next
      case More
      have "unzstd_file zs room s' (drop n inp) rest2 (out @ o') =
          Some (verdict (out @ o') (view s' (drop n inp @ rest2)))"
      proof (rule less.hyps)
        have le: "length inp + length rest2 = length ibuf + length rest"
          using arg_cong [OF all, of length] by simp
        have "0 < length inp"
          using False by (auto simp: inp_def take_chunk)
        moreover have "0 < length o' \<or> n = length inp" using More(5) by simp
        ultimately show "length (drop n inp) + length rest2 + length (data_of (view s' (drop n inp @ rest2)))
            < length ibuf + length rest + length (data_of (view s (ibuf @ rest)))"
          using More(4,6) le unfolding all length_drop by arith
      qed (use More(4) less.prems all in auto)
      then show ?thesis
        using loop More less.prems all by simp
    qed
  qed
qed


section \<open>Encoder loops\<close>

text \<open>What a chunk leaves: an error of the disk, the end of an encoding of \<open>x\<close>, or a state that has taken \<open>x\<close>.\<close>

definition chunk_done ::
  "('z \<Rightarrow> string option \<Rightarrow> string \<Rightarrow> string \<Rightarrow> bool) \<Rightarrow> (string \<Rightarrow> string \<Rightarrow> bool) \<Rightarrow> bool \<Rightarrow> string \<Rightarrow> 'z inner \<Rightarrow> bool" where
  "chunk_done track good fin x r =
     (case r of Leave (Inl e) \<Rightarrow> e = EIO | Leave (Inr e) \<Rightarrow> fin \<and> good e x | Break s e \<Rightarrow> \<not> fin \<and> track s None x e)"

lemma encoder_call:
  assumes "encoder_ok step track left good" and "track z w p e" and "offers w fin c" and "step z fin c CHUNK = (z', n, o', st)"
  obtains "st = End" and "fin" and "good (e @ o') (p @ c)"
  | "st = More" and "track z' None (p @ c) (e @ o')" and "\<not> fin" and "n = length c"
  | w' where "st = More" and "track z' w' (p @ take n c) (e @ o')" and "left z' fin (drop n c) < left z fin c"
      and "offers w' fin (drop n c)" and "fin \<or> drop n c \<noteq> []"
proof -
  have law: "n \<le> length c \<and> st \<noteq> Err \<and>
        (st = End \<longrightarrow> fin \<and> good (e @ o') (p @ c)) \<and>
        (st = More \<longrightarrow> track z' (if fin then Some (drop n c) else None) (p @ take n c) (e @ o') \<and>
           (\<not> fin \<and> n = length c \<or> left z' fin (drop n c) < left z fin c))"
    using assms(1)[unfolded encoder_ok_def, rule_format, OF assms(2) _ assms(3) assms(4)] by simp
  show thesis
  proof (cases "st = End \<or> \<not> fin \<and> n = length c")
    case True
    then show thesis using law that(1,2) by (cases st) auto
  next
    case False
    then show thesis
      using law that(3) [of "if fin then Some (drop n c) else None"] by (cases st) (auto simp: offers_def)
  qed
qed

lemma deflate_chunk_done:
  assumes enc: "encoder_ok (dstep zl) track left good"
  shows "track s w p out \<Longrightarrow> offers w fin inp \<Longrightarrow>
     \<exists>r. deflate_chunk zl room fin s inp out = Some r \<and> chunk_done track good fin (p @ inp) r"
proof (induction "left s fin inp" arbitrary: s w p inp out rule: less_induct)
  case less
  obtain s' n o' rc where call: "deflate zl s (if fin then Z_FINISH else Z_NO_FLUSH) inp CHUNK = (s', n, o', rc)"
    by (metis prod_cases4)
  then have st: "dstep zl s fin inp CHUNK = (s', n, o', if rc = Z_STREAM_END then End else if rc = Z_OK then More else Err)"
    by (simp add: dstep_def)
  note loop = deflate_chunk.simps [of zl room fin s inp out, unfolded call prod.case]
  show ?case
  proof (cases "o' \<noteq> [] \<and> room < length (out @ o')")
    case True
    then show ?thesis using loop by (simp add: chunk_done_def)
  next
    case False
    from enc less.prems st show ?thesis
    proof (cases rule: encoder_call)
      case 1
      then have "deflate_chunk zl room fin s inp out = Some (Leave (Inr (out @ o')))"
        unfolding loop using False by (auto split: if_splits)
      then show ?thesis using 1 by (simp add: chunk_done_def)
    next
      case 2
      then have "deflate_chunk zl room fin s inp out = Some (Break s' (out @ o'))"
        unfolding loop using False by (auto split: if_splits)
      then show ?thesis using 2 by (simp add: chunk_done_def)
    next
      case (3 w')
      then have "deflate_chunk zl room fin s inp out = deflate_chunk zl room fin s' (drop n inp) (out @ o')"
        unfolding loop using False by (auto split: if_splits)
      moreover have "\<exists>r. deflate_chunk zl room fin s' (drop n inp) (out @ o') = Some r \<and>
          chunk_done track good fin ((p @ take n inp) @ drop n inp) r"
        using 3 by (intro less.hyps) auto
      ultimately show ?thesis by simp
    qed
  qed
qed

lemma zstd_chunk_done:
  assumes enc: "encoder_ok (cstep zs) track left good"
  shows "track s w p out \<Longrightarrow> offers w fin inp \<Longrightarrow>
     \<exists>r. zstd_chunk zs room fin s inp out = Some r \<and> chunk_done track good fin (p @ inp) r"
proof (induction "left s fin inp" arbitrary: s w p inp out rule: less_induct)
  case less
  obtain s' n o' rc where call: "compressStream2 zs s fin inp CHUNK = (s', n, o', rc)"
    by (metis prod_cases4)
  then have st: "cstep zs s fin inp CHUNK =
      (s', n, o', case rc of None \<Rightarrow> Err | Some h \<Rightarrow> if fin \<and> h = 0 then End else More)"
    by (simp add: cstep_def)
  note loop = zstd_chunk.simps [of zs room fin s inp out, unfolded call prod.case]
  from enc less.prems st obtain h where h: "rc = Some h"
    by (cases rc; cases rule: encoder_call) auto
  show ?case
  proof (cases "o' \<noteq> [] \<and> room < length (out @ o')")
    case True
    then show ?thesis using loop h by (simp add: chunk_done_def)
  next
    case False
    from enc less.prems st show ?thesis
    proof (cases rule: encoder_call)
      case 1
      then have "zstd_chunk zs room fin s inp out = Some (Leave (Inr (out @ o')))"
        unfolding loop using False h by (auto split: if_splits)
      then show ?thesis using 1 by (simp add: chunk_done_def)
    next
      case 2
      then have "zstd_chunk zs room fin s inp out = Some (Break s' (out @ o'))"
        unfolding loop using False h by (auto split: if_splits)
      then show ?thesis using 2 by (simp add: chunk_done_def)
    next
      case (3 w')
      then have "zstd_chunk zs room fin s inp out = zstd_chunk zs room fin s' (drop n inp) (out @ o')"
        unfolding loop using False h by (auto split: if_splits)
      moreover have "\<exists>r. zstd_chunk zs room fin s' (drop n inp) (out @ o') = Some r \<and>
          chunk_done track good fin ((p @ take n inp) @ drop n inp) r"
        using 3 by (intro less.hyps) auto
      ultimately show ?thesis by simp
    qed
  qed
qed

text \<open>Both file loops: chunks until a short one.\<close>

lemma deflate_file_done:
  assumes enc: "encoder_ok (dstep zl) track left good"
  shows "track s None p out \<Longrightarrow>
     \<exists>r. deflate_file zl room False s rest out = Some r \<and> (case r of Inl e \<Rightarrow> e = EIO | Inr e \<Rightarrow> good e (p @ rest))"
proof (induction "length rest" arbitrary: s p rest out rule: less_induct)
  case less
  let ?fin = "length (take CHUNK rest) < CHUNK" and ?inp = "take CHUNK rest"
  have "offers None ?fin ?inp" by (cases rest) (auto simp: offers_def)
  from deflate_chunk_done [OF enc less.prems this, of room]
  obtain r where r: "deflate_chunk zl room ?fin s ?inp out = Some r" "chunk_done track good ?fin (p @ ?inp) r"
    by blast
  note loop = deflate_file.simps [of zl room False s rest out, unfolded if_False r(1) bind.simps]
  show ?case
  proof (cases r)
    case (Leave x)
    then show ?thesis
      unfolding loop using r(2) by (auto simp: chunk_done_def split: sum.splits)
  next
    case (Break s' e)
    then have long: "\<not> ?fin" and tr: "track s' None (p @ ?inp) e"
      using r(2) by (auto simp: chunk_done_def)
    have "length (drop CHUNK rest) < length rest"
      using long by simp
    from less.hyps [OF this tr, unfolded append_assoc append_take_drop_id]
    show ?thesis
      unfolding loop using Break long by simp
  qed
qed

lemma zstd_file_done:
  assumes enc: "encoder_ok (cstep zs) track left good"
  shows "track s None p out \<Longrightarrow>
     \<exists>r. zstd_file zs room s rest out = Some r \<and> (case r of Inl e \<Rightarrow> e = EIO | Inr e \<Rightarrow> good e (p @ rest))"
proof (induction "length rest" arbitrary: s p rest out rule: less_induct)
  case less
  let ?fin = "length (take CHUNK rest) < CHUNK" and ?inp = "take CHUNK rest"
  have "offers None ?fin ?inp" by (cases rest) (auto simp: offers_def)
  from zstd_chunk_done [OF enc less.prems this, of room]
  obtain r where r: "zstd_chunk zs room ?fin s ?inp out = Some r" "chunk_done track good ?fin (p @ ?inp) r"
    by blast
  note loop = zstd_file.simps [of zs room s rest out, unfolded r(1) bind.simps]
  show ?case
  proof (cases r)
    case (Leave x)
    then show ?thesis
      unfolding loop using r(2) by (auto simp: chunk_done_def split: sum.splits)
  next
    case (Break s' e)
    then have long: "\<not> ?fin" and tr: "track s' None (p @ ?inp) e"
      using r(2) by (auto simp: chunk_done_def)
    have "length (drop CHUNK rest) < length rest"
      using long by simp
    from less.hyps [OF this tr, unfolded append_assoc append_take_drop_id]
    show ?thesis
      unfolding loop using Break long by simp
  qed
qed

end
