(* ===== verification/CompressDemo.thy ===== *)
theory CompressDemo
  imports CompressSpec
begin

text \<open>
  A library that stores: a header of four bytes, every byte of the contents after a one, a final zero.
  It keeps the contracts of \<^verbatim>\<open>CompressSpec\<close>, with buffers of any size and input in any portions.
\<close>

datatype toy = Skip nat | Lit | Enc string bool

fun toy_dec :: "toy \<Rightarrow> string \<Rightarrow> nat \<Rightarrow> toy call" where
  "toy_dec s [] a = (s, 0, [], More)"
| "toy_dec (Skip (Suc k)) (x # c) a = (case toy_dec (Skip k) c a of (s, n, out, st) \<Rightarrow> (s, Suc n, out, st))"
| "toy_dec (Skip 0) (x # c) a =
     (if x = CHR 0x00 then (Skip 0, 1, [], End)
      else case toy_dec Lit c a of (s, n, out, st) \<Rightarrow> (s, Suc n, out, st))"
| "toy_dec Lit (x # c) a =
     (if a = 0 then (Lit, 0, [], More)
      else case toy_dec (Skip 0) c (a - 1) of (s, n, out, st) \<Rightarrow> (s, Suc n, x # out, st))"
| "toy_dec (Enc p b) (x # c) a = (Enc p b, 0, [], Err)"

fun more_data :: "string \<Rightarrow> stream \<Rightarrow> stream" where
  "more_data x (Whole d) = Whole (x @ d)"
| "more_data x (Cut d) = Cut (x @ d)"
| "more_data x (Bad d) = Bad (x @ d)"

fun toy_view :: "toy \<Rightarrow> string \<Rightarrow> stream" where
  "toy_view s [] = Cut []"
| "toy_view (Skip (Suc k)) (x # c) = toy_view (Skip k) c"
| "toy_view (Skip 0) (x # c) = (if x = CHR 0x00 then Whole [] else toy_view Lit c)"
| "toy_view Lit (x # c) = more_data [x] (toy_view (Skip 0) c)"
| "toy_view (Enc p b) (x # c) = Bad []"

definition stored :: "string \<Rightarrow> string" where
  "stored x = concat (map (\<lambda>b. [CHR 0x01, b]) x)"

definition toy_enc :: "toy \<Rightarrow> bool \<Rightarrow> string \<Rightarrow> nat \<Rightarrow> toy call" where
  "toy_enc s fin c a =
     (case s of
        Enc p done \<Rightarrow>
          let q = p @ stored c @ (if fin \<and> \<not> done then [CHR 0x00] else []) in
          (Enc (drop a q) (done \<or> fin), length c, take a q, if fin \<and> drop a q = [] then End else More)
      | _ \<Rightarrow> (s, 0, [], Err))"

definition toy_head :: "bool \<Rightarrow> string" where
  "toy_head gz = (if gz then [CHR 0x1F, CHR 0x8B] else [CHR 0x78, CHR 0x9C]) @ [CHR 0x00, CHR 0x00]"

definition toy_zlib :: "toy zlib" where
  "toy_zlib =
     \<lparr>deflateInit2 = (\<lambda>level wb. Some (Enc (toy_head (wb = 31)) False)),
      deflateBound = (\<lambda>s n. 2 * n + 5),
      deflate = (\<lambda>s fl c a. case toy_enc s (fl = Z_FINISH) c a of (s', n, out, st) \<Rightarrow>
        (s', n, out, case st of End \<Rightarrow> Z_STREAM_END | More \<Rightarrow> Z_OK | Err \<Rightarrow> Z_DATA_ERROR)),
      inflateInit2 = (\<lambda>wb. Some (Skip 4)),
      inflate = (\<lambda>s c a. case toy_dec s c a of (s', n, out, st) \<Rightarrow>
        (s', n, out, case st of End \<Rightarrow> Z_STREAM_END | More \<Rightarrow> if n = 0 then Z_BUF_ERROR else Z_OK | Err \<Rightarrow> Z_DATA_ERROR))\<rparr>"

definition toy_shead :: string where
  "toy_shead = [CHR 0x28, CHR 0xB5, CHR 0x2F, CHR 0xFD]"

definition toy_zstd :: "toy zstd" where
  "toy_zstd =
     \<lparr>maxCLevel = 22,
      compressBound = (\<lambda>n. 2 * n + 5),
      zstd_compress = (\<lambda>cap x level. let e = toy_shead @ stored x @ [CHR 0x00] in if length e \<le> cap then Some e else None),
      getFrameContentSize = (\<lambda>e. case toy_view (Skip 4) e of Whole d \<Rightarrow> Size (length d) | _ \<Rightarrow> CONTENTSIZE_UNKNOWN),
      createDCtx = Some (Skip 4),
      decompressStream = (\<lambda>s c a. case toy_dec s c a of (s', n, out, st) \<Rightarrow>
        (s', n, out, case st of End \<Rightarrow> Some 0 | More \<Rightarrow> Some 1 | Err \<Rightarrow> None)),
      createCCtx = Some (Enc toy_shead False),
      setCompressionLevel = (\<lambda>level s. s),
      compressStream2 = (\<lambda>s fin c a. case toy_enc s fin c a of (s', n, out, st) \<Rightarrow>
        (s', n, out, case st of End \<Rightarrow> Some 0 | More \<Rightarrow> Some 1 | Err \<Rightarrow> None))\<rparr>"

lemma zstep_toy: "zstep toy_zlib = toy_dec"
  by (intro ext) (simp add: zstep_def toy_zlib_def zstatus_def split: prod.splits status.splits)

lemma toy_init: "inflateInit2 toy_zlib wb = Some (Skip 4)"
  by (simp add: toy_zlib_def)

lemma dstep_toy: "dstep toy_zlib = toy_enc"
  by (intro ext) (simp add: dstep_def toy_zlib_def split: prod.splits status.splits)

lemma sstep_toy: "sstep toy_zstd = toy_dec"
  by (intro ext) (simp add: sstep_def toy_zstd_def split: prod.splits status.splits)

lemma cstep_toy: "cstep toy_zstd = toy_enc"
  by (intro ext)
    (auto simp: cstep_def toy_zstd_def toy_enc_def Let_def split: prod.splits status.splits toy.splits if_splits)

section \<open>The decoder\<close>

lemma more_data_cases:
  "more_data x v = Whole d \<longleftrightarrow> (\<exists>d'. v = Whole d' \<and> d = x @ d')"
  "more_data x v = Cut d \<longleftrightarrow> (\<exists>d'. v = Cut d' \<and> d = x @ d')"
  "more_data x v = Bad d \<longleftrightarrow> (\<exists>d'. v = Bad d' \<and> d = x @ d')"
  by (cases v; auto)+

text \<open>One call and the view of it, as a relation between the stream before and after.\<close>

lemma toy_dec_law:
  "toy_dec z c a = (z', n, out, st) \<Longrightarrow>
     n \<le> length c \<and> length out \<le> a \<and>
     (st = End \<longrightarrow> toy_view z (c @ r) = Whole out) \<and>
     (st = Err \<longrightarrow> (\<exists>p b. z = Enc p b) \<and> n = 0 \<and> out = [] \<and> toy_view z (c @ r) = Bad []) \<and>
     (st = More \<longrightarrow> toy_view z (c @ r) = more_data out (toy_view z' (drop n c @ r)) \<and> (length out = a \<or> n = length c))"
proof (induction z c a arbitrary: z' n out st rule: toy_dec.induct)
  case (1 s a)
  then show ?case by (cases "toy_view s r") auto
next
  case (2 k x c a)
  then show ?case by (auto split: prod.splits)
next
  case (3 x c a)
  then show ?case by (auto split: prod.splits if_splits)
next
  case (4 x c a)
  show ?case
  proof (cases "a = 0")
    case True
    then show ?thesis using 4 by (cases "toy_view (Skip 0) (c @ r)") auto
  next
    case False
    obtain s' m out' st' where call: "toy_dec (Skip 0) c (a - 1) = (s', m, out', st')" by (metis prod_cases4)
    have eq: "z' = s'" "n = Suc m" "out = x # out'" "st = st'"
      using 4(2) False call by auto
    from 4(1) [OF False call] show ?thesis
      using False by (cases "toy_view s' (drop m c @ r)") (auto simp: eq)
  qed
qed auto

lemma toy_view_end: "toy_view z [] = Cut []"
  by (cases z) auto

lemma toy_decoder_ok: "decoder_ok toy_dec toy_view"
proof -
  have "n \<le> length c \<and> length out \<le> a \<and>
        (case toy_view z (c @ r) of
           Whole d \<Rightarrow>
             st = End \<and> out = d \<or>
             st = More \<and> (\<exists>d'. d = out @ d' \<and> toy_view z' (drop n c @ r) = Whole d') \<and>
               (length out = a \<or> n = length c \<and> r \<noteq> [])
         | Cut d \<Rightarrow>
             st = More \<and> (\<exists>d'. d = out @ d' \<and> toy_view z' (drop n c @ r) = Cut d') \<and> (length out = a \<or> n = length c) \<or>
             st = Err \<and> n = 0 \<and> out = []
         | Bad d \<Rightarrow>
             (\<exists>d'. d = out @ d' \<and> (st = Err \<or>
               st = More \<and> toy_view z' (drop n c @ r) = Bad d' \<and> (length out = a \<or> n = length c \<and> r \<noteq> []))))"
    if call: "toy_dec z c a = (z', n, out, st)" for z c r a z' n out st
    using toy_dec_law [OF call, of r] toy_view_end [of z']
    by (cases st; cases "toy_view z' (drop n c @ r)"; cases "drop n c @ r = []") auto
  then show ?thesis unfolding decoder_ok_def by blast
qed

lemma toy_ends: "ends_with_input toy_view"
  by (simp add: ends_with_input_def toy_view_end)

lemma toy_view_Cut_Enc: "toy_view (Enc p b) c = Cut d \<Longrightarrow> c = []"
  by (cases c) auto

lemma toy_patient: "patient toy_dec toy_view"
  unfolding patient_def
proof (intro allI impI)
  fix z c a d
  assume "toy_view z c = Cut d"
  then show "snd (snd (snd (toy_dec z c a))) \<noteq> Err"
    using toy_dec_law [of z c a "fst (toy_dec z c a)" "fst (snd (toy_dec z c a))" "fst (snd (snd (toy_dec z c a)))"
        "snd (snd (snd (toy_dec z c a)))" "[]"] by auto
qed

section \<open>The encoder\<close>

lemma stored_simps: "stored [] = []" "stored (b # x) = CHR 0x01 # b # stored x" "stored (x @ y) = stored x @ stored y"
  "length (stored x) = 2 * length x"
  by (simp_all add: stored_def) (induction x, simp_all)

lemma view_stored: "toy_view (Skip 0) (stored x @ c) = more_data x (toy_view (Skip 0) c)"
proof (induction x)
  case Nil
  then show ?case by (cases "toy_view (Skip 0) c") (simp_all add: stored_simps)
next
  case (Cons b x)
  then show ?case by (cases "toy_view (Skip 0) c") (simp_all add: stored_simps)
qed

lemma view_encoding:
  assumes "length h = 4"
  shows "toy_view (Skip 4) (h @ stored x @ [CHR 0x00]) = Whole x"
proof -
  obtain a b c d where "h = [a, b, c, d]"
    using assms by (auto simp: length_Suc_conv numeral_eq_Suc)
  then show ?thesis by (simp add: view_stored numeral_eq_Suc)
qed

fun toy_left :: "toy \<Rightarrow> bool \<Rightarrow> string \<Rightarrow> nat" where
  "toy_left (Enc p done) fin c = length p + 2 * length c + (if done then 0 else 2)"
| "toy_left _ fin c = 0"

definition toy_track :: "string \<Rightarrow> toy \<Rightarrow> string option \<Rightarrow> string \<Rightarrow> string \<Rightarrow> bool" where
  "toy_track h z w p e \<longleftrightarrow>
     (\<exists>q done. z = Enc q done \<and> e @ q = h @ stored p @ (if done then [CHR 0x00] else []) \<and>
        (if done then w = Some [] else w = None))"

lemma toy_encoder_ok:
  assumes "\<And>x. good (h @ stored x @ [CHR 0x00]) x"
  shows "encoder_ok toy_enc (toy_track h) toy_left good"
  unfolding encoder_ok_def
proof (intro allI impI)
  fix z w p e fin c a z' n out st
  assume tr: "toy_track h z w p e" and a: "0 < (a :: nat)" and off: "offers w fin c"
    and call: "toy_enc z fin c a = (z', n, out, st)"
  from tr obtain q d where z: "z = Enc q d" and e: "e @ q = h @ stored p @ (if d then [CHR 0x00] else [])"
    and w: "if d then w = Some [] else w = None"
    by (auto simp: toy_track_def)
  define q2 where "q2 = q @ stored c @ (if fin \<and> \<not> d then [CHR 0x00] else [])"
  have res: "z' = Enc (drop a q2) (d \<or> fin)" "n = length c" "out = take a q2"
    "st = (if fin \<and> drop a q2 = [] then End else More)"
    using call z by (auto simp: toy_enc_def q2_def Let_def)
  have closed: "d \<Longrightarrow> fin \<and> c = []"
    using w off by (auto simp: offers_def)
  then have all: "e @ q2 = h @ stored (p @ c) @ (if d \<or> fin then [CHR 0x00] else [])"
    using e by (cases d) (auto simp: q2_def stored_simps simp flip: append_assoc)
  have "toy_track h z' (if fin then Some (drop n c) else None) (p @ take n c) (e @ out)"
    using all closed by (auto simp: toy_track_def res)
  moreover have "good (e @ out) (p @ c)" if "fin" "drop a q2 = []"
  proof -
    have "out = q2" using that(2) by (simp add: res)
    then show ?thesis using all that(1) assms [of "p @ c"] by simp
  qed
  moreover have "toy_left z' fin (drop n c) < toy_left z fin c" if "fin" "drop a q2 \<noteq> []"
  proof -
    have "length q2 = length q + 2 * length c + (if d then 0 else 1)"
      using that(1) by (simp add: q2_def stored_simps)
    then show ?thesis using that a by (cases d; simp add: res z; arith)
  qed
  ultimately show "n \<le> length c \<and> length out \<le> a \<and> st \<noteq> Err \<and> (st = End \<longrightarrow> fin \<and> good (e @ out) (p @ c)) \<and>
      (st = More \<longrightarrow> toy_track h z' (if fin then Some (drop n c) else None) (p @ take n c) (e @ out) \<and>
        (\<not> fin \<and> n = length c \<or> toy_left z' fin (drop n c) < toy_left z fin c))"
    by (auto simp: res)
qed

lemma toy_track_start: "toy_track h (Enc h False) None [] []"
  unfolding toy_track_def by (intro exI [of _ h] exI [of _ False]) (simp add: stored_simps)

lemma toy_zlib_ok: "zlib_ok toy_zlib (Skip 4) toy_view (\<lambda>gz. toy_track (toy_head gz)) toy_left"
proof -
  have good: "zlib_header gz (toy_head gz @ stored x @ [CHR 0x00]) \<and>
      toy_view (Skip 4) (toy_head gz @ stored x @ [CHR 0x00]) = Whole x" for gz x
    using view_encoding [of "toy_head gz" x] by (simp add: toy_head_def zlib_header_def)
  have one: "snd (snd (snd (toy_enc (Enc (toy_head gz) False) True x (2 * length x + 5)))) = End" for gz x
    by (simp add: toy_enc_def Let_def stored_simps toy_head_def)
  show ?thesis
    unfolding zlib_ok_def
  proof (intro conjI allI)
    fix gz :: bool
    show "encoder_ok (dstep toy_zlib) (toy_track (toy_head gz)) toy_left
        (\<lambda>e x. zlib_header gz e \<and> toy_view (Skip 4) e = Whole x)"
      unfolding dstep_toy by (rule toy_encoder_ok) (rule good)
  next
    fix level and gz :: bool
    have "deflateInit2 toy_zlib level (window_bits gz) = Some (Enc (toy_head gz) False)"
      by (simp add: toy_zlib_def window_bits_def)
    moreover have "deflateBound toy_zlib s n = 2 * n + 5" for s n
      by (simp add: toy_zlib_def)
    ultimately show "\<exists>z0. deflateInit2 toy_zlib level (window_bits gz) = Some z0 \<and>
        toy_track (toy_head gz) z0 None [] [] \<and>
        (\<forall>x. 0 < deflateBound toy_zlib z0 (length x) \<and>
             snd (snd (snd (dstep toy_zlib z0 True x (deflateBound toy_zlib z0 (length x))))) = End)"
      by (simp add: toy_track_start dstep_toy one)
  qed (simp_all add: zstep_toy toy_decoder_ok toy_ends, simp add: toy_zlib_def)
qed

lemma toy_zstd_ok: "zstd_ok toy_zstd (Skip 4) toy_view (toy_track toy_shead) toy_left"
proof -
  have view: "toy_view (Skip 4) (toy_shead @ stored x @ [CHR 0x00]) = Whole x" for x
    using view_encoding [of toy_shead x] by (simp add: toy_shead_def)
  have good: "zstd_header (toy_shead @ stored x @ [CHR 0x00]) \<and>
      toy_view (Skip 4) (toy_shead @ stored x @ [CHR 0x00]) = Whole x" for x
    using view by (simp add: toy_shead_def zstd_header_def)
  show ?thesis
    unfolding zstd_ok_def
  proof (intro conjI allI)
    show "encoder_ok (cstep toy_zstd) (toy_track toy_shead) toy_left
        (\<lambda>e x. zstd_header e \<and> toy_view (Skip 4) e = Whole x)"
      unfolding cstep_toy by (rule toy_encoder_ok) (rule good)
  next
    fix x and l :: int
    have "zstd_compress toy_zstd (compressBound toy_zstd (length x)) x l = Some (toy_shead @ stored x @ [CHR 0x00])"
      and "getFrameContentSize toy_zstd (toy_shead @ stored x @ [CHR 0x00]) = Size (length x)"
      and "length (toy_shead @ stored x @ [CHR 0x00]) \<le> compressBound toy_zstd (length x)"
      using view [of x] by (simp_all add: toy_zstd_def stored_simps toy_shead_def Let_def)
    then show "\<exists>e. zstd_compress toy_zstd (compressBound toy_zstd (length x)) x l = Some e \<and>
        length e \<le> compressBound toy_zstd (length x) \<and> zstd_header e \<and> toy_view (Skip 4) e = Whole x \<and>
        getFrameContentSize toy_zstd e = Size (length x)"
      using good by blast
  qed (simp_all add: sstep_toy toy_decoder_ok toy_ends, simp_all add: toy_zstd_def toy_track_start)
qed


section \<open>A bomb\<close>

text \<open>A format in which the first byte stands for 4 GiB of zeros.\<close>

definition GIB4 :: nat where
  "GIB4 = 2 ^ 32"

fun bomb_dec :: "nat option \<Rightarrow> string \<Rightarrow> nat \<Rightarrow> nat option call" where
  "bomb_dec (Some k) c a =
     (if k \<le> a then (Some 0, 0, replicate k (CHR 0x00), End) else (Some (k - a), 0, replicate a (CHR 0x00), More))"
| "bomb_dec None [] a = (None, 0, [], More)"
| "bomb_dec None (x # c) a =
     (if GIB4 \<le> a then (Some 0, 1, replicate GIB4 (CHR 0x00), End)
      else (Some (GIB4 - a), 1, replicate a (CHR 0x00), More))"

fun bomb_view :: "nat option \<Rightarrow> string \<Rightarrow> stream" where
  "bomb_view (Some k) c = Whole (replicate k (CHR 0x00))"
| "bomb_view None [] = Cut []"
| "bomb_view None (x # c) = Whole (replicate GIB4 (CHR 0x00))"

definition bomb_zlib :: "nat option zlib" where
  "bomb_zlib = \<lparr>deflateInit2 = (\<lambda>_ _. None), deflateBound = (\<lambda>_ _. 0), deflate = (\<lambda>s _ _ _. (s, 0, [], Z_DATA_ERROR)),
     inflateInit2 = (\<lambda>_. Some None),
     inflate = (\<lambda>s c a. case bomb_dec s c a of (s', n, out, st) \<Rightarrow>
        (s', n, out, if st = End then Z_STREAM_END else Z_OK))\<rparr>"

definition bomb_zstd :: "nat option zstd" where
  "bomb_zstd = \<lparr>maxCLevel = 22, compressBound = (\<lambda>_. 0), zstd_compress = (\<lambda>_ _ _. None),
     getFrameContentSize = (\<lambda>_. CONTENTSIZE_UNKNOWN), createDCtx = Some None,
     decompressStream = (\<lambda>s c a. case bomb_dec s c a of (s', n, out, st) \<Rightarrow>
        (s', n, out, Some (if st = End then 0 else 1))),
     createCCtx = None, setCompressionLevel = (\<lambda>_ s. s), compressStream2 = (\<lambda>s _ _ _. (s, 0, [], None))\<rparr>"

lemma bomb_status: "bomb_dec s c a = (s', n, out, st) \<Longrightarrow> st = End \<or> st = More"
  by (cases "(s, c, a)" rule: bomb_dec.cases) (auto split: if_splits)

lemma zstep_bomb: "zstep bomb_zlib = bomb_dec"
  by (intro ext) (auto simp: zstep_def bomb_zlib_def zstatus_def split: prod.splits dest: bomb_status)

lemma sstep_bomb: "sstep bomb_zstd = bomb_dec"
  by (intro ext) (auto simp: sstep_def bomb_zstd_def split: prod.splits dest: bomb_status)

lemma bomb_init: "inflateInit2 bomb_zlib wb = Some None" "createDCtx bomb_zstd = Some None"
  by (simp_all add: bomb_zlib_def bomb_zstd_def)

lemma replicate_split: "a \<le> k \<Longrightarrow> replicate k x = replicate a x @ replicate (k - a) x"
  by (simp flip: replicate_add)

lemma bomb_decoder_ok: "decoder_ok bomb_dec bomb_view"
proof -
  have "n \<le> length c \<and> length out \<le> a \<and>
        (case bomb_view z (c @ r) of
           Whole d \<Rightarrow>
             st = End \<and> out = d \<or>
             st = More \<and> (\<exists>d'. d = out @ d' \<and> bomb_view z' (drop n c @ r) = Whole d') \<and>
               (length out = a \<or> n = length c \<and> r \<noteq> [])
         | Cut d \<Rightarrow>
             st = More \<and> (\<exists>d'. d = out @ d' \<and> bomb_view z' (drop n c @ r) = Cut d') \<and> (length out = a \<or> n = length c) \<or>
             st = Err \<and> n = 0 \<and> out = []
         | Bad d \<Rightarrow>
             (\<exists>d'. d = out @ d' \<and> (st = Err \<or>
               st = More \<and> bomb_view z' (drop n c @ r) = Bad d' \<and> (length out = a \<or> n = length c \<and> r \<noteq> []))))"
    if "bomb_dec z c a = (z', n, out, st)" for z c r a z' n out st
  proof (cases z)
    case (Some k)
    then show ?thesis
      using that replicate_split [of a k "CHR 0x00"] by (auto split: if_splits)
  next
    case None
    note z = this
    show ?thesis
    proof (cases c)
      case Nil
      then show ?thesis using that z by (cases r) auto
    next
      case (Cons x c')
      then show ?thesis
        using that z replicate_split [of a GIB4 "CHR 0x00"] by (auto split: if_splits)
    qed
  qed
  then show ?thesis unfolding decoder_ok_def by blast
qed

end
