(* ===== verification/CompressCorrect.thy ===== *)
theory CompressCorrect
  imports CompressDemo
begin

text \<open>
  The COMPRESS operations over any zlib and libzstd that keep their contracts: round trips of buffers
  and of files, what happens to damaged, cut off and oversized streams and to a file compressed onto
  itself.  A small pair of libraries, which store instead of compressing, meets both contracts.
\<close>

section \<open>Operations\<close>

lemma zlib_okD:
  assumes "zlib_ok zl s0 view track left"
  shows "decoder_ok (zstep zl) view" and "ends_with_input view" and "inflateInit2 zl 47 = Some s0"
    and "encoder_ok (dstep zl) (track gz) left (\<lambda>e x. zlib_header gz e \<and> view s0 e = Whole x)"
    and "\<exists>z0. deflateInit2 zl level (window_bits gz) = Some z0 \<and> track gz z0 None [] [] \<and>
        (\<forall>x. 0 < deflateBound zl z0 (length x) \<and>
             snd (snd (snd (dstep zl z0 True x (deflateBound zl z0 (length x))))) = End)"
  using assms unfolding zlib_ok_def by blast+

lemma zstd_okD:
  assumes "zstd_ok zs d0 view track left"
  shows "decoder_ok (sstep zs) view" and "ends_with_input view" and "createDCtx zs = Some d0"
    and "encoder_ok (cstep zs) track left (\<lambda>e x. zstd_header e \<and> view d0 e = Whole x)"
    and "\<exists>c0. createCCtx zs = Some c0 \<and> (\<forall>l. track (setCompressionLevel zs l c0) None [] [])"
    and "\<exists>e. zstd_compress zs (compressBound zs (length x)) x l = Some e \<and>
        length e \<le> compressBound zs (length x) \<and> zstd_header e \<and> view d0 e = Whole x \<and>
        getFrameContentSize zs e = Size (length x)"
  using assms unfolding zstd_ok_def by blast+

text \<open>Recognition of what the libraries write.\<close>

lemma detect_zlib:
  "zlib_header gz e \<Longrightarrow>
     compress_detect (Some e) (Some a) = (0, Some (if gz then HW_COMPRESS_ALGO_GZIP else HW_COMPRESS_ALGO_ZLIB))"
  by (auto simp: zlib_header_def compress_detect_def split: if_splits)

lemma detect_zstd: "zstd_header e \<Longrightarrow> compress_detect (Some e) (Some a) = (0, Some HW_COMPRESS_ALGO_ZSTD)"
  by (simp add: zstd_header_def compress_detect_def)

lemma header_prefix:
  "zlib_header gz e \<Longrightarrow> zlib_header gz (take 16 e)" "zstd_header e \<Longrightarrow> zstd_header (take 16 e)"
  by (auto simp: zlib_header_def zstd_header_def split: if_splits)

lemma buf_compress_zlib_good:
  assumes ok: "zlib_ok zl s0 view track left" and b: "\<And>z. deflateBound zl z (length x) < 2 ^ 30"
  obtains e where "buf_compress_zlib zl [] gz level x = Inr e" and "zlib_header gz e"
    and "view s0 e = Whole x" and "length e < 2 ^ 30"
proof -
  obtain z0 where z: "deflateInit2 zl (zlib_level level) (window_bits gz) = Some z0" "track gz z0 None [] []"
    and bound: "0 < deflateBound zl z0 (length x)"
      "snd (snd (snd (dstep zl z0 True x (deflateBound zl z0 (length x))))) = End"
    using zlib_okD(5) [OF ok, of "zlib_level level" gz] by blast
  define a where "a = deflateBound zl z0 (length x)"
  obtain z' n e rc where d: "deflate zl z0 Z_FINISH x a = (z', n, e, rc)" by (metis prod_cases4)
  then have call: "dstep zl z0 True x a = (z', n, e, End)" and rc: "rc = Z_STREAM_END"
    using bound(2) by (auto simp: dstep_def a_def split: if_splits)
  have law: "length e \<le> a \<and> zlib_header gz e \<and> view s0 e = Whole x"
    using zlib_okD(4) [OF ok, unfolded encoder_ok_def, rule_format, OF z(2) _ _ call] bound(1)
    by (simp add: offers_def a_def)
  show thesis
    by (rule that [of e]) (use z d rc law b [of z0] in \<open>auto simp: buf_compress_zlib_def a_def\<close>)
qed

lemma buf_decompress_zlib_whole:
  assumes ok: "zlib_ok zl s0 view track left" and "view s0 e = Whole x" and "length e < 2 ^ 30" and "length x < 2 ^ 31"
  shows "buf_decompress_zlib zl [] e = Some (Ret (Inr x))"
proof -
  obtain cap where "0 < unat cap" and eq: "buf_decompress_zlib zl [] e = inflate_loop zl [] s0 e [] cap (unat cap)"
    using buf_decompress_zlib_loop [OF zlib_okD(3) [OF ok] assms(3)] .
  then show ?thesis
    using inflate_loop_whole [OF zlib_okD(1) [OF ok] assms(2), of cap "[]" "unat cap"] assms(4) by simp
qed

lemma buf_decompress_zstd_whole:
  assumes ok: "zstd_ok zs d0 view track left" and "view d0 e = Whole x" and "length e < 2 ^ 30" and "length x < 2 ^ 31"
    and sz: "getFrameContentSize zs e = Size (length x)"
  shows "buf_decompress_zstd zs [] e = Some (Ret (Inr x))"
proof -
  have "0 < unat (zstd_capacity zs e)"
  proof (cases "x = []")
    case True
    then show ?thesis using sz zstd_default_capacity [OF assms(3)] by (simp add: zstd_capacity_def Let_def)
  next
    case False
    have "unat (of_nat (length x) :: 32 word) = length x"
      using assms(4) by (simp add: unat_of_nat)
    then show ?thesis using sz False by (simp add: zstd_capacity_def Let_def)
  qed
  then show ?thesis
    using zstd_loop_whole [OF zstd_okD(1) [OF ok] assms(2), of "[]" "zstd_capacity zs e"] assms(4) zstd_okD(3) [OF ok]
    by (simp add: buf_decompress_zstd_def)
qed

section \<open>Buffers\<close>

text \<open>
  C10. A compressed buffer is recognised by its header and decompressed to the original, for each of the
  linked algorithms and the default one, up to a gigabyte.
\<close>

theorem compress_buffer_roundtrip:
  assumes zl: "zlib_ok zl s0 view track left" and zs: "zstd_ok zs d0 view' track' left'"
    and algo: "algo \<in> {HW_COMPRESS_ALGO_AUTO, HW_COMPRESS_ALGO_ZLIB, HW_COMPRESS_ALGO_GZIP, HW_COMPRESS_ALGO_ZSTD}"
    and x: "length x < 2 ^ 30" and b: "\<And>z. deflateBound zl z (length x) < 2 ^ 30" "compressBound zs (length x) < 2 ^ 30"
  shows "\<exists>e algo'. compress_buffer zl zs [] algo level (Some x) (Some r) = (0, Some (filled algo' x e)) \<and>
     algo' = (if algo = HW_COMPRESS_ALGO_AUTO then HW_COMPRESS_ALGO_ZSTD else algo) \<and>
     compress_decompress zl zs [] HW_COMPRESS_ALGO_AUTO (Some e) (Some r') = Some (Ret (0, Some (filled algo' e x)))"
proof -
  have gz: ?thesis if "algo = (if gz then HW_COMPRESS_ALGO_GZIP else HW_COMPRESS_ALGO_ZLIB)" for gz
  proof -
    obtain e where e: "buf_compress_zlib zl [] gz level x = Inr e" "zlib_header gz e" "view s0 e = Whole x" "length e < 2 ^ 30"
      using buf_compress_zlib_good [OF zl b(1)] .
    have "buf_decompress_zlib zl [] e = Some (Ret (Inr x))"
      using buf_decompress_zlib_whole [OF zl e(3,4)] x by simp
    then show ?thesis
      using e(1) that by (intro exI [of _ e] exI [of _ algo])
        (auto simp: compress_buffer_def compress_decompress_def Let_def detect_zlib [OF e(2)])
  qed
  have zst: ?thesis if "algo = HW_COMPRESS_ALGO_ZSTD \<or> algo = HW_COMPRESS_ALGO_AUTO"
  proof -
    obtain e where e: "buf_compress_zstd zs [] level x = Inr e" "length e \<le> compressBound zs (length x)"
        "zstd_header e" "view' d0 e = Whole x" "getFrameContentSize zs e = Size (length x)"
      using zstd_okD(6) [OF zs, of x "zstd_level (maxCLevel zs) level"] by (auto simp: buf_compress_zstd_def)
    have "buf_decompress_zstd zs [] e = Some (Ret (Inr x))"
      using buf_decompress_zstd_whole [OF zs e(4) _ _ e(5)] e(2) b(2) x by simp
    then show ?thesis
      using e(1) that by (intro exI [of _ e] exI [of _ HW_COMPRESS_ALGO_ZSTD])
        (auto simp: compress_buffer_def compress_decompress_def Let_def detect_zstd [OF e(3)])
  qed
  show ?thesis
    using algo gz [of True] gz [of False] zst by auto
qed


theorem compress_buffer_roundtrip_witness:
  "\<exists>e algo'. compress_buffer toy_zlib toy_zstd [] HW_COMPRESS_ALGO_GZIP HW_COMPRESS_LEVEL_BEST (Some ''hello'') (Some result0) =
       (0, Some (filled algo' ''hello'' e)) \<and>
     algo' = (if HW_COMPRESS_ALGO_GZIP = HW_COMPRESS_ALGO_AUTO then HW_COMPRESS_ALGO_ZSTD else HW_COMPRESS_ALGO_GZIP) \<and>
     compress_decompress toy_zlib toy_zstd [] HW_COMPRESS_ALGO_AUTO (Some e) (Some result0) =
       Some (Ret (0, Some (filled algo' e ''hello'')))"
  by (rule compress_buffer_roundtrip [OF toy_zlib_ok toy_zstd_ok]) (simp_all add: toy_zlib_def toy_zstd_def)

section \<open>Files\<close>

text \<open>A file in the format of the algorithm that holds \<open>x\<close>.\<close>

definition encoded ::
  "'z \<Rightarrow> ('z \<Rightarrow> string \<Rightarrow> stream) \<Rightarrow> 'c \<Rightarrow> ('c \<Rightarrow> string \<Rightarrow> stream) \<Rightarrow> int \<Rightarrow> string \<Rightarrow> string \<Rightarrow> bool" where
  "encoded s0 view d0 view' algo e x \<longleftrightarrow>
     (\<exists>gz. algo = (if gz then HW_COMPRESS_ALGO_GZIP else HW_COMPRESS_ALGO_ZLIB) \<and> zlib_header gz e \<and> view s0 e = Whole x) \<or>
     algo = HW_COMPRESS_ALGO_ZSTD \<and> zstd_header e \<and> view' d0 e = Whole x"

lemma compress_stream:
  assumes zl: "zlib_ok zl s0 view track left" and zs: "zstd_ok zs d0 view' track' left'"
    and algo: "algo \<in> {HW_COMPRESS_ALGO_AUTO, HW_COMPRESS_ALGO_ZLIB, HW_COMPRESS_ALGO_GZIP, HW_COMPRESS_ALGO_ZSTD}"
  obtains algo' r where "impl_stream zl zs room True algo level x = Some (algo', r)"
    and "algo' = (if algo = HW_COMPRESS_ALGO_AUTO then HW_COMPRESS_ALGO_ZSTD else algo)"
    and "case r of Inl e \<Rightarrow> e = EIO | Inr e \<Rightarrow> encoded s0 view d0 view' algo' e x"
proof (cases "algo = HW_COMPRESS_ALGO_ZLIB \<or> algo = HW_COMPRESS_ALGO_GZIP")
  case True
  then obtain gz where gz: "algo = (if gz then HW_COMPRESS_ALGO_GZIP else HW_COMPRESS_ALGO_ZLIB)"
    by (metis (full_types))
  obtain z0 where z: "deflateInit2 zl (zlib_level level) (window_bits gz) = Some z0" "track gz z0 None [] []"
    using zlib_okD(5) [OF zl, of "zlib_level level" gz] by blast
  from deflate_file_done [OF zlib_okD(4) [OF zl] z(2), of room x, unfolded append_Nil]
  obtain r where r: "deflate_file zl room False z0 x [] = Some r"
    "case r of Inl e \<Rightarrow> e = EIO | Inr e \<Rightarrow> zlib_header gz e \<and> view s0 e = Whole x" by auto
  have flags: "(algo = HW_COMPRESS_ALGO_GZIP) = gz" "algo \<noteq> HW_COMPRESS_ALGO_AUTO"
    using gz by auto
  show thesis
  proof (rule that [of algo r], goal_cases)
    case 1
    show ?case using True flags r(1) z(1) by (simp add: impl_stream_def Let_def file_compress_zlib_def)
  next
    case 2
    show ?case using flags(2) by simp
  next
    case 3
    show ?case using r(2) gz by (cases r; cases gz) (auto simp: encoded_def)
  qed
next
  case False
  obtain c0 where c: "createCCtx zs = Some c0" "\<And>l. track' (setCompressionLevel zs l c0) None [] []"
    using zstd_okD(5) [OF zs] by blast
  from zstd_file_done [OF zstd_okD(4) [OF zs] c(2) [of "zstd_level (maxCLevel zs) level"], of room x, unfolded append_Nil]
  obtain r where r: "zstd_file zs room (setCompressionLevel zs (zstd_level (maxCLevel zs) level) c0) x [] = Some r"
    "case r of Inl e \<Rightarrow> e = EIO | Inr e \<Rightarrow> zstd_header e \<and> view' d0 e = Whole x" by auto
  have dflt: "algo = HW_COMPRESS_ALGO_AUTO \<or> algo = HW_COMPRESS_ALGO_ZSTD"
    using False algo by auto
  show thesis
  proof (rule that [of HW_COMPRESS_ALGO_ZSTD r], goal_cases)
    case 1
    show ?case using dflt r(1) c(1) by (auto simp: impl_stream_def Let_def file_compress_zstd_def)
  next
    case 2
    show ?case using dflt by auto
  next
    case 3
    show ?case using r(2) by (cases r) (simp_all add: encoded_def)
  qed
qed

lemma decompress_stream:
  assumes zl: "zlib_ok zl s0 view track left" and zs: "zstd_ok zs d0 view' track' left'"
    and e: "encoded s0 view d0 view' algo e x" and room: "length x \<le> room"
  shows "impl_stream zl zs room False HW_COMPRESS_ALGO_AUTO level e = Some (algo, Inr x)"
  using e unfolding encoded_def
proof
  assume "\<exists>gz. algo = (if gz then HW_COMPRESS_ALGO_GZIP else HW_COMPRESS_ALGO_ZLIB) \<and> zlib_header gz e \<and> view s0 e = Whole x"
  then obtain gz where gz: "algo = (if gz then HW_COMPRESS_ALGO_GZIP else HW_COMPRESS_ALGO_ZLIB)"
    "zlib_header gz e" "view s0 e = Whole x" by blast
  then have "inflate_file zl room s0 [] False e [] = Some (Inr x)"
    using inflate_file_verdict [OF zlib_okD(1,2) [OF zl], of False e "[]" s0 "[]" room] room by simp
  then show ?thesis
    using gz zlib_okD(3) [OF zl]
    by (simp add: impl_stream_def Let_def detect_zlib [OF header_prefix(1) [OF gz(2)]] file_decompress_zlib_def)
next
  assume z: "algo = HW_COMPRESS_ALGO_ZSTD \<and> zstd_header e \<and> view' d0 e = Whole x"
  then have "unzstd_file zs room d0 [] e [] = Some (Inr x)"
    using unzstd_file_verdict [OF zstd_okD(1,2) [OF zs], of "[]" d0 "[]" e room] room by simp
  then show ?thesis
    using z zstd_okD(3) [OF zs]
    by (simp add: impl_stream_def Let_def detect_zstd [OF header_prefix(2)] file_decompress_zstd_def)
qed

text \<open>
  C11. With any zlib and libzstd that keep their contracts, compressing a file to another path, where both can be
  opened, always ends.  It fails for want of space or when the output cannot be closed,
  and leaves no output; or it succeeds, and then decompressing the output with automatic recognition, where there
  is space and nothing fails, gives a file with the bytes that could be read of the original, with the same
  algorithm reported and the length of the output.  The bytes that could be read are the whole file unless reading
  fails; then they are the part before the failure, which the operation does not report.
\<close>

theorem compress_file_roundtrip:
  assumes zl: "zlib_ok zl s0 view track left" and zs: "zstd_ok zs d0 view' track' left'"
    and algo: "fr_algo req \<in> {HW_COMPRESS_ALGO_AUTO, HW_COMPRESS_ALGO_ZLIB, HW_COMPRESS_ALGO_GZIP, HW_COMPRESS_ALGO_ZSTD}"
    and x: "fs (input_path req) = Some x" and ne: "output_path req \<noteq> input_path req"
    and io: "open_in io = 0" "open_out io = 0"
  shows "\<exists>rc resp fs'. ops_compress_file zl zs io req fs = Some (rc, resp, fs') \<and>
     (rc = EIO \<and> fs' = fs(output_path req := None) \<or>
      rc = 0 \<and> (\<exists>a n. resp = Some \<lparr>rs_orig_len = length x, rs_result_len = n, rs_algo = a\<rparr> \<and>
        (\<forall>p keep level io'. p \<noteq> output_path req \<longrightarrow>
           open_in io' = 0 \<and> open_out io' = 0 \<and> read_fail io' = None \<and> length x \<le> out_room io' \<and> close_ok io' \<longrightarrow>
           (\<exists>fs''. ops_decompress_file zl zs io'
              \<lparr>input_path = output_path req, output_path = p, fr_algo = HW_COMPRESS_ALGO_AUTO, fr_level = level,
               keep_original = keep\<rparr> fs' =
              Some (0, Some \<lparr>rs_orig_len = length (readable io x), rs_result_len = n, rs_algo = a\<rparr>, fs'') \<and>
              fs'' p = Some (readable io x)))))"
proof -
  obtain a r where st: "impl_stream zl zs (out_room io) True (fr_algo req) (fr_level req) (readable io x) = Some (a, r)"
    and r: "case r of Inl e \<Rightarrow> e = EIO | Inr e \<Rightarrow> encoded s0 view d0 view' a e (readable io x)"
    using compress_stream [OF zl zs algo] .
  have len: "length (readable io x) \<le> length x" by (simp add: readable_def split: option.split)
  note run = ops_compress_file_def impl_file_def Let_def
  show ?thesis
  proof (cases "(\<exists>e. r = Inl e) \<or> \<not> close_ok io")
    case True
    then show ?thesis using st r x ne io by (auto simp: run split: sum.splits)
  next
    case False
    then obtain e where e: "r = Inr e" "close_ok io" by (cases r) auto
    then have enc: "encoded s0 view d0 view' a e (readable io x)" using r by simp
    have dec: "impl_stream zl zs (out_room io') False HW_COMPRESS_ALGO_AUTO level (readable io' e) =
        Some (a, Inr (readable io x))"
      if "length x \<le> out_room io'" "read_fail io' = None" for io' level
    proof -
      have "length (readable io x) \<le> out_room io'" using len that(1) by simp
      from decompress_stream [OF zl zs enc this] show ?thesis using that(2) by (simp add: readable_def)
    qed
    show ?thesis
      using st e x ne io by (auto simp: run ops_decompress_file_def dec)
  qed
qed

definition good_disk :: file_io where
  "good_disk = \<lparr>open_in = 0, open_out = 0, read_fail = None, out_room = 1000, close_ok = True\<rparr>"

definition demo_req :: "int \<Rightarrow> string \<Rightarrow> string \<Rightarrow> hw_compress_file_req" where
  "demo_req algo i p = \<lparr>input_path = i, output_path = p, fr_algo = algo, fr_level = 2, keep_original = True\<rparr>"

theorem compress_file_roundtrip_witness:
  "\<exists>rc resp fs'. ops_compress_file toy_zlib toy_zstd good_disk (demo_req 0 ''/a'' ''/b'') [''/a'' \<mapsto> ''hello''] = Some (rc, resp, fs') \<and>
     (rc = EIO \<and> fs' = [''/a'' \<mapsto> ''hello''](''/b'' := None) \<or>
      rc = 0 \<and> (\<exists>a n. resp = Some \<lparr>rs_orig_len = 5, rs_result_len = n, rs_algo = a\<rparr>))"
  using compress_file_roundtrip [OF toy_zlib_ok toy_zstd_ok, of "demo_req 0 ''/a'' ''/b''" "[''/a'' \<mapsto> ''hello'']" "''hello''" good_disk]
  by (auto simp: demo_req_def good_disk_def)

text \<open>
  A read error in the middle of the input is taken for its end: the operation reports success with the length of
  the whole file, the output holds only the part before the error, and the original is removed.
\<close>

theorem compress_read_error_unnoticed:
  assumes zl: "zlib_ok zl s0 view track left" and zs: "zstd_ok zs d0 view' track' left'"
    and x: "fs (input_path req) = Some x" and ne: "output_path req \<noteq> input_path req"
    and io: "open_in io = 0" "open_out io = 0" "close_ok io" "read_fail io = Some k" and keep: "\<not> keep_original req"
    and part: "ops_compress_file zl zs (io\<lparr>read_fail := None\<rparr>) req (fs(input_path req \<mapsto> take k x)) = Some (0, Some resp, fs')"
  shows "ops_compress_file zl zs io req fs = Some (0, Some (resp\<lparr>rs_orig_len := length x\<rparr>), fs') \<and> fs' (input_path req) = None"
proof -
  note run = ops_compress_file_def impl_file_def Let_def readable_def
  obtain a out where st: "impl_stream zl zs (out_room io) True (fr_algo req) (fr_level req) (take k x) = Some (a, Inr out)"
    and r: "resp = \<lparr>rs_orig_len = length (take k x), rs_result_len = length out, rs_algo = a\<rparr>"
      "fs' = (fs(input_path req \<mapsto> take k x))(output_path req \<mapsto> out, input_path req := None)"
  proof -
    have o: "map_option (\<lambda>(algo, r). case r of
        Inl e \<Rightarrow> (e, None, fs(input_path req \<mapsto> take k x, output_path req := None))
      | Inr out \<Rightarrow> (0, Some \<lparr>rs_orig_len = length (take k x), rs_result_len = length out, rs_algo = algo\<rparr>,
          fs(input_path req \<mapsto> take k x, output_path req \<mapsto> out, input_path req := None)))
      (impl_stream zl zs (out_room io) True (fr_algo req) (fr_level req) (take k x)) = Some (0, Some resp, fs')"
      using part io ne keep by (simp add: run del: length_take cong: sum.case_cong)
    then obtain a b where b: "impl_stream zl zs (out_room io) True (fr_algo req) (fr_level req) (take k x) = Some (a, b)"
      by auto
    show thesis
    proof (cases b)
      case (Inl e)
      then show ?thesis using o b by simp
    next
      case (Inr out)
      then show ?thesis using o b by (intro that [of a out]) (simp_all del: length_take)
    qed
  qed
  have "fs' = fs(output_path req \<mapsto> out, input_path req := None)" using r(2) by auto
  with st r(1) show ?thesis using x ne io keep by (simp add: run)
qed

lemma toy_stream: "\<exists>e. impl_stream toy_zlib toy_zstd 1000 True HW_COMPRESS_ALGO_GZIP l ''he'' = Some (HW_COMPRESS_ALGO_GZIP, Inr e)"
proof -
  have d: "deflate toy_zlib (Enc (toy_head True) False) Z_FINISH ''he'' CHUNK =
      (Enc [] True, 2, toy_head True @ stored ''he'' @ [CHR 0x00], Z_STREAM_END)"
    by (simp add: toy_zlib_def toy_enc_def toy_head_def stored_def Let_def)
  have "length (toy_head True @ stored ''he'' @ [CHR 0x00]) \<le> 1000" by (simp add: toy_head_def stored_def)
  then have "deflate_chunk toy_zlib 1000 True (Enc (toy_head True) False) ''he'' [] =
      Some (Leave (Inr (toy_head True @ stored ''he'' @ [CHR 0x00])))"
    by (subst deflate_chunk.simps) (simp only: d if_True prod.case append_Nil, simp)
  then have "deflate_file toy_zlib 1000 False (Enc (toy_head True) False) ''he'' [] =
      Some (Inr (toy_head True @ stored ''he'' @ [CHR 0x00]))"
    by (subst deflate_file.simps) simp
  then show ?thesis
    by (simp add: impl_stream_def Let_def file_compress_zlib_def toy_zlib_def window_bits_def)
qed

theorem compress_read_error_unnoticed_witness:
  "\<exists>resp fs'. ops_compress_file toy_zlib toy_zstd (good_disk\<lparr>read_fail := Some 2\<rparr>) ((demo_req HW_COMPRESS_ALGO_GZIP ''/a'' ''/b'')\<lparr>keep_original := False\<rparr>)
     [''/a'' \<mapsto> ''hello''] = Some (0, Some (resp\<lparr>rs_orig_len := 5\<rparr>), fs') \<and> fs' ''/a'' = None"
proof -
  let ?req = "(demo_req HW_COMPRESS_ALGO_GZIP ''/a'' ''/b'')\<lparr>keep_original := False\<rparr>"
  let ?io = "good_disk\<lparr>read_fail := Some 2\<rparr>" and ?fs = "[''/a'' \<mapsto> ''hello''](''/a'' \<mapsto> take 2 ''hello'')"
  obtain resp fs' where part: "ops_compress_file toy_zlib toy_zstd (?io\<lparr>read_fail := None\<rparr>) ?req ?fs = Some (0, Some resp, fs')"
    using toy_stream [of 2] by (auto simp: ops_compress_file_def impl_file_def demo_req_def good_disk_def readable_def Let_def)
  have "?req\<lparr>keep_original := False\<rparr> = ?req" "input_path ?req = ''/a''" "output_path ?req = ''/b''" "length ''hello'' = 5"
    by (simp_all add: demo_req_def)
  moreover have "open_in ?io = 0" "open_out ?io = 0" "close_ok ?io" "read_fail ?io = Some 2" "\<not> keep_original ?req"
    by (simp_all add: good_disk_def)
  moreover have "[''/a'' \<mapsto> ''hello''] ''/a'' = Some ''hello''" "''/b'' \<noteq> ''/a''" by simp_all
  ultimately show ?thesis
    using compress_read_error_unnoticed [OF toy_zlib_ok toy_zstd_ok, of "[''/a'' \<mapsto> ''hello'']" ?req "''hello''" ?io 2 resp fs'] part
    by metis
qed

text \<open>
  C15. For the formats of zlib and any zlib that keeps its contract: decompressing a file to another path, with the
  original kept, files that open and a disk that takes what is decoded, ends with the contents of a complete stream,
  and with an error and no output for a stream that is damaged or cut off; the stream is what could be read of the
  file, which is all of it unless reading fails.  For a stream of less than 2 to the 30 bytes with contents of less than 2 to the 31,
  the buffer operation gives the same verdicts except on a stream that is cut off, where it never returns; for
  larger contents it may leave its buffer, as \<open>decompress_oversized_faults\<close> says.
\<close>

theorem decompress_verdicts:
  assumes "decoder_ok (zstep zl) view" and "ends_with_input view" and "patient (zstep zl) view"
    and "inflateInit2 zl 47 = Some s0" and "algo \<in> {HW_COMPRESS_ALGO_ZLIB, HW_COMPRESS_ALGO_GZIP}"
  shows "(fs (input_path req) = Some e \<and> output_path req \<noteq> input_path req \<and> fr_algo req = algo \<and> keep_original req \<and>
       open_in io = 0 \<and> open_out io = 0 \<and> close_ok io \<and> length (data_of (view s0 (readable io e))) \<le> out_room io \<longrightarrow>
       ops_decompress_file zl zs io req fs =
        (case verdict [] (view s0 (readable io e)) of
           Inl rc \<Rightarrow> Some (rc, None, fs(output_path req := None))
         | Inr x \<Rightarrow> Some (0, Some \<lparr>rs_orig_len = length x, rs_result_len = length e, rs_algo = algo\<rparr>, fs(output_path req \<mapsto> x)))) \<and>
     (length e < 2 ^ 30 \<and> length (data_of (view s0 e)) < 2 ^ 31 \<longrightarrow>
       compress_decompress zl zs [] algo (Some e) (Some r) =
        (case view s0 e of
           Whole x \<Rightarrow> Some (Ret (0, Some (filled algo e x)))
         | Bad x \<Rightarrow> Some (Ret (EILSEQ, Some result0))
         | Cut x \<Rightarrow> None))"
proof (intro conjI impI; elim conjE)
  assume x: "fs (input_path req) = Some e" "output_path req \<noteq> input_path req" "fr_algo req = algo" "keep_original req"
    and io: "open_in io = 0" "open_out io = 0" "close_ok io" "length (data_of (view s0 (readable io e))) \<le> out_room io"
  have "inflate_file zl (out_room io) s0 [] False (readable io e) [] = Some (verdict [] (view s0 (readable io e)))"
    using inflate_file_verdict [OF assms(1,2), of False "readable io e" "[]" s0 "[]" "out_room io"] io(4) by simp
  then have "impl_stream zl zs (out_room io) False (fr_algo req) (fr_level req) (readable io e) =
      Some (algo, verdict [] (view s0 (readable io e)))"
    using assms(4,5) x(3) by (auto simp: impl_stream_def Let_def file_decompress_zlib_def)
  then show "ops_decompress_file zl zs io req fs =
      (case verdict [] (view s0 (readable io e)) of
         Inl rc \<Rightarrow> Some (rc, None, fs(output_path req := None))
       | Inr x \<Rightarrow> Some (0, Some \<lparr>rs_orig_len = length x, rs_result_len = length e, rs_algo = algo\<rparr>, fs(output_path req \<mapsto> x)))"
    using x io by (cases "view s0 (readable io e)") (simp_all add: ops_decompress_file_def impl_file_def Let_def)
next
  assume e: "length e < 2 ^ 30" "length (data_of (view s0 e)) < 2 ^ 31"
  obtain cap where c: "0 < unat cap" and eq: "buf_decompress_zlib zl [] e = inflate_loop zl [] s0 e [] cap (unat cap)"
    using buf_decompress_zlib_loop [OF assms(4) e(1)] .
  have "buf_decompress_zlib zl [] e =
      (case view s0 e of Whole x \<Rightarrow> Some (Ret (Inr x)) | Bad x \<Rightarrow> Some (Ret (Inl EILSEQ)) | Cut x \<Rightarrow> None)"
  proof (cases "view s0 e")
    case (Whole x)
    then show ?thesis
      using inflate_loop_whole [OF assms(1) Whole, of cap "[]" "unat cap"] c eq e(2) by simp
  next
    case (Cut x)
    then show ?thesis
      using inflate_loop_cut [OF assms(1,3) Cut, of cap "[]" "unat cap"] c eq e(2) by simp
  next
    case (Bad x)
    then show ?thesis
      using inflate_loop_bad [OF assms(1) Bad, of cap "[]" "unat cap"] c eq e(2) by simp
  qed
  then show "compress_decompress zl zs [] algo (Some e) (Some r) =
      (case view s0 e of
         Whole x \<Rightarrow> Some (Ret (0, Some (filled algo e x)))
       | Bad x \<Rightarrow> Some (Ret (EILSEQ, Some result0))
       | Cut x \<Rightarrow> None)"
    using assms(5) by (cases "view s0 e") (auto simp: compress_decompress_def Let_def)
qed

theorem decompress_verdicts_witness:
  "ops_decompress_file toy_zlib toy_zstd good_disk (demo_req 1 ''/a'' ''/b'') [''/a'' \<mapsto> ''----''] =
      Some (EILSEQ, None, [''/a'' \<mapsto> ''----''](''/b'' := None)) \<and>
   compress_decompress toy_zlib toy_zstd [] 1 (Some ''----'') (Some result0) = None"
proof -
  have v: "toy_view (Skip 4) ''----'' = Cut []" by (simp add: numeral_eq_Suc)
  show ?thesis
    using decompress_verdicts [of toy_zlib toy_view "Skip 4" 1 "[''/a'' \<mapsto> ''----'']" "demo_req 1 ''/a'' ''/b''" "''----''"
        good_disk toy_zstd result0] toy_decoder_ok toy_ends toy_patient
    by (simp add: v zstep_toy toy_init demo_req_def good_disk_def readable_def)
qed

text \<open>
  A stream that holds 4 GiB or more makes the decompression of a buffer leave the buffer, for zlib
  and for zstd; so does any zstd frame with contents whose declared size is a multiple of 4 GiB.
\<close>

theorem decompress_oversized_faults:
  assumes "decoder_ok (zstep zl) view" and "inflateInit2 zl 47 = Some s0"
    and "decoder_ok (sstep zs) view'" and "createDCtx zs = Some d0" and "length e < 2 ^ 30"
  shows "(\<forall>x. view s0 e = Whole x \<and> 2 ^ 32 \<le> length x \<longrightarrow>
            compress_decompress zl zs [] HW_COMPRESS_ALGO_ZLIB (Some e) (Some r) = Some Fault \<and>
            compress_decompress zl zs [] HW_COMPRESS_ALGO_GZIP (Some e) (Some r) = Some Fault) \<and>
     (\<forall>x. view' d0 e = Whole x \<and>
          (2 ^ 32 \<le> length x \<or>
           x \<noteq> [] \<and> (\<exists>n. getFrameContentSize zs e = Size n \<and> n \<noteq> 0 \<and> n mod 2 ^ 32 = 0)) \<longrightarrow>
            compress_decompress zl zs [] HW_COMPRESS_ALGO_ZSTD (Some e) (Some r) = Some Fault)"
proof (intro conjI allI impI)
  fix x
  assume x: "view s0 e = Whole x \<and> 2 ^ 32 \<le> length x"
  obtain cap where c: "0 < unat cap" and eq: "buf_decompress_zlib zl [] e = inflate_loop zl [] s0 e [] cap (unat cap)"
    using buf_decompress_zlib_loop [OF assms(2,5)] .
  have "buf_decompress_zlib zl [] e = Some Fault"
    using inflate_loop_fault [OF assms(1) conjunct1 [OF x], of cap "[]" "unat cap"] c eq x by simp
  then show "compress_decompress zl zs [] HW_COMPRESS_ALGO_ZLIB (Some e) (Some r) = Some Fault"
    and "compress_decompress zl zs [] HW_COMPRESS_ALGO_GZIP (Some e) (Some r) = Some Fault"
    by (simp_all add: compress_decompress_def Let_def)
next
  fix x
  assume x: "view' d0 e = Whole x \<and>
          (2 ^ 32 \<le> length x \<or> x \<noteq> [] \<and> (\<exists>n. getFrameContentSize zs e = Size n \<and> n \<noteq> 0 \<and> n mod 2 ^ 32 = 0))"
  then have v: "view' d0 e = Whole x" ..
  have zero: "unat (zstd_capacity zs e) = 0"
    if "getFrameContentSize zs e = Size n" and "n \<noteq> 0" and "n mod 2 ^ 32 = 0" for n
    using that by (simp add: zstd_capacity_def Let_def unat_of_nat take_bit_eq_mod)
  have "zstd_loop zs [] d0 e [] (zstd_capacity zs e) = Some Fault"
    using x zero by (intro zstd_loop_fault [OF assms(3) v]) auto
  then show "compress_decompress zl zs [] HW_COMPRESS_ALGO_ZSTD (Some e) (Some r) = Some Fault"
    using assms(4) by (simp add: compress_decompress_def Let_def buf_decompress_zstd_def)
qed

theorem decompress_oversized_faults_witness:
  "compress_decompress bomb_zlib bomb_zstd [] HW_COMPRESS_ALGO_GZIP (Some ''x'') (Some result0) = Some Fault \<and>
   compress_decompress bomb_zlib bomb_zstd [] HW_COMPRESS_ALGO_ZSTD (Some ''x'') (Some result0) = Some Fault"
proof -
  have "2 ^ 32 \<le> length (replicate GIB4 (CHR 0x00))" by (simp add: GIB4_def)
  then show ?thesis
    using decompress_oversized_faults [of bomb_zlib bomb_view None bomb_zstd bomb_view None "''x''" result0] bomb_decoder_ok
    by (simp add: zstep_bomb sstep_bomb bomb_init)
qed

lemma readable_empty: "readable io [] = []"
  by (simp add: readable_def split: option.split)

text \<open>
  A file that is compressed or decompressed onto itself is lost: it is emptied before it is read.
  Whatever the operation answers, afterwards the file is gone or holds an encoding of nothing.
\<close>

theorem file_onto_itself_is_lost:
  assumes zl: "zlib_ok zl s0 view track left" and zs: "zstd_ok zs d0 view' track' left'"
    and path: "output_path req = input_path req" and x: "fs (input_path req) = Some x"
    and io: "open_in io = 0" "open_out io = 0"
  shows "\<exists>rc resp fs'. ops_compress_file zl zs io req fs = Some (rc, resp, fs') \<and>
     (fs' (input_path req) = None \<or>
      rc = 0 \<and> keep_original req \<and> (\<exists>a e. fs' (input_path req) = Some e \<and> encoded s0 view d0 view' a e []))"
proof (cases "fr_algo req \<in> {HW_COMPRESS_ALGO_AUTO, HW_COMPRESS_ALGO_ZLIB, HW_COMPRESS_ALGO_GZIP, HW_COMPRESS_ALGO_ZSTD}")
  case True
  obtain a r where st: "impl_stream zl zs (out_room io) True (fr_algo req) (fr_level req) (readable io []) = Some (a, r)"
    and r: "case r of Inl e \<Rightarrow> e = EIO | Inr e \<Rightarrow> encoded s0 view d0 view' a e []"
    using compress_stream [OF zl zs True, where x = "[]"] unfolding readable_empty .
  then show ?thesis
    using path x io by (cases r) (auto simp: ops_compress_file_def impl_file_def Let_def)
next
  case False
  then show ?thesis
    using path x io by (auto simp: ops_compress_file_def impl_file_def impl_stream_def Let_def)
qed

theorem file_onto_itself_is_lost_witness:
  "\<exists>rc resp fs'. ops_compress_file toy_zlib toy_zstd good_disk (demo_req 0 ''/a'' ''/a'') [''/a'' \<mapsto> ''hello''] = Some (rc, resp, fs') \<and>
     (fs' ''/a'' = None \<or> rc = 0 \<and>
      (\<exists>a e. fs' ''/a'' = Some e \<and> encoded (Skip 4) toy_view (Skip 4) toy_view a e []))"
  using file_onto_itself_is_lost [OF toy_zlib_ok toy_zstd_ok, of "demo_req 0 ''/a'' ''/a''" "[''/a'' \<mapsto> ''hello'']" "''hello''" good_disk]
  by (simp add: demo_req_def good_disk_def)

end
