(* ===== verification/Terminal.thy ===== *)
theory Terminal
  imports Interfaces
begin

text \<open>
  The TERMINAL plugin, \<^verbatim>\<open>terminal/src/terminal_impl.c\<close>: pseudo terminal sessions, each a child process
  on the slave side and a handle the caller holds by value, with a registry of copies for listing.

  The state is the registry and the part of the operating system it acts on: the open descriptors of
  the process, its children (running, or exited and not yet waited for) and the signals and window sizes
  it has sent.  What the child does before \<^verbatim>\<open>exec\<close> is left out, and so is the content of the streams.
\<close>

abbreviation EBADF :: rc where "EBADF \<equiv> - 9"

section \<open>The operating system\<close>

datatype signal = SIGHUP | SIGTERM | SIGKILL | SIGWINCH

datatype child = Running | Exited

record os =
  open_fds :: "int list"
  children :: "(int \<times> child) list"
  signals :: "(int \<times> signal) list"
  winsizes :: "(int \<times> 16 word \<times> 16 word) list"

definition os_kill :: "int \<Rightarrow> signal \<Rightarrow> os \<Rightarrow> os" where
  "os_kill pid sig k = k\<lparr>signals := signals k @ [(pid, sig)]\<rparr>"

definition os_close :: "int \<Rightarrow> os \<Rightarrow> os" where
  "os_close fd k = k\<lparr>open_fds := filter (\<lambda>f. f \<noteq> fd) (open_fds k)\<rparr>"

definition os_forget :: "int \<Rightarrow> os \<Rightarrow> os" where
  "os_forget pid k = k\<lparr>children := filter (\<lambda>c. fst c \<noteq> pid) (children k)\<rparr>"

text \<open>\<^verbatim>\<open>waitpid(pid, .., WNOHANG)\<close>: -1 for no child of ours, 0 while it runs, and the child is gone afterwards.\<close>

definition os_waitpid :: "int \<Rightarrow> os \<Rightarrow> int \<times> os" where
  "os_waitpid pid k =
     (case map_of (children k) pid of
        None \<Rightarrow> (- 1, k)
      | Some Running \<Rightarrow> (0, k)
      | Some Exited \<Rightarrow> (pid, os_forget pid k))"

definition set_winsize :: "int \<Rightarrow> 32 word \<Rightarrow> 32 word \<Rightarrow> os \<Rightarrow> os" where
  "set_winsize fd cols rows k = k\<lparr>winsizes := winsizes k @ [(fd, ucast cols, ucast rows)]\<rparr>"

section \<open>Sessions\<close>

datatype hw_terminal_state = CREATED | ACTIVE | CLOSED | ERROR

record hw_terminal_session =
  ts_id :: string
  ts_cols :: "32 word"
  ts_rows :: "32 word"
  master_fd :: int
  ts_pid :: int
  ts_state :: hw_terminal_state
  slave_path :: string

record terminal =
  g_sessions :: "hw_terminal_session list"
  g_seq :: "64 word"

definition terminal0 :: terminal where
  "terminal0 = \<lparr>g_sessions = [], g_seq = 0\<rparr>"

abbreviation TERM_DEFAULT_COLS :: "32 word" where "TERM_DEFAULT_COLS \<equiv> 80"
abbreviation TERM_DEFAULT_ROWS :: "32 word" where "TERM_DEFAULT_ROWS \<equiv> 24"

definition find_node :: "terminal \<Rightarrow> string \<Rightarrow> hw_terminal_session option" where
  "find_node g i = find (\<lambda>s. ts_id s = i) (g_sessions g)"

definition term_id :: "64 word \<Rightarrow> string" where
  "term_id n =
     (let d = show_nat (unat n) in cstr 64 (''term-'' @ replicate (6 - length d) (CHR ''0'') @ d))"

definition generate_id :: "terminal \<Rightarrow> string \<times> terminal" where
  "generate_id g = (term_id (g_seq g + 1), g\<lparr>g_seq := g_seq g + 1\<rparr>)"

record spawn_cfg =
  cf_cmd :: "string option"
  cf_argv :: "string list option"
  cf_cols :: "32 word"
  cf_rows :: "32 word"

text \<open>The answers of the calls of one spawn: a descriptor, errors, the name of the slave, a process id.\<close>

record pty =
  pt_open :: "rc + int"
  pt_grant :: rc
  pt_unlock :: rc
  pt_name :: "rc + string"
  pt_fork :: "rc + int"

definition spawn_cmd :: "spawn_cfg \<Rightarrow> string option" where
  "spawn_cmd cfg =
     (case cf_argv cfg of
        Some [] \<Rightarrow> None
      | Some (a # _) \<Rightarrow> Some a
      | None \<Rightarrow> Some (case cf_cmd cfg of Some c \<Rightarrow> c | None \<Rightarrow> ''/bin/sh''))"

definition opened :: "int \<Rightarrow> os \<Rightarrow> os" where
  "opened fd k = k\<lparr>open_fds := fd # open_fds k\<rparr>"

definition new_session :: "string \<Rightarrow> 32 word \<Rightarrow> 32 word \<Rightarrow> int \<Rightarrow> int \<Rightarrow> string \<Rightarrow> hw_terminal_session" where
  "new_session i cols rows fd pid sp =
     \<lparr>ts_id = i, ts_cols = cols, ts_rows = rows, master_fd = fd, ts_pid = pid, ts_state = ACTIVE, slave_path = cstr 64 sp\<rparr>"

definition term_spawn ::
  "pty \<Rightarrow> bool \<Rightarrow> spawn_cfg option \<Rightarrow> terminal \<times> os \<Rightarrow> (rc + hw_terminal_session) \<times> terminal \<times> os" where
  "term_spawn pt memory cfg st =
     (case (cfg, st) of
        (None, _) \<Rightarrow> (Inl EINVAL, st)
      | (Some cfg, g, k) \<Rightarrow>
          let cols = (if cf_cols cfg \<noteq> 0 then cf_cols cfg else TERM_DEFAULT_COLS);
              rows = (if cf_rows cfg \<noteq> 0 then cf_rows cfg else TERM_DEFAULT_ROWS) in
          if spawn_cmd cfg = None \<or> spawn_cmd cfg = Some [] then (Inl EINVAL, st)
          else case pt_open pt of
            Inl e \<Rightarrow> (Inl e, st)
          | Inr fd \<Rightarrow>
              if pt_grant pt \<noteq> 0 then (Inl (pt_grant pt), g, os_close fd (opened fd k))
              else if pt_unlock pt \<noteq> 0 then (Inl (pt_unlock pt), g, os_close fd (opened fd k))
              else case pt_name pt of
                Inl e \<Rightarrow> (Inl e, g, os_close fd (opened fd k))
              | Inr sp \<Rightarrow>
                  let k1 = set_winsize fd cols rows (opened fd k) in
                  (case pt_fork pt of
                     Inl e \<Rightarrow> (Inl e, g, os_close fd k1)
                   | Inr pid \<Rightarrow>
                       let k2 = k1\<lparr>children := (pid, Running) # children k1\<rparr> in
                       if \<not> memory then (Inl ENOMEM, g, os_close fd (os_forget pid (os_kill pid SIGKILL k2)))
                       else
                         let (i, g1) = generate_id g;
                             s = new_session i cols rows fd pid sp in
                         (Inr s, g1\<lparr>g_sessions := s # g_sessions g1\<rparr>, k2)))"

text \<open>The streams: what \<^verbatim>\<open>write\<close>, \<^verbatim>\<open>poll\<close> and \<^verbatim>\<open>read\<close> answer is an argument.\<close>

definition usable :: "hw_terminal_session \<Rightarrow> bool" where
  "usable s \<longleftrightarrow> ts_state s = ACTIVE \<and> 0 \<le> master_fd s"

definition term_write :: "rc + nat \<Rightarrow> hw_terminal_session option \<Rightarrow> string option \<Rightarrow> nat \<Rightarrow> rc" where
  "term_write wr s buf len =
     (case s of
        None \<Rightarrow> EINVAL
      | Some s \<Rightarrow>
          if buf = None \<and> len \<noteq> 0 then EINVAL
          else if \<not> usable s then EBADF
          else case wr of
            Inl e \<Rightarrow> if e = EAGAIN then 0 else e
          | Inr n \<Rightarrow> int n)"

record poll_answer =
  POLLIN :: bool
  POLLHUP :: bool
  POLLNVAL :: bool

text \<open>The result is the code and, once the descriptor is known to be usable, the bytes read.\<close>

definition term_read ::
  "rc + poll_answer option \<Rightarrow> rc + string \<Rightarrow> hw_terminal_session option \<Rightarrow> nat \<Rightarrow> rc \<times> string option" where
  "term_read pl rd s cap =
     (case s of
        None \<Rightarrow> (EINVAL, None)
      | Some s \<Rightarrow>
          if cap = 0 then (EINVAL, None)
          else if \<not> usable s then (EBADF, None)
          else case pl of
            Inl e \<Rightarrow> (e, Some [])
          | Inr None \<Rightarrow> (0, Some [])
          | Inr (Some ev) \<Rightarrow>
              if POLLNVAL ev then (EBADF, Some [])
              else if \<not> (POLLIN ev \<or> POLLHUP ev) then (0, Some [])
              else case rd of
                Inl e \<Rightarrow> (if e = EAGAIN then 0 else e, Some [])
              | Inr d \<Rightarrow> (0, Some (take cap d)))"

definition resized :: "32 word \<Rightarrow> 32 word \<Rightarrow> hw_terminal_session \<Rightarrow> hw_terminal_session" where
  "resized cols rows s = s\<lparr>ts_cols := cols, ts_rows := rows\<rparr>"

definition term_resize ::
  "32 word \<Rightarrow> 32 word \<Rightarrow> hw_terminal_session option \<Rightarrow> terminal \<times> os \<Rightarrow> rc \<times> hw_terminal_session option \<times> terminal \<times> os" where
  "term_resize cols rows s st =
     (case (s, st) of
        (None, _) \<Rightarrow> (EINVAL, s, st)
      | (Some h, g, k) \<Rightarrow>
          if \<not> usable h then (EBADF, s, st)
          else if cols = 0 \<or> rows = 0 then (EINVAL, s, st)
          else
            let k1 = set_winsize (master_fd h) cols rows k;
                k2 = (if 0 < ts_pid h then os_kill (ts_pid h) SIGWINCH k1 else k1) in
            (0, Some (resized cols rows h),
             g\<lparr>g_sessions := update_first (\<lambda>n. ts_id n = ts_id h) (resized cols rows) (g_sessions g)\<rparr>, k2))"

definition term_close ::
  "hw_terminal_session option \<Rightarrow> terminal \<times> os \<Rightarrow> rc \<times> hw_terminal_session option \<times> terminal \<times> os" where
  "term_close s st =
     (case (s, st) of
        (None, _) \<Rightarrow> (EINVAL, s, st)
      | (Some h, g, k) \<Rightarrow>
          let k1 = (if 0 < ts_pid h
                    then snd (os_waitpid (ts_pid h) (os_kill (ts_pid h) SIGTERM (os_kill (ts_pid h) SIGHUP k)))
                    else k);
              (k2, h1) = (if 0 \<le> master_fd h then (os_close (master_fd h) k1, h\<lparr>master_fd := - 1\<rparr>) else (k1, h)) in
          (0, Some (h1\<lparr>ts_state := CLOSED\<rparr>),
           g\<lparr>g_sessions := remove_first (\<lambda>n. ts_id n = ts_id h) (g_sessions g)\<rparr>, k2))"

definition term_list_sessions :: "int \<Rightarrow> terminal \<Rightarrow> hw_terminal_session list \<times> nat" where
  "term_list_sessions cap g = (take (nat cap) (g_sessions g), length (g_sessions g))"

record hw_terminal_status =
  st_state :: hw_terminal_state
  st_cols :: "32 word"
  st_rows :: "32 word"
  st_pid :: int
  st_running :: bool

definition term_status ::
  "hw_terminal_session option \<Rightarrow> terminal \<times> os \<Rightarrow> (rc + hw_terminal_status) \<times> terminal \<times> os" where
  "term_status s st =
     (case (s, st) of
        (None, _) \<Rightarrow> (Inl EINVAL, st)
      | (Some h, g, k) \<Rightarrow>
          (case find_node g (ts_id h) of
             None \<Rightarrow> (Inl ENOENT, st)
           | Some n \<Rightarrow>
               let (r, k1) = (if 0 < ts_pid n then os_waitpid (ts_pid n) k else (- 1, k)) in
               (Inr \<lparr>st_state = ts_state n, st_cols = ts_cols n, st_rows = ts_rows n, st_pid = ts_pid n,
                     st_running = (0 < ts_pid n \<and> r = 0)\<rparr>, g, k1)))"

section \<open>Session names\<close>

lemma digits_nat_zeros: "digits_nat (replicate k (CHR ''0'') @ s) = digits_nat s"
proof -
  have "foldl (\<lambda>a c. 10 * a + digit_val c) 0 (replicate k (CHR ''0'')) = 0"
    by (induction k) (simp_all add: digit_val_def)
  then show ?thesis by (simp add: digits_nat_def)
qed

lemma term_id_inj: "term_id m = term_id n \<Longrightarrow> m = n"
proof -
  assume eq: "term_id m = term_id n"
  let ?f = "\<lambda>n :: 64 word. replicate (6 - length (show_nat (unat n))) (CHR ''0'') @ show_nat (unat n)"
  have len: "length (show_nat (unat n)) \<le> 20" for n :: "64 word"
  proof (rule length_show_nat)
    have "unat n < 2 ^ 64" using unsigned_less [of n] by simp
    also have "(2 :: nat) ^ 64 < 10 ^ 20" by simp
    finally show "unat n < 10 ^ 20" .
  qed simp
  have "term_id n = ''term-'' @ ?f n" for n
    unfolding term_id_def Let_def
  proof (rule cstr_id)
    show "length (''term-'' @ ?f n) < 64" using len [of n] by simp
  qed
  with eq have "?f m = ?f n" by simp
  then have "digits_nat (?f m) = digits_nat (?f n)" by simp
  then have "unat m = unat n" by (simp add: digits_nat_zeros)
  then show "m = n" by (rule unsigned_word_eqI)
qed


section \<open>Callers and their handles\<close>

text \<open>
  Each handle has one owner, who keeps it in the order of the spawns and passes it, never a copy.  The
  operating system gives fresh descriptors and process ids, and children exit on their own.
\<close>

definition fresh_pty :: "pty \<Rightarrow> os \<Rightarrow> bool" where
  "fresh_pty pt k \<longleftrightarrow>
     (\<forall>fd. pt_open pt = Inr fd \<longrightarrow> 0 \<le> fd \<and> fd \<notin> set (open_fds k)) \<and>
     (\<forall>pid. pt_fork pt = Inr pid \<longrightarrow> 0 < pid \<and> pid \<notin> fst ` set (children k)) \<and>
     (\<forall>e. pt_open pt = Inl e \<or> pt_fork pt = Inl e \<or> pt_name pt = Inl e \<longrightarrow> e < 0)"

definition os_exit :: "int \<Rightarrow> os \<Rightarrow> os" where
  "os_exit pid k = k\<lparr>children := map (\<lambda>(p, c). (p, if p = pid then Exited else c)) (children k)\<rparr>"

type_synonym users = "hw_terminal_session list \<times> terminal \<times> os"

inductive tstep :: "users \<Rightarrow> users \<Rightarrow> bool" where
  spawn: "fresh_pty pt k \<Longrightarrow> term_spawn pt memory cfg (g, k) = (Inr s, g', k') \<Longrightarrow>
     tstep (hs, g, k) (hs @ [s], g', k')"
| spawn_fails: "fresh_pty pt k \<Longrightarrow> term_spawn pt memory cfg (g, k) = (Inl e, g', k') \<Longrightarrow> tstep (hs, g, k) (hs, g', k')"
| resize: "i < length hs \<Longrightarrow> term_resize cols rows (Some (hs ! i)) (g, k) = (rc, Some h, g', k') \<Longrightarrow>
     tstep (hs, g, k) (hs[i := h], g', k')"
| close: "i < length hs \<Longrightarrow> term_close (Some (hs ! i)) (g, k) = (rc, Some h, g', k') \<Longrightarrow>
     tstep (hs, g, k) (hs[i := h], g', k')"
| status: "i < length hs \<Longrightarrow> term_status (Some (hs ! i)) (g, k) = (r, g', k') \<Longrightarrow> tstep (hs, g, k) (hs, g', k')"
| exits: "tstep (hs, g, k) (hs, g, os_exit pid k)"

inductive treach :: "users \<Rightarrow> bool" where
  start: "treach ([], terminal0, k)"
| steps: "treach u \<Longrightarrow> tstep u u' \<Longrightarrow> treach u'"

inductive_cases tstep_cases: "tstep (hs, g, k) u"

definition live :: "hw_terminal_session \<Rightarrow> bool" where
  "live s \<longleftrightarrow> ts_state s = ACTIVE"

text \<open>The registry is a function of the handles: those still live, the newest first.\<close>

definition tinv :: "users \<Rightarrow> bool" where
  "tinv u = (case u of (hs, g, k) \<Rightarrow>
     g_sessions g = rev (filter live hs) \<and> g_seq g = of_nat (length hs) \<and>
     (\<forall>i < length hs. ts_id (hs ! i) = term_id (of_nat (Suc i))) \<and>
     (\<forall>h \<in> set hs. live h \<longrightarrow> 0 \<le> master_fd h \<and> master_fd h \<in> set (open_fds k)) \<and>
     distinct (map master_fd (filter live hs)) \<and> (\<forall>h \<in> set hs. \<not> live h \<longrightarrow> master_fd h = - 1))"

lemma tinvD:
  assumes "tinv (hs, g, k)"
  shows "g_sessions g = rev (filter live hs)" and "g_seq g = of_nat (length hs)"
    and "i < length hs \<Longrightarrow> ts_id (hs ! i) = term_id (of_nat (Suc i))"
    and "h \<in> set hs \<Longrightarrow> live h \<Longrightarrow> 0 \<le> master_fd h \<and> master_fd h \<in> set (open_fds k)"
    and "distinct (map master_fd (filter live hs))"
    and "h \<in> set hs \<Longrightarrow> \<not> live h \<Longrightarrow> master_fd h = - 1"
  using assms by (auto simp: tinv_def)

lemma ids_distinct:
  assumes "tinv (hs, g, k)" and "length hs < 2 ^ 64" and "i < length hs" and "j < length hs" and "ts_id (hs ! i) = ts_id (hs ! j)"
  shows "i = j"
proof -
  have "(of_nat (Suc i) :: 64 word) = of_nat (Suc j)"
    using assms(3-5) tinvD(3) [OF assms(1)] by (metis term_id_inj)
  then have "unat (of_nat (Suc i) :: 64 word) = unat (of_nat (Suc j) :: 64 word)" by (rule arg_cong)
  moreover have "unat (of_nat (Suc l) :: 64 word) = Suc l" if "l < length hs" for l
    using that assms(2) by (simp only: unat_of_nat) (simp add: mod_if)
  ultimately show ?thesis using assms(3,4) by simp
qed

text \<open>Changing one handle in the list of the callers and the entry of its name in the registry.\<close>

lemma update_first_append:
  "update_first P f (xs @ ys) = (if \<exists>x \<in> set xs. P x then update_first P f xs @ ys else xs @ update_first P f ys)"
  by (induction xs) auto

lemma remove_first_append:
  "remove_first P (xs @ ys) = (if \<exists>x \<in> set xs. P x then remove_first P xs @ ys else xs @ remove_first P ys)"
  by (induction xs) auto

lemma registry_update:
  assumes "i < length hs" and "live (hs ! i)" and "live h" and "h = f (hs ! i)"
    and uniq: "\<And>j. j < length hs \<Longrightarrow> P (hs ! j) \<longleftrightarrow> j = i"
  shows "update_first P f (rev (filter live hs)) = rev (filter live (hs[i := h]))"
proof -
  have hs: "hs = take i hs @ hs ! i # drop (Suc i) hs"
    using assms(1) by (simp add: id_take_nth_drop)
  have no: "\<not> P x" if "x \<in> set (drop (Suc i) hs)" for x
    using that uniq by (auto simp: in_set_conv_nth)
  have yes: "P (hs ! i)" using uniq [OF assms(1)] by simp
  have "rev (filter live hs) = rev (filter live (drop (Suc i) hs)) @ hs ! i # rev (filter live (take i hs))"
    using assms(2) by (subst hs) simp
  then have "update_first P f (rev (filter live hs)) =
      rev (filter live (drop (Suc i) hs)) @ h # rev (filter live (take i hs))"
    using no yes assms(4) by (auto simp: update_first_append)
  also have "\<dots> = rev (filter live (hs[i := h]))"
    using assms(1,3) by (simp add: upd_conv_take_nth_drop)
  finally show ?thesis .
qed

lemma registry_remove:
  assumes "i < length hs" and "\<not> live h"
    and uniq: "\<And>j. j < length hs \<Longrightarrow> P (hs ! j) \<longleftrightarrow> j = i"
  shows "remove_first P (rev (filter live hs)) = rev (filter live (hs[i := h]))"
proof -
  have hs: "hs = take i hs @ hs ! i # drop (Suc i) hs"
    using assms(1) by (simp add: id_take_nth_drop)
  have no: "\<not> P x" if "x \<in> set (drop (Suc i) hs) \<or> x \<in> set (take i hs)" for x
    using that uniq assms(1) by (auto simp: in_set_conv_nth)
  have yes: "P (hs ! i)" using uniq [OF assms(1)] by simp
  have keep: "remove_first P xs = xs" if "\<forall>x \<in> set xs. \<not> P x" for xs
    using that by (induction xs) auto
  have "rev (filter live hs) = rev (filter live (drop (Suc i) hs)) @
      (if live (hs ! i) then [hs ! i] else []) @ rev (filter live (take i hs))"
    by (subst hs) simp
  then have "remove_first P (rev (filter live hs)) =
      rev (filter live (drop (Suc i) hs)) @ rev (filter live (take i hs))"
    using no yes by (auto simp: remove_first_append keep)
  also have "\<dots> = rev (filter live (hs[i := h]))"
    using assms(1,2) by (simp add: upd_conv_take_nth_drop)
  finally show ?thesis .
qed


text \<open>What the operations do to the descriptors.\<close>

lemma os_simps [simp]:
  "open_fds (os_kill pid sig k) = open_fds k" "open_fds (os_forget pid k) = open_fds k"
  "open_fds (set_winsize fd c r k) = open_fds k" "open_fds (opened fd k) = fd # open_fds k"
  "open_fds (os_close fd k) = filter (\<lambda>f. f \<noteq> fd) (open_fds k)" "open_fds (os_exit pid k) = open_fds k"
  "open_fds (snd (os_waitpid pid k)) = open_fds k"
  by (auto simp: os_kill_def os_forget_def set_winsize_def opened_def os_close_def os_exit_def os_waitpid_def
      split: option.split child.split)

lemma term_spawn_ok:
  assumes "term_spawn pt memory cfg (g, k) = (Inr s, g', k')" and "fresh_pty pt k"
  shows "live s" and "ts_id s = term_id (g_seq g + 1)" and "0 \<le> master_fd s" and "master_fd s \<notin> set (open_fds k)"
    and "open_fds k' = master_fd s # open_fds k" and "g_sessions g' = s # g_sessions g" and "g_seq g' = g_seq g + 1"
  using assms
  by (auto simp: term_spawn_def Let_def generate_id_def new_session_def live_def fresh_pty_def
      split: option.splits if_splits sum.splits)

lemma term_spawn_fails:
  assumes "term_spawn pt memory cfg (g, k) = (Inl e, g', k')" and "fresh_pty pt k"
  shows "g' = g" and "open_fds k' = open_fds k"
proof -
  have close: "filter (\<lambda>f. f \<noteq> fd) (fd # open_fds k) = open_fds k" if "pt_open pt = Inr fd" for fd
    using assms(2) that by (auto simp: fresh_pty_def filter_id_conv)
  show "g' = g" and "open_fds k' = open_fds k"
    using assms close
    by (auto simp: term_spawn_def Let_def generate_id_def split: option.splits if_splits sum.splits)
qed

lemma term_resize_cases:
  assumes "term_resize cols rows (Some h) (g, k) = (rc, Some h', g', k')"
  obtains "h' = h" and "g' = g" and "k' = k" and "rc < 0"
  | "usable h" and "h' = resized cols rows h"
    and "g' = g\<lparr>g_sessions := update_first (\<lambda>n. ts_id n = ts_id h) (resized cols rows) (g_sessions g)\<rparr>"
    and "open_fds k' = open_fds k" and "rc = 0"
  using assms by (auto simp: term_resize_def Let_def split: if_splits)

lemma term_close_result:
  assumes "term_close (Some h) (g, k) = (rc, Some h', g', k')"
  shows "rc = 0" and "\<not> live h'" and "ts_id h' = ts_id h" and "0 \<le> master_fd h \<or> master_fd h = - 1 \<Longrightarrow> master_fd h' = - 1"
    and "g' = g\<lparr>g_sessions := remove_first (\<lambda>n. ts_id n = ts_id h) (g_sessions g)\<rparr>"
    and "open_fds k' = (if 0 \<le> master_fd h then filter (\<lambda>f. f \<noteq> master_fd h) (open_fds k) else open_fds k)"
  using assms by (auto simp: term_close_def Let_def live_def split: if_splits prod.splits)

lemma live_resized [simp]: "live (resized c r h) = live h" "master_fd (resized c r h) = master_fd h"
  "ts_id (resized c r h) = ts_id h"
  by (simp_all add: resized_def live_def)

lemma filter_update_same:
  "i < length hs \<Longrightarrow> live h = live (hs ! i) \<Longrightarrow> f h = f (hs ! i) \<Longrightarrow> map f (filter live (hs[i := h])) = map f (filter live hs)"
  by (induction hs arbitrary: i) (auto split: nat.splits simp: nth_Cons)

lemma filter_update_dead:
  "i < length hs \<Longrightarrow> \<not> live h \<Longrightarrow> filter live (hs[i := h]) = filter live (take i hs) @ filter live (drop (Suc i) hs)"
  by (simp add: upd_conv_take_nth_drop)

lemma tinv_step:
  assumes "tstep u u'" and "tinv u" and "length (fst u') < 2 ^ 64"
  shows "tinv u'"
  using assms(1)
proof cases
  case (spawn pt k memory cfg g s g' k' hs)
  note i = tinvD [OF assms(2)[unfolded spawn(1)]] and sp = term_spawn_ok [OF spawn(4,3)]
  have new: "master_fd s \<notin> set (map master_fd (filter live hs))"
    using i(4) sp(4) by auto
  show ?thesis
    unfolding tinv_def spawn(2) prod.case
  proof (intro conjI)
    show "\<forall>j < length (hs @ [s]). ts_id ((hs @ [s]) ! j) = term_id (of_nat (Suc j))"
      using i(2,3) sp(2) by (auto simp: nth_append less_Suc_eq add.commute)
  qed (use i sp new in \<open>auto simp: add.commute\<close>)
next
  case (spawn_fails pt k memory cfg g e g' k' hs)
  then show ?thesis
    using term_spawn_fails [OF spawn_fails(4,3)] assms(2) by (simp add: tinv_def)
next
  case (resize i hs cols rows g k rc h g' k')
  note inv = tinvD [OF assms(2)[unfolded resize(1)]]
  from resize(4) show ?thesis
  proof (cases rule: term_resize_cases)
    case 1
    then show ?thesis using assms(2) resize(1,2) by simp
  next
    case 2
    then have lv: "live (hs ! i)" by (simp add: usable_def live_def)
    have uniq: "ts_id (hs ! j) = ts_id (hs ! i) \<longleftrightarrow> j = i" if "j < length hs" for j
      using ids_distinct [OF assms(2)[unfolded resize(1)] _ that resize(3)] assms(3) resize(2) by auto
    have "g_sessions g' = rev (filter live (hs[i := h]))"
      using registry_update [where P = "\<lambda>n. ts_id n = ts_id (hs ! i)" and f = "resized cols rows" and h = h, OF resize(3) lv _ 2(2) uniq] lv 2 inv(1) by simp
    moreover have "ts_id ((hs[i := h]) ! j) = term_id (of_nat (Suc j))" if "j < length hs" for j
      using that inv(3) [OF that] 2(2) by (cases "j = i") auto
    moreover have "map master_fd (filter live (hs[i := h])) = map master_fd (filter live hs)"
      using resize(3) 2(2) by (intro filter_update_same) auto
    moreover have "(live x \<longrightarrow> 0 \<le> master_fd x \<and> master_fd x \<in> set (open_fds k')) \<and> (\<not> live x \<longrightarrow> master_fd x = - 1)"
      if "x \<in> set (hs[i := h])" for x
      using that set_update_subset_insert [of hs i h] inv(4) [of x] inv(6) [of x] inv(4) [OF nth_mem [OF resize(3)] lv] lv 2
      by auto
    ultimately show ?thesis
      using inv(2,5) 2(3) resize(2) by (auto simp: tinv_def)
  qed
next
  case (close i hs g k rc h g' k')
  note inv = tinvD [OF assms(2)[unfolded close(1)]] and cl = term_close_result [OF close(4)]
  have uniq: "ts_id (hs ! j) = ts_id (hs ! i) \<longleftrightarrow> j = i" if "j < length hs" for j
    using ids_distinct [OF assms(2)[unfolded close(1)] _ that close(3)] assms(3) close(2) by auto
  have "g_sessions g' = rev (filter live (hs[i := h]))"
    using registry_remove [where P = "\<lambda>n. ts_id n = ts_id (hs ! i)", OF close(3) cl(2) uniq] cl(5) inv(1) by simp
  moreover have "ts_id ((hs[i := h]) ! j) = term_id (of_nat (Suc j))" if "j < length hs" for j
    using that inv(3) [OF that] cl(3) by (cases "j = i") auto
  moreover have fd: "0 \<le> master_fd (hs ! i) \<or> master_fd (hs ! i) = - 1"
    using inv(4,6) [OF nth_mem [OF close(3)]] by blast
  have hs: "filter live hs = filter live (take i hs) @ (if live (hs ! i) then [hs ! i] else []) @ filter live (drop (Suc i) hs)"
    by (subst id_take_nth_drop [OF close(3)]) simp
  have lives: "filter live (hs[i := h]) = filter live (take i hs) @ filter live (drop (Suc i) hs)"
    by (rule filter_update_dead [OF close(3) cl(2)])
  have dist: "distinct (map master_fd (filter live (hs[i := h])))"
    using inv(5) unfolding lives hs by (auto split: if_splits)
  moreover have "0 \<le> master_fd x \<and> master_fd x \<in> set (open_fds k')" if "x \<in> set (hs[i := h])" "live x" for x
  proof -
    have xin: "x \<in> set (filter live (take i hs) @ filter live (drop (Suc i) hs))"
      using that unfolding lives [symmetric] by simp
    then have "x \<in> set hs"
      by (auto dest: in_set_takeD in_set_dropD)
    moreover have "master_fd x \<noteq> master_fd (hs ! i)" if "0 \<le> master_fd (hs ! i)"
    proof -
      have "live (hs ! i)" using inv(6) [OF nth_mem [OF close(3)]] that by auto
      then show ?thesis using inv(5) xin unfolding hs by (auto simp: image_iff)
    qed
    ultimately show ?thesis using inv(4) [of x] that cl(6) by auto
  qed
  moreover have "master_fd x = - 1" if "x \<in> set (hs[i := h])" "\<not> live x" for x
    using that set_update_subset_insert [of hs i h] inv(6) [of x] cl(4) [OF fd] by auto
  ultimately show ?thesis
    using inv(2) cl(5) close(2) by (auto simp: tinv_def)
next
  case (status i hs g k r g' k')
  then have "g' = g" and "open_fds k' = open_fds k"
    by (auto simp: term_status_def Let_def split: option.splits prod.splits if_splits)
      (metis os_simps(7) snd_conv)+
  then show ?thesis using assms(2) status(1,2) by (simp add: tinv_def)
next
  case (exits hs g k pid)
  then show ?thesis using assms(2) by (simp add: tinv_def)
qed


lemma tstep_length: "tstep u u' \<Longrightarrow> length (fst u) \<le> length (fst u')"
  by (cases rule: tstep.cases) auto

lemma treach_tinv: "treach u \<Longrightarrow> length (fst u) < 2 ^ 64 \<Longrightarrow> tinv u"
proof (induction rule: treach.induct)
  case (start k)
  then show ?case by (simp add: tinv_def terminal0_def)
next
  case (steps u u')
  then show ?case using tinv_step tstep_length [of u u'] by simp
qed

lemma find_unique:
  assumes "x \<in> set xs" and "P x" and uniq: "\<And>y. y \<in> set xs \<Longrightarrow> P y \<Longrightarrow> y = x"
  shows "find P xs = Some x"
proof (cases "find P xs")
  case None
  then show ?thesis using assms(1,2) by (simp add: find_None)
next
  case (Some z)
  then show ?thesis using find_SomeD [of P xs z] uniq [of z] by blast
qed

lemma find_handle:
  assumes "tinv (hs, g, k)" and "length hs < 2 ^ 64" and "i < length hs"
  shows "find_node g (ts_id (hs ! i)) = (if live (hs ! i) then Some (hs ! i) else None)"
proof -
  have uniq: "h = hs ! i" if "h \<in> set hs" "ts_id h = ts_id (hs ! i)" for h
    using that ids_distinct [OF assms(1,2) _ assms(3)] by (auto simp: in_set_conv_nth)
  show ?thesis
  proof (cases "live (hs ! i)")
    case True
    have "find (\<lambda>s. ts_id s = ts_id (hs ! i)) (rev (filter live hs)) = Some (hs ! i)"
      by (rule find_unique) (use True assms(3) uniq in auto)
    then show ?thesis
      using True by (simp add: find_node_def tinvD(1) [OF assms(1)])
  next
    case False
    have "ts_id h \<noteq> ts_id (hs ! i)" if "h \<in> set (filter live hs)" for h
      using uniq [of h] that False by auto
    then have "find (\<lambda>s. ts_id s = ts_id (hs ! i)) (rev (filter live hs)) = None"
      by (simp add: find_None_iff)
    then show ?thesis
      using False by (simp add: find_node_def tinvD(1) [OF assms(1)])
  qed
qed

section \<open>Properties\<close>

text \<open>
  C8. While every handle is used by its owner only, the registry lists exactly the live handles as their
  owners see them, the newest first; names and descriptors are distinct, each live handle has an open
  descriptor and its own status, and a closed one is refused everywhere.
\<close>

theorem terminal_registry_tracks_handles:
  assumes "treach (hs, g, k)" and "length hs < 2 ^ 64"
  shows "term_list_sessions (int (length hs)) g = (rev (filter live hs), length (filter live hs)) \<and>
     distinct (map ts_id hs) \<and> distinct (map master_fd (filter live hs)) \<and>
     (\<forall>i < length hs.
        if live (hs ! i)
        then usable (hs ! i) \<and> master_fd (hs ! i) \<in> set (open_fds k) \<and>
          (\<exists>r. fst (term_status (Some (hs ! i)) (g, k)) =
             Inr \<lparr>st_state = ACTIVE, st_cols = ts_cols (hs ! i), st_rows = ts_rows (hs ! i), st_pid = ts_pid (hs ! i), st_running = r\<rparr>)
        else term_status (Some (hs ! i)) (g, k) = (Inl ENOENT, g, k) \<and>
          (\<forall>wr buf len. term_write wr (Some (hs ! i)) (Some buf) len = EBADF) \<and>
          (\<forall>c r. fst (term_resize c r (Some (hs ! i)) (g, k)) = EBADF))"
proof -
  have inv: "tinv (hs, g, k)" using treach_tinv [OF assms(1)] assms(2) by simp
  note i = tinvD [OF inv]
  have "length (filter live hs) \<le> length hs" by (rule length_filter_le)
  then have "term_list_sessions (int (length hs)) g = (rev (filter live hs), length (filter live hs))"
    by (simp add: term_list_sessions_def i(1))
  moreover have "distinct (map ts_id hs)"
    unfolding distinct_conv_nth using ids_distinct [OF inv assms(2)] by auto
  moreover have "if live (hs ! j)
        then usable (hs ! j) \<and> master_fd (hs ! j) \<in> set (open_fds k) \<and>
          (\<exists>r. fst (term_status (Some (hs ! j)) (g, k)) =
             Inr \<lparr>st_state = ACTIVE, st_cols = ts_cols (hs ! j), st_rows = ts_rows (hs ! j), st_pid = ts_pid (hs ! j), st_running = r\<rparr>)
        else term_status (Some (hs ! j)) (g, k) = (Inl ENOENT, g, k) \<and>
          (\<forall>wr buf len. term_write wr (Some (hs ! j)) (Some buf) len = EBADF) \<and>
          (\<forall>c r. fst (term_resize c r (Some (hs ! j)) (g, k)) = EBADF)" if j: "j < length hs" for j
  proof (cases "live (hs ! j)")
    case True
    then show ?thesis
      using i(4) [OF nth_mem [OF j] True] find_handle [OF inv assms(2) j]
      by (auto simp: term_status_def usable_def live_def split: prod.split)
  next
    case False
    then show ?thesis
      using find_handle [OF inv assms(2) j]
      by (auto simp: term_status_def term_write_def term_resize_def usable_def live_def)
  qed
  ultimately show ?thesis using i(5) by blast
qed

definition demo_pty :: pty where
  "demo_pty = \<lparr>pt_open = Inr 5, pt_grant = 0, pt_unlock = 0, pt_name = Inr ''/dev/pts/3'', pt_fork = Inr 100\<rparr>"

definition demo_os :: os where
  "demo_os = \<lparr>open_fds = [0, 1, 2], children = [], signals = [], winsizes = []\<rparr>"

definition demo_spawned :: "(rc + hw_terminal_session) \<times> terminal \<times> os" where
  "demo_spawned =
     term_spawn demo_pty True (Some \<lparr>cf_cmd = None, cf_argv = None, cf_cols = 0, cf_rows = 0\<rparr>) (terminal0, demo_os)"

definition demo_session :: hw_terminal_session where
  "demo_session = new_session (term_id 1) 80 24 5 100 ''/dev/pts/3''"

definition demo_terminal :: terminal where
  "demo_terminal = \<lparr>g_sessions = [demo_session], g_seq = 1\<rparr>"

definition demo_running :: "child \<Rightarrow> os" where
  "demo_running c = \<lparr>open_fds = [5, 0, 1, 2], children = [(100, c)], signals = [], winsizes = [(5, 80, 24)]\<rparr>"

lemma demo_spawn: "term_spawn demo_pty True (Some \<lparr>cf_cmd = None, cf_argv = None, cf_cols = 0, cf_rows = 0\<rparr>) (terminal0, demo_os) =
    (Inr demo_session, demo_terminal, demo_running Running)"
  by (simp add: term_spawn_def demo_pty_def terminal0_def demo_os_def spawn_cmd_def set_winsize_def opened_def
      generate_id_def Let_def demo_session_def demo_terminal_def demo_running_def)

lemma demo_reached: "treach ([demo_session], demo_terminal, demo_running Running)"
proof (rule treach.steps [OF treach.start])
  have "fresh_pty demo_pty demo_os" by (simp add: fresh_pty_def demo_pty_def demo_os_def)
  from tstep.spawn [OF this demo_spawn, of "[]"]
  show "tstep ([], terminal0, demo_os) ([demo_session], demo_terminal, demo_running Running)" by simp
qed

theorem terminal_registry_tracks_handles_witness:
  "term_list_sessions 1 demo_terminal = ([demo_session], 1) \<and> usable demo_session"
  using terminal_registry_tracks_handles [OF demo_reached]
  by (simp add: live_def demo_session_def new_session_def split: if_splits)

text \<open>
  Asking for the status of a session whose child has exited waits for the child, after which its
  process id is free; closing the session still signals that id.  A new child that has got the id
  meanwhile is hung up and terminated, and stays unwaited for.
\<close>

theorem terminal_close_signals_stranger:
  assumes node: "find_node g (ts_id h) = Some h" and pid: "0 < ts_pid h"
    and exited: "map_of (children k) (ts_pid h) = Some Exited"
    and status: "term_status (Some h) (g, k) = (r, g1, k1)"
    and reuse: "k2 = k1\<lparr>children := (ts_pid h, Running) # children k1\<rparr>"
    and close: "term_close (Some h) (g1, k2) = (rc, h', g3, k3)"
  shows "(\<exists>st. r = Inr st \<and> \<not> st_running st) \<and> ts_pid h \<notin> fst ` set (children k1) \<and> rc = 0 \<and>
     signals k3 = signals k @ [(ts_pid h, SIGHUP), (ts_pid h, SIGTERM)] \<and> map_of (children k3) (ts_pid h) = Some Running"
proof -
  have wait: "os_waitpid (ts_pid h) k = (ts_pid h, os_forget (ts_pid h) k)"
    using exited by (simp add: os_waitpid_def)
  then have st: "(\<exists>st. r = Inr st \<and> \<not> st_running st)" and k1: "k1 = os_forget (ts_pid h) k" and g1: "g1 = g"
    using status node pid by (auto simp: term_status_def)
  then have gone: "ts_pid h \<notin> fst ` set (children k1)"
    by (auto simp: os_forget_def)
  have wait2: "os_waitpid (ts_pid h) (os_kill (ts_pid h) SIGTERM (os_kill (ts_pid h) SIGHUP k2)) =
      (0, os_kill (ts_pid h) SIGTERM (os_kill (ts_pid h) SIGHUP k2))"
    using reuse by (simp add: os_waitpid_def os_kill_def)
  have "signals k3 = signals k @ [(ts_pid h, SIGHUP), (ts_pid h, SIGTERM)]"
    and "map_of (children k3) (ts_pid h) = Some Running" and "rc = 0"
    using close pid wait2 k1
    by (auto simp: term_close_def Let_def reuse os_kill_def os_close_def os_forget_def split: if_splits)
  then show ?thesis using st gone by blast
qed

theorem terminal_close_signals_stranger_witness:
  "signals (snd (snd (snd (term_close (Some demo_session)
      (demo_terminal, (demo_running Exited)\<lparr>children := [(100, Running)]\<rparr>))))) = [(100, SIGHUP), (100, SIGTERM)]"
proof -
  have find: "find_node demo_terminal (ts_id demo_session) = Some demo_session"
    by (simp add: find_node_def demo_terminal_def)
  have pid: "ts_pid demo_session = 100" by (simp add: demo_session_def new_session_def)
  have ex: "map_of (children (demo_running Exited)) 100 = Some Exited" "signals (demo_running Exited) = []"
    by (simp_all add: demo_running_def)
  obtain r g1 k1 where st: "term_status (Some demo_session) (demo_terminal, demo_running Exited) = (r, g1, k1)"
    by (metis prod_cases3)
  then have k1: "k1 = (demo_running Exited)\<lparr>children := []\<rparr>" and g1: "g1 = demo_terminal"
    using find by (auto simp: term_status_def pid os_waitpid_def demo_running_def os_forget_def)
  have k2: "(demo_running Exited)\<lparr>children := [(100, Running)]\<rparr> = k1\<lparr>children := (100, Running) # children k1\<rparr>"
    by (simp add: k1)
  obtain rc h' g3 k3 where cl: "term_close (Some demo_session)
      (g1, (demo_running Exited)\<lparr>children := [(100, Running)]\<rparr>) = (rc, h', g3, k3)"
    by (metis prod_cases4)
  then show ?thesis
    using terminal_close_signals_stranger [OF find _ _ st _ cl] ex k2 g1 pid by simp
qed

end
