(* ===== verification/Crypto.thy ===== *)
theory Crypto
  imports Prelude
begin

text \<open>
  The CRYPTO plugin, \<^verbatim>\<open>crypto/src/crypto_impl.c\<close>: what it does around OpenSSL.

  libcrypto is a record of functions, one per call, over an abstract context; \<open>None\<close> is a failure.
  Buffers are strings of their length, shorter than 2 GiB; an output buffer is its capacity, and what an
  operation has written into it is part of the result, also when it fails.  A pointer that may be NULL is an
  option.  Writing behind a buffer, and searching for the end of a text behind it, are faults.
\<close>

section \<open>Algorithms\<close>

abbreviation HWRUN_CRYPTO_CIPHER_AES_128_CBC :: int where "HWRUN_CRYPTO_CIPHER_AES_128_CBC \<equiv> 0"
abbreviation HWRUN_CRYPTO_CIPHER_AES_256_CBC :: int where "HWRUN_CRYPTO_CIPHER_AES_256_CBC \<equiv> 1"
abbreviation HWRUN_CRYPTO_CIPHER_AES_128_GCM :: int where "HWRUN_CRYPTO_CIPHER_AES_128_GCM \<equiv> 2"
abbreviation HWRUN_CRYPTO_CIPHER_AES_256_GCM :: int where "HWRUN_CRYPTO_CIPHER_AES_256_GCM \<equiv> 3"
abbreviation HW_CRYPTO_GCM_TAG_LEN :: nat where "HW_CRYPTO_GCM_TAG_LEN \<equiv> 16"
abbreviation HW_CRYPTO_MAX_KEY_RSA :: int where "HW_CRYPTO_MAX_KEY_RSA \<equiv> 8192"

datatype evp_cipher = AES_128_CBC | AES_256_CBC | AES_128_GCM | AES_256_GCM

datatype evp_md = SHA1 | SHA256 | SHA384 | SHA512 | MD5

record cipher_spec =
  cs_cipher :: evp_cipher
  cs_key_len :: int
  cs_iv_len :: int
  cs_aead :: bool

definition cipher_lookup :: "int \<Rightarrow> cipher_spec option" where
  "cipher_lookup cipher =
     (if cipher = HWRUN_CRYPTO_CIPHER_AES_128_CBC
      then Some \<lparr>cs_cipher = AES_128_CBC, cs_key_len = 16, cs_iv_len = 16, cs_aead = False\<rparr>
      else if cipher = HWRUN_CRYPTO_CIPHER_AES_256_CBC
      then Some \<lparr>cs_cipher = AES_256_CBC, cs_key_len = 32, cs_iv_len = 16, cs_aead = False\<rparr>
      else if cipher = HWRUN_CRYPTO_CIPHER_AES_128_GCM
      then Some \<lparr>cs_cipher = AES_128_GCM, cs_key_len = 16, cs_iv_len = 12, cs_aead = True\<rparr>
      else if cipher = HWRUN_CRYPTO_CIPHER_AES_256_GCM
      then Some \<lparr>cs_cipher = AES_256_GCM, cs_key_len = 32, cs_iv_len = 12, cs_aead = True\<rparr>
      else None)"

definition hash_md :: "int \<Rightarrow> evp_md option" where
  "hash_md algo = (if algo = 0 then Some SHA256 else if algo = 1 then Some SHA512 else if algo = 2 then Some MD5 else None)"

definition rsa_md :: "string option \<Rightarrow> evp_md option" where
  "rsa_md name =
     (case name of
        None \<Rightarrow> Some SHA256
      | Some n \<Rightarrow>
          if n = [] then Some SHA256
          else if n = ''sha256'' then Some SHA256
          else if n = ''sha512'' then Some SHA512
          else if n = ''sha1'' then Some SHA1
          else if n = ''sha384'' then Some SHA384
          else None)"

section \<open>OpenSSL\<close>

record ('c, 'k) evp =
  cipher_ctx_new :: "'c option"
  init_ex :: "bool \<Rightarrow> 'c \<Rightarrow> evp_cipher option \<Rightarrow> string option \<Rightarrow> string option \<Rightarrow> 'c option"
  set_ivlen :: "'c \<Rightarrow> int \<Rightarrow> 'c option"
  set_tag :: "'c \<Rightarrow> string \<Rightarrow> 'c option"
  get_tag :: "'c \<Rightarrow> string option"
  update_aad :: "bool \<Rightarrow> 'c \<Rightarrow> string \<Rightarrow> 'c option"
  crypt_update :: "bool \<Rightarrow> 'c \<Rightarrow> string \<Rightarrow> ('c \<times> string) option"
  crypt_final :: "bool \<Rightarrow> 'c \<Rightarrow> ('c \<times> string) option"
  md_size :: "evp_md \<Rightarrow> int"
  digest :: "evp_md \<Rightarrow> string \<Rightarrow> string option"
  HMAC :: "evp_md \<Rightarrow> string option \<Rightarrow> string \<Rightarrow> string option"
  RAND_bytes :: "nat \<Rightarrow> string option"
  rsa_keygen :: "int \<Rightarrow> (string \<times> string) option"
  read_private_key :: "string \<Rightarrow> 'k option"
  read_pubkey :: "string \<Rightarrow> 'k option"
  read_rsa_pubkey :: "string \<Rightarrow> 'k option"
  digest_sign :: "evp_md \<Rightarrow> 'k \<Rightarrow> string \<Rightarrow> string option"
  digest_verify :: "evp_md \<Rightarrow> 'k \<Rightarrow> string \<Rightarrow> string \<Rightarrow> int option"

section \<open>Random numbers and digests\<close>

text \<open>The bytes written into the buffer.\<close>

definition crypto_random_impl :: "('c, 'k) evp \<Rightarrow> nat option \<Rightarrow> rc \<times> string" where
  "crypto_random_impl e buf =
     (case buf of
        None \<Rightarrow> (EINVAL, [])
      | Some len \<Rightarrow>
          if len = 0 then (0, [])
          else case RAND_bytes e len of None \<Rightarrow> (EIO, []) | Some b \<Rightarrow> (0, b))"

record hash_req =
  hr_algo :: int
  hr_key :: "string option"
  hr_data :: "string option"
  hr_out :: "nat option"

definition crypto_hash_impl :: "('c, 'k) evp \<Rightarrow> bool \<Rightarrow> hash_req \<Rightarrow> (rc + string) outcome" where
  "crypto_hash_impl e memory req =
     (case hr_data req of
        None \<Rightarrow> Ret (Inl EINVAL)
      | Some data \<Rightarrow>
          (case hash_md (hr_algo req) of
             None \<Rightarrow> Ret (Inl ENOTSUP)
           | Some md \<Rightarrow>
               if md_size e md \<le> 0 then Ret (Inl ENOTSUP)
               else (case hr_out req of
                       None \<Rightarrow> Ret (Inl ENOMEM)
                     | Some cap \<Rightarrow>
                         if int cap < md_size e md \<or> \<not> memory then Ret (Inl ENOMEM)
                         else (case digest e md data of
                                 None \<Rightarrow> Ret (Inl EIO)
                               | Some d \<Rightarrow> if cap < length d then Fault else Ret (Inr d)))))"

definition crypto_hmac_impl :: "('c, 'k) evp \<Rightarrow> hash_req \<Rightarrow> (rc + string) outcome" where
  "crypto_hmac_impl e req =
     (case hr_data req of
        None \<Rightarrow> Ret (Inl EINVAL)
      | Some data \<Rightarrow>
          (case hash_md (hr_algo req) of
             None \<Rightarrow> Ret (Inl ENOTSUP)
           | Some md \<Rightarrow>
               (case hr_out req of
                  None \<Rightarrow> Ret (Inl EINVAL)
                | Some cap \<Rightarrow>
                    (case HMAC e md (hr_key req) data of
                       None \<Rightarrow> Ret (Inl EIO)
                     | Some d \<Rightarrow> if cap < length d then Fault else Ret (Inr d)))))"

section \<open>Symmetric ciphers\<close>

record sym_req =
  sq_cipher :: int
  sq_key :: "string option"
  sq_iv :: "string option"
  sq_iv_len :: int
  sq_aad :: "string option"
  sq_in :: "string option"
  sq_out :: "nat option"
  sq_tag :: "string option"

text \<open>
  The code, the bytes written to the output buffer, the tag buffer afterwards, and the lengths of output
  and tag where the response is filled.
\<close>

record sym_result =
  sr_rc :: rc
  sr_out :: string
  sr_tag :: "string option"
  sr_resp :: "(nat \<times> nat) option"

definition sym_fail :: "sym_req \<Rightarrow> rc \<Rightarrow> string \<Rightarrow> sym_result" where
  "sym_fail req rc out = \<lparr>sr_rc = rc, sr_out = out, sr_tag = sq_tag req, sr_resp = None\<rparr>"

text \<open>The guards both directions share: the cipher, or the error.\<close>

definition sym_guard :: "sym_req \<Rightarrow> rc + cipher_spec \<times> string \<times> string \<times> nat" where
  "sym_guard req =
     (case (sq_key req, sq_in req, sq_out req) of
        (Some key, Some inp, Some cap) \<Rightarrow>
          (case cipher_lookup (sq_cipher req) of
             None \<Rightarrow> Inl ENOTSUP
           | Some spec \<Rightarrow>
               if int (length key) \<noteq> cs_key_len spec then Inl EINVAL
               else if sq_iv_len req \<noteq> cs_iv_len spec then Inl EINVAL
               else Inr (spec, key, inp, cap))
      | _ \<Rightarrow> Inl EINVAL)"

definition feed_aad :: "('c, 'k) evp \<Rightarrow> bool \<Rightarrow> sym_req \<Rightarrow> 'c \<Rightarrow> 'c option" where
  "feed_aad e enc req c =
     (case sq_aad req of
        None \<Rightarrow> Some c
      | Some aad \<Rightarrow> if aad = [] then Some c else update_aad e enc c aad)"

definition gcm_init :: "('c, 'k) evp \<Rightarrow> bool \<Rightarrow> sym_req \<Rightarrow> evp_cipher \<Rightarrow> string \<Rightarrow> 'c \<Rightarrow> 'c option" where
  "gcm_init e enc req ci key c =
     Option.bind (init_ex e enc c (Some ci) None None)
       (\<lambda>c1. Option.bind (set_ivlen e c1 (sq_iv_len req))
         (\<lambda>c2. init_ex e enc c2 None (Some key) (sq_iv req)))"

definition big_tag :: "sym_req \<Rightarrow> string option" where
  "big_tag req =
     (case sq_tag req of
        None \<Rightarrow> None
      | Some t \<Rightarrow> if HW_CRYPTO_GCM_TAG_LEN \<le> length t then Some t else None)"

definition gcm_encrypt :: "('c, 'k) evp \<Rightarrow> sym_req \<Rightarrow> evp_cipher \<Rightarrow> string \<Rightarrow> string \<Rightarrow> nat \<Rightarrow> 'c \<Rightarrow> sym_result" where
  "gcm_encrypt e req ci key inp cap c0 =
     (case Option.bind (gcm_init e True req ci key c0) (feed_aad e True req) of
        None \<Rightarrow> sym_fail req EINVAL []
      | Some c \<Rightarrow>
          if cap < length inp then sym_fail req ENOMEM []
          else (case crypt_update e True c inp of
                  None \<Rightarrow> sym_fail req EINVAL []
                | Some (c1, o1) \<Rightarrow>
                    (case crypt_final e True c1 of
                       None \<Rightarrow> sym_fail req EINVAL o1
                     | Some (c2, o2) \<Rightarrow>
                         (case big_tag req of
                            None \<Rightarrow> \<lparr>sr_rc = 0, sr_out = o1 @ o2, sr_tag = sq_tag req, sr_resp = Some (length (o1 @ o2), 0)\<rparr>
                          | Some t \<Rightarrow>
                              (case get_tag e c2 of
                                 None \<Rightarrow> sym_fail req EINVAL (o1 @ o2)
                               | Some x \<Rightarrow>
                                   \<lparr>sr_rc = 0, sr_out = o1 @ o2, sr_tag = Some (x @ drop HW_CRYPTO_GCM_TAG_LEN t),
                                    sr_resp = Some (length (o1 @ o2), HW_CRYPTO_GCM_TAG_LEN)\<rparr>)))))"

definition cbc_encrypt :: "('c, 'k) evp \<Rightarrow> sym_req \<Rightarrow> evp_cipher \<Rightarrow> string \<Rightarrow> string \<Rightarrow> nat \<Rightarrow> 'c \<Rightarrow> sym_result" where
  "cbc_encrypt e req ci key inp cap c0 =
     (case init_ex e True c0 (Some ci) (Some key) (sq_iv req) of
        None \<Rightarrow> sym_fail req EINVAL []
      | Some c \<Rightarrow>
          if (of_nat cap :: 32 word) < of_nat (length inp) + 16 then sym_fail req ENOMEM []
          else (case crypt_update e True c inp of
                  None \<Rightarrow> sym_fail req EINVAL []
                | Some (c1, o1) \<Rightarrow>
                    (case crypt_final e True c1 of
                       None \<Rightarrow> sym_fail req EINVAL o1
                     | Some (c2, o2) \<Rightarrow>
                         \<lparr>sr_rc = 0, sr_out = o1 @ o2, sr_tag = sq_tag req, sr_resp = Some (length (o1 @ o2), 0)\<rparr>)))"

definition crypto_encrypt_impl :: "('c, 'k) evp \<Rightarrow> sym_req \<Rightarrow> sym_result" where
  "crypto_encrypt_impl e req =
     (case sym_guard req of
        Inl rc \<Rightarrow> sym_fail req rc []
      | Inr (spec, key, inp, cap) \<Rightarrow>
          (case cipher_ctx_new e of
             None \<Rightarrow> sym_fail req ENOMEM []
           | Some c \<Rightarrow>
               if cs_aead spec then gcm_encrypt e req (cs_cipher spec) key inp cap c
               else cbc_encrypt e req (cs_cipher spec) key inp cap c))"

text \<open>Both ways of decrypting end alike: the output is written first and checked afterwards.\<close>

definition decrypt_data :: "('c, 'k) evp \<Rightarrow> sym_req \<Rightarrow> string \<Rightarrow> nat \<Rightarrow> 'c \<Rightarrow> sym_result" where
  "decrypt_data e req inp cap c =
     (if cap < length inp then sym_fail req ENOMEM []
      else case crypt_update e False c inp of
             None \<Rightarrow> sym_fail req EINVAL []
           | Some (c1, o1) \<Rightarrow>
               (case crypt_final e False c1 of
                  None \<Rightarrow> sym_fail req EILSEQ o1
                | Some (c2, o2) \<Rightarrow>
                    \<lparr>sr_rc = 0, sr_out = o1 @ o2, sr_tag = sq_tag req, sr_resp = Some (length (o1 @ o2), 0)\<rparr>))"

definition gcm_decrypt :: "('c, 'k) evp \<Rightarrow> sym_req \<Rightarrow> evp_cipher \<Rightarrow> string \<Rightarrow> string \<Rightarrow> nat \<Rightarrow> 'c \<Rightarrow> sym_result" where
  "gcm_decrypt e req ci key inp cap c0 =
     (case big_tag req of
        None \<Rightarrow> sym_fail req EINVAL []
      | Some t \<Rightarrow>
          (case Option.bind (gcm_init e False req ci key c0)
                  (\<lambda>c. Option.bind (set_tag e c (take HW_CRYPTO_GCM_TAG_LEN t)) (feed_aad e False req)) of
             None \<Rightarrow> sym_fail req EINVAL []
           | Some c \<Rightarrow> decrypt_data e req inp cap c))"

definition cbc_decrypt :: "('c, 'k) evp \<Rightarrow> sym_req \<Rightarrow> evp_cipher \<Rightarrow> string \<Rightarrow> string \<Rightarrow> nat \<Rightarrow> 'c \<Rightarrow> sym_result" where
  "cbc_decrypt e req ci key inp cap c0 =
     (case init_ex e False c0 (Some ci) (Some key) (sq_iv req) of
        None \<Rightarrow> sym_fail req EINVAL []
      | Some c \<Rightarrow> decrypt_data e req inp cap c)"

definition crypto_decrypt_impl :: "('c, 'k) evp \<Rightarrow> sym_req \<Rightarrow> sym_result" where
  "crypto_decrypt_impl e req =
     (case sym_guard req of
        Inl rc \<Rightarrow> sym_fail req rc []
      | Inr (spec, key, inp, cap) \<Rightarrow>
          (case cipher_ctx_new e of
             None \<Rightarrow> sym_fail req ENOMEM []
           | Some c \<Rightarrow>
               if cs_aead spec then gcm_decrypt e req (cs_cipher spec) key inp cap c
               else cbc_decrypt e req (cs_cipher spec) key inp cap c))"

section \<open>Keys\<close>

definition crypto_rsa_bits_from_algo :: "int \<Rightarrow> int" where
  "crypto_rsa_bits_from_algo algo = (if algo = 0 then 2048 else if algo = 1 then 4096 else 0)"

record keygen_req =
  kr_algo :: int
  kr_bits :: "32 word"

definition crypto_gen_sym_key_impl :: "('c, 'k) evp \<Rightarrow> keygen_req \<Rightarrow> rc + string" where
  "crypto_gen_sym_key_impl e req =
     (case (if kr_bits req = 128 \<or> kr_bits req = 256 then Some (sint (kr_bits req) div 8)
            else map_option cs_key_len (cipher_lookup (kr_algo req))) of
        None \<Rightarrow> Inl ENOTSUP
      | Some klen \<Rightarrow>
          if klen \<le> 0 \<or> 64 < klen then Inl EINVAL
          else (case RAND_bytes e (nat klen) of None \<Rightarrow> Inl EIO | Some k \<Rightarrow> Inr k))"

text \<open>The texts of the private and the public key, which have to fit their buffers with a NUL.\<close>

definition crypto_gen_rsa_key_impl :: "('c, 'k) evp \<Rightarrow> keygen_req \<Rightarrow> rc + string \<times> string" where
  "crypto_gen_rsa_key_impl e req =
     (let bits = (if kr_bits req = 0 then crypto_rsa_bits_from_algo (kr_algo req) else sint (kr_bits req)) in
      if bits \<le> 0 then Inl EINVAL
      else if HW_CRYPTO_MAX_KEY_RSA < bits then Inl ENOTSUP
      else case rsa_keygen e bits of
             None \<Rightarrow> Inl EIO
           | Some (priv, pub) \<Rightarrow>
               if 16 * 1024 \<le> length priv \<or> 4 * 1024 \<le> length pub then Inl EIO else Inr (priv, pub))"

text \<open>
  \<^verbatim>\<open>strstr\<close> reads up to the first NUL: in a buffer without one it runs over the end, unless it finds
  what it looks for before.
\<close>

abbreviation NUL :: char where "NUL \<equiv> CHR 0x00"

definition strstr :: "string \<Rightarrow> string \<Rightarrow> bool outcome" where
  "strstr buf x =
     (let s = takeWhile (\<lambda>c. c \<noteq> NUL) buf in
      if sublist x s then Ret True else if NUL \<in> set buf then Ret False else Fault)"

fun any_strstr :: "string \<Rightarrow> string list \<Rightarrow> bool outcome" where
  "any_strstr buf [] = Ret False"
| "any_strstr buf (x # xs) =
     (case strstr buf x of Fault \<Rightarrow> Fault | Ret True \<Rightarrow> Ret True | Ret False \<Rightarrow> any_strstr buf xs)"

text \<open>The code and, on success, what is stored behind \<^verbatim>\<open>is_asym\<close>.\<close>

definition crypto_import_pem_impl :: "string option \<Rightarrow> bool \<Rightarrow> (rc \<times> bool option) outcome" where
  "crypto_import_pem_impl pem expected_asym =
     (case pem of
        None \<Rightarrow> Ret (EINVAL, None)
      | Some b \<Rightarrow>
          if b = [] then Ret (EINVAL, None)
          else if expected_asym then
            (case any_strstr b [''PRIVATE KEY'', ''PUBLIC KEY'', ''RSA PRIVATE KEY'', ''RSA PUBLIC KEY''] of
               Fault \<Rightarrow> Fault
             | Ret True \<Rightarrow> Ret (0, Some True)
             | Ret False \<Rightarrow> Ret (EILSEQ, None))
          else
            let n = (if last b = NUL then length b - 1 else length b) in
            if n < 16 then Ret (EINVAL, None) else Ret (0, Some False))"

text \<open>The bytes written; their number is the new \<^verbatim>\<open>*out_len\<close>.\<close>

definition crypto_export_pem_impl :: "string option \<Rightarrow> nat option \<Rightarrow> rc + string" where
  "crypto_export_pem_impl in_pem out_cap =
     (case (in_pem, out_cap) of
        (Some b, Some cap) \<Rightarrow>
          if b = [] then Inl EINVAL
          else
            let n = (if last b = NUL then length b - 1 else length b) in
            if cap < n + 1 then Inl ENOMEM else Inr (take n b @ [NUL])
      | _ \<Rightarrow> Inl EINVAL)"

section \<open>Signatures\<close>

record sign_req =
  sg_pem :: "string option"
  sg_md :: "string option"
  sg_data :: "string option"
  sg_sig :: "string option"

definition crypto_sign_impl :: "('c, 'k) evp \<Rightarrow> sign_req \<Rightarrow> rc + string" where
  "crypto_sign_impl e req =
     (case (sg_pem req, sg_data req, sg_sig req) of
        (Some pem, Some data, Some buf) \<Rightarrow>
          (case rsa_md (sg_md req) of
             None \<Rightarrow> Inl ENOTSUP
           | Some md \<Rightarrow>
               (case read_private_key e pem of
                  None \<Rightarrow> Inl EILSEQ
                | Some k \<Rightarrow>
                    (case digest_sign e md k data of
                       None \<Rightarrow> Inl EIO
                     | Some s \<Rightarrow> if length buf < length s then Inl ENOMEM else Inr s)))
      | _ \<Rightarrow> Inl EINVAL)"

definition crypto_verify_impl :: "('c, 'k) evp \<Rightarrow> sign_req \<Rightarrow> rc + bool" where
  "crypto_verify_impl e req =
     (case (sg_pem req, sg_data req, sg_sig req) of
        (Some pem, Some data, Some sg) \<Rightarrow>
          (case rsa_md (sg_md req) of
             None \<Rightarrow> Inl ENOTSUP
           | Some md \<Rightarrow>
               (case (case read_pubkey e pem of Some k \<Rightarrow> Some k | None \<Rightarrow> read_rsa_pubkey e pem) of
                  None \<Rightarrow> Inl EILSEQ
                | Some k \<Rightarrow>
                    (case digest_verify e md k data sg of
                       None \<Rightarrow> Inl EIO
                     | Some rv \<Rightarrow> if rv < 0 then Inl EIO else Inr (rv = 1))))
      | _ \<Rightarrow> Inl EINVAL)"

record capability =
  cipher_supported :: "int list"
  hash_supported :: "int list"
  asym_supported :: "int list"
  rng_available :: bool
  libcrypto_available :: bool
  backend :: string

definition crypto_capabilities_impl :: "bool \<Rightarrow> string \<Rightarrow> capability" where
  "crypto_capabilities_impl rand_status version =
     \<lparr>cipher_supported = [0, 1, 2, 3, 0, 0, 0, 0], hash_supported = [0, 1, 2, 0, 0, 0, 0, 0], asym_supported = [0, 1, 0, 0],
      rng_available = rand_status, libcrypto_available = True, backend = cstr 64 (''libcrypto '' @ version)\<rparr>"

end
