(* ===== verification/CryptoCorrect.thy ===== *)
theory CryptoCorrect
  imports Crypto
begin

text \<open>
  The CRYPTO operations over an OpenSSL that keeps the contract of its EVP interface, and over
  ciphers of which only the algebra is known: messages decrypt to what was encrypted; a forged
  message is refused with its plaintext already written; the authentication tag may be lost; HMAC and
  the import of keys leave their buffers.  A small library that works block by block meets the contract.
\<close>

section \<open>The contract of the ciphers\<close>

text \<open>
  A stream cipher that is its own inverse with a tag over associated data and ciphertext (GCM), and a
  padded block cipher (CBC): both may depend on everything else in any way.
\<close>

record algebra =
  al_stream :: "evp_cipher \<Rightarrow> string \<Rightarrow> string \<Rightarrow> string \<Rightarrow> string"
  al_tag :: "evp_cipher \<Rightarrow> string \<Rightarrow> string \<Rightarrow> string \<Rightarrow> string \<Rightarrow> string"
  al_pad :: "evp_cipher \<Rightarrow> string \<Rightarrow> string \<Rightarrow> string \<Rightarrow> string"
  al_unpad :: "evp_cipher \<Rightarrow> string \<Rightarrow> string \<Rightarrow> string \<Rightarrow> string option"

definition algebra_ok :: "algebra \<Rightarrow> bool" where
  "algebra_ok A \<longleftrightarrow>
     (\<forall>ci k iv x. al_stream A ci k iv (al_stream A ci k iv x) = x \<and> length (al_stream A ci k iv x) = length x) \<and>
     (\<forall>ci k iv a x. length (al_tag A ci k iv a x) = HW_CRYPTO_GCM_TAG_LEN) \<and>
     (\<forall>ci k iv x. al_unpad A ci k iv (al_pad A ci k iv x) = Some x \<and>
        length x < length (al_pad A ci k iv x) \<and> length (al_pad A ci k iv x) \<le> length x + 16)"

text \<open>What has been fed into a context: the direction comes with the first initialisation.\<close>

record feed =
  fd_dir :: "bool option"
  fd_cipher :: "evp_cipher option"
  fd_key :: "string option"
  fd_iv :: "string option"
  fd_aad :: string
  fd_tag :: "string option"
  fd_data :: "string option"
  fd_given :: string

definition feed0 :: feed where
  "feed0 =
     \<lparr>fd_dir = None, fd_cipher = None, fd_key = None, fd_iv = None, fd_aad = [], fd_tag = None, fd_data = None, fd_given = []\<rparr>"

definition override :: "'a option \<Rightarrow> 'a option \<Rightarrow> 'a option" where
  "override x y = (case x of None \<Rightarrow> y | Some _ \<Rightarrow> x)"

definition aead :: "evp_cipher \<Rightarrow> bool" where
  "aead ci \<longleftrightarrow> ci = AES_128_GCM \<or> ci = AES_256_GCM"

definition key_size :: "evp_cipher \<Rightarrow> nat" where
  "key_size ci = (if ci = AES_128_CBC \<or> ci = AES_128_GCM then 16 else 32)"

definition iv_size :: "evp_cipher \<Rightarrow> nat" where
  "iv_size ci = (if aead ci then 12 else 16)"

text \<open>A context that is ready for data in one direction.\<close>

definition set_up :: "bool \<Rightarrow> feed \<Rightarrow> evp_cipher \<Rightarrow> string \<Rightarrow> string \<Rightarrow> bool" where
  "set_up enc s ci k iv \<longleftrightarrow> fd_dir s = Some enc \<and> fd_cipher s = Some ci \<and> fd_key s = Some k \<and> fd_iv s = Some iv"

text \<open>
  The contract, \<open>tracks c s\<close>: the context \<open>c\<close> has been fed \<open>s\<close>.  A context is initialised for one direction,
  with a key and an IV of the sizes of its cipher, and every later call is in that direction.  The additional
  data and, for decrypting, the tag come before the data.  GCM gives each byte at once, and its final call
  nothing but the verdict on the tag.  CBC gives whole blocks and keeps the rest for the final call: when
  encrypting, the two outputs are the padded message; when decrypting, they are the message, or the final call
  fails because of the padding.  Lengths are \<^verbatim>\<open>int\<close>.
\<close>

definition evp_setup_ok :: "('c, 'k) evp \<Rightarrow> ('c \<Rightarrow> feed \<Rightarrow> bool) \<Rightarrow> bool" where
  "evp_setup_ok e tracks \<longleftrightarrow>
     (\<exists>c. cipher_ctx_new e = Some c \<and> tracks c feed0) \<and>
     (\<forall>enc c s ci k iv a. tracks c s \<longrightarrow> fd_dir s = None \<or> fd_dir s = Some enc \<longrightarrow>
        fd_aad s = [] \<and> fd_tag s = None \<and> fd_data s = None \<longrightarrow> override ci (fd_cipher s) = Some a \<longrightarrow>
        pred_option (\<lambda>x. length x = key_size a) k \<longrightarrow> pred_option (\<lambda>x. length x = iv_size a) iv \<longrightarrow>
        (\<exists>c'. init_ex e enc c ci k iv = Some c' \<and>
           tracks c' (s\<lparr>fd_dir := Some enc, fd_cipher := Some a, fd_key := override k (fd_key s), fd_iv := override iv (fd_iv s)\<rparr>))) \<and>
     (\<forall>c s a. tracks c s \<longrightarrow> fd_cipher s = Some a \<longrightarrow> aead a \<longrightarrow> fd_iv s = None \<longrightarrow>
        (\<exists>c'. set_ivlen e c (int (iv_size a)) = Some c' \<and> tracks c' s)) \<and>
     (\<forall>c s t a. tracks c s \<longrightarrow> fd_dir s = Some False \<longrightarrow> fd_cipher s = Some a \<longrightarrow> aead a \<longrightarrow> fd_data s = None \<longrightarrow>
        length t = HW_CRYPTO_GCM_TAG_LEN \<longrightarrow> (\<exists>c'. set_tag e c t = Some c' \<and> tracks c' (s\<lparr>fd_tag := Some t\<rparr>))) \<and>
     (\<forall>enc c s x a k iv. tracks c s \<longrightarrow> set_up enc s a k iv \<longrightarrow> aead a \<longrightarrow> fd_data s = None \<longrightarrow> length x < 2 ^ 31 \<longrightarrow>
        (\<exists>c'. update_aad e enc c x = Some c' \<and> tracks c' (s\<lparr>fd_aad := fd_aad s @ x\<rparr>)))"

definition evp_data_ok :: "('c, 'k) evp \<Rightarrow> algebra \<Rightarrow> ('c \<Rightarrow> feed \<Rightarrow> bool) \<Rightarrow> bool" where
  "evp_data_ok e A tracks \<longleftrightarrow>
     (\<forall>enc c s x ci k iv. tracks c s \<longrightarrow> set_up enc s ci k iv \<longrightarrow> fd_data s = None \<longrightarrow> length x + 32 < 2 ^ 31 \<longrightarrow>
        (\<exists>c' y. crypt_update e enc c x = Some (c', y) \<and> tracks c' (s\<lparr>fd_data := Some x, fd_given := y\<rparr>) \<and>
           (if aead ci then y = al_stream A ci k iv x
            else if enc then prefix y (al_pad A ci k iv x)
            else pred_option (prefix y) (al_unpad A ci k iv x)))) \<and>
     (\<forall>c s x ci k iv. tracks c s \<longrightarrow> set_up True s ci k iv \<longrightarrow> fd_data s = Some x \<longrightarrow>
        (\<exists>c' y. crypt_final e True c = Some (c', y) \<and>
           (if aead ci then y = [] \<and> get_tag e c' = Some (al_tag A ci k iv (fd_aad s) (fd_given s))
            else fd_given s @ y = al_pad A ci k iv x))) \<and>
     (\<forall>c s x ci k iv. tracks c s \<longrightarrow> set_up False s ci k iv \<longrightarrow> fd_data s = Some x \<longrightarrow>
        (if aead ci
         then fd_tag s \<noteq> None \<longrightarrow>
           (if fd_tag s = Some (al_tag A ci k iv (fd_aad s) x)
            then \<exists>c'. crypt_final e False c = Some (c', []) else crypt_final e False c = None)
         else (case al_unpad A ci k iv x of
                 None \<Rightarrow> crypt_final e False c = None
               | Some pt \<Rightarrow> \<exists>c' y. crypt_final e False c = Some (c', y) \<and> fd_given s @ y = pt)))"

definition evp_ok :: "('c, 'k) evp \<Rightarrow> algebra \<Rightarrow> ('c \<Rightarrow> feed \<Rightarrow> bool) \<Rightarrow> bool" where
  "evp_ok e A tracks \<longleftrightarrow> evp_setup_ok e tracks \<and> evp_data_ok e A tracks"

lemma evp_okD: "evp_ok e A tracks \<Longrightarrow> evp_setup_ok e tracks" "evp_ok e A tracks \<Longrightarrow> evp_data_ok e A tracks"
  by (simp_all add: evp_ok_def)

lemma evp_new: "evp_ok e A tracks \<Longrightarrow> \<exists>c. cipher_ctx_new e = Some c \<and> tracks c feed0"
  by (blast dest: evp_okD(1) evp_setup_ok_def [THEN iffD1, THEN conjunct1])

lemma evp_init:
  "evp_ok e A tracks \<Longrightarrow> tracks c s \<Longrightarrow> fd_dir s = None \<or> fd_dir s = Some enc \<Longrightarrow>
     fd_aad s = [] \<and> fd_tag s = None \<and> fd_data s = None \<Longrightarrow> override ci (fd_cipher s) = Some a \<Longrightarrow>
     pred_option (\<lambda>x. length x = key_size a) k \<Longrightarrow> pred_option (\<lambda>x. length x = iv_size a) iv \<Longrightarrow>
     \<exists>c'. init_ex e enc c ci k iv = Some c' \<and>
       tracks c' (s\<lparr>fd_dir := Some enc, fd_cipher := Some a, fd_key := override k (fd_key s), fd_iv := override iv (fd_iv s)\<rparr>)"
  by (rule evp_okD(1) [THEN evp_setup_ok_def [THEN iffD1, THEN conjunct2, THEN conjunct1], rule_format])

lemma evp_ivlen:
  "evp_ok e A tracks \<Longrightarrow> tracks c s \<Longrightarrow> fd_cipher s = Some a \<Longrightarrow> aead a \<Longrightarrow> fd_iv s = None \<Longrightarrow>
     \<exists>c'. set_ivlen e c (int (iv_size a)) = Some c' \<and> tracks c' s"
  by (rule evp_okD(1) [THEN evp_setup_ok_def [THEN iffD1, THEN conjunct2, THEN conjunct2, THEN conjunct1], rule_format])

lemma evp_tag:
  "evp_ok e A tracks \<Longrightarrow> tracks c s \<Longrightarrow> fd_dir s = Some False \<Longrightarrow> fd_cipher s = Some a \<Longrightarrow> aead a \<Longrightarrow> fd_data s = None \<Longrightarrow>
     length t = HW_CRYPTO_GCM_TAG_LEN \<Longrightarrow> \<exists>c'. set_tag e c t = Some c' \<and> tracks c' (s\<lparr>fd_tag := Some t\<rparr>)"
  by (rule evp_okD(1) [THEN evp_setup_ok_def [THEN iffD1, THEN conjunct2, THEN conjunct2, THEN conjunct2, THEN conjunct1], rule_format])

lemma evp_aad:
  "evp_ok e A tracks \<Longrightarrow> tracks c s \<Longrightarrow> set_up enc s a k iv \<Longrightarrow> aead a \<Longrightarrow> fd_data s = None \<Longrightarrow> length x < 2 ^ 31 \<Longrightarrow>
     \<exists>c'. update_aad e enc c x = Some c' \<and> tracks c' (s\<lparr>fd_aad := fd_aad s @ x\<rparr>)"
  by (rule evp_okD(1) [THEN evp_setup_ok_def [THEN iffD1, THEN conjunct2, THEN conjunct2, THEN conjunct2, THEN conjunct2], rule_format])

lemma evp_update:
  "evp_ok e A tracks \<Longrightarrow> tracks c s \<Longrightarrow> set_up enc s ci k iv \<Longrightarrow> fd_data s = None \<Longrightarrow> length x + 32 < 2 ^ 31 \<Longrightarrow>
     \<exists>c' y. crypt_update e enc c x = Some (c', y) \<and> tracks c' (s\<lparr>fd_data := Some x, fd_given := y\<rparr>) \<and>
       (if aead ci then y = al_stream A ci k iv x
        else if enc then prefix y (al_pad A ci k iv x)
        else pred_option (prefix y) (al_unpad A ci k iv x))"
  by (rule evp_okD(2) [THEN evp_data_ok_def [THEN iffD1, THEN conjunct1], rule_format])

lemma evp_encrypted:
  "evp_ok e A tracks \<Longrightarrow> tracks c s \<Longrightarrow> set_up True s ci k iv \<Longrightarrow> fd_data s = Some x \<Longrightarrow>
     \<exists>c' y. crypt_final e True c = Some (c', y) \<and>
       (if aead ci then y = [] \<and> get_tag e c' = Some (al_tag A ci k iv (fd_aad s) (fd_given s))
        else fd_given s @ y = al_pad A ci k iv x)"
  by (rule evp_okD(2) [THEN evp_data_ok_def [THEN iffD1, THEN conjunct2, THEN conjunct1], rule_format])

lemma evp_decrypted:
  assumes "evp_ok e A tracks" and "tracks c s" and "set_up False s ci k iv" and "fd_data s = Some x"
  shows "aead ci \<Longrightarrow> fd_tag s = Some t \<Longrightarrow> if t = al_tag A ci k iv (fd_aad s) x
      then \<exists>c'. crypt_final e False c = Some (c', []) else crypt_final e False c = None"
    and "\<not> aead ci \<Longrightarrow> al_unpad A ci k iv x = Some pt \<Longrightarrow> \<exists>c' y. crypt_final e False c = Some (c', y) \<and> fd_given s @ y = pt"
  using evp_okD(2) [OF assms(1), THEN evp_data_ok_def [THEN iffD1, THEN conjunct2, THEN conjunct2], rule_format, OF assms(2-4)]
  by (simp_all split: if_splits)

section \<open>What the operations compute\<close>

definition aad_of :: "sym_req \<Rightarrow> string" where
  "aad_of req = (case sq_aad req of None \<Rightarrow> [] | Some a \<Rightarrow> a)"

text \<open>
  A request whose IV has the length it says, with a key of the length of the cipher, and texts whose length is
  an \<^verbatim>\<open>int\<close> also when the padding is added.
\<close>

definition iv_given :: "evp_cipher \<Rightarrow> string \<Rightarrow> sym_req \<Rightarrow> string \<Rightarrow> bool" where
  "iv_given ci key req iv \<longleftrightarrow> sq_iv req = Some iv \<and> length iv = iv_size ci \<and> sq_iv_len req = int (iv_size ci) \<and>
     length key = key_size ci \<and> length (aad_of req) < 2 ^ 31"

text \<open>A context after the calls before the data.\<close>

definition fed :: "bool \<Rightarrow> evp_cipher \<Rightarrow> string \<Rightarrow> string \<Rightarrow> feed" where
  "fed enc ci key iv = feed0\<lparr>fd_dir := Some enc, fd_cipher := Some ci, fd_key := Some key, fd_iv := Some iv\<rparr>"

lemma fed_simps [simp]:
  "fd_aad (fed enc ci key iv) = []" "fd_tag (fed enc ci key iv) = None" "fd_data (fed enc ci key iv) = None"
  "fd_dir (fed enc ci key iv) = Some enc" "fd_cipher (fed enc ci key iv) = Some ci"
  by (simp_all add: fed_def feed0_def)

lemma set_up_fed [simp]:
  "set_up enc (fed enc ci key iv) ci key iv"
  "set_up enc (s\<lparr>fd_aad := a\<rparr>) ci key iv = set_up enc s ci key iv"
  "set_up enc (s\<lparr>fd_tag := t\<rparr>) ci key iv = set_up enc s ci key iv"
  "set_up enc (s\<lparr>fd_data := d, fd_given := y\<rparr>) ci key iv = set_up enc s ci key iv"
  by (simp_all add: set_up_def fed_def feed0_def)

lemma gcm_ready:
  assumes ok: "evp_ok e A tracks" and c: "tracks c feed0" and a: "aead ci" and iv: "iv_given ci key req iv"
  obtains c' where "gcm_init e enc req ci key c = Some c'" and "tracks c' (fed enc ci key iv)"
proof -
  note g = iv [unfolded iv_given_def]
  let ?s = "feed0\<lparr>fd_dir := Some enc, fd_cipher := Some ci\<rparr>"
  obtain c1 where c1: "init_ex e enc c (Some ci) None None = Some c1" "tracks c1 ?s"
    using evp_init [OF ok c, of enc "Some ci" ci None None] by (auto simp: override_def feed0_def)
  obtain c2 where c2: "set_ivlen e c1 (sq_iv_len req) = Some c2" "tracks c2 ?s"
    using evp_ivlen [OF ok c1(2), of ci] a g by (auto simp: feed0_def)
  obtain c3 where "init_ex e enc c2 None (Some key) (sq_iv req) = Some c3" and "tracks c3 (fed enc ci key iv)"
    using evp_init [OF ok c2(2), of enc None ci "Some key" "sq_iv req"] g by (auto simp: override_def feed0_def fed_def)
  then show thesis using that c1 c2 by (simp add: gcm_init_def)
qed

lemma cbc_ready:
  assumes ok: "evp_ok e A tracks" and c: "tracks c feed0" and iv: "iv_given ci key req iv"
  obtains c' where "init_ex e enc c (Some ci) (Some key) (sq_iv req) = Some c'" and "tracks c' (fed enc ci key iv)"
  using evp_init [OF ok c, of enc "Some ci" ci "Some key" "sq_iv req"] iv that
  by (auto simp: override_def feed0_def fed_def iv_given_def)

lemma aad_ready:
  assumes ok: "evp_ok e A tracks" and c: "tracks c s" and s: "fd_aad s = []" "fd_data s = None" "set_up enc s ci key iv"
    and "aead ci" and iv: "iv_given ci key req iv"
  obtains c' where "feed_aad e enc req c = Some c'" and "tracks c' (s\<lparr>fd_aad := aad_of req\<rparr>)"
proof (cases "sq_aad req = None \<or> sq_aad req = Some []")
  case True
  then have "feed_aad e enc req c = Some c" and "s\<lparr>fd_aad := aad_of req\<rparr> = s"
    using s(1) by (auto simp: feed_aad_def aad_of_def)
  then show thesis using that c by simp
next
  case False
  have "length (aad_of req) < 2 ^ 31" using iv unfolding iv_given_def by blast
  with evp_aad [OF ok c s(3) assms(6) s(2)] obtain c' where "update_aad e enc c (aad_of req) = Some c'"
    "tracks c' (s\<lparr>fd_aad := aad_of req\<rparr>)" using s(1) by auto
  with False show thesis using that by (auto simp: feed_aad_def aad_of_def)
qed

lemma gcm_encrypt_result:
  assumes ok: "evp_ok e A tracks" and c: "tracks c feed0" and a: "aead ci" and len: "length inp \<le> cap" "length inp + 32 < 2 ^ 31"
    and iv: "iv_given ci key req iv"
  shows "gcm_encrypt e req ci key inp cap c =
     (let ct = al_stream A ci key iv inp in
      case big_tag req of
        None \<Rightarrow> \<lparr>sr_rc = 0, sr_out = ct, sr_tag = sq_tag req, sr_resp = Some (length ct, 0)\<rparr>
      | Some t \<Rightarrow> \<lparr>sr_rc = 0, sr_out = ct,
          sr_tag = Some (al_tag A ci key iv (aad_of req) ct @ drop HW_CRYPTO_GCM_TAG_LEN t),
          sr_resp = Some (length ct, HW_CRYPTO_GCM_TAG_LEN)\<rparr>)"
proof -
  obtain c1 where c1: "gcm_init e True req ci key c = Some c1" "tracks c1 (fed True ci key iv)"
    using gcm_ready [OF ok c a iv] .
  obtain c2 where c2: "feed_aad e True req c1 = Some c2" "tracks c2 ((fed True ci key iv)\<lparr>fd_aad := aad_of req\<rparr>)"
    using aad_ready [OF ok c1(2) _ _ _ a iv, of True] by auto
  obtain c3 where c3: "crypt_update e True c2 inp = Some (c3, al_stream A ci key iv inp)"
    "tracks c3 ((fed True ci key iv)\<lparr>fd_aad := aad_of req, fd_data := Some inp, fd_given := al_stream A ci key iv inp\<rparr>)"
    using evp_update [OF ok c2(2), of True ci key iv inp] a len(2) by auto
  obtain c4 where "crypt_final e True c3 = Some (c4, [])"
    and "get_tag e c4 = Some (al_tag A ci key iv (aad_of req) (al_stream A ci key iv inp))"
    using evp_encrypted [OF ok c3(2), of ci key iv inp] a by auto
  then show ?thesis
    using c1(1) c2(1) c3(1) len(1) by (simp add: gcm_encrypt_def Let_def split: option.split)
qed

lemma gcm_decrypt_result:
  assumes ok: "evp_ok e A tracks" and c: "tracks c feed0" and a: "aead ci" and len: "length inp \<le> cap" "length inp + 32 < 2 ^ 31"
    and t: "big_tag req = Some t" and iv: "iv_given ci key req iv"
  shows "gcm_decrypt e req ci key inp cap c =
     (let pt = al_stream A ci key iv inp in
      if take HW_CRYPTO_GCM_TAG_LEN t = al_tag A ci key iv (aad_of req) inp
      then \<lparr>sr_rc = 0, sr_out = pt, sr_tag = sq_tag req, sr_resp = Some (length pt, 0)\<rparr>
      else sym_fail req EILSEQ pt)"
proof -
  let ?t = "take HW_CRYPTO_GCM_TAG_LEN t" and ?s = "(fed False ci key iv)\<lparr>fd_tag := Some (take HW_CRYPTO_GCM_TAG_LEN t)\<rparr>"
  have lt: "length ?t = HW_CRYPTO_GCM_TAG_LEN" using t by (auto simp: big_tag_def split: option.splits if_splits)
  obtain c1 where c1: "gcm_init e False req ci key c = Some c1" "tracks c1 (fed False ci key iv)"
    using gcm_ready [OF ok c a iv] .
  obtain c2 where c2: "set_tag e c1 ?t = Some c2" "tracks c2 ?s"
    using evp_tag [OF ok c1(2) _ _ a _ lt] by auto
  obtain c3 where c3: "feed_aad e False req c2 = Some c3" "tracks c3 (?s\<lparr>fd_aad := aad_of req\<rparr>)"
    using aad_ready [OF ok c2(2) _ _ _ a iv, of False] by auto
  obtain c4 where c4: "crypt_update e False c3 inp = Some (c4, al_stream A ci key iv inp)"
    "tracks c4 (?s\<lparr>fd_aad := aad_of req, fd_data := Some inp, fd_given := al_stream A ci key iv inp\<rparr>)"
    using evp_update [OF ok c3(2), of False ci key iv inp] a len(2) by auto
  have fin: "if ?t = al_tag A ci key iv (aad_of req) inp
      then \<exists>c'. crypt_final e False c4 = Some (c', []) else crypt_final e False c4 = None"
    using evp_decrypted(1) [OF ok c4(2) _ _ a, of key iv inp ?t] by simp
  show ?thesis
    using c1(1) c2(1) c3(1) c4(1) fin len(1) t
    by (auto simp: gcm_decrypt_def decrypt_data_def Let_def split: if_splits)
qed

lemma cbc_encrypt_result:
  assumes ok: "evp_ok e A tracks" and c: "tracks c feed0" and a: "\<not> aead ci"
    and len: "\<not> (of_nat cap :: 32 word) < of_nat (length inp) + 16" "length inp + 32 < 2 ^ 31"
    and iv: "iv_given ci key req iv"
  shows "cbc_encrypt e req ci key inp cap c =
     (let ct = al_pad A ci key iv inp in
      \<lparr>sr_rc = 0, sr_out = ct, sr_tag = sq_tag req, sr_resp = Some (length ct, 0)\<rparr>)"
proof -
  obtain c1 where c1: "init_ex e True c (Some ci) (Some key) (sq_iv req) = Some c1" "tracks c1 (fed True ci key iv)"
    using cbc_ready [OF ok c iv] .
  obtain c2 y where c2: "crypt_update e True c1 inp = Some (c2, y)"
    "tracks c2 ((fed True ci key iv)\<lparr>fd_data := Some inp, fd_given := y\<rparr>)"
    using evp_update [OF ok c1(2), of True ci key iv inp] len(2) by auto
  obtain c3 z where "crypt_final e True c2 = Some (c3, z)" and "y @ z = al_pad A ci key iv inp"
    using evp_encrypted [OF ok c2(2), of ci key iv inp] a by auto
  then show ?thesis
    using c1(1) c2(1) len(1) by (simp add: cbc_encrypt_def Let_def flip: length_append)
qed

lemma cbc_decrypt_result:
  assumes ok: "evp_ok e A tracks" and c: "tracks c feed0" and a: "\<not> aead ci" and len: "length inp \<le> cap" "length inp + 32 < 2 ^ 31"
    and iv: "iv_given ci key req iv" and pt: "al_unpad A ci key iv inp = Some pt"
  shows "cbc_decrypt e req ci key inp cap c =
     \<lparr>sr_rc = 0, sr_out = pt, sr_tag = sq_tag req, sr_resp = Some (length pt, 0)\<rparr>"
proof -
  obtain c1 where c1: "init_ex e False c (Some ci) (Some key) (sq_iv req) = Some c1" "tracks c1 (fed False ci key iv)"
    using cbc_ready [OF ok c iv] .
  obtain c2 y where c2: "crypt_update e False c1 inp = Some (c2, y)"
    "tracks c2 ((fed False ci key iv)\<lparr>fd_data := Some inp, fd_given := y\<rparr>)"
    using evp_update [OF ok c1(2), of False ci key iv inp] len(2) by auto
  obtain c3 z where "crypt_final e False c2 = Some (c3, z)" and "y @ z = pt"
    using evp_decrypted(2) [OF ok c2(2) _ _ a pt] by auto
  then show ?thesis
    using c1(1) c2(1) len(1) by (auto simp: cbc_decrypt_def decrypt_data_def)
qed

section \<open>A library that keeps the contract\<close>

text \<open>
  Ciphers that do not encrypt, with the padding of PKCS 7: the last byte says how many bytes were added.  Data
  goes through CBC in blocks of 16 bytes, and decrypting keeps the last block for the final call.
\<close>

definition pkcs7 :: "string \<Rightarrow> string" where
  "pkcs7 x = (let n = 16 - length x mod 16 in x @ replicate n (char_of n))"

definition unpkcs7 :: "string \<Rightarrow> string option" where
  "unpkcs7 y =
     (if y = [] \<or> length y mod 16 \<noteq> 0 then None
      else let n = of_char (last y) :: nat in
        if 1 \<le> n \<and> n \<le> 16 \<and> drop (length y - n) y = replicate n (last y) then Some (take (length y - n) y) else None)"

definition blocks :: "nat \<Rightarrow> string \<Rightarrow> string" where
  "blocks n x = take (16 * (n div 16)) x"

definition toy_algebra :: algebra where
  "toy_algebra =
     \<lparr>al_stream = (\<lambda>ci k iv x. x), al_tag = (\<lambda>ci k iv a x. take 16 (a @ x @ replicate 16 (CHR ''t''))),
      al_pad = (\<lambda>ci k iv. pkcs7), al_unpad = (\<lambda>ci k iv. unpkcs7)\<rparr>"

lemma unpkcs7_pkcs7: "unpkcs7 (pkcs7 x) = Some x"
proof -
  let ?n = "16 - length x mod 16"
  have n: "1 \<le> ?n" "?n \<le> 16" by (simp_all add: Suc_leI)
  have "length x mod 16 + ?n = 16" using n by simp
  then have "(length x + ?n) mod 16 = 0" by (metis mod_add_left_eq mod_self)
  moreover have "(of_char (char_of ?n :: char) :: nat) = ?n" using n(2) by simp
  ultimately show ?thesis
    using n by (simp add: pkcs7_def unpkcs7_def Let_def)
qed

lemma length_pkcs7: "length x < length (pkcs7 x)" "length (pkcs7 x) \<le> length x + 16"
  by (simp_all add: pkcs7_def Let_def)

lemma last_block: "n \<le> 16 \<Longrightarrow> m \<noteq> 0 \<Longrightarrow> m mod 16 = 0 \<Longrightarrow> 16 * ((m - 1) div 16) \<le> m - (n :: nat)"
proof -
  assume n: "n \<le> 16" and m: "m \<noteq> 0" "m mod 16 = 0"
  then obtain q where q: "m = 16 * q" by (metis mod_eq_0_iff_dvd dvdE)
  then obtain r where r: "q = Suc r" using m(1) by (cases q) auto
  have "(m - 1) div 16 = r" unfolding q r by simp
  then show "16 * ((m - 1) div 16) \<le> m - n" using n by (simp add: q r)
qed

lemma unpkcs7_blocks:
  assumes "unpkcs7 x = Some pt"
  shows "prefix (blocks (length x - 1) x) pt"
proof -
  obtain n :: nat where n: "n \<le> 16" "pt = take (length x - n) x" and x: "x \<noteq> []" "length x mod 16 = 0"
    using assms by (auto simp: unpkcs7_def Let_def split: if_splits)
  have "16 * ((length x - 1) div 16) \<le> length x - n" using last_block [OF n(1) _ x(2)] x(1) by simp
  then show ?thesis unfolding n(2) blocks_def by (metis min.absorb1 take_is_prefix take_take)
qed

lemma toy_algebra_ok: "algebra_ok toy_algebra"
  by (auto simp: algebra_ok_def toy_algebra_def min_def unpkcs7_pkcs7 length_pkcs7)

definition toy_aead :: "feed \<Rightarrow> bool" where
  "toy_aead s \<longleftrightarrow> (case fd_cipher s of None \<Rightarrow> False | Some ci \<Rightarrow> aead ci)"

definition toy_tag :: "feed \<Rightarrow> string \<Rightarrow> string" where
  "toy_tag s x = take 16 (fd_aad s @ x @ replicate 16 (CHR ''t''))"

definition toy_given :: "bool \<Rightarrow> feed \<Rightarrow> string \<Rightarrow> string" where
  "toy_given enc s x = (if toy_aead s then x else if enc then blocks (length x) x else blocks (length x - 1) x)"

definition toy_final :: "bool \<Rightarrow> feed \<Rightarrow> (feed \<times> string) option" where
  "toy_final enc s =
     (case fd_data s of
        None \<Rightarrow> None
      | Some x \<Rightarrow>
          if fd_dir s \<noteq> Some enc then None
          else if toy_aead s then (if enc \<or> fd_tag s = Some (toy_tag s x) then Some (s, []) else None)
          else if enc then Some (s, drop (length (fd_given s)) (pkcs7 x))
          else map_option (\<lambda>pt. (s, drop (length (fd_given s)) pt)) (unpkcs7 x))"

definition toy_digest :: string where
  "toy_digest = replicate 32 (CHR ''d'')"

definition toy_evp :: "(feed, unit) evp" where
  "toy_evp =
     \<lparr>cipher_ctx_new = Some feed0,
      init_ex = (\<lambda>enc s ci k iv. Some (s\<lparr>fd_dir := Some enc, fd_cipher := override ci (fd_cipher s),
        fd_key := override k (fd_key s), fd_iv := override iv (fd_iv s)\<rparr>)),
      set_ivlen = (\<lambda>s n. if n = 12 then Some s else None),
      set_tag = (\<lambda>s t. if fd_dir s = Some False then Some (s\<lparr>fd_tag := Some t\<rparr>) else None),
      get_tag = (\<lambda>s. if fd_dir s = Some True then Some (toy_tag s (fd_given s)) else None),
      update_aad = (\<lambda>enc s x. if fd_dir s = Some enc then Some (s\<lparr>fd_aad := fd_aad s @ x\<rparr>) else None),
      crypt_update = (\<lambda>enc s x.
        if fd_dir s = Some enc \<and> fd_iv s \<noteq> None
        then let y = toy_given enc s x in Some (s\<lparr>fd_data := Some x, fd_given := y\<rparr>, y) else None),
      crypt_final = toy_final,
      md_size = (\<lambda>_. 32), digest = (\<lambda>_ _. Some toy_digest), HMAC = (\<lambda>_ _ _. Some toy_digest),
      RAND_bytes = (\<lambda>n. Some (replicate n (CHR ''r''))), rsa_keygen = (\<lambda>_. None), read_private_key = (\<lambda>_. None),
      read_pubkey = (\<lambda>_. None), read_rsa_pubkey = (\<lambda>_. None), digest_sign = (\<lambda>_ _ _. None), digest_verify = (\<lambda>_ _ _ _. None)\<rparr>"

definition toy_tracks :: "feed \<Rightarrow> feed \<Rightarrow> bool" where
  "toy_tracks c s \<longleftrightarrow> c = s \<and>
     (case (fd_data s, fd_dir s) of (Some x, Some enc) \<Rightarrow> fd_given s = toy_given enc s x | _ \<Rightarrow> True)"

lemma toy_setup_ok: "evp_setup_ok toy_evp toy_tracks"
  unfolding evp_setup_ok_def
  by (intro conjI allI impI)
    (auto simp: toy_evp_def toy_tracks_def feed0_def override_def set_up_def iv_size_def toy_given_def toy_aead_def
      split: option.splits)

lemma prefix_blocks: "prefix (blocks n x) (x @ y)"
  by (simp add: blocks_def take_is_prefix prefix_prefix)

lemma prefix_drop: "prefix u v \<Longrightarrow> u @ drop (length u) v = v"
  by (auto simp: prefix_def)

lemma toy_data_ok: "evp_data_ok toy_evp toy_algebra toy_tracks"
  unfolding evp_data_ok_def
proof (intro conjI allI impI)
  fix enc c s x ci k iv
  assume "toy_tracks c s" "set_up enc s ci k iv"
  then show "\<exists>c' y. crypt_update toy_evp enc c x = Some (c', y) \<and> toy_tracks c' (s\<lparr>fd_data := Some x, fd_given := y\<rparr>) \<and>
      (if aead ci then y = al_stream toy_algebra ci k iv x
       else if enc then prefix y (al_pad toy_algebra ci k iv x) else pred_option (prefix y) (al_unpad toy_algebra ci k iv x))"
    using unpkcs7_blocks [of x] prefix_blocks [of "length x" x]
    by (cases "unpkcs7 x")
      (auto simp: toy_evp_def toy_tracks_def set_up_def toy_given_def toy_aead_def toy_algebra_def pkcs7_def Let_def)
next
  fix c s x ci k iv
  assume "toy_tracks c s" "set_up True s ci k iv" "fd_data s = Some x"
  then show "\<exists>c' y. crypt_final toy_evp True c = Some (c', y) \<and>
      (if aead ci then y = [] \<and> get_tag toy_evp c' = Some (al_tag toy_algebra ci k iv (fd_aad s) (fd_given s))
       else fd_given s @ y = al_pad toy_algebra ci k iv x)"
    using prefix_drop [OF prefix_blocks, of "length x" x]
    by (auto simp: toy_evp_def toy_final_def toy_tracks_def set_up_def toy_given_def toy_aead_def toy_algebra_def pkcs7_def
        Let_def toy_tag_def simp del: drop_append)
next
  fix c s x ci k iv
  assume "toy_tracks c s" "set_up False s ci k iv" "fd_data s = Some x"
  then show "if aead ci
      then fd_tag s \<noteq> None \<longrightarrow>
        (if fd_tag s = Some (al_tag toy_algebra ci k iv (fd_aad s) x)
         then \<exists>c'. crypt_final toy_evp False c = Some (c', []) else crypt_final toy_evp False c = None)
      else (case al_unpad toy_algebra ci k iv x of
              None \<Rightarrow> crypt_final toy_evp False c = None
            | Some pt \<Rightarrow> \<exists>c' y. crypt_final toy_evp False c = Some (c', y) \<and> fd_given s @ y = pt)"
    using prefix_drop [OF unpkcs7_blocks, of x]
    by (auto simp: toy_evp_def toy_final_def toy_tracks_def set_up_def toy_given_def toy_aead_def toy_algebra_def toy_tag_def
        split: option.splits)
qed

lemma toy_evp_ok: "evp_ok toy_evp toy_algebra toy_tracks"
  by (simp add: evp_ok_def toy_setup_ok toy_data_ok)

definition demo_sym :: "int \<Rightarrow> nat \<Rightarrow> string option \<Rightarrow> sym_req" where
  "demo_sym c n t =
     \<lparr>sq_cipher = c, sq_key = Some (replicate 16 (CHR ''k'')), sq_iv = Some (replicate n (CHR ''i'')), sq_iv_len = int n,
      sq_aad = Some ''head'', sq_in = Some ''attack at dawn'', sq_out = Some 64, sq_tag = t\<rparr>"

lemma demo_gcm: "sym_guard (demo_sym 2 12 t) =
    Inr (\<lparr>cs_cipher = AES_128_GCM, cs_key_len = 16, cs_iv_len = 12, cs_aead = True\<rparr>,
      replicate 16 (CHR ''k''), ''attack at dawn'', 64)"
  by (simp add: sym_guard_def demo_sym_def cipher_lookup_def)

lemma demo_cbc: "sym_guard (demo_sym 0 16 t) =
    Inr (\<lparr>cs_cipher = AES_128_CBC, cs_key_len = 16, cs_iv_len = 16, cs_aead = False\<rparr>,
      replicate 16 (CHR ''k''), ''attack at dawn'', 64)"
  by (simp add: sym_guard_def demo_sym_def cipher_lookup_def)

definition zero_tag :: string where
  "zero_tag = replicate 16 (CHR ''0'')"

section \<open>Properties\<close>

lemma lookup_cipher:
  assumes "cipher_lookup c = Some spec"
  shows "aead (cs_cipher spec) = cs_aead spec" "cs_key_len spec = int (key_size (cs_cipher spec))"
    "cs_iv_len spec = int (iv_size (cs_cipher spec))"
  using assms by (auto simp: cipher_lookup_def aead_def key_size_def iv_size_def split: if_splits)

text \<open>
  What a caller has to provide: an IV as long as the request says, buffers that hold the output, and texts of
  less than 2 GiB with the padding and a block to spare.
\<close>

definition enough :: "cipher_spec \<Rightarrow> sym_req \<Rightarrow> string \<Rightarrow> nat \<Rightarrow> bool" where
  "enough spec req pt cap \<longleftrightarrow> cap < 2 ^ 32 \<and> length pt + 48 < 2 ^ 31 \<and> length (aad_of req) < 2 ^ 31 \<and>
     pred_option (\<lambda>iv. int (length iv) = sq_iv_len req) (sq_iv req) \<and> sq_iv req \<noteq> None \<and>
     (if cs_aead spec then length pt \<le> cap \<and> big_tag req \<noteq> None else length pt + 16 \<le> cap)"

text \<open>The request that decrypts what an encryption has answered, with the same key, IV and associated data.\<close>

definition reply :: "sym_req \<Rightarrow> sym_result \<Rightarrow> sym_req" where
  "reply req r = req\<lparr>sq_in := Some (sr_out r), sq_tag := sr_tag r\<rparr>"

lemma sym_guard_ok:
  "sym_guard req = Inr (spec, key, inp, cap) \<Longrightarrow>
     cipher_lookup (sq_cipher req) = Some spec \<and> sq_key req = Some key \<and> sq_in req = Some inp \<and> sq_out req = Some cap"
  by (auto simp: sym_guard_def split: option.splits if_splits)

lemma sym_guard_tag: "sym_guard (req\<lparr>sq_tag := t\<rparr>) = sym_guard req"
  by (simp add: sym_guard_def split: option.split)

lemma sym_guard_reply:
  "sym_guard req = Inr (spec, key, inp, cap) \<Longrightarrow> sym_guard (reply req r) = Inr (spec, key, sr_out r, cap)"
  by (auto simp: sym_guard_def reply_def split: option.splits if_splits)

lemma reply_fields [simp]:
  "sq_iv (reply req r) = sq_iv req" "aad_of (reply req r) = aad_of req" "sq_tag (reply req r) = sr_tag r"
  by (simp_all add: reply_def aad_of_def)

text \<open>What the guards and the caller provide, the same for a request and its reply.\<close>

lemma request_props:
  assumes guard: "sym_guard req = Inr (spec, key, pt, cap)" and room: "enough spec req pt cap"
  obtains iv where "aead (cs_cipher spec) = cs_aead spec" and "sq_iv req = Some iv" and "iv_given (cs_cipher spec) key req iv"
    and "\<And>r. iv_given (cs_cipher spec) key (reply req r) iv"
proof -
  obtain iv where iv: "sq_iv req = Some iv" "int (length iv) = sq_iv_len req" "length (aad_of req) < 2 ^ 31"
    using room by (auto simp: enough_def)
  have g: "cipher_lookup (sq_cipher req) = Some spec" using sym_guard_ok [OF guard] by blast
  note l = lookup_cipher [OF g]
  have "int (length key) = cs_key_len spec" "sq_iv_len req = cs_iv_len spec"
    using guard g by (auto simp: sym_guard_def split: option.splits if_splits)
  then have "iv_given (cs_cipher spec) key req iv" using iv l by (simp add: iv_given_def)
  moreover from this have "iv_given (cs_cipher spec) key (reply req r) iv" for r
    by (simp add: iv_given_def) (simp add: reply_def)
  ultimately show thesis using that l(1) iv(1) by blast
qed

lemma encrypt_result:
  assumes ok: "evp_ok e A tracks" and guard: "sym_guard req = Inr (spec, key, pt, cap)" and room: "enough spec req pt cap"
    and iv: "sq_iv req = Some iv"
  shows "crypto_encrypt_impl e req =
     (if cs_aead spec then
        let ct = al_stream A (cs_cipher spec) key iv pt in
        \<lparr>sr_rc = 0, sr_out = ct,
         sr_tag = Some (al_tag A (cs_cipher spec) key iv (aad_of req) ct @ drop HW_CRYPTO_GCM_TAG_LEN (the (sq_tag req))),
         sr_resp = Some (length ct, HW_CRYPTO_GCM_TAG_LEN)\<rparr>
      else
        let ct = al_pad A (cs_cipher spec) key iv pt in
        \<lparr>sr_rc = 0, sr_out = ct, sr_tag = sq_tag req, sr_resp = Some (length ct, 0)\<rparr>)"
proof -
  obtain c where c: "cipher_ctx_new e = Some c" "tracks c feed0"
    using evp_new [OF ok] by blast
  have ae: "aead (cs_cipher spec) = cs_aead spec" and given: "iv_given (cs_cipher spec) key req iv"
    using request_props [OF guard room] iv by (metis option.inject)+
  have len: "length pt + 32 < 2 ^ 31" using room by (simp add: enough_def)
  show ?thesis
  proof (cases "cs_aead spec")
    case True
    obtain t where t: "big_tag req = Some t" using room True by (auto simp: enough_def)
    moreover have "sq_tag req = Some t" using t by (auto simp: big_tag_def split: option.splits if_splits)
    moreover have "length pt \<le> cap" using room True by (simp add: enough_def)
    ultimately show ?thesis
      using gcm_encrypt_result [OF ok c(2) _ _ len given] True ae guard c(1)
      by (simp add: crypto_encrypt_impl_def)
  next
    case False
    have "\<not> (of_nat cap :: 32 word) < of_nat (length pt) + 16"
    proof -
      have "length pt + 16 \<le> cap" and "cap < 2 ^ 32" using room False by (simp_all add: enough_def)
      moreover have "(of_nat (length pt) + 16 :: 32 word) = of_nat (length pt + 16)" by simp
      ultimately show ?thesis
        by (simp only: word_less_nat_alt unat_of_nat) simp
    qed
    then show ?thesis
      using cbc_encrypt_result [OF ok c(2) _ _ len given] False ae guard c(1)
      by (simp add: crypto_encrypt_impl_def)
  qed
qed

text \<open>
  C16. For every libcrypto with the documented behaviour of its EVP functions, whatever its ciphers compute: a
  message of a request that the operation does not refuse, so under one of the four algorithms and with a key and IV
  length that are those of the cipher, is encrypted, and decrypts with the same key, IV and associated data to
  itself, provided the contexts can be allocated, the IV is as long as the request says, the buffers have the documented sizes (16 bytes more than the message for CBC, a tag buffer of
  16 bytes for GCM) and the lengths fit an \<^verbatim>\<open>int\<close>.
\<close>

theorem crypto_encrypt_decrypt:
  assumes ok: "evp_ok e A tracks" and alg: "algebra_ok A"
    and guard: "sym_guard req = Inr (spec, key, pt, cap)" and room: "enough spec req pt cap"
  shows "sr_rc (crypto_encrypt_impl e req) = 0 \<and>
     sr_rc (crypto_decrypt_impl e (reply req (crypto_encrypt_impl e req))) = 0 \<and>
     sr_out (crypto_decrypt_impl e (reply req (crypto_encrypt_impl e req))) = pt \<and>
     sr_resp (crypto_decrypt_impl e (reply req (crypto_encrypt_impl e req))) = Some (length pt, 0)"
proof -
  obtain c where c: "cipher_ctx_new e = Some c" "tracks c feed0"
    using evp_new [OF ok] by blast
  obtain iv where ae: "aead (cs_cipher spec) = cs_aead spec" and iv: "sq_iv req = Some iv"
    and given: "\<And>r. iv_given (cs_cipher spec) key (reply req r) iv"
    using request_props [OF guard room] by blast
  let ?r = "reply req (crypto_encrypt_impl e req)"
  note enc = encrypt_result [OF ok guard room iv]
  note guard2 = sym_guard_reply [OF guard, of "crypto_encrypt_impl e req"]
  have small: "length pt + 48 < 2 ^ 31" using room by (simp add: enough_def)
  show ?thesis
  proof (cases "cs_aead spec")
    case True
    let ?ct = "al_stream A (cs_cipher spec) key iv pt"
    have len: "length ?ct = length pt" and inv: "al_stream A (cs_cipher spec) key iv ?ct = pt"
      using alg by (simp_all add: algebra_ok_def)
    have tag: "length (al_tag A (cs_cipher spec) key iv (aad_of req) ?ct) = HW_CRYPTO_GCM_TAG_LEN"
      using alg unfolding algebra_ok_def by blast
    have bt: "big_tag ?r = Some (al_tag A (cs_cipher spec) key iv (aad_of req) ?ct @
        drop HW_CRYPTO_GCM_TAG_LEN (the (sq_tag req)))"
      using True tag by (simp add: big_tag_def enc Let_def)
    have "length ?ct \<le> cap" and "length ?ct + 32 < 2 ^ 31" using room True len small by (simp_all add: enough_def)
    from gcm_decrypt_result [OF ok c(2) _ this bt given] show ?thesis
      using True ae enc guard2 c(1) inv tag by (simp add: crypto_decrypt_impl_def Let_def)
  next
    case False
    let ?ct = "al_pad A (cs_cipher spec) key iv pt"
    have inv: "al_unpad A (cs_cipher spec) key iv ?ct = Some pt"
      using alg by (simp add: algebra_ok_def)
    have "length ?ct \<le> length pt + 16" using alg unfolding algebra_ok_def by blast
    then have len: "length ?ct \<le> cap" "length ?ct + 32 < 2 ^ 31" using room False small by (simp_all add: enough_def)
    from cbc_decrypt_result [OF ok c(2) _ len given inv] show ?thesis
      using False ae enc guard2 c(1) by (simp add: crypto_decrypt_impl_def Let_def)
  qed
qed

theorem crypto_encrypt_decrypt_witness:
  "sr_out (crypto_decrypt_impl toy_evp (reply (demo_sym 2 12 (Some zero_tag)) (crypto_encrypt_impl toy_evp (demo_sym 2 12 (Some zero_tag))))) =
     ''attack at dawn'' \<and>
   sr_out (crypto_decrypt_impl toy_evp (reply (demo_sym 0 16 None) (crypto_encrypt_impl toy_evp (demo_sym 0 16 None)))) =
     ''attack at dawn''"
  using crypto_encrypt_decrypt [OF toy_evp_ok toy_algebra_ok demo_gcm, of "Some zero_tag"]
    crypto_encrypt_decrypt [OF toy_evp_ok toy_algebra_ok demo_cbc, of None]
  by (simp add: enough_def big_tag_def demo_sym_def zero_tag_def aad_of_def)

text \<open>
  A message whose tag has been changed is refused with an error and without filling the response,
  but by then the whole plaintext has been written to the output buffer.
\<close>

theorem crypto_forged_message_released:
  assumes ok: "evp_ok e A tracks" and alg: "algebra_ok A"
    and guard: "sym_guard req = Inr (spec, key, pt, cap)" and room: "enough spec req pt cap" and gcm: "cs_aead spec"
    and forged: "r = crypto_encrypt_impl e req" "length t = HW_CRYPTO_GCM_TAG_LEN" "sr_tag r \<noteq> Some t" "length (the (sq_tag req)) = 16"
  shows "sr_rc (crypto_decrypt_impl e ((reply req r)\<lparr>sq_tag := Some t\<rparr>)) = EILSEQ \<and>
     sr_resp (crypto_decrypt_impl e ((reply req r)\<lparr>sq_tag := Some t\<rparr>)) = None \<and>
     sr_out (crypto_decrypt_impl e ((reply req r)\<lparr>sq_tag := Some t\<rparr>)) = pt"
proof -
  obtain c where c: "cipher_ctx_new e = Some c" "tracks c feed0"
    using evp_new [OF ok] by blast
  obtain iv where ae: "aead (cs_cipher spec)" and iv: "sq_iv req = Some iv"
    and given: "\<And>r. iv_given (cs_cipher spec) key (reply req r) iv"
    using request_props [OF guard room] gcm by metis
  let ?ct = "al_stream A (cs_cipher spec) key iv pt"
  let ?q = "(reply req r)\<lparr>sq_tag := Some t\<rparr>"
  have enc: "sr_out r = ?ct" "sr_tag r = Some (al_tag A (cs_cipher spec) key iv (aad_of req) ?ct)"
    using encrypt_result [OF ok guard room iv] gcm forged(1,4) by (simp_all add: Let_def)
  have q: "big_tag ?q = Some t" "sq_iv ?q = sq_iv req" "aad_of ?q = aad_of req"
    "sym_guard ?q = Inr (spec, key, ?ct, cap)"
    using sym_guard_reply [OF guard, of r] enc(1) forged(2)
    by (simp_all add: big_tag_def sym_guard_tag) (simp_all add: aad_of_def reply_def)
  have g: "iv_given (cs_cipher spec) key ?q iv" using given [of r] q(3) by (simp add: iv_given_def)
  have "length ?ct \<le> cap" "length ?ct + 32 < 2 ^ 31" and inv: "al_stream A (cs_cipher spec) key iv ?ct = pt"
    using room gcm alg by (simp_all add: enough_def algebra_ok_def)
  from gcm_decrypt_result [OF ok c(2) ae this(1,2) q(1) g]
  show ?thesis
    using q(2-4) c(1) gcm enc(2) forged(2,3) inv
    by (simp add: crypto_decrypt_impl_def Let_def sym_fail_def)
qed

theorem crypto_forged_message_released_witness:
  "let q = (reply (demo_sym 2 12 (Some zero_tag)) (crypto_encrypt_impl toy_evp (demo_sym 2 12 (Some zero_tag))))\<lparr>sq_tag := Some zero_tag\<rparr> in
   sr_rc (crypto_decrypt_impl toy_evp q) = EILSEQ \<and> sr_out (crypto_decrypt_impl toy_evp q) = ''attack at dawn''"
proof -
  have room: "enough \<lparr>cs_cipher = AES_128_GCM, cs_key_len = 16, cs_iv_len = 12, cs_aead = True\<rparr>
      (demo_sym 2 12 (Some zero_tag)) ''attack at dawn'' 64"
    by (simp add: enough_def big_tag_def demo_sym_def zero_tag_def aad_of_def)
  have "sr_tag (crypto_encrypt_impl toy_evp (demo_sym 2 12 (Some zero_tag))) \<noteq> Some zero_tag"
    using encrypt_result [OF toy_evp_ok demo_gcm room, of "replicate 12 (CHR ''i'')"]
    by (simp add: Let_def toy_algebra_def aad_of_def demo_sym_def zero_tag_def numeral_eq_Suc)
  then show ?thesis
    using crypto_forged_message_released [OF toy_evp_ok toy_algebra_ok demo_gcm room _ refl, of zero_tag]
    by (simp add: zero_tag_def demo_sym_def)
qed

text \<open>
  Without a buffer for the tag an encryption with authentication succeeds and forgets the tag:
  the request that decrypts the answer is refused.
\<close>

theorem crypto_tag_forgotten:
  assumes ok: "evp_ok e A tracks" and guard: "sym_guard req = Inr (spec, key, pt, cap)"
    and gcm: "cs_aead spec" and room: "length pt \<le> cap" "length pt + 32 < 2 ^ 31" and iv: "iv_given (cs_cipher spec) key req iv"
    and small: "big_tag req = None"
  shows "sr_rc (crypto_encrypt_impl e req) = 0 \<and> sr_tag (crypto_encrypt_impl e req) = sq_tag req \<and>
     sr_rc (crypto_decrypt_impl e (reply req (crypto_encrypt_impl e req))) = EINVAL"
proof -
  obtain c where c: "cipher_ctx_new e = Some c" "tracks c feed0"
    using evp_new [OF ok] by blast
  have ae: "aead (cs_cipher spec)"
    using lookup_cipher(1) sym_guard_ok [OF guard] gcm by blast
  have enc: "sr_rc (crypto_encrypt_impl e req) = 0" "sr_tag (crypto_encrypt_impl e req) = sq_tag req"
    using gcm_encrypt_result [OF ok c(2) ae room iv] guard gcm c(1) small
    by (simp_all add: crypto_encrypt_impl_def Let_def)
  moreover have "big_tag (reply req (crypto_encrypt_impl e req)) = None"
    using small enc(2) by (simp add: big_tag_def)
  ultimately show ?thesis
    using sym_guard_reply [OF guard, of "crypto_encrypt_impl e req"] gcm c(1)
    by (simp add: crypto_decrypt_impl_def gcm_decrypt_def sym_fail_def)
qed

theorem crypto_tag_forgotten_witness:
  "sr_rc (crypto_encrypt_impl toy_evp (demo_sym 2 12 None)) = 0 \<and>
   sr_rc (crypto_decrypt_impl toy_evp (reply (demo_sym 2 12 None) (crypto_encrypt_impl toy_evp (demo_sym 2 12 None)))) = EINVAL"
  using crypto_tag_forgotten [OF toy_evp_ok demo_gcm, of None "replicate 12 (CHR ''i'')"]
  by (simp add: big_tag_def demo_sym_def iv_given_def iv_size_def key_size_def aead_def aad_of_def)

text \<open>
  A digest is computed only into a buffer that holds it; an HMAC of the same algorithm is written
  whatever the size of the buffer, so a smaller one is left.
\<close>

theorem crypto_hmac_ignores_capacity:
  assumes "hash_md (hr_algo req) = Some md" and "hr_data req = Some data" and "hr_out req = Some cap"
    and size: "\<And>x d. digest e md x = Some d \<Longrightarrow> int (length d) = md_size e md"
    and mac: "\<And>k x. \<exists>d. HMAC e md k x = Some d \<and> int (length d) = md_size e md"
  shows "crypto_hash_impl e memory req \<noteq> Fault \<and>
     (int cap < md_size e md \<longrightarrow> crypto_hash_impl e memory req = Ret (Inl (if md_size e md \<le> 0 then ENOTSUP else ENOMEM)) \<and>
        crypto_hmac_impl e req = Fault)"
proof -
  obtain d where "HMAC e md (hr_key req) data = Some d" and "int (length d) = md_size e md"
    using mac by blast
  then show ?thesis
    using assms(1-3) size by (auto simp: crypto_hash_impl_def crypto_hmac_impl_def split: option.splits dest: size)
qed

theorem crypto_hmac_ignores_capacity_witness:
  "crypto_hmac_impl toy_evp \<lparr>hr_algo = 0, hr_key = None, hr_data = Some ''x'', hr_out = Some 16\<rparr> = Fault"
  using crypto_hmac_ignores_capacity [of "\<lparr>hr_algo = 0, hr_key = None, hr_data = Some ''x'', hr_out = Some 16\<rparr>" SHA256 "''x''" 16
      toy_evp True]
  by (simp add: hash_md_def toy_evp_def toy_digest_def)

lemma sublist_suffix: "sublist (u @ v) b \<Longrightarrow> sublist v b"
  by (metis append_assoc sublist_def)

lemma rsa_markers:
  "sublist ''RSA PRIVATE KEY'' b \<Longrightarrow> sublist ''PRIVATE KEY'' b" "sublist ''RSA PUBLIC KEY'' b \<Longrightarrow> sublist ''PUBLIC KEY'' b"
  using sublist_suffix [of "''RSA ''" "''PRIVATE KEY''" b] sublist_suffix [of "''RSA ''" "''PUBLIC KEY''" b] by simp_all

lemma any_strstr_nul: "any_strstr (b @ [NUL]) xs = Ret (\<exists>x \<in> set xs. sublist x b)" if "NUL \<notin> set b"
proof -
  have "takeWhile (\<lambda>c. c \<noteq> NUL) (b @ [NUL]) = b"
    using that by (induction b) auto
  then have "strstr (b @ [NUL]) x = Ret (sublist x b)" for x
    by (simp add: strstr_def)
  then show ?thesis by (induction xs) (auto split: bool.split)
qed

definition is_key_text :: "string \<Rightarrow> bool" where
  "is_key_text b \<longleftrightarrow> sublist ''PRIVATE KEY'' b \<or> sublist ''PUBLIC KEY'' b"

text \<open>
  A key is exported with a NUL after it; exporting that again changes nothing, and it is imported as
  the kind it is.  The same text without the NUL is imported as an asymmetric key if it is a private
  one: otherwise, for a public key too, the search for the first marker runs behind the buffer.
\<close>

theorem crypto_export_import:
  assumes "b \<noteq> []" and "NUL \<notin> set b" and "length b < cap"
  shows "crypto_export_pem_impl (Some b) (Some cap) = Inr (b @ [NUL]) \<and>
     crypto_export_pem_impl (Some (b @ [NUL])) (Some cap) = Inr (b @ [NUL]) \<and>
     crypto_import_pem_impl (Some (b @ [NUL])) True = Ret (if is_key_text b then (0, Some True) else (EILSEQ, None)) \<and>
     crypto_import_pem_impl (Some (b @ [NUL])) False = Ret (if length b < 16 then (EINVAL, None) else (0, Some False)) \<and>
     crypto_import_pem_impl (Some b) True = (if sublist ''PRIVATE KEY'' b then Ret (0, Some True) else Fault)"
proof -
  have tw: "takeWhile (\<lambda>c. c \<noteq> NUL) b = b"
    using assms(2) by (auto intro: takeWhile_eq_all_conv [THEN iffD2])
  have nul: "last b \<noteq> NUL" using assms(1,2) last_in_set by metis
  have str: "strstr b x = (if sublist x b then Ret True else Fault)" for x
    using assms(2) by (simp add: strstr_def tw)
  have any: "any_strstr (b @ [NUL]) [''PRIVATE KEY'', ''PUBLIC KEY'', ''RSA PRIVATE KEY'', ''RSA PUBLIC KEY''] =
      Ret (is_key_text b)"
    unfolding any_strstr_nul [OF assms(2)] using rsa_markers [of b] by (auto simp: is_key_text_def)
  show ?thesis
    using assms nul
    by (simp add: crypto_export_pem_impl_def crypto_import_pem_impl_def Let_def any del: any_strstr.simps(2))
      (simp add: str)
qed

theorem crypto_export_import_witness:
  "crypto_import_pem_impl (Some ''garbage'') True = Fault \<and>
   crypto_import_pem_impl (Some (''garbage'' @ [NUL])) True = Ret (EILSEQ, None)"
proof -
  have "\<not> is_key_text ''garbage''"
    by (auto simp: is_key_text_def dest: sublist_length_le)
  moreover have "\<not> sublist ''PRIVATE KEY'' ''garbage''"
    by (auto dest: sublist_length_le)
  ultimately show ?thesis
    using crypto_export_import [of "''garbage''" 100] by simp
qed

end
