(* ===== verification/LoaderCorrect.thy ===== *)
theory LoaderCorrect
  imports Loader
begin

text \<open>
  What the LOADER plugin guarantees.  Fields are read back as they were laid out, a well-formed 64-bit file is
  parsed to its headers, a 32-bit file of sufficient length is never read outside its copy, and where
  the bounds checks fail.
\<close>

section \<open>Bytes of a field\<close>

primrec field_bytes :: "nat \<Rightarrow> 'a::len word \<Rightarrow> byte list" where
  "field_bytes 0 w = []"
| "field_bytes (Suc n) w = ucast w # field_bytes n (drop_bit 8 w)"

lemma length_field_bytes [simp]: "length (field_bytes n w) = n"
  by (induction n arbitrary: w) auto

lemma field_bytes_numeral: "field_bytes (numeral k) w = ucast w # field_bytes (pred_numeral k) (drop_bit 8 w)"
  by (simp add: numeral_eq_Suc)

definition le_value :: "byte list \<Rightarrow> 'a::len word" where
  "le_value bs = foldr (\<lambda>b v. or (push_bit 8 v) (ucast b)) bs 0"

lemma le_value_Cons [simp]: "le_value (b # bs) = or (push_bit 8 (le_value bs)) (ucast b)"
  by (simp add: le_value_def)

lemma le_value_Nil [simp]: "le_value [] = 0"
  by (simp add: le_value_def)

lemma le_value_field_bytes: "le_value (field_bytes n w) = take_bit (8 * n) w"
proof (induction n arbitrary: w)
  case (Suc n)
  have "or (push_bit 8 (take_bit (8 * n) (drop_bit 8 w))) (ucast (ucast w :: byte)) = take_bit (8 * Suc n) w"
    by (rule bit_word_eqI) (auto simp: bit_simps)
  then show ?case by (simp add: Suc.IH)
qed simp

lemma rd16_le: "rd16 False (field_bytes 2 w @ rest) = w"
proof -
  have "rd16 False (field_bytes 2 w @ rest) = le_value (field_bytes 2 w)"
    by (simp add: rd16_def field_bytes_numeral ac_simps)
  then show ?thesis by (simp add: le_value_field_bytes take_bit_word_eq_self)
qed

lemma rd32_le: "rd32 False (field_bytes 4 w @ rest) = w"
proof -
  have "rd32 False (field_bytes 4 w @ rest) = le_value (field_bytes 4 w)"
    by (simp add: rd32_def field_bytes_numeral push_bit_or ac_simps)
  then show ?thesis by (simp add: le_value_field_bytes take_bit_word_eq_self)
qed

lemma rd64_le: "rd64 False (field_bytes 8 w @ rest) = w"
proof -
  have "rd64 False (field_bytes 8 w @ rest) = le_value (field_bytes 8 w)"
    by (simp add: rd64_def le_value_def foldl_conv_foldr)
  then show ?thesis by (simp add: le_value_field_bytes take_bit_word_eq_self)
qed


section \<open>Addresses inside the file\<close>

text \<open>The copy of the file does not wrap around the end of the address space.\<close>

definition mem_ok :: "mem \<Rightarrow> bool" where
  "mem_ok m \<longleftrightarrow> unat (m_base m) + length (m_bytes m) < 2 ^ 64"

lemma unat_add_small: "unat (a :: 64 word) + unat b < 2 ^ 64 \<Longrightarrow> unat (a + b) = unat a + unat b"
  by (simp add: unat_word_ariths)

lemma unat_m_end: "mem_ok m \<Longrightarrow> unat (m_end m) = unat (m_base m) + length (m_bytes m)"
  by (simp add: mem_ok_def m_end_def unat_word_ariths unat_of_nat)

lemma before_end:
  assumes "mem_ok m" "unat (m_base m) + unat off + unat sz < 2 ^ 64"
  shows "m_end m < m_base m + off + sz \<longleftrightarrow> length (m_bytes m) < unat off + unat sz"
proof -
  have "unat (m_base m + off + sz) = unat (m_base m) + unat off + unat sz"
    using assms(2) by (simp add: unat_add_small)
  then show ?thesis by (simp add: word_less_nat_alt unat_m_end [OF assms(1)])
qed

lemma peek_offset: "peek m (m_base m + off) n =
  (if unat off + n \<le> length (m_bytes m) then Some (take n (drop (unat off) (m_bytes m))) else None)"
  by (simp add: peek_def)

lemma ph_loop_no_fault:
  assumes ok: "mem_ok m" and read: "\<And>off. unat off + unat sz \<le> length (m_bytes m) \<Longrightarrow> ph_at (m_base m + off) \<noteq> None"
    and "unat (m_base m) + unat off + n * unat sz < 2 ^ 64"
  shows "ph_loop ph_at sz m (m_base m + off) n \<noteq> None"
  using assms(3)
proof (induction n arbitrary: off)
  case (Suc n)
  have sum: "unat (off + sz) = unat off + unat sz"
    using Suc.prems by (intro unat_add_small) simp
  have "ph_loop ph_at sz m (m_base m + (off + sz)) n \<noteq> None"
    using Suc.prems by (intro Suc.IH) (simp add: sum)
  moreover have "\<not> m_end m < m_base m + off + sz \<Longrightarrow> ph_at (m_base m + off) \<noteq> None"
    using Suc.prems by (intro read) (simp add: before_end [OF ok])
  ultimately show ?case by (auto simp: add.assoc)
qed simp

lemma name_at_no_fault:
  assumes ok: "mem_ok m" and "unat (m_base m) + unat off + n + 1 < 2 ^ 64"
  shows "name_at m (m_base m + off) n \<noteq> None"
  using assms(2)
proof (induction n arbitrary: off)
  case 0
  have "\<not> m_end m \<le> m_base m + off \<Longrightarrow> unat off + 1 \<le> length (m_bytes m)"
    using 0 by (simp add: word_le_nat_alt unat_m_end [OF ok] unat_add_small)
  then show ?case by (subst name_at.simps) (auto simp: peek_offset)
next
  case (Suc n)
  have sum: "unat (off + 1) = unat off + 1"
    using Suc.prems by (subst unat_add_small) simp_all
  have in_file: "\<not> m_end m \<le> m_base m + off \<Longrightarrow> unat off + 1 \<le> length (m_bytes m)"
    using Suc.prems by (simp add: word_le_nat_alt unat_m_end [OF ok] unat_add_small)
  have "name_at m (m_base m + (off + 1)) n \<noteq> None"
    using Suc.prems by (intro Suc.IH) (simp add: sum)
  then show ?case using in_file by (subst name_at.simps) (auto simp: peek_offset add.assoc)
qed


text \<open>Files in the 32-bit format hold offsets of 32 bits, so no sum of them wraps.\<close>

definition small :: "64 word \<Rightarrow> bool" where
  "small w \<longleftrightarrow> unat w < 2 ^ 32"

lemma unat_ucast_wide: "unat (ucast (w :: 32 word) :: 64 word) = unat w" "unat (ucast (v :: 16 word) :: 64 word) = unat v"
  using unsigned_less [of w, where ?'a = nat] unsigned_less [of v, where ?'a = nat] by (simp_all add: unsigned_ucast_eq take_bit_nat_eq_self_iff)

lemma small_ucast [simp]: "small (ucast (w :: 32 word))"
  using unsigned_less [of w] by (simp add: small_def unat_ucast_wide)

lemma small_0 [simp]: "small 0"
  by (simp add: small_def)

definition low :: "mem \<Rightarrow> bool" where
  "low m \<longleftrightarrow> unat (m_base m) < 2 ^ 48 \<and> length (m_bytes m) \<le> 64 * 1024 * 1024"

lemma low_ok: "low m \<Longrightarrow> mem_ok m"
  by (simp add: low_def mem_ok_def)

lemma string_table_32:
  assumes low: "low m" and cls: "cls \<noteq> ELFCLASS64" and off: "small (eh_shoff eh)"
  shows "\<exists>a b. string_table m be cls eh = Some (a, b) \<and> small a \<and> small b"
proof -
  let ?o = "eh_shoff eh + ucast (eh_shstrndx eh) * 40"
  have idx: "unat (eh_shstrndx eh) < 65536"
    using unsigned_less [of "eh_shstrndx eh"] by simp
  have mul: "unat (ucast (eh_shstrndx eh) * 40 :: 64 word) = unat (eh_shstrndx eh) * 40"
    using idx by (simp add: unat_word_ariths unat_ucast_wide)
  have sum: "unat ?o = unat (eh_shoff eh) + unat (eh_shstrndx eh) * 40"
    using idx off by (subst unat_add_small) (simp_all add: mul small_def)
  have bound: "unat (m_base m) + unat ?o + unat (40 :: 64 word) < 2 ^ 64"
    using idx off low by (simp add: sum small_def low_def)
  have in_file: "peek m (m_base m + (?o + 16)) 8 \<noteq> None" if "\<not> m_end m < m_base m + ?o + 40"
  proof -
    have "unat ?o + 40 \<le> length (m_bytes m)"
      using that before_end [OF low_ok [OF low] bound] by simp
    moreover have "unat (?o + 16) = unat ?o + 16"
      using bound by (subst unat_add_small) simp_all
    ultimately show ?thesis by (simp add: peek_offset)
  qed
  show ?thesis
    using in_file cls by (auto simp: string_table_def sh_size_def Let_def add.assoc split: option.splits)
qed

lemma section_loop_32_no_fault:
  assumes low: "low m" and cls: "cls \<noteq> ELFCLASS64" and str: "small stroff" "small strsz"
    and "unat off + n * 40 < 2 ^ 60"
  shows "section_loop m be cls stroff strsz (m_base m + off) names n \<noteq> None"
  using assms(5)
proof (induction n arbitrary: off names)
  case (Suc n)
  have bound: "unat (m_base m) + unat off + unat (40 :: 64 word) < 2 ^ 64"
    using Suc.prems low by (simp add: low_def)
  have sum: "unat (off + 40) = unat off + 40"
    using Suc.prems by (subst unat_add_small) simp_all
  have header: "peek m (m_base m + off) 4 \<noteq> None" if "\<not> m_end m < m_base m + off + 40"
    using that before_end [OF low_ok [OF low] bound] by (simp add: peek_offset)
  have name: "name_at m (m_base m + (stroff + ucast (x :: 32 word))) 63 \<noteq> None" for x
  proof (rule name_at_no_fault [OF low_ok [OF low]])
    have "unat (stroff + ucast x) = unat stroff + unat (ucast x :: 64 word)"
      using str(1) small_ucast [of x] by (intro unat_add_small) (simp add: small_def)
    then show "unat (m_base m) + unat (stroff + ucast x) + 63 + 1 < 2 ^ 64"
      using str(1) small_ucast [of x] low by (simp add: small_def low_def)
  qed
  have rest: "section_loop m be cls stroff strsz (m_base m + (off + 40)) ns n \<noteq> None" for ns
    using Suc.prems by (intro Suc.IH) (simp add: sum)
  show ?case
    using header name rest cls
    by (auto simp: sh_size_def Let_def add.assoc bind_eq_None_conv simp del: not_None_eq split: if_splits)
qed simp

lemma ph32_at_in_file: "unat off + 32 \<le> length (m_bytes m) \<Longrightarrow> ph32_at m be (m_base m + off) \<noteq> None"
  by (simp add: ph32_at_def peek_offset)

lemma parse_ph32_no_fault:
  assumes "low m" "small (eh_phoff eh)"
  shows "parse_ph32 m be eh \<noteq> None"
proof -
  have "ph_loop (ph32_at m be) 32 m (m_base m + eh_phoff eh) (min 8 (unat (eh_phnum eh))) \<noteq> None"
    using assms by (intro ph_loop_no_fault) (auto simp: low_ok ph32_at_in_file small_def low_def)
  then show ?thesis by (simp add: parse_ph32_def)
qed

lemma parse_sections_32_no_fault:
  assumes low: "low m" and cls: "cls \<noteq> ELFCLASS64" and off: "small (eh_shoff eh)"
  shows "parse_sections m be cls eh \<noteq> None"
proof -
  obtain a b where st: "string_table m be cls eh = Some (a, b)" "small a" "small b"
    using string_table_32 [OF assms] by blast
  have "section_loop m be cls a b (m_base m + eh_shoff eh) [] (min 40 (unat (eh_shnum eh))) \<noteq> None"
    using off by (intro section_loop_32_no_fault low cls st) (simp add: small_def)
  then show ?thesis by (simp add: parse_sections_def st(1))
qed


lemma parse_elf_32_no_fault:
  assumes low: "low m" and len: "64 \<le> length (m_bytes m)" and cls: "m_bytes m ! 4 = ELFCLASS32"
  shows "parse_elf m \<noteq> None"
proof -
  have head: "peek m (m_base m) 64 = Some (take 64 (m_bytes m))"
    using len by (simp add: peek_def)
  have cls': "take 64 (m_bytes m) ! 4 = ELFCLASS32"
    using cls by simp
  show ?thesis
    using parse_ph32_no_fault [OF low] parse_sections_32_no_fault [OF low]
    by (auto simp: parse_elf_def ehdr_at_def head cls' Let_def bind_eq_None_conv simp del: not_None_eq nth_take)
qed

section \<open>A file in the 64-bit format\<close>

text \<open>Program headers and the file header as the format lays them out, least significant byte first.\<close>

definition ph64_bytes :: "loader_ph_info \<Rightarrow> byte list" where
  "ph64_bytes x = field_bytes 4 (p_type x) @ field_bytes 4 (p_flags x) @ field_bytes 8 (p_offset x) @ field_bytes 8 (p_vaddr x) @
     field_bytes 8 (p_paddr x) @ field_bytes 8 (p_filesz x) @ field_bytes 8 (p_memsz x) @ replicate 8 0"

definition elf64_bytes :: "loader_elf_info \<Rightarrow> loader_ph_info list \<Rightarrow> byte list \<Rightarrow> byte list" where
  "elf64_bytes info phs data =
     [0x7f, 0x45, 0x4c, 0x46, ELFCLASS64, 1, 1] @ replicate 9 0 @
     field_bytes 2 (e_type info) @ field_bytes 2 (e_machine info) @ field_bytes 4 (1 :: 32 word) @ field_bytes 8 (e_entry info) @
     field_bytes 8 (64 :: 64 word) @ field_bytes 8 (0 :: 64 word) @ field_bytes 4 (e_flags info) @
     field_bytes 2 (64 :: 16 word) @ field_bytes 2 (56 :: 16 word) @ field_bytes 2 (of_nat (length phs) :: 16 word) @
     field_bytes 2 (64 :: 16 word) @ field_bytes 2 (0 :: 16 word) @ field_bytes 2 (e_shstrndx info) @
     concat (map ph64_bytes phs) @ data"

lemma length_ph64_bytes [simp]: "length (ph64_bytes x) = 56"
  by (simp add: ph64_bytes_def)

lemma length_phs [simp]: "length (concat (map ph64_bytes phs)) = 56 * length phs"
  by (induction phs) auto

lemma ph64_at_bytes:
  assumes "drop (unat off) (m_bytes m) = ph64_bytes x @ rest"
  shows "ph64_at m False (m_base m + off) = Some x"
proof -
  have "unat off + 48 \<le> length (m_bytes m)"
    using arg_cong [OF assms, of length] by simp
  then have "ph64_at m False (m_base m + off) = map_option (\<lambda>b.
     \<lparr>p_type = rd32 False b, p_flags = rd32 False (drop 4 b), p_offset = rd64 False (drop 8 b), p_vaddr = rd64 False (drop 16 b),
      p_paddr = rd64 False (drop 24 b), p_filesz = rd64 False (drop 32 b), p_memsz = rd64 False (drop 40 b)\<rparr>)
      (Some (take 48 (ph64_bytes x @ rest)))"
    using assms by (simp add: ph64_at_def peek_offset)
  then show ?thesis
    using rd64_le [of "p_memsz x" "[]"] by (simp add: ph64_bytes_def rd32_le rd64_le)
qed

lemma ph_loop_phs:
  assumes ok: "mem_ok m" and "drop (unat off) (m_bytes m) = concat (map ph64_bytes phs) @ rest" and "n \<le> length phs"
    "unat off + 56 * length phs \<le> length (m_bytes m)"
  shows "ph_loop (ph64_at m False) 56 m (m_base m + off) n = Some (take n phs)"
  using assms(2,3,4)
proof (induction n arbitrary: off phs)
  case (Suc n)
  obtain x xs where phs: "phs = x # xs" using Suc.prems(2) by (cases phs) auto
  have sum: "unat (off + 56) = unat off + 56"
    using Suc.prems(3) ok phs by (subst unat_add_small) (simp_all add: mem_ok_def)
  have "drop (unat (off + 56)) (m_bytes m) = drop 56 (drop (unat off) (m_bytes m))"
    by (simp add: sum add.commute)
  then have "drop (unat (off + 56)) (m_bytes m) = concat (map ph64_bytes xs) @ rest"
    using Suc.prems(1) phs by simp
  then have "ph_loop (ph64_at m False) 56 m (m_base m + (off + 56)) n = Some (take n xs)"
    using Suc.prems(2,3) phs by (intro Suc.IH) (simp_all add: sum)
  moreover have "\<not> m_end m < m_base m + off + 56"
    using Suc.prems(3) ok phs by (subst before_end) (simp_all add: mem_ok_def)
  moreover have "ph64_at m False (m_base m + off) = Some x"
    using Suc.prems(1) phs by (intro ph64_at_bytes [where rest = "concat (map ph64_bytes xs) @ rest"]) simp
  ultimately show ?case by (simp add: phs add.assoc)
qed simp


definition elf64_info :: "loader_elf_info \<Rightarrow> loader_ph_info list \<Rightarrow> loader_elf_info" where
  "elf64_info info phs =
     info\<lparr>ei_class := ELFCLASS64, ei_data := 1, e_phnum := of_nat (length phs), e_shnum := 0,
       has_interp := list_ex (\<lambda>x. p_type x = PT_INTERP) (take 8 phs), ph_infos := take 8 phs, section_names := []\<rparr>"

lemma length_elf64_bytes: "length (elf64_bytes info phs data) = 64 + 56 * length phs + length data"
  by (simp add: elf64_bytes_def)

lemma drop_elf64_bytes: "drop 64 (elf64_bytes info phs data) = concat (map ph64_bytes phs) @ data"
  by (simp add: elf64_bytes_def)

lemma ehdr_at_elf64:
  assumes "m_bytes m = elf64_bytes info phs data" "length phs < 65536"
  shows "ehdr_at m False =
    Some (info\<lparr>ei_class := ELFCLASS64, ei_data := 1, e_phnum := of_nat (length phs), e_shnum := 0,
            has_interp := False, ph_infos := [], section_names := []\<rparr>,
          \<lparr>eh_phoff = 64, eh_shoff = 0, eh_phnum = of_nat (length phs), eh_shnum = 0, eh_shstrndx = e_shstrndx info\<rparr>)"
proof -
  have n: "ucast (of_nat (length phs) :: 16 word) = (of_nat (length phs) :: 32 word)"
    using assms(2) by transfer (simp add: take_bit_int_eq_self)
  have head: "peek m (m_base m) 64 = Some (take 64 (elf64_bytes info phs data))"
    by (simp add: peek_def assms(1) length_elf64_bytes)
  have last: "rd16 False (field_bytes 2 w) = w" for w
    using rd16_le [of w "[]"] by simp
  show ?thesis
    unfolding ehdr_at_def head
    by (cases info) (simp add: elf64_bytes_def rd16_le rd32_le rd64_le last n Let_def)
qed


lemma parse_elf64:
  assumes ok: "mem_ok m" and m: "m_bytes m = elf64_bytes info phs data" and few: "length phs < 65536"
  shows "parse_elf m = Some (elf64_info info phs)"
proof -
  have le: "want_be (drop (Suc 0) (m_bytes m)) = False"
    by (simp add: want_be_def m elf64_bytes_def)
  have phnum: "unat (of_nat (length phs) :: 16 word) = length phs"
    using few by (simp add: unat_of_nat)
  have "(of_nat (length phs) :: 16 word) = 0 \<longleftrightarrow> unat (of_nat (length phs) :: 16 word) = 0"
    by (rule unsigned_eq_0_iff [symmetric])
  then have nonzero: "(of_nat (length phs) :: 16 word) = 0 \<longleftrightarrow> phs = []"
    by (simp only: phnum length_0_conv)
  have loop: "ph_loop (ph64_at m False) 56 m (m_base m + 64) (min 8 (length phs)) = Some (take 8 phs)"
    by (subst ph_loop_phs [OF ok]) (auto simp: m drop_elf64_bytes length_elf64_bytes min_def)
  show ?thesis
    by (simp add: parse_elf_def Let_def le ehdr_at_elf64 [OF m few] parse_ph64_def phnum nonzero loop elf64_info_def)
qed

section \<open>Properties\<close>

text \<open>
  C17. An executable in the 64-bit format, least significant byte first, that is written from a header and any
  number of program headers (below 65536) followed by any data is parsed to that header, to the first eight
  of its program headers, and has an interpreter exactly if one of those eight names one.  The file is at most
  64 MB and its copy lies in the lower half of the address space.
\<close>

theorem loader_elf64_roundtrip:
  assumes "length phs < 65536" "64 + 56 * length phs + length data \<le> 64 * 1024 * 1024" "base < 2 ^ 63"
  shows "loader_elf_impl (Inr (elf64_bytes info phs data)) True base = Ret (Inr (elf64_info info phs))"
proof -
  let ?m = "\<lparr>m_base = base, m_bytes = elf64_bytes info phs data\<rparr>"
  have "mem_ok ?m"
    using assms(2,3) by (simp add: mem_ok_def length_elf64_bytes word_less_nat_alt)
  then have "parse_elf ?m = Some (elf64_info info phs)"
    using assms(1) by (intro parse_elf64) simp_all
  moreover have "take 4 (elf64_bytes info phs data) = [0x7f, 0x45, 0x4c, 0x46]"
    by (simp add: elf64_bytes_def)
  ultimately show ?thesis
    using assms(2) by (simp add: loader_elf_impl_def read_all_def length_elf64_bytes)
qed

definition demo_info :: loader_elf_info where
  "demo_info = \<lparr>ei_class = ELFCLASS64, ei_data = 1, e_type = ET_DYN, e_machine = 62, e_flags = 0, e_entry = 0x401000,
     e_shstrndx = 0, e_phnum = 0, e_shnum = 0, has_interp = False, ph_infos = [], section_names = []\<rparr>"

definition demo_ph :: "32 word \<Rightarrow> loader_ph_info" where
  "demo_ph t = \<lparr>p_type = t, p_flags = 4, p_offset = 0x318, p_vaddr = 0x400318, p_paddr = 0x400318, p_filesz = 28, p_memsz = 28\<rparr>"

lemma loader_elf64_roundtrip_witness:
  "loader_elf_impl (Inr (elf64_bytes demo_info [demo_ph PT_INTERP, demo_ph 1] [1, 2, 3])) True 0x7f0000001000 =
     Ret (Inr (elf64_info demo_info [demo_ph PT_INTERP, demo_ph 1]))
   \<and> has_interp (elf64_info demo_info [demo_ph PT_INTERP, demo_ph 1])"
  using loader_elf64_roundtrip [of "[demo_ph PT_INTERP, demo_ph 1]" "[1, 2, 3]" "0x7f0000001000" demo_info]
  by (simp add: elf64_info_def demo_ph_def)

text \<open>
  C37. A file of at least 64 bytes whose class byte says 32 bits is parsed without reading outside its copy,
  whatever its other bytes are: every offset in it is 32 bits wide, so none of the sums the bounds checks
  are made of wraps.  The copy lies in the user half of a 48-bit address space.
\<close>

theorem loader_elf32_in_bounds:
  assumes "64 \<le> length d" "d ! 4 = ELFCLASS32" "base < 2 ^ 48"
  shows "loader_elf_impl (Inr d) memory base \<noteq> Fault"
proof (cases "read_all (Inr d) memory")
  case (Inr d')
  then have d': "d' = d" "length d \<le> 64 * 1024 * 1024"
    by (auto simp: read_all_def split: if_splits)
  have "parse_elf \<lparr>m_base = base, m_bytes = d\<rparr> \<noteq> None"
    using assms d' by (intro parse_elf_32_no_fault) (simp_all add: low_def word_less_nat_alt)
  then show ?thesis
    by (auto simp: loader_elf_impl_def Inr d')
qed (simp add: loader_elf_impl_def)

lemma loader_elf32_in_bounds_witness:
  "loader_elf_impl (Inr ([0x7f, 0x45, 0x4c, 0x46, 1] @ replicate 59 0xff)) True 0x7f0000001000 \<noteq> Fault"
  using loader_elf32_in_bounds [of "[0x7f, 0x45, 0x4c, 0x46, 1] @ replicate 59 0xff" "0x7f0000001000" True] by simp

text \<open>
  The bounds checks do not hold for every file.  A file of 52 to 63 bytes that starts as an ELF file is
  always read behind its copy, since the length is checked against the shorter header and the fields are read
  at the offsets of the longer one.  A file in the 64-bit format whose program headers are said to start 56
  bytes before the end of the 64-bit offsets passes the check of the first header, because the sum wraps, and
  is read in front of its copy.
\<close>

theorem loader_elf_reads_outside:
  assumes "take 4 d = [0x7f, 0x45, 0x4c, 0x46]" "length d \<le> 64 * 1024 * 1024" "52 \<le> length d" "base < 2 ^ 63"
    "length d < 64 \<or> (d ! 4 = ELFCLASS64 \<and> d ! 6 \<noteq> ELFDATA2MSB \<and> rd64 False (drop 32 d) = - 56 \<and> rd16 False (drop 56 d) \<noteq> 0)"
  shows "loader_elf_impl (Inr d) True base = Fault"
proof -
  let ?m = "\<lparr>m_base = base, m_bytes = d\<rparr>"
  have ok: "mem_ok ?m"
    using assms(2,4) by (simp add: mem_ok_def word_less_nat_alt)
  have "parse_elf ?m = None"
  proof (cases "length d < 64")
    case True
    then have "peek ?m base 64 = None" by (simp add: peek_def)
    then show ?thesis by (simp add: parse_elf_def ehdr_at_def)
  next
    case False
    then have d: "d ! 4 = ELFCLASS64" "d ! 6 \<noteq> ELFDATA2MSB" "rd64 False (drop 32 d) = - 56" "rd16 False (drop 56 d) \<noteq> 0"
      using assms(5) by auto
    have head: "peek ?m base 64 = Some (take 64 d)"
      using False by (simp add: peek_def)
    define n where "n = rd16 False (drop 56 d)"
    have n: "rd16 False (drop 56 (take 64 d)) = n" "n \<noteq> 0"
      using False d(4) by (simp_all add: n_def rd16_def)
    have "rd64 False (drop 32 (take 64 d)) = rd64 False (drop 32 d)"
      by (simp add: rd64_def drop_take)
    then have phoff: "rd64 False (drop 32 (take 64 d)) = - 56"
      by (simp only: d(3))
    have "unat n \<noteq> 0" using n(2) by (simp add: unsigned_eq_0_iff)
    then obtain k where k: "min 8 (unat n) = Suc k" by (cases "unat n") auto
    have "\<not> m_end ?m < base" using ok by (simp add: word_less_nat_alt unat_m_end)
    moreover have "peek ?m (base - 56) 48 = None" using assms(2) by (simp add: peek_def)
    ultimately have "ph_loop (ph64_at ?m False) 56 ?m (base - 56) (Suc k) = None"
      by (simp add: ph64_at_def)
    then show ?thesis
      using False n(2) d(1,2) by (simp add: parse_elf_def want_be_def ehdr_at_def head Let_def phoff n(1) parse_ph64_def k)
  qed
  then show ?thesis
    using assms(1-3) by (simp add: loader_elf_impl_def read_all_def)
qed

lemma loader_elf_reads_outside_witness:
  "loader_elf_impl (Inr ([0x7f, 0x45, 0x4c, 0x46] @ replicate 48 0)) True 0x7f0000001000 = Fault
   \<and> loader_elf_impl (Inr [0x7f, 0x45, 0x4c, 0x46, ELFCLASS64, 1, 1, 0, 0, 0, 0, 0, 0, 0, 0, 0, 0, 0, 0, 0, 0, 0, 0, 0, 0, 0, 0, 0, 0, 0, 0, 0,
        0xc8, 0xff, 0xff, 0xff, 0xff, 0xff, 0xff, 0xff, 0, 0, 0, 0, 0, 0, 0, 0, 0, 0, 0, 0, 0, 0, 0, 0, 1, 0, 0, 0, 0, 0, 0, 0]) True 0x7f0000001000 = Fault"
proof
  show "loader_elf_impl (Inr ([0x7f, 0x45, 0x4c, 0x46] @ replicate 48 0)) True 0x7f0000001000 = Fault"
    by (rule loader_elf_reads_outside) simp_all
  show "loader_elf_impl (Inr [0x7f, 0x45, 0x4c, 0x46, ELFCLASS64, 1, 1, 0, 0, 0, 0, 0, 0, 0, 0, 0, 0, 0, 0, 0, 0, 0, 0, 0, 0, 0, 0, 0, 0, 0, 0, 0,
        0xc8, 0xff, 0xff, 0xff, 0xff, 0xff, 0xff, 0xff, 0, 0, 0, 0, 0, 0, 0, 0, 0, 0, 0, 0, 0, 0, 0, 0, 1, 0, 0, 0, 0, 0, 0, 0]) True 0x7f0000001000 = Fault"
    by (rule loader_elf_reads_outside) (simp_all add: rd64_def rd16_def)
qed


lemma takeWhile_take_line:
  assumes "\<forall>x \<in> set i. P x" "\<not> P x"
  shows "takeWhile P (take n (i @ x # r)) = take n i"
proof (cases "n \<le> length i")
  case True
  then show ?thesis using assms(1) by (auto simp: takeWhile_eq_all_conv dest: in_set_takeD)
next
  case False
  then obtain k where "n = length i + Suc k" by (metis add_Suc_right less_iff_Suc_add not_le)
  then show ?thesis using assms by simp
qed

lemma detect_shebang:
  assumes "i \<noteq> []" "\<forall>b \<in> set i. \<not> interp_end b"
  shows "loader_detect_impl (Inr (0x23 # 0x21 # i @ 0x0A # rest)) interp_size =
    \<lparr>de_rc = 0, de_format = SCRIPT, de_name = ''Script'',
      de_interp = (if interp_size = 0 then None else if length (take 62 i) < interp_size - 1 then Some (text_of (take 62 i)) else Some [])\<rparr>"
proof -
  have "takeWhile (\<lambda>b. \<not> interp_end b) (take 62 (i @ 0x0A # rest)) = take 62 i"
    using assms(2) by (intro takeWhile_take_line) (auto simp: interp_end_def)
  then show ?thesis
    using assms(1) by (simp add: loader_detect_impl_def loader_read_head_def detect_interp_def)
qed

text \<open>
  Running a file that begins with the line of an interpreter replaces the calling process: where the
  memory is there and the interpreter can be executed, nothing is returned, whether the caller asked to wait or
  not.  The interpreter that is executed is the first 62 bytes of the one that is named, so a longer path is
  cut without a word.
\<close>

theorem loader_script_replaces_caller:
  assumes "i \<noteq> []" "\<forall>b \<in> set i. \<not> interp_end b" "pe_memory env" "pe_exec env = None"
  shows "loader_run_impl env (Inr (0x23 # 0x21 # i @ 0x0A # rest)) base (Some path) argv wait =
    Ret (Became (text_of (take 62 i)) (text_of (take 62 i) # path # argv))"
  using assms by (simp add: loader_run_impl_def run_script_def detect_shebang) (simp add: text_of_def)

lemma loader_script_replaces_caller_witness:
  "loader_run_impl \<lparr>pe_memory = True, pe_exec = None, pe_fork = 100, pe_wait = Inr (Exited 0)\<rparr>
     (Inr [0x23, 0x21, 0x2f, 0x73, 0x68, 0x0A, 0x78]) 0x7f0000001000 (Some ''a.sh'') [''-x''] True =
   Ret (Became ''/sh'' [''/sh'', ''a.sh'', ''-x''])"
  using loader_script_replaces_caller [of "[0x2f, 0x73, 0x68]"
      "\<lparr>pe_memory = True, pe_exec = None, pe_fork = 100, pe_wait = Inr (Exited 0)\<rparr>" "[0x78]" "0x7f0000001000" "''a.sh''" "[''-x'']" True]
  by (simp add: interp_end_def text_of_def char_of_def bit_0)

end
