(* ===== verification/ConsoleCorrect.thy ===== *)
theory ConsoleCorrect
  imports Console
begin

text \<open>
  What the CONSOLE plugin guarantees: the table of sessions in every run, each session as a first-in first-out
  channel of bytes that is read line by line, and what a banner leaves in it.
\<close>

section \<open>Memory of a session\<close>

lemma grow_enough:
  assumes "unat need \<le> 2 ^ 63" "ncap \<noteq> 0"
  shows "\<exists>c. grow_cap need ncap = Some c \<and> need \<le> c"
  using assms(2)
proof (induction "unat need - unat ncap" arbitrary: ncap rule: less_induct)
  case less
  show ?case
  proof (cases "ncap < need")
    case True
    then have lt: "unat ncap < unat need" by (simp add: word_less_nat_alt)
    then have dbl: "unat (ncap * 2) = unat ncap * 2"
      using assms(1) by (simp add: unat_word_ariths)
    have pos: "0 < unat ncap" using less.prems by (simp add: unat_gt_0)
    then have "ncap * 2 \<noteq> 0" using dbl by (metis mult_is_0 not_gr_zero unat_0 zero_neq_numeral)
    then have "\<exists>c. grow_cap need (ncap * 2) = Some c \<and> need \<le> c"
      using lt pos by (intro less.hyps) (simp_all add: dbl)
    then show ?thesis using True by (subst grow_cap.simps) simp
  next
    case False
    then show ?thesis by (subst grow_cap.simps) (auto dest: leD)
  qed
qed

definition session_ok :: "hw_console_session \<Rightarrow> bool" where
  "session_ok s \<longleftrightarrow> (if cs_cap s = 0 then cs_buf s = [] else length (cs_buf s) < unat (cs_cap s))
     \<and> cs_name s \<noteq> [] \<and> length (cs_name s) < HW_CONSOLE_NAME_MAX"

abbreviation BUF_LIMIT :: nat where "BUF_LIMIT \<equiv> 2 ^ 62"

text \<open>Appending to a buffer of any size that fits in memory ends, and either adds the bytes or changes nothing.\<close>

lemma sess_append_cases:
  assumes "length (cs_buf s) + length data < BUF_LIMIT"
  obtains c where "sess_append memory s data = Some (0, appended data c s)"
      "length (cs_buf s @ data) < unat c"
  | "sess_append memory s data = Some (ENOMEM, s)" "\<not> memory"
proof -
  let ?need = "of_nat (length (cs_buf s)) + of_nat (length data) + 1 :: 64 word"
  have "?need = of_nat (length (cs_buf s) + length data + 1)" by simp
  then have need: "unat ?need = length (cs_buf s) + length data + 1"
    using assms by (simp only: unat_of_nat) simp
  obtain c where c: "grow_cap ?need (if cs_cap s \<noteq> 0 then cs_cap s else 64) = Some c" "?need \<le> c"
  proof -
    have "unat ?need \<le> 2 ^ 63" using need assms by simp
    moreover have "(if cs_cap s \<noteq> 0 then cs_cap s else 64) \<noteq> 0" by simp
    ultimately show thesis using that grow_enough by blast
  qed
  have big: "length (cs_buf s @ data) < unat w" if "?need \<le> w" for w
    using that need by (simp add: word_le_nat_alt)
  show thesis
  proof (cases "cs_cap s < ?need")
    case True
    show thesis
    proof (cases memory)
      case True
      then show thesis using \<open>cs_cap s < ?need\<close> c big [OF c(2)] that(1) [of c] by (simp add: sess_append_def)
    next
      case False
      then show thesis using \<open>cs_cap s < ?need\<close> c that(2) by (simp add: sess_append_def)
    qed
  next
    case False
    then show thesis using big [of "cs_cap s"] that(1) [of "cs_cap s"] by (simp add: sess_append_def)
  qed
qed

lemma appended_ok: "session_ok s \<Longrightarrow> length (cs_buf s @ data) < unat c \<Longrightarrow> session_ok (appended data c s)"
  by (auto simp: session_ok_def appended_def)

lemma consumed_ok: "session_ok s \<Longrightarrow> length rest \<le> length (cs_buf s) \<Longrightarrow> session_ok (consumed rest s)"
  by (auto simp: session_ok_def consumed_def split: if_splits)

lemma emptied_ok: "session_ok s \<Longrightarrow> session_ok (emptied s)"
  by (simp add: session_ok_def emptied_def)

section \<open>The table of sessions\<close>

lemma session_at_put:
  "session_at (put_session a s g) b = (if a = b \<and> session_at g a \<noteq> None then Some s else session_at g b)"
proof -
  have "map_of (map (\<lambda>p. if fst p = a then (a, s) else p) xs) b =
      (if a = b \<and> map_of xs a \<noteq> None then Some s else map_of xs b)" for xs :: "(nat \<times> hw_console_session) list"
    by (induction xs) auto
  then show ?thesis by (auto simp: session_at_def put_session_def)
qed


lemma put_session_simps [simp]:
  "c_next (put_session a s g) = c_next g" "c_seq (put_session a s g) = c_seq g"
  "map fst (c_sessions (put_session a s g)) = map fst (c_sessions g)"
  by (auto simp: put_session_def intro: map_idI)

lemma snd_put_session:
  assumes "distinct (map fst (c_sessions g))" "session_at g a = Some t"
  obtains xs ys where "c_sessions g = xs @ (a, t) # ys" "c_sessions (put_session a s g) = xs @ (a, s) # ys"
proof -
  have "(a, t) \<in> set (c_sessions g)" using assms(2) by (simp add: session_at_def map_of_SomeD)
  then obtain xs ys where g: "c_sessions g = xs @ (a, t) # ys" by (meson split_list)
  moreover have "map (\<lambda>p. if fst p = a then (a, s) else p) zs = zs" if "a \<notin> fst ` set zs" for zs :: "(nat \<times> hw_console_session) list"
    using that by (intro map_idI) auto
  ultimately show thesis using assms(1) that by (auto simp: put_session_def)
qed

definition active_names :: "console \<Rightarrow> string list" where
  "active_names g = map cs_name (filter cs_active (map snd (c_sessions g)))"

text \<open>What holds of the table in every run.\<close>

definition console_wf :: "console \<Rightarrow> bool" where
  "console_wf g \<longleftrightarrow> distinct (map fst (c_sessions g)) \<and> (\<forall>p \<in> set (c_sessions g). fst p < c_next g \<and> session_ok (snd p))
     \<and> distinct (active_names g)"

lemma console_wf_session: "console_wf g \<Longrightarrow> session_at g a = Some s \<Longrightarrow> session_ok s"
  by (auto simp: console_wf_def session_at_def dest: map_of_SomeD)

text \<open>An operation that changes one session and neither renames nor opens it keeps the table.\<close>

lemma console_wf_put:
  assumes wf: "console_wf g" and "session_at g a = Some t" "session_ok s" "cs_name s = cs_name t" "cs_active s \<longrightarrow> cs_active t"
  shows "console_wf (put_session a s g)"
proof -
  obtain xs ys where g: "c_sessions g = xs @ (a, t) # ys" "c_sessions (put_session a s g) = xs @ (a, s) # ys"
    using snd_put_session wf assms(2) unfolding console_wf_def by metis
  show ?thesis
    using wf assms(3-5) by (cases "cs_active s"; cases "cs_active t") (auto simp: console_wf_def g active_names_def)
qed

text \<open>One call of an operation, with any arguments and whatever the memory does; buffers stay below 4 EiB.\<close>

definition buffered :: "console \<Rightarrow> nat option \<Rightarrow> nat" where
  "buffered g h = (case Option.bind h (session_at g) of None \<Rightarrow> 0 | Some s \<Rightarrow> length (cs_buf s))"

inductive console_step :: "console \<Rightarrow> console \<Rightarrow> bool" where
  step_open: "console_open m name g = (r, g') \<Longrightarrow> console_step g g'"
| step_close: "console_close h g = Done (r, g') \<Longrightarrow> console_step g g'"
| step_write: "buffered g h + length data < BUF_LIMIT \<Longrightarrow> console_write m h (Some data) g = Done (r, out, g') \<Longrightarrow> console_step g g'"
| step_read: "console_read_line h cap n g = Done (r, line, g') \<Longrightarrow> console_step g g'"
| step_banner: "2 * length text + 2 < BUF_LIMIT \<Longrightarrow> console_banner m1 m2 m3 h (Some text) g = Done (r, out, g') \<Longrightarrow> console_step g g'"
| step_clear: "console_clear h g = Done (r, g') \<Longrightarrow> console_step g g'"
| step_bind: "console_bind h cb g = Done (r, g') \<Longrightarrow> console_step g g'"
| step_cleanup: "console_step g (hw_console_cleanup g)"

lemma on_active_Done:
  assumes "on_active g h bad f = Done r"
  obtains "r = bad" | a s where "h = Some a" "session_at g a = Some s" "cs_active s" "f a s = Done r"
  using assms by (auto simp: on_active_def split: option.splits if_splits)

lemma length_banner_text: "length (escaped t) \<le> 2 * length t"
  by (induction t) (auto simp: escaped_def)

lemma console_open_cases:
  assumes "console_open m name g = (r, g')"
  obtains e where "r = Inl e" "g' = g"
  | n s where "name = Some n" "r = Inr (c_next g)" "n \<notin> set (active_names g)" "cs_name s = n" "cs_active s" "session_ok s"
      "g' = g\<lparr>c_sessions := (c_next g, s) # c_sessions g, c_seq := c_seq g + 1, c_next := c_next g + 1\<rparr>" "cs_buf s = []"
proof (cases r)
  case Inl
  then show thesis using assms that(1) by (auto simp: console_open_def Let_def split: option.splits if_splits)
next
  case (Inr a)
  then obtain n where n: "name = Some n" using assms by (cases name) (auto simp: console_open_def)
  show thesis
    using assms Inr n that(2) [of n "new_console_session n (c_seq g + 1)"]
    by (auto simp: console_open_def new_console_session_def session_ok_def active_names_def list_ex_iff cstr_simps split: if_splits)
qed

lemma console_wf_open:
  assumes wf: "console_wf g" and "console_open m name g = (r, g')"
  shows "console_wf g'"
  using assms(2)
proof (cases rule: console_open_cases)
  case (2 n s)
  have "c_next g \<notin> fst ` set (c_sessions g)" using wf by (auto simp: console_wf_def)
  then show ?thesis using wf 2 by (auto simp: console_wf_def active_names_def less_Suc_eq)
qed (use wf in simp)

lemma session_ok_bind [simp]: "session_ok (s\<lparr>cs_out := cb\<rparr>) = session_ok s" "session_ok (s\<lparr>cs_written := w\<rparr>) = session_ok s"
  "session_ok (s\<lparr>cs_active := b\<rparr>) = session_ok s"
  by (simp_all add: session_ok_def)

lemma appended_simps [simp]: "cs_name (appended d c s) = cs_name s" "cs_active (appended d c s) = cs_active s"
  "cs_buf (appended d c s) = cs_buf s @ d" "cs_out (appended d c s) = cs_out s"
  by (simp_all add: appended_def)

lemma consumed_simps [simp]: "cs_name (consumed r s) = cs_name s" "cs_active (consumed r s) = cs_active s" "cs_buf (consumed r s) = r"
  by (simp_all add: consumed_def)

lemma emptied_simps [simp]: "cs_name (emptied s) = cs_name s" "cs_active (emptied s) = cs_active s" "cs_buf (emptied s) = []"
  by (simp_all add: emptied_def)

lemma console_wf_write:
  assumes wf: "console_wf g" and "buffered g h + length data < BUF_LIMIT"
    and "console_write m h (Some data) g = Done (r, out, g')"
  shows "console_wf g'"
proof -
  from assms(3) show ?thesis
    unfolding console_write_def
  proof (cases rule: on_active_Done)
    case (2 a s)
    note s = 2
    have ok: "session_ok s" using console_wf_session [OF wf s(2)] .
    have "length (cs_buf s) + length data < BUF_LIMIT" using assms(2) 2(1,2) by (simp add: buffered_def)
    then show ?thesis
    proof (cases rule: sess_append_cases [where memory = m])
      case (1 c)
      have "console_wf (put_session a (appended data c s) g)"
        using appended_ok [OF ok 1(2)] by (intro console_wf_put [OF wf s(2)]) simp_all
      then show ?thesis using 1(1) s(4) by simp
    next
      case 2
      then show ?thesis using s(4) console_wf_put [OF wf s(2) ok] by simp
    qed
  qed (use wf in simp)
qed

lemma console_wf_read:
  assumes wf: "console_wf g" and "console_read_line h cap n g = Done (r, line, g')"
  shows "console_wf g'"
  using assms(2) unfolding console_read_line_def
proof (cases rule: on_active_Done)
  case (2 a s)
  have ok: "session_ok s" using console_wf_session [OF wf 2(2)] .
  have "console_wf (put_session a (consumed rest s) g)" if "split_first NL (cs_buf s) = (l, Some rest)" for l rest
    using that ok split_first_length [of NL "cs_buf s"]
    by (intro console_wf_put [OF wf 2(2)] consumed_ok) simp_all
  then show ?thesis using 2(4) wf by (auto split: option.splits if_splits prod.splits)
qed (use wf in simp)

lemma console_wf_banner:
  assumes wf: "console_wf g" and len: "2 * length t + 2 < BUF_LIMIT" and "console_banner m1 m2 m3 h (Some t) g = Done (r, out, g')"
  shows "console_wf g'"
  using assms(3) unfolding console_banner_def
proof (cases rule: on_active_Done)
  case (2 a s)
  note act = 2
  let ?s0 = "(emptied s)\<lparr>cs_written := 0\<rparr>"
  have keep: "console_wf (put_session a s' g)" if "session_ok s'" "cs_name s' = cs_name s" "cs_active s'" for s'
    using console_wf_put [OF wf act(2) that(1,2)] act(3) by simp
  have ok0: "session_ok ?s0" using console_wf_session [OF wf act(2)] emptied_ok by simp
  have "length (cs_buf ?s0) + length (escaped t) < BUF_LIMIT" using len length_banner_text [of t] by simp
  then show ?thesis
  proof (cases rule: sess_append_cases [where memory = m2])
    case (1 c)
    let ?s1 = "appended (escaped t) c ?s0"
    have ok1: "session_ok ?s1" using appended_ok [OF ok0 1(2)] .
    have "length (cs_buf ?s1) + length [NL] < BUF_LIMIT" using len length_banner_text [of t] by simp
    then show ?thesis
    proof (cases rule: sess_append_cases [where memory = m3])
      case (1 c2)
      then show ?thesis
        using act(3,4) \<open>sess_append m2 ?s0 (escaped t) = _\<close> keep [OF ok0] keep [OF appended_ok [OF ok1 1(2)]]
        by (auto simp: Let_def split: if_splits)
    next
      case 2
      then show ?thesis
        using act(3,4) \<open>sess_append m2 ?s0 (escaped t) = _\<close> keep [OF ok0] keep [OF ok1]
        by (auto simp: Let_def split: if_splits)
    qed
  next
    case 2
    then show ?thesis using act(3,4) keep [OF ok0] by (auto simp: Let_def split: if_splits)
  qed
qed (use wf in simp)

lemma console_wf_rest:
  assumes wf: "console_wf g"
  shows "console_close h g = Done (r, g') \<Longrightarrow> console_wf g'" "console_clear h g = Done (r, g') \<Longrightarrow> console_wf g'"
    "console_bind h cb g = Done (r, g') \<Longrightarrow> console_wf g'" "console_wf (hw_console_cleanup g)"
proof -
  show "console_wf g'" if "console_close h g = Done (r, g')"
    using that unfolding console_close_def
    by (rule on_active_Done) (use wf console_wf_session [OF wf] in \<open>auto intro!: console_wf_put\<close>)
  show "console_wf g'" if "console_clear h g = Done (r, g')"
    using that unfolding console_clear_def
    by (rule on_active_Done) (use wf console_wf_session [OF wf] in \<open>auto intro!: console_wf_put emptied_ok\<close>)
  show "console_wf g'" if "console_bind h cb g = Done (r, g')"
    using that wf console_wf_session [OF wf]
    by (auto simp: console_bind_def intro!: console_wf_put split: option.splits)
  show "console_wf (hw_console_cleanup g)" by (simp add: console_wf_def hw_console_cleanup_def active_names_def)
qed

lemma console_step_wf: "console_step g g' \<Longrightarrow> console_wf g \<Longrightarrow> console_wf g'"
  by (induction rule: console_step.induct)
    (blast intro: console_wf_open console_wf_write console_wf_read console_wf_banner console_wf_rest)+

section \<open>A session is a channel\<close>

datatype io = Write string bool | Read nat

text \<open>Writes, with or without memory, and reads with buffers of any size: what was accepted and the lines that were read.\<close>

fun session_io :: "nat \<Rightarrow> io list \<Rightarrow> console \<Rightarrow> (string \<times> string list \<times> console) run" where
  "session_io a [] g = Done ([], [], g)"
| "session_io a (Write data m # cs) g =
     (case console_write m (Some a) (Some data) g of
        Done (rc, _, g1) \<Rightarrow>
          (case session_io a cs g1 of
             Done (w, ls, g2) \<Rightarrow> Done (if rc = 0 then data @ w else w, ls, g2)
           | r \<Rightarrow> r)
      | Loops \<Rightarrow> Loops | Crash \<Rightarrow> Crash)"
| "session_io a (Read cap # cs) g =
     (case console_read_line (Some a) (Some cap) True g of
        Done (_, line, g1) \<Rightarrow>
          (case session_io a cs g1 of
             Done (w, ls, g2) \<Rightarrow> Done (w, (case line of None \<Rightarrow> ls | Some l \<Rightarrow> l # ls), g2)
           | r \<Rightarrow> r)
      | Loops \<Rightarrow> Loops | Crash \<Rightarrow> Crash)"

definition io_size :: "io list \<Rightarrow> nat" where
  "io_size cs = sum_list (map (\<lambda>c. case c of Write d _ \<Rightarrow> length d | Read _ \<Rightarrow> 0) cs)"

lemma io_size_simps [simp]: "io_size [] = 0" "io_size (Write d m # cs) = length d + io_size cs" "io_size (Read n # cs) = io_size cs"
  by (simp_all add: io_size_def)


lemma session_io_channel:
  assumes "session_at g a = Some s" "cs_active s" "length (cs_buf s) + io_size cs < BUF_LIMIT"
  shows "\<exists>w ls g' s'. session_io a cs g = Done (w, ls, g') \<and> session_at g' a = Some s' \<and> cs_active s'
    \<and> cs_buf s @ w = concat (map (\<lambda>l. l @ [NL]) ls) @ cs_buf s' \<and> (\<forall>l \<in> set ls. NL \<notin> set l)
    \<and> (\<forall>b. b \<noteq> a \<longrightarrow> session_at g' b = session_at g b)"
  using assms
proof (induction a cs g arbitrary: s rule: session_io.induct)
  case (2 a data m cs g)
  have "length (cs_buf s) + length data < BUF_LIMIT" using "2.prems"(3) by simp
  then show ?case
  proof (cases rule: sess_append_cases [where memory = m])
    case (1 c)
    let ?g1 = "put_session a (appended data c s) g"
    have w: "console_write m (Some a) (Some data) g = Done (0, emit (appended data c s) data, ?g1)"
      using 1(1) "2.prems"(1,2) by (simp add: console_write_def on_active_def)
    have at: "session_at ?g1 a = Some (appended data c s)" using "2.prems"(1) by (simp add: session_at_put)
    then have "\<exists>w ls g' s'. session_io a cs ?g1 = Done (w, ls, g') \<and> session_at g' a = Some s' \<and> cs_active s'
        \<and> cs_buf (appended data c s) @ w = concat (map (\<lambda>l. l @ [NL]) ls) @ cs_buf s' \<and> (\<forall>l \<in> set ls. NL \<notin> set l)
        \<and> (\<forall>b. b \<noteq> a \<longrightarrow> session_at g' b = session_at ?g1 b)"
      using "2.prems"(2,3) by (intro "2.IH" [OF w refl refl]) simp_all
    then show ?thesis by (auto simp: w session_at_put)
  next
    case no: 2
    have w: "console_write m (Some a) (Some data) g = Done (ENOMEM, [], put_session a s g)"
      using no(1) "2.prems"(1,2) by (simp add: console_write_def on_active_def)
    have at: "session_at (put_session a s g) a = Some s" using "2.prems"(1) by (simp add: session_at_put)
    then have "\<exists>w ls g' s'. session_io a cs (put_session a s g) = Done (w, ls, g') \<and> session_at g' a = Some s' \<and> cs_active s'
        \<and> cs_buf s @ w = concat (map (\<lambda>l. l @ [NL]) ls) @ cs_buf s' \<and> (\<forall>l \<in> set ls. NL \<notin> set l)
        \<and> (\<forall>b. b \<noteq> a \<longrightarrow> session_at g' b = session_at (put_session a s g) b)"
      using "2.prems"(2,3) by (intro "2.IH" [OF w refl refl]) simp_all
    then show ?thesis by (auto simp: w session_at_put)
  qed
next
  case (3 a cap cs g)
  show ?case
  proof (cases "\<exists>line rest. split_first NL (cs_buf s) = (line, Some rest) \<and> length line < cap")
    case True
    then obtain line rest where sp: "split_first NL (cs_buf s) = (line, Some rest)" "length line < cap" by blast
    let ?g1 = "put_session a (consumed rest s) g"
    have buf: "cs_buf s = line @ NL # rest" "NL \<notin> set line" using split_first_cases [OF sp(1)] by auto
    have r: "console_read_line (Some a) (Some cap) True g = Done (0, Some line, ?g1)"
      using sp "3.prems"(1,2) by (simp add: console_read_line_def on_active_def)
    have at: "session_at ?g1 a = Some (consumed rest s)" using "3.prems"(1) by (simp add: session_at_put)
    then have "\<exists>w ls g' s'. session_io a cs ?g1 = Done (w, ls, g') \<and> session_at g' a = Some s' \<and> cs_active s'
        \<and> cs_buf (consumed rest s) @ w = concat (map (\<lambda>l. l @ [NL]) ls) @ cs_buf s' \<and> (\<forall>l \<in> set ls. NL \<notin> set l)
        \<and> (\<forall>b. b \<noteq> a \<longrightarrow> session_at g' b = session_at ?g1 b)"
      using "3.prems"(2,3) buf by (intro "3.IH" [OF r refl refl]) simp_all
    then show ?thesis by (auto simp: r session_at_put buf)
  next
    case False
    then have r: "\<exists>rc. console_read_line (Some a) (Some cap) True g = Done (rc, None, g)"
      using "3.prems"(1,2) by (cases "split_first NL (cs_buf s)") (auto simp: console_read_line_def on_active_def split: option.splits)
    then obtain rc where r: "console_read_line (Some a) (Some cap) True g = Done (rc, None, g)" by blast
    have "\<exists>w ls g' s'. session_io a cs g = Done (w, ls, g') \<and> session_at g' a = Some s' \<and> cs_active s'
        \<and> cs_buf s @ w = concat (map (\<lambda>l. l @ [NL]) ls) @ cs_buf s' \<and> (\<forall>l \<in> set ls. NL \<notin> set l)
        \<and> (\<forall>b. b \<noteq> a \<longrightarrow> session_at g' b = session_at g b)"
      using "3.prems" by (intro "3.IH" [OF r refl refl]) simp_all
    then show ?thesis by (auto simp: r)
  qed
qed simp

lemma console_wf0: "console_wf console0"
  by (simp add: console_wf_def console0_def active_names_def)

section \<open>Properties\<close>

text \<open>
  In every run of the console, whatever the arguments and whenever memory runs out, no two open sessions have
  the same name, handles are never given out twice, and every buffer lies within the memory it has, with
  room for the final NUL.
\<close>

theorem console_sessions_wf:
  assumes "console_step\<^sup>*\<^sup>* console0 g"
  shows "distinct (active_names g) \<and> distinct (map fst (c_sessions g))
    \<and> list_all (\<lambda>s. length (cs_buf s) = 0 \<or> length (cs_buf s) < unat (cs_cap s)) (map snd (c_sessions g))"
proof -
  have "console_wf g"
    using assms by (induction rule: rtranclp_induct) (auto intro: console_step_wf console_wf0)
  then show ?thesis by (fastforce simp: console_wf_def session_ok_def list_all_iff split: if_splits)
qed

lemma console_sessions_wf_witness:
  "\<exists>g. console_step\<^sup>*\<^sup>* console0 g \<and> active_names g = [''tty0''] \<and> distinct (map fst (c_sessions g))"
proof -
  have "console_step console0 (snd (console_open True (Some ''tty0'') console0))"
    by (rule step_open [of True "Some ''tty0''" _ "fst (console_open True (Some ''tty0'') console0)"]) simp
  then have run: "console_step\<^sup>*\<^sup>* console0 (snd (console_open True (Some ''tty0'') console0))" by blast
  show ?thesis
    using console_sessions_wf [OF run] run
    by (intro exI [of _ "snd (console_open True (Some ''tty0'') console0)"])
      (simp add: console_open_def console0_def active_names_def new_console_session_def cstr_def)
qed

text \<open>
  C18. A session is a first-in first-out channel of bytes: after any sequence of writes and reads, with memory
  failing at any point and buffers of any size, what was in the buffer followed by what was accepted is
  the lines that were read, each with its newline, followed by what is in the buffer.  No call fails to
  return, no line holds a newline, and no other session is touched.
\<close>

theorem console_channel:
  assumes "session_at g a = Some s" "cs_active s" "length (cs_buf s) + io_size cs < BUF_LIMIT"
  shows "case session_io a cs g of
      Done (w, ls, g') \<Rightarrow>
        (case session_at g' a of
           None \<Rightarrow> False
         | Some s' \<Rightarrow> cs_buf s @ w = concat (map (\<lambda>l. l @ [NL]) ls) @ cs_buf s' \<and> NL \<notin> \<Union> (set ` set ls)
             \<and> (session_at g')(a := None) = (session_at g)(a := None))
    | _ \<Rightarrow> False"
  using session_io_channel [OF assms] by (auto simp: fun_eq_iff)

lemma console_channel_witness:
  "\<exists>g s. session_at g 0 = Some s \<and> cs_buf s = [] \<and>
    (case session_io 0 [Write ''ab'' True, Read 8, Write [CHR ''c'', NL, CHR ''d''] True, Read 2, Read 8] g of
      Done (w, ls, g') \<Rightarrow>
        (case session_at g' 0 of
           None \<Rightarrow> False
         | Some s' \<Rightarrow> [] @ w = concat (map (\<lambda>l. l @ [NL]) ls) @ cs_buf s' \<and> NL \<notin> \<Union> (set ` set ls)
             \<and> (session_at g')(0 := None) = (session_at g)(0 := None))
    | _ \<Rightarrow> False)"
proof (intro exI conjI)
  let ?s = "new_console_session ''tty0'' 1"
  let ?g = "\<lparr>c_sessions = [(0, ?s)], c_seq = 1, c_next = 1\<rparr>"
  show at: "session_at ?g 0 = Some ?s" by (simp add: session_at_def)
  show buf: "cs_buf ?s = []" by (simp add: new_console_session_def)
  have "cs_active ?s" by (simp add: new_console_session_def)
  moreover have "length (cs_buf ?s) + io_size [Write ''ab'' True, Read 8, Write [CHR ''c'', NL, CHR ''d''] True, Read 2, Read 8] < BUF_LIMIT"
    by (simp add: buf)
  ultimately show "case session_io 0 [Write ''ab'' True, Read 8, Write [CHR ''c'', NL, CHR ''d''] True, Read 2, Read 8] ?g of
      Done (w, ls, g') \<Rightarrow>
        (case session_at g' 0 of
           None \<Rightarrow> False
         | Some s' \<Rightarrow> [] @ w = concat (map (\<lambda>l. l @ [NL]) ls) @ cs_buf s' \<and> NL \<notin> \<Union> (set ` set ls)
             \<and> (session_at g')(0 := None) = (session_at ?g)(0 := None))
    | _ \<Rightarrow> False"
    using console_channel [OF at] by (simp only: buf)
qed

text \<open>
  A banner replaces whatever was waiting to be read by one line, its own text with the newlines written as
  a backslash and an n; the count of written bytes starts again.
\<close>

lemma console_banner_replaces:
  assumes "session_at g a = Some s" "cs_active s" "2 * length t + 2 < BUF_LIMIT"
  obtains s' where "console_banner True True True (Some a) (Some t) g = Done (0, emit s' t, put_session a s' g)"
    "cs_buf s' = escaped t @ [NL]" "cs_written s' = of_nat (length (escaped t) + 1)" "cs_active s'"
proof -
  let ?s0 = "(emptied s)\<lparr>cs_written := 0\<rparr>"
  have "length (cs_buf ?s0) + length (escaped t) < BUF_LIMIT" using assms(3) length_banner_text [of t] by simp
  then obtain c where c: "sess_append True ?s0 (escaped t) = Some (0, appended (escaped t) c ?s0)"
    by (rule sess_append_cases [where memory = True]) auto
  have "length (cs_buf (appended (escaped t) c ?s0)) + length [NL] < BUF_LIMIT" using assms(3) length_banner_text [of t] by simp
  then obtain d where d: "sess_append True (appended (escaped t) c ?s0) [NL]
      = Some (0, appended [NL] d (appended (escaped t) c ?s0))"
    by (rule sess_append_cases [where memory = True]) auto
  show thesis
    by (rule that [of "appended [NL] d (appended (escaped t) c ?s0)"])
      (use assms(1,2) c d in \<open>simp_all add: console_banner_def on_active_def Let_def appended_def emptied_def\<close>)
qed

end
