(* ===== verification/PmpCorrect.thy ===== *)
theory PmpCorrect
  imports Pmp
begin

text \<open>
  What the PMP plugin guarantees: reading back what the kernel prints of a process, and the life of a task in
  every run of the table, together with where that life is not what the caller was told.
\<close>

section \<open>The line of a process\<close>

definition stat_line :: "nat \<Rightarrow> string \<Rightarrow> char \<Rightarrow> nat \<Rightarrow> string \<Rightarrow> string" where
  "stat_line pid comm st ppid rest =
     show_nat pid @ '' ('' @ comm @ '') '' @ st # '' '' @ show_nat ppid @ CHR '' '' # rest"

lemma show_nat_no: "\<not> isdigit c \<Longrightarrow> c \<notin> set (show_nat n)"
  by (auto dest: show_nat_digits)

lemma atoi_digits:
  assumes "n < 2 ^ 31" "r = [] \<or> \<not> isdigit (hd r)"
  shows "atoi (show_nat n @ r) = int n"
proof -
  have "scan_number (show_nat n @ r) = Some (False, n, r)"
    using scan_number_digits [of "show_nat n" r] assms(2) show_nat_digits by simp
  then show ?thesis using assms(1) by (simp add: atoi_def strtol_def to_int32_id)
qed

lemma comm_text_line:
  assumes "CHR '')'' \<notin> set rest" "st \<noteq> CHR '')''"
  shows "comm_text (stat_line pid comm st ppid rest) = take 63 comm"
    and "after_comm (stat_line pid comm st ppid rest) = CHR '' '' # st # '' '' @ show_nat ppid @ CHR '' '' # rest"
proof -
  have no: "CHR '')'' \<notin> set (show_nat k)" "CHR ''('' \<notin> set (show_nat k)" for k
    by (auto intro!: show_nat_no simp: isdigit_def)
  let ?tail = "CHR '' '' # st # '' '' @ show_nat ppid @ CHR '' '' # rest"
  have first: "split_first (CHR ''('') (stat_line pid comm st ppid rest) = (show_nat pid @ '' '', Some (comm @ CHR '')'' # ?tail))"
    using split_first_append [of "CHR ''(''" "show_nat pid @ '' ''" "comm @ CHR '')'' # ?tail"] no by (simp add: stat_line_def)
  have rev: "split_first (CHR '')'') (rev ?tail @ CHR '')'' # xs) = (rev ?tail, Some xs)" for xs
    using assms no by (intro split_first_append) simp
  show "comm_text (stat_line pid comm st ppid rest) = take 63 comm"
    using rev [of "rev comm"] by (simp add: comm_text_def first)
  show "after_comm (stat_line pid comm st ppid rest) = ?tail"
    using rev [of "rev comm @ CHR ''('' # CHR '' '' # rev (show_nat pid)"] by (simp add: after_comm_def stat_line_def)
qed

section \<open>The table of tasks\<close>

definition ended :: "pmp_task \<Rightarrow> bool" where
  "ended t \<longleftrightarrow> tk_state t = FINISHED \<or> tk_state t = FAILED"

text \<open>
  The table together with the children of this process that have not been waited for.  All children are
  tasks here: a child that is started is given a number no living child has and entered in the table,
  and \<^verbatim>\<open>waitpid\<close> only finds living children.
\<close>

inductive task_step :: "tasks \<times> int set \<Rightarrow> tasks \<times> int set \<Rightarrow> bool" where
  submit: "pid \<notin> live \<Longrightarrow> 0 < pid \<Longrightarrow> g_task_seq g \<noteq> - 1 \<Longrightarrow>
     pmp_task_submit (Inr pid) True name (Some path) g = (i, rc, g') \<Longrightarrow> task_step (g, live) (g', insert pid live)"
| submit_fails: "e < 0 \<Longrightarrow> pmp_task_submit (Inl e) True name path g = (i, rc, g') \<Longrightarrow> task_step (g, live) (g', live)"
| cancel: "pmp_task_cancel i g = (rc, sent, g') \<Longrightarrow> task_step (g, live) (g', live)"
| status: "pmp_task_status None i g = (rc, t, g') \<Longrightarrow> task_step (g, live) (g', live)"
| collect: "pid \<in> live \<Longrightarrow> task_find i g \<noteq> None \<Longrightarrow> pmp_task_status (Some (pid, st)) i g = (rc, t, g') \<Longrightarrow>
     task_step (g, live) (g', live - {pid})"

definition tasks_wf :: "tasks \<times> int set \<Rightarrow> bool" where
  "tasks_wf s \<longleftrightarrow> (case s of (g, live) \<Rightarrow>
     distinct (map tk_id (g_task_table g)) \<and> (\<forall>t \<in> set (g_task_table g). tk_id t \<le> g_task_seq g)
     \<and> (\<forall>p \<in> live. \<exists>t. find (\<lambda>t. tk_pid t = p) (g_task_table g) = Some t \<and> \<not> ended t))"

lemma submitted:
  "pmp_task_submit (Inr pid) True name (Some path) g = (i, rc, g') \<Longrightarrow> 0 < pid \<Longrightarrow>
   i = g_task_seq g + 1 \<and> rc = 0 \<and> g_task_seq g' = i \<and> g_task_table g' = new_task i name path pid # g_task_table g"
  by (auto simp: pmp_task_submit_def pmp_spawn_def Let_def)

lemma next_id_fresh:
  assumes "\<forall>t \<in> set ts. tk_id t \<le> n" "n \<noteq> (- 1 :: 64 word)"
  shows "n + 1 \<notin> tk_id ` set ts" "\<forall>t \<in> set ts. tk_id t \<le> n + 1"
proof -
  have "1 + n \<noteq> 0" using assms(2) max_word_wrap [of n] by (auto simp: add.commute)
  then have "n < n + 1" using unatSuc [of n] by (simp add: word_less_nat_alt add.commute)
  then show "n + 1 \<notin> tk_id ` set ts" "\<forall>t \<in> set ts. tk_id t \<le> n + 1"
    using assms(1) by auto
qed


lemma reaped_simps [simp]: "tk_pid (reaped st t) = tk_pid t" "tk_id (reaped st t) = tk_id t" "tk_name (reaped st t) = tk_name t"
  "tk_path (reaped st t) = tk_path t"
  by (simp_all add: reaped_def)

lemma tasks_wf_step:
  assumes "task_step s s'" "tasks_wf s"
  shows "tasks_wf s'"
  using assms
proof (induction rule: task_step.induct)
  case (submit pid live g name path i rc g')
  note new = submitted [OF submit.hyps(4,2)]
  have wf: "distinct (map tk_id (g_task_table g))" "\<forall>t \<in> set (g_task_table g). tk_id t \<le> g_task_seq g"
    "\<forall>p \<in> live. \<exists>t. find (\<lambda>t. tk_pid t = p) (g_task_table g) = Some t \<and> \<not> ended t"
    using submit.prems by (simp_all add: tasks_wf_def)
  have fresh: "g_task_seq g + 1 \<notin> tk_id ` set (g_task_table g)" "\<forall>t \<in> set (g_task_table g). tk_id t \<le> g_task_seq g + 1"
    using next_id_fresh [OF wf(2) submit.hyps(3)] by auto
  show ?case using wf fresh submit.hyps(1) new by (auto simp: tasks_wf_def new_task_def ended_def)
next
  case (submit_fails e name path g i rc g' live)
  then show ?case by (auto simp: pmp_task_submit_def pmp_spawn_def split: option.splits if_splits)
next
  case (cancel i g rc sent g' live)
  let ?c = "\<lambda>t. t\<lparr>tk_state := CANCELLED\<rparr>"
  have keep: "\<exists>t. find (\<lambda>t. tk_pid t = p) (update_first (\<lambda>t. tk_id t = i) ?c ts) = Some t \<and> \<not> ended t"
    if "find (\<lambda>t. tk_pid t = p) ts = Some u" "\<not> ended u" for p ts u
    using that by (induction ts) (auto simp: ended_def split: if_splits)
  have ids: "map tk_id (update_first (\<lambda>t. tk_id t = i) ?c ts) = map tk_id ts" for ts
    by (rule map_update_first) simp
  have "\<forall>t \<in> set (update_first (\<lambda>t. tk_id t = i) ?c (g_task_table g)). tk_id t \<le> g_task_seq g"
    using cancel.prems by (auto simp: tasks_wf_def dest!: set_update_first)
  then show ?case
    using cancel.hyps cancel.prems keep
    by (fastforce simp: tasks_wf_def pmp_task_cancel_def ids split: option.splits if_splits)
next
  case (status i g rc t g' live)
  then show ?case by (auto simp: pmp_task_status_def task_reap_def Let_def split: option.splits)
next
  case (collect pid live i g st rc t g')
  have g': "g' = g\<lparr>g_task_table := update_first (\<lambda>t. tk_pid t = pid) (reaped st) (g_task_table g)\<rparr>"
    using collect.hyps by (auto simp: pmp_task_status_def task_reap_def Let_def)
  have ids: "map tk_id (g_task_table g') = map tk_id (g_task_table g)"
    unfolding g' by (simp add: map_update_first reaped_def)
  have "\<forall>t \<in> set (g_task_table g'). tk_id t \<le> g_task_seq g"
    using collect.prems by (auto simp: tasks_wf_def g' reaped_def dest!: set_update_first)
  moreover have "find (\<lambda>t. tk_pid t = p) (g_task_table g') = find (\<lambda>t. tk_pid t = p) (g_task_table g)" if "p \<noteq> pid" for p
    unfolding g' using that by (auto intro: find_update_first_other)
  ultimately show ?case using collect.prems ids by (simp add: tasks_wf_def g')
qed

lemma ended_stays_step:
  assumes "task_step s s'" "tasks_wf s" "task_find i (fst s) = Some t" "ended t"
  shows "task_find i (fst s') = Some t"
  using assms
proof (induction rule: task_step.induct)
  case (submit pid live g name path j rc g')
  note new = submitted [OF submit.hyps(4,2)]
  have "tk_id t = i" "t \<in> set (g_task_table g)" using submit.prems(2) find_SomeD by (fastforce simp: task_find_def)+
  moreover have "g_task_seq g + 1 \<notin> tk_id ` set (g_task_table g)"
    using submit.prems(1) submit.hyps(3) by (intro next_id_fresh) (simp_all add: tasks_wf_def)
  ultimately have "i \<noteq> g_task_seq g + 1" by (metis imageI)
  then show ?case using submit.prems(2) new by (simp add: task_find_def new_task_def)
next
  case (submit_fails e name path g j rc g' live)
  then show ?case by (auto simp: pmp_task_submit_def pmp_spawn_def split: option.splits if_splits)
next
  case (cancel j g rc sent g' live)
  have "j \<noteq> i" if "task_find j g = Some u" "\<not> ended u" for u
    using that cancel.prems(2,3) by auto
  then show ?case
    using cancel.hyps cancel.prems(2)
    by (auto simp: pmp_task_cancel_def task_find_def find_update_first_other ended_def split: option.splits if_splits)
next
  case (status j g rc u g' live)
  then show ?case by (auto simp: pmp_task_status_def task_reap_def Let_def split: option.splits)
next
  case (collect pid live j g st rc u g')
  have g': "g' = g\<lparr>g_task_table := update_first (\<lambda>t. tk_pid t = pid) (reaped st) (g_task_table g)\<rparr>"
    using collect.hyps by (auto simp: pmp_task_status_def task_reap_def Let_def)
  obtain v where v: "find (\<lambda>t. tk_pid t = pid) (g_task_table g) = Some v" "\<not> ended v"
    using collect.prems(1) collect.hyps(1) by (auto simp: tasks_wf_def)
  have "find (\<lambda>t. tk_id t = i) (update_first (\<lambda>t. tk_pid t = pid) (reaped st) ts) = Some t"
    if "find (\<lambda>t. tk_id t = i) ts = Some t" "find (\<lambda>t. tk_pid t = pid) ts = Some v" for ts
    using that v(2) \<open>ended t\<close> by (induction ts) (auto simp: reaped_def split: if_splits)
  then show ?case using collect.prems(2) v(1) by (simp add: g' task_find_def)
qed


lemma tasks_wf0: "tasks_wf (tasks0, {})"
  by (simp add: tasks_wf_def tasks0_def)

lemma reachable_tasks_wf: "task_step\<^sup>*\<^sup>* (tasks0, {}) s \<Longrightarrow> tasks_wf s"
  by (induction rule: rtranclp_induct) (blast intro: tasks_wf_step tasks_wf0)+

section \<open>Properties\<close>

text \<open>
  The line the kernel prints of a process is read back: its number, the first 63 characters of its name,
  whatever characters the name holds, the state for its letter, and the number of its parent.
\<close>

theorem pmp_stat_roundtrip:
  assumes "pid < 2 ^ 31" "ppid < 2 ^ 31" "CHR '')'' \<notin> set rest" "st \<noteq> CHR '')''" "\<not> isspace st"
  shows "parse_stat (stat_line pid comm st ppid rest) info =
    info\<lparr>pi_pid := of_nat pid, pi_comm := take 63 comm, pi_state := map_state st, pi_ppid := of_nat ppid\<rparr>"
proof -
  have lp: "CHR ''('' \<in> set (stat_line pid comm st ppid rest)" by (simp add: stat_line_def)
  have pid: "atoi (stat_line pid comm st ppid rest) = int pid"
    using atoi_digits [OF assms(1), of "'' ('' @ comm @ '') '' @ st # '' '' @ show_nat ppid @ CHR '' '' # rest"]
    by (simp add: stat_line_def isdigit_def)
  obtain d ds where d: "show_nat ppid = d # ds" using show_nat_nonempty [of ppid] by (cases "show_nat ppid") auto
  have "isdigit d" using show_nat_digits [of d ppid] d by simp
  then have "\<not> isspace d" using isdigit_not by blast
  then have parent: "dropWhile isspace ('' '' @ show_nat ppid @ CHR '' '' # rest) = show_nat ppid @ CHR '' '' # rest"
    by (simp add: d isspace_def)
  have ppid: "atoi (show_nat ppid @ CHR '' '' # rest) = int ppid"
    using atoi_digits [OF assms(2), of "CHR '' '' # rest"] by (simp add: isdigit_def)
  have sp: "isspace (CHR '' '')" by (simp add: isspace_def)
  show ?thesis
    using assms(5) parent
    by (simp add: parse_stat_def comm_text_line [OF assms(3,4)] lp pid sp ppid Let_def del: dropWhile_eq_Nil_conv)
qed

lemma pmp_stat_roundtrip_witness:
  "parse_stat (stat_line 4711 ''a) b('' (CHR ''S'') 1 ''0 0'') info0 =
     info0\<lparr>pi_pid := 4711, pi_comm := ''a) b('', pi_state := INTERRUPTIBLE, pi_ppid := 1\<rparr>"
  using pmp_stat_roundtrip [of 4711 1 "''0 0''" "CHR ''S''" "''a) b(''" info0]
  by (simp add: isspace_def map_state_def)

text \<open>
  C19. Where all children of the process are tasks, a task that has been reported finished or failed is reported
  that way ever after: no submission, cancellation or collection of another child touches it, and the
  numbers of tasks are distinct.
\<close>

theorem pmp_ended_task_is_final:
  assumes "task_step\<^sup>*\<^sup>* (tasks0, {}) (g, live)" "task_step\<^sup>*\<^sup>* (g, live) (g', live')"
    and "task_find i g = Some t" "tk_state t = FINISHED \<or> tk_state t = FAILED"
  shows "task_find i g' = Some t \<and> distinct (map tk_id (g_task_table g'))"
proof -
  have wf: "tasks_wf (g, live)" using reachable_tasks_wf [OF assms(1)] .
  have "tasks_wf s \<and> task_find i (fst s) = Some t" if "task_step\<^sup>*\<^sup>* (g, live) s" for s
    using that by (induction rule: rtranclp_induct)
      (use wf assms(3,4) in \<open>auto intro: tasks_wf_step ended_stays_step simp: ended_def\<close>)
  then show ?thesis using assms(2) by (fastforce simp: tasks_wf_def)
qed

lemma pmp_ended_task_is_final_witness:
  "\<exists>g g' t. task_find 1 g = Some t \<and> tk_state t = FINISHED \<and> task_find 1 g' = Some t \<and> distinct (map tk_id (g_task_table g'))"
proof -
  define g1 where "g1 = (snd (snd (pmp_task_submit (Inr 100) True None (Some ''/bin/true'') tasks0)))"
  define g2 where "g2 = snd (snd (pmp_task_status (Some (100, Exited 0)) 1 g1))"
  define g3 where "g3 = (snd (snd (pmp_task_submit (Inr 100) True None (Some ''/bin/ls'') g2)))"
  have g1: "g1 = \<lparr>g_task_table = [new_task 1 None ''/bin/true'' 100], g_task_seq = 1\<rparr>"
    by (simp add: g1_def pmp_task_submit_def pmp_spawn_def tasks0_def)
  have g2: "g2 = \<lparr>g_task_table = [reaped (Exited 0) (new_task 1 None ''/bin/true'' 100)], g_task_seq = 1\<rparr>"
    by (simp add: g2_def g1 pmp_task_status_def task_find_def task_reap_def new_task_def)
  have "task_step (tasks0, {}) (g1, {100})"
    unfolding g1_def by (rule submit) (auto simp: tasks0_def pmp_task_submit_def pmp_spawn_def)
  moreover have "task_step (g1, {100}) (g2, {100} - {100})"
    unfolding g2_def by (rule collect [where i = 1 and st = "Exited 0"]) (auto simp: g1 task_find_def new_task_def pmp_task_status_def Let_def)
  ultimately have run: "task_step\<^sup>*\<^sup>* (tasks0, {}) (g2, {100} - {100})" by (meson r_into_rtranclp rtranclp.rtrancl_into_rtrancl)
  have "task_step (g2, {100} - {100}) (g3, insert 100 ({100} - {100}))"
    unfolding g3_def by (rule submit) (auto simp: g2 pmp_task_submit_def pmp_spawn_def)
  then have more: "task_step\<^sup>*\<^sup>* (g2, {100} - {100}) (g3, insert 100 ({100} - {100}))" by blast
  have found: "task_find 1 g2 = Some (reaped (Exited 0) (new_task 1 None ''/bin/true'' 100))"
    by (simp add: g2 task_find_def new_task_def)
  have fin: "tk_state (reaped (Exited 0) (new_task 1 None ''/bin/true'' 100)) = FINISHED" by (simp add: reaped_def)
  show ?thesis
    using pmp_ended_task_is_final [OF run more found disjI1 [OF fin]] found fin by blast
qed

text \<open>
  The report of a cancellation does not last.  A running task that is cancelled gets its signal and is
  reported as cancelled; when its child is then collected it is reported as failed with the number of the
  signal as its exit status, or as finished if it ended on its own first.
\<close>

theorem pmp_cancelled_task_fails:
  assumes "task_find i g = Some t" "tk_state t = TASK_RUNNING" "0 < tk_pid t"
    "find (\<lambda>u. tk_pid u = tk_pid t) (g_task_table g) = Some t" "distinct (map tk_id (g_task_table g))"
  shows "case pmp_task_cancel i g of
      (rc, sent, g1) \<Rightarrow> rc = 0 \<and> sent = [(tk_pid t, SIGTERM)] \<and> map_option tk_state (task_find i g1) = Some CANCELLED
        \<and> tk_state (fst (snd (pmp_task_status (Some (tk_pid t, Signaled 15)) i g1))) = FAILED
        \<and> tk_exit (fst (snd (pmp_task_status (Some (tk_pid t, Signaled 15)) i g1))) = 15
        \<and> tk_state (fst (snd (pmp_task_status (Some (tk_pid t, Exited 0)) i g1))) = FINISHED"
proof -
  let ?c = "\<lambda>t. t\<lparr>tk_state := CANCELLED\<rparr>"
  define g1 where "g1 = g\<lparr>g_task_table := update_first (\<lambda>t. tk_id t = i) ?c (g_task_table g)\<rparr>"
  have cancel: "pmp_task_cancel i g = (0, [(tk_pid t, SIGTERM)], g1)"
    using assms(1-3) by (simp add: pmp_task_cancel_def g1_def)
  have t: "tk_id t = i" using assms(1) find_SomeD by (fastforce simp: task_find_def)
  have found: "task_find i g1 = Some (?c t)"
    using assms(1) by (simp add: task_find_def g1_def find_update_first)
  have "find (\<lambda>u. tk_pid u = tk_pid t) (update_first (\<lambda>t. tk_id t = i) ?c ts) = Some (?c t)"
    if "find (\<lambda>u. tk_pid u = tk_pid t) ts = Some t" "find (\<lambda>t. tk_id t = i) ts = Some t" for ts
    using that t by (induction ts) (auto split: if_splits)
  then have first: "find (\<lambda>u. tk_pid u = tk_pid t) (g_task_table g1) = Some (?c t)"
    using assms(1,4) by (simp add: g1_def task_find_def)
  have "find (\<lambda>t. tk_id t = i) (update_first (\<lambda>u. tk_pid u = tk_pid t) (reaped st) ts) = Some (reaped st (?c t))"
    if "find (\<lambda>u. tk_pid u = tk_pid t) ts = Some (?c t)" "find (\<lambda>t. tk_id t = i) ts = Some (?c t)" for ts st
    using that t by (induction ts) (auto split: if_splits)
  then have "pmp_task_status (Some (tk_pid t, st)) i g1 =
      (0, (reaped st (?c t))\<lparr>tk_name := cstr 64 (tk_name t), tk_path := cstr 256 (tk_path t)\<rparr>, task_reap (Some (tk_pid t, st)) g1)" for st
    using found first by (simp add: pmp_task_status_def task_reap_def task_find_def Let_def)
  then show ?thesis by (simp add: cancel found reaped_def)
qed

lemma pmp_cancelled_task_fails_witness:
  "\<exists>g t. task_find 7 g = Some t \<and> tk_state t = TASK_RUNNING \<and>
    tk_state (fst (snd (pmp_task_status (Some (100, Signaled 15)) 7 (snd (snd (pmp_task_cancel 7 g)))))) = FAILED"
proof -
  let ?t = "new_task 7 None ''/bin/cat'' 100"
  let ?g = "\<lparr>g_task_table = [?t], g_task_seq = 7\<rparr>"
  have t: "task_find 7 ?g = Some ?t" "tk_state ?t = TASK_RUNNING" "tk_pid ?t = 100"
    by (simp_all add: task_find_def new_task_def)
  have "0 < tk_pid ?t" "find (\<lambda>u. tk_pid u = tk_pid ?t) (g_task_table ?g) = Some ?t" "distinct (map tk_id (g_task_table ?g))"
    by (simp_all add: new_task_def)
  then show ?thesis
    using pmp_cancelled_task_fails [OF t(1,2)] t by (intro exI [of _ ?g] exI [of _ ?t]) (auto split: prod.splits)
qed

text \<open>
  The table never forgets a process number.  When a child that is no task gets the number of a task that has
  ended, collecting it overwrites the report on that task.
\<close>

lemma pmp_foreign_child_overwrites:
  assumes "find (\<lambda>u. tk_pid u = p) (g_task_table g) = Some t" "task_find (tk_id t) g = Some t" "st \<noteq> Exited 0"
  shows "tk_state (fst (snd (pmp_task_status (Some (p, st)) (tk_id t) g))) = FAILED"
proof -
  have "find (\<lambda>u. tk_id u = tk_id t) (update_first (\<lambda>u. tk_pid u = p) (reaped st) ts) = Some (reaped st t)"
    if "find (\<lambda>u. tk_pid u = p) ts = Some t" "find (\<lambda>u. tk_id u = tk_id t) ts = Some t" for ts
    using that by (induction ts) (auto dest: find_SomeD split: if_splits)
  then show ?thesis
    using assms by (simp add: pmp_task_status_def task_find_def task_reap_def Let_def) (simp add: reaped_def)
qed

section \<open>Masks and policies\<close>

text \<open>The set of processors a mask stands for gives the mask again, and so do the names of the policies.\<close>

lemma affinity_roundtrip:
  assumes "0 \<le> setaffinity (filter (bit m) [0..<32])"
  shows "pmp_set_affinity setaffinity m = (0, filter (bit m) [0..<32])"
    and "pmp_get_affinity (Inr (filter (bit m) [0..<32])) = Inr m"
proof -
  have bits: "bit (foldl (\<lambda>w cpu. if cpu \<in> set cpus then or w (push_bit cpu 1) else w) (0 :: 32 word) [0..<k]) n
      \<longleftrightarrow> n < 32 \<and> n < k \<and> n \<in> set cpus" for cpus k n
    by (induction k) (auto simp: bit_simps less_Suc_eq)
  have "foldl (\<lambda>w cpu. if cpu \<in> set (filter (bit m) [0..<32]) then or w (push_bit cpu 1) else w) 0 [0..<32] = m"
    by (rule bit_word_eqI) (subst bits, simp)
  then show "pmp_get_affinity (Inr (filter (bit m) [0..<32])) = Inr m" by (simp add: pmp_get_affinity_def)
  show "pmp_set_affinity setaffinity m = (0, filter (bit m) [0..<32])" using assms by (simp add: pmp_set_affinity_def Let_def)
qed

lemma policy_roundtrip: "linux_to_pmp_policy (pmp_to_linux_policy p) = p"
  by (cases p) (simp_all add: linux_to_pmp_policy_def)

end
