(* ===== verification/GitCorrect.thy ===== *)
theory GitCorrect
  imports GitQuery
begin

text \<open>
  What the GIT plugin guarantees: each operation asks for two records in the audit log, around its command, the history is read
  back as \<^verbatim>\<open>git\<close> prints it; and where its readers fail: no record of the audit log can be read again, and
  an annotated file is reported without its commits and authors.
\<close>

section \<open>Lines of output\<close>

lemma out_lines_Nil [simp]: "out_lines [] = []"
  by (simp add: out_lines.simps)

lemma out_lines_line [simp]: "NL \<notin> set l \<Longrightarrow> out_lines (l @ NL # s) = l # out_lines s"
  by (subst out_lines.simps) simp

lemma out_lines_last: "NL \<notin> set l \<Longrightarrow> l \<noteq> [] \<Longrightarrow> out_lines l = [l]"
  by (subst out_lines.simps) simp

lemma out_lines_lines: "\<forall>l \<in> set ls. NL \<notin> set l \<Longrightarrow> out_lines (concat (map (\<lambda>l. l @ [NL]) ls)) = ls"
  by (induction ls) simp_all

text \<open>Lines with a newline between each two, as \<^verbatim>\<open>--pretty=format\<close> prints them.\<close>

fun separated :: "string list \<Rightarrow> string" where
  "separated [] = []"
| "separated [l] = l"
| "separated (l # ls) = l @ NL # separated ls"

lemma out_lines_separated: "\<forall>l \<in> set ls. NL \<notin> set l \<and> l \<noteq> [] \<Longrightarrow> out_lines (separated ls) = ls"
  by (induction ls rule: separated.induct) (simp_all add: out_lines_last)

lemma alloc_Nil [simp]: "alloc [] = (True, [])"
  by simp

lemma with_memory_all [simp]: "with_memory [] xs = xs"
  by (induction xs) simp_all

section \<open>History\<close>

definition commit_line :: "git_commit \<Rightarrow> string" where
  "commit_line c = gm_hash c @ CHR ''|'' # gm_author c @ CHR ''|'' # gm_date c @ CHR ''|'' # gm_message c"

definition commit_ok :: "git_commit \<Rightarrow> bool" where
  "commit_ok c \<longleftrightarrow> CHR ''|'' \<notin> set (gm_hash c @ gm_author c @ gm_date c) \<and> NL \<notin> set (gm_hash c @ gm_author c @ gm_date c @ gm_message c)
     \<and> length (gm_hash c) < 64 \<and> length (gm_author c) < 128 \<and> length (gm_date c) < 32 \<and> length (gm_message c) < 256"

lemma parse_commit_line: "commit_ok c \<Longrightarrow> parse_commit (commit_line c) = c"
  by (cases c) (simp add: parse_commit_def commit_line_def commit_ok_def cstr_simps)

section \<open>Fields of the audit log\<close>

text \<open>A field whose text holds no quote is passed over, and so is the name of a field, which a quote stands before.\<close>

lemma find_field_skip:
  assumes "QUOTE \<notin> set u" "QUOTE \<notin> set key" "rest = [] \<or> hd rest \<noteq> CHR '':''"
  shows "find_field key prev (u @ QUOTE # rest) = find_field key (Some QUOTE) rest"
  using assms(1)
proof (induction "length u" arbitrary: u prev rule: less_induct)
  case less
  show ?case
  proof (cases "key = []")
    case True
    then show ?thesis by (simp add: find_field.simps)
  next
    case key: False
    show ?thesis
    proof (cases "prefix key (u @ QUOTE # rest)")
      case True
      then have "prefix key u"
        using assms(2) by (auto simp: prefix_append prefix_Cons)
      then obtain v where u: "u = key @ v" by (auto simp: prefix_def)
      have "\<not> prefix [QUOTE, CHR '':''] (v @ QUOTE # rest)"
        using less.prems u assms(3) by (cases v; cases rest) auto
      then have "find_field key prev (u @ QUOTE # rest) = find_field key (Some (last key)) (v @ QUOTE # rest)"
        using key u by (subst find_field.simps) (simp add: field_here_def)
      also have "\<dots> = find_field key (Some QUOTE) rest"
        using less.prems u key by (intro less.hyps) auto
      finally show ?thesis .
    next
      case False
      then have "find_field key prev (u @ QUOTE # rest) = find_field key (Some (hd (u @ [QUOTE]))) (tl (u @ QUOTE # rest))"
        using key by (subst find_field.simps) (cases u; simp)
      also have "\<dots> = find_field key (Some QUOTE) rest"
        using less.hyps [of "tl u"] less.prems by (cases u) auto
      finally show ?thesis .
    qed
  qed
qed


definition opens :: "char \<Rightarrow> bool" where
  "opens c \<longleftrightarrow> c = CHR ''{'' \<or> c = CHR '','' \<or> c = CHR ''[''"

lemma find_field_name:
  assumes "QUOTE \<notin> set u" "\<forall>c \<in> set u. \<not> opens c" "\<not> opens p" "QUOTE \<notin> set key"
  shows "find_field key (Some p) (u @ QUOTE # rest) = find_field key (Some QUOTE) rest"
  using assms(1-3)
proof (induction "length u" arbitrary: u p rule: less_induct)
  case less
  have here: "\<not> field_here (Some p) x" for x using less.prems(3) by (simp add: field_here_def opens_def)
  show ?case
  proof (cases "key = []")
    case True
    then show ?thesis by (simp add: find_field.simps)
  next
    case key: False
    show ?thesis
    proof (cases "prefix key (u @ QUOTE # rest)")
      case True
      then have "prefix key u" using assms(4) by (auto simp: prefix_append prefix_Cons)
      then obtain v where u: "u = key @ v" by (auto simp: prefix_def)
      then have "find_field key (Some p) (u @ QUOTE # rest) = find_field key (Some (last key)) (v @ QUOTE # rest)"
        using key here by (subst find_field.simps) simp
      also have "\<dots> = find_field key (Some QUOTE) rest"
        using less.prems u key by (intro less.hyps) auto
      finally show ?thesis .
    next
      case False
      then have "find_field key (Some p) (u @ QUOTE # rest) = find_field key (Some (hd (u @ [QUOTE]))) (tl (u @ QUOTE # rest))"
        using key by (subst find_field.simps) (cases u; simp)
      also have "\<dots> = find_field key (Some QUOTE) rest"
        using less.hyps [of "tl u"] less.prems by (cases u) auto
      finally show ?thesis .
    qed
  qed
qed

lemma find_field_short: "length s < length key \<Longrightarrow> find_field key prev s = None"
proof (induction s arbitrary: prev)
  case (Cons c s)
  then have "\<not> prefix key (c # s)" by (auto dest: prefix_length_le)
  then show ?case using Cons by (subst find_field.simps) simp
qed (simp add: find_field.simps)

definition clean :: "string \<Rightarrow> bool" where
  "clean s \<longleftrightarrow> QUOTE \<notin> set s \<and> NL \<notin> set s \<and> CHR 0xFF \<notin> set s"

definition audit_text :: "int \<Rightarrow> string \<Rightarrow> string \<Rightarrow> string \<Rightarrow> string \<Rightarrow> bool \<Rightarrow> string" where
  "audit_text now user op target msg success =
     ''{'' @ quoted ''ts'' @ '':'' @ show_int now @ '','' @ quoted ''user'' @ '':'' @ quoted user @ '','' @
       quoted ''op'' @ '':'' @ quoted op @ '','' @ quoted ''target'' @ '':'' @ quoted target @ '','' @
       quoted ''msg'' @ '':'' @ quoted msg @ '','' @ quoted ''result'' @ '':'' @
       quoted (if success then ''success'' else ''failed'') @ ''}''"

lemma clean_show_int: "clean (show_int i)"
proof -
  have "c \<in> set (show_int i) \<Longrightarrow> isdigit c \<or> c = CHR ''-''" for c
    by (auto simp: show_int_def dest: show_nat_digits split: if_splits)
  then show ?thesis by (fastforce simp: clean_def isdigit_def)
qed

text \<open>A record as the texts between its quotes.\<close>

definition with_quotes :: "string list \<Rightarrow> string \<Rightarrow> string" where
  "with_quotes us t = foldr (\<lambda>u r. u @ QUOTE # r) us t"

fun passed :: "string list \<Rightarrow> bool" where
  "passed (u # v # us) \<longleftrightarrow> QUOTE \<notin> set u \<and> ((\<forall>c \<in> set u. \<not> opens c) \<or> v = [] \<or> hd v \<noteq> CHR '':'') \<and> passed (v # us)"
| "passed _ = True"

lemma find_field_passed:
  assumes "passed (us @ [t])" "QUOTE \<notin> set key"
  shows "find_field key (Some QUOTE) (with_quotes us t) = find_field key (Some QUOTE) t"
  using assms(1)
proof (induction us)
  case (Cons u us)
  obtain v vs where v: "us @ [t] = v # vs" by (cases "us @ [t]") auto
  then have rest: "with_quotes us t = [] \<or> hd (with_quotes us t) \<noteq> CHR '':''" if "v = [] \<or> hd v \<noteq> CHR '':''"
    using that by (cases us) (auto simp: with_quotes_def hd_append)
  have prems: "QUOTE \<notin> set u" "(\<forall>c \<in> set u. \<not> opens c) \<or> v = [] \<or> hd v \<noteq> CHR '':''" "passed (us @ [t])"
    using Cons.prems v by simp_all
  have "find_field key (Some QUOTE) (u @ QUOTE # with_quotes us t) = find_field key (Some QUOTE) (with_quotes us t)"
  proof (cases "\<forall>c \<in> set u. \<not> opens c")
    case True
    then show ?thesis using prems(1) assms(2) by (intro find_field_name) (auto simp: opens_def)
  next
    case False
    then show ?thesis using prems(1,2) assms(2) rest by (intro find_field_skip) auto
  qed
  then show ?case using Cons.IH [OF prems(3)] by (simp add: with_quotes_def)
qed (simp add: with_quotes_def)

text \<open>No key is found in a record: the quote before its name is not the brace or comma that is looked for.\<close>

lemma find_field_audit_text:
  assumes "clean user" "clean op" "clean target" "clean msg" "QUOTE \<notin> set key" "1 < length key"
  shows "find_field key None (audit_text now user op target msg success) = None"
proof -
  let ?us = "[''ts'', '':'' @ show_int now @ '','', ''user'', '':'', user, '','', ''op'', '':'', op, '','', ''target'', '':'', target, '','',
    ''msg'', '':'', msg, '','', ''result'', '':'', if success then ''success'' else ''failed'']"
  have q: "QUOTE \<notin> set user" "QUOTE \<notin> set op" "QUOTE \<notin> set target" "QUOTE \<notin> set msg" "QUOTE \<notin> set (show_int now)"
    using assms(1-4) clean_show_int [of now] by (simp_all add: clean_def)
  have t: "audit_text now user op target msg success = ''{'' @ QUOTE # with_quotes ?us ''}''"
    by (simp add: audit_text_def quoted_def with_quotes_def)
  have "passed (?us @ [''}''])" using q by (simp add: opens_def)
  then have "find_field key (Some QUOTE) (with_quotes ?us ''}'') = find_field key (Some QUOTE) ''}''"
    using assms(5) by (rule find_field_passed)
  also have "\<dots> = None" using assms(6) by (intro find_field_short) simp
  finally have rest: "find_field key (Some QUOTE) (with_quotes ?us ''}'') = None" .
  have "hd (with_quotes ?us ''}'') = CHR ''t''" by (simp add: with_quotes_def)
  then have "find_field key None (''{'' @ QUOTE # with_quotes ?us ''}'') = find_field key (Some QUOTE) (with_quotes ?us ''}'')"
    using assms(5) by (intro find_field_skip) simp_all
  then show ?thesis using rest t by simp
qed


section \<open>Reading the log back\<close>

definition no_entry :: git_audit_entry where
  "no_entry = \<lparr>ga_timestamp = 0, ga_user = [], ga_operation = [], ga_target = [], ga_message = [], ga_result = []\<rparr>"

lemma parse_audit_text:
  assumes "clean user" "clean op" "clean target" "clean msg"
  shows "parse_entry (audit_text now user op target msg success) = no_entry"
  using find_field_audit_text [OF assms]
  by (simp add: parse_entry_def extract_field_def no_entry_def strtoull_def scan_number_def)

lemma clean_audit_text:
  assumes "clean user" "clean op" "clean target" "clean msg"
  shows "NL \<notin> set (audit_text now user op target msg success)" "CHR 0xFF \<notin> set (audit_text now user op target msg success)"
  using assms clean_show_int [of now] by (auto simp: audit_text_def quoted_def clean_def)

lemma audit_line_fits:
  "length (audit_text now user op target msg success) + 1 < 1024 \<Longrightarrow>
   audit_line now user op target msg success = audit_text now user op target msg success @ [NL]"
  unfolding audit_line_def audit_text_def by (subst cstr_id) simp_all

lemma skip_lines_concat:
  "\<forall>l \<in> set ls. NL \<notin> set l \<Longrightarrow> k < length ls \<Longrightarrow>
   skip_lines (Suc k) (concat (map (\<lambda>l. l @ [NL]) ls)) = concat (map (\<lambda>l. l @ [NL]) (drop (Suc k) ls))"
proof (induction ls arbitrary: k)
  case (Cons l ls)
  have "skip_lines (Suc k) (l @ NL # s) = (case k of 0 \<Rightarrow> s | Suc j \<Rightarrow> skip_lines (Suc j) s)" for s
    using Cons.prems(1) by (simp, induction l) (auto split: nat.splits)
  then show ?case using Cons by (cases k) simp_all
qed simp

lemma count_lines_concat:
  assumes "\<forall>l \<in> set ls. NL \<notin> set l \<and> CHR 0xFF \<notin> set l"
  shows "count_lines (concat (map (\<lambda>l. l @ [NL]) ls)) = length ls"
proof -
  let ?s = "concat (map (\<lambda>l. l @ [NL]) ls)"
  have "CHR 0xFF \<notin> set ?s" using assms by auto
  then have t: "takeWhile (\<lambda>c. c \<noteq> CHR 0xFF) ?s = ?s" by (auto simp: takeWhile_eq_all_conv)
  have "filter (\<lambda>c. c = NL) l = []" if "NL \<notin> set l" for l
    using that by (auto simp: filter_empty_conv)
  then have "length (filter (\<lambda>c. c = NL) ?s) = length ls"
    using assms by (induction ls) auto
  moreover have "?s = [] \<or> last ?s = NL" by (cases ls rule: rev_cases) auto
  ultimately show ?thesis by (auto simp: count_lines_def t Let_def)
qed

lemma read_empty_entries:
  assumes "\<forall>l \<in> set ls. NL \<notin> set l \<and> parse_entry l = no_entry"
  shows "read_entries [] user since (map (\<lambda>l. l @ [NL]) ls) = (if wanted user since no_entry then replicate (length ls) no_entry else [])"
  using assms by (induction ls) auto

text \<open>One record of the log: time, user, operation, target, message, outcome.\<close>

type_synonym audit_record = "int \<times> string \<times> string \<times> string \<times> string \<times> bool"

fun record_line :: "audit_record \<Rightarrow> string" where
  "record_line (now, user, op, target, msg, success) = audit_line now user op target msg success"

fun record_ok :: "audit_record \<Rightarrow> bool" where
  "record_ok (now, user, op, target, msg, success) \<longleftrightarrow> clean user \<and> clean op \<and> clean target \<and> clean msg
     \<and> length (audit_text now user op target msg success) + 1 < 1024"

lemma record_lines:
  assumes "list_all record_ok rs"
  obtains ls where "concat (map record_line rs) = concat (map (\<lambda>l. l @ [NL]) ls)" "length ls = length rs"
    "\<forall>l \<in> set ls. NL \<notin> set l \<and> CHR 0xFF \<notin> set l \<and> length l + 1 < 1024 \<and> parse_entry l = no_entry"
proof -
  let ?t = "\<lambda>(now, user, op, target, msg, success). audit_text now user op target msg success"
  have "concat (map record_line rs) = concat (map (\<lambda>l. l @ [NL]) (map ?t rs))"
    using assms by (induction rs) (auto simp: audit_line_fits)
  moreover have "\<forall>l \<in> set (map ?t rs). NL \<notin> set l \<and> CHR 0xFF \<notin> set l \<and> length l + 1 < 1024 \<and> parse_entry l = no_entry"
    using assms by (auto simp: list_all_iff parse_audit_text clean_audit_text)
  ultimately show thesis using that [of "map ?t rs"] by simp
qed

section \<open>What an operation does with the log\<close>

text \<open>What an operation asks of the system: a directory made, a command run with what it answered, text written to a file.\<close>

datatype git_event = Mkdir string | Ran string "(string \<times> int) option" | Wrote string string

text \<open>The same system, with every request written down.\<close>

definition traced :: "'w git_os \<Rightarrow> ('w \<times> git_event list) git_os" where
  "traced os =
     \<lparr>os_exists = (\<lambda>p (w, tr). os_exists os p w),
      os_system = (\<lambda>c (w, tr). (os_system os c w, tr @ [Mkdir c])),
      os_popen = (\<lambda>c (w, tr). case os_popen os c w of (r, w1) \<Rightarrow> (r, w1, tr @ [Ran c r])),
      os_append = (\<lambda>f s (w, tr). (os_append os f s w, tr @ [Wrote f s])),
      os_read = (\<lambda>f (w, tr). os_read os f w), os_time = (\<lambda>(w, tr). os_time os w)\<rparr>"

fun is_mkdir :: "git_event \<Rightarrow> bool" where
  "is_mkdir (Mkdir c) = True"
| "is_mkdir e = False"

definition calls_of :: "git_event list \<Rightarrow> git_event list" where
  "calls_of tr = filter (\<lambda>e. \<not> is_mkdir e) tr"

lemma calls_of_simps [simp]:
  "calls_of [] = []" "calls_of (xs @ ys) = calls_of xs @ calls_of ys" "calls_of [Mkdir c] = []" "calls_of [Ran c r] = [Ran c r]"
  "calls_of [Wrote f s] = [Wrote f s]"
  by (simp_all add: calls_of_def)

text \<open>
  A log that only the appending changes: commands leave it alone, and what is appended comes in as a whole or in
  part, or not at all when the file cannot be opened.
\<close>

definition log_kept :: "'w git_os \<Rightarrow> git_context \<Rightarrow> bool" where
  "log_kept os cx \<longleftrightarrow>
     (\<forall>w s. \<exists>p. prefix p s \<and> or_else [] (os_read os (audit_file cx) (os_append os (audit_file cx) s w)) = or_else [] (os_read os (audit_file cx) w) @ p)
     \<and> (\<forall>w c. os_read os (audit_file cx) (os_system os c w) = os_read os (audit_file cx) w)
     \<and> (\<forall>w c. os_read os (audit_file cx) (snd (os_popen os c w)) = os_read os (audit_file cx) w)"

definition log_of :: "'w git_os \<Rightarrow> git_context \<Rightarrow> 'w \<Rightarrow> string" where
  "log_of os cx w = or_else [] (os_read os (audit_file cx) w)"

lemma log_ensure_dir: "log_kept os cx \<Longrightarrow> log_of os cx (ensure_dir os d w) = log_of os cx w"
  by (simp add: log_of_def ensure_dir_def log_kept_def)

lemma log_popen: "log_kept os cx \<Longrightarrow> os_popen os c w = (r, w') \<Longrightarrow> log_of os cx w' = log_of os cx w"
  by (auto simp: log_of_def log_kept_def) (metis snd_conv)

lemma log_append:
  assumes "log_kept os cx"
  shows "\<exists>p. prefix p s \<and> log_of os cx (os_append os (audit_file cx) s w) = log_of os cx w @ p"
  using assms by (simp add: log_of_def log_kept_def)

lemma traced_ensure_dir:
  "ensure_dir (traced os) d (w, tr) = (ensure_dir os d w, tr @ (if os_exists os d w then [] else [Mkdir (mkdir_cmd d)]))"
  by (simp add: ensure_dir_def traced_def)

text \<open>A record is one write to the log, of one line, with the directory made before where it is missing.\<close>

lemma traced_audit_write:
  "\<exists>t tr'. git_audit_write (traced os) cx (Some user) (Some op) (Some target) (Some msg) success (w, tr) =
       (git_audit_write os cx (Some user) (Some op) (Some target) (Some msg) success w, tr @ tr')
    \<and> calls_of tr' = [Wrote (audit_file cx) (audit_line t user op target msg success)]
    \<and> (log_kept os cx \<longrightarrow> (\<exists>p. prefix p (audit_line t user op target msg success) \<and>
       log_of os cx (git_audit_write os cx (Some user) (Some op) (Some target) (Some msg) success w) = log_of os cx w @ p))"
proof -
  let ?w1 = "ensure_dir os (cx_audit_path cx) w"
  let ?t = "os_time os ?w1"
  let ?l = "audit_line ?t user op target msg success"
  let ?tr = "(if os_exists os (cx_audit_path cx) w then [] else [Mkdir (mkdir_cmd (cx_audit_path cx))]) @ [Wrote (audit_file cx) ?l]"
  have w: "git_audit_write os cx (Some user) (Some op) (Some target) (Some msg) success w = os_append os (audit_file cx) ?l ?w1"
    by (simp add: git_audit_write_def Let_def or_else_def)
  have "git_audit_write (traced os) cx (Some user) (Some op) (Some target) (Some msg) success (w, tr) =
      (os_append os (audit_file cx) ?l ?w1, tr @ ?tr)"
    by (simp add: git_audit_write_def Let_def or_else_def traced_ensure_dir) (simp add: traced_def)
  moreover have "calls_of ?tr = [Wrote (audit_file cx) ?l]" by simp
  moreover have "\<exists>p. prefix p ?l \<and> log_of os cx (os_append os (audit_file cx) ?l ?w1) = log_of os cx w @ p" if "log_kept os cx"
    using log_append [OF that, of ?l ?w1] by (simp add: log_ensure_dir [OF that])
  ultimately show ?thesis unfolding w by blast
qed

text \<open>A command is run once, unless there is no memory for its result.\<close>

lemma traced_exec:
  "\<exists>r res w'. git_exec os cx m m2 cwd (Some cmd) w = (res, w')
    \<and> git_exec (traced os) cx m m2 cwd (Some cmd) (w, tr) =
       (res, w', tr @ (if m then [Ran (full_command (or_else (cx_repo_path cx) cwd) cmd) r] else []))
    \<and> ((case res of None \<Rightarrow> False | Some r \<Rightarrow> gr_success r) \<longleftrightarrow> m \<and> (\<exists>out. r = Some (out, 0)))
    \<and> (log_kept os cx \<longrightarrow> log_of os cx w' = log_of os cx w)"
proof -
  let ?c = "full_command (or_else (cx_repo_path cx) cwd) cmd"
  obtain r w1 where p: "os_popen os ?c w = (r, w1)" by force
  define res where "res = (if m then Some (case r of None \<Rightarrow> \<lparr>gr_success = False, gr_exit_code = 0, gr_stdout = None\<rparr>
    | Some (out, code) \<Rightarrow> \<lparr>gr_success = (code = 0), gr_exit_code = code, gr_stdout = (if m2 then Some out else None)\<rparr>) else None)"
  have "git_exec os cx m m2 cwd (Some cmd) w = (res, if m then w1 else w)"
    using p by (auto simp: git_exec_def res_def split: option.splits)
  moreover have "git_exec (traced os) cx m m2 cwd (Some cmd) (w, tr) = (res, if m then w1 else w, tr @ (if m then [Ran ?c r] else []))"
    using p by (auto simp: git_exec_def traced_def res_def split: option.splits)
  moreover have "(case res of None \<Rightarrow> False | Some r \<Rightarrow> gr_success r) \<longleftrightarrow> m \<and> (\<exists>out. r = Some (out, 0))"
    by (auto simp: res_def split: option.splits)
  ultimately show ?thesis using log_popen [OF _ p] by auto
qed

text \<open>
  What an operation does: the request written to the log as failed, the command run, the outcome written, and nothing
  written after it.  \<open>ok\<close> is what the second record says: the command was run and ended with the code 0.  Where only
  the appending changes the log, it has grown by at most these two lines, in this order.
\<close>

definition audited :: "'w git_os \<Rightarrow> git_context \<Rightarrow> bool \<Rightarrow> string \<Rightarrow> string \<Rightarrow> rc \<Rightarrow> 'w \<Rightarrow> 'w \<Rightarrow> git_event list \<Rightarrow> bool" where
  "audited os cx m op target rc w w' tr \<longleftrightarrow>
     (\<exists>t1 t2 cmd cwd r l1 l2 ok reads.
        ok = (m \<and> (\<exists>out. r = Some (out, 0))) \<and> rc = (if ok then 0 else - 1) \<and>
        l1 = audit_line t1 ''system'' op target cmd False \<and> l2 = audit_line t2 ''system'' op target cmd ok \<and>
        calls_of tr = [Wrote (audit_file cx) l1] @ (if m then [Ran (full_command cwd cmd) r] else []) @ [Wrote (audit_file cx) l2] @ reads \<and>
        (\<forall>e \<in> set reads. op = ''commit'' \<and> ok \<and> (\<exists>a. e = Ran (full_command (cx_repo_path cx) ''rev-parse HEAD'') a)) \<and>
        (log_kept os cx \<longrightarrow> (\<exists>p1 p2. prefix p1 l1 \<and> prefix p2 l2 \<and> log_of os cx w' = log_of os cx w @ p1 @ p2)))"

lemma auditedI:
  assumes "ok = (m \<and> (\<exists>out. r = Some (out, 0)))" "rc = (if ok then 0 else - 1)"
    "calls_of tr = [Wrote (audit_file cx) (audit_line t1 ''system'' op target cmd False)] @
       (if m then [Ran (full_command cwd cmd) r] else []) @ [Wrote (audit_file cx) (audit_line t2 ''system'' op target cmd ok)]"
    "log_kept os cx \<longrightarrow> (\<exists>p1 p2. prefix p1 (audit_line t1 ''system'' op target cmd False) \<and>
       prefix p2 (audit_line t2 ''system'' op target cmd ok) \<and> log_of os cx w' = log_of os cx w @ p1 @ p2)"
  shows "audited os cx m op target rc w w' tr"
proof -
  have "\<forall>e \<in> set []. op = ''commit'' \<and> ok \<and> (\<exists>a. e = Ran (full_command (cx_repo_path cx) ''rev-parse HEAD'') a)" by simp
  moreover have "calls_of tr = [Wrote (audit_file cx) (audit_line t1 ''system'' op target cmd False)] @
       (if m then [Ran (full_command cwd cmd) r] else []) @ [Wrote (audit_file cx) (audit_line t2 ''system'' op target cmd ok)] @ []"
    using assms(3) by simp
  ultimately show ?thesis using assms(1,2,4) unfolding audited_def by blast
qed

text \<open>Making a directory before an operation is not seen in the log.\<close>

lemma audited_after:
  assumes "audited os cx m op target rc w1 w' tr" "calls_of tr' = calls_of tr" "log_kept os cx \<longrightarrow> log_of os cx w1 = log_of os cx w"
  shows "audited os cx m op target rc w w' tr'"
  using assms by (simp add: audited_def)

text \<open>Nor is the query for the number of the commit.\<close>

lemma audited_read:
  assumes "audited os cx m ''commit'' target 0 w w1 tr" "calls_of tr' = reads"
    "\<forall>e \<in> set reads. \<exists>a. e = Ran (full_command (cx_repo_path cx) ''rev-parse HEAD'') a"
    "log_kept os cx \<longrightarrow> log_of os cx w' = log_of os cx w1"
  shows "audited os cx m ''commit'' target 0 w w' (tr @ tr')"
proof -
  obtain t1 t2 cmd cwd r l1 l2 ok old where a: "ok = (m \<and> (\<exists>out. r = Some (out, 0)))" "(0 :: rc) = (if ok then 0 else - 1)"
    "l1 = audit_line t1 ''system'' ''commit'' target cmd False" "l2 = audit_line t2 ''system'' ''commit'' target cmd ok"
    "calls_of tr = [Wrote (audit_file cx) l1] @ (if m then [Ran (full_command cwd cmd) r] else []) @ [Wrote (audit_file cx) l2] @ old"
    "\<forall>e \<in> set old. ''commit'' = ''commit'' \<and> ok \<and> (\<exists>a. e = Ran (full_command (cx_repo_path cx) ''rev-parse HEAD'') a)"
    "log_kept os cx \<longrightarrow> (\<exists>p1 p2. prefix p1 l1 \<and> prefix p2 l2 \<and> log_of os cx w1 = log_of os cx w @ p1 @ p2)"
    using assms(1) unfolding audited_def by (elim exE conjE) (rule that)
  have ok: ok using a(2) by (simp split: if_splits)
  have "calls_of (tr @ tr') = [Wrote (audit_file cx) l1] @ (if m then [Ran (full_command cwd cmd) r] else []) @ [Wrote (audit_file cx) l2] @ (old @ reads)"
    using a(5) assms(2) by simp
  moreover have "\<forall>e \<in> set (old @ reads). ''commit'' = ''commit'' \<and> ok \<and> (\<exists>a. e = Ran (full_command (cx_repo_path cx) ''rev-parse HEAD'') a)"
    using a(6) assms(3) ok by auto
  moreover have "log_kept os cx \<longrightarrow> (\<exists>p1 p2. prefix p1 l1 \<and> prefix p2 l2 \<and> log_of os cx w' = log_of os cx w @ p1 @ p2)"
    using a(7) assms(4) by simp
  ultimately show ?thesis
    unfolding audited_def using a(1-4)
    by - (rule exI [of _ t1], rule exI [of _ t2], rule exI [of _ cmd], rule exI [of _ cwd], rule exI [of _ r], rule exI [of _ l1],
      rule exI [of _ l2], rule exI [of _ ok], rule exI [of _ "old @ reads"], intro conjI)
qed

lemma git_op_audited:
  "\<exists>rc w' tr'. git_op os cx m cwd cmd op (Some target) w = (rc, w')
    \<and> git_op (traced os) cx m cwd cmd op (Some target) (w, tr) = (rc, w', tr @ tr') \<and> audited os cx m op target rc w w' tr'"
proof -
  let ?line = "\<lambda>t. audit_line t ''system'' op target cmd" and ?rec = "git_audit_write os cx (Some ''system'') (Some op) (Some target) (Some cmd)"
  define w1 where "w1 = ?rec False w"
  obtain t1 tr1 where a1: "git_audit_write (traced os) cx (Some ''system'') (Some op) (Some target) (Some cmd) False (w, tr) = (w1, tr @ tr1)"
    "calls_of tr1 = [Wrote (audit_file cx) (?line t1 False)]" "log_kept os cx \<longrightarrow> (\<exists>p. prefix p (?line t1 False) \<and> log_of os cx w1 = log_of os cx w @ p)"
    unfolding w1_def using traced_audit_write [of os cx "''system''" op target cmd False w tr] by blast
  let ?c = "full_command (or_else (cx_repo_path cx) cwd) cmd"
  obtain r res w2 where x: "git_exec os cx m True cwd (Some cmd) w1 = (res, w2)"
    "git_exec (traced os) cx m True cwd (Some cmd) (w1, tr @ tr1) = (res, w2, (tr @ tr1) @ (if m then [Ran ?c r] else []))"
    "(case res of None \<Rightarrow> False | Some r \<Rightarrow> gr_success r) \<longleftrightarrow> m \<and> (\<exists>out. r = Some (out, 0))" "log_kept os cx \<longrightarrow> log_of os cx w2 = log_of os cx w1"
    using traced_exec [of os cx m True cwd cmd w1 "tr @ tr1"] by blast
  define ok where "ok = (case res of None \<Rightarrow> False | Some r \<Rightarrow> gr_success r)"
  define w3 where "w3 = ?rec ok w2"
  let ?ran = "if m then [Ran ?c r] else []"
  obtain t2 tr2 where a2: "git_audit_write (traced os) cx (Some ''system'') (Some op) (Some target) (Some cmd) ok (w2, tr @ tr1 @ ?ran)
      = (w3, (tr @ tr1 @ ?ran) @ tr2)" "calls_of tr2 = [Wrote (audit_file cx) (?line t2 ok)]"
    "log_kept os cx \<longrightarrow> (\<exists>p. prefix p (?line t2 ok) \<and> log_of os cx w3 = log_of os cx w2 @ p)"
    unfolding w3_def using traced_audit_write [of os cx "''system''" op target cmd ok w2 "tr @ tr1 @ ?ran"] by blast
  have "git_op os cx m cwd cmd op (Some target) w = (if ok then 0 else - 1, w3)"
    using x(1) by (auto simp: git_op_def git_exec_audit_def Let_def w1_def w3_def ok_def split: option.splits)
  moreover have "git_op (traced os) cx m cwd cmd op (Some target) (w, tr) = (if ok then 0 else - 1, w3, tr @ tr1 @ ?ran @ tr2)"
    using x(2) a2(1) unfolding git_op_def git_exec_audit_def Let_def a1(1)
    by (cases res) (simp_all add: ok_def)
  moreover have "audited os cx m op target (if ok then 0 else - 1) w w3 (tr1 @ ?ran @ tr2)"
  proof (rule auditedI)
    show "ok = (m \<and> (\<exists>out. r = Some (out, 0)))" using x(3) by (simp add: ok_def)
    show "calls_of (tr1 @ ?ran @ tr2) = [Wrote (audit_file cx) (?line t1 False)] @ ?ran @ [Wrote (audit_file cx) (?line t2 ok)]"
      using a1(2) a2(2) by simp
    show "log_kept os cx \<longrightarrow> (\<exists>p1 p2. prefix p1 (?line t1 False) \<and> prefix p2 (?line t2 ok) \<and> log_of os cx w3 = log_of os cx w @ p1 @ p2)"
      using a1(3) a2(3) x(4) by (metis append_assoc)
  qed simp
  ultimately show ?thesis by blast
qed

section \<open>The calls\<close>

text \<open>A call with the arguments of its function; a \<open>char *\<close> can be NULL.  \<open>Commit\<close>: the memory of the second command and the capacity.\<close>

datatype git_call =
  Init "string option" | Clone "string option" "string option" | Add "string option" | Commit "string option" bool "nat option" |
  Push "string option" "string option" | Pull "string option" "string option" | Tag "string option" "string option" |
  Checkout "string option" | Reset "string option" bool | Revert "string option" | Branch "string option" "string option" |
  Merge "string option" "string option"

fun git_call_run :: "'w git_os \<Rightarrow> git_context \<Rightarrow> bool \<Rightarrow> git_call \<Rightarrow> 'w \<Rightarrow> rc \<times> 'w" where
  "git_call_run os cx m (Init p) w = git_ops_init os cx m p w"
| "git_call_run os cx m (Clone r l) w = git_ops_clone os cx m r l w"
| "git_call_run os cx m (Add p) w = git_ops_add os cx m p w"
| "git_call_run os cx m (Commit msg m1 cap) w = (case git_ops_commit os cx m m1 True msg cap w of (rc, _, w1) \<Rightarrow> (rc, w1))"
| "git_call_run os cx m (Push r b) w = git_ops_push os cx m r b w"
| "git_call_run os cx m (Pull r b) w = git_ops_pull os cx m r b w"
| "git_call_run os cx m (Tag n c) w = git_ops_tag os cx m n c w"
| "git_call_run os cx m (Checkout r) w = git_ops_checkout os cx m r w"
| "git_call_run os cx m (Reset r h) w = git_ops_reset os cx m r h w"
| "git_call_run os cx m (Revert c) w = git_ops_revert os cx m c w"
| "git_call_run os cx m (Branch n b) w = git_ops_branch os cx m n b w"
| "git_call_run os cx m (Merge b msg) w = git_ops_merge os cx m b msg w"

text \<open>The name of the operation and the target its records carry; none when an argument that is needed is NULL.\<close>

fun call_record :: "git_context \<Rightarrow> git_call \<Rightarrow> (string \<times> string) option" where
  "call_record cx (Init p) = Some (''init'', or_else (cx_repo_path cx) p)"
| "call_record cx (Clone r l) = (if l = None then None else map_option (Pair ''clone'') r)"
| "call_record cx (Add p) = map_option (Pair ''add'') p"
| "call_record cx (Commit msg m1 cap) = map_option (Pair ''commit'') msg"
| "call_record cx (Push r b) = Some (''push'', or_else (gc_remote_url (cx_config cx)) r)"
| "call_record cx (Pull r b) = Some (''pull'', or_else (gc_remote_url (cx_config cx)) r)"
| "call_record cx (Tag n c) = map_option (Pair ''tag'') n"
| "call_record cx (Checkout r) = map_option (Pair ''checkout'') r"
| "call_record cx (Reset r h) = map_option (Pair ''reset'') r"
| "call_record cx (Revert c) = map_option (Pair ''revert'') c"
| "call_record cx (Branch n b) = map_option (Pair ''branch'') n"
| "call_record cx (Merge b msg) = map_option (Pair ''merge'') b"

lemma audited_init:
  "\<exists>rc w' tr'. git_ops_init os cx m p w = (rc, w') \<and> git_ops_init (traced os) cx m p (w, []) = (rc, w', tr')
    \<and> audited os cx m ''init'' (or_else (cx_repo_path cx) p) rc w w' tr'"
proof -
  let ?dir = "if given p then the p else cx_repo_path cx"
  let ?cwd = "if given p then cstr 512 ?dir else ?dir"
  let ?tr = "if os_exists os ?dir w then [] else [Mkdir (mkdir_cmd ?dir)]"
  obtain rc w' tr' where o:
    "git_op os cx m (Some ?cwd) ''init'' ''init'' (Some (or_else (cx_repo_path cx) p)) (ensure_dir os ?dir w) = (rc, w')"
    "git_op (traced os) cx m (Some ?cwd) ''init'' ''init'' (Some (or_else (cx_repo_path cx) p)) (ensure_dir os ?dir w, ?tr) = (rc, w', ?tr @ tr')"
    "audited os cx m ''init'' (or_else (cx_repo_path cx) p) rc (ensure_dir os ?dir w) w' tr'"
    using git_op_audited [of os cx m "Some ?cwd" "''init''" "''init''" "or_else (cx_repo_path cx) p" "ensure_dir os ?dir w" ?tr] by blast
  have "audited os cx m ''init'' (or_else (cx_repo_path cx) p) rc w w' (?tr @ tr')"
    using o(3) by (rule audited_after) (simp_all add: log_ensure_dir)
  then show ?thesis using o(1,2) by (simp add: git_ops_init_def Let_def traced_ensure_dir split del: if_split)
qed

lemma audited_commit:
  "\<exists>rc w' tr'. git_call_run os cx m (Commit (Some msg) m1 cap) w = (rc, w')
    \<and> git_call_run (traced os) cx m (Commit (Some msg) m1 cap) (w, []) = (rc, w', tr') \<and> audited os cx m ''commit'' msg rc w w' tr'"
proof -
  obtain rc w1 tr1 where o: "git_op os cx m None (commit_cmd msg) ''commit'' (Some msg) w = (rc, w1)"
    "git_op (traced os) cx m None (commit_cmd msg) ''commit'' (Some msg) (w, []) = (rc, w1, [] @ tr1)" "audited os cx m ''commit'' msg rc w w1 tr1"
    using git_op_audited [of os cx m None "commit_cmd msg" "''commit''" msg w "[]"] by blast
  show ?thesis
  proof (cases "rc = 0 \<and> cap \<noteq> None \<and> cap \<noteq> Some 0")
    case True
    let ?c = "full_command (cx_repo_path cx) ''rev-parse HEAD''"
    obtain r res w2 where x: "git_exec os cx m1 True None (Some ''rev-parse HEAD'') w1 = (res, w2)"
      "git_exec (traced os) cx m1 True None (Some ''rev-parse HEAD'') (w1, tr1) = (res, w2, tr1 @ (if m1 then [Ran ?c r] else []))"
      "log_kept os cx \<longrightarrow> log_of os cx w2 = log_of os cx w1"
      using traced_exec [of os cx m1 True None "''rev-parse HEAD''" w1 tr1] unfolding or_else_def option.case by blast
    let ?reads = "if m1 then [Ran ?c r] else []"
    have "audited os cx m ''commit'' msg 0 w w2 (tr1 @ ?reads)"
      using o(3) True x(3) by (intro audited_read [of os cx m msg w w1 tr1 ?reads ?reads]) simp_all
    then show ?thesis using o(1,2) x(1,2) True by (auto simp: git_ops_commit_def split: option.splits)
  next
    case False
    then show ?thesis using o by (auto simp: git_ops_commit_def)
  qed
qed

text \<open>An instance of the system: a log, and a shell whose commands print what a function says and succeed.\<close>

definition toy_os :: "(string \<Rightarrow> string) \<Rightarrow> string option git_os" where
  "toy_os out =
     \<lparr>os_exists = (\<lambda>_ _. True), os_system = (\<lambda>_ w. w), os_popen = (\<lambda>c w. (Some (out c, 0), w)),
      os_append = (\<lambda>_ s w. Some (or_else [] w @ s)), os_read = (\<lambda>_ w. w), os_time = (\<lambda>_. 1700000000)\<rparr>"

lemma toy_os_ok: "log_kept (toy_os out) cx"
  by (simp add: log_kept_def toy_os_def or_else_def)

section \<open>Annotated files\<close>

text \<open>What \<^verbatim>\<open>git blame --line-porcelain\<close> prints for a line of a file.\<close>

record porcelain =
  po_hash :: string
  po_numbers :: string
  po_author :: string
  po_author_mail :: string
  po_author_time :: string
  po_author_tz :: string
  po_committer :: string
  po_committer_mail :: string
  po_committer_time :: string
  po_committer_tz :: string
  po_summary :: string
  po_filename :: string
  po_content :: string

definition porcelain_lines :: "porcelain \<Rightarrow> string list" where
  "porcelain_lines p =
     [po_hash p @ '' '' @ po_numbers p, ''author '' @ po_author p, ''author-mail '' @ po_author_mail p, ''author-time '' @ po_author_time p,
      ''author-tz '' @ po_author_tz p, ''committer '' @ po_committer p, ''committer-mail '' @ po_committer_mail p,
      ''committer-time '' @ po_committer_time p, ''committer-tz '' @ po_committer_tz p, ''summary '' @ po_summary p,
      ''filename '' @ po_filename p, TAB # po_content p]"

definition porcelain_ok :: "porcelain \<Rightarrow> bool" where
  "porcelain_ok p \<longleftrightarrow> starts_hash (po_hash p) \<and> CHR '' '' \<notin> set (po_hash p) \<and> (\<forall>l \<in> set (porcelain_lines p). NL \<notin> set l)"

lemma blame_header:
  assumes "starts_hash h" "CHR '' '' \<notin> set h"
  shows "blame_line ctime (h @ CHR '' '' # r) c = (None, c\<lparr>bc_hash := take 63 h, bc_line_no := bc_line_no c + 1\<rparr>)"
proof -
  have "starts_hash (h @ CHR '' '' # r)" using assms(1) by (cases h) (simp_all add: starts_hash_def)
  then show ?thesis using assms(2) by (simp add: blame_line_def)
qed

lemma blame_entry:
  assumes "porcelain_ok p" "bc_author c = []" "bc_date c = []"
  shows "blame_loop ctime [] (porcelain_lines p @ ls) c =
    \<lparr>gb_line_no = bc_line_no c + 10, gb_commit_id = ''filename'', gb_author = [], gb_date = [], gb_content = cstr 512 (po_content p)\<rparr> #
    blame_loop ctime [] ls (c\<lparr>bc_line_no := bc_line_no c + 10, bc_hash := []\<rparr>)"
proof -
  have h: "blame_line ctime (po_hash p @ CHR '' '' # r) c = (None, c\<lparr>bc_hash := take 63 (po_hash p), bc_line_no := bc_line_no c + 1\<rparr>)" for r c
    using assms(1) by (intro blame_header) (auto simp: porcelain_ok_def)
  note names = blame_header [of "''author''"] blame_header [of "''author-mail''"] blame_header [of "''author-time''"]
    blame_header [of "''author-tz''"] blame_header [of "''committer''"] blame_header [of "''committer-mail''"]
    blame_header [of "''committer-time''"] blame_header [of "''committer-tz''"] blame_header [of "''filename''"]
  have s: "blame_line ctime (''summary '' @ r) c = (None, c)" for r c
    by (simp add: blame_line_def starts_hash_def)
  have t: "blame_line ctime (TAB # r) c = (Some \<lparr>gb_line_no = bc_line_no c, gb_commit_id = cstr 64 (bc_hash c), gb_author = cstr 128 (bc_author c),
      gb_date = cstr 32 (bc_date c), gb_content = cstr 512 r\<rparr>, c\<lparr>bc_hash := [], bc_author := [], bc_date := []\<rparr>)" for r c
    by (simp add: blame_line_def starts_hash_def)
  show ?thesis
    using h names s t assms(2,3)
    by (cases c) (simp add: porcelain_lines_def starts_hash_def cstr_simps add.commute)
qed


section \<open>Properties\<close>

text \<open>
  What \<^verbatim>\<open>git log\<close> prints in the format the plugin asks for is read back: every commit whose fields fit
  their buffers and whose hash, author and date hold no bar comes out as it went in, in the same order.
\<close>

theorem git_log_roundtrip:
  assumes "\<forall>c \<in> set cs. commit_ok c"
    and "os_popen os (full_command (cx_repo_path cx) (log_cmd limit since)) w = (Some (separated (map commit_line cs), 0), w1)"
  shows "git_ops_log os cx True True [] limit since w = (cs, w1)"
proof -
  have "\<forall>l \<in> set (map commit_line cs). NL \<notin> set l \<and> l \<noteq> []"
    using assms(1) by (auto simp: commit_ok_def commit_line_def)
  then have "out_lines (separated (map commit_line cs)) = map commit_line cs" by (rule out_lines_separated)
  moreover have "map parse_commit (map commit_line cs) = cs"
    using assms(1) by (induction cs) (simp_all add: parse_commit_line)
  ultimately show ?thesis
    using assms(2) by (simp add: git_ops_log_def output_of_def git_exec_def or_else_def)
qed

lemma git_log_roundtrip_witness:
  "git_ops_log (toy_os (\<lambda>_. separated [''1a2b|Ann|2026-01-01|fix: a|b'', ''3c4d|Bob|2025-12-31|first'']))
     (context0\<lparr>cx_repo_path := ''/r''\<rparr>) True True [] 2 None None =
   ([\<lparr>gm_hash = ''1a2b'', gm_author = ''Ann'', gm_date = ''2026-01-01'', gm_message = ''fix: a|b''\<rparr>,
     \<lparr>gm_hash = ''3c4d'', gm_author = ''Bob'', gm_date = ''2025-12-31'', gm_message = ''first''\<rparr>], None)"
proof -
  let ?cs = "[\<lparr>gm_hash = ''1a2b'', gm_author = ''Ann'', gm_date = ''2026-01-01'', gm_message = ''fix: a|b''\<rparr>,
     \<lparr>gm_hash = ''3c4d'', gm_author = ''Bob'', gm_date = ''2025-12-31'', gm_message = ''first''\<rparr>]"
  have lines: "map commit_line ?cs = [''1a2b|Ann|2026-01-01|fix: a|b'', ''3c4d|Bob|2025-12-31|first'']"
    by (simp add: commit_line_def)
  have ok: "\<forall>c \<in> set ?cs. commit_ok c" by (simp add: commit_ok_def)
  show ?thesis
    by (rule git_log_roundtrip [OF ok]) (simp only: lines, simp add: toy_os_def)
qed

text \<open>
  C20. Every operation on the repository asks for exactly two records in the audit log, whatever the system answers.
  For every system, the requests of a call other than making directories are, in this order: a write of the request to
  the log, marked as failed; the command itself, run once, unless there is no memory for its result; a write of the
  outcome, marked as successful exactly if the command was run and ended with the code 0, which is exactly if the
  call returns 0; and after a commit that succeeded at most the query for its number.  Both records carry the name of
  the operation, its target and the text of the command that is run, unescaped and cut after 1023 bytes, so a long or
  hostile text can hide the result or look like another record.  A call with NULL for an argument that is needed
  returns the error for it and does nothing.  Where no command changes the log, and an append adds its text, a part of
  it, or nothing if the file cannot be opened, the log has grown by at most these two lines, in this order.
\<close>

theorem git_calls_audited:
  shows "\<exists>rc w' tr. git_call_run os cx m call w = (rc, w') \<and> git_call_run (traced os) cx m call (w, []) = (rc, w', tr)
    \<and> (case call_record cx call of
         None \<Rightarrow> rc = EINVAL \<and> w' = w \<and> tr = []
       | Some (op, target) \<Rightarrow> audited os cx m op target rc w w' tr)"
proof -
  have op: "\<exists>rc w' tr. git_op os cx m cwd cmd op (Some target) w = (rc, w') \<and> git_op (traced os) cx m cwd cmd op (Some target) (w, []) = (rc, w', tr)
      \<and> audited os cx m op target rc w w' tr" for cwd cmd op target
    using git_op_audited [of os cx m cwd cmd op target w "[]"] by simp
  show ?thesis
  proof (cases call)
    case (Init p)
    then show ?thesis using audited_init [of os cx m p w] by simp
  next
    case (Commit msg m1 cap)
    then show ?thesis using audited_commit [of os cx m _ m1 cap w] by (cases msg) (simp_all add: git_ops_commit_def)
  qed (auto simp: git_ops_clone_def git_ops_add_def git_ops_push_def git_ops_pull_def git_ops_tag_def git_ops_checkout_def
        git_ops_reset_def git_ops_revert_def git_ops_branch_def git_ops_merge_def on_target_def op simp del: ex_simps split: option.splits)
qed

lemma git_calls_audited_witness:
  "\<exists>w' tr. git_call_run (toy_os (\<lambda>_. [])) context0 True (Checkout (Some ''main'')) None = (0, w')
    \<and> git_call_run (traced (toy_os (\<lambda>_. []))) context0 True (Checkout (Some ''main'')) (None, []) = (0, w', tr)
    \<and> audited (toy_os (\<lambda>_. [])) context0 True ''checkout'' ''main'' 0 None w' tr \<and> log_kept (toy_os (\<lambda>_. [])) context0"
proof -
  obtain w0 where run: "git_call_run (toy_os (\<lambda>_. [])) context0 True (Checkout (Some ''main'')) None = (0, w0)"
    by (simp add: git_ops_checkout_def on_target_def git_op_def git_exec_audit_def git_exec_def toy_os_def Let_def)
  then show ?thesis
    using git_calls_audited [of "toy_os (\<lambda>_. [])" context0 True "Checkout (Some ''main'')" None] by (auto simp: toy_os_ok)
qed

text \<open>
  The audit log can be written but not read.  Whatever was recorded, as long as no field holds a quote or
  a newline and the records fit their buffer, a query for a user or since a time finds nothing, and a query for
  everything finds as many records as were asked for, all empty: the key is looked for behind a brace or a comma,
  and in the log a quote stands between.
\<close>

theorem git_audit_log_unreadable:
  assumes "list_all record_ok rs" "os_read os (audit_file cx) w = Some (concat (map record_line rs))"
  shows "git_ops_audit os cx [] limit user since w =
    (if given user \<or> since \<noteq> 0 then []
     else replicate (if 0 < limit \<and> limit < int (length rs) then nat limit else length rs) no_entry)"
proof -
  obtain ls where ls: "concat (map record_line rs) = concat (map (\<lambda>l. l @ [NL]) ls)" "length ls = length rs"
    "\<forall>l \<in> set ls. NL \<notin> set l \<and> CHR 0xFF \<notin> set l \<and> length l + 1 < 1024 \<and> parse_entry l = no_entry"
    using record_lines [OF assms(1)] .
  let ?s = "concat (map (\<lambda>l. l @ [NL]) ls)"
  define k where "k = (if 0 < limit \<and> limit < int (length ls) then nat (int (length ls) - limit) else 0)"
  have n: "count_lines ?s = length ls" using ls(3) by (intro count_lines_concat) auto
  have "skip_lines (nat (int (length ls) - limit)) ?s = concat (map (\<lambda>l. l @ [NL]) (drop (nat (int (length ls) - limit)) ls))"
    if "0 < limit" "limit < int (length ls)"
  proof -
    have "nat (int (length ls) - limit) \<noteq> 0" using that by simp
    then obtain j where "nat (int (length ls) - limit) = Suc j" using not0_implies_Suc by blast
    then show ?thesis using skip_lines_concat [of ls j] ls(3) that by simp
  qed
  then have kept: "(if 0 < limit \<and> limit < int (count_lines ?s) then skip_lines (nat (int (count_lines ?s) - limit)) ?s else ?s)
      = concat (map (\<lambda>l. l @ [NL]) (drop k ls))"
    by (simp add: n k_def)
  have sub: "l \<in> set ls" if "l \<in> set (drop k ls)" for l using that by (rule in_set_dropD)
  have "fgets_all 1024 (concat (map (\<lambda>l. l @ [NL]) (drop k ls))) = map (\<lambda>l. l @ [NL]) (drop k ls)"
    using fgets_all_lines [of "drop k ls" 1024 "[]"] ls(3) sub by simp
  moreover have "read_entries [] user since (map (\<lambda>l. l @ [NL]) (drop k ls)) =
      (if wanted user since no_entry then replicate (length (drop k ls)) no_entry else [])"
    using ls(3) sub by (intro read_empty_entries) auto
  moreover have "wanted user since no_entry \<longleftrightarrow> \<not> (given user \<or> since \<noteq> 0)"
    by (cases user) (auto simp: wanted_def given_def no_entry_def)
  moreover have "length (drop k ls) = (if 0 < limit \<and> limit < int (length rs) then nat limit else length rs)"
    by (auto simp: k_def ls(2))
  ultimately show ?thesis
    using assms(2) ls(1) kept by (simp add: git_ops_audit_def Let_def)
qed

lemma git_audit_log_unreadable_witness:
  "git_ops_audit (toy_os (\<lambda>_. [])) context0 [] 1 None 0
     (Some (concat (map record_line [(1, ''ann'', ''tag'', ''v1'', ''tag v1'', False), (2, ''ann'', ''tag'', ''v1'', ''tag v1'', True)]))) = [no_entry]"
proof -
  let ?rs = "[(1, ''ann'', ''tag'', ''v1'', ''tag v1'', False), (2, ''ann'', ''tag'', ''v1'', ''tag v1'', True)]"
  have ok: "list_all record_ok ?rs"
    by (simp add: clean_def audit_text_def quoted_def show_int_def show_nat.simps [of "Suc 0"] show_nat.simps [of 2])
  have "os_read (toy_os (\<lambda>_. [])) (audit_file context0) (Some (concat (map record_line ?rs))) = Some (concat (map record_line ?rs))"
    by (simp add: toy_os_def)
  from git_audit_log_unreadable [OF ok this, of 1 None 0] show ?thesis
    by (simp only:) (simp add: given_def)
qed

text \<open>
  An annotated file is not read as it is printed.  For every file that \<^verbatim>\<open>git blame --line-porcelain\<close>
  prints in its usual form, each line is reported with the commit \<open>filename\<close>, no author and no date, and its
  number is ten times the number of the line: every header that begins with a letter from a to f is taken for
  the one with the commit.
\<close>

theorem git_blame_misread:
  assumes "\<forall>p \<in> set ps. porcelain_ok p"
  shows "parse_blame ctime [] (concat (map (\<lambda>l. l @ [NL]) (concat (map porcelain_lines ps)))) =
    map (\<lambda>(i, p). \<lparr>gb_line_no = 10 * of_nat (i + 1), gb_commit_id = ''filename'', gb_author = [], gb_date = [],
      gb_content = cstr 512 (po_content p)\<rparr>) (enumerate 0 ps)"
proof -
  have loop: "blame_loop ctime [] (concat (map porcelain_lines ps)) \<lparr>bc_line_no = 10 * of_nat k, bc_hash = [], bc_author = [], bc_date = []\<rparr> =
    map (\<lambda>(i, p). \<lparr>gb_line_no = 10 * of_nat (i + 1), gb_commit_id = ''filename'', gb_author = [], gb_date = [],
      gb_content = cstr 512 (po_content p)\<rparr>) (enumerate k ps)" if "\<forall>p \<in> set ps. porcelain_ok p" for k
    using that
  proof (induction ps arbitrary: k)
    case (Cons p ps)
    have "10 * of_nat k + 10 = (10 * of_nat (Suc k) :: 32 word)" by simp
    then show ?case using Cons.prems Cons.IH [of "Suc k"] by (simp add: blame_entry add.commute)
  qed simp
  have "out_lines (concat (map (\<lambda>l. l @ [NL]) (concat (map porcelain_lines ps)))) = concat (map porcelain_lines ps)"
    using assms by (intro out_lines_lines) (auto simp: porcelain_ok_def)
  then show ?thesis using loop [OF assms, of 0] by (simp add: parse_blame_def)
qed

lemma git_blame_misread_witness:
  "parse_blame (\<lambda>_. None) [] (concat (map (\<lambda>l. l @ [NL]) (concat (map porcelain_lines
      [\<lparr>po_hash = ''3c4d'', po_numbers = ''1 1 1'', po_author = ''Ann'', po_author_mail = ''<a@b>'', po_author_time = ''1700000000'',
        po_author_tz = ''+0000'', po_committer = ''Bob'', po_committer_mail = ''<b@b>'', po_committer_time = ''1700000000'',
        po_committer_tz = ''+0000'', po_summary = ''first'', po_filename = ''x.c'', po_content = ''int x;''\<rparr>])))) =
   [\<lparr>gb_line_no = 10, gb_commit_id = ''filename'', gb_author = [], gb_date = [], gb_content = ''int x;''\<rparr>]"
proof -
  let ?ps = "[\<lparr>po_hash = ''3c4d'', po_numbers = ''1 1 1'', po_author = ''Ann'', po_author_mail = ''<a@b>'', po_author_time = ''1700000000'',
        po_author_tz = ''+0000'', po_committer = ''Bob'', po_committer_mail = ''<b@b>'', po_committer_time = ''1700000000'',
        po_committer_tz = ''+0000'', po_summary = ''first'', po_filename = ''x.c'', po_content = ''int x;''\<rparr>]"
  have "\<forall>p \<in> set ?ps. porcelain_ok p"
    by (simp add: porcelain_ok_def porcelain_lines_def starts_hash_def)
  then show ?thesis by (subst git_blame_misread) (simp_all add: cstr_simps)
qed

end
