(* ===== verification/HapCorrect.thy ===== *)
theory HapCorrect
  imports Hap
begin

text \<open>
  What the HAP plugin reports of the files as the kernel prints them: the memory in full, the processors but
  one, the packets sent in the place of the bytes, and the compiler in the place of the release.
\<close>

section \<open>Numbers in a line\<close>

lemma isspace_chars [simp]: "isspace (CHR '' '')" "isspace NL" "isspace TAB"
  by (simp_all add: isspace_def)

lemma scan_number_spaces: "\<forall>c \<in> set ws. isspace c \<Longrightarrow> scan_number (ws @ s) = scan_number s"
  by (simp add: scan_number_def Let_def dropWhile_append2)

lemma scan_number_padded:
  assumes "\<forall>c \<in> set ws. isspace c" "r = [] \<or> \<not> isdigit (hd r)"
  shows "scan_number (ws @ show_nat n @ r) = Some (False, n, r)"
proof -
  have "scan_number (show_nat n @ r) = Some (False, n, r)"
    using scan_number_digits [of "show_nat n" r] assms(2) show_nat_digits by simp
  then show ?thesis using assms(1) by (simp add: scan_number_spaces)
qed

lemma strtoull_padded:
  assumes "\<forall>c \<in> set ws. isspace c" "r = [] \<or> \<not> isdigit (hd r)" "n < 2 ^ 64"
  shows "strtoull (ws @ show_nat n @ r) = (n, r)"
  using scan_number_padded [OF assms(1,2)] assms(3) by (simp add: strtoull_def)

section \<open>Memory\<close>

text \<open>
  A line of \<^verbatim>\<open>/proc/meminfo\<close>: a name, blanks and a number.  Amounts of memory have the unit behind them, the
  numbers of huge pages have none.
\<close>

type_synonym mem_entry = "string \<times> nat \<times> nat \<times> string"

definition meminfo_line :: "mem_entry \<Rightarrow> string" where
  "meminfo_line x = (case x of (k, pad, n, u) \<Rightarrow> k @ CHR '':'' # replicate pad (CHR '' '') @ show_nat n @ u @ [NL])"

definition meminfo_ok :: "mem_entry \<Rightarrow> bool" where
  "meminfo_ok x \<longleftrightarrow> (case x of (k, pad, n, u) \<Rightarrow> n < 2 ^ 64 \<and> (u = [] \<or> u = '' kB'') \<and> (\<forall>c \<in> set k. \<not> isspace c \<and> c \<noteq> CHR '':'' \<and> c \<noteq> CHR ''=''))"

lemma key_chars: "\<forall>c \<in> set k. \<not> isspace c \<and> c \<noteq> CHR '':'' \<and> c \<noteq> CHR ''='' \<Longrightarrow>
    \<forall>c \<in> set key. \<not> isspace c \<and> c \<noteq> CHR '':'' \<and> c \<noteq> CHR ''='' \<Longrightarrow>
    after_key key (k @ CHR '':'' # r) \<longleftrightarrow> key = k"
proof (induction k arbitrary: key)
  case Nil
  then show ?case by (cases key) (auto simp: after_key_def)
next
  case (Cons c k)
  show ?case
  proof (cases key)
    case Nil
    then show ?thesis using Cons.prems by (auto simp: after_key_def)
  next
    case key: (Cons d ds)
    then show ?thesis using Cons.IH [of ds] Cons.prems by (auto simp: after_key_def)
  qed
qed


lemma digits_text:
  assumes "n < 2 ^ 64"
  shows "length (show_nat n) \<le> 20" "NL \<notin> set (show_nat n)" "show_nat n = d # ds \<Longrightarrow> \<not> isspace d \<and> d \<noteq> CHR '':'' \<and> d \<noteq> CHR ''=''"
    "\<not> isspace (last (show_nat n))"
proof -
  have "n < 10 ^ 20" using assms by simp
  then show "length (show_nat n) \<le> 20" by (intro length_show_nat) simp_all
  show "NL \<notin> set (show_nat n)" by (auto dest: show_nat_digits simp: isdigit_def)
  show "\<not> isspace (last (show_nat n))"
    using show_nat_digits [of "last (show_nat n)" n] show_nat_nonempty [of n] isdigit_not by auto
  assume "show_nat n = d # ds"
  then have "isdigit d" using show_nat_digits [of d n] by simp
  then show "\<not> isspace d \<and> d \<noteq> CHR '':'' \<and> d \<noteq> CHR ''=''" using isdigit_not [of d] by (auto simp: isdigit_def)
qed

lemma dropWhile_blanks: "P c \<Longrightarrow> dropWhile P (replicate n c @ s) = dropWhile P s"
  by (induction n) simp_all

lemma value_at_number:
  assumes "n < 2 ^ 64" "u = [] \<or> u = '' kB''"
  shows "value_at (CHR '':'' # replicate pad (CHR '' '') @ show_nat n @ u @ NL # rest) 256 = show_nat n @ u"
proof -
  obtain d ds where d: "show_nat n = d # ds" using show_nat_nonempty [of n] by (cases "show_nat n") auto
  have "dropWhile (\<lambda>c. c = CHR '':'' \<or> c = CHR ''='' \<or> isspace c)
      (CHR '':'' # replicate pad (CHR '' '') @ show_nat n @ u @ NL # rest) = show_nat n @ u @ NL # rest"
    using digits_text(3) [OF assms(1) d] by (simp add: dropWhile_blanks d)
  moreover have "takeWhile (\<lambda>c. c \<noteq> NL) (show_nat n @ u @ NL # rest) = show_nat n @ u"
    using digits_text(2) [OF assms(1)] assms(2) by (subst takeWhile_append2) auto
  moreover have "rtrim isspace (show_nat n @ u) = show_nat n @ u"
    using assms(2) digits_text(4) [OF assms(1)] by (intro rtrim_id) (auto simp: isspace_def)
  ultimately show ?thesis using digits_text(1) [OF assms(1)] assms(2) by (auto simp: value_at_def)
qed

lemma mem_key_line:
  assumes "meminfo_ok (k, pad, n, u)" "\<forall>c \<in> set key. \<not> isspace c \<and> c \<noteq> CHR '':'' \<and> c \<noteq> CHR ''=''"
  shows "hap_line_value (meminfo_line (k, pad, n, u) @ rest) key 256 =
    (if key = k then Some (show_nat n @ u) else hap_line_value rest key 256)"
proof -
  let ?line = "k @ CHR '':'' # replicate pad (CHR '' '') @ show_nat n @ u"
  have n: "n < 2 ^ 64" and u: "u = [] \<or> u = '' kB''" and k: "\<forall>c \<in> set k. \<not> isspace c \<and> c \<noteq> CHR '':'' \<and> c \<noteq> CHR ''=''"
    using assms(1) by (simp_all add: meminfo_ok_def)
  have "NL \<notin> set k" using k isspace_chars(2) by blast
  then have "NL \<notin> set ?line" using digits_text(2) [OF n] u by auto
  then have "split_first NL (?line @ NL # rest) = (?line, Some rest)" by (rule split_first_append)
  then have sp: "split_first NL (meminfo_line (k, pad, n, u) @ rest) = (?line, Some rest)" by (simp add: meminfo_line_def)
  have "meminfo_line (k, pad, n, u) \<noteq> []" by (simp add: meminfo_line_def)
  moreover have "after_key key ?line \<longleftrightarrow> key = k" by (rule key_chars [OF k assms(2)])
  moreover have "drop (length k) (meminfo_line (k, pad, n, u) @ rest) = CHR '':'' # replicate pad (CHR '' '') @ show_nat n @ u @ NL # rest"
    by (simp add: meminfo_line_def)
  ultimately show ?thesis
    using value_at_number [OF n u, of pad rest] by (subst hap_line_value.simps) (simp add: sp)
qed

definition meminfo_text :: "mem_entry list \<Rightarrow> string" where
  "meminfo_text xs = concat (map meminfo_line xs)"

definition amount :: "mem_entry list \<Rightarrow> string \<Rightarrow> nat" where
  "amount xs key = (case find (\<lambda>x. fst x = key) xs of None \<Rightarrow> 0 | Some (_, _, n, _) \<Rightarrow> n)"

lemma mem_key_text:
  assumes "\<forall>x \<in> set xs. meminfo_ok x" "\<forall>c \<in> set key. \<not> isspace c \<and> c \<noteq> CHR '':'' \<and> c \<noteq> CHR ''=''"
  shows "hap_mem_key_kb (meminfo_text xs) key = of_nat (amount xs key)"
  using assms(1)
proof (induction xs)
  case Nil
  then show ?case by (simp add: hap_mem_key_kb_def meminfo_text_def amount_def hap_line_value.simps)
next
  case (Cons x xs)
  obtain k pad n u where x: "x = (k, pad, n, u)" by (cases x) auto
  have ok: "meminfo_ok (k, pad, n, u)" using Cons.prems x by simp
  have "strtoull (show_nat n @ u) = (n, u)"
  proof -
    have n: "n < 2 ^ 64" and u: "u = [] \<or> u = '' kB''" using ok by (simp_all add: meminfo_ok_def)
    have "\<not> isdigit (hd '' kB'')" by (simp add: isdigit_def)
    with u have "u = [] \<or> \<not> isdigit (hd u)" by blast
    then show ?thesis using strtoull_padded [of "[]" u n] n by simp
  qed
  then show ?case
    using Cons.IH Cons.prems mem_key_line [OF ok assms(2), of "concat (map meminfo_line xs)"]
    by (auto simp: hap_mem_key_kb_def meminfo_text_def amount_def x)
qed

section \<open>Processors\<close>

lemma occurrences_skip:
  assumes "c \<notin> set u"
  shows "occurrences (c # pat) (u @ s) = occurrences (c # pat) s"
  using assms
proof (induction u)
  case (Cons d u)
  have "occurrences (c # pat) (d # (u @ s)) = occurrences (c # pat) (u @ s)"
    using Cons.prems by (subst occurrences.simps) simp
  then show ?case using Cons by simp
qed simp

lemma occurrences_line:
  assumes "NL \<notin> set pat" "NL \<notin> set l" "r = [] \<or> hd r = NL"
  shows "occurrences (NL # pat) (NL # l @ r) = (if prefix pat l then 1 else 0) + occurrences (NL # pat) r"
proof (cases "prefix pat l")
  case True
  then obtain v where l: "l = pat @ v" by (auto simp: prefix_def)
  have "occurrences (NL # pat) (NL # l @ r) = Suc (occurrences (NL # pat) (v @ r))"
    by (subst occurrences.simps) (simp add: l)
  then show ?thesis using assms(2) l True by (simp add: occurrences_skip)
next
  case False
  have "\<not> prefix pat (l @ r)"
  proof
    assume "prefix pat (l @ r)"
    then obtain us where us: "pat = l @ us" "prefix us r" using False by (auto simp: prefix_append)
    have "us \<noteq> []" using us(1) False by auto
    then have "NL \<in> set us" using assms(3) us(2) by (cases us; cases r) auto
    then show False using us(1) assms(1) by simp
  qed
  then have "occurrences (NL # pat) (NL # l @ r) = occurrences (NL # pat) (l @ r)"
    by (subst occurrences.simps) simp
  then show ?thesis using False assms(2) by (simp add: occurrences_skip)
qed


lemma occurrences_lines:
  assumes "NL \<notin> set pat" "\<forall>l \<in> set ls. NL \<notin> set l"
  shows "occurrences (NL # pat) (concat (map (\<lambda>l. NL # l) ls) @ [NL]) = length (filter (prefix pat) ls) + occurrences (NL # pat) [NL]"
  using assms(2)
proof (induction ls)
  case (Cons l ls)
  have "concat (map (\<lambda>l. NL # l) ls) @ [NL] = [] \<or> hd (concat (map (\<lambda>l. NL # l) ls) @ [NL]) = NL" by (cases ls) auto
  then show ?case
    using Cons occurrences_line [OF assms(1), of l "concat (map (\<lambda>l. NL # l) ls) @ [NL]"] by simp
qed simp

lemma lines_from_first:
  "ls \<noteq> [] \<Longrightarrow> concat (map (\<lambda>l. l @ [NL]) ls) = hd ls @ concat (map (\<lambda>l. NL # l) (tl ls)) @ [NL]"
proof (induction ls)
  case (Cons l ls)
  then show ?case by (cases ls) auto
qed simp

lemma cores_of_lines:
  assumes "ls \<noteq> []" "\<forall>l \<in> set ls. NL \<notin> set l"
  shows "cpu_cores (concat (map (\<lambda>l. l @ [NL]) ls)) = of_nat (max 1 (length (filter (prefix ''processor'') (tl ls))))"
proof -
  have no: "NL \<notin> set ''processor''" by simp
  have "occurrences (NL # ''processor'') [NL] = 0"
    by (simp add: occurrences.simps [of _ "[NL]"] occurrences.simps [of _ "[]"])
  moreover have "\<forall>l \<in> set (tl ls). NL \<notin> set l" using assms by (auto dest: list.set_sel(2))
  ultimately have "occurrences (NL # ''processor'') (concat (map (\<lambda>l. l @ [NL]) ls)) = length (filter (prefix ''processor'') (tl ls))"
    using lines_from_first [OF assms(1)] occurrences_lines [OF no, of "tl ls"] assms by (simp add: occurrences_skip)
  then show ?thesis
    by (cases "length (filter (prefix ''processor'') (tl ls))") (simp_all add: cpu_cores_def Let_def)
qed

lemma amount_small: "\<forall>x \<in> set xs. meminfo_ok x \<Longrightarrow> amount xs key < 2 ^ 64"
proof (induction xs)
  case (Cons x xs)
  then show ?case by (cases x) (simp add: amount_def meminfo_ok_def)
qed (simp add: amount_def)

section \<open>Network and system\<close>

text \<open>A line of \<^verbatim>\<open>/proc/net/dev\<close>: the eight numbers of what was received and the eight of what was sent, bytes first.\<close>

definition dev_line :: "string \<Rightarrow> nat list \<Rightarrow> string" where
  "dev_line ifname ns = ifname @ CHR '':'' # concat (map (\<lambda>n. CHR '' '' # show_nat n) ns) @ [NL]"

lemma scan_numbers_line:
  "\<forall>n \<in> set ns. n < 2 ^ 64 \<Longrightarrow> length ns \<le> k \<Longrightarrow> s = [] \<or> \<not> isdigit (hd s) \<Longrightarrow>
   take (length ns) (scan_numbers k (concat (map (\<lambda>n. CHR '' '' # show_nat n) ns) @ s)) = ns
   \<and> length ns \<le> length (scan_numbers k (concat (map (\<lambda>n. CHR '' '' # show_nat n) ns) @ s))"
proof (induction ns arbitrary: k)
  case (Cons n ns)
  then obtain j where k: "k = Suc j" by (cases k) auto
  let ?r = "concat (map (\<lambda>n. CHR '' '' # show_nat n) ns) @ s"
  have r: "?r = [] \<or> \<not> isdigit (hd ?r)" using Cons.prems(3) by (cases ns) (auto simp: isdigit_def)
  have "scan_number (CHR '' '' # show_nat n @ ?r) = Some (False, n, ?r)"
    using scan_number_padded [of "'' ''" ?r n] r by simp
  moreover have "strtoull (CHR '' '' # show_nat n @ ?r) = (n, ?r)"
    using strtoull_padded [of "'' ''" ?r n] r Cons.prems(1) by simp
  ultimately show ?case using Cons.IH [of j] Cons.prems k by simp
qed simp

text \<open>
  The interface is found where its name starts the line, and the number reported as the bytes that were sent
  is the one behind them, the packets.
\<close>

lemma hap_net_reports_packets:
  assumes "fs ''/proc/net/dev'' = Some (dev_line ifname ns @ rest)" "length (dev_line ifname ns @ rest) < 8192"
    "length ns = 16" "\<forall>n \<in> set ns. n < 2 ^ 64" "NL \<notin> set ifname"
  shows "hap_net_octets fs ifname = (of_nat (ns ! 0), of_nat (ns ! 9))"
proof -
  let ?nums = "\<lambda>ns. concat (map (\<lambda>n. CHR '' '' # show_nat n) ns)"
  let ?line = "ifname @ CHR '':'' # ?nums ns"
  have "NL \<notin> set (?nums ns)" using assms(4) digits_text(2) by auto
  then have "NL \<notin> set ?line" using assms(5) by simp
  then have "split_first NL (?line @ NL # rest) = (?line, Some rest)" by (rule split_first_append)
  then have sp: "split_first NL (dev_line ifname ns @ rest) = (?line, Some rest)" by (simp add: dev_line_def)
  let ?s = "?nums (drop 10 ns) @ NL # rest"
  have cut: "?nums ns = ?nums (take 10 ns) @ ?nums (drop 10 ns)"
    by (metis append_take_drop_id concat_append map_append)
  define t where "t = dev_line ifname ns @ rest"
  have first: "drop (Suc (length ifname)) t = ?nums (take 10 ns) @ ?s"
    using cut by (simp add: t_def dev_line_def)
  have "?s = [] \<or> \<not> isdigit (hd ?s)" by (cases "drop 10 ns") (auto simp: isdigit_def)
  then have "take 10 (scan_numbers 10 (?nums (take 10 ns) @ ?s)) = take 10 ns
      \<and> 10 \<le> length (scan_numbers 10 (?nums (take 10 ns) @ ?s))"
    using scan_numbers_line [of "take 10 ns" 10 ?s] assms(3,4) by (auto dest: in_set_takeD)
  moreover have "length (scan_numbers k t) \<le> k" for k t
    by (induction k t rule: scan_numbers.induct) (auto split: option.splits)
  ultimately have nums: "scan_numbers 10 (?nums (take 10 ns) @ ?s) = take 10 ns"
    by (metis take_all)
  obtain a as where ns: "ns = a # as" "length as = 15" using assms(3) by (cases ns) auto
  have "net_numbers (?nums (take 10 ns) @ ?s) = Some (of_nat (ns ! 0), of_nat (ns ! 9))"
    unfolding net_numbers_def nums using ns by simp
  moreover have "names_iface ifname ?line" by (simp add: names_iface_def)
  moreover have "t \<noteq> []" by (simp add: t_def dev_line_def)
  moreover have "split_first NL t = (?line, Some rest)" using sp by (simp add: t_def)
  ultimately have "net_line ifname t = Some (of_nat (ns ! 0), of_nat (ns ! 9))"
    by (subst net_line.simps) (simp add: first)
  moreover have "hap_read_file fs ''/proc/net/dev'' 8192 = t"
    using assms(1,2) by (simp add: hap_read_file_def t_def)
  ultimately show ?thesis by (simp add: hap_net_octets_def)
qed

text \<open>What is reported as the release of the kernel is the word behind it.\<close>

lemma release_is_next_word:
  assumes "\<forall>c \<in> set r. c \<noteq> CHR '' ''" "\<forall>c \<in> set w. \<not> isspace c"
  shows "release_word (''Linux version '' @ r @ '' '' @ w @ '' '' @ rest) = Some w"
proof -
  have "CHR '' '' \<notin> set r" using assms(1) by auto
  then have "past_blank (r @ CHR '' '' # x) = Some x" for x by (simp add: past_blank_def)
  moreover have "takeWhile (\<lambda>c. \<not> isspace c) (w @ CHR '' '' # rest) = w" using assms(2) by (simp add: takeWhile_append2)
  ultimately show ?thesis by (simp add: release_word_def past_blank_def)
qed

section \<open>Properties\<close>

text \<open>
  C38. The memory is reported as the kernel prints it.  For a \<^verbatim>\<open>/proc/meminfo\<close> that fits the buffer of 8192 bytes and
  whose lines are a name, blanks and a number below \<open>2 ^ 64\<close>, with the unit \<^verbatim>\<open>kB\<close> behind it or without a unit, each amount is the number behind its name and 0 where the name is missing; without an amount for what is
  available the free memory stands for it; and what is used is the difference, never below 0.
\<close>

theorem hap_memory_correct:
  assumes "fs ''/proc/meminfo'' = Some (meminfo_text xs)" "xs \<noteq> []" "length (meminfo_text xs) < 8192" "\<forall>x \<in> set xs. meminfo_ok x"
  defines "available \<equiv> (if amount xs ''MemAvailable'' = 0 \<and> 0 < amount xs ''MemTotal'' then amount xs ''MemFree'' else amount xs ''MemAvailable'')"
  shows "hap_memory_probe fs =
    \<lparr>hm_total_kb = of_nat (amount xs ''MemTotal''), hm_free_kb = of_nat (amount xs ''MemFree''), hm_available_kb = of_nat available,
     hm_used_kb = of_nat (amount xs ''MemTotal'' - available), hm_swap_total_kb = of_nat (amount xs ''SwapTotal''),
     hm_swap_free_kb = of_nat (amount xs ''SwapFree''), hm_memory_type = []\<rparr>"
proof -
  have read: "hap_read_file fs ''/proc/meminfo'' 8192 = meminfo_text xs"
    using assms(1,3) by (simp add: hap_read_file_def)
  have nonempty: "meminfo_text xs \<noteq> []"
    using assms(2) by (cases xs) (auto simp: meminfo_text_def meminfo_line_def split: prod.splits)
  have small: "amount xs k < 2 ^ 64" for k using assms(4) by (rule amount_small)
  have key: "hap_mem_key_kb (meminfo_text xs) ''MemTotal'' = of_nat (amount xs ''MemTotal'')"
    "hap_mem_key_kb (meminfo_text xs) ''MemFree'' = of_nat (amount xs ''MemFree'')"
    "hap_mem_key_kb (meminfo_text xs) ''MemAvailable'' = of_nat (amount xs ''MemAvailable'')"
    "hap_mem_key_kb (meminfo_text xs) ''SwapTotal'' = of_nat (amount xs ''SwapTotal'')"
    "hap_mem_key_kb (meminfo_text xs) ''SwapFree'' = of_nat (amount xs ''SwapFree'')"
    by (auto intro!: mem_key_text [OF assms(4)] simp: isspace_def)
  have zero: "(of_nat n :: 64 word) = 0 \<longleftrightarrow> n = 0" if "n < 2 ^ 64" for n
    using that by (simp add: word_of_nat_eq_0_iff) (metis nat_dvd_not_less not_gr_zero dvd_0_right)
  have less: "(of_nat n :: 64 word) < of_nat k \<longleftrightarrow> n < k" if "n < 2 ^ 64" "k < 2 ^ 64" for n k
    using that by (simp add: word_less_nat_alt unat_of_nat)
  have av: "available < 2 ^ 64" using small by (simp add: available_def)
  have "(if (of_nat (amount xs ''MemAvailable'') :: 64 word) = 0 \<and> 0 < (of_nat (amount xs ''MemTotal'') :: 64 word)
      then of_nat (amount xs ''MemFree'') else of_nat (amount xs ''MemAvailable'')) = (of_nat available :: 64 word)"
    using zero [OF small [of "''MemAvailable''"]] less [OF _ small [of "''MemTotal''"], of 0] by (simp add: available_def)
  moreover have "(if (of_nat available :: 64 word) < of_nat (amount xs ''MemTotal'')
      then of_nat (amount xs ''MemTotal'') - of_nat available else 0) = (of_nat (amount xs ''MemTotal'' - available) :: 64 word)"
    using less [OF av small [of "''MemTotal''"]] by (auto simp: of_nat_diff)
  ultimately show ?thesis
    by (simp only: hap_memory_probe_def Let_def read nonempty key if_False)
qed

lemma hap_memory_correct_witness:
  "hap_memory_probe [''/proc/meminfo'' \<mapsto> meminfo_text [(''MemTotal'', 8, 16000, '' kB''), (''MemFree'', 9, 2000, '' kB''), (''MemAvailable'', 4, 9000, '' kB''),
       (''HugePages_Total'', 7, 3, [])]] =
    \<lparr>hm_total_kb = 16000, hm_free_kb = 2000, hm_available_kb = 9000, hm_used_kb = 7000, hm_swap_total_kb = 0, hm_swap_free_kb = 0, hm_memory_type = []\<rparr>"
proof -
  let ?xs = "[(''MemTotal'', 8, 16000, '' kB''), (''MemFree'', 9, 2000, '' kB''), (''MemAvailable'', 4, 9000, '' kB''), (''HugePages_Total'', 7, 3, [])]"
  have n: "show_nat n = (if n < 10 then [digit n] else show_nat (n div 10) @ [digit (n mod 10)])" for n
    by (subst show_nat.simps) simp
  have short: "length (show_nat k) \<le> 20" if "k < 2 ^ 64" for k using digits_text(1) that by simp
  have "length (meminfo_text ?xs) < 8192"
    using short [of 16000] short [of 2000] short [of 9000] short [of 3] by (simp add: meminfo_text_def meminfo_line_def)
  moreover have "\<forall>x \<in> set ?xs. meminfo_ok x" by (simp add: meminfo_ok_def isspace_def)
  ultimately show ?thesis
    using hap_memory_correct [of "[''/proc/meminfo'' \<mapsto> meminfo_text ?xs]" ?xs] by (simp add: amount_def)
qed

text \<open>
  The processors are counted one short.  For every \<^verbatim>\<open>/proc/cpuinfo\<close> that fits the buffer and starts with its
  first processor, the number of cores is one less than the number of lines that name a processor, and 1
  where there is only one.
\<close>

theorem hap_cores_one_short:
  assumes "fs ''/proc/cpuinfo'' = Some (concat (map (\<lambda>l. l @ [NL]) ls))" "length (concat (map (\<lambda>l. l @ [NL]) ls)) < 4096"
    "\<forall>l \<in> set ls. NL \<notin> set l" "ls \<noteq> []" "prefix ''processor'' (hd ls)"
  shows "hc_cores (hap_cpu_probe atof fs) = of_nat (max 1 (length (filter (prefix ''processor'') ls) - 1))"
proof -
  have "hap_read_file fs ''/proc/cpuinfo'' 4096 = concat (map (\<lambda>l. l @ [NL]) ls)"
    using assms(1,2) by (simp add: hap_read_file_def)
  moreover have "concat (map (\<lambda>l. l @ [NL]) ls) \<noteq> []" using assms(4) by (cases ls) auto
  moreover have "length (filter (prefix ''processor'') ls) - 1 = length (filter (prefix ''processor'') (tl ls))"
    using assms(4,5) by (cases ls) auto
  ultimately show ?thesis
    using cores_of_lines [OF assms(4,3)] by (simp add: hap_cpu_probe_def Let_def)
qed

lemma hap_cores_one_short_witness:
  "hc_cores (hap_cpu_probe (\<lambda>_. 0 :: nat) [''/proc/cpuinfo'' \<mapsto> concat (map (\<lambda>l. l @ [NL])
     [''processor : 0'', ''model name : x'', [], ''processor : 1'', ''model name : x'', [], ''processor : 2'', ''model name : x'', []])]) = 2"
proof -
  let ?ls = "[''processor : 0'', ''model name : x'', [], ''processor : 1'', ''model name : x'', [], ''processor : 2'', ''model name : x'', []]"
  have "length (concat (map (\<lambda>l. l @ [NL]) ?ls)) < 4096" by simp
  moreover have "\<forall>l \<in> set ?ls. NL \<notin> set l" by simp
  moreover have "?ls \<noteq> [] \<and> prefix ''processor'' (hd ?ls)" by simp
  moreover have "length (filter (prefix ''processor'') ?ls) = 3" by simp
  ultimately show ?thesis
    using hap_cores_one_short [of "[''/proc/cpuinfo'' \<mapsto> concat (map (\<lambda>l. l @ [NL]) ?ls)]" ?ls "\<lambda>_. 0 :: nat"] by (simp del: concat.simps list.map)
qed

end
