(* ===== verification/NpIfaceCorrect.thy ===== *)
theory NpIfaceCorrect
  imports NpIface HapCorrect
begin

text \<open>
  What the NP plugin says of the interfaces: the two passes over the addresses against the grouping of the addresses
  by name, and the gateway that is read from the table of routes as the kernel prints it.
\<close>

section \<open>Grouping\<close>

text \<open>The reference: the names in the order of their first address, each with all the addresses it has.\<close>

definition named :: "ifaddr list \<Rightarrow> string list" where
  "named es = List.map_filter (\<lambda>e. if ia_addr e = None then None else ia_name e) es"

definition firsts :: "'a list \<Rightarrow> 'a list" where
  "firsts xs = rev (remdups (rev xs))"

definition addrs_of :: "ifaddr list \<Rightarrow> string \<Rightarrow> ifaddr list" where
  "addrs_of es n = filter (\<lambda>e. ia_name e = Some n \<and> ia_addr e \<noteq> None) es"

definition iface_of :: "(128 word \<Rightarrow> string) \<Rightarrow> ifaddr list \<Rightarrow> string \<Rightarrow> np_interface" where
  "iface_of ntop6 es n =
     fold (\<lambda>e. set_addr ntop6 (the (ia_addr e)) (ia_netmask e)) (addrs_of es n) (new_iface n (ia_up (hd (addrs_of es n))))"

lemma set_addr_name [simp]: "np_name (set_addr ntop6 a nm i) = np_name i"
  by (simp add: set_addr_def split: inet.split)

lemma fold_set_addr_name: "np_name (fold (\<lambda>e. set_addr ntop6 (f e) (g e)) es i) = np_name i"
  by (induction es arbitrary: i) auto

lemma iface_of_name: "length n < 64 \<Longrightarrow> np_name (iface_of ntop6 es n) = n"
  by (simp add: iface_of_def fold_set_addr_name new_iface_def cstr_def)

lemma find_name_set: "find_name arr nm \<longleftrightarrow> nm \<in> set (map np_name arr)"
  by (auto simp: find_name_def)

lemma firsts_snoc: "firsts (xs @ [x]) = (if x \<in> set xs then firsts xs else firsts xs @ [x])"
  by (simp add: firsts_def)

lemma firsts_simps [simp]: "set (firsts xs) = set xs" "distinct (firsts xs)" "firsts [] = []"
  by (simp_all add: firsts_def)

lemma named_addrs: "n \<in> set (named es) \<longleftrightarrow> addrs_of es n \<noteq> []"
proof (induction es)
  case (Cons e es)
  then show ?case by (cases "ia_addr e"; cases "ia_name e") (auto simp: named_def addrs_of_def map_filter_def)
qed (simp add: named_def addrs_of_def map_filter_def)

lemma named_snoc:
  "named (es @ [e]) = named es @ (if ia_addr e = None then [] else case ia_name e of None \<Rightarrow> [] | Some n \<Rightarrow> [n])"
  by (cases "ia_addr e"; cases "ia_name e") (simp_all add: named_def map_filter_def)

lemma update_first_distinct:
  "distinct (map g xs) \<Longrightarrow> update_first (\<lambda>x. g x = k) f xs = map (\<lambda>x. if g x = k then f x else x) xs"
proof (induction xs)
  case (Cons x xs)
  have "map (\<lambda>y. if g y = g x then f y else y) xs = xs"
    using Cons.prems by (intro map_idI) (auto simp: image_iff)
  then show ?case using Cons by auto
qed simp

text \<open>One more address: it goes to its name, behind those the name has.\<close>

lemma iface_of_snoc:
  assumes "ia_name e = Some nm" "ia_addr e = Some a"
  shows "iface_of ntop6 (es @ [e]) n =
    (if n \<noteq> nm then iface_of ntop6 es n
     else if addrs_of es nm = [] then set_addr ntop6 a (ia_netmask e) (new_iface nm (ia_up e))
     else set_addr ntop6 a (ia_netmask e) (iface_of ntop6 es nm))"
  using assms by (simp add: iface_of_def addrs_of_def)

lemma gather_all_grouped:
  assumes "\<forall>n \<in> set (named es). length n < 64"
  shows "gather_all ntop6 cap es = map (iface_of ntop6 es) (take cap (firsts (named es)))"
  using assms
proof (induction es rule: rev_induct)
  case Nil
  then show ?case by (simp add: gather_all_def named_def map_filter_def)
next
  case (snoc e es)
  let ?arr = "gather_all ntop6 cap es"
  let ?F = "firsts (named es)"
  have IH: "?arr = map (iface_of ntop6 es) (take cap ?F)"
    using snoc by (simp add: named_snoc)
  have short: "length n < 64" if "n \<in> set (take cap ?F)" for n
    using in_set_takeD [OF that] snoc.prems by (simp add: named_snoc)
  have step: "gather_all ntop6 cap (es @ [e]) = gather ntop6 cap e ?arr" by (simp add: gather_all_def)
  show ?case
  proof (cases "ia_name e = None \<or> ia_addr e = None")
    case True
    then have "addrs_of (es @ [e]) n = addrs_of es n" for n by (auto simp: addrs_of_def)
    then have "iface_of ntop6 (es @ [e]) = iface_of ntop6 es" by (simp add: iface_of_def fun_eq_iff)
    moreover have "named (es @ [e]) = named es" using True by (cases "ia_addr e") (simp_all add: named_snoc)
    moreover have "gather ntop6 cap e ?arr = ?arr" using True by (cases "ia_name e"; cases "ia_addr e") (simp_all add: gather_def)
    ultimately show ?thesis using step IH by simp
  next
    case False
    then obtain nm a where e: "ia_name e = Some nm" "ia_addr e = Some a" by auto
    have named: "named (es @ [e]) = named es @ [nm]" using e by (simp add: named_snoc)
    have keep: "map (iface_of ntop6 (es @ [e])) ns = map (iface_of ntop6 es) ns" if "nm \<notin> set ns" for ns
      using that iface_of_snoc [OF e] by (induction ns) auto
    have names: "map np_name ?arr = take cap ?F"
      unfolding IH map_map by (rule map_idI) (simp add: iface_of_name short)
    then have found: "find_name ?arr nm \<longleftrightarrow> nm \<in> set (take cap ?F)"
      unfolding find_name_set by simp
    show ?thesis
    proof (cases "nm \<in> set (take cap ?F)")
      case True
      then have "nm \<in> set (named es)" using in_set_takeD [OF True] by simp
      then have old: "firsts (named (es @ [e])) = ?F" "addrs_of es nm \<noteq> []"
        using named named_addrs by (auto simp: firsts_snoc)
      have "distinct (map np_name ?arr)" by (simp add: names)
      then have "gather ntop6 cap e ?arr
          = map (\<lambda>i. if np_name i = nm then set_addr ntop6 a (ia_netmask e) i else i) ?arr"
        using True found e by (simp add: gather_def update_first_distinct)
      also have "\<dots> = map (iface_of ntop6 (es @ [e])) (take cap ?F)"
        unfolding IH map_map by (rule map_cong) (simp_all add: iface_of_name short iface_of_snoc [OF e] old)
      finally show ?thesis using step old by simp
    next
      case nf: False
      show ?thesis
      proof (cases "cap \<le> length ?arr")
        case True
        then have "cap \<le> length ?F" using names by (metis length_map length_take min.bounded_iff)
        then have "take cap (firsts (named (es @ [e]))) = take cap ?F" by (simp add: named firsts_snoc)
        then show ?thesis using step keep [OF nf] True nf found e IH by (simp add: gather_def)
      next
        case False
        then have all: "take cap ?F = ?F" using names by (metis length_map length_take min_def nle_le take_all)
        then have new: "nm \<notin> set (named es)" using nf by simp
        have len: "length ?F = length ?arr" using arg_cong [OF names, of length] all by simp
        have "take cap (firsts (named (es @ [e]))) = ?F @ [nm]"
          using all False len new by (simp add: named firsts_snoc)
        moreover have "addrs_of es nm = []" using new named_addrs by blast
        ultimately show ?thesis using step keep [of ?F] False nf found e IH all by (simp add: gather_def iface_of_snoc [OF e])
      qed
    qed
  qed
qed

section \<open>The gateway\<close>

text \<open>Numbers in hexadecimal as the kernel prints them, with a fixed number of digits.\<close>

definition hex_digit :: "nat \<Rightarrow> char" where
  "hex_digit d = ''0123456789ABCDEF'' ! d"

fun hex_fixed :: "nat \<Rightarrow> nat \<Rightarrow> string" where
  "hex_fixed 0 n = []"
| "hex_fixed (Suc k) n = hex_fixed k (n div 16) @ [hex_digit (n mod 16)]"

lemma hex_digit_facts:
  assumes "d < 16"
  shows "isxdigit (hex_digit d)" "xdigit_val (hex_digit d) = d" "hex_digit d \<noteq> CHR ''x''" "hex_digit d \<noteq> CHR ''X''"
proof -
  have "d = 0 \<or> d = 1 \<or> d = 2 \<or> d = 3 \<or> d = 4 \<or> d = 5 \<or> d = 6 \<or> d = 7 \<or> d = 8 \<or> d = 9 \<or> d = 10 \<or> d = 11
      \<or> d = 12 \<or> d = 13 \<or> d = 14 \<or> d = 15"
    using assms by presburger
  then have "isxdigit (hex_digit d) \<and> xdigit_val (hex_digit d) = d \<and> hex_digit d \<noteq> CHR ''x'' \<and> hex_digit d \<noteq> CHR ''X''"
    by (elim disjE) (simp_all add: hex_digit_def isxdigit_def xdigit_val_def isdigit_def digit_val_def)
  then show "isxdigit (hex_digit d)" "xdigit_val (hex_digit d) = d" "hex_digit d \<noteq> CHR ''x''" "hex_digit d \<noteq> CHR ''X''" by blast+
qed

lemma isxdigit_not: "isxdigit c \<Longrightarrow> \<not> isspace c \<and> c \<noteq> CHR ''-'' \<and> c \<noteq> CHR ''+''"
  by (auto simp: isxdigit_def isdigit_def isspace_def)

lemma hex_fixed_facts:
  "length (hex_fixed k n) = k" "c \<in> set (hex_fixed k n) \<Longrightarrow> isxdigit c \<and> c \<noteq> CHR ''x'' \<and> c \<noteq> CHR ''X''"
  by (induction k arbitrary: n) (auto simp: hex_digit_facts)

lemma hex_fixed_value: "foldl (\<lambda>a c. 16 * a + xdigit_val c) 0 (hex_fixed k n) = n mod 16 ^ k"
proof (induction k arbitrary: n)
  case (Suc k)
  have "n mod (16 * 16 ^ k) = 16 * (n div 16 mod 16 ^ k) + n mod 16" by (rule mod_mult2_eq)
  then show ?case using Suc by (simp add: hex_digit_facts)
qed simp

lemma scan_hex_fixed:
  assumes "n < 16 ^ k" "2 \<le> k" "k \<le> 16" "isspace b" "isspace (hd r)" "r \<noteq> []"
  shows "scan_hex (b # hex_fixed k n @ r) = Some (n, r)"
proof -
  let ?h = "hex_fixed k n"
  have len: "length ?h = k" by (rule hex_fixed_facts)
  have x: "isxdigit c \<and> c \<noteq> CHR ''x'' \<and> c \<noteq> CHR ''X''" if "c \<in> set ?h" for c using hex_fixed_facts(2) [OF that] .
  obtain c d cs where h: "?h = c # d # cs" using len assms(2) by (cases ?h; cases "tl ?h") auto
  have c: "isxdigit c" "isxdigit d" "d \<noteq> CHR ''x''" "d \<noteq> CHR ''X''" using x [of c] x [of d] h by auto
  have r: "\<not> isxdigit (hd r)" using assms(5) isxdigit_not by blast
  have "dropWhile isspace (b # ?h @ r) = ?h @ r" using assms(4) c(1) isxdigit_not h by auto
  moreover have "takeWhile isxdigit (?h @ r) = ?h" "dropWhile isxdigit (?h @ r) = r"
    using x r assms(6) by (cases r; auto simp: takeWhile_append2 dropWhile_append2)+
  moreover have "n < 2 ^ 64"
  proof -
    have "(16 :: nat) ^ k \<le> 16 ^ 16" by (rule power_increasing) (use assms(3) in simp_all)
    then show ?thesis using assms(1) by simp
  qed
  moreover have "foldl (\<lambda>a c. 16 * a + xdigit_val c) 0 ?h = n" using hex_fixed_value [of k n] assms(1) by simp
  ultimately show ?thesis
    using c isxdigit_not [OF c(1)] h by (simp add: scan_hex_def Let_def)
qed

text \<open>The bytes of an address are reversed.\<close>

lemma addr_byte_less: "addr_byte i w < 256"
  by (simp add: addr_byte_def)

lemma bytes_of_sum:
  fixes a b c d :: nat
  assumes "a < 256" "b < 256" "c < 256" "d < 256"
  defines "n \<equiv> a * 256 ^ 3 + b * 256 ^ 2 + c * 256 + d"
  shows "n mod 256 = d" "n div 256 mod 256 = c" "n div 256 ^ 2 mod 256 = b" "n div 256 ^ 3 mod 256 = a" "n < 2 ^ 32"
proof -
  have n: "n = 256 * (256 * (256 * a + b) + c) + d" by (simp add: n_def)
  have s: "(256 * x + y) div 256 = x" "(256 * x + y) mod 256 = y" if "y < 256" for x y :: nat
    using that by simp_all
  have d1: "n div 256 = 256 * (256 * a + b) + c" unfolding n by (rule s) (rule assms)
  have "n div 256 ^ 2 = n div 256 div 256" by (simp add: power2_eq_square div_mult2_eq)
  also have "\<dots> = 256 * a + b" unfolding d1 by (rule s) (rule assms)
  finally have d2: "n div 256 ^ 2 = 256 * a + b" .
  have "n div 256 ^ 3 = n div 256 ^ 2 div 256" by (simp only: power3_eq_cube power2_eq_square div_mult2_eq)
  also have "\<dots> = a" unfolding d2 by (rule s) (rule assms)
  finally have d3: "n div 256 ^ 3 = a" .
  show "n mod 256 = d" unfolding n by (rule s) (rule assms)
  show "n div 256 mod 256 = c" unfolding d1 by (rule s) (rule assms)
  show "n div 256 ^ 2 mod 256 = b" unfolding d2 by (rule s) (rule assms)
  show "n div 256 ^ 3 mod 256 = a" unfolding d3 using assms by simp
  show "n < 2 ^ 32" using assms by (simp add: n_def)
qed

lemma addr_bytes_ntohl: "addr_bytes (ntohl w) = rev (addr_bytes w)"
proof -
  note b = bytes_of_sum [OF addr_byte_less [of 0 w] addr_byte_less [of 1 w] addr_byte_less [of 2 w] addr_byte_less [of 3 w]]
  have "unat (ntohl w) = addr_byte 0 w * 256 ^ 3 + addr_byte 1 w * 256 ^ 2 + addr_byte 2 w * 256 + addr_byte 3 w"
    unfolding ntohl_def unat_of_nat using b(5) by (intro mod_less) simp
  then show ?thesis using b(1-4) by (simp add: addr_bytes_def addr_byte_def [of _ "ntohl w"])
qed

text \<open>A line of \<^verbatim>\<open>/proc/net/route\<close>: fields between tabs, and whatever follows the mask.\<close>

record route =
  r_iface :: string
  r_dest :: "32 word"
  r_gateway :: "32 word"
  r_flags :: "16 word"
  r_refs :: nat
  r_use :: nat
  r_metric :: nat
  r_mask :: "32 word"
  r_rest :: string

definition route_line :: "route \<Rightarrow> string" where
  "route_line r =
     r_iface r @ TAB # hex_fixed 8 (unat (r_dest r)) @ TAB # hex_fixed 8 (unat (r_gateway r)) @ TAB # hex_fixed 4 (unat (r_flags r))
     @ TAB # show_nat (r_refs r) @ TAB # show_nat (r_use r) @ TAB # show_nat (r_metric r) @ TAB # hex_fixed 8 (unat (r_mask r))
     @ TAB # r_rest r"

definition route_ok :: "route \<Rightarrow> bool" where
  "route_ok r \<longleftrightarrow> r_iface r \<noteq> [] \<and> length (r_iface r) \<le> 15 \<and> (\<forall>c \<in> set (r_iface r). \<not> isspace c)
     \<and> NL \<notin> set (r_rest r) \<and> length (route_line r) < 511"

lemma scan_word_field:
  "w \<noteq> [] \<Longrightarrow> length w \<le> 15 \<Longrightarrow> \<forall>c \<in> set w. \<not> isspace c \<Longrightarrow> isspace b \<Longrightarrow> scan_word (w @ b # r) = Some (w, b # r)"
  by (cases w) (auto simp: scan_word_def Let_def takeWhile_append2)

lemma skip_number_field: "\<not> isdigit b \<Longrightarrow> skip_number (TAB # show_nat n @ b # r) = Some (b # r)"
  using scan_number_padded [of "[TAB]" "b # r" n] by (simp add: skip_number_def isspace_def)

lemma hex_word: "unat (w :: 32 word) < 16 ^ 8" "unat (v :: 16 word) < 16 ^ 4"
  using unsigned_less [of w, where ?'a = nat] unsigned_less [of v, where ?'a = nat] by simp_all

lemma scan_hex_field:
  "n < 16 ^ k \<Longrightarrow> 2 \<le> k \<Longrightarrow> k \<le> 16 \<Longrightarrow> scan_hex (TAB # hex_fixed k n @ TAB # r) = Some (n, TAB # r)"
  by (rule scan_hex_fixed) (simp_all add: isspace_def)

lemma route_fields_line:
  assumes "route_ok r"
  shows "route_fields (route_line r @ [NL]) = Some (unat (r_dest r), unat (r_gateway r))"
proof -
  have "isspace TAB" "\<not> isdigit TAB" by (simp_all add: isspace_def isdigit_def)
  moreover have "r_iface r \<noteq> []" "length (r_iface r) \<le> 15" "\<forall>c \<in> set (r_iface r). \<not> isspace c"
    using assms by (simp_all add: route_ok_def)
  ultimately show ?thesis
    by (simp add: route_fields_def route_line_def scan_word_field scan_hex_field [OF hex_word(1)] scan_hex_field [OF hex_word(2)] skip_number_field del: hex_fixed.simps)
qed

lemma route_line_no_NL:
  assumes "route_ok r"
  shows "NL \<notin> set (route_line r)"
proof -
  have x: "NL \<notin> set (hex_fixed k n)" for k n using hex_fixed_facts(2) [of NL k n] by (auto simp: isxdigit_def isdigit_def)
  have s: "NL \<notin> set (show_nat n)" for n by (auto dest: show_nat_digits simp: isdigit_def)
  have "NL \<notin> set (r_iface r)" "NL \<notin> set (r_rest r)" using assms by (auto simp: route_ok_def isspace_def)
  then show ?thesis using x s by (simp add: route_line_def del: hex_fixed.simps)
qed

lemma default_route_line:
  assumes "route_ok r"
  shows "default_route (route_line r @ [NL]) =
    (if r_dest r = 0 \<and> r_gateway r \<noteq> 0 then Some (unat (r_gateway r)) else None)"
  using route_fields_line [OF assms] by (simp add: default_route_def unat_eq_0 unat_gt_0)

definition route_text :: "string \<Rightarrow> route list \<Rightarrow> string" where
  "route_text header rs = header @ NL # concat (map (\<lambda>r. route_line r @ [NL]) rs)"

lemma default_routes:
  "\<forall>r \<in> set rs. route_ok r \<Longrightarrow>
   List.map_filter default_route (map (\<lambda>r. route_line r @ [NL]) rs) = map (\<lambda>r. unat (r_gateway r)) (filter (\<lambda>r. r_dest r = 0 \<and> r_gateway r \<noteq> 0) rs)"
  by (induction rs) (simp_all add: map_filter_def default_route_line)

section \<open>The counters\<close>

text \<open>
  \<^verbatim>\<open>/proc/net/dev\<close>: two lines of headings, then a line for each interface with sixteen numbers.  The kernel puts
  blanks before a name that has less than six characters.
\<close>

definition padded :: "string \<Rightarrow> string" where
  "padded name = replicate (6 - length name) (CHR '' '') @ name"

definition dev_table :: "string \<Rightarrow> string \<Rightarrow> (string \<times> nat list) list \<Rightarrow> string" where
  "dev_table h1 h2 rows = concat (map (\<lambda>l. l @ [NL]) [h1, h2]) @ concat (map (\<lambda>(name, ns). dev_line (padded name) ns) rows)"

definition dev_row_ok :: "string \<times> nat list \<Rightarrow> bool" where
  "dev_row_ok row \<longleftrightarrow> (case row of (name, ns) \<Rightarrow>
     name \<noteq> [] \<and> length name \<le> 15 \<and> (\<forall>c \<in> set name. \<not> isspace c \<and> c \<noteq> CHR '':'') \<and> length ns = 16 \<and> (\<forall>n \<in> set ns. n < 2 ^ 64))"

lemma padded_facts:
  assumes "dev_row_ok (name, ns)"
  shows "NL \<notin> set (padded name)" "CHR '':'' \<notin> set (padded name)" "length (padded name) \<le> 15"
    "rtrim (\<lambda>c. c = CHR '' '') (padded name) = padded name"
proof -
  have n: "name \<noteq> []" "length name \<le> 15" "\<forall>c \<in> set name. \<not> isspace c \<and> c \<noteq> CHR '':''" using assms by (auto simp: dev_row_ok_def)
  show "NL \<notin> set (padded name)" "CHR '':'' \<notin> set (padded name)" using n(3) by (auto simp: padded_def isspace_def)
  show "length (padded name) \<le> 15" using n(2) by (simp add: padded_def)
  have "last name \<noteq> CHR '' ''" using n(1,3) last_in_set [of name] by (auto simp: isspace_def)
  then show "rtrim (\<lambda>c. c = CHR '' '') (padded name) = padded name"
    using n(1) by (intro rtrim_id) (simp add: padded_def)
qed

lemma padded_eq: "CHR '' '' \<notin> set name' \<Longrightarrow> padded name = name' \<longleftrightarrow> name = name' \<and> 6 \<le> length name'"
  by (auto simp: padded_def)

lemma dev_nums_line:
  "\<forall>n \<in> set ns. n < 2 ^ 64 \<Longrightarrow> dev_nums (length ns) (concat (map (\<lambda>n. CHR '' '' # show_nat n) ns) @ [NL]) = ns"
proof (induction ns)
  case (Cons n ns)
  let ?r = "concat (map (\<lambda>n. CHR '' '' # show_nat n) ns) @ [NL]"
  let ?q = "show_nat n @ ?r"
  obtain d ds where d: "show_nat n = d # ds" by (cases "show_nat n") auto
  have dig: "\<forall>c \<in> set (show_nat n). c \<noteq> CHR '' ''" by (auto dest: show_nat_digits simp: isdigit_def)
  have r: "?r = [] \<or> \<not> isdigit (hd ?r)" by (cases ns) (auto simp: isdigit_def)
  have "dropWhile (\<lambda>c. c = CHR '' '') (CHR '' '' # ?q) = ?q" using dig d by simp
  moreover have "scan_number ?q = Some (False, n, ?r)" using scan_number_padded [of "[]" ?r n] r by simp
  moreover have "strtoull ?q = (n, ?r)" using strtoull_padded [of "[]" ?r n] r Cons.prems by simp
  moreover have "dropWhile (\<lambda>c. c \<noteq> CHR '' '') ?q = dropWhile (\<lambda>c. c \<noteq> CHR '' '') ?r"
    using dig by (simp add: dropWhile_append2)
  moreover have "dev_nums (length ns) (dropWhile (\<lambda>c. c \<noteq> CHR '' '') ?r) = ns"
    using Cons by (cases ns) simp_all
  ultimately show ?case using d by (simp add: Let_def)
qed simp

lemma dev_line_facts:
  assumes "dev_row_ok (name, ns)"
  shows "dev_name (dev_line (padded name) ns) = Some (padded name)"
    "dev_nums 16 (tl (dropWhile (\<lambda>c. c \<noteq> CHR '':'') (dev_line (padded name) ns))) = ns"
    "\<exists>l. dev_line (padded name) ns = l @ [NL] \<and> NL \<notin> set l \<and> length l < 639"
proof -
  note p = padded_facts [OF assms]
  let ?nums = "concat (map (\<lambda>n. CHR '' '' # show_nat n) ns)"
  have ns: "length ns = 16" "\<forall>n \<in> set ns. n < 2 ^ 64" using assms by (auto simp: dev_row_ok_def)
  have "split_first CHR '':'' (dev_line (padded name) ns) = (padded name, Some (?nums @ [NL]))"
    using split_first_append [OF p(2)] by (simp add: dev_line_def)
  then show "dev_name (dev_line (padded name) ns) = Some (padded name)" using p(3,4) by (simp add: dev_name_def)
  have "dropWhile (\<lambda>c. c \<noteq> CHR '':'') (dev_line (padded name) ns) = CHR '':'' # ?nums @ [NL]"
    using p(2) unfolding dev_line_def by (subst dropWhile_append2) auto
  then show "dev_nums 16 (tl (dropWhile (\<lambda>c. c \<noteq> CHR '':'') (dev_line (padded name) ns))) = ns"
    using dev_nums_line [OF ns(2)] ns(1) by simp
  have "length (concat (map (\<lambda>n. CHR '' '' # show_nat n) ms)) \<le> 21 * length ms" if "\<forall>n \<in> set ms. n < 2 ^ 64" for ms
    using that
  proof (induction ms)
    case (Cons m ms)
    then show ?case using digits_text(1) [of m] by simp
  qed simp
  from this [OF ns(2)] have "length (padded name @ CHR '':'' # ?nums) < 639" using p(3) ns(1) by simp
  moreover have "NL \<notin> set (padded name @ CHR '':'' # ?nums)" using p(1) ns(2) digits_text(2) by auto
  ultimately show "\<exists>l. dev_line (padded name) ns = l @ [NL] \<and> NL \<notin> set l \<and> length l < 639"
    by (intro exI [of _ "padded name @ CHR '':'' # ?nums"]) (simp add: dev_line_def)
qed

lemma fgets_all_rows:
  "\<forall>row \<in> set rows. dev_row_ok row \<Longrightarrow>
   fgets_all 640 (concat (map (\<lambda>(name, ns). dev_line (padded name) ns) rows)) = map (\<lambda>(name, ns). dev_line (padded name) ns) rows"
proof (induction rows)
  case (Cons row rows)
  obtain name ns where row: "row = (name, ns)" by (cases row)
  then obtain l where "dev_line (padded name) ns = l @ [NL]" "NL \<notin> set l" "length l < 639"
    using dev_line_facts(3) [of name ns] Cons.prems by auto
  then show ?case using Cons row by (simp add: fgets_all_line)
qed simp

lemma find_row:
  "\<forall>row \<in> set rows. dev_row_ok row \<Longrightarrow> CHR '' '' \<notin> set name \<Longrightarrow>
   find (\<lambda>l. dev_name l = Some name) (map (\<lambda>(name, ns). dev_line (padded name) ns) rows) =
     (if length name < 6 then None else map_option (\<lambda>(name, ns). dev_line (padded name) ns) (find (\<lambda>row. fst row = name) rows))"
proof (induction rows)
  case (Cons row rows)
  then show ?case by (cases row) (auto simp: dev_line_facts padded_eq)
qed simp

text \<open>
  Interfaces with short names have no counters.  For every \<^verbatim>\<open>/proc/net/dev\<close> as the kernel prints it, the counters
  of an interface are the numbers of its line if its name has at least six characters, and are left alone
  otherwise, as for \<^verbatim>\<open>eth0\<close>, \<^verbatim>\<open>wlan0\<close> and \<^verbatim>\<open>lo\<close>.
\<close>

theorem np_counters_of_long_names:
  assumes "fs ''/proc/net/dev'' = Some (dev_table h1 h2 rows)" "NL \<notin> set h1 \<and> length h1 < 639" "NL \<notin> set h2 \<and> length h2 < 639"
    "\<forall>row \<in> set rows. dev_row_ok row" "CHR '' '' \<notin> set name"
  shows "proc_dev_stats fs name i =
    (case find (\<lambda>row. fst row = name) rows of
       None \<Rightarrow> i | Some (_, ns) \<Rightarrow> if length name < 6 then i else dev_stats ns i)"
proof -
  have "fgets_all 640 (dev_table h1 h2 rows) = (h1 @ [NL]) # (h2 @ [NL]) # map (\<lambda>(name, ns). dev_line (padded name) ns) rows"
    using fgets_all_lines [of "[h1, h2]" 640] assms(2,3) fgets_all_rows [OF assms(4)] by (simp add: dev_table_def)
  then have look: "find (\<lambda>l. dev_name l = Some name) (drop 2 (fgets_all 640 (dev_table h1 h2 rows))) =
      (if length name < 6 then None else map_option (\<lambda>(name, ns). dev_line (padded name) ns) (find (\<lambda>row. fst row = name) rows))"
    using find_row [OF assms(4,5)] by simp
  show ?thesis
  proof (cases "find (\<lambda>row. fst row = name) rows")
    case None
    then show ?thesis using look assms(1) by (simp add: proc_dev_stats_def)
  next
    case (Some row)
    obtain n ns where row: "row = (n, ns)" by (cases row)
    then have "dev_row_ok (n, ns)" using Some assms(4) by (auto dest: find_SomeD)
    from dev_line_facts(2) [OF this] show ?thesis
      using look assms(1) Some row by (simp add: proc_dev_stats_def)
  qed
qed

lemma np_counters_of_long_names_witness:
  "\<forall>i. proc_dev_stats [''/proc/net/dev'' \<mapsto> dev_table ''Inter-|'' '' face |'' [(''eth0'', [1..<17]), (''enp0s3'', [21..<37])]] ''eth0'' i = i
    \<and> np_tx_bytes (proc_dev_stats [''/proc/net/dev'' \<mapsto> dev_table ''Inter-|'' '' face |'' [(''eth0'', [1..<17]), (''enp0s3'', [21..<37])]] ''enp0s3'' i) = 29"
proof -
  let ?rows = "[(''eth0'', [1..<17]), (''enp0s3'', [21..<37])]"
  have "\<forall>row \<in> set ?rows. dev_row_ok row" by (auto simp: dev_row_ok_def isspace_def)
  then show ?thesis
    using np_counters_of_long_names [of "[''/proc/net/dev'' \<mapsto> dev_table ''Inter-|'' '' face |'' ?rows]" "''Inter-|''" "'' face |''" ?rows]
    by (simp add: dev_stats_def)
qed

text \<open>
  C26. The interfaces are the addresses grouped by name.  Whenever the system lists addresses under names that fit, the
  operation reports for each name, in the order of the first address of each and as many as there is room for, one
  entry made from all of its addresses in their order, filled in from the files, with the gateway at the first that
  has an IPv4 address.
\<close>

theorem np_interfaces_grouped:
  assumes "\<forall>n \<in> set (named es). length n < 64" "0 < cap"
  shows "np_get_interfaces_impl ntop6 fs (Inr es) True cap =
    (0, set_gateway (proc_default_gateway fs) (map (\<lambda>n. fill_iface fs (iface_of ntop6 es n)) (take (nat cap) (firsts (named es)))))"
  using gather_all_grouped [OF assms(1), of ntop6 "nat cap"] assms(2)
  by (simp add: np_get_interfaces_impl_def comp_def)

lemma np_interfaces_grouped_witness:
  "map (\<lambda>i. (np_name i, np_ipv4 i)) (snd (np_get_interfaces_impl (\<lambda>_. []) (\<lambda>_. None)
     (Inr [\<lparr>ia_name = Some ''lo'', ia_up = True, ia_addr = Some OtherFamily, ia_netmask = None\<rparr>,
           \<lparr>ia_name = Some ''eth0'', ia_up = True, ia_addr = Some (Inet 0x0201A8C0), ia_netmask = None\<rparr>,
           \<lparr>ia_name = Some ''lo'', ia_up = True, ia_addr = Some (Inet 0x0100007F), ia_netmask = None\<rparr>]) True 8))
   = [(''lo'', ''127.0.0.1''), (''eth0'', ''192.168.1.2'')]"
proof -
  let ?es = "[\<lparr>ia_name = Some ''lo'', ia_up = True, ia_addr = Some OtherFamily, ia_netmask = None\<rparr>,
    \<lparr>ia_name = Some ''eth0'', ia_up = True, ia_addr = Some (Inet 0x0201A8C0), ia_netmask = None\<rparr>,
    \<lparr>ia_name = Some ''lo'', ia_up = True, ia_addr = Some (Inet 0x0100007F), ia_netmask = None\<rparr>]"
  have named: "named ?es = [''lo'', ''eth0'', ''lo'']" by (simp add: named_def map_filter_def)
  have ip: "inet_ntop4 0x0100007F = ''127.0.0.1''" "inet_ntop4 0x0201A8C0 = ''192.168.1.2''"
    by (simp_all add: inet_ntop4_def addr_bytes_def addr_byte_def show_nat.simps digit_def char_of_def bit_0)
  have "\<forall>n \<in> set (named ?es). length n < 64" by (simp add: named)
  then show ?thesis
    using np_interfaces_grouped [of ?es 8 "\<lambda>_. []" "\<lambda>_. None"]
    by (simp add: named firsts_def iface_of_def addrs_of_def fill_iface_def read_txt_def proc_dev_stats_def proc_default_gateway_def
        set_gateway_def set_addr_def new_iface_def cstr_def ip)
qed

text \<open>
  C39. The gateway is reported backwards.  For every table of routes as the kernel prints it, the gateway is that of
  the first default route, with the four numbers of its address in the opposite order.
\<close>

theorem np_gateway_reversed:
  assumes "fs ''/proc/net/route'' = Some (route_text header rs)" "NL \<notin> set header" "length header < 511" "\<forall>r \<in> set rs. route_ok r"
  shows "proc_default_gateway fs =
    (case filter (\<lambda>r. r_dest r = 0 \<and> r_gateway r \<noteq> 0) rs of [] \<Rightarrow> [] | r # _ \<Rightarrow> dotted (rev (addr_bytes (r_gateway r))))"
proof -
  have "fgets_all 512 (route_text header rs) = map (\<lambda>l. l @ [NL]) (header # map route_line rs)"
    using fgets_all_lines [of "header # map route_line rs" 512 "[]"] assms(2-4) route_line_no_NL
    by (simp add: route_text_def route_ok_def comp_def)
  then have "drop 1 (fgets_all 512 (route_text header rs)) = map (\<lambda>r. route_line r @ [NL]) rs" by (simp add: comp_def)
  then show ?thesis
    using default_routes [OF assms(4)] assms(1)
    by (simp add: proc_default_gateway_def inet_ntop4_def addr_bytes_ntohl split: list.split)
qed

lemma np_gateway_reversed_witness:
  "proc_default_gateway [''/proc/net/route'' \<mapsto> route_text ''Iface''
     [\<lparr>r_iface = ''eth0'', r_dest = 0, r_gateway = 0x0101A8C0, r_flags = 3, r_refs = 0, r_use = 0, r_metric = 100, r_mask = 0, r_rest = []\<rparr>]]
   = ''1.1.168.192''"
proof -
  let ?r = "\<lparr>r_iface = ''eth0'', r_dest = 0, r_gateway = 0x0101A8C0, r_flags = 3, r_refs = 0, r_use = 0, r_metric = 100, r_mask = 0, r_rest = []\<rparr>"
  have "length (show_nat n) \<le> 20" if "n < 2 ^ 64" for n using digits_text(1) [OF that] .
  from this [of 0] this [of 100] have "length (show_nat 0) \<le> 20" "length (show_nat 100) \<le> 20" by simp_all
  then have "length (route_line ?r) < 511"
    by (simp add: route_line_def hex_fixed_facts(1) del: hex_fixed.simps)
  then have "route_ok ?r" by (simp add: route_ok_def isspace_def)
  moreover have "dotted (rev (addr_bytes 0x0101A8C0)) = ''1.1.168.192''"
    by (simp add: addr_bytes_def addr_byte_def show_nat.simps digit_def char_of_def bit_0)
  ultimately show ?thesis
    using np_gateway_reversed [of "[''/proc/net/route'' \<mapsto> route_text ''Iface'' [?r]]" "''Iface''" "[?r]"] by simp
qed

end
