(* ===== verification/Spec2Isabelle.thy ===== *)
theory Spec2Isabelle
  imports System BusCliCorrect BusLog FspFile SpLife HwLock CompressCorrect Terminal CryptoCorrect SpKeyRing LoaderCorrect ConsoleCorrect PmpCorrect GitCorrect HapCorrect NpIfaceCorrect Permission AuditLog Shell NpConn SpAuth FspPath StorageRegistry
begin

text \<open>
  HWRun OS: a verification development of the user-space system of the repository, a bus that loads plugins,
  and of its kernel module.

  \<^bold>\<open>The system.\<close>  The core library and the bus (\<^verbatim>\<open>bus/src\<close>) keep a tree of parameters, a registry of
  protocols (METAPROTO), the plugins found in a directory and the locks they share.  A plugin is described by
  a \<^verbatim>\<open>plugin.yml\<close>, is started when the protocols it requires are there, and registers the protocols it
  provides; a protocol nobody provides is looked up in the kernel module (\<^verbatim>\<open>kernel/modules\<close>) through a device
  file.  The other directories are plugins: each is a table of functions over a state of its own.  They
  call each other only through the bus, so that each is a theory by itself here; \<open>Bus\<close> composes the core, and
  \<open>System\<close> all of them.

  \<^bold>\<open>Conventions.\<close>  A C string is a \<^typ>\<open>string\<close> without NUL, a pointer that may be NULL an option, a structure a record,
  a linked list a list with the head first; \<open>snprintf\<close> into a buffer of \<open>n\<close> bytes is \<open>cstr n\<close>.  Integers whose
  width matters are words, return codes integers with the numbers of \<^verbatim>\<open>errno\<close>.  Every early return is a branch.
  What the operating system, a library or another program answers is a parameter: either the answer itself
  (an error or a value), or a record of functions whose documented behaviour is a named predicate
  (\<open>zlib_ok\<close>, \<open>openssl_ok\<close>, \<open>evp_ok\<close> and the like), which a small instance satisfies in the witnesses.  Memory that may
  run out is a flag or a list of them.  Undefined behaviour is a value (\<open>Fault\<close>, \<open>Crash\<close>), and so is a loop that
  does not end.  Locks are left out of the operations they surround; where threads can interfere, the
  interleaving is an argument.

  \<^bold>\<open>Prelude and interfaces.\<close>  \<open>Prelude\<close> holds the vocabulary: buffers, trimming, tokens, \<open>fgets\<close>, numbers as text,
  allocation, lists changed at their first match.  \<open>Interfaces\<close> states as locales what several components promise: a table
  that is written key by key (\<open>kv_store\<close>; the parameter tree, the registry, aliases, connections), a log that drops
  its oldest entries (\<open>bounded_log\<close>; the shell history, the audit log), a decision through roles
  (\<open>role_policy\<close>; PERMISSION and SP), a state that survives a restart (\<open>persistent\<close>; volumes).  Each is interpreted
  in the theory of the component.

  \<^bold>\<open>Core and bus.\<close>
  \<^item> \<open>HwRun\<close>, \<open>Param\<close>: \<^verbatim>\<open>hwrun.c\<close>, \<^verbatim>\<open>param.c\<close>.  The tree of parameters, its paths, saving and loading.  A write is seen
    by exactly the reads of its path, and a saved tree is read back.
  \<^item> \<open>HwLock\<close>: \<^verbatim>\<open>hwlock.c\<close> as a state machine of threads whose lock calls may fail; a writer excludes everyone else,
    unless a call fails while \<^verbatim>\<open>errno\<close> is 0.
  \<^item> \<open>MetaProto\<close>: \<^verbatim>\<open>metaproto.c\<close>.  Registration, priorities, versions, dependencies.
  \<^item> \<open>Kctl\<close>: the module \<^verbatim>\<open>hwrun_core.c\<close> and its client \<^verbatim>\<open>kctl.c\<close>, with the bytes that cross the boundary.
  \<^item> \<open>Yml\<close>: \<^verbatim>\<open>yml.c\<close>, the reader of \<^verbatim>\<open>plugin.yml\<close>.
  \<^item> \<open>Bus\<close>: \<^verbatim>\<open>bus.c\<close>, \<^verbatim>\<open>loader.c\<close>, \<^verbatim>\<open>runtime.c\<close>.  Scanning, starting in the order of the dependencies, stopping.  A start
    either registers everything or leaves the registry as it was; the boot walks once through a fixed order, and
    leaves every plugin it finds started or in error.
  \<^item> \<open>BusLog\<close>: \<^verbatim>\<open>log.c\<close>.  A write is a line, and a message with a line feed can forge another.
  \<^item> \<open>BusCli\<close>, \<open>BusCliCorrect\<close>: \<^verbatim>\<open>main.c\<close>.  A run of the program is a process over a file; what is set in one run is what a
    later run prints.

  \<^bold>\<open>Plugins.\<close>
  \<^item> \<open>Permission\<close>: \<^verbatim>\<open>permission_impl.c\<close>.  A check succeeds exactly if a role bound to the subject has a permission whose
    patterns match; there is no inheritance between roles.  A policy whose texts carry no white space at their ends survives a reload.
  \<^item> \<open>AuditLog\<close>: \<^verbatim>\<open>audit_impl.c\<close>.  Rotation of the segments, appending, the format of a line and its reader.
  \<^item> \<open>Shell\<close>: \<^verbatim>\<open>shell_impl.c\<close>.  The ring of the history, aliases, splitting and expansion of a line.
  \<^item> \<open>NpConn\<close>: \<^verbatim>\<open>np_conn.c\<close>, \<^verbatim>\<open>np_socket.c\<close>, \<^verbatim>\<open>np.c\<close>.  The table of connections tracks the open sockets.
  \<^item> \<open>NpIface\<close>, \<open>NpIfaceCorrect\<close>: \<^verbatim>\<open>np_interface.c\<close>, \<^verbatim>\<open>np_resolve.c\<close>, \<^verbatim>\<open>np.c\<close>.  The interfaces are the addresses of the system grouped by name.
  \<^item> \<open>FspPath\<close>, \<open>FspFile\<close>: \<^verbatim>\<open>fsp/src\<close>.  Paths as text, mount tables, lists of directories, and the calls of the kernel.
  \<^item> \<open>FileTree\<close>, \<open>TreeCopy\<close>, \<open>Storage\<close>, \<open>StorageSnapshots\<close>, \<open>StorageRegistry\<close>: \<^verbatim>\<open>storage_impl.c\<close> over a file system of nested
    directories, links and mounts.  A restored snapshot gives the volume back; the registry keeps its invariant
    across restarts from the state file as it is, as long as no name or path ends in a blank, which the reader trims away.
  \<^item> \<open>Compress\<close>, \<open>CompressSpec\<close>, \<open>CompressDemo\<close>, \<open>CompressCorrect\<close>: \<^verbatim>\<open>compress_impl.c\<close> over any zlib and libzstd that keep
    their streaming contracts.  Reading, writing and closing may fail.  Buffers come back, and of files what could be
    read of them; decompression has a verdict for every stream of zlib and gzip within the bounds that are stated.
  \<^item> \<open>Terminal\<close>: \<^verbatim>\<open>terminal_impl.c\<close> with the descriptors, children and signals it acts on.
  \<^item> \<open>Crypto\<close>, \<open>CryptoCorrect\<close>: \<^verbatim>\<open>crypto_impl.c\<close> over any EVP library that keeps its contract, which
    follows a context from its set-up for one direction to its end.
  \<^item> \<open>SpUtil\<close>, \<open>ShWords\<close>, \<open>SpShell\<close>, \<open>SpCrypto\<close>, \<open>SpCryptoCorrect\<close>, \<open>SpKey\<close>, \<open>SpKeyCorrect\<close>, \<open>SpKeyRing\<close>, \<open>SpAuth\<close>: \<^verbatim>\<open>sp/src\<close>, which runs the
    \<^verbatim>\<open>openssl\<close> program through a shell.  Command lines are read back as words (\<open>ShWords\<close>), so that
    the contracts speak of arguments and not of spelling.  A signature is related to a key and data, not computed from them.  \<open>SpLife\<close> has the life cycle and the self test.
  \<^item> \<open>Loader\<close>, \<open>LoaderCorrect\<close>: \<^verbatim>\<open>loader/src\<close>.  Formats, ELF headers in a memory with addresses of 64 bits, running.
  \<^item> \<open>Console\<close>, \<open>ConsoleCorrect\<close>: \<^verbatim>\<open>console_impl.c\<close>.  Sessions as channels of lines; the doubling of a buffer is a partial
    function, shown to end for every size below 2^63.
  \<^item> \<open>Pmp\<close>, \<open>PmpCorrect\<close>: \<^verbatim>\<open>pmp/src\<close>.  The reader of \<^verbatim>\<open>/proc\<close> and the table of tasks with the children that live.
  \<^item> \<open>Git\<close>, \<open>GitQuery\<close>, \<open>GitCorrect\<close>: \<^verbatim>\<open>git/src\<close> over any shell, files and clock; what an operation asks of them is a trace.
  \<^item> \<open>Hap\<close>, \<open>HapCorrect\<close>: \<^verbatim>\<open>hap/src\<close> over any files, directories and addresses.

  \<^bold>\<open>The system.\<close>
  \<^item> \<open>YmlFile\<close>, \<open>ShippedYml\<close>: the form of the \<^verbatim>\<open>plugin.yml\<close> files of the repository, that the bus reads it, and the fifteen files.
  \<^item> \<open>Plugins\<close>: the entry files and \<^verbatim>\<open>hwrun_plugin.h\<close>.  The callbacks of each plugin over the state its theory models, and its descriptor.
  \<^item> \<open>Boot\<close>, \<open>System\<close>: from the directory with the plugins to the running system.  The order of the boot meets every dependency,
    so that everything starts, whatever the order of the directory, without the code of the plugins as the bus is
    written, and with it if it were loaded.

  \<^bold>\<open>Lemmas.\<close>  Each theory has the invariant of its state and that every operation keeps it, the behaviour of the
  operations on every branch, and round trips of its formats; the last section of a theory (or its
  theory \<open>...Correct\<close>) states the properties.  Some of them are about what the code does and should not do: they
  say exactly when a record is lost, a guard passed or a report wrong.

  \<^bold>\<open>Not modelled.\<close>  The probes for the emulator (\<^verbatim>\<open>kernel/qemu\<close>), which print the state of the machine, the test programs, and
  the build files and scripts.  Of the other programs:
  tables of function pointers and the log lines of the plugins.
\<close>

end
